(* ===== verification/Prelude.thy ===== *)
theory Prelude imports Main begin

text \<open>
  Shared ground of the development: the faults a run of the program can end in, the
  error monad in which the operations are written, the conversions between the
  program's integer types, and generic lemmas on lists of equally long lines.

  The result of an operation that may abort is \<open>fault + 'a\<close>: \<open>Inl\<close> carries the
  fault, \<open>Inr\<close> the value. \<open>PSAssert\<close> and \<open>assert\<close> failures, \<open>PSAbort\<close>, \<open>exit\<close>
  and memory errors are all values of type \<open>fault\<close>.
\<close>

named_theorems err_simps \<open>evaluation of the error monad\<close>
named_theorems mem_simps \<open>evaluation of memory operations inside their blocks\<close>

subsection \<open>Faults and the error monad\<close>

datatype fault =
    AssertFailed        \<comment> \<open>\<open>PSAssert\<close> or \<open>assert\<close>\<close>
  | Aborted int         \<comment> \<open>\<open>PSAbort(code)\<close>\<close>
  | Exited int          \<comment> \<open>\<open>exit(code)\<close>\<close>
  | OutOfBounds         \<comment> \<open>access past the end of a memory block or a vector\<close>
  | NullPointer
  | DanglingPointer     \<comment> \<open>access to a block or object already deleted\<close>
  | BadFree             \<comment> \<open>\<open>free\<close> of something that is not a live block\<close>
  | OverlappingCopy     \<comment> \<open>\<open>memcpy\<close> on overlapping ranges\<close>
  | ParseFailure        \<comment> \<open>a stream extraction that throws\<close>
  | TypeMismatch        \<comment> \<open>a message read at another type than it was sent\<close>
  | Truncated           \<comment> \<open>a message longer than the receive buffer\<close>
  | Blocked             \<comment> \<open>a receive with no matching message\<close>
  | DivideByZero
  | UncaughtException   \<comment> \<open>a thrown exception that no caller catches\<close>

definition bindE :: "'e + 'a \<Rightarrow> ('a \<Rightarrow> 'e + 'b) \<Rightarrow> 'e + 'b" where
  "bindE m f = (case m of Inl e \<Rightarrow> Inl e | Inr x \<Rightarrow> f x)"

definition assertE :: "bool \<Rightarrow> fault + unit" where
  "assertE c = (if c then Inr () else Inl AssertFailed)"

fun foldE :: "('a \<Rightarrow> 's \<Rightarrow> 'e + 's) \<Rightarrow> 'a list \<Rightarrow> 's \<Rightarrow> 'e + 's" where
  "foldE f [] s = Inr s"
| "foldE f (x # xs) s = bindE (f x s) (foldE f xs)"

lemma bindE_Inl [simp, err_simps]: "bindE (Inl e) f = Inl e"
  by (simp add: bindE_def)

lemma bindE_Inr [simp, err_simps]: "bindE (Inr x) f = f x"
  by (simp add: bindE_def)

lemma bindE_assoc: "bindE (bindE m f) g = bindE m (\<lambda>x. bindE (f x) g)"
  by (cases m) simp_all

lemma bindE_eq_Inr: "bindE m f = Inr y \<longleftrightarrow> (\<exists>x. m = Inr x \<and> f x = Inr y)"
  by (cases m) simp_all

lemma bindE_cong [fundef_cong]:
  "m = m' \<Longrightarrow> (\<And>x. m' = Inr x \<Longrightarrow> f x = f' x) \<Longrightarrow> bindE m f = bindE m' f'"
  by (cases m') simp_all

lemma assertE_True [simp, err_simps]: "assertE True = Inr ()"
  by (simp add: assertE_def)

lemma assertE_False [simp, err_simps]: "assertE False = Inl AssertFailed"
  by (simp add: assertE_def)

lemma assertE_eq_Inr [simp]: "assertE c = Inr u \<longleftrightarrow> c"
  by (simp add: assertE_def)

lemma foldE_append: "foldE f (xs @ ys) s = bindE (foldE f xs s) (foldE f ys)"
  by (induction xs arbitrary: s) (auto simp: bindE_def split: sum.splits)

lemma foldE_snoc: "foldE f (xs @ [x]) s = bindE (foldE f xs s) (f x)"
  by (simp add: foldE_append) (simp add: bindE_def split: sum.splits)

lemma find_append:
  "List.find P (xs @ ys) = (case List.find P xs of None \<Rightarrow> List.find P ys | Some x \<Rightarrow> Some x)"
  by (induction xs) simp_all

lemma foldE_invariant:
  assumes "foldE f xs s = Inr t" and "I s"
    and "\<And>x u v. x \<in> set xs \<Longrightarrow> I u \<Longrightarrow> f x u = Inr v \<Longrightarrow> I v"
  shows "I t"
  using assms by (induction xs arbitrary: s) (auto simp: bindE_eq_Inr)

subsection \<open>Unsigned integer types\<close>

text \<open>
  \<open>size_t\<close> is 64 bits wide and \<open>unsigned\<close> 32: both are naturals below their modulus,
  and every conversion from a signed value reduces modulo it. Signed overflow is
  undefined in C++, so a signed \<open>PSIndex\<close> or \<open>int\<close> is a mathematical integer here and
  the theorems that need it bound the values.
\<close>

definition to_size :: "int \<Rightarrow> nat" where
  "to_size x = nat (x mod 2 ^ 64)"

definition size_mult :: "nat \<Rightarrow> nat \<Rightarrow> nat" where
  "size_mult a b = (a * b) mod 2 ^ 64"

definition size_add :: "nat \<Rightarrow> nat \<Rightarrow> nat" where
  "size_add a b = (a + b) mod 2 ^ 64"

definition to_unsigned :: "int \<Rightarrow> nat" where
  "to_unsigned x = nat (x mod 2 ^ 32)"

lemma to_size_id [simp]: "0 \<le> x \<Longrightarrow> x < 2 ^ 64 \<Longrightarrow> to_size x = nat x"
  by (simp add: to_size_def)

lemma to_size_of_nat [simp]: "n < 2 ^ 64 \<Longrightarrow> to_size (int n) = n"
  by (simp add: to_size_def)

lemma size_mult_id [simp]: "a * b < 2 ^ 64 \<Longrightarrow> size_mult a b = a * b"
  by (simp add: size_mult_def)

lemma size_add_id [simp]: "a + b < 2 ^ 64 \<Longrightarrow> size_add a b = a + b"
  by (simp add: size_add_def)

lemma to_unsigned_id [simp]: "0 \<le> x \<Longrightarrow> x < 2 ^ 32 \<Longrightarrow> to_unsigned x = nat x"
  by (simp add: to_unsigned_def)

lemma to_unsigned_less: "to_unsigned x < 2 ^ 32"
  by (simp add: to_unsigned_def nat_less_iff)

subsection \<open>Writing a run of cells into a list\<close>

definition list_write :: "'a list \<Rightarrow> nat \<Rightarrow> 'a list \<Rightarrow> 'a list" where
  "list_write xs k ys = take k xs @ ys @ drop (k + length ys) xs"

lemma length_list_write [simp]:
  "k + length ys \<le> length xs \<Longrightarrow> length (list_write xs k ys) = length xs"
  by (simp add: list_write_def)

lemma nth_list_write:
  assumes "k + length ys \<le> length xs" and "i < length xs"
  shows "list_write xs k ys ! i = (if k \<le> i \<and> i < k + length ys then ys ! (i - k) else xs ! i)"
  using assms by (auto simp: list_write_def nth_append)

lemma list_write_same [simp]:
  "k + n \<le> length xs \<Longrightarrow> list_write xs k (take n (drop k xs)) = xs"
  by (rule nth_equalityI) (auto simp: nth_list_write)

lemma list_write_Nil [simp]: "list_write xs k [] = xs"
  by (simp add: list_write_def)

lemma list_write_append:
  assumes "k + length ys + length zs \<le> length xs"
  shows "list_write (list_write xs k ys) (k + length ys) zs = list_write xs k (ys @ zs)"
  using assms by (intro nth_equalityI) (auto simp: nth_list_write nth_append)

lemma take_drop_list_write:
  assumes "k + length ys \<le> length xs"
  shows "take (length ys) (drop k (list_write xs k ys)) = ys"
  using assms by (simp add: list_write_def)

subsection \<open>Concatenation of equally long lines\<close>

lemma length_concat_uniform:
  "(\<And>ys. ys \<in> set xss \<Longrightarrow> length ys = L) \<Longrightarrow> length (concat xss) = length xss * L"
  by (induction xss) auto

lemma drop_concat_uniform:
  "(\<And>ys. ys \<in> set xss \<Longrightarrow> length ys = L) \<Longrightarrow> n \<le> length xss \<Longrightarrow>
   drop (n * L) (concat xss) = concat (drop n xss)"
proof (induction n)
  case 0
  then show ?case by simp
next
  case (Suc n)
  then have n: "n < length xss" by simp
  have "drop (Suc n * L) (concat xss) = drop L (drop (n * L) (concat xss))"
    by (simp add: add.commute)
  also have "\<dots> = drop L (concat (xss ! n # drop (Suc n) xss))"
    using Suc n by (simp add: Cons_nth_drop_Suc)
  also have "\<dots> = concat (drop (Suc n) xss)"
    using Suc.prems(1)[of "xss ! n"] n by simp
  finally show ?case .
qed

lemma take_drop_concat_uniform:
  assumes "\<And>ys. ys \<in> set xss \<Longrightarrow> length ys = L" and "n < length xss" and "k + m \<le> L"
  shows "take m (drop (n * L + k) (concat xss)) = take m (drop k (xss ! n))"
proof -
  have "drop (n * L + k) (concat xss) = drop k (drop (n * L) (concat xss))"
    by (simp add: add.commute)
  also have "\<dots> = drop k (xss ! n @ concat (drop (Suc n) xss))"
    using assms(1,2) by (simp add: drop_concat_uniform flip: Cons_nth_drop_Suc)
  finally show ?thesis
    using assms(1)[of "xss ! n"] assms(2,3) by simp
qed

subsection \<open>Mixed-radix arithmetic\<close>

text \<open>
  A pair of a digit below the radix and a quotient determines its number, and the other
  way round: the arithmetic behind every row-major offset.
\<close>

lemma radix_unique:
  fixes x x' w w' r :: nat
  assumes "x < r" and "x' < r" and "x + r * w = x' + r * w'"
  shows "x = x' \<and> w = w'"
proof -
  have "w = (x + r * w) div r" "w' = (x' + r * w') div r" using assms(1,2) by auto
  then have "w = w'" using assms(3) by metis
  with assms(3) show ?thesis by simp
qed

lemma radix_bound:
  fixes x w r n :: nat
  assumes "x < r" and "w < n"
  shows "x + r * w < r * n"
proof -
  have "x + r * w < r * Suc w" using assms(1) by simp
  also have "\<dots> \<le> r * n" using assms(2) by (simp del: mult_Suc_right)
  finally show ?thesis .
qed

lemma radix_split:
  fixes n r m :: nat
  assumes "n < r * m"
  shows "n mod r < r \<and> n div r < m \<and> n = n mod r + r * (n div r)"
  using assms by (auto simp: less_mult_imp_div_less mult.commute intro!: mod_less_divisor)
    (metis gr0I mult_0_right not_less0)

lemma nth_concat_uniform:
  assumes "\<And>ys. ys \<in> set xss \<Longrightarrow> length ys = L" and "n < length xss" and "k < L"
  shows "concat xss ! (n * L + k) = xss ! n ! k"
proof -
  have in_range: "n * L + k < length (concat xss)"
    using radix_bound[OF assms(3,2)] assms(1) by (simp add: length_concat_uniform mult.commute add.commute)
  have "hd (take 1 (drop (n * L + k) (concat xss))) = hd (take 1 (drop k (xss ! n)))"
    using take_drop_concat_uniform[of xss L n k 1] assms by simp
  then show ?thesis
    using in_range assms by (simp add: hd_drop_conv_nth)
qed

subsection \<open>Stores of cells\<close>

text \<open>
  What the code relies on wherever it keeps values under indices: a write to a valid index
  succeeds, is read back, and leaves every other index alone. The clients' lemma: after
  any sequence of writes a cell holds the last value written to it.
\<close>

locale cell_store =
  fixes ok :: "'s \<Rightarrow> bool"
    and index_ok :: "'i \<Rightarrow> bool"
    and value_ok :: "'v \<Rightarrow> bool"
    and rd :: "'s \<Rightarrow> 'i \<Rightarrow> 'v"
    and wr :: "'i \<Rightarrow> 'v \<Rightarrow> 's \<Rightarrow> 'e + 's"
  assumes wr_ok: "ok s \<Longrightarrow> index_ok i \<Longrightarrow> value_ok v \<Longrightarrow>
    \<exists>s'. wr i v s = Inr s' \<and> ok s' \<and> rd s' i = v \<and> (\<forall>j. index_ok j \<longrightarrow> j \<noteq> i \<longrightarrow> rd s' j = rd s j)"
begin

lemma writes_ok:
  assumes "ok s" and "\<forall>(i, v) \<in> set ivs. index_ok i \<and> value_ok v"
  shows "\<exists>s'. foldE (\<lambda>(i, v). wr i v) ivs s = Inr s' \<and> ok s' \<and>
    (\<forall>j. index_ok j \<longrightarrow> rd s' j = (case map_of (rev ivs) j of None \<Rightarrow> rd s j | Some v \<Rightarrow> v))"
  using assms
proof (induction ivs arbitrary: s)
  case Nil
  then show ?case by simp
next
  case (Cons iv ivs)
  obtain i v where iv: "iv = (i, v)" by (cases iv)
  obtain s1 where s1: "wr i v s = Inr s1" "ok s1" "rd s1 i = v"
      "\<forall>j. index_ok j \<longrightarrow> j \<noteq> i \<longrightarrow> rd s1 j = rd s j"
    using wr_ok[of s i v] Cons.prems iv by auto
  obtain s2 where s2: "foldE (\<lambda>(i, v). wr i v) ivs s1 = Inr s2" "ok s2"
      "\<forall>j. index_ok j \<longrightarrow> rd s2 j = (case map_of (rev ivs) j of None \<Rightarrow> rd s1 j | Some v \<Rightarrow> v)"
    using Cons.IH[of s1] Cons.prems s1 by auto
  have "\<forall>j. index_ok j \<longrightarrow>
      rd s2 j = (case map_of (rev (iv # ivs)) j of None \<Rightarrow> rd s j | Some v \<Rightarrow> v)"
    using s1 s2(3) iv by (auto simp: map_add_def split: option.splits)
  then show ?case using iv s1 s2 by auto
qed

end

end
