(* ===== verification/C_Memory.thy ===== *)
theory C_Memory imports Prelude "HOL-Library.Word" begin

text \<open>
  The part of the C library the runtime uses: a heap of blocks of cells with \<open>malloc\<close>,
  \<open>calloc\<close>, \<open>free\<close> and \<open>memcpy\<close>. A cell is a byte or, after \<open>malloc\<close>, indeterminate
  (\<open>None\<close>). A pointer is a block and an offset in bytes, which may lie outside the block
  until it is used. The heap has a finite number of bytes left, so an allocation can
  return \<open>Null\<close>; every access outside a live block is a fault.
\<close>

type_synonym cell = "8 word option"

datatype ptr = Null | Ptr nat int

record heap =
  blocks :: "nat \<Rightarrow> cell list option"
  fresh :: nat
  avail :: nat

definition heap_ok :: "heap \<Rightarrow> bool" where
  "heap_ok h \<longleftrightarrow> (\<forall>b. fresh h \<le> b \<longrightarrow> blocks h b = None)"

fun ptr_add :: "ptr \<Rightarrow> int \<Rightarrow> ptr" where
  "ptr_add Null n = Null"
| "ptr_add (Ptr b k) n = Ptr b (k + n)"

definition alloc :: "cell \<Rightarrow> nat \<Rightarrow> heap \<Rightarrow> ptr \<times> heap" where
  "alloc c n h =
     (if n \<le> avail h
      then (Ptr (fresh h) 0,
            h\<lparr>blocks := (blocks h)(fresh h \<mapsto> replicate n c), fresh := Suc (fresh h),
              avail := avail h - n\<rparr>)
      else (Null, h))"

definition malloc :: "nat \<Rightarrow> heap \<Rightarrow> ptr \<times> heap" where
  "malloc n h = alloc None n h"

definition calloc :: "nat \<Rightarrow> nat \<Rightarrow> heap \<Rightarrow> ptr \<times> heap" where
  "calloc n sz h = alloc (Some 0) (n * sz) h"

fun free :: "ptr \<Rightarrow> heap \<Rightarrow> fault + heap" where
  "free Null h = Inr h"
| "free (Ptr b k) h =
     (case blocks h b of
        None \<Rightarrow> Inl BadFree
      | Some cs \<Rightarrow>
          if k = 0
          then Inr (h\<lparr>blocks := (blocks h)(b := None), avail := avail h + length cs\<rparr>)
          else Inl BadFree)"

fun load :: "ptr \<Rightarrow> nat \<Rightarrow> heap \<Rightarrow> fault + cell list" where
  "load Null n h = Inl NullPointer"
| "load (Ptr b k) n h =
     (case blocks h b of
        None \<Rightarrow> Inl DanglingPointer
      | Some cs \<Rightarrow>
          if 0 \<le> k \<and> nat k + n \<le> length cs then Inr (take n (drop (nat k) cs))
          else Inl OutOfBounds)"

fun store :: "ptr \<Rightarrow> cell list \<Rightarrow> heap \<Rightarrow> fault + heap" where
  "store Null ys h = Inl NullPointer"
| "store (Ptr b k) ys h =
     (case blocks h b of
        None \<Rightarrow> Inl DanglingPointer
      | Some cs \<Rightarrow>
          if 0 \<le> k \<and> nat k + length ys \<le> length cs
          then Inr (h\<lparr>blocks := (blocks h)(b \<mapsto> list_write cs (nat k) ys)\<rparr>)
          else Inl OutOfBounds)"

fun overlapping :: "ptr \<Rightarrow> ptr \<Rightarrow> nat \<Rightarrow> bool" where
  "overlapping (Ptr b k) (Ptr b' k') n \<longleftrightarrow> b = b' \<and> k < k' + int n \<and> k' < k + int n"
| "overlapping _ _ n \<longleftrightarrow> False"

text \<open>
  A copy of no bytes touches nothing, whatever its pointers are.
\<close>

definition memcpy :: "ptr \<Rightarrow> ptr \<Rightarrow> nat \<Rightarrow> heap \<Rightarrow> fault + heap" where
  "memcpy dst src n h =
     (if n = 0 then Inr h
      else if overlapping dst src n then Inl OverlappingCopy
      else bindE (load src n h) (\<lambda>ys. store dst ys h))"

definition contents :: "heap \<Rightarrow> ptr \<Rightarrow> cell list option" where
  "contents h p = (case p of Null \<Rightarrow> None | Ptr b k \<Rightarrow> if k = 0 then blocks h b else None)"

subsection \<open>Allocation\<close>

lemma ptr_add_0 [simp]: "ptr_add p 0 = p"
  by (cases p) simp_all

lemma ptr_add_add [simp]: "ptr_add (ptr_add p m) n = ptr_add p (m + n)"
  by (cases p) simp_all

lemma heap_ok_fresh: "heap_ok h \<Longrightarrow> blocks h b = Some cs \<Longrightarrow> b < fresh h"
  by (rule ccontr) (auto simp: heap_ok_def)

lemma alloc_ok:
  "n \<le> avail h \<Longrightarrow> alloc c n h = (Ptr (fresh h) 0,
     h\<lparr>blocks := (blocks h)(fresh h \<mapsto> replicate n c), fresh := Suc (fresh h), avail := avail h - n\<rparr>)"
  by (simp add: alloc_def)

lemma alloc_heap_ok: "heap_ok h \<Longrightarrow> alloc c n h = (p, h') \<Longrightarrow> heap_ok h'"
  by (auto simp: alloc_def heap_ok_def split: if_splits)

lemma calloc_heap_ok: "heap_ok h \<Longrightarrow> calloc n sz h = (p, h') \<Longrightarrow> heap_ok h'"
  unfolding calloc_def by (rule alloc_heap_ok)

lemma malloc_heap_ok: "heap_ok h \<Longrightarrow> malloc n h = (p, h') \<Longrightarrow> heap_ok h'"
  unfolding malloc_def by (rule alloc_heap_ok)

lemma free_heap_ok: "heap_ok h \<Longrightarrow> free p h = Inr h' \<Longrightarrow> heap_ok h'"
  by (cases p) (auto simp: heap_ok_def split: option.splits if_splits)

lemma store_heap_ok: "heap_ok h \<Longrightarrow> store p ys h = Inr h' \<Longrightarrow> heap_ok h'"
  by (cases p) (auto simp: heap_ok_def split: option.splits if_splits)

lemma memcpy_heap_ok: "heap_ok h \<Longrightarrow> memcpy dst src n h = Inr h' \<Longrightarrow> heap_ok h'"
  by (auto simp: memcpy_def bindE_eq_Inr split: if_splits intro: store_heap_ok)

subsection \<open>Copies between two blocks\<close>

lemma load_block [mem_simps]:
  "blocks h b = Some cs \<Longrightarrow> k + n \<le> length cs \<Longrightarrow>
   load (Ptr b (int k)) n h = Inr (take n (drop k cs))"
  by simp

lemma store_block [mem_simps]:
  "blocks h b = Some cs \<Longrightarrow> k + length ys \<le> length cs \<Longrightarrow>
   store (Ptr b (int k)) ys h = Inr (h\<lparr>blocks := (blocks h)(b \<mapsto> list_write cs k ys)\<rparr>)"
  by simp

lemma memcpy_blocks [mem_simps]:
  assumes "d \<noteq> s" and "blocks h s = Some S" and "blocks h d = Some D"
    and "i + n \<le> length S" and "j + n \<le> length D"
  shows "memcpy (Ptr d (int j)) (Ptr s (int i)) n h =
    Inr (h\<lparr>blocks := (blocks h)(d \<mapsto> list_write D j (take n (drop i S)))\<rparr>)"
proof (cases "n = 0")
  case True
  have "(blocks h)(d \<mapsto> D) = blocks h" using assms(3) by (simp add: fun_upd_idem)
  with True show ?thesis by (simp add: memcpy_def)
next
  case False
  with assms show ?thesis by (simp add: memcpy_def)
qed

lemma memcpy_frame:
  assumes "memcpy (Ptr d j) src n h = Inr h'" and "b \<noteq> d"
  shows "blocks h' b = blocks h b"
  using assms by (auto simp: memcpy_def bindE_eq_Inr split: if_splits option.splits)

end
