(* ===== verification/Index_Array.thy ===== *)
theory Index_Array imports Prelude "HOL-Library.Signed_Division" begin

text \<open>
  \<open>include/physis/internal_common.h\<close>: the fixed-size arrays \<open>IntegerArray<ty>\<close> of
  \<open>PS_MAX_DIM\<close> = 3 entries. The C++ class derives its storage and its comparison
  operators between two arrays from \<open>boost::array\<close>, which is not part of the repository:
  an operation that compares two arrays takes that comparison as an argument.
  An index at or past \<open>PS_MAX_DIM\<close> is never used by the runtime; \<open>at\<close> reads the last
  entry for it.
\<close>

definition PS_MAX_DIM :: nat where
  "PS_MAX_DIM = 3"

datatype 'a arr3 = Arr3 'a 'a 'a

type_synonym idx = "int arr3"

fun at :: "'a arr3 \<Rightarrow> nat \<Rightarrow> 'a" where
  "at (Arr3 x y z) i = (if i = 0 then x else if i = 1 then y else z)"

fun upd :: "'a arr3 \<Rightarrow> nat \<Rightarrow> 'a \<Rightarrow> 'a arr3" where
  "upd (Arr3 x y z) i v =
     (if i = 0 then Arr3 v y z else if i = 1 then Arr3 x v z else Arr3 x y v)"

definition arr_map2 :: "('a \<Rightarrow> 'b \<Rightarrow> 'c) \<Rightarrow> 'a arr3 \<Rightarrow> 'b arr3 \<Rightarrow> 'c arr3" where
  "arr_map2 f a b = Arr3 (f (at a 0) (at b 0)) (f (at a 1) (at b 1)) (f (at a 2) (at b 2))"

definition arr_all :: "('a \<Rightarrow> bool) \<Rightarrow> 'a arr3 \<Rightarrow> bool" where
  "arr_all P a \<longleftrightarrow> (\<forall>i \<in> set [0..<PS_MAX_DIM]. P (at a i))"

subsection \<open>Constructors and element-wise operators\<close>

definition IntegerArray0 :: "'a::zero arr3" where
  "IntegerArray0 = Arr3 0 0 0"

definition IntegerArray1 :: "'a::zero \<Rightarrow> 'a arr3" where
  "IntegerArray1 x = Arr3 x 0 0"

definition IntegerArray2 :: "'a::zero \<Rightarrow> 'a \<Rightarrow> 'a arr3" where
  "IntegerArray2 x y = Arr3 x y 0"

definition IntegerArray3 :: "'a \<Rightarrow> 'a \<Rightarrow> 'a \<Rightarrow> 'a arr3" where
  "IntegerArray3 x y z = Arr3 x y z"

definition arr_Set :: "'a \<Rightarrow> 'a arr3" where
  "arr_Set v = Arr3 v v v"

definition accumulate :: "int arr3 \<Rightarrow> nat \<Rightarrow> int" where
  "accumulate a len = fold (\<lambda>i v. v * at a i) [0..<len] 1"

definition arr_plus :: "'a::plus arr3 \<Rightarrow> 'a arr3 \<Rightarrow> 'a arr3" where
  "arr_plus a b = arr_map2 (+) a b"

definition arr_plus_scalar :: "'a::plus arr3 \<Rightarrow> 'a \<Rightarrow> 'a arr3" where
  "arr_plus_scalar a x = arr_map2 (+) a (arr_Set x)"

definition arr_minus :: "'a::minus arr3 \<Rightarrow> 'a arr3 \<Rightarrow> 'a arr3" where
  "arr_minus a b = arr_map2 (-) a b"

definition arr_minus_scalar :: "'a::minus arr3 \<Rightarrow> 'a \<Rightarrow> 'a arr3" where
  "arr_minus_scalar a x = arr_map2 (-) a (arr_Set x)"

definition arr_times :: "'a::times arr3 \<Rightarrow> 'a arr3 \<Rightarrow> 'a arr3" where
  "arr_times a b = arr_map2 (*) a b"

text \<open>\<open>operator/=\<close> stops at a zero divisor; C++ division truncates towards zero.\<close>

definition arr_divide :: "int arr3 \<Rightarrow> int arr3 \<Rightarrow> fault + int arr3" where
  "arr_divide a b =
     (if arr_all (\<lambda>x. x \<noteq> 0) b then Inr (arr_map2 (sdiv) a b) else Inl DivideByZero)"

subsection \<open>Comparisons with a scalar: every entry must satisfy them\<close>

definition arr_gt :: "'a::ord arr3 \<Rightarrow> 'a \<Rightarrow> bool" where
  "arr_gt a x \<longleftrightarrow> arr_all (\<lambda>v. v > x) a"

definition arr_lt :: "'a::ord arr3 \<Rightarrow> 'a \<Rightarrow> bool" where
  "arr_lt a x \<longleftrightarrow> arr_all (\<lambda>v. v < x) a"

definition arr_ge :: "'a::ord arr3 \<Rightarrow> 'a \<Rightarrow> bool" where
  "arr_ge a x \<longleftrightarrow> arr_all (\<lambda>v. v \<ge> x) a"

definition arr_le :: "'a::ord arr3 \<Rightarrow> 'a \<Rightarrow> bool" where
  "arr_le a x \<longleftrightarrow> arr_all (\<lambda>v. v \<le> x) a"

definition arr_eq :: "'a arr3 \<Rightarrow> 'a \<Rightarrow> bool" where
  "arr_eq a x \<longleftrightarrow> arr_all (\<lambda>v. v = x) a"

definition arr_neq :: "'a arr3 \<Rightarrow> 'a \<Rightarrow> bool" where
  "arr_neq a x \<longleftrightarrow> \<not> arr_eq a x"

subsection \<open>Clamping and partial comparisons\<close>

definition SetNoLessThan :: "'a::ord arr3 \<Rightarrow> 'a arr3 \<Rightarrow> 'a arr3" where
  "SetNoLessThan a x = arr_map2 max a x"

definition SetNoLessThan_scalar :: "'a::ord arr3 \<Rightarrow> 'a \<Rightarrow> 'a arr3" where
  "SetNoLessThan_scalar a x = arr_map2 max a (arr_Set x)"

definition SetNoMoreThan :: "'a::ord arr3 \<Rightarrow> 'a arr3 \<Rightarrow> 'a arr3" where
  "SetNoMoreThan a x = arr_map2 min a x"

definition SetNoMoreThan_scalar :: "'a::ord arr3 \<Rightarrow> 'a \<Rightarrow> 'a arr3" where
  "SetNoMoreThan_scalar a x = arr_map2 min a (arr_Set x)"

definition LessThan :: "'a::ord arr3 \<Rightarrow> 'a arr3 \<Rightarrow> nat \<Rightarrow> bool" where
  "LessThan a x n \<longleftrightarrow> (\<forall>i \<in> set [0..<n]. at a i < at x i)"

definition GreaterThan :: "'a::ord arr3 \<Rightarrow> 'a arr3 \<Rightarrow> nat \<Rightarrow> bool" where
  "GreaterThan a x n \<longleftrightarrow> (\<forall>i \<in> set [0..<n]. at a i > at x i)"

subsection \<open>Reading after writing\<close>

lemma at_Arr3 [simp]:
  "at (Arr3 x y z) 0 = x" "at (Arr3 x y z) (Suc 0) = y" "at (Arr3 x y z) 2 = z"
  by simp_all

declare at.simps [simp del]

lemma at_upd: "i < 3 \<Longrightarrow> j < 3 \<Longrightarrow> at (upd a i v) j = (if j = i then v else at a j)"
  by (cases a) (auto simp: at.simps)

lemma at_upd_num [simp]:
  "at (upd a 0 v) 0 = v" "at (upd a 0 v) (Suc 0) = at a (Suc 0)" "at (upd a 0 v) 2 = at a 2"
  "at (upd a (Suc 0) v) 0 = at a 0" "at (upd a (Suc 0) v) (Suc 0) = v" "at (upd a (Suc 0) v) 2 = at a 2"
  "at (upd a 2 v) 0 = at a 0" "at (upd a 2 v) (Suc 0) = at a (Suc 0)" "at (upd a 2 v) 2 = v"
  by (cases a; simp add: at.simps)+

lemma less3_cases: "(i::nat) < 3 \<Longrightarrow> i = 0 \<or> i = 1 \<or> i = 2"
  by auto

lemma arr3_eqI: "(\<And>i. i < 3 \<Longrightarrow> at a i = at b i) \<Longrightarrow> a = b"
proof (cases a, cases b)
  fix x y z u v w
  assume eq: "\<And>i. i < 3 \<Longrightarrow> at a i = at b i" and ab: "a = Arr3 x y z" "b = Arr3 u v w"
  show "a = b" using eq[of 0] eq[of 1] eq[of 2] by (simp add: ab)
qed

lemma at_map2: "i < 3 \<Longrightarrow> at (arr_map2 f a b) i = f (at a i) (at b i)"
  by (auto simp: arr_map2_def at.simps dest: less3_cases)

lemma at_map2_num [simp]:
  "at (arr_map2 f a b) 0 = f (at a 0) (at b 0)"
  "at (arr_map2 f a b) (Suc 0) = f (at a (Suc 0)) (at b (Suc 0))"
  "at (arr_map2 f a b) 2 = f (at a 2) (at b 2)"
  by (simp_all add: arr_map2_def)

lemma at_arr_Set [simp]: "at (arr_Set v) i = v"
  by (simp add: arr_Set_def at.simps)

lemma at_IntegerArray0 [simp]: "at IntegerArray0 i = 0"
  by (simp add: IntegerArray0_def at.simps)

lemma arr_all_iff: "arr_all P a \<longleftrightarrow> P (at a 0) \<and> P (at a 1) \<and> P (at a 2)"
  by (auto simp: arr_all_def PS_MAX_DIM_def upt_rec numeral_3_eq_3 numeral_2_eq_2)

lemmas arr_op_defs = arr_plus_def arr_plus_scalar_def arr_minus_def arr_minus_scalar_def
  arr_times_def SetNoLessThan_def SetNoLessThan_scalar_def SetNoMoreThan_def
  SetNoMoreThan_scalar_def

lemmas arr_cmp_defs = arr_gt_def arr_lt_def arr_ge_def arr_le_def arr_eq_def arr_neq_def
  arr_all_iff

lemma at_arr_plus: "i < 3 \<Longrightarrow> at (arr_plus a b) i = at a i + at b i"
  by (simp add: arr_plus_def at_map2)

lemma arr_plus_0 [simp]: "arr_plus IntegerArray0 (s :: idx) = s"
  by (rule arr3_eqI) (simp add: at_arr_plus)

lemma arr_eq_0 [simp]: "arr_eq (IntegerArray0 :: idx) 0"
  by (simp add: arr_cmp_defs)

lemma at_arr_minus: "i < 3 \<Longrightarrow> at (arr_minus a b) i = at a i - at b i"
  by (simp add: arr_minus_def at_map2)

lemma accumulate_0 [simp]: "accumulate a 0 = 1"
  by (simp add: accumulate_def)

lemma accumulate_Suc [simp]: "accumulate a (Suc n) = accumulate a n * at a n"
  by (simp add: accumulate_def)

lemma accumulate_num:
  "accumulate a 1 = at a 0" "accumulate a 2 = at a 0 * at a 1"
  "accumulate a 3 = at a 0 * at a 1 * at a 2"
  by (simp_all add: numeral_2_eq_2 numeral_3_eq_3)

lemma all_less_num:
  "(\<forall>i < 1. P i) \<longleftrightarrow> P (0 :: nat)" "(\<forall>i < 2. P i) \<longleftrightarrow> P (0 :: nat) \<and> P 1"
  "(\<forall>i < 3. P i) \<longleftrightarrow> P (0 :: nat) \<and> P 1 \<and> P 2"
  by (auto dest: less3_cases simp: less_Suc_eq numeral_2_eq_2)

lemma accumulate_nonneg: "(\<And>i. i < n \<Longrightarrow> 0 \<le> at a i) \<Longrightarrow> 0 \<le> accumulate a n"
  by (induction n) simp_all

lemma accumulate_eq_0_iff: "accumulate a n = 0 \<longleftrightarrow> (\<exists>i < n. at a i = 0)"
  by (induction n) (auto simp: less_Suc_eq)

lemma accumulate_cong: "(\<And>i. i < n \<Longrightarrow> at a i = at b i) \<Longrightarrow> accumulate a n = accumulate b n"
  by (induction n) simp_all

lemma accumulate_mono:
  "(\<And>i. i < n \<Longrightarrow> 0 \<le> at a i \<and> at a i \<le> at b i) \<Longrightarrow> accumulate a n \<le> accumulate b n"
proof (induction n)
  case (Suc n)
  have b: "0 \<le> at b i" if "i < Suc n" for i using Suc.prems[OF that] by linarith
  have "accumulate a n \<le> accumulate b n" "0 \<le> at a n" "at a n \<le> at b n" using Suc by auto
  moreover have "0 \<le> accumulate b n" using b by (intro accumulate_nonneg) auto
  ultimately show ?case by (simp add: mult_mono)
qed simp

end
