(* ===== verification/Host_Buffer.thy ===== *)
theory Host_Buffer imports C_Memory Index_Array begin

text \<open>
  \<open>runtime/buffer.h\<close> and \<open>runtime/buffer.cc\<close>: the class \<open>Buffer\<close> and its subclass
  \<open>BufferHost\<close>, a chunk of host memory sized for a number of elements. A method of
  \<open>Buffer\<close> that calls the virtual \<open>GetChunk\<close> takes it as an argument; the \<open>BufferHost\<close>
  versions pass the override. The comparison of two index arrays (\<open>boost::array\<close>) is the
  argument \<open>le\<close> of the operations that use it. The transfers over MPI are in
  \<open>MPI_Buffer\<close>.
\<close>

record buffer =
  buf_num_dims :: nat
  buf_elm_size :: nat
  buf_size :: idx
  buf_ptr :: ptr
  buf_deleter :: bool   \<comment> \<open>whether \<open>deleter_\<close> is set; \<open>BufferHost\<close> sets it to \<open>free\<close>\<close>

subsection \<open>Construction and sizes\<close>

definition Buffer_new1 :: "nat \<Rightarrow> buffer" where
  "Buffer_new1 e = \<lparr>buf_num_dims = 1, buf_elm_size = e, buf_size = IntegerArray0,
     buf_ptr = Null, buf_deleter = False\<rparr>"

definition Buffer_new :: "nat \<Rightarrow> nat \<Rightarrow> buffer" where
  "Buffer_new num_dims e = \<lparr>buf_num_dims = num_dims, buf_elm_size = e,
     buf_size = IntegerArray0, buf_ptr = Null, buf_deleter = False\<rparr>"

definition BufferHost_new1 :: "nat \<Rightarrow> buffer" where
  "BufferHost_new1 e = (Buffer_new1 e)\<lparr>buf_deleter := True\<rparr>"

definition BufferHost_new :: "nat \<Rightarrow> nat \<Rightarrow> buffer" where
  "BufferHost_new num_dims e = (Buffer_new num_dims e)\<lparr>buf_deleter := True\<rparr>"

text \<open>\<open>accumulate\<close> yields a \<open>PSIndex\<close>, which the product converts to \<open>size_t\<close>.\<close>

definition LinearSize_static :: "nat \<Rightarrow> nat \<Rightarrow> idx \<Rightarrow> nat" where
  "LinearSize_static num_dims e s = size_mult (to_size (accumulate s num_dims)) e"

definition GetLinearSize_of :: "buffer \<Rightarrow> idx \<Rightarrow> nat" where
  "GetLinearSize_of b s = size_mult (to_size (accumulate s (buf_num_dims b))) (buf_elm_size b)"

definition GetLinearSize :: "buffer \<Rightarrow> nat" where
  "GetLinearSize b = GetLinearSize_of b (buf_size b)"

subsection \<open>Allocation\<close>

definition DeleteChunk :: "buffer \<Rightarrow> ptr \<Rightarrow> heap \<Rightarrow> fault + heap" where
  "DeleteChunk b p h = bindE (assertE (buf_deleter b)) (\<lambda>_. free p h)"

definition Buffer_Delete :: "buffer \<Rightarrow> heap \<Rightarrow> fault + (buffer \<times> heap)" where
  "Buffer_Delete b h =
     bindE (if buf_ptr b \<noteq> Null then DeleteChunk b (buf_ptr b) h else Inr h)
       (\<lambda>h'. Inr (b\<lparr>buf_ptr := Null, buf_size := arr_Set 0\<rparr>, h'))"

type_synonym get_chunk = "buffer \<Rightarrow> idx \<Rightarrow> heap \<Rightarrow> fault + (ptr \<times> heap)"

definition Buffer_GetChunk :: get_chunk where
  "Buffer_GetChunk b s h = Inl (Aborted 1)"

definition BufferHost_GetChunk :: get_chunk where
  "BufferHost_GetChunk b sz h =
     (let s = to_size (accumulate sz (buf_num_dims b))
      in if s = 0 then Inr (Null, h)
         else (let (p, h') = calloc (buf_elm_size b) s h
               in bindE (assertE (p \<noteq> Null)) (\<lambda>_. Inr (p, h'))))"

definition Buffer_Allocate ::
    "get_chunk \<Rightarrow> nat \<Rightarrow> nat \<Rightarrow> idx \<Rightarrow> buffer \<Rightarrow> heap \<Rightarrow> fault + (buffer \<times> heap)" where
  "Buffer_Allocate chunk num_dims e sz b h =
     bindE (Buffer_Delete b h) (\<lambda>(b, h).
       if accumulate sz num_dims \<noteq> 0
       then bindE (chunk (b\<lparr>buf_num_dims := num_dims, buf_elm_size := e\<rparr>) sz h) (\<lambda>(p, h).
              if p = Null then Inl (Aborted 1)
              else Inr (b\<lparr>buf_num_dims := num_dims, buf_elm_size := e, buf_ptr := p,
                          buf_size := sz\<rparr>, h))
       else Inr (b\<lparr>buf_size := sz\<rparr>, h))"

definition Buffer_Allocate1 :: "get_chunk \<Rightarrow> idx \<Rightarrow> buffer \<Rightarrow> heap \<Rightarrow> fault + (buffer \<times> heap)" where
  "Buffer_Allocate1 chunk sz b h = Buffer_Allocate chunk (buf_num_dims b) (buf_elm_size b) sz b h"

definition Buffer_EnsureCapacity ::
    "get_chunk \<Rightarrow> nat \<Rightarrow> nat \<Rightarrow> idx \<Rightarrow> buffer \<Rightarrow> heap \<Rightarrow> fault + (buffer \<times> heap)" where
  "Buffer_EnsureCapacity chunk num_dims e sz b h =
     (let cur_size = GetLinearSize b; target_size = LinearSize_static num_dims e sz
      in if \<not> cur_size \<ge> target_size then Buffer_Allocate chunk num_dims e sz b h
         else Inr (b, h))"

definition Buffer_EnsureCapacity1 :: "get_chunk \<Rightarrow> idx \<Rightarrow> buffer \<Rightarrow> heap \<Rightarrow> fault + (buffer \<times> heap)" where
  "Buffer_EnsureCapacity1 chunk sz b h =
     Buffer_EnsureCapacity chunk (buf_num_dims b) (buf_elm_size b) sz b h"

definition Buffer_EnsureCapacity_scalar ::
    "get_chunk \<Rightarrow> nat \<Rightarrow> int \<Rightarrow> buffer \<Rightarrow> heap \<Rightarrow> fault + (buffer \<times> heap)" where
  "Buffer_EnsureCapacity_scalar chunk e sz b h =
     Buffer_EnsureCapacity chunk 1 e (IntegerArray1 sz) b h"

definition Buffer_Shrink ::
    "(idx \<Rightarrow> idx \<Rightarrow> bool) \<Rightarrow> get_chunk \<Rightarrow> idx \<Rightarrow> buffer \<Rightarrow> heap \<Rightarrow> fault + (buffer \<times> heap)" where
  "Buffer_Shrink le chunk sz b h =
     (if \<not> le sz (buf_size b) then Buffer_Allocate1 chunk sz b h else Inr (b, h))"

definition Buffer_Shrink_scalar ::
    "(idx \<Rightarrow> idx \<Rightarrow> bool) \<Rightarrow> get_chunk \<Rightarrow> int \<Rightarrow> buffer \<Rightarrow> heap \<Rightarrow> fault + (buffer \<times> heap)" where
  "Buffer_Shrink_scalar le chunk sz b h = Buffer_Shrink le chunk (IntegerArray1 sz) b h"

subsection \<open>Copies\<close>

definition BufferHost_Copyin :: "ptr \<Rightarrow> idx \<Rightarrow> idx \<Rightarrow> buffer \<Rightarrow> heap \<Rightarrow> fault + (buffer \<times> heap)" where
  "BufferHost_Copyin src offset sz b h =
     bindE (Buffer_EnsureCapacity1 BufferHost_GetChunk (arr_plus offset sz) b h) (\<lambda>(b, h).
       bindE (assertE (arr_eq offset 0)) (\<lambda>_.
         bindE (memcpy (buf_ptr b) src (GetLinearSize_of b sz) h) (\<lambda>h. Inr (b, h))))"

definition BufferHost_Copyout ::
    "(idx \<Rightarrow> idx \<Rightarrow> bool) \<Rightarrow> ptr \<Rightarrow> idx \<Rightarrow> idx \<Rightarrow> buffer \<Rightarrow> heap \<Rightarrow> fault + heap" where
  "BufferHost_Copyout le dst offset s b h =
     bindE (assertE (le (arr_plus offset s) (buf_size b))) (\<lambda>_.
       bindE (assertE (arr_eq offset 0)) (\<lambda>_.
         memcpy dst (buf_ptr b) (GetLinearSize_of b s) h))"

definition Buffer_Copyin_scalar :: "ptr \<Rightarrow> int \<Rightarrow> buffer \<Rightarrow> heap \<Rightarrow> fault + (buffer \<times> heap)" where
  "Buffer_Copyin_scalar src sz b h =
     (let s = upd (arr_Set 1) 0 sz in BufferHost_Copyin src IntegerArray0 s b h)"

text \<open>\<open>Copyout()\<close>: a fresh block with all the bytes of the buffer.\<close>

definition Buffer_Copyout_all ::
    "(idx \<Rightarrow> idx \<Rightarrow> bool) \<Rightarrow> buffer \<Rightarrow> heap \<Rightarrow> fault + (ptr \<times> heap)" where
  "Buffer_Copyout_all le b h =
     (let s = GetLinearSize b; (p, h) = malloc s h
      in bindE (assertE (p \<noteq> Null)) (\<lambda>_.
           bindE (BufferHost_Copyout le p IntegerArray0 (buf_size b) b h) (\<lambda>h. Inr (p, h))))"

definition BufferHost_Copyin_buf :: "buffer \<Rightarrow> idx \<Rightarrow> idx \<Rightarrow> buffer \<Rightarrow> heap \<Rightarrow> fault + (buffer \<times> heap)" where
  "BufferHost_Copyin_buf src offset sz b h =
     bindE (assertE (buf_num_dims src = 1)) (\<lambda>_. BufferHost_Copyin (buf_ptr src) offset sz b h)"

definition BufferHost_Copyout_buf ::
    "(idx \<Rightarrow> idx \<Rightarrow> bool) \<Rightarrow> buffer \<Rightarrow> idx \<Rightarrow> idx \<Rightarrow> buffer \<Rightarrow> heap \<Rightarrow> fault + heap" where
  "BufferHost_Copyout_buf le dst offset s b h =
     bindE (assertE (buf_num_dims dst = 1)) (\<lambda>_. BufferHost_Copyout le (buf_ptr dst) offset s b h)"

subsection \<open>The invariant of a host buffer\<close>

text \<open>
  A buffer is well formed when it can be deleted, has no chunk exactly if it holds no
  bytes, and otherwise owns a whole live block of exactly its linear size.
\<close>

definition buffer_ok :: "buffer \<Rightarrow> heap \<Rightarrow> bool" where
  "buffer_ok b h \<longleftrightarrow> buf_deleter b \<and> 0 < buf_elm_size b \<and>
     (\<forall>i < buf_num_dims b. 0 \<le> at (buf_size b) i) \<and>
     accumulate (buf_size b) (buf_num_dims b) * int (buf_elm_size b) < 2 ^ 64 \<and>
     (if accumulate (buf_size b) (buf_num_dims b) = 0 then buf_ptr b = Null
      else \<exists>k cs. buf_ptr b = Ptr k 0 \<and> blocks h k = Some cs \<and> length cs = GetLinearSize b)"

text \<open>What a client may ask for: a non-negative size of less than \<open>2 ^ 64\<close> bytes.\<close>

definition size_fits :: "nat \<Rightarrow> nat \<Rightarrow> idx \<Rightarrow> bool" where
  "size_fits n e sz \<longleftrightarrow> 0 < e \<and> (\<forall>i < n. 0 \<le> at sz i) \<and> accumulate sz n * int e < 2 ^ 64"

lemma size_fits_le: "size_fits n e sz \<Longrightarrow> 0 \<le> accumulate sz n \<and> accumulate sz n < 2 ^ 64"
proof -
  assume f: "size_fits n e sz"
  then have acc: "0 \<le> accumulate sz n" by (auto simp: size_fits_def intro: accumulate_nonneg)
  then have "accumulate sz n * 1 \<le> accumulate sz n * int e"
    using f by (intro mult_left_mono) (auto simp: size_fits_def)
  with acc f show ?thesis by (auto simp: size_fits_def)
qed

lemma LinearSize_static_eq:
  assumes "size_fits n e sz"
  shows "LinearSize_static n e sz = nat (accumulate sz n) * e"
proof -
  note le = size_fits_le[OF assms]
  have "nat (accumulate sz n) * e = nat (accumulate sz n * int e)" using le by (simp add: nat_mult_distrib)
  also have "\<dots> < 2 ^ 64" using assms le by (auto simp: size_fits_def nat_less_iff)
  finally show ?thesis using le by (simp add: LinearSize_static_def nat_less_iff)
qed

lemma GetLinearSize_of_static: "GetLinearSize_of b s = LinearSize_static (buf_num_dims b) (buf_elm_size b) s"
  by (simp add: GetLinearSize_of_def LinearSize_static_def)

lemma buffer_ok_fits:
  "buffer_ok b h \<Longrightarrow> size_fits (buf_num_dims b) (buf_elm_size b) (buf_size b)"
  by (simp add: buffer_ok_def size_fits_def)

lemma buffer_ok_linear:
  "buffer_ok b h \<Longrightarrow> GetLinearSize b = nat (accumulate (buf_size b) (buf_num_dims b)) * buf_elm_size b"
  by (simp add: GetLinearSize_def GetLinearSize_of_static LinearSize_static_eq buffer_ok_fits)

lemma buffer_ok_new:
  assumes "0 < e" "0 < n"
  shows "buffer_ok (BufferHost_new n e) h"
proof -
  have "accumulate IntegerArray0 n = 0" using assms(2) by (auto simp: accumulate_eq_0_iff)
  with assms show ?thesis by (simp add: buffer_ok_def BufferHost_new_def Buffer_new_def)
qed

text \<open>
  Deleting a well-formed buffer frees its block, which no other block notices, and a
  second deletion does nothing.
\<close>

lemma Buffer_Delete_ok:
  assumes "buffer_ok b h"
  shows "\<exists>h'. Buffer_Delete b h = Inr (b\<lparr>buf_ptr := Null, buf_size := arr_Set 0\<rparr>, h') \<and>
    avail h' = avail h + GetLinearSize b \<and> fresh h' = fresh h \<and>
    (\<forall>k. blocks h' k = (if buf_ptr b = Ptr k 0 then None else blocks h k))"
proof (cases "accumulate (buf_size b) (buf_num_dims b) = 0")
  case True
  then show ?thesis using assms buffer_ok_linear[OF assms]
    by (auto simp: Buffer_Delete_def buffer_ok_def)
next
  case False
  with assms show ?thesis
    by (auto simp: Buffer_Delete_def buffer_ok_def DeleteChunk_def)
qed

lemma Buffer_Delete_twice:
  assumes "buffer_ok b h"
  shows "bindE (Buffer_Delete b h) (\<lambda>(b, h). Buffer_Delete b h) = Buffer_Delete b h"
  using Buffer_Delete_ok[OF assms] by (auto simp: Buffer_Delete_def)

text \<open>The blocks of the heap that are not the buffer's.\<close>

definition others :: "buffer \<Rightarrow> heap \<Rightarrow> nat \<Rightarrow> cell list option" where
  "others b h = (\<lambda>k. if buf_ptr b = Ptr k 0 then None else blocks h k)"

lemma others_SomeD: "others b h k = Some cs \<Longrightarrow> blocks h k = Some cs \<and> buf_ptr b \<noteq> Ptr k 0"
  by (simp add: others_def split: if_splits)

lemma others_new [simp]: "others (BufferHost_new n e) h = blocks h"
  by (simp add: others_def BufferHost_new_def Buffer_new_def)

text \<open>
  Allocation gives a well-formed buffer of the requested size, all zero bytes, if the
  heap has room once the old chunk is freed.
\<close>

lemma Buffer_Allocate_ok:
  assumes ok: "buffer_ok b h" and hok: "heap_ok h" and fits: "size_fits n e sz" and n: "n = buf_num_dims b \<or> accumulate sz n \<noteq> 0"
    and e: "e = buf_elm_size b \<or> accumulate sz n \<noteq> 0"
    and room: "nat (accumulate sz n) * e \<le> avail h + GetLinearSize b"
  shows "\<exists>b' h'. Buffer_Allocate BufferHost_GetChunk n e sz b h = Inr (b', h') \<and> buffer_ok b' h' \<and>
    buf_num_dims b' = n \<and> buf_elm_size b' = e \<and> buf_size b' = sz \<and>
    heap_ok h' \<and> others b' h' = others b h \<and> avail h' + GetLinearSize b' = avail h + GetLinearSize b \<and>
    (accumulate sz n \<noteq> 0 \<longrightarrow>
       contents h' (buf_ptr b') = Some (replicate (nat (accumulate sz n) * e) (Some 0)))"
proof -
  obtain h1 where del: "Buffer_Delete b h = Inr (b\<lparr>buf_ptr := Null, buf_size := arr_Set 0\<rparr>, h1)"
    and av: "avail h1 = avail h + GetLinearSize b"
    and fr: "fresh h1 = fresh h" "\<forall>k. blocks h1 k = (if buf_ptr b = Ptr k 0 then None else blocks h k)"
    using Buffer_Delete_ok[OF ok] by auto
  have oth: "blocks h1 = others b h" using fr(2) by (auto simp: others_def)
  have hok1: "heap_ok h1" using hok fr by (simp add: heap_ok_def)
  note le = size_fits_le[OF fits]
  have dele: "buf_deleter b" "0 < e" using ok fits by (auto simp: buffer_ok_def size_fits_def)
  show ?thesis
  proof (cases "accumulate sz n = 0")
    case True
    then show ?thesis
      using del ok fits n e av oth hok1 LinearSize_static_eq[OF fits]
      by (auto simp: Buffer_Allocate_def buffer_ok_def size_fits_def others_def GetLinearSize_def
          GetLinearSize_of_static)
  next
    case False
    let ?s = "to_size (accumulate sz n)"
    have s: "?s = nat (accumulate sz n)" "?s \<noteq> 0" using le False by auto
    then have "e * ?s \<le> avail h1" using room av by (simp add: mult.commute)
    then have chunk: "BufferHost_GetChunk (b\<lparr>buf_ptr := Null, buf_size := arr_Set 0, buf_num_dims := n, buf_elm_size := e\<rparr>) sz h1
        = Inr (Ptr (fresh h1) 0,
            h1\<lparr>blocks := (blocks h1)(fresh h1 \<mapsto> replicate (e * ?s) (Some 0)),
               fresh := Suc (fresh h1), avail := avail h1 - e * ?s\<rparr>)"
      using s(2) by (simp add: BufferHost_GetChunk_def calloc_def alloc_def Let_def)
    have new: "(\<lambda>k. if fresh h1 = k then None else blocks h1 k) = others b h"
      using hok1 oth by (auto simp: heap_ok_def)
    have hok2: "heap_ok (h1\<lparr>blocks := (blocks h1)(fresh h1 \<mapsto> replicate (e * ?s) (Some 0)),
               fresh := Suc (fresh h1), avail := avail h1 - e * ?s\<rparr>)"
      using hok1 by (simp add: heap_ok_def)
    show ?thesis
      using del chunk False dele fits s LinearSize_static_eq[OF fits] new hok2 av \<open>e * ?s \<le> avail h1\<close>
      by (auto simp: Buffer_Allocate_def buffer_ok_def size_fits_def contents_def mult.commute
          GetLinearSize_def GetLinearSize_of_static others_def cong: if_cong)
  qed
qed

text \<open>
  After \<open>EnsureCapacity\<close> the buffer has room for the requested size, and it is left alone
  when it had it before.
\<close>

lemma Buffer_EnsureCapacity_ok:
  assumes ok: "buffer_ok b h" and hok: "heap_ok h" and fits: "size_fits (buf_num_dims b) (buf_elm_size b) sz"
    and room: "nat (accumulate sz (buf_num_dims b)) * buf_elm_size b \<le> avail h + GetLinearSize b"
  shows "\<exists>b' h'. Buffer_EnsureCapacity1 BufferHost_GetChunk sz b h = Inr (b', h') \<and>
    buffer_ok b' h' \<and> buf_num_dims b' = buf_num_dims b \<and> buf_elm_size b' = buf_elm_size b \<and>
    LinearSize_static (buf_num_dims b) (buf_elm_size b) sz \<le> GetLinearSize b' \<and>
    heap_ok h' \<and> others b' h' = others b h \<and> avail h' + GetLinearSize b' = avail h + GetLinearSize b \<and>
    (LinearSize_static (buf_num_dims b) (buf_elm_size b) sz \<le> GetLinearSize b \<longrightarrow> b' = b \<and> h' = h)"
proof (cases "LinearSize_static (buf_num_dims b) (buf_elm_size b) sz \<le> GetLinearSize b")
  case True
  then show ?thesis using ok hok
    by (auto simp: Buffer_EnsureCapacity1_def Buffer_EnsureCapacity_def Let_def)
next
  case False
  obtain b' h' where alloc: "Buffer_Allocate BufferHost_GetChunk (buf_num_dims b) (buf_elm_size b) sz b h = Inr (b', h')"
    "buffer_ok b' h'" "buf_num_dims b' = buf_num_dims b" "buf_elm_size b' = buf_elm_size b" "buf_size b' = sz"
    "heap_ok h'" "others b' h' = others b h" "avail h' + GetLinearSize b' = avail h + GetLinearSize b"
    using Buffer_Allocate_ok[OF ok hok fits _ _ room] by auto
  then have "GetLinearSize b' = LinearSize_static (buf_num_dims b) (buf_elm_size b) sz"
    by (simp add: GetLinearSize_def GetLinearSize_of_static)
  with alloc False show ?thesis
    by (auto simp: Buffer_EnsureCapacity1_def Buffer_EnsureCapacity_def Let_def)
qed

lemma buffer_ok_chunk:
  assumes "buffer_ok b h" and "GetLinearSize b \<noteq> 0"
  shows "\<exists>k cs. buf_ptr b = Ptr k 0 \<and> blocks h k = Some cs \<and> length cs = GetLinearSize b"
  using assms buffer_ok_linear[OF assms(1)] by (auto simp: buffer_ok_def split: if_splits)

text \<open>
  A copy into a buffer of the same size, read back, gives the bytes that were copied in.
  \<open>le\<close> only has to hold of the two equal sizes.
\<close>

lemma Buffer_roundtrip:
  assumes ok: "buffer_ok b h" and sz: "GetLinearSize b = n" "0 < n"
    and src: "blocks h s = Some S" "length S = n" "buf_ptr b \<noteq> Ptr s 0"
    and dst: "blocks h d = Some D" "length D = n" "buf_ptr b \<noteq> Ptr d 0" "d \<noteq> s"
    and le: "le (buf_size b) (buf_size b)"
  shows "\<exists>h' h''. BufferHost_Copyin (Ptr s 0) IntegerArray0 (buf_size b) b h = Inr (b, h') \<and>
    BufferHost_Copyout le (Ptr d 0) IntegerArray0 (buf_size b) b h' = Inr h'' \<and>
    blocks h'' d = Some S \<and> blocks h'' s = Some S"
proof -
  obtain k cs where k: "buf_ptr b = Ptr k 0" "blocks h k = Some cs" "length cs = n"
    using buffer_ok_chunk[OF ok] sz by auto
  have plus: "arr_plus IntegerArray0 (buf_size b) = buf_size b"
    by (rule arr3_eqI) (simp add: at_arr_plus)
  have zero: "arr_eq (IntegerArray0 :: idx) 0" by (simp add: arr_cmp_defs)
  have lin: "GetLinearSize_of b (buf_size b) = n" using sz by (simp add: GetLinearSize_def)
  have cap: "Buffer_EnsureCapacity1 BufferHost_GetChunk (buf_size b) b h = Inr (b, h)"
    by (simp add: Buffer_EnsureCapacity1_def Buffer_EnsureCapacity_def Let_def GetLinearSize_def
        GetLinearSize_of_static)
  let ?h' = "h\<lparr>blocks := (blocks h)(k \<mapsto> S)\<rparr>"
  have "memcpy (Ptr k (int 0)) (Ptr s (int 0)) n h = Inr ?h'"
    using memcpy_blocks[of k s h S cs 0 n 0] src dst k by (auto simp: list_write_def)
  then have cin: "BufferHost_Copyin (Ptr s 0) IntegerArray0 (buf_size b) b h = Inr (b, ?h')"
    by (simp add: BufferHost_Copyin_def plus cap zero lin k)
  have "memcpy (Ptr d (int 0)) (Ptr k (int 0)) n ?h' =
      Inr (?h'\<lparr>blocks := (blocks ?h')(d \<mapsto> S)\<rparr>)"
    using memcpy_blocks[of d k ?h' S D 0 n 0] src dst k by (auto simp: list_write_def)
  then have cout: "BufferHost_Copyout le (Ptr d 0) IntegerArray0 (buf_size b) b ?h' =
      Inr (?h'\<lparr>blocks := (blocks ?h')(d \<mapsto> S)\<rparr>)"
    using le by (simp add: BufferHost_Copyout_def plus zero lin k)
  show ?thesis using cin cout src dst k by auto
qed

end
