(* ===== verification/Grid_Util.thy ===== *)
theory Grid_Util imports C_Memory Index_Array begin

text \<open>
  \<open>runtime/grid_util.h\<close> and \<open>runtime/grid_util.cc\<close>: row-major offsets and the copies
  between a box of a multi-dimensional grid and a contiguous buffer. The first part
  translates the code, the second shows that the offsets number the points of a grid
  without collision, the third what the two copies do to the bytes of a block.
\<close>

subsection \<open>The code\<close>

definition GridCalcOffset3D_xyz :: "int \<Rightarrow> int \<Rightarrow> int \<Rightarrow> idx \<Rightarrow> int" where
  "GridCalcOffset3D_xyz x y z sz = x + y * at sz 0 + z * at sz 0 * at sz 1"

definition GridCalcOffset3D_sizes :: "int \<Rightarrow> int \<Rightarrow> int \<Rightarrow> int \<Rightarrow> int \<Rightarrow> int" where
  "GridCalcOffset3D_sizes x y z xsize ysize = x + y * xsize + z * xsize * ysize"

definition GridCalcOffset3D :: "idx \<Rightarrow> idx \<Rightarrow> int" where
  "GridCalcOffset3D index sz =
     at index 0 + at index 1 * at sz 0 + at index 2 * at sz 0 * at sz 1"

definition get1DOffset :: "idx \<Rightarrow> idx \<Rightarrow> nat \<Rightarrow> nat" where
  "get1DOffset md_offset sz num_dims =
     fst (fold (\<lambda>i (offset_1d, ref_offset).
            (size_add offset_1d (size_mult (to_size (at md_offset i)) ref_offset),
             size_mult ref_offset (to_size (at sz i))))
          [0..<num_dims] (0, 1))"

text \<open>One pass of the loop that splits every collected offset along dimension \<open>i\<close>.\<close>

definition split_offsets :: "idx \<Rightarrow> nat \<Rightarrow> idx list \<Rightarrow> idx list" where
  "split_offsets subgrid_size i offsets =
     concat (map (\<lambda>cur_offset.
         map (\<lambda>j. upd cur_offset i (at cur_offset i + int j)) [0..<nat (at subgrid_size i)])
       offsets)"

definition collect_offsets :: "nat \<Rightarrow> idx \<Rightarrow> idx list \<Rightarrow> idx list" where
  "collect_offsets num_dims subgrid_size offsets =
     fold (split_offsets subgrid_size) (rev [1..<num_dims]) offsets"

definition CopyoutSubgrid ::
    "nat \<Rightarrow> nat \<Rightarrow> ptr \<Rightarrow> idx \<Rightarrow> ptr \<Rightarrow> idx \<Rightarrow> idx \<Rightarrow> heap \<Rightarrow> fault + heap" where
  "CopyoutSubgrid elm_size num_dims grid grid_size subgrid subgrid_offset subgrid_size h =
     (let offsets = collect_offsets num_dims subgrid_size [subgrid_offset];
          line_size = size_mult (to_size (at subgrid_size 0)) elm_size
      in bindE
           (foldE (\<lambda>offset (dst, h).
                bindE (memcpy dst
                        (ptr_add grid (int (size_mult (get1DOffset offset grid_size num_dims) elm_size)))
                        line_size h)
                  (\<lambda>h'. Inr (ptr_add dst (int line_size), h')))
              offsets (subgrid, h))
           (\<lambda>(dst, h').
              bindE (assertE (dst = ptr_add subgrid
                  (int (size_mult (to_size (accumulate subgrid_size num_dims)) elm_size))))
                (\<lambda>_. Inr h')))"

definition CopyinSubgrid ::
    "nat \<Rightarrow> nat \<Rightarrow> ptr \<Rightarrow> idx \<Rightarrow> ptr \<Rightarrow> idx \<Rightarrow> idx \<Rightarrow> heap \<Rightarrow> fault + heap" where
  "CopyinSubgrid elm_size num_dims grid grid_size subgrid subgrid_offset subgrid_size h =
     (let offsets = collect_offsets num_dims subgrid_size [subgrid_offset];
          line_size = size_mult (to_size (at subgrid_size 0)) elm_size
      in bindE
           (foldE (\<lambda>offset (src, h).
                bindE (memcpy
                        (ptr_add grid (int (size_mult (get1DOffset offset grid_size num_dims) elm_size)))
                        src line_size h)
                  (\<lambda>h'. Inr (ptr_add src (int line_size), h')))
              offsets (subgrid, h))
           (\<lambda>(src, h').
              bindE (assertE (src = ptr_add subgrid
                  (int (size_mult (to_size (accumulate subgrid_size num_dims)) elm_size))))
                (\<lambda>_. Inr h')))"

subsection \<open>Row-major numbering\<close>

fun lin :: "nat \<Rightarrow> idx \<Rightarrow> idx \<Rightarrow> int" where
  "lin 0 p s = 0"
| "lin (Suc n) p s = lin n p s + at p n * accumulate s n"

definition in_box :: "nat \<Rightarrow> idx \<Rightarrow> idx \<Rightarrow> bool" where
  "in_box n p s \<longleftrightarrow> (\<forall>i < n. 0 \<le> at p i \<and> at p i < at s i)"

text \<open>A box at offset \<open>off\<close> of size \<open>b\<close> lies inside a grid of size \<open>s\<close>.\<close>

definition box_in :: "nat \<Rightarrow> idx \<Rightarrow> idx \<Rightarrow> idx \<Rightarrow> bool" where
  "box_in n off b s \<longleftrightarrow>
     (\<forall>i < n. 0 \<le> at off i \<and> 0 \<le> at b i \<and> at off i + at b i \<le> at s i)"

lemma in_box_Suc: "in_box (Suc n) p s \<longleftrightarrow> in_box n p s \<and> 0 \<le> at p n \<and> at p n < at s n"
  by (auto simp: in_box_def less_Suc_eq)

lemma in_box_pos: "in_box n p s \<Longrightarrow> 0 < accumulate s n"
  by (induction n) (auto simp: in_box_Suc)

lemma lin_bounds: "in_box n p s \<Longrightarrow> 0 \<le> lin n p s \<and> lin n p s < accumulate s n"
proof (induction n)
  case 0
  then show ?case by simp
next
  case (Suc n)
  then have p: "0 \<le> at p n" "at p n + 1 \<le> at s n" and acc: "0 < accumulate s n"
    and IH: "0 \<le> lin n p s" "lin n p s < accumulate s n"
    by (auto simp: in_box_Suc in_box_pos)
  have "lin n p s + at p n * accumulate s n < (at p n + 1) * accumulate s n"
    using IH by (simp add: algebra_simps)
  also have "\<dots> \<le> at s n * accumulate s n"
    using p(2) acc by (intro mult_right_mono) auto
  finally show ?case using p IH acc by (simp add: mult.commute)
qed

lemma int_radix_unique:
  fixes x x' w w' r :: int
  assumes "0 \<le> x" "x < r" "0 \<le> x'" "x' < r" "x + w * r = x' + w' * r"
  shows "x = x' \<and> w = w'"
proof -
  have "w = (x + w * r) div r" "w' = (x' + w' * r) div r" using assms(1-4) by auto
  then have "w = w'" using assms(5) by metis
  with assms(5) show ?thesis by simp
qed

lemma lin_inj:
  "in_box n p s \<Longrightarrow> in_box n q s \<Longrightarrow> lin n p s = lin n q s \<Longrightarrow> i < n \<Longrightarrow> at p i = at q i"
proof (induction n arbitrary: i)
  case 0
  then show ?case by simp
next
  case (Suc n)
  have "lin n p s = lin n q s \<and> at p n = at q n"
    using Suc.prems lin_bounds[of n p s] lin_bounds[of n q s]
    by (intro int_radix_unique[of _ "accumulate s n"]) (auto simp: in_box_Suc)
  with Suc show ?case by (auto simp: in_box_Suc less_Suc_eq)
qed

lemma lin_surj:
  "n \<le> 3 \<Longrightarrow> (\<And>i. i < n \<Longrightarrow> 0 \<le> at s i) \<Longrightarrow> 0 \<le> k \<Longrightarrow> k < accumulate s n \<Longrightarrow>
   \<exists>p. in_box n p s \<and> lin n p s = k"
proof (induction n arbitrary: k)
  case 0
  then show ?case by (auto simp: in_box_def)
next
  case (Suc n)
  let ?a = "accumulate s n"
  have a0: "0 \<le> ?a" using Suc.prems(2) by (intro accumulate_nonneg) auto
  have a: "0 < ?a" using Suc.prems(3,4) a0 by (cases "?a = 0") auto
  have kb: "k div ?a < at s n"
  proof (rule ccontr)
    assume "\<not> ?thesis"
    then have "?a * at s n \<le> ?a * (k div ?a)" using a by simp
    also have "\<dots> \<le> k" using a by (simp add: minus_mod_eq_mult_div [symmetric])
    finally show False using Suc.prems(4) by (simp add: mult.commute)
  qed
  from Suc.IH[of "k mod ?a"] Suc.prems a obtain p where
    p: "in_box n p s" "lin n p s = k mod ?a" by auto
  let ?q = "upd p n (k div ?a)"
  have eq: "at ?q i = at p i" if "i < n" for i
    using that Suc.prems(1) by (simp add: at_upd)
  have "lin m ?q s = lin m p s" if "m \<le> n" for m
    using that eq by (induction m) auto
  then have "lin (Suc n) ?q s = k"
    using Suc.prems(1) p(2) by (simp add: at_upd mult.commute)
  moreover have "in_box (Suc n) ?q s"
    using p(1) eq kb a Suc.prems(1,3) by (auto simp: in_box_def less_Suc_eq at_upd pos_imp_zdiv_nonneg_iff)
  ultimately show ?case by blast
qed

lemma lin_cong: "(\<And>i. i < n \<Longrightarrow> at p i = at q i) \<Longrightarrow> lin n p s = lin n q s"
  by (induction n) auto

lemma in_box_cong:
  "(\<And>i. i < n \<Longrightarrow> at p i = at q i) \<Longrightarrow> in_box n p s = in_box n q s"
  by (auto simp: in_box_def)

lemma GridCalcOffset3D_lin: "GridCalcOffset3D p s = lin 3 p s"
  by (simp add: GridCalcOffset3D_def numeral_3_eq_3 numeral_2_eq_2 algebra_simps)

lemma accumulate_le_Suc:
  "in_box (Suc n) p s \<Longrightarrow> accumulate s n \<le> accumulate s (Suc n) \<and> at s n \<le> accumulate s (Suc n)"
  using in_box_pos[of n p s] by (auto simp: in_box_Suc mult_le_cancel_left1 mult_le_cancel_right1)

lemma get1DOffset_fold:
  "in_box n p s \<Longrightarrow> accumulate s n < 2 ^ 64 \<Longrightarrow>
   fold (\<lambda>i (offset_1d, ref_offset).
          (size_add offset_1d (size_mult (to_size (at p i)) ref_offset),
           size_mult ref_offset (to_size (at s i)))) [0..<n] (0, 1)
     = (nat (lin n p s), nat (accumulate s n))"
proof (induction n)
  case 0
  then show ?case by simp
next
  case (Suc n)
  note le = accumulate_le_Suc[OF Suc.prems(1)]
  have pn: "0 \<le> at p n" "at p n < at s n" and box: "in_box n p s"
    using Suc.prems(1) by (auto simp: in_box_Suc)
  have acc: "0 < accumulate s n" using box by (rule in_box_pos)
  have lin_n: "0 \<le> lin n p s" using lin_bounds[OF box] by simp
  have lin_S: "lin n p s + at p n * accumulate s n < accumulate s (Suc n)"
    using lin_bounds[OF Suc.prems(1)] by simp
  have "at s n < 2 ^ 64" using le Suc.prems(2) by linarith
  then have sz: "to_size (at p n) = nat (at p n)" "to_size (at s n) = nat (at s n)"
    using pn by (auto intro!: to_size_id)
  have prod: "nat (at p n) * nat (accumulate s n) = nat (at p n * accumulate s n)"
    "nat (accumulate s n) * nat (at s n) = nat (accumulate s (Suc n))"
    using pn acc by (simp_all add: nat_mult_distrib)
  have small: "nat (at p n * accumulate s n) < 2 ^ 64" "nat (accumulate s (Suc n)) < 2 ^ 64"
    "nat (lin n p s) + nat (at p n * accumulate s n) < 2 ^ 64"
    using lin_S lin_n Suc.prems(2) pn acc by (auto simp flip: nat_add_distrib)
  have "size_mult (nat (at p n)) (nat (accumulate s n)) = nat (at p n * accumulate s n)"
    "size_mult (nat (accumulate s n)) (nat (at s n)) = nat (accumulate s (Suc n))"
    using prod small by simp_all
  moreover have "size_add (nat (lin n p s)) (nat (at p n * accumulate s n)) = nat (lin (Suc n) p s)"
    using small(3) lin_n pn acc by (simp add: nat_add_distrib)
  ultimately show ?case
    using Suc.IH[OF box] le Suc.prems(2) sz by simp
qed

lemma get1DOffset_lin:
  "in_box n p s \<Longrightarrow> accumulate s n < 2 ^ 64 \<Longrightarrow> get1DOffset p s n = nat (lin n p s)"
  unfolding get1DOffset_def by (subst get1DOffset_fold) simp_all

subsection \<open>The collected offsets are the lines of the box, in row-major order\<close>

text \<open>
  \<open>lines b n\<close> is the number of lines of a box of size \<open>b\<close>, and \<open>row n p b\<close> the number of
  the line that holds the point \<open>p\<close> of the box: the row-major number without dimension 0.
\<close>

fun lines :: "idx \<Rightarrow> nat \<Rightarrow> nat" where
  "lines b 0 = 1"
| "lines b (Suc 0) = 1"
| "lines b (Suc n) = lines b n * nat (at b n)"

fun row :: "nat \<Rightarrow> idx \<Rightarrow> idx \<Rightarrow> nat" where
  "row 0 p b = 0"
| "row (Suc 0) p b = 0"
| "row (Suc n) p b = row n p b + nat (at p n) * lines b n"

lemma in_box_size_pos: "in_box n p b \<Longrightarrow> i < n \<Longrightarrow> 0 < at b i"
  by (force simp: in_box_def)

lemma accumulate_lines:
  "1 \<le> n \<Longrightarrow> (\<And>i. i < n \<Longrightarrow> 0 \<le> at b i) \<Longrightarrow> accumulate b n = at b 0 * int (lines b n)"
  by (induction b n rule: lines.induct) auto

lemma lin_row:
  "1 \<le> n \<Longrightarrow> in_box n p b \<Longrightarrow> lin n p b = at p 0 + at b 0 * int (row n p b)"
proof (induction n p b rule: row.induct)
  case (3 n p b)
  then have "accumulate b (Suc n) = at b 0 * int (lines b (Suc n))"
    by (intro accumulate_lines) (auto intro!: less_imp_le in_box_size_pos[of "Suc (Suc n)" p])
  with 3 show ?case by (simp add: in_box_Suc algebra_simps)
qed auto

lemma row_less: "in_box n p b \<Longrightarrow> row n p b < lines b n"
proof (induction n p b rule: row.induct)
  case (3 n p b)
  then show ?case
    using radix_bound[of "row (Suc n) p b" "lines b (Suc n)" "nat (at p (Suc n))" "nat (at b (Suc n))"]
    by (simp add: in_box_Suc mult.commute)
qed auto

lemma split_offsets_append:
  "split_offsets b i (xs @ ys) = split_offsets b i xs @ split_offsets b i ys"
  by (simp add: split_offsets_def)

lemma split_offsets_concat:
  "split_offsets b i (concat xss) = concat (map (split_offsets b i) xss)"
  by (induction xss) (simp_all add: split_offsets_append, simp add: split_offsets_def)

lemma fold_split_offsets_concat:
  "fold (split_offsets b) is (concat xss) = concat (map (fold (split_offsets b) is) xss)"
  by (induction "is" arbitrary: xss) (simp_all add: split_offsets_concat comp_def)

lemma collect_offsets_1 [simp]:
  "collect_offsets 0 b xs = xs" "collect_offsets (Suc 0) b xs = xs"
  by (simp_all add: collect_offsets_def)

lemma collect_offsets_Suc:
  assumes "1 \<le> n"
  shows "collect_offsets (Suc n) b [p] =
    concat (map (\<lambda>j. collect_offsets n b [upd p n (at p n + int j)]) [0..<nat (at b n)])"
proof -
  let ?tail = "fold (split_offsets b) (rev [1..<n])"
  have "collect_offsets (Suc n) b [p] = ?tail (split_offsets b n [p])"
    using assms by (simp add: collect_offsets_def)
  also have "split_offsets b n [p] = concat (map (\<lambda>j. [upd p n (at p n + int j)]) [0..<nat (at b n)])"
    by (simp add: split_offsets_def)
  also have "?tail \<dots> = concat (map (\<lambda>j. ?tail [upd p n (at p n + int j)]) [0..<nat (at b n)])"
    by (simp only: fold_split_offsets_concat map_map comp_def)
  finally show ?thesis by (simp only: collect_offsets_def)
qed

lemma length_collect_offsets: "length (collect_offsets n b [p]) = lines b n"
proof (induction b n arbitrary: p rule: lines.induct)
  case (3 b n)
  then show ?case
    by (simp add: collect_offsets_Suc length_concat comp_def sum_list_triv)
qed auto

lemma nth_collect_offsets:
  assumes "n \<le> 3" and "in_box n p b"
  shows "row n p b < length (collect_offsets n b [off]) \<and>
    (\<forall>i < 3. at (collect_offsets n b [off] ! row n p b) i =
       (if 1 \<le> i \<and> i < n then at off i + at p i else at off i))"
  using assms
proof (induction n p b arbitrary: off rule: row.induct)
  case (3 n p b)
  let ?n = "Suc n"
  let ?xss = "map (\<lambda>j. collect_offsets ?n b [upd off ?n (at off ?n + int j)]) [0..<nat (at b ?n)]"
  have box: "in_box ?n p b" and pn: "0 \<le> at p ?n" "at p ?n < at b ?n"
    using 3(3) by (auto simp: in_box_Suc)
  have "concat ?xss ! (nat (at p ?n) * lines b ?n + row ?n p b) = ?xss ! nat (at p ?n) ! row ?n p b"
    using pn row_less[OF box] by (intro nth_concat_uniform) (auto simp: length_collect_offsets)
  then have eq: "collect_offsets (Suc ?n) b [off] ! row (Suc ?n) p b =
      collect_offsets ?n b [upd off ?n (at off ?n + at p ?n)] ! row ?n p b"
    using pn by (simp add: collect_offsets_Suc add.commute)
  have "row (Suc ?n) p b < length (collect_offsets (Suc ?n) b [off])"
    using row_less[OF 3(3)] by (simp add: length_collect_offsets)
  with eq "3.IH"[of "upd off ?n (at off ?n + at p ?n)"] 3(2) box show ?case
    by (auto simp: at_upd less_Suc_eq)
qed auto

subsection \<open>What the copies do to the bytes\<close>

text \<open>
  \<open>elem e cs k\<close> is element number \<open>k\<close> of a block whose elements take \<open>e\<close> bytes.
  \<open>gather\<close> reads lines of \<open>L\<close> bytes at the given positions, \<open>scatter\<close> writes the
  consecutive lines of a buffer to them.
\<close>

definition elem :: "nat \<Rightarrow> 'a list \<Rightarrow> nat \<Rightarrow> 'a list" where
  "elem e cs k = take e (drop (k * e) cs)"

definition gather :: "'a list \<Rightarrow> nat list \<Rightarrow> nat \<Rightarrow> 'a list" where
  "gather G ps L = concat (map (\<lambda>p. take L (drop p G)) ps)"

fun scatter :: "'a list \<Rightarrow> nat list \<Rightarrow> nat \<Rightarrow> 'a list \<Rightarrow> 'a list" where
  "scatter G [] L D = G"
| "scatter G (p # ps) L D = scatter (list_write G p (take L D)) ps L (drop L D)"

lemma gather_Cons: "gather G (p # ps) L = take L (drop p G) @ gather G ps L"
  by (simp add: gather_def)

lemma length_gather:
  assumes "\<And>p. p \<in> set ps \<Longrightarrow> p + L \<le> length G"
  shows "length (gather G ps L) = length ps * L"
proof -
  have "length (take L (drop p G)) = L" if "p \<in> set ps" for p
    using assms[OF that] by simp
  then show ?thesis unfolding gather_def by (subst length_concat_uniform[of _ L]) auto
qed

lemma length_scatter:
  "(\<And>p. p \<in> set ps \<Longrightarrow> p + L \<le> length G) \<Longrightarrow> length ps * L \<le> length D \<Longrightarrow>
   length (scatter G ps L D) = length G"
proof (induction ps arbitrary: G D)
  case (Cons p ps)
  then have "length (list_write G p (take L D)) = length G" by simp
  with Cons show ?case by simp
qed simp

text \<open>Writing what was gathered elsewhere overwrites exactly the lines.\<close>

lemma nth_scatter_gather:
  assumes "\<And>p. p \<in> set ps \<Longrightarrow> p + L \<le> length A" and "length B = length A" and "i < length A"
  shows "scatter B ps L (gather A ps L) ! i =
    (if \<exists>p \<in> set ps. p \<le> i \<and> i < p + L then A ! i else B ! i)"
  using assms
proof (induction ps arbitrary: B)
  case (Cons p ps)
  let ?B = "list_write B p (take L (drop p A))"
  have p: "p + L \<le> length A" using Cons.prems(1) by simp
  have "scatter B (p # ps) L (gather A (p # ps) L) = scatter ?B ps L (gather A ps L)"
    using p by (simp add: gather_Cons)
  moreover have "?B ! i = (if p \<le> i \<and> i < p + L then A ! i else B ! i)"
    using p Cons.prems(2,3) by (auto simp: nth_list_write)
  ultimately show ?case
    using Cons.IH[of ?B] Cons.prems p by auto
qed simp

lemma scatter_outside:
  assumes "\<And>p. p \<in> set ps \<Longrightarrow> p + L \<le> length G" and "length ps * L \<le> length D"
    and "i < length G" and "\<And>p. p \<in> set ps \<Longrightarrow> \<not> (p \<le> i \<and> i < p + L)"
  shows "scatter G ps L D ! i = G ! i"
  using assms
proof (induction ps arbitrary: G D)
  case (Cons p ps)
  have len: "length (list_write G p (take L D)) = length G" using Cons.prems(1,2) by simp
  have line: "length (take L D) = L" "p + L \<le> length G" using Cons.prems(1,2) by auto
  have "\<not> (p \<le> i \<and> i < p + L)" using Cons.prems(4) by simp
  with line Cons.prems(3) have "list_write G p (take L D) ! i = G ! i"
    by (subst nth_list_write) auto
  with Cons.IH[of "list_write G p (take L D)" "drop L D"] Cons.prems len show ?case by simp
qed simp

lemma nth_scatter:
  assumes "\<And>p. p \<in> set ps \<Longrightarrow> p + L \<le> length G" and "length ps * L \<le> length D"
    and "k < length ps" and "r < L"
    and "\<And>k'. k < k' \<Longrightarrow> k' < length ps \<Longrightarrow> \<not> (ps ! k' \<le> ps ! k + r \<and> ps ! k + r < ps ! k' + L)"
  shows "scatter G ps L D ! (ps ! k + r) = D ! (k * L + r)"
  using assms
proof (induction ps arbitrary: G D k)
  case (Cons p ps)
  let ?G = "list_write G p (take L D)"
  have len: "length ?G = length G" using Cons.prems(1,2) by simp
  show ?case
  proof (cases k)
    case 0
    have "scatter ?G ps L (drop L D) ! (p + r) = ?G ! (p + r)"
    proof (rule scatter_outside)
      show "\<not> (q \<le> p + r \<and> p + r < q + L)" if "q \<in> set ps" for q
      proof -
        from that obtain m where "m < length ps" "q = ps ! m" by (auto simp: in_set_conv_nth)
        with Cons.prems(5)[of "Suc m"] 0 show ?thesis by simp
      qed
      show "p + r < length ?G" using Cons.prems(1)[of p] Cons.prems(4) len by simp
    qed (use Cons.prems len in auto)
    moreover have "?G ! (p + r) = D ! r"
      using Cons.prems(1)[of p] Cons.prems(2,4) by (subst nth_list_write) auto
    ultimately show ?thesis using 0 by simp
  next
    case (Suc m)
    have "scatter ?G ps L (drop L D) ! (ps ! m + r) = drop L D ! (m * L + r)"
    proof (rule Cons.IH)
      fix k' assume "m < k'" "k' < length ps"
      with Cons.prems(5)[of "Suc k'"] Suc
      show "\<not> (ps ! k' \<le> ps ! m + r \<and> ps ! m + r < ps ! k' + L)" by simp
    qed (use Cons.prems Suc len in auto)
    with Suc Cons.prems(2) show ?thesis by (simp add: add.assoc)
  qed
qed simp

lemma gather_0 [simp]: "gather G ps 0 = []"
  by (simp add: gather_def)

lemma scatter_0 [simp]: "scatter G ps 0 D = G"
  by (induction ps arbitrary: D) simp_all

lemma scatter_take: "scatter G ps L (take (length ps * L) D) = scatter G ps L D"
proof (induction ps arbitrary: G D)
  case (Cons p ps)
  have "drop L (take (length (p # ps) * L) D) = take (length ps * L) (drop L D)" by (simp add: drop_take)
  then show ?case using Cons by (simp add: min_def)
qed simp

lemma scatter_gather_same:
  assumes "\<And>p. p \<in> set ps \<Longrightarrow> p + L \<le> length G"
  shows "scatter G ps L (gather G ps L) = G"
  using assms by (intro nth_equalityI) (auto simp: length_scatter length_gather nth_scatter_gather)

subsection \<open>The two loops on the heap\<close>

definition copyout_line :: "(idx \<Rightarrow> nat) \<Rightarrow> ptr \<Rightarrow> nat \<Rightarrow> idx \<Rightarrow> ptr \<times> heap \<Rightarrow> fault + (ptr \<times> heap)" where
  "copyout_line pos grid L offset = (\<lambda>(dst, h).
     bindE (memcpy dst (ptr_add grid (int (pos offset))) L h) (\<lambda>h'. Inr (ptr_add dst (int L), h')))"

definition copyin_line :: "(idx \<Rightarrow> nat) \<Rightarrow> ptr \<Rightarrow> nat \<Rightarrow> idx \<Rightarrow> ptr \<times> heap \<Rightarrow> fault + (ptr \<times> heap)" where
  "copyin_line pos grid L offset = (\<lambda>(src, h).
     bindE (memcpy (ptr_add grid (int (pos offset))) src L h) (\<lambda>h'. Inr (ptr_add src (int L), h')))"

definition line_pos :: "nat \<Rightarrow> nat \<Rightarrow> idx \<Rightarrow> idx \<Rightarrow> nat" where
  "line_pos e n s offset = size_mult (get1DOffset offset s n) e"

lemma foldE_copyout_line:
  assumes "d \<noteq> g" and "blocks h g = Some G" and "blocks h d = Some D"
    and "\<And>p. p \<in> set offs \<Longrightarrow> 0 < L \<Longrightarrow> k + pos p + L \<le> length G"
    and "j + length offs * L \<le> length D"
  shows "foldE (copyout_line pos (Ptr g (int k)) L) offs (Ptr d (int j), h) =
    Inr (Ptr d (int (j + length offs * L)),
         h\<lparr>blocks := (blocks h)(d \<mapsto> list_write D j (gather G (map (\<lambda>p. k + pos p) offs) L))\<rparr>)"
proof (cases "L = 0")
  case True
  have "(blocks h)(d \<mapsto> D) = blocks h" using assms(3) by (simp add: fun_upd_idem)
  with True show ?thesis
    by (induction offs) (simp_all add: copyout_line_def memcpy_def)
next
  case False
  show ?thesis using assms
  proof (induction offs arbitrary: h D j)
    case Nil
    then have "(blocks h)(d \<mapsto> D) = blocks h" by (simp add: fun_upd_idem)
    then show ?case by (simp add: gather_def)
  next
    case (Cons p ps)
    let ?D = "list_write D j (take L (drop (k + pos p) G))"
    let ?h = "h\<lparr>blocks := (blocks h)(d \<mapsto> ?D)\<rparr>"
    have bounds: "k + pos p + L \<le> length G" "j + L \<le> length D"
      using Cons.prems(4,5) False by auto
    have line: "length (take L (drop (k + pos p) G)) = L" using bounds by simp
    then have lenD: "length ?D = length D" using bounds(2) by simp
    have ptr: "ptr_add (Ptr g (int k)) (int (pos p)) = Ptr g (int (k + pos p))" by simp
    have "copyout_line pos (Ptr g (int k)) L p (Ptr d (int j), h) = Inr (Ptr d (int (j + L)), ?h)"
      unfolding copyout_line_def prod.case ptr
      using memcpy_blocks[OF Cons.prems(1-3) bounds] by simp
    moreover have "foldE (copyout_line pos (Ptr g (int k)) L) ps (Ptr d (int (j + L)), ?h) =
      Inr (Ptr d (int (j + L + length ps * L)),
           ?h\<lparr>blocks := (blocks ?h)(d \<mapsto> list_write ?D (j + L) (gather G (map (\<lambda>p. k + pos p) ps) L))\<rparr>)"
      using Cons.prems lenD by (intro Cons.IH) auto
    moreover have "list_write ?D (j + L) (gather G (map (\<lambda>p. k + pos p) ps) L) =
        list_write D j (gather G (map (\<lambda>p. k + pos p) (p # ps)) L)"
    proof -
      have "length (gather G (map (\<lambda>p. k + pos p) ps) L) = length ps * L"
        using length_gather[of "map (\<lambda>p. k + pos p) ps" L G] Cons.prems(4) False by auto
      then show ?thesis
        using list_write_append[of j "take L (drop (k + pos p) G)"
            "gather G (map (\<lambda>p. k + pos p) ps) L" D] line Cons.prems(5)
        by (simp add: gather_Cons)
    qed
    ultimately show ?case by (simp add: add.assoc del: fun_upd_apply)
  qed
qed

lemma foldE_copyin_line:
  assumes "s \<noteq> g" and "blocks h s = Some D" and "blocks h g = Some G"
    and "\<And>p. p \<in> set offs \<Longrightarrow> 0 < L \<Longrightarrow> k + pos p + L \<le> length G"
    and "j + length offs * L \<le> length D"
  shows "foldE (copyin_line pos (Ptr g (int k)) L) offs (Ptr s (int j), h) =
    Inr (Ptr s (int (j + length offs * L)),
         h\<lparr>blocks := (blocks h)(g \<mapsto> scatter G (map (\<lambda>p. k + pos p) offs) L (drop j D))\<rparr>)"
proof (cases "L = 0")
  case True
  have "(blocks h)(g \<mapsto> G) = blocks h" using assms(3) by (simp add: fun_upd_idem)
  with True show ?thesis
    by (induction offs) (simp_all add: copyin_line_def memcpy_def)
next
  case False
  show ?thesis using assms
  proof (induction offs arbitrary: h G j)
    case Nil
    then have "(blocks h)(g \<mapsto> G) = blocks h" by (simp add: fun_upd_idem)
    then show ?case by simp
  next
    case (Cons p ps)
    let ?G = "list_write G (k + pos p) (take L (drop j D))"
    let ?h = "h\<lparr>blocks := (blocks h)(g \<mapsto> ?G)\<rparr>"
    have bounds: "j + L \<le> length D" "k + pos p + L \<le> length G"
      using Cons.prems(4,5) False by auto
    have lenG: "length ?G = length G" using bounds by simp
    have ptr: "ptr_add (Ptr g (int k)) (int (pos p)) = Ptr g (int (k + pos p))" by simp
    have "copyin_line pos (Ptr g (int k)) L p (Ptr s (int j), h) = Inr (Ptr s (int (j + L)), ?h)"
      unfolding copyin_line_def prod.case ptr
      using memcpy_blocks[OF Cons.prems(1)[symmetric] Cons.prems(2,3) bounds] by simp
    moreover have "foldE (copyin_line pos (Ptr g (int k)) L) ps (Ptr s (int (j + L)), ?h) =
      Inr (Ptr s (int (j + L + length ps * L)),
           ?h\<lparr>blocks := (blocks ?h)(g \<mapsto> scatter ?G (map (\<lambda>p. k + pos p) ps) L (drop (j + L) D))\<rparr>)"
      using Cons.prems lenG by (intro Cons.IH) auto
    ultimately show ?case
      by (simp add: add.assoc add.commute[of L j] del: fun_upd_apply)
  qed
qed

text \<open>
  When a copy fits: the box lies in the grid, which has at most \<open>2 ^ 64\<close> bytes, and there
  are one to three dimensions.
\<close>

definition copy_fits :: "nat \<Rightarrow> nat \<Rightarrow> idx \<Rightarrow> idx \<Rightarrow> idx \<Rightarrow> bool" where
  "copy_fits e n s off b \<longleftrightarrow>
     0 < e \<and> 1 \<le> n \<and> n \<le> 3 \<and> box_in n off b s \<and> accumulate s n * int e < 2 ^ 64"

definition box_lines :: "nat \<Rightarrow> nat \<Rightarrow> idx \<Rightarrow> idx \<Rightarrow> idx \<Rightarrow> nat list" where
  "box_lines e n s off b = map (line_pos e n s) (collect_offsets n b [off])"

definition line_bytes :: "nat \<Rightarrow> idx \<Rightarrow> nat" where
  "line_bytes e b = nat (at b 0) * e"

lemma length_box_lines [simp]: "length (box_lines e n s off b) = lines b n"
  by (simp add: box_lines_def length_collect_offsets)

lemma row_surj:
  assumes "n \<le> 3" "1 \<le> n" "k < lines b n" "\<And>i. i < n \<Longrightarrow> 0 < at b i"
  shows "\<exists>p. in_box n p b \<and> at p 0 = 0 \<and> row n p b = k"
proof -
  have "accumulate b n = at b 0 * int (lines b n)"
    using assms(2,4) by (intro accumulate_lines) (auto intro: less_imp_le)
  then have "at b 0 * int k < accumulate b n"
    using assms(2-4) by simp
  then obtain p where p: "in_box n p b" "lin n p b = at b 0 * int k"
    using lin_surj[of n b "at b 0 * int k"] assms by (auto intro: less_imp_le)
  have "at p 0 + int (row n p b) * at b 0 = 0 + int k * at b 0"
    using lin_row[OF assms(2) p(1)] p(2) by (simp add: mult.commute)
  moreover have "0 \<le> at p 0" "at p 0 < at b 0" using p(1) assms(2) by (auto simp: in_box_def)
  ultimately have "at p 0 = 0 \<and> int (row n p b) = int k"
    by (intro int_radix_unique[of _ "at b 0"]) auto
  with p show ?thesis by auto
qed

lemma collect_offsets_set:
  assumes "n \<le> 3" "1 \<le> n" "\<And>i. i < n \<Longrightarrow> 0 < at b i" "q \<in> set (collect_offsets n b [off])"
  shows "\<exists>p. in_box n p b \<and> at p 0 = 0 \<and> (\<forall>i < n. at q i = at off i + at p i)"
proof -
  obtain k where k: "k < lines b n" "q = collect_offsets n b [off] ! k"
    using assms(4) by (auto simp: in_set_conv_nth length_collect_offsets)
  then obtain p where p: "in_box n p b" "at p 0 = 0" "row n p b = k"
    using row_surj[of n k b] assms by auto
  have "at q i = at off i + at p i" if "i < n" for i
    using nth_collect_offsets[OF assms(1) p(1), of off] p k that assms(1)
    by (cases "i = 0") auto
  with p show ?thesis by auto
qed

lemma line_pos_lin:
  assumes "in_box n p s" "accumulate s n * int e < 2 ^ 64" "0 < e"
  shows "line_pos e n s p = nat (lin n p s) * e"
proof -
  have acc: "0 < accumulate s n" using assms(1) by (rule in_box_pos)
  have "accumulate s n * 1 \<le> accumulate s n * int e"
    using assms(3) acc by (intro mult_left_mono) auto
  then have small: "accumulate s n < 2 ^ 64" using assms(2) by simp
  have "nat (lin n p s) * e \<le> nat (accumulate s n) * e"
    using lin_bounds[OF assms(1)] by (intro mult_right_mono) auto
  also have "\<dots> = nat (accumulate s n * int e)" using acc by (simp add: nat_mult_distrib)
  also have "\<dots> < 2 ^ 64" using assms(2) by simp
  finally show ?thesis
    using get1DOffset_lin[OF assms(1) small] by (simp add: line_pos_def)
qed

lemma box_line_facts:
  assumes "copy_fits e n s off b" "\<And>i. i < n \<Longrightarrow> 0 < at b i" "q \<in> set (collect_offsets n b [off])"
  shows "in_box n q s" "at q 0 = at off 0" "line_pos e n s q = nat (lin n q s) * e"
    "lin n q s + at b 0 \<le> accumulate s n"
proof -
  have f: "0 < e" "1 \<le> n" "n \<le> 3" "box_in n off b s" "accumulate s n * int e < 2 ^ 64"
    using assms(1) by (auto simp: copy_fits_def)
  obtain p where p: "in_box n p b" "at p 0 = 0" "\<And>i. i < n \<Longrightarrow> at q i = at off i + at p i"
    using collect_offsets_set[OF f(3,2) assms(2,3)] by auto
  show q: "in_box n q s"
    unfolding in_box_def
  proof (intro allI impI)
    fix i assume i: "i < n"
    then show "0 \<le> at q i \<and> at q i < at s i"
      using p(1) p(3)[OF i] f(4) by (fastforce simp: in_box_def box_in_def)
  qed
  show q0: "at q 0 = at off 0" using p(2) p(3)[of 0] f(2) by simp
  show "line_pos e n s q = nat (lin n q s) * e" using q f by (intro line_pos_lin) auto
  let ?q = "upd q 0 (at q 0 + at b 0 - 1)"
  have atq: "at ?q i = (if i = 0 then at q 0 + at b 0 - 1 else at q i)" if "i < n" for i
    using that f(3) by (simp add: at_upd)
  have "0 \<le> at off 0" "at off 0 + at b 0 \<le> at s 0" using f(2,4) by (auto simp: box_in_def)
  then have box: "in_box n ?q s"
    using q atq assms(2)[of 0] f(2) q0 by (auto simp: in_box_def)
  have "row m ?q s = row m q s" if "m \<le> n" for m
    using that atq by (induction m q s rule: row.induct) auto
  then have "lin n ?q s = lin n q s + at b 0 - 1"
    using lin_row[OF f(2) box] lin_row[OF f(2) q] atq[of 0] f(2) by simp
  with lin_bounds[OF box] show "lin n q s + at b 0 \<le> accumulate s n" by simp
qed

subsection \<open>The two copies\<close>

text \<open>
  The bytes of the box at \<open>off\<close> of size \<open>b\<close> in a grid of size \<open>s\<close>, in the row-major order
  of the box.
\<close>

definition subgrid :: "nat \<Rightarrow> nat \<Rightarrow> idx \<Rightarrow> idx \<Rightarrow> idx \<Rightarrow> 'a list \<Rightarrow> 'a list" where
  "subgrid e n s off b G = gather G (box_lines e n s off b) (line_bytes e b)"

lemma CopyoutSubgrid_alt:
  "CopyoutSubgrid e n grid s sub off b h =
     bindE (foldE (copyout_line (line_pos e n s) grid (size_mult (to_size (at b 0)) e))
              (collect_offsets n b [off]) (sub, h))
       (\<lambda>(dst, h'). bindE (assertE (dst = ptr_add sub (int (size_mult (to_size (accumulate b n)) e))))
          (\<lambda>_. Inr h'))"
  by (simp add: CopyoutSubgrid_def copyout_line_def[abs_def] line_pos_def Let_def)

lemma CopyinSubgrid_alt:
  "CopyinSubgrid e n grid s sub off b h =
     bindE (foldE (copyin_line (line_pos e n s) grid (size_mult (to_size (at b 0)) e))
              (collect_offsets n b [off]) (sub, h))
       (\<lambda>(src, h'). bindE (assertE (src = ptr_add sub (int (size_mult (to_size (accumulate b n)) e))))
          (\<lambda>_. Inr h'))"
  by (simp add: CopyinSubgrid_def copyin_line_def[abs_def] line_pos_def Let_def)

lemma lines_0: "1 \<le> i \<Longrightarrow> i < n \<Longrightarrow> at b i = 0 \<Longrightarrow> lines b n = 0"
  by (induction b n rule: lines.induct) (auto simp: less_Suc_eq)

lemma copy_fits_cases:
  assumes "copy_fits e n s off b"
  shows "accumulate b n = 0 \<or> (\<forall>i < n. 0 < at b i)"
  using assms accumulate_eq_0_iff[of b n] by (force simp: copy_fits_def box_in_def)

lemma copy_fits_sizes:
  assumes "copy_fits e n s off b" and "\<And>i. i < n \<Longrightarrow> 0 < at b i"
  shows "size_mult (to_size (at b 0)) e = line_bytes e b"
    "size_mult (to_size (accumulate b n)) e = lines b n * line_bytes e b"
    "nat (accumulate b n) = lines b n * nat (at b 0)"
    "nat (accumulate b n) * e \<le> nat (accumulate s n) * e"
proof -
  have f: "0 < e" "1 \<le> n" "n \<le> 3" "box_in n off b s" "accumulate s n * int e < 2 ^ 64"
    using assms(1) by (auto simp: copy_fits_def)
  have acc_b: "accumulate b n = at b 0 * int (lines b n)"
    using f(2) assms(2) by (intro accumulate_lines) (auto intro: less_imp_le)
  have le: "0 \<le> accumulate b m \<and> accumulate b m \<le> accumulate s m" if "m \<le> n" for m
    using that
  proof (induction m)
    case (Suc m)
    then have "0 \<le> at off m \<and> at off m + at b m \<le> at s m" and "0 < at b m"
      using assms(2) f(4) by (auto simp: box_in_def)
    then have "0 < at b m" "at b m \<le> at s m" by auto
    with Suc show ?case by (auto intro: mult_mono)
  qed simp
  show nat_acc: "nat (accumulate b n) = lines b n * nat (at b 0)"
    using acc_b assms(2)[of 0] f(2) by (simp add: nat_mult_distrib)
  show le_b: "nat (accumulate b n) * e \<le> nat (accumulate s n) * e"
    using le[of n] by (intro mult_right_mono) auto
  have "nat (accumulate s n) * e = nat (accumulate s n * int e)"
    using le[of n] by (simp add: nat_mult_distrib)
  then have small_s: "nat (accumulate s n) * e < 2 ^ 64" using f(5) by simp
  then have small: "nat (accumulate b n) * e < 2 ^ 64" using le_b by (rule le_less_trans [rotated])
  have "nat (accumulate b n) * 1 \<le> nat (accumulate b n) * e" using f(1) by (intro mult_left_mono) auto
  then have accb64: "nat (accumulate b n) < 2 ^ 64" using small by linarith
  have "accumulate b n \<noteq> 0" using assms(2) by (force simp: accumulate_eq_0_iff)
  then have ln: "0 < lines b n" using acc_b by (cases "lines b n = 0") auto
  then have b0_le: "nat (at b 0) \<le> nat (accumulate b n)" using nat_acc by simp
  then have b064: "nat (at b 0) < 2 ^ 64" using accb64 by linarith
  have b0e: "nat (at b 0) * e \<le> nat (accumulate b n) * e" using b0_le by (rule mult_right_mono) simp
  show "size_mult (to_size (at b 0)) e = line_bytes e b"
    using b064 le_less_trans[OF b0e small] assms(2)[of 0] f(2)
    by (simp add: line_bytes_def nat_less_iff)
  show "size_mult (to_size (accumulate b n)) e = lines b n * line_bytes e b"
    using small accb64 le[of n] nat_acc by (simp add: line_bytes_def nat_less_iff mult.assoc)
qed

lemma box_lines_bounds:
  assumes "copy_fits e n s off b" "\<And>i. i < n \<Longrightarrow> 0 < at b i" "p \<in> set (collect_offsets n b [off])"
  shows "line_pos e n s p + line_bytes e b \<le> nat (accumulate s n) * e"
proof -
  note facts = box_line_facts[OF assms]
  have "0 \<le> lin n p s" using lin_bounds[OF facts(1)] by simp
  moreover have "0 \<le> at b 0" using assms(1) assms(2)[of 0] by (simp add: copy_fits_def)
  ultimately have "line_pos e n s p + line_bytes e b = nat (lin n p s + at b 0) * e"
    using facts(3) by (simp add: line_bytes_def nat_add_distrib add_mult_distrib)
  also have "\<dots> \<le> nat (accumulate s n) * e"
    using facts(4) by (intro mult_right_mono) auto
  finally show ?thesis .
qed

lemma copy_empty:
  assumes "copy_fits e n s off b" "accumulate b n = 0"
  shows "CopyoutSubgrid e n grid s sub off b h = Inr h"
    and "CopyinSubgrid e n grid s sub off b h = Inr h"
    and "subgrid e n s off b G = []"
    and "scatter G' (box_lines e n s off b) (line_bytes e b) D = G'"
proof -
  obtain i where i: "i < n" "at b i = 0" using assms(2) by (auto simp: accumulate_eq_0_iff)
  have zero: "at b 0 = 0 \<or> lines b n = 0"
    using i lines_0[of i n b] by (cases "i = 0") auto
  have "collect_offsets n b [off] = []" if "lines b n = 0"
    using that length_collect_offsets[of n b off] by simp
  moreover have fold0: "foldE (copyout_line pos grid 0) offs (sub, h) = Inr (sub, h)"
    "foldE (copyin_line pos grid 0) offs (sub, h) = Inr (sub, h)" for pos offs
    by (induction offs) (simp_all add: copyout_line_def copyin_line_def memcpy_def)
  ultimately show "CopyoutSubgrid e n grid s sub off b h = Inr h"
    "CopyinSubgrid e n grid s sub off b h = Inr h"
    using zero assms(2)
    by (auto simp: CopyoutSubgrid_alt CopyinSubgrid_alt to_size_def size_mult_def)
  show "subgrid e n s off b G = []"
    using zero \<open>lines b n = 0 \<Longrightarrow> collect_offsets n b [off] = []\<close>
    by (auto simp: subgrid_def line_bytes_def box_lines_def gather_def)
  show "scatter G' (box_lines e n s off b) (line_bytes e b) D = G'"
    using zero \<open>lines b n = 0 \<Longrightarrow> collect_offsets n b [off] = []\<close>
    by (auto simp: line_bytes_def box_lines_def)
qed

lemma CopyoutSubgrid_ok:
  assumes fits: "copy_fits e n s off b"
    and blks: "d \<noteq> g" "blocks h g = Some G" "blocks h d = Some D"
    and lens: "nat (accumulate s n) * e \<le> length G" "j + nat (accumulate b n) * e \<le> length D"
  shows "CopyoutSubgrid e n (Ptr g 0) s (Ptr d (int j)) off b h =
    Inr (h\<lparr>blocks := (blocks h)(d \<mapsto> list_write D j (subgrid e n s off b G))\<rparr>)"
proof (cases "accumulate b n = 0")
  case True
  have "(blocks h)(d \<mapsto> D) = blocks h" using blks(3) by (simp add: fun_upd_idem)
  with True show ?thesis by (simp add: copy_empty[OF fits])
next
  case False
  then have pos: "\<And>i. i < n \<Longrightarrow> 0 < at b i" using copy_fits_cases[OF fits] by auto
  note sizes = copy_fits_sizes[OF fits pos]
  have "foldE (copyout_line (line_pos e n s) (Ptr g (int 0)) (line_bytes e b))
          (collect_offsets n b [off]) (Ptr d (int j), h) =
    Inr (Ptr d (int (j + length (collect_offsets n b [off]) * line_bytes e b)),
         h\<lparr>blocks := (blocks h)(d \<mapsto> list_write D j
           (gather G (map (\<lambda>p. 0 + line_pos e n s p) (collect_offsets n b [off])) (line_bytes e b)))\<rparr>)"
    using box_lines_bounds[OF fits pos] lens sizes(2,3)
    by (intro foldE_copyout_line blks)
      (auto simp: length_collect_offsets line_bytes_def mult.assoc intro: order_trans)
  then show ?thesis
    using sizes(1,2) by (simp add: CopyoutSubgrid_alt length_collect_offsets subgrid_def box_lines_def)
qed

lemma CopyinSubgrid_ok:
  assumes fits: "copy_fits e n s off b"
    and blks: "d \<noteq> g" "blocks h g = Some G" "blocks h d = Some D"
    and lens: "nat (accumulate s n) * e \<le> length G" "j + nat (accumulate b n) * e \<le> length D"
  shows "CopyinSubgrid e n (Ptr g 0) s (Ptr d (int j)) off b h =
    Inr (h\<lparr>blocks := (blocks h)
      (g \<mapsto> scatter G (box_lines e n s off b) (line_bytes e b) (drop j D))\<rparr>)"
proof (cases "accumulate b n = 0")
  case True
  have "(blocks h)(g \<mapsto> G) = blocks h" using blks(2) by (simp add: fun_upd_idem)
  with True show ?thesis by (simp add: copy_empty[OF fits])
next
  case False
  then have pos: "\<And>i. i < n \<Longrightarrow> 0 < at b i" using copy_fits_cases[OF fits] by auto
  note sizes = copy_fits_sizes[OF fits pos]
  have "foldE (copyin_line (line_pos e n s) (Ptr g (int 0)) (line_bytes e b))
          (collect_offsets n b [off]) (Ptr d (int j), h) =
    Inr (Ptr d (int (j + length (collect_offsets n b [off]) * line_bytes e b)),
         h\<lparr>blocks := (blocks h)(g \<mapsto>
           scatter G (map (\<lambda>p. 0 + line_pos e n s p) (collect_offsets n b [off])) (line_bytes e b) (drop j D))\<rparr>)"
    using box_lines_bounds[OF fits pos] lens sizes(2,3)
    by (intro foldE_copyin_line blks)
      (auto simp: length_collect_offsets line_bytes_def mult.assoc intro: order_trans)
  then show ?thesis
    using sizes(1,2) by (simp add: CopyinSubgrid_alt length_collect_offsets box_lines_def)
qed

lemma length_subgrid:
  assumes fits: "copy_fits e n s off b" and "nat (accumulate s n) * e \<le> length G"
  shows "length (subgrid e n s off b G) = nat (accumulate b n) * e"
proof (cases "accumulate b n = 0")
  case True
  then show ?thesis by (simp add: copy_empty(3)[OF fits])
next
  case False
  then have pos: "\<And>i. i < n \<Longrightarrow> 0 < at b i" using copy_fits_cases[OF fits] by auto
  have "length (subgrid e n s off b G) = lines b n * line_bytes e b"
    unfolding subgrid_def using box_lines_bounds[OF fits pos] assms(2)
    by (subst length_gather) (auto simp: box_lines_def length_collect_offsets intro: order_trans)
  then show ?thesis using copy_fits_sizes(3)[OF fits pos] by (simp add: line_bytes_def mult.assoc)
qed

text \<open>Element \<open>p\<close> of the copied box is element \<open>off + p\<close> of the grid.\<close>

lemma elem_subgrid:
  assumes fits: "copy_fits e n s off b" and len: "nat (accumulate s n) * e \<le> length G"
    and p: "in_box n p b"
  shows "elem e (subgrid e n s off b G) (nat (lin n p b)) = elem e G (nat (lin n (arr_plus off p) s))"
proof -
  have f: "1 \<le> n" "n \<le> 3" "0 < e" "accumulate s n * int e < 2 ^ 64" "box_in n off b s"
    using fits by (auto simp: copy_fits_def)
  have pos: "\<And>i. i < n \<Longrightarrow> 0 < at b i" using p by (rule in_box_size_pos)
  let ?offs = "collect_offsets n b [off]" and ?L = "line_bytes e b"
  let ?o = "?offs ! row n p b"
  note nth = nth_collect_offsets[OF f(2) p, of off]
  then have o: "?o \<in> set ?offs" by simp
  note facts = box_line_facts[OF fits pos o]
  have p0: "0 \<le> at p 0" "at p 0 < at b 0" using p f(1) by (auto simp: in_box_def)
  have linb: "nat (lin n p b) * e = row n p b * ?L + nat (at p 0) * e"
    using lin_row[OF f(1) p] p0
    by (simp add: nat_add_distrib nat_mult_distrib line_bytes_def algebra_simps)
  have inner: "nat (at p 0) * e + e \<le> ?L"
  proof -
    have "(nat (at p 0) + 1) * e \<le> nat (at b 0) * e" using p0 by (intro mult_right_mono) auto
    then show ?thesis by (simp add: line_bytes_def)
  qed
  have lens: "length ys = ?L" if ys: "ys \<in> set (map (\<lambda>q. take ?L (drop q G)) (box_lines e n s off b))" for ys
    using box_lines_bounds[OF fits pos] len ys
    by (fastforce simp: box_lines_def min_def)
  have "elem e (subgrid e n s off b G) (nat (lin n p b)) =
      take e (drop (row n p b * ?L + nat (at p 0) * e) (subgrid e n s off b G))"
    by (simp add: elem_def linb)
  also have "\<dots> = take e (drop (nat (at p 0) * e) (take ?L (drop (line_pos e n s ?o) G)))"
    unfolding subgrid_def gather_def using nth inner
    by (subst take_drop_concat_uniform[OF lens]) (auto simp: box_lines_def length_collect_offsets)
  also have "\<dots> = take e (drop (nat (lin n ?o s + at p 0) * e) G)"
    using inner facts(3) lin_bounds[OF facts(1)] p0
    by (simp add: take_drop nat_add_distrib add_mult_distrib add.commute)
  also have "lin n ?o s + at p 0 = lin n (arr_plus off p) s"
  proof -
    have eq: "at (arr_plus off p) i = (if i = 0 then at ?o 0 + at p 0 else at ?o i)" if "i < n" for i
      using nth that f(2) by (auto simp: at_arr_plus)
    have "in_box n (arr_plus off p) s"
      using p f(2,5) by (fastforce simp: in_box_def box_in_def at_arr_plus)
    moreover have "row m (arr_plus off p) s = row m ?o s" if "m \<le> n" for m
      using that eq by (induction m p s rule: row.induct) auto
    ultimately show ?thesis
      using lin_row[OF f(1), of "arr_plus off p" s] lin_row[OF f(1) facts(1)] eq[of 0] f(1) by simp
  qed
  finally show ?thesis by (simp add: elem_def)
qed

text \<open>A line of the box, as numbers of elements of the grid, covers the points it should.\<close>

lemma line_covers:
  assumes "1 \<le> n" "n \<le> 3" and o: "in_box n o' s" and q: "in_box n q s" and b: "at o' 0 + b \<le> at s 0"
  shows "lin n o' s \<le> lin n q s \<and> lin n q s < lin n o' s + b \<longleftrightarrow>
    (\<forall>i. 1 \<le> i \<and> i < n \<longrightarrow> at q i = at o' i) \<and> at o' 0 \<le> at q 0 \<and> at q 0 < at o' 0 + b"
proof -
  have shift: "in_box n (upd o' 0 (at o' 0 + t)) s \<and>
      lin n (upd o' 0 (at o' 0 + t)) s = lin n o' s + t" if t: "0 \<le> t" "t < b" for t
  proof -
    let ?o = "upd o' 0 (at o' 0 + t)"
    have at_o: "at ?o i = (if i = 0 then at o' 0 + t else at o' i)" if "i < n" for i
      using that assms(2) by (simp add: at_upd)
    have box: "in_box n ?o s" using o at_o t b by (auto simp: in_box_def)
    have "row m ?o s = row m o' s" if "m \<le> n" for m
      using that at_o by (induction m o' s rule: row.induct) auto
    then show ?thesis
      using box lin_row[OF assms(1) box] lin_row[OF assms(1) o] at_o[of 0] assms(1) by simp
  qed
  show ?thesis
  proof
    assume h: "lin n o' s \<le> lin n q s \<and> lin n q s < lin n o' s + b"
    let ?t = "lin n q s - lin n o' s"
    have "in_box n (upd o' 0 (at o' 0 + ?t)) s" "lin n (upd o' 0 (at o' 0 + ?t)) s = lin n q s"
      using shift[of ?t] h by auto
    then have "at q i = at (upd o' 0 (at o' 0 + ?t)) i" if "i < n" for i
      using lin_inj[OF q _ _ that] by auto
    then show "(\<forall>i. 1 \<le> i \<and> i < n \<longrightarrow> at q i = at o' i) \<and> at o' 0 \<le> at q 0 \<and> at q 0 < at o' 0 + b"
      using h assms(1,2) by (auto simp: at_upd)
  next
    assume h: "(\<forall>i. 1 \<le> i \<and> i < n \<longrightarrow> at q i = at o' i) \<and> at o' 0 \<le> at q 0 \<and> at q 0 < at o' 0 + b"
    let ?t = "at q 0 - at o' 0"
    have "lin n q s = lin n (upd o' 0 (at o' 0 + ?t)) s"
      using h assms(2) by (intro lin_cong) (auto simp: at_upd)
    with shift[of ?t] h show "lin n o' s \<le> lin n q s \<and> lin n q s < lin n o' s + b" by auto
  qed
qed

text \<open>The points of the grid that a copy into the box writes.\<close>

definition in_subbox :: "nat \<Rightarrow> idx \<Rightarrow> idx \<Rightarrow> idx \<Rightarrow> bool" where
  "in_subbox n off b q \<longleftrightarrow> (\<forall>i < n. at off i \<le> at q i \<and> at q i < at off i + at b i)"

lemma in_subbox_shift:
  "n \<le> 3 \<Longrightarrow> in_subbox n off b q \<longleftrightarrow> in_box n (arr_minus q off) b"
  by (auto simp: in_subbox_def in_box_def at_arr_minus)

lemma byte_in_line:
  fixes i p L e k :: nat
  assumes "r < e"
  shows "p * e \<le> k * e + r \<and> k * e + r < p * e + L * e \<longleftrightarrow> p \<le> k \<and> k < p + L"
proof
  assume h: "p * e \<le> k * e + r \<and> k * e + r < p * e + L * e"
  have "p * e < (k + 1) * e" "k * e < (p + L) * e" using h assms by (auto simp: algebra_simps)
  then show "p \<le> k \<and> k < p + L" by (simp only: mult_less_cancel2) simp
next
  assume h: "p \<le> k \<and> k < p + L"
  then have "p * e \<le> k * e" by (intro mult_right_mono) auto
  moreover have "(k + 1) * e \<le> (p + L) * e" using h by (intro mult_right_mono) auto
  ultimately show "p * e \<le> k * e + r \<and> k * e + r < p * e + L * e"
    using assms by (simp only: add_mult_distrib mult_1) linarith
qed

text \<open>Byte \<open>r\<close> of element \<open>q\<close> lies in some line of the box exactly if \<open>q\<close> lies in the box.\<close>

lemma byte_in_box:
  assumes fits: "copy_fits e n s off b" and pos: "\<And>i. i < n \<Longrightarrow> 0 < at b i"
    and q: "in_box n q s" and r: "r < e"
  shows "(\<exists>p \<in> set (box_lines e n s off b). p \<le> nat (lin n q s) * e + r \<and>
            nat (lin n q s) * e + r < p + line_bytes e b) \<longleftrightarrow> in_subbox n off b q"
proof -
  have f: "1 \<le> n" "n \<le> 3" "box_in n off b s" using fits by (auto simp: copy_fits_def)
  have hit: "line_pos e n s x \<le> nat (lin n q s) * e + r \<and>
        nat (lin n q s) * e + r < line_pos e n s x + line_bytes e b \<longleftrightarrow>
      (\<forall>i. 1 \<le> i \<and> i < n \<longrightarrow> at q i = at x i) \<and> at off 0 \<le> at q 0 \<and> at q 0 < at off 0 + at b 0"
    if x: "x \<in> set (collect_offsets n b [off])" for x
  proof -
    note facts = box_line_facts[OF fits pos x]
    have b0: "0 < at b 0" "at x 0 + at b 0 \<le> at s 0"
      using pos[of 0] f facts(2) by (auto simp: box_in_def)
    have lin0: "0 \<le> lin n x s" "0 \<le> lin n q s" using lin_bounds[OF facts(1)] lin_bounds[OF q] by auto
    have "nat (lin n x s) \<le> nat (lin n q s) \<and> nat (lin n q s) < nat (lin n x s) + nat (at b 0) \<longleftrightarrow>
        lin n x s \<le> lin n q s \<and> lin n q s < lin n x s + at b 0"
      using lin0 b0 by auto
    then show ?thesis
      using line_covers[OF f(1,2) facts(1) q b0(2)] facts(2,3)
        byte_in_line[OF r, of "nat (lin n x s)" "nat (lin n q s)" "nat (at b 0)"]
      by (simp add: line_bytes_def)
  qed
  show ?thesis
  proof
    assume "\<exists>p \<in> set (box_lines e n s off b). p \<le> nat (lin n q s) * e + r \<and>
        nat (lin n q s) * e + r < p + line_bytes e b"
    then obtain x where x: "x \<in> set (collect_offsets n b [off])"
      "(\<forall>i. 1 \<le> i \<and> i < n \<longrightarrow> at q i = at x i) \<and> at off 0 \<le> at q 0 \<and> at q 0 < at off 0 + at b 0"
      using hit by (auto simp: box_lines_def)
    obtain p where p: "in_box n p b" "\<And>i. i < n \<Longrightarrow> at x i = at off i + at p i"
      using collect_offsets_set[OF f(2,1) pos x(1)] by auto
    show "in_subbox n off b q"
      unfolding in_subbox_def
    proof (intro allI impI)
      fix i assume i: "i < n"
      show "at off i \<le> at q i \<and> at q i < at off i + at b i"
        using x(2) p(1) p(2)[OF i] i by (cases "i = 0") (auto simp: in_box_def)
    qed
  next
    assume sub: "in_subbox n off b q"
    let ?p = "upd (arr_minus q off) 0 0"
    have at_p: "at ?p i = (if i = 0 then 0 else at q i - at off i)" if "i < n" for i
      using that f(2) by (simp add: at_upd at_arr_minus)
    have box: "in_box n ?p b" using sub at_p pos by (auto simp: in_box_def in_subbox_def)
    let ?x = "collect_offsets n b [off] ! row n ?p b"
    note nth = nth_collect_offsets[OF f(2) box, of off]
    then have x: "?x \<in> set (collect_offsets n b [off])" by simp
    have "\<forall>i. 1 \<le> i \<and> i < n \<longrightarrow> at q i = at ?x i" using nth at_p f(2) by auto
    moreover have "at off 0 \<le> at q 0 \<and> at q 0 < at off 0 + at b 0"
      using sub f(1) by (auto simp: in_subbox_def)
    ultimately show "\<exists>p \<in> set (box_lines e n s off b). p \<le> nat (lin n q s) * e + r \<and>
        nat (lin n q s) * e + r < p + line_bytes e b"
      using hit[OF x] x by (auto simp: box_lines_def)
  qed
qed

text \<open>
  A copy into the box writes element \<open>q - off\<close> of the buffer to every point \<open>q\<close> of the
  box, and nothing elsewhere. It is stated for a buffer that holds the same box of some
  grid of the same shape, which is what the runtime sends and receives.
\<close>

lemma elem_scatter_subgrid:
  assumes fits: "copy_fits e n s off b"
    and lens: "nat (accumulate s n) * e \<le> length A" "length B = length A"
    and q: "in_box n q s"
  shows "elem e (scatter B (box_lines e n s off b) (line_bytes e b) (subgrid e n s off b A))
            (nat (lin n q s)) =
    elem e (if in_subbox n off b q then A else B) (nat (lin n q s))"
proof (cases "accumulate b n = 0")
  case True
  then obtain i where "i < n" "at b i = 0" by (auto simp: accumulate_eq_0_iff)
  then have "\<not> in_subbox n off b q" by (force simp: in_subbox_def)
  with True show ?thesis by (simp add: copy_empty(4)[OF fits])
next
  case False
  then have pos: "\<And>i. i < n \<Longrightarrow> 0 < at b i" using copy_fits_cases[OF fits] by auto
  let ?k = "nat (lin n q s) * e"
  let ?R = "scatter B (box_lines e n s off b) (line_bytes e b) (subgrid e n s off b A)"
  have lines_in: "p + line_bytes e b \<le> length A" if "p \<in> set (box_lines e n s off b)" for p
    using that box_lines_bounds[OF fits pos] lens(1) by (fastforce simp: box_lines_def)
  have "(nat (lin n q s) + 1) * e \<le> nat (accumulate s n) * e"
    using lin_bounds[OF q] by (intro mult_right_mono) auto
  then have k: "?k + e \<le> length A" using lens(1) by simp
  have lenR: "length ?R = length A"
    using lines_in lens(2) unfolding subgrid_def
    by (subst length_scatter) (auto simp: length_gather)
  show ?thesis
  proof (rule nth_equalityI)
    show "length (elem e ?R (nat (lin n q s))) = length (elem e (if in_subbox n off b q then A else B) (nat (lin n q s)))"
      using lenR lens(2) by (simp add: elem_def)
  next
    fix r assume "r < length (elem e ?R (nat (lin n q s)))"
    then have r: "r < e" by (simp add: elem_def)
    have "?R ! (?k + r) = (if in_subbox n off b q then A else B) ! (?k + r)"
      unfolding subgrid_def using nth_scatter_gather[OF lines_in lens(2), where i = "?k + r"] k r
        byte_in_box[OF fits pos q r] by simp
    then show "elem e ?R (nat (lin n q s)) ! r =
        elem e (if in_subbox n off b q then A else B) (nat (lin n q s)) ! r"
      using k r lenR lens(2) by (simp add: elem_def)
  qed
qed

lemma length_scatter_subgrid:
  assumes fits: "copy_fits e n s off b"
    and lens: "nat (accumulate s n) * e \<le> length B" "length D = nat (accumulate b n) * e"
  shows "length (scatter B (box_lines e n s off b) (line_bytes e b) D) = length B"
proof (cases "accumulate b n = 0")
  case True
  then show ?thesis by (simp add: copy_empty(4)[OF fits])
next
  case False
  then have pos: "\<And>i. i < n \<Longrightarrow> 0 < at b i" using copy_fits_cases[OF fits] by auto
  show ?thesis
  proof (rule length_scatter)
    show "p + line_bytes e b \<le> length B" if "p \<in> set (box_lines e n s off b)" for p
      using that box_lines_bounds[OF fits pos] lens(1) by (fastforce simp: box_lines_def)
    show "length (box_lines e n s off b) * line_bytes e b \<le> length D"
      using lens(2) copy_fits_sizes(3)[OF fits pos] by (simp add: line_bytes_def mult.assoc)
  qed
qed

text \<open>Two blocks of elements of the same shape are equal if their elements are.\<close>

lemma elem_eqI:
  assumes "n \<le> 3" "\<And>i. i < n \<Longrightarrow> 0 \<le> at s i" "0 < e"
    and len: "length A = nat (accumulate s n) * e" "length B = nat (accumulate s n) * e"
    and eq: "\<And>q. in_box n q s \<Longrightarrow> elem e A (nat (lin n q s)) = elem e B (nat (lin n q s))"
  shows "A = B"
proof (rule nth_equalityI)
  fix i assume i: "i < length A"
  let ?k = "i div e"
  have k: "?k < nat (accumulate s n)" using i len(1) by (simp add: less_mult_imp_div_less)
  then obtain q where q: "in_box n q s" "lin n q s = int ?k"
    using lin_surj[of n s "int ?k"] assms(1,2) by (auto simp: zless_nat_eq_int_zless)
  have r: "i mod e < e" using assms(3) by simp
  have k_le: "?k * e \<le> nat (accumulate s n) * e" using k by (intro mult_right_mono) auto
  have "elem e C ?k ! (i mod e) = C ! (?k * e + i mod e)"
    if "length C = nat (accumulate s n) * e" for C :: "'a list"
    using nth_drop[of "?k * e" C "i mod e"] k_le r unfolding elem_def that by (simp only: nth_take)
  from this[OF len(1)] this[OF len(2)] show "A ! i = B ! i"
    using eq[OF q(1)] q(2) by simp
qed (simp add: len)

subsection \<open>Points of a grid and their elements\<close>

lemma elem_bound: "k < N \<Longrightarrow> N * e \<le> len \<Longrightarrow> k * e + e \<le> (len :: nat)"
  by (metis Suc_leI add.commute le_trans mult_Suc mult_le_mono1)

lemma elem_list_write:
  assumes "k < N" "k' < N" "N * e \<le> length D" "length v = e"
  shows "elem e (list_write D (k * e) v) k' = (if k' = k then v else elem e D k')"
proof -
  note b = elem_bound[OF assms(1,3)] elem_bound[OF assms(2,3)]
  show ?thesis
  proof (cases "k' = k")
    case True
    then show ?thesis using take_drop_list_write[of "k * e" v D] b(1) assms(4) by (simp add: elem_def)
  next
    case False
    then have apart: "k' * e + e \<le> k * e \<or> k * e + e \<le> k' * e"
      using mult_le_mono1[of "Suc k'" k e] mult_le_mono1[of "Suc k" k' e] by (cases "k' < k") auto
    have "take e (drop (k' * e) (list_write D (k * e) v)) = take e (drop (k' * e) D)"
      using apart b assms(4) by (intro nth_equalityI) (auto simp: nth_list_write)
    with False show ?thesis by (simp add: elem_def)
  qed
qed

text \<open>
  The indices at which clients use a grid of \<open>n\<close> dimensions: inside the first \<open>n\<close> sizes and
  0 in the dimensions the grid does not have.
\<close>

definition grid_point :: "nat \<Rightarrow> idx \<Rightarrow> idx \<Rightarrow> bool" where
  "grid_point n p s \<longleftrightarrow> in_box n p s \<and> (\<forall>i < 3. n \<le> i \<longrightarrow> at p i = 0)"

lemma lin_grid_point: "n \<le> m \<Longrightarrow> m \<le> 3 \<Longrightarrow> grid_point n p s \<Longrightarrow> lin m p s = lin n p s"
  by (induction m rule: dec_induct) (auto simp: grid_point_def)

lemma GridCalcOffset3D_point:
  assumes "n \<le> 3" "grid_point n p s"
  shows "GridCalcOffset3D p s = lin n p s" "0 \<le> lin n p s" "lin n p s < accumulate s n"
  using lin_grid_point[of n 3 p s] assms lin_bounds[of n p s]
  by (auto simp: GridCalcOffset3D_lin grid_point_def)

lemma grid_point_eqI:
  assumes "grid_point n p s" "grid_point n q s" "lin n p s = lin n q s"
  shows "p = q"
proof (rule arr3_eqI)
  fix i :: nat assume "i < 3"
  with assms lin_inj[of n p s q] show "at p i = at q i"
    by (cases "i < n") (auto simp: grid_point_def)
qed

end
