(* ===== verification/Reduction.thy ===== *)
theory Reduction imports Grid_Util "HOL-Library.Multiset" begin

text \<open>
  \<open>runtime/reduce.h\<close>, \<open>include/physis/reduce.h\<close>, \<open>include/physis/types.h\<close> and the
  MPI constants of \<open>runtime/mpi_util.h\<close>: the reduction operators, their default values
  and the loop that folds the elements of a grid. The element type \<open>T\<close> of the templates
  is a type variable; the limits of \<open>float.h\<close> are arguments.
\<close>

subsection \<open>Operators\<close>

text \<open>
  \<open>PS_OTHER_OP\<close> stands for a value of the enumeration's type outside its constants, which
  the \<open>default\<close> branches handle.
\<close>

datatype PSReduceOp = PS_MAX | PS_MIN | PS_SUM | PS_PROD | PS_OTHER_OP int

definition PS_INT :: int where "PS_INT = 0"
definition PS_LONG :: int where "PS_LONG = 1"
definition PS_FLOAT :: int where "PS_FLOAT = 2"
definition PS_DOUBLE :: int where "PS_DOUBLE = 3"

definition MaxOp :: "'a::ord \<Rightarrow> 'a \<Rightarrow> 'a" where
  "MaxOp x y = (if x > y then x else y)"

definition MinOp :: "'a::ord \<Rightarrow> 'a \<Rightarrow> 'a" where
  "MinOp x y = (if x < y then x else y)"

fun GetReducer :: "PSReduceOp \<Rightarrow> fault + ('a::{ord,plus,times} \<Rightarrow> 'a \<Rightarrow> 'a)" where
  "GetReducer PS_MAX = Inr MaxOp"
| "GetReducer PS_MIN = Inr MinOp"
| "GetReducer PS_SUM = Inr (+)"
| "GetReducer PS_PROD = Inr (*)"
| "GetReducer (PS_OTHER_OP _) = Inl (Aborted 1)"

text \<open>
  The specialisations for \<open>float\<close> and \<open>double\<close> differ only in the limits: \<open>lim_min\<close> is
  \<open>FLT_MIN\<close> or \<open>DBL_MIN\<close>, the smallest positive normal number, and \<open>lim_max\<close> the
  largest number.
\<close>

fun GetReductionDefaultValue_float :: "'a \<Rightarrow> 'a \<Rightarrow> PSReduceOp \<Rightarrow> fault + 'a::{zero,one}" where
  "GetReductionDefaultValue_float flt_min flt_max PS_MAX = Inr flt_min"
| "GetReductionDefaultValue_float flt_min flt_max PS_MIN = Inr flt_max"
| "GetReductionDefaultValue_float flt_min flt_max PS_SUM = Inr 0"
| "GetReductionDefaultValue_float flt_min flt_max PS_PROD = Inr 1"
| "GetReductionDefaultValue_float flt_min flt_max (PS_OTHER_OP _) = Inl (Aborted 1)"

fun GetReductionDefaultValue_double :: "'a \<Rightarrow> 'a \<Rightarrow> PSReduceOp \<Rightarrow> fault + 'a::{zero,one}" where
  "GetReductionDefaultValue_double dbl_min dbl_max PS_MAX = Inr dbl_min"
| "GetReductionDefaultValue_double dbl_min dbl_max PS_MIN = Inr dbl_max"
| "GetReductionDefaultValue_double dbl_min dbl_max PS_SUM = Inr 0"
| "GetReductionDefaultValue_double dbl_min dbl_max PS_PROD = Inr 1"
| "GetReductionDefaultValue_double dbl_min dbl_max (PS_OTHER_OP _) = Inl (Aborted 1)"

datatype MPI_Datatype = MPI_INT | MPI_LONG | MPI_FLOAT | MPI_DOUBLE

datatype MPI_Op = MPI_MAX | MPI_MIN | MPI_SUM | MPI_PROD

definition GetMPIDataType :: "int \<Rightarrow> fault + MPI_Datatype" where
  "GetMPIDataType type =
     (if type = PS_INT then Inr MPI_INT
      else if type = PS_LONG then Inr MPI_LONG
      else if type = PS_FLOAT then Inr MPI_FLOAT
      else if type = PS_DOUBLE then Inr MPI_DOUBLE
      else Inl (Aborted 1))"

fun GetMPIOp :: "PSReduceOp \<Rightarrow> fault + MPI_Op" where
  "GetMPIOp PS_MAX = Inr MPI_MAX"
| "GetMPIOp PS_MIN = Inr MPI_MIN"
| "GetMPIOp PS_SUM = Inr MPI_SUM"
| "GetMPIOp PS_PROD = Inr MPI_PROD"
| "GetMPIOp (PS_OTHER_OP _) = Inl (Aborted 1)"

subsection \<open>The loop over the elements\<close>

text \<open>
  \<open>v = d[0]; for (i = 1; i < n; ++i) v = func(v, d[i]);\<close> over the elements \<open>d\<close>, which
  are the bytes of the block read at type \<open>T\<close> by \<open>dec\<close>.
\<close>

fun reduce_loop :: "('a \<Rightarrow> 'a \<Rightarrow> 'a) \<Rightarrow> 'a list \<Rightarrow> fault + 'a" where
  "reduce_loop func [] = Inl OutOfBounds"
| "reduce_loop func (d # ds) = Inr (foldl func d ds)"

definition elements :: "(cell list \<Rightarrow> 'a) \<Rightarrow> nat \<Rightarrow> cell list \<Rightarrow> nat \<Rightarrow> 'a list" where
  "elements dec e cs n = map (\<lambda>i. dec (elem e cs i)) [0..<n]"

subsection \<open>Reductions do not depend on how the elements are grouped\<close>

text \<open>
  What a distributed reduction asks of its operator. The client lemmas say that a list
  may be cut into non-empty pieces, reduced piecewise in any order, and the results
  reduced again: what the processes of a grid space do together.
\<close>

locale reduction_operator =
  fixes f :: "'a \<Rightarrow> 'a \<Rightarrow> 'a"
  assumes assoc: "f (f x y) z = f x (f y z)"
    and commute: "f x y = f y x"
begin

lemma foldl_shift: "f x (foldl f y ys) = foldl f (f x y) ys"
  by (induction ys arbitrary: y) (simp_all add: assoc)

lemma reduce_append:
  "reduce_loop f xs = Inr u \<Longrightarrow> reduce_loop f ys = Inr v \<Longrightarrow> reduce_loop f (xs @ ys) = Inr (f u v)"
  by (cases xs; cases ys) (auto simp: foldl_shift)

lemma reduce_move: "reduce_loop f (xs @ x # ys) = reduce_loop f (x # xs @ ys)"
proof (cases xs)
  case (Cons y zs)
  have "foldl f y (zs @ x # ys) = foldl f (f x (foldl f y zs)) ys" by (simp add: commute)
  also have "\<dots> = foldl f x (y # zs @ ys)" by (simp add: foldl_shift)
  finally show ?thesis using Cons by simp
qed simp

lemma reduce_perm: "mset xs = mset ys \<Longrightarrow> reduce_loop f xs = reduce_loop f ys"
proof (induction xs arbitrary: ys)
  case (Cons x xs)
  have "x \<in> set ys" using Cons.prems by (metis list.set_intros(1) set_mset_mset)
  then obtain us vs where ys: "ys = us @ x # vs" by (auto simp: in_set_conv_decomp)
  then have "reduce_loop f xs = reduce_loop f (us @ vs)" using Cons by simp
  then have "reduce_loop f (x # xs) = reduce_loop f (x # us @ vs)"
    by (cases xs; cases "us @ vs") (auto simp flip: foldl_shift)
  with ys show ?case by (simp add: reduce_move)
qed simp

lemma reduce_concat:
  "xss \<noteq> [] \<Longrightarrow> list_all2 (\<lambda>xs v. reduce_loop f xs = Inr v) xss vs \<Longrightarrow>
   reduce_loop f (concat xss) = reduce_loop f vs"
proof (induction xss arbitrary: vs)
  case (Cons xs xss)
  then obtain v vs' where vs: "vs = v # vs'" "reduce_loop f xs = Inr v"
    "list_all2 (\<lambda>xs v. reduce_loop f xs = Inr v) xss vs'"
    by (auto simp: list_all2_Cons1)
  show ?case
  proof (cases xss)
    case Nil
    with vs show ?thesis by simp
  next
    case Cons': (Cons ys yss)
    then obtain w where w: "reduce_loop f vs' = Inr w" using vs(3) by (cases vs') auto
    then have "reduce_loop f (concat xss) = Inr w" using Cons.IH vs(3) Cons' by simp
    then have "reduce_loop f (concat (xs # xss)) = Inr (f v w)"
      using reduce_append[OF vs(2)] by simp
    moreover have "reduce_loop f vs = Inr (f v w)" using w vs(1) by (cases vs') (auto simp: foldl_shift)
    ultimately show ?thesis by simp
  qed
qed simp

end

interpretation max_op: reduction_operator "MaxOp :: 'a::linorder \<Rightarrow> 'a \<Rightarrow> 'a"
  by unfold_locales (auto simp: MaxOp_def)

interpretation min_op: reduction_operator "MinOp :: 'a::linorder \<Rightarrow> 'a \<Rightarrow> 'a"
  by unfold_locales (auto simp: MinOp_def)

interpretation sum_op: reduction_operator "(+) :: 'a::ab_semigroup_add \<Rightarrow> 'a \<Rightarrow> 'a"
  by unfold_locales (simp_all add: ac_simps)

interpretation prod_op: reduction_operator "(*) :: 'a::ab_semigroup_mult \<Rightarrow> 'a \<Rightarrow> 'a"
  by unfold_locales (simp_all add: ac_simps)

lemma GetReducer_operator:
  "GetReducer op = Inr (f :: 'a::linordered_idom \<Rightarrow> 'a \<Rightarrow> 'a) \<Longrightarrow> reduction_operator f"
  by (cases op)
    (auto intro: max_op.reduction_operator_axioms min_op.reduction_operator_axioms
      sum_op.reduction_operator_axioms prod_op.reduction_operator_axioms)

lemma foldl_MaxOp: "foldl MaxOp (d::'a::linorder) ds = Max (set (d # ds))"
proof -
  have "foldl MaxOp d ds = fold max ds d" for d :: 'a
    by (induction ds arbitrary: d) (auto simp: MaxOp_def max_def)
  then show ?thesis by (simp add: Max.set_eq_fold del: list.set)
qed

end
