(* ===== verification/Physis_Util.thy ===== *)
theory Physis_Util imports Prelude "HOL-Library.Sublist" begin

text \<open>
  \<open>include/physis/physis_util.h\<close>: the string helpers, the container helpers and the
  classes \<open>StringJoin\<close> and \<open>Counter\<close>. Strings are lists of characters; a position of
  \<open>std::string\<close> is a natural number or, for \<open>npos\<close>, \<open>None\<close>.
\<close>

subsection \<open>Numbers as strings\<close>

definition digit_char :: "nat \<Rightarrow> char" where
  "digit_char d = char_of (48 + d)"

fun toString_nat :: "nat \<Rightarrow> string" where
  "toString_nat n =
     (if n < 10 then [digit_char n] else toString_nat (n div 10) @ [digit_char (n mod 10)])"

declare toString_nat.simps [simp del]

definition toString_int :: "int \<Rightarrow> string" where
  "toString_int x = (if x < 0 then CHR ''-'' # toString_nat (nat (- x)) else toString_nat (nat x))"

definition is_space :: "char \<Rightarrow> bool" where
  "is_space c \<longleftrightarrow> of_char c \<in> {32, 9, 10, 11, 12, 13 :: nat}"

definition is_digit :: "char \<Rightarrow> bool" where
  "is_digit c \<longleftrightarrow> 48 \<le> (of_char c :: nat) \<and> (of_char c :: nat) \<le> 57"

definition digits_value :: "string \<Rightarrow> nat" where
  "digits_value ds = foldl (\<lambda>v c. 10 * v + (of_char c - 48)) 0 ds"

text \<open>
  Extraction of a decimal number from a stream whose exceptions are enabled: leading
  white space is skipped, a sign is taken, then the longest run of digits; no digit or a
  value outside the type throws. The rest of the string is not looked at.
\<close>

definition extract_number :: "int \<Rightarrow> int \<Rightarrow> string \<Rightarrow> fault + int" where
  "extract_number lo hi s =
     (let t = dropWhile is_space s;
          neg = (case t of c # _ \<Rightarrow> c = CHR ''-'' | [] \<Rightarrow> False);
          u = (case t of c # cs \<Rightarrow> if c = CHR ''-'' \<or> c = CHR ''+'' then cs else t | [] \<Rightarrow> []);
          ds = takeWhile is_digit u;
          v = (if neg then - int (digits_value ds) else int (digits_value ds))
      in if ds = [] \<or> v < lo \<or> hi < v then Inl ParseFailure else Inr v)"

definition toInteger :: "string \<Rightarrow> fault + int" where
  "toInteger s = extract_number (- (2 ^ 31)) (2 ^ 31 - 1) s"

definition toSSizeT :: "string \<Rightarrow> fault + int" where
  "toSSizeT s = extract_number (- (2 ^ 63)) (2 ^ 63 - 1) s"

text \<open>Extraction into an unsigned type negates a signed number modulo its width.\<close>

definition toUnsignedInteger :: "string \<Rightarrow> fault + nat" where
  "toUnsignedInteger s =
     bindE (extract_number (- (2 ^ 32 - 1)) (2 ^ 32 - 1) s) (\<lambda>v. Inr (to_unsigned v))"

definition toSizeT :: "string \<Rightarrow> fault + nat" where
  "toSizeT s = bindE (extract_number (- (2 ^ 64 - 1)) (2 ^ 64 - 1) s) (\<lambda>v. Inr (to_size v))"

subsection \<open>Containers\<close>

definition isContained_list :: "'a list \<Rightarrow> 'a \<Rightarrow> bool" where
  "isContained_list v x \<longleftrightarrow> List.member v x"

definition isContained_map :: "('k \<rightharpoonup> 'v) \<Rightarrow> 'k \<Rightarrow> bool" where
  "isContained_map m k \<longleftrightarrow> m k \<noteq> None"

definition isContained_set :: "'a set \<Rightarrow> 'a \<Rightarrow> bool" where
  "isContained_set v x \<longleftrightarrow> x \<in> v"

definition find_default :: "('k \<rightharpoonup> 'v) \<Rightarrow> 'k \<Rightarrow> 'v \<Rightarrow> 'v" where
  "find_default m k v = (case m k of None \<Rightarrow> v | Some w \<Rightarrow> w)"

subsection \<open>Searching in strings\<close>

definition match_at :: "string \<Rightarrow> string \<Rightarrow> nat \<Rightarrow> bool" where
  "match_at s pat i \<longleftrightarrow> i + length pat \<le> length s \<and> take (length pat) (drop i s) = pat"

definition str_find :: "string \<Rightarrow> string \<Rightarrow> nat \<Rightarrow> nat option" where
  "str_find s pat pos = List.find (match_at s pat) [pos..<Suc (length s)]"

definition str_rfind :: "string \<Rightarrow> string \<Rightarrow> nat option" where
  "str_rfind s pat = List.find (match_at s pat) (rev [0..<Suc (length s)])"

text \<open>\<open>npos + 1\<close> is 0, because \<open>npos\<close> is the largest \<open>size_t\<close>.\<close>

fun pos_plus1 :: "nat option \<Rightarrow> nat" where
  "pos_plus1 None = 0"
| "pos_plus1 (Some i) = Suc i"

definition getGenericName :: "string \<Rightarrow> string" where
  "getGenericName keyedName =
     (let t1 = str_find keyedName ''_'' 0;
          t2 = str_find keyedName ''_'' (pos_plus1 t1)
      in take (pos_plus1 t1) keyedName @ drop (pos_plus1 t2) keyedName)"

definition startswith :: "string \<Rightarrow> string \<Rightarrow> bool" where
  "startswith base pre =
     (let found = str_find base pre 0 in found \<noteq> None \<and> found = Some 0)"

text \<open>The subtraction of the lengths is one of \<open>size_t\<close>, modulo \<open>2 ^ 64\<close>.\<close>

definition endswith :: "string \<Rightarrow> string \<Rightarrow> bool" where
  "endswith base suf =
     (case str_rfind base suf of
        None \<Rightarrow> False
      | Some found \<Rightarrow> found = to_size (int (length base) - int (length suf)))"

definition ws :: string where
  "ws = map char_of [32, 9, 12, 11, 10, 13 :: nat]"

definition find_last_not_of :: "string \<Rightarrow> string \<Rightarrow> nat option" where
  "find_last_not_of s cs = List.find (\<lambda>i. s ! i \<notin> set cs) (rev [0..<length s])"

definition find_first_not_of :: "string \<Rightarrow> string \<Rightarrow> nat option" where
  "find_first_not_of s cs = List.find (\<lambda>i. s ! i \<notin> set cs) [0..<length s]"

definition strip :: "string \<Rightarrow> fault + string" where
  "strip s =
     (case find_last_not_of s ws of
        None \<Rightarrow> Inr []
      | Some found \<Rightarrow>
          (let r = take (Suc found) s
           in case find_first_not_of r ws of
                None \<Rightarrow> Inl AssertFailed
              | Some first \<Rightarrow> Inr (take (length r - first) (drop first r))))"

subsection \<open>\<open>StringJoin\<close> and \<open>Counter\<close>\<close>

record string_join =
  sj_sep :: string
  sj_first :: bool
  sj_ss :: string

definition StringJoin :: "string \<Rightarrow> string_join" where
  "StringJoin s = \<lparr>sj_sep = s, sj_first = True, sj_ss = []\<rparr>"

definition sj_append :: "string \<Rightarrow> string_join \<Rightarrow> string_join" where
  "sj_append s sj =
     sj\<lparr>sj_ss := sj_ss sj @ (if sj_first sj then [] else sj_sep sj) @ s, sj_first := False\<rparr>"

definition sj_str :: "string_join \<Rightarrow> string" where
  "sj_str sj = sj_ss sj"

definition toString_range :: "string list \<Rightarrow> string" where
  "toString_range xs = ''{'' @ sj_str (fold sj_append xs (StringJoin '', '')) @ ''}''"

record counter =
  counter_v :: nat

definition Counter :: "nat \<Rightarrow> counter" where
  "Counter origin = \<lparr>counter_v = origin\<rparr>"

definition Counter_next :: "counter \<Rightarrow> nat \<times> counter" where
  "Counter_next c = (counter_v c, c\<lparr>counter_v := (counter_v c + 1) mod 2 ^ 32\<rparr>)"

definition Counter_read :: "counter \<Rightarrow> nat" where
  "Counter_read c = counter_v c"

subsection \<open>Printing and reading numbers\<close>

lemma of_char_digit [simp]: "d < 10 \<Longrightarrow> of_char (digit_char d) = 48 + d"
  by (simp add: digit_char_def)

lemma is_digit_digit [simp]: "d < 10 \<Longrightarrow> is_digit (digit_char d)"
  by (simp add: is_digit_def)

lemma toString_nat_nonempty: "toString_nat n \<noteq> []"
  by (subst toString_nat.simps) simp

lemma toString_nat_digits: "\<forall>c \<in> set (toString_nat n). is_digit c"
proof (induction n rule: toString_nat.induct)
  case (1 n)
  then show ?case by (subst toString_nat.simps) auto
qed

lemma digits_value_snoc: "digits_value (ds @ [c]) = 10 * digits_value ds + (of_char c - 48)"
  by (simp add: digits_value_def)

lemma digits_value_toString: "digits_value (toString_nat n) = n"
proof (induction n rule: toString_nat.induct)
  case (1 n)
  show ?case
  proof (cases "n < 10")
    case True
    then show ?thesis by (subst toString_nat.simps) (simp add: digits_value_def)
  next
    case False
    then show ?thesis using "1" by (subst toString_nat.simps) (simp add: digits_value_snoc)
  qed
qed

lemma toString_nat_inj: "toString_nat m = toString_nat n \<Longrightarrow> m = n"
  by (metis digits_value_toString)

lemma is_digit_not_space: "is_digit c \<Longrightarrow> \<not> is_space c \<and> c \<noteq> CHR ''-'' \<and> c \<noteq> CHR ''+''"
  by (auto simp: is_digit_def is_space_def)

lemma extract_number_toString:
  assumes "lo \<le> int n" "int n \<le> hi" "rest = [] \<or> \<not> is_digit (hd rest)"
  shows "extract_number lo hi (toString_nat n @ rest) = Inr (int n)"
proof -
  obtain c cs where c: "toString_nat n = c # cs" using toString_nat_nonempty by (cases "toString_nat n") auto
  then have d: "is_digit c" using toString_nat_digits[of n] by simp
  have all: "takeWhile is_digit (toString_nat n @ rest) = toString_nat n"
    using toString_nat_digits[of n] assms(3) by (cases rest) (auto simp: takeWhile_append)
  have "dropWhile is_space (toString_nat n @ rest) = toString_nat n @ rest"
    using c is_digit_not_space[OF d] by simp
  then show ?thesis
    using all c is_digit_not_space[OF d] assms(1,2) digits_value_toString[of n]
    unfolding extract_number_def Let_def by (simp split: if_splits)
qed

lemma toInteger_toString:
  "x < 2 ^ 31 \<Longrightarrow> toInteger (toString_nat x) = Inr (int x)"
  unfolding toInteger_def using extract_number_toString[of "- (2 ^ 31)" x "2 ^ 31 - 1" "[]"] by simp

lemma toInteger_empty: "toInteger [] = Inl ParseFailure"
  by (simp add: toInteger_def extract_number_def)

subsection \<open>Searching\<close>

lemma find_upt_Some:
  "List.find P [m..<n] = Some i \<longleftrightarrow> m \<le> i \<and> i < n \<and> P i \<and> (\<forall>j. m \<le> j \<and> j < i \<longrightarrow> \<not> P j)"
proof (induction "n - m" arbitrary: m)
  case 0
  then show ?case by simp
next
  case (Suc k)
  then have mn: "m < n" by simp
  show ?case
  proof (cases "P m")
    case True
    then show ?thesis using mn by (auto simp: upt_rec[of m n] intro: leD)
  next
    case False
    have "List.find P [Suc m..<n] = Some i \<longleftrightarrow>
        Suc m \<le> i \<and> i < n \<and> P i \<and> (\<forall>j. Suc m \<le> j \<and> j < i \<longrightarrow> \<not> P j)"
      using Suc by simp
    moreover have "List.find P [m..<n] = List.find P [Suc m..<n]"
      using mn False by (simp add: upt_rec[of m n])
    ultimately show ?thesis using False by (metis Suc_leD Suc_leI le_neq_implies_less)
  qed
qed

lemma startswith_prefix: "startswith base pre \<longleftrightarrow> prefix pre base"
proof -
  have "startswith base pre \<longleftrightarrow> match_at base pre 0"
    using find_upt_Some[of "match_at base pre" 0 "Suc (length base)" 0]
    by (auto simp: startswith_def Let_def str_find_def simp del: upt_Suc)
  also have "\<dots> \<longleftrightarrow> prefix pre base"
  proof
    assume "match_at base pre 0"
    then have "take (length pre) base = pre" by (simp add: match_at_def)
    then show "prefix pre base" by (metis take_is_prefix)
  qed (auto simp: match_at_def prefix_def)
  finally show ?thesis .
qed

lemma find_rev_upt_Some:
  "List.find P (rev [0..<n]) = Some i \<longleftrightarrow> i < n \<and> P i \<and> (\<forall>j. i < j \<and> j < n \<longrightarrow> \<not> P j)"
  by (induction n) (auto simp: less_Suc_eq)

lemma endswith_suffix:
  assumes "length base < 2 ^ 64"
  shows "endswith base suf \<longleftrightarrow> suffix suf base"
proof
  assume "endswith base suf"
  then obtain i where f: "str_rfind base suf = Some i"
      and i: "i = to_size (int (length base) - int (length suf))"
    by (auto simp: endswith_def split: option.splits)
  have m: "i + length suf \<le> length base" "take (length suf) (drop i base) = suf"
    using f unfolding str_rfind_def find_rev_upt_Some by (auto simp: match_at_def)
  then have "i = length base - length suf"
    using i assms by (simp add: nat_diff_distrib)
  then have "drop i base = suf" using m by simp
  then show "suffix suf base" using suffix_drop by metis
next
  assume "suffix suf base"
  then obtain p where p: "base = p @ suf" by (auto simp: suffix_def)
  have "str_rfind base suf = Some (length p)"
    unfolding str_rfind_def find_rev_upt_Some using p by (auto simp: match_at_def)
  then show "endswith base suf" using p assms by (simp add: endswith_def)
qed

subsection \<open>\<open>strip\<close> and \<open>StringJoin\<close>\<close>

lemma find_last_not_of_None:
  "find_last_not_of s cs = None \<longleftrightarrow> set s \<subseteq> set cs"
  by (auto simp: find_last_not_of_def find_None_iff in_set_conv_nth subset_iff)

lemma find_first_not_of_append:
  "set a \<subseteq> set cs \<Longrightarrow> c \<notin> set cs \<Longrightarrow> find_first_not_of (a @ c # b) cs = Some (length a)"
  unfolding find_first_not_of_def find_upt_Some
  by (auto simp: nth_append subset_iff)

lemma find_last_not_of_append:
  "set b \<subseteq> set cs \<Longrightarrow> c \<notin> set cs \<Longrightarrow> find_last_not_of (a @ c # b) cs = Some (length a)"
  unfolding find_last_not_of_def find_rev_upt_Some
  by (auto simp: nth_append nth_Cons' subset_iff)

lemma strip_blank: "set s \<subseteq> set ws \<Longrightarrow> strip s = Inr []"
  using find_last_not_of_None[of s ws] by (simp add: strip_def)

lemma strip_core:
  assumes "set a \<subseteq> set ws" "set b \<subseteq> set ws" "m \<noteq> []" "hd m \<notin> set ws" "last m \<notin> set ws"
  shows "strip (a @ m @ b) = Inr m"
proof -
  obtain m1 where m1: "m = m1 @ [last m]" using assms(3) by (metis append_butlast_last_id)
  obtain m2 where m2: "m = hd m # m2" using assms(3) by (cases m) auto
  have s: "a @ m @ b = (a @ m1) @ last m # b" using m1 by simp
  have l: "find_last_not_of (a @ m @ b) ws = Some (length a + length m1)"
    unfolding s using find_last_not_of_append[OF assms(2,5), of "a @ m1"] by simp
  have lm: "Suc (length m1) = length m" using m1 by (metis length_append_singleton)
  have t: "take (Suc (length a + length m1)) (a @ m @ b) = a @ m"
    using lm by simp
  have f: "find_first_not_of (a @ m) ws = Some (length a)"
    using find_first_not_of_append[OF assms(1,4), of m2] m2 by simp
  show ?thesis unfolding strip_def l option.case Let_def t f by simp
qed

fun intersperse_str :: "string \<Rightarrow> string list \<Rightarrow> string" where
  "intersperse_str s [] = []"
| "intersperse_str s [x] = x"
| "intersperse_str s (x # y # xs) = x @ s @ intersperse_str s (y # xs)"

lemma fold_sj_append:
  "sj_first j = False \<Longrightarrow>
    fold sj_append xs j = j\<lparr>sj_ss := sj_ss j @ concat (map (\<lambda>x. sj_sep j @ x) xs)\<rparr>"
  by (induction xs arbitrary: j) (simp_all add: sj_append_def)

lemma intersperse_str_concat:
  "intersperse_str s (x # xs) = x @ concat (map (\<lambda>y. s @ y) xs)"
  by (induction xs arbitrary: x) simp_all

lemma sj_str_intersperse:
  "sj_str (fold sj_append xs (StringJoin s)) = intersperse_str s xs"
proof (cases xs)
  case Nil
  then show ?thesis by (simp add: sj_str_def StringJoin_def)
next
  case (Cons x ys)
  then show ?thesis
    by (simp add: fold_sj_append intersperse_str_concat sj_str_def)
      (simp add: sj_append_def StringJoin_def fold_sj_append)
qed

end
