(* ===== verification/Grid_Base.thy ===== *)
theory Grid_Base imports Host_Buffer Reduction Physis_Util begin

text \<open>
  \<open>runtime/grid.h\<close> and \<open>runtime/grid.cc\<close>: the class \<open>Grid\<close>, with its one or two host
  buffers, and the registry \<open>GridSpace\<close>. A \<open>world\<close> holds the heap of bytes, the \<open>Buffer\<close>
  objects made by \<open>new\<close> and the files of the checkpoint directory. A grid record is the
  object's fields; \<open>GridSpace\<close> refers to grids by their address.
\<close>

subsection \<open>The world\<close>

record world =
  hp :: heap
  bufs :: "nat \<Rightarrow> buffer option"
  next_buf :: nat
  files :: "string \<Rightarrow> cell list option"

definition new_buffer :: "buffer \<Rightarrow> world \<Rightarrow> nat \<times> world" where
  "new_buffer b st = (next_buf st, st\<lparr>bufs := (bufs st)(next_buf st \<mapsto> b), next_buf := Suc (next_buf st)\<rparr>)"

text \<open>\<open>delete\<close> of a \<open>BufferHost\<close>: the destructor runs \<open>Delete\<close>; deleting \<open>NULL\<close> does nothing.\<close>

fun delete_buffer :: "nat option \<Rightarrow> world \<Rightarrow> fault + world" where
  "delete_buffer None st = Inr st"
| "delete_buffer (Some k) st =
     (case bufs st k of
        None \<Rightarrow> Inl BadFree
      | Some b \<Rightarrow>
          bindE (Buffer_Delete b (hp st)) (\<lambda>(b, h).
            Inr (st\<lparr>hp := h, bufs := (bufs st)(k := None)\<rparr>)))"

text \<open>A call of a method of a \<open>Buffer\<close> object.\<close>

definition with_buffer ::
    "(buffer \<Rightarrow> heap \<Rightarrow> fault + (buffer \<times> heap)) \<Rightarrow> nat option \<Rightarrow> world \<Rightarrow> fault + world" where
  "with_buffer f k st =
     (case k of
        None \<Rightarrow> Inl NullPointer
      | Some k \<Rightarrow>
          (case bufs st k of
             None \<Rightarrow> Inl DanglingPointer
           | Some b \<Rightarrow>
               bindE (f b (hp st)) (\<lambda>(b, h).
                 Inr (st\<lparr>hp := h, bufs := (bufs st)(k \<mapsto> b)\<rparr>))))"

definition buffer_at :: "nat option \<Rightarrow> world \<Rightarrow> fault + buffer" where
  "buffer_at k st =
     (case k of
        None \<Rightarrow> Inl NullPointer
      | Some k \<Rightarrow> (case bufs st k of None \<Rightarrow> Inl DanglingPointer | Some b \<Rightarrow> Inr b))"

lemma buffer_at_upd [simp]:
  "buffer_at k (st\<lparr>hp := h\<rparr>) = buffer_at k st" "buffer_at k (st\<lparr>files := fs\<rparr>) = buffer_at k st"
  by (simp_all add: buffer_at_def cong: option.case_cong)

lemma buffer_at_cong: "bufs st' = bufs st \<Longrightarrow> buffer_at k st' = buffer_at k st"
  by (simp add: buffer_at_def cong: option.case_cong)

text \<open>\<open>Get()\<close> of a \<open>Buffer\<close> object.\<close>

definition buffer_ptr :: "nat option \<Rightarrow> world \<Rightarrow> fault + ptr" where
  "buffer_ptr k st = bindE (buffer_at k st) (\<lambda>b. Inr (buf_ptr b))"

definition on_heap :: "(heap \<Rightarrow> fault + heap) \<Rightarrow> world \<Rightarrow> fault + world" where
  "on_heap f st = bindE (f (hp st)) (\<lambda>h. Inr (st\<lparr>hp := h\<rparr>))"

subsection \<open>Grids\<close>

record grid =
  grid_type :: int
  grid_elm_size :: nat
  grid_num_dims :: nat
  grid_num_elms :: nat
  grid_size :: idx
  grid_double :: bool
  grid_attr :: nat
  grid_id :: "int option"   \<comment> \<open>\<open>None\<close> before \<open>RegisterGrid\<close> sets it\<close>
  data_buffer0 :: "nat option"
  data_buffer1 :: "nat option"
  data0 :: ptr
  data1 :: ptr

definition Grid_new :: "int \<Rightarrow> nat \<Rightarrow> nat \<Rightarrow> idx \<Rightarrow> bool \<Rightarrow> nat \<Rightarrow> grid" where
  "Grid_new type e n sz double_buffering attr =
     \<lparr>grid_type = type, grid_elm_size = e, grid_num_dims = n, grid_num_elms = to_size (accumulate sz n),
      grid_size = sz, grid_double = double_buffering, grid_attr = attr, grid_id = None,
      data_buffer0 = None, data_buffer1 = None, data0 = Null, data1 = Null\<rparr>"

text \<open>\<open>new BufferHost(num_dims, num_elms)\<close> followed by \<open>Allocate(size)\<close>.\<close>

definition new_grid_buffer :: "grid \<Rightarrow> world \<Rightarrow> fault + (nat \<times> world)" where
  "new_grid_buffer g st =
     (let (k, st) = new_buffer (BufferHost_new (grid_num_dims g) (grid_num_elms g)) st
      in bindE (with_buffer (Buffer_Allocate1 BufferHost_GetChunk (grid_size g)) (Some k) st)
           (\<lambda>st. Inr (k, st)))"

definition Grid_InitBuffer :: "grid \<Rightarrow> world \<Rightarrow> fault + (grid \<times> world)" where
  "Grid_InitBuffer g st =
     bindE (new_grid_buffer g st) (\<lambda>(k0, st).
       bindE (if grid_double g then new_grid_buffer g st else Inr (k0, st)) (\<lambda>(k1, st).
         bindE (buffer_ptr (Some k0) st) (\<lambda>d0.
           bindE (buffer_ptr (Some k1) st) (\<lambda>d1.
             Inr (g\<lparr>data_buffer0 := Some k0, data_buffer1 := Some k1, data0 := d0, data1 := d1\<rparr>, st)))))"

definition Grid_Create :: "int \<Rightarrow> nat \<Rightarrow> nat \<Rightarrow> idx \<Rightarrow> bool \<Rightarrow> nat \<Rightarrow> world \<Rightarrow> fault + (grid \<times> world)" where
  "Grid_Create type e n sz double_buffering attr st =
     Grid_InitBuffer (Grid_new type e n sz double_buffering attr) st"

definition Grid_DeleteBuffers :: "'g grid_scheme \<Rightarrow> world \<Rightarrow> fault + ('g grid_scheme \<times> world)" where
  "Grid_DeleteBuffers g st =
     bindE (if data0 g \<noteq> Null
            then bindE (delete_buffer (data_buffer0 g) st) (\<lambda>st. Inr (g\<lparr>data0 := Null\<rparr>, st))
            else Inr (g, st)) (\<lambda>(g, st).
       if grid_double g \<and> data1 g \<noteq> Null
       then bindE (delete_buffer (data_buffer1 g) st) (\<lambda>st. Inr (g\<lparr>data1 := Null\<rparr>, st))
       else Inr (g, st))"

text \<open>The destructor; the object is gone afterwards.\<close>

definition Grid_delete :: "'g grid_scheme \<Rightarrow> world \<Rightarrow> fault + world" where
  "Grid_delete g st = bindE (Grid_DeleteBuffers g st) (\<lambda>(g, st). Inr st)"

definition Grid_Swap :: "'g grid_scheme \<Rightarrow> 'g grid_scheme" where
  "Grid_Swap g = g\<lparr>data0 := data1 g, data1 := data0 g,
     data_buffer0 := data_buffer1 g, data_buffer1 := data_buffer0 g\<rparr>"

definition Grid_GetAddress :: "'g grid_scheme \<Rightarrow> idx \<Rightarrow> ptr" where
  "Grid_GetAddress g indices =
     ptr_add (data0 g) (GridCalcOffset3D indices (grid_size g) * int (grid_elm_size g))"

definition Grid_Copyin :: "ptr \<Rightarrow> ptr \<Rightarrow> nat \<Rightarrow> world \<Rightarrow> fault + world" where
  "Grid_Copyin dst src sz = on_heap (memcpy dst src sz)"

definition Grid_Copyout :: "ptr \<Rightarrow> ptr \<Rightarrow> nat \<Rightarrow> world \<Rightarrow> fault + world" where
  "Grid_Copyout dst src sz = on_heap (memcpy dst src sz)"

definition Grid_Set :: "'g grid_scheme \<Rightarrow> idx \<Rightarrow> ptr \<Rightarrow> world \<Rightarrow> fault + world" where
  "Grid_Set g indices buf = Grid_Copyin (Grid_GetAddress g indices) buf (grid_elm_size g)"

definition Grid_Get :: "'g grid_scheme \<Rightarrow> idx \<Rightarrow> ptr \<Rightarrow> world \<Rightarrow> fault + world" where
  "Grid_Get g indices buf = Grid_Copyout buf (Grid_GetAddress g indices) (grid_elm_size g)"

definition Grid_AttributeSet :: "'g grid_scheme \<Rightarrow> nat \<Rightarrow> bool" where
  "Grid_AttributeSet g a \<longleftrightarrow> and (grid_attr g) a \<noteq> 0"

text \<open>
  \<open>ReduceGrid\<close>: the elements of type \<open>T\<close>, of \<open>tsize\<close> bytes, from the start of the data;
  \<open>dec\<close> and \<open>enc\<close> are the representation of \<open>T\<close>. Returns the result and the number of
  elements, as an \<open>int\<close>; \<open>None\<close> when nothing is stored through \<open>out\<close>.
\<close>

definition ReduceGrid ::
    "nat \<Rightarrow> (cell list \<Rightarrow> 'a::{ord,plus,times}) \<Rightarrow> 'g grid_scheme \<Rightarrow> PSReduceOp \<Rightarrow> world \<Rightarrow>
      fault + ('a option \<times> nat)" where
  "ReduceGrid tsize dec g op st =
     (if grid_num_elms g = 0 then Inr (None, 0)
      else bindE (GetReducer op) (\<lambda>func.
        bindE (load (data0 g) (grid_num_elms g * tsize) (hp st)) (\<lambda>cs.
          bindE (reduce_loop func (elements dec tsize cs (grid_num_elms g))) (\<lambda>v.
            Inr (Some v, grid_num_elms g)))))"

definition Grid_Reduce ::
    "(cell list \<Rightarrow> 'f::{ord,plus,times}) \<Rightarrow> (cell list \<Rightarrow> 'd::{ord,plus,times}) \<Rightarrow>
      ('f \<Rightarrow> cell list) \<Rightarrow> ('d \<Rightarrow> cell list) \<Rightarrow>
      'g grid_scheme \<Rightarrow> PSReduceOp \<Rightarrow> ptr \<Rightarrow> world \<Rightarrow> fault + (nat \<times> world)" where
  "Grid_Reduce dec_float dec_double enc_float enc_double g op out st =
     (if grid_type g = PS_FLOAT
      then bindE (ReduceGrid 4 dec_float g op st) (\<lambda>(v, n).
             case v of
               None \<Rightarrow> Inr (n, st)
             | Some v \<Rightarrow> bindE (on_heap (store out (enc_float v)) st) (\<lambda>st. Inr (n, st)))
      else if grid_type g = PS_DOUBLE
      then bindE (ReduceGrid 8 dec_double g op st) (\<lambda>(v, n).
             case v of
               None \<Rightarrow> Inr (n, st)
             | Some v \<Rightarrow> bindE (on_heap (store out (enc_double v)) st) (\<lambda>st. Inr (n, st)))
      else Inl (Aborted 1))"

subsection \<open>Checkpoints\<close>

text \<open>
  The directory is the environment variable or \<open>None\<close>; a file is named after the address
  of the grid. Opening for output truncates; reading a file that does not exist or is too
  short stores what there is and does not complain.
\<close>

definition GetPath :: "string option \<Rightarrow> nat \<Rightarrow> string" where
  "GetPath ckpt_dir k =
     (case ckpt_dir of Some d \<Rightarrow> d | None \<Rightarrow> ''.'') @ ''/'' @ toString_nat k"

definition SaveToFile :: "string option \<Rightarrow> nat \<Rightarrow> ptr \<Rightarrow> nat \<Rightarrow> world \<Rightarrow> fault + world" where
  "SaveToFile ckpt_dir this buf len st =
     bindE (if len = 0 then Inr [] else load buf len (hp st)) (\<lambda>cs.
       Inr (st\<lparr>files := (files st)(GetPath ckpt_dir this \<mapsto> cs)\<rparr>))"

definition RestoreFromFile :: "string option \<Rightarrow> nat \<Rightarrow> ptr \<Rightarrow> nat \<Rightarrow> world \<Rightarrow> fault + world" where
  "RestoreFromFile ckpt_dir this buf len st =
     (case files st (GetPath ckpt_dir this) of
        None \<Rightarrow> Inr st
      | Some cs \<Rightarrow>
          if take len cs = [] then Inr st
          else on_heap (store buf (take len cs)) st)"

definition Grid_Save :: "string option \<Rightarrow> nat \<Rightarrow> 'g grid_scheme \<Rightarrow> world \<Rightarrow> fault + world" where
  "Grid_Save ckpt_dir this g st =
     bindE (buffer_at (data_buffer0 g) st) (\<lambda>b.
       SaveToFile ckpt_dir this (buf_ptr b) (GetLinearSize b) st)"

definition Grid_Restore :: "string option \<Rightarrow> nat \<Rightarrow> 'g grid_scheme \<Rightarrow> world \<Rightarrow> fault + world" where
  "Grid_Restore ckpt_dir this g st =
     bindE (buffer_at (data_buffer0 g) st) (\<lambda>b.
       RestoreFromFile ckpt_dir this (buf_ptr b) (GetLinearSize b) st)"

subsection \<open>The registry\<close>

text \<open>
  \<open>std::map\<close> is an association list ordered by key: \<open>insert\<close> keeps an entry that is there.
\<close>

definition map_insert :: "int \<times> 'v \<Rightarrow> (int \<times> 'v) list \<Rightarrow> (int \<times> 'v) list" where
  "map_insert kv m =
     (if map_of m (fst kv) \<noteq> None then m else insort_key fst kv m)"

definition map_erase :: "int \<Rightarrow> (int \<times> 'v) list \<Rightarrow> (int \<times> 'v) list" where
  "map_erase k m = filter (\<lambda>kv. fst kv \<noteq> k) m"

text \<open>
  A grid space and the grid objects by address. \<open>int_of_unsigned\<close> is the conversion of the
  counter's \<open>unsigned\<close> value to the \<open>int\<close> of \<open>Grid::id_\<close>.
\<close>

record 'g gridspace =
  grids_map :: "(int \<times> nat) list"
  grid_counter :: counter
  objs :: "nat \<Rightarrow> 'g option"

definition int_of_unsigned :: "nat \<Rightarrow> int" where
  "int_of_unsigned n = (if n < 2 ^ 31 then int n else int n - 2 ^ 32)"

definition GridSpace_new :: "'g gridspace" where
  "GridSpace_new = \<lparr>grids_map = [], grid_counter = Counter 0, objs = (\<lambda>_. None)\<rparr>"

definition RegisterGrid :: "(int \<Rightarrow> 'g \<Rightarrow> 'g) \<Rightarrow> nat \<Rightarrow> ('g, 'x) gridspace_scheme \<Rightarrow> fault + ('g, 'x) gridspace_scheme" where
  "RegisterGrid set_id a gs =
     (case objs gs a of
        None \<Rightarrow> Inl DanglingPointer
      | Some g \<Rightarrow>
          (let (n, c) = Counter_next (grid_counter gs); i = int_of_unsigned n
           in Inr (gs\<lparr>grid_counter := c, objs := (objs gs)(a \<mapsto> set_id i g),
                      grids_map := map_insert (i, a) (grids_map gs)\<rparr>)))"

definition DeregisterGrid :: "('g \<Rightarrow> int option) \<Rightarrow> nat \<Rightarrow> ('g, 'x) gridspace_scheme \<Rightarrow> fault + ('g, 'x) gridspace_scheme" where
  "DeregisterGrid get_id a gs =
     (case objs gs a of
        None \<Rightarrow> Inl DanglingPointer
      | Some g \<Rightarrow>
          (case get_id g of
             None \<Rightarrow> Inl AssertFailed
           | Some i \<Rightarrow>
               bindE (assertE (isContained_map (map_of (grids_map gs)) i)) (\<lambda>_.
                 Inr (gs\<lparr>grids_map := map_erase i (grids_map gs)\<rparr>))))"

text \<open>The default of the lookup is \<open>NULL\<close>; the assertion refuses it.\<close>

definition FindGrid :: "int \<Rightarrow> ('g, 'x) gridspace_scheme \<Rightarrow> fault + nat" where
  "FindGrid i gs =
     (case find_default (\<lambda>k. map_option Some (map_of (grids_map gs) k)) i None of
        None \<Rightarrow> Inl AssertFailed
      | Some a \<Rightarrow> Inr a)"

text \<open>\<open>del\<close> is the destructor of the grid's class.\<close>

definition DeleteGrid ::
    "('g \<Rightarrow> int option) \<Rightarrow> ('g \<Rightarrow> world \<Rightarrow> fault + world) \<Rightarrow> nat \<Rightarrow> ('g, 'x) gridspace_scheme \<times> world \<Rightarrow>
      fault + (('g, 'x) gridspace_scheme \<times> world)" where
  "DeleteGrid get_id del a = (\<lambda>(gs, st).
     bindE (DeregisterGrid get_id a gs) (\<lambda>gs.
       case objs gs a of
         None \<Rightarrow> Inl DanglingPointer
       | Some g \<Rightarrow> bindE (del g st) (\<lambda>st. Inr (gs\<lparr>objs := (objs gs)(a := None)\<rparr>, st))))"

definition DeleteGrid_id ::
    "('g \<Rightarrow> int option) \<Rightarrow> ('g \<Rightarrow> world \<Rightarrow> fault + world) \<Rightarrow> int \<Rightarrow> ('g, 'x) gridspace_scheme \<times> world \<Rightarrow>
      fault + (('g, 'x) gridspace_scheme \<times> world)" where
  "DeleteGrid_id get_id del i = (\<lambda>(gs, st).
     bindE (FindGrid i gs) (\<lambda>a. DeleteGrid get_id del a (gs, st)))"

definition GridSpace_Save ::
    "(nat \<Rightarrow> 'g \<Rightarrow> world \<Rightarrow> fault + world) \<Rightarrow> ('g, 'x) gridspace_scheme \<Rightarrow> world \<Rightarrow> fault + world" where
  "GridSpace_Save save gs =
     foldE (\<lambda>(i, a) st. case objs gs a of None \<Rightarrow> Inl DanglingPointer | Some g \<Rightarrow> save a g st)
       (grids_map gs)"

definition GridSpace_Restore ::
    "(nat \<Rightarrow> 'g \<Rightarrow> world \<Rightarrow> fault + world) \<Rightarrow> ('g, 'x) gridspace_scheme \<Rightarrow> world \<Rightarrow> fault + world" where
  "GridSpace_Restore restore gs =
     foldE (\<lambda>(i, a) st. case objs gs a of None \<Rightarrow> Inl DanglingPointer | Some g \<Rightarrow> restore a g st)
       (grids_map gs)"

subsection \<open>Buffers of a grid\<close>

definition world_ok :: "world \<Rightarrow> bool" where
  "world_ok st \<longleftrightarrow> heap_ok (hp st) \<and> (\<forall>k. next_buf st \<le> k \<longrightarrow> bufs st k = None)"

lemma Allocate_new:
  assumes fits: "size_fits n e sz" and ne: "accumulate sz n \<noteq> 0"
    and room: "nat (accumulate sz n) * e \<le> avail h"
  shows "Buffer_Allocate1 BufferHost_GetChunk sz (BufferHost_new n e) h =
    Inr (\<lparr>buf_num_dims = n, buf_elm_size = e, buf_size = sz, buf_ptr = Ptr (fresh h) 0, buf_deleter = True\<rparr>,
      h\<lparr>blocks := (blocks h)(fresh h \<mapsto> replicate (nat (accumulate sz n) * e) (Some 0)),
        fresh := Suc (fresh h), avail := avail h - nat (accumulate sz n) * e\<rparr>)"
proof -
  note le = size_fits_le[OF fits]
  have s: "to_size (accumulate sz n) = nat (accumulate sz n)" "nat (accumulate sz n) \<noteq> 0"
    using le ne by auto
  show ?thesis using room ne s
    by (simp add: Buffer_Allocate1_def Buffer_Allocate_def Buffer_Delete_def BufferHost_new_def
        Buffer_new_def BufferHost_GetChunk_def calloc_def alloc_def Let_def mult.commute)
qed

text \<open>
  A live block of the heap, of at least \<open>len\<close> bytes, behind a \<open>Buffer\<close> object that can
  be deleted.
\<close>

definition owns :: "nat \<Rightarrow> nat \<Rightarrow> nat \<Rightarrow> world \<Rightarrow> bool" where
  "owns k blk len st \<longleftrightarrow> (\<exists>b cs. bufs st k = Some b \<and> buf_deleter b \<and> buf_ptr b = Ptr blk 0 \<and>
     blocks (hp st) blk = Some cs \<and> length cs = GetLinearSize b \<and> len \<le> length cs)"

lemma delete_buffer_owns:
  assumes "owns k blk len st"
  shows "\<exists>h'. delete_buffer (Some k) st = Inr (st\<lparr>hp := h', bufs := (bufs st)(k := None)\<rparr>) \<and>
    blocks h' = (blocks (hp st))(blk := None) \<and> fresh h' = fresh (hp st) \<and>
    avail h' = avail (hp st) + length (the (blocks (hp st) blk))"
  using assms by (auto simp: owns_def Buffer_Delete_def DeleteChunk_def)

text \<open>
  The buffers of a grid: one block, or two different ones behind two different objects
  when the grid is double-buffered, with \<open>_data\<close> and \<open>_data_emit\<close> at their starts.
\<close>

definition grid_bufs :: "'g grid_scheme \<Rightarrow> nat \<Rightarrow> nat \<Rightarrow> nat \<Rightarrow> nat \<Rightarrow> nat \<Rightarrow> world \<Rightarrow> bool" where
  "grid_bufs g k0 k1 blk0 blk1 len st \<longleftrightarrow>
     data_buffer0 g = Some k0 \<and> data_buffer1 g = Some k1 \<and>
     data0 g = Ptr blk0 0 \<and> data1 g = Ptr blk1 0 \<and>
     owns k0 blk0 len st \<and> owns k1 blk1 len st \<and>
     (if grid_double g then k0 \<noteq> k1 \<and> blk0 \<noteq> blk1 else k0 = k1 \<and> blk0 = blk1)"

lemma grid_bufs_Swap:
  "grid_bufs g k0 k1 blk0 blk1 len st \<Longrightarrow> grid_bufs (Grid_Swap g) k1 k0 blk1 blk0 len st"
  by (auto simp: grid_bufs_def Grid_Swap_def)

lemma Grid_Swap_Swap: "Grid_Swap (Grid_Swap g) = g"
  by (simp add: Grid_Swap_def)

lemma grid_bufs_Swaps:
  "grid_bufs g k0 k1 blk0 blk1 len st \<Longrightarrow>
   grid_bufs ((Grid_Swap ^^ n) g) k0 k1 blk0 blk1 len st \<or>
   grid_bufs ((Grid_Swap ^^ n) g) k1 k0 blk1 blk0 len st"
  by (induction n) (auto dest: grid_bufs_Swap)

lemma Grid_delete_bufs:
  assumes "grid_bufs g k0 k1 blk0 blk1 len st"
  shows "\<exists>h'. Grid_delete g st = Inr (st\<lparr>hp := h', bufs := (bufs st)(k0 := None, k1 := None)\<rparr>) \<and>
    blocks h' = (blocks (hp st))(blk0 := None, blk1 := None) \<and> fresh h' = fresh (hp st) \<and>
    avail h' = avail (hp st) + length (the (blocks (hp st) blk0)) +
      (if grid_double g then length (the (blocks (hp st) blk1)) else 0)"
proof -
  note g = assms[unfolded grid_bufs_def]
  obtain h1 where h1: "delete_buffer (Some k0) st = Inr (st\<lparr>hp := h1, bufs := (bufs st)(k0 := None)\<rparr>)"
      "blocks h1 = (blocks (hp st))(blk0 := None)" "fresh h1 = fresh (hp st)"
      "avail h1 = avail (hp st) + length (the (blocks (hp st) blk0))"
    using delete_buffer_owns[of k0 blk0 len st] g by blast
  let ?st = "st\<lparr>hp := h1, bufs := (bufs st)(k0 := None)\<rparr>"
  show ?thesis
  proof (cases "grid_double g")
    case False
    then show ?thesis using g h1
      by (intro exI[of _ h1]) (simp add: Grid_delete_def Grid_DeleteBuffers_def del: delete_buffer.simps)
  next
    case True
    then have "owns k1 blk1 len ?st" using g h1 by (auto simp: owns_def)
    then obtain h2 where h2: "delete_buffer (Some k1) ?st =
          Inr (?st\<lparr>hp := h2, bufs := (bufs ?st)(k1 := None)\<rparr>)"
        "blocks h2 = (blocks (hp ?st))(blk1 := None)" "fresh h2 = fresh (hp ?st)"
        "avail h2 = avail (hp ?st) + length (the (blocks (hp ?st) blk1))"
      using delete_buffer_owns[of k1 blk1 len ?st] by blast
    then show ?thesis using True g h1
      by (intro exI[of _ h2]) (simp add: Grid_delete_def Grid_DeleteBuffers_def del: delete_buffer.simps)
  qed
qed

text \<open>
  \<open>InitBuffer\<close> of the base class sizes its buffers with \<open>num_elms_\<close> bytes for each element.
\<close>

lemma new_grid_buffer_ok:
  assumes st: "world_ok st" and fits: "size_fits (grid_num_dims g) (grid_num_elms g) (grid_size g)"
    and N: "grid_num_elms g = nat (accumulate (grid_size g) (grid_num_dims g))"
    and room: "grid_num_elms g * grid_num_elms g \<le> avail (hp st)"
  shows "\<exists>st'. new_grid_buffer g st = Inr (next_buf st, st') \<and> world_ok st' \<and>
    next_buf st' = Suc (next_buf st) \<and> fresh (hp st') = Suc (fresh (hp st)) \<and>
    (\<exists>b. bufs st' = (bufs st)(next_buf st \<mapsto> b) \<and> buf_ptr b = Ptr (fresh (hp st)) 0) \<and>
    blocks (hp st') = (blocks (hp st))
      (fresh (hp st) \<mapsto> replicate (grid_num_elms g * grid_num_elms g) (Some 0)) \<and>
    avail (hp st') + grid_num_elms g * grid_num_elms g = avail (hp st) \<and> files st' = files st \<and>
    owns (next_buf st) (fresh (hp st)) (grid_num_elms g * grid_num_elms g) st'"
proof -
  have N0: "accumulate (grid_size g) (grid_num_dims g) \<noteq> 0" "0 < grid_num_elms g"
    using fits N by (auto simp: size_fits_def)
  note alloc = Allocate_new[OF fits N0(1), of "hp st"]
  note lin = LinearSize_static_eq[OF fits]
  show ?thesis
    using alloc lin room N st
    by (auto simp: new_grid_buffer_def new_buffer_def with_buffer_def world_ok_def owns_def heap_ok_def
        GetLinearSize_def GetLinearSize_of_static)
qed

definition base_size_ok :: "nat \<Rightarrow> idx \<Rightarrow> bool" where
  "base_size_ok n sz \<longleftrightarrow> (\<forall>i < n. 0 < at sz i) \<and> accumulate sz n * accumulate sz n < 2 ^ 64"

lemma base_size_ok_fits:
  assumes "base_size_ok n sz"
  shows "size_fits n (nat (accumulate sz n)) sz" "to_size (accumulate sz n) = nat (accumulate sz n)"
    "0 < accumulate sz n"
proof -
  have pos: "0 < accumulate sz n" using assms accumulate_eq_0_iff[of sz n] accumulate_nonneg[of n sz]
    by (force simp: base_size_ok_def less_le)
  have "accumulate sz n * 1 \<le> accumulate sz n * accumulate sz n"
    using pos by (intro mult_left_mono) auto
  then have "accumulate sz n < 2 ^ 64" using assms by (simp add: base_size_ok_def)
  then show "size_fits n (nat (accumulate sz n)) sz" "to_size (accumulate sz n) = nat (accumulate sz n)"
    using pos assms by (auto simp: size_fits_def base_size_ok_def intro: less_imp_le)
  show "0 < accumulate sz n" by (rule pos)
qed

lemma owns_mono:
  assumes "owns k blk len st" and "bufs st' k = bufs st k" and "blocks (hp st') blk = blocks (hp st) blk"
  shows "owns k blk len st'"
  using assms by (simp add: owns_def)

text \<open>What \<open>Create\<close> leaves behind: the buffers of the grid and nothing else that is new.\<close>

definition created :: "'g grid_scheme \<Rightarrow> nat \<Rightarrow> world \<Rightarrow> world \<Rightarrow> bool" where
  "created g len st st' \<longleftrightarrow> world_ok st' \<and> files st' = files st \<and>
     (\<exists>k1 blk1. grid_bufs g (next_buf st) k1 (fresh (hp st)) blk1 len st' \<and>
       (\<forall>k. k \<noteq> next_buf st \<longrightarrow> k \<noteq> k1 \<longrightarrow> bufs st' k = bufs st k) \<and>
       (\<forall>b. b \<noteq> fresh (hp st) \<longrightarrow> b \<noteq> blk1 \<longrightarrow> blocks (hp st') b = blocks (hp st) b) \<and>
       next_buf st \<le> k1 \<and> fresh (hp st) \<le> blk1 \<and>
       blocks (hp st') (fresh (hp st)) = Some (replicate len (Some 0)) \<and>
       blocks (hp st') blk1 = Some (replicate len (Some 0))) \<and>
     avail (hp st') + (if grid_double g then 2 * len else len) = avail (hp st)"

lemma Grid_Create_ok:
  assumes st: "world_ok st" and sz: "base_size_ok n sz" and N: "N = nat (accumulate sz n)"
    and room: "(if db then 2 * (N * N) else N * N) \<le> avail (hp st)"
  shows "\<exists>g st'. Grid_Create ty e n sz db attr st = Inr (g, st') \<and> created g (N * N) st st' \<and>
    grid_elm_size g = e \<and> grid_size g = sz \<and> grid_num_elms g = N \<and> grid_double g = db \<and>
    grid_type g = ty \<and> grid_num_dims g = n"
proof -
  let ?g = "Grid_new ty e n sz db attr"
  have g: "size_fits (grid_num_dims ?g) (grid_num_elms ?g) (grid_size ?g)"
      "grid_num_elms ?g = N"
      "grid_num_elms ?g = nat (accumulate (grid_size ?g) (grid_num_dims ?g))"
    using base_size_ok_fits[OF sz] N by (auto simp: Grid_new_def)
  have room1: "grid_num_elms ?g * grid_num_elms ?g \<le> avail (hp st)"
    using room g(2) by (simp split: if_splits)
  obtain st1 b0 where st1: "new_grid_buffer ?g st = Inr (next_buf st, st1)" "world_ok st1"
      "next_buf st1 = Suc (next_buf st)" "fresh (hp st1) = Suc (fresh (hp st))"
      "bufs st1 = (bufs st)(next_buf st \<mapsto> b0)" "buf_ptr b0 = Ptr (fresh (hp st)) 0"
      "blocks (hp st1) = (blocks (hp st))(fresh (hp st) \<mapsto> replicate (N * N) (Some 0))"
      "avail (hp st1) + N * N = avail (hp st)" "files st1 = files st"
      "owns (next_buf st) (fresh (hp st)) (N * N) st1"
    using new_grid_buffer_ok[OF st g(1) g(3) room1] g(2) by auto
  show ?thesis
  proof (cases db)
    case False
    then show ?thesis using st1
      by (auto simp: Grid_Create_def Grid_InitBuffer_def Grid_new_def buffer_ptr_def buffer_at_def
          created_def grid_bufs_def N base_size_ok_fits[OF sz])
  next
    case True
    have room2: "grid_num_elms ?g * grid_num_elms ?g \<le> avail (hp st1)"
      using room True st1(8) g(2) by simp
    obtain st2 b1 where st2: "new_grid_buffer ?g st1 = Inr (next_buf st1, st2)" "world_ok st2"
        "next_buf st2 = Suc (next_buf st1)" "fresh (hp st2) = Suc (fresh (hp st1))"
        "bufs st2 = (bufs st1)(next_buf st1 \<mapsto> b1)" "buf_ptr b1 = Ptr (fresh (hp st1)) 0"
        "blocks (hp st2) = (blocks (hp st1))(fresh (hp st1) \<mapsto> replicate (N * N) (Some 0))"
        "avail (hp st2) + N * N = avail (hp st1)" "files st2 = files st1"
        "owns (next_buf st1) (fresh (hp st1)) (N * N) st2"
      using new_grid_buffer_ok[OF st1(2) g(1) g(3) room2] g(2) by auto
    have own: "owns (next_buf st) (fresh (hp st)) (N * N) st2"
      by (rule owns_mono[OF st1(10)]) (simp_all add: st1(3,4) st2(5,7))
    show ?thesis using True st1 st2 own
      by (auto simp: Grid_Create_def Grid_InitBuffer_def Grid_new_def buffer_ptr_def buffer_at_def
          created_def grid_bufs_def N base_size_ok_fits[OF sz])
  qed
qed

text \<open>
  A grid that is created, used through its address, swapped any number of times and
  deleted leaves no block and no buffer object behind and frees nothing twice.
\<close>

lemma created_delete:
  assumes c: "created g len st st1" and st: "world_ok st"
    and same: "bufs st2 = bufs st1" "\<And>b. map_option length (blocks (hp st2) b) = map_option length (blocks (hp st1) b)"
      "avail (hp st2) = avail (hp st1)"
  shows "\<exists>st'. Grid_delete ((Grid_Swap ^^ n) g) st2 = Inr st' \<and> bufs st' = bufs st \<and>
    (\<forall>b. map_option length (blocks (hp st') b) = map_option length (blocks (hp st) b)) \<and>
    avail (hp st') = avail (hp st)"
proof -
  obtain k1 blk1 where gb: "grid_bufs g (next_buf st) k1 (fresh (hp st)) blk1 len st1"
    and fr: "\<And>k. k \<noteq> next_buf st \<Longrightarrow> k \<noteq> k1 \<Longrightarrow> bufs st1 k = bufs st k"
      "\<And>b. b \<noteq> fresh (hp st) \<Longrightarrow> b \<noteq> blk1 \<Longrightarrow> blocks (hp st1) b = blocks (hp st) b"
      "next_buf st \<le> k1" "fresh (hp st) \<le> blk1"
    and bl: "blocks (hp st1) (fresh (hp st)) = Some (replicate len (Some 0))"
      "blocks (hp st1) blk1 = Some (replicate len (Some 0))"
    and av: "avail (hp st1) + (if grid_double g then 2 * len else len) = avail (hp st)"
    using c unfolding created_def by blast
  obtain cs0 cs1 where cs: "blocks (hp st2) (fresh (hp st)) = Some cs0" "length cs0 = len"
      "blocks (hp st2) blk1 = Some cs1" "length cs1 = len"
    using same(2)[of "fresh (hp st)"] same(2)[of blk1] bl by auto
  have "owns (next_buf st) (fresh (hp st)) len st2" "owns k1 blk1 len st2"
    using gb cs bl same(1) by (auto simp: grid_bufs_def owns_def)
  then have gb2: "grid_bufs g (next_buf st) k1 (fresh (hp st)) blk1 len st2"
    using gb by (simp add: grid_bufs_def)
  have db: "grid_double ((Grid_Swap ^^ n) g) = grid_double g"
    by (induction n) (simp_all add: Grid_Swap_def)
  have del: "\<exists>st'. Grid_delete ((Grid_Swap ^^ n) g) st2 = Inr st' \<and>
      bufs st' = (bufs st2)(next_buf st := None, k1 := None) \<and>
      blocks (hp st') = (blocks (hp st2))(fresh (hp st) := None, blk1 := None) \<and>
      avail (hp st') = avail (hp st2) + (if grid_double g then 2 * len else len)"
    using grid_bufs_Swaps[OF gb2, of n]
  proof
    assume "grid_bufs ((Grid_Swap ^^ n) g) (next_buf st) k1 (fresh (hp st)) blk1 len st2"
    from Grid_delete_bufs[OF this] cs db show ?thesis by (auto simp: mult_2)
  next
    assume "grid_bufs ((Grid_Swap ^^ n) g) k1 (next_buf st) blk1 (fresh (hp st)) len st2"
    from Grid_delete_bufs[OF this] cs db show ?thesis by (auto simp: mult_2 fun_eq_iff)
  qed
  then obtain st' where st': "Grid_delete ((Grid_Swap ^^ n) g) st2 = Inr st'"
      "bufs st' = (bufs st2)(next_buf st := None, k1 := None)"
      "blocks (hp st') = (blocks (hp st2))(fresh (hp st) := None, blk1 := None)"
      "avail (hp st') = avail (hp st2) + (if grid_double g then 2 * len else len)" by blast
  have "bufs st' k = bufs st k" for k
    using st'(2) same(1) fr(1)[of k] fr(3) st by (auto simp: world_ok_def)
  moreover have "map_option length (blocks (hp st') b) = map_option length (blocks (hp st) b)" for b
    using st'(3) same(2)[of b] fr(2)[of b] fr(4) st by (auto simp: world_ok_def heap_ok_def)
  ultimately show ?thesis using st' same(3) av by auto
qed

subsection \<open>Access to elements\<close>

text \<open>The element of the current buffer at an index, as the bytes of the block hold it.\<close>

definition grid_elem :: "'g grid_scheme \<Rightarrow> world \<Rightarrow> idx \<Rightarrow> cell list" where
  "grid_elem g st p = elem (grid_elm_size g) (the (contents (hp st) (data0 g)))
     (nat (GridCalcOffset3D p (grid_size g)))"

text \<open>
  A grid whose current data are a block of at least its elements, and a client's variable
  \<open>c\<close> of the size of an element somewhere else.
\<close>

definition grid_usable :: "'g grid_scheme \<Rightarrow> nat \<Rightarrow> nat \<Rightarrow> world \<Rightarrow> bool" where
  "grid_usable g blk c st \<longleftrightarrow> grid_num_dims g \<le> 3 \<and> data0 g = Ptr blk 0 \<and> c \<noteq> blk \<and>
     (\<exists>cs. blocks (hp st) blk = Some cs \<and>
        nat (accumulate (grid_size g) (grid_num_dims g)) * grid_elm_size g \<le> length cs) \<and>
     (\<exists>v. blocks (hp st) c = Some v \<and> length v = grid_elm_size g)"

lemma Grid_GetAddress_point:
  assumes "grid_usable g blk c st" "grid_point (grid_num_dims g) p (grid_size g)"
  shows "Grid_GetAddress g p =
    Ptr blk (int (nat (lin (grid_num_dims g) p (grid_size g)) * grid_elm_size g))"
  using assms GridCalcOffset3D_point[of "grid_num_dims g" p "grid_size g"]
  by (auto simp: Grid_GetAddress_def grid_usable_def)

lemma grid_elem_point:
  assumes "grid_usable g blk c st" "grid_point (grid_num_dims g) p (grid_size g)"
  shows "grid_elem g st p = elem (grid_elm_size g) (the (blocks (hp st) blk))
    (nat (lin (grid_num_dims g) p (grid_size g)))"
  using assms GridCalcOffset3D_point[of "grid_num_dims g" p "grid_size g"]
  by (auto simp: grid_elem_def grid_usable_def contents_def)

lemma Grid_Set_ok:
  assumes u: "grid_usable g blk c st" and p: "grid_point (grid_num_dims g) p (grid_size g)"
    and v: "blocks (hp st) c = Some v"
  shows "\<exists>st'. Grid_Set g p (Ptr c 0) st = Inr st' \<and> grid_usable g blk c st' \<and>
    blocks (hp st') c = Some v \<and> bufs st' = bufs st \<and> files st' = files st \<and>
    grid_elem g st' p = v \<and>
    (\<forall>q. grid_point (grid_num_dims g) q (grid_size g) \<longrightarrow> q \<noteq> p \<longrightarrow> grid_elem g st' q = grid_elem g st q)"
proof -
  let ?n = "grid_num_dims g" and ?s = "grid_size g" and ?e = "grid_elm_size g"
  let ?N = "nat (accumulate ?s ?n)" and ?k = "\<lambda>q. nat (lin ?n q ?s)"
  obtain D where D: "blocks (hp st) blk = Some D" "?N * ?e \<le> length D" and lv: "length v = ?e"
    and cb: "c \<noteq> blk" and n3: "?n \<le> 3"
    using u v unfolding grid_usable_def by auto
  have less: "?k q < ?N" if "grid_point ?n q ?s" for q
    using GridCalcOffset3D_point[OF n3 that] by (simp add: nat_less_iff)
  note bnd = elem_bound[OF less[OF p] D(2)]
  let ?D = "list_write D (?k p * ?e) v"
  let ?st = "st\<lparr>hp := (hp st)\<lparr>blocks := (blocks (hp st))(blk \<mapsto> ?D)\<rparr>\<rparr>"
  have "memcpy (Ptr blk (int (?k p * ?e))) (Ptr c (int 0)) ?e (hp st) =
      Inr ((hp st)\<lparr>blocks := (blocks (hp st))(blk \<mapsto> ?D)\<rparr>)"
    using memcpy_blocks[of blk c "hp st" v D 0 ?e "?k p * ?e"] v D(1) lv bnd cb by simp
  then have set: "Grid_Set g p (Ptr c 0) st = Inr ?st"
    by (simp add: Grid_Set_def Grid_Copyin_def on_heap_def Grid_GetAddress_point[OF u p] del: of_nat_mult)
  have u': "grid_usable g blk c ?st"
    using u v D bnd lv cb unfolding grid_usable_def by simp
  have el: "grid_elem g ?st q = (if ?k q = ?k p then v else grid_elem g st q)"
    if "grid_point ?n q ?s" for q
    using elem_list_write[OF less[OF p] less[OF that] D(2) lv] D(1)
    by (simp add: grid_elem_point[OF u' that] grid_elem_point[OF u that])
  have "?k q \<noteq> ?k p" if "grid_point ?n q ?s" "q \<noteq> p" for q
    using grid_point_eqI[OF that(1) p] that GridCalcOffset3D_point[OF n3 that(1)]
      GridCalcOffset3D_point[OF n3 p] by (metis eq_nat_nat_iff)
  with set u' el p v cb show ?thesis by auto
qed

lemma Grid_Get_ok:
  assumes u: "grid_usable g blk c st" and p: "grid_point (grid_num_dims g) p (grid_size g)"
  shows "Grid_Get g p (Ptr c 0) st =
    Inr (st\<lparr>hp := (hp st)\<lparr>blocks := (blocks (hp st))(c \<mapsto> grid_elem g st p)\<rparr>\<rparr>)"
proof -
  let ?n = "grid_num_dims g" and ?s = "grid_size g" and ?e = "grid_elm_size g"
  let ?N = "nat (accumulate ?s ?n)" and ?k = "nat (lin ?n p ?s)"
  obtain D v where D: "blocks (hp st) blk = Some D" "?N * ?e \<le> length D"
    and v: "blocks (hp st) c = Some v" "length v = ?e"
    and cb: "c \<noteq> blk" and n3: "?n \<le> 3"
    using u unfolding grid_usable_def by auto
  have "?k < ?N" using GridCalcOffset3D_point[OF n3 p] by (simp add: nat_less_iff)
  note bnd = elem_bound[OF this D(2)]
  have "memcpy (Ptr c (int 0)) (Ptr blk (int (?k * ?e))) ?e (hp st) =
      Inr ((hp st)\<lparr>blocks := (blocks (hp st))(c \<mapsto> list_write v 0 (take ?e (drop (?k * ?e) D)))\<rparr>)"
    using memcpy_blocks[of c blk "hp st" D v "?k * ?e" ?e 0] v D(1) bnd cb by simp
  moreover have "list_write v 0 (take ?e (drop (?k * ?e) D)) = grid_elem g st p"
    using bnd v(2) D(1) by (simp add: list_write_def grid_elem_point[OF u p] elem_def)
  ultimately show ?thesis
    by (simp add: Grid_Get_def Grid_Copyout_def on_heap_def Grid_GetAddress_point[OF u p] del: of_nat_mult)
qed

text \<open>A client stores a value in its variable and calls \<open>Set\<close>.\<close>

definition client_Set :: "'g grid_scheme \<Rightarrow> nat \<Rightarrow> idx \<Rightarrow> cell list \<Rightarrow> world \<Rightarrow> fault + world" where
  "client_Set g c p v st = bindE (on_heap (store (Ptr c 0) v) st) (Grid_Set g p (Ptr c 0))"

lemma client_Set_ok:
  assumes u: "grid_usable g blk c st" and p: "grid_point (grid_num_dims g) p (grid_size g)"
    and v: "length v = grid_elm_size g"
  shows "\<exists>st'. client_Set g c p v st = Inr st' \<and> grid_usable g blk c st' \<and> grid_elem g st' p = v \<and>
    (\<forall>q. grid_point (grid_num_dims g) q (grid_size g) \<longrightarrow> q \<noteq> p \<longrightarrow> grid_elem g st' q = grid_elem g st q)"
proof -
  let ?st = "st\<lparr>hp := (hp st)\<lparr>blocks := (blocks (hp st))(c \<mapsto> v)\<rparr>\<rparr>"
  have st: "on_heap (store (Ptr c 0) v) st = Inr ?st"
    using u v by (auto simp: grid_usable_def on_heap_def list_write_def)
  have u': "grid_usable g blk c ?st" using u v by (auto simp: grid_usable_def)
  have "grid_elem g ?st q = grid_elem g st q" for q
    using u by (auto simp: grid_elem_def grid_usable_def contents_def)
  then show ?thesis
    using Grid_Set_ok[OF u' p, of v] st by (auto simp: client_Set_def)
qed

interpretation grid_cells: cell_store "grid_usable g blk c"
    "\<lambda>p. grid_point (grid_num_dims g) p (grid_size g)" "\<lambda>v. length v = grid_elm_size g"
    "grid_elem g" "client_Set g c" for g :: "'g grid_scheme" and blk c
  by unfold_locales (rule client_Set_ok)

text \<open>
  The base class allocates too little for a grid with fewer elements than an element has
  bytes: \<open>Set\<close> then writes past the block.
\<close>

lemma Grid_Set_overflow:
  assumes "blocks (hp st) blk = Some D" "data0 g = Ptr blk 0" "length D < grid_elm_size g"
    and "blocks (hp st) c = Some v" "length v = grid_elm_size g" "c \<noteq> blk" "0 < grid_elm_size g"
  shows "Grid_Set g IntegerArray0 (Ptr c 0) st = Inl OutOfBounds"
  using assms by (simp add: Grid_Set_def Grid_Copyin_def on_heap_def Grid_GetAddress_def
      GridCalcOffset3D_def memcpy_def)

subsection \<open>Checkpoint and restart\<close>

lemma GetPath_inj: "GetPath d i = GetPath d j \<longleftrightarrow> i = j"
  using toString_nat_inj[of i j] by (auto simp: GetPath_def)

text \<open>The current buffer of a grid is a whole live block.\<close>

definition grid_live :: "'g grid_scheme \<Rightarrow> nat \<Rightarrow> world \<Rightarrow> bool" where
  "grid_live g blk st \<longleftrightarrow> (\<exists>b cs. buffer_at (data_buffer0 g) st = Inr b \<and> buf_ptr b = Ptr blk 0 \<and>
     blocks (hp st) blk = Some cs \<and> length cs = GetLinearSize b)"

text \<open>All registered grids are live, at different addresses and with different blocks.\<close>

definition space_live :: "('g grid_scheme, 'x) gridspace_scheme \<Rightarrow> (nat \<Rightarrow> nat) \<Rightarrow> world \<Rightarrow> bool" where
  "space_live gs blk st \<longleftrightarrow> distinct (map snd (grids_map gs)) \<and>
     inj_on blk (snd ` set (grids_map gs)) \<and>
     (\<forall>(i, a) \<in> set (grids_map gs). \<exists>g. objs gs a = Some g \<and> grid_live g (blk a) st)"

lemma Grid_Save_ok:
  assumes "grid_live g blk st"
  shows "Grid_Save d a g st = Inr (st\<lparr>files := (files st)(GetPath d a := blocks (hp st) blk)\<rparr>)"
  using assms by (auto simp: grid_live_def Grid_Save_def SaveToFile_def)

lemma Grid_Restore_ok:
  assumes "grid_live g blk st" "files st (GetPath d a) = Some cs"
    "length cs = length (the (blocks (hp st) blk))"
  shows "Grid_Restore d a g st = Inr (st\<lparr>hp := (hp st)\<lparr>blocks := (blocks (hp st))(blk \<mapsto> cs)\<rparr>\<rparr>)"
  using assms by (auto simp: grid_live_def Grid_Restore_def RestoreFromFile_def on_heap_def
      list_write_def fun_upd_idem)

lemma foldE_Save:
  fixes os :: "nat \<Rightarrow> 'g grid_scheme option"
  assumes "distinct (map snd m)"
    and "\<forall>(i, a) \<in> set m. \<exists>g. os a = Some g \<and> grid_live g (blk a) st"
  shows "\<exists>st'. foldE (\<lambda>(i, a) st. case os a of None \<Rightarrow> Inl DanglingPointer | Some g \<Rightarrow> Grid_Save d a g st) m st
      = Inr st' \<and> hp st' = hp st \<and> bufs st' = bufs st \<and> next_buf st' = next_buf st \<and>
    (\<forall>a. files st' (GetPath d a) =
      (if a \<in> snd ` set m then blocks (hp st) (blk a) else files st (GetPath d a)))"
  using assms
proof (induction m arbitrary: st)
  case Nil
  then show ?case by simp
next
  case (Cons x m)
  obtain i a where x: "x = (i, a)" by (cases x)
  obtain g where g: "os a = Some g" "grid_live g (blk a) st" using Cons.prems(2) x by auto
  let ?st = "st\<lparr>files := (files st)(GetPath d a := blocks (hp st) (blk a))\<rparr>"
  have live: "grid_live g b ?st = grid_live g b st" for g :: "'g grid_scheme" and b
    by (simp add: grid_live_def)
  have "\<exists>st'. foldE (\<lambda>(i, a) st. case os a of None \<Rightarrow> Inl DanglingPointer | Some g \<Rightarrow> Grid_Save d a g st) m ?st
      = Inr st' \<and> hp st' = hp ?st \<and> bufs st' = bufs ?st \<and> next_buf st' = next_buf ?st \<and>
    (\<forall>a. files st' (GetPath d a) =
      (if a \<in> snd ` set m then blocks (hp ?st) (blk a) else files ?st (GetPath d a)))"
    using Cons.prems live by (intro Cons.IH) auto
  then show ?case using x g Cons.prems(1)
    by (auto simp: Grid_Save_ok[OF g(2)] GetPath_inj)
qed

lemma foldE_Restore:
  assumes "distinct (map snd m)" "inj_on blk (snd ` set m)"
    and "\<forall>(i, a) \<in> set m. \<exists>g. os a = Some g \<and> grid_live g (blk a) st \<and>
      files st (GetPath d a) = Some (D a) \<and> length (D a) = length (the (blocks (hp st) (blk a)))"
  shows "\<exists>st'. foldE (\<lambda>(i, a) st. case os a of None \<Rightarrow> Inl DanglingPointer | Some g \<Rightarrow> Grid_Restore d a g st) m st
      = Inr st' \<and> bufs st' = bufs st \<and> files st' = files st \<and>
    (\<forall>a \<in> snd ` set m. blocks (hp st') (blk a) = Some (D a)) \<and>
    (\<forall>b. b \<notin> blk ` snd ` set m \<longrightarrow> blocks (hp st') b = blocks (hp st) b)"
  using assms
proof (induction m arbitrary: st)
  case Nil
  then show ?case by simp
next
  case (Cons x m)
  obtain i a where x: "x = (i, a)" by (cases x)
  obtain g where g: "os a = Some g" "grid_live g (blk a) st" "files st (GetPath d a) = Some (D a)"
      "length (D a) = length (the (blocks (hp st) (blk a)))"
    using Cons.prems(3) x by auto
  let ?st = "st\<lparr>hp := (hp st)\<lparr>blocks := (blocks (hp st))(blk a \<mapsto> D a)\<rparr>\<rparr>"
  have new: "blk a \<notin> blk ` snd ` set m" using Cons.prems(1,2) x by (auto simp: inj_on_def image_iff)
  have live: "\<exists>g. os a' = Some g \<and> grid_live g (blk a') ?st \<and>
      files ?st (GetPath d a') = Some (D a') \<and> length (D a') = length (the (blocks (hp ?st) (blk a')))"
    if "(i', a') \<in> set m" for i' a'
  proof -
    have "blk a' \<noteq> blk a" using new that by (metis image_eqI snd_conv)
    then show ?thesis using Cons.prems(3) that by (fastforce simp: grid_live_def)
  qed
  have "\<exists>st'. foldE (\<lambda>(i, a) st. case os a of None \<Rightarrow> Inl DanglingPointer | Some g \<Rightarrow> Grid_Restore d a g st) m ?st
      = Inr st' \<and> bufs st' = bufs ?st \<and> files st' = files ?st \<and>
    (\<forall>a \<in> snd ` set m. blocks (hp st') (blk a) = Some (D a)) \<and>
    (\<forall>b. b \<notin> blk ` snd ` set m \<longrightarrow> blocks (hp st') b = blocks (hp ?st) b)"
  proof (rule Cons.IH)
    show "distinct (map snd m)" "inj_on blk (snd ` set m)"
      using Cons.prems(1,2) by (auto simp: inj_on_def)
    show "\<forall>(i, a) \<in> set m. \<exists>g. os a = Some g \<and> grid_live g (blk a) ?st \<and>
      files ?st (GetPath d a) = Some (D a) \<and> length (D a) = length (the (blocks (hp ?st) (blk a)))"
      using live by blast
  qed
  then obtain st' where st': "foldE (\<lambda>(i, a) st. case os a of None \<Rightarrow> Inl DanglingPointer | Some g \<Rightarrow> Grid_Restore d a g st) m ?st
      = Inr st'" "bufs st' = bufs st" "files st' = files st"
    "\<forall>a \<in> snd ` set m. blocks (hp st') (blk a) = Some (D a)"
    "\<forall>b. b \<notin> blk ` snd ` set m \<longrightarrow> blocks (hp st') b = ((blocks (hp st))(blk a \<mapsto> D a)) b" by auto
  have "blocks (hp st') (blk a) = Some (D a)" using st'(5) new by auto
  then show ?case
    using x g(1) st' Grid_Restore_ok[OF g(2,3,4)] by (intro exI[of _ st']) simp
qed

lemma space_live_same:
  fixes gs :: "('g grid_scheme, 'x) gridspace_scheme"
  assumes "space_live gs blk st" "bufs st' = bufs st"
    "\<And>b. map_option length (blocks (hp st') b) = map_option length (blocks (hp st) b)"
  shows "space_live gs blk st'"
proof -
  have "grid_live g b st'" if "grid_live g b st" for g :: "'g grid_scheme" and b
    using that assms(3)[of b] buffer_at_cong[OF assms(2)] by (auto simp: grid_live_def)
  then show ?thesis using assms(1) unfolding space_live_def by blast
qed

subsection \<open>The registry\<close>

text \<open>
  Registered identifiers are different and below the counter, and each leads to an object
  that carries it. The counter is bounded so that the conversion to \<open>int\<close> is the identity.
\<close>

definition registry_ok :: "('g \<Rightarrow> int option) \<Rightarrow> ('g, 'x) gridspace_scheme \<Rightarrow> bool" where
  "registry_ok get_id gs \<longleftrightarrow> counter_v (grid_counter gs) < 2 ^ 31 \<and>
     sorted (map fst (grids_map gs)) \<and> distinct (map fst (grids_map gs)) \<and>
     (\<forall>(i, a) \<in> set (grids_map gs). 0 \<le> i \<and> i < int (counter_v (grid_counter gs)) \<and>
        (\<exists>g. objs gs a = Some g \<and> get_id g = Some i))"

lemma map_of_insort:
  "k \<notin> fst ` set m \<Longrightarrow> map_of (insort_key fst (k, v) m) = (map_of m)(k \<mapsto> v)"
  by (induction m) (auto simp: fun_upd_twist)

lemma map_of_erase: "map_of (map_erase k m) = (map_of m)(k := None)"
  by (induction m) (auto simp: map_erase_def)

lemma map_fst_insort: "map fst (insort_key fst (k, v) m) = insort k (map fst m)"
  by (induction m) auto

lemma map_insert_new:
  "k \<notin> fst ` set m \<Longrightarrow> map_insert (k, v) m = insort_key fst (k, v) m"
  by (simp add: map_insert_def map_of_eq_None_iff)

lemma FindGrid_map: "FindGrid i gs = (case map_of (grids_map gs) i of None \<Rightarrow> Inl AssertFailed | Some a \<Rightarrow> Inr a)"
  by (simp add: FindGrid_def find_default_def split: option.split)

locale identified =
  fixes get_id :: "'g \<Rightarrow> int option" and set_id :: "int \<Rightarrow> 'g \<Rightarrow> 'g"
  assumes get_set: "get_id (set_id i g) = Some i"
begin

lemma Register_ok:
  assumes ok: "registry_ok get_id gs" and a: "objs gs a = Some g" "a \<notin> snd ` set (grids_map gs)"
    and room: "Suc (counter_v (grid_counter gs)) < 2 ^ 31" and i: "i = int (counter_v (grid_counter gs))"
  shows "\<exists>gs'. RegisterGrid set_id a gs = Inr gs' \<and> registry_ok get_id gs' \<and> FindGrid i gs' = Inr a \<and>
    (\<forall>j. j \<noteq> i \<longrightarrow> FindGrid j gs' = FindGrid j gs) \<and> objs gs' a = Some (set_id i g) \<and>
    (\<forall>b. b \<noteq> a \<longrightarrow> objs gs' b = objs gs b)"
proof -
  have new: "i \<notin> fst ` set (grids_map gs)" using ok i unfolding registry_ok_def by fastforce
  have next_i: "int_of_unsigned (counter_v (grid_counter gs)) = i" using room i by (simp add: int_of_unsigned_def)
  let ?m = "insort_key fst (i, a) (grids_map gs)"
  let ?gs = "gs\<lparr>grid_counter := \<lparr>counter_v = Suc (counter_v (grid_counter gs))\<rparr>,
    objs := (objs gs)(a \<mapsto> set_id i g), grids_map := ?m\<rparr>"
  have reg: "RegisterGrid set_id a gs = Inr ?gs"
    using a room next_i map_insert_new[OF new, of a]
    by (simp add: RegisterGrid_def Counter_next_def)
  have "0 \<le> j \<and> j < int (counter_v (grid_counter ?gs)) \<and> (\<exists>g. objs ?gs b = Some g \<and> get_id g = Some j)"
    if "(j, b) \<in> set (grids_map ?gs)" for j b
  proof (cases "(j, b) = (i, a)")
    case True
    then show ?thesis using i get_set by simp
  next
    case False
    then have m: "(j, b) \<in> set (grids_map gs)" using that by (auto simp: set_insort_key)
    then have "b \<noteq> a" using a(2) by (metis imageI snd_conv)
    then show ?thesis using m ok by (fastforce simp: registry_ok_def)
  qed
  then have "\<forall>(j, b) \<in> set (grids_map ?gs). 0 \<le> j \<and> j < int (counter_v (grid_counter ?gs)) \<and>
      (\<exists>g. objs ?gs b = Some g \<and> get_id g = Some j)" by blast
  then have "registry_ok get_id ?gs"
    using ok room new unfolding registry_ok_def
    by (simp add: map_fst_insort sorted_insort distinct_insort)
  then show ?thesis using reg
    by (intro exI[of _ ?gs]) (simp add: FindGrid_map map_of_insort[OF new])
qed

lemma Deregister_ok:
  assumes ok: "registry_ok get_id gs" and i: "FindGrid i gs = Inr a"
  shows "\<exists>gs'. DeregisterGrid get_id a gs = Inr gs' \<and> registry_ok get_id gs' \<and> objs gs' = objs gs \<and>
    FindGrid i gs' = Inl AssertFailed \<and> (\<forall>j. j \<noteq> i \<longrightarrow> FindGrid j gs' = FindGrid j gs)"
proof -
  have m: "map_of (grids_map gs) i = Some a" using i by (simp add: FindGrid_map split: option.splits)
  then obtain g where g: "objs gs a = Some g" "get_id g = Some i"
    using ok by (fastforce simp: registry_ok_def dest: map_of_SomeD)
  let ?gs = "gs\<lparr>grids_map := map_erase i (grids_map gs)\<rparr>"
  have "DeregisterGrid get_id a gs = Inr ?gs"
    using g m by (simp add: DeregisterGrid_def isContained_map_def)
  moreover have "registry_ok get_id ?gs"
    using ok by (auto simp: registry_ok_def map_erase_def sorted_filter distinct_map_filter)
  ultimately show ?thesis
    by (intro exI[of _ ?gs]) (simp add: FindGrid_map map_of_erase)
qed

end

interpretation grid_ids: identified "\<lambda>g :: 'g grid_scheme. grid_id g" "\<lambda>i. grid_id_update (\<lambda>_. Some i)"
  by unfold_locales simp

subsection \<open>Properties\<close>

text \<open>The state in which a process with \<open>n\<close> bytes of memory starts.\<close>

definition start_world :: "nat \<Rightarrow> world" where
  "start_world n = \<lparr>hp = \<lparr>blocks = (\<lambda>_. None), fresh = 0, avail = n\<rparr>, bufs = (\<lambda>_. None),
     next_buf = 0, files = (\<lambda>_. None)\<rparr>"

lemma start_world_ok [simp]: "world_ok (start_world n)" "avail (hp (start_world n)) = n"
  by (simp_all add: start_world_def world_ok_def heap_ok_def)



text \<open>C12: Any sequence of \<open>Set\<close> calls at points of the grid succeeds, and afterwards every
  point reads as the last value written to it, or as before when none was.\<close>

theorem Grid_Set_sequence:
  assumes "grid_usable g blk c st"
    and "\<forall>(p, v) \<in> set pvs. grid_point (grid_num_dims g) p (grid_size g) \<and> length v = grid_elm_size g"
    and "grid_point (grid_num_dims g) q (grid_size g)"
  shows "\<exists>st' st''. foldE (\<lambda>(p, v). client_Set g c p v) pvs st = Inr st' \<and>
    Grid_Get g q (Ptr c 0) st' = Inr st'' \<and>
    blocks (hp st'') c = Some (case map_of (rev pvs) q of None \<Rightarrow> grid_elem g st q | Some v \<Rightarrow> v)"
proof -
  obtain st' where st': "foldE (\<lambda>(p, v). client_Set g c p v) pvs st = Inr st'" "grid_usable g blk c st'"
      "grid_elem g st' q = (case map_of (rev pvs) q of None \<Rightarrow> grid_elem g st q | Some v \<Rightarrow> v)"
    using grid_cells.writes_ok[OF assms(1,2)] assms(3) by blast
  show ?thesis using Grid_Get_ok[OF st'(2) assms(3)] st' by auto
qed

definition demo_grid :: grid where
  "demo_grid = (Grid_new PS_INT 1 2 (Arr3 2 2 0) False 0)\<lparr>data0 := Ptr 0 0\<rparr>"

definition demo_world :: world where
  "demo_world = (start_world 100)\<lparr>hp := \<lparr>blocks = (\<lambda>_. None)(0 \<mapsto> replicate 4 (Some 0), 1 \<mapsto> [None]),
     fresh = 2, avail = 90\<rparr>\<rparr>"

theorem Grid_Set_sequence_witness:
  "\<exists>st' st''. foldE (\<lambda>(p, v). client_Set demo_grid 1 p v)
      [(Arr3 0 1 0, [Some 7]), (Arr3 1 1 0, [Some 8]), (Arr3 0 1 0, [Some 9])] demo_world = Inr st' \<and>
    Grid_Get demo_grid (Arr3 0 1 0) (Ptr 1 0) st' = Inr st'' \<and> blocks (hp st'') 1 = Some [Some 9]"
proof -
  have point: "grid_point 2 (Arr3 i j 0) (Arr3 2 2 0)" if "0 \<le> i" "i < 2" "0 \<le> j" "j < 2" for i j
    using that by (auto simp: grid_point_def in_box_def dest: less3_cases)
      (auto simp: less_Suc_eq numeral_2_eq_2)
  have u: "grid_usable demo_grid 0 1 demo_world"
    by (simp add: demo_grid_def demo_world_def grid_usable_def Grid_new_def numeral_2_eq_2)
  have v: "\<forall>(p, v) \<in> set [(Arr3 0 1 0, [Some 7]), (Arr3 1 1 0, [Some 8]), (Arr3 0 1 0, [Some 9])].
      grid_point (grid_num_dims demo_grid) p (grid_size demo_grid) \<and> length v = grid_elm_size demo_grid"
    by (simp add: demo_grid_def Grid_new_def point)
  have q: "grid_point (grid_num_dims demo_grid) (Arr3 0 1 0) (grid_size demo_grid)"
    by (simp add: demo_grid_def Grid_new_def point)
  from Grid_Set_sequence[OF u v q] show ?thesis by simp
qed

text \<open>C13: \<open>GridSpace::Save\<close> writes every registered grid to its own file, and a later
  \<open>GridSpace::Restore\<close> brings the data of every grid back, whatever the grids were
  overwritten with in between; blocks that belong to no grid are left alone.\<close>

theorem checkpoint_roundtrip:
  fixes gs :: "('g grid_scheme, 'x) gridspace_scheme"
  assumes "space_live gs blk st"
  shows "\<exists>st1. GridSpace_Save (Grid_Save d) gs st = Inr st1 \<and> hp st1 = hp st \<and>
    (\<forall>st2. bufs st2 = bufs st1 \<and> files st2 = files st1 \<and>
        (\<forall>b. map_option length (blocks (hp st2) b) = map_option length (blocks (hp st) b)) \<longrightarrow>
      (\<exists>st3. GridSpace_Restore (Grid_Restore d) gs st2 = Inr st3 \<and>
        (\<forall>(i, a) \<in> set (grids_map gs). blocks (hp st3) (blk a) = blocks (hp st) (blk a)) \<and>
        (\<forall>b. b \<notin> blk ` snd ` set (grids_map gs) \<longrightarrow> blocks (hp st3) b = blocks (hp st2) b)))"
proof -
  let ?m = "grids_map gs"
  have live: "\<forall>(i, a) \<in> set ?m. \<exists>g. objs gs a = Some g \<and> grid_live g (blk a) st"
    and dist: "distinct (map snd ?m)" "inj_on blk (snd ` set ?m)"
    using assms by (auto simp: space_live_def)
  obtain st1 where st1: "GridSpace_Save (Grid_Save d) gs st = Inr st1" "hp st1 = hp st" "bufs st1 = bufs st"
      "\<And>a. files st1 (GetPath d a) = (if a \<in> snd ` set ?m then blocks (hp st) (blk a) else files st (GetPath d a))"
    using foldE_Save[OF dist(1) live, of d] unfolding GridSpace_Save_def by blast
  have "\<exists>st3. GridSpace_Restore (Grid_Restore d) gs st2 = Inr st3 \<and>
        (\<forall>(i, a) \<in> set ?m. blocks (hp st3) (blk a) = blocks (hp st) (blk a)) \<and>
        (\<forall>b. b \<notin> blk ` snd ` set ?m \<longrightarrow> blocks (hp st3) b = blocks (hp st2) b)"
    if st2: "bufs st2 = bufs st1" "files st2 = files st1"
      "\<And>b. map_option length (blocks (hp st2) b) = map_option length (blocks (hp st) b)" for st2
  proof -
    have live2: "space_live gs blk st2"
      by (rule space_live_same[OF assms]) (simp_all add: st1 st2)
    let ?D = "\<lambda>a. the (blocks (hp st) (blk a))"
    have D: "\<exists>cs. blocks (hp st) (blk a) = Some cs" if "(i, a) \<in> set ?m" for i a
      using live that by (auto simp: grid_live_def)
    have pre: "\<forall>(i, a) \<in> set ?m. \<exists>g. objs gs a = Some g \<and> grid_live g (blk a) st2 \<and>
        files st2 (GetPath d a) = Some (?D a) \<and> length (?D a) = length (the (blocks (hp st2) (blk a)))"
    proof (intro ballI, clarify)
      fix i a assume m: "(i, a) \<in> set ?m"
      obtain g where "objs gs a = Some g" "grid_live g (blk a) st2"
        using live2 m unfolding space_live_def by blast
      moreover have "files st2 (GetPath d a) = Some (?D a)"
        using m D[OF m] st1(4)[of a] st2(2) by (auto simp: image_iff)
      moreover have "length (?D a) = length (the (blocks (hp st2) (blk a)))"
        using D[OF m] st2(3)[of "blk a"] by auto
      ultimately show "\<exists>g. objs gs a = Some g \<and> grid_live g (blk a) st2 \<and>
        files st2 (GetPath d a) = Some (?D a) \<and> length (?D a) = length (the (blocks (hp st2) (blk a)))"
        by blast
    qed
    from foldE_Restore[OF dist pre] D show ?thesis
      unfolding GridSpace_Restore_def by (fastforce simp: image_iff)
  qed
  with st1 show ?thesis by (intro exI[of _ st1]) simp
qed

definition demo_space :: "grid gridspace" where
  "demo_space = \<lparr>grids_map = [(0, 5)], grid_counter = Counter 1,
     objs = [5 \<mapsto> demo_grid\<lparr>data_buffer0 := Some 0\<rparr>]\<rparr>"

definition demo_buffer_world :: world where
  "demo_buffer_world = demo_world\<lparr>bufs := [0 \<mapsto>
     \<lparr>buf_num_dims = 2, buf_elm_size = 1, buf_size = Arr3 2 2 0, buf_ptr = Ptr 0 0, buf_deleter = True\<rparr>]\<rparr>"

theorem checkpoint_roundtrip_witness:
  "\<exists>st1. GridSpace_Save (Grid_Save (Some ''/tmp'')) demo_space demo_buffer_world = Inr st1"
proof -
  have "space_live demo_space (\<lambda>_. 0) demo_buffer_world"
    by (simp add: space_live_def demo_space_def demo_buffer_world_def demo_world_def demo_grid_def
        Grid_new_def grid_live_def buffer_at_def GetLinearSize_def GetLinearSize_of_def
        accumulate_num start_world_def)
  from checkpoint_roundtrip[OF this, of "Some ''/tmp''"] show ?thesis by blast
qed


text \<open>Registering a grid gives it an identifier nobody has, under which \<open>FindGrid\<close> then
  finds it, and disturbs no other identifier; deleting it by that identifier makes the
  lookup fail again and brings every other lookup back as it was.\<close>

theorem register_find_delete:
  fixes gs :: "grid gridspace"
  assumes "registry_ok grid_id gs" and "objs gs a = Some g" and "a \<notin> snd ` set (grids_map gs)"
    and "Suc (counter_v (grid_counter gs)) < 2 ^ 31" and "i = int (counter_v (grid_counter gs))"
  shows "\<exists>gs1 gs2. RegisterGrid (\<lambda>i. grid_id_update (\<lambda>_. Some i)) a gs = Inr gs1 \<and>
    FindGrid i gs = Inl AssertFailed \<and> FindGrid i gs1 = Inr a \<and>
    DeregisterGrid grid_id a gs1 = Inr gs2 \<and> (\<forall>j. FindGrid j gs2 = FindGrid j gs) \<and>
    registry_ok grid_id gs1 \<and> registry_ok grid_id gs2"
proof -
  obtain gs1 where gs1: "RegisterGrid (\<lambda>i. grid_id_update (\<lambda>_. Some i)) a gs = Inr gs1"
      "registry_ok grid_id gs1" "FindGrid i gs1 = Inr a" "\<And>j. j \<noteq> i \<Longrightarrow> FindGrid j gs1 = FindGrid j gs"
    using grid_ids.Register_ok[OF assms] by blast
  obtain gs2 where gs2: "DeregisterGrid grid_id a gs1 = Inr gs2" "registry_ok grid_id gs2"
      "FindGrid i gs2 = Inl AssertFailed" "\<And>j. j \<noteq> i \<Longrightarrow> FindGrid j gs2 = FindGrid j gs1"
    using grid_ids.Deregister_ok[OF gs1(2,3)] by blast
  have "i \<notin> fst ` set (grids_map gs)" using assms(1,5) unfolding registry_ok_def by fastforce
  then have "map_of (grids_map gs) i = None" by (simp add: map_of_eq_None_iff)
  then have new: "FindGrid i gs = Inl AssertFailed" by (simp add: FindGrid_map)
  have "FindGrid j gs2 = FindGrid j gs" for j
    using gs1(4)[of j] gs2(3) gs2(4)[of j] new by (cases "j = i") auto
  with gs1 gs2 new show ?thesis by blast
qed

theorem register_find_delete_witness:
  "\<exists>gs1. RegisterGrid (\<lambda>i. grid_id_update (\<lambda>_. Some i)) 5 (GridSpace_new\<lparr>objs := [5 \<mapsto> demo_grid]\<rparr>) = Inr gs1 \<and>
     FindGrid 0 gs1 = Inr 5"
  using register_find_delete[of "GridSpace_new\<lparr>objs := [5 \<mapsto> demo_grid]\<rparr>" 5 demo_grid 0]
  by (auto simp: registry_ok_def GridSpace_new_def Counter_def)

end
