(* ===== verification/Space_Partition.thy ===== *)
theory Space_Partition imports Grid_Base begin

text \<open>
  The geometry of \<open>GridSpaceMPI\<close> (\<open>runtime/grid_mpi.cc\<close>): the partition of the global
  index space among the processes, the numbering of the processes, the constructor of a
  grid space and the local part of a grid. Everything here is local to a process; the
  messages are modelled in later theories.
\<close>

subsection \<open>Partition of the index space\<close>

text \<open>\<open>%\<close> and \<open>/\<close> of C round towards zero and are undefined for a zero divisor.\<close>

definition c_mod :: "int \<Rightarrow> int \<Rightarrow> fault + int" where
  "c_mod x y = (if y = 0 then Inl DivideByZero else Inr (x smod y))"

definition c_div :: "int \<Rightarrow> int \<Rightarrow> fault + int" where
  "c_div x y = (if y = 0 then Inl DivideByZero else Inr (x sdiv y))"

definition PSINDEX_MAX :: int where
  "PSINDEX_MAX = 2 ^ 31 - 1"

text \<open>The index of process \<open>i\<close>: the digits of \<open>i\<close>, the first dimension fastest.\<close>

definition partition_index :: "nat \<Rightarrow> idx \<Rightarrow> int \<Rightarrow> fault + idx" where
  "partition_index num_dims num_partitions i =
     bindE (foldE (\<lambda>j (pidx, t).
         bindE (c_mod t (at num_partitions j)) (\<lambda>m.
           bindE (c_div t (at num_partitions j)) (\<lambda>q. Inr (upd pidx j m, q))))
       [0..<num_dims] (IntegerArray0, i))
     (\<lambda>(pidx, t). Inr pidx)"

text \<open>
  The parts of one dimension: the sizes, the offsets, the next offset and the smallest
  size so far. An array of a negative number of parts cannot be allocated.
\<close>

definition partition_step :: "int \<Rightarrow> int \<Rightarrow> nat \<Rightarrow> int list \<times> int list \<times> int \<times> int \<Rightarrow>
    fault + (int list \<times> int list \<times> int \<times> int)" where
  "partition_step sz np j = (\<lambda>(parts, offs, offset, m).
     bindE (c_mod sz np) (\<lambda>rem.
       bindE (c_div sz np) (\<lambda>q.
         (let p = (if np - int j \<le> rem then q + 1 else q)
          in Inr (parts @ [p], offs @ [offset], offset + p, min m p)))))"

definition partition_dim :: "int \<Rightarrow> int \<Rightarrow> int \<Rightarrow> fault + (int list \<times> int list \<times> int)" where
  "partition_dim sz np m =
     (if np < 0 then Inl OutOfBounds
      else bindE (foldE (partition_step sz np) [0..<nat np] ([], [], 0, m))
             (\<lambda>(parts, offs, offset, m). Inr (parts, offs, m)))"

definition partition_procs ::
    "nat \<Rightarrow> int \<Rightarrow> idx \<Rightarrow> idx \<Rightarrow> fault + (int list arr3 \<times> int list arr3 \<times> idx list \<times> idx)" where
  "partition_procs num_dims num_procs sz num_partitions =
     bindE (foldE (\<lambda>i proc_indices.
         bindE (partition_index num_dims num_partitions (int i)) (\<lambda>pidx. Inr (proc_indices @ [pidx])))
       [0..<nat num_procs] []) (\<lambda>proc_indices.
     bindE (foldE (\<lambda>i (partitions, offsets, min_partition).
         bindE (partition_dim (at sz i) (at num_partitions i) (at min_partition i)) (\<lambda>(ps, os, m).
           Inr (upd partitions i ps, upd offsets i os, upd min_partition i m)))
       [0..<num_dims] (arr_Set [], arr_Set [], arr_Set PSINDEX_MAX)) (\<lambda>(partitions, offsets, min_partition).
     Inr (partitions, offsets, proc_indices, min_partition)))"

subsection \<open>The grid space\<close>

record 'g gridspace_mpi = "'g gridspace" +
  gs_num_dims :: nat
  gs_global_size :: idx
  gs_proc_num_dims :: nat
  gs_proc_size :: idx
  gs_my_rank :: int
  gs_num_procs :: int
  gs_my_size :: idx
  gs_my_offset :: idx
  gs_partitions :: "int list arr3"
  gs_offsets :: "int list arr3"
  gs_min_partition :: idx
  gs_my_idx :: idx
  gs_fw_neighbors :: idx
  gs_bw_neighbors :: idx
  gs_proc_indices :: "idx list"
  gs_buf :: ptr
  gs_cur_buf_size :: nat

definition GetProcessRank_of :: "nat \<Rightarrow> idx \<Rightarrow> idx \<Rightarrow> int" where
  "GetProcessRank_of nd proc_size proc_index =
     fst (fold (\<lambda>i (rank, offset). (rank + at proc_index i * offset, offset * at proc_size i))
       [0..<nd] (0, 1))"

definition GetProcessRank :: "('g, 'x) gridspace_mpi_scheme \<Rightarrow> idx \<Rightarrow> int" where
  "GetProcessRank gs proc_index = GetProcessRank_of (gs_num_dims gs) (gs_proc_size gs) proc_index"

text \<open>Reading an array allocated by \<open>new\<close>.\<close>

definition array_get :: "'a list \<Rightarrow> int \<Rightarrow> fault + 'a" where
  "array_get xs i = (if 0 \<le> i \<and> nat i < length xs then Inr (xs ! nat i) else Inl OutOfBounds)"

definition neighbor_fw :: "nat \<Rightarrow> idx \<Rightarrow> idx \<Rightarrow> nat \<Rightarrow> fault + int" where
  "neighbor_fw nd proc_size my_idx i =
     bindE (c_mod (at my_idx i + 1) (at proc_size i)) (\<lambda>m.
       Inr (GetProcessRank_of nd proc_size (upd my_idx i m)))"

definition neighbor_bw :: "nat \<Rightarrow> idx \<Rightarrow> idx \<Rightarrow> nat \<Rightarrow> fault + int" where
  "neighbor_bw nd proc_size my_idx i =
     (let m = at my_idx i - 1
      in bindE (if m < 0 then c_mod (m + at proc_size i) (at proc_size i) else Inr m) (\<lambda>m.
           Inr (GetProcessRank_of nd proc_size (upd my_idx i m))))"

definition GridSpaceMPI_new :: "nat \<Rightarrow> idx \<Rightarrow> nat \<Rightarrow> idx \<Rightarrow> int \<Rightarrow> fault + 'g gridspace_mpi" where
  "GridSpaceMPI_new num_dims global_size proc_num_dims proc_size my_rank =
     bindE (assertE (num_dims = proc_num_dims)) (\<lambda>_.
     let num_procs = accumulate proc_size proc_num_dims
     in bindE (partition_procs num_dims num_procs global_size proc_size)
          (\<lambda>(partitions, offsets, proc_indices, min_partition).
        bindE (array_get proc_indices my_rank) (\<lambda>my_idx.
        bindE (foldE (\<lambda>i (my_offset, my_size).
            bindE (array_get (at offsets i) (at my_idx i)) (\<lambda>x.
              bindE (array_get (at partitions i) (at my_idx i)) (\<lambda>y.
                Inr (upd my_offset i x, upd my_size i y))))
          [0..<num_dims] (IntegerArray0, IntegerArray0)) (\<lambda>(my_offset, my_size).
        bindE (foldE (\<lambda>i (fw, bw).
            bindE (neighbor_fw num_dims proc_size my_idx i) (\<lambda>x.
              bindE (neighbor_bw num_dims proc_size my_idx i) (\<lambda>y.
                Inr (upd fw i x, upd bw i y))))
          [0..<num_dims] (IntegerArray0, IntegerArray0)) (\<lambda>(fw, bw).
        Inr \<lparr>grids_map = [], grid_counter = Counter 0, objs = (\<lambda>_. None),
          gs_num_dims = num_dims, gs_global_size = global_size, gs_proc_num_dims = proc_num_dims,
          gs_proc_size = proc_size, gs_my_rank = my_rank, gs_num_procs = num_procs,
          gs_my_size = my_size, gs_my_offset = my_offset, gs_partitions = partitions,
          gs_offsets = offsets, gs_min_partition = min_partition, gs_my_idx = my_idx,
          gs_fw_neighbors = fw, gs_bw_neighbors = bw, gs_proc_indices = proc_indices,
          gs_buf = Null, gs_cur_buf_size = 0\<rparr>)))))"

definition PartitionGrid ::
    "('g, 'x) gridspace_mpi_scheme \<Rightarrow> nat \<Rightarrow> idx \<Rightarrow> idx \<Rightarrow> idx \<times> idx \<Rightarrow> idx \<times> idx" where
  "PartitionGrid gs num_dims sz global_offset lo_ls =
     fold (\<lambda>i (local_offset, local_size).
       let first = max (at (gs_my_offset gs) i) (at global_offset i);
           last = min (at global_offset i + at sz i) (at (gs_my_offset gs) i + at (gs_my_size gs) i)
       in (upd local_offset i (max (at (gs_my_offset gs) i - at global_offset i) 0),
           upd local_size i (max (last - first) 0)))
     [0..<num_dims] lo_ls"

subsection \<open>Blocks of a line\<close>

text \<open>
  A line of \<open>len\<close> cells cut into \<open>n\<close> consecutive parts. Every cell has exactly one part,
  the offsets grow, and the sizes add up to the line.
\<close>

locale block_partition =
  fixes n :: nat and len :: int and off :: "nat \<Rightarrow> int" and part :: "nat \<Rightarrow> int"
  assumes off_0: "off 0 = 0"
    and off_Suc: "j < n \<Longrightarrow> off (Suc j) = off j + part j"
    and off_n: "off n = len"
    and part_nonneg: "j < n \<Longrightarrow> 0 \<le> part j"
begin

lemma off_mono: "i \<le> j \<Longrightarrow> j \<le> n \<Longrightarrow> off i \<le> off j"
proof (induction j)
  case (Suc j)
  then show ?case using off_Suc[of j] part_nonneg[of j] by (cases "i = Suc j") auto
qed simp

lemma off_nonneg: "j \<le> n \<Longrightarrow> 0 \<le> off j"
  using off_mono[of 0 j] off_0 by simp

lemma part_end: "j < n \<Longrightarrow> off j + part j \<le> len"
  using off_mono[of "Suc j" n] off_Suc[of j] off_n by simp

lemma sum_parts: "j \<le> n \<Longrightarrow> (\<Sum>i<j. part i) = off j"
  by (induction j) (auto simp: off_0 off_Suc)

lemma part_exists:
  assumes "0 \<le> x" "x < len"
  shows "\<exists>j < n. off j \<le> x \<and> x < off j + part j"
proof -
  have "k \<le> n \<Longrightarrow> x < off k \<Longrightarrow> \<exists>j < k. off j \<le> x \<and> x < off j + part j" for k
  proof (induction k)
    case 0
    then show ?case using assms(1) off_0 by simp
  next
    case (Suc k)
    show ?case
    proof (cases "x < off k")
      case True
      then show ?thesis using Suc by (metis less_Suc_eq Suc_leD)
    next
      case False
      then show ?thesis using Suc.prems off_Suc[of k] by (intro exI[of _ k]) auto
    qed
  qed
  from this[of n] show ?thesis using assms(2) off_n by simp
qed

lemma part_unique:
  assumes "i < n" "j < n" "off i \<le> x" "x < off i + part i" "off j \<le> x" "x < off j + part j"
  shows "i = j"
proof (rule ccontr)
  assume "i \<noteq> j"
  then consider "Suc i \<le> j" | "Suc j \<le> i" by linarith
  then show False
    using off_mono[of "Suc i" j] off_mono[of "Suc j" i] off_Suc[of i] off_Suc[of j] assms
    by cases auto
qed

lemma part_ex1:
  assumes "0 \<le> x" "x < len"
  shows "\<exists>!j. j < n \<and> off j \<le> x \<and> x < off j + part j"
  using part_exists[OF assms] part_unique by metis

end

text \<open>The parts the code makes: the remainder goes to the last parts, one each.\<close>

definition part_size :: "nat \<Rightarrow> int \<Rightarrow> nat \<Rightarrow> int" where
  "part_size n sz j = sz div int n + (if int n - int j \<le> sz mod int n then 1 else 0)"

definition part_off :: "nat \<Rightarrow> int \<Rightarrow> nat \<Rightarrow> int" where
  "part_off n sz j = int j * (sz div int n) + max 0 (int j - (int n - sz mod int n))"

lemma part_size_nonneg: "0 < n \<Longrightarrow> 0 \<le> sz \<Longrightarrow> 0 \<le> part_size n sz j"
  by (simp add: part_size_def pos_imp_zdiv_nonneg_iff)

lemma part_size_balanced: "\<bar>part_size n sz i - part_size n sz j\<bar> \<le> 1"
  by (simp add: part_size_def)

lemma block_partition_parts:
  assumes "0 < n" "0 \<le> sz"
  shows "block_partition n sz (part_off n sz) (part_size n sz)"
proof
  have m: "0 \<le> sz mod int n" "sz mod int n < int n" using assms by auto
  show "part_off n sz 0 = 0" using m by (simp add: part_off_def)
  show "part_off n sz n = sz" using m by (simp add: part_off_def)
  show "part_off n sz (Suc j) = part_off n sz j + part_size n sz j" if "j < n" for j
    using m by (auto simp: part_off_def part_size_def algebra_simps max_def)
  show "0 \<le> part_size n sz j" if "j < n" for j using assms by (rule part_size_nonneg)
qed

interpretation parts: block_partition "Suc n" "int sz" "part_off (Suc n) (int sz)" "part_size (Suc n) (int sz)"
  for n sz by (rule block_partition_parts) simp_all

lemma foldE_partition_step:
  assumes "0 < n" "0 \<le> sz" "k \<le> n"
  shows "foldE (partition_step sz (int n)) [0..<k] ([], [], 0, m) =
    Inr (map (part_size n sz) [0..<k], map (part_off n sz) [0..<k], part_off n sz k,
      foldl min m (map (part_size n sz) [0..<k]))"
  using assms(3)
proof (induction k)
  case 0
  then show ?case using assms by (simp add: part_off_def)
next
  case (Suc k)
  have q: "sz smod int n = sz mod int n" "sz sdiv int n = sz div int n"
    using assms by (simp_all add: signed_modulo_int_def signed_divide_int_def zsgn_def)
  note off = block_partition.off_Suc[OF block_partition_parts[OF assms(1,2)], of k]
  have "(if int n - int k \<le> sz mod int n then sz div int n + 1 else sz div int n) = part_size n sz k"
    by (simp add: part_size_def)
  then show ?case
    using Suc off assms(1) by (simp add: foldE_append partition_step_def c_mod_def c_div_def q Let_def)
qed

lemma partition_dim_ok:
  assumes "0 < n" "0 \<le> sz"
  shows "partition_dim sz (int n) m = Inr (map (part_size n sz) [0..<n], map (part_off n sz) [0..<n],
    foldl min m (map (part_size n sz) [0..<n]))"
  using foldE_partition_step[OF assms order_refl, of m] by (simp add: partition_dim_def)

lemma foldl_min: "foldl min (m :: int) xs = (if xs = [] then m else min m (Min (set xs)))"
proof (induction xs arbitrary: m)
  case (Cons x xs)
  then show ?case by (cases "xs = []") (auto simp: min.assoc)
qed simp

subsection \<open>Numbering of the processes\<close>

lemma GetProcessRank_of_lin: "GetProcessRank_of nd proc_size p = lin nd p proc_size"
proof -
  have "fold (\<lambda>i (rank, offset). (rank + at p i * offset, offset * at proc_size i)) [0..<nd] (0, 1)
      = (lin nd p proc_size, accumulate proc_size nd)"
    by (induction nd) (auto simp: mult.commute)
  then show ?thesis by (simp add: GetProcessRank_of_def)
qed

lemma foldE_partition_index:
  assumes "k \<le> 3" and pos: "\<And>i. i < k \<Longrightarrow> 0 < at ps i" and "0 \<le> t"
  shows "\<exists>pidx. foldE (\<lambda>j (pidx, t).
         bindE (c_mod t (at ps j)) (\<lambda>m.
           bindE (c_div t (at ps j)) (\<lambda>q. Inr (upd pidx j m, q)))) [0..<k] (IntegerArray0, t) =
      Inr (pidx, t div accumulate ps k) \<and> in_box k pidx ps \<and>
      lin k pidx ps = t mod accumulate ps k \<and> (\<forall>i < 3. k \<le> i \<longrightarrow> at pidx i = 0)"
  using assms(1,2)
proof (induction k)
  case 0
  then show ?case by (auto simp: in_box_def)
next
  case (Suc k)
  let ?a = "accumulate ps k" and ?n = "at ps k"
  obtain pidx where IH: "foldE (\<lambda>j (pidx, t).
         bindE (c_mod t (at ps j)) (\<lambda>m.
           bindE (c_div t (at ps j)) (\<lambda>q. Inr (upd pidx j m, q)))) [0..<k] (IntegerArray0, t) =
      Inr (pidx, t div ?a)" "in_box k pidx ps" "lin k pidx ps = t mod ?a" "\<forall>i < 3. k \<le> i \<longrightarrow> at pidx i = 0"
    using Suc by auto
  have n: "0 < ?n" using Suc.prems(2) by simp
  have a: "0 < ?a" using Suc.prems(2) accumulate_nonneg[of k ps] accumulate_eq_0_iff[of ps k]
    by (metis less_SucI less_imp_le order_less_irrefl order_le_less)
  have q0: "0 \<le> t div ?a" using a assms(3) by (simp add: pos_imp_zdiv_nonneg_iff)
  have q: "(t div ?a) smod ?n = (t div ?a) mod ?n" "(t div ?a) sdiv ?n = (t div ?a) div ?n"
    using q0 n by (simp_all add: signed_modulo_int_def signed_divide_int_def zsgn_def)
  let ?p = "upd pidx k ((t div ?a) mod ?n)"
  have at: "i < 3 \<Longrightarrow> at ?p i = (if i = k then (t div ?a) mod ?n else at pidx i)" for i
    using Suc.prems(1) by (simp add: at_upd)
  have lin: "lin k ?p ps = lin k pidx ps" using Suc.prems(1) at by (intro lin_cong) auto
  have box: "in_box k ?p ps" using IH(2) Suc.prems(1) at by (auto simp: in_box_def)
  have "t mod (?a * ?n) = ?a * ((t div ?a) mod ?n) + t mod ?a"
    using a by (simp add: mod_mult2_eq[symmetric] zmod_zmult2_eq less_imp_le n)
  then have "lin (Suc k) ?p ps = t mod accumulate ps (Suc k)"
    using lin IH(3) at[of k] Suc.prems(1) by (simp add: mult.commute)
  moreover have "in_box (Suc k) ?p ps" using box n at[of k] Suc.prems(1) by (simp add: in_box_Suc)
  moreover have "t div ?a div ?n = t div accumulate ps (Suc k)"
    using a n by (simp add: zdiv_zmult2_eq)
  moreover have "\<forall>i < 3. Suc k \<le> i \<longrightarrow> at ?p i = 0" using IH(4) at by auto
  ultimately show ?case using IH(1) n q by (auto simp: foldE_append c_mod_def c_div_def)
qed

lemma partition_index_ok:
  assumes "nd \<le> 3" "\<And>i. i < nd \<Longrightarrow> 0 < at ps i" "0 \<le> t" "t < accumulate ps nd"
  shows "\<exists>pidx. partition_index nd ps t = Inr pidx \<and> grid_point nd pidx ps \<and> lin nd pidx ps = t"
  using foldE_partition_index[OF assms(1,2,3)] assms(3,4)
  by (auto simp: partition_index_def grid_point_def)

subsection \<open>The constructor\<close>

text \<open>The index of the process with a rank, and its part of the global space.\<close>

definition rank_idx :: "nat \<Rightarrow> idx \<Rightarrow> int \<Rightarrow> idx" where
  "rank_idx nd ps r = (case partition_index nd ps r of Inr p \<Rightarrow> p | Inl _ \<Rightarrow> IntegerArray0)"

definition proc_off :: "idx \<Rightarrow> idx \<Rightarrow> idx \<Rightarrow> nat \<Rightarrow> int" where
  "proc_off gsz ps p i = part_off (nat (at ps i)) (at gsz i) (nat (at p i))"

definition proc_part :: "idx \<Rightarrow> idx \<Rightarrow> idx \<Rightarrow> nat \<Rightarrow> int" where
  "proc_part gsz ps p i = part_size (nat (at ps i)) (at gsz i) (nat (at p i))"

definition space_args_ok :: "nat \<Rightarrow> idx \<Rightarrow> idx \<Rightarrow> bool" where
  "space_args_ok nd gsz ps \<longleftrightarrow> nd \<le> 3 \<and> (\<forall>i < nd. 0 < at ps i \<and> 0 \<le> at gsz i)"

lemma rank_idx_ok:
  assumes "space_args_ok nd gsz ps" "0 \<le> r" "r < accumulate ps nd"
  shows "partition_index nd ps r = Inr (rank_idx nd ps r)" "grid_point nd (rank_idx nd ps r) ps"
    "lin nd (rank_idx nd ps r) ps = r"
  using partition_index_ok[of nd ps r] assms by (auto simp: space_args_ok_def rank_idx_def)

text \<open>Ranks and indices correspond one to one.\<close>

lemma rank_idx_lin:
  assumes "space_args_ok nd gsz ps" "grid_point nd p ps"
  shows "rank_idx nd ps (lin nd p ps) = p"
proof -
  have "0 \<le> lin nd p ps" "lin nd p ps < accumulate ps nd"
    using assms(2) lin_bounds[of nd p ps] by (auto simp: grid_point_def)
  note r = rank_idx_ok[OF assms(1) this]
  show ?thesis by (rule grid_point_eqI[OF r(2) assms(2) r(3)])
qed

definition neighbor_idx :: "idx \<Rightarrow> idx \<Rightarrow> nat \<Rightarrow> int \<Rightarrow> idx" where
  "neighbor_idx ps p i d = upd p i ((at p i + d) mod at ps i)"

text \<open>What the fields of a grid space are for process \<open>my_rank\<close>.\<close>

definition space_ok :: "('g, 'x) gridspace_mpi_scheme \<Rightarrow> bool" where
  "space_ok gs \<longleftrightarrow>
     (let nd = gs_num_dims gs; gsz = gs_global_size gs; ps = gs_proc_size gs; p = gs_my_idx gs
      in space_args_ok nd gsz ps \<and> gs_num_procs gs = accumulate ps nd \<and>
         0 \<le> gs_my_rank gs \<and> gs_my_rank gs < gs_num_procs gs \<and>
         p = rank_idx nd ps (gs_my_rank gs) \<and>
         gs_proc_indices gs = map (\<lambda>r. rank_idx nd ps (int r)) [0..<nat (gs_num_procs gs)] \<and>
         (\<forall>i < nd.
            at (gs_partitions gs) i = map (part_size (nat (at ps i)) (at gsz i)) [0..<nat (at ps i)] \<and>
            at (gs_offsets gs) i = map (part_off (nat (at ps i)) (at gsz i)) [0..<nat (at ps i)] \<and>
            at (gs_min_partition gs) i =
              min PSINDEX_MAX (Min (part_size (nat (at ps i)) (at gsz i) ` {..<nat (at ps i)})) \<and>
            at (gs_my_offset gs) i = proc_off gsz ps p i \<and>
            at (gs_my_size gs) i = proc_part gsz ps p i \<and>
            at (gs_fw_neighbors gs) i = lin nd (neighbor_idx ps p i 1) ps \<and>
            at (gs_bw_neighbors gs) i = lin nd (neighbor_idx ps p i (- 1)) ps))"

lemma foldE_upd2:
  assumes "k \<le> 3" "\<And>i. i < k \<Longrightarrow> f i = Inr (x i, y i)"
  shows "\<exists>a' b'. foldE (\<lambda>i (a, b). bindE (f i) (\<lambda>(x, y). Inr (upd a i x, upd b i y))) [0..<k] (a, b) =
      Inr (a', b') \<and> (\<forall>i < 3. at a' i = (if i < k then x i else at a i)) \<and>
    (\<forall>i < 3. at b' i = (if i < k then y i else at b i))"
  using assms
proof (induction k)
  case 0
  then show ?case by simp
next
  case (Suc k)
  then obtain a' b' where
    "foldE (\<lambda>i (a, b). bindE (f i) (\<lambda>(x, y). Inr (upd a i x, upd b i y))) [0..<k] (a, b) = Inr (a', b')"
    "\<forall>i < 3. at a' i = (if i < k then x i else at a i)"
    "\<forall>i < 3. at b' i = (if i < k then y i else at b i)" by auto
  then show ?case using Suc.prems
    by (auto simp: foldE_append at_upd less_Suc_eq)
qed

lemma foldE_parts:
  assumes "space_args_ok nd gsz ps" "k \<le> nd"
  shows "\<exists>parts offs m. foldE (\<lambda>i (partitions, offsets, min_partition).
         bindE (partition_dim (at gsz i) (at ps i) (at min_partition i)) (\<lambda>(ps, os, m).
           Inr (upd partitions i ps, upd offsets i os, upd min_partition i m)))
       [0..<k] (arr_Set [], arr_Set [], arr_Set PSINDEX_MAX) = Inr (parts, offs, m) \<and>
    (\<forall>i < k. at parts i = map (part_size (nat (at ps i)) (at gsz i)) [0..<nat (at ps i)] \<and>
       at offs i = map (part_off (nat (at ps i)) (at gsz i)) [0..<nat (at ps i)] \<and>
       at m i = min PSINDEX_MAX (Min (part_size (nat (at ps i)) (at gsz i) ` {..<nat (at ps i)}))) \<and>
    (\<forall>i < 3. k \<le> i \<longrightarrow> at m i = PSINDEX_MAX)"
  using assms(2)
proof (induction k)
  case 0
  then show ?case by simp
next
  case (Suc k)
  then obtain parts offs m where IH: "foldE (\<lambda>i (partitions, offsets, min_partition).
         bindE (partition_dim (at gsz i) (at ps i) (at min_partition i)) (\<lambda>(ps, os, m).
           Inr (upd partitions i ps, upd offsets i os, upd min_partition i m)))
       [0..<k] (arr_Set [], arr_Set [], arr_Set PSINDEX_MAX) = Inr (parts, offs, m)"
    "\<forall>i < k. at parts i = map (part_size (nat (at ps i)) (at gsz i)) [0..<nat (at ps i)] \<and>
       at offs i = map (part_off (nat (at ps i)) (at gsz i)) [0..<nat (at ps i)] \<and>
       at m i = min PSINDEX_MAX (Min (part_size (nat (at ps i)) (at gsz i) ` {..<nat (at ps i)}))"
    "\<forall>i < 3. k \<le> i \<longrightarrow> at m i = PSINDEX_MAX" by auto
  have pos: "0 < nat (at ps k)" "0 \<le> at gsz k" "k < 3" using assms(1) Suc.prems by (auto simp: space_args_ok_def)
  have "partition_dim (at gsz k) (at ps k) (at m k) =
      Inr (map (part_size (nat (at ps k)) (at gsz k)) [0..<nat (at ps k)],
        map (part_off (nat (at ps k)) (at gsz k)) [0..<nat (at ps k)],
        min PSINDEX_MAX (Min (part_size (nat (at ps k)) (at gsz k) ` {..<nat (at ps k)})))"
    using partition_dim_ok[OF pos(1,2), of "at m k"] pos IH(3)
    by (simp add: foldl_min lessThan_atLeast0)
  with IH pos(3) show ?case by (auto simp: foldE_append at_upd less_Suc_eq)
qed

lemma partition_procs_ok:
  assumes "space_args_ok nd gsz ps" "np = accumulate ps nd"
  shows "\<exists>parts offs m. partition_procs nd np gsz ps =
      Inr (parts, offs, map (\<lambda>r. rank_idx nd ps (int r)) [0..<nat np], m) \<and>
    (\<forall>i < nd. at parts i = map (part_size (nat (at ps i)) (at gsz i)) [0..<nat (at ps i)] \<and>
       at offs i = map (part_off (nat (at ps i)) (at gsz i)) [0..<nat (at ps i)] \<and>
       at m i = min PSINDEX_MAX (Min (part_size (nat (at ps i)) (at gsz i) ` {..<nat (at ps i)})))"
proof -
  have "k \<le> nat np \<Longrightarrow> foldE (\<lambda>i proc_indices.
         bindE (partition_index nd ps (int i)) (\<lambda>pidx. Inr (proc_indices @ [pidx]))) [0..<k] [] =
      Inr (map (\<lambda>r. rank_idx nd ps (int r)) [0..<k])" for k
  proof (induction k)
    case (Suc k)
    then have "partition_index nd ps (int k) = Inr (rank_idx nd ps (int k))"
      using assms by (intro rank_idx_ok(1)) auto
    with Suc show ?case by (simp add: foldE_append)
  qed simp
  from this[of "nat np"] show ?thesis using foldE_parts[OF assms(1) order_refl]
    by (auto simp: partition_procs_def)
qed

lemma array_get_map: "0 \<le> i \<Longrightarrow> i < int n \<Longrightarrow> array_get (map f [0..<n]) i = Inr (f (nat i))"
  by (simp add: array_get_def)

lemma neighbor_ok:
  assumes "0 \<le> at p i" "at p i < at ps i"
  shows "neighbor_fw nd ps p i = Inr (lin nd (neighbor_idx ps p i 1) ps)"
    "neighbor_bw nd ps p i = Inr (lin nd (neighbor_idx ps p i (- 1)) ps)"
proof -
  have smod: "x smod at ps i = x mod at ps i" if "0 \<le> x" for x
    using that assms by (simp add: signed_modulo_int_def zsgn_def signed_divide_int_def minus_div_mult_eq_mod)
  show "neighbor_fw nd ps p i = Inr (lin nd (neighbor_idx ps p i 1) ps)"
    using assms smod[of "at p i + 1"]
    by (auto simp: neighbor_fw_def c_mod_def neighbor_idx_def GetProcessRank_of_lin)
  have "at p i - 1 + at ps i = (at p i - 1) + 1 * at ps i" by simp
  then have "(at p i - 1 + at ps i) mod at ps i = (at p i - 1) mod at ps i"
    by (metis mod_mult_self1)
  then show "neighbor_bw nd ps p i = Inr (lin nd (neighbor_idx ps p i (- 1)) ps)"
    using assms smod[of "at p i - 1 + at ps i"]
    by (auto simp: neighbor_bw_def c_mod_def neighbor_idx_def GetProcessRank_of_lin Let_def)
qed

lemma GridSpaceMPI_new_ok:
  assumes args: "space_args_ok nd gsz ps" and r: "0 \<le> r" "r < accumulate ps nd"
  shows "\<exists>gs. GridSpaceMPI_new nd gsz nd ps r = Inr gs \<and> space_ok gs \<and> gs_num_dims gs = nd \<and>
    gs_global_size gs = gsz \<and> gs_proc_size gs = ps \<and> gs_my_rank gs = r \<and>
    grids_map gs = [] \<and> grid_counter gs = Counter 0 \<and> objs gs = (\<lambda>_. None)"
proof -
  let ?np = "accumulate ps nd" and ?p = "rank_idx nd ps r"
  obtain parts offs m where pp: "partition_procs nd ?np gsz ps =
      Inr (parts, offs, map (\<lambda>r. rank_idx nd ps (int r)) [0..<nat ?np], m)"
    "\<forall>i < nd. at parts i = map (part_size (nat (at ps i)) (at gsz i)) [0..<nat (at ps i)] \<and>
       at offs i = map (part_off (nat (at ps i)) (at gsz i)) [0..<nat (at ps i)] \<and>
       at m i = min PSINDEX_MAX (Min (part_size (nat (at ps i)) (at gsz i) ` {..<nat (at ps i)}))"
    using partition_procs_ok[OF args refl] by blast
  have nd: "nd \<le> 3" using args by (simp add: space_args_ok_def)
  have p: "0 \<le> at ?p i" "at ?p i < at ps i" if "i < nd" for i
    using rank_idx_ok(2)[OF args r] that by (auto simp: grid_point_def in_box_def)
  have mine: "array_get (map (\<lambda>r. rank_idx nd ps (int r)) [0..<nat ?np]) r = Inr ?p"
    using r array_get_map[of r "nat ?np" "\<lambda>r. rank_idx nd ps (int r)"] by simp
  have off: "array_get (at offs i) (at ?p i) = Inr (proc_off gsz ps ?p i)"
    "array_get (at parts i) (at ?p i) = Inr (proc_part gsz ps ?p i)" if "i < nd" for i
    using pp(2) that p[OF that] by (simp_all add: array_get_map proc_off_def proc_part_def)
  obtain mo ms where o: "foldE (\<lambda>i (a, b). bindE (bindE (array_get (at offs i) (at ?p i)) (\<lambda>x.
        bindE (array_get (at parts i) (at ?p i)) (\<lambda>y. Inr (x, y)))) (\<lambda>(x, y). Inr (upd a i x, upd b i y)))
      [0..<nd] (IntegerArray0, IntegerArray0) = Inr (mo, ms)"
    "\<forall>i < 3. at mo i = (if i < nd then proc_off gsz ps ?p i else 0)"
    "\<forall>i < 3. at ms i = (if i < nd then proc_part gsz ps ?p i else 0)"
    using foldE_upd2[OF nd, of "\<lambda>i. bindE (array_get (at offs i) (at ?p i)) (\<lambda>x.
        bindE (array_get (at parts i) (at ?p i)) (\<lambda>y. Inr (x, y)))" "proc_off gsz ps ?p" "proc_part gsz ps ?p"
        IntegerArray0 IntegerArray0] off by auto
  obtain fw bw where nb: "foldE (\<lambda>i (a, b). bindE (bindE (neighbor_fw nd ps ?p i) (\<lambda>x.
        bindE (neighbor_bw nd ps ?p i) (\<lambda>y. Inr (x, y)))) (\<lambda>(x, y). Inr (upd a i x, upd b i y)))
      [0..<nd] (IntegerArray0, IntegerArray0) = Inr (fw, bw)"
    "\<forall>i < 3. at fw i = (if i < nd then lin nd (neighbor_idx ps ?p i 1) ps else 0)"
    "\<forall>i < 3. at bw i = (if i < nd then lin nd (neighbor_idx ps ?p i (- 1)) ps else 0)"
    using foldE_upd2[OF nd, of "\<lambda>i. bindE (neighbor_fw nd ps ?p i) (\<lambda>x.
        bindE (neighbor_bw nd ps ?p i) (\<lambda>y. Inr (x, y)))" "\<lambda>i. lin nd (neighbor_idx ps ?p i 1) ps"
        "\<lambda>i. lin nd (neighbor_idx ps ?p i (- 1)) ps" IntegerArray0 IntegerArray0] neighbor_ok p by auto
  note eqs = pp(1) mine o(1)[unfolded bindE_assoc bindE_Inr case_prod_conv]
    nb(1)[unfolded bindE_assoc bindE_Inr case_prod_conv]
  show ?thesis
    using args r nd pp(2) o(2,3) nb(2,3)
    by (simp add: GridSpaceMPI_new_def eqs Let_def space_ok_def)
qed

subsection \<open>The local part of a grid\<close>

lemma PartitionGrid_at:
  assumes "nd \<le> 3" and lo: "lo = fst (PartitionGrid gs nd sz go d)" and ls: "ls = snd (PartitionGrid gs nd sz go d)"
  shows "i < nd \<Longrightarrow> at lo i = max (at (gs_my_offset gs) i - at go i) 0"
    and "i < nd \<Longrightarrow> at ls i = max (min (at go i + at sz i) (at (gs_my_offset gs) i + at (gs_my_size gs) i)
      - max (at (gs_my_offset gs) i) (at go i)) 0"
    and "nd \<le> i \<Longrightarrow> i < 3 \<Longrightarrow> at lo i = at (fst d) i \<and> at ls i = at (snd d) i"
proof -
  have "k \<le> 3 \<Longrightarrow> \<forall>i < 3.
      at (fst (PartitionGrid gs k sz go d)) i =
        (if i < k then max (at (gs_my_offset gs) i - at go i) 0 else at (fst d) i) \<and>
      at (snd (PartitionGrid gs k sz go d)) i =
        (if i < k then max (min (at go i + at sz i) (at (gs_my_offset gs) i + at (gs_my_size gs) i)
          - max (at (gs_my_offset gs) i) (at go i)) 0 else at (snd d) i)" for k
  proof (induction k)
    case (Suc k)
    have "PartitionGrid gs (Suc k) sz go d =
      (upd (fst (PartitionGrid gs k sz go d)) k (max (at (gs_my_offset gs) k - at go k) 0),
       upd (snd (PartitionGrid gs k sz go d)) k (max (min (at go k + at sz k)
         (at (gs_my_offset gs) k + at (gs_my_size gs) k) - max (at (gs_my_offset gs) k) (at go k)) 0))"
      by (simp add: PartitionGrid_def Let_def case_prod_beta)
    with Suc show ?case by (auto simp: at_upd less_Suc_eq)
  qed (simp add: PartitionGrid_def)
  from this[of nd] assms
  show "i < nd \<Longrightarrow> at lo i = max (at (gs_my_offset gs) i - at go i) 0"
    and "i < nd \<Longrightarrow> at ls i = max (min (at go i + at sz i) (at (gs_my_offset gs) i + at (gs_my_size gs) i)
      - max (at (gs_my_offset gs) i) (at go i)) 0"
    and "nd \<le> i \<Longrightarrow> i < 3 \<Longrightarrow> at lo i = at (fst d) i \<and> at ls i = at (snd d) i"
    by auto
qed

text \<open>
  A point of a grid is in the local part of a process exactly when the process owns the
  point of the global space it lies at.
\<close>

lemma local_part_iff:
  assumes "nd \<le> 3" "lo = fst (PartitionGrid gs nd sz go d)" "ls = snd (PartitionGrid gs nd sz go d)" "i < nd"
    and "0 \<le> x" "x < at sz i"
  shows "at lo i \<le> x \<and> x < at lo i + at ls i \<longleftrightarrow>
    at (gs_my_offset gs) i \<le> x + at go i \<and> x + at go i < at (gs_my_offset gs) i + at (gs_my_size gs) i"
  using PartitionGrid_at(1,2)[OF assms(1-4)] assms(5,6) by auto

lemma local_part_inside:
  assumes "nd \<le> 3" "lo = fst (PartitionGrid gs nd sz go d)" "ls = snd (PartitionGrid gs nd sz go d)" "i < nd"
    and "0 < at ls i"
  shows "0 \<le> at lo i \<and> at lo i + at ls i \<le> at sz i"
  using PartitionGrid_at(1,2)[OF assms(1-4)] assms(5) by (simp add: max_def min_def split: if_splits)

lemma local_part_nonneg:
  assumes "nd \<le> 3" "lo = fst (PartitionGrid gs nd sz go d)" "ls = snd (PartitionGrid gs nd sz go d)" "i < nd"
  shows "0 \<le> at ls i" "0 \<le> at lo i"
  using PartitionGrid_at(1,2)[OF assms] by auto

text \<open>The owner of a point of the global space, as an index.\<close>

definition owner_idx :: "nat \<Rightarrow> idx \<Rightarrow> idx \<Rightarrow> idx \<Rightarrow> idx \<Rightarrow> bool" where
  "owner_idx nd gsz ps x p \<longleftrightarrow> grid_point nd p ps \<and>
     (\<forall>i < nd. proc_off gsz ps p i \<le> at x i \<and> at x i < proc_off gsz ps p i + proc_part gsz ps p i)"

lemma ex_idx:
  assumes "nd \<le> 3"
  shows "\<exists>p :: idx. (\<forall>i < nd. at p i = f i) \<and> (\<forall>i < 3. nd \<le> i \<longrightarrow> at p i = 0)"
proof -
  let ?g = "\<lambda>i. if i < nd then f i else 0" and ?p = "\<lambda>i. at (Arr3 (if 0 < nd then f 0 else 0)
    (if 1 < nd then f 1 else 0) (if 2 < nd then f 2 else 0)) i"
  have p: "?p i = ?g i" if "i < 3" for i
  proof -
    consider "i = 0" | "i = 1" | "i = 2" using less3_cases[OF \<open>i < 3\<close>] by blast
    then show ?thesis by cases simp_all
  qed
  show ?thesis
  proof (intro exI conjI allI impI)
    fix i assume "i < nd"
    then show "?p i = f i" using p[of i] assms by simp
  next
    fix i :: nat assume "i < 3" "nd \<le> i"
    then show "?p i = 0" using p[of i] by simp
  qed
qed

lemma owner_ex1:
  assumes args: "space_args_ok nd gsz ps" and x: "in_box nd x gsz"
  shows "\<exists>!p. owner_idx nd gsz ps x p"
proof -
  have bp: "block_partition (nat (at ps i)) (at gsz i) (part_off (nat (at ps i)) (at gsz i))
      (part_size (nat (at ps i)) (at gsz i))" if "i < nd" for i
    using args that by (intro block_partition_parts) (auto simp: space_args_ok_def)
  have one: "\<exists>!j. j < nat (at ps i) \<and> part_off (nat (at ps i)) (at gsz i) j \<le> at x i \<and>
      at x i < part_off (nat (at ps i)) (at gsz i) j + part_size (nat (at ps i)) (at gsz i) j" if "i < nd" for i
    using x that by (intro block_partition.part_ex1[OF bp[OF that]]) (auto simp: in_box_def)
  obtain j where j: "\<And>i. i < nd \<Longrightarrow> j i < nat (at ps i) \<and> part_off (nat (at ps i)) (at gsz i) (j i) \<le> at x i \<and>
      at x i < part_off (nat (at ps i)) (at gsz i) (j i) + part_size (nat (at ps i)) (at gsz i) (j i)"
    using one by metis
  obtain p :: idx where p: "\<forall>i < nd. at p i = int (j i)" "\<forall>i < 3. nd \<le> i \<longrightarrow> at p i = 0"
    using ex_idx[of nd "\<lambda>i. int (j i)"] args by (auto simp: space_args_ok_def)
  show ?thesis
  proof (rule ex1I[of _ p])
    show "owner_idx nd gsz ps x p"
      using p j by (auto simp: owner_idx_def grid_point_def in_box_def proc_off_def proc_part_def zless_nat_eq_int_zless)
    fix q assume q: "owner_idx nd gsz ps x q"
    show "q = p"
    proof (rule arr3_eqI)
      fix i :: nat assume "i < 3"
      show "at q i = at p i"
      proof (cases "i < nd")
        case False
        then show ?thesis using q p(2) \<open>i < 3\<close> by (simp add: owner_idx_def grid_point_def)
      next
        case True
        then have qi: "0 \<le> at q i" "at q i < at ps i" using q by (auto simp: owner_idx_def grid_point_def in_box_def)
        then have "nat (at q i) = j i"
          using block_partition.part_unique[OF bp[OF True], of "nat (at q i)" "j i" "at x i"] j[OF True] q True
          by (auto simp: owner_idx_def proc_off_def proc_part_def)
        then show ?thesis using p(1) True qi by auto
      qed
    qed
  qed
qed

subsection \<open>Properties\<close>

text \<open>The local offset and size that process \<open>r\<close> computes for a grid.\<close>

definition local_box :: "nat \<Rightarrow> idx \<Rightarrow> idx \<Rightarrow> idx \<Rightarrow> idx \<Rightarrow> int \<Rightarrow> idx \<times> idx" where
  "local_box nd gsz ps sz go r =
     (case (GridSpaceMPI_new nd gsz nd ps r :: fault + unit gridspace_mpi) of
        Inl _ \<Rightarrow> (IntegerArray0, IntegerArray0)
      | Inr gs \<Rightarrow> PartitionGrid gs nd sz go (IntegerArray0, IntegerArray0))"

lemma local_box_contains:
  assumes args: "space_args_ok nd gsz ps" and q: "in_box nd q sz"
    and r: "0 \<le> r" "r < accumulate ps nd"
  shows "in_subbox nd (fst (local_box nd gsz ps sz go r)) (snd (local_box nd gsz ps sz go r)) q \<longleftrightarrow>
    owner_idx nd gsz ps (arr_plus q go) (rank_idx nd ps r)"
proof -
  obtain gs :: "unit gridspace_mpi" where gs: "GridSpaceMPI_new nd gsz nd ps r = Inr gs" "space_ok gs"
      "gs_num_dims gs = nd" "gs_global_size gs = gsz" "gs_proc_size gs = ps" "gs_my_rank gs = r"
    using GridSpaceMPI_new_ok[OF args r] by blast
  have my: "at (gs_my_offset gs) i = proc_off gsz ps (rank_idx nd ps r) i"
    "at (gs_my_size gs) i = proc_part gsz ps (rank_idx nd ps r) i" if "i < nd" for i
    using gs(2-6) that by (auto simp: space_ok_def Let_def)
  have nd: "nd \<le> 3" using args by (simp add: space_args_ok_def)
  show ?thesis
    using local_part_iff[OF nd refl refl, where gs = gs and sz = sz and go = go
        and d = "(IntegerArray0, IntegerArray0)"] q my nd
      rank_idx_ok(2)[OF args r]
    by (auto simp: in_subbox_def owner_idx_def local_box_def gs(1) in_box_def at_arr_plus)
qed

text \<open>A point of a grid lies in the local part of one process, that of its owner's rank.\<close>

lemma local_box_owner:
  assumes "space_args_ok nd gsz ps" and "\<forall>i < nd. 0 \<le> at go i \<and> at go i + at sz i \<le> at gsz i"
    and "in_box nd q sz"
  shows "\<exists>p. grid_point nd p ps \<and> owner_idx nd gsz ps (arr_plus q go) p \<and>
    (\<forall>r. 0 \<le> r \<longrightarrow> r < accumulate ps nd \<longrightarrow>
      in_subbox nd (fst (local_box nd gsz ps sz go r)) (snd (local_box nd gsz ps sz go r)) q = (r = lin nd p ps))"
proof -
  have nd: "nd \<le> 3" using assms(1) by (simp add: space_args_ok_def)
  have "in_box nd (arr_plus q go) gsz"
    unfolding in_box_def
  proof (intro allI impI)
    fix i assume i: "i < nd"
    then have g: "0 \<le> at go i" "at go i + at sz i \<le> at gsz i" using assms(2) by blast+
    have q: "0 \<le> at q i" "at q i < at sz i" using assms(3) i unfolding in_box_def by blast+
    have "at (arr_plus q go) i = at q i + at go i" using i nd by (intro at_arr_plus) simp
    then show "0 \<le> at (arr_plus q go) i \<and> at (arr_plus q go) i < at gsz i"
      using g q by simp
  qed
  from owner_ex1[OF assms(1) this] obtain p where
    p: "owner_idx nd gsz ps (arr_plus q go) p" "\<And>p'. owner_idx nd gsz ps (arr_plus q go) p' \<Longrightarrow> p' = p" by blast
  have gp: "grid_point nd p ps" using p(1) by (simp add: owner_idx_def)
  have "in_subbox nd (fst (local_box nd gsz ps sz go r)) (snd (local_box nd gsz ps sz go r)) q = (r = lin nd p ps)"
    if r: "0 \<le> r" "r < accumulate ps nd" for r
    using local_box_contains[OF assms(1,3) r, of go] p rank_idx_lin[OF assms(1) gp] rank_idx_ok(3)[OF assms(1) r]
    by metis
  then show ?thesis using p(1) gp by blast
qed

text \<open>C7: The local parts of a grid tile it: for every grid inside the global space, every point
  of the grid lies in the local part of exactly one process.\<close>

theorem processes_tile_grid:
  assumes "space_args_ok nd gsz ps" and "\<forall>i < nd. 0 \<le> at go i \<and> at go i + at sz i \<le> at gsz i"
    and "in_box nd q sz"
  shows "\<exists>!r. 0 \<le> r \<and> r < accumulate ps nd \<and>
    in_subbox nd (fst (local_box nd gsz ps sz go r)) (snd (local_box nd gsz ps sz go r)) q"
proof -
  obtain p where p: "grid_point nd p ps" "\<forall>r. 0 \<le> r \<longrightarrow> r < accumulate ps nd \<longrightarrow>
      in_subbox nd (fst (local_box nd gsz ps sz go r)) (snd (local_box nd gsz ps sz go r)) q = (r = lin nd p ps)"
    using local_box_owner[OF assms] by blast
  have "0 \<le> lin nd p ps" "lin nd p ps < accumulate ps nd"
    using p(1) lin_bounds[of nd p ps] by (auto simp: grid_point_def)
  then show ?thesis using p(2) by (intro ex1I[of _ "lin nd p ps"]) auto
qed

theorem processes_tile_grid_witness:
  "\<exists>!r. 0 \<le> r \<and> r < accumulate (Arr3 2 3 0) 2 \<and>
    in_subbox 2 (fst (local_box 2 (Arr3 7 8 0) (Arr3 2 3 0) (Arr3 5 6 0) (Arr3 1 2 0) r))
      (snd (local_box 2 (Arr3 7 8 0) (Arr3 2 3 0) (Arr3 5 6 0) (Arr3 1 2 0) r)) (Arr3 4 3 0)"
  by (rule processes_tile_grid) (simp_all add: space_args_ok_def in_box_def all_less_num)

text \<open>C8: Ranks and process indices correspond: in the space every process builds, the rank of
  the index stored for rank \<open>r\<close> is \<open>r\<close>, the index of the own rank is \<open>my_idx\<close>, and the
  index of the rank of any valid process index is that index.\<close>

theorem process_rank_roundtrip:
  assumes "space_args_ok nd gsz ps" and "0 \<le> r" and "r < accumulate ps nd"
  shows "\<exists>gs :: unit gridspace_mpi. GridSpaceMPI_new nd gsz nd ps r = Inr gs \<and>
    int (length (gs_proc_indices gs)) = accumulate ps nd \<and>
    GetProcessRank gs (gs_my_idx gs) = r \<and>
    (\<forall>k < length (gs_proc_indices gs). GetProcessRank gs (gs_proc_indices gs ! k) = int k) \<and>
    (\<forall>p. grid_point nd p ps \<longrightarrow> gs_proc_indices gs ! nat (GetProcessRank gs p) = p)"
proof -
  obtain gs :: "unit gridspace_mpi" where gs: "GridSpaceMPI_new nd gsz nd ps r = Inr gs" "space_ok gs"
      "gs_num_dims gs = nd" "gs_global_size gs = gsz" "gs_proc_size gs = ps" "gs_my_rank gs = r"
    using GridSpaceMPI_new_ok[OF assms] by blast
  have pi: "gs_proc_indices gs = map (\<lambda>r. rank_idx nd ps (int r)) [0..<nat (accumulate ps nd)]"
    "gs_my_idx gs = rank_idx nd ps r"
    using gs by (auto simp: space_ok_def Let_def)
  have rank: "GetProcessRank gs p = lin nd p ps" for p
    by (simp add: GetProcessRank_def GetProcessRank_of_lin gs)
  have "gs_proc_indices gs ! nat (GetProcessRank gs p) = p" if "grid_point nd p ps" for p
    using that lin_bounds[of nd p ps] rank_idx_lin[OF assms(1) that]
    by (auto simp: rank pi grid_point_def nat_less_iff)
  then show ?thesis
    using gs(1) rank_idx_ok(3)[OF assms(1)] assms(2,3)
    by (intro exI[of _ gs]) (auto simp: rank pi)
qed

theorem process_rank_roundtrip_witness:
  "\<exists>gs :: unit gridspace_mpi. GridSpaceMPI_new 3 (Arr3 8 8 8) 3 (Arr3 2 2 2) 5 = Inr gs \<and>
    GetProcessRank gs (gs_my_idx gs) = 5"
  using process_rank_roundtrip[of 3 "Arr3 8 8 8" "Arr3 2 2 2" 5]
  by (auto simp: space_args_ok_def all_less_num accumulate_num)

text \<open>C9: The partition is balanced and complete: in each dimension the parts differ by at most
  one, they add up to the size of the space, and every offset is the sum of the parts
  before it; \<open>min_partition_\<close> is the smallest part, as long as an index can hold it.\<close>

theorem partition_balanced:
  assumes "space_args_ok nd gsz ps" and "0 \<le> r" and "r < accumulate ps nd" and "i < nd"
    and "at gsz i \<le> PSINDEX_MAX"
  shows "\<exists>gs :: unit gridspace_mpi. GridSpaceMPI_new nd gsz nd ps r = Inr gs \<and>
    sum_list (at (gs_partitions gs) i) = at gsz i \<and>
    int (length (at (gs_partitions gs) i)) = at ps i \<and>
    (\<forall>x \<in> set (at (gs_partitions gs) i). \<forall>y \<in> set (at (gs_partitions gs) i). \<bar>x - y\<bar> \<le> 1) \<and>
    (\<forall>j < length (at (gs_partitions gs) i).
       at (gs_offsets gs) i ! j = sum_list (take j (at (gs_partitions gs) i))) \<and>
    at (gs_min_partition gs) i = Min (set (at (gs_partitions gs) i))"
proof -
  obtain gs :: "unit gridspace_mpi" where gs: "GridSpaceMPI_new nd gsz nd ps r = Inr gs" "space_ok gs"
      "gs_num_dims gs = nd" "gs_global_size gs = gsz" "gs_proc_size gs = ps" "gs_my_rank gs = r"
    using GridSpaceMPI_new_ok[OF assms(1-3)] by blast
  let ?n = "nat (at ps i)" and ?s = "at gsz i"
  have pos: "0 < ?n" "0 \<le> ?s" using assms(1,4) by (auto simp: space_args_ok_def)
  note bp = block_partition_parts[OF pos]
  have parts: "at (gs_partitions gs) i = map (part_size ?n ?s) [0..<?n]"
    "at (gs_offsets gs) i = map (part_off ?n ?s) [0..<?n]"
    "at (gs_min_partition gs) i = min PSINDEX_MAX (Min (part_size ?n ?s ` {..<?n}))"
    using gs assms(4) by (auto simp: space_ok_def Let_def)
  have sum: "sum_list (map (part_size ?n ?s) [0..<j]) = part_off ?n ?s j" if "j \<le> ?n" for j
    using block_partition.sum_parts[OF bp that] by (simp add: sum_list_sum_nth atLeast0LessThan)
  have "Min (part_size ?n ?s ` {..<?n}) \<le> part_size ?n ?s 0" using pos by (intro Min_le) auto
  also have "\<dots> \<le> ?s" using block_partition.part_end[OF bp pos(1)] block_partition.off_nonneg[OF bp, of 0] by simp
  finally have m: "at (gs_min_partition gs) i = Min (part_size ?n ?s ` {..<?n})"
    using parts(3) assms(5) by simp
  show ?thesis
    using gs(1) parts m sum block_partition.off_n[OF bp] pos part_size_balanced
    by (intro exI[of _ gs]) (auto simp: take_map lessThan_atLeast0)
qed

theorem partition_balanced_witness:
  "\<exists>gs :: unit gridspace_mpi. GridSpaceMPI_new 1 (Arr3 11 0 0) 1 (Arr3 4 0 0) 2 = Inr gs \<and>
    sum_list (at (gs_partitions gs) 0) = 11"
  using partition_balanced[of 1 "Arr3 11 0 0" "Arr3 4 0 0" 2 0]
  by (auto simp: space_args_ok_def all_less_num accumulate_num PSINDEX_MAX_def)

lemma neighbor_idx_point:
  assumes "space_args_ok nd gsz ps" "grid_point nd p ps" "i < nd"
  shows "grid_point nd (neighbor_idx ps p i d) ps"
  using assms by (auto simp: space_args_ok_def grid_point_def in_box_def neighbor_idx_def at_upd)

lemma neighbor_idx_inverse:
  assumes "nd \<le> 3" "grid_point nd p ps" "i < nd"
  shows "neighbor_idx ps (neighbor_idx ps p i d) i (- d) = p"
proof (rule arr3_eqI)
  fix j :: nat assume j: "j < 3"
  have "0 \<le> at p i" "at p i < at ps i" using assms(2,3) by (auto simp: grid_point_def in_box_def)
  moreover have "((at p i + d) mod at ps i - d) mod at ps i = at p i mod at ps i"
    by (metis add_diff_cancel_right' mod_diff_left_eq)
  ultimately show "at (neighbor_idx ps (neighbor_idx ps p i d) i (- d)) j = at p j"
    using assms(1,3) j by (simp add: neighbor_idx_def at_upd)
qed

lemma space_my_idx:
  assumes "space_ok gs"
  shows "grid_point (gs_num_dims gs) (gs_my_idx gs) (gs_proc_size gs)"
    "lin (gs_num_dims gs) (gs_my_idx gs) (gs_proc_size gs) = gs_my_rank gs"
  using assms rank_idx_ok(2,3)[of "gs_num_dims gs" "gs_global_size gs" "gs_proc_size gs" "gs_my_rank gs"]
  by (auto simp: space_ok_def Let_def)

lemma space_dims: "space_ok gs \<Longrightarrow> space_args_ok (gs_num_dims gs) (gs_global_size gs) (gs_proc_size gs)"
  by (auto simp: space_ok_def Let_def)

text \<open>C10: Neighbours agree with each other: in every dimension, the backward neighbour that the
  forward neighbour of a process computes is the process itself, and unless the neighbour
  relation wraps around, the forward neighbour's part starts where the own part ends.\<close>

theorem neighbors_consistent:
  assumes "space_args_ok nd gsz ps" and "0 \<le> r" and "r < accumulate ps nd" and "i < nd"
  shows "\<exists>(gs :: unit gridspace_mpi) (gs' :: unit gridspace_mpi). GridSpaceMPI_new nd gsz nd ps r = Inr gs \<and>
    GridSpaceMPI_new nd gsz nd ps (at (gs_fw_neighbors gs) i) = Inr gs' \<and>
    at (gs_bw_neighbors gs') i = r \<and>
    (if at (gs_my_idx gs) i + 1 < at ps i
     then at (gs_my_offset gs') i = at (gs_my_offset gs) i + at (gs_my_size gs) i
     else at (gs_my_offset gs') i = 0)"
proof -
  obtain gs :: "unit gridspace_mpi" where gs: "GridSpaceMPI_new nd gsz nd ps r = Inr gs" "space_ok gs"
      "gs_num_dims gs = nd" "gs_global_size gs = gsz" "gs_proc_size gs = ps" "gs_my_rank gs = r"
    using GridSpaceMPI_new_ok[OF assms(1-3)] by blast
  let ?p = "gs_my_idx gs" and ?q = "neighbor_idx ps (gs_my_idx gs) i 1"
  have p: "grid_point nd ?p ps" "lin nd ?p ps = r" using space_my_idx[OF gs(2)] gs by auto
  note q = neighbor_idx_point[OF assms(1) p(1) assms(4), of 1]
  have fw: "at (gs_fw_neighbors gs) i = lin nd ?q ps"
    using gs assms(4) by (auto simp: space_ok_def Let_def)
  have f: "0 \<le> lin nd ?q ps" "lin nd ?q ps < accumulate ps nd"
    using q lin_bounds[of nd ?q ps] by (auto simp: grid_point_def)
  obtain gs' :: "unit gridspace_mpi" where gs': "GridSpaceMPI_new nd gsz nd ps (lin nd ?q ps) = Inr gs'"
      "space_ok gs'" "gs_num_dims gs' = nd" "gs_global_size gs' = gsz" "gs_proc_size gs' = ps"
      "gs_my_rank gs' = lin nd ?q ps"
    using GridSpaceMPI_new_ok[OF assms(1) f] by blast
  have q': "gs_my_idx gs' = ?q"
    using gs' rank_idx_lin[OF assms(1) q] by (auto simp: space_ok_def Let_def)
  have nd: "nd \<le> 3" "0 < at ps i" "0 \<le> at gsz i" using assms(1,4) by (auto simp: space_args_ok_def)
  have "at (gs_bw_neighbors gs') i = r"
    using gs' assms(4) q' neighbor_idx_inverse[OF nd(1) p(1) assms(4), of 1] p(2)
    by (auto simp: space_ok_def Let_def)
  moreover have my: "at (gs_my_offset gs') i = proc_off gsz ps ?q i"
    "at (gs_my_offset gs) i = proc_off gsz ps ?p i" "at (gs_my_size gs) i = proc_part gsz ps ?p i"
    using gs gs' assms(4) q' by (auto simp: space_ok_def Let_def)
  have pi: "0 \<le> at ?p i" "at ?p i < at ps i" using p(1) assms(4) by (auto simp: grid_point_def in_box_def)
  have qi: "at ?q i = (if at ?p i + 1 < at ps i then at ?p i + 1 else 0)"
  proof (cases "at ?p i + 1 < at ps i")
    case False
    then have "at ?p i + 1 = at ps i" using pi by simp
    then show ?thesis using nd assms(4) by (simp add: neighbor_idx_def at_upd)
  qed (use nd assms(4) pi in \<open>simp add: neighbor_idx_def at_upd\<close>)
  have "block_partition (nat (at ps i)) (at gsz i) (part_off (nat (at ps i)) (at gsz i))
      (part_size (nat (at ps i)) (at gsz i))"
    using nd by (intro block_partition_parts) auto
  from block_partition.off_Suc[OF this, of "nat (at ?p i)"] block_partition.off_0[OF this]
  have "if at ?p i + 1 < at ps i
     then at (gs_my_offset gs') i = at (gs_my_offset gs) i + at (gs_my_size gs) i
     else at (gs_my_offset gs') i = 0"
    using my qi pi by (auto simp: proc_off_def proc_part_def nat_add_distrib)
  ultimately show ?thesis using gs(1) gs'(1)[folded fw] by blast
qed

theorem neighbors_consistent_witness:
  "\<exists>(gs :: unit gridspace_mpi) (gs' :: unit gridspace_mpi). GridSpaceMPI_new 1 (Arr3 10 0 0) 1 (Arr3 4 0 0) 3 = Inr gs \<and>
    GridSpaceMPI_new 1 (Arr3 10 0 0) 1 (Arr3 4 0 0) (at (gs_fw_neighbors gs) 0) = Inr gs' \<and>
    at (gs_bw_neighbors gs') 0 = 3"
  using neighbors_consistent[of 1 "Arr3 10 0 0" "Arr3 4 0 0" 3 0]
  by (auto simp: space_args_ok_def all_less_num accumulate_num)

end
