(* ===== verification/Grid_MPI.thy ===== *)
theory Grid_MPI imports Space_Partition begin

text \<open>
  The class \<open>GridMPI\<close> (\<open>runtime/grid_mpi.h\<close>, \<open>runtime/grid_mpi.cc\<close>): the local part of
  a distributed grid with its halo buffers and its remote grid. An array of pointers made
  by \<open>new char*[n]\<close> is a list, empty when it is not allocated.
\<close>

subsection \<open>Data\<close>

record gridmpi = grid +
  gm_empty :: bool
  gm_global_offset :: idx
  gm_local_offset :: idx
  gm_local_size :: idx
  gm_halo_has_diagonal :: bool
  gm_halo_fw_width :: "nat arr3"
  gm_halo_bw_width :: "nat arr3"
  gm_halo_self_fw :: "ptr list"
  gm_halo_self_bw :: "ptr list"
  gm_halo_peer_fw :: "ptr list"
  gm_halo_peer_bw :: "ptr list"
  gm_halo_self_fw_buf_size :: "nat arr3"
  gm_halo_self_bw_buf_size :: "nat arr3"
  gm_halo_peer_fw_buf_size :: "nat arr3"
  gm_halo_peer_bw_buf_size :: "nat arr3"
  gm_halo_fw_size :: "idx arr3"
  gm_halo_bw_size :: "idx arr3"

text \<open>
  A remote grid is a \<open>GridMPI\<close> object owned by the grid it was loaded for; its own
  \<open>remote_grid_\<close> stays \<open>NULL\<close>. So the fields for the remote grid are an extension that
  the grids of a grid space have and remote grids do not.
\<close>

record mgrid = gridmpi +
  gm_remote_grid :: "gridmpi option"
  gm_remote_grid_active :: bool

definition to_mgrid :: "gridmpi \<Rightarrow> mgrid" where
  "to_mgrid g = gridmpi.extend g \<lparr>gm_remote_grid = None, gm_remote_grid_active = False\<rparr>"

subsection \<open>Construction and buffers\<close>

definition GridMPI_new ::
    "int \<Rightarrow> nat \<Rightarrow> nat \<Rightarrow> idx \<Rightarrow> bool \<Rightarrow> idx \<Rightarrow> idx \<Rightarrow> idx \<Rightarrow> nat \<Rightarrow> gridmpi" where
  "GridMPI_new type e n sz double_buffering global_offset local_offset local_size attr =
     (let empty = (accumulate local_size n = 0);
          halos = (if empty then [] else replicate n Null)
      in grid.extend (Grid_new type e n sz double_buffering attr)
        \<lparr>gm_empty = empty, gm_global_offset = global_offset, gm_local_offset = local_offset,
         gm_local_size = local_size, gm_halo_has_diagonal = False,
         gm_halo_fw_width = IntegerArray0, gm_halo_bw_width = IntegerArray0,
         gm_halo_self_fw = halos, gm_halo_self_bw = halos,
         gm_halo_peer_fw = halos, gm_halo_peer_bw = halos,
         gm_halo_self_fw_buf_size = IntegerArray0, gm_halo_self_bw_buf_size = IntegerArray0,
         gm_halo_peer_fw_buf_size = IntegerArray0, gm_halo_peer_bw_buf_size = IntegerArray0,
         gm_halo_fw_size = arr_Set IntegerArray0, gm_halo_bw_size = arr_Set IntegerArray0\<rparr>)"

definition new_local_buffer :: "'g gridmpi_scheme \<Rightarrow> world \<Rightarrow> fault + (nat \<times> world)" where
  "new_local_buffer g st =
     (let (k, st) = new_buffer (BufferHost_new (grid_num_dims g) (grid_elm_size g)) st
      in bindE (with_buffer (Buffer_Allocate1 BufferHost_GetChunk (gm_local_size g)) (Some k) st)
           (\<lambda>st. Inr (k, st)))"

definition GridMPI_InitBuffer :: "'g gridmpi_scheme \<Rightarrow> world \<Rightarrow> fault + ('g gridmpi_scheme \<times> world)" where
  "GridMPI_InitBuffer g st =
     bindE (new_local_buffer g st) (\<lambda>(k0, st).
       bindE (if grid_double g then new_local_buffer g st else Inr (k0, st)) (\<lambda>(k1, st).
         bindE (buffer_ptr (Some k0) st) (\<lambda>d0.
           bindE (buffer_ptr (Some k1) st) (\<lambda>d1.
             Inr (g\<lparr>data_buffer0 := Some k0, data_buffer1 := Some k1, data0 := d0, data1 := d1\<rparr>, st)))))"

definition GridMPI_Create ::
    "int \<Rightarrow> nat \<Rightarrow> nat \<Rightarrow> idx \<Rightarrow> bool \<Rightarrow> idx \<Rightarrow> idx \<Rightarrow> idx \<Rightarrow> nat \<Rightarrow> world \<Rightarrow> fault + (gridmpi \<times> world)" where
  "GridMPI_Create type e n sz double_buffering global_offset local_offset local_size attr st =
     GridMPI_InitBuffer
       (GridMPI_new type e n sz double_buffering global_offset local_offset local_size attr) st"

definition FixupBufferPointers :: "'g gridmpi_scheme \<Rightarrow> world \<Rightarrow> fault + 'g gridmpi_scheme" where
  "FixupBufferPointers g st =
     bindE (buffer_ptr (data_buffer0 g) st) (\<lambda>d0.
       bindE (buffer_ptr (data_buffer1 g) st) (\<lambda>d1. Inr (g\<lparr>data0 := d0, data1 := d1\<rparr>)))"

definition GridMPI_Resize :: "idx \<Rightarrow> idx \<Rightarrow> 'g gridmpi_scheme \<Rightarrow> world \<Rightarrow> fault + ('g gridmpi_scheme \<times> world)" where
  "GridMPI_Resize local_offset local_size g st =
     bindE (assertE (\<not> grid_double g)) (\<lambda>_.
       bindE (with_buffer (Buffer_EnsureCapacity1 BufferHost_GetChunk local_size) (data_buffer0 g) st) (\<lambda>st.
         bindE (FixupBufferPointers (g\<lparr>gm_local_size := local_size, gm_local_offset := local_offset\<rparr>) st)
           (\<lambda>g. Inr (g, st))))"

text \<open>\<open>if (p && p[i]) FREE(p[i]);\<close>\<close>

definition free_slot :: "nat \<Rightarrow> ptr list \<Rightarrow> heap \<Rightarrow> fault + (ptr list \<times> heap)" where
  "free_slot i ps h =
     (if ps = [] then Inr (ps, h)
      else bindE (array_get ps (int i)) (\<lambda>p.
        if p = Null then Inr (ps, h) else bindE (free p h) (\<lambda>h. Inr (ps[i := Null], h))))"

definition free_halos :: "'g gridmpi_scheme \<Rightarrow> heap \<Rightarrow> fault + ('g gridmpi_scheme \<times> heap)" where
  "free_halos g h =
     foldE (\<lambda>i (g, h).
       bindE (free_slot i (gm_halo_self_fw g) h) (\<lambda>(a, h).
       bindE (free_slot i (gm_halo_self_bw g) h) (\<lambda>(b, h).
       bindE (free_slot i (gm_halo_peer_fw g) h) (\<lambda>(c, h).
       bindE (free_slot i (gm_halo_peer_bw g) h) (\<lambda>(d, h).
         Inr (g\<lparr>gm_halo_self_fw := a, gm_halo_self_bw := b, gm_halo_peer_fw := c,
                gm_halo_peer_bw := d\<rparr>, h))))))
     [0..<grid_num_dims g - 1] (g, h)"

text \<open>\<open>DeleteBuffers\<close>; \<open>del_remote\<close> deletes the remote grid, which a remote grid does not have.\<close>

definition GridMPI_DeleteBuffers ::
    "(world \<Rightarrow> fault + world) \<Rightarrow> 'g gridmpi_scheme \<Rightarrow> world \<Rightarrow> fault + ('g gridmpi_scheme \<times> world)" where
  "GridMPI_DeleteBuffers del_remote g st =
     (if gm_empty g then Inr (g, st)
      else bindE (free_halos g (hp st)) (\<lambda>(g, h).
        bindE (del_remote (st\<lparr>hp := h\<rparr>)) (\<lambda>st.
          Grid_DeleteBuffers (g\<lparr>gm_halo_self_fw := [], gm_halo_self_bw := [],
            gm_halo_peer_fw := [], gm_halo_peer_bw := []\<rparr>) st)))"

text \<open>
  The destructors run \<open>GridMPI::DeleteBuffers\<close> and then, in \<open>~Grid\<close>, \<open>Grid::DeleteBuffers\<close>.
\<close>

definition remote_delete :: "gridmpi option \<Rightarrow> world \<Rightarrow> fault + world" where
  "remote_delete r st =
     (case r of
        None \<Rightarrow> Inr st
      | Some g \<Rightarrow> bindE (GridMPI_DeleteBuffers Inr g st) (\<lambda>(g, st). Grid_delete g st))"

definition GridMPI_delete :: "mgrid \<Rightarrow> world \<Rightarrow> fault + world" where
  "GridMPI_delete g st =
     bindE (GridMPI_DeleteBuffers (remote_delete (gm_remote_grid g)) g st) (\<lambda>(g, st). Grid_delete g st)"

definition EnsureRemoteGrid :: "idx \<Rightarrow> idx \<Rightarrow> mgrid \<Rightarrow> world \<Rightarrow> fault + (mgrid \<times> world)" where
  "EnsureRemoteGrid local_offset local_size g st =
     (case gm_remote_grid g of
        None \<Rightarrow>
          bindE (GridMPI_Create (grid_type g) (grid_elm_size g) (grid_num_dims g) (grid_size g) False
                   (gm_global_offset g) local_offset local_size 0 st)
            (\<lambda>(r, st). Inr (g\<lparr>gm_remote_grid := Some r\<rparr>, st))
      | Some r \<Rightarrow>
          bindE (GridMPI_Resize local_offset local_size r st)
            (\<lambda>(r, st). Inr (g\<lparr>gm_remote_grid := Some r\<rparr>, st)))"

subsection \<open>Halo sizes\<close>

definition halo_edge :: "'g gridmpi_scheme \<Rightarrow> nat \<Rightarrow> nat" where
  "halo_edge g i = to_unsigned (int (at (gm_halo_fw_width g) i) + int (at (gm_halo_bw_width g) i))"

definition CalcHaloSize :: "'g gridmpi_scheme \<Rightarrow> nat \<Rightarrow> nat \<Rightarrow> bool \<Rightarrow> nat" where
  "CalcHaloSize g dim width diagonal =
     fold (\<lambda>i s.
       if i = dim then size_mult s width
       else let edge_width = to_size (at (gm_local_size g) i)
            in size_mult s (if diagonal \<and> dim < i then size_add edge_width (halo_edge g i) else edge_width))
     [0..<grid_num_dims g] 1"

definition SetHaloSize :: "nat \<Rightarrow> bool \<Rightarrow> nat \<Rightarrow> bool \<Rightarrow> 'g gridmpi_scheme \<Rightarrow> 'g gridmpi_scheme" where
  "SetHaloSize dim fw width diagonal g =
     (let s = fold (\<lambda>i s.
            if i = dim then upd s i (int_of_unsigned width)
            else upd s i
              (if diagonal \<and> dim < i
               then int_of_unsigned (to_unsigned (at (gm_local_size g) i + int (halo_edge g i)))
               else at (gm_local_size g) i))
          [0..<grid_num_dims g] IntegerArray0
      in if fw then g\<lparr>gm_halo_fw_size := upd (gm_halo_fw_size g) dim s\<rparr>
         else g\<lparr>gm_halo_bw_size := upd (gm_halo_bw_size g) dim s\<rparr>)"

text \<open>\<open>GetHaloBuf\<close> allocates a larger block when it needs one; the result of \<open>malloc\<close> is not checked.\<close>

definition GetHaloBuf ::
    "nat \<Rightarrow> nat \<Rightarrow> bool \<Rightarrow> bool \<Rightarrow> 'g gridmpi_scheme \<Rightarrow> heap \<Rightarrow> fault + (ptr \<times> 'g gridmpi_scheme \<times> heap)" where
  "GetHaloBuf dim width fw diagonal g h =
     (let halo_bytes = size_mult (CalcHaloSize g dim width diagonal) (grid_elm_size g)
      in if fw
         then bindE (array_get (gm_halo_self_fw g) (int dim)) (\<lambda>b.
           if at (gm_halo_self_fw_buf_size g) dim < halo_bytes
           then let (p, h) = malloc halo_bytes h
                in Inr (p, g\<lparr>gm_halo_self_fw_buf_size := upd (gm_halo_self_fw_buf_size g) dim halo_bytes,
                             gm_halo_self_fw := (gm_halo_self_fw g)[dim := p]\<rparr>, h)
           else Inr (b, g, h))
         else bindE (array_get (gm_halo_self_bw g) (int dim)) (\<lambda>b.
           if at (gm_halo_self_bw_buf_size g) dim < halo_bytes
           then let (p, h) = malloc halo_bytes h
                in Inr (p, g\<lparr>gm_halo_self_bw_buf_size := upd (gm_halo_self_bw_buf_size g) dim halo_bytes,
                             gm_halo_self_bw := (gm_halo_self_bw g)[dim := p]\<rparr>, h)
           else Inr (b, g, h)))"

subsection \<open>Copies of halos\<close>

text \<open>
  \<open>n\<close> lines of \<open>L\<close> bytes: copied to consecutive places from places \<open>stride\<close> bytes apart.
\<close>

definition copy_lines :: "nat \<Rightarrow> nat \<Rightarrow> int \<Rightarrow> ptr \<times> ptr \<times> heap \<Rightarrow> fault + (ptr \<times> ptr \<times> heap)" where
  "copy_lines n L stride =
     foldE (\<lambda>_ (buf, t, h).
       bindE (memcpy buf t L h) (\<lambda>h. Inr (ptr_add buf (int L), ptr_add t stride, h))) [0..<n]"

text \<open>\<open>local_size_[d] - width\<close> is a difference of unsigned numbers.\<close>

definition minus_width :: "'g gridmpi_scheme \<Rightarrow> nat \<Rightarrow> nat \<Rightarrow> nat" where
  "minus_width g d width = to_unsigned (at (gm_local_size g) d - int width)"

definition CopyoutHalo2D0 :: "nat \<Rightarrow> bool \<Rightarrow> 'g gridmpi_scheme \<Rightarrow> heap \<Rightarrow> fault + heap" where
  "CopyoutHalo2D0 width fw g h =
     (let e = grid_elm_size g; ls = gm_local_size g;
          line_size = to_unsigned (int width * int e);
          offset = (if fw then 0 else to_unsigned (int (minus_width g 0 width) * int e));
          stride = at ls 0 * int e
      in bindE (array_get (if fw then gm_halo_self_fw g else gm_halo_self_bw g) 0) (\<lambda>buf.
         bindE (array_get (gm_halo_peer_bw g) 1) (\<lambda>peer_bw.
         bindE (copy_lines (at (gm_halo_bw_width g) 1) line_size stride
                  (buf, ptr_add peer_bw (int offset), h)) (\<lambda>(buf, _, h).
         let sg_offset = (if fw then IntegerArray0
               else upd IntegerArray0 0 (int_of_unsigned (minus_width g 0 width)));
             sg_size = IntegerArray2 (int_of_unsigned width) (at ls 1)
         in bindE (CopyoutSubgrid e 2 (data0 g) ls buf sg_offset sg_size h) (\<lambda>h.
         let buf = ptr_add buf (int (size_mult line_size (to_size (at ls 1))))
         in bindE (array_get (gm_halo_peer_fw g) 1) (\<lambda>peer_fw.
         bindE (copy_lines (at (gm_halo_fw_width g) 1) line_size stride
                  (buf, ptr_add peer_fw (int offset), h)) (\<lambda>(_, _, h). Inr h)))))))"

text \<open>
  One plane of the three-dimensional copy: lines of the backward halo of dimension 1, of
  the source the plane is in, and of the forward halo of dimension 1. The source and its
  pointer are chosen by the plane's number \<open>k\<close>.
\<close>

definition copy_plane ::
    "'g gridmpi_scheme \<Rightarrow> nat \<Rightarrow> nat \<Rightarrow> ptr \<times> ptr \<times> ptr \<times> ptr \<times> ptr \<times> ptr \<times> heap \<Rightarrow>
      fault + (ptr \<times> ptr \<times> ptr \<times> ptr \<times> ptr \<times> ptr \<times> heap)" where
  "copy_plane g L k = (\<lambda>(buf, bw1, fw1, bw2, src0, fw2, h).
     let e = grid_elm_size g; ls = gm_local_size g; stride = at ls 0 * int e;
         bwd = gm_halo_bw_width g; fwd = gm_halo_fw_width g
     in bindE (copy_lines (at bwd 1) L stride (buf, bw1, h)) (\<lambda>(buf, _, h).
        let bw1 = ptr_add bw1 (at ls 0 * int (at bwd 1) * int e);
            plane = at ls 0 * at ls 1 * int e;
            src = (if int k < int (at bwd 2) then bw2
                   else if int k < int (at bwd 2) + at ls 2 then src0 else fw2)
        in bindE (copy_lines (nat (at ls 1)) L stride (buf, src, h)) (\<lambda>(buf, _, h).
        let (bw2, src0, fw2) =
              (if int k < int (at bwd 2) then (ptr_add bw2 plane, src0, fw2)
               else if int k < int (at bwd 2) + at ls 2 then (bw2, ptr_add src0 plane, fw2)
               else (bw2, src0, ptr_add fw2 plane))
        in bindE (copy_lines (at fwd 1) L stride (buf, fw1, h)) (\<lambda>(buf, _, h).
        let fw1 = ptr_add fw1 (at ls 0 * int (at fwd 1) * int e)
        in Inr (buf, bw1, fw1, bw2, src0, fw2, h)))))"

definition CopyoutHalo3D0 :: "nat \<Rightarrow> bool \<Rightarrow> 'g gridmpi_scheme \<Rightarrow> heap \<Rightarrow> fault + heap" where
  "CopyoutHalo3D0 width fw g h =
     (let e = grid_elm_size g; ls = gm_local_size g;
          L = to_unsigned (int e * int width);
          xoffset = (if fw then 0 else minus_width g 0 width) * e
      in bindE (array_get (if fw then gm_halo_self_fw g else gm_halo_self_bw g) 0) (\<lambda>buf.
         bindE (array_get (gm_halo_peer_bw g) 1) (\<lambda>bw1.
         bindE (array_get (gm_halo_peer_fw g) 1) (\<lambda>fw1.
         bindE (array_get (gm_halo_peer_bw g) 2) (\<lambda>bw2.
         bindE (array_get (gm_halo_peer_fw g) 2) (\<lambda>fw2.
         bindE (foldE (copy_plane g L)
                  [0..<nat (int (at (gm_halo_bw_width g) 2) + at ls 2 + int (at (gm_halo_fw_width g) 2))]
                  (buf, ptr_add bw1 (int xoffset), ptr_add fw1 (int xoffset), ptr_add bw2 (int xoffset),
                   ptr_add (data0 g) (int xoffset), ptr_add fw2 (int xoffset), h))
           (\<lambda>(_, _, _, _, _, _, h). Inr h)))))))"

definition CopyoutHalo3D1 :: "nat \<Rightarrow> bool \<Rightarrow> 'g gridmpi_scheme \<Rightarrow> heap \<Rightarrow> fault + heap" where
  "CopyoutHalo3D1 width fw g h =
     (let e = grid_elm_size g; nd = grid_num_dims g; ls = gm_local_size g;
          bwd = int_of_unsigned (at (gm_halo_bw_width g) 2);
          fwd = int_of_unsigned (at (gm_halo_fw_width g) 2);
          sg_offset = (if fw then IntegerArray0
            else upd IntegerArray0 1 (int_of_unsigned (minus_width g 1 width)));
          sg_size = IntegerArray3 (at ls 0) (int_of_unsigned width) bwd;
          halo_size = IntegerArray3 (at ls 0) (at ls 1) bwd
      in bindE (array_get (if fw then gm_halo_self_fw g else gm_halo_self_bw g) 1) (\<lambda>buf.
         bindE (array_get (gm_halo_peer_bw g) 2) (\<lambda>peer_bw.
         bindE (CopyoutSubgrid e nd peer_bw halo_size buf sg_offset sg_size h) (\<lambda>h.
         let buf = ptr_add buf (accumulate sg_size 3 * int e);
             sg_size = upd sg_size 2 (at ls 2)
         in bindE (CopyoutSubgrid e nd (data0 g) ls buf sg_offset sg_size h) (\<lambda>h.
         let buf = ptr_add buf (accumulate sg_size 3 * int e);
             sg_size = upd sg_size 2 fwd; halo_size = upd halo_size 2 fwd
         in bindE (array_get (gm_halo_peer_fw g) 2) (\<lambda>peer_fw.
            CopyoutSubgrid e nd peer_fw halo_size buf sg_offset sg_size h))))))"

text \<open>
  \<open>CopyoutHalo\<close>: in the last dimension the halo is a part of the data and only its
  address is taken.
\<close>

definition CopyoutHalo ::
    "nat \<Rightarrow> nat \<Rightarrow> bool \<Rightarrow> bool \<Rightarrow> 'g gridmpi_scheme \<Rightarrow> heap \<Rightarrow> fault + ('g gridmpi_scheme \<times> heap)" where
  "CopyoutHalo dim width fw diagonal g h =
     (let g = g\<lparr>gm_halo_has_diagonal := diagonal\<rparr>; nd = grid_num_dims g; e = grid_elm_size g;
          ls = gm_local_size g
      in if int dim = int nd - 1
         then if fw
              then bindE (array_get (gm_halo_self_fw g) (int dim)) (\<lambda>_.
                Inr (g\<lparr>gm_halo_self_fw := (gm_halo_self_fw g)[dim := data0 g]\<rparr>, h))
              else bindE (array_get (gm_halo_self_bw g) (int dim)) (\<lambda>_.
                let s = upd ls dim (int_of_unsigned (minus_width g dim width))
                in Inr (g\<lparr>gm_halo_self_bw := (gm_halo_self_bw g)
                            [dim := ptr_add (data0 g) (accumulate s nd * int e)]\<rparr>, h))
         else bindE (GetHaloBuf dim width fw diagonal g h) (\<lambda>(halo_buf, g, h).
           if \<not> diagonal
           then let halo_offset = (if fw then IntegerArray0
                      else upd IntegerArray0 dim (int_of_unsigned (minus_width g dim width)));
                    halo_size = upd ls dim (int_of_unsigned width)
                in bindE (CopyoutSubgrid e nd (data0 g) ls halo_buf halo_offset halo_size h)
                     (\<lambda>h. Inr (g, h))
           else if nd = 2 then bindE (CopyoutHalo2D0 width fw g h) (\<lambda>h. Inr (g, h))
           else if nd = 3
           then if dim = 0 then bindE (CopyoutHalo3D0 width fw g h) (\<lambda>h. Inr (g, h))
                else if dim = 1 then bindE (CopyoutHalo3D1 width fw g h) (\<lambda>h. Inr (g, h))
                else Inl (Aborted 1)
           else Inl (Aborted 1)))"

subsection \<open>Addresses and reductions\<close>

text \<open>
  The loops look for the first dimension in which the index leaves the local part.
  \<open>GetAddress\<close> looks at the grid's dimensions; in its inner loop it adds
  \<open>halo_bw_width()[i]\<close> to \<open>indices[i]\<close>, once for every later dimension.
\<close>

definition halo_address ::
    "'g gridmpi_scheme \<Rightarrow> nat \<Rightarrow> idx \<Rightarrow> fault + (ptr \<times> int)" where
  "halo_address g i indices =
     (if at indices i < 0
      then let indices = upd indices i (at indices i + int (at (gm_halo_bw_width g) i))
           in bindE (array_get (gm_halo_peer_bw g) (int i)) (\<lambda>buf.
                Inr (buf, GridCalcOffset3D indices (at (gm_halo_bw_size g) i)))
      else let indices = upd indices i (at indices i - at (gm_local_size g) i)
           in bindE (array_get (gm_halo_peer_fw g) (int i)) (\<lambda>buf.
                Inr (buf, GridCalcOffset3D indices (at (gm_halo_fw_size g) i))))"

definition outside :: "'g gridmpi_scheme \<Rightarrow> idx \<Rightarrow> nat \<Rightarrow> bool" where
  "outside g indices i \<longleftrightarrow> at indices i < 0 \<or> at indices i \<ge> at (gm_local_size g) i"

definition GridMPI_GetAddress :: "mgrid \<Rightarrow> idx \<Rightarrow> fault + ptr" where
  "GridMPI_GetAddress g indices_param =
     (if gm_remote_grid_active g
      then (case gm_remote_grid g of
              None \<Rightarrow> Inl NullPointer
            | Some rmg \<Rightarrow>
                Inr (ptr_add (data0 rmg)
                  (GridCalcOffset3D (arr_minus indices_param (gm_local_offset rmg)) (gm_local_size rmg)
                   * int (grid_elm_size rmg))))
      else let indices = arr_minus indices_param (gm_local_offset g)
           in (case find (outside g indices) [0..<grid_num_dims g] of
                 Some i \<Rightarrow>
                   let indices = (if gm_halo_has_diagonal g
                         then fold (\<lambda>j x. upd x i (at x i + int (at (gm_halo_bw_width g) i)))
                                [Suc i..<PS_MAX_DIM] indices
                         else indices)
                   in bindE (halo_address g i indices) (\<lambda>(buf, offset).
                        Inr (ptr_add buf (offset * int (grid_elm_size g))))
               | None \<Rightarrow>
                   Inr (ptr_add (data0 g) (GridCalcOffset3D indices (gm_local_size g) * int (grid_elm_size g)))))"

definition GridMPI_Set :: "mgrid \<Rightarrow> idx \<Rightarrow> ptr \<Rightarrow> world \<Rightarrow> fault + world" where
  "GridMPI_Set g indices buf st =
     bindE (GridMPI_GetAddress g indices) (\<lambda>a. Grid_Copyin a buf (grid_elm_size g) st)"

definition GridMPI_Get :: "mgrid \<Rightarrow> idx \<Rightarrow> ptr \<Rightarrow> world \<Rightarrow> fault + world" where
  "GridMPI_Get g indices buf st =
     bindE (GridMPI_GetAddress g indices) (\<lambda>a. Grid_Copyout buf a (grid_elm_size g) st)"

definition ReduceGridMPI ::
    "nat \<Rightarrow> (cell list \<Rightarrow> 'a::{ord,plus,times}) \<Rightarrow> 'g gridmpi_scheme \<Rightarrow> PSReduceOp \<Rightarrow> heap \<Rightarrow>
      fault + ('a option \<times> nat)" where
  "ReduceGridMPI tsize dec g op h =
     (let nelms = to_size (accumulate (gm_local_size g) (grid_num_dims g))
      in if nelms = 0 then Inr (None, 0)
         else bindE (GetReducer op) (\<lambda>func.
           bindE (load (data0 g) (nelms * tsize) h) (\<lambda>cs.
             bindE (reduce_loop func (elements dec tsize cs nelms)) (\<lambda>v. Inr (Some v, nelms)))))"

definition GridMPI_Reduce ::
    "(cell list \<Rightarrow> 'f::{ord,plus,times}) \<Rightarrow> (cell list \<Rightarrow> 'd::{ord,plus,times}) \<Rightarrow>
      ('f \<Rightarrow> cell list) \<Rightarrow> ('d \<Rightarrow> cell list) \<Rightarrow>
      'g gridmpi_scheme \<Rightarrow> PSReduceOp \<Rightarrow> ptr \<Rightarrow> heap \<Rightarrow> fault + (nat \<times> heap)" where
  "GridMPI_Reduce dec_float dec_double enc_float enc_double g op out h =
     (if grid_type g = PS_FLOAT
      then bindE (ReduceGridMPI 4 dec_float g op h) (\<lambda>(v, n).
             case v of
               None \<Rightarrow> Inr (n, h)
             | Some v \<Rightarrow> bindE (store out (enc_float v) h) (\<lambda>h. Inr (n, h)))
      else if grid_type g = PS_DOUBLE
      then bindE (ReduceGridMPI 8 dec_double g op h) (\<lambda>(v, n).
             case v of
               None \<Rightarrow> Inr (n, h)
             | Some v \<Rightarrow> bindE (store out (enc_double v) h) (\<lambda>h. Inr (n, h)))
      else Inl (Aborted 1))"

end
