(* ===== verification/Message_Passing.thy ===== *)
theory Message_Passing imports Reduction begin

text \<open>
  Processes that communicate over MPI. A \<open>prog\<close> is the rest of a process's run up to its
  next call of MPI and, after it, a function of what the call returns; the code of the
  runtime is written as such programs (\<open>runtime/mpi_wrapper.cc\<close>, \<open>grid_mpi.cc\<close>,
  \<open>rpc_mpi.cc\<close>). The standard promises that messages of one sender to one receiver with
  the same tag are not overtaken and that broadcasts of one root arrive in order: a channel
  for each pair of processes and a queue of broadcasts for each process. All broadcasts of the
  program have root 0. Sends are buffered.
\<close>

subsection \<open>Messages and programs\<close>

record fetch_info =
  fi_peer_index :: idx
  fi_peer_offset :: idx
  fi_peer_size :: idx

record request_new =
  rn_type :: int
  rn_elm_size :: nat
  rn_num_dims :: nat
  rn_size :: idx
  rn_double_buffering :: bool
  rn_global_offset :: idx
  rn_attr :: nat

datatype msg =
    MBytes "cell list"
  | MIdx idx
  | MInt int
  | MInts "nat list"
  | MGridRequest int int      \<comment> \<open>\<open>GridRequest\<close>: rank and kind\<close>
  | MFetchInfo fetch_info
  | MRequest int int          \<comment> \<open>\<open>Request\<close>: kind and option\<close>
  | MRequestNew request_new
  | MReduceOp PSReduceOp

datatype 'a prog =
    Ret 'a
  | Fail fault
  | Send nat msg "'a prog"
  | Recv nat "msg \<Rightarrow> 'a prog"
  | RecvAny "nat \<times> msg \<Rightarrow> 'a prog"
  | BcastSend msg "'a prog"
  | BcastRecv "msg \<Rightarrow> 'a prog"
  | Collect msg "msg list \<Rightarrow> 'a prog"   \<comment> \<open>all processes contribute and get all contributions\<close>

primrec bindP :: "'a prog \<Rightarrow> ('a \<Rightarrow> 'b prog) \<Rightarrow> 'b prog" where
  "bindP (Ret x) f = f x"
| "bindP (Fail e) f = Fail e"
| "bindP (Send d m p) f = Send d m (bindP p f)"
| "bindP (Recv s k) f = Recv s (\<lambda>m. bindP (k m) f)"
| "bindP (RecvAny k) f = RecvAny (\<lambda>m. bindP (k m) f)"
| "bindP (BcastSend m p) f = BcastSend m (bindP p f)"
| "bindP (BcastRecv k) f = BcastRecv (\<lambda>m. bindP (k m) f)"
| "bindP (Collect m k) f = Collect m (\<lambda>ms. bindP (k ms) f)"

text \<open>A computation without communication.\<close>

fun lift :: "fault + 'a \<Rightarrow> 'a prog" where
  "lift (Inl e) = Fail e"
| "lift (Inr x) = Ret x"

fun foldP :: "('a \<Rightarrow> 's \<Rightarrow> 's prog) \<Rightarrow> 'a list \<Rightarrow> 's \<Rightarrow> 's prog" where
  "foldP f [] s = Ret s"
| "foldP f (x # xs) s = bindP (f x s) (foldP f xs)"

lemma bindP_Ret [simp]: "bindP p Ret = p"
  by (induction p) auto

lemma bindP_assoc: "bindP (bindP p f) g = bindP p (\<lambda>x. bindP (f x) g)"
  by (induction p) auto

lemma bindP_lift: "bindP (lift m) f = (case m of Inl e \<Rightarrow> Fail e | Inr x \<Rightarrow> f x)"
  by (cases m) auto

lemma foldP_append: "foldP f (xs @ ys) s = bindP (foldP f xs s) (foldP f ys)"
proof (induction xs arbitrary: s)
  case (Cons x xs)
  then have "foldP f (xs @ ys) = (\<lambda>s. bindP (foldP f xs s) (foldP f ys))" by blast
  then show ?case by (simp add: bindP_assoc)
qed simp

subsection \<open>Wrappers (\<open>runtime/mpi_wrapper.cc\<close>)\<close>

text \<open>
  A receive of \<open>n\<close> bytes stores the message's bytes; a longer message is an error of the
  library, which \<open>CHECK_MPI\<close> turns into \<open>PSAbort(1)\<close>.
\<close>

definition PS_MPI_Send :: "msg \<Rightarrow> nat \<Rightarrow> unit prog" where
  "PS_MPI_Send m dest = Send dest m (Ret ())"

definition PS_MPI_Isend :: "msg \<Rightarrow> nat \<Rightarrow> unit prog" where
  "PS_MPI_Isend m dest = Send dest m (Ret ())"

definition PS_MPI_Recv :: "nat \<Rightarrow> msg prog" where
  "PS_MPI_Recv source = Recv source Ret"

definition PS_MPI_Bcast_root :: "msg \<Rightarrow> unit prog" where
  "PS_MPI_Bcast_root m = BcastSend m (Ret ())"

definition PS_MPI_Bcast :: "msg prog" where
  "PS_MPI_Bcast = BcastRecv Ret"

definition MPI_Barrier :: "unit prog" where
  "MPI_Barrier = Collect (MInt 0) (\<lambda>_. Ret ())"

definition send_bytes :: "ptr \<Rightarrow> nat \<Rightarrow> nat \<Rightarrow> heap \<Rightarrow> unit prog" where
  "send_bytes buf n dest h =
     (if n = 0 then PS_MPI_Send (MBytes []) dest
      else bindP (lift (load buf n h)) (\<lambda>cs. PS_MPI_Send (MBytes cs) dest))"

definition recv_bytes :: "ptr \<Rightarrow> nat \<Rightarrow> nat \<Rightarrow> heap \<Rightarrow> heap prog" where
  "recv_bytes buf n source h =
     bindP (PS_MPI_Recv source) (\<lambda>m.
       case m of
         MBytes cs \<Rightarrow>
           if n < length cs then Fail (Aborted 1)
           else if cs = [] then Ret h else lift (store buf cs h)
       | _ \<Rightarrow> Fail TypeMismatch)"

fun expect_idx :: "msg \<Rightarrow> fault + idx" where
  "expect_idx (MIdx i) = Inr i"
| "expect_idx _ = Inl TypeMismatch"

fun expect_int :: "msg \<Rightarrow> fault + int" where
  "expect_int (MInt i) = Inr i"
| "expect_int _ = Inl TypeMismatch"

fun expect_ints :: "msg \<Rightarrow> fault + nat list" where
  "expect_ints (MInts xs) = Inr xs"
| "expect_ints _ = Inl TypeMismatch"

fun expect_fetch_info :: "msg \<Rightarrow> fault + fetch_info" where
  "expect_fetch_info (MFetchInfo i) = Inr i"
| "expect_fetch_info _ = Inl TypeMismatch"

fun expect_request :: "msg \<Rightarrow> fault + (int \<times> int)" where
  "expect_request (MRequest k i) = Inr (k, i)"
| "expect_request _ = Inl TypeMismatch"

fun expect_grid_request :: "msg \<Rightarrow> fault + (int \<times> int)" where
  "expect_grid_request (MGridRequest r k) = Inr (r, k)"
| "expect_grid_request _ = Inl TypeMismatch"

fun expect_request_new :: "msg \<Rightarrow> fault + request_new" where
  "expect_request_new (MRequestNew r) = Inr r"
| "expect_request_new _ = Inl TypeMismatch"

fun expect_reduce_op :: "msg \<Rightarrow> fault + PSReduceOp" where
  "expect_reduce_op (MReduceOp op) = Inr op"
| "expect_reduce_op _ = Inl TypeMismatch"

fun expect_bytes :: "msg \<Rightarrow> fault + cell list" where
  "expect_bytes (MBytes cs) = Inr cs"
| "expect_bytes _ = Inl TypeMismatch"

subsection \<open>Runs of all processes\<close>

record 'a network =
  procs :: "'a prog list"
  chans :: "nat \<Rightarrow> nat \<Rightarrow> msg list"
  bqueue :: "nat \<Rightarrow> msg list"

definition init_network :: "'a prog list \<Rightarrow> 'a network" where
  "init_network ps = \<lparr>procs = ps, chans = (\<lambda>_ _. []), bqueue = (\<lambda>_. [])\<rparr>"

text \<open>The step of process \<open>i\<close>, when it has one that involves no choice.\<close>

definition proc_step :: "nat \<Rightarrow> 'a network \<Rightarrow> 'a network option" where
  "proc_step i c =
     (if \<not> i < length (procs c) then None
      else case procs c ! i of
        Send d m p \<Rightarrow>
          Some (c\<lparr>procs := (procs c)[i := p],
                  chans := (chans c)(i := (chans c i)(d := chans c i d @ [m]))\<rparr>)
      | Recv s k \<Rightarrow>
          (case chans c s i of
             [] \<Rightarrow> None
           | m # ms \<Rightarrow> Some (c\<lparr>procs := (procs c)[i := k m],
                               chans := (chans c)(s := (chans c s)(i := ms))\<rparr>))
      | BcastSend m p \<Rightarrow>
          if i = 0
          then Some (c\<lparr>procs := (procs c)[i := p],
                       bqueue := (\<lambda>j. if 0 < j \<and> j < length (procs c) then bqueue c j @ [m] else bqueue c j)\<rparr>)
          else None
      | BcastRecv k \<Rightarrow>
          (case bqueue c i of
             [] \<Rightarrow> None
           | m # ms \<Rightarrow> Some (c\<lparr>procs := (procs c)[i := k m], bqueue := (bqueue c)(i := ms)\<rparr>))
      | _ \<Rightarrow> None)"

text \<open>A collective call completes when every process has come to one.\<close>

fun collect_of :: "'a prog \<Rightarrow> (msg \<times> (msg list \<Rightarrow> 'a prog)) option" where
  "collect_of (Collect m k) = Some (m, k)"
| "collect_of _ = None"

definition collect_step :: "'a network \<Rightarrow> 'a network option" where
  "collect_step c =
     (if procs c \<noteq> [] \<and> (\<forall>p \<in> set (procs c). collect_of p \<noteq> None)
      then let ms = map (\<lambda>p. fst (the (collect_of p))) (procs c)
           in Some (c\<lparr>procs := map (\<lambda>p. snd (the (collect_of p)) ms) (procs c)\<rparr>)
      else None)"

inductive det_step :: "'a network \<Rightarrow> 'a network \<Rightarrow> bool" where
  det_proc: "proc_step i c = Some c' \<Longrightarrow> det_step c c'"
| det_collect: "collect_step c = Some c' \<Longrightarrow> det_step c c'"

text \<open>A receive from any source takes a message of some sender that has one waiting.\<close>

inductive net_step :: "'a network \<Rightarrow> 'a network \<Rightarrow> bool" where
  net_det: "det_step c c' \<Longrightarrow> net_step c c'"
| net_any: "i < length (procs c) \<Longrightarrow> procs c ! i = RecvAny k \<Longrightarrow> chans c s i = m # ms \<Longrightarrow>
    net_step c (c\<lparr>procs := (procs c)[i := k (s, m)], chans := (chans c)(s := (chans c s)(i := ms))\<rparr>)"

inductive_cases det_stepE: "det_step c c'"
inductive_cases net_stepE: "net_step c c'"

subsection \<open>The order of independent steps does not matter\<close>

text \<open>
  Programs without receives from any source: whatever the scheduler does, the processes
  end in the same state. So it is enough to follow one schedule.
\<close>

lemma proc_step_chans_append:
  assumes "proc_step j c = Some c2" "i \<noteq> j"
  shows "procs c2 ! i = procs c ! i" "length (procs c2) = length (procs c)"
  using assms by (auto simp: proc_step_def split: if_splits prog.splits list.splits)

lemma proc_step_diamond:
  assumes "proc_step i c = Some c1" "proc_step j c = Some c2" "i \<noteq> j"
  shows "\<exists>c3. proc_step j c1 = Some c3 \<and> proc_step i c2 = Some c3"
proof -
  obtain ps ch bq where c: "c = \<lparr>procs = ps, chans = ch, bqueue = bq\<rparr>" by (cases c)
  have len: "i < length ps" "j < length ps" using assms c by (auto simp: proc_step_def split: if_splits)
  show ?thesis
    using assms len unfolding c proc_step_def
    by (cases "ps ! i"; cases "ps ! j")
      (auto split: list.splits if_splits simp: list_update_swap fun_eq_iff fun_upd_twist)
qed

lemma collect_proc_step: "collect_step c = Some c1 \<Longrightarrow> proc_step i c = None"
proof (cases "i < length (procs c)")
  case True
  assume "collect_step c = Some c1"
  then have "collect_of (procs c ! i) \<noteq> None" using True by (auto simp: collect_step_def split: if_splits)
  then show ?thesis by (cases "procs c ! i") (auto simp: proc_step_def)
qed (simp add: proc_step_def)

lemma det_step_diamond:
  assumes "det_step c c1" "det_step c c2"
  shows "c1 = c2 \<or> (\<exists>c3. det_step c1 c3 \<and> det_step c2 c3)"
proof -
  consider (p) i where "proc_step i c = Some c1" | (c) "collect_step c = Some c1"
    using assms(1) by (auto elim: det_stepE)
  then show ?thesis
  proof cases
    case (p i)
    consider (p2) j where "proc_step j c = Some c2" | (c2) "collect_step c = Some c2"
      using assms(2) by (auto elim: det_stepE)
    then show ?thesis
    proof cases
      case (p2 j)
      then show ?thesis using proc_step_diamond[OF p p2] p by (cases "i = j") (auto intro: det_proc)
    qed (use p collect_proc_step in fastforce)
  next
    case c
    then show ?thesis using assms(2) collect_proc_step[OF c] by (auto elim: det_stepE)
  qed
qed

definition final :: "'a network \<Rightarrow> bool" where
  "final c \<longleftrightarrow> (\<forall>d. \<not> det_step c d)"

lemma first_step:
  "(det_step ^^ n) c f \<Longrightarrow> final f \<Longrightarrow> det_step c c1 \<Longrightarrow> \<exists>m. n = Suc m \<and> (det_step ^^ m) c1 f"
proof (induction n arbitrary: c c1)
  case 0
  then show ?case by (auto simp: final_def)
next
  case (Suc n)
  obtain c' where c': "det_step c c'" "(det_step ^^ n) c' f" by (rule relpowp_Suc_E2[OF Suc.prems(1)])
  from det_step_diamond[OF c'(1) Suc.prems(3)] show ?case
  proof
    assume "\<exists>c3. det_step c' c3 \<and> det_step c1 c3"
    then obtain c3 where c3: "det_step c' c3" "det_step c1 c3" by blast
    obtain m where m: "n = Suc m" "(det_step ^^ m) c3 f" using Suc.IH[OF c'(2) Suc.prems(2) c3(1)] by blast
    then have "(det_step ^^ n) c1 f" using relpowp_Suc_I2[OF c3(2) m(2)] by simp
    then show ?case by blast
  qed (use c'(2) in blast)
qed

text \<open>
  If one run ends, then every run can be continued to the same end, no run is longer, and
  a run that cannot be continued has reached it.
\<close>

theorem runs_agree:
  assumes "(det_step ^^ n) c f" "final f" "(det_step ^^ k) c d"
  shows "k \<le> n \<and> (det_step ^^ (n - k)) d f \<and> (final d \<longrightarrow> d = f)"
  using assms
proof (induction k arbitrary: c n)
  case 0
  have "d = f" if "final d"
  proof (cases n)
    case (Suc m)
    then obtain x where "det_step c x" using 0(1) by (metis relpowp_Suc_E2)
    then show ?thesis using that 0(3) by (simp add: final_def)
  qed (use 0 in simp)
  with 0 show ?case by auto
next
  case (Suc k)
  obtain c1 where c1: "det_step c c1" "(det_step ^^ k) c1 d" by (rule relpowp_Suc_E2[OF Suc.prems(3)])
  obtain m where m: "n = Suc m" "(det_step ^^ m) c1 f" using first_step[OF Suc.prems(1,2) c1(1)] by blast
  from Suc.IH[OF m(2) Suc.prems(2) c1(2)] m show ?case by simp
qed

end
