(* ===== verification/Grid_Space_MPI.thy ===== *)
theory Grid_Space_MPI imports Grid_MPI Message_Passing begin

text \<open>
  The operations of \<open>GridSpaceMPI\<close> on distributed grids (\<open>runtime/grid_mpi.cc\<close>): creation,
  exchange of halos, loading of subgrids from other processes and reductions, as programs
  of one process. A pointer to a grid is the address of its object in the grid space.
\<close>

subsection \<open>State of a process\<close>

type_synonym space = "mgrid gridspace_mpi"

type_synonym pstate = "space \<times> world"

definition get_obj :: "nat \<Rightarrow> space \<Rightarrow> fault + mgrid" where
  "get_obj a gs = (case objs gs a of None \<Rightarrow> Inl DanglingPointer | Some g \<Rightarrow> Inr g)"

definition put_obj :: "nat \<Rightarrow> mgrid \<Rightarrow> space \<Rightarrow> space" where
  "put_obj a g gs = gs\<lparr>objs := (objs gs)(a \<mapsto> g)\<rparr>"

definition get_id :: "mgrid \<Rightarrow> fault + int" where
  "get_id g = (case grid_id g of None \<Rightarrow> Inl AssertFailed | Some i \<Rightarrow> Inr i)"

definition set_id :: "int \<Rightarrow> mgrid \<Rightarrow> mgrid" where
  "set_id i = grid_id_update (\<lambda>_. Some i)"

interpretation mgrid_ids: identified "\<lambda>g :: mgrid. grid_id g" set_id
  by unfold_locales (simp add: set_id_def)

subsection \<open>Creation and deletion\<close>

definition CreateGrid ::
    "int \<Rightarrow> nat \<Rightarrow> nat \<Rightarrow> idx \<Rightarrow> bool \<Rightarrow> idx \<Rightarrow> nat \<Rightarrow> pstate \<Rightarrow> fault + (nat \<times> pstate)" where
  "CreateGrid type e num_dims sz double_buffering global_offset attr = (\<lambda>(gs, st).
     if gs_num_dims gs < num_dims then Inl (Aborted 1)
     else let missing = [num_dims..<gs_num_dims gs];
              sz2 = fold (\<lambda>i s. upd s i 1) missing sz;
              go2 = fold (\<lambda>i s. upd s i 0) missing global_offset;
              nd = gs_num_dims gs;
              (local_offset, local_size) =
                PartitionGrid gs nd sz2 go2 (IntegerArray0, IntegerArray0);
              a = next_buf st
          in bindE (GridMPI_Create type e nd sz2 double_buffering go2
                      local_offset local_size attr (st\<lparr>next_buf := Suc a\<rparr>)) (\<lambda>(g, st).
             bindE (RegisterGrid set_id a (put_obj a (to_mgrid g) gs)) (\<lambda>gs.
               Inr (a, gs, st))))"

definition gs_DeleteGrid :: "nat \<Rightarrow> pstate \<Rightarrow> fault + pstate" where
  "gs_DeleteGrid a = (\<lambda>(gs, st).
     bindE (DeregisterGrid grid_id a gs) (\<lambda>gs.
       bindE (get_obj a gs) (\<lambda>g.
         bindE (GridMPI_delete g st) (\<lambda>st. Inr (gs\<lparr>objs := (objs gs)(a := None)\<rparr>, st)))))"

definition gs_DeleteGrid_id :: "int \<Rightarrow> pstate \<Rightarrow> fault + pstate" where
  "gs_DeleteGrid_id i = (\<lambda>(gs, st). bindE (FindGrid i gs) (\<lambda>a. gs_DeleteGrid a (gs, st)))"

subsection \<open>Exchange of boundaries\<close>

text \<open>
  A request of \<open>MPI_Irecv\<close> is the source, the destination and the number of bytes; the
  message is taken when \<open>MPI_Wait\<close> returns, in the order of the requests.
\<close>

type_synonym recv_request = "nat \<times> ptr \<times> nat"

definition has_fw :: "'g gridmpi_scheme \<Rightarrow> nat \<Rightarrow> bool \<Rightarrow> bool" where
  "has_fw g dim periodic \<longleftrightarrow> periodic \<or>
     at (gm_local_offset g) dim + at (gm_local_size g) dim < at (grid_size g) dim"

definition has_bw :: "'g gridmpi_scheme \<Rightarrow> nat \<Rightarrow> bool \<Rightarrow> bool" where
  "has_bw g dim periodic \<longleftrightarrow> periodic \<or> at (gm_local_offset g) dim > 0"

definition post_recv_fw ::
    "nat \<Rightarrow> nat \<Rightarrow> bool \<Rightarrow> bool \<Rightarrow> nat \<Rightarrow> nat \<Rightarrow> 'g gridmpi_scheme \<times> heap \<Rightarrow>
      fault + ('g gridmpi_scheme \<times> heap \<times> recv_request list)" where
  "post_recv_fw dim width diagonal periodic peer bytes = (\<lambda>(g, h).
     if width > 0 \<and> has_fw g dim periodic
     then bindE (array_get (gm_halo_peer_fw g) (int dim)) (\<lambda>p.
       bindE (if at (gm_halo_peer_fw_buf_size g) dim < bytes
              then bindE (free p h) (\<lambda>h.
                let (p, h) = malloc bytes h
                in Inr (p, g\<lparr>gm_halo_peer_fw := (gm_halo_peer_fw g)[dim := p],
                             gm_halo_peer_fw_buf_size := upd (gm_halo_peer_fw_buf_size g) dim bytes\<rparr>, h))
              else Inr (p, g, h)) (\<lambda>(p, g, h).
         Inr (SetHaloSize dim True width diagonal
                (g\<lparr>gm_halo_fw_width := upd (gm_halo_fw_width g) dim width\<rparr>), h, [(peer, p, bytes)])))
     else Inr (g\<lparr>gm_halo_fw_width := upd (gm_halo_fw_width g) dim 0,
                 gm_halo_fw_size := upd (gm_halo_fw_size g) dim (arr_Set 0)\<rparr>, h, []))"

definition post_recv_bw ::
    "nat \<Rightarrow> nat \<Rightarrow> bool \<Rightarrow> bool \<Rightarrow> nat \<Rightarrow> nat \<Rightarrow> 'g gridmpi_scheme \<times> heap \<Rightarrow>
      fault + ('g gridmpi_scheme \<times> heap \<times> recv_request list)" where
  "post_recv_bw dim width diagonal periodic peer bytes = (\<lambda>(g, h).
     if width > 0 \<and> has_bw g dim periodic
     then bindE (array_get (gm_halo_peer_bw g) (int dim)) (\<lambda>p.
       bindE (if at (gm_halo_peer_bw_buf_size g) dim < bytes
              then bindE (free p h) (\<lambda>h.
                let (p, h) = malloc bytes h
                in Inr (p, g\<lparr>gm_halo_peer_bw := (gm_halo_peer_bw g)[dim := p],
                             gm_halo_peer_bw_buf_size := upd (gm_halo_peer_bw_buf_size g) dim bytes\<rparr>, h))
              else Inr (p, g, h)) (\<lambda>(p, g, h).
         Inr (SetHaloSize dim False width diagonal
                (g\<lparr>gm_halo_bw_width := upd (gm_halo_bw_width g) dim width\<rparr>), h, [(peer, p, bytes)])))
     else Inr (g\<lparr>gm_halo_bw_width := upd (gm_halo_bw_width g) dim 0,
                 gm_halo_bw_size := upd (gm_halo_bw_size g) dim (arr_Set 0)\<rparr>, h, []))"

definition ExchangeBoundariesAsync ::
    "space \<Rightarrow> nat \<Rightarrow> nat \<Rightarrow> nat \<Rightarrow> bool \<Rightarrow> bool \<Rightarrow> mgrid \<times> heap \<Rightarrow>
      (mgrid \<times> heap \<times> recv_request list) prog" where
  "ExchangeBoundariesAsync gs dim fw_width bw_width diagonal periodic = (\<lambda>(g, h).
     if gm_empty g then Ret (g, h, [])
     else let fw_peer = nat (at (gs_fw_neighbors gs) dim); bw_peer = nat (at (gs_bw_neighbors gs) dim);
              fw_size = size_mult (CalcHaloSize g dim fw_width diagonal) (grid_elm_size g);
              bw_size = size_mult (CalcHaloSize g dim bw_width diagonal) (grid_elm_size g)
          in bindP (lift (post_recv_fw dim fw_width diagonal periodic fw_peer fw_size (g, h))) (\<lambda>(g, h, r1).
             bindP (lift (post_recv_bw dim bw_width diagonal periodic bw_peer bw_size (g, h))) (\<lambda>(g, h, r2).
             bindP (if fw_width > 0 \<and> has_bw g dim periodic
                    then bindP (lift (CopyoutHalo dim fw_width True diagonal g h)) (\<lambda>(g, h).
                      bindP (lift (array_get (gm_halo_self_fw g) (int dim))) (\<lambda>p.
                        bindP (send_bytes p fw_size bw_peer h) (\<lambda>_. Ret (g, h))))
                    else Ret (g, h)) (\<lambda>(g, h).
             bindP (if bw_width > 0 \<and> has_fw g dim periodic
                    then bindP (lift (CopyoutHalo dim bw_width False diagonal g h)) (\<lambda>(g, h).
                      bindP (lift (array_get (gm_halo_self_bw g) (int dim))) (\<lambda>p.
                        bindP (send_bytes p bw_size fw_peer h) (\<lambda>_. Ret (g, h))))
                    else Ret (g, h)) (\<lambda>(g, h).
               Ret (g, h, r1 @ r2))))))"

definition ExchangeBoundaries ::
    "space \<Rightarrow> nat \<Rightarrow> nat \<Rightarrow> nat \<Rightarrow> bool \<Rightarrow> bool \<Rightarrow> mgrid \<times> heap \<Rightarrow> (mgrid \<times> heap) prog" where
  "ExchangeBoundaries gs dim fw_width bw_width diagonal periodic gh =
     bindP (ExchangeBoundariesAsync gs dim fw_width bw_width diagonal periodic gh) (\<lambda>(g, h, requests).
       bindP (foldP (\<lambda>(src, p, bytes) h. recv_bytes p bytes src h) requests h) (\<lambda>h. Ret (g, h)))"

definition ExchangeBoundaries_id ::
    "int \<Rightarrow> nat arr3 \<Rightarrow> nat arr3 \<Rightarrow> bool \<Rightarrow> bool \<Rightarrow> pstate \<Rightarrow> pstate prog" where
  "ExchangeBoundaries_id gid fw_width bw_width diagonal periodic = (\<lambda>(gs, st).
     bindP (lift (FindGrid gid gs)) (\<lambda>a.
       bindP (lift (get_obj a gs)) (\<lambda>g.
         bindP (foldP (\<lambda>i (g, h).
              ExchangeBoundaries gs i (at fw_width i) (at bw_width i) diagonal periodic (g, h))
            (rev [0..<grid_num_dims g]) (g, hp st)) (\<lambda>(g, h).
           Ret (put_obj a g gs, st\<lparr>hp := h\<rparr>)))))"

subsection \<open>Loading subgrids\<close>

definition INVALID :: int where "INVALID = 0"
definition DONE :: int where "DONE = 1"
definition FETCH_REQUEST :: int where "FETCH_REQUEST = 2"
definition FETCH_REPLY :: int where "FETCH_REPLY = 3"

definition SendGridRequest :: "int \<Rightarrow> nat \<Rightarrow> int \<Rightarrow> unit prog" where
  "SendGridRequest my_rank peer_rank kind = PS_MPI_Isend (MGridRequest my_rank kind) peer_rank"

definition RecvGridRequest :: "(int \<times> int) prog" where
  "RecvGridRequest = RecvAny (\<lambda>(s, m). lift (expect_grid_request m))"

definition ensure_buffer_capacity :: "ptr \<Rightarrow> nat \<Rightarrow> nat \<Rightarrow> heap \<Rightarrow> fault + (ptr \<times> heap)" where
  "ensure_buffer_capacity buf cur_size required_size h =
     (if cur_size < required_size
      then bindE (free buf h) (\<lambda>h. Inr (malloc required_size h))
      else Inr (buf, h))"

text \<open>
  The parts of a box that different processes own. In each dimension the processes are
  tried in turn while something of the box is left; \<open>x\<close> is the next index to place.
\<close>

definition collect_dim ::
    "('s, 'x) gridspace_mpi_scheme \<Rightarrow> idx \<Rightarrow> idx \<Rightarrow> nat \<Rightarrow> fetch_info list \<Rightarrow> int \<Rightarrow> int \<times> fetch_info list \<Rightarrow>
      fault + (int \<times> fetch_info list)" where
  "collect_dim gs go grid_lim d infos pidx = (\<lambda>(x, next).
     if \<not> x < at grid_lim d then Inr (x, next)
     else bindE (array_get (at (gs_offsets gs) d) pidx) (\<lambda>off.
       bindE (array_get (at (gs_partitions gs) d) pidx) (\<lambda>part.
         if x < off + part
         then Inr (off + part,
                next @ map (\<lambda>info. info
                  \<lparr>fi_peer_index := upd (fi_peer_index info) d pidx,
                   fi_peer_offset := upd (fi_peer_offset info) d (x - at go d),
                   fi_peer_size := upd (fi_peer_size info) d (min (off + part - x) (at grid_lim d - x))\<rparr>) infos)
         else Inr (x, next))))"

definition CollectPerProcSubgridInfo ::
    "('s, 'x) gridspace_mpi_scheme \<Rightarrow> 'g gridmpi_scheme \<Rightarrow> idx \<Rightarrow> idx \<Rightarrow> fault + fetch_info list" where
  "CollectPerProcSubgridInfo gs g grid_offset box_size =
     (let grid_lim = arr_plus grid_offset box_size;
          dummy = \<lparr>fi_peer_index = IntegerArray0, fi_peer_offset = IntegerArray0, fi_peer_size = IntegerArray0\<rparr>
      in foldE (\<lambda>d infos.
           bindE (foldE (\<lambda>pidx. collect_dim gs (gm_global_offset g) grid_lim d infos (int pidx))
                    [0..<nat (at (gs_proc_size gs) d)]
                    (at grid_offset d + at (gm_global_offset g) d, []))
             (\<lambda>(x, next). Inr next))
         [0..<gs_num_dims gs] [dummy])"

definition SendFetchRequest :: "('s, 'x) gridspace_mpi_scheme \<Rightarrow> fetch_info \<Rightarrow> bool prog" where
  "SendFetchRequest gs finfo =
     (let peer_rank = nat (GetProcessRank gs (fi_peer_index finfo));
          size = to_size (accumulate (fi_peer_size finfo) (gs_num_dims gs))
      in if size = 0 then Ret False
         else bindP (SendGridRequest (gs_my_rank gs) peer_rank FETCH_REQUEST) (\<lambda>_.
           bindP (PS_MPI_Isend (MFetchInfo finfo) peer_rank) (\<lambda>_. Ret True)))"

definition HandleFetchRequest :: "int \<Rightarrow> mgrid \<Rightarrow> pstate \<Rightarrow> pstate prog" where
  "HandleFetchRequest rank g = (\<lambda>(gs, st).
     bindP (bindP (PS_MPI_Recv (nat rank)) (\<lambda>m. lift (expect_fetch_info m))) (\<lambda>finfo.
     let bytes = size_mult (to_size (accumulate (fi_peer_size finfo) (gs_num_dims gs))) (grid_elm_size g)
     in bindP (lift (ensure_buffer_capacity (gs_buf gs) (gs_cur_buf_size gs) bytes (hp st))) (\<lambda>(buf, h).
        bindP (lift (CopyoutSubgrid (grid_elm_size g) (gs_num_dims gs) (data0 g) (gm_local_size g) buf
                 (arr_minus (fi_peer_offset finfo) (gm_local_offset g)) (fi_peer_size finfo) h)) (\<lambda>h.
        bindP (SendGridRequest (gs_my_rank gs) (nat rank) FETCH_REPLY) (\<lambda>_.
        bindP (send_bytes buf bytes (nat rank) h) (\<lambda>_.
          Ret (gs\<lparr>gs_buf := buf\<rparr>, st\<lparr>hp := h\<rparr>)))))))"

text \<open>\<open>fetch_map[rank]\<close> makes a default entry when there is none.\<close>

definition HandleFetchReply ::
    "int \<Rightarrow> mgrid \<Rightarrow> (int \<times> fetch_info) list \<Rightarrow> gridmpi option \<Rightarrow> pstate \<Rightarrow> pstate prog" where
  "HandleFetchReply rank g fetch_map sg = (\<lambda>(gs, st).
     let finfo = (case map_of fetch_map rank of Some f \<Rightarrow> f
           | None \<Rightarrow> \<lparr>fi_peer_index = IntegerArray0, fi_peer_offset = IntegerArray0, fi_peer_size = IntegerArray0\<rparr>);
         bytes = size_mult (to_size (accumulate (fi_peer_size finfo) (gs_num_dims gs))) (grid_elm_size g)
     in bindP (lift (assertE (GetProcessRank gs (fi_peer_index finfo) = rank))) (\<lambda>_.
        bindP (lift (ensure_buffer_capacity (gs_buf gs) (gs_cur_buf_size gs) bytes (hp st))) (\<lambda>(buf, h).
        bindP (recv_bytes buf bytes (nat rank) h) (\<lambda>h.
        bindP (lift (case sg of None \<Rightarrow> Inl NullPointer | Some sg \<Rightarrow>
                 CopyinSubgrid (grid_elm_size sg) (gs_num_dims gs) (data0 sg) (gm_local_size sg) buf
                   (arr_minus (fi_peer_offset finfo) (gm_local_offset sg)) (fi_peer_size finfo) h)) (\<lambda>h.
          Ret (gs\<lparr>gs_buf := buf\<rparr>, st\<lparr>hp := h\<rparr>))))))"

text \<open>
  The loop that serves requests until every process has said that it is done. Each turn
  uses one unit of fuel.
\<close>

fun load_loop ::
    "nat \<Rightarrow> mgrid \<Rightarrow> (int \<times> fetch_info) list \<Rightarrow> gridmpi option \<Rightarrow> int \<Rightarrow> int \<Rightarrow> bool \<Rightarrow> pstate \<Rightarrow> pstate prog" where
  "load_loop 0 g fetch_map sg remaining done_count done_sent s = Fail Blocked"
| "load_loop (Suc fuel) g fetch_map sg remaining done_count done_sent (gs, st) =
     (if done_count = gs_num_procs gs then Ret (gs, st)
      else if remaining = 0 \<and> \<not> done_sent
      then bindP (foldP (\<lambda>i _. if int i = gs_my_rank gs then Ret ()
                     else SendGridRequest (gs_my_rank gs) i DONE) [0..<nat (gs_num_procs gs)] ()) (\<lambda>_.
             load_loop fuel g fetch_map sg remaining
               (if 0 \<le> gs_my_rank gs \<and> gs_my_rank gs < gs_num_procs gs then done_count + 1 else done_count)
               True (gs, st))
      else bindP RecvGridRequest (\<lambda>(rank, kind).
        if kind = DONE then load_loop fuel g fetch_map sg remaining (done_count + 1) done_sent (gs, st)
        else if kind = FETCH_REQUEST
        then bindP (HandleFetchRequest rank g (gs, st)) (\<lambda>s.
               load_loop fuel g fetch_map sg remaining done_count done_sent s)
        else if kind = FETCH_REPLY
        then bindP (HandleFetchReply rank g fetch_map sg (gs, st)) (\<lambda>s.
               load_loop fuel g fetch_map sg (remaining - 1) done_count done_sent s)
        else Fail (Aborted 1)))"

text \<open>What \<open>LoadSubgrid\<close> decides before it communicates: requests, the grid, the result.\<close>

definition load_plan ::
    "space \<Rightarrow> mgrid \<Rightarrow> idx \<Rightarrow> idx \<Rightarrow> bool \<Rightarrow> world \<Rightarrow>
      fault + (fetch_info list \<times> mgrid \<times> gridmpi option \<times> world)" where
  "load_plan gs g grid_offset box_size reuse st =
     bindE (assertE (arr_ge grid_offset 0)) (\<lambda>_.
     bindE (assertE (arr_ge box_size 0)) (\<lambda>_.
     bindE (CollectPerProcSubgridInfo gs g grid_offset box_size) (\<lambda>requests.
       if requests = [] then Inr ([], g, None, st)
       else if length requests = 1 \<and> GetProcessRank gs (fi_peer_index (requests ! 0)) = gs_my_rank gs
       then Inr ([], g, None, st)
       else if reuse \<and> (case gm_remote_grid g of None \<Rightarrow> False
                | Some r \<Rightarrow> gm_local_offset r = grid_offset \<and> gm_local_size r = box_size)
       then Inr ([], g\<lparr>gm_remote_grid_active := True\<rparr>, None, st)
       else bindE (EnsureRemoteGrid grid_offset box_size g st) (\<lambda>(g, st).
         Inr (requests, g\<lparr>gm_remote_grid_active := True\<rparr>, gm_remote_grid g, st)))))"

definition LoadSubgrid ::
    "nat \<Rightarrow> nat \<Rightarrow> idx \<Rightarrow> idx \<Rightarrow> bool \<Rightarrow> pstate \<Rightarrow> (bool \<times> pstate) prog" where
  "LoadSubgrid fuel a grid_offset box_size reuse = (\<lambda>(gs, st).
     bindP (lift (get_obj a gs)) (\<lambda>g.
     bindP (lift (load_plan gs g grid_offset box_size reuse st)) (\<lambda>(requests, g, sg, st).
     bindP (foldP (\<lambda>finfo (remaining, fetch_map).
          bindP (SendFetchRequest gs finfo) (\<lambda>sent.
            Ret (if sent
                 then (remaining + 1,
                       map_insert (GetProcessRank gs (fi_peer_index finfo), finfo) fetch_map)
                 else (remaining, fetch_map))))
        requests (0, [])) (\<lambda>(remaining, fetch_map).
     bindP (load_loop fuel g fetch_map sg remaining 0 False (put_obj a g gs, st)) (\<lambda>s.
       Ret (sg \<noteq> None, s))))))"

subsection \<open>Neighbours, owners and reductions\<close>

text \<open>The check of \<open>LoadNeighbor\<close>; a failed assertion ends the program before the other branch.\<close>

definition neighbor_overlap :: "('s, 'x) gridspace_mpi_scheme \<Rightarrow> nat \<Rightarrow> idx \<Rightarrow> idx \<Rightarrow> bool" where
  "neighbor_overlap gs nd offset_min offset_max =
     list_all (\<lambda>i. at offset_max i + at (gs_min_partition gs) i \<ge> 0 \<or>
                   at offset_min i \<le> at (gs_min_partition gs) i) [0..<nd]"

definition LoadNeighbor ::
    "nat \<Rightarrow> idx \<Rightarrow> idx \<Rightarrow> bool \<Rightarrow> bool \<Rightarrow> bool \<Rightarrow> pstate \<Rightarrow> pstate prog" where
  "LoadNeighbor a offset_min offset_max diagonal reuse periodic = (\<lambda>(gs, st).
     bindP (lift (get_obj a gs)) (\<lambda>g.
     bindP (lift (assertE (neighbor_overlap gs (grid_num_dims g) offset_min offset_max))) (\<lambda>_.
     let bw = arr_map2 (\<lambda>m _. if m \<le> 0 then nat \<bar>m\<bar> else 0) offset_min offset_max;
         fw = arr_map2 (\<lambda>_ m. if m \<ge> 0 then nat m else 0) offset_min offset_max
     in bindP (lift (get_id g)) (\<lambda>i.
          ExchangeBoundaries_id i fw bw diagonal periodic (gs, st)))))"

definition FindOwnerProcess :: "('s, 'x) gridspace_mpi_scheme \<Rightarrow> 'g gridmpi_scheme \<Rightarrow> idx \<Rightarrow> fault + int" where
  "FindOwnerProcess gs g index =
     bindE (CollectPerProcSubgridInfo gs g index (arr_Set 1)) (\<lambda>requests.
       bindE (assertE (length requests = 1)) (\<lambda>_.
         Inr (GetProcessRank gs (fi_peer_index (requests ! 0)))))"

text \<open>
  The free function \<open>LoadSubgrid\<close>: the box a stencil reads. \<open>dims[i]\<close> is the number of the
  running dimension, negative when it runs backwards, or 0 for a fixed point.
\<close>

definition subgrid_box :: "'g gridmpi_scheme \<Rightarrow> int list \<Rightarrow> idx \<Rightarrow> fault + (idx \<times> idx)" where
  "subgrid_box gm dims min_offsets =
     bindE (foldE (\<lambda>i (base_offset, base_size).
         bindE (array_get dims (int i)) (\<lambda>d.
           if d \<noteq> 0
           then (let k = nat (\<bar>d\<bar> - 1)
                 in if k < PS_MAX_DIM
                    then Inr (upd base_offset i (at (gm_local_offset gm) k),
                              upd base_size i (at (gm_local_size gm) k))
                    else Inl OutOfBounds)
           else Inr (upd base_offset i 0, upd base_size i 1)))
       [0..<grid_num_dims gm] (IntegerArray0, IntegerArray0)) (\<lambda>(base_offset, base_size).
     let base_right = arr_plus base_offset base_size;
         offset = fold (\<lambda>i off. upd off i
             (if dims ! i \<ge> 0 then at base_offset i + at min_offsets i
              else - at base_right i + 1 + at min_offsets i))
           [0..<grid_num_dims gm] IntegerArray0;
         right = arr_plus offset base_size;
         offset = SetNoLessThan_scalar offset 0;
         right = SetNoMoreThan right (grid_size gm)
     in Inr (offset, arr_minus right offset))"

definition LoadSubgrid_free :: "nat \<Rightarrow> nat \<Rightarrow> int list \<Rightarrow> idx \<Rightarrow> idx \<Rightarrow> bool \<Rightarrow> pstate \<Rightarrow> pstate prog" where
  "LoadSubgrid_free fuel a dims min_offsets max_offsets reuse = (\<lambda>(gs, st).
     bindP (lift (get_obj a gs)) (\<lambda>gm.
     bindP (lift (subgrid_box gm dims min_offsets)) (\<lambda>(offset, sz).
     bindP (LoadSubgrid fuel a offset sz reuse (gs, st)) (\<lambda>(_, s). Ret s))))"

text \<open>
  \<open>ReduceGrid\<close>: a process without elements contributes the default value, for \<open>double\<close> the
  one of \<open>float\<close> converted by \<open>f2d\<close>. \<open>mpi_reduce\<close> is the library's reduction of all
  contributions; only the root, rank 0, gets the result, at \<open>out\<close>.
\<close>

definition ReduceGrid_MPI ::
    "(cell list \<Rightarrow> 'f::{ord,plus,times,zero,one}) \<Rightarrow> (cell list \<Rightarrow> 'd::{ord,plus,times}) \<Rightarrow>
     ('f \<Rightarrow> cell list) \<Rightarrow> ('d \<Rightarrow> cell list) \<Rightarrow> ('f \<Rightarrow> 'd) \<Rightarrow> 'f \<Rightarrow> 'f \<Rightarrow>
     (MPI_Datatype \<Rightarrow> MPI_Op \<Rightarrow> msg list \<Rightarrow> cell list) \<Rightarrow>
     ptr \<Rightarrow> PSReduceOp \<Rightarrow> nat \<Rightarrow> pstate \<Rightarrow> (nat \<times> pstate) prog" where
  "ReduceGrid_MPI dec_f dec_d enc_f enc_d f2d flt_min flt_max mpi_reduce out op a = (\<lambda>(gs, st).
     bindP (lift (get_obj a gs)) (\<lambda>g.
     let (p, h) = malloc (grid_elm_size g) (hp st)
     in bindP (lift (GridMPI_Reduce dec_f dec_d enc_f enc_d g op p h)) (\<lambda>(n, h).
        bindP (if n = 0
               then lift (if grid_type g = PS_FLOAT
                          then bindE (GetReductionDefaultValue_float flt_min flt_max op) (\<lambda>v. store p (enc_f v) h)
                          else if grid_type g = PS_DOUBLE
                          then bindE (GetReductionDefaultValue_float flt_min flt_max op) (\<lambda>v. store p (enc_d (f2d v)) h)
                          else Inl (Aborted 1))
               else Ret h) (\<lambda>h.
        bindP (lift (GetMPIDataType (grid_type g))) (\<lambda>type.
        bindP (lift (GetMPIOp op)) (\<lambda>mpi_op.
        bindP (lift (load p (grid_elm_size g) h)) (\<lambda>cs.
        Collect (MBytes cs) (\<lambda>ms.
          bindP (lift (if gs_my_rank gs = 0 then store out (mpi_reduce type mpi_op ms) h else Inr h)) (\<lambda>h.
          bindP (lift (free p h)) (\<lambda>h.
            Ret (grid_num_elms g, gs, st\<lparr>hp := h\<rparr>)))))))))))"

end
