(* ===== verification/Rpc_MPI.thy ===== *)
theory Rpc_MPI imports Grid_Space_MPI begin

text \<open>
  The remote calls between the master, rank 0, and the clients (\<open>runtime/rpc_mpi.h\<close>,
  \<open>runtime/rpc_mpi.cc\<close>) and the transfers of host buffers (\<open>runtime/buffer.cc\<close>). The master
  broadcasts the kind of a call; every client listens for it and runs the handler of that
  kind. The generated stencil functions and the library's reduction are arguments.
\<close>

subsection \<open>Transfers of host buffers\<close>

definition BufferHost_MPIRecv :: "nat \<Rightarrow> idx \<Rightarrow> idx \<Rightarrow> buffer \<Rightarrow> heap \<Rightarrow> (buffer \<times> heap) prog" where
  "BufferHost_MPIRecv src offset sz b h =
     bindP (lift (Buffer_EnsureCapacity1 BufferHost_GetChunk (arr_plus offset sz) b h)) (\<lambda>(b, h).
       bindP (lift (assertE (arr_eq offset 0))) (\<lambda>_.
         bindP (recv_bytes (buf_ptr b) (GetLinearSize_of b sz) src h) (\<lambda>h. Ret (b, h))))"

text \<open>The comparison of index arrays is the library's, as in \<open>Host_Buffer\<close>.\<close>

definition BufferHost_MPISend ::
    "(idx \<Rightarrow> idx \<Rightarrow> bool) \<Rightarrow> nat \<Rightarrow> idx \<Rightarrow> idx \<Rightarrow> buffer \<Rightarrow> heap \<Rightarrow> unit prog" where
  "BufferHost_MPISend le dst offset s b h =
     bindP (lift (assertE (le (arr_plus offset s) (buf_size b)))) (\<lambda>_.
       bindP (lift (assertE (arr_eq offset 0))) (\<lambda>_.
         send_bytes (buf_ptr b) (GetLinearSize_of b s) dst h))"

definition BufferHost_MPIIrecv ::
    "nat \<Rightarrow> idx \<Rightarrow> idx \<Rightarrow> buffer \<Rightarrow> heap \<Rightarrow> fault + (buffer \<times> heap \<times> recv_request)" where
  "BufferHost_MPIIrecv src offset sz b h =
     bindE (Buffer_EnsureCapacity1 BufferHost_GetChunk (arr_plus offset sz) b h) (\<lambda>(b, h).
       bindE (assertE (arr_eq offset 0)) (\<lambda>_.
         Inr (b, h, (src, buf_ptr b, GetLinearSize_of b sz))))"

definition BufferHost_MPIIsend ::
    "(idx \<Rightarrow> idx \<Rightarrow> bool) \<Rightarrow> nat \<Rightarrow> idx \<Rightarrow> idx \<Rightarrow> buffer \<Rightarrow> heap \<Rightarrow> unit prog" where
  "BufferHost_MPIIsend le dst offset s b h =
     bindP (lift (assertE (le (arr_plus offset s) (buf_size b)))) (\<lambda>_.
       bindP (lift (assertE (arr_eq offset 0))) (\<lambda>_.
         send_bytes (buf_ptr b) (GetLinearSize_of b s) dst h))"

subsection \<open>Requests\<close>

datatype rt_func_kind =
    FUNC_INVALID | FUNC_NEW | FUNC_DELETE | FUNC_COPYIN | FUNC_COPYOUT | FUNC_GET | FUNC_SET
  | FUNC_RUN | FUNC_FINALIZE | FUNC_BARRIER | FUNC_GRID_REDUCE

definition kinds :: "rt_func_kind list" where
  "kinds = [FUNC_INVALID, FUNC_NEW, FUNC_DELETE, FUNC_COPYIN, FUNC_COPYOUT, FUNC_GET, FUNC_SET,
     FUNC_RUN, FUNC_FINALIZE, FUNC_BARRIER, FUNC_GRID_REDUCE]"

fun kind_code :: "rt_func_kind \<Rightarrow> int" where
  "kind_code FUNC_INVALID = 0"
| "kind_code FUNC_NEW = 1"
| "kind_code FUNC_DELETE = 2"
| "kind_code FUNC_COPYIN = 3"
| "kind_code FUNC_COPYOUT = 4"
| "kind_code FUNC_GET = 5"
| "kind_code FUNC_SET = 6"
| "kind_code FUNC_RUN = 7"
| "kind_code FUNC_FINALIZE = 8"
| "kind_code FUNC_BARRIER = 9"
| "kind_code FUNC_GRID_REDUCE = 10"

definition kind_of_code :: "int \<Rightarrow> rt_func_kind option" where
  "kind_of_code k = (if 0 \<le> k \<and> k < 11 then Some (kinds ! nat k) else None)"

lemma kind_of_code_code [simp]: "kind_of_code (kind_code k) = Some k"
  by (cases k) (simp_all add: kind_of_code_def kinds_def)

definition NotifyCall :: "rt_func_kind \<Rightarrow> int \<Rightarrow> unit prog" where
  "NotifyCall fkind opt = PS_MPI_Bcast_root (MRequest (kind_code fkind) opt)"

subsection \<open>Finalize, barrier, creation and deletion\<close>

definition Master_Finalize :: "pstate \<Rightarrow> pstate prog" where
  "Master_Finalize s = bindP (NotifyCall FUNC_FINALIZE 0) (\<lambda>_. Ret s)"

definition Client_Finalize :: "pstate \<Rightarrow> pstate prog" where
  "Client_Finalize s = Fail (Exited 0)"

definition Master_Barrier :: "pstate \<Rightarrow> pstate prog" where
  "Master_Barrier s = bindP (NotifyCall FUNC_BARRIER 0) (\<lambda>_. bindP MPI_Barrier (\<lambda>_. Ret s))"

definition Client_Barrier :: "pstate \<Rightarrow> pstate prog" where
  "Client_Barrier s = bindP MPI_Barrier (\<lambda>_. Ret s)"

definition Master_GridNew ::
    "int \<Rightarrow> nat \<Rightarrow> nat \<Rightarrow> idx \<Rightarrow> bool \<Rightarrow> idx \<Rightarrow> nat \<Rightarrow> pstate \<Rightarrow> (nat \<times> pstate) prog" where
  "Master_GridNew type e num_dims sz double_buffering global_offset attr s =
     bindP (NotifyCall FUNC_NEW 0) (\<lambda>_.
     bindP (PS_MPI_Bcast_root (MRequestNew \<lparr>rn_type = type, rn_elm_size = e, rn_num_dims = num_dims,
         rn_size = sz, rn_double_buffering = double_buffering, rn_global_offset = global_offset,
         rn_attr = attr\<rparr>)) (\<lambda>_.
     lift (CreateGrid type e num_dims sz double_buffering global_offset attr s)))"

definition Client_GridNew :: "pstate \<Rightarrow> pstate prog" where
  "Client_GridNew s =
     bindP (bindP PS_MPI_Bcast (\<lambda>m. lift (expect_request_new m))) (\<lambda>req.
     bindP (lift (CreateGrid (rn_type req) (rn_elm_size req) (rn_num_dims req) (rn_size req)
         (rn_double_buffering req) (rn_global_offset req) (rn_attr req) s)) (\<lambda>(a, s). Ret s))"

definition Master_GridDelete :: "nat \<Rightarrow> pstate \<Rightarrow> pstate prog" where
  "Master_GridDelete a = (\<lambda>(gs, st).
     bindP (lift (bindE (get_obj a gs) get_id)) (\<lambda>i.
     bindP (NotifyCall FUNC_DELETE i) (\<lambda>_. lift (gs_DeleteGrid a (gs, st)))))"

definition Client_GridDelete :: "int \<Rightarrow> pstate \<Rightarrow> pstate prog" where
  "Client_GridDelete i s = lift (gs_DeleteGrid_id i s)"

subsection \<open>Copies of whole grids\<close>

definition Master_GridCopyinLocal :: "mgrid \<Rightarrow> ptr \<Rightarrow> world \<Rightarrow> fault + world" where
  "Master_GridCopyinLocal g buf st =
     (let s = size_mult (to_size (accumulate (gm_local_size g) (grid_num_dims g))) (grid_elm_size g)
      in bindE (buffer_at (data_buffer0 g) st) (\<lambda>b.
         bindE (assertE (GetLinearSize b = s)) (\<lambda>_.
           on_heap (CopyoutSubgrid (grid_elm_size g) (grid_num_dims g) buf (grid_size g) (buf_ptr b)
             (gm_local_offset g) (gm_local_size g)) st)))"

definition copyin_send :: "mgrid \<Rightarrow> ptr \<Rightarrow> nat \<Rightarrow> buffer \<times> heap \<Rightarrow> (buffer \<times> heap) prog" where
  "copyin_send g buf i = (\<lambda>(sbuf, h).
     bindP (bindP (PS_MPI_Recv i) (\<lambda>m. lift (expect_idx m))) (\<lambda>subgrid_offset.
     bindP (bindP (PS_MPI_Recv i) (\<lambda>m. lift (expect_idx m))) (\<lambda>subgrid_size.
     let gsize = GetLinearSize_of sbuf subgrid_size
     in if gsize = 0 then Ret (sbuf, h)
        else bindP (lift (Buffer_EnsureCapacity1 BufferHost_GetChunk subgrid_size sbuf h)) (\<lambda>(sbuf, h).
             bindP (lift (CopyoutSubgrid (grid_elm_size g) (grid_num_dims g) buf (grid_size g) (buf_ptr sbuf)
                      subgrid_offset subgrid_size h)) (\<lambda>h.
             bindP (send_bytes (buf_ptr sbuf) gsize i h) (\<lambda>_. Ret (sbuf, h)))))))"

definition Master_GridCopyin :: "nat \<Rightarrow> ptr \<Rightarrow> pstate \<Rightarrow> pstate prog" where
  "Master_GridCopyin a buf = (\<lambda>(gs, st).
     bindP (lift (get_obj a gs)) (\<lambda>g.
     bindP (lift (Master_GridCopyinLocal g buf st)) (\<lambda>st.
     bindP (lift (get_id g)) (\<lambda>i.
     bindP (NotifyCall FUNC_COPYIN i) (\<lambda>_.
     bindP (foldP (copyin_send g buf) [1..<nat (gs_num_procs gs)]
              (BufferHost_new (grid_num_dims g) (grid_elm_size g), hp st)) (\<lambda>(sbuf, h).
     bindP (lift (Buffer_Delete sbuf h)) (\<lambda>(_, h). Ret (gs, st\<lparr>hp := h\<rparr>))))))))"

definition Client_GridCopyin :: "int \<Rightarrow> pstate \<Rightarrow> pstate prog" where
  "Client_GridCopyin i = (\<lambda>(gs, st).
     bindP (lift (bindE (FindGrid i gs) (\<lambda>a. get_obj a gs))) (\<lambda>g.
     bindP (PS_MPI_Send (MIdx (gm_local_offset g)) 0) (\<lambda>_.
     bindP (PS_MPI_Send (MIdx (gm_local_size g)) 0) (\<lambda>_.
       if gm_empty g then Ret (gs, st)
       else bindP (lift (buffer_at (data_buffer0 g) st)) (\<lambda>b.
            bindP (BufferHost_MPIRecv 0 IntegerArray0 (gm_local_size g) b (hp st)) (\<lambda>(b', h).
            bindP (lift (assertE (buf_ptr b' = buf_ptr b))) (\<lambda>_.
              Ret (gs, st\<lparr>hp := h, bufs := (bufs st)(the (data_buffer0 g) \<mapsto> b')\<rparr>))))))))"

definition Master_GridCopyoutLocal :: "mgrid \<Rightarrow> ptr \<Rightarrow> world \<Rightarrow> fault + world" where
  "Master_GridCopyoutLocal g buf st =
     (if gm_empty g then Inr st
      else bindE (buffer_ptr (data_buffer0 g) st) (\<lambda>p.
        on_heap (CopyinSubgrid (grid_elm_size g) (grid_num_dims g) buf (grid_size g) p
          (gm_local_offset g) (gm_local_size g)) st))"

definition copyout_recv :: "mgrid \<Rightarrow> ptr \<Rightarrow> nat \<Rightarrow> buffer \<times> heap \<Rightarrow> (buffer \<times> heap) prog" where
  "copyout_recv g buf i = (\<lambda>(sbuf, h).
     bindP (bindP (PS_MPI_Recv i) (\<lambda>m. lift (expect_idx m))) (\<lambda>subgrid_offset.
     bindP (bindP (PS_MPI_Recv i) (\<lambda>m. lift (expect_idx m))) (\<lambda>subgrid_size.
     let gsize = GetLinearSize_of sbuf subgrid_size
     in if gsize = 0 then Ret (sbuf, h)
        else bindP (BufferHost_MPIRecv i IntegerArray0 subgrid_size sbuf h) (\<lambda>(sbuf, h).
             bindP (lift (CopyinSubgrid (grid_elm_size g) (grid_num_dims g) buf (grid_size g) (buf_ptr sbuf)
                      subgrid_offset subgrid_size h)) (\<lambda>h. Ret (sbuf, h))))))"

definition Master_GridCopyout :: "nat \<Rightarrow> ptr \<Rightarrow> pstate \<Rightarrow> pstate prog" where
  "Master_GridCopyout a buf = (\<lambda>(gs, st).
     bindP (lift (get_obj a gs)) (\<lambda>g.
     bindP (lift (Master_GridCopyoutLocal g buf st)) (\<lambda>st.
     bindP (lift (get_id g)) (\<lambda>i.
     bindP (NotifyCall FUNC_COPYOUT i) (\<lambda>_.
     bindP (foldP (copyout_recv g buf) [1..<nat (gs_num_procs gs)]
              (BufferHost_new (grid_num_dims g) (grid_elm_size g), hp st)) (\<lambda>(sbuf, h).
     bindP (lift (Buffer_Delete sbuf h)) (\<lambda>(_, h). Ret (gs, st\<lparr>hp := h\<rparr>))))))))"

definition Client_GridCopyout :: "(idx \<Rightarrow> idx \<Rightarrow> bool) \<Rightarrow> int \<Rightarrow> pstate \<Rightarrow> pstate prog" where
  "Client_GridCopyout le i = (\<lambda>(gs, st).
     bindP (lift (bindE (FindGrid i gs) (\<lambda>a. get_obj a gs))) (\<lambda>g.
     bindP (PS_MPI_Send (MIdx (gm_local_offset g)) 0) (\<lambda>_.
     bindP (PS_MPI_Send (MIdx (gm_local_size g)) 0) (\<lambda>_.
       if gm_empty g then Ret (gs, st)
       else bindP (lift (buffer_at (data_buffer0 g) st)) (\<lambda>b.
            bindP (BufferHost_MPISend le 0 IntegerArray0 (gm_local_size g) b (hp st)) (\<lambda>_.
              Ret (gs, st)))))))"

subsection \<open>Stencil runs\<close>

text \<open>
  \<open>__PS_stencils[id](iter, stencils)\<close> is generated code: \<open>stencil\<close> gets the identifier, the
  number of iterations and the pointers to the stencil objects.
\<close>

type_synonym stencil_fun = "int \<Rightarrow> int \<Rightarrow> ptr list \<Rightarrow> pstate \<Rightarrow> pstate prog"

definition bcast_object :: "ptr \<times> nat \<Rightarrow> heap \<Rightarrow> unit prog" where
  "bcast_object ps h =
     (if snd ps = 0 then PS_MPI_Bcast_root (MBytes [])
      else bindP (lift (load (fst ps) (snd ps) h)) (\<lambda>cs. PS_MPI_Bcast_root (MBytes cs)))"

definition Master_StencilRun ::
    "stencil_fun \<Rightarrow> int \<Rightarrow> int \<Rightarrow> ptr list \<Rightarrow> nat list \<Rightarrow> pstate \<Rightarrow> pstate prog" where
  "Master_StencilRun stencil sid iter stencils stencil_sizes = (\<lambda>(gs, st).
     bindP (NotifyCall FUNC_RUN sid) (\<lambda>_.
     bindP (PS_MPI_Bcast_root (MInt iter)) (\<lambda>_.
     bindP (PS_MPI_Bcast_root (MInt (int (length stencils)))) (\<lambda>_.
     bindP (PS_MPI_Bcast_root (MInts stencil_sizes)) (\<lambda>_.
     bindP (foldP (\<lambda>ps _. bcast_object ps (hp st)) (zip stencils stencil_sizes) ()) (\<lambda>_.
       stencil sid iter stencils (gs, st)))))))"

definition recv_object :: "nat \<Rightarrow> ptr list \<times> heap \<Rightarrow> (ptr list \<times> heap) prog" where
  "recv_object sz = (\<lambda>(stencils, h).
     let (p, h) = malloc sz h
     in bindP (bindP PS_MPI_Bcast (\<lambda>m. lift (expect_bytes m))) (\<lambda>cs.
        bindP (lift (if cs = [] then Inr h else if length cs \<noteq> sz then Inl (Aborted 1) else store p cs h)) (\<lambda>h.
          Ret (stencils @ [p], h))))"

definition Client_StencilRun :: "stencil_fun \<Rightarrow> int \<Rightarrow> pstate \<Rightarrow> pstate prog" where
  "Client_StencilRun stencil sid = (\<lambda>(gs, st).
     bindP (bindP PS_MPI_Bcast (\<lambda>m. lift (expect_int m))) (\<lambda>iter.
     bindP (bindP PS_MPI_Bcast (\<lambda>m. lift (expect_int m))) (\<lambda>num_stencils.
     bindP (bindP PS_MPI_Bcast (\<lambda>m. lift (expect_ints m))) (\<lambda>stencil_sizes.
     bindP (lift (assertE (int (length stencil_sizes) = num_stencils))) (\<lambda>_.
     bindP (foldP recv_object stencil_sizes ([], hp st)) (\<lambda>(stencils, h).
       stencil sid iter stencils (gs, st\<lparr>hp := h\<rparr>)))))))"

subsection \<open>Single elements\<close>

definition Client_GridGet :: "nat \<Rightarrow> int \<Rightarrow> pstate \<Rightarrow> pstate prog" where
  "Client_GridGet fuel i = (\<lambda>(gs, st).
     bindP (lift (FindGrid i gs)) (\<lambda>a.
     bindP (LoadSubgrid fuel a IntegerArray0 IntegerArray0 False (gs, st)) (\<lambda>(_, s). Ret s)))"

definition Master_GridGet :: "nat \<Rightarrow> nat \<Rightarrow> ptr \<Rightarrow> idx \<Rightarrow> pstate \<Rightarrow> pstate prog" where
  "Master_GridGet fuel a buf index = (\<lambda>(gs, st).
     bindP (lift (bindE (get_obj a gs) get_id)) (\<lambda>i.
     bindP (NotifyCall FUNC_GET i) (\<lambda>_.
     bindP (LoadSubgrid fuel a index (arr_Set 1) False (gs, st)) (\<lambda>(_, gs, st).
     bindP (lift (get_obj a gs)) (\<lambda>g.
     bindP (lift (GridMPI_Get g index buf st)) (\<lambda>st. Ret (gs, st)))))))"

text \<open>The option of a set request is the rank of the owner; the other clients ignore it.\<close>

definition Client_GridSet :: "int \<Rightarrow> pstate \<Rightarrow> pstate prog" where
  "Client_GridSet r = (\<lambda>(gs, st).
     if r \<noteq> gs_my_rank gs then Ret (gs, st)
     else bindP (bindP (PS_MPI_Recv 0) (\<lambda>m. lift (expect_int m))) (\<lambda>gid.
          bindP (lift (bindE (FindGrid gid gs) (\<lambda>a. get_obj a gs))) (\<lambda>g.
          bindP (bindP (PS_MPI_Recv 0) (\<lambda>m. lift (expect_idx m))) (\<lambda>index.
          let (buf, h) = malloc (grid_elm_size g) (hp st)
          in bindP (recv_bytes buf (grid_elm_size g) 0 h) (\<lambda>h.
             bindP (lift (GridMPI_Set g index buf (st\<lparr>hp := h\<rparr>))) (\<lambda>st. Ret (gs, st)))))))"

definition Master_GridSet :: "nat \<Rightarrow> ptr \<Rightarrow> idx \<Rightarrow> pstate \<Rightarrow> pstate prog" where
  "Master_GridSet a buf index = (\<lambda>(gs, st).
     bindP (lift (get_obj a gs)) (\<lambda>g.
     bindP (lift (FindOwnerProcess gs g index)) (\<lambda>peer_rank.
       if peer_rank \<noteq> gs_my_rank gs
       then bindP (NotifyCall FUNC_SET peer_rank) (\<lambda>_.
            bindP (lift (get_id g)) (\<lambda>gid.
            bindP (PS_MPI_Send (MInt gid) (nat peer_rank)) (\<lambda>_.
            bindP (PS_MPI_Send (MIdx index) (nat peer_rank)) (\<lambda>_.
            bindP (send_bytes buf (grid_elm_size g) (nat peer_rank) (hp st)) (\<lambda>_. Ret (gs, st))))))
       else bindP (lift (GridMPI_Set g index buf st)) (\<lambda>st. Ret (gs, st)))))"

subsection \<open>Reductions and the client's loop\<close>

text \<open>\<open>reduce out op a\<close> is \<open>ReduceGrid_MPI\<close> with the representations of the types.\<close>

type_synonym reduce_fun = "ptr \<Rightarrow> PSReduceOp \<Rightarrow> nat \<Rightarrow> pstate \<Rightarrow> (nat \<times> pstate) prog"

definition Client_GridReduce :: "reduce_fun \<Rightarrow> int \<Rightarrow> pstate \<Rightarrow> pstate prog" where
  "Client_GridReduce reduce i = (\<lambda>(gs, st).
     bindP (lift (FindGrid i gs)) (\<lambda>a.
     bindP (bindP PS_MPI_Bcast (\<lambda>m. lift (expect_reduce_op m))) (\<lambda>op.
     bindP (reduce Null op a (gs, st)) (\<lambda>(_, s). Ret s))))"

definition Master_GridReduce :: "reduce_fun \<Rightarrow> ptr \<Rightarrow> PSReduceOp \<Rightarrow> nat \<Rightarrow> pstate \<Rightarrow> pstate prog" where
  "Master_GridReduce reduce buf op a = (\<lambda>(gs, st).
     bindP (lift (bindE (get_obj a gs) get_id)) (\<lambda>i.
     bindP (NotifyCall FUNC_GRID_REDUCE i) (\<lambda>_.
     bindP (PS_MPI_Bcast_root (MReduceOp op)) (\<lambda>_.
     bindP (reduce buf op a (gs, st)) (\<lambda>(_, s). Ret s)))))"

text \<open>
  \<open>Client::Listen\<close> for at most \<open>n\<close> requests: the loop has no end of its own, \<open>Finalize\<close>
  exits the process. \<open>fuel\<close> bounds the loops of the handlers that load subgrids.
\<close>

definition client_handler ::
    "(idx \<Rightarrow> idx \<Rightarrow> bool) \<Rightarrow> stencil_fun \<Rightarrow> reduce_fun \<Rightarrow> nat \<Rightarrow> int \<Rightarrow> int \<Rightarrow> pstate \<Rightarrow> pstate prog" where
  "client_handler le stencil reduce fuel kind opt s =
     (case kind_of_code kind of
        None \<Rightarrow> Fail (Aborted 1)
      | Some k \<Rightarrow>
         (case k of
            FUNC_FINALIZE \<Rightarrow> Client_Finalize s
          | FUNC_BARRIER \<Rightarrow> Client_Barrier s
          | FUNC_NEW \<Rightarrow> Client_GridNew s
          | FUNC_DELETE \<Rightarrow> Client_GridDelete opt s
          | FUNC_COPYIN \<Rightarrow> Client_GridCopyin opt s
          | FUNC_COPYOUT \<Rightarrow> Client_GridCopyout le opt s
          | FUNC_GET \<Rightarrow> Client_GridGet fuel opt s
          | FUNC_SET \<Rightarrow> Client_GridSet opt s
          | FUNC_RUN \<Rightarrow> Client_StencilRun stencil opt s
          | FUNC_GRID_REDUCE \<Rightarrow> Client_GridReduce reduce opt s
          | FUNC_INVALID \<Rightarrow> Fail (Aborted 1)))"

fun Client_Listen ::
    "(idx \<Rightarrow> idx \<Rightarrow> bool) \<Rightarrow> stencil_fun \<Rightarrow> reduce_fun \<Rightarrow> nat \<Rightarrow> nat \<Rightarrow> pstate \<Rightarrow> pstate prog" where
  "Client_Listen le stencil reduce fuel 0 s = Ret s"
| "Client_Listen le stencil reduce fuel (Suc n) s =
     bindP (bindP PS_MPI_Bcast (\<lambda>m. lift (expect_request m))) (\<lambda>(kind, opt).
     bindP (client_handler le stencil reduce fuel kind opt s)
       (Client_Listen le stencil reduce fuel n))"

end
