(* ===== verification/Rpc_Copy.thy ===== *)
theory Rpc_Copy imports Rpc_MPI begin

text \<open>
  The copies of whole grids by all processes together: the master in \<open>GridCopyin\<close> or
  \<open>GridCopyout\<close>, the clients in \<open>Listen\<close>. One schedule is followed to its end; by
  \<open>runs_agree\<close> every other schedule ends there too.
\<close>

subsection \<open>A master and its clients\<close>

definition mnet :: "nat \<Rightarrow> 'a prog \<Rightarrow> (nat \<Rightarrow> 'a prog) \<Rightarrow> (nat \<Rightarrow> msg list) \<Rightarrow> 'a network" where
  "mnet np M P bq = \<lparr>procs = M # map P [1..<np], chans = (\<lambda>_ _. []), bqueue = bq\<rparr>"

lemma clients_upd:
  "1 \<le> i \<Longrightarrow> i < np \<Longrightarrow> (M # map P [1..<np])[i := X] = M # map (P(i := X)) [1..<np]"
  by (rule nth_equalityI) (auto simp: nth_list_update nth_Cons split: nat.splits)

lemma clients_nth: "1 \<le> i \<Longrightarrow> i < np \<Longrightarrow> (M # map P [1..<np]) ! i = P i"
  by (simp add: nth_Cons split: nat.splits)

lemma mnet_cong: "(\<And>i. 1 \<le> i \<Longrightarrow> i < np \<Longrightarrow> P i = Q i) \<Longrightarrow> mnet np M P bq = mnet np M Q bq"
  by (simp add: mnet_def)

lemma step_bcast:
  assumes "1 \<le> np"
  shows "det_step\<^sup>*\<^sup>* (mnet np (BcastSend m p) P (\<lambda>_. [])) (mnet np p P (\<lambda>j. if 0 < j \<and> j < np then [m] else []))"
proof -
  have "proc_step 0 (mnet np (BcastSend m p) P (\<lambda>_. [])) = Some (mnet np p P (\<lambda>j. if 0 < j \<and> j < np then [m] else []))"
    using assms by (simp add: proc_step_def mnet_def cong: if_cong)
  then show ?thesis by (intro r_into_rtranclp det_proc)
qed

lemma step_listen:
  assumes "1 \<le> i" "i < np" "P i = BcastRecv k" "bq i = m # ms"
  shows "det_step\<^sup>*\<^sup>* (mnet np M P bq) (mnet np M (P(i := k m)) (bq(i := ms)))"
proof -
  have "proc_step i (mnet np M P bq) = Some (mnet np M (P(i := k m)) (bq(i := ms)))"
    using assms clients_nth[OF assms(1,2), of M P] clients_upd[OF assms(1,2), of M P]
    by (simp add: proc_step_def mnet_def)
  then show ?thesis by (intro r_into_rtranclp det_proc)
qed

text \<open>A message handed over: the sender's step and the receiver's.\<close>

lemma step_to_master:
  assumes "1 \<le> i" "i < np" "P i = Send 0 m p"
  shows "det_step\<^sup>*\<^sup>* (mnet np (Recv i k) P bq) (mnet np (k m) (P(i := p)) bq)"
proof -
  let ?c = "\<lparr>procs = Recv i k # map (P(i := p)) [1..<np],
    chans = (\<lambda>s d. if s = i \<and> d = 0 then [m] else []), bqueue = bq\<rparr>"
  have "proc_step i (mnet np (Recv i k) P bq) = Some ?c"
    using assms clients_nth[OF assms(1,2), of "Recv i k" P] clients_upd[OF assms(1,2), of "Recv i k" P]
    by (auto simp: proc_step_def mnet_def fun_eq_iff)
  moreover have "proc_step 0 ?c = Some (mnet np (k m) (P(i := p)) bq)"
    by (auto simp: proc_step_def mnet_def fun_eq_iff)
  ultimately show ?thesis by (meson det_proc r_into_rtranclp rtranclp.rtrancl_into_rtrancl)
qed

lemma step_to_client:
  assumes "1 \<le> i" "i < np" "P i = Recv 0 k"
  shows "det_step\<^sup>*\<^sup>* (mnet np (Send i m p) P bq) (mnet np p (P(i := k m)) bq)"
proof -
  let ?c = "\<lparr>procs = p # map P [1..<np],
    chans = (\<lambda>s d. if s = 0 \<and> d = i then [m] else []), bqueue = bq\<rparr>"
  have "proc_step 0 (mnet np (Send i m p) P bq) = Some ?c"
    by (auto simp: proc_step_def mnet_def fun_eq_iff)
  moreover have "proc_step i ?c = Some (mnet np p (P(i := k m)) bq)"
    using assms clients_nth[OF assms(1,2), of p P] clients_upd[OF assms(1,2), of p P]
    by (auto simp: proc_step_def mnet_def fun_eq_iff)
  ultimately show ?thesis by (meson det_proc r_into_rtranclp rtranclp.rtrancl_into_rtrancl)
qed

text \<open>
  A call that the master makes with each client in turn: if client \<open>i\<close>, having taken the
  broadcast, and the master's turn \<open>i\<close> run together from \<open>C i\<close> to \<open>D i\<close>, keeping the
  invariant of the master's loop, then the loop runs with all the clients.
\<close>

lemma clients_in_turn:
  fixes K :: "'x \<Rightarrow> 'a prog"
  assumes turn: "\<And>i x P bq K. 1 \<le> i \<Longrightarrow> i < np \<Longrightarrow> I i x \<Longrightarrow> P i = C i \<Longrightarrow>
      \<exists>x'. I (Suc i) x' \<and>
        det_step\<^sup>*\<^sup>* (mnet np (bindP (F i x) K) P bq) (mnet np (K x' :: 'a prog) (P(i := D i)) bq)"
    and listen: "\<And>i. 1 \<le> i \<Longrightarrow> i < np \<Longrightarrow> \<exists>k. L i = BcastRecv k \<and> k m = C i"
    and np: "1 \<le> np" and start: "I 1 x"
  shows "\<exists>x'. I np x' \<and> det_step\<^sup>*\<^sup>*
    (mnet np (bindP (foldP F [1..<np] x) K) L (\<lambda>j. if 0 < j \<and> j < np then [m] else []))
    (mnet np (K x') D (\<lambda>_. []))"
proof -
  have "\<exists>x'. I np x' \<and> det_step\<^sup>*\<^sup>*
      (mnet np (bindP (foldP F [k..<np] x) K) (\<lambda>j. if j < k then D j else L j)
        (\<lambda>j. if k \<le> j \<and> j < np then [m] else []))
      (mnet np (K x') D (\<lambda>_. []))" if "1 \<le> k" "k \<le> np" "I k x" for k x
    using that
  proof (induction "np - k" arbitrary: k x)
    case 0
    then have k: "k = np" by simp
    have q: "(\<lambda>j. if k \<le> j \<and> j < np then [m] else []) = (\<lambda>_. [])" using k by auto
    have "mnet np (bindP (foldP F [k..<np] x) K) (\<lambda>j. if j < k then D j else L j)
        (\<lambda>j. if k \<le> j \<and> j < np then [m] else []) = mnet np (K x) D (\<lambda>_. [])"
      unfolding q using k by (simp add: mnet_def)
    then show ?case using 0 k by (intro exI[of _ x]) simp
  next
    case (Suc d)
    then have k: "1 \<le> k" "k < np" by auto
    let ?P = "\<lambda>j. if j < k then D j else L j" and ?bq = "\<lambda>j. if k \<le> j \<and> j < np then [m] else []"
    let ?bq' = "\<lambda>j. if Suc k \<le> j \<and> j < np then [m] else []"
    let ?K = "\<lambda>x. bindP (foldP F [Suc k..<np] x) K"
    obtain g where g: "L k = BcastRecv g" "g m = C k" using listen[OF k] by blast
    have fold: "bindP (foldP F [k..<np] x) K = bindP (F k x) ?K"
      using k by (simp add: upt_rec[of k np] bindP_assoc)
    have q: "?bq(k := []) = ?bq'" by auto
    have "det_step\<^sup>*\<^sup>* (mnet np (bindP (F k x) ?K) ?P ?bq) (mnet np (bindP (F k x) ?K) (?P(k := C k)) ?bq')"
      using step_listen[of k np ?P g ?bq m "[]"] k g q by simp
    moreover obtain x1 where x1: "I (Suc k) x1"
        "det_step\<^sup>*\<^sup>* (mnet np (bindP (F k x) ?K) (?P(k := C k)) ?bq')
          (mnet np (?K x1) (?P(k := C k, k := D k)) ?bq')"
      using turn[OF k Suc.prems(3), of "?P(k := C k)" ?K ?bq'] by auto
    moreover have "mnet np (?K x1) (?P(k := C k, k := D k)) ?bq' =
        mnet np (?K x1) (\<lambda>j. if j < Suc k then D j else L j) ?bq'"
      by (rule mnet_cong) auto
    moreover obtain x' where "I np x'" "det_step\<^sup>*\<^sup>*
        (mnet np (?K x1) (\<lambda>j. if j < Suc k then D j else L j) ?bq') (mnet np (K x') D (\<lambda>_. []))"
    proof -
      have "d = np - Suc k" using Suc.hyps(2) by simp
      from Suc.hyps(1)[OF this _ _ x1(1)] k that show ?thesis by auto
    qed
    ultimately show ?case unfolding fold by (metis (no_types, lifting) rtranclp_trans)
  qed
  from this[OF order_refl np start] obtain x' where x': "I np x'" "det_step\<^sup>*\<^sup>*
      (mnet np (bindP (foldP F [1..<np] x) K) (\<lambda>j. if j < 1 then D j else L j)
        (\<lambda>j. if 1 \<le> j \<and> j < np then [m] else []))
      (mnet np (K x') D (\<lambda>_. []))" by blast
  have "mnet np (bindP (foldP F [1..<np] x) K) (\<lambda>j. if j < 1 then D j else L j)
        (\<lambda>j. if 1 \<le> j \<and> j < np then [m] else []) =
      mnet np (bindP (foldP F [1..<np] x) K) L (\<lambda>j. if 0 < j \<and> j < np then [m] else [])"
    by (simp add: mnet_def Suc_le_eq)
  then show ?thesis using x' by metis
qed

subsection \<open>One process's part of a grid\<close>

text \<open>
  In state \<open>s\<close>, object \<open>a\<close> is the grid with identifier \<open>i\<close>, its local part is the box at
  \<open>lo\<close> of size \<open>ls\<close>, and its buffer holds the bytes \<open>D\<close>.
\<close>

definition holds ::
    "nat \<Rightarrow> int \<Rightarrow> nat \<Rightarrow> nat \<Rightarrow> idx \<Rightarrow> idx \<Rightarrow> idx \<Rightarrow> pstate \<Rightarrow> cell list \<Rightarrow> bool" where
  "holds a i nd e sz lo ls = (\<lambda>(gs, st) D. \<exists>g k b.
     objs gs a = Some g \<and> FindGrid i gs = Inr a \<and> grid_id g = Some i \<and> grid_num_dims g = nd \<and>
     grid_elm_size g = e \<and> grid_size g = sz \<and> gm_local_offset g = lo \<and> gm_local_size g = ls \<and>
     gm_empty g = (accumulate ls nd = 0) \<and> data_buffer0 g = Some k \<and> bufs st k = Some b \<and>
     buffer_ok b (hp st) \<and> heap_ok (hp st) \<and> buf_num_dims b = nd \<and> buf_elm_size b = e \<and>
     buf_size b = ls \<and> data0 g = buf_ptr b \<and>
     (if accumulate ls nd = 0 then D = [] else contents (hp st) (buf_ptr b) = Some D))"

lemma holds_length:
  "holds a i nd e sz lo ls s D \<Longrightarrow> length D = nat (accumulate ls nd) * e"
proof -
  assume h: "holds a i nd e sz lo ls s D"
  obtain gs st where s: "s = (gs, st)" by (cases s)
  obtain b where b: "buffer_ok b (hp st)" "buf_num_dims b = nd" "buf_elm_size b = e" "buf_size b = ls"
      "if accumulate ls nd = 0 then D = [] else contents (hp st) (buf_ptr b) = Some D"
    using h unfolding s holds_def by auto
  show ?thesis
  proof (cases "accumulate ls nd = 0")
    case False
    then obtain blk where "buf_ptr b = Ptr blk 0" "blocks (hp st) blk = Some D" "length D = GetLinearSize b"
      using b by (auto simp: buffer_ok_def contents_def)
    then show ?thesis using buffer_ok_linear[OF b(1)] b(2-4) by simp
  qed (use b in simp)
qed

lemma EnsureCapacity_same:
  "buf_size b = sz \<Longrightarrow> Buffer_EnsureCapacity1 chunk sz b h = Inr (b, h)"
  by (auto simp: Buffer_EnsureCapacity1_def Buffer_EnsureCapacity_def Let_def GetLinearSize_def
      GetLinearSize_of_static)

lemma bindP_send [simp]: "bindP (PS_MPI_Send m d) f = Send d m (f ())"
  by (simp add: PS_MPI_Send_def)

lemma bindP_recv [simp]: "bindP (PS_MPI_Recv s) f = Recv s f"
  by (simp add: PS_MPI_Recv_def)

text \<open>What a client does when the master copies in: two messages, then it stores the reply.\<close>

lemma Client_GridCopyin_prog:
  assumes "holds a i nd e sz lo ls s D"
  shows "\<exists>k. Client_GridCopyin i s = Send 0 (MIdx lo) (Send 0 (MIdx ls)
      (if accumulate ls nd = 0 then Ret s else Recv 0 k)) \<and>
    (\<forall>cs. accumulate ls nd \<noteq> 0 \<longrightarrow> length cs = length D \<longrightarrow>
      (\<exists>s'. k (MBytes cs) = Ret s' \<and> holds a i nd e sz lo ls s' cs))"
proof -
  obtain gs st where s: "s = (gs, st)" by (cases s)
  obtain g kb b where g: "objs gs a = Some g" "FindGrid i gs = Inr a" "grid_id g = Some i"
      "grid_num_dims g = nd" "grid_elm_size g = e" "grid_size g = sz" "gm_local_offset g = lo"
      "gm_local_size g = ls" "gm_empty g = (accumulate ls nd = 0)" "data_buffer0 g = Some kb"
      "bufs st kb = Some b" "buffer_ok b (hp st)" "heap_ok (hp st)" "buf_num_dims b = nd"
      "buf_elm_size b = e" "buf_size b = ls" "data0 g = buf_ptr b"
      "if accumulate ls nd = 0 then D = [] else contents (hp st) (buf_ptr b) = Some D"
    using assms s by (auto simp: holds_def)
  let ?k = "\<lambda>m. bindP (case m of MBytes cs \<Rightarrow> if GetLinearSize_of b ls < length cs then Fail (Aborted 1)
        else if cs = [] then Ret (hp st) else lift (store (buf_ptr b) cs (hp st)) | _ \<Rightarrow> Fail TypeMismatch)
      (\<lambda>h. Ret (gs, st\<lparr>hp := h, bufs := (bufs st)(kb \<mapsto> b)\<rparr>))"
  have prog: "Client_GridCopyin i s = Send 0 (MIdx lo) (Send 0 (MIdx ls)
      (if accumulate ls nd = 0 then Ret s else Recv 0 ?k))"
    using g EnsureCapacity_same[OF g(16)]
    by (simp add: Client_GridCopyin_def s get_obj_def buffer_at_def BufferHost_MPIRecv_def
        recv_bytes_def bindP_assoc)
  have "\<exists>s'. ?k (MBytes cs) = Ret s' \<and> holds a i nd e sz lo ls s' cs"
    if ne: "accumulate ls nd \<noteq> 0" and len: "length cs = length D" for cs
  proof -
    obtain blk where blk: "buf_ptr b = Ptr blk 0" "blocks (hp st) blk = Some D"
        "length D = GetLinearSize b"
      using g(12,18) ne g(14,16) by (auto simp: buffer_ok_def contents_def)
    have lin: "GetLinearSize_of b ls = length cs" using len blk(3) g(16) by (simp add: GetLinearSize_def)
    have "cs \<noteq> []"
    proof
      assume "cs = []"
      then have "nat (accumulate ls nd) * e = 0" using holds_length[OF assms] len by simp
      then show False using ne g(12) g(14-16) accumulate_nonneg[of nd ls]
        by (auto simp: buffer_ok_def)
    qed
    then have run: "?k (MBytes cs) = Ret (gs, st\<lparr>hp := (hp st)\<lparr>blocks := (blocks (hp st))(blk \<mapsto> cs)\<rparr>,
        bufs := (bufs st)(kb \<mapsto> b)\<rparr>)"
      using lin blk len by (simp add: list_write_def)
    moreover have "holds a i nd e sz lo ls (gs, st\<lparr>hp := (hp st)\<lparr>blocks := (blocks (hp st))(blk \<mapsto> cs)\<rparr>,
        bufs := (bufs st)(kb \<mapsto> b)\<rparr>) cs"
      using g blk len ne by (auto simp: holds_def buffer_ok_def heap_ok_def contents_def)
    ultimately show ?thesis by blast
  qed
  with prog show ?thesis by blast
qed

subsection \<open>The master's turns\<close>

text \<open>
  The master's loop: its exchange buffer is well formed, the other blocks of the heap are
  \<open>B\<close>, and \<open>T\<close> bytes are free or in the exchange buffer.
\<close>

definition loop_ok ::
    "nat \<Rightarrow> nat \<Rightarrow> (nat \<Rightarrow> cell list option) \<Rightarrow> nat \<Rightarrow> buffer \<times> heap \<Rightarrow> bool" where
  "loop_ok nd e B T = (\<lambda>(sbuf, h). buffer_ok sbuf h \<and> heap_ok h \<and> buf_num_dims sbuf = nd \<and>
     buf_elm_size sbuf = e \<and> others sbuf h = B \<and> avail h + GetLinearSize sbuf = T)"

text \<open>A box as a client reports it: part of the grid unless it is empty.\<close>

definition box_ok :: "nat \<Rightarrow> nat \<Rightarrow> idx \<Rightarrow> idx \<Rightarrow> idx \<Rightarrow> bool" where
  "box_ok nd e sz lo ls \<longleftrightarrow> 0 < e \<and> (\<forall>i < nd. 0 \<le> at ls i) \<and>
     (accumulate ls nd \<noteq> 0 \<longrightarrow> copy_fits e nd sz lo ls)"

lemma copy_fits_le:
  assumes "copy_fits e nd sz lo ls"
  shows "accumulate ls nd \<le> accumulate sz nd" "nat (accumulate ls nd) * e \<le> nat (accumulate sz nd) * e"
    "size_fits nd e ls"
proof -
  have b: "0 \<le> at ls i \<and> at ls i \<le> at sz i" if "i < nd" for i
    using assms that by (fastforce simp: copy_fits_def box_in_def)
  then show le: "accumulate ls nd \<le> accumulate sz nd" by (intro accumulate_mono) auto
  then show "nat (accumulate ls nd) * e \<le> nat (accumulate sz nd) * e" by (simp add: nat_mono)
  have "accumulate ls nd * int e \<le> accumulate sz nd * int e" using le by (intro mult_right_mono) auto
  then have "accumulate ls nd * int e < 2 ^ 64"
    using assms unfolding copy_fits_def by (blast intro: le_less_trans)
  then show "size_fits nd e ls" using b assms by (auto simp: size_fits_def copy_fits_def)
qed

lemma GetLinearSize_box:
  assumes "box_ok nd e sz lo ls" "buf_num_dims b = nd" "buf_elm_size b = e"
  shows "GetLinearSize_of b ls = nat (accumulate ls nd) * e"
proof (cases "accumulate ls nd = 0")
  case True
  then show ?thesis using assms by (simp add: GetLinearSize_of_def size_mult_def to_size_def)
next
  case False
  then have "size_fits nd e ls" using assms(1) copy_fits_le(3) by (auto simp: box_ok_def)
  then show ?thesis using assms by (simp add: GetLinearSize_of_static LinearSize_static_eq)
qed

lemma box_zero_iff:
  assumes "box_ok nd e sz lo ls"
  shows "nat (accumulate ls nd) * e = 0 \<longleftrightarrow> accumulate ls nd = 0"
  using assms accumulate_nonneg[of nd ls] by (auto simp: box_ok_def)

text \<open>After \<open>EnsureCapacity\<close> the exchange buffer is a block of its own with room for the box.\<close>

lemma loop_ensure:
  assumes "loop_ok nd e B T (sbuf, h)" "copy_fits e nd sz lo ls" "accumulate ls nd \<noteq> 0"
    and "nat (accumulate sz nd) * e \<le> T"
  shows "\<exists>sbuf' h' k cs. Buffer_EnsureCapacity1 BufferHost_GetChunk ls sbuf h = Inr (sbuf', h') \<and>
    loop_ok nd e B T (sbuf', h') \<and> buf_ptr sbuf' = Ptr k 0 \<and> blocks h' k = Some cs \<and> B k = None \<and>
    length cs = GetLinearSize sbuf' \<and> nat (accumulate ls nd) * e \<le> length cs"
proof -
  have i: "buffer_ok sbuf h" "heap_ok h" "buf_num_dims sbuf = nd" "buf_elm_size sbuf = e"
      "others sbuf h = B" "avail h + GetLinearSize sbuf = T"
    using assms(1) by (auto simp: loop_ok_def)
  note fits = copy_fits_le(2,3)[OF assms(2)]
  obtain sbuf' h' where s: "Buffer_EnsureCapacity1 BufferHost_GetChunk ls sbuf h = Inr (sbuf', h')"
      "buffer_ok sbuf' h'" "buf_num_dims sbuf' = nd" "buf_elm_size sbuf' = e"
      "LinearSize_static nd e ls \<le> GetLinearSize sbuf'" "heap_ok h'" "others sbuf' h' = B"
      "avail h' + GetLinearSize sbuf' = T"
    using Buffer_EnsureCapacity_ok[OF i(1,2), of ls] i fits assms(4) by auto
  have lin: "nat (accumulate ls nd) * e \<le> GetLinearSize sbuf'"
    using s(5) LinearSize_static_eq[OF fits(2)] by simp
  have "accumulate ls nd > 0" using fits(2) assms(3) size_fits_le[OF fits(2)] by simp
  then have "0 < nat (accumulate ls nd) * e" using fits(2) by (simp add: size_fits_def)
  then have "GetLinearSize sbuf' \<noteq> 0" using lin by linarith
  from buffer_ok_chunk[OF s(2) this] obtain k cs where
    k: "buf_ptr sbuf' = Ptr k 0" "blocks h' k = Some cs" "length cs = GetLinearSize sbuf'" by blast
  moreover have "B k = None" using s(7) k(1) by (auto simp: others_def)
  ultimately show ?thesis using s lin by (auto simp: loop_ok_def)
qed

lemma loop_write:
  assumes "loop_ok nd e B T (sbuf, h)" "buf_ptr sbuf = Ptr k 0" "blocks h k = Some cs" "length cs' = length cs"
  shows "loop_ok nd e B T (sbuf, h\<lparr>blocks := (blocks h)(k \<mapsto> cs')\<rparr>)"
proof -
  have "others sbuf (h\<lparr>blocks := (blocks h)(k \<mapsto> cs')\<rparr>) = others sbuf h"
    using assms(2) by (auto simp: others_def)
  then show ?thesis using assms
    by (auto simp: loop_ok_def buffer_ok_def heap_ok_def)
qed

lemma step_idx:
  assumes "1 \<le> i" "i < np" "P i = Send 0 (MIdx v) p"
  shows "det_step\<^sup>*\<^sup>*
    (mnet np (bindP (bindP (PS_MPI_Recv i) (\<lambda>m. lift (expect_idx m))) F) P bq) (mnet np (F v) (P(i := p)) bq)"
  using step_to_master[of i np P "MIdx v" p "\<lambda>m. bindP (lift (expect_idx m)) F" bq] assms
  by (simp add: bindP_assoc)

lemma send_bytes_block:
  "blocks h b = Some cs \<Longrightarrow> n \<le> length cs \<Longrightarrow> n \<noteq> 0 \<Longrightarrow>
   bindP (send_bytes (Ptr b 0) n d h) F = Send d (MBytes (take n cs)) (F ())"
  by (simp add: send_bytes_def)

text \<open>The turn of the master with client \<open>i\<close> in a copy-in from the user's block \<open>U\<close>.\<close>

lemma copyin_turn:
  assumes x: "loop_ok nd e B T x" and np: "1 \<le> i" "i < np"
    and g: "grid_elm_size g = e" "grid_num_dims g = nd" "grid_size g = sz"
    and U: "B U = Some G" "nat (accumulate sz nd) * e \<le> length G" and T: "nat (accumulate sz nd) * e \<le> T"
    and box: "box_ok nd e sz lo ls"
    and P: "P i = Send 0 (MIdx lo) (Send 0 (MIdx ls) (if accumulate ls nd = 0 then d else Recv 0 k))"
  shows "\<exists>x'. loop_ok nd e B T x' \<and>
    det_step\<^sup>*\<^sup>* (mnet np (bindP (copyin_send g (Ptr U 0) i x) K) P bq)
      (mnet np (K x') (P(i := if accumulate ls nd = 0 then d
         else k (MBytes (subgrid e nd sz lo ls G)))) bq)"
proof -
  obtain sbuf h where x_eq: "x = (sbuf, h)" by (cases x)
  have dims: "buf_num_dims sbuf = nd" "buf_elm_size sbuf = e" using x x_eq by (auto simp: loop_ok_def)
  note lin = GetLinearSize_box[OF box dims]
  let ?p = "if accumulate ls nd = 0 then d else Recv 0 k"
  let ?rest = "\<lambda>subgrid_offset subgrid_size.
      bindP (let gsize = GetLinearSize_of sbuf subgrid_size
       in if gsize = 0 then Ret (sbuf, h)
          else bindP (lift (Buffer_EnsureCapacity1 BufferHost_GetChunk subgrid_size sbuf h)) (\<lambda>(sbuf, h).
             bindP (lift (CopyoutSubgrid (grid_elm_size g) (grid_num_dims g) (Ptr U 0) (grid_size g)
                      (buf_ptr sbuf) subgrid_offset subgrid_size h)) (\<lambda>h.
             bindP (send_bytes (buf_ptr sbuf) gsize i h) (\<lambda>_. Ret (sbuf, h))))) K"
  let ?recv = "bindP (PS_MPI_Recv i) (\<lambda>m. lift (expect_idx m))"
  have prog: "bindP (copyin_send g (Ptr U 0) i x) K =
      bindP ?recv (\<lambda>off. bindP ?recv (\<lambda>s. ?rest off s))"
    unfolding copyin_send_def x_eq by (simp only: prod.case bindP_assoc)
  have two: "det_step\<^sup>*\<^sup>* (mnet np (bindP (copyin_send g (Ptr U 0) i x) K) P bq)
      (mnet np (?rest lo ls) (P(i := ?p)) bq)"
    unfolding prog
    using rtranclp_trans[OF step_idx[of i np P lo "Send 0 (MIdx ls) ?p" "\<lambda>off. bindP ?recv (\<lambda>s. ?rest off s)" bq]
        step_idx[of i np "P(i := Send 0 (MIdx ls) ?p)" ls ?p "\<lambda>s. ?rest lo s" bq]] np P
    by simp
  show ?thesis
  proof (cases "accumulate ls nd = 0")
    case True
    then have "?rest lo ls = K (sbuf, h)" using lin by simp
    then show ?thesis using two x x_eq True by (intro exI[of _ x]) simp
  next
    case False
    then have fits: "copy_fits e nd sz lo ls" using box by (simp add: box_ok_def)
    obtain sbuf' h' b cs where s: "Buffer_EnsureCapacity1 BufferHost_GetChunk ls sbuf h = Inr (sbuf', h')"
        "loop_ok nd e B T (sbuf', h')" "buf_ptr sbuf' = Ptr b 0" "blocks h' b = Some cs" "B b = None"
        "length cs = GetLinearSize sbuf'" "nat (accumulate ls nd) * e \<le> length cs"
      using loop_ensure[of nd e B T sbuf h sz lo ls] x x_eq fits False T by auto
    have "others sbuf' h' = B" using s(2) by (simp add: loop_ok_def)
    then have Ub: "blocks h' U = Some G" "U \<noteq> b" using U(1) s(5) by (auto dest: others_SomeD)
    let ?sub = "subgrid e nd sz lo ls G"
    let ?h = "h'\<lparr>blocks := (blocks h')(b \<mapsto> list_write cs 0 ?sub)\<rparr>"
    have len: "length ?sub = nat (accumulate ls nd) * e" by (rule length_subgrid[OF fits U(2)])
    have copy: "CopyoutSubgrid e nd (Ptr U 0) sz (Ptr b 0) lo ls h' = Inr ?h"
      using CopyoutSubgrid_ok[OF fits, of b U h' G cs 0] Ub s(4,7) U(2) by simp
    have take: "take (nat (accumulate ls nd) * e) (list_write cs 0 ?sub) = ?sub"
      using len by (simp add: list_write_def)
    have loop: "loop_ok nd e B T (sbuf', ?h)"
      using loop_write[OF s(2,3,4)] len s(7) by simp
    have "nat (accumulate ls nd) * e \<noteq> 0" using box_zero_iff[OF box] False by simp
    then have "?rest lo ls = Send i (MBytes ?sub) (K (sbuf', ?h))"
      using lin s(1,3,4,7) copy g take len by (simp add: send_bytes_block)
    then have "det_step\<^sup>*\<^sup>* (mnet np (?rest lo ls) (P(i := ?p)) bq)
        (mnet np (K (sbuf', ?h)) (P(i := ?p, i := k (MBytes ?sub))) bq)"
      using step_to_client[of i np "P(i := ?p)" k "MBytes ?sub" "K (sbuf', ?h)" bq] np False by simp
    from rtranclp_trans[OF two this] loop False show ?thesis by auto
  qed
qed

text \<open>The turn of the master with client \<open>i\<close> in a copy-out to the user's block \<open>U\<close>.\<close>

lemma copyout_turn:
  assumes x: "loop_ok nd e (B(U := Some X)) T x" and np: "1 \<le> i" "i < np"
    and g: "grid_elm_size g = e" "grid_num_dims g = nd" "grid_size g = sz"
    and U: "nat (accumulate sz nd) * e \<le> length X" and T: "nat (accumulate sz nd) * e \<le> T"
    and box: "box_ok nd e sz lo ls" and D: "length D = nat (accumulate ls nd) * e"
    and P: "P i = Send 0 (MIdx lo) (Send 0 (MIdx ls) (if accumulate ls nd = 0 then d else Send 0 (MBytes D) d))"
  shows "\<exists>x'. loop_ok nd e (B(U := Some (if accumulate ls nd = 0 then X
        else scatter X (box_lines e nd sz lo ls) (line_bytes e ls) D))) T x' \<and>
    det_step\<^sup>*\<^sup>* (mnet np (bindP (copyout_recv g (Ptr U 0) i x) K) P bq) (mnet np (K x') (P(i := d)) bq)"
proof -
  obtain sbuf h where x_eq: "x = (sbuf, h)" by (cases x)
  have dims: "buf_num_dims sbuf = nd" "buf_elm_size sbuf = e" using x x_eq by (auto simp: loop_ok_def)
  note lin = GetLinearSize_box[OF box dims]
  let ?p = "if accumulate ls nd = 0 then d else Send 0 (MBytes D) d"
  let ?rest = "\<lambda>subgrid_offset subgrid_size.
      bindP (let gsize = GetLinearSize_of sbuf subgrid_size
       in if gsize = 0 then Ret (sbuf, h)
          else bindP (BufferHost_MPIRecv i IntegerArray0 subgrid_size sbuf h) (\<lambda>(sbuf, h).
             bindP (lift (CopyinSubgrid (grid_elm_size g) (grid_num_dims g) (Ptr U 0) (grid_size g) (buf_ptr sbuf)
                      subgrid_offset subgrid_size h)) (\<lambda>h. Ret (sbuf, h)))) K"
  let ?recv = "bindP (PS_MPI_Recv i) (\<lambda>m. lift (expect_idx m))"
  have prog: "bindP (copyout_recv g (Ptr U 0) i x) K =
      bindP ?recv (\<lambda>off. bindP ?recv (\<lambda>s. ?rest off s))"
    unfolding copyout_recv_def x_eq by (simp only: prod.case bindP_assoc)
  have two: "det_step\<^sup>*\<^sup>* (mnet np (bindP (copyout_recv g (Ptr U 0) i x) K) P bq)
      (mnet np (?rest lo ls) (P(i := ?p)) bq)"
    unfolding prog
    using rtranclp_trans[OF step_idx[of i np P lo "Send 0 (MIdx ls) ?p" "\<lambda>off. bindP ?recv (\<lambda>s. ?rest off s)" bq]
        step_idx[of i np "P(i := Send 0 (MIdx ls) ?p)" ls ?p "\<lambda>s. ?rest lo s" bq]] np P
    by simp
  show ?thesis
  proof (cases "accumulate ls nd = 0")
    case True
    then have "?rest lo ls = K (sbuf, h)" using lin by simp
    then show ?thesis using two x x_eq True by (intro exI[of _ x]) simp
  next
    case False
    then have fits: "copy_fits e nd sz lo ls" using box by (simp add: box_ok_def)
    obtain sbuf' h' b cs where s: "Buffer_EnsureCapacity1 BufferHost_GetChunk ls sbuf h = Inr (sbuf', h')"
        "loop_ok nd e (B(U := Some X)) T (sbuf', h')" "buf_ptr sbuf' = Ptr b 0" "blocks h' b = Some cs"
        "(B(U := Some X)) b = None"
        "length cs = GetLinearSize sbuf'" "nat (accumulate ls nd) * e \<le> length cs"
      using loop_ensure[of nd e "B(U := Some X)" T sbuf h sz lo ls] x x_eq fits False T by auto
    have oth: "others sbuf' h' = B(U := Some X)" using s(2) by (simp add: loop_ok_def)
    have Ub: "U \<noteq> b" using s(5) by (auto split: if_splits)
    have Ux: "blocks h' U = Some X" using fun_cong[OF oth, of U] by (simp add: others_def split: if_splits)
    let ?cs = "list_write cs 0 D" and ?Y = "scatter X (box_lines e nd sz lo ls) (line_bytes e ls) D"
    let ?h = "h'\<lparr>blocks := (blocks h')(b \<mapsto> ?cs)\<rparr>"
    have pos: "\<And>i. i < nd \<Longrightarrow> 0 < at ls i" using copy_fits_cases[OF fits] False by auto
    have n0: "nat (accumulate ls nd) * e \<noteq> 0" using box_zero_iff[OF box] False by simp
    have lines: "length (box_lines e nd sz lo ls) * line_bytes e ls = nat (accumulate ls nd) * e"
      using copy_fits_sizes(3)[OF fits pos] by (simp add: line_bytes_def mult.assoc)
    have "scatter X (box_lines e nd sz lo ls) (line_bytes e ls) ?cs =
        scatter X (box_lines e nd sz lo ls) (line_bytes e ls) (take (length (box_lines e nd sz lo ls) * line_bytes e ls) ?cs)"
      by (rule scatter_take[symmetric])
    also have "take (length (box_lines e nd sz lo ls) * line_bytes e ls) ?cs = D"
      unfolding lines using D by (simp add: list_write_def)
    finally have sc: "scatter X (box_lines e nd sz lo ls) (line_bytes e ls) ?cs = ?Y" .
    have "nat (accumulate ls nd) * e \<le> length ?cs" using D s(7) by simp
    then have copy: "CopyinSubgrid e nd (Ptr U 0) sz (Ptr b 0) lo ls ?h =
        Inr (?h\<lparr>blocks := (blocks ?h)(U \<mapsto> ?Y)\<rparr>)"
      using CopyinSubgrid_ok[OF fits, of b U ?h X ?cs 0] Ub Ux U sc by simp
    have lp: "loop_ok nd e (B(U := Some X)) T (sbuf', ?h)"
      using loop_write[OF s(2,3,4)] D s(7) by simp
    have loop: "loop_ok nd e (B(U := Some ?Y)) T (sbuf', ?h\<lparr>blocks := (blocks ?h)(U \<mapsto> ?Y)\<rparr>)"
    proof -
      have bp: "buf_ptr sbuf' \<noteq> Ptr U 0" using s(3) Ub by simp
      have "others sbuf' (?h\<lparr>blocks := (blocks ?h)(U \<mapsto> ?Y)\<rparr>) = (others sbuf' ?h)(U \<mapsto> ?Y)"
        using bp by (auto simp: others_def)
      moreover have "others sbuf' ?h = B(U := Some X)" using lp by (simp add: loop_ok_def)
      ultimately have "others sbuf' (?h\<lparr>blocks := (blocks ?h)(U \<mapsto> ?Y)\<rparr>) = B(U := Some ?Y)" by simp
      moreover have "buffer_ok sbuf' (?h\<lparr>blocks := (blocks ?h)(U \<mapsto> ?Y)\<rparr>)"
        using lp bp Ub s(3) by (auto simp: loop_ok_def buffer_ok_def)
      moreover have "heap_ok (?h\<lparr>blocks := (blocks ?h)(U \<mapsto> ?Y)\<rparr>)"
        using lp Ux Ub by (auto simp: loop_ok_def heap_ok_def)
      ultimately show ?thesis using lp by (simp add: loop_ok_def)
    qed
    have lin': "GetLinearSize_of sbuf' ls = nat (accumulate ls nd) * e"
      using GetLinearSize_box[OF box] s(2) by (simp add: loop_ok_def)
    have D0: "D \<noteq> []" using D n0 by auto
    have "?rest lo ls = Recv i (\<lambda>m. bindP (case m of MBytes cs' \<Rightarrow>
          if nat (accumulate ls nd) * e < length cs' then Fail (Aborted 1)
          else if cs' = [] then Ret h' else lift (store (Ptr b 0) cs' h') | _ \<Rightarrow> Fail TypeMismatch)
        (\<lambda>h. bindP (lift (CopyinSubgrid e nd (Ptr U 0) sz (Ptr b 0) lo ls h)) (\<lambda>h. K (sbuf', h))))"
      using lin lin' s(1,3) g n0
      by (simp add: BufferHost_MPIRecv_def recv_bytes_def bindP_assoc cong: msg.case_cong if_cong)
    then have "det_step\<^sup>*\<^sup>* (mnet np (?rest lo ls) (P(i := ?p)) bq)
        (mnet np (K (sbuf', ?h\<lparr>blocks := (blocks ?h)(U \<mapsto> ?Y)\<rparr>)) (P(i := ?p, i := d)) bq)"
      using step_to_master[of i np "P(i := ?p)" "MBytes D" d "\<lambda>m. bindP (case m of MBytes cs' \<Rightarrow>
          if nat (accumulate ls nd) * e < length cs' then Fail (Aborted 1)
          else if cs' = [] then Ret h' else lift (store (Ptr b 0) cs' h') | _ \<Rightarrow> Fail TypeMismatch)
        (\<lambda>h. bindP (lift (CopyinSubgrid e nd (Ptr U 0) sz (Ptr b 0) lo ls h)) (\<lambda>h. K (sbuf', h)))" bq]
        np False D D0 s(4,7) copy by simp
    from rtranclp_trans[OF two this] loop False show ?thesis by auto
  qed
qed

subsection \<open>All processes\<close>

text \<open>The bytes of the grid \<open>A\<close> that belong to a box.\<close>

definition part_of :: "nat \<Rightarrow> nat \<Rightarrow> idx \<Rightarrow> idx \<times> idx \<Rightarrow> cell list \<Rightarrow> cell list" where
  "part_of e nd sz box A =
     (if accumulate (snd box) nd = 0 then [] else subgrid e nd sz (fst box) (snd box) A)"

text \<open>Boxes for \<open>np\<close> processes; the master's lies in the grid even when it is empty.\<close>

definition boxes_ok :: "nat \<Rightarrow> nat \<Rightarrow> nat \<Rightarrow> idx \<Rightarrow> (nat \<Rightarrow> idx \<times> idx) \<Rightarrow> bool" where
  "boxes_ok np nd e sz box \<longleftrightarrow> 1 \<le> np \<and> copy_fits e nd sz (fst (box 0)) (snd (box 0)) \<and>
     (\<forall>r < np. box_ok nd e sz (fst (box r)) (snd (box r)))"

text \<open>Every process holds its part of the grid \<open>A\<close>.\<close>

definition distributed ::
    "nat \<Rightarrow> (nat \<Rightarrow> nat) \<Rightarrow> int \<Rightarrow> nat \<Rightarrow> nat \<Rightarrow> idx \<Rightarrow> (nat \<Rightarrow> idx \<times> idx) \<Rightarrow> (nat \<Rightarrow> pstate) \<Rightarrow> cell list \<Rightarrow> bool" where
  "distributed np addr i nd e sz box s A \<longleftrightarrow>
     (\<forall>r < np. holds (addr r) i nd e sz (fst (box r)) (snd (box r)) (s r) (part_of e nd sz (box r) A))"

text \<open>The same with any data.\<close>

definition placed ::
    "nat \<Rightarrow> (nat \<Rightarrow> nat) \<Rightarrow> int \<Rightarrow> nat \<Rightarrow> nat \<Rightarrow> idx \<Rightarrow> (nat \<Rightarrow> idx \<times> idx) \<Rightarrow> (nat \<Rightarrow> pstate) \<Rightarrow> bool" where
  "placed np addr i nd e sz box s \<longleftrightarrow>
     (\<forall>r < np. \<exists>D. holds (addr r) i nd e sz (fst (box r)) (snd (box r)) (s r) D)"

lemma distributed_placed: "distributed np addr i nd e sz box s A \<Longrightarrow> placed np addr i nd e sz box s"
  by (auto simp: distributed_def placed_def)

text \<open>The user's block in the master's heap, apart from the grid's own block.\<close>

definition user_block :: "nat \<Rightarrow> nat \<Rightarrow> nat \<Rightarrow> cell list \<Rightarrow> pstate \<Rightarrow> bool" where
  "user_block np a U A = (\<lambda>(gs, st). gs_num_procs gs = int np \<and> blocks (hp st) U = Some A \<and>
     (\<forall>g. objs gs a = Some g \<longrightarrow> data0 g \<noteq> Ptr U 0))"

lemma network_mnet: "init_network (M # map P [1..<np]) = mnet np M P (\<lambda>_. [])"
  by (simp add: init_network_def mnet_def)

lemma loop_ok_start:
  assumes "heap_ok h" "0 < e" "0 < nd"
  shows "loop_ok nd e (blocks h) (avail h) (BufferHost_new nd e, h)"
proof -
  have "accumulate IntegerArray0 nd = (0 :: int)" using assms(3) by (auto simp: accumulate_eq_0_iff)
  then have "GetLinearSize (BufferHost_new nd e) = 0"
    by (simp add: GetLinearSize_def GetLinearSize_of_def BufferHost_new_def Buffer_new_def size_mult_def to_size_def)
  then show ?thesis using assms buffer_ok_new[of e nd h]
    by (simp add: loop_ok_def) (simp add: BufferHost_new_def Buffer_new_def)
qed

lemma loop_ok_end:
  assumes "loop_ok nd e B T (sbuf, h)"
  shows "\<exists>b' h'. Buffer_Delete sbuf h = Inr (b', h') \<and> blocks h' = B \<and> avail h' = T \<and> heap_ok h'"
proof -
  have i: "buffer_ok sbuf h" "heap_ok h" "others sbuf h = B" "avail h + GetLinearSize sbuf = T"
    using assms by (auto simp: loop_ok_def)
  obtain h' where h': "Buffer_Delete sbuf h = Inr (sbuf\<lparr>buf_ptr := Null, buf_size := arr_Set 0\<rparr>, h')"
      "avail h' = avail h + GetLinearSize sbuf" "fresh h' = fresh h"
      "\<forall>k. blocks h' k = (if buf_ptr sbuf = Ptr k 0 then None else blocks h k)"
    using Buffer_Delete_ok[OF i(1)] by blast
  then have "blocks h' = B" "heap_ok h'" using i(2,3) by (auto simp: others_def heap_ok_def)
  with h' i(4) show ?thesis by simp
qed

lemma listen_request:
  "Client_Listen le stencil reduce fuel (Suc n) s =
   BcastRecv (\<lambda>m. bindP (lift (expect_request m)) (\<lambda>(kind, opt).
     bindP (client_handler le stencil reduce fuel kind opt s) (Client_Listen le stencil reduce fuel n)))"
  by (simp add: PS_MPI_Bcast_def)

lemma buffer_ok_cong: "blocks h = blocks h' \<Longrightarrow> buffer_ok b h = buffer_ok b h'"
  by (simp add: buffer_ok_def)

lemma contents_cong: "blocks h = blocks h' \<Longrightarrow> contents h p = contents h' p"
  by (auto simp: contents_def split: ptr.split)

lemma holds_heap:
  assumes "holds a i nd e sz lo ls (gs, st) D" "blocks h = blocks (hp st)" "heap_ok h"
  shows "holds a i nd e sz lo ls (gs, st\<lparr>hp := h\<rparr>) D"
proof -
  have "buffer_ok b h = buffer_ok b (hp st)" "contents h p = contents (hp st) p" for b p
    using buffer_ok_cong[OF assms(2)] contents_cong[OF assms(2)] by blast+
  moreover have "heap_ok (hp st)" using assms(1) by (auto simp: holds_def)
  moreover have "hp (st\<lparr>hp := h\<rparr>) = h" "bufs (st\<lparr>hp := h\<rparr>) = bufs st" by simp_all
  ultimately show ?thesis using assms(1,3) unfolding holds_def prod.case by (simp only: simp_thms)
qed

lemma length_part:
  assumes "box_ok nd e sz (fst box) (snd box)" "nat (accumulate sz nd) * e \<le> length A"
  shows "length (part_of e nd sz box A) = nat (accumulate (snd box) nd) * e"
proof (cases "accumulate (snd box) nd = 0")
  case False
  then have "copy_fits e nd sz (fst box) (snd box)" using assms(1) by (simp add: box_ok_def)
  from length_subgrid[OF this assms(2)] False show ?thesis by (simp add: part_of_def)
qed (simp add: part_of_def)

text \<open>The master's own part.\<close>

lemma master_local_copyin:
  assumes h: "holds a i nd e sz lo ls (gs, st) D" and U: "user_block np a U A (gs, st)"
    and fits: "copy_fits e nd sz lo ls" and A: "nat (accumulate sz nd) * e \<le> length A"
    and g: "objs gs a = Some g"
  shows "\<exists>h1. Master_GridCopyinLocal g (Ptr U 0) st = Inr (st\<lparr>hp := h1\<rparr>) \<and>
    holds a i nd e sz lo ls (gs, st\<lparr>hp := h1\<rparr>) (part_of e nd sz (lo, ls) A) \<and>
    blocks h1 U = Some A \<and> avail h1 = avail (hp st) \<and> heap_ok h1 \<and>
    (\<forall>b. data0 g \<noteq> Ptr b 0 \<longrightarrow> blocks h1 b = blocks (hp st) b)"
proof -
  obtain k b where b: "FindGrid i gs = Inr a" "grid_id g = Some i" "grid_num_dims g = nd"
      "grid_elm_size g = e" "grid_size g = sz" "gm_local_offset g = lo" "gm_local_size g = ls"
      "gm_empty g = (accumulate ls nd = 0)" "data_buffer0 g = Some k" "bufs st k = Some b"
      "buffer_ok b (hp st)" "heap_ok (hp st)" "buf_num_dims b = nd" "buf_elm_size b = e"
      "buf_size b = ls" "data0 g = buf_ptr b"
      "if accumulate ls nd = 0 then D = [] else contents (hp st) (buf_ptr b) = Some D"
    using h g by (auto simp: holds_def)
  have Ub: "blocks (hp st) U = Some A" "buf_ptr b \<noteq> Ptr U 0" using U g b(16) by (auto simp: user_block_def)
  have lin: "GetLinearSize b = size_mult (to_size (accumulate ls nd)) e"
    using b(13-15) by (simp add: GetLinearSize_def GetLinearSize_of_def)
  show ?thesis
  proof (cases "accumulate ls nd = 0")
    case True
    then have "Master_GridCopyinLocal g (Ptr U 0) st = Inr (st\<lparr>hp := hp st\<rparr>)"
      using b lin copy_empty(1)[OF fits True]
      by (simp add: Master_GridCopyinLocal_def buffer_at_def on_heap_def)
    then show ?thesis using h Ub b True
      by (intro exI[of _ "hp st"]) (auto simp: part_of_def holds_def)
  next
    case False
    then obtain blk where blk: "buf_ptr b = Ptr blk 0" "blocks (hp st) blk = Some D"
        "length D = GetLinearSize b"
      using b(11,17) b(13,15) by (auto simp: buffer_ok_def contents_def)
    have len: "length D = nat (accumulate ls nd) * e" by (rule holds_length[OF h])
    let ?sub = "subgrid e nd sz lo ls A"
    have ls: "length ?sub = length D" using length_subgrid[OF fits A] len by simp
    let ?h1 = "(hp st)\<lparr>blocks := (blocks (hp st))(blk \<mapsto> ?sub)\<rparr>"
    have "CopyoutSubgrid e nd (Ptr U 0) sz (Ptr blk 0) lo ls (hp st) = Inr ?h1"
      using CopyoutSubgrid_ok[OF fits, of blk U "hp st" A D 0] Ub blk A len ls by (simp add: list_write_def)
    then have "Master_GridCopyinLocal g (Ptr U 0) st = Inr (st\<lparr>hp := ?h1\<rparr>)"
      using b lin blk by (simp add: Master_GridCopyinLocal_def buffer_at_def on_heap_def)
    moreover have "holds a i nd e sz lo ls (gs, st\<lparr>hp := ?h1\<rparr>) (part_of e nd sz (lo, ls) A)"
      using b g False blk ls by (auto simp: part_of_def holds_def buffer_ok_def heap_ok_def contents_def)
    moreover have "heap_ok ?h1" using b(12) blk by (auto simp: heap_ok_def)
    ultimately show ?thesis using Ub blk b(16) by (intro exI[of _ ?h1]) auto
  qed
qed

lemma copyin_run:
  fixes K :: "pstate \<Rightarrow> pstate prog"
  assumes bx: "boxes_ok np nd e sz box" and pl: "placed np addr i nd e sz box s"
    and U: "user_block np (addr 0) U A (s 0)" and A: "nat (accumulate sz nd) * e \<le> length A"
    and room: "nat (accumulate sz nd) * e \<le> avail (hp (snd (s 0)))"
  shows "\<exists>s'. distributed np addr i nd e sz box s' A \<and> user_block np (addr 0) U A (s' 0) \<and>
    avail (hp (snd (s' 0))) = avail (hp (snd (s 0))) \<and> fst (s' 0) = fst (s 0) \<and>
    (\<forall>b g. objs (fst (s 0)) (addr 0) = Some g \<longrightarrow> data0 g \<noteq> Ptr b 0 \<longrightarrow>
       blocks (hp (snd (s' 0))) b = blocks (hp (snd (s 0))) b) \<and>
    det_step\<^sup>*\<^sup>*
      (init_network (bindP (Master_GridCopyin (addr 0) (Ptr U 0) (s 0)) K #
        map (\<lambda>r. Client_Listen le stencil reduce fuel (Suc n) (s r)) [1..<np]))
      (init_network (K (s' 0) # map (\<lambda>r. Client_Listen le stencil reduce fuel n (s' r)) [1..<np]))"
proof -
  let ?lo = "\<lambda>r. fst (box r)" and ?ls = "\<lambda>r. snd (box r)"
  let ?part = "\<lambda>r. part_of e nd sz (box r) A"
  let ?L = "\<lambda>n. Client_Listen le stencil reduce fuel n"
  have np: "1 \<le> np" and fits0: "copy_fits e nd sz (?lo 0) (?ls 0)"
    and boxes: "\<And>r. r < np \<Longrightarrow> box_ok nd e sz (?lo r) (?ls r)"
    using bx by (auto simp: boxes_ok_def)
  have e: "0 < e" "0 < nd" using fits0 by (auto simp: copy_fits_def)
  obtain gs st where s0: "s 0 = (gs, st)" by (cases "s 0")
  obtain D0 where h0: "holds (addr 0) i nd e sz (?lo 0) (?ls 0) (gs, st) D0"
    using pl np s0 unfolding placed_def by (metis less_le_trans zero_less_one)
  then obtain g where g: "objs gs (addr 0) = Some g" "grid_id g = Some i" "grid_num_dims g = nd"
      "grid_elm_size g = e" "grid_size g = sz"
    by (auto simp: holds_def)
  have U0: "user_block np (addr 0) U A (gs, st)" using U s0 by simp
  obtain h1 where h1: "Master_GridCopyinLocal g (Ptr U 0) st = Inr (st\<lparr>hp := h1\<rparr>)"
      "holds (addr 0) i nd e sz (?lo 0) (?ls 0) (gs, st\<lparr>hp := h1\<rparr>) (?part 0)"
      "blocks h1 U = Some A" "avail h1 = avail (hp st)" "heap_ok h1"
      "\<forall>b. data0 g \<noteq> Ptr b 0 \<longrightarrow> blocks h1 b = blocks (hp st) b"
    using master_local_copyin[OF h0 U0 fits0 A g(1)] by auto
  have nproc: "nat (gs_num_procs gs) = np" using U s0 by (simp add: user_block_def)
  let ?K = "\<lambda>(sbuf, h). bindP (lift (Buffer_Delete sbuf h)) (\<lambda>(_, h). K (gs, st\<lparr>hp := h\<rparr>))"
  have prog: "bindP (Master_GridCopyin (addr 0) (Ptr U 0) (s 0)) K = BcastSend (MRequest 3 i)
      (bindP (foldP (copyin_send g (Ptr U 0)) [1..<np] (BufferHost_new nd e, h1)) ?K)"
    using g h1(1) nproc
    by (simp add: Master_GridCopyin_def s0 get_obj_def get_id_def NotifyCall_def PS_MPI_Bcast_root_def
        bindP_assoc split_def)
  have client: "\<exists>k s'. Client_GridCopyin i (s r) = Send 0 (MIdx (?lo r)) (Send 0 (MIdx (?ls r))
        (if accumulate (?ls r) nd = 0 then Ret (s r) else Recv 0 k)) \<and>
      (if accumulate (?ls r) nd = 0 then s' = s r else k (MBytes (?part r)) = Ret s') \<and>
      holds (addr r) i nd e sz (?lo r) (?ls r) s' (?part r)" if r: "r < np" for r
  proof -
    obtain D where D: "holds (addr r) i nd e sz (?lo r) (?ls r) (s r) D" using pl r by (auto simp: placed_def)
    obtain k where k: "Client_GridCopyin i (s r) = Send 0 (MIdx (?lo r)) (Send 0 (MIdx (?ls r))
        (if accumulate (?ls r) nd = 0 then Ret (s r) else Recv 0 k))"
      "\<And>cs. accumulate (?ls r) nd \<noteq> 0 \<Longrightarrow> length cs = length D \<Longrightarrow>
        \<exists>s'. k (MBytes cs) = Ret s' \<and> holds (addr r) i nd e sz (?lo r) (?ls r) s' cs"
      using Client_GridCopyin_prog[OF D] by blast
    show ?thesis
    proof (cases "accumulate (?ls r) nd = 0")
      case True
      then have "D = []" "?part r = []" using D by (auto simp: holds_def part_of_def)
      then show ?thesis using k(1) D True by auto
    next
      case False
      have "length (?part r) = length D"
        using length_part[OF boxes[OF r] A] holds_length[OF D] by simp
      from k(2)[OF False this] show ?thesis using k(1) False by auto
    qed
  qed
  then obtain k s' where ks: "\<And>r. r < np \<Longrightarrow> Client_GridCopyin i (s r) = Send 0 (MIdx (?lo r)) (Send 0 (MIdx (?ls r))
        (if accumulate (?ls r) nd = 0 then Ret (s r) else Recv 0 (k r)))"
      "\<And>r. r < np \<Longrightarrow> if accumulate (?ls r) nd = 0 then s' r = s r else k r (MBytes (?part r)) = Ret (s' r)"
      "\<And>r. r < np \<Longrightarrow> holds (addr r) i nd e sz (?lo r) (?ls r) (s' r) (?part r)"
    by metis
  let ?C = "\<lambda>r. bindP (Client_GridCopyin i (s r)) (?L n)" and ?D = "\<lambda>r. ?L n (s' r)"
  let ?F = "copyin_send g (Ptr U 0)" and ?bq = "\<lambda>j. if 0 < j \<and> j < np then [MRequest 3 i] else []"
  have turn: "\<exists>x'. loop_ok nd e (blocks h1) (avail h1) x' \<and>
      det_step\<^sup>*\<^sup>* (mnet np (bindP (?F r x) K') P bq) (mnet np (K' x') (P(r := ?D r)) bq)"
    if r: "1 \<le> r" "r < np" and x: "loop_ok nd e (blocks h1) (avail h1) x" and P: "P r = ?C r"
    for r x P bq and K' :: "buffer \<times> heap \<Rightarrow> pstate prog"
  proof -
    let ?d = "?L n (s r)" and ?k = "\<lambda>m. bindP (k r m) (?L n)"
    have "P r = Send 0 (MIdx (?lo r)) (Send 0 (MIdx (?ls r))
        (if accumulate (?ls r) nd = 0 then ?d else Recv 0 ?k))"
      using P ks(1)[OF r(2)] by simp
    moreover have "nat (accumulate sz nd) * e \<le> avail h1" using room h1(4) s0 by simp
    ultimately have "\<exists>x'. loop_ok nd e (blocks h1) (avail h1) x' \<and>
      det_step\<^sup>*\<^sup>* (mnet np (bindP (?F r x) K') P bq) (mnet np (K' x')
        (P(r := if accumulate (?ls r) nd = 0 then ?d else ?k (MBytes (subgrid e nd sz (?lo r) (?ls r) A)))) bq)"
      using copyin_turn[of nd e "blocks h1" "avail h1" x r np g sz U A "?lo r" "?ls r" P ?d ?k K' bq]
        x r g(3-5) h1(3) A boxes[OF r(2)] by blast
    moreover have "(if accumulate (?ls r) nd = 0 then ?d else ?k (MBytes (subgrid e nd sz (?lo r) (?ls r) A))) = ?D r"
      using ks(2)[OF r(2)] by (auto simp: part_of_def split: if_splits)
    ultimately show ?thesis by simp
  qed
  have listen: "\<exists>f. ?L (Suc n) (s r) = BcastRecv f \<and> f (MRequest 3 i) = ?C r" for r
    by (intro exI conjI, rule listen_request)
      (simp add: client_handler_def kind_of_code_code[of FUNC_COPYIN, simplified])
  obtain x' where x': "loop_ok nd e (blocks h1) (avail h1) x'"
      "det_step\<^sup>*\<^sup>* (mnet np (bindP (foldP ?F [1..<np] (BufferHost_new nd e, h1)) ?K)
          (\<lambda>r. ?L (Suc n) (s r)) ?bq) (mnet np (?K x') ?D (\<lambda>_. []))"
    using clients_in_turn[of np "\<lambda>_. loop_ok nd e (blocks h1) (avail h1)" ?C ?F ?D "\<lambda>r. ?L (Suc n) (s r)"
        "MRequest 3 i" "(BufferHost_new nd e, h1)" ?K, OF turn listen np
        loop_ok_start[OF h1(5) e]] by blast
  obtain sbuf h2 where x_eq: "x' = (sbuf, h2)" by (cases x')
  obtain b' h3 where h3: "Buffer_Delete sbuf h2 = Inr (b', h3)" "blocks h3 = blocks h1"
      "avail h3 = avail h1" "heap_ok h3"
    using loop_ok_end[of nd e "blocks h1" "avail h1" sbuf h2] x'(1) x_eq by auto
  let ?s0 = "(gs, st\<lparr>hp := h3\<rparr>)"
  have "holds (addr 0) i nd e sz (?lo 0) (?ls 0) ?s0 (?part 0)"
    using holds_heap[OF h1(2), of h3] h3 by simp
  then have dist: "distributed np addr i nd e sz box (s'(0 := ?s0)) A"
    using ks(3) by (auto simp: distributed_def)
  have "mnet np (?K x') ?D (\<lambda>_. []) = init_network (K ?s0 # map (\<lambda>r. ?L n ((s'(0 := ?s0)) r)) [1..<np])"
    unfolding network_mnet using h3 x_eq by (simp add: mnet_def)
  moreover have "init_network (bindP (Master_GridCopyin (addr 0) (Ptr U 0) (s 0)) K #
        map (\<lambda>r. ?L (Suc n) (s r)) [1..<np]) = mnet np (BcastSend (MRequest 3 i)
      (bindP (foldP ?F [1..<np] (BufferHost_new nd e, h1)) ?K)) (\<lambda>r. ?L (Suc n) (s r)) (\<lambda>_. [])"
    unfolding network_mnet prog ..
  moreover note rtranclp_trans[OF step_bcast[OF np] x'(2)]
  ultimately show ?thesis using dist U s0 h1 h3 g(1)
    by (intro exI[of _ "s'(0 := ?s0)"]) (auto simp: user_block_def)
qed

subsection \<open>Copy-out by all processes\<close>

text \<open>The user's data \<open>Y\<close> when the boxes below \<open>j\<close> have been copied to it from \<open>A\<close>, over \<open>X\<close>.\<close>

definition gathered ::
    "nat \<Rightarrow> nat \<Rightarrow> idx \<Rightarrow> (nat \<Rightarrow> idx \<times> idx) \<Rightarrow> cell list \<Rightarrow> cell list \<Rightarrow> nat \<Rightarrow> cell list \<Rightarrow> bool" where
  "gathered nd e sz box A X j Y \<longleftrightarrow> length Y = length A \<and>
     (\<forall>q. in_box nd q sz \<longrightarrow> elem e Y (nat (lin nd q sz)) =
        elem e (if \<exists>r < j. in_subbox nd (fst (box r)) (snd (box r)) q then A else X) (nat (lin nd q sz)))"

lemma gathered_0: "length X = length A \<Longrightarrow> gathered nd e sz box A X 0 X"
  by (simp add: gathered_def)

lemma gathered_Suc:
  assumes Y: "gathered nd e sz box A X j Y" and bx: "box_ok nd e sz (fst (box j)) (snd (box j))"
    and A: "nat (accumulate sz nd) * e \<le> length A"
  shows "gathered nd e sz box A X (Suc j)
    (if accumulate (snd (box j)) nd = 0 then Y
     else scatter Y (box_lines e nd sz (fst (box j)) (snd (box j))) (line_bytes e (snd (box j)))
       (part_of e nd sz (box j) A))"
proof (cases "accumulate (snd (box j)) nd = 0")
  case True
  then obtain i where i: "i < nd" "at (snd (box j)) i = 0" by (auto simp: accumulate_eq_0_iff)
  have "\<not> in_subbox nd (fst (box j)) (snd (box j)) q" for q
    using i by (force simp: in_subbox_def)
  then have "(\<exists>r < Suc j. in_subbox nd (fst (box r)) (snd (box r)) q) \<longleftrightarrow>
      (\<exists>r < j. in_subbox nd (fst (box r)) (snd (box r)) q)" for q
    by (auto simp: less_Suc_eq)
  then show ?thesis using Y True by (simp add: gathered_def)
next
  case False
  then have fits: "copy_fits e nd sz (fst (box j)) (snd (box j))" using bx by (simp add: box_ok_def)
  let ?D = "subgrid e nd sz (fst (box j)) (snd (box j)) A"
  let ?R = "scatter Y (box_lines e nd sz (fst (box j)) (snd (box j))) (line_bytes e (snd (box j))) ?D"
  have len: "length Y = length A" using Y by (simp add: gathered_def)
  have lenR: "length ?R = length A"
    using length_scatter_subgrid[OF fits, of Y ?D] length_subgrid[OF fits A] len A by simp
  have "elem e ?R (nat (lin nd q sz)) =
      elem e (if \<exists>r < Suc j. in_subbox nd (fst (box r)) (snd (box r)) q then A else X) (nat (lin nd q sz))"
    if q: "in_box nd q sz" for q
  proof (cases "in_subbox nd (fst (box j)) (snd (box j)) q")
    case True
    then show ?thesis using elem_scatter_subgrid[OF fits A len q] by auto
  next
    case out: False
    then have "(\<exists>r < Suc j. in_subbox nd (fst (box r)) (snd (box r)) q) \<longleftrightarrow>
        (\<exists>r < j. in_subbox nd (fst (box r)) (snd (box r)) q)"
      by (auto simp: less_Suc_eq)
    then show ?thesis using elem_scatter_subgrid[OF fits A len q] out Y q by (simp add: gathered_def)
  qed
  then show ?thesis using lenR False by (simp add: gathered_def part_of_def)
qed

lemma gathered_all:
  assumes Y: "gathered nd e sz box A X j Y" and nd: "nd \<le> 3" "0 < e" "\<And>i. i < nd \<Longrightarrow> 0 \<le> at sz i"
    and len: "length A = nat (accumulate sz nd) * e"
    and all: "\<And>q. in_box nd q sz \<Longrightarrow> \<exists>r < j. in_subbox nd (fst (box r)) (snd (box r)) q"
  shows "Y = A"
proof (rule elem_eqI[OF nd(1,3,2)])
  show "length Y = nat (accumulate sz nd) * e" using Y len by (simp add: gathered_def)
  show "elem e Y (nat (lin nd q sz)) = elem e A (nat (lin nd q sz))" if "in_box nd q sz" for q
    using Y all[OF that] that by (simp add: gathered_def)
qed (simp_all add: len)

text \<open>A client sends its part and keeps its state.\<close>

lemma Client_GridCopyout_prog:
  assumes h: "holds a i nd e sz lo ls s D" and le: "le ls ls"
  shows "Client_GridCopyout le i s = Send 0 (MIdx lo) (Send 0 (MIdx ls)
      (if accumulate ls nd = 0 then Ret s else Send 0 (MBytes D) (Ret s)))"
proof -
  obtain gs st where s: "s = (gs, st)" by (cases s)
  obtain g kb b where g: "objs gs a = Some g" "FindGrid i gs = Inr a"
      "grid_num_dims g = nd" "gm_local_offset g = lo"
      "gm_local_size g = ls" "gm_empty g = (accumulate ls nd = 0)" "data_buffer0 g = Some kb"
      "bufs st kb = Some b" "buffer_ok b (hp st)" "buf_num_dims b = nd"
      "buf_elm_size b = e" "buf_size b = ls"
      "if accumulate ls nd = 0 then D = [] else contents (hp st) (buf_ptr b) = Some D"
    using h s by (auto simp: holds_def)
  have "bindP (send_bytes (buf_ptr b) (GetLinearSize_of b ls) 0 (hp st)) F = Send 0 (MBytes D) (F ())"
    if ne: "accumulate ls nd \<noteq> 0" for F :: "unit \<Rightarrow> pstate prog"
  proof -
    obtain blk where blk: "buf_ptr b = Ptr blk 0" "blocks (hp st) blk = Some D" "length D = GetLinearSize b"
      using g(9,13) ne g(10,12) by (auto simp: buffer_ok_def contents_def)
    have lin: "GetLinearSize_of b ls = length D" using blk(3) g(12) by (simp add: GetLinearSize_def)
    have "0 < nat (accumulate ls nd) * e"
      using ne g(9) g(10-12) accumulate_nonneg[of nd ls] by (auto simp: buffer_ok_def)
    then have "length D \<noteq> 0" using holds_length[OF h] by linarith
    then show ?thesis using send_bytes_block[OF blk(2), of "length D"] blk(1) lin by simp
  qed
  then show ?thesis using g(1-8) g(12) le
    by (simp add: Client_GridCopyout_def s get_obj_def buffer_at_def BufferHost_MPISend_def bindP_assoc)
qed

end
