(* ===== verification/Schedules.thy ===== *)
theory Schedules imports Message_Passing begin

text \<open>
  From one schedule to all: when one run of a network ends with every process returned and
  no message left, every run of it is a prefix of a run to that same end, and none is longer.
\<close>

definition every_run_ends_in :: "'a network \<Rightarrow> 'a list \<Rightarrow> bool" where
  "every_run_ends_in c rs \<longleftrightarrow>
     (\<exists>n. \<forall>k d. (net_step ^^ k) c d \<longrightarrow>
        k \<le> n \<and> (net_step ^^ (n - k)) d (init_network (map Ret rs)))"

text \<open>A process at a receive from any source stays there under the other steps.\<close>

definition at_any :: "'a network \<Rightarrow> nat \<Rightarrow> bool" where
  "at_any c i \<longleftrightarrow> i < length (procs c) \<and> (\<exists>k. procs c ! i = RecvAny k)"

lemma at_any_step:
  assumes "det_step c d" "at_any c i"
  shows "at_any d i"
  using assms(1)
proof (rule det_stepE)
  fix j assume j: "proc_step j c = Some d"
  have ne: "i \<noteq> j" using j assms(2) by (auto simp: proc_step_def at_any_def split: if_splits)
  from proc_step_chans_append[OF j ne] show ?thesis using assms(2) by (simp add: at_any_def)
next
  assume "collect_step c = Some d"
  then have "\<forall>p \<in> set (procs c). collect_of p \<noteq> None" by (simp add: collect_step_def split: if_splits)
  moreover obtain k where "RecvAny k \<in> set (procs c)"
    using assms(2) by (metis at_any_def nth_mem)
  ultimately show ?thesis by fastforce
qed

lemma at_any_steps: "(det_step ^^ n) c d \<Longrightarrow> at_any c i \<Longrightarrow> at_any d i"
proof (induction n arbitrary: c)
  case (Suc n)
  obtain c1 where "det_step c c1" "(det_step ^^ n) c1 d" by (rule relpowp_Suc_E2[OF Suc.prems(1)])
  then show ?case using Suc.IH at_any_step Suc.prems(2) by blast
qed simp

lemma returned_final: "final (init_network (map Ret rs))" "\<not> at_any (init_network (map Ret rs)) i"
proof -
  have "collect_step (init_network (map Ret rs)) = None"
    by (cases rs) (simp_all add: collect_step_def init_network_def)
  moreover have "proc_step j (init_network (map Ret rs)) = None" for j
    by (simp add: proc_step_def init_network_def)
  ultimately show "final (init_network (map Ret rs))" by (auto simp: final_def elim: det_stepE)
  show "\<not> at_any (init_network (map Ret rs)) i" by (auto simp: at_any_def init_network_def)
qed

lemma net_step_det: "net_step c d \<Longrightarrow> (\<And>i. \<not> at_any c i) \<Longrightarrow> det_step c d"
  by (auto elim!: net_stepE simp: at_any_def)

lemma det_net_steps: "(det_step ^^ n) c d \<Longrightarrow> (net_step ^^ n) c d"
proof (induction n arbitrary: c)
  case (Suc n)
  obtain c1 where "det_step c c1" "(det_step ^^ n) c1 d" by (rule relpowp_Suc_E2[OF Suc.prems])
  then show ?case using Suc.IH by (meson net_det relpowp_Suc_I2)
qed simp

theorem one_run_enough:
  assumes "det_step\<^sup>*\<^sup>* c (init_network (map Ret rs))"
  shows "every_run_ends_in c rs"
proof -
  let ?f = "init_network (map Ret rs)"
  obtain n where n: "(det_step ^^ n) c ?f" using assms rtranclp_imp_relpowp by metis
  have det: "(net_step ^^ k) c d \<Longrightarrow> (det_step ^^ k) c d" for k d
  proof (induction k arbitrary: d)
    case (Suc k)
    obtain d1 where d1: "(net_step ^^ k) c d1" "net_step d1 d" using Suc.prems by auto
    note k = Suc.IH[OF d1(1)]
    have "(det_step ^^ (n - k)) d1 ?f" using runs_agree[OF n returned_final(1) k] by blast
    then have "\<not> at_any d1 i" for i using at_any_steps returned_final(2) by blast
    then have "det_step d1 d" using net_step_det[OF d1(2)] by blast
    then show ?case using k by auto
  qed simp
  have "k \<le> n \<and> (net_step ^^ (n - k)) d ?f" if "(net_step ^^ k) c d" for k d
    using runs_agree[OF n returned_final(1) det[OF that]] det_net_steps by blast
  then show ?thesis unfolding every_run_ends_in_def by blast
qed

text \<open>In particular a run that cannot go on has ended there, and the results are unique.\<close>

lemma every_run_stuck:
  assumes "every_run_ends_in c rs" "net_step\<^sup>*\<^sup>* c d" "\<And>e. \<not> net_step d e"
  shows "d = init_network (map Ret rs)"
proof -
  obtain k where k: "(net_step ^^ k) c d" using assms(2) rtranclp_imp_relpowp by metis
  then obtain m where m: "(net_step ^^ m) d (init_network (map Ret rs))"
    using assms(1) unfolding every_run_ends_in_def by blast
  then show ?thesis
  proof (cases m)
    case (Suc l)
    then show ?thesis using m assms(3) by (metis relpowp_Suc_E2)
  qed simp
qed

end
