(* ===== verification/Rpc_Transfer.thy ===== *)
theory Rpc_Transfer imports Rpc_Copy Space_Partition Schedules begin

text \<open>
  Copies of a whole grid between the user's array in the master and the parts held by all
  processes: the copy-out by every process, and the round trip through the partition that
  \<open>PartitionGrid\<close> makes.
\<close>

subsection \<open>A complete copy-out\<close>

lemma holds_user:
  assumes h: "holds a i nd e sz lo ls (gs, st) D" and U: "user_block np a U X (gs, st)"
    and h': "blocks h' = (blocks (hp st))(U \<mapsto> Y)" "heap_ok h'"
  shows "holds a i nd e sz lo ls (gs, st\<lparr>hp := h'\<rparr>) D" "user_block np a U Y (gs, st\<lparr>hp := h'\<rparr>)"
proof -
  obtain g k b where b: "objs gs a = Some g" "data_buffer0 g = Some k" "bufs st k = Some b"
      "buffer_ok b (hp st)" "data0 g = buf_ptr b"
      "if accumulate ls nd = 0 then D = [] else contents (hp st) (buf_ptr b) = Some D"
    using h by (auto simp: holds_def)
  have ne: "buf_ptr b \<noteq> Ptr U 0" using U b(1,5) by (auto simp: user_block_def)
  have ok: "buffer_ok b h'" using b(4) ne h'(1) by (fastforce simp: buffer_ok_def)
  have con: "contents h' (buf_ptr b) = contents (hp st) (buf_ptr b)"
    using ne h'(1) by (auto simp: contents_def split: ptr.split)
  show "holds a i nd e sz lo ls (gs, st\<lparr>hp := h'\<rparr>) D"
    using h b ok con h'(2) unfolding holds_def prod.case by auto
  show "user_block np a U Y (gs, st\<lparr>hp := h'\<rparr>)"
    using U h'(1) by (simp add: user_block_def)
qed

lemma master_local_copyout:
  assumes h: "holds a i nd e sz lo ls (gs, st) D" and U: "user_block np a U X (gs, st)"
    and bx: "box_ok nd e sz lo ls" and X: "nat (accumulate sz nd) * e \<le> length X"
    and g: "objs gs a = Some g"
  shows "\<exists>h1. Master_GridCopyoutLocal g (Ptr U 0) st = Inr (st\<lparr>hp := h1\<rparr>) \<and>
    holds a i nd e sz lo ls (gs, st\<lparr>hp := h1\<rparr>) D \<and>
    blocks h1 = (blocks (hp st))(U \<mapsto> (if accumulate ls nd = 0 then X
      else scatter X (box_lines e nd sz lo ls) (line_bytes e ls) D)) \<and>
    avail h1 = avail (hp st) \<and> heap_ok h1"
proof -
  obtain k b where b: "grid_num_dims g = nd" "grid_elm_size g = e" "grid_size g = sz"
      "gm_local_offset g = lo" "gm_local_size g = ls" "gm_empty g = (accumulate ls nd = 0)"
      "data_buffer0 g = Some k" "bufs st k = Some b" "buffer_ok b (hp st)" "heap_ok (hp st)"
      "data0 g = buf_ptr b" "if accumulate ls nd = 0 then D = [] else contents (hp st) (buf_ptr b) = Some D"
    using h g by (auto simp: holds_def)
  have Ub: "blocks (hp st) U = Some X" "buf_ptr b \<noteq> Ptr U 0" using U g b(11) by (auto simp: user_block_def)
  show ?thesis
  proof (cases "accumulate ls nd = 0")
    case True
    then have "Master_GridCopyoutLocal g (Ptr U 0) st = Inr (st\<lparr>hp := hp st\<rparr>)"
      using b by (simp add: Master_GridCopyoutLocal_def)
    then show ?thesis using h Ub(1) b(10) True
      by (intro exI[of _ "hp st"]) (simp add: fun_upd_idem)
  next
    case False
    then have fits: "copy_fits e nd sz lo ls" using bx by (simp add: box_ok_def)
    obtain blk where blk: "buf_ptr b = Ptr blk 0" "blocks (hp st) blk = Some D"
      using b(9,12) False by (auto simp: buffer_ok_def contents_def split: ptr.splits if_splits)
    have ne: "blk \<noteq> U" using Ub(2) blk(1) by auto
    let ?Y = "scatter X (box_lines e nd sz lo ls) (line_bytes e ls) D"
    let ?h1 = "(hp st)\<lparr>blocks := (blocks (hp st))(U \<mapsto> ?Y)\<rparr>"
    have "nat (accumulate ls nd) * e \<le> length D" using holds_length[OF h] by simp
    then have "CopyinSubgrid e nd (Ptr U 0) sz (Ptr blk 0) lo ls (hp st) = Inr ?h1"
      using CopyinSubgrid_ok[OF fits ne Ub(1) blk(2) X, of 0] by simp
    then have run: "Master_GridCopyoutLocal g (Ptr U 0) st = Inr (st\<lparr>hp := ?h1\<rparr>)"
      using b blk False by (simp add: Master_GridCopyoutLocal_def buffer_ptr_def buffer_at_def on_heap_def)
    moreover have "heap_ok ?h1" using b(10) Ub by (auto simp: heap_ok_def)
    moreover from this have "holds a i nd e sz lo ls (gs, st\<lparr>hp := ?h1\<rparr>) D"
      by (intro holds_user(1)[OF h U]) simp_all
    ultimately show ?thesis using run False by (intro exI[of _ ?h1]) simp
  qed
qed

lemma copyout_run:
  fixes K :: "pstate \<Rightarrow> pstate prog"
  assumes bx: "boxes_ok np nd e sz box" and dist: "distributed np addr i nd e sz box s A"
    and U: "user_block np (addr 0) U X (s 0)" and A: "nat (accumulate sz nd) * e \<le> length A"
    and X: "length X = length A" and room: "nat (accumulate sz nd) * e \<le> avail (hp (snd (s 0)))"
    and le: "\<And>v. le v v"
  shows "\<exists>s' Y. distributed np addr i nd e sz box s' A \<and> user_block np (addr 0) U Y (s' 0) \<and>
    gathered nd e sz box A X np Y \<and> (\<forall>r. r \<noteq> 0 \<longrightarrow> s' r = s r) \<and> fst (s' 0) = fst (s 0) \<and>
    blocks (hp (snd (s' 0))) = (blocks (hp (snd (s 0))))(U \<mapsto> Y) \<and>
    avail (hp (snd (s' 0))) = avail (hp (snd (s 0))) \<and>
    det_step\<^sup>*\<^sup>*
      (init_network (bindP (Master_GridCopyout (addr 0) (Ptr U 0) (s 0)) K #
        map (\<lambda>r. Client_Listen le stencil reduce fuel (Suc n) (s r)) [1..<np]))
      (init_network (K (s' 0) # map (\<lambda>r. Client_Listen le stencil reduce fuel n (s' r)) [1..<np]))"
proof -
  let ?lo = "\<lambda>r. fst (box r)" and ?ls = "\<lambda>r. snd (box r)"
  let ?part = "\<lambda>r. part_of e nd sz (box r) A"
  let ?L = "\<lambda>n. Client_Listen le stencil reduce fuel n"
  have np: "1 \<le> np" and boxes: "\<And>r. r < np \<Longrightarrow> box_ok nd e sz (?lo r) (?ls r)"
    and e: "0 < e" "0 < nd"
    using bx by (auto simp: boxes_ok_def copy_fits_def)
  obtain gs st where s0: "s 0 = (gs, st)" by (cases "s 0")
  have h0: "holds (addr 0) i nd e sz (?lo 0) (?ls 0) (gs, st) (?part 0)"
    using dist np s0 unfolding distributed_def by (metis less_le_trans zero_less_one)
  then obtain g where g: "objs gs (addr 0) = Some g" "grid_id g = Some i" "grid_num_dims g = nd"
      "grid_elm_size g = e" "grid_size g = sz"
    by (auto simp: holds_def)
  let ?B = "blocks (hp st)"
  have U0: "user_block np (addr 0) U X (gs, st)" using U s0 by simp
  let ?Y1 = "if accumulate (?ls 0) nd = 0 then X
    else scatter X (box_lines e nd sz (?lo 0) (?ls 0)) (line_bytes e (?ls 0)) (?part 0)"
  obtain h1 where h1: "Master_GridCopyoutLocal g (Ptr U 0) st = Inr (st\<lparr>hp := h1\<rparr>)"
      "blocks h1 = ?B(U \<mapsto> ?Y1)" "avail h1 = avail (hp st)" "heap_ok h1"
    using master_local_copyout[OF h0 U0 boxes _ g(1)] np A X by auto
  have nproc: "nat (gs_num_procs gs) = np" using U0 by (simp add: user_block_def)
  let ?K = "\<lambda>(sbuf, h). bindP (lift (Buffer_Delete sbuf h)) (\<lambda>(_, h). K (gs, st\<lparr>hp := h\<rparr>))"
  have prog: "bindP (Master_GridCopyout (addr 0) (Ptr U 0) (s 0)) K = BcastSend (MRequest 4 i)
      (bindP (foldP (copyout_recv g (Ptr U 0)) [1..<np] (BufferHost_new nd e, h1)) ?K)"
    using g h1(1) nproc
    by (simp add: Master_GridCopyout_def s0 get_obj_def get_id_def NotifyCall_def PS_MPI_Bcast_root_def
        bindP_assoc split_def)
  let ?C = "\<lambda>r. bindP (Client_GridCopyout le i (s r)) (?L n)" and ?D = "\<lambda>r. ?L n (s r)"
  have client: "?C r = Send 0 (MIdx (?lo r)) (Send 0 (MIdx (?ls r))
      (if accumulate (?ls r) nd = 0 then ?D r else Send 0 (MBytes (?part r)) (?D r)))" if "r < np" for r
    using Client_GridCopyout_prog[of "addr r" i nd e sz "?lo r" "?ls r" "s r" "?part r" le] dist that le
    by (simp add: distributed_def)
  let ?F = "copyout_recv g (Ptr U 0)" and ?bq = "\<lambda>j. if 0 < j \<and> j < np then [MRequest 4 i] else []"
  let ?I = "\<lambda>j x. \<exists>Y. loop_ok nd e (?B(U := Some Y)) (avail (hp st)) x \<and> gathered nd e sz box A X j Y"
  have turn: "\<exists>x'. ?I (Suc r) x' \<and>
      det_step\<^sup>*\<^sup>* (mnet np (bindP (?F r x) K') P bq) (mnet np (K' x') (P(r := ?D r)) bq)"
    if r: "1 \<le> r" "r < np" and x: "?I r x" and P: "P r = ?C r"
    for r x P bq and K' :: "buffer \<times> heap \<Rightarrow> pstate prog"
  proof -
    obtain Y where Y: "loop_ok nd e (?B(U := Some Y)) (avail (hp st)) x" "gathered nd e sz box A X r Y"
      using x by blast
    have "nat (accumulate sz nd) * e \<le> length Y" using Y(2) A by (simp add: gathered_def)
    moreover have "nat (accumulate sz nd) * e \<le> avail (hp st)" using room s0 by simp
    moreover have "length (?part r) = nat (accumulate (?ls r) nd) * e"
      by (rule length_part[OF boxes[OF r(2)] A])
    moreover have "P r = Send 0 (MIdx (?lo r)) (Send 0 (MIdx (?ls r))
        (if accumulate (?ls r) nd = 0 then ?D r else Send 0 (MBytes (?part r)) (?D r)))"
      using P client[OF r(2)] by simp
    ultimately have "\<exists>x'. loop_ok nd e (?B(U := Some (if accumulate (?ls r) nd = 0 then Y
          else scatter Y (box_lines e nd sz (?lo r) (?ls r)) (line_bytes e (?ls r)) (?part r)))) (avail (hp st)) x' \<and>
        det_step\<^sup>*\<^sup>* (mnet np (bindP (?F r x) K') P bq) (mnet np (K' x') (P(r := ?D r)) bq)"
      using copyout_turn[of nd e ?B U Y "avail (hp st)" x r np g sz "?lo r" "?ls r" "?part r" P "?D r" K' bq]
        Y(1) r g(3-5) boxes[OF r(2)] by blast
    then show ?thesis using gathered_Suc[OF Y(2) boxes[OF r(2)] A] by blast
  qed
  have listen: "\<exists>f. ?L (Suc n) (s r) = BcastRecv f \<and> f (MRequest 4 i) = ?C r" for r
    by (intro exI conjI, rule listen_request)
      (simp add: client_handler_def kind_of_code_code[of FUNC_COPYOUT, simplified])
  have start: "?I 1 (BufferHost_new nd e, h1)"
    using loop_ok_start[OF h1(4) e] gathered_Suc[of nd e sz box A X 0 X] gathered_0[OF X, of nd e sz box] boxes[of 0] A np h1(2,3)
    by (intro exI[of _ ?Y1]) auto
  obtain x' where x': "?I np x'"
      "det_step\<^sup>*\<^sup>* (mnet np (bindP (foldP ?F [1..<np] (BufferHost_new nd e, h1)) ?K)
          (\<lambda>r. ?L (Suc n) (s r)) ?bq) (mnet np (?K x') ?D (\<lambda>_. []))"
    using clients_in_turn[of np ?I ?C ?F ?D "\<lambda>r. ?L (Suc n) (s r)"
        "MRequest 4 i" "(BufferHost_new nd e, h1)" ?K, OF turn listen np start] by blast
  obtain sbuf h2 where x_eq: "x' = (sbuf, h2)" by (cases x')
  obtain Y where Y: "loop_ok nd e (?B(U := Some Y)) (avail (hp st)) (sbuf, h2)" "gathered nd e sz box A X np Y"
    using x'(1) x_eq by auto
  obtain b' h3 where h3: "Buffer_Delete sbuf h2 = Inr (b', h3)" "blocks h3 = ?B(U \<mapsto> Y)"
      "avail h3 = avail (hp st)" "heap_ok h3"
    using loop_ok_end[OF Y(1)] by auto
  let ?s0 = "(gs, st\<lparr>hp := h3\<rparr>)"
  note fin = holds_user[OF h0 U0 h3(2,4)]
  have d: "distributed np addr i nd e sz box (s(0 := ?s0)) A"
    using dist fin(1) by (auto simp: distributed_def)
  have "mnet np (?K x') ?D (\<lambda>_. []) = init_network (K ?s0 # map (\<lambda>r. ?L n ((s(0 := ?s0)) r)) [1..<np])"
    unfolding network_mnet using h3 x_eq by (simp add: mnet_def)
  moreover have "init_network (bindP (Master_GridCopyout (addr 0) (Ptr U 0) (s 0)) K #
        map (\<lambda>r. ?L (Suc n) (s r)) [1..<np]) = mnet np (BcastSend (MRequest 4 i)
      (bindP (foldP ?F [1..<np] (BufferHost_new nd e, h1)) ?K)) (\<lambda>r. ?L (Suc n) (s r)) (\<lambda>_. [])"
    unfolding network_mnet prog ..
  moreover note rtranclp_trans[OF step_bcast[OF np] x'(2)]
  ultimately show ?thesis using d fin(2) s0 h3 Y(2)
    by (intro exI[of _ "s(0 := ?s0)"] exI[of _ Y]) simp
qed

end
