(* ===== verification/Rpc_Life.thy ===== *)
theory Rpc_Life imports Rpc_Transfer begin

text \<open>
  The life of a distributed grid: every process creates its part, the master's array is
  copied in, and the copy-out gives it back. The runs are those of all processes under any
  schedule.
\<close>

subsection \<open>Creation by one process\<close>

text \<open>A process with its grids: its grid space, its registry and its heap.\<close>

definition process_ok :: "nat \<Rightarrow> idx \<Rightarrow> idx \<Rightarrow> int \<Rightarrow> pstate \<Rightarrow> bool" where
  "process_ok nd gsz ps r = (\<lambda>(gs, st). space_ok gs \<and> gs_num_dims gs = nd \<and> gs_global_size gs = gsz \<and>
     gs_proc_size gs = ps \<and> gs_my_rank gs = r \<and> registry_ok grid_id gs \<and> world_ok st \<and>
     (\<forall>a. next_buf st \<le> a \<longrightarrow> objs gs a = None))"

lemma process_start:
  assumes "space_args_ok nd gsz ps" "0 \<le> r" "r < accumulate ps nd" "world_ok st"
  shows "\<exists>gs. GridSpaceMPI_new nd gsz nd ps r = Inr gs \<and> process_ok nd gsz ps r (gs, st)"
  using GridSpaceMPI_new_ok[OF assms(1-3), where 'a = mgrid] assms(4)
  by (auto simp: process_ok_def registry_ok_def Counter_def)

lemma GetLinearSize_new:
  assumes "0 < n"
  shows "GetLinearSize (BufferHost_new n e) = 0"
proof -
  have "accumulate IntegerArray0 n = (0 :: int)" using assms by (auto simp: accumulate_eq_0_iff)
  then show ?thesis
    by (simp add: GetLinearSize_def GetLinearSize_of_def BufferHost_new_def Buffer_new_def size_mult_def to_size_def)
qed

lemma new_local_buffer_ok:
  assumes st: "world_ok st" and n: "0 < grid_num_dims g" and fits: "size_fits (grid_num_dims g) (grid_elm_size g) (gm_local_size g)"
    and room: "nat (accumulate (gm_local_size g) (grid_num_dims g)) * grid_elm_size g \<le> avail (hp st)"
  shows "\<exists>b st'. new_local_buffer g st = Inr (next_buf st, st') \<and> world_ok st' \<and>
    next_buf st' = Suc (next_buf st) \<and> bufs st' = (bufs st)(next_buf st \<mapsto> b) \<and>
    buffer_ok b (hp st') \<and> buf_num_dims b = grid_num_dims g \<and> buf_elm_size b = grid_elm_size g \<and>
    buf_size b = gm_local_size g \<and> others b (hp st') = blocks (hp st) \<and>
    avail (hp st') + nat (accumulate (gm_local_size g) (grid_num_dims g)) * grid_elm_size g = avail (hp st) \<and>
    files st' = files st \<and>
    (accumulate (gm_local_size g) (grid_num_dims g) \<noteq> 0 \<longrightarrow> contents (hp st') (buf_ptr b) =
       Some (replicate (nat (accumulate (gm_local_size g) (grid_num_dims g)) * grid_elm_size g) (Some 0)))"
proof -
  let ?n = "grid_num_dims g" and ?e = "grid_elm_size g" and ?sz = "gm_local_size g"
  let ?b = "BufferHost_new ?n ?e"
  have e: "0 < ?e" using fits by (simp add: size_fits_def)
  have dims: "buf_num_dims ?b = ?n" "buf_elm_size ?b = ?e" by (simp_all add: BufferHost_new_def Buffer_new_def)
  have h: "heap_ok (hp st)" "\<forall>k. next_buf st \<le> k \<longrightarrow> bufs st k = None" using st by (auto simp: world_ok_def)
  obtain b' h' where b': "Buffer_Allocate BufferHost_GetChunk ?n ?e ?sz ?b (hp st) = Inr (b', h')"
      "buffer_ok b' h'" "buf_num_dims b' = ?n" "buf_elm_size b' = ?e" "buf_size b' = ?sz"
      "heap_ok h'" "others b' h' = others ?b (hp st)"
      "avail h' + GetLinearSize b' = avail (hp st) + GetLinearSize ?b"
      "accumulate ?sz ?n \<noteq> 0 \<longrightarrow> contents h' (buf_ptr b') = Some (replicate (nat (accumulate ?sz ?n) * ?e) (Some 0))"
    using Buffer_Allocate_ok[OF buffer_ok_new[OF e n] h(1) fits] dims room by auto
  moreover have "GetLinearSize b' = nat (accumulate ?sz ?n) * ?e"
    using buffer_ok_linear[OF b'(2)] b'(3-5) by simp
  moreover have "new_local_buffer g st = Inr (next_buf st,
      st\<lparr>hp := h', bufs := (bufs st)(next_buf st \<mapsto> b'), next_buf := Suc (next_buf st)\<rparr>)"
    using b'(1) dims by (simp add: new_local_buffer_def new_buffer_def with_buffer_def Buffer_Allocate1_def)
  ultimately show ?thesis using h(2) GetLinearSize_new[OF n] by (auto simp: world_ok_def)
qed

text \<open>What creation leaves: the first buffer of the grid, and what was there before.\<close>

definition local_buffer :: "nat \<Rightarrow> nat \<Rightarrow> idx \<Rightarrow> nat \<Rightarrow> ptr \<Rightarrow> cell list \<Rightarrow> world \<Rightarrow> bool" where
  "local_buffer n e ls k p D st \<longleftrightarrow> (\<exists>b. bufs st k = Some b \<and> buffer_ok b (hp st) \<and>
     buf_num_dims b = n \<and> buf_elm_size b = e \<and> buf_size b = ls \<and> buf_ptr b = p \<and>
     (if accumulate ls n = 0 then D = [] else contents (hp st) p = Some D))"

definition kept :: "world \<Rightarrow> world \<Rightarrow> bool" where
  "kept st st' \<longleftrightarrow> next_buf st < next_buf st' \<and> files st' = files st \<and>
     (\<forall>k < next_buf st. bufs st' k = bufs st k) \<and>
     (\<forall>k cs. blocks (hp st) k = Some cs \<longrightarrow> blocks (hp st') k = Some cs)"

lemma local_buffer_new:
  assumes "world_ok st" "0 < grid_num_dims g" "size_fits (grid_num_dims g) (grid_elm_size g) (gm_local_size g)"
    and B: "B = nat (accumulate (gm_local_size g) (grid_num_dims g)) * grid_elm_size g" and "B \<le> avail (hp st)"
  shows "\<exists>st' p. new_local_buffer g st = Inr (next_buf st, st') \<and> world_ok st' \<and> kept st st' \<and>
    local_buffer (grid_num_dims g) (grid_elm_size g) (gm_local_size g) (next_buf st) p (replicate B (Some 0)) st' \<and>
    (\<forall>k. p = Ptr k 0 \<longrightarrow> blocks (hp st) k = None) \<and>
    next_buf st' = Suc (next_buf st) \<and> avail (hp st') + B = avail (hp st)"
proof -
  obtain b st' where b: "new_local_buffer g st = Inr (next_buf st, st')" "world_ok st'"
      "next_buf st' = Suc (next_buf st)" "bufs st' = (bufs st)(next_buf st \<mapsto> b)"
      "buffer_ok b (hp st')" "buf_num_dims b = grid_num_dims g" "buf_elm_size b = grid_elm_size g"
      "buf_size b = gm_local_size g" "others b (hp st') = blocks (hp st)" "avail (hp st') + B = avail (hp st)"
      "files st' = files st"
      "accumulate (gm_local_size g) (grid_num_dims g) \<noteq> 0 \<longrightarrow>
         contents (hp st') (buf_ptr b) = Some (replicate B (Some 0))"
    using new_local_buffer_ok[OF assms(1-3)] assms(5) unfolding B[symmetric] by blast
  have "blocks (hp st) k = None" if "buf_ptr b = Ptr k 0" for k
    using fun_cong[OF b(9), of k] that by (simp add: others_def)
  moreover have "blocks (hp st') k = Some cs" if "blocks (hp st) k = Some cs" for k cs
    using that b(9) others_SomeD by metis
  ultimately show ?thesis using b B by (intro exI[of _ st'] exI[of _ "buf_ptr b"]) (auto simp: kept_def local_buffer_def)
qed

lemma kept_trans: "kept st st1 \<Longrightarrow> kept st1 st2 \<Longrightarrow> kept st st2"
  by (auto simp: kept_def)

lemma local_buffer_kept:
  assumes "local_buffer n e ls k p D st" "kept st st'" "k < next_buf st"
  shows "local_buffer n e ls k p D st'"
proof -
  obtain b where b: "bufs st k = Some b" "buffer_ok b (hp st)" "buf_num_dims b = n" "buf_elm_size b = e"
      "buf_size b = ls" "buf_ptr b = p" "if accumulate ls n = 0 then D = [] else contents (hp st) p = Some D"
    using assms(1) by (auto simp: local_buffer_def)
  have keep: "\<And>k cs. blocks (hp st) k = Some cs \<Longrightarrow> blocks (hp st') k = Some cs"
    using assms(2) by (simp add: kept_def)
  have "buffer_ok b (hp st')" using b(2) keep by (fastforce simp: buffer_ok_def)
  moreover have "contents (hp st') p = Some D" if "contents (hp st) p = Some D"
    using that keep by (auto simp: contents_def split: ptr.splits if_splits)
  moreover have "bufs st' k = Some b" using assms(2,3) b(1) by (simp add: kept_def)
  ultimately show ?thesis using b by (auto simp: local_buffer_def)
qed

lemma GridMPI_new_fields [simp]:
  "grid_num_dims (GridMPI_new ty e n sz db go lo ls attr) = n"
  "grid_elm_size (GridMPI_new ty e n sz db go lo ls attr) = e"
  "grid_size (GridMPI_new ty e n sz db go lo ls attr) = sz"
  "grid_double (GridMPI_new ty e n sz db go lo ls attr) = db"
  "gm_local_offset (GridMPI_new ty e n sz db go lo ls attr) = lo"
  "gm_local_size (GridMPI_new ty e n sz db go lo ls attr) = ls"
  "gm_empty (GridMPI_new ty e n sz db go lo ls attr) = (accumulate ls n = 0)"
  by (simp_all add: GridMPI_new_def Grid_new_def grid.defs Let_def)

lemma GridMPI_Create_ok:
  assumes st: "world_ok st" and n: "0 < n" and fits: "size_fits n e ls" and B: "B = nat (accumulate ls n) * e"
    and room: "(if db then 2 * B else B) \<le> avail (hp st)"
  shows "\<exists>st' p q. GridMPI_Create ty e n sz db go lo ls attr st = Inr (
      (GridMPI_new ty e n sz db go lo ls attr)\<lparr>data_buffer0 := Some (next_buf st),
      data_buffer1 := Some (if db then Suc (next_buf st) else next_buf st), data0 := p, data1 := q\<rparr>, st') \<and>
    world_ok st' \<and> kept st st' \<and>
    local_buffer n e ls (next_buf st) p (replicate B (Some 0)) st' \<and>
    (\<forall>k. p = Ptr k 0 \<longrightarrow> blocks (hp st) k = None) \<and>
    avail (hp st') + (if db then 2 * B else B) = avail (hp st)"
proof -
  let ?g = "GridMPI_new ty e n sz db go lo ls attr"
  have f: "grid_num_dims ?g = n" "grid_elm_size ?g = e" "gm_local_size ?g = ls" "grid_double ?g = db"
    by simp_all
  have room1: "B \<le> avail (hp st)" using room by (simp split: if_splits)
  obtain st1 p where st1: "new_local_buffer ?g st = Inr (next_buf st, st1)" "world_ok st1" "kept st st1"
      "local_buffer n e ls (next_buf st) p (replicate B (Some 0)) st1"
      "\<forall>k. p = Ptr k 0 \<longrightarrow> blocks (hp st) k = None"
      "next_buf st1 = Suc (next_buf st)" "avail (hp st1) + B = avail (hp st)"
    using local_buffer_new[OF st, of ?g B] f n fits B room1 by auto
  show ?thesis
  proof (cases db)
    case False
    have "buffer_ptr (Some (next_buf st)) st1 = Inr p"
      using st1(4) by (auto simp: local_buffer_def buffer_ptr_def buffer_at_def)
    then have "GridMPI_Create ty e n sz db go lo ls attr st = Inr (?g\<lparr>data_buffer0 := Some (next_buf st),
        data_buffer1 := Some (next_buf st), data0 := p, data1 := p\<rparr>, st1)"
      using st1(1) f False by (simp add: GridMPI_Create_def GridMPI_InitBuffer_def)
    then show ?thesis unfolding if_not_P[OF False] using st1 by blast
  next
    case True
    have room2: "B \<le> avail (hp st1)" using room True st1(7) by simp
    obtain st2 q where st2: "new_local_buffer ?g st1 = Inr (next_buf st1, st2)" "world_ok st2" "kept st1 st2"
        "local_buffer n e ls (next_buf st1) q (replicate B (Some 0)) st2" "avail (hp st2) + B = avail (hp st1)"
      using local_buffer_new[OF st1(2), of ?g B] f n fits B room2 by auto
    have b0: "local_buffer n e ls (next_buf st) p (replicate B (Some 0)) st2"
      using local_buffer_kept[OF st1(4) st2(3)] st1(6) by simp
    have "buffer_ptr (Some (next_buf st)) st2 = Inr p" "buffer_ptr (Some (Suc (next_buf st))) st2 = Inr q"
      using b0 st2(4) st1(6) by (auto simp: local_buffer_def buffer_ptr_def buffer_at_def)
    then have run: "GridMPI_Create ty e n sz db go lo ls attr st = Inr (?g\<lparr>data_buffer0 := Some (next_buf st),
        data_buffer1 := Some (Suc (next_buf st)), data0 := p, data1 := q\<rparr>, st2)"
      using st1(1,6) st2(1) f True by (simp add: GridMPI_Create_def GridMPI_InitBuffer_def)
    have "avail (hp st2) + 2 * B = avail (hp st)" using st1(7) st2(5) by simp
    then show ?thesis unfolding if_P[OF True]
      using run st1(5) st2(2) b0 kept_trans[OF st1(3) st2(3)] by blast
  qed
qed

subsection \<open>The boxes of the processes\<close>

definition grid_args_ok :: "nat \<Rightarrow> nat \<Rightarrow> idx \<Rightarrow> idx \<Rightarrow> idx \<Rightarrow> bool" where
  "grid_args_ok nd e gsz sz go \<longleftrightarrow> 1 \<le> nd \<and> 0 < e \<and> accumulate sz nd * int e < 2 ^ 64 \<and>
     (\<forall>i < nd. 0 \<le> at go i \<and> 0 \<le> at sz i \<and> at go i + at sz i \<le> at gsz i)"

lemma lin_zero: "lin n IntegerArray0 s = 0"
  by (induction n) simp_all

lemma PartitionGrid_local_box:
  assumes gs: "space_ok gs" "gs_num_dims gs = nd" "gs_global_size gs = gsz" "gs_proc_size gs = ps" "gs_my_rank gs = r"
  shows "PartitionGrid gs nd sz go (IntegerArray0, IntegerArray0) = local_box nd gsz ps sz go r"
proof -
  have args: "space_args_ok nd gsz ps" "0 \<le> r" "r < accumulate ps nd"
    using gs by (auto simp: space_ok_def Let_def)
  obtain gs' :: "unit gridspace_mpi" where gs': "GridSpaceMPI_new nd gsz nd ps r = Inr gs'" "space_ok gs'"
      "gs_num_dims gs' = nd" "gs_global_size gs' = gsz" "gs_proc_size gs' = ps" "gs_my_rank gs' = r"
    using GridSpaceMPI_new_ok[OF args] by blast
  have my: "at (gs_my_offset gs) i = at (gs_my_offset gs') i" "at (gs_my_size gs) i = at (gs_my_size gs') i"
    if "i < nd" for i
    using gs gs'(2-6) that by (auto simp: space_ok_def Let_def)
  have nd: "nd \<le> 3" using args(1) by (simp add: space_args_ok_def)
  let ?p = "PartitionGrid gs nd sz go (IntegerArray0, IntegerArray0)"
  let ?q = "PartitionGrid gs' nd sz go (IntegerArray0, IntegerArray0)"
  have "at (fst ?p) i = at (fst ?q) i \<and> at (snd ?p) i = at (snd ?q) i" if "i < 3" for i
    using PartitionGrid_at[OF nd refl refl, where gs = gs and sz = sz and go = go and i = i]
      PartitionGrid_at[OF nd refl refl, where gs = gs' and sz = sz and go = go and i = i]
      my[of i] that by (cases "i < nd") auto
  then have "?p = ?q" by (intro prod_eqI arr3_eqI) auto
  then show ?thesis using gs'(1) by (simp add: local_box_def)
qed

lemma local_box_ok:
  assumes args: "space_args_ok nd gsz ps" and g: "grid_args_ok nd e gsz sz go" and r: "0 \<le> r" "r < accumulate ps nd"
  shows "box_ok nd e sz (fst (local_box nd gsz ps sz go r)) (snd (local_box nd gsz ps sz go r))"
    and "size_fits nd e (snd (local_box nd gsz ps sz go r))"
    and "nat (accumulate (snd (local_box nd gsz ps sz go r)) nd) * e \<le> nat (accumulate sz nd) * e"
    and "r = 0 \<Longrightarrow> copy_fits e nd sz (fst (local_box nd gsz ps sz go r)) (snd (local_box nd gsz ps sz go r))"
proof -
  obtain gs :: "unit gridspace_mpi" where gs: "GridSpaceMPI_new nd gsz nd ps r = Inr gs" "space_ok gs"
      "gs_num_dims gs = nd" "gs_global_size gs = gsz" "gs_proc_size gs = ps" "gs_my_rank gs = r"
    using GridSpaceMPI_new_ok[OF args r] by blast
  have box: "local_box nd gsz ps sz go r = PartitionGrid gs nd sz go (IntegerArray0, IntegerArray0)"
    by (simp add: PartitionGrid_local_box[OF gs(2-6)])
  let ?lo = "fst (local_box nd gsz ps sz go r)" and ?ls = "snd (local_box nd gsz ps sz go r)"
  have nd: "nd \<le> 3" using args by (simp add: space_args_ok_def)
  note at = PartitionGrid_at(1,2)[OF nd arg_cong[OF box, of fst] arg_cong[OF box, of snd]]
  have nn: "0 \<le> at ?lo i" "0 \<le> at ?ls i" if "i < nd" for i using at[OF that] by auto
  have cf: "copy_fits e nd sz ?lo ?ls" if "\<And>i. i < nd \<Longrightarrow> at ?lo i + at ?ls i \<le> at sz i"
    using nn that g nd by (simp add: copy_fits_def box_in_def grid_args_ok_def)
  have pos: "at ?lo i + at ?ls i \<le> at sz i" if "accumulate ?ls nd \<noteq> 0" "i < nd" for i
    using local_part_inside[OF nd arg_cong[OF box, of fst] arg_cong[OF box, of snd] that(2)] that nn
    by (auto simp: accumulate_eq_0_iff order_less_le)
  show b: "box_ok nd e sz ?lo ?ls" using cf pos nn g by (simp add: box_ok_def grid_args_ok_def)
  show sf: "size_fits nd e ?ls"
  proof (cases "accumulate ?ls nd = 0")
    case True
    then show ?thesis using nn g by (simp add: size_fits_def grid_args_ok_def)
  next
    case False
    then show ?thesis using b copy_fits_le(3) by (auto simp: box_ok_def)
  qed
  show "nat (accumulate ?ls nd) * e \<le> nat (accumulate sz nd) * e"
    using b copy_fits_le(2) by (cases "accumulate ?ls nd = 0") (auto simp: box_ok_def)
  assume r0: "r = 0"
  show "copy_fits e nd sz ?lo ?ls"
  proof (rule cf)
    fix i assume i: "i < nd"
    have "grid_point nd IntegerArray0 ps" "lin nd IntegerArray0 ps = 0"
      using args by (simp_all add: grid_point_def in_box_def space_args_ok_def lin_zero)
    then have "rank_idx nd ps 0 = IntegerArray0" using rank_idx_lin[OF args, of IntegerArray0] by simp
    then have "at (gs_my_offset gs) i = part_off (nat (at ps i)) (at gsz i) 0"
      using gs(2-6) r0 i by (simp add: space_ok_def Let_def proc_off_def)
    moreover have "0 < at ps i" "at gsz i mod at ps i < at ps i" using args i by (auto simp: space_args_ok_def)
    ultimately have "at (gs_my_offset gs) i = 0" by (simp add: part_off_def)
    then show "at ?lo i + at ?ls i \<le> at sz i" using at[OF i] g i by (auto simp: grid_args_ok_def)
  qed
qed

lemma fold_missing [simp]: "fold (\<lambda>i s. upd s i c) [n..<n] s = s"
  by simp

lemma CreateGrid_ok:
  assumes P: "process_ok nd gsz ps r (gs, st)" and G: "grid_args_ok nd e gsz sz go"
    and cnt: "Suc (counter_v (grid_counter gs)) < 2 ^ 31" and i: "i = int (counter_v (grid_counter gs))"
    and room: "(if db then 2 else 1) * (nat (accumulate sz nd) * e) \<le> avail (hp st)"
    and bx: "bx = local_box nd gsz ps sz go r"
  shows "\<exists>gs' st' g D. CreateGrid ty e nd sz db go attr (gs, st) = Inr (next_buf st, gs', st') \<and>
    process_ok nd gsz ps r (gs', st') \<and> holds (next_buf st) i nd e sz (fst bx) (snd bx) (gs', st') D \<and>
    kept st st' \<and> avail (hp st) \<le> avail (hp st') + (if db then 2 else 1) * (nat (accumulate sz nd) * e) \<and>
    counter_v (grid_counter gs') = Suc (counter_v (grid_counter gs)) \<and> gs_num_procs gs' = gs_num_procs gs \<and>
    objs gs' (next_buf st) = Some g \<and> (\<forall>U. data0 g = Ptr U 0 \<longrightarrow> blocks (hp st) U = None) \<and>
    (\<forall>b. b \<noteq> next_buf st \<longrightarrow> objs gs' b = objs gs b) \<and> (\<forall>j. j \<noteq> i \<longrightarrow> FindGrid j gs' = FindGrid j gs)"
proof -
  let ?a = "next_buf st" and ?st = "st\<lparr>next_buf := Suc (next_buf st)\<rparr>"
  let ?lo = "fst bx" and ?ls = "snd bx"
  have p: "space_ok gs" "gs_num_dims gs = nd" "gs_global_size gs = gsz" "gs_proc_size gs = ps"
      "gs_my_rank gs = r" "registry_ok grid_id gs" "world_ok st" "\<And>a. next_buf st \<le> a \<Longrightarrow> objs gs a = None"
    using P by (auto simp: process_ok_def)
  have args: "space_args_ok nd gsz ps" "0 \<le> r" "r < accumulate ps nd"
    using p(1-5) by (auto simp: space_ok_def Let_def)
  have n: "0 < nd" using G by (simp add: grid_args_ok_def)
  note box = local_box_ok[OF args(1) G args(2,3), folded bx]
  let ?B = "nat (accumulate ?ls nd) * e"
  have le: "2 * ?B \<le> 2 * (nat (accumulate sz nd) * e)" "?B \<le> nat (accumulate sz nd) * e"
    using box(3) by (auto intro!: mult_le_mono2)
  have w: "world_ok ?st" using p(7) by (simp add: world_ok_def)
  have room': "(if db then 2 * ?B else ?B) \<le> avail (hp ?st)"
    using order.trans[OF le(1), of "avail (hp st)"] order.trans[OF le(2), of "avail (hp st)"] room
    by (cases db) simp_all
  have nb: "next_buf ?st = Suc ?a" "hp ?st = hp st" by simp_all
  let ?new = "GridMPI_new ty e nd sz db go ?lo ?ls attr"
  obtain st1 pt q where st1: "GridMPI_Create ty e nd sz db go ?lo ?ls attr ?st = Inr
        (?new\<lparr>data_buffer0 := Some (Suc ?a), data_buffer1 := Some (if db then Suc (Suc ?a) else Suc ?a),
           data0 := pt, data1 := q\<rparr>, st1)"
      "world_ok st1" "kept ?st st1" "local_buffer nd e ?ls (Suc ?a) pt (replicate ?B (Some 0)) st1"
      "\<forall>k. pt = Ptr k 0 \<longrightarrow> blocks (hp st) k = None"
      "avail (hp st1) + (if db then 2 * ?B else ?B) = avail (hp st)"
    using GridMPI_Create_ok[OF w n box(2) refl room', where ty = ty and sz = sz and go = go and lo = ?lo and attr = attr,
      unfolded nb] by blast
  let ?g = "to_mgrid (?new\<lparr>data_buffer0 := Some (Suc ?a),
    data_buffer1 := Some (if db then Suc (Suc ?a) else Suc ?a), data0 := pt, data1 := q\<rparr>)"
  let ?gs = "put_obj ?a ?g gs"
  have fresh: "?a \<notin> snd ` set (grids_map gs)"
    using p(6) p(8)[of ?a] by (fastforce simp: registry_ok_def)
  have reg: "registry_ok grid_id ?gs"
    using p(6) p(8)[of ?a] by (fastforce simp: registry_ok_def put_obj_def)
  have f: "grids_map ?gs = grids_map gs" "grid_counter ?gs = grid_counter gs" "objs ?gs ?a = Some ?g"
    by (simp_all add: put_obj_def)
  have "\<exists>gs'. RegisterGrid set_id ?a ?gs = Inr gs' \<and> registry_ok grid_id gs' \<and> FindGrid i gs' = Inr ?a \<and>
    (\<forall>j. j \<noteq> i \<longrightarrow> FindGrid j gs' = FindGrid j ?gs) \<and> objs gs' ?a = Some (set_id i ?g) \<and>
    (\<forall>b. b \<noteq> ?a \<longrightarrow> objs gs' b = objs ?gs b)"
    by (rule mgrid_ids.Register_ok[OF reg f(3)]) (use fresh cnt i f(1,2) in simp_all)
  then obtain gs' where gs': "RegisterGrid set_id ?a ?gs = Inr gs'" "registry_ok grid_id gs'"
      "FindGrid i gs' = Inr ?a" "\<And>j. j \<noteq> i \<Longrightarrow> FindGrid j gs' = FindGrid j ?gs"
      "objs gs' ?a = Some (set_id i ?g)" "\<And>b. b \<noteq> ?a \<Longrightarrow> objs gs' b = objs ?gs b" by blast
  have "\<exists>c m ob. gs' = gs\<lparr>grid_counter := c, objs := ob, grids_map := m\<rparr> \<and>
      counter_v c = Suc (counter_v (grid_counter gs))"
    using gs'(1) cnt by (auto simp: RegisterGrid_def put_obj_def Counter_next_def Let_def intro!: exI)
  then obtain c m ob where upd: "gs' = gs\<lparr>grid_counter := c, objs := ob, grids_map := m\<rparr>"
      "counter_v c = Suc (counter_v (grid_counter gs))" by blast
  have fields: "space_ok gs' = space_ok gs" "gs_num_dims gs' = nd" "gs_global_size gs' = gsz" "gs_proc_size gs' = ps"
      "gs_my_rank gs' = r" "gs_num_procs gs' = gs_num_procs gs"
      "counter_v (grid_counter gs') = Suc (counter_v (grid_counter gs))"
    unfolding upd(1) using p(2-5) upd(2) by (simp_all add: space_ok_def)
  have nx: "Suc ?a < next_buf st1" using st1(3) by (simp add: kept_def)
  have proc: "process_ok nd gsz ps r (gs', st1)"
    using p(1) fields gs'(2,6) st1(2) nx p(8) by (simp add: process_ok_def put_obj_def)
  have "PartitionGrid gs nd sz go (IntegerArray0, IntegerArray0) = bx"
    using PartitionGrid_local_box[OF p(1-5)] bx by simp
  then have run: "CreateGrid ty e nd sz db go attr (gs, st) = Inr (?a, gs', st1)"
    using st1(1) gs'(1) p(2) by (simp add: CreateGrid_def Let_def split_def)
  let ?h = "set_id i ?g"
  have hf: "grid_id ?h = Some i" "grid_num_dims ?h = nd" "grid_elm_size ?h = e" "grid_size ?h = sz"
      "gm_local_offset ?h = ?lo" "gm_local_size ?h = ?ls" "gm_empty ?h = (accumulate ?ls nd = 0)"
      "data_buffer0 ?h = Some (Suc ?a)" "data0 ?h = pt"
    by (simp_all add: set_id_def to_mgrid_def gridmpi.defs)
  have "holds ?a i nd e sz ?lo ?ls (gs', st1) (if accumulate ?ls nd = 0 then [] else replicate ?B (Some 0))"
    using gs'(3,5) hf st1(2,4) by (auto simp: holds_def local_buffer_def world_ok_def)
  moreover have "kept st st1" using st1(3) by (auto simp: kept_def)
  moreover have "avail (hp st) \<le> avail (hp st1) + (if db then 2 else 1) * (nat (accumulate sz nd) * e)"
  proof (cases db)
    case True
    then have "avail (hp st) = avail (hp st1) + 2 * ?B" using st1(6) by simp
    also have "\<dots> \<le> avail (hp st1) + 2 * (nat (accumulate sz nd) * e)" by (rule add_left_mono[OF le(1)])
    finally show ?thesis using True by simp
  next
    case False
    then have "avail (hp st) = avail (hp st1) + ?B" using st1(6) by simp
    also have "\<dots> \<le> avail (hp st1) + nat (accumulate sz nd) * e" by (rule add_left_mono[OF le(2)])
    finally show ?thesis using False by simp
  qed
  moreover have "data0 ?h = Ptr U 0 \<longrightarrow> blocks (hp st) U = None" for U using st1(5) hf(9) by simp
  moreover have "\<forall>j. j \<noteq> i \<longrightarrow> FindGrid j gs' = FindGrid j gs"
    using gs'(4) by (simp add: FindGrid_def f(1) put_obj_def)
  ultimately show ?thesis using run proc fields gs'(5,6) by (auto simp: put_obj_def)
qed

end
