(* ===== verification/Rpc_Runs.thy ===== *)
theory Rpc_Runs imports Rpc_Life begin

text \<open>
  Whole programs of the master against listening clients: creation, copy-in and copy-out of
  a distributed grid, and what every run of them ends in.
\<close>

subsection \<open>Broadcasts that need no answer\<close>

fun takes :: "msg list \<Rightarrow> 'a prog \<Rightarrow> 'a prog \<Rightarrow> bool" where
  "takes [] p q \<longleftrightarrow> p = q"
| "takes (m # ms) p q \<longleftrightarrow> (\<exists>k. p = BcastRecv k \<and> takes ms (k m) q)"

lemma step_takes:
  assumes "1 \<le> i" "i < np" "takes ms (P i) q" "bq i = ms"
  shows "det_step\<^sup>*\<^sup>* (mnet np M P bq) (mnet np M (P(i := q)) (bq(i := [])))"
  using assms(3,4)
proof (induction ms arbitrary: P bq)
  case Nil
  then show ?case by (simp add: fun_upd_idem)
next
  case (Cons m ms)
  obtain k where k: "P i = BcastRecv k" "takes ms (k m) q" using Cons.prems(1) by auto
  have one: "det_step\<^sup>*\<^sup>* (mnet np M P bq) (mnet np M (P(i := k m)) (bq(i := ms)))"
    using step_listen[of i np P k bq m ms M] assms(1,2) k(1) Cons.prems(2) by blast
  have "det_step\<^sup>*\<^sup>* (mnet np M (P(i := k m)) (bq(i := ms)))
      (mnet np M (P(i := k m, i := q)) (bq(i := ms, i := [])))"
    by (rule Cons.IH) (simp_all add: k(2))
  then have "det_step\<^sup>*\<^sup>* (mnet np M (P(i := k m)) (bq(i := ms))) (mnet np M (P(i := q)) (bq(i := [])))"
    by simp
  with one show ?case by (rule rtranclp_trans)
qed

lemma all_take:
  assumes "\<And>i. 1 \<le> i \<Longrightarrow> i < np \<Longrightarrow> takes ms (L i) (D i)"
  shows "det_step\<^sup>*\<^sup>* (mnet np M L (\<lambda>j. if 0 < j \<and> j < np then ms else [])) (mnet np M D (\<lambda>_. []))"
proof -
  have "det_step\<^sup>*\<^sup>* (mnet np M L (\<lambda>j. if 0 < j \<and> j < np then ms else []))
      (mnet np M (\<lambda>j. if j < Suc k then D j else L j) (\<lambda>j. if k < j \<and> j < np then ms else []))" for k
  proof (induction k)
    case 0
    have "mnet np M (\<lambda>j. if j < Suc 0 then D j else L j) (\<lambda>j. if 0 < j \<and> j < np then ms else []) =
        mnet np M L (\<lambda>j. if 0 < j \<and> j < np then ms else [])" by (rule mnet_cong) simp
    then show ?case by simp
  next
    case (Suc k)
    let ?P = "\<lambda>j. if j < Suc k then D j else L j" and ?bq = "\<lambda>j. if k < j \<and> j < np then ms else []"
    show ?case
    proof (cases "Suc k < np")
      case True
      have "det_step\<^sup>*\<^sup>* (mnet np M ?P ?bq) (mnet np M (?P(Suc k := D (Suc k))) (?bq(Suc k := [])))"
        by (rule step_takes[where ms = ms]) (use True assms in simp_all)
      moreover have "?P(Suc k := D (Suc k)) = (\<lambda>j. if j < Suc (Suc k) then D j else L j)"
        "?bq(Suc k := []) = (\<lambda>j. if Suc k < j \<and> j < np then ms else [])" by auto
      ultimately show ?thesis using Suc.IH by simp
    next
      case False
      have "?bq = (\<lambda>j. if Suc k < j \<and> j < np then ms else [])"
        by (rule ext) (use False in auto)
      moreover have "mnet np M ?P bq = mnet np M (\<lambda>j. if j < Suc (Suc k) then D j else L j) bq" for bq
        by (rule mnet_cong) (use False in auto)
      ultimately show ?thesis using Suc.IH by simp
    qed
  qed
  note k = this[of np]
  have q: "(\<lambda>j. if np < j \<and> j < np then ms else []) = (\<lambda>_. [])" by (rule ext) auto
  have "det_step\<^sup>*\<^sup>* (mnet np M L (\<lambda>j. if 0 < j \<and> j < np then ms else []))
      (mnet np M (\<lambda>j. if j < Suc np then D j else L j) (\<lambda>_. []))"
    using k unfolding q .
  moreover have "mnet np M (\<lambda>j. if j < Suc np then D j else L j) (\<lambda>_. []) = mnet np M D (\<lambda>_. [])"
    by (rule mnet_cong) simp
  ultimately show ?thesis by simp
qed

lemma step_bcast_again:
  assumes "1 \<le> np"
  shows "det_step\<^sup>*\<^sup>* (mnet np (BcastSend m p) P (\<lambda>j. if 0 < j \<and> j < np then ms else []))
    (mnet np p P (\<lambda>j. if 0 < j \<and> j < np then ms @ [m] else []))"
proof -
  have "proc_step 0 (mnet np (BcastSend m p) P (\<lambda>j. if 0 < j \<and> j < np then ms else [])) =
      Some (mnet np p P (\<lambda>j. if 0 < j \<and> j < np then ms @ [m] else []))"
    using assms by (auto simp: proc_step_def mnet_def)
  then show ?thesis by (intro r_into_rtranclp det_proc)
qed


subsection \<open>Creation by all processes\<close>

lemma bindP_bcast_root [simp]: "bindP (PS_MPI_Bcast_root m) f = BcastSend m (f ())"
  by (simp add: PS_MPI_Bcast_root_def)

lemma bindP_bcast [simp]: "bindP PS_MPI_Bcast f = BcastRecv f"
  by (simp add: PS_MPI_Bcast_def)

lemma gridnew_run:
  fixes K :: "nat \<times> pstate \<Rightarrow> pstate prog"
  assumes np: "np = nat (accumulate ps nd)" "1 \<le> np"
    and P: "\<And>r. r < np \<Longrightarrow> process_ok nd gsz ps (int r) (s r)"
    and G: "grid_args_ok nd e gsz sz go"
    and cnt: "\<And>r. r < np \<Longrightarrow> counter_v (grid_counter (fst (s r))) = c" "Suc c < 2 ^ 31"
    and room: "\<And>r. r < np \<Longrightarrow>
      (if db then 2 else 1) * (nat (accumulate sz nd) * e) \<le> avail (hp (snd (s r)))"
  shows "\<exists>s'. placed np (\<lambda>r. next_buf (snd (s r))) (int c) nd e sz (\<lambda>r. local_box nd gsz ps sz go (int r)) s' \<and>
    (\<forall>U A. blocks (hp (snd (s 0))) U = Some A \<longrightarrow> user_block np (next_buf (snd (s 0))) U A (s' 0)) \<and>
    (\<forall>r < np. process_ok nd gsz ps (int r) (s' r) \<and> kept (snd (s r)) (snd (s' r)) \<and>
       counter_v (grid_counter (fst (s' r))) = Suc c \<and>
       avail (hp (snd (s r))) \<le> avail (hp (snd (s' r))) + (if db then 2 else 1) * (nat (accumulate sz nd) * e)) \<and>
    det_step\<^sup>*\<^sup>*
      (init_network (bindP (Master_GridNew ty e nd sz db go attr (s 0)) K #
        map (\<lambda>r. Client_Listen le stencil reduce fuel (Suc n) (s r)) [1..<np]))
      (init_network (K (next_buf (snd (s 0)), s' 0) #
        map (\<lambda>r. Client_Listen le stencil reduce fuel n (s' r)) [1..<np]))"
proof -
  let ?box = "\<lambda>r. local_box nd gsz ps sz go (int r)" and ?a = "\<lambda>r. next_buf (snd (s r))"
  let ?Q = "\<lambda>r t. CreateGrid ty e nd sz db go attr (s r) = Inr (?a r, t) \<and> process_ok nd gsz ps (int r) t \<and>
      (\<exists>D. holds (?a r) (int c) nd e sz (fst (?box r)) (snd (?box r)) t D) \<and> kept (snd (s r)) (snd t) \<and>
      avail (hp (snd (s r))) \<le> avail (hp (snd t)) + (if db then 2 else 1) * (nat (accumulate sz nd) * e) \<and>
      counter_v (grid_counter (fst t)) = Suc c \<and> gs_num_procs (fst t) = int np \<and>
      (\<forall>g U. objs (fst t) (?a r) = Some g \<longrightarrow> data0 g = Ptr U 0 \<longrightarrow> blocks (hp (snd (s r))) U = None)"
  have "\<exists>t. ?Q r t" if r: "r < np" for r
  proof -
    obtain gs st where s: "s r = (gs, st)" by (cases "s r")
    have p: "process_ok nd gsz ps (int r) (gs, st)" using P[OF r] s by simp
    then have "gs_num_procs gs = accumulate ps nd" by (auto simp: process_ok_def space_ok_def Let_def)
    moreover have "0 \<le> accumulate ps nd" using np by linarith
    ultimately have n: "gs_num_procs gs = int np" using np by simp
    have c: "counter_v (grid_counter gs) = c" "Suc (counter_v (grid_counter gs)) < 2 ^ 31"
      "int c = int (counter_v (grid_counter gs))" using cnt(1)[OF r] cnt(2) s by auto
    have rm: "(if db then 2 else 1) * (nat (accumulate sz nd) * e) \<le> avail (hp st)"
      using room[OF r] s by simp
    obtain gs' st' g D where t: "CreateGrid ty e nd sz db go attr (gs, st) = Inr (next_buf st, gs', st')"
        "process_ok nd gsz ps (int r) (gs', st')"
        "holds (next_buf st) (int c) nd e sz (fst (?box r)) (snd (?box r)) (gs', st') D"
        "kept st st'" "avail (hp st) \<le> avail (hp st') + (if db then 2 else 1) * (nat (accumulate sz nd) * e)"
        "counter_v (grid_counter gs') = Suc (counter_v (grid_counter gs))" "gs_num_procs gs' = gs_num_procs gs"
        "objs gs' (next_buf st) = Some g" "\<forall>U. data0 g = Ptr U 0 \<longrightarrow> blocks (hp st) U = None"
      using CreateGrid_ok[OF p G c(2,3) rm refl, where ty = ty and attr = attr] by blast
    have "?Q r (gs', st')" using t c(1) n unfolding s by (simp only: fst_conv snd_conv) auto
    then show ?thesis ..
  qed
  then have "\<forall>r \<in> {..<np}. \<exists>t. ?Q r t" by simp
  from bchoice[OF this] obtain s' where "\<forall>r \<in> {..<np}. ?Q r (s' r)" ..
  then have s': "\<And>r. r < np \<Longrightarrow> CreateGrid ty e nd sz db go attr (s r) = Inr (?a r, s' r)"
      "\<And>r. r < np \<Longrightarrow> process_ok nd gsz ps (int r) (s' r)"
      "\<And>r. r < np \<Longrightarrow> \<exists>D. holds (?a r) (int c) nd e sz (fst (?box r)) (snd (?box r)) (s' r) D"
      "\<And>r. r < np \<Longrightarrow> kept (snd (s r)) (snd (s' r))"
      "\<And>r. r < np \<Longrightarrow> avail (hp (snd (s r))) \<le>
         avail (hp (snd (s' r))) + (if db then 2 else 1) * (nat (accumulate sz nd) * e)"
      "\<And>r. r < np \<Longrightarrow> counter_v (grid_counter (fst (s' r))) = Suc c"
      "\<And>r. r < np \<Longrightarrow> gs_num_procs (fst (s' r)) = int np"
      "\<And>r g U. r < np \<Longrightarrow> objs (fst (s' r)) (?a r) = Some g \<Longrightarrow> data0 g = Ptr U 0 \<Longrightarrow>
         blocks (hp (snd (s r))) U = None"
    by simp_all
  let ?req = "MRequest 1 0" and ?new = "MRequestNew \<lparr>rn_type = ty, rn_elm_size = e, rn_num_dims = nd,
    rn_size = sz, rn_double_buffering = db, rn_global_offset = go, rn_attr = attr\<rparr>"
  let ?L = "\<lambda>n. Client_Listen le stencil reduce fuel n"
  have master: "bindP (Master_GridNew ty e nd sz db go attr (s 0)) K = BcastSend ?req (BcastSend ?new (K (?a 0, s' 0)))"
    using s'(1)[of 0] np(2) by (simp add: Master_GridNew_def NotifyCall_def bindP_assoc)
  have client: "takes [?req, ?new] (?L (Suc n) (s r)) (?L n (s' r))" if "1 \<le> r" "r < np" for r
    unfolding listen_request
    using s'(1)[OF that(2)] kind_of_code_code[of FUNC_NEW]
    by (simp add: client_handler_def Client_GridNew_def bindP_assoc)
  let ?q = "\<lambda>ms j. if 0 < j \<and> j < np then ms else []"
  let ?P = "\<lambda>r. ?L (Suc n) (s r)" and ?M = "K (?a 0, s' 0)"
  note t1 = step_bcast[OF np(2), of ?req "BcastSend ?new ?M" ?P]
  note t2 = step_bcast_again[OF np(2), of ?new ?M ?P "[?req]"]
  have t3: "det_step\<^sup>*\<^sup>* (mnet np ?M ?P (?q ([?req] @ [?new]))) (mnet np ?M (\<lambda>r. ?L n (s' r)) (\<lambda>_. []))"
    by (rule all_take) (use client in simp)
  have run: "det_step\<^sup>*\<^sup>*
      (init_network (bindP (Master_GridNew ty e nd sz db go attr (s 0)) K # map (\<lambda>r. ?L (Suc n) (s r)) [1..<np]))
      (init_network (K (?a 0, s' 0) # map (\<lambda>r. ?L n (s' r)) [1..<np]))"
    unfolding network_mnet master by (rule rtranclp_trans[OF rtranclp_trans[OF t1 t2] t3])
  have "user_block np (?a 0) U A (s' 0)" if U: "blocks (hp (snd (s 0))) U = Some A" for U A
  proof -
    have "blocks (hp (snd (s' 0))) U = Some A" using s'(4)[of 0] np(2) U by (simp add: kept_def)
    moreover have "data0 g \<noteq> Ptr U 0" if "objs (fst (s' 0)) (?a 0) = Some g" for g
      using s'(8)[of 0 g U] that np(2) U by auto
    ultimately show ?thesis using s'(7)[of 0] np(2) by (cases "s' 0") (simp add: user_block_def)
  qed
  then show ?thesis using run s'(2-6) by (intro exI[of _ s']) (simp add: placed_def)
qed

lemma local_boxes_ok:
  assumes "space_args_ok nd gsz ps" "grid_args_ok nd e gsz sz go" "np = nat (accumulate ps nd)" "1 \<le> np"
  shows "boxes_ok np nd e sz (\<lambda>r. local_box nd gsz ps sz go (int r))"
  using local_box_ok[OF assms(1,2)] assms(3,4) by (auto simp: boxes_ok_def zless_nat_eq_int_zless)

lemma local_boxes_cover:
  assumes args: "space_args_ok nd gsz ps" "grid_args_ok nd e gsz sz go" and q: "in_box nd q sz"
  shows "\<exists>r < nat (accumulate ps nd). in_subbox nd (fst (local_box nd gsz ps sz go (int r)))
    (snd (local_box nd gsz ps sz go (int r))) q"
proof -
  have "\<forall>i < nd. 0 \<le> at go i \<and> at go i + at sz i \<le> at gsz i" using args(2) by (simp add: grid_args_ok_def)
  from local_box_owner[OF args(1) this q] obtain p where p: "grid_point nd p ps"
    "\<And>r. 0 \<le> r \<Longrightarrow> r < accumulate ps nd \<Longrightarrow>
      in_subbox nd (fst (local_box nd gsz ps sz go r)) (snd (local_box nd gsz ps sz go r)) q = (r = lin nd p ps)"
    by blast
  have "0 \<le> lin nd p ps" "lin nd p ps < accumulate ps nd"
    using p(1) lin_bounds[of nd p ps] by (auto simp: grid_point_def)
  then show ?thesis using p(2)[of "lin nd p ps"] by (intro exI[of _ "nat (lin nd p ps)"]) auto
qed

lemma procs_returned:
  assumes "1 \<le> np"
  shows "init_network (Ret (s' 0) # map (\<lambda>r. Client_Listen le stencil reduce fuel 0 (s' r)) [1..<np]) =
    init_network (map Ret (map s' [0..<np]))"
proof -
  have "[0..<np] = 0 # [1..<np]" using assms by (simp add: upt_conv_Cons)
  then show ?thesis by (simp add: o_def)
qed

lemma user_blockD: "user_block np a U A s \<Longrightarrow> blocks (hp (snd s)) U = Some A"
  by (simp add: user_block_def split_def)

lemma user_block_keep:
  assumes "user_block np a V X s" "fst t = fst s" "objs (fst s) a = Some g"
    and "\<forall>b g. objs (fst s) a = Some g \<longrightarrow> data0 g \<noteq> Ptr b 0 \<longrightarrow> blocks (hp (snd t)) b = blocks (hp (snd s)) b"
  shows "user_block np a V X t"
  using assms by (cases s; cases t) (auto simp: user_block_def)

lemma placed_obj:
  assumes "placed np addr i nd e sz box s" "r < np"
  shows "\<exists>g. objs (fst (s r)) (addr r) = Some g"
  using assms unfolding placed_def holds_def by (cases "s r") force

text \<open>The processes of a program, each with its space and memory, in lockstep.\<close>

definition processes_ok ::
    "nat \<Rightarrow> idx \<Rightarrow> idx \<Rightarrow> nat \<Rightarrow> nat \<Rightarrow> (nat \<Rightarrow> pstate) \<Rightarrow> bool" where
  "processes_ok nd gsz ps c m s \<longleftrightarrow> space_args_ok nd gsz ps \<and> Suc c < 2 ^ 31 \<and>
     (\<forall>r < nat (accumulate ps nd). process_ok nd gsz ps (int r) (s r) \<and>
        counter_v (grid_counter (fst (s r))) = c \<and> m \<le> avail (hp (snd (s r))))"

lemma processes_positive: "processes_ok nd gsz ps c m s \<Longrightarrow> 1 \<le> nat (accumulate ps nd)"
  using accumulate_eq_0_iff[of ps nd] accumulate_nonneg[of nd ps]
  by (fastforce simp: processes_ok_def space_args_ok_def)

text \<open>C6: When the master creates a grid and its clients listen, every run of the processes, in
  any order of their steps, ends with every process holding its own box of the partition under
  one and the same identifier, and none of the master's other blocks is touched.\<close>

theorem grid_new_everywhere:
  assumes "processes_ok nd gsz ps c (2 * (nat (accumulate sz nd) * e)) s" and "grid_args_ok nd e gsz sz go"
    and "np = nat (accumulate ps nd)"
  shows "\<exists>s'. every_run_ends_in
      (init_network (bindP (Master_GridNew ty e nd sz db go attr (s 0)) (\<lambda>(_, t). Ret t) #
        map (\<lambda>r. Client_Listen le stencil reduce fuel 1 (s r)) [1..<np])) (map s' [0..<np]) \<and>
    placed np (\<lambda>r. next_buf (snd (s r))) (int c) nd e sz (\<lambda>r. local_box nd gsz ps sz go (int r)) s' \<and>
    (\<forall>U A. blocks (hp (snd (s 0))) U = Some A \<longrightarrow> blocks (hp (snd (s' 0))) U = Some A)"
proof -
  have np: "1 \<le> np" using processes_positive[OF assms(1)] assms(3) by simp
  have r: "(if db then 2 else 1) * (nat (accumulate sz nd) * e) \<le> 2 * (nat (accumulate sz nd) * e)"
    by simp
  have p: "process_ok nd gsz ps (int r) (s r)" "counter_v (grid_counter (fst (s r))) = c"
    "(if db then 2 else 1) * (nat (accumulate sz nd) * e) \<le> avail (hp (snd (s r)))" if "r < np" for r
    using assms(1,3) that r unfolding processes_ok_def by (blast intro: order.trans)+
  have c: "Suc c < 2 ^ 31" using assms(1) by (simp add: processes_ok_def)
  obtain s' where s': "placed np (\<lambda>r. next_buf (snd (s r))) (int c) nd e sz (\<lambda>r. local_box nd gsz ps sz go (int r)) s'"
      "\<forall>U A. blocks (hp (snd (s 0))) U = Some A \<longrightarrow> user_block np (next_buf (snd (s 0))) U A (s' 0)"
      "det_step\<^sup>*\<^sup>* (init_network (bindP (Master_GridNew ty e nd sz db go attr (s 0)) (\<lambda>(_, t). Ret t) #
          map (\<lambda>r. Client_Listen le stencil reduce fuel (Suc 0) (s r)) [1..<np]))
        (init_network ((\<lambda>(_, t). Ret t) (next_buf (snd (s 0)), s' 0) #
          map (\<lambda>r. Client_Listen le stencil reduce fuel 0 (s' r)) [1..<np]))"
    using gridnew_run[OF assms(3) np p(1) assms(2) p(2) c p(3),
        where K = "\<lambda>(_, t). Ret t" and n = 0 and ty = ty and attr = attr and le = le
          and stencil = stencil and reduce = reduce and fuel = fuel] by blast
  have "every_run_ends_in (init_network (bindP (Master_GridNew ty e nd sz db go attr (s 0)) (\<lambda>(_, t). Ret t) #
        map (\<lambda>r. Client_Listen le stencil reduce fuel 1 (s r)) [1..<np])) (map s' [0..<np])"
    using one_run_enough[OF s'(3)[unfolded prod.case procs_returned[OF np]]] by simp
  then show ?thesis using s'(1,2) user_blockD by blast
qed


text \<open>C4: When the master copies an array into a grid of all processes, every run ends with
  each process holding its box of the array, the array and the free memory as they were.\<close>

theorem copyin_distributes:
  assumes "space_args_ok nd gsz ps" and "grid_args_ok nd e gsz sz go"
    and "np = nat (accumulate ps nd)" and "1 \<le> np"
    and "placed np addr i nd e sz (\<lambda>r. local_box nd gsz ps sz go (int r)) s"
    and "user_block np (addr 0) U A (s 0)" and "length A = nat (accumulate sz nd) * e"
    and "length A \<le> avail (hp (snd (s 0)))"
  shows "\<exists>s'. every_run_ends_in
      (init_network (bindP (Master_GridCopyin (addr 0) (Ptr U 0) (s 0)) Ret #
        map (\<lambda>r. Client_Listen le stencil reduce fuel 1 (s r)) [1..<np])) (map s' [0..<np]) \<and>
    distributed np addr i nd e sz (\<lambda>r. local_box nd gsz ps sz go (int r)) s' A \<and>
    blocks (hp (snd (s' 0))) U = Some A \<and> avail (hp (snd (s' 0))) = avail (hp (snd (s 0)))"
proof -
  have A: "nat (accumulate sz nd) * e \<le> length A" "nat (accumulate sz nd) * e \<le> avail (hp (snd (s 0)))"
    using assms(7,8) by auto
  obtain s' where s': "distributed np addr i nd e sz (\<lambda>r. local_box nd gsz ps sz go (int r)) s' A"
      "user_block np (addr 0) U A (s' 0)" "avail (hp (snd (s' 0))) = avail (hp (snd (s 0)))"
      "det_step\<^sup>*\<^sup>* (init_network (bindP (Master_GridCopyin (addr 0) (Ptr U 0) (s 0)) Ret #
          map (\<lambda>r. Client_Listen le stencil reduce fuel (Suc 0) (s r)) [1..<np]))
        (init_network (Ret (s' 0) # map (\<lambda>r. Client_Listen le stencil reduce fuel 0 (s' r)) [1..<np]))"
    using copyin_run[OF local_boxes_ok[OF assms(1-4)] assms(5,6) A, where K = Ret and n = 0 and le = le
        and stencil = stencil and reduce = reduce and fuel = fuel] by blast
  have "every_run_ends_in (init_network (bindP (Master_GridCopyin (addr 0) (Ptr U 0) (s 0)) Ret #
        map (\<lambda>r. Client_Listen le stencil reduce fuel 1 (s r)) [1..<np])) (map s' [0..<np])"
    using one_run_enough[OF s'(4)[unfolded procs_returned[OF assms(4)]]] by simp
  then show ?thesis using s'(1-3) user_blockD by blast
qed

text \<open>The runs of a program that creates a grid, copies an array in and copies the grid out.\<close>

lemma copy_roundtrip_run:
  assumes "processes_ok nd gsz ps c (3 * (nat (accumulate sz nd) * e)) s" and "grid_args_ok nd e gsz sz go"
    and "np = nat (accumulate ps nd)"
    and "blocks (hp (snd (s 0))) U = Some A" and "length A = nat (accumulate sz nd) * e"
    and "blocks (hp (snd (s 0))) V = Some X" and "length X = length A" and "\<And>v. le v v"
  shows "\<exists>s'. every_run_ends_in
      (init_network
        (bindP (Master_GridNew ty e nd sz db go attr (s 0)) (\<lambda>(a, t).
         bindP (Master_GridCopyin a (Ptr U 0) t) (\<lambda>t.
         bindP (Master_GridCopyout a (Ptr V 0) t) Ret)) #
        map (\<lambda>r. Client_Listen le stencil reduce fuel 3 (s r)) [1..<np])) (map s' [0..<np]) \<and>
    blocks (hp (snd (s' 0))) V = Some A \<and> blocks (hp (snd (s' 0))) U = Some A \<and>
    distributed np (\<lambda>r. next_buf (snd (s r))) (int c) nd e sz (\<lambda>r. local_box nd gsz ps sz go (int r)) s' A"
proof -
  let ?M = "nat (accumulate sz nd) * e" and ?a = "\<lambda>r. next_buf (snd (s r))"
  let ?box = "\<lambda>r. local_box nd gsz ps sz go (int r)" and ?L = "\<lambda>n. Client_Listen le stencil reduce fuel n"
  have np: "1 \<le> np" using processes_positive[OF assms(1)] assms(3) by simp
  have args: "space_args_ok nd gsz ps" "nd \<le> 3" and c: "Suc c < 2 ^ 31"
    using assms(1) by (auto simp: processes_ok_def space_args_ok_def)
  have p: "process_ok nd gsz ps (int r) (s r)" "counter_v (grid_counter (fst (s r))) = c"
    "3 * ?M \<le> avail (hp (snd (s r)))" if "r < np" for r
    using assms(1,3) that unfolding processes_ok_def by blast+
  have le3: "(if db then 2 else 1) * ?M \<le> 3 * ?M" by simp
  have room: "(if db then 2 else 1) * ?M \<le> avail (hp (snd (s r)))" if "r < np" for r
    by (rule order.trans[OF le3 p(3)[OF that]])
  note boxes = local_boxes_ok[OF args(1) assms(2,3) np]
  let ?out = "\<lambda>t. bindP (Master_GridCopyout (?a 0) (Ptr V 0) t) Ret"
  let ?in = "\<lambda>t. bindP (Master_GridCopyin (?a 0) (Ptr U 0) t) ?out"
  let ?K = "\<lambda>(a, t). bindP (Master_GridCopyin a (Ptr U 0) t) (\<lambda>t. bindP (Master_GridCopyout a (Ptr V 0) t) Ret)"
  obtain s1 where s1: "placed np ?a (int c) nd e sz ?box s1"
      "\<forall>U A. blocks (hp (snd (s 0))) U = Some A \<longrightarrow> user_block np (?a 0) U A (s1 0)"
      "\<forall>r < np. process_ok nd gsz ps (int r) (s1 r) \<and> kept (snd (s r)) (snd (s1 r)) \<and>
       counter_v (grid_counter (fst (s1 r))) = Suc c \<and>
       avail (hp (snd (s r))) \<le> avail (hp (snd (s1 r))) + (if db then 2 else 1) * ?M"
      "det_step\<^sup>*\<^sup>* (init_network (bindP (Master_GridNew ty e nd sz db go attr (s 0)) ?K # map (\<lambda>r. ?L (Suc 2) (s r)) [1..<np]))
        (init_network (?K (?a 0, s1 0) # map (\<lambda>r. ?L 2 (s1 r)) [1..<np]))"
    using gridnew_run[OF assms(3) np p(1) assms(2) p(2) c room,
        where K = ?K and n = 2 and ty = ty and attr = attr and le = le
          and stencil = stencil and reduce = reduce and fuel = fuel] by blast
  have U1: "user_block np (?a 0) U A (s1 0)" and V1: "user_block np (?a 0) V X (s1 0)"
    using s1(2) assms(4,6) by blast+
  have M1: "?M \<le> avail (hp (snd (s1 0)))"
    using s1(3) p(3)[of 0] np by (cases db) fastforce+
  have A: "?M \<le> length A" using assms(5) by simp
  obtain s2 where s2: "distributed np ?a (int c) nd e sz ?box s2 A" "user_block np (?a 0) U A (s2 0)"
      "avail (hp (snd (s2 0))) = avail (hp (snd (s1 0)))" "fst (s2 0) = fst (s1 0)"
      "\<forall>b g. objs (fst (s1 0)) (?a 0) = Some g \<longrightarrow> data0 g \<noteq> Ptr b 0 \<longrightarrow>
         blocks (hp (snd (s2 0))) b = blocks (hp (snd (s1 0))) b"
      "det_step\<^sup>*\<^sup>* (init_network (?in (s1 0) # map (\<lambda>r. ?L (Suc 1) (s1 r)) [1..<np]))
        (init_network (?out (s2 0) # map (\<lambda>r. ?L 1 (s2 r)) [1..<np]))"
    using copyin_run[OF boxes s1(1) U1 A M1, where K = ?out and n = 1 and le = le
        and stencil = stencil and reduce = reduce and fuel = fuel] by blast
  have V2: "user_block np (?a 0) V X (s2 0)"
    using user_block_keep[OF V1 s2(4) _ s2(5)] placed_obj[OF s1(1), of 0] np by auto
  have M2: "?M \<le> avail (hp (snd (s2 0)))" using M1 s2(3) by simp
  obtain s3 Y where s3: "distributed np ?a (int c) nd e sz ?box s3 A" "user_block np (?a 0) V Y (s3 0)"
      "gathered nd e sz ?box A X np Y"
      "blocks (hp (snd (s3 0))) = (blocks (hp (snd (s2 0))))(V \<mapsto> Y)"
      "det_step\<^sup>*\<^sup>* (init_network (?out (s2 0) # map (\<lambda>r. ?L (Suc 0) (s2 r)) [1..<np]))
        (init_network (Ret (s3 0) # map (\<lambda>r. ?L 0 (s3 r)) [1..<np]))"
    using copyout_run[OF boxes s2(1) V2 A assms(7) M2, where K = Ret and n = 0
        and stencil = stencil and reduce = reduce and fuel = fuel and le = le, OF assms(8)] by blast
  have "Y = A"
    by (rule gathered_all[OF s3(3) args(2) _ _ assms(5)])
      (use assms(2) local_boxes_cover[OF args(1) assms(2)] assms(3) in \<open>auto simp: grid_args_ok_def\<close>)
  moreover have "blocks (hp (snd (s2 0))) U = Some A" using s2(2) by (auto simp: user_block_def)
  moreover have "every_run_ends_in
      (init_network (bindP (Master_GridNew ty e nd sz db go attr (s 0)) ?K # map (\<lambda>r. ?L 3 (s r)) [1..<np])) (map s3 [0..<np])"
  proof (rule one_run_enough)
    have nums: "Suc 2 = (3 :: nat)" "Suc 1 = (2 :: nat)" "Suc 0 = (1 :: nat)" by simp_all
    show "det_step\<^sup>*\<^sup>* (init_network (bindP (Master_GridNew ty e nd sz db go attr (s 0)) ?K #
        map (\<lambda>r. ?L 3 (s r)) [1..<np])) (init_network (map Ret (map s3 [0..<np])))"
      using rtranclp_trans[OF rtranclp_trans[OF s1(4)[unfolded prod.case nums] s2(6)[unfolded nums]]
          s3(5)[unfolded procs_returned[OF np] nums]] .
  qed
  ultimately show ?thesis using s3(1,2,4) user_blockD by (intro exI[of _ s3]) auto
qed

text \<open>C2: A whole program: all processes create a grid, the master copies its array \<open>A\<close> in and
  copies the grid out to another array. Every run of the processes ends, with \<open>A\<close> in both
  arrays and every process holding its box of \<open>A\<close>. The master's comparison of sizes only has
  to be reflexive.\<close>

theorem distributed_copy_roundtrip:
  assumes "processes_ok nd gsz ps c (3 * (nat (accumulate sz nd) * e)) s" and "grid_args_ok nd e gsz sz go"
    and "np = nat (accumulate ps nd)"
    and "blocks (hp (snd (s 0))) U = Some A" and "length A = nat (accumulate sz nd) * e"
    and "blocks (hp (snd (s 0))) V = Some X" and "length X = length A" and "\<And>v. le v v"
  shows "\<exists>s'. every_run_ends_in
      (init_network
        (bindP (Master_GridNew ty e nd sz db go attr (s 0)) (\<lambda>(a, t).
         bindP (Master_GridCopyin a (Ptr U 0) t) (\<lambda>t.
         bindP (Master_GridCopyout a (Ptr V 0) t) Ret)) #
        map (\<lambda>r. Client_Listen le stencil reduce fuel 3 (s r)) [1..<np])) (map s' [0..<np]) \<and>
    blocks (hp (snd (s' 0))) V = Some A \<and> blocks (hp (snd (s' 0))) U = Some A \<and>
    distributed np (\<lambda>r. next_buf (snd (s r))) (int c) nd e sz (\<lambda>r. local_box nd gsz ps sz go (int r)) s' A"
  by (rule copy_roundtrip_run[OF assms])

subsection \<open>The program can run\<close>

lemma processes_start:
  assumes args: "space_args_ok nd gsz ps" and st: "world_ok st" "m \<le> avail (hp st)"
  shows "\<exists>s. processes_ok nd gsz ps 0 m s \<and> (\<forall>r. snd (s r) = st)"
proof -
  have "\<exists>gs. process_ok nd gsz ps (int r) (gs, st) \<and> counter_v (grid_counter gs) = 0"
    if "r < nat (accumulate ps nd)" for r
    using GridSpaceMPI_new_ok[OF args, of "int r", where 'a = mgrid] that st(1)
    by (auto simp: process_ok_def registry_ok_def Counter_def zless_nat_eq_int_zless)
  then have "\<forall>r. \<exists>gs. r < nat (accumulate ps nd) \<longrightarrow>
      process_ok nd gsz ps (int r) (gs, st) \<and> counter_v (grid_counter gs) = 0" by blast
  from choice[OF this] obtain gs where "\<forall>r. r < nat (accumulate ps nd) \<longrightarrow>
      process_ok nd gsz ps (int r) (gs r, st) \<and> counter_v (grid_counter (gs r)) = 0" ..
  then show ?thesis using args st(2) by (intro exI[of _ "\<lambda>r. (gs r, st)"]) (simp add: processes_ok_def)
qed

definition run_world :: world where
  "run_world = \<lparr>hp = \<lparr>blocks = [0 \<mapsto> [Some 7, Some 8, Some 9], 1 \<mapsto> [None, None, None]], fresh = 2, avail = 100\<rparr>,
     bufs = (\<lambda>_. None), next_buf = 0, files = (\<lambda>_. None)\<rparr>"

abbreviation "one_dim k \<equiv> Arr3 k 0 0 :: idx"
abbreviation "no_stencil \<equiv> (\<lambda>_ _ _ t. Ret t) :: stencil_fun"
abbreviation "no_reduce \<equiv> (\<lambda>_ _ a t. Ret (a, t)) :: reduce_fun"

lemma demo_args:
  "space_args_ok 1 (one_dim 3) (one_dim 2)" "grid_args_ok 1 1 (one_dim 3) (one_dim 3) (one_dim 0)"
  "nat (accumulate (one_dim 2) 1) = 2" "nat (accumulate (one_dim 3) 1) = 3" "world_ok run_world"
  "blocks (hp run_world) 0 = Some [Some 7, Some 8, Some 9]" "blocks (hp run_world) 1 = Some [None, None, None]"
  "avail (hp run_world) = 100"
  by (simp_all add: space_args_ok_def grid_args_ok_def world_ok_def heap_ok_def run_world_def)

theorem distributed_copy_roundtrip_witness:
  "\<exists>s s'. every_run_ends_in
      (init_network
        (bindP (Master_GridNew 0 1 1 (one_dim 3) False (one_dim 0) 0 (s 0)) (\<lambda>(a, t).
         bindP (Master_GridCopyin a (Ptr 0 0) t) (\<lambda>t.
         bindP (Master_GridCopyout a (Ptr 1 0) t) Ret)) #
        map (\<lambda>r. Client_Listen (=) no_stencil no_reduce 0 3 (s r)) [1..<2])) (map s' [0..<2]) \<and>
    blocks (hp (snd (s' 0))) 1 = Some [Some 7, Some 8, Some 9]"
proof -
  obtain s where s: "processes_ok 1 (one_dim 3) (one_dim 2) 0 9 s" "snd (s 0) = run_world"
    using processes_start[OF demo_args(1,5), of 9] demo_args(8) by auto
  have "\<exists>s'. every_run_ends_in
      (init_network
        (bindP (Master_GridNew 0 1 1 (one_dim 3) False (one_dim 0) 0 (s 0)) (\<lambda>(a, t).
         bindP (Master_GridCopyin a (Ptr 0 0) t) (\<lambda>t.
         bindP (Master_GridCopyout a (Ptr 1 0) t) Ret)) #
        map (\<lambda>r. Client_Listen (=) no_stencil no_reduce 0 3 (s r)) [1..<2])) (map s' [0..<2]) \<and>
    blocks (hp (snd (s' 0))) 1 = Some [Some 7, Some 8, Some 9] \<and> blocks (hp (snd (s' 0))) 0 = Some [Some 7, Some 8, Some 9] \<and>
    distributed 2 (\<lambda>r. next_buf (snd (s r))) (int 0) 1 1 (one_dim 3)
      (\<lambda>r. local_box 1 (one_dim 3) (one_dim 2) (one_dim 3) (one_dim 0) (int r)) s' [Some 7, Some 8, Some 9]"
    by (rule distributed_copy_roundtrip[of 1 "one_dim 3" "one_dim 2" 0 "one_dim 3" 1 s "one_dim 0" 2 0
          "[Some 7, Some 8, Some 9]" 1 "[None, None, None]" "(=)"])
      (use s demo_args in simp_all)
  then show ?thesis by blast
qed

theorem grid_new_everywhere_witness:
  "\<exists>s s'. every_run_ends_in
      (init_network (bindP (Master_GridNew 0 1 1 (one_dim 3) True (one_dim 0) 0 (s 0)) (\<lambda>(_, t). Ret t) #
        map (\<lambda>r. Client_Listen (=) no_stencil no_reduce 0 1 (s r)) [1..<2])) (map s' [0..<2])"
proof -
  obtain s where s: "processes_ok 1 (one_dim 3) (one_dim 2) 0 6 s"
    using processes_start[OF demo_args(1,5), of 6] demo_args(8) by auto
  show ?thesis
    using grid_new_everywhere[of 1 "one_dim 3" "one_dim 2" 0 "one_dim 3" 1 s "one_dim 0" 2 0 True 0 "(=)" no_stencil no_reduce 0]
      s demo_args by fastforce
qed

lemma demo_placed:
  "\<exists>s. placed 2 (\<lambda>_. 0) 0 1 1 (one_dim 3)
      (\<lambda>r. local_box 1 (one_dim 3) (one_dim 2) (one_dim 3) (one_dim 0) (int r)) s \<and>
    user_block 2 0 0 [Some 7, Some 8, Some 9] (s 0) \<and> 3 \<le> avail (hp (snd (s 0)))"
proof -
  obtain s where s: "processes_ok 1 (one_dim 3) (one_dim 2) 0 6 s" "\<forall>r. snd (s r) = run_world"
    using processes_start[OF demo_args(1,5), of 6] demo_args(8) by auto
  have b: "next_buf run_world = 0" by (simp add: run_world_def)
  show ?thesis
    using gridnew_run[of 2 "one_dim 2" 1 "one_dim 3" s 1 "one_dim 3" "one_dim 0" 0 False 0 0 "\<lambda>(_, t). Ret t"
        "(=)" no_stencil no_reduce 0 0] s demo_args b
    by (fastforce simp: processes_ok_def)
qed

theorem copyin_distributes_witness:
  "\<exists>s s'. every_run_ends_in
      (init_network (bindP (Master_GridCopyin 0 (Ptr 0 0) (s 0)) Ret #
        map (\<lambda>r. Client_Listen (=) no_stencil no_reduce 0 1 (s r)) [1..<2])) (map s' [0..<2]) \<and>
    distributed 2 (\<lambda>_. 0) 0 1 1 (one_dim 3)
      (\<lambda>r. local_box 1 (one_dim 3) (one_dim 2) (one_dim 3) (one_dim 0) (int r)) s' [Some 7, Some 8, Some 9]"
proof -
  obtain s where s: "placed 2 (\<lambda>_. 0) 0 1 1 (one_dim 3)
      (\<lambda>r. local_box 1 (one_dim 3) (one_dim 2) (one_dim 3) (one_dim 0) (int r)) s"
    "user_block 2 0 0 [Some 7, Some 8, Some 9] (s 0)" "3 \<le> avail (hp (snd (s 0)))"
    using demo_placed by blast
  then show ?thesis
    using copyin_distributes[of 1 "one_dim 3" "one_dim 2" 1 "one_dim 3" "one_dim 0" 2 "\<lambda>_. 0" 0 s 0
        "[Some 7, Some 8, Some 9]" "(=)" no_stencil no_reduce 0] demo_args
    by fastforce
qed

end
