(* ===== verification/Domain.thy ===== *)
theory Domain imports Space_Partition begin

text \<open>
  Domains of stencils: the structure \<open>__PSDomain\<close> and its helpers of
  \<open>include/physis/physis_common.h\<close>, the constructors of the reference run-time
  (\<open>runtime/reference_runtime.cc\<close>) and those of the MPI run-time
  (\<open>runtime/mpi_runtime.cc\<close>), which clip a domain to the part of the grid space that the
  process owns. The operator \<open>>=\<close> between two index arrays is inherited from
  \<open>boost::array\<close>: it is an argument of the MPI constructors.
\<close>

subsection \<open>Vectors and domains\<close>

definition PSVectorIntInit :: "idx \<Rightarrow> int \<Rightarrow> idx" where
  "PSVectorIntInit vec x = fold (\<lambda>i vec. upd vec i x) [0..<PS_MAX_DIM] vec"

definition PSVectorIntCopy :: "idx \<Rightarrow> idx \<Rightarrow> idx" where
  "PSVectorIntCopy dst src = src"

definition PSPointInit :: "idx \<Rightarrow> int \<Rightarrow> idx" where
  "PSPointInit p x = PSVectorIntInit p x"

record domain =
  dom_min :: idx
  dom_max :: idx
  dom_local_min :: idx
  dom_local_max :: idx

text \<open>
  The strip of the given width at one side of a domain in dimension \<open>dim\<close>; for a factor
  above one, only piece \<open>offset\<close> of that many pieces along the last dimension.
\<close>

definition PSDomainGetBoundary :: "domain \<Rightarrow> nat \<Rightarrow> bool \<Rightarrow> int \<Rightarrow> int \<Rightarrow> int \<Rightarrow> fault + domain" where
  "PSDomainGetBoundary d dim right width factor offset =
     (let bd = d
      in if at (dom_local_min bd) dim = 0 \<and> at (dom_local_max bd) dim = 0 then Inr bd
         else bindE
           (if right
            then (let bd = bd\<lparr>dom_local_min := upd (dom_local_min bd) dim (at (dom_local_max bd) dim - width)\<rparr>
                  in bindE (assertE (0 \<le> at (dom_local_min bd) dim)) (\<lambda>_. Inr bd))
            else Inr (bd\<lparr>dom_local_max := upd (dom_local_max bd) dim (at (dom_local_min bd) dim + width)\<rparr>))
           (\<lambda>bd.
         if 1 < factor
         then (let dividing_dim = 2; diff = at (dom_local_max d) dividing_dim - at (dom_local_min d) dividing_dim
               in bindE (c_div diff factor) (\<lambda>chunk.
                  bindE (c_mod diff factor) (\<lambda>rem.
                  let lo = at (dom_local_min bd) dividing_dim + chunk * offset + (if offset < rem then offset else rem);
                      hi = lo + chunk + (if offset < rem then 1 else 0)
                  in Inr (bd\<lparr>dom_local_min := upd (dom_local_min bd) dividing_dim lo,
                             dom_local_max := upd (dom_local_max bd) dividing_dim hi\<rparr>))))
         else Inr bd))"

subsection \<open>Constructors of the reference run-time\<close>

definition Ref_PSDomain1DNew :: "int \<Rightarrow> int \<Rightarrow> domain" where
  "Ref_PSDomain1DNew minx maxx =
     \<lparr>dom_min = Arr3 minx 0 0, dom_max = Arr3 maxx 0 0,
      dom_local_min = Arr3 minx 0 0, dom_local_max = Arr3 maxx 0 0\<rparr>"

definition Ref_PSDomain2DNew :: "int \<Rightarrow> int \<Rightarrow> int \<Rightarrow> int \<Rightarrow> domain" where
  "Ref_PSDomain2DNew minx maxx miny maxy =
     \<lparr>dom_min = Arr3 minx miny 0, dom_max = Arr3 maxx maxy 0,
      dom_local_min = Arr3 minx miny 0, dom_local_max = Arr3 maxx maxy 0\<rparr>"

definition Ref_PSDomain3DNew :: "int \<Rightarrow> int \<Rightarrow> int \<Rightarrow> int \<Rightarrow> int \<Rightarrow> int \<Rightarrow> domain" where
  "Ref_PSDomain3DNew minx maxx miny maxy minz maxz =
     \<lparr>dom_min = Arr3 minx miny minz, dom_max = Arr3 maxx maxy maxz,
      dom_local_min = Arr3 minx miny minz, dom_local_max = Arr3 maxx maxy maxz\<rparr>"

subsection \<open>Constructors of the MPI run-time\<close>

text \<open>The steps the four operations share: clip to the own part, reset an empty result.\<close>

definition clip_to_own ::
    "(idx \<Rightarrow> idx \<Rightarrow> bool) \<Rightarrow> ('g, 'x) gridspace_mpi_scheme \<Rightarrow> idx \<Rightarrow> idx \<Rightarrow> idx \<times> idx" where
  "clip_to_own ge gs mn mx =
     (let local_min = SetNoLessThan (gs_my_offset gs) mn;
          local_max = SetNoMoreThan (arr_plus (gs_my_offset gs) (gs_my_size gs)) mx
      in if ge local_min local_max then (arr_Set 0, arr_Set 0) else (local_min, local_max))"

definition PSDomain1DNew ::
    "(idx \<Rightarrow> idx \<Rightarrow> bool) \<Rightarrow> ('g, 'x) gridspace_mpi_scheme \<Rightarrow> int \<Rightarrow> int \<Rightarrow> domain" where
  "PSDomain1DNew ge gs minx maxx =
     (let (local_min, local_max) = clip_to_own ge gs (IntegerArray1 minx) (IntegerArray1 maxx)
      in \<lparr>dom_min = Arr3 minx 0 0, dom_max = Arr3 maxx 0 0,
          dom_local_min = Arr3 (at local_min 0) 0 0, dom_local_max = Arr3 (at local_max 0) 0 0\<rparr>)"

definition PSDomain2DNew ::
    "(idx \<Rightarrow> idx \<Rightarrow> bool) \<Rightarrow> ('g, 'x) gridspace_mpi_scheme \<Rightarrow> int \<Rightarrow> int \<Rightarrow> int \<Rightarrow> int \<Rightarrow> domain" where
  "PSDomain2DNew ge gs minx maxx miny maxy =
     (let (local_min, local_max) = clip_to_own ge gs (IntegerArray2 minx miny) (IntegerArray2 maxx maxy)
      in \<lparr>dom_min = Arr3 minx miny 0, dom_max = Arr3 maxx maxy 0,
          dom_local_min = Arr3 (at local_min 0) (at local_min 1) 0,
          dom_local_max = Arr3 (at local_max 0) (at local_max 1) 0\<rparr>)"

definition PSDomain3DNew ::
    "(idx \<Rightarrow> idx \<Rightarrow> bool) \<Rightarrow> ('g, 'x) gridspace_mpi_scheme \<Rightarrow>
      int \<Rightarrow> int \<Rightarrow> int \<Rightarrow> int \<Rightarrow> int \<Rightarrow> int \<Rightarrow> domain" where
  "PSDomain3DNew ge gs minx maxx miny maxy minz maxz =
     (let (local_min, local_max) =
            clip_to_own ge gs (IntegerArray3 minx miny minz) (IntegerArray3 maxx maxy maxz)
      in \<lparr>dom_min = Arr3 minx miny minz, dom_max = Arr3 maxx maxy maxz,
          dom_local_min = Arr3 (at local_min 0) (at local_min 1) (at local_min 2),
          dom_local_max = Arr3 (at local_max 0) (at local_max 1) (at local_max 2)\<rparr>)"

definition PSDomainSetLocalSize ::
    "(idx \<Rightarrow> idx \<Rightarrow> bool) \<Rightarrow> ('g, 'x) gridspace_mpi_scheme \<Rightarrow> domain \<Rightarrow> domain" where
  "PSDomainSetLocalSize ge gs d =
     (let (local_min, local_max) = clip_to_own ge gs (dom_min d) (dom_max d)
      in d\<lparr>dom_local_min := local_min, dom_local_max := local_max\<rparr>)"

subsection \<open>The points of a domain\<close>

text \<open>\<open>boost::array\<close> compares lexicographically; \<open>a >= b\<close> is the negation of \<open>a < b\<close>.\<close>

definition lex_ge :: "idx \<Rightarrow> idx \<Rightarrow> bool" where
  "lex_ge a b \<longleftrightarrow> \<not> (at a 0 < at b 0 \<or> at a 0 = at b 0 \<and> (at a 1 < at b 1 \<or>
     at a 1 = at b 1 \<and> at a 2 < at b 2))"

definition dom_points :: "nat \<Rightarrow> domain \<Rightarrow> idx \<Rightarrow> bool" where
  "dom_points n d p \<longleftrightarrow> (\<forall>i < n. at (dom_local_min d) i \<le> at p i \<and> at p i < at (dom_local_max d) i)"

text \<open>The constructor for the number of dimensions.\<close>

definition domain_new ::
    "(idx \<Rightarrow> idx \<Rightarrow> bool) \<Rightarrow> ('g, 'x) gridspace_mpi_scheme \<Rightarrow> nat \<Rightarrow> idx \<Rightarrow> idx \<Rightarrow> domain" where
  "domain_new ge gs n mn mx =
     (if n = 1 then PSDomain1DNew ge gs (at mn 0) (at mx 0)
      else if n = 2 then PSDomain2DNew ge gs (at mn 0) (at mx 0) (at mn 1) (at mx 1)
      else PSDomain3DNew ge gs (at mn 0) (at mx 0) (at mn 1) (at mx 1) (at mn 2) (at mx 2))"

definition ref_domain_new :: "nat \<Rightarrow> idx \<Rightarrow> idx \<Rightarrow> domain" where
  "ref_domain_new n mn mx =
     (if n = 1 then Ref_PSDomain1DNew (at mn 0) (at mx 0)
      else if n = 2 then Ref_PSDomain2DNew (at mn 0) (at mx 0) (at mn 1) (at mx 1)
      else Ref_PSDomain3DNew (at mn 0) (at mx 0) (at mn 1) (at mx 1) (at mn 2) (at mx 2))"

lemma lex_ge_empty:
  assumes "lex_ge a b" "1 \<le> n" "n \<le> 3" "\<forall>i < n. at a i \<le> at p i \<and> at p i < at b i"
  shows False
  using assms by (auto simp: lex_ge_def dest!: spec[of _ 0])

lemma clip_to_own_points:
  assumes "1 \<le> n" "n \<le> 3" and "clip_to_own lex_ge gs mn mx = (lo, hi)"
  shows "(\<forall>i < n. at lo i \<le> at p i \<and> at p i < at hi i) \<longleftrightarrow>
    (\<forall>i < n. max (at (gs_my_offset gs) i) (at mn i) \<le> at p i \<and>
       at p i < min (at (gs_my_offset gs) i + at (gs_my_size gs) i) (at mx i))"
proof -
  let ?lo = "SetNoLessThan (gs_my_offset gs) mn"
    and ?hi = "SetNoMoreThan (arr_plus (gs_my_offset gs) (gs_my_size gs)) mx"
  have at: "at ?lo i = max (at (gs_my_offset gs) i) (at mn i)"
      "at ?hi i = min (at (gs_my_offset gs) i + at (gs_my_size gs) i) (at mx i)" if "i < n" for i
    using that assms(2) by (simp_all add: SetNoLessThan_def SetNoMoreThan_def at_map2 arr_plus_def)
  have "lo = arr_Set 0 \<and> hi = arr_Set 0 \<and> lex_ge ?lo ?hi \<or> lo = ?lo \<and> hi = ?hi"
    using assms(3) by (auto simp: clip_to_own_def Let_def split: if_splits)
  then show ?thesis
  proof
    assume e: "lo = arr_Set 0 \<and> hi = arr_Set 0 \<and> lex_ge ?lo ?hi"
    then have "\<not> (\<forall>i < n. at lo i \<le> at p i \<and> at p i < at hi i)"
      using assms(1) by (auto intro!: exI[of _ 0])
    moreover have "\<not> (\<forall>i < n. at ?lo i \<le> at p i \<and> at p i < at ?hi i)"
      using lex_ge_empty[OF _ assms(1,2), of ?lo ?hi p] e by blast
    ultimately show ?thesis using at by auto
  next
    assume "lo = ?lo \<and> hi = ?hi"
    then show ?thesis using at by auto
  qed
qed

lemma domain_new_points:
  assumes "1 \<le> n" "n \<le> 3"
  shows "dom_points n (domain_new lex_ge gs n mn mx) p \<longleftrightarrow>
    (\<forall>i < n. max (at (gs_my_offset gs) i) (at mn i) \<le> at p i \<and>
       at p i < min (at (gs_my_offset gs) i + at (gs_my_size gs) i) (at mx i))"
proof -
  let ?g = "\<lambda>mn mx. clip_to_own lex_ge gs mn mx"
  consider "n = 1" | "n = 2" | "n = 3" using assms by linarith
  then show ?thesis
  proof cases
    case 1
    obtain lo hi where "?g (IntegerArray1 (at mn 0)) (IntegerArray1 (at mx 0)) = (lo, hi)"
      by (metis surj_pair)
    from clip_to_own_points[OF _ _ this, of 1 p] this 1 show ?thesis
      by (simp add: dom_points_def domain_new_def PSDomain1DNew_def IntegerArray1_def)
  next
    case 2
    obtain lo hi where "?g (IntegerArray2 (at mn 0) (at mn 1)) (IntegerArray2 (at mx 0) (at mx 1)) = (lo, hi)"
      by (metis surj_pair)
    from clip_to_own_points[OF _ _ this, of 2 p] this 2 show ?thesis
      by (simp add: dom_points_def domain_new_def PSDomain2DNew_def IntegerArray2_def all_less_num)
  next
    case 3
    obtain lo hi where "?g (IntegerArray3 (at mn 0) (at mn 1) (at mn 2))
        (IntegerArray3 (at mx 0) (at mx 1) (at mx 2)) = (lo, hi)"
      by (metis surj_pair)
    from clip_to_own_points[OF _ _ this, of 3 p] this 3 show ?thesis
      by (simp add: dom_points_def domain_new_def PSDomain3DNew_def IntegerArray3_def all_less_num)
  qed
qed

lemma own_part_owner:
  assumes "space_ok gs" "gs_num_dims gs = nd" "gs_global_size gs = gsz" "gs_proc_size gs = ps"
  shows "(\<forall>i < nd. at (gs_my_offset gs) i \<le> at p i \<and>
      at p i < at (gs_my_offset gs) i + at (gs_my_size gs) i) \<and> grid_point nd (gs_my_idx gs) ps \<longleftrightarrow>
    owner_idx nd gsz ps p (rank_idx nd ps (gs_my_rank gs))"
  using assms space_my_idx[OF assms(1)] by (auto simp: owner_idx_def space_ok_def Let_def)

subsection \<open>Strips\<close>

text \<open>Pieces of \<open>diff / factor\<close> or one more elements, the longer ones first.\<close>

definition piece_start :: "int \<Rightarrow> int \<Rightarrow> int \<Rightarrow> int" where
  "piece_start diff f k = diff div f * k + min k (diff mod f)"

lemma piece_start_mono:
  assumes "0 < f" "0 \<le> diff" "0 \<le> j" "j \<le> k"
  shows "piece_start diff f j \<le> piece_start diff f k"
  using assms by (simp add: piece_start_def add_mono mult_left_mono pos_imp_zdiv_nonneg_iff)

lemma piece_start_ends:
  assumes "0 < f"
  shows "piece_start diff f 0 = 0" "piece_start diff f f = diff"
proof -
  have "\<not> f \<le> diff mod f" using assms by (simp add: not_le)
  then show "piece_start diff f 0 = 0" "piece_start diff f f = diff"
    using assms by (simp_all add: piece_start_def min_def)
qed

lemma piece_start_bounds:
  assumes "0 < f" "0 \<le> diff" "0 \<le> k" "k < f"
  shows "0 \<le> piece_start diff f k" "piece_start diff f (k + 1) \<le> diff"
  using piece_start_mono[of f diff 0 k] piece_start_mono[of f diff "k + 1" f] piece_start_ends[of f diff] assms
  by simp_all

lemma piece_unique:
  assumes "0 < f" "0 \<le> x" "x < diff"
  shows "\<exists>!k. 0 \<le> k \<and> k < f \<and> piece_start diff f k \<le> x \<and> x < piece_start diff f (k + 1)"
proof -
  let ?P = "piece_start diff f"
  have mono: "?P j \<le> ?P k" if "0 \<le> j" "j \<le> k" for j k
    using piece_start_mono[OF assms(1) _ that] assms by simp
  have ends: "?P 0 = 0" "?P f = diff" using piece_start_ends[OF assms(1)] by auto
  have "\<exists>k. 0 \<le> k \<and> k < m \<and> ?P k \<le> x \<and> x < ?P (k + 1)" if "0 \<le> m" "x < ?P m" for m
    using that
  proof (induction m rule: int_ge_induct)
    case base
    then show ?case using assms ends by simp
  next
    case (step m)
    show ?case
    proof (cases "x < ?P m")
      case True
      with step obtain k where "0 \<le> k \<and> k < m \<and> ?P k \<le> x \<and> x < ?P (k + 1)" by blast
      then show ?thesis by (intro exI[of _ k]) simp
    next
      case False
      then show ?thesis using step by (intro exI[of _ m]) simp
    qed
  qed
  from this[of f] obtain k where k: "0 \<le> k" "k < f" "?P k \<le> x" "x < ?P (k + 1)"
    using assms ends by auto
  show ?thesis
  proof (rule ex1I[of _ k])
    show "0 \<le> k \<and> k < f \<and> ?P k \<le> x \<and> x < ?P (k + 1)" using k by simp
    fix j assume j: "0 \<le> j \<and> j < f \<and> ?P j \<le> x \<and> x < ?P (j + 1)"
    show "j = k"
    proof (rule ccontr)
      assume "j \<noteq> k"
      then consider "j + 1 \<le> k" | "k + 1 \<le> j" by linarith
      then show False using j k mono[of "j + 1" k] mono[of "k + 1" j] by cases auto
    qed
  qed
qed

text \<open>The points of the strip at the left or right side of a domain.\<close>

definition in_strip :: "domain \<Rightarrow> nat \<Rightarrow> bool \<Rightarrow> int \<Rightarrow> idx \<Rightarrow> bool" where
  "in_strip d dim right width p \<longleftrightarrow>
     (\<forall>i < 3. if i \<noteq> dim then at (dom_local_min d) i \<le> at p i \<and> at p i < at (dom_local_max d) i
       else if right then at (dom_local_max d) i - width \<le> at p i \<and> at p i < at (dom_local_max d) i
       else at (dom_local_min d) i \<le> at p i \<and> at p i < at (dom_local_min d) i + width)"

lemma GetBoundary_whole:
  assumes "dim < 3" "at (dom_local_max d) dim \<noteq> 0" "right \<longrightarrow> width \<le> at (dom_local_max d) dim"
  shows "\<exists>bd. PSDomainGetBoundary d dim right width 1 k = Inr bd \<and>
    (\<forall>p. dom_points 3 bd p \<longleftrightarrow> in_strip d dim right width p)"
  using assms less3_cases[OF assms(1)]
  by (auto simp: PSDomainGetBoundary_def Let_def dom_points_def in_strip_def all_less_num)

lemma GetBoundary_piece:
  assumes "dim < 2" "at (dom_local_max d) dim \<noteq> 0" "right \<longrightarrow> width \<le> at (dom_local_max d) dim"
    and "1 < factor" "0 \<le> k" "k < factor" "at (dom_local_min d) 2 \<le> at (dom_local_max d) 2"
  shows "\<exists>bd. PSDomainGetBoundary d dim right width factor k = Inr bd \<and>
    (\<forall>p. dom_points 3 bd p \<longleftrightarrow>
      (\<forall>i < 2. if i \<noteq> dim then at (dom_local_min d) i \<le> at p i \<and> at p i < at (dom_local_max d) i
       else if right then at (dom_local_max d) i - width \<le> at p i \<and> at p i < at (dom_local_max d) i
       else at (dom_local_min d) i \<le> at p i \<and> at p i < at (dom_local_min d) i + width) \<and>
      (let diff = at (dom_local_max d) 2 - at (dom_local_min d) 2; x = at p 2 - at (dom_local_min d) 2
       in piece_start diff factor k \<le> x \<and> x < piece_start diff factor (k + 1)))"
proof -
  let ?diff = "at (dom_local_max d) 2 - at (dom_local_min d) 2"
  have q: "c_div ?diff factor = Inr (?diff div factor)" "c_mod ?diff factor = Inr (?diff mod factor)"
    using assms(4,7) by (simp_all add: c_div_def c_mod_def signed_divide_int_def signed_modulo_int_def)
      (auto simp: zsgn_def)
  have p1: "piece_start ?diff factor (k + 1) =
      piece_start ?diff factor k + ?diff div factor + (if k < ?diff mod factor then 1 else 0)"
    by (simp add: piece_start_def algebra_simps)
  have p0: "piece_start ?diff factor k =
      ?diff div factor * k + (if k < ?diff mod factor then k else ?diff mod factor)"
    by (simp add: piece_start_def min_def)
  have "dim = 0 \<or> dim = 1" using assms(1) by auto
  then show ?thesis
    using assms(2,3,4) q
    by (auto simp: PSDomainGetBoundary_def Let_def dom_points_def all_less_num p1 p0 c_div_def c_mod_def)
qed

subsection \<open>Properties\<close>

text \<open>C16: The local domains of the processes tile a stencil's domain: every point of the space
  inside the bounds lies in the local domain of exactly one process, and a point outside
  the bounds lies in none.\<close>

theorem local_domains_tile:
  assumes "space_args_ok nd gsz ps" and "1 \<le> nd" and "in_box nd p gsz"
    and boost_array: "\<forall>a b. ge a b \<longleftrightarrow> lex_ge a b"
  shows "\<exists>gs :: int \<Rightarrow> unit gridspace_mpi.
    (\<forall>r. 0 \<le> r \<longrightarrow> r < accumulate ps nd \<longrightarrow> GridSpaceMPI_new nd gsz nd ps r = Inr (gs r)) \<and>
    (if \<forall>i < nd. at mn i \<le> at p i \<and> at p i < at mx i
     then \<exists>!r. 0 \<le> r \<and> r < accumulate ps nd \<and> dom_points nd (domain_new ge (gs r) nd mn mx) p
     else \<forall>r. 0 \<le> r \<longrightarrow> r < accumulate ps nd \<longrightarrow> \<not> dom_points nd (domain_new ge (gs r) nd mn mx) p)"
proof -
  have n3: "nd \<le> 3" using assms(1) by (simp add: space_args_ok_def)
  have ge: "ge = lex_ge" using boost_array by (simp add: fun_eq_iff)
  let ?R = "\<lambda>r. 0 \<le> r \<and> r < accumulate ps nd"
  have "\<forall>r. \<exists>gs :: unit gridspace_mpi. ?R r \<longrightarrow> GridSpaceMPI_new nd gsz nd ps r = Inr gs \<and> space_ok gs \<and>
      gs_num_dims gs = nd \<and> gs_global_size gs = gsz \<and> gs_proc_size gs = ps \<and> gs_my_rank gs = r"
    using GridSpaceMPI_new_ok[OF assms(1)] by blast
  from choice[OF this] obtain gs :: "int \<Rightarrow> unit gridspace_mpi" where
    gs: "\<And>r. ?R r \<Longrightarrow> GridSpaceMPI_new nd gsz nd ps r = Inr (gs r) \<and> space_ok (gs r) \<and>
      gs_num_dims (gs r) = nd \<and> gs_global_size (gs r) = gsz \<and> gs_proc_size (gs r) = ps \<and> gs_my_rank (gs r) = r"
    by blast
  have pts: "dom_points nd (domain_new ge (gs r) nd mn mx) p \<longleftrightarrow>
      (\<forall>i < nd. at mn i \<le> at p i \<and> at p i < at mx i) \<and> owner_idx nd gsz ps p (rank_idx nd ps r)" if "?R r" for r
  proof -
    have own: "owner_idx nd gsz ps p (rank_idx nd ps r) \<longleftrightarrow> (\<forall>i < nd. at (gs_my_offset (gs r)) i \<le> at p i \<and>
        at p i < at (gs_my_offset (gs r)) i + at (gs_my_size (gs r)) i)"
    proof -
      note g = gs[OF that]
      have "space_ok (gs r)" and eqs: "gs_num_dims (gs r) = nd" "gs_global_size (gs r) = gsz"
          "gs_proc_size (gs r) = ps" "gs_my_rank (gs r) = r" using g by blast+
      from own_part_owner[OF this(1-4)] space_my_idx(1)[OF this(1)] show ?thesis
        unfolding eqs by blast
    qed
    have pw: "(\<forall>i < nd. max (a i) (b i) \<le> x i \<and> x i < min (c i) (d i)) \<longleftrightarrow>
        (\<forall>i < nd. b i \<le> x i \<and> x i < d i) \<and> (\<forall>i < nd. a i \<le> x i \<and> x i < c i)" for a b c d x :: "nat \<Rightarrow> int"
      by auto
    show ?thesis unfolding ge own domain_new_points[OF assms(2) n3] by (rule pw)
  qed
  obtain q where q: "owner_idx nd gsz ps p q" "\<And>q'. owner_idx nd gsz ps p q' \<Longrightarrow> q' = q"
    using owner_ex1[OF assms(1,3)] by blast
  have qp: "grid_point nd q ps" using q(1) by (simp add: owner_idx_def)
  let ?r = "lin nd q ps"
  have r: "?R ?r" using qp lin_bounds[of nd q ps] by (simp add: grid_point_def)
  have own: "owner_idx nd gsz ps p (rank_idx nd ps r) \<longleftrightarrow> r = ?r" if "?R r" for r
    using q rank_idx_lin[OF assms(1) qp] rank_idx_ok(3)[OF assms(1), of r] that by metis
  show ?thesis
  proof (intro exI[of _ gs] conjI)
    show "\<forall>r. 0 \<le> r \<longrightarrow> r < accumulate ps nd \<longrightarrow> GridSpaceMPI_new nd gsz nd ps r = Inr (gs r)"
      using gs by blast
    show "if \<forall>i < nd. at mn i \<le> at p i \<and> at p i < at mx i
     then \<exists>!r. 0 \<le> r \<and> r < accumulate ps nd \<and> dom_points nd (domain_new ge (gs r) nd mn mx) p
     else \<forall>r. 0 \<le> r \<longrightarrow> r < accumulate ps nd \<longrightarrow> \<not> dom_points nd (domain_new ge (gs r) nd mn mx) p"
      using pts own r by (auto intro!: ex1I[of _ ?r])
  qed
qed

theorem local_domains_tile_witness:
  "\<exists>gs :: int \<Rightarrow> unit gridspace_mpi.
    (\<forall>r. 0 \<le> r \<longrightarrow> r < accumulate (Arr3 2 3 0) 2 \<longrightarrow> GridSpaceMPI_new 2 (Arr3 9 9 0) 2 (Arr3 2 3 0) r = Inr (gs r)) \<and>
    (\<exists>!r. 0 \<le> r \<and> r < accumulate (Arr3 2 3 0) 2 \<and>
       dom_points 2 (domain_new lex_ge (gs r) 2 (Arr3 1 1 0) (Arr3 8 8 0)) (Arr3 3 7 0))"
  using local_domains_tile[of 2 "Arr3 9 9 0" "Arr3 2 3 0" "Arr3 3 7 0" lex_ge "Arr3 1 1 0" "Arr3 8 8 0"]
  by (simp add: space_args_ok_def in_box_def all_less_num)

text \<open>C17: Cutting a strip at the side of a local domain into pieces loses and doubles nothing:
  every point of the strip lies in exactly one piece, a point elsewhere in none. With more
  than one piece the strip must not be one of the dividing dimension, the last.\<close>

theorem boundary_pieces_tile:
  assumes "dim < 3" and "1 \<le> factor" and "factor = 1 \<or> dim < 2"
    and "at (dom_local_max d) dim \<noteq> 0" and "right \<longrightarrow> width \<le> at (dom_local_max d) dim"
    and "at (dom_local_min d) 2 \<le> at (dom_local_max d) 2"
  shows "\<exists>bd. (\<forall>k. 0 \<le> k \<longrightarrow> k < factor \<longrightarrow> PSDomainGetBoundary d dim right width factor k = Inr (bd k)) \<and>
    (if in_strip d dim right width p then \<exists>!k. 0 \<le> k \<and> k < factor \<and> dom_points 3 (bd k) p
     else \<forall>k. 0 \<le> k \<longrightarrow> k < factor \<longrightarrow> \<not> dom_points 3 (bd k) p)"
proof (cases "factor = 1")
  case True
  from GetBoundary_whole[OF assms(1,4,5)] obtain bd where bd:
    "PSDomainGetBoundary d dim right width 1 0 = Inr bd" "\<forall>p. dom_points 3 bd p \<longleftrightarrow> in_strip d dim right width p"
    by blast
  have all_zero: "(\<forall>k. 0 \<le> k \<longrightarrow> k < 1 \<longrightarrow> P k) \<longleftrightarrow> P 0" for P :: "int \<Rightarrow> bool"
  proof -
    have "k = 0" if "0 \<le> k" "k < 1" for k :: int using that by simp
    then show ?thesis by (metis order_refl zero_less_one)
  qed
  show ?thesis using bd by (intro exI[of _ "\<lambda>_. bd"]) (auto simp: True all_zero intro!: ex1I[of _ 0])
next
  case False
  then have dim: "dim < 2" and f: "1 < factor" using assms by auto
  let ?diff = "at (dom_local_max d) 2 - at (dom_local_min d) 2" and ?x = "at p 2 - at (dom_local_min d) 2"
  let ?S = "\<forall>i < 2. if i \<noteq> dim then at (dom_local_min d) i \<le> at p i \<and> at p i < at (dom_local_max d) i
       else if right then at (dom_local_max d) i - width \<le> at p i \<and> at p i < at (dom_local_max d) i
       else at (dom_local_min d) i \<le> at p i \<and> at p i < at (dom_local_min d) i + width"
  let ?Q = "\<lambda>k bd. PSDomainGetBoundary d dim right width factor k = Inr bd \<and>
      (dom_points 3 bd p \<longleftrightarrow> ?S \<and> piece_start ?diff factor k \<le> ?x \<and> ?x < piece_start ?diff factor (k + 1))"
  have "\<exists>bd. ?Q k bd" if k: "0 \<le> k" "k < factor" for k
  proof -
    obtain bd where "PSDomainGetBoundary d dim right width factor k = Inr bd"
        "dom_points 3 bd p \<longleftrightarrow> ?S \<and> piece_start ?diff factor k \<le> ?x \<and> ?x < piece_start ?diff factor (k + 1)"
      using GetBoundary_piece[OF dim assms(4,5) f k assms(6)] unfolding Let_def by (elim exE conjE allE)
    then show ?thesis by (intro exI conjI)
  qed
  then have "\<forall>k. \<exists>bd. 0 \<le> k \<and> k < factor \<longrightarrow> ?Q k bd" by blast
  from choice[OF this] obtain bd where bd: "\<And>k. 0 \<le> k \<Longrightarrow> k < factor \<Longrightarrow>
      PSDomainGetBoundary d dim right width factor k = Inr (bd k) \<and>
      (dom_points 3 (bd k) p \<longleftrightarrow> ?S \<and> piece_start ?diff factor k \<le> ?x \<and> ?x < piece_start ?diff factor (k + 1))"
    by blast
  have strip: "in_strip d dim right width p \<longleftrightarrow> ?S \<and> 0 \<le> ?x \<and> ?x < ?diff"
    using dim by (auto simp: in_strip_def all_less_num)
  let ?in = "\<lambda>k. piece_start ?diff factor k \<le> ?x \<and> ?x < piece_start ?diff factor (k + 1)"
  have pts: "dom_points 3 (bd k) p \<longleftrightarrow> ?S \<and> ?in k" if "0 \<le> k" "k < factor" for k
    using bd[OF that] by blast
  show ?thesis
  proof (intro exI[of _ bd] conjI)
    show "\<forall>k. 0 \<le> k \<longrightarrow> k < factor \<longrightarrow> PSDomainGetBoundary d dim right width factor k = Inr (bd k)"
      using bd by blast
    show "if in_strip d dim right width p then \<exists>!k. 0 \<le> k \<and> k < factor \<and> dom_points 3 (bd k) p
     else \<forall>k. 0 \<le> k \<longrightarrow> k < factor \<longrightarrow> \<not> dom_points 3 (bd k) p"
    proof (cases "in_strip d dim right width p")
      case True
      then have S: ?S and x: "0 \<le> ?x" "?x < ?diff" unfolding strip by blast+
      have "\<exists>!k. 0 \<le> k \<and> k < factor \<and> ?in k" using piece_unique[OF _ x, of factor] f by simp
      moreover have "0 \<le> k \<and> k < factor \<and> dom_points 3 (bd k) p \<longleftrightarrow> 0 \<le> k \<and> k < factor \<and> ?in k" for k
        using pts S by blast
      ultimately show ?thesis using True by simp
    next
      case False
      have "\<not> dom_points 3 (bd k) p" if k: "0 \<le> k" "k < factor" for k
        using False pts[OF k] piece_start_bounds[of factor ?diff k] k f assms(6) unfolding strip by force
      with False show ?thesis by simp
    qed
  qed
qed

theorem boundary_pieces_tile_witness:
  "\<exists>bd. (\<forall>k. 0 \<le> k \<longrightarrow> k < 5 \<longrightarrow>
       PSDomainGetBoundary (Ref_PSDomain3DNew 0 8 0 8 0 7) 0 True 2 5 k = Inr (bd k)) \<and>
     (\<exists>!k. 0 \<le> k \<and> k < 5 \<and> dom_points 3 (bd k) (Arr3 7 1 3))"
  using boundary_pieces_tile[of 0 5 "Ref_PSDomain3DNew 0 8 0 8 0 7" True 2 "Arr3 7 1 3"]
  by (simp add: Ref_PSDomain3DNew_def in_strip_def all_less_num)



text \<open>With a single process the MPI run-time builds the same domain as the reference
  run-time, for every non-empty domain inside the space.\<close>

theorem single_process_domain:
  assumes "1 \<le> nd" and "nd \<le> 3" and "\<forall>i < nd. at ps i = 1"
    and "\<forall>i < nd. 0 \<le> at mn i \<and> at mn i < at mx i \<and> at mx i \<le> at gsz i"
    and boost_array: "\<forall>a b. ge a b \<longleftrightarrow> lex_ge a b"
  shows "\<exists>gs :: unit gridspace_mpi. GridSpaceMPI_new nd gsz nd ps 0 = Inr gs \<and>
    domain_new ge gs nd mn mx = ref_domain_new nd mn mx"
proof -
  have ge: "ge = lex_ge" using boost_array by (simp add: fun_eq_iff)
  have args: "space_args_ok nd gsz ps" using assms by (force simp: space_args_ok_def)
  have one: "accumulate ps k = 1" if "k \<le> nd" for k using that assms(3) by (induction k) auto
  obtain gs :: "unit gridspace_mpi" where gs: "GridSpaceMPI_new nd gsz nd ps 0 = Inr gs" "space_ok gs"
      "gs_num_dims gs = nd" "gs_global_size gs = gsz" "gs_proc_size gs = ps" "gs_my_rank gs = 0"
    using GridSpaceMPI_new_ok[OF args, of 0] one by auto
  have "at (gs_my_idx gs) i = 0" if "i < nd" for i
    using space_my_idx(1)[OF gs(2)] gs that assms(3) by (auto simp: grid_point_def in_box_def)
  then have own: "at (gs_my_offset gs) i = 0 \<and> at (gs_my_size gs) i = at gsz i" if "i < nd" for i
    using gs that assms(3) by (auto simp: space_ok_def Let_def proc_off_def proc_part_def part_off_def part_size_def)
  consider "nd = 1" | "nd = 2" | "nd = 3" using assms(1,2) by linarith
  then have "domain_new ge gs nd mn mx = ref_domain_new nd mn mx"
    unfolding ge using own[of 0] own[of 1] own[of 2] assms(4)
    by cases (simp_all add: all_less_num domain_new_def ref_domain_new_def PSDomain1DNew_def PSDomain2DNew_def
        PSDomain3DNew_def Ref_PSDomain1DNew_def Ref_PSDomain2DNew_def Ref_PSDomain3DNew_def clip_to_own_def
        SetNoLessThan_def SetNoMoreThan_def arr_plus_def IntegerArray1_def IntegerArray2_def IntegerArray3_def
        lex_ge_def max_def min_def)
  with gs(1) show ?thesis by blast
qed

theorem single_process_domain_witness:
  "\<exists>gs :: unit gridspace_mpi. GridSpaceMPI_new 2 (Arr3 9 9 0) 2 (Arr3 1 1 0) 0 = Inr gs \<and>
    domain_new lex_ge gs 2 (Arr3 1 2 0) (Arr3 8 9 0) = Ref_PSDomain2DNew 1 8 2 9"
  using single_process_domain[of 2 "Arr3 1 1 0" "Arr3 1 2 0" "Arr3 8 9 0" "Arr3 9 9 0" lex_ge]
  by (simp add: all_less_num ref_domain_new_def)

end
