(* ===== verification/Runtime_Common.thy ===== *)
theory Runtime_Common imports Space_Partition Physis_Util begin

text \<open>
  \<open>runtime/runtime_common.cc\<close>: the command line. \<open>argv\<close> is an array of pointers to strings
  whose entry at \<open>argc\<close> is \<open>NULL\<close>: a list of \<open>string option\<close>, next to the value of \<open>argc\<close>.
\<close>

subsection \<open>Options\<close>

fun string_of :: "string option \<Rightarrow> fault + string" where
  "string_of None = Inl NullPointer"
| "string_of (Some s) = Inr s"

definition argv_list :: "int \<Rightarrow> string option list \<Rightarrow> fault + string option list" where
  "argv_list argc argv =
     foldE (\<lambda>i l. bindE (array_get argv (int i)) (\<lambda>a. Inr (l @ [a]))) [0..<nat argc] []"

text \<open>Moving \<open>n\<close> entries from the list to \<open>opts\<close>; there may be fewer.\<close>

fun take_args :: "nat \<Rightarrow> string option list \<Rightarrow> string list \<Rightarrow> fault + (string option list \<times> string list)" where
  "take_args 0 l opts = Inr (l, opts)"
| "take_args (Suc n) [] opts = Inl OutOfBounds"
| "take_args (Suc n) (a # l) opts = bindE (string_of a) (\<lambda>s. take_args n l (opts @ [s]))"

fun find_option :: "string list \<Rightarrow> nat \<Rightarrow> string option list \<Rightarrow> string option list \<Rightarrow> string list \<Rightarrow>
    fault + (string option list \<times> string list) option" where
  "find_option opt_str n pre [] opts = Inr None"
| "find_option opt_str n pre (a # l) opts =
     bindE (string_of a) (\<lambda>arg.
       if arg \<notin> set opt_str then find_option opt_str n (pre @ [a]) l opts
       else bindE (take_args (n + 1) (a # l) opts) (\<lambda>(l, opts). Inr (Some (pre @ l, opts))))"

definition ParseOption :: "int \<Rightarrow> string option list \<Rightarrow> string \<Rightarrow> nat \<Rightarrow> string list \<Rightarrow>
    fault + (bool \<times> int \<times> string option list \<times> string list)" where
  "ParseOption argc argv opt_name num_additional_args opts =
     (let opt_str = [''-'' @ opt_name, ''--'' @ opt_name]
      in bindE (argv_list argc argv) (\<lambda>l.
         bindE (find_option opt_str num_additional_args [] l opts) (\<lambda>r.
           case r of
             None \<Rightarrow> Inr (False, argc, argv, opts)
           | Some (l, opts) \<Rightarrow> Inr (True, int (length l), l @ drop (length l) argv, opts))))"

text \<open>The result says whether \<open>__ps_trace\<close> is set to \<open>stderr\<close> instead of \<open>NULL\<close>.\<close>

definition PSInitCommon :: "int \<Rightarrow> string option list \<Rightarrow> fault + (bool \<times> int \<times> string option list)" where
  "PSInitCommon argc argv =
     bindE (ParseOption argc argv ''physis-trace'' 0 []) (\<lambda>(trace, argc, argv, _). Inr (trace, argc, argv))"

subsection \<open>Process dimensions\<close>

lemma length_tl_dropWhile: "dropWhile P s \<noteq> [] \<Longrightarrow> length (tl (dropWhile P s)) < length s"
  using length_dropWhile_le[of P s] by (cases "dropWhile P s") auto

text \<open>
  \<open>parse_dims s i psize\<close> is the loop of \<open>ParseProcDim\<close> from the position where \<open>s\<close> is the rest
  of the string.
\<close>

function parse_dims :: "string \<Rightarrow> nat \<Rightarrow> idx \<Rightarrow> fault + (nat \<times> idx)" where
  "parse_dims s i psize =
     (if i = PS_MAX_DIM then Inl (Exited 1)
      else let d = takeWhile (\<lambda>c. c \<noteq> CHR ''x'') s; rest = dropWhile (\<lambda>c. c \<noteq> CHR ''x'') s
           in bindE (toInteger d) (\<lambda>x.
                if rest = [] then Inr (Suc i, upd psize i x)
                else parse_dims (tl rest) (Suc i) (upd psize i x)))"
  by pat_completeness auto
termination
proof (relation "measure (\<lambda>(s, i, psize). length s)")
  show "wf (measure (\<lambda>(s, i, psize). length s))" by simp
next
  fix s :: string and i psize d rest x
  assume "rest = dropWhile (\<lambda>c. c \<noteq> CHR ''x'') s" "rest \<noteq> []"
  then show "((tl rest, Suc i, upd psize i x), s, i, psize) \<in> measure (\<lambda>(s, i, psize). length s)"
    using length_tl_dropWhile by (simp only: in_measure split)
qed

definition ParseProcDim :: "string \<Rightarrow> idx \<Rightarrow> fault + (nat \<times> idx)" where
  "ParseProcDim s psize = parse_dims s 0 psize"

declare parse_dims.simps [simp del]

text \<open>\<open>-1\<close> and the unchanged array when the option is missing.\<close>

definition GetProcessDim :: "int \<Rightarrow> string option list \<Rightarrow> idx \<Rightarrow> fault + (int \<times> idx)" where
  "GetProcessDim argc argv proc_size =
     bindE (foldE (\<lambda>i found. case found of Some j \<Rightarrow> Inr found | None \<Rightarrow>
         bindE (array_get argv (int i)) (\<lambda>a. bindE (string_of a) (\<lambda>s.
           Inr (if s = ''-physis-proc'' \<or> s = ''--physis-proc'' then Some i else None))))
       [0..<nat argc] None) (\<lambda>found.
       case found of
         None \<Rightarrow> Inr (- 1, proc_size)
       | Some i \<Rightarrow> bindE (array_get argv (int i + 1)) (\<lambda>pp. bindE (string_of pp) (\<lambda>s.
           bindE (ParseProcDim s proc_size) (\<lambda>(n, proc_size). Inr (int n, proc_size)))))"

subsection \<open>Reading back process dimensions\<close>

lemma digit_not_x: "is_digit c \<Longrightarrow> c \<noteq> CHR ''x''"
  by (auto simp: is_digit_def)

lemma takeWhile_toString:
  "takeWhile (\<lambda>c. c \<noteq> CHR ''x'') (toString_nat d) = toString_nat d"
  "dropWhile (\<lambda>c. c \<noteq> CHR ''x'') (toString_nat d) = []"
  "takeWhile (\<lambda>c. c \<noteq> CHR ''x'') (toString_nat d @ CHR ''x'' # r) = toString_nat d"
  "dropWhile (\<lambda>c. c \<noteq> CHR ''x'') (toString_nat d @ CHR ''x'' # r) = CHR ''x'' # r"
proof -
  have "c \<noteq> CHR ''x''" if "c \<in> set (toString_nat d)" for c
    using toString_nat_digits[of d] digit_not_x that by blast
  then show "takeWhile (\<lambda>c. c \<noteq> CHR ''x'') (toString_nat d) = toString_nat d"
    "dropWhile (\<lambda>c. c \<noteq> CHR ''x'') (toString_nat d) = []"
    "takeWhile (\<lambda>c. c \<noteq> CHR ''x'') (toString_nat d @ CHR ''x'' # r) = toString_nat d"
    "dropWhile (\<lambda>c. c \<noteq> CHR ''x'') (toString_nat d @ CHR ''x'' # r) = CHR ''x'' # r"
    by (simp_all add: takeWhile_append2 dropWhile_append2 del: toString_nat.simps)
qed

lemma parse_dims_toString:
  assumes "ds \<noteq> []" "\<forall>d \<in> set ds. d < 2 ^ 31" "i \<le> 3"
  shows "if i + length ds \<le> 3
    then \<exists>ps'. parse_dims (intersperse_str ''x'' (map toString_nat ds)) i ps = Inr (i + length ds, ps') \<and>
      (\<forall>k < 3. at ps' k = (if i \<le> k \<and> k < i + length ds then int (ds ! (k - i)) else at ps k))
    else parse_dims (intersperse_str ''x'' (map toString_nat ds)) i ps = Inl (Exited 1)"
  using assms
proof (induction ds arbitrary: i ps)
  case Nil
  then show ?case by simp
next
  case (Cons d ds)
  note step = parse_dims.simps[of _ i ps] takeWhile_toString toInteger_toString[of d] PS_MAX_DIM_def
  show ?case
  proof (cases "i = 3")
    case True
    then show ?thesis by (subst parse_dims.simps) (simp add: PS_MAX_DIM_def)
  next
    case False
    then have i: "i < 3" using Cons.prems by simp
    show ?thesis
    proof (cases ds)
      case Nil
      have "parse_dims (toString_nat d) i ps = Inr (Suc i, upd ps i (int d))"
        using i Cons.prems by (simp add: step Let_def del: toString_nat.simps)
      moreover have "\<forall>k < 3. at (upd ps i (int d)) k =
          (if i \<le> k \<and> k < i + length [d] then int ([d] ! (k - i)) else at ps k)"
        using i by (auto simp: at_upd)
      ultimately show ?thesis using i Nil by (simp del: toString_nat.simps)
    next
      case (Cons e es)
      let ?s = "intersperse_str ''x'' (map toString_nat ds)"
      have p: "parse_dims (intersperse_str ''x'' (map toString_nat (d # ds))) i ps =
          parse_dims ?s (Suc i) (upd ps i (int d))"
        using i Cons.prems Cons by (simp add: step Let_def del: toString_nat.simps)
      have IH: "if Suc i + length ds \<le> 3
        then \<exists>ps'. parse_dims ?s (Suc i) (upd ps i (int d)) = Inr (Suc i + length ds, ps') \<and>
          (\<forall>k < 3. at ps' k = (if Suc i \<le> k \<and> k < Suc i + length ds then int (ds ! (k - Suc i)) else at (upd ps i (int d)) k))
        else parse_dims ?s (Suc i) (upd ps i (int d)) = Inl (Exited 1)"
        by (rule Cons.IH) (use Cons.prems i Cons in auto)
      show ?thesis
      proof (cases "Suc i + length ds \<le> 3")
        case True
        with IH obtain ps' where ps': "parse_dims ?s (Suc i) (upd ps i (int d)) = Inr (Suc i + length ds, ps')"
          "\<forall>k < 3. at ps' k = (if Suc i \<le> k \<and> k < Suc i + length ds then int (ds ! (k - Suc i)) else at (upd ps i (int d)) k)"
          by auto
        have "at ps' k = (if i \<le> k \<and> k < i + length (d # ds) then int ((d # ds) ! (k - i)) else at ps k)" if k: "k < 3" for k
          using ps'(2) k i by (cases "k = i") (auto simp: at_upd nth_Cons' Suc_le_eq)
        then show ?thesis using True p ps'(1) by (simp del: toString_nat.simps)
      next
        case False
        then show ?thesis using IH p by (simp del: toString_nat.simps)
      qed
    qed
  qed
qed

subsection \<open>Searching the arguments\<close>

lemma array_get_Some: "i < length ss \<Longrightarrow> array_get (map Some ss @ t) (int i) = Inr (Some (ss ! i))"
  by (simp add: array_get_def nth_append)

lemma argv_list_ok: "n \<le> length ss \<Longrightarrow> argv_list (int n) (map Some ss @ t) = Inr (map Some (take n ss))"
proof (induction n)
  case 0
  then show ?case by (simp add: argv_list_def)
next
  case (Suc n)
  have "argv_list (int (Suc n)) (map Some ss @ t) = bindE (argv_list (int n) (map Some ss @ t))
      (\<lambda>l. bindE (array_get (map Some ss @ t) (int n)) (\<lambda>a. Inr (l @ [a])))"
    unfolding argv_list_def nat_int by (simp add: foldE_snoc)
  then show ?case
    using Suc array_get_Some[of n ss t] by (simp add: take_Suc_conv_app_nth)
qed

lemma find_proc_option:
  "n \<le> length ss \<Longrightarrow>
   foldE (\<lambda>i found. case found of Some j \<Rightarrow> Inr found | None \<Rightarrow>
         bindE (array_get (map Some ss @ t) (int i)) (\<lambda>a. bindE (string_of a) (\<lambda>s.
           Inr (if P s then Some i else None)))) [0..<n] None
    = Inr (List.find (\<lambda>i. P (ss ! i)) [0..<n])"
  by (induction n) (auto simp: foldE_snoc array_get_Some find_append split: option.splits)

lemma take_args_ok:
  "n \<le> length l \<Longrightarrow> take_args n (map Some l) opts = Inr (map Some (drop n l), opts @ take n l)"
proof (induction n arbitrary: l opts)
  case (Suc n)
  then show ?case by (cases l) auto
qed simp

lemma take_args_short: "length l < n \<Longrightarrow> take_args n (map Some l) opts = Inl OutOfBounds"
proof (induction n arbitrary: l opts)
  case (Suc n)
  then show ?case by (cases l) auto
qed simp

lemma find_option_skip:
  "set xs \<inter> set opt_str = {} \<Longrightarrow>
   find_option opt_str n pre (map Some xs @ l) opts = find_option opt_str n (pre @ map Some xs) l opts"
  by (induction xs arbitrary: pre) auto

subsection \<open>Properties\<close>

text \<open>C22: The process dimensions survive the command line: the option followed by one to three
  numbers joined by \<open>x\<close>, wherever it stands, sets exactly these entries and returns how
  many they are; more than three make the program exit.\<close>

theorem process_dims_roundtrip:
  assumes "ds \<noteq> []" and "\<forall>d \<in> set ds. d < 2 ^ 31" and "opt \<in> {''-physis-proc'', ''--physis-proc''}"
    and "set pre \<inter> {''-physis-proc'', ''--physis-proc''} = {}"
    and "argv = map Some (pre @ [opt, intersperse_str ''x'' (map toString_nat ds)] @ post) @ [None]"
    and "argc = int (length argv) - 1"
  shows "if length ds \<le> 3
    then \<exists>ps'. GetProcessDim argc argv ps = Inr (int (length ds), ps') \<and>
      (\<forall>k < 3. at ps' k = (if k < length ds then int (ds ! k) else at ps k))
    else GetProcessDim argc argv ps = Inl (Exited 1)"
proof -
  let ?str = "intersperse_str ''x'' (map toString_nat ds)"
  let ?ss = "pre @ [opt, ?str] @ post"
  let ?P = "\<lambda>s. s = ''-physis-proc'' \<or> s = ''--physis-proc''"
  have n: "nat argc = length ?ss" using assms(5,6) by simp
  have "List.find (\<lambda>i. ?P (?ss ! i)) [0..<length ?ss] = Some (length pre)"
    unfolding find_upt_Some using assms(3,4) by (auto simp: nth_append dest!: nth_mem)
  then have f: "foldE (\<lambda>i found. case found of Some j \<Rightarrow> Inr found | None \<Rightarrow>
         bindE (array_get argv (int i)) (\<lambda>a. bindE (string_of a) (\<lambda>s.
           Inr (if s = ''-physis-proc'' \<or> s = ''--physis-proc'' then Some i else None))))
       [0..<nat argc] None = (Inr (Some (length pre)) :: fault + nat option)"
    unfolding n assms(5) by (subst find_proc_option[where P = ?P]) simp_all
  have "array_get argv (int (length pre) + 1) = Inr (Some ?str)"
    unfolding assms(5) by (simp add: array_get_def nth_append nat_add_distrib)
  then have "GetProcessDim argc argv ps = bindE (ParseProcDim ?str ps) (\<lambda>(n, ps). Inr (int n, ps))"
    unfolding GetProcessDim_def f by simp
  then show ?thesis
    using parse_dims_toString[OF assms(1,2), of 0 ps] by (auto simp: ParseProcDim_def split: if_splits)
qed

theorem process_dims_roundtrip_witness:
  "\<exists>ps'. GetProcessDim 3 (map Some [''prog'', ''-physis-proc'',
      intersperse_str ''x'' (map toString_nat [2, 16])] @ [None]) (arr_Set 1) = Inr (2, ps') \<and> at ps' 1 = 16"
  using process_dims_roundtrip[of "[2, 16]" "''-physis-proc''" "[''prog'']" _ "[]" 3 "arr_Set 1"]
  by (auto simp del: toString_nat.simps intersperse_str.simps)

text \<open>\<open>ParseOption\<close> removes the first occurrence of the option with its arguments from the
  argument list, hands them over in order, and keeps all other arguments in order; without
  an occurrence nothing changes; when arguments are missing it runs past the list.\<close>

theorem ParseOption_removes:
  assumes "opt \<in> {''-'' @ name, ''--'' @ name}" and "set pre \<inter> {''-'' @ name, ''--'' @ name} = {}"
  shows "ParseOption (int (length pre)) (map Some pre @ t) name n opts =
      Inr (False, int (length pre), map Some pre @ t, opts) \<and>
    ParseOption (int (length pre + 1 + length rest)) (map Some (pre @ opt # rest) @ t) name n opts =
      (if n \<le> length rest
       then Inr (True, int (length pre + (length rest - n)),
         map Some (pre @ drop n rest) @ drop (length pre + (length rest - n)) (map Some (pre @ opt # rest) @ t),
         opts @ opt # take n rest)
       else Inl OutOfBounds)"
proof -
  let ?o = "[''-'' @ name, ''--'' @ name]"
  have pre: "set pre \<inter> set ?o = {}" using assms(2) by simp
  have opt: "opt \<in> set ?o" using assms(1) by auto
  have "argv_list (int (length pre)) (map Some pre @ t) = Inr (map Some pre)"
    using argv_list_ok[of "length pre" pre t] by simp
  moreover have "find_option ?o n [] (map Some pre) opts = Inr None"
    using find_option_skip[OF pre, of n "[]" "[]" opts] by simp
  ultimately have none: "ParseOption (int (length pre)) (map Some pre @ t) name n opts =
      Inr (False, int (length pre), map Some pre @ t, opts)"
    by (simp add: ParseOption_def)
  let ?ss = "pre @ opt # rest"
  have l: "argv_list (int (length pre + 1 + length rest)) (map Some ?ss @ t) = Inr (map Some ?ss)"
    using argv_list_ok[of "length ?ss" ?ss t] by simp
  have "find_option ?o n [] (map Some ?ss) opts =
      bindE (take_args (n + 1) (map Some (opt # rest)) opts) (\<lambda>(l, opts). Inr (Some (map Some pre @ l, opts)))"
    using find_option_skip[OF pre, of n "[]" "map Some (opt # rest)" opts] opt
    by (auto simp del: take_args.simps)
  also have "\<dots> = (if n \<le> length rest
      then Inr (Some (map Some (pre @ drop n rest), opts @ opt # take n rest)) else Inl OutOfBounds)"
    using take_args_ok[of "n + 1" "opt # rest" opts] take_args_short[of "opt # rest" "n + 1" opts]
    by (simp del: take_args.simps)
  finally show ?thesis
    using none l by (simp add: ParseOption_def Let_def)
qed

theorem ParseOption_removes_witness:
  "ParseOption 3 (map Some [''a'', ''-t'', ''b''] @ [None]) ''t'' 0 [] =
     Inr (True, 2, map Some [''a'', ''b''] @ [Some ''b'', None], [''-t''])"
  using ParseOption_removes[of "''-t''" "''t''" "[''a'']" "[None]" 0 "[]" "[''b'']"] by simp

end
