(* ===== verification/Mpi_Runtime.thy ===== *)
theory Mpi_Runtime imports Rpc_Runs Domain Runtime_Common begin

text \<open>
  The interface of the MPI run-time to generated programs (\<open>runtime/mpi_runtime.cc\<close>): start-up,
  the calls the translated program makes in the master, and the element addresses the
  generated kernels use. The global variables are the fields of \<open>runtime\<close> and, for the grid
  space and the memory, the state of the process. Variable arguments are lists, and reading
  past their end is a fault. The operator \<open>>\<close> between index arrays is the library's.
\<close>

subsection \<open>Start-up\<close>

record proc_info =
  pi_rank :: int
  pi_num_procs :: int

definition IsRoot :: "proc_info \<Rightarrow> bool" where
  "IsRoot p \<longleftrightarrow> pi_rank p = 0"

text \<open>\<open>IndexArray index; for (i = 0; i < nd; ++i) index[i] = va_arg(...)\<close>\<close>

definition va_index :: "nat \<Rightarrow> int list \<Rightarrow> fault + idx" where
  "va_index nd args =
     foldE (\<lambda>i index.
       if PS_MAX_DIM \<le> i then Inl OutOfBounds
       else bindE (array_get args (int i)) (\<lambda>x. Inr (upd index i x))) [0..<nd] IntegerArray0"

record runtime =
  rt_trace :: bool
  rt_pinfo :: proc_info
  rt_stencils :: "stencil_fun list"

text \<open>
  The part of \<open>PSInit\<close> before the processes part ways. \<open>mpi_init\<close> is what \<open>MPI_Init\<close> leaves
  of the arguments; the number of processes and the rank are what MPI reports.
\<close>

definition PSInit_space ::
    "(int \<times> string option list \<Rightarrow> int \<times> string option list) \<Rightarrow> int \<Rightarrow> int \<Rightarrow>
      int \<Rightarrow> string option list \<Rightarrow> nat \<Rightarrow> int list \<Rightarrow> stencil_fun list \<Rightarrow> nat \<Rightarrow> fault + (runtime \<times> space)" where
  "PSInit_space mpi_init num_procs rank argc argv gdims sizes stencil_funcs num_stencil_run_calls =
     bindE (PSInitCommon argc argv) (\<lambda>(trace, argc, argv).
     bindE (va_index gdims sizes) (\<lambda>grid_size.
     let (argc, argv) = mpi_init (argc, argv)
     in bindE (GetProcessDim argc argv (arr_Set 1)) (\<lambda>(n, proc_size).
        bindE (if n < 0
               then if gdims = 0 then Inl OutOfBounds
                    else Inr (gdims, upd proc_size (gdims - 1) num_procs)
               else Inr (nat n, proc_size)) (\<lambda>(proc_num_dims, proc_size).
        bindE (GridSpaceMPI_new gdims grid_size proc_num_dims proc_size rank) (\<lambda>gs.
        bindE (foldE (\<lambda>i fs. bindE (array_get stencil_funcs (int i)) (\<lambda>f. Inr (fs @ [f])))
                 [0..<num_stencil_run_calls] []) (\<lambda>fs.
          Inr (\<lparr>rt_trace = trace, rt_pinfo = \<lparr>pi_rank = rank, pi_num_procs = num_procs\<rparr>,
                rt_stencils = fs\<rparr>, gs)))))))"

text \<open>\<open>__PS_stencils[id](iter, stencils)\<close>\<close>

definition call_stencil :: "runtime \<Rightarrow> stencil_fun" where
  "call_stencil rt sid iter stencils s =
     bindP (lift (array_get (rt_stencils rt) sid)) (\<lambda>f. f sid iter stencils s)"

text \<open>
  \<open>PSInit\<close> with the rest of the master's program as its continuation: a client listens, for
  \<open>n\<close> requests here, and the master goes on.
\<close>

definition PSInit ::
    "(idx \<Rightarrow> idx \<Rightarrow> bool) \<Rightarrow> reduce_fun \<Rightarrow> nat \<Rightarrow> nat \<Rightarrow> (runtime \<Rightarrow> pstate \<Rightarrow> pstate prog) \<Rightarrow>
     (int \<times> string option list \<Rightarrow> int \<times> string option list) \<Rightarrow> int \<Rightarrow> int \<Rightarrow>
      int \<Rightarrow> string option list \<Rightarrow> nat \<Rightarrow> int list \<Rightarrow> stencil_fun list \<Rightarrow> nat \<Rightarrow> world \<Rightarrow> pstate prog" where
  "PSInit le reduce fuel n main mpi_init num_procs rank argc argv gdims sizes stencil_funcs calls st =
     bindP (lift (PSInit_space mpi_init num_procs rank argc argv gdims sizes stencil_funcs calls)) (\<lambda>(rt, gs).
       if rank \<noteq> 0 then Client_Listen le (call_stencil rt) reduce fuel n (gs, st)
       else main rt (gs, st))"

definition PSFinalize :: "pstate \<Rightarrow> pstate prog" where
  "PSFinalize s = Master_Finalize s"

definition PSRegisterStencilRunClient :: "int \<Rightarrow> stencil_fun \<Rightarrow> runtime \<Rightarrow> fault + runtime" where
  "PSRegisterStencilRunClient sid f rt =
     (if 0 \<le> sid \<and> nat sid < length (rt_stencils rt)
      then Inr (rt\<lparr>rt_stencils := (rt_stencils rt)[nat sid := f]\<rparr>) else Inl OutOfBounds)"

definition PSIsRoot :: "runtime \<Rightarrow> bool" where
  "PSIsRoot rt = IsRoot (rt_pinfo rt)"

subsection \<open>Grids\<close>

text \<open>\<open>gt\<close> is \<open>>\<close> of index arrays; \<open>None\<close> is the \<open>NULL\<close> of a grid that is too large.\<close>

definition PSGridNewMPI ::
    "(idx \<Rightarrow> idx \<Rightarrow> bool) \<Rightarrow> int \<Rightarrow> nat \<Rightarrow> nat \<Rightarrow> idx \<Rightarrow> bool \<Rightarrow> nat \<Rightarrow> idx option \<Rightarrow> pstate \<Rightarrow>
      (nat option \<times> pstate) prog" where
  "PSGridNewMPI gt type e dim gsize double_buffering attr global_offset s =
     bindP (lift (assertE (global_offset = None))) (\<lambda>_.
       if gt gsize (gs_global_size (fst s)) then Ret (None, s)
       else bindP (Master_GridNew type e dim gsize double_buffering IntegerArray0 attr s)
              (\<lambda>(a, s). Ret (Some a, s)))"

definition on_grid :: "nat \<Rightarrow> (mgrid \<Rightarrow> mgrid) \<Rightarrow> pstate \<Rightarrow> fault + pstate" where
  "on_grid a f = (\<lambda>(gs, st). bindE (get_obj a gs) (\<lambda>g. Inr (put_obj a (f g) gs, st)))"

definition PSGridSwap :: "nat \<Rightarrow> pstate \<Rightarrow> fault + pstate" where
  "PSGridSwap a = on_grid a Grid_Swap"

definition PSGridGetID :: "nat \<Rightarrow> space \<Rightarrow> fault + int" where
  "PSGridGetID a gs = bindE (get_obj a gs) get_id"

definition PSGetGridByID :: "int \<Rightarrow> space \<Rightarrow> fault + nat" where
  "PSGetGridByID i gs = FindGrid i gs"

definition PSGridDim :: "nat \<Rightarrow> nat \<Rightarrow> space \<Rightarrow> fault + int" where
  "PSGridDim a d gs = bindE (get_obj a gs) (\<lambda>g.
     if d < PS_MAX_DIM then Inr (at (grid_size g) d) else Inl OutOfBounds)"

definition PSActivateRemoteGrid :: "nat \<Rightarrow> bool \<Rightarrow> pstate \<Rightarrow> fault + pstate" where
  "PSActivateRemoteGrid a active = on_grid a (gm_remote_grid_active_update (\<lambda>_. active))"

definition PSGridFree :: "nat \<Rightarrow> pstate \<Rightarrow> pstate prog" where
  "PSGridFree a s = Master_GridDelete a s"

definition PSGridCopyin :: "nat \<Rightarrow> ptr \<Rightarrow> pstate \<Rightarrow> pstate prog" where
  "PSGridCopyin a buf s = Master_GridCopyin a buf s"

definition PSGridCopyout :: "nat \<Rightarrow> ptr \<Rightarrow> pstate \<Rightarrow> pstate prog" where
  "PSGridCopyout a buf s = Master_GridCopyout a buf s"

text \<open>
  \<open>__PSGridGet<T>\<close> reads into a local variable, here the block of \<open>buf\<close>, whose value the
  two instances for \<open>float\<close> and \<open>double\<close> return.
\<close>

definition PSGridGet :: "nat \<Rightarrow> nat \<Rightarrow> ptr \<Rightarrow> int list \<Rightarrow> pstate \<Rightarrow> pstate prog" where
  "PSGridGet fuel a buf args = (\<lambda>(gs, st).
     bindP (lift (bindE (get_obj a gs) (\<lambda>g. va_index (grid_num_dims g) args))) (\<lambda>index.
       Master_GridGet fuel a buf index (gs, st)))"

definition PSGridGetT :: "(cell list \<Rightarrow> 't) \<Rightarrow> nat \<Rightarrow> nat \<Rightarrow> nat \<Rightarrow> int list \<Rightarrow> pstate \<Rightarrow> ('t \<times> pstate) prog" where
  "PSGridGetT dec tsize fuel a args = (\<lambda>(gs, st).
     let (v, h) = malloc tsize (hp st)
     in bindP (PSGridGet fuel a v args (gs, st\<lparr>hp := h\<rparr>)) (\<lambda>(gs, st).
        bindP (lift (load v tsize (hp st))) (\<lambda>cs.
        bindP (lift (free v (hp st))) (\<lambda>h. Ret (dec cs, gs, st\<lparr>hp := h\<rparr>)))))"

definition PSGridGetFloat :: "(cell list \<Rightarrow> 'f) \<Rightarrow> nat \<Rightarrow> nat \<Rightarrow> int list \<Rightarrow> pstate \<Rightarrow> ('f \<times> pstate) prog" where
  "PSGridGetFloat dec = PSGridGetT dec 4"

definition PSGridGetDouble :: "(cell list \<Rightarrow> 'd) \<Rightarrow> nat \<Rightarrow> nat \<Rightarrow> int list \<Rightarrow> pstate \<Rightarrow> ('d \<times> pstate) prog" where
  "PSGridGetDouble dec = PSGridGetT dec 8"

definition PSGridSet :: "nat \<Rightarrow> ptr \<Rightarrow> int list \<Rightarrow> pstate \<Rightarrow> pstate prog" where
  "PSGridSet a buf args = (\<lambda>(gs, st).
     bindP (lift (bindE (get_obj a gs) (\<lambda>g. va_index (grid_num_dims g) args))) (\<lambda>index.
       Master_GridSet a buf index (gs, st)))"

text \<open>The arguments of \<open>__PSStencilRun\<close> are pairs of a size and a stencil object.\<close>

definition PSStencilRun :: "runtime \<Rightarrow> int \<Rightarrow> int \<Rightarrow> nat \<Rightarrow> (nat \<times> ptr) list \<Rightarrow> pstate \<Rightarrow> pstate prog" where
  "PSStencilRun rt sid iter num_stencils args s =
     bindP (lift (foldE (\<lambda>i (stencils, sizes). bindE (array_get args (int i)) (\<lambda>(sz, obj).
         Inr (stencils @ [obj], sizes @ [to_unsigned (int sz)]))) [0..<num_stencils] ([], []))) (\<lambda>(stencils, sizes).
       Master_StencilRun (call_stencil rt) sid iter stencils sizes s)"

definition PSReduceGridFloat :: "reduce_fun \<Rightarrow> ptr \<Rightarrow> PSReduceOp \<Rightarrow> nat \<Rightarrow> pstate \<Rightarrow> pstate prog" where
  "PSReduceGridFloat reduce buf op a s = Master_GridReduce reduce buf op a s"

definition PSReduceGridDouble :: "reduce_fun \<Rightarrow> ptr \<Rightarrow> PSReduceOp \<Rightarrow> nat \<Rightarrow> pstate \<Rightarrow> pstate prog" where
  "PSReduceGridDouble reduce buf op a s = Master_GridReduce reduce buf op a s"

subsection \<open>Data for kernels\<close>

text \<open>\<open>overlap\<close> only makes \<open>__PSLoadNeighbor\<close> log a warning.\<close>

definition PSLoadNeighbor ::
    "nat \<Rightarrow> idx \<Rightarrow> idx \<Rightarrow> bool \<Rightarrow> bool \<Rightarrow> bool \<Rightarrow> bool \<Rightarrow> pstate \<Rightarrow> pstate prog" where
  "PSLoadNeighbor a offset_min offset_max diagonal reuse overlap periodic s =
     LoadNeighbor a offset_min offset_max diagonal reuse periodic s"

definition PSLoadSubgrid :: "nat \<Rightarrow> bool \<Rightarrow> pstate \<Rightarrow> pstate prog" where
  "PSLoadSubgrid a reuse s = Fail AssertFailed"

definition PSLoadSubgrid2D ::
    "nat \<Rightarrow> nat \<Rightarrow> int \<Rightarrow> int \<Rightarrow> int \<Rightarrow> int \<Rightarrow> int \<Rightarrow> int \<Rightarrow> int \<Rightarrow> int \<Rightarrow> bool \<Rightarrow> pstate \<Rightarrow> pstate prog" where
  "PSLoadSubgrid2D fuel a min_dim1 min_offset1 min_dim2 min_offset2
     max_dim1 max_offset1 max_dim2 max_offset2 reuse s =
     bindP (lift (assertE (min_dim1 = max_dim1))) (\<lambda>_.
     bindP (lift (assertE (min_dim2 = max_dim2))) (\<lambda>_.
       LoadSubgrid_free fuel a [min_dim1, min_dim2] (IntegerArray2 min_offset1 min_offset2)
         (IntegerArray2 max_offset1 max_offset2) reuse s))"

definition PSLoadSubgrid3D ::
    "nat \<Rightarrow> nat \<Rightarrow> int \<Rightarrow> int \<Rightarrow> int \<Rightarrow> int \<Rightarrow> int \<Rightarrow> int \<Rightarrow>
      int \<Rightarrow> int \<Rightarrow> int \<Rightarrow> int \<Rightarrow> int \<Rightarrow> int \<Rightarrow> bool \<Rightarrow> pstate \<Rightarrow> pstate prog" where
  "PSLoadSubgrid3D fuel a min_dim1 min_offset1 min_dim2 min_offset2 min_dim3 min_offset3
     max_dim1 max_offset1 max_dim2 max_offset2 max_dim3 max_offset3 reuse s =
     bindP (lift (assertE (min_dim1 = max_dim1))) (\<lambda>_.
     bindP (lift (assertE (min_dim2 = max_dim2))) (\<lambda>_.
     bindP (lift (assertE (min_dim3 = max_dim3))) (\<lambda>_.
       LoadSubgrid_free fuel a [min_dim1, min_dim2, min_dim3] (IntegerArray3 min_offset1 min_offset2 min_offset3)
         (IntegerArray3 max_offset1 max_offset2 max_offset3) reuse s)))"

subsection \<open>Start-up without process dimensions\<close>

definition physis_options :: "string set" where
  "physis_options = {''-physis-trace'', ''--physis-trace'', ''-physis-proc'', ''--physis-proc''}"

lemma PSInitCommon_plain:
  assumes "set args \<inter> physis_options = {}"
  shows "PSInitCommon (int (length args)) (map Some args @ t) = Inr (False, int (length args), map Some args @ t)"
proof -
  let ?o = "[''-'' @ ''physis-trace'', ''--'' @ ''physis-trace'']"
  have "set args \<inter> set ?o = {}" using assms by (auto simp: physis_options_def)
  from find_option_skip[OF this, of 0 "[]" "[]" "[]"]
  have "find_option ?o 0 [] (map Some args) [] = Inr None" by simp
  then show ?thesis
    using argv_list_ok[of "length args" args t] by (simp add: PSInitCommon_def ParseOption_def Let_def)
qed

lemma GetProcessDim_plain:
  assumes "set args \<inter> physis_options = {}"
  shows "GetProcessDim (int (length args)) (map Some args @ t) ps = Inr (- 1, ps)"
proof -
  let ?P = "\<lambda>s. s = ''-physis-proc'' \<or> s = ''--physis-proc''"
  have "List.find (\<lambda>i. ?P (args ! i)) [0..<length args] = None"
    using assms by (auto simp: find_None_iff physis_options_def dest!: nth_mem)
  then have "foldE (\<lambda>i found. case found of Some j \<Rightarrow> Inr found | None \<Rightarrow>
         bindE (array_get (map Some args @ t) (int i)) (\<lambda>a. bindE (string_of a) (\<lambda>s.
           Inr (if s = ''-physis-proc'' \<or> s = ''--physis-proc'' then Some i else None))))
       [0..<nat (int (length args))] None = (Inr None :: fault + nat option)"
    unfolding nat_int by (subst find_proc_option[where P = ?P]) simp_all
  then show ?thesis unfolding GetProcessDim_def by simp
qed

lemma va_index_ok:
  assumes "n \<le> length args" "n \<le> 3"
  shows "\<exists>idx. va_index n args = Inr idx \<and> (\<forall>i < 3. at idx i = (if i < n then args ! i else 0))"
  using assms
proof (induction n)
  case 0
  then show ?case by (simp add: va_index_def)
next
  case (Suc n)
  then obtain idx where "va_index n args = Inr idx" "\<forall>i < 3. at idx i = (if i < n then args ! i else 0)" by auto
  moreover have "va_index (Suc n) args = bindE (va_index n args) (\<lambda>index.
       if PS_MAX_DIM \<le> n then Inl OutOfBounds
       else bindE (array_get args (int n)) (\<lambda>x. Inr (upd index n x)))"
    by (simp add: va_index_def foldE_snoc)
  ultimately show ?case using Suc.prems
    by (auto simp: PS_MAX_DIM_def array_get_def at_upd less_Suc_eq)
qed

text \<open>The process dimensions that \<open>PSInit\<close> chooses when none are given.\<close>

definition default_proc_size :: "nat \<Rightarrow> nat \<Rightarrow> idx" where
  "default_proc_size nd np = upd (arr_Set 1) (nd - 1) (int np)"

lemma default_proc_size_ok:
  assumes "1 \<le> nd" "nd \<le> 3" "1 \<le> np" "\<forall>i < nd. 0 \<le> at gsz i"
  shows "space_args_ok nd gsz (default_proc_size nd np)" "nat (accumulate (default_proc_size nd np) nd) = np"
proof -
  have at: "at (default_proc_size nd np) i = (if i = nd - 1 then int np else 1)" if "i < 3" for i
    using that assms(1,2) by (simp add: default_proc_size_def at_upd)
  then show "space_args_ok nd gsz (default_proc_size nd np)"
    using assms by (auto simp: space_args_ok_def)
  have one: "accumulate (default_proc_size nd np) k = 1" if "k < nd" for k
    using that at assms(2) by (induction k) auto
  obtain m where m: "nd = Suc m" using assms(1) by (cases nd) auto
  have "accumulate (default_proc_size nd np) nd = int np"
    using one[of m] at[of m] m assms(2) by simp
  then show "nat (accumulate (default_proc_size nd np) nd) = np" by simp
qed

lemma foldE_copy_all:
  "k \<le> length fs \<Longrightarrow>
   foldE (\<lambda>i acc. bindE (array_get fs (int i)) (\<lambda>f. Inr (acc @ [f]))) [0..<k] [] = Inr (take k fs)"
  by (induction k) (simp_all add: foldE_snoc array_get_def take_Suc_conv_app_nth)

lemma PSInit_space_default:
  assumes "set args \<inter> physis_options = {}" "set args' \<inter> physis_options = {}"
    and "mpi_init (int (length args), map Some args @ t) = (int (length args'), map Some args' @ t')"
    and "va_index nd sizes = Inr gsz" "1 \<le> nd" "length fs = k"
    and "GridSpaceMPI_new nd gsz nd (default_proc_size nd np) r = Inr gs"
  shows "PSInit_space mpi_init (int np) r (int (length args)) (map Some args @ t) nd sizes fs k =
    Inr (\<lparr>rt_trace = False, rt_pinfo = \<lparr>pi_rank = r, pi_num_procs = int np\<rparr>, rt_stencils = fs\<rparr>, gs)"
  using assms foldE_copy_all[of k fs]
  by (simp add: PSInit_space_def PSInitCommon_plain GetProcessDim_plain default_proc_size_def)

subsection \<open>Properties\<close>

text \<open>The master's part of a program that keeps an array in a grid and reads it back.\<close>

definition copy_main ::
    "(idx \<Rightarrow> idx \<Rightarrow> bool) \<Rightarrow> int \<Rightarrow> nat \<Rightarrow> nat \<Rightarrow> idx \<Rightarrow> bool \<Rightarrow> nat \<Rightarrow> nat \<Rightarrow> nat \<Rightarrow> runtime \<Rightarrow> pstate \<Rightarrow> pstate prog" where
  "copy_main gt type e nd sz db attr U V rt s =
     bindP (PSGridNewMPI gt type e nd sz db attr None s) (\<lambda>(a, s).
       case a of
         None \<Rightarrow> Ret s
       | Some a \<Rightarrow> bindP (PSGridCopyin a (Ptr U 0) s) (\<lambda>s. PSGridCopyout a (Ptr V 0) s))"



text \<open>Process dimensions with too few processes are not noticed at the start: every process
  whose rank is not below their product reads past the end of the table of process indices.\<close>

theorem surplus_process_fails:
  assumes "space_args_ok nd gsz ps" and "accumulate ps nd \<le> r"
  shows "(GridSpaceMPI_new nd gsz nd ps r :: fault + space) = Inl OutOfBounds"
proof -
  obtain parts offs m where p: "partition_procs nd (accumulate ps nd) gsz ps =
      Inr (parts, offs, map (\<lambda>r. rank_idx nd ps (int r)) [0..<nat (accumulate ps nd)], m)"
    using partition_procs_ok[OF assms(1) refl] by blast
  have "0 \<le> accumulate ps nd" using assms(1) by (intro accumulate_nonneg) (auto simp: space_args_ok_def less_imp_le)
  then have "array_get (map (\<lambda>r. rank_idx nd ps (int r)) [0..<nat (accumulate ps nd)]) r = Inl OutOfBounds"
    using assms(2) by (simp add: array_get_def le_nat_iff)
  with p show ?thesis by (simp add: GridSpaceMPI_new_def Let_def)
qed

theorem surplus_process_fails_witness:
  "(GridSpaceMPI_new 2 (Arr3 8 8 0) 2 (Arr3 2 2 0) 5 :: fault + space) = Inl OutOfBounds"
  by (rule surplus_process_fails) (simp_all add: space_args_ok_def all_less_num accumulate_num)

text \<open>The guard of \<open>__PSGridNewMPI\<close> compares the sizes lexicographically, so it lets a grid
  pass that is smaller than the space in the first dimension and larger in a later one; no
  process holds the points beyond the space.\<close>

theorem oversized_grid_accepted:
  assumes boost_array: "\<forall>a b. gt a b \<longleftrightarrow> \<not> lex_ge b a"
    and "at sz 0 < at gsz 0" and "gs_global_size (fst s) = gsz"
    and "space_args_ok nd gsz ps" and "in_box nd q sz" and "i < nd" and "at gsz i \<le> at q i"
  shows "PSGridNewMPI gt ty e nd sz db attr None s =
      bindP (Master_GridNew ty e nd sz db IntegerArray0 attr s) (\<lambda>(a, s). Ret (Some a, s)) \<and>
    (\<forall>r. 0 \<le> r \<longrightarrow> r < accumulate ps nd \<longrightarrow>
      \<not> in_subbox nd (fst (local_box nd gsz ps sz IntegerArray0 r)) (snd (local_box nd gsz ps sz IntegerArray0 r)) q)"
proof
  have "\<not> gt sz gsz" using boost_array assms(2) by (simp add: lex_ge_def)
  then show "PSGridNewMPI gt ty e nd sz db attr None s =
      bindP (Master_GridNew ty e nd sz db IntegerArray0 attr s) (\<lambda>(a, s). Ret (Some a, s))"
    using assms(3) by (simp add: PSGridNewMPI_def)
  have "\<not> owner_idx nd gsz ps (arr_plus q IntegerArray0) p" for p
  proof
    assume o: "owner_idx nd gsz ps (arr_plus q IntegerArray0) p"
    have nd: "nd \<le> 3" and pi: "0 < at ps i" "0 \<le> at gsz i" using assms(4,6) by (auto simp: space_args_ok_def)
    have "at (arr_plus q IntegerArray0) i < proc_off gsz ps p i + proc_part gsz ps p i" "0 \<le> at p i" "at p i < at ps i"
      using o assms(6) by (auto simp: owner_idx_def grid_point_def in_box_def)
    moreover have "proc_off gsz ps p i + proc_part gsz ps p i \<le> at gsz i"
      using block_partition.part_end[OF block_partition_parts[of "nat (at ps i)" "at gsz i"], of "nat (at p i)"]
        pi calculation by (simp add: proc_off_def proc_part_def nat_less_eq_zless)
    ultimately show False using assms(6,7) nd by (simp add: at_arr_plus)
  qed
  then show "\<forall>r. 0 \<le> r \<longrightarrow> r < accumulate ps nd \<longrightarrow>
      \<not> in_subbox nd (fst (local_box nd gsz ps sz IntegerArray0 r)) (snd (local_box nd gsz ps sz IntegerArray0 r)) q"
    using local_box_contains[OF assms(4,5)] by blast
qed

theorem oversized_grid_accepted_witness:
  "\<exists>gs. gs_global_size gs = Arr3 8 8 0 \<and>
    PSGridNewMPI (\<lambda>a b. \<not> lex_ge b a) 0 1 2 (Arr3 4 9 0) False 0 None (gs, run_world) =
      bindP (Master_GridNew 0 1 2 (Arr3 4 9 0) False IntegerArray0 0 (gs, run_world)) (\<lambda>(a, s). Ret (Some a, s)) \<and>
    (\<forall>r. 0 \<le> r \<longrightarrow> r < accumulate (Arr3 2 2 0) 2 \<longrightarrow>
      \<not> in_subbox 2 (fst (local_box 2 (Arr3 8 8 0) (Arr3 2 2 0) (Arr3 4 9 0) IntegerArray0 r))
        (snd (local_box 2 (Arr3 8 8 0) (Arr3 2 2 0) (Arr3 4 9 0) IntegerArray0 r)) (Arr3 0 8 0))"
proof -
  have args: "space_args_ok 2 (Arr3 8 8 0) (Arr3 2 2 0)" by (simp add: space_args_ok_def all_less_num)
  then obtain gs :: space where gs: "gs_global_size gs = Arr3 8 8 0"
    using GridSpaceMPI_new_ok[OF args, of 0] by (auto simp: accumulate_num)
  show ?thesis
    using oversized_grid_accepted[of "\<lambda>a b. \<not> lex_ge b a" "Arr3 4 9 0" "Arr3 8 8 0" "(gs, run_world)" 2
        "Arr3 2 2 0" "Arr3 0 8 0" 1 0 1 False 0] gs args
    by (intro exI[of _ gs]) (simp add: in_box_def all_less_num)
qed

end
