(* ===== verification/Stencil_Range.thy ===== *)
theory Stencil_Range imports Index_Array Physis_Util begin

text \<open>
  The ranges of stencil accesses the translator collects from a kernel
  (\<open>translator/stencil_range.h\<close>, \<open>translator/stencil_range.cc\<close>). They decide how wide the
  halos are that the run-time exchanges. An index of an access is a dimension, counted from
  1, and a constant offset.
\<close>

subsection \<open>Indices\<close>

record stencil_index =
  si_dim :: int
  si_offset :: int

definition StencilIndex0 :: stencil_index where
  "StencilIndex0 = \<lparr>si_dim = 0, si_offset = 0\<rparr>"

definition StencilIndex :: "int \<Rightarrow> int \<Rightarrow> stencil_index" where
  "StencilIndex d k = \<lparr>si_dim = d, si_offset = k\<rparr>"

definition StencilIndex_ToString :: "stencil_index \<Rightarrow> string" where
  "StencilIndex_ToString si = ''('' @ toString_int (si_dim si) @ '', '' @ toString_int (si_offset si) @ '')''"

definition si_gt :: "stencil_index \<Rightarrow> stencil_index \<Rightarrow> fault + bool" where
  "si_gt a x = bindE (assertE (si_dim a = si_dim x)) (\<lambda>_. Inr (si_offset a > si_offset x))"

definition si_ge :: "stencil_index \<Rightarrow> stencil_index \<Rightarrow> fault + bool" where
  "si_ge a x = bindE (assertE (si_dim a = si_dim x)) (\<lambda>_. Inr (si_offset a \<ge> si_offset x))"

definition si_lt :: "stencil_index \<Rightarrow> stencil_index \<Rightarrow> fault + bool" where
  "si_lt a x = bindE (assertE (si_dim a = si_dim x)) (\<lambda>_. Inr (si_offset a < si_offset x))"

definition si_le :: "stencil_index \<Rightarrow> stencil_index \<Rightarrow> fault + bool" where
  "si_le a x = bindE (assertE (si_dim a = si_dim x)) (\<lambda>_. Inr (si_offset a \<le> si_offset x))"

definition si_eq :: "stencil_index \<Rightarrow> stencil_index \<Rightarrow> bool" where
  "si_eq a x \<longleftrightarrow> si_dim a = si_dim x \<and> si_offset a = si_offset x"

definition si_neq :: "stencil_index \<Rightarrow> stencil_index \<Rightarrow> bool" where
  "si_neq a x \<longleftrightarrow> \<not> si_eq a x"

type_synonym stencil_index_list = "stencil_index list"

text \<open>The loop counts from 1, so the list has one index less than there are dimensions.\<close>

definition StencilIndexListInitSelf :: "stencil_index_list \<Rightarrow> nat \<Rightarrow> stencil_index_list" where
  "StencilIndexListInitSelf sil num_dims = fold (\<lambda>i sil. sil @ [StencilIndex (int i) 0]) [1..<num_dims] sil"

definition StencilIndexSelf :: "stencil_index_list \<Rightarrow> nat \<Rightarrow> bool" where
  "StencilIndexSelf sil num_dims \<longleftrightarrow> length sil = num_dims \<and>
     list_all (\<lambda>(i, si). si_dim si = int (i + 1) \<and> si_offset si = 0) (enumerate 0 sil)"

definition StencilIndexRegularOrder :: "stencil_index_list \<Rightarrow> nat \<Rightarrow> bool" where
  "StencilIndexRegularOrder sil num_dims \<longleftrightarrow> length sil = num_dims \<and>
     list_all (\<lambda>(i, si). si_dim si = int (i + 1)) (enumerate 0 sil)"

definition StencilIndexRegularOrder1 :: "stencil_index_list \<Rightarrow> bool" where
  "StencilIndexRegularOrder1 sil \<longleftrightarrow> StencilIndexRegularOrder sil (length sil)"

definition print_StencilIndexList :: "stencil_index_list \<Rightarrow> string" where
  "print_StencilIndexList sil =
     ''{'' @ sj_str (fold (\<lambda>si. sj_append (StencilIndex_ToString si)) sil (StringJoin '', '')) @ ''}''"

subsection \<open>Regular index lists\<close>

text \<open>A \<open>std::map\<close> from dimensions to offsets is a list with increasing keys.\<close>

type_synonym regular_index_list = "(int \<times> int) list"

fun map_assign :: "int \<Rightarrow> int \<Rightarrow> regular_index_list \<Rightarrow> regular_index_list" where
  "map_assign k v [] = [(k, v)]"
| "map_assign k v ((k', v') # m) =
     (if k < k' then (k, v) # (k', v') # m
      else if k = k' then (k, v) # m else (k', v') # map_assign k v m)"

definition StencilRegularIndexList :: "stencil_index_list \<Rightarrow> fault + regular_index_list" where
  "StencilRegularIndexList sil =
     bindE (assertE (StencilIndexRegularOrder1 sil)) (\<lambda>_.
       Inr (fold (\<lambda>si. map_assign (si_dim si) (si_offset si)) sil []))"

definition ril_GetIndex :: "regular_index_list \<Rightarrow> int \<Rightarrow> fault + int" where
  "ril_GetIndex m d =
     bindE (assertE (isContained_map (map_of m) d)) (\<lambda>_. Inr (the (map_of m d)))"

definition ril_SetIndex :: "int \<Rightarrow> int \<Rightarrow> regular_index_list \<Rightarrow> regular_index_list" where
  "ril_SetIndex d idx m = map_assign d idx m"

definition ril_GetNumDims :: "regular_index_list \<Rightarrow> nat" where
  "ril_GetNumDims m = length m"

fun ril_less :: "regular_index_list \<Rightarrow> regular_index_list \<Rightarrow> fault + bool" where
  "ril_less [] x = Inr False"
| "ril_less ((d, v) # m) x =
     bindE (ril_GetIndex x d) (\<lambda>w.
       if v < w then Inr True else if v > w then Inr False else ril_less m x)"

definition ril_eq :: "regular_index_list \<Rightarrow> regular_index_list \<Rightarrow> bool" where
  "ril_eq m x \<longleftrightarrow> m = x"

definition ril_eq_list :: "regular_index_list \<Rightarrow> stencil_index_list \<Rightarrow> fault + bool" where
  "ril_eq_list m x =
     (if \<not> StencilIndexRegularOrder1 x then Inr False
      else bindE (StencilRegularIndexList x) (\<lambda>xr. Inr (ril_eq m xr)))"

definition ril_neq_list :: "regular_index_list \<Rightarrow> stencil_index_list \<Rightarrow> fault + bool" where
  "ril_neq_list m x = bindE (ril_eq_list m x) (\<lambda>b. Inr (\<not> b))"

text \<open>
  The first output to a \<open>StringJoin\<close> returns its stream, so what follows is not separated.
\<close>

definition ril_print :: "regular_index_list \<Rightarrow> string" where
  "ril_print m =
     ''{'' @ sj_str (fold (\<lambda>(d, v). sj_append (toString_int d @ '': '' @ toString_int v)) m
        (StringJoin '', '')) @ ''}''"

subsection \<open>Ranges\<close>

text \<open>For every dimension the least and the greatest offset of each running dimension met there.\<close>

record stencil_range =
  sr_min :: "stencil_index_list arr3"
  sr_max :: "stencil_index_list arr3"
  sr_all :: "stencil_index_list list"
  sr_num_dims :: nat
  sr_diagonal :: bool

definition StencilRange :: "int \<Rightarrow> fault + stencil_range" where
  "StencilRange d =
     bindE (assertE (0 < d \<and> d \<le> int PS_MAX_DIM)) (\<lambda>_.
       Inr \<lparr>sr_min = arr_Set [], sr_max = arr_Set [], sr_all = [], sr_num_dims = nat d, sr_diagonal = False\<rparr>)"

text \<open>The copy constructor does not name \<open>all_indices_\<close>, which is empty in the copy.\<close>

definition StencilRange_copy :: "stencil_range \<Rightarrow> stencil_range" where
  "StencilRange_copy sr =
     \<lparr>sr_min = sr_min sr, sr_max = sr_max sr, sr_all = [], sr_num_dims = sr_num_dims sr,
      sr_diagonal = sr_diagonal sr\<rparr>"

text \<open>
  The search in \<open>insert\<close>: the entry of the same dimension is replaced when the new index is
  better, and the new index is appended when there is none.
\<close>

fun insert_bound ::
    "(stencil_index \<Rightarrow> stencil_index \<Rightarrow> fault + bool) \<Rightarrow> stencil_index \<Rightarrow> stencil_index_list \<Rightarrow>
      fault + stencil_index_list" where
  "insert_bound better si [] = Inr [si]"
| "insert_bound better si (cur # ss) =
     (if si_dim cur = si_dim si
      then bindE (better si cur) (\<lambda>b. Inr ((if b then si else cur) # ss))
      else bindE (insert_bound better si ss) (\<lambda>ss. Inr (cur # ss)))"

definition range_insert1 :: "nat \<Rightarrow> stencil_index \<Rightarrow> stencil_range \<Rightarrow> fault + stencil_range" where
  "range_insert1 d si sr =
     bindE (insert_bound si_lt si (at (sr_min sr) (d - 1))) (\<lambda>min_ss.
     bindE (insert_bound si_gt si (at (sr_max sr) (d - 1))) (\<lambda>max_ss.
       Inr (sr\<lparr>sr_min := upd (sr_min sr) (d - 1) min_ss, sr_max := upd (sr_max sr) (d - 1) max_ss\<rparr>)))"

definition insert_step :: "nat \<times> stencil_index \<Rightarrow> stencil_range \<times> nat \<Rightarrow> fault + (stencil_range \<times> nat)" where
  "insert_step = (\<lambda>(i, si) (sr, non_zero).
     bindE (range_insert1 (i + 1) si sr) (\<lambda>sr.
       Inr (sr, if si_offset si \<noteq> 0 then non_zero + 1 else non_zero)))"

definition range_insert :: "stencil_index_list \<Rightarrow> stencil_range \<Rightarrow> fault + stencil_range" where
  "range_insert sil sr =
     bindE (assertE (sr_num_dims sr = length sil)) (\<lambda>_.
     bindE (foldE insert_step (enumerate 0 sil) (sr, 0)) (\<lambda>(sr, non_zero).
       Inr (sr\<lparr>sr_diagonal := (sr_diagonal sr \<or> non_zero > 1), sr_all := sr_all sr @ [sil]\<rparr>)))"

definition range_merge :: "stencil_range \<Rightarrow> stencil_range \<Rightarrow> fault + stencil_range" where
  "range_merge sr self =
     bindE (assertE (sr_num_dims self = sr_num_dims sr)) (\<lambda>_.
     bindE (foldE (\<lambda>i self.
          bindE (foldE (range_insert1 (i + 1)) (at (sr_min sr) i) self) (\<lambda>self.
            foldE (range_insert1 (i + 1)) (at (sr_max sr) i) self))
        [0..<sr_num_dims self] self) (\<lambda>self.
       Inr (self\<lparr>sr_diagonal := (sr_diagonal self \<or> sr_diagonal sr)\<rparr>)))"

definition IsNeighborAccess :: "stencil_range \<Rightarrow> bool" where
  "IsNeighborAccess sr \<longleftrightarrow>
     list_all (\<lambda>i. length (at (sr_min sr) i) = 1 \<and> si_dim (hd (at (sr_min sr) i)) = int (i + 1))
       [0..<sr_num_dims sr]"

text \<open>\<open>begin()\<close> of an empty list has nothing to read.\<close>

definition first_offset :: "stencil_index_list \<Rightarrow> fault + int" where
  "first_offset ss = (case ss of [] \<Rightarrow> Inl OutOfBounds | si # _ \<Rightarrow> Inr (si_offset si))"

definition GetNeighborAccess ::
    "int list \<Rightarrow> int list \<Rightarrow> stencil_range \<Rightarrow> fault + (bool \<times> int list \<times> int list)" where
  "GetNeighborAccess offset_min offset_max sr =
     (if \<not> IsNeighborAccess sr then Inr (False, offset_min, offset_max)
      else bindE (foldE (\<lambda>i (mn, mx).
             bindE (first_offset (at (sr_min sr) i)) (\<lambda>a.
             bindE (first_offset (at (sr_max sr) i)) (\<lambda>b. Inr (mn @ [a], mx @ [b]))))
           [0..<sr_num_dims sr] (offset_min, offset_max)) (\<lambda>(mn, mx). Inr (True, mn, mx)))"

definition IsNeighborAccessDiagonalAccessed :: "stencil_range \<Rightarrow> bool" where
  "IsNeighborAccessDiagonalAccessed sr = (if \<not> IsNeighborAccess sr then False else sr_diagonal sr)"

definition IsZero :: "stencil_range \<Rightarrow> fault + bool" where
  "IsZero sr =
     (if at (sr_min sr) 0 = [] then Inr True
      else if \<not> IsNeighborAccess sr then Inr False
      else foldE (\<lambda>i z.
             if \<not> z then Inr False
             else bindE (first_offset (at (sr_min sr) i)) (\<lambda>a.
               if a \<noteq> 0 then Inr False
               else bindE (first_offset (at (sr_max sr) i)) (\<lambda>b. Inr (b = 0))))
           [0..<sr_num_dims sr] True)"

definition IsUniqueDim :: "stencil_range \<Rightarrow> bool" where
  "IsUniqueDim sr \<longleftrightarrow>
     list_all (\<lambda>i. length (at (sr_min sr) i) = 1 \<and> length (at (sr_max sr) i) = 1) [0..<sr_num_dims sr]"

definition INT_MAX :: int where "INT_MAX = 2 ^ 31 - 1"

definition GetMaxWidth :: "stencil_range \<Rightarrow> fault + int" where
  "GetMaxWidth sr =
     (let wd = fold (\<lambda>i wd.
            fold (\<lambda>si wd. max wd (si_offset si)) (at (sr_max sr) i)
              (fold (\<lambda>si wd. max wd (- si_offset si)) (at (sr_min sr) i) wd))
          [0..<sr_num_dims sr] (- 1)
      in bindE (assertE (wd < INT_MAX)) (\<lambda>_. Inr wd))"

definition print_indices :: "stencil_index_list \<Rightarrow> string" where
  "print_indices sil = sj_str (fold (\<lambda>si. sj_append (StencilIndex_ToString si)) sil (StringJoin '', ''))"

definition range_print :: "stencil_range \<Rightarrow> string" where
  "range_print sr =
     (let (bottom, top) = fold (\<lambda>i (bottom, top).
            (sj_append (print_indices (at (sr_min sr) i)) bottom,
             sj_append (print_indices (at (sr_max sr) i)) top))
          [0..<sr_num_dims sr] (StringJoin '', '', StringJoin '', '')
      in ''('' @ sj_str bottom @ '')->('' @ sj_str top @ '')'')"

text \<open>
  The structure that is written into the generated program. \<open>offsets\<close> has room for 42
  numbers, of which an entry of a list takes two; what is not written is indeterminate. The
  statements built from the structure are the result of \<open>build\<close>, which calls the compiler
  library.
\<close>

record ps_offsets =
  po_num :: nat
  po_offsets :: "int option list"

record ps_grid_range =
  pgr_num_dims :: nat
  pgr_min :: "ps_offsets option arr3"
  pgr_max :: "ps_offsets option arr3"

definition fill_offsets :: "stencil_index_list \<Rightarrow> fault + ps_offsets" where
  "fill_offsets ss =
     bindE (foldE (\<lambda>(j, si) os.
         if j * 2 + 1 < length os then Inr (os[j * 2 := Some (si_dim si), j * 2 + 1 := Some (si_offset si)])
         else Inl OutOfBounds)
       (enumerate 0 ss) (replicate ((PS_MAX_DIM * 2 + 1) * PS_MAX_DIM * 2) None)) (\<lambda>os.
     Inr \<lparr>po_num = length ss, po_offsets = os\<rparr>)"

definition range_structure :: "stencil_range \<Rightarrow> fault + ps_grid_range" where
  "range_structure sr =
     foldE (\<lambda>i gr.
         bindE (fill_offsets (at (sr_min sr) i)) (\<lambda>mn.
         bindE (fill_offsets (at (sr_max sr) i)) (\<lambda>mx.
           Inr (gr\<lparr>pgr_min := upd (pgr_min gr) i (Some mn), pgr_max := upd (pgr_max gr) i (Some mx)\<rparr>))))
       [0..<sr_num_dims sr]
       \<lparr>pgr_num_dims = sr_num_dims sr, pgr_min = arr_Set None, pgr_max = arr_Set None\<rparr>"

definition range_BuildPSGridRange ::
    "(string \<Rightarrow> 'scope \<Rightarrow> ps_grid_range \<Rightarrow> 'decl) \<Rightarrow> string \<Rightarrow> 'scope \<Rightarrow> stencil_range \<Rightarrow> fault + 'decl" where
  "range_BuildPSGridRange build name block sr =
     bindE (range_structure sr) (\<lambda>gr. Inr (build name block gr))"

subsection \<open>The best entries\<close>

text \<open>
  \<open>key\<close> turns both searches into one for the least: it is the identity for minima and the
  negation for maxima. \<open>best key xs ss\<close>: the list \<open>ss\<close> has one entry for each dimension of
  \<open>xs\<close>, in the order of first occurrence, and the entry is an element with the least key.
\<close>

definition dims_seen :: "stencil_index list \<Rightarrow> int list" where
  "dims_seen xs = fold (\<lambda>d ds. if d \<in> set ds then ds else ds @ [d]) (map si_dim xs) []"

definition best :: "(int \<Rightarrow> int) \<Rightarrow> stencil_index list \<Rightarrow> stencil_index list \<Rightarrow> bool" where
  "best key xs ss \<longleftrightarrow> map si_dim ss = dims_seen xs \<and> set ss \<subseteq> set xs \<and>
     (\<forall>x\<in>set xs. \<exists>s\<in>set ss. si_dim s = si_dim x \<and> key (si_offset s) \<le> key (si_offset x))"

lemma dims_seen_Nil [simp]: "dims_seen [] = []"
  by (simp add: dims_seen_def)

lemma dims_seen_snoc [simp]:
  "dims_seen (xs @ [x]) = (if si_dim x \<in> set (dims_seen xs) then dims_seen xs else dims_seen xs @ [si_dim x])"
  by (simp add: dims_seen_def)

lemma set_dims_seen [simp]: "set (dims_seen xs) = si_dim ` set xs"
  by (induction xs rule: rev_induct) auto

lemma distinct_dims_seen [simp]: "distinct (dims_seen xs)"
  by (induction xs rule: rev_induct) auto

lemma dims_seen_append: "dims_seen (xs @ ys) = dims_seen xs @ filter (\<lambda>d. d \<notin> si_dim ` set xs) (dims_seen ys)"
  by (induction ys rule: rev_induct) (auto simp flip: append_assoc)

fun ins :: "(int \<Rightarrow> int) \<Rightarrow> stencil_index \<Rightarrow> stencil_index list \<Rightarrow> stencil_index list" where
  "ins key si [] = [si]"
| "ins key si (cur # ss) =
     (if si_dim cur = si_dim si then (if key (si_offset si) < key (si_offset cur) then si else cur) # ss
      else cur # ins key si ss)"

lemma insert_bound_min: "insert_bound si_lt si ss = Inr (ins (\<lambda>x. x) si ss)"
  by (induction ss) (auto simp: si_lt_def)

lemma insert_bound_max: "insert_bound si_gt si ss = Inr (ins uminus si ss)"
  by (induction ss) (auto simp: si_gt_def)

lemma ins_dims: "map si_dim (ins key si ss) =
    (if si_dim si \<in> si_dim ` set ss then map si_dim ss else map si_dim ss @ [si_dim si])"
  by (induction ss) auto

lemma ins_set: "set (ins key si ss) \<subseteq> insert si (set ss)"
  by (induction ss) auto

lemma ins_new: "\<exists>s\<in>set (ins key si ss). si_dim s = si_dim si \<and> key (si_offset s) \<le> key (si_offset si)"
  by (induction ss) auto

lemma ins_old: "x \<in> set ss \<Longrightarrow> \<exists>s\<in>set (ins key si ss). si_dim s = si_dim x \<and> key (si_offset s) \<le> key (si_offset x)"
  by (induction ss) (auto intro: less_imp_le)

lemma best_ins:
  assumes "best key xs ss"
  shows "best key (xs @ [si]) (ins key si ss)"
proof -
  have d: "map si_dim ss = dims_seen xs" and s: "set ss \<subseteq> set xs"
    and l: "\<And>x. x \<in> set xs \<Longrightarrow> \<exists>s\<in>set ss. si_dim s = si_dim x \<and> key (si_offset s) \<le> key (si_offset x)"
    using assms by (auto simp: best_def)
  have "si_dim ` set ss = si_dim ` set xs" using d by (metis set_dims_seen set_map)
  then have "map si_dim (ins key si ss) = dims_seen (xs @ [si])" by (simp add: ins_dims d)
  moreover have "set (ins key si ss) \<subseteq> set (xs @ [si])" using ins_set s by fastforce
  moreover have "\<exists>s\<in>set (ins key si ss). si_dim s = si_dim x \<and> key (si_offset s) \<le> key (si_offset x)"
    if x: "x \<in> set (xs @ [si])" for x
  proof (cases "x = si")
    case True
    then show ?thesis using ins_new by simp
  next
    case False
    then obtain s' where "s' \<in> set ss" "si_dim s' = si_dim x" "key (si_offset s') \<le> key (si_offset x)"
      using x l by auto
    then show ?thesis using ins_old[of s' ss key si] by (metis order_trans)
  qed
  ultimately show ?thesis by (simp add: best_def)
qed

lemma best_Nil [simp]: "best key [] []"
  by (simp add: best_def)

lemma best_unique:
  assumes "best key xs ss" "best key xs ts" "inj key"
  shows "ss = ts"
proof (rule nth_equalityI)
  have d: "map si_dim ss = map si_dim ts" "distinct (map si_dim ss)" "distinct (map si_dim ts)"
    using assms by (simp_all add: best_def)
  show len: "length ss = length ts" using d(1) by (metis length_map)
  have le: "key (si_offset (us ! k)) \<le> key (si_offset (vs ! k))"
    if b: "best key xs us" "best key xs vs" and k: "k < length us" and uv: "map si_dim us = map si_dim vs"
    for us vs k
  proof -
    have kv: "k < length vs" "si_dim (vs ! k) = si_dim (us ! k)"
      using k uv by (metis length_map) (metis k uv length_map nth_map)
    have "vs ! k \<in> set xs" using b(2) kv(1) nth_mem by (auto simp: best_def)
    then obtain u where u: "u \<in> set us" "si_dim u = si_dim (vs ! k)" "key (si_offset u) \<le> key (si_offset (vs ! k))"
      using b(1) by (auto simp: best_def)
    have "inj_on si_dim (set us)" using b(1) by (simp add: best_def flip: distinct_map) (metis distinct_dims_seen distinct_map)
    then have "u = us ! k" using u(1,2) kv(2) k nth_mem by (metis inj_onD)
    then show ?thesis using u(3) by simp
  qed
  show "ss ! k = ts ! k" if k: "k < length ss" for k
  proof -
    have "key (si_offset (ss ! k)) = key (si_offset (ts ! k))"
      using le[OF assms(1,2) k d(1)] le[OF assms(2,1) _ d(1)[symmetric]] k len by (simp add: eq_iff)
    then have "si_offset (ss ! k) = si_offset (ts ! k)" using assms(3) by (simp add: inj_eq)
    moreover have "si_dim (ss ! k) = si_dim (ts ! k)" using d(1) k len by (metis nth_map)
    ultimately show ?thesis by (cases "ss ! k"; cases "ts ! k") simp
  qed
qed

text \<open>Entries that were best in one list may stand for that list in a longer one.\<close>

lemma best_append:
  assumes "best key (xs @ zs) ss" "dims_seen zs = dims_seen ys" "set zs \<subseteq> set ys"
    "\<And>y. y \<in> set ys \<Longrightarrow> \<exists>z\<in>set zs. si_dim z = si_dim y \<and> key (si_offset z) \<le> key (si_offset y)"
  shows "best key (xs @ ys) ss"
proof -
  have "map si_dim ss = dims_seen (xs @ ys)" using assms(1,2) by (simp add: best_def dims_seen_append)
  moreover have "set ss \<subseteq> set (xs @ ys)" using assms(1,3) by (auto simp: best_def)
  moreover have "\<exists>s\<in>set ss. si_dim s = si_dim x \<and> key (si_offset s) \<le> key (si_offset x)"
    if x: "x \<in> set (xs @ ys)" for x
  proof (cases "x \<in> set xs")
    case True
    then show ?thesis using assms(1) by (simp add: best_def)
  next
    case False
    then obtain z where "z \<in> set zs" "si_dim z = si_dim x" "key (si_offset z) \<le> key (si_offset x)"
      using x assms(4) by auto
    moreover have "\<exists>s\<in>set ss. si_dim s = si_dim z \<and> key (si_offset s) \<le> key (si_offset z)"
      using assms(1) \<open>z \<in> set zs\<close> by (simp add: best_def)
    ultimately show ?thesis by (metis order_trans)
  qed
  ultimately show ?thesis by (simp add: best_def)
qed

subsection \<open>What a range says of the accesses\<close>

definition column :: "nat \<Rightarrow> stencil_index_list list \<Rightarrow> stencil_index list" where
  "column i L = map (\<lambda>sil. sil ! i) L"

lemma column_simps [simp]: "column i [] = []" "column i (L @ L') = column i L @ column i L'"
  "column i [sil] = [sil ! i]" "set (column i L) = (\<lambda>sil. sil ! i) ` set L"
  by (simp_all add: column_def)

definition summarises :: "nat \<Rightarrow> stencil_index_list list \<Rightarrow> stencil_range \<Rightarrow> bool" where
  "summarises nd L sr \<longleftrightarrow> sr_num_dims sr = nd \<and> 1 \<le> nd \<and> nd \<le> 3 \<and>
     (\<forall>i<nd. best (\<lambda>x. x) (column i L) (at (sr_min sr) i) \<and> best uminus (column i L) (at (sr_max sr) i)) \<and>
     (\<forall>i<3. nd \<le> i \<longrightarrow> at (sr_min sr) i = [] \<and> at (sr_max sr) i = []) \<and>
     sr_diagonal sr = (\<exists>sil\<in>set L. 1 < length (filter (\<lambda>si. si_offset si \<noteq> 0) sil))"

lemma summarises_dims: "summarises nd L sr \<Longrightarrow> sr_num_dims sr = nd \<and> 1 \<le> nd \<and> nd \<le> 3"
  by (simp add: summarises_def)

lemma summarises_best: "summarises nd L sr \<Longrightarrow> i < nd \<Longrightarrow>
    best (\<lambda>x. x) (column i L) (at (sr_min sr) i) \<and> best uminus (column i L) (at (sr_max sr) i)"
  by (simp add: summarises_def)

lemma range_insert1_eq: "range_insert1 (Suc i) si sr = Inr (sr
    \<lparr>sr_min := upd (sr_min sr) i (ins (\<lambda>x. x) si (at (sr_min sr) i)),
     sr_max := upd (sr_max sr) i (ins uminus si (at (sr_max sr) i))\<rparr>)"
  by (simp add: range_insert1_def insert_bound_min insert_bound_max)

lemma insert_step_eq: "insert_step (i, si) (sr, c) = Inr (sr
    \<lparr>sr_min := upd (sr_min sr) i (ins (\<lambda>x. x) si (at (sr_min sr) i)),
     sr_max := upd (sr_max sr) i (ins uminus si (at (sr_max sr) i))\<rparr>,
     if si_offset si \<noteq> 0 then c + 1 else c)"
  unfolding insert_step_def by (simp add: range_insert1_eq)

lemma insert_loop:
  assumes "length sil \<le> 3"
  shows "\<exists>mn mx. foldE insert_step (enumerate 0 sil) (sr, 0) =
      Inr (sr\<lparr>sr_min := mn, sr_max := mx\<rparr>, length (filter (\<lambda>si. si_offset si \<noteq> 0) sil)) \<and>
    (\<forall>i<3. at mn i = (if i < length sil then ins (\<lambda>x. x) (sil ! i) (at (sr_min sr) i) else at (sr_min sr) i) \<and>
           at mx i = (if i < length sil then ins uminus (sil ! i) (at (sr_max sr) i) else at (sr_max sr) i))"
  using assms
proof (induction sil rule: rev_induct)
  case Nil
  have "sr = sr\<lparr>sr_min := sr_min sr, sr_max := sr_max sr\<rparr>" by simp
  then show ?case by (intro exI[of _ "sr_min sr"] exI[of _ "sr_max sr"]) simp
next
  case (snoc si sil)
  then obtain mn mx where IH: "foldE insert_step (enumerate 0 sil) (sr, 0) =
      Inr (sr\<lparr>sr_min := mn, sr_max := mx\<rparr>, length (filter (\<lambda>si. si_offset si \<noteq> 0) sil))"
    and at: "\<forall>i<3. at mn i = (if i < length sil then ins (\<lambda>x. x) (sil ! i) (at (sr_min sr) i) else at (sr_min sr) i) \<and>
           at mx i = (if i < length sil then ins uminus (sil ! i) (at (sr_max sr) i) else at (sr_max sr) i)"
    by auto
  let ?k = "length sil"
  have "?k < 3" using snoc.prems by simp
  show ?case
    by (rule exI[of _ "upd mn ?k (ins (\<lambda>x. x) si (at mn ?k))"], rule exI[of _ "upd mx ?k (ins uminus si (at mx ?k))"])
      (use \<open>?k < 3\<close> at in \<open>auto simp: enumerate_append_eq foldE_snoc insert_step_eq IH at_upd nth_append less_Suc_eq\<close>)
qed

lemma summarises_insert:
  assumes "summarises nd L sr" "length sil = nd"
  shows "\<exists>sr'. range_insert sil sr = Inr sr' \<and> summarises nd (L @ [sil]) sr' \<and> sr_all sr' = sr_all sr @ [sil]"
proof -
  have nd: "sr_num_dims sr = nd" "length sil \<le> 3" using assms by (auto simp: summarises_def)
  obtain mn mx where l: "foldE insert_step (enumerate 0 sil) (sr, 0) =
      Inr (sr\<lparr>sr_min := mn, sr_max := mx\<rparr>, length (filter (\<lambda>si. si_offset si \<noteq> 0) sil))"
    and at: "\<And>i. i < 3 \<Longrightarrow> at mn i = (if i < length sil then ins (\<lambda>x. x) (sil ! i) (at (sr_min sr) i) else at (sr_min sr) i)"
      "\<And>i. i < 3 \<Longrightarrow> at mx i = (if i < length sil then ins uminus (sil ! i) (at (sr_max sr) i) else at (sr_max sr) i)"
    using insert_loop[OF nd(2), of sr] by blast
  let ?sr = "sr\<lparr>sr_min := mn, sr_max := mx, sr_diagonal := (sr_diagonal sr \<or>
      1 < length (filter (\<lambda>si. si_offset si \<noteq> 0) sil)), sr_all := sr_all sr @ [sil]\<rparr>"
  have "range_insert sil sr = Inr ?sr" by (simp add: range_insert_def l nd assms(2))
  moreover have "summarises nd (L @ [sil]) ?sr"
    using assms nd at by (auto simp: summarises_def best_ins)
  ultimately show ?thesis by auto
qed

text \<open>The range of a list of accesses: what the translator collects for one grid of a kernel.\<close>

definition collect_range :: "nat \<Rightarrow> stencil_index_list list \<Rightarrow> fault + stencil_range" where
  "collect_range nd L = bindE (StencilRange (int nd)) (foldE range_insert L)"

lemma collect_summarises:
  assumes "1 \<le> nd" "nd \<le> 3" "\<And>sil. sil \<in> set L \<Longrightarrow> length sil = nd"
  shows "\<exists>sr. collect_range nd L = Inr sr \<and> summarises nd L sr \<and> sr_all sr = L"
  using assms(3)
proof (induction L rule: rev_induct)
  case Nil
  then show ?case using assms(1,2)
    by (simp add: collect_range_def StencilRange_def PS_MAX_DIM_def summarises_def)
next
  case (snoc sil L)
  then obtain sr where sr: "collect_range nd L = Inr sr" "summarises nd L sr" "sr_all sr = L" by auto
  then obtain sr' where sr': "range_insert sil sr = Inr sr'" "summarises nd (L @ [sil]) sr'" "sr_all sr' = L @ [sil]"
    using summarises_insert[OF sr(2), of sil] snoc.prems by auto
  have "collect_range nd (L @ [sil]) = bindE (collect_range nd L) (range_insert sil)"
    by (cases "StencilRange (int nd)") (simp_all add: collect_range_def foldE_snoc)
  then show ?case using sr(1) sr' by simp
qed

lemma summarises_unique:
  assumes "summarises nd L sr" "summarises nd L sr'"
  shows "sr' = sr\<lparr>sr_all := sr_all sr'\<rparr>"
proof -
  have "at (sr_min sr') i = at (sr_min sr) i \<and> at (sr_max sr') i = at (sr_max sr) i" if i: "i < 3" for i
  proof (cases "i < nd")
    case True
    then show ?thesis
      using best_unique[of "\<lambda>x. x" "column i L"] best_unique[of uminus "column i L"]
        summarises_best[OF assms(1) True] summarises_best[OF assms(2) True] by auto
  next
    case False
    then show ?thesis using assms i by (simp add: summarises_def)
  qed
  then have "sr_min sr' = sr_min sr" "sr_max sr' = sr_max sr" by (auto intro: arr3_eqI)
  moreover have "sr_num_dims sr' = sr_num_dims sr" "sr_diagonal sr' = sr_diagonal sr"
    using assms by (simp_all add: summarises_def)
  ultimately show ?thesis by (cases sr; cases sr') simp
qed

subsection \<open>Neighbour accesses\<close>

lemma dims_seen_const_iff:
  "dims_seen xs = [d] \<longleftrightarrow> xs \<noteq> [] \<and> (\<forall>x\<in>set xs. si_dim x = d)"
proof
  assume "dims_seen xs = [d]"
  then have "si_dim ` set xs = {d}" by (metis set_dims_seen list.set(1,2))
  then show "xs \<noteq> [] \<and> (\<forall>x\<in>set xs. si_dim x = d)" by auto
next
  assume a: "xs \<noteq> [] \<and> (\<forall>x\<in>set xs. si_dim x = d)"
  then have d: "set (dims_seen xs) = {d}" by (cases xs) auto
  then have "length (dims_seen xs) = 1" using distinct_card[OF distinct_dims_seen[of xs]] by simp
  then obtain y where y: "dims_seen xs = [y]" by (auto simp: length_Suc_conv)
  show "dims_seen xs = [d]" using d unfolding y by simp
qed

lemma regular_iff: "StencilIndexRegularOrder sil nd \<longleftrightarrow>
    length sil = nd \<and> (\<forall>i<nd. si_dim (sil ! i) = int i + 1)"
proof -
  have "list_all (\<lambda>(i, si). si_dim si = int (i + 1)) (enumerate 0 sil) \<longleftrightarrow>
      (\<forall>i<length sil. si_dim (sil ! i) = int (i + 1))"
    by (simp add: list_all_length nth_enumerate_eq)
  then show ?thesis by (auto simp: StencilIndexRegularOrder_def add.commute)
qed

text \<open>A list with one entry of dimension \<open>d\<close> is the list of an extreme offset.\<close>

lemma best_single:
  assumes "best key xs ss" "xs \<noteq> []" "\<And>x. x \<in> set xs \<Longrightarrow> si_dim x = d"
  shows "\<exists>s. ss = [s] \<and> si_dim s = d \<and> s \<in> set xs \<and> (\<forall>x\<in>set xs. key (si_offset s) \<le> key (si_offset x))"
proof -
  have "map si_dim ss = [d]" using assms by (simp add: best_def dims_seen_const_iff)
  then obtain s where s: "ss = [s]" "si_dim s = d" by (cases ss) auto
  then show ?thesis using assms(1) by (auto simp: best_def)
qed

definition offsets_at :: "nat \<Rightarrow> stencil_index_list list \<Rightarrow> int set" where
  "offsets_at i L = (\<lambda>sil. si_offset (sil ! i)) ` set L"

lemma summarises_regular:
  assumes "summarises nd L sr" "L \<noteq> []" "\<And>sil. sil \<in> set L \<Longrightarrow> StencilIndexRegularOrder sil nd" "i < nd"
  shows "\<exists>a. at (sr_min sr) i = [a] \<and> si_dim a = int i + 1 \<and> si_offset a = Min (offsets_at i L)"
    and "\<exists>b. at (sr_max sr) i = [b] \<and> si_dim b = int i + 1 \<and> si_offset b = Max (offsets_at i L)"
proof -
  have c: "column i L \<noteq> []" "\<And>x. x \<in> set (column i L) \<Longrightarrow> si_dim x = int i + 1"
    using assms(2-4) by (auto simp: column_def regular_iff)
  have o: "si_offset ` set (column i L) = offsets_at i L" by (simp add: offsets_at_def image_image)
  obtain a where a: "at (sr_min sr) i = [a]" "si_dim a = int i + 1" "a \<in> set (column i L)"
      "\<And>x. x \<in> set (column i L) \<Longrightarrow> si_offset a \<le> si_offset x"
    using best_single[OF conjunct1[OF summarises_best[OF assms(1,4)]] c] by auto
  have "Min (offsets_at i L) = si_offset a" unfolding o[symmetric] by (rule Min_eqI) (use a in auto)
  then show "\<exists>a. at (sr_min sr) i = [a] \<and> si_dim a = int i + 1 \<and> si_offset a = Min (offsets_at i L)"
    using a by auto
  obtain b where b: "at (sr_max sr) i = [b]" "si_dim b = int i + 1" "b \<in> set (column i L)"
      "\<And>x. x \<in> set (column i L) \<Longrightarrow> si_offset x \<le> si_offset b"
    using best_single[OF conjunct2[OF summarises_best[OF assms(1,4)]] c] by auto
  have "Max (offsets_at i L) = si_offset b" unfolding o[symmetric] by (rule Max_eqI) (use b in auto)
  then show "\<exists>b. at (sr_max sr) i = [b] \<and> si_dim b = int i + 1 \<and> si_offset b = Max (offsets_at i L)"
    using b by auto
qed

lemma IsNeighborAccess_iff: "IsNeighborAccess sr \<longleftrightarrow> (\<forall>i<sr_num_dims sr. map si_dim (at (sr_min sr) i) = [int i + 1])"
proof -
  have key: "length xs = 1 \<and> si_dim (hd xs) = int (i + 1) \<longleftrightarrow> map si_dim xs = [int i + 1]" for xs i
    by (cases xs) auto
  show ?thesis unfolding IsNeighborAccess_def list_all_iff set_upt key by auto
qed

lemma summarises_neighbor:
  assumes "summarises nd L sr" "\<And>sil. sil \<in> set L \<Longrightarrow> length sil = nd"
  shows "IsNeighborAccess sr \<longleftrightarrow> L \<noteq> [] \<and> (\<forall>sil\<in>set L. StencilIndexRegularOrder sil nd)"
proof -
  have "IsNeighborAccess sr \<longleftrightarrow> (\<forall>i<nd. dims_seen (column i L) = [int i + 1])"
    using summarises_best[OF assms(1)] summarises_dims[OF assms(1)] by (simp add: IsNeighborAccess_iff best_def)
  also have "\<dots> \<longleftrightarrow> (\<forall>i<nd. L \<noteq> [] \<and> (\<forall>sil\<in>set L. si_dim (sil ! i) = int i + 1))"
    by (auto simp: dims_seen_const_iff column_def)
  also have "\<dots> \<longleftrightarrow> L \<noteq> [] \<and> (\<forall>sil\<in>set L. StencilIndexRegularOrder sil nd)"
  proof -
    have "0 < nd" using summarises_dims[OF assms(1)] by simp
    then show ?thesis using assms(2) by (auto simp: regular_iff)
  qed
  finally show ?thesis .
qed

lemma GetNeighborAccess_loop:
  assumes "\<And>i. i < k \<Longrightarrow> (\<exists>a. at (sr_min sr) i = [a] \<and> si_offset a = lo i) \<and> (\<exists>b. at (sr_max sr) i = [b] \<and> si_offset b = hi i)"
  shows "foldE (\<lambda>i (mn, mx).
             bindE (first_offset (at (sr_min sr) i)) (\<lambda>a.
             bindE (first_offset (at (sr_max sr) i)) (\<lambda>b. Inr (mn @ [a], mx @ [b]))))
           [0..<k] (xs, ys) = Inr (xs @ map lo [0..<k], ys @ map hi [0..<k])"
  using assms
proof (induction k)
  case 0
  then show ?case by simp
next
  case (Suc k)
  have "\<exists>a. at (sr_min sr) k = [a] \<and> si_offset a = lo k" "\<exists>b. at (sr_max sr) k = [b] \<and> si_offset b = hi k"
    using Suc.prems by auto
  then obtain a b where ab: "at (sr_min sr) k = [a]" "si_offset a = lo k"
      "at (sr_max sr) k = [b]" "si_offset b = hi k" by blast
  then show ?case using Suc.IH Suc.prems by (simp add: foldE_snoc first_offset_def)
qed

lemma IsZero_loop:
  assumes "\<And>i. i < k \<Longrightarrow> (\<exists>a. at (sr_min sr) i = [a] \<and> si_offset a = lo i) \<and> (\<exists>b. at (sr_max sr) i = [b] \<and> si_offset b = hi i)"
  shows "foldE (\<lambda>i z.
             if \<not> z then Inr False
             else bindE (first_offset (at (sr_min sr) i)) (\<lambda>a.
               if a \<noteq> 0 then Inr False
               else bindE (first_offset (at (sr_max sr) i)) (\<lambda>b. Inr (b = 0))))
           [0..<k] True = Inr (\<forall>i<k. lo i = 0 \<and> hi i = 0)"
  using assms
proof (induction k)
  case 0
  then show ?case by simp
next
  case (Suc k)
  have "\<exists>a. at (sr_min sr) k = [a] \<and> si_offset a = lo k" "\<exists>b. at (sr_max sr) k = [b] \<and> si_offset b = hi k"
    using Suc.prems by auto
  then obtain a b where ab: "at (sr_min sr) k = [a]" "si_offset a = lo k"
      "at (sr_max sr) k = [b]" "si_offset b = hi k" by blast
  then show ?case using Suc.IH Suc.prems by (auto simp: foldE_snoc first_offset_def less_Suc_eq)
qed

lemma offsets_zero:
  assumes "L \<noteq> []"
  shows "Min (offsets_at i L) = 0 \<and> Max (offsets_at i L) = 0 \<longleftrightarrow> (\<forall>sil\<in>set L. si_offset (sil ! i) = 0)"
proof -
  have f: "finite (offsets_at i L)" "offsets_at i L \<noteq> {}" using assms by (simp_all add: offsets_at_def)
  have "Min (offsets_at i L) = 0 \<and> Max (offsets_at i L) = 0 \<longleftrightarrow> (\<forall>x\<in>offsets_at i L. x = 0)"
    using f Min_in Max_in by (metis Min_le Max_ge antisym)
  then show ?thesis by (simp add: offsets_at_def)
qed

text \<open>C23: the range of the accesses of a kernel, each with one constant offset from the running
  index of every dimension. The range is recognised as a neighbour access; it gives exactly
  the least and the greatest offset of each dimension; it is diagonal if one access leaves
  the centre in more than one dimension; and it is zero if no access leaves the centre.
\<close>

theorem neighbor_range_exact:
  assumes "1 \<le> nd" "nd \<le> 3" "L \<noteq> []" "\<And>sil. sil \<in> set L \<Longrightarrow> StencilIndexRegularOrder sil nd"
  shows "\<exists>sr. collect_range nd L = Inr sr \<and>
    GetNeighborAccess [] [] sr = Inr (True, map (\<lambda>i. Min (offsets_at i L)) [0..<nd],
                                            map (\<lambda>i. Max (offsets_at i L)) [0..<nd]) \<and>
    IsNeighborAccessDiagonalAccessed sr =
      (\<exists>sil\<in>set L. 1 < length (filter (\<lambda>si. si_offset si \<noteq> 0) sil)) \<and>
    IsZero sr = Inr (\<forall>sil\<in>set L. \<forall>i<nd. si_offset (sil ! i) = 0)"
proof -
  have len: "\<And>sil. sil \<in> set L \<Longrightarrow> length sil = nd" using assms(4) by (simp add: regular_iff)
  obtain sr where sr: "collect_range nd L = Inr sr" "summarises nd L sr"
    using collect_summarises[OF assms(1,2) len] by blast
  note nd = summarises_dims[OF sr(2)]
  have nb: "IsNeighborAccess sr" using summarises_neighbor[OF sr(2) len] assms(3,4) by blast
  have ends: "(\<exists>a. at (sr_min sr) i = [a] \<and> si_offset a = Min (offsets_at i L)) \<and>
      (\<exists>b. at (sr_max sr) i = [b] \<and> si_offset b = Max (offsets_at i L))" if "i < nd" for i
    using summarises_regular[OF sr(2) assms(3,4) that] by blast
  have "GetNeighborAccess [] [] sr = Inr (True, map (\<lambda>i. Min (offsets_at i L)) [0..<nd],
                                            map (\<lambda>i. Max (offsets_at i L)) [0..<nd])"
    using GetNeighborAccess_loop[of nd sr, OF ends] nb nd by (simp add: GetNeighborAccess_def)
  moreover have "IsNeighborAccessDiagonalAccessed sr =
      (\<exists>sil\<in>set L. 1 < length (filter (\<lambda>si. si_offset si \<noteq> 0) sil))"
    using nb sr(2) by (simp add: IsNeighborAccessDiagonalAccessed_def summarises_def)
  moreover have "IsZero sr = Inr (\<forall>i<nd. Min (offsets_at i L) = 0 \<and> Max (offsets_at i L) = 0)"
    using IsZero_loop[of nd sr, OF ends] nb nd ends[of 0] by (auto simp: IsZero_def)
  ultimately show ?thesis using sr(1) offsets_zero[OF assms(3)] by auto
qed

theorem neighbor_range_exact_witness:
  "\<exists>sr. collect_range 2 [[StencilIndex 1 0, StencilIndex 2 (- 1)], [StencilIndex 1 2, StencilIndex 2 0]] = Inr sr \<and>
     GetNeighborAccess [] [] sr = Inr (True, [0, -1], [2, 0]) \<and> \<not> IsNeighborAccessDiagonalAccessed sr \<and>
     IsZero sr = Inr False"
proof -
  let ?L = "[[StencilIndex 1 0, StencilIndex 2 (- 1)], [StencilIndex 1 2, StencilIndex 2 0]]"
  have "StencilIndexRegularOrder sil 2" if "sil \<in> set ?L" for sil
    using that by (auto simp: StencilIndexRegularOrder_def StencilIndex_def)
  then obtain sr where sr: "collect_range 2 ?L = Inr sr"
    "GetNeighborAccess [] [] sr = Inr (True, map (\<lambda>i. Min (offsets_at i ?L)) [0..<2],
                                            map (\<lambda>i. Max (offsets_at i ?L)) [0..<2])"
    "IsNeighborAccessDiagonalAccessed sr = (\<exists>sil\<in>set ?L. 1 < length (filter (\<lambda>si. si_offset si \<noteq> 0) sil))"
    "IsZero sr = Inr (\<forall>sil\<in>set ?L. \<forall>i<2. si_offset (sil ! i) = 0)"
    using neighbor_range_exact[of 2 ?L] by auto
  have "[0..<2] = [0, 1::nat]" by (simp add: upt_rec)
  then show ?thesis using sr by (auto simp: offsets_at_def StencilIndex_def all_less_num)
qed

text \<open>the note in \<open>IsNeighborAccess\<close> that it is enough to look at the minima. Whatever the
  accesses, the minima and the maxima have the same dimensions in the same order, and the
  test holds exactly when every access is in regular order.
\<close>

theorem neighbor_test_minima_enough:
  assumes "1 \<le> nd" "nd \<le> 3" "\<And>sil. sil \<in> set L \<Longrightarrow> length sil = nd"
  shows "\<exists>sr. collect_range nd L = Inr sr \<and>
    (\<forall>i<nd. map si_dim (at (sr_min sr) i) = map si_dim (at (sr_max sr) i)) \<and>
    IsNeighborAccess sr = (L \<noteq> [] \<and> (\<forall>sil\<in>set L. StencilIndexRegularOrder sil nd))"
proof -
  obtain sr where sr: "collect_range nd L = Inr sr" "summarises nd L sr"
    using collect_summarises[OF assms] by blast
  have "map si_dim (at (sr_min sr) i) = map si_dim (at (sr_max sr) i)" if "i < nd" for i
    using summarises_best[OF sr(2) that] by (simp add: best_def)
  then show ?thesis using sr(1) summarises_neighbor[OF sr(2) assms(3)] by blast
qed

theorem neighbor_test_minima_enough_witness:
  "\<exists>sr. collect_range 1 [[StencilIndex 1 0], [StencilIndex 2 0]] = Inr sr \<and> \<not> IsNeighborAccess sr"
proof -
  have "\<And>sil. sil \<in> set [[StencilIndex 1 0], [StencilIndex 2 0]] \<Longrightarrow> length sil = 1" by auto
  then show ?thesis
    using neighbor_test_minima_enough[of 1 "[[StencilIndex 1 0], [StencilIndex 2 0]]"]
    by (auto simp: regular_iff StencilIndex_def)
qed

subsection \<open>Merging\<close>

lemma insert1_loop:
  assumes "best (\<lambda>x. x) xs (at (sr_min sr) i)" "best uminus xs (at (sr_max sr) i)" "i < 3"
  shows "\<exists>mn mx. foldE (range_insert1 (i + 1)) zs sr = Inr (sr\<lparr>sr_min := mn, sr_max := mx\<rparr>) \<and>
    best (\<lambda>x. x) (xs @ zs) (at mn i) \<and> best uminus (xs @ zs) (at mx i) \<and>
    (\<forall>j<3. j \<noteq> i \<longrightarrow> at mn j = at (sr_min sr) j \<and> at mx j = at (sr_max sr) j)"
proof (induction zs rule: rev_induct)
  case Nil
  show ?case by (rule exI[of _ "sr_min sr"], rule exI[of _ "sr_max sr"]) (use assms in simp)
next
  case (snoc z zs)
  then obtain mn mx where IH: "foldE (range_insert1 (i + 1)) zs sr = Inr (sr\<lparr>sr_min := mn, sr_max := mx\<rparr>)"
    "best (\<lambda>x. x) (xs @ zs) (at mn i)" "best uminus (xs @ zs) (at mx i)"
    "\<forall>j<3. j \<noteq> i \<longrightarrow> at mn j = at (sr_min sr) j \<and> at mx j = at (sr_max sr) j" by blast
  show ?case
    by (rule exI[of _ "upd mn i (ins (\<lambda>x. x) z (at mn i))"], rule exI[of _ "upd mx i (ins uminus z (at mx i))"])
      (unfold foldE_snoc IH(1) bindE_Inr,
       use IH(2-) best_ins[OF IH(2), of z] best_ins[OF IH(3), of z] assms(3) in \<open>simp add: range_insert1_eq at_upd\<close>)
qed

lemma best_stands:
  assumes "best (\<lambda>x. x) xs mn" "best uminus xs mx"
  shows "dims_seen (mn @ mx) = dims_seen xs" "set (mn @ mx) \<subseteq> set xs"
proof -
  have d: "map si_dim mn = dims_seen xs" "map si_dim mx = dims_seen xs" using assms by (simp_all add: best_def)
  have same: "dims_seen ys = map si_dim ys" if "distinct (map si_dim ys)" for ys
    using that by (induction ys rule: rev_induct) auto
  have "dims_seen mn = dims_seen xs" "dims_seen mx = dims_seen xs"
    using same[of mn] same[of mx] d by simp_all
  moreover have "si_dim ` set mn = si_dim ` set xs" using d(1) by (metis set_dims_seen set_map)
  ultimately show "dims_seen (mn @ mx) = dims_seen xs" by (simp add: dims_seen_append filter_empty_conv)
  show "set (mn @ mx) \<subseteq> set xs" using assms by (auto simp: best_def)
qed

lemma merge_column:
  assumes "best (\<lambda>x. x) xs (at (sr_min sr) i)" "best uminus xs (at (sr_max sr) i)" "i < 3"
    "best (\<lambda>x. x) ys mn" "best uminus ys mx"
  shows "\<exists>mn' mx'. bindE (foldE (range_insert1 (i + 1)) mn sr) (foldE (range_insert1 (i + 1)) mx) =
      Inr (sr\<lparr>sr_min := mn', sr_max := mx'\<rparr>) \<and>
    best (\<lambda>x. x) (xs @ ys) (at mn' i) \<and> best uminus (xs @ ys) (at mx' i) \<and>
    (\<forall>j<3. j \<noteq> i \<longrightarrow> at mn' j = at (sr_min sr) j \<and> at mx' j = at (sr_max sr) j)"
proof -
  obtain mn' mx' where l: "foldE (range_insert1 (i + 1)) (mn @ mx) sr = Inr (sr\<lparr>sr_min := mn', sr_max := mx'\<rparr>)"
    "best (\<lambda>x. x) (xs @ mn @ mx) (at mn' i)" "best uminus (xs @ mn @ mx) (at mx' i)"
    "\<forall>j<3. j \<noteq> i \<longrightarrow> at mn' j = at (sr_min sr) j \<and> at mx' j = at (sr_max sr) j"
    using insert1_loop[OF assms(1-3)] by blast
  note st = best_stands[OF assms(4,5)]
  have "best (\<lambda>x. x) (xs @ ys) (at mn' i)"
    by (rule best_append[OF l(2) st]) (use assms(4) in \<open>auto simp: best_def\<close>)
  moreover have "best uminus (xs @ ys) (at mx' i)"
    by (rule best_append[OF l(3) st]) (use assms(5) in \<open>auto simp: best_def\<close>)
  ultimately show ?thesis using l(1,4) by (auto simp: foldE_append)
qed

lemma merge_loop:
  assumes "summarises nd L1 sr1" "summarises nd L2 sr2" "k \<le> nd"
  shows "\<exists>mn mx. foldE (\<lambda>i self.
          bindE (foldE (range_insert1 (i + 1)) (at (sr_min sr2) i) self) (\<lambda>self.
            foldE (range_insert1 (i + 1)) (at (sr_max sr2) i) self)) [0..<k] sr1 =
      Inr (sr1\<lparr>sr_min := mn, sr_max := mx\<rparr>) \<and>
    (\<forall>i<3. if i < k then best (\<lambda>x. x) (column i (L1 @ L2)) (at mn i) \<and> best uminus (column i (L1 @ L2)) (at mx i)
           else at mn i = at (sr_min sr1) i \<and> at mx i = at (sr_max sr1) i)"
  using assms(3)
proof (induction k)
  case 0
  show ?case by (rule exI[of _ "sr_min sr1"], rule exI[of _ "sr_max sr1"]) simp
next
  case (Suc k)
  then obtain mn mx where IH: "foldE (\<lambda>i self.
          bindE (foldE (range_insert1 (i + 1)) (at (sr_min sr2) i) self) (\<lambda>self.
            foldE (range_insert1 (i + 1)) (at (sr_max sr2) i) self)) [0..<k] sr1 =
      Inr (sr1\<lparr>sr_min := mn, sr_max := mx\<rparr>)"
    "\<forall>i<3. if i < k then best (\<lambda>x. x) (column i (L1 @ L2)) (at mn i) \<and> best uminus (column i (L1 @ L2)) (at mx i)
           else at mn i = at (sr_min sr1) i \<and> at mx i = at (sr_max sr1) i" by fastforce
  let ?sr = "sr1\<lparr>sr_min := mn, sr_max := mx\<rparr>"
  have k: "k < nd" "k < 3" using Suc.prems summarises_dims[OF assms(1)] by auto
  have "at mn k = at (sr_min sr1) k" "at mx k = at (sr_max sr1) k" using IH(2) k by auto
  then have b: "best (\<lambda>x. x) (column k L1) (at (sr_min ?sr) k)" "best uminus (column k L1) (at (sr_max ?sr) k)"
    using summarises_best[OF assms(1) k(1)] by simp_all
  obtain mn' mx' where m: "bindE (foldE (range_insert1 (k + 1)) (at (sr_min sr2) k) ?sr)
        (foldE (range_insert1 (k + 1)) (at (sr_max sr2) k)) = Inr (?sr\<lparr>sr_min := mn', sr_max := mx'\<rparr>)"
    "best (\<lambda>x. x) (column k L1 @ column k L2) (at mn' k)" "best uminus (column k L1 @ column k L2) (at mx' k)"
    "\<forall>j<3. j \<noteq> k \<longrightarrow> at mn' j = at (sr_min ?sr) j \<and> at mx' j = at (sr_max ?sr) j"
    using merge_column[OF b k(2) conjunct1[OF summarises_best[OF assms(2) k(1)]]
        conjunct2[OF summarises_best[OF assms(2) k(1)]]] by blast
  show ?case
    by (rule exI[of _ mn'], rule exI[of _ mx'])
      (use IH m in \<open>auto simp: foldE_snoc less_Suc_eq\<close>)
qed

text \<open>merging the range of one list of accesses into the range of another gives the range of
  both lists together, but for the record of all accesses, which keeps only its own.
\<close>

theorem merge_is_union:
  assumes "1 \<le> nd" "nd \<le> 3" "\<And>sil. sil \<in> set (L1 @ L2) \<Longrightarrow> length sil = nd"
  shows "\<exists>sr1 sr2 sr. collect_range nd L1 = Inr sr1 \<and> collect_range nd L2 = Inr sr2 \<and>
    collect_range nd (L1 @ L2) = Inr sr \<and> range_merge sr2 sr1 = Inr (sr\<lparr>sr_all := L1\<rparr>)"
proof -
  obtain sr1 where 1: "collect_range nd L1 = Inr sr1" "summarises nd L1 sr1" "sr_all sr1 = L1"
    using collect_summarises[OF assms(1,2), of L1] assms(3) by auto
  obtain sr2 where 2: "collect_range nd L2 = Inr sr2" "summarises nd L2 sr2"
    using collect_summarises[OF assms(1,2), of L2] assms(3) by auto
  obtain sr where 3: "collect_range nd (L1 @ L2) = Inr sr" "summarises nd (L1 @ L2) sr"
    using collect_summarises[OF assms] by blast
  obtain mn mx where l: "foldE (\<lambda>i self.
          bindE (foldE (range_insert1 (i + 1)) (at (sr_min sr2) i) self) (\<lambda>self.
            foldE (range_insert1 (i + 1)) (at (sr_max sr2) i) self)) [0..<nd] sr1 =
      Inr (sr1\<lparr>sr_min := mn, sr_max := mx\<rparr>)"
    "\<forall>i<3. if i < nd then best (\<lambda>x. x) (column i (L1 @ L2)) (at mn i) \<and> best uminus (column i (L1 @ L2)) (at mx i)
           else at mn i = at (sr_min sr1) i \<and> at mx i = at (sr_max sr1) i"
    using merge_loop[OF 1(2) 2(2) order_refl] by blast
  let ?m = "sr1\<lparr>sr_min := mn, sr_max := mx, sr_diagonal := (sr_diagonal sr1 \<or> sr_diagonal sr2)\<rparr>"
  have m: "range_merge sr2 sr1 = Inr ?m"
    using summarises_dims[OF 1(2)] summarises_dims[OF 2(2)] l(1) by (simp add: range_merge_def)
  have "sr_diagonal ?m = (\<exists>sil\<in>set (L1 @ L2). 1 < length (filter (\<lambda>si. si_offset si \<noteq> 0) sil))"
    using 1(2) 2(2) by (simp add: summarises_def bex_Un)
  moreover have "at (sr_min ?m) i = [] \<and> at (sr_max ?m) i = []" if "i < 3" "nd \<le> i" for i
    using 1(2) l(2) that by (simp add: summarises_def)
  moreover have "best (\<lambda>x. x) (column i (L1 @ L2)) (at (sr_min ?m) i) \<and> best uminus (column i (L1 @ L2)) (at (sr_max ?m) i)"
    if i: "i < nd" for i
  proof -
    have "i < 3" using i assms(2) by simp
    then show ?thesis using l(2) i by (simp del: column_simps)
  qed
  ultimately have "summarises nd (L1 @ L2) ?m"
    using summarises_dims[OF 1(2)] unfolding summarises_def by simp
  note eq = summarises_unique[OF 3(2) this]
  have all: "sr_all ?m = L1" using 1(3) by simp
  have "?m = sr\<lparr>sr_all := L1\<rparr>" using eq unfolding all .
  with m have "range_merge sr2 sr1 = Inr (sr\<lparr>sr_all := L1\<rparr>)" by (simp only:)
  with 1(1) 2(1) 3(1) show ?thesis
    by (intro exI[of _ sr1] exI[of _ sr2] exI[of _ sr] conjI)
qed

theorem merge_is_union_witness:
  "\<exists>sr1 sr2 sr. collect_range 1 [[StencilIndex 1 (- 1)]] = Inr sr1 \<and> collect_range 1 [[StencilIndex 1 2]] = Inr sr2 \<and>
    collect_range 1 [[StencilIndex 1 (- 1)], [StencilIndex 1 2]] = Inr sr \<and>
    range_merge sr2 sr1 = Inr (sr\<lparr>sr_all := [[StencilIndex 1 (- 1)]]\<rparr>)"
proof -
  have "length sil = 1" if "sil \<in> set ([[StencilIndex 1 (- 1)]] @ [[StencilIndex 1 2]])" for sil
    using that by auto
  from merge_is_union[of 1 "[[StencilIndex 1 (- 1)]]" "[[StencilIndex 1 2]]", OF _ _ this]
  show ?thesis by simp
qed

subsection \<open>Widths\<close>

text \<open>\<open>GetMaxWidth\<close> of the range of neighbour accesses is the largest distance of an access
  from the centre, or a failed assertion when it is not a positive \<open>int\<close>.
\<close>

theorem max_width_exact:
  assumes "1 \<le> nd" "nd \<le> 3" "L \<noteq> []" "\<And>sil. sil \<in> set L \<Longrightarrow> StencilIndexRegularOrder sil nd"
  shows "\<exists>sr w. collect_range nd L = Inr sr \<and>
    w = Max (\<Union>sil\<in>set L. (\<lambda>si. \<bar>si_offset si\<bar>) ` set sil) \<and>
    GetMaxWidth sr = (if w < INT_MAX then Inr w else Inl AssertFailed)"
proof -
  have len: "\<And>sil. sil \<in> set L \<Longrightarrow> length sil = nd" using assms(4) by (simp add: regular_iff)
  obtain sr where sr: "collect_range nd L = Inr sr" "summarises nd L sr"
    using collect_summarises[OF assms(1,2) len] by blast
  let ?A = "\<Union>sil\<in>set L. (\<lambda>si. \<bar>si_offset si\<bar>) ` set sil"
  let ?wd = "\<lambda>k. fold (\<lambda>i wd. fold (\<lambda>si wd. max wd (si_offset si)) (at (sr_max sr) i)
              (fold (\<lambda>si wd. max wd (- si_offset si)) (at (sr_min sr) i) wd)) [0..<k] (- 1)"
  have wd: "(\<forall>i<k. \<forall>sil\<in>set L. \<bar>si_offset (sil ! i)\<bar> \<le> ?wd k) \<and> (?wd k = - 1 \<and> k = 0 \<or> (0 < k \<and> ?wd k \<in> ?A))"
    if "k \<le> nd" for k
    using that
  proof (induction k)
    case 0
    then show ?case by simp
  next
    case (Suc k)
    then have k: "k < nd" by simp
    obtain a where a: "at (sr_min sr) k = [a]" "si_offset a = Min (offsets_at k L)"
      using summarises_regular(1)[OF sr(2) assms(3,4) k] by blast
    obtain b where b: "at (sr_max sr) k = [b]" "si_offset b = Max (offsets_at k L)"
      using summarises_regular(2)[OF sr(2) assms(3,4) k] by blast
    have f: "finite (offsets_at k L)" "offsets_at k L \<noteq> {}" using assms(3) by (simp_all add: offsets_at_def)
    let ?m = "max (- si_offset a) (si_offset b)"
    have step: "?wd (Suc k) = max (?wd k) ?m" using a b by (simp add: max.assoc)
    have "\<bar>x\<bar> \<le> ?m" if "x \<in> offsets_at k L" for x
      using Min_le[OF f(1) that] Max_ge[OF f(1) that] a(2) b(2) by linarith
    then have bound: "\<bar>si_offset (sil ! k)\<bar> \<le> ?m" if "sil \<in> set L" for sil
      using that by (simp add: offsets_at_def)
    have abs: "\<bar>x\<bar> \<in> ?A" if x: "x \<in> offsets_at k L" for x
    proof -
      obtain sil where sil: "sil \<in> set L" "x = si_offset (sil ! k)" using x by (auto simp: offsets_at_def)
      then have "sil ! k \<in> set sil" using len k by simp
      then show ?thesis using sil by blast
    qed
    have "\<bar>si_offset a\<bar> \<in> ?A" "\<bar>si_offset b\<bar> \<in> ?A" "si_offset a \<le> si_offset b"
      using abs Min_in[OF f] Max_in[OF f] a(2) b(2) Min_le[OF f(1) Max_in[OF f]] by auto
    then have m: "?m \<in> ?A" "0 \<le> ?m" by (cases "- si_offset a \<le> si_offset b"; simp add: max_def abs_if split: if_splits)+
    have "?wd (Suc k) \<in> ?A" using Suc m unfolding step by (auto simp: max_def)
    moreover have "\<bar>si_offset (sil ! i)\<bar> \<le> ?wd (Suc k)" if "i < Suc k" "sil \<in> set L" for i sil
      unfolding step using that Suc bound by (auto simp: less_Suc_eq le_max_iff_disj)
    ultimately show ?case by blast
  qed
  have n: "0 < nd" using assms(1) by simp
  have M: "Max ?A = ?wd nd"
  proof (rule Max_eqI)
    show "x \<le> ?wd nd" if x: "x \<in> ?A" for x
    proof -
      obtain sil si where sil: "sil \<in> set L" "si \<in> set sil" "x = \<bar>si_offset si\<bar>" using x by blast
      then obtain i where "i < nd" "si = sil ! i" using len[OF sil(1)] by (metis in_set_conv_nth)
      with sil(1,3) show ?thesis using wd[OF order_refl] by blast
    qed
    show "?wd nd \<in> ?A" using wd[OF order_refl] n by blast
  qed simp
  have W: "GetMaxWidth sr = (if ?wd nd < INT_MAX then Inr (?wd nd) else Inl AssertFailed)"
    using summarises_dims[OF sr(2)] by (simp add: GetMaxWidth_def Let_def)
  show ?thesis by (rule exI[of _ sr], rule exI[of _ "?wd nd"], intro conjI sr(1) M[symmetric] W)
qed

theorem max_width_exact_witness:
  "\<exists>sr. collect_range 1 [[StencilIndex 1 (- 3)], [StencilIndex 1 2]] = Inr sr \<and> GetMaxWidth sr = Inr 3"
proof -
  let ?L = "[[StencilIndex 1 (- 3)], [StencilIndex 1 2]]"
  have r: "StencilIndexRegularOrder sil 1" if "sil \<in> set ?L" for sil
    using that by (auto simp: StencilIndexRegularOrder_def StencilIndex_def)
  show ?thesis using max_width_exact[of 1 ?L, OF _ _ _ r] by (simp add: StencilIndex_def INT_MAX_def)
qed

subsection \<open>The order of regular index lists\<close>

lemma map_assign_last: "(\<And>x. x \<in> fst ` set m \<Longrightarrow> x < k) \<Longrightarrow> map_assign k v m = m @ [(k, v)]"
  by (induction m) (force simp: not_less)+

lemma regular_map:
  assumes "StencilIndexRegularOrder sil n"
  shows "StencilRegularIndexList sil = Inr (map (\<lambda>i. (int i + 1, si_offset (sil ! i))) [0..<n])"
proof -
  have n: "length sil = n" "\<And>i. i < n \<Longrightarrow> si_dim (sil ! i) = int i + 1" using assms by (auto simp: regular_iff)
  have "fold (\<lambda>si. map_assign (si_dim si) (si_offset si)) (take k sil) [] =
      map (\<lambda>i. (int i + 1, si_offset (sil ! i))) [0..<k]" if "k \<le> n" for k
    using that
  proof (induction k)
    case 0
    then show ?case by simp
  next
    case (Suc k)
    have "map_assign (int k + 1) v (map (\<lambda>i. (int i + 1, si_offset (sil ! i))) [0..<k]) =
        map (\<lambda>i. (int i + 1, si_offset (sil ! i))) [0..<k] @ [(int k + 1, v)]" for v
      by (rule map_assign_last) auto
    then show ?case using Suc n by (simp add: take_Suc_conv_app_nth)
  qed
  from this[of n] show ?thesis
    using assms n(1) by (simp add: StencilRegularIndexList_def StencilIndexRegularOrder1_def)
qed

lemma ril_less_iff:
  assumes "\<And>d v. (d, v) \<in> set m \<Longrightarrow> map_of x d = Some (w d)"
  shows "ril_less m x = Inr (\<exists>k<length m. (\<forall>j<k. snd (m ! j) = w (fst (m ! j))) \<and> snd (m ! k) < w (fst (m ! k)))"
  using assms
proof (induction m)
  case Nil
  then show ?case by simp
next
  case (Cons dv m)
  obtain d v where dv: "dv = (d, v)" by (cases dv)
  have w: "ril_GetIndex x d = Inr (w d)" using Cons.prems[of d v] dv by (simp add: ril_GetIndex_def isContained_map_def)
  have IH: "ril_less m x = Inr (\<exists>k<length m. (\<forall>j<k. snd (m ! j) = w (fst (m ! j))) \<and> snd (m ! k) < w (fst (m ! k)))"
    by (rule Cons.IH, rule Cons.prems, erule list.set_intros(2))
  have "(\<exists>k<length (dv # m). (\<forall>j<k. snd ((dv # m) ! j) = w (fst ((dv # m) ! j))) \<and>
        snd ((dv # m) ! k) < w (fst ((dv # m) ! k))) \<longleftrightarrow>
      v < w d \<or> (v = w d \<and> (\<exists>k<length m. (\<forall>j<k. snd (m ! j) = w (fst (m ! j))) \<and> snd (m ! k) < w (fst (m ! k))))"
    by (auto simp: dv Ex_less_Suc2 All_less_Suc2)
  then show ?case using w IH by (auto simp: dv)
qed

text \<open>a list of indices in regular order and its map from dimensions to offsets: \<open>GetIndex\<close>
  reads the offset of each dimension, and \<open>operator<\<close> on two such maps is the lexicographic
  order of their offsets, in which two different maps are always comparable.
\<close>

theorem regular_index_order:
  assumes "StencilIndexRegularOrder sil n" "StencilIndexRegularOrder sil' n"
  shows "\<exists>m m' b b'. StencilRegularIndexList sil = Inr m \<and> StencilRegularIndexList sil' = Inr m' \<and>
    ril_GetNumDims m = n \<and> (\<forall>i<n. ril_GetIndex m (int i + 1) = Inr (si_offset (sil ! i))) \<and>
    ril_less m m' = Inr b \<and> ril_less m' m = Inr b' \<and>
    b = (\<exists>k<n. (\<forall>j<k. si_offset (sil ! j) = si_offset (sil' ! j)) \<and> si_offset (sil ! k) < si_offset (sil' ! k)) \<and>
    (b, b', ril_eq m m') \<in> {(True, False, False), (False, True, False), (False, False, True)}"
proof -
  let ?m = "map (\<lambda>i. (int i + 1, si_offset (sil ! i))) [0..<n]"
  let ?m' = "map (\<lambda>i. (int i + 1, si_offset (sil' ! i))) [0..<n]"
  have get: "map_of (map (\<lambda>i. (int i + 1, f i)) [0..<n]) (int i + 1) = Some (f i)" if "i < n" for f i
    by (rule map_of_is_SomeI) (use that in \<open>auto simp: distinct_map inj_on_def comp_def\<close>)
  have less: "ril_less (map (\<lambda>i. (int i + 1, f i)) [0..<n]) (map (\<lambda>i. (int i + 1, g i)) [0..<n]) =
      Inr (\<exists>k<n. (\<forall>j<k. f j = g j) \<and> f k < g k)" for f g
  proof -
    let ?w = "\<lambda>d. g (nat (d - 1))"
    have "ril_less (map (\<lambda>i. (int i + 1, f i)) [0..<n]) (map (\<lambda>i. (int i + 1, g i)) [0..<n]) =
      Inr (\<exists>k<length (map (\<lambda>i. (int i + 1, f i)) [0..<n]).
        (\<forall>j<k. snd (map (\<lambda>i. (int i + 1, f i)) [0..<n] ! j) = ?w (fst (map (\<lambda>i. (int i + 1, f i)) [0..<n] ! j))) \<and>
        snd (map (\<lambda>i. (int i + 1, f i)) [0..<n] ! k) < ?w (fst (map (\<lambda>i. (int i + 1, f i)) [0..<n] ! k)))"
      by (rule ril_less_iff) (use get in auto)
    also have "\<dots> = Inr (\<exists>k<n. (\<forall>j<k. f j = g j) \<and> f k < g k)"
    proof -
      have "(\<forall>j<k. snd (map (\<lambda>i. (int i + 1, f i)) [0..<n] ! j) = ?w (fst (map (\<lambda>i. (int i + 1, f i)) [0..<n] ! j))) \<longleftrightarrow>
          (\<forall>j<k. f j = g j)" if "k < n" for k
      proof -
        have nth: "map (\<lambda>i. (int i + 1, f i)) [0..<n] ! j = (int j + 1, f j)" if "j < k" for j
          using that \<open>k < n\<close> by simp
        show ?thesis by (rule all_cong) (simp only: nth fst_conv snd_conv, simp)
      qed
      then show ?thesis by (intro arg_cong[where f = Inr] ex_cong1 conj_cong) auto
    qed
    finally show ?thesis .
  qed
  let ?f = "\<lambda>i. si_offset (sil ! i)" let ?g = "\<lambda>i. si_offset (sil' ! i)"
  let ?b = "\<exists>k<n. (\<forall>j<k. ?f j = ?g j) \<and> ?f k < ?g k" let ?b' = "\<exists>k<n. (\<forall>j<k. ?g j = ?f j) \<and> ?g k < ?f k"
  have eq: "ril_eq ?m ?m' \<longleftrightarrow> (\<forall>i<n. ?f i = ?g i)" by (auto simp: ril_eq_def)
  have no_both: "\<not> (?b \<and> ?b')"
  proof clarify
    fix k l assume "\<forall>j<k. ?f j = ?g j" "?f k < ?g k" "\<forall>j<l. ?g j = ?f j" "?g l < ?f l"
    then show False by (cases k l rule: linorder_cases) auto
  qed
  have some: "?b \<or> ?b'" if differ: "\<exists>i<n. ?f i \<noteq> ?g i"
  proof -
    let ?P = "\<lambda>k. k < n \<and> ?f k \<noteq> ?g k"
    obtain k where k: "?P k \<and> (\<forall>j<k. \<not> ?P j)"
      using iffD1[OF exists_least_iff[of ?P] differ] by (rule exE)
    have l: "?f j = ?g j" if "j < k" for j using k that by (meson less_trans)
    show ?thesis
    proof (cases "?f k < ?g k")
      case True
      then have "?b" using k l by (intro exI[of _ k]) simp
      then show ?thesis by (rule disjI1)
    next
      case False
      then have "?b'" using k l by (intro exI[of _ k]) simp
      then show ?thesis by (rule disjI2)
    qed
  qed
  have trichotomy: "(?b, ?b', ril_eq ?m ?m') \<in> {(True, False, False), (False, True, False), (False, False, True)}"
  proof (cases "\<exists>i<n. ?f i \<noteq> ?g i")
    case True
    then have "\<not> ril_eq ?m ?m'" using eq by blast
    then show ?thesis using some[OF True] no_both by (cases ?b; cases ?b') simp_all
  next
    case False
    then have "ril_eq ?m ?m'" "\<not> ?b" "\<not> ?b'" using eq by auto
    then show ?thesis by simp
  qed
  have read: "\<forall>i<n. ril_GetIndex ?m (int i + 1) = Inr (?f i)"
    using get[of _ ?f] by (simp add: ril_GetIndex_def isContained_map_def)
  have "ril_GetNumDims ?m = n" by (simp add: ril_GetNumDims_def)
  show ?thesis
    by (rule exI[of _ ?m], rule exI[of _ ?m'], rule exI[of _ ?b], rule exI[of _ ?b'], intro conjI)
      (fact regular_map[OF assms(1)] regular_map[OF assms(2)] \<open>ril_GetNumDims ?m = n\<close> read
        less[of ?f ?g] less[of ?g ?f] trichotomy refl)+
qed

theorem regular_index_order_witness:
  "\<exists>m m'. StencilRegularIndexList [StencilIndex 1 0, StencilIndex 2 5] = Inr m \<and>
     StencilRegularIndexList [StencilIndex 1 0, StencilIndex 2 7] = Inr m' \<and> ril_less m m' = Inr True"
proof -
  have r: "StencilIndexRegularOrder [StencilIndex 1 0, StencilIndex 2 5] 2"
    "StencilIndexRegularOrder [StencilIndex 1 0, StencilIndex 2 7] 2"
    by (auto simp: StencilIndexRegularOrder_def StencilIndex_def)
  show ?thesis using regular_index_order[OF r] by (auto simp: StencilIndex_def less_2_cases_iff numeral_2_eq_2)
qed

end
