(* ===== verification/Element_Access.thy ===== *)
theory Element_Access imports Grid_MPI Physis_Util begin

text \<open>
  The addresses of single elements that generated kernels use (\<open>runtime/mpi_runtime.cc\<close>):
  reads through \<open>__PSGridGetAddr\<close>, which looks into the halo buffers, reads without halo,
  and writes through \<open>__PSGridEmitAddr3D\<close>. \<open>sizeof(T)\<close> is an argument of the templates; the
  instances for \<open>float\<close> and \<open>double\<close> have 4 and 8.
\<close>

subsection \<open>Offsets\<close>

definition PSGridCalcOffset3D_base :: "int \<Rightarrow> int \<Rightarrow> int \<Rightarrow> idx \<Rightarrow> idx \<Rightarrow> int" where
  "PSGridCalcOffset3D_base x y z base sz =
     (x - at base 0) + (y - at base 1) * at sz 0 + (z - at base 2) * at sz 0 * at sz 1"

definition PSGridCalcOffset3D_xyz :: "int \<Rightarrow> int \<Rightarrow> int \<Rightarrow> idx \<Rightarrow> int" where
  "PSGridCalcOffset3D_xyz x y z sz = x + y * at sz 0 + z * at sz 0 * at sz 1"

definition PSGridCalcOffset3D_sizes :: "int \<Rightarrow> int \<Rightarrow> int \<Rightarrow> int \<Rightarrow> int \<Rightarrow> int" where
  "PSGridCalcOffset3D_sizes x y z xsize ysize = x + y * xsize + z * xsize * ysize"

definition PSGridCalcOffset3D :: "idx \<Rightarrow> idx \<Rightarrow> int" where
  "PSGridCalcOffset3D index sz = at index 0 + at index 1 * at sz 0 + at index 2 * at sz 0 * at sz 1"

subsection \<open>Addresses\<close>

text \<open>
  The loop looks for the first of the \<open>PS_MAX_DIM\<close> dimensions in which the index leaves the
  local part. The arrays of halo buffers have one entry for each dimension of the grid.
\<close>

definition addr_in_halo :: "nat \<Rightarrow> 'g gridmpi_scheme \<Rightarrow> nat \<Rightarrow> idx \<Rightarrow> fault + ptr" where
  "addr_in_halo tsize gm i indices =
     (let indices = (if gm_halo_has_diagonal gm
            then fold (\<lambda>j x. upd x j (at x j + int (at (gm_halo_bw_width gm) j))) [Suc i..<PS_MAX_DIM] indices
            else indices)
      in if at indices i < 0
         then let indices = upd indices i (at indices i + int (at (gm_halo_bw_width gm) i));
                  offset = PSGridCalcOffset3D indices (at (gm_halo_bw_size gm) i)
              in bindE (array_get (gm_halo_peer_bw gm) (int i)) (\<lambda>buf. Inr (ptr_add buf (offset * int tsize)))
         else let indices = upd indices i (at indices i - at (gm_local_size gm) i);
                  offset = PSGridCalcOffset3D indices (at (gm_halo_fw_size gm) i)
              in bindE (array_get (gm_halo_peer_fw gm) (int i)) (\<lambda>buf. Inr (ptr_add buf (offset * int tsize))))"

definition PSGridGetAddr :: "nat \<Rightarrow> mgrid \<Rightarrow> idx \<Rightarrow> fault + ptr" where
  "PSGridGetAddr tsize gm indices =
     (if gm_remote_grid_active gm
      then (case gm_remote_grid gm of
              None \<Rightarrow> Inl NullPointer
            | Some rmg \<Rightarrow>
                Inr (ptr_add (data0 rmg)
                  (PSGridCalcOffset3D (arr_minus indices (gm_local_offset rmg)) (gm_local_size rmg) * int tsize)))
      else let indices = arr_minus indices (gm_local_offset gm)
           in (case find (\<lambda>i. at indices i < 0 \<or> at indices i \<ge> at (gm_local_size gm) i) [0..<PS_MAX_DIM] of
                 Some i \<Rightarrow> addr_in_halo tsize gm i indices
               | None \<Rightarrow> Inr (ptr_add (data0 gm) (PSGridCalcOffset3D indices (gm_local_size gm) * int tsize))))"

definition PSGridEmitAddr3D :: "nat \<Rightarrow> 'g gridmpi_scheme \<Rightarrow> int \<Rightarrow> int \<Rightarrow> int \<Rightarrow> ptr" where
  "PSGridEmitAddr3D tsize gm x y z =
     ptr_add (data1 gm) (PSGridCalcOffset3D_base x y z (gm_local_offset gm) (gm_local_size gm) * int tsize)"

definition PSGridGetAddrNoHalo3D :: "nat \<Rightarrow> 'g gridmpi_scheme \<Rightarrow> int \<Rightarrow> int \<Rightarrow> int \<Rightarrow> ptr" where
  "PSGridGetAddrNoHalo3D tsize gm x y z =
     ptr_add (data1 gm) (PSGridCalcOffset3D_base x y z (gm_local_offset gm) (gm_local_size gm) * int tsize)"

definition PSGridGetAddrFloat1D :: "mgrid \<Rightarrow> int \<Rightarrow> fault + ptr" where
  "PSGridGetAddrFloat1D g x = PSGridGetAddr 4 g (IntegerArray1 x)"

definition PSGridGetAddrFloat2D :: "mgrid \<Rightarrow> int \<Rightarrow> int \<Rightarrow> fault + ptr" where
  "PSGridGetAddrFloat2D g x y = PSGridGetAddr 4 g (IntegerArray2 x y)"

definition PSGridGetAddrFloat3D :: "mgrid \<Rightarrow> int \<Rightarrow> int \<Rightarrow> int \<Rightarrow> fault + ptr" where
  "PSGridGetAddrFloat3D g x y z = PSGridGetAddr 4 g (IntegerArray3 x y z)"

definition PSGridGetAddrDouble1D :: "mgrid \<Rightarrow> int \<Rightarrow> fault + ptr" where
  "PSGridGetAddrDouble1D g x = PSGridGetAddr 8 g (IntegerArray1 x)"

definition PSGridGetAddrDouble2D :: "mgrid \<Rightarrow> int \<Rightarrow> int \<Rightarrow> fault + ptr" where
  "PSGridGetAddrDouble2D g x y = PSGridGetAddr 8 g (IntegerArray2 x y)"

definition PSGridGetAddrDouble3D :: "mgrid \<Rightarrow> int \<Rightarrow> int \<Rightarrow> int \<Rightarrow> fault + ptr" where
  "PSGridGetAddrDouble3D g x y z = PSGridGetAddr 8 g (IntegerArray3 x y z)"

definition PSGridGetAddrNoHaloFloat1D :: "'g gridmpi_scheme \<Rightarrow> int \<Rightarrow> ptr" where
  "PSGridGetAddrNoHaloFloat1D g x = PSGridGetAddrNoHalo3D 4 g x 0 0"

definition PSGridGetAddrNoHaloDouble1D :: "'g gridmpi_scheme \<Rightarrow> int \<Rightarrow> ptr" where
  "PSGridGetAddrNoHaloDouble1D g x = PSGridGetAddrNoHalo3D 8 g x 0 0"

definition PSGridGetAddrNoHaloFloat2D :: "'g gridmpi_scheme \<Rightarrow> int \<Rightarrow> int \<Rightarrow> ptr" where
  "PSGridGetAddrNoHaloFloat2D g x y = PSGridGetAddrNoHalo3D 4 g x y 0"

definition PSGridGetAddrNoHaloDouble2D :: "'g gridmpi_scheme \<Rightarrow> int \<Rightarrow> int \<Rightarrow> ptr" where
  "PSGridGetAddrNoHaloDouble2D g x y = PSGridGetAddrNoHalo3D 8 g x y 0"

definition PSGridGetAddrNoHaloFloat3D :: "'g gridmpi_scheme \<Rightarrow> int \<Rightarrow> int \<Rightarrow> int \<Rightarrow> ptr" where
  "PSGridGetAddrNoHaloFloat3D g x y z = PSGridGetAddrNoHalo3D 4 g x y z"

definition PSGridGetAddrNoHaloDouble3D :: "'g gridmpi_scheme \<Rightarrow> int \<Rightarrow> int \<Rightarrow> int \<Rightarrow> ptr" where
  "PSGridGetAddrNoHaloDouble3D g x y z = PSGridGetAddrNoHalo3D 8 g x y z"

definition PSGridEmitAddrFloat1D :: "'g gridmpi_scheme \<Rightarrow> int \<Rightarrow> ptr" where
  "PSGridEmitAddrFloat1D g x = PSGridEmitAddr3D 4 g x 0 0"

definition PSGridEmitAddrDouble1D :: "'g gridmpi_scheme \<Rightarrow> int \<Rightarrow> ptr" where
  "PSGridEmitAddrDouble1D g x = PSGridEmitAddr3D 8 g x 0 0"

definition PSGridEmitAddrFloat2D :: "'g gridmpi_scheme \<Rightarrow> int \<Rightarrow> int \<Rightarrow> ptr" where
  "PSGridEmitAddrFloat2D g x y = PSGridEmitAddr3D 4 g x y 0"

definition PSGridEmitAddrDouble2D :: "'g gridmpi_scheme \<Rightarrow> int \<Rightarrow> int \<Rightarrow> ptr" where
  "PSGridEmitAddrDouble2D g x y = PSGridEmitAddr3D 8 g x y 0"

definition PSGridEmitAddrFloat3D :: "'g gridmpi_scheme \<Rightarrow> int \<Rightarrow> int \<Rightarrow> int \<Rightarrow> ptr" where
  "PSGridEmitAddrFloat3D g x y z = PSGridEmitAddr3D 4 g x y z"

definition PSGridEmitAddrDouble3D :: "'g gridmpi_scheme \<Rightarrow> int \<Rightarrow> int \<Rightarrow> int \<Rightarrow> ptr" where
  "PSGridEmitAddrDouble3D g x y z = PSGridEmitAddr3D 8 g x y z"

subsection \<open>Inside the local part\<close>

definition local_point :: "'g gridmpi_scheme \<Rightarrow> idx \<Rightarrow> bool" where
  "local_point g p \<longleftrightarrow> (\<forall>i < 3. at (gm_local_offset g) i \<le> at p i \<and>
     at p i < at (gm_local_offset g) i + at (gm_local_size g) i)"

definition local_offset_of :: "'g gridmpi_scheme \<Rightarrow> idx \<Rightarrow> int" where
  "local_offset_of g p = GridCalcOffset3D (arr_minus p (gm_local_offset g)) (gm_local_size g)"

lemma find_None_upt: "List.find P [0..<n] = None \<longleftrightarrow> (\<forall>i < n. \<not> P i)"
  by (auto simp: find_None_iff)

lemma PSGridCalcOffset3D_eq: "PSGridCalcOffset3D = GridCalcOffset3D"
  by (simp add: fun_eq_iff PSGridCalcOffset3D_def GridCalcOffset3D_def)

lemma PSGridGetAddr_local:
  assumes "local_point g p" "\<not> gm_remote_grid_active g"
  shows "PSGridGetAddr tsize g p = Inr (ptr_add (data0 g) (local_offset_of g p * int tsize))"
proof -
  let ?q = "arr_minus p (gm_local_offset g)"
  have "List.find (\<lambda>i. at ?q i < 0 \<or> at ?q i \<ge> at (gm_local_size g) i) [0..<PS_MAX_DIM] = None"
    unfolding find_None_upt using assms(1) by (force simp: PS_MAX_DIM_def local_point_def at_arr_minus)
  then show ?thesis using assms(2)
    by (simp add: PSGridGetAddr_def Let_def local_offset_of_def PSGridCalcOffset3D_eq)
qed

lemma PSGridEmitAddr3D_local:
  "PSGridEmitAddr3D tsize g (at p 0) (at p 1) (at p 2) = ptr_add (data1 g) (local_offset_of g p * int tsize)"
  by (simp add: PSGridEmitAddr3D_def local_offset_of_def PSGridCalcOffset3D_base_def GridCalcOffset3D_def
      arr_minus_def)

lemma local_in_box: "local_point g p \<Longrightarrow> in_box 3 (arr_minus p (gm_local_offset g)) (gm_local_size g)"
  by (auto simp: local_point_def in_box_def at_arr_minus)

lemma local_offset_bounds:
  assumes "local_point g p"
  shows "0 \<le> local_offset_of g p" "local_offset_of g p < accumulate (gm_local_size g) 3"
  using lin_bounds[OF local_in_box[OF assms]] by (simp_all add: local_offset_of_def GridCalcOffset3D_lin)

lemma local_offset_inj:
  assumes "local_point g p" "local_point g q" "local_offset_of g p = local_offset_of g q"
  shows "p = q"
proof (rule arr3_eqI)
  fix i :: nat assume i: "i < 3"
  have "at (arr_minus p (gm_local_offset g)) i = at (arr_minus q (gm_local_offset g)) i"
    using lin_inj[OF local_in_box[OF assms(1)] local_in_box[OF assms(2)] _ i] assms(3)
    by (simp add: local_offset_of_def GridCalcOffset3D_lin)
  then show "at p i = at q i" using i by (simp add: at_arr_minus)
qed

subsection \<open>Properties\<close>

text \<open>C18: What a kernel writes for a point of its local part is what kernels read after the
  swap: the address for writing is the address for reading in the swapped grid. It lies
  inside the local buffer of the given number of bytes, and different points have elements
  that do not overlap.\<close>

theorem emit_swap_read:
  assumes "local_point g p" and "\<not> gm_remote_grid_active g" and "data1 g = Ptr b 0"
    and "nat (accumulate (gm_local_size g) 3) * tsize \<le> bytes"
  shows "\<exists>k. PSGridEmitAddr3D tsize g (at p 0) (at p 1) (at p 2) = Ptr b (int k) \<and>
    PSGridGetAddr tsize (Grid_Swap g) p = Inr (Ptr b (int k)) \<and> k + tsize \<le> bytes \<and>
    (\<forall>q. local_point g q \<longrightarrow> q \<noteq> p \<longrightarrow>
      (\<exists>j. PSGridEmitAddr3D tsize g (at q 0) (at q 1) (at q 2) = Ptr b (int j) \<and>
        (j + tsize \<le> k \<or> k + tsize \<le> j)))"
proof -
  let ?o = "\<lambda>q. nat (local_offset_of g q)"
  have sw: "local_point (Grid_Swap g) p" "\<not> gm_remote_grid_active (Grid_Swap g)"
      "data0 (Grid_Swap g) = data1 g" "local_offset_of (Grid_Swap g) p = local_offset_of g p"
    using assms(1,2) by (simp_all add: Grid_Swap_def local_point_def local_offset_of_def)
  have emit: "PSGridEmitAddr3D tsize g (at q 0) (at q 1) (at q 2) = Ptr b (int (?o q * tsize))"
    if "local_point g q" for q
    using local_offset_bounds(1)[OF that] unfolding PSGridEmitAddr3D_local assms(3) by simp
  have less: "?o p < nat (accumulate (gm_local_size g) 3)" using local_offset_bounds[OF assms(1)] by simp
  have "?o q * tsize + tsize \<le> ?o p * tsize \<or> ?o p * tsize + tsize \<le> ?o q * tsize"
    if q: "local_point g q" "q \<noteq> p" for q
  proof -
    have "?o q \<noteq> ?o p"
      using local_offset_inj[OF q(1) assms(1)] q(2) local_offset_bounds(1)[OF q(1)] local_offset_bounds(1)[OF assms(1)]
      by (metis eq_nat_nat_iff)
    then have "Suc (?o q) \<le> ?o p \<or> Suc (?o p) \<le> ?o q" by linarith
    then show ?thesis using mult_le_mono1[of "Suc (?o q)" "?o p" tsize] mult_le_mono1[of "Suc (?o p)" "?o q" tsize]
      by auto
  qed
  note apart = this
  have read: "PSGridGetAddr tsize (Grid_Swap g) p = Inr (Ptr b (int (?o p * tsize)))"
    using PSGridGetAddr_local[OF sw(1,2), of tsize] local_offset_bounds(1)[OF assms(1)]
    unfolding sw(3,4) assms(3) by simp
  show ?thesis
  proof (rule exI[of _ "?o p * tsize"], intro conjI allI impI)
    fix q assume q: "local_point g q" "q \<noteq> p"
    show "\<exists>j. PSGridEmitAddr3D tsize g (at q 0) (at q 1) (at q 2) = Ptr b (int j) \<and>
        (j + tsize \<le> ?o p * tsize \<or> ?o p * tsize + tsize \<le> j)"
      using emit[OF q(1)] apart[OF q] by blast
  qed (fact emit[OF assms(1)], fact read, fact elem_bound[OF less assms(4)])
qed

definition demo_mgrid :: mgrid where
  "demo_mgrid = to_mgrid ((GridMPI_new PS_FLOAT 4 3 (Arr3 4 4 4) True IntegerArray0 (Arr3 0 2 0) (Arr3 4 2 4) 0)
     \<lparr>data0 := Ptr 0 0, data1 := Ptr 1 0\<rparr>)"

lemmas demo_mgrid_simps = demo_mgrid_def to_mgrid_def GridMPI_new_def Grid_new_def grid.defs gridmpi.defs Let_def

lemma demo_mgrid_facts:
  "local_point demo_mgrid (Arr3 1 3 2)" "\<not> gm_remote_grid_active demo_mgrid"
  "data0 demo_mgrid = Ptr 0 0" "data1 demo_mgrid = Ptr 1 0" "accumulate (gm_local_size demo_mgrid) 3 = 32"
  by (simp_all add: demo_mgrid_simps local_point_def all_less_num accumulate_num)

theorem emit_swap_read_witness:
  "\<exists>k. PSGridEmitAddr3D 4 demo_mgrid 1 3 2 = Ptr 1 (int k) \<and>
    PSGridGetAddr 4 (Grid_Swap demo_mgrid) (Arr3 1 3 2) = Inr (Ptr 1 (int k)) \<and> k + 4 \<le> 128"
  using emit_swap_read[OF demo_mgrid_facts(1,2,4), of 4 128] demo_mgrid_facts(5) by auto

text \<open>C19: In a grid of three dimensions whose halos have no diagonal parts, the address that
  generated kernels use for an index, inside the local part, in a halo or in the remote grid,
  is the one that \<open>GridMPI::GetAddress\<close> computes for \<open>Get\<close> and \<open>Set\<close>.\<close>

theorem kernel_address_GetAddress:
  assumes "grid_num_dims g = 3" and "\<not> gm_halo_has_diagonal g" and "grid_elm_size g = tsize"
    and "\<forall>r. gm_remote_grid g = Some r \<longrightarrow> grid_elm_size r = tsize"
  shows "PSGridGetAddr tsize g p = GridMPI_GetAddress g p"
  using assms
  by (auto simp: PSGridGetAddr_def GridMPI_GetAddress_def addr_in_halo_def halo_address_def outside_def[abs_def]
      PSGridCalcOffset3D_eq PS_MAX_DIM_def Let_def bindE_assoc split: option.splits)

theorem kernel_address_GetAddress_witness:
  "PSGridGetAddr 4 demo_mgrid (Arr3 (- 1) 2 0) = GridMPI_GetAddress demo_mgrid (Arr3 (- 1) 2 0)"
  using kernel_address_GetAddress[of demo_mgrid 4] by (simp add: demo_mgrid_simps)

text \<open>C33: In a grid of fewer dimensions the kernels' address of every point of the local part
  is a read past the end of the array of halo buffers: the loop goes on to \<open>PS_MAX_DIM\<close>.\<close>

theorem low_dimension_kernel_access_fails:
  assumes "grid_num_dims g = n" and "n < 3" and "\<forall>i < n. at (gm_local_offset g) i \<le> at p i \<and>
      at p i < at (gm_local_offset g) i + at (gm_local_size g) i"
    and "\<forall>i < 3. n \<le> i \<longrightarrow> at p i = 0 \<and> at (gm_local_offset g) i = 0 \<and> at (gm_local_size g) i = 0"
    and "length (gm_halo_peer_fw g) = n" and "\<not> gm_remote_grid_active g" and "\<not> gm_halo_has_diagonal g"
  shows "PSGridGetAddr tsize g p = Inl OutOfBounds"
proof -
  let ?q = "arr_minus p (gm_local_offset g)"
  have f: "List.find (\<lambda>i. at ?q i < 0 \<or> at ?q i \<ge> at (gm_local_size g) i) [0..<PS_MAX_DIM] = Some n"
    unfolding find_upt_Some using assms(2,3,4) by (auto simp: PS_MAX_DIM_def at_arr_minus)
  have "at ?q n = 0" using assms(2,4) by (simp add: at_arr_minus)
  then show ?thesis
    using assms(5,6,7) f by (simp add: PSGridGetAddr_def addr_in_halo_def Let_def array_get_def)
qed

definition flat_mgrid :: mgrid where
  "flat_mgrid = to_mgrid (GridMPI_new PS_FLOAT 4 2 (Arr3 4 4 0) False IntegerArray0 (Arr3 0 2 0) (Arr3 4 2 0) 0)"

theorem low_dimension_kernel_access_fails_witness:
  "PSGridGetAddrFloat2D flat_mgrid 1 3 = Inl OutOfBounds"
  unfolding PSGridGetAddrFloat2D_def
  by (rule low_dimension_kernel_access_fails[of _ 2])
    (simp_all add: flat_mgrid_def demo_mgrid_simps all_less_num IntegerArray2_def accumulate_num)

text \<open>The accessor for reads without halo returns the address that kernels write to, not the
  one they read from: in a grid with two buffers it never gives the current value.\<close>

theorem no_halo_reads_emit_buffer:
  assumes "local_point g p" and "\<not> gm_remote_grid_active g" and "data0 g = Ptr b 0" and "data1 g = Ptr c 0" and "b \<noteq> c"
  shows "PSGridGetAddrNoHalo3D tsize g (at p 0) (at p 1) (at p 2) = PSGridEmitAddr3D tsize g (at p 0) (at p 1) (at p 2) \<and>
    PSGridGetAddr tsize g p \<noteq> Inr (PSGridGetAddrNoHalo3D tsize g (at p 0) (at p 1) (at p 2))"
  using PSGridGetAddr_local[OF assms(1,2), of tsize] assms(3-5)
  by (simp add: PSGridGetAddrNoHalo3D_def PSGridEmitAddr3D_def)

theorem no_halo_reads_emit_buffer_witness:
  "PSGridGetAddrFloat3D demo_mgrid 1 3 2 \<noteq> Inr (PSGridGetAddrNoHaloFloat3D demo_mgrid 1 3 2)"
  unfolding PSGridGetAddrFloat3D_def PSGridGetAddrNoHaloFloat3D_def IntegerArray3_def
  using conjunct2[OF no_halo_reads_emit_buffer[OF demo_mgrid_facts(1-4), of 4]] by simp

end
