(* ===== verification/Device_Access.thy ===== *)
theory Device_Access imports Element_Access begin

text \<open>
  The element addresses that kernels compute in a distributed grid
  (\<open>include/physis/physis_mpi_cuda.h\<close>), with the structure that
  \<open>GridMPICUDA3D::FixupBufferPointers\<close> (\<open>runtime/grid_mpi_cuda.cc\<close>) fills for them.
  An address of a \<open>float\<close> is a pointer that is moved by 4 bytes for each element.
\<close>

subsection \<open>Addresses in a distributed grid\<close>

text \<open>\<open>halo[i][0]\<close> and \<open>halo_width[i][0]\<close> belong to the backward side, entry 1 to the forward side.\<close>

record grid_dev3d =
  d3_p0 :: ptr
  d3_dim :: idx
  d3_local_size :: idx
  d3_local_offset :: idx
  d3_pitch :: int
  d3_halo :: "(ptr \<times> ptr) arr3"
  d3_halo_width :: "(int \<times> int) arr3"
  d3_diag :: bool

text \<open>The sum is an \<open>int\<close>; the result is converted to \<open>size_t\<close>.\<close>

definition dev_CalcOffset3D :: "int \<Rightarrow> int \<Rightarrow> int \<Rightarrow> int \<Rightarrow> int \<Rightarrow> nat" where
  "dev_CalcOffset3D x y z pitch dimy = to_size (x + y * pitch + z * pitch * dimy)"

definition float_at :: "ptr \<Rightarrow> nat \<Rightarrow> ptr" where
  "float_at p n = ptr_add p (4 * int n)"

definition dev_GetAddrNoHaloFloat3D :: "grid_dev3d \<Rightarrow> int \<Rightarrow> int \<Rightarrow> int \<Rightarrow> ptr" where
  "dev_GetAddrNoHaloFloat3D g x y z =
     (let x = x - at (d3_local_offset g) 0; y = y - at (d3_local_offset g) 1; z = z - at (d3_local_offset g) 2
      in float_at (d3_p0 g) (dev_CalcOffset3D x y z (d3_pitch g) (at (d3_local_size g) 1)))"

definition dev_GetAddrNoHaloFloat3DLocal :: "grid_dev3d \<Rightarrow> int \<Rightarrow> int \<Rightarrow> int \<Rightarrow> ptr" where
  "dev_GetAddrNoHaloFloat3DLocal g x y z =
     float_at (d3_p0 g) (dev_CalcOffset3D x y z (d3_pitch g) (at (d3_local_size g) 1))"

definition dev_EmitAddrFloat3D :: "grid_dev3d \<Rightarrow> int \<Rightarrow> int \<Rightarrow> int \<Rightarrow> ptr" where
  "dev_EmitAddrFloat3D g x y z =
     (let x = x - at (d3_local_offset g) 0; y = y - at (d3_local_offset g) 1; z = z - at (d3_local_offset g) 2
      in float_at (d3_p0 g) (dev_CalcOffset3D x y z (d3_pitch g) (at (d3_local_size g) 1)))"

definition dev_local :: "grid_dev3d \<Rightarrow> int \<Rightarrow> int \<Rightarrow> int \<Rightarrow> idx" where
  "dev_local g x y z =
     Arr3 (x - at (d3_local_offset g) 0) (y - at (d3_local_offset g) 1) (z - at (d3_local_offset g) 2)"

definition dev_GetAddrFloat3D_2_fw :: "grid_dev3d \<Rightarrow> int \<Rightarrow> int \<Rightarrow> int \<Rightarrow> ptr" where
  "dev_GetAddrFloat3D_2_fw g x y z =
     (let i = dev_local g x y z; ls = d3_local_size g
      in if at i 2 < at ls 2
         then dev_GetAddrNoHaloFloat3DLocal g (at i 0) (at i 1) (at i 2)
         else let i = upd i 2 (at i 2 - at ls 2)
              in float_at (snd (at (d3_halo g) 2))
                   (dev_CalcOffset3D (at i 0) (at i 1) (at i 2) (at ls 0) (at ls 1)))"

definition dev_GetAddrFloat3D_2_bw :: "grid_dev3d \<Rightarrow> int \<Rightarrow> int \<Rightarrow> int \<Rightarrow> ptr" where
  "dev_GetAddrFloat3D_2_bw g x y z =
     (let i = dev_local g x y z; ls = d3_local_size g
      in if at i 2 \<ge> 0
         then dev_GetAddrNoHaloFloat3DLocal g (at i 0) (at i 1) (at i 2)
         else let i = upd i 2 (at i 2 + fst (at (d3_halo_width g) 2))
              in float_at (fst (at (d3_halo g) 2))
                   (dev_CalcOffset3D (at i 0) (at i 1) (at i 2) (at ls 0) (at ls 1)))"

definition dev_GetAddrFloat3D_1_fw :: "grid_dev3d \<Rightarrow> int \<Rightarrow> int \<Rightarrow> int \<Rightarrow> ptr" where
  "dev_GetAddrFloat3D_1_fw g x y z =
     (let i = dev_local g x y z; ls = d3_local_size g; hw = d3_halo_width g
      in if at i 1 < at ls 1
         then if at i 2 < at ls 2 \<and> at i 2 \<ge> 0
              then dev_GetAddrNoHaloFloat3DLocal g (at i 0) (at i 1) (at i 2)
              else if at i 2 \<ge> at ls 2 then dev_GetAddrFloat3D_2_fw g x y z
              else dev_GetAddrFloat3D_2_bw g x y z
         else let i = (if d3_diag g then upd i 2 (at i 2 + fst (at hw 2)) else i);
                  i = upd i 1 (at i 1 - at ls 1)
              in float_at (snd (at (d3_halo g) 1))
                   (dev_CalcOffset3D (at i 0) (at i 1) (at i 2) (at ls 0) (snd (at hw 1))))"

definition dev_GetAddrFloat3D_1_bw :: "grid_dev3d \<Rightarrow> int \<Rightarrow> int \<Rightarrow> int \<Rightarrow> ptr" where
  "dev_GetAddrFloat3D_1_bw g x y z =
     (let i = dev_local g x y z; ls = d3_local_size g; hw = d3_halo_width g
      in if at i 1 \<ge> 0
         then if at i 2 < at ls 2 \<and> at i 2 \<ge> 0
              then dev_GetAddrNoHaloFloat3DLocal g (at i 0) (at i 1) (at i 2)
              else if at i 2 \<ge> at ls 2 then dev_GetAddrFloat3D_2_fw g x y z
              else dev_GetAddrFloat3D_2_bw g x y z
         else let i = (if d3_diag g then upd i 2 (at i 2 + fst (at hw 2)) else i);
                  i = upd i 1 (at i 1 + fst (at hw 1))
              in float_at (fst (at (d3_halo g) 1))
                   (dev_CalcOffset3D (at i 0) (at i 1) (at i 2) (at ls 0) (fst (at hw 1))))"

text \<open>
  \<open>halo_size1\<close> and \<open>halo_size\<close> are \<open>size_t\<close>; as arguments of the offset they become an \<open>int\<close>.
\<close>

definition int_of_size :: "nat \<Rightarrow> int" where
  "int_of_size n = int_of_unsigned (to_unsigned (int n))"

definition dev_inside :: "grid_dev3d \<Rightarrow> idx \<Rightarrow> int \<Rightarrow> int \<Rightarrow> int \<Rightarrow> ptr" where
  "dev_inside g i x y z =
     (let ls = d3_local_size g
      in if at i 1 < at ls 1 \<and> at i 1 \<ge> 0 \<and> at i 2 < at ls 2 \<and> at i 2 \<ge> 0
         then dev_GetAddrNoHaloFloat3DLocal g (at i 0) (at i 1) (at i 2)
         else if at i 1 \<ge> at ls 1 then dev_GetAddrFloat3D_1_fw g x y z
         else if at i 1 < 0 then dev_GetAddrFloat3D_1_bw g x y z
         else if at i 2 \<ge> at ls 2 then dev_GetAddrFloat3D_2_fw g x y z
         else dev_GetAddrFloat3D_2_bw g x y z)"

definition dev_GetAddrFloat3D_0_fw :: "grid_dev3d \<Rightarrow> int \<Rightarrow> int \<Rightarrow> int \<Rightarrow> ptr" where
  "dev_GetAddrFloat3D_0_fw g x y z =
     (let i = dev_local g x y z; ls = d3_local_size g; hw = d3_halo_width g
      in if at i 0 < at ls 0 then dev_inside g i x y z
         else let halo_size1 = to_size (at ls 1);
                  (i, halo_size1) =
                    (if d3_diag g
                     then (upd (upd i 1 (at i 1 + fst (at hw 1))) 2 (at i 2 + fst (at hw 2)),
                           to_size (int halo_size1 + (fst (at hw 1) + snd (at hw 1))))
                     else (i, halo_size1));
                  i = upd i 0 (at i 0 - at ls 0)
              in float_at (snd (at (d3_halo g) 0))
                   (dev_CalcOffset3D (at i 0) (at i 1) (at i 2) (snd (at hw 0)) (int_of_size halo_size1)))"

definition dev_GetAddrFloat3D_0_bw :: "grid_dev3d \<Rightarrow> int \<Rightarrow> int \<Rightarrow> int \<Rightarrow> ptr" where
  "dev_GetAddrFloat3D_0_bw g x y z =
     (let i = dev_local g x y z; ls = d3_local_size g; hw = d3_halo_width g
      in if at i 0 \<ge> 0 then dev_inside g i x y z
         else let halo_size1 = to_size (at ls 1);
                  (i, halo_size1) =
                    (if d3_diag g
                     then (upd (upd i 1 (at i 1 + fst (at hw 1))) 2 (at i 2 + fst (at hw 2)),
                           to_size (int halo_size1 + (fst (at hw 1) + snd (at hw 1))))
                     else (i, halo_size1));
                  i = upd i 0 (at i 0 + fst (at hw 0))
              in float_at (fst (at (d3_halo g) 0))
                   (dev_CalcOffset3D (at i 0) (at i 1) (at i 2) (fst (at hw 0)) (int_of_size halo_size1)))"

text \<open>The general accessor: the first dimension the index leaves decides.\<close>

definition dev_in_halo :: "grid_dev3d \<Rightarrow> nat \<Rightarrow> idx \<Rightarrow> ptr" where
  "dev_in_halo g i indices =
     (let ls = d3_local_size g; hw = d3_halo_width g;
          halo_size = arr_map2 (\<lambda>n _. to_size n) ls ls;
          (indices, halo_size) =
            (if d3_diag g
             then fold (\<lambda>j (x, s).
                    (upd x j (at x j + fst (at hw j)),
                     upd s j (to_size (int (at s j) + (fst (at hw j) + snd (at hw j))))))
                    [Suc i..<3] (indices, halo_size)
             else (indices, halo_size));
          (indices, halo_size, buf) =
            (if at indices i < 0
             then (upd indices i (at indices i + fst (at hw i)), upd halo_size i (to_size (fst (at hw i))),
                   fst (at (d3_halo g) i))
             else (upd indices i (at indices i - at ls i), upd halo_size i (to_size (snd (at hw i))),
                   snd (at (d3_halo g) i)))
      in float_at buf (dev_CalcOffset3D (at indices 0) (at indices 1) (at indices 2)
           (int_of_size (at halo_size 0)) (int_of_size (at halo_size 1))))"

definition dev_GetAddrFloat3D :: "grid_dev3d \<Rightarrow> int \<Rightarrow> int \<Rightarrow> int \<Rightarrow> ptr" where
  "dev_GetAddrFloat3D g x y z =
     (let indices = dev_local g x y z
      in case find (\<lambda>i. at indices i < 0 \<or> at indices i \<ge> at (d3_local_size g) i) [0..<3] of
           Some i \<Rightarrow> dev_in_halo g i indices
         | None \<Rightarrow> dev_GetAddrNoHaloFloat3D g x y z)"

subsection \<open>The structure of the kernels\<close>

text \<open>
  What \<open>FixupBufferPointers\<close> writes when the grid has a buffer. The pitch in bytes and the
  pointers to the halos are those of the device buffers.
\<close>

definition FixupDev :: "nat \<Rightarrow> (nat \<Rightarrow> bool \<Rightarrow> ptr) \<Rightarrow> 'g gridmpi_scheme \<Rightarrow> grid_dev3d \<Rightarrow>
    fault + ('g gridmpi_scheme \<times> grid_dev3d)" where
  "FixupDev pitch halo_dev g dev =
     foldE (\<lambda>i (g, dev).
         bindE (array_get (gm_halo_peer_fw g) (int i)) (\<lambda>_.
         bindE (array_get (gm_halo_peer_bw g) (int i)) (\<lambda>_.
           Inr (g\<lparr>gm_halo_peer_fw := (gm_halo_peer_fw g)[i := halo_dev i True],
                  gm_halo_peer_bw := (gm_halo_peer_bw g)[i := halo_dev i False]\<rparr>,
                dev\<lparr>d3_dim := upd (d3_dim dev) i (at (grid_size g) i),
                    d3_local_size := upd (d3_local_size dev) i (at (gm_local_size g) i),
                    d3_local_offset := upd (d3_local_offset dev) i (at (gm_local_offset g) i),
                    d3_halo := upd (d3_halo dev) i (halo_dev i False, halo_dev i True),
                    d3_halo_width := upd (d3_halo_width dev) i
                      (int_of_unsigned (at (gm_halo_bw_width g) i), int_of_unsigned (at (gm_halo_fw_width g) i))\<rparr>))))
       [0..<grid_num_dims g]
       (g, dev\<lparr>d3_p0 := data0 g, d3_diag := gm_halo_has_diagonal g,
               d3_pitch := int_of_size (pitch div grid_elm_size g)\<rparr>)"

subsection \<open>Agreement of the accessors\<close>

lemma int_of_size_id: "0 \<le> v \<Longrightarrow> v < 2 ^ 31 \<Longrightarrow> int_of_size (to_size v) = v"
  by (simp add: int_of_size_def int_of_unsigned_def)

definition dev_bounded :: "grid_dev3d \<Rightarrow> bool" where
  "dev_bounded g \<longleftrightarrow> (\<forall>i<3. 0 \<le> at (d3_local_size g) i \<and> 0 \<le> fst (at (d3_halo_width g) i) \<and>
     0 \<le> snd (at (d3_halo_width g) i) \<and>
     at (d3_local_size g) i + fst (at (d3_halo_width g) i) + snd (at (d3_halo_width g) i) < 2 ^ 31)"

lemma dev_boundedD:
  assumes "dev_bounded g" "i < 3"
  shows "int_of_size (to_size (at (d3_local_size g) i)) = at (d3_local_size g) i"
    "int_of_size (to_size (fst (at (d3_halo_width g) i))) = fst (at (d3_halo_width g) i)"
    "int_of_size (to_size (snd (at (d3_halo_width g) i))) = snd (at (d3_halo_width g) i)"
    "int (to_size (at (d3_local_size g) i)) = at (d3_local_size g) i"
  using assms by (auto simp: dev_bounded_def intro!: int_of_size_id)

definition dev_inside_dim :: "grid_dev3d \<Rightarrow> idx \<Rightarrow> nat \<Rightarrow> bool" where
  "dev_inside_dim g q i \<longleftrightarrow> 0 \<le> at q i \<and> at q i < at (d3_local_size g) i"

lemma find3: "List.find P [0..<3] = (if P 0 then Some 0 else if P 1 then Some 1 else if P 2 then Some 2 else None)"
  by (simp add: upt_rec numeral_3_eq_3 numeral_2_eq_2)

lemma dev_general:
  assumes "dev_bounded g" "q = dev_local g x y z"
  shows "dev_GetAddrFloat3D g x y z =
    (let ls = d3_local_size g; hw = d3_halo_width g; d = d3_diag g
     in if \<not> dev_inside_dim g q 0
        then (let y' = (if d then at q 1 + fst (at hw 1) else at q 1); z' = (if d then at q 2 + fst (at hw 2) else at q 2);
                  s1 = int_of_size (if d then to_size (at ls 1 + (fst (at hw 1) + snd (at hw 1))) else to_size (at ls 1))
              in if at q 0 < 0
                 then float_at (fst (at (d3_halo g) 0)) (dev_CalcOffset3D (at q 0 + fst (at hw 0)) y' z' (fst (at hw 0)) s1)
                 else float_at (snd (at (d3_halo g) 0)) (dev_CalcOffset3D (at q 0 - at ls 0) y' z' (snd (at hw 0)) s1))
        else if \<not> dev_inside_dim g q 1
        then (let z' = (if d then at q 2 + fst (at hw 2) else at q 2)
              in if at q 1 < 0
                 then float_at (fst (at (d3_halo g) 1)) (dev_CalcOffset3D (at q 0) (at q 1 + fst (at hw 1)) z' (at ls 0) (fst (at hw 1)))
                 else float_at (snd (at (d3_halo g) 1)) (dev_CalcOffset3D (at q 0) (at q 1 - at ls 1) z' (at ls 0) (snd (at hw 1))))
        else if \<not> dev_inside_dim g q 2
        then (if at q 2 < 0
              then float_at (fst (at (d3_halo g) 2)) (dev_CalcOffset3D (at q 0) (at q 1) (at q 2 + fst (at hw 2)) (at ls 0) (at ls 1))
              else float_at (snd (at (d3_halo g) 2)) (dev_CalcOffset3D (at q 0) (at q 1) (at q 2 - at ls 2) (at ls 0) (at ls 1)))
        else dev_GetAddrNoHaloFloat3DLocal g (at q 0) (at q 1) (at q 2))"
proof -
  have u: "[Suc 0..<3] = [1, 2]" "[1..<3] = [1, 2]" "[Suc 1..<3] = [2]" "[2..<3] = [2]" "[Suc 2..<3] = []" "[3..<3] = []"
    by (simp_all add: upt_rec numeral_3_eq_3)
  have lt: "(0::nat) < 3" "(1::nat) < 3" "(2::nat) < 3" by simp_all
  note b = dev_boundedD[OF assms(1) lt(1)] dev_boundedD[OF assms(1) lt(2)] dev_boundedD[OF assms(1) lt(3)]
  have l: "dev_GetAddrNoHaloFloat3D g x y z = dev_GetAddrNoHaloFloat3DLocal g (at q 0) (at q 1) (at q 2)"
    by (simp add: assms(2) dev_local_def dev_GetAddrNoHaloFloat3D_def dev_GetAddrNoHaloFloat3DLocal_def)
  note simps = dev_in_halo_def u b Let_def at_upd at_map2
  have h0: "dev_in_halo g 0 q = (let ls = d3_local_size g; hw = d3_halo_width g; d = d3_diag g;
      y' = (if d then at q 1 + fst (at hw 1) else at q 1); z' = (if d then at q 2 + fst (at hw 2) else at q 2);
      s1 = int_of_size (if d then to_size (at ls 1 + (fst (at hw 1) + snd (at hw 1))) else to_size (at ls 1))
    in if at q 0 < 0
       then float_at (fst (at (d3_halo g) 0)) (dev_CalcOffset3D (at q 0 + fst (at hw 0)) y' z' (fst (at hw 0)) s1)
       else float_at (snd (at (d3_halo g) 0)) (dev_CalcOffset3D (at q 0 - at ls 0) y' z' (snd (at hw 0)) s1))"
    by (cases "d3_diag g"; cases "at q 0 < 0") (simp_all add: simps del: One_nat_def)
  have h1: "dev_in_halo g 1 q = (let ls = d3_local_size g; hw = d3_halo_width g;
      z' = (if d3_diag g then at q 2 + fst (at hw 2) else at q 2)
    in if at q 1 < 0
       then float_at (fst (at (d3_halo g) 1)) (dev_CalcOffset3D (at q 0) (at q 1 + fst (at hw 1)) z' (at ls 0) (fst (at hw 1)))
       else float_at (snd (at (d3_halo g) 1)) (dev_CalcOffset3D (at q 0) (at q 1 - at ls 1) z' (at ls 0) (snd (at hw 1))))"
    by (cases "d3_diag g"; cases "at q 1 < 0") (simp_all add: simps del: One_nat_def)
  have h2: "dev_in_halo g 2 q = (let ls = d3_local_size g; hw = d3_halo_width g
    in if at q 2 < 0
       then float_at (fst (at (d3_halo g) 2)) (dev_CalcOffset3D (at q 0) (at q 1) (at q 2 + fst (at hw 2)) (at ls 0) (at ls 1))
       else float_at (snd (at (d3_halo g) 2)) (dev_CalcOffset3D (at q 0) (at q 1) (at q 2 - at ls 2) (at ls 0) (at ls 1)))"
    by (cases "d3_diag g"; cases "at q 2 < 0") (simp_all add: simps del: One_nat_def)
  show ?thesis
    unfolding dev_GetAddrFloat3D_def find3 assms(2)[symmetric] Let_def[of q] l
    using h0 h1 h2 by (auto simp: dev_inside_dim_def Let_def not_le not_less simp del: One_nat_def)
qed

text \<open>The two accessors of the last dimension, and then those that call them.\<close>

lemma dev_2_agree:
  assumes "dev_bounded g" "q = dev_local g x y z" "dev_inside_dim g q 0" "dev_inside_dim g q 1"
  shows "0 \<le> at q 2 \<longrightarrow> dev_GetAddrFloat3D_2_fw g x y z = dev_GetAddrFloat3D g x y z"
    and "at q 2 < at (d3_local_size g) 2 \<longrightarrow> dev_GetAddrFloat3D_2_bw g x y z = dev_GetAddrFloat3D g x y z"
  unfolding dev_general[OF assms(1,2)]
  using assms(3,4) by (simp_all add: dev_GetAddrFloat3D_2_fw_def dev_GetAddrFloat3D_2_bw_def dev_inside_dim_def
      at_upd Let_def not_less flip: assms(2) del: One_nat_def)

lemma dev_1_agree:
  assumes "dev_bounded g" "q = dev_local g x y z" "dev_inside_dim g q 0"
  shows "0 \<le> at q 1 \<longrightarrow> dev_GetAddrFloat3D_1_fw g x y z = dev_GetAddrFloat3D g x y z"
    and "at q 1 < at (d3_local_size g) 1 \<longrightarrow> dev_GetAddrFloat3D_1_bw g x y z = dev_GetAddrFloat3D g x y z"
proof -
  have in1: "dev_GetAddrFloat3D g x y z =
      (if at q 2 < at (d3_local_size g) 2 \<and> at q 2 \<ge> 0 then dev_GetAddrNoHaloFloat3DLocal g (at q 0) (at q 1) (at q 2)
       else if at q 2 \<ge> at (d3_local_size g) 2 then dev_GetAddrFloat3D_2_fw g x y z
       else dev_GetAddrFloat3D_2_bw g x y z)" if i: "dev_inside_dim g q 1"
  proof (cases "at q 2 < at (d3_local_size g) 2 \<and> at q 2 \<ge> 0")
    case True
    then show ?thesis unfolding dev_general[OF assms(1,2)] using assms(3) i
      by (simp add: dev_inside_dim_def Let_def del: One_nat_def)
  next
    case False
    have "0 \<le> at (d3_local_size g) 2" using assms(1) by (simp add: dev_bounded_def)
    then show ?thesis using False dev_2_agree[OF assms i] by auto
  qed
  have out1: "dev_GetAddrFloat3D g x y z =
      (let ls = d3_local_size g; hw = d3_halo_width g; z' = (if d3_diag g then at q 2 + fst (at hw 2) else at q 2)
       in if at q 1 < 0
          then float_at (fst (at (d3_halo g) 1)) (dev_CalcOffset3D (at q 0) (at q 1 + fst (at hw 1)) z' (at ls 0) (fst (at hw 1)))
          else float_at (snd (at (d3_halo g) 1)) (dev_CalcOffset3D (at q 0) (at q 1 - at ls 1) z' (at ls 0) (snd (at hw 1))))"
    if "\<not> dev_inside_dim g q 1"
    unfolding dev_general[OF assms(1,2)] using assms(3) that by (simp add: Let_def)
  have ls: "0 \<le> at (d3_local_size g) 1" using assms(1) by (simp add: dev_bounded_def)
  show "0 \<le> at q 1 \<longrightarrow> dev_GetAddrFloat3D_1_fw g x y z = dev_GetAddrFloat3D g x y z"
  proof (cases "dev_inside_dim g q 1")
    case True
    then show ?thesis unfolding in1[OF True]
      by (simp add: dev_GetAddrFloat3D_1_fw_def Let_def dev_inside_dim_def flip: assms(2) del: One_nat_def)
  next
    case False
    show ?thesis
    proof
      assume "0 \<le> at q 1"
      then have "\<not> at q 1 < 0 \<and> \<not> at q 1 < at (d3_local_size g) 1" using False by (auto simp: dev_inside_dim_def)
      then show "dev_GetAddrFloat3D_1_fw g x y z = dev_GetAddrFloat3D g x y z" using False unfolding out1[OF False]
        by (simp add: dev_GetAddrFloat3D_1_fw_def Let_def at_upd flip: assms(2) del: One_nat_def)
    qed
  qed
  show "at q 1 < at (d3_local_size g) 1 \<longrightarrow> dev_GetAddrFloat3D_1_bw g x y z = dev_GetAddrFloat3D g x y z"
  proof (cases "dev_inside_dim g q 1")
    case True
    then show ?thesis unfolding in1[OF True]
      by (simp add: dev_GetAddrFloat3D_1_bw_def Let_def dev_inside_dim_def flip: assms(2) del: One_nat_def)
  next
    case False
    show ?thesis
    proof
      assume "at q 1 < at (d3_local_size g) 1"
      then have "at q 1 < 0" using False by (auto simp: dev_inside_dim_def)
      then show "dev_GetAddrFloat3D_1_bw g x y z = dev_GetAddrFloat3D g x y z" using False unfolding out1[OF False]
        by (simp add: dev_GetAddrFloat3D_1_bw_def Let_def at_upd flip: assms(2) del: One_nat_def)
    qed
  qed
qed

lemma dev_0_agree:
  assumes "dev_bounded g" "q = dev_local g x y z"
  shows "0 \<le> at q 0 \<longrightarrow> dev_GetAddrFloat3D_0_fw g x y z = dev_GetAddrFloat3D g x y z"
    and "at q 0 < at (d3_local_size g) 0 \<longrightarrow> dev_GetAddrFloat3D_0_bw g x y z = dev_GetAddrFloat3D g x y z"
proof -
  have ls: "0 \<le> at (d3_local_size g) 1" "0 \<le> at (d3_local_size g) 2" using assms(1) by (simp_all add: dev_bounded_def)
  have in0: "dev_inside g q x y z = dev_GetAddrFloat3D g x y z" if i: "dev_inside_dim g q 0"
  proof (cases "at q 1 < at (d3_local_size g) 1 \<and> at q 1 \<ge> 0 \<and> at q 2 < at (d3_local_size g) 2 \<and> at q 2 \<ge> 0")
    case True
    then show ?thesis unfolding dev_general[OF assms] using i
      by (simp add: dev_inside_def dev_inside_dim_def Let_def del: One_nat_def)
  next
    case False
    show ?thesis
    proof (cases "dev_inside_dim g q 1")
      case True
      then show ?thesis using False dev_2_agree[OF assms i True] ls
        by (auto simp: dev_inside_def dev_inside_dim_def simp del: One_nat_def)
    next
      case o: False
      then show ?thesis using False dev_1_agree[OF assms i] ls
        by (auto simp: dev_inside_def dev_inside_dim_def simp del: One_nat_def)
    qed
  qed
  have b: "int (to_size (at (d3_local_size g) 1)) = at (d3_local_size g) 1"
    using dev_boundedD(4)[OF assms(1), of 1] by simp
  show "0 \<le> at q 0 \<longrightarrow> dev_GetAddrFloat3D_0_fw g x y z = dev_GetAddrFloat3D g x y z"
  proof (cases "dev_inside_dim g q 0")
    case True
    then show ?thesis using in0[OF True]
      by (simp add: dev_GetAddrFloat3D_0_fw_def Let_def dev_inside_dim_def flip: assms(2) del: One_nat_def)
  next
    case False
    show ?thesis
    proof
      assume "0 \<le> at q 0"
      then have "\<not> at q 0 < 0 \<and> \<not> at q 0 < at (d3_local_size g) 0" using False by (auto simp: dev_inside_dim_def)
      then show "dev_GetAddrFloat3D_0_fw g x y z = dev_GetAddrFloat3D g x y z" using False unfolding dev_general[OF assms]
        by (simp add: dev_GetAddrFloat3D_0_fw_def Let_def at_upd b flip: assms(2) del: One_nat_def)
    qed
  qed
  show "at q 0 < at (d3_local_size g) 0 \<longrightarrow> dev_GetAddrFloat3D_0_bw g x y z = dev_GetAddrFloat3D g x y z"
  proof (cases "dev_inside_dim g q 0")
    case True
    then show ?thesis using in0[OF True]
      by (simp add: dev_GetAddrFloat3D_0_bw_def Let_def dev_inside_dim_def flip: assms(2) del: One_nat_def)
  next
    case False
    show ?thesis
    proof
      assume "at q 0 < at (d3_local_size g) 0"
      then have "at q 0 < 0" using False by (auto simp: dev_inside_dim_def)
      then show "dev_GetAddrFloat3D_0_bw g x y z = dev_GetAddrFloat3D g x y z" using False unfolding dev_general[OF assms]
        by (simp add: dev_GetAddrFloat3D_0_bw_def Let_def at_upd b flip: assms(2) del: One_nat_def)
    qed
  qed
qed

text \<open>the accessors for one direction, which the translator uses when it knows on which side
  of the local part an access can fall, give the address of the general accessor wherever
  the index is inside the local part in the dimensions before theirs and not on the other
  side in their own, with and without diagonal halos.
\<close>

theorem directed_accessors_agree:
  assumes "dev_bounded g" "q = dev_local g x y z"
  shows "(0 \<le> at q 0 \<longrightarrow> dev_GetAddrFloat3D_0_fw g x y z = dev_GetAddrFloat3D g x y z) \<and>
    (at q 0 < at (d3_local_size g) 0 \<longrightarrow> dev_GetAddrFloat3D_0_bw g x y z = dev_GetAddrFloat3D g x y z) \<and>
    (dev_inside_dim g q 0 \<longrightarrow>
      (0 \<le> at q 1 \<longrightarrow> dev_GetAddrFloat3D_1_fw g x y z = dev_GetAddrFloat3D g x y z) \<and>
      (at q 1 < at (d3_local_size g) 1 \<longrightarrow> dev_GetAddrFloat3D_1_bw g x y z = dev_GetAddrFloat3D g x y z) \<and>
      (dev_inside_dim g q 1 \<longrightarrow>
        (0 \<le> at q 2 \<longrightarrow> dev_GetAddrFloat3D_2_fw g x y z = dev_GetAddrFloat3D g x y z) \<and>
        (at q 2 < at (d3_local_size g) 2 \<longrightarrow> dev_GetAddrFloat3D_2_bw g x y z = dev_GetAddrFloat3D g x y z)))"
  using dev_0_agree[OF assms] dev_1_agree[OF assms] dev_2_agree[OF assms] by blast

definition demo_dev :: grid_dev3d where
  "demo_dev = \<lparr>d3_p0 = Ptr 0 0, d3_dim = Arr3 8 8 8, d3_local_size = Arr3 4 4 4, d3_local_offset = Arr3 4 0 4,
     d3_pitch = 4, d3_halo = Arr3 (Ptr 1 0, Ptr 2 0) (Ptr 3 0, Ptr 4 0) (Ptr 5 0, Ptr 6 0),
     d3_halo_width = Arr3 (1, 1) (1, 1) (1, 1), d3_diag = True\<rparr>"

theorem directed_accessors_agree_witness:
  "dev_GetAddrFloat3D_0_bw demo_dev 3 1 2 = dev_GetAddrFloat3D demo_dev 3 1 2 \<and>
   dev_GetAddrFloat3D_1_fw demo_dev 5 4 3 = dev_GetAddrFloat3D demo_dev 5 4 3"
proof -
  have b: "dev_bounded demo_dev" by (simp add: dev_bounded_def demo_dev_def all_less_num)
  show ?thesis
    using directed_accessors_agree[OF b, of "dev_local demo_dev 3 1 2" 3 1 2, OF refl]
      directed_accessors_agree[OF b, of "dev_local demo_dev 5 4 3" 5 4 3, OF refl]
    by (simp add: demo_dev_def dev_local_def dev_inside_dim_def)
qed

end
