(* ===== verification/Halo_Layers.thy ===== *)
theory Halo_Layers imports Grid_MPI begin

text \<open>
  The shape and the contents of a halo without diagonal points: the layers of width \<open>w\<close> at
  one side of the local part, their sizes as \<open>GridMPI\<close> computes them, and their bytes.
\<close>

subsection \<open>Sizes\<close>

text \<open>A local part that is not empty and whose sizes the code's types can hold.\<close>

definition part_ok :: "nat \<Rightarrow> nat \<Rightarrow> idx \<Rightarrow> bool" where
  "part_ok nd e ls \<longleftrightarrow> 1 \<le> nd \<and> nd \<le> 3 \<and> 0 < e \<and> accumulate ls nd * int e < 2 ^ 64 \<and>
     (\<forall>i < nd. 0 < at ls i \<and> at ls i < 2 ^ 31)"

definition layer_size :: "idx \<Rightarrow> nat \<Rightarrow> nat \<Rightarrow> idx" where
  "layer_size ls d w = upd ls d (int w)"

definition layer_bytes :: "nat \<Rightarrow> nat \<Rightarrow> idx \<Rightarrow> nat \<Rightarrow> nat \<Rightarrow> nat" where
  "layer_bytes nd e ls d w = nat (accumulate (layer_size ls d w) nd) * e"

lemma at_layer: "d < 3 \<Longrightarrow> i < 3 \<Longrightarrow> at (layer_size ls d w) i = (if i = d then int w else at ls i)"
  by (auto simp: layer_size_def at_upd)

lemma accumulate_mono_dims:
  assumes "m \<le> n" "\<And>i. i < n \<Longrightarrow> 0 < at s i"
  shows "accumulate s m \<le> accumulate s n"
  using assms
proof (induction n rule: dec_induct)
  case base
  then show ?case by simp
next
  case (step n)
  have "0 \<le> accumulate s n" using step.prems by (intro accumulate_nonneg) (auto intro: less_imp_le)
  moreover have "1 \<le> at s n" using step.prems[of n] by simp
  ultimately have "accumulate s n * 1 \<le> accumulate s n * at s n" by (intro mult_left_mono)
  then show ?case using step by simp
qed

lemma layer_le:
  assumes "part_ok nd e ls" "d < nd" "int w \<le> at ls d" "n \<le> nd"
  shows "0 \<le> accumulate (layer_size ls d w) n" "accumulate (layer_size ls d w) n \<le> accumulate ls nd"
proof -
  have i: "0 \<le> at (layer_size ls d w) i \<and> at (layer_size ls d w) i \<le> at ls i" if "i < n" for i
    using assms that by (auto simp: part_ok_def at_layer order_less_imp_le)
  show "0 \<le> accumulate (layer_size ls d w) n" using i by (intro accumulate_nonneg) auto
  have "accumulate (layer_size ls d w) n \<le> accumulate ls n" using i by (intro accumulate_mono) auto
  also have "\<dots> \<le> accumulate ls nd" using assms by (intro accumulate_mono_dims) (auto simp: part_ok_def)
  finally show "accumulate (layer_size ls d w) n \<le> accumulate ls nd" .
qed

lemma part_small:
  assumes "part_ok nd e ls"
  shows "accumulate ls nd < 2 ^ 64" "0 < accumulate ls nd" "nat (accumulate ls nd) * e < 2 ^ 64"
proof -
  have pos: "0 \<le> accumulate ls nd" using assms by (intro accumulate_nonneg) (auto simp: part_ok_def intro: less_imp_le)
  moreover have "accumulate ls nd \<noteq> 0" using assms by (auto simp: accumulate_eq_0_iff part_ok_def)
  ultimately show "0 < accumulate ls nd" by simp
  have "accumulate ls nd * 1 \<le> accumulate ls nd * int e" using assms pos by (intro mult_left_mono) (auto simp: part_ok_def)
  then show "accumulate ls nd < 2 ^ 64" using assms by (auto simp: part_ok_def)
  have "nat (accumulate ls nd) * e = nat (accumulate ls nd * int e)" using pos by (simp add: nat_mult_distrib)
  then show "nat (accumulate ls nd) * e < 2 ^ 64"
    using assms pos by (simp add: part_ok_def nat_less_iff)
qed

lemma layer_bytes_le:
  assumes "part_ok nd e ls" "d < nd" "int w \<le> at ls d"
  shows "layer_bytes nd e ls d w \<le> nat (accumulate ls nd) * e" "layer_bytes nd e ls d w < 2 ^ 64"
proof -
  show le: "layer_bytes nd e ls d w \<le> nat (accumulate ls nd) * e"
    unfolding layer_bytes_def using layer_le[OF assms order_refl] by (intro mult_right_mono nat_mono) auto
  show "layer_bytes nd e ls d w < 2 ^ 64" using le part_small(3)[OF assms(1)] by linarith
qed

lemma layer_bytes_pos:
  assumes "part_ok nd e ls" "d < nd" "int w \<le> at ls d" "0 < w"
  shows "0 < layer_bytes nd e ls d w"
proof -
  have nd: "d < 3" "\<And>i. i < nd \<Longrightarrow> i < 3" using assms by (auto simp: part_ok_def)
  have "accumulate (layer_size ls d w) nd \<noteq> 0"
    unfolding accumulate_eq_0_iff
  proof clarify
    fix i assume i: "i < nd" "at (layer_size ls d w) i = 0"
    have "0 < at ls i" using assms(1) i(1) by (simp add: part_ok_def)
    then show False using i(2) at_layer[OF nd(1) nd(2)[OF i(1)], of ls w] assms(4) by (simp split: if_splits)
  qed
  then show ?thesis using layer_le(1)[OF assms(1-3) order_refl] assms(1)
    by (simp add: layer_bytes_def part_ok_def)
qed

lemma CalcHaloSize_layer:
  assumes "part_ok (grid_num_dims g) e (gm_local_size g)" "d < grid_num_dims g" "int w \<le> at (gm_local_size g) d"
  shows "CalcHaloSize g d w False = nat (accumulate (layer_size (gm_local_size g) d w) (grid_num_dims g))"
    (is "_ = nat (accumulate ?s ?nd)")
proof -
  let ?ls = "gm_local_size g"
  have nd: "d < 3" "?nd \<le> 3" using assms by (auto simp: part_ok_def)
  have "fold (\<lambda>i s. if i = d then size_mult s w
       else let edge_width = to_size (at ?ls i)
            in size_mult s (if False \<and> d < i then size_add edge_width (halo_edge g i) else edge_width))
     [0..<n] 1 = nat (accumulate ?s n)" if "n \<le> ?nd" for n
    using that
  proof (induction n)
    case 0
    then show ?case by simp
  next
    case (Suc n)
    have ls: "0 < at ?ls n" "at ?ls n < 2 ^ 31" using assms(1) Suc.prems by (auto simp: part_ok_def)
    note le = layer_le[OF assms Suc.prems]
    have "accumulate ?s (Suc n) < 2 ^ 64" using le(2) part_small(1)[OF assms(1)] by linarith
    then have small: "nat (accumulate ?s n) * nat (at ?s n) < 2 ^ 64"
      using layer_le(1)[OF assms, of n] Suc.prems by (simp flip: nat_mult_distrib add: nat_less_iff le(1)[simplified])
    have e: "nat (accumulate ?s (Suc n)) = nat (accumulate ?s n) * nat (at ?s n)"
      using layer_le(1)[OF assms, of n] Suc.prems by (simp add: nat_mult_distrib)
    have edge: "nat (at ?s n) = (if n = d then w else to_size (at ?ls n))"
      using nd ls Suc.prems by (simp add: at_layer)
    have "size_mult (nat (accumulate ?s n)) (nat (at ?s n)) = nat (accumulate ?s (Suc n))"
      using small e by (simp only: size_mult_id)
    then show ?case using Suc.IH Suc.prems edge by (cases "n = d") (simp_all del: accumulate_Suc)
  qed
  then show ?thesis by (simp add: CalcHaloSize_def)
qed

lemma halo_bytes_layer:
  assumes "part_ok (grid_num_dims g) (grid_elm_size g) (gm_local_size g)" "d < grid_num_dims g"
    "int w \<le> at (gm_local_size g) d"
  shows "size_mult (CalcHaloSize g d w False) (grid_elm_size g) =
    layer_bytes (grid_num_dims g) (grid_elm_size g) (gm_local_size g) d w"
  using layer_bytes_le(2)[OF assms] by (simp add: CalcHaloSize_layer[OF assms] layer_bytes_def)

text \<open>The array of sizes of a halo: 0 in the dimensions the grid does not have.\<close>

definition halo_shape :: "nat \<Rightarrow> idx \<Rightarrow> nat \<Rightarrow> nat \<Rightarrow> idx" where
  "halo_shape nd ls d w = fold (\<lambda>i s. upd s i (if i = d then int w else at ls i)) [0..<nd] IntegerArray0"

lemma at_halo_shape:
  assumes "nd \<le> 3" "i < 3"
  shows "at (halo_shape nd ls d w) i = (if i < nd then if i = d then int w else at ls i else 0)"
  using assms(1)
proof (induction nd)
  case 0
  then show ?case by (simp add: halo_shape_def)
next
  case (Suc n)
  then show ?case using assms(2) by (simp add: halo_shape_def at_upd less_Suc_eq)
qed

lemma SetHaloSize_shape:
  assumes "w < 2 ^ 31"
  shows "SetHaloSize d True w False g = g\<lparr>gm_halo_fw_size :=
      upd (gm_halo_fw_size g) d (halo_shape (grid_num_dims g) (gm_local_size g) d w)\<rparr>"
    "SetHaloSize d False w False g = g\<lparr>gm_halo_bw_size :=
      upd (gm_halo_bw_size g) d (halo_shape (grid_num_dims g) (gm_local_size g) d w)\<rparr>"
proof -
  have "int_of_unsigned w = int w" using assms by (simp add: int_of_unsigned_def)
  then have "(\<lambda>i s. if i = d then upd s i (int_of_unsigned w)
            else upd s i (if False \<and> d < i
               then int_of_unsigned (to_unsigned (at (gm_local_size g) i + int (halo_edge g i)))
               else at (gm_local_size g) i)) =
    (\<lambda>i s. upd s i (if i = d then int w else at (gm_local_size g) i))"
    by (auto simp: fun_eq_iff)
  then show "SetHaloSize d True w False g = g\<lparr>gm_halo_fw_size :=
      upd (gm_halo_fw_size g) d (halo_shape (grid_num_dims g) (gm_local_size g) d w)\<rparr>"
    "SetHaloSize d False w False g = g\<lparr>gm_halo_bw_size :=
      upd (gm_halo_bw_size g) d (halo_shape (grid_num_dims g) (gm_local_size g) d w)\<rparr>"
    by (simp_all only: SetHaloSize_def halo_shape_def Let_def if_True if_False simp_thms)
qed

subsection \<open>Bytes\<close>

text \<open>The first layers of the part, or its last ones.\<close>

definition layer_offset :: "idx \<Rightarrow> nat \<Rightarrow> nat \<Rightarrow> bool \<Rightarrow> idx" where
  "layer_offset ls d w first = (if first then IntegerArray0 else upd IntegerArray0 d (at ls d - int w))"

definition layer :: "nat \<Rightarrow> nat \<Rightarrow> idx \<Rightarrow> nat \<Rightarrow> nat \<Rightarrow> bool \<Rightarrow> 'a list \<Rightarrow> 'a list" where
  "layer nd e ls d w first D = subgrid e nd ls (layer_offset ls d w first) (layer_size ls d w) D"

lemma at_layer_offset: "d < 3 \<Longrightarrow> i < 3 \<Longrightarrow>
    at (layer_offset ls d w first) i = (if \<not> first \<and> i = d then at ls d - int w else 0)"
  by (auto simp: layer_offset_def at_upd)

lemma layer_fits:
  assumes "part_ok nd e ls" "d < nd" "int w \<le> at ls d"
  shows "copy_fits e nd ls (layer_offset ls d w first) (layer_size ls d w)"
proof -
  have "d < 3" "\<And>i. i < nd \<Longrightarrow> i < 3" using assms by (auto simp: part_ok_def)
  then show ?thesis using assms
    by (auto simp: copy_fits_def part_ok_def box_in_def at_layer at_layer_offset order_less_imp_le)
qed

lemma length_layer:
  assumes "part_ok nd e ls" "d < nd" "int w \<le> at ls d" "nat (accumulate ls nd) * e \<le> length D"
  shows "length (layer nd e ls d w first D) = layer_bytes nd e ls d w"
  using length_subgrid[OF layer_fits[OF assms(1-3)] assms(4)] by (simp add: layer_def layer_bytes_def)

lemma elem_layer:
  assumes "part_ok nd e ls" "d < nd" "int w \<le> at ls d" "nat (accumulate ls nd) * e \<le> length D"
    and "in_box nd q (layer_size ls d w)"
  shows "elem e (layer nd e ls d w first D) (nat (lin nd q (layer_size ls d w))) =
    elem e D (nat (lin nd (arr_plus (layer_offset ls d w first) q) ls))"
  using elem_subgrid[OF layer_fits[OF assms(1-3)] assms(4,5)] by (simp add: layer_def)

text \<open>In the last dimension the layers are a run of the data.\<close>

definition layer_start :: "nat \<Rightarrow> idx \<Rightarrow> nat \<Rightarrow> bool \<Rightarrow> nat" where
  "layer_start d ls w first = (if first then 0 else nat ((at ls d - int w) * accumulate ls d))"

lemma elem_take_drop: "k < n \<Longrightarrow> elem e (take (n * e) (drop (m * e) D)) k = elem e D (m + k)"
proof -
  assume "k < n"
  then have le: "k * e + e \<le> n * e" using elem_bound[of k n e "n * e"] by simp
  have "take e (drop (k * e) (take (n * e) (drop (m * e) D))) = take e (take (n * e - k * e) (drop (k * e) (drop (m * e) D)))"
    by (simp only: drop_take)
  also have "\<dots> = take e (drop ((m + k) * e) D)" using le by (simp add: min_def add_mult_distrib add.commute)
  finally show ?thesis by (simp add: elem_def)
qed

lemma lin_cong2:
  "(\<And>i. i < n \<Longrightarrow> at p i = at q i) \<Longrightarrow> (\<And>i. i < n \<Longrightarrow> at s i = at t i) \<Longrightarrow> lin n p s = lin n q t"
proof (induction n)
  case (Suc n)
  then have "accumulate s n = accumulate t n" by (intro accumulate_cong) simp
  then show ?case using Suc by simp
qed simp

lemma layer_last:
  assumes "part_ok (Suc d) e ls" "int w \<le> at ls d" "nat (accumulate ls (Suc d)) * e \<le> length D"
  shows "layer (Suc d) e ls d w first D = take (layer_bytes (Suc d) e ls d w) (drop (layer_start d ls w first * e) D)"
    and "layer_start d ls w first * e + layer_bytes (Suc d) e ls d w \<le> length D"
proof -
  let ?n = "nat (accumulate (layer_size ls d w) (Suc d))" and ?m = "layer_start d ls w first" and ?s = "layer_size ls d w"
  have d: "d < 3" "\<And>i. i < Suc d \<Longrightarrow> i < 3" using assms by (auto simp: part_ok_def)
  have same: "at ?s i = at ls i" if "i < d" for i using that d by (simp add: at_layer)
  have acc: "accumulate ?s d = accumulate ls d" using d by (intro accumulate_cong) (simp add: at_layer)
  have pos: "0 \<le> accumulate ls d" using assms(1) by (intro accumulate_nonneg) (auto simp: part_ok_def intro: less_imp_le)
  have sn: "accumulate ?s (Suc d) = accumulate ls d * int w" using acc d by (simp add: at_layer)
  have "accumulate ls d * int w \<le> accumulate ls d * at ls d" using pos assms(2) by (rule mult_left_mono[rotated])
  moreover have m: "int ?m = (if first then 0 else accumulate ls d * at ls d - accumulate ls d * int w)"
  proof -
    have "0 \<le> (at ls d - int w) * accumulate ls d" using pos assms(2) by (intro mult_nonneg_nonneg) auto
    then have "int ?m = (if first then 0 else (at ls d - int w) * accumulate ls d)" by (simp add: layer_start_def)
    also have "\<dots> = (if first then 0 else accumulate ls d * at ls d - accumulate ls d * int w)"
      by (simp add: algebra_simps)
    finally show ?thesis .
  qed
  ultimately have "int ?m + accumulate ?s (Suc d) \<le> accumulate ls (Suc d)"
    unfolding sn by simp
  moreover have "0 \<le> accumulate ?s (Suc d)" unfolding sn using pos by simp
  ultimately have "?m + ?n \<le> nat (accumulate ls (Suc d))"
    using nat_mono[of "int ?m + accumulate ?s (Suc d)"] by (simp add: nat_add_distrib del: accumulate_Suc)
  then have "(?m + ?n) * e \<le> nat (accumulate ls (Suc d)) * e" by (rule mult_right_mono) simp
  then show len: "?m * e + layer_bytes (Suc d) e ls d w \<le> length D"
    using assms(3) by (simp add: layer_bytes_def add_mult_distrib)
  show "layer (Suc d) e ls d w first D = take (layer_bytes (Suc d) e ls d w) (drop (?m * e) D)"
  proof (rule elem_eqI)
    show "Suc d \<le> 3" "0 < e" using d assms(1) by (auto simp: part_ok_def)
    show "0 \<le> at ?s i" if "i < Suc d" for i using that d assms(1) by (auto simp: at_layer part_ok_def order_less_imp_le)
    show "length (layer (Suc d) e ls d w first D) = ?n * e"
      using length_layer[OF assms(1) lessI assms(2,3)] by (simp add: layer_bytes_def)
    show "length (take (layer_bytes (Suc d) e ls d w) (drop (?m * e) D)) = ?n * e"
      using len by (simp add: layer_bytes_def)
    fix q assume q: "in_box (Suc d) q ?s"
    have b: "0 \<le> lin (Suc d) q ?s" "lin (Suc d) q ?s < accumulate ?s (Suc d)" using lin_bounds[OF q] by auto
    have "lin d q ?s = lin d (arr_plus (layer_offset ls d w first) q) ls"
      by (rule lin_cong2) (use d same in \<open>simp_all add: at_arr_plus at_layer_offset\<close>)
    then have l: "lin (Suc d) (arr_plus (layer_offset ls d w first) q) ls = int ?m + lin (Suc d) q ?s"
      using d acc m by (simp add: at_arr_plus at_layer_offset algebra_simps)
    show "elem e (layer (Suc d) e ls d w first D) (nat (lin (Suc d) q ?s)) =
        elem e (take (layer_bytes (Suc d) e ls d w) (drop (?m * e) D)) (nat (lin (Suc d) q ?s))"
      using elem_layer[OF assms(1) lessI assms(2,3) q] l b
        elem_take_drop[of "nat (lin (Suc d) q ?s)" ?n e ?m D]
      by (simp add: layer_bytes_def nat_add_distrib zless_nat_conj nat_less_eq_zless)
  qed
qed

end
