(* ===== verification/Halo_Slots.thy ===== *)
theory Halo_Slots imports Halo_Layers begin

text \<open>
  The halo buffers of a grid: the slots that hold them, the invariant that every slot is
  empty or owns a block of its own, and the steps that keep it.
\<close>

subsection \<open>Slots\<close>

text \<open>
  A slot is one of the four arrays of halo buffers, \<open>(own, fw)\<close>, at a dimension. In the last
  dimension the own side is the data itself, so there is no slot for it.
\<close>

datatype slot = Slot bool bool nat

fun slot_valid :: "nat \<Rightarrow> slot \<Rightarrow> bool" where
  "slot_valid nd (Slot own fw d) \<longleftrightarrow> d < nd \<and> (own \<longrightarrow> Suc d < nd)"

fun slot_list :: "bool \<Rightarrow> bool \<Rightarrow> 'g gridmpi_scheme \<Rightarrow> ptr list" where
  "slot_list True True g = gm_halo_self_fw g"
| "slot_list True False g = gm_halo_self_bw g"
| "slot_list False True g = gm_halo_peer_fw g"
| "slot_list False False g = gm_halo_peer_bw g"

fun slot_caps :: "bool \<Rightarrow> bool \<Rightarrow> 'g gridmpi_scheme \<Rightarrow> nat arr3" where
  "slot_caps True True g = gm_halo_self_fw_buf_size g"
| "slot_caps True False g = gm_halo_self_bw_buf_size g"
| "slot_caps False True g = gm_halo_peer_fw_buf_size g"
| "slot_caps False False g = gm_halo_peer_bw_buf_size g"

fun halo_slot :: "'g gridmpi_scheme \<Rightarrow> slot \<Rightarrow> ptr" where
  "halo_slot g (Slot own fw d) = slot_list own fw g ! d"

fun halo_cap :: "'g gridmpi_scheme \<Rightarrow> slot \<Rightarrow> nat" where
  "halo_cap g (Slot own fw d) = at (slot_caps own fw g) d"

fun set_slot :: "slot \<Rightarrow> ptr \<Rightarrow> nat \<Rightarrow> 'g gridmpi_scheme \<Rightarrow> 'g gridmpi_scheme" where
  "set_slot (Slot True True d) p n g = g\<lparr>gm_halo_self_fw_buf_size := upd (gm_halo_self_fw_buf_size g) d n,
     gm_halo_self_fw := (gm_halo_self_fw g)[d := p]\<rparr>"
| "set_slot (Slot True False d) p n g = g\<lparr>gm_halo_self_bw_buf_size := upd (gm_halo_self_bw_buf_size g) d n,
     gm_halo_self_bw := (gm_halo_self_bw g)[d := p]\<rparr>"
| "set_slot (Slot False True d) p n g = g\<lparr>gm_halo_peer_fw := (gm_halo_peer_fw g)[d := p],
     gm_halo_peer_fw_buf_size := upd (gm_halo_peer_fw_buf_size g) d n\<rparr>"
| "set_slot (Slot False False d) p n g = g\<lparr>gm_halo_peer_bw := (gm_halo_peer_bw g)[d := p],
     gm_halo_peer_bw_buf_size := upd (gm_halo_peer_bw_buf_size g) d n\<rparr>"

text \<open>The fields an exchange does not change.\<close>

definition core :: "'g gridmpi_scheme \<Rightarrow> _" where
  "core g = (grid.truncate g, gm_empty g, gm_global_offset g, gm_local_offset g, gm_local_size g, gridmpi.more g)"

lemma core_fields:
  assumes "core g' = core g"
  shows "grid_num_dims g' = grid_num_dims g" "grid_elm_size g' = grid_elm_size g" "grid_size g' = grid_size g"
    "data0 g' = data0 g" "gm_empty g' = gm_empty g" "gm_local_offset g' = gm_local_offset g"
    "gm_local_size g' = gm_local_size g" "gm_global_offset g' = gm_global_offset g" "grid_id g' = grid_id g"
    "data_buffer0 g' = data_buffer0 g" "gridmpi.more g' = gridmpi.more g"
  using assms by (simp_all add: core_def grid.truncate_def)

definition lists_ok :: "'g gridmpi_scheme \<Rightarrow> bool" where
  "lists_ok g \<longleftrightarrow> grid_num_dims g \<le> 3 \<and> (\<forall>own fw. length (slot_list own fw g) = grid_num_dims g)"

lemma set_slot_core [simp]: "core (set_slot k p n g) = core g"
  by (rule set_slot.cases[of "(k, p, n, g)"]) (auto simp: core_def grid.truncate_def)

lemma set_slot_slot:
  assumes "lists_ok g" "slot_valid (grid_num_dims g) k" "slot_valid (grid_num_dims g) k'"
  shows "halo_slot (set_slot k p n g) k' = (if k' = k then p else halo_slot g k')"
    "halo_cap (set_slot k p n g) k' = (if k' = k then n else halo_cap g k')"
proof -
  obtain own fw d where k: "k = Slot own fw d" by (cases k)
  obtain own' fw' d' where k': "k' = Slot own' fw' d'" by (cases k')
  have len: "length (slot_list own fw g) = grid_num_dims g" "grid_num_dims g \<le> 3"
    using assms(1) by (auto simp: lists_ok_def)
  have d: "d < grid_num_dims g" "d' < grid_num_dims g" using assms(2,3) by (auto simp: k k')
  show "halo_slot (set_slot k p n g) k' = (if k' = k then p else halo_slot g k')"
    using len d by (cases own; cases fw; cases own'; cases fw') (auto simp: k k' nth_list_update)
  show "halo_cap (set_slot k p n g) k' = (if k' = k then n else halo_cap g k')"
    using len d by (cases own; cases fw; cases own'; cases fw') (auto simp: k k' at_upd)
qed

lemma set_slot_lists [simp]: "lists_ok g \<Longrightarrow> lists_ok (set_slot k p n g)"
proof -
  assume l: "lists_ok g"
  obtain own fw d where k: "k = Slot own fw d" by (cases k)
  have "length (slot_list own' fw' (set_slot k p n g)) = length (slot_list own' fw' g)" for own' fw'
    by (cases own; cases fw; cases own'; cases fw') (simp_all add: k)
  moreover have "grid_num_dims (set_slot k p n g) = grid_num_dims g"
    by (cases own; cases fw) (simp_all add: k)
  ultimately show ?thesis using l by (simp add: lists_ok_def)
qed

subsection \<open>The invariant of the buffers\<close>

text \<open>
  Every slot is empty or owns a live block of its recorded capacity; no two slots share a
  block, and none is the data.
\<close>

definition slot_ok :: "'g gridmpi_scheme \<Rightarrow> heap \<Rightarrow> slot \<Rightarrow> bool" where
  "slot_ok g h k \<longleftrightarrow> (halo_slot g k = Null \<and> halo_cap g k = 0) \<or>
     (\<exists>b cs. halo_slot g k = Ptr b 0 \<and> blocks h b = Some cs \<and> length cs = halo_cap g k \<and> data0 g \<noteq> Ptr b 0 \<and>
        (\<forall>k'. slot_valid (grid_num_dims g) k' \<longrightarrow> k' \<noteq> k \<longrightarrow> halo_slot g k' \<noteq> Ptr b 0))"

definition halo_ok :: "'g gridmpi_scheme \<Rightarrow> heap \<Rightarrow> bool" where
  "halo_ok g h \<longleftrightarrow> lists_ok g \<and> heap_ok h \<and> (\<exists>b. data0 g = Ptr b 0 \<and> blocks h b \<noteq> None) \<and>
     (\<forall>k. slot_valid (grid_num_dims g) k \<longrightarrow> slot_ok g h k)"

text \<open>A live block that belongs to no slot keeps its contents; new blocks come from free memory.\<close>

definition halo_frame :: "'g gridmpi_scheme \<Rightarrow> heap \<Rightarrow> 'g gridmpi_scheme \<Rightarrow> heap \<Rightarrow> bool" where
  "halo_frame g h g' h' \<longleftrightarrow> core g' = core g \<and>
     (\<forall>b cs. blocks h b = Some cs \<longrightarrow> (\<forall>k. slot_valid (grid_num_dims g) k \<longrightarrow> halo_slot g k \<noteq> Ptr b 0) \<longrightarrow>
        blocks h' b = Some cs) \<and>
     (\<forall>k b. slot_valid (grid_num_dims g) k \<longrightarrow> halo_slot g' k = Ptr b 0 \<longrightarrow>
        (\<exists>k'. slot_valid (grid_num_dims g) k' \<and> halo_slot g k' = Ptr b 0) \<or> blocks h b = None)"

text \<open>The first bytes of a slot's block.\<close>

definition slot_holds :: "'g gridmpi_scheme \<Rightarrow> heap \<Rightarrow> slot \<Rightarrow> cell list \<Rightarrow> bool" where
  "slot_holds g h k ys \<longleftrightarrow> (\<exists>b cs. halo_slot g k = Ptr b 0 \<and> blocks h b = Some cs \<and>
     length ys \<le> length cs \<and> take (length ys) cs = ys)"

lemma halo_frame_core: "halo_frame g h g' h' \<Longrightarrow> core g' = core g"
  by (simp add: halo_frame_def)

lemma halo_frame_live:
  assumes "halo_frame g h g' h'" "blocks h b = Some cs"
    "\<And>k. slot_valid (grid_num_dims g) k \<Longrightarrow> halo_slot g k \<noteq> Ptr b 0"
  shows "blocks h' b = Some cs"
  using assms by (simp add: halo_frame_def)

lemma halo_frame_new:
  assumes "halo_frame g h g' h'" "slot_valid (grid_num_dims g) k" "halo_slot g' k = Ptr b 0" "blocks h b = Some cs"
  shows "\<exists>k'. slot_valid (grid_num_dims g) k' \<and> halo_slot g k' = Ptr b 0"
  using assms unfolding halo_frame_def by (metis option.distinct(1))

lemma halo_frame_refl: "halo_frame g h g h"
  by (auto simp: halo_frame_def)

lemma halo_frame_trans:
  assumes "halo_frame g h g1 h1" "halo_frame g1 h1 g2 h2"
  shows "halo_frame g h g2 h2"
proof -
  let ?nd = "grid_num_dims g"
  have c: "core g1 = core g" "core g2 = core g1" using assms halo_frame_core by blast+
  have nd: "grid_num_dims g1 = ?nd" using core_fields(1)[OF c(1)] .
  have live: "blocks h2 b = Some cs" if b: "blocks h b = Some cs" "\<And>k. slot_valid ?nd k \<Longrightarrow> halo_slot g k \<noteq> Ptr b 0" for b cs
  proof (rule halo_frame_live[OF assms(2)])
    show "blocks h1 b = Some cs" by (rule halo_frame_live[OF assms(1) b])
    show "halo_slot g1 k \<noteq> Ptr b 0" if "slot_valid (grid_num_dims g1) k" for k
      using halo_frame_new[OF assms(1) _ _ b(1)] b(2) that nd by metis
  qed
  have new: "\<exists>k'. slot_valid ?nd k' \<and> halo_slot g k' = Ptr b 0"
    if k: "slot_valid ?nd k" "halo_slot g2 k = Ptr b 0" and cs: "blocks h b = Some cs" for k b cs
  proof (rule ccontr)
    assume n: "\<nexists>k'. slot_valid ?nd k' \<and> halo_slot g k' = Ptr b 0"
    then have "blocks h1 b = Some cs" using halo_frame_live[OF assms(1) cs] by blast
    then obtain k' where "slot_valid ?nd k'" "halo_slot g1 k' = Ptr b 0"
      using halo_frame_new[OF assms(2) _ k(2)] k(1) nd by auto
    then show False using halo_frame_new[OF assms(1) _ _ cs] n by blast
  qed
  show ?thesis unfolding halo_frame_def using c live new by (auto split: option.splits)
qed

lemma halo_frame_data:
  assumes "halo_frame g h g' h'" "halo_ok g h" "data0 g = Ptr b 0" "blocks h b = Some D"
  shows "data0 g' = Ptr b 0" "blocks h' b = Some D"
proof -
  have "core g' = core g" using assms(1) by (simp add: halo_frame_def)
  then show "data0 g' = Ptr b 0" using assms(3) core_fields(4) by metis
  have "halo_slot g k \<noteq> Ptr b 0" if "slot_valid (grid_num_dims g) k" for k
    using assms(2,3) that unfolding halo_ok_def slot_ok_def by (metis ptr.distinct(1))
  then show "blocks h' b = Some D" using assms(1,4) unfolding halo_frame_def by blast
qed

lemma halo_okD:
  assumes "halo_ok g h"
  shows "lists_ok g" "heap_ok h" "\<exists>b D. data0 g = Ptr b 0 \<and> blocks h b = Some D"
    "slot_valid (grid_num_dims g) k \<Longrightarrow> slot_ok g h k"
  using assms by (auto simp: halo_ok_def)

lemma slot_block:
  assumes "halo_ok g h" "slot_valid (grid_num_dims g) k" "halo_slot g k = Ptr b 0"
  shows "\<exists>cs. blocks h b = Some cs \<and> length cs = halo_cap g k" "data0 g \<noteq> Ptr b 0"
    "slot_valid (grid_num_dims g) k' \<Longrightarrow> k' \<noteq> k \<Longrightarrow> halo_slot g k' \<noteq> Ptr b 0"
  using halo_okD(4)[OF assms(1,2)] assms(3) by (auto simp: slot_ok_def)

lemma slot_offset:
  assumes "halo_ok g h" "slot_valid (grid_num_dims g) k"
  shows "(halo_slot g k = Null \<and> halo_cap g k = 0) \<or>
    (\<exists>b cs. halo_slot g k = Ptr b 0 \<and> blocks h b = Some cs \<and> length cs = halo_cap g k)"
  using halo_okD(4)[OF assms] by (auto simp: slot_ok_def)

subsection \<open>Steps that change some slots\<close>

text \<open>The step keeps the invariant and leaves all slots but those in \<open>K\<close> as they are.\<close>

definition keeps :: "slot set \<Rightarrow> 'g gridmpi_scheme \<times> heap \<Rightarrow> 'g gridmpi_scheme \<times> heap \<Rightarrow> bool" where
  "keeps K = (\<lambda>(g, h) (g', h'). halo_ok g' h' \<and> halo_frame g h g' h' \<and>
     (\<forall>k. slot_valid (grid_num_dims g) k \<longrightarrow> k \<notin> K \<longrightarrow> halo_slot g' k = halo_slot g k \<and>
        (\<forall>b. halo_slot g k = Ptr b 0 \<longrightarrow> blocks h' b = blocks h b)))"

lemma keepsD:
  assumes "keeps K (g, h) (g', h')"
  shows "halo_ok g' h'" "halo_frame g h g' h'" "grid_num_dims g' = grid_num_dims g" "core g' = core g"
    "slot_valid (grid_num_dims g) k \<Longrightarrow> k \<notin> K \<Longrightarrow> halo_slot g' k = halo_slot g k"
    "slot_valid (grid_num_dims g) k \<Longrightarrow> k \<notin> K \<Longrightarrow> halo_slot g k = Ptr b 0 \<Longrightarrow> blocks h' b = blocks h b"
  using assms halo_frame_core[of g h g' h'] core_fields(1)[of g' g] by (auto simp: keeps_def)

lemma keeps_refl: "halo_ok g h \<Longrightarrow> keeps K (g, h) (g, h)"
  by (auto simp: keeps_def halo_frame_refl)

lemma keeps_mono: "keeps K s s' \<Longrightarrow> K \<subseteq> K' \<Longrightarrow> keeps K' s s'"
  by (cases s; cases s') (auto simp: keeps_def)

lemma keeps_trans:
  assumes "keeps K (g, h) (g1, h1)" "keeps K (g1, h1) (g2, h2)"
  shows "keeps K (g, h) (g2, h2)"
proof -
  note a = keepsD[OF assms(1)] and b = keepsD[OF assms(2)]
  have "halo_slot g2 k = halo_slot g k \<and> (\<forall>b. halo_slot g k = Ptr b 0 \<longrightarrow> blocks h2 b = blocks h b)"
    if k: "slot_valid (grid_num_dims g) k" "k \<notin> K" for k
    using a(5)[OF k] b(5)[of k] a(6)[OF k] b(6)[of k] k a(3) by simp
  then show ?thesis using b(1) halo_frame_trans[OF a(2) b(2)] by (simp add: keeps_def)
qed

lemma keeps_holds:
  assumes "keeps K (g, h) (g', h')" "slot_valid (grid_num_dims g) k" "k \<notin> K" "slot_holds g h k ys"
  shows "slot_holds g' h' k ys"
  using assms(4) keepsD(5,6)[OF assms(1-3)] by (auto simp: slot_holds_def)

lemma keeps_data:
  assumes "keeps K (g, h) (g', h')" "halo_ok g h" "data0 g = Ptr b 0" "blocks h b = Some D"
  shows "data0 g' = Ptr b 0" "blocks h' b = Some D"
  using halo_frame_data[OF keepsD(2)[OF assms(1)] assms(2-4)] by auto

text \<open>Fields that are neither in the core nor a slot do not matter.\<close>

lemma keeps_meta:
  assumes "halo_ok g h" "core g' = core g" "\<And>own fw. length (slot_list own fw g') = length (slot_list own fw g)"
    and "\<And>k. slot_valid (grid_num_dims g) k \<Longrightarrow> halo_slot g' k = halo_slot g k \<and> halo_cap g' k = halo_cap g k"
  shows "keeps K (g, h) (g', h)"
proof -
  have c: "grid_num_dims g' = grid_num_dims g" "data0 g' = data0 g" using core_fields[OF assms(2)] by auto
  have "lists_ok g'" using halo_okD(1)[OF assms(1)] assms(3) c by (simp add: lists_ok_def)
  moreover have "slot_ok g' h k" if "slot_valid (grid_num_dims g) k" for k
    using halo_okD(4)[OF assms(1) that] assms(4) that c by (simp add: slot_ok_def)
  ultimately have "halo_ok g' h" using assms(1) c by (simp add: halo_ok_def)
  moreover have "halo_frame g h g' h" unfolding halo_frame_def using assms(2,4) by auto
  ultimately show ?thesis using assms(4) by (simp add: keeps_def)
qed

text \<open>A slot gets a new block, after its old block may have been freed.\<close>

lemma keeps_fresh:
  assumes ok: "halo_ok g h" and k: "slot_valid (grid_num_dims g) k"
    and h1: "heap_ok h1" "fresh h1 = fresh h" "\<And>b. blocks h1 b = blocks h b \<or> halo_slot g k = Ptr b 0"
    and n: "n \<le> avail h1" and m: "malloc n h1 = (p, h2)"
  shows "keeps {k} (g, h) (set_slot k p n g, h2)" "p = Ptr (fresh h) 0"
    "blocks h2 (fresh h) = Some (replicate n None)" "avail h2 + n = avail h1"
proof -
  let ?f = "fresh h" and ?g = "set_slot k p n g" and ?nd = "grid_num_dims g"
  have h2: "p = Ptr ?f 0" "blocks h2 = (blocks h1)(?f \<mapsto> replicate n None)" "avail h2 + n = avail h1" "fresh h2 = Suc ?f"
    using m n h1(2) by (auto simp: malloc_def alloc_ok)
  show "p = Ptr ?f 0" "blocks h2 ?f = Some (replicate n None)" "avail h2 + n = avail h1" using h2 by simp_all
  have free: "blocks h ?f = None" using halo_okD(2)[OF ok] by (simp add: heap_ok_def)
  have hok: "heap_ok h2" using h1(1,2) h2(2,4) by (simp add: heap_ok_def)
  have l: "lists_ok g" by (rule halo_okD(1)[OF ok])
  note s = set_slot_slot[OF l k]
  have nd: "grid_num_dims ?g = ?nd" using core_fields(1)[OF set_slot_core] .
  have d0: "data0 ?g = data0 g" using core_fields(4)[OF set_slot_core] .
  obtain db D where D: "data0 g = Ptr db 0" "blocks h db = Some D" using halo_okD(3)[OF ok] by blast
  have dk: "halo_slot g k \<noteq> Ptr db 0" using slot_block(2)[OF ok k] D(1) by blast
  have df: "db \<noteq> ?f" using D(2) free by auto
  have dh: "blocks h2 db = Some D" using h1(3)[of db] dk df D(2) h2(2) by auto
  have other: "blocks h2 b = blocks h b \<and> b \<noteq> ?f" if "slot_valid ?nd k'" "k' \<noteq> k" "halo_slot g k' = Ptr b 0" for k' b
  proof -
    have "halo_slot g k \<noteq> Ptr b 0" using slot_block(3)[OF ok that(1,3) k] that(2) by blast
    moreover have "b \<noteq> ?f" using slot_block(1)[OF ok that(1,3)] free by auto
    ultimately show ?thesis using h1(3)[of b] h2(2) by auto
  qed
  have old: "halo_slot g k' \<noteq> Ptr ?f 0" if "slot_valid ?nd k'" for k'
    using slot_block(1)[OF ok that, of ?f] free by auto
  have "slot_ok ?g h2 k'" if v: "slot_valid ?nd k'" for k'
  proof (cases "k' = k")
    case True
    have "halo_slot ?g k'' \<noteq> Ptr ?f 0" if "slot_valid ?nd k''" "k'' \<noteq> k" for k''
      using s(1)[OF that(1), of p n] that(2) old[OF that(1)] by simp
    moreover have "halo_slot ?g k = Ptr ?f 0" "halo_cap ?g k = n" using s[OF k, of p n] h2(1) by simp_all
    ultimately show ?thesis using True h2(2) d0 D(1) df by (auto simp: slot_ok_def nd)
  next
    case False
    then have sk: "halo_slot ?g k' = halo_slot g k'" "halo_cap ?g k' = halo_cap g k'" using s[OF v, of p n] by simp_all
    consider "halo_slot g k' = Null" "halo_cap g k' = 0" | b where "halo_slot g k' = Ptr b 0"
      using slot_offset[OF ok v] by (elim disjE conjE exE) simp_all
    then show ?thesis
    proof cases
      case 1
      then show ?thesis by (simp add: slot_ok_def sk)
    next
      case (2 b)
      obtain cs where cs: "blocks h b = Some cs" "length cs = halo_cap g k'" using slot_block(1)[OF ok v 2] by blast
      have "halo_slot ?g k'' \<noteq> Ptr b 0" if "slot_valid ?nd k''" "k'' \<noteq> k'" for k''
        using s(1)[OF that(1), of p n] slot_block(3)[OF ok v 2 that] h2(1) other[OF v False 2] by auto
      then show ?thesis using 2 cs other[OF v False 2] slot_block(2)[OF ok v 2]
        by (simp add: slot_ok_def sk d0 nd)
    qed
  qed
  then have gok: "halo_ok ?g h2" using hok l set_slot_lists D(1) dh by (simp add: halo_ok_def nd d0)
  have "halo_frame g h ?g h2"
    unfolding halo_frame_def
  proof (intro conjI allI impI)
    fix b cs assume b: "blocks h b = Some cs" "\<forall>k. slot_valid ?nd k \<longrightarrow> halo_slot g k \<noteq> Ptr b 0"
    then have "b \<noteq> ?f" using free by auto
    then show "blocks h2 b = Some cs" using h1(3)[of b] b k h2(2) by auto
  next
    fix k' b assume k': "slot_valid ?nd k'" "halo_slot ?g k' = Ptr b 0"
    show "(\<exists>k'. slot_valid ?nd k' \<and> halo_slot g k' = Ptr b 0) \<or> blocks h b = None"
      using s(1)[OF k'(1), of p n] k' h2(1) free by (cases "k' = k") auto
  qed simp
  moreover have "halo_slot ?g k' = halo_slot g k' \<and> (\<forall>b. halo_slot g k' = Ptr b 0 \<longrightarrow> blocks h2 b = blocks h b)"
    if "slot_valid ?nd k'" "k' \<noteq> k" for k'
    using s(1)[OF that(1), of p n] other[OF that] that(2) by simp
  ultimately show "keeps {k} (g, h) (?g, h2)" using gok by (simp add: keeps_def)
qed

lemma keeps_write:
  assumes ok: "halo_ok g h" and k: "slot_valid (grid_num_dims g) k" "halo_slot g k = Ptr b 0"
    and cs: "blocks h b = Some cs" "length cs' = length cs"
  shows "keeps {k} (g, h) (g, h\<lparr>blocks := (blocks h)(b \<mapsto> cs')\<rparr>)"
proof -
  let ?h = "h\<lparr>blocks := (blocks h)(b \<mapsto> cs')\<rparr>" and ?nd = "grid_num_dims g"
  have "heap_ok ?h" using halo_okD(2)[OF ok] cs(1) by (auto simp: heap_ok_def)
  moreover have "slot_ok g ?h k'" if v: "slot_valid ?nd k'" for k'
    using halo_okD(4)[OF ok v] cs slot_block(3)[OF ok k v] k by (fastforce simp: slot_ok_def)
  moreover have "\<exists>c. data0 g = Ptr c 0 \<and> blocks ?h c \<noteq> None" using halo_okD(3)[OF ok] by auto
  ultimately have "halo_ok g ?h" using halo_okD(1)[OF ok] by (simp add: halo_ok_def)
  moreover have "halo_frame g h g ?h" using k by (auto simp: halo_frame_def)
  moreover have "halo_slot g k' = Ptr c 0 \<longrightarrow> blocks ?h c = blocks h c" if "slot_valid ?nd k'" "k' \<noteq> k" for k' c
    using slot_block(3)[OF ok k that] by auto
  ultimately show ?thesis by (simp add: keeps_def)
qed

end
