(* ===== verification/Rounds.thy ===== *)
theory Rounds imports Schedules begin

text \<open>
  A round of communication in which every process first sends and then receives: the shape
  of an exchange of halos. One schedule lets all processes send and then each receive; by
  \<open>Schedules\<close> it stands for all of them.
\<close>

subsection \<open>Sending\<close>

definition send_all :: "(nat \<times> msg) list \<Rightarrow> 'a prog \<Rightarrow> 'a prog" where
  "send_all ss q = foldr (\<lambda>(d, m) p. Send d m p) ss q"

definition msgs_to :: "(nat \<times> msg) list \<Rightarrow> nat \<Rightarrow> msg list" where
  "msgs_to ss d = map snd (filter (\<lambda>(d', m). d' = d) ss)"

lemma send_all_simps [simp]:
  "send_all [] q = q" "send_all ((d, m) # ss) q = Send d m (send_all ss q)"
  by (simp_all add: send_all_def)

lemma send_all_append: "send_all (ss @ ts) q = send_all ss (send_all ts q)"
  by (simp add: send_all_def)

lemma bindP_send_all [simp]: "bindP (send_all ss q) f = send_all ss (bindP q f)"
  by (induction ss) auto

lemma msgs_to_simps [simp]:
  "msgs_to [] d = []" "msgs_to ((d', m) # ss) d = (if d' = d then m # msgs_to ss d else msgs_to ss d)"
  by (simp_all add: msgs_to_def)

lemma msgs_to_append [simp]: "msgs_to (ss @ ts) d = msgs_to ss d @ msgs_to ts d"
  by (simp add: msgs_to_def)

lemma msgs_to_none: "(\<And>x. x \<in> set ss \<Longrightarrow> fst x \<noteq> d) \<Longrightarrow> msgs_to ss d = []"
  by (force simp: msgs_to_def filter_empty_conv)

lemma send_all_run:
  assumes "i < length (procs c)" "procs c ! i = send_all ss q"
  shows "det_step\<^sup>*\<^sup>* c (c\<lparr>procs := (procs c)[i := q],
    chans := (chans c)(i := (\<lambda>d. chans c i d @ msgs_to ss d))\<rparr>)"
  using assms
proof (induction ss arbitrary: c)
  case Nil
  then have "(procs c)[i := q] = procs c" by (simp add: list_update_same_conv)
  then show ?case by simp
next
  case (Cons dm ss)
  obtain d m where dm: "dm = (d, m)" by (cases dm)
  let ?c = "c\<lparr>procs := (procs c)[i := send_all ss q],
      chans := (chans c)(i := (chans c i)(d := chans c i d @ [m]))\<rparr>"
  have "proc_step i c = Some ?c" using Cons.prems by (simp add: proc_step_def dm)
  then have "det_step c ?c" by (rule det_proc)
  moreover have "det_step\<^sup>*\<^sup>* ?c (?c\<lparr>procs := (procs ?c)[i := q],
      chans := (chans ?c)(i := (\<lambda>d. chans ?c i d @ msgs_to ss d))\<rparr>)"
    by (rule Cons.IH) (use Cons.prems in simp_all)
  moreover have "?c\<lparr>procs := (procs ?c)[i := q], chans := (chans ?c)(i := (\<lambda>d. chans ?c i d @ msgs_to ss d))\<rparr> =
      c\<lparr>procs := (procs c)[i := q], chans := (chans c)(i := (\<lambda>d. chans c i d @ msgs_to (dm # ss) d))\<rparr>"
    by (simp add: dm fun_eq_iff)
  ultimately show ?case by (simp only: converse_rtranclp_into_rtranclp)
qed

lemma all_send:
  assumes "k \<le> N"
  shows "det_step\<^sup>*\<^sup>* \<lparr>procs = map (\<lambda>i. send_all (S i) (Q i)) [0..<N], chans = (\<lambda>_ _. []), bqueue = bq\<rparr>
    \<lparr>procs = map (\<lambda>i. if i < k then Q i else send_all (S i) (Q i)) [0..<N],
     chans = (\<lambda>s d. if s < k then msgs_to (S s) d else []), bqueue = bq\<rparr>"
  using assms
proof (induction k)
  case 0
  then show ?case by simp
next
  case (Suc k)
  let ?c = "\<lparr>procs = map (\<lambda>i. if i < k then Q i else send_all (S i) (Q i)) [0..<N],
     chans = (\<lambda>s d. if s < k then msgs_to (S s) d else []), bqueue = bq\<rparr>"
  have "det_step\<^sup>*\<^sup>* ?c (?c\<lparr>procs := (procs ?c)[k := Q k],
      chans := (chans ?c)(k := (\<lambda>d. chans ?c k d @ msgs_to (S k) d))\<rparr>)"
    by (rule send_all_run) (use Suc.prems in simp_all)
  moreover have "(map (\<lambda>i. if i < k then Q i else send_all (S i) (Q i)) [0..<N])[k := Q k] =
      map (\<lambda>i. if i < Suc k then Q i else send_all (S i) (Q i)) [0..<N]"
    using Suc.prems by (intro nth_equalityI) (auto simp: nth_list_update less_Suc_eq)
  moreover have "(\<lambda>s d. if s < k then msgs_to (S s) d else [])(k := (\<lambda>d. msgs_to (S k) d)) =
      (\<lambda>s d. if s < Suc k then msgs_to (S s) d else [])"
    by (auto simp: fun_eq_iff less_Suc_eq)
  ultimately show ?case using rtranclp_trans[OF Suc.IH] Suc.prems by simp
qed

subsection \<open>Receiving\<close>

text \<open>What a program that only receives makes of the messages waiting for it.\<close>

primrec drain :: "'a prog \<Rightarrow> (nat \<Rightarrow> msg list) \<Rightarrow> ('a \<times> (nat \<Rightarrow> msg list)) option" where
  "drain (Ret x) inbox = Some (x, inbox)"
| "drain (Fail e) inbox = None"
| "drain (Send d m p) inbox = None"
| "drain (Recv s k) inbox =
     (case inbox s of [] \<Rightarrow> None | m # ms \<Rightarrow> drain (k m) (inbox(s := ms)))"
| "drain (RecvAny k) inbox = None"
| "drain (BcastSend m p) inbox = None"
| "drain (BcastRecv k) inbox = None"
| "drain (Collect m k) inbox = None"

lemma drain_bindP:
  "drain (bindP p f) inbox = (case drain p inbox of None \<Rightarrow> None | Some (x, rest) \<Rightarrow> drain (f x) rest)"
  by (induction p arbitrary: inbox) (auto split: list.splits)

lemma drain_run:
  assumes "i < length (procs c)" "procs c ! i = bindP p K" "drain p (\<lambda>s. chans c s i) = Some (x, rest)"
  shows "det_step\<^sup>*\<^sup>* c (c\<lparr>procs := (procs c)[i := K x], chans := (\<lambda>s. (chans c s)(i := rest s))\<rparr>)"
  using assms
proof (induction p arbitrary: c)
  case (Ret y)
  then have same: "(procs c)[i := K x] = procs c" "(\<lambda>s. (chans c s)(i := rest s)) = chans c"
    by (auto simp: list_update_same_conv fun_eq_iff)
  show ?case unfolding same by simp
next
  case (Recv s k)
  obtain m ms where ms: "chans c s i = m # ms" "drain (k m) ((\<lambda>s. chans c s i)(s := ms)) = Some (x, rest)"
    using Recv.prems(3) by (auto split: list.splits)
  let ?c = "c\<lparr>procs := (procs c)[i := bindP (k m) K], chans := (chans c)(s := (chans c s)(i := ms))\<rparr>"
  have "proc_step i c = Some ?c" using Recv.prems(1,2) ms(1) by (simp add: proc_step_def)
  then have "det_step c ?c" by (rule det_proc)
  moreover have "(\<lambda>s. chans ?c s i) = (\<lambda>s. chans c s i)(s := ms)" by auto
  then have "det_step\<^sup>*\<^sup>* ?c (?c\<lparr>procs := (procs ?c)[i := K x], chans := (\<lambda>s. (chans ?c s)(i := rest s))\<rparr>)"
    by (intro Recv.IH[of "k m"]) (use Recv.prems(1) ms(2) in simp_all)
  moreover have "?c\<lparr>procs := (procs ?c)[i := K x], chans := (\<lambda>s. (chans ?c s)(i := rest s))\<rparr> =
      c\<lparr>procs := (procs c)[i := K x], chans := (\<lambda>s. (chans c s)(i := rest s))\<rparr>"
    by (auto simp: fun_eq_iff)
  ultimately show ?case by (simp only: converse_rtranclp_into_rtranclp)
qed simp_all

lemma all_receive:
  assumes "k \<le> N" and d: "\<And>i. i < N \<Longrightarrow> drain (p i) (\<lambda>s. ch s i) = Some (x i, (\<lambda>_. []))"
    and out: "\<And>s d. N \<le> d \<Longrightarrow> ch s d = []"
  shows "det_step\<^sup>*\<^sup>* \<lparr>procs = map (\<lambda>i. bindP (p i) (K i)) [0..<N], chans = ch, bqueue = bq\<rparr>
    \<lparr>procs = map (\<lambda>i. if i < k then K i (x i) else bindP (p i) (K i)) [0..<N],
     chans = (\<lambda>s d. if d < k then [] else ch s d), bqueue = bq\<rparr>"
  using assms(1)
proof (induction k)
  case 0
  then show ?case by simp
next
  case (Suc k)
  let ?c = "\<lparr>procs = map (\<lambda>i. if i < k then K i (x i) else bindP (p i) (K i)) [0..<N],
     chans = (\<lambda>s d. if d < k then [] else ch s d), bqueue = bq\<rparr>"
  have "det_step\<^sup>*\<^sup>* ?c (?c\<lparr>procs := (procs ?c)[k := K k (x k)], chans := (\<lambda>s. (chans ?c s)(k := []))\<rparr>)"
    by (rule drain_run[where p = "p k"]) (use Suc.prems d[of k] in simp_all)
  moreover have "(map (\<lambda>i. if i < k then K i (x i) else bindP (p i) (K i)) [0..<N])[k := K k (x k)] =
      map (\<lambda>i. if i < Suc k then K i (x i) else bindP (p i) (K i)) [0..<N]"
    using Suc.prems by (intro nth_equalityI) (auto simp: nth_list_update less_Suc_eq)
  moreover have "(\<lambda>s. (\<lambda>d. if d < k then [] else ch s d)(k := [])) = (\<lambda>s d. if d < Suc k then [] else ch s d)"
    by (auto simp: fun_eq_iff less_Suc_eq)
  ultimately show ?case using rtranclp_trans[OF Suc.IH] Suc.prems by simp
qed

lemma map_if_upt: "map (\<lambda>i. if i < N then f i else g i) [0..<N] = map f [0..<N]"
  by simp

text \<open>A whole round; afterwards all channels are empty again.\<close>

lemma round_run:
  assumes P: "\<And>i. i < N \<Longrightarrow> P i = send_all (S i) (bindP (p i) (K i))"
    and d: "\<And>i. i < N \<Longrightarrow> drain (p i) (\<lambda>s. if s < N then msgs_to (S s) i else []) = Some (x i, (\<lambda>_. []))"
    and dest: "\<And>i d m. i < N \<Longrightarrow> (d, m) \<in> set (S i) \<Longrightarrow> d < N"
  shows "det_step\<^sup>*\<^sup>* \<lparr>procs = map P [0..<N], chans = (\<lambda>_ _. []), bqueue = bq\<rparr>
    \<lparr>procs = map (\<lambda>i. K i (x i)) [0..<N], chans = (\<lambda>_ _. []), bqueue = bq\<rparr>"
proof -
  let ?ch = "\<lambda>s d. if s < N then msgs_to (S s) d else []"
  have "map P [0..<N] = map (\<lambda>i. send_all (S i) (bindP (p i) (K i))) [0..<N]" using P by simp
  moreover have "det_step\<^sup>*\<^sup>* \<lparr>procs = map (\<lambda>i. send_all (S i) (bindP (p i) (K i))) [0..<N], chans = (\<lambda>_ _. []), bqueue = bq\<rparr>
      \<lparr>procs = map (\<lambda>i. bindP (p i) (K i)) [0..<N], chans = ?ch, bqueue = bq\<rparr>"
    using all_send[of N N S "\<lambda>i. bindP (p i) (K i)" bq] unfolding map_if_upt by simp
  moreover have out: "?ch s d = []" if "N \<le> d" for s d
    using dest that by (fastforce intro: msgs_to_none)
  have "(\<lambda>s d. if d < N then [] else ?ch s d) = (\<lambda>_ _. [])" using out by (auto simp: fun_eq_iff)
  then have "det_step\<^sup>*\<^sup>* \<lparr>procs = map (\<lambda>i. bindP (p i) (K i)) [0..<N], chans = ?ch, bqueue = bq\<rparr>
      \<lparr>procs = map (\<lambda>i. K i (x i)) [0..<N], chans = (\<lambda>_ _. []), bqueue = bq\<rparr>"
    using all_receive[of N N p ?ch x K bq, OF order_refl d out] unfolding map_if_upt by simp
  ultimately show ?thesis by (simp only: rtranclp_trans)
qed

text \<open>The same for programs whose round is only known to exist.\<close>

lemma round_exists:
  fixes C :: "nat \<Rightarrow> 's \<Rightarrow> 'a prog"
  assumes local: "\<And>i. i < N \<Longrightarrow> \<exists>p x. (\<forall>C :: 's \<Rightarrow> 'a prog. bindP (E i) C = send_all (S i) (bindP p C)) \<and>
      drain p (inbox i) = Some (x, \<lambda>_. []) \<and> Q i x"
    and inbox: "\<And>i. i < N \<Longrightarrow> (\<lambda>s. if s < N then msgs_to (S s) i else []) = inbox i"
    and dest: "\<And>i d m. i < N \<Longrightarrow> (d, m) \<in> set (S i) \<Longrightarrow> d < N"
  shows "\<exists>x. (\<forall>i < N. Q i (x i)) \<and>
    det_step\<^sup>*\<^sup>* \<lparr>procs = map (\<lambda>i. bindP (E i) (C i)) [0..<N], chans = (\<lambda>_ _. []), bqueue = bq\<rparr>
      \<lparr>procs = map (\<lambda>i. C i (x i)) [0..<N], chans = (\<lambda>_ _. []), bqueue = bq\<rparr>"
proof -
  obtain p x where p: "\<And>i C. i < N \<Longrightarrow> bindP (E i) (C :: 's \<Rightarrow> 'a prog) = send_all (S i) (bindP (p i) C)"
    "\<And>i. i < N \<Longrightarrow> drain (p i) (inbox i) = Some (x i, \<lambda>_. [])" "\<And>i. i < N \<Longrightarrow> Q i (x i)"
    using local by metis
  have "det_step\<^sup>*\<^sup>* \<lparr>procs = map (\<lambda>i. bindP (E i) (C i)) [0..<N], chans = (\<lambda>_ _. []), bqueue = bq\<rparr>
      \<lparr>procs = map (\<lambda>i. C i (x i)) [0..<N], chans = (\<lambda>_ _. []), bqueue = bq\<rparr>"
    by (rule round_run[where S = S and p = p]) (use p(1,2) inbox dest in simp_all)
  then show ?thesis using p(3) by blast
qed

end
