(* ===== verification/Halo_Local.thy ===== *)
theory Halo_Local imports Halo_Slots Grid_Space_MPI Rounds begin

text \<open>
  One process in an exchange of halos (\<open>GridSpaceMPI::ExchangeBoundaries\<close> without diagonal
  points): what it sends, and what its state is after it has received its neighbours'
  messages.
\<close>

subsection \<open>The steps of an exchange\<close>

text \<open>What an exchange records in the grid besides the buffers.\<close>

definition meta :: "'g gridmpi_scheme \<Rightarrow> bool \<times> nat arr3 \<times> nat arr3 \<times> idx arr3 \<times> idx arr3" where
  "meta g = (gm_halo_has_diagonal g, gm_halo_fw_width g, gm_halo_bw_width g, gm_halo_fw_size g, gm_halo_bw_size g)"

lemma set_slot_meta [simp]: "meta (set_slot k p n g) = meta g"
  by (rule set_slot.cases[of "(k, p, n, g)"]) (auto simp: meta_def)

text \<open>A slot with room for \<open>n\<close> bytes.\<close>

definition roomy :: "'g gridmpi_scheme \<Rightarrow> heap \<Rightarrow> slot \<Rightarrow> nat \<Rightarrow> bool" where
  "roomy g h k n \<longleftrightarrow> (\<exists>b cs. halo_slot g k = Ptr b 0 \<and> blocks h b = Some cs \<and> n \<le> length cs)"

lemma keeps_roomy:
  assumes "keeps K (g, h) (g', h')" "slot_valid (grid_num_dims g) k" "k \<notin> K" "roomy g h k n"
  shows "roomy g' h' k n"
  using assms(4) keepsD(5,6)[OF assms(1-3)] by (auto simp: roomy_def)

lemma slot_large:
  assumes "halo_ok g h" "slot_valid (grid_num_dims g) k" "n \<le> halo_cap g k" "0 < n"
  shows "roomy g h k n"
  using slot_offset[OF assms(1,2)] assms(3,4) by (auto simp: roomy_def)

text \<open>The block of a slot is replaced when it is too small, with or without freeing the old one.\<close>

lemma ensure_slot:
  assumes ok: "halo_ok g h" and k: "slot_valid (grid_num_dims g) k" and n: "n \<le> avail h" "0 < n"
  shows "\<exists>p g' h'. (if halo_cap g k < n
      then bindE (if freeing then free (halo_slot g k) h else Inr h) (\<lambda>h. case malloc n h of (p, h) \<Rightarrow> Inr (p, set_slot k p n g, h))
      else Inr (halo_slot g k, g, h)) = Inr (p, g', h') \<and> keeps {k} (g, h) (g', h') \<and>
    halo_slot g' k = p \<and> roomy g' h' k n \<and> meta g' = meta g \<and> avail h \<le> avail h' + n"
proof (cases "halo_cap g k < n")
  case False
  then show ?thesis using keeps_refl[OF ok] slot_large[OF ok k] n(2)
    by (intro exI[of _ "halo_slot g k"] exI[of _ g] exI[of _ h]) simp
next
  case True
  have "\<exists>h1. (if freeing then free (halo_slot g k) h else Inr h) = Inr h1 \<and> heap_ok h1 \<and> fresh h1 = fresh h \<and>
      (\<forall>b. blocks h1 b = blocks h b \<or> halo_slot g k = Ptr b 0) \<and> avail h \<le> avail h1"
    using slot_offset[OF ok k] halo_okD(2)[OF ok] by (auto simp: heap_ok_def)
  then obtain h1 where h1: "(if freeing then free (halo_slot g k) h else Inr h) = Inr h1" "heap_ok h1" "fresh h1 = fresh h"
      "\<And>b. blocks h1 b = blocks h b \<or> halo_slot g k = Ptr b 0" "avail h \<le> avail h1" by blast
  obtain p h2 where m: "malloc n h1 = (p, h2)" by (cases "malloc n h1")
  have n1: "n \<le> avail h1" using n h1(5) by simp
  note f = keeps_fresh[OF ok k h1(2-4) n1 m]
  have "halo_slot (set_slot k p n g) k = p" using set_slot_slot(1)[OF halo_okD(1)[OF ok] k k, of p n] by simp
  then show ?thesis using True h1(1,5) m f
    by (intro exI[of _ p] exI[of _ "set_slot k p n g"] exI[of _ h2]) (simp add: roomy_def)
qed

definition shape_of :: "'g gridmpi_scheme \<Rightarrow> nat \<Rightarrow> nat \<Rightarrow> idx" where
  "shape_of g d w = halo_shape (grid_num_dims g) (gm_local_size g) d w"

lemma array_get_slot:
  assumes "lists_ok g" "d < grid_num_dims g"
  shows "array_get (slot_list own fw g) (int d) = Inr (slot_list own fw g ! d)"
  using assms by (simp add: array_get_def lists_ok_def)

lemma slots_of_meta [simp]:
  "slot_list own fw (g\<lparr>gm_halo_fw_width := x\<rparr>) = slot_list own fw g"
  "slot_list own fw (g\<lparr>gm_halo_bw_width := x\<rparr>) = slot_list own fw g"
  "slot_list own fw (g\<lparr>gm_halo_fw_size := y\<rparr>) = slot_list own fw g"
  "slot_list own fw (g\<lparr>gm_halo_bw_size := y\<rparr>) = slot_list own fw g"
  "slot_list own fw (g\<lparr>gm_halo_has_diagonal := z\<rparr>) = slot_list own fw g"
  "slot_caps own fw (g\<lparr>gm_halo_fw_width := x\<rparr>) = slot_caps own fw g"
  "slot_caps own fw (g\<lparr>gm_halo_bw_width := x\<rparr>) = slot_caps own fw g"
  "slot_caps own fw (g\<lparr>gm_halo_fw_size := y\<rparr>) = slot_caps own fw g"
  "slot_caps own fw (g\<lparr>gm_halo_bw_size := y\<rparr>) = slot_caps own fw g"
  "slot_caps own fw (g\<lparr>gm_halo_has_diagonal := z\<rparr>) = slot_caps own fw g"
  by (cases own; cases fw; simp)+

lemma core_of_meta [simp]:
  "core (g\<lparr>gm_halo_fw_width := x\<rparr>) = core g" "core (g\<lparr>gm_halo_bw_width := x\<rparr>) = core g"
  "core (g\<lparr>gm_halo_fw_size := y\<rparr>) = core g" "core (g\<lparr>gm_halo_bw_size := y\<rparr>) = core g"
  "core (g\<lparr>gm_halo_has_diagonal := z\<rparr>) = core g"
  by (simp_all add: core_def grid.truncate_def)

lemma halo_slot_cong: "(\<And>own fw. slot_list own fw g' = slot_list own fw g) \<Longrightarrow> halo_slot g' k = halo_slot g k"
  by (cases k) simp

lemma halo_cap_cong: "(\<And>own fw. slot_caps own fw g' = slot_caps own fw g) \<Longrightarrow> halo_cap g' k = halo_cap g k"
  by (cases k) simp

lemma keeps_fields:
  assumes "halo_ok g h" "core g' = core g" "\<And>own fw. slot_list own fw g' = slot_list own fw g"
    "\<And>own fw. slot_caps own fw g' = slot_caps own fw g"
  shows "keeps K (g, h) (g', h)"
  using keeps_meta[OF assms(1,2)] assms(3,4) halo_slot_cong[OF assms(3)] halo_cap_cong[OF assms(4)] by simp

lemma roomy_cong: "(\<And>own fw. slot_list own fw g' = slot_list own fw g) \<Longrightarrow> roomy g' h k n = roomy g h k n"
  using halo_slot_cong[of g' g k] by (simp add: roomy_def)

lemma post_recv_fw_ok:
  assumes ok: "halo_ok g h" and d: "d < grid_num_dims g" and n: "n \<le> avail h" "0 < n" and w: "0 < w" "w < 2 ^ 31"
    and c: "has_fw g d per"
  shows "\<exists>g' h'. post_recv_fw d w False per peer n (g, h) = Inr (g', h', [(peer, halo_slot g' (Slot False True d), n)]) \<and>
    keeps {Slot False True d} (g, h) (g', h') \<and> roomy g' h' (Slot False True d) n \<and> avail h \<le> avail h' + n \<and>
    meta g' = (gm_halo_has_diagonal g, upd (gm_halo_fw_width g) d w, gm_halo_bw_width g,
      upd (gm_halo_fw_size g) d (shape_of g d w), gm_halo_bw_size g)"
proof -
  let ?k = "Slot False True d"
  have k: "slot_valid (grid_num_dims g) ?k" using d by simp
  obtain p g1 h' where e: "(if halo_cap g ?k < n
      then bindE (if True then free (halo_slot g ?k) h else Inr h) (\<lambda>h. case malloc n h of (p, h) \<Rightarrow> Inr (p, set_slot ?k p n g, h))
      else Inr (halo_slot g ?k, g, h)) = Inr (p, g1, h')" and s: "keeps {?k} (g, h) (g1, h')"
      "halo_slot g1 ?k = p" "roomy g1 h' ?k n" "meta g1 = meta g" "avail h \<le> avail h' + n"
    using ensure_slot[OF ok k n, where freeing = True] by blast
  let ?g' = "g1\<lparr>gm_halo_fw_width := upd (gm_halo_fw_width g1) d w,
      gm_halo_fw_size := upd (gm_halo_fw_size g1) d (shape_of g1 d w)\<rparr>"
  have get: "array_get (gm_halo_peer_fw g) (int d) = Inr (gm_halo_peer_fw g ! d)"
    using array_get_slot[OF halo_okD(1)[OF ok] d, of False True] by simp
  have e': "(if at (gm_halo_peer_fw_buf_size g) d < n
              then bindE (free (gm_halo_peer_fw g ! d) h) (\<lambda>h.
                let (p, h) = malloc n h
                in Inr (p, g\<lparr>gm_halo_peer_fw := (gm_halo_peer_fw g)[d := p],
                             gm_halo_peer_fw_buf_size := upd (gm_halo_peer_fw_buf_size g) d n\<rparr>, h))
              else Inr (gm_halo_peer_fw g ! d, g, h)) = Inr (p, g1, h')"
    using e unfolding halo_cap.simps halo_slot.simps slot_list.simps slot_caps.simps set_slot.simps Let_def if_True .
  have "w > 0 \<and> has_fw g d per" using w c by simp
  then have run: "post_recv_fw d w False per peer n (g, h) = Inr (?g', h', [(peer, p, n)])"
    unfolding post_recv_fw_def prod.case get bindE_Inr e' by (simp add: SetHaloSize_shape[OF w(2)] shape_of_def)
  have m: "keeps {?k} (g1, h') (?g', h')" by (rule keeps_fields[OF keepsD(1)[OF s(1)]]) simp_all
  have sh: "shape_of g1 d w = shape_of g d w" using core_fields[OF keepsD(4)[OF s(1)]] by (simp add: shape_of_def)
  have "meta ?g' = (gm_halo_has_diagonal g, upd (gm_halo_fw_width g) d w, gm_halo_bw_width g,
      upd (gm_halo_fw_size g) d (shape_of g d w), gm_halo_bw_size g)"
    using s(4) sh by (simp add: meta_def)
  moreover have "halo_slot ?g' ?k = p" using s(2) by simp
  moreover have "roomy ?g' h' ?k n" using s(3) by (simp add: roomy_def)
  ultimately show ?thesis using run keeps_trans[OF s(1) m] s(5) by (intro exI[of _ ?g'] exI[of _ h']) simp
qed

lemma post_recv_bw_ok:
  assumes ok: "halo_ok g h" and d: "d < grid_num_dims g" and n: "n \<le> avail h" "0 < n" and w: "0 < w" "w < 2 ^ 31"
    and c: "has_bw g d per"
  shows "\<exists>g' h'. post_recv_bw d w False per peer n (g, h) = Inr (g', h', [(peer, halo_slot g' (Slot False False d), n)]) \<and>
    keeps {Slot False False d} (g, h) (g', h') \<and> roomy g' h' (Slot False False d) n \<and> avail h \<le> avail h' + n \<and>
    meta g' = (gm_halo_has_diagonal g, gm_halo_fw_width g, upd (gm_halo_bw_width g) d w,
      gm_halo_fw_size g, upd (gm_halo_bw_size g) d (shape_of g d w))"
proof -
  let ?k = "Slot False False d"
  have k: "slot_valid (grid_num_dims g) ?k" using d by simp
  obtain p g1 h' where e: "(if halo_cap g ?k < n
      then bindE (if True then free (halo_slot g ?k) h else Inr h) (\<lambda>h. case malloc n h of (p, h) \<Rightarrow> Inr (p, set_slot ?k p n g, h))
      else Inr (halo_slot g ?k, g, h)) = Inr (p, g1, h')" and s: "keeps {?k} (g, h) (g1, h')"
      "halo_slot g1 ?k = p" "roomy g1 h' ?k n" "meta g1 = meta g" "avail h \<le> avail h' + n"
    using ensure_slot[OF ok k n, where freeing = True] by blast
  let ?g' = "g1\<lparr>gm_halo_bw_width := upd (gm_halo_bw_width g1) d w,
      gm_halo_bw_size := upd (gm_halo_bw_size g1) d (shape_of g1 d w)\<rparr>"
  have get: "array_get (gm_halo_peer_bw g) (int d) = Inr (gm_halo_peer_bw g ! d)"
    using array_get_slot[OF halo_okD(1)[OF ok] d, of False False] by simp
  have e': "(if at (gm_halo_peer_bw_buf_size g) d < n
              then bindE (free (gm_halo_peer_bw g ! d) h) (\<lambda>h.
                let (p, h) = malloc n h
                in Inr (p, g\<lparr>gm_halo_peer_bw := (gm_halo_peer_bw g)[d := p],
                             gm_halo_peer_bw_buf_size := upd (gm_halo_peer_bw_buf_size g) d n\<rparr>, h))
              else Inr (gm_halo_peer_bw g ! d, g, h)) = Inr (p, g1, h')"
    using e unfolding halo_cap.simps halo_slot.simps slot_list.simps slot_caps.simps set_slot.simps Let_def if_True .
  have "w > 0 \<and> has_bw g d per" using w c by simp
  then have run: "post_recv_bw d w False per peer n (g, h) = Inr (?g', h', [(peer, p, n)])"
    unfolding post_recv_bw_def prod.case get bindE_Inr e' by (simp add: SetHaloSize_shape[OF w(2)] shape_of_def)
  have m: "keeps {?k} (g1, h') (?g', h')" by (rule keeps_fields[OF keepsD(1)[OF s(1)]]) simp_all
  have sh: "shape_of g1 d w = shape_of g d w" using core_fields[OF keepsD(4)[OF s(1)]] by (simp add: shape_of_def)
  have "meta ?g' = (gm_halo_has_diagonal g, gm_halo_fw_width g, upd (gm_halo_bw_width g) d w,
      gm_halo_fw_size g, upd (gm_halo_bw_size g) d (shape_of g d w))"
    using s(4) sh by (simp add: meta_def)
  moreover have "halo_slot ?g' ?k = p" using s(2) by simp
  moreover have "roomy ?g' h' ?k n" using s(3) by (simp add: roomy_def)
  ultimately show ?thesis using run keeps_trans[OF s(1) m] s(5) by (intro exI[of _ ?g'] exI[of _ h']) simp
qed

text \<open>What a process sends: the layers of one side, from a buffer or, in the last dimension, from the data.\<close>

definition sends_layer :: "'g gridmpi_scheme \<Rightarrow> heap \<Rightarrow> nat \<Rightarrow> nat \<Rightarrow> bool \<Rightarrow> cell list \<Rightarrow> 'g gridmpi_scheme \<Rightarrow> heap \<Rightarrow> bool" where
  "sends_layer g h d w fw D g' h' \<longleftrightarrow>
     (let n = layer_bytes (grid_num_dims g) (grid_elm_size g) (gm_local_size g) d w
      in (\<exists>p. array_get (slot_list True fw g') (int d) = Inr p \<and>
            load p n h' = Inr (layer (grid_num_dims g) (grid_elm_size g) (gm_local_size g) d w fw D)) \<and>
         keeps {Slot True fw d} (g, h) (g', h') \<and> avail h \<le> avail h' + n \<and>
         meta g' = (False, gm_halo_fw_width g, gm_halo_bw_width g, gm_halo_fw_size g, gm_halo_bw_size g))"

lemma minus_width_eq:
  assumes "int w \<le> at (gm_local_size g) d" "at (gm_local_size g) d < 2 ^ 31"
  shows "int_of_unsigned (minus_width g d w) = at (gm_local_size g) d - int w"
  using assms by (simp add: minus_width_def int_of_unsigned_def)

lemma CopyoutHalo_last:
  assumes ok: "halo_ok g h" and d: "grid_num_dims g = Suc d" and part: "part_ok (grid_num_dims g) (grid_elm_size g) (gm_local_size g)"
    and w: "int w \<le> at (gm_local_size g) d" and data: "data0 g = Ptr b 0" "blocks h b = Some D"
    and len: "nat (accumulate (gm_local_size g) (grid_num_dims g)) * grid_elm_size g \<le> length D"
  shows "\<exists>g'. CopyoutHalo d w fw False g h = Inr (g', h) \<and> sends_layer g h d w fw D g' h"
proof -
  let ?ls = "gm_local_size g" and ?e = "grid_elm_size g" and ?g = "g\<lparr>gm_halo_has_diagonal := False\<rparr>"
  let ?p = "Ptr b (int (layer_start d ?ls w fw * ?e))"
  let ?n = "layer_bytes (grid_num_dims g) ?e ?ls d w"
  have l: "lists_ok g" "length (slot_list True fw g) = Suc d" using halo_okD(1)[OF ok] d by (auto simp: lists_ok_def)
  have ls: "at ?ls d < 2 ^ 31" "0 < at ?ls d" "d < 3" using part d by (auto simp: part_ok_def)
  have mw: "int_of_unsigned (minus_width ?g d w) = at ?ls d - int w"
    using minus_width_eq[of w ?g d] w ls(1) by simp
  have acc: "accumulate (upd ?ls d (at ?ls d - int w)) (Suc d) = accumulate ?ls d * (at ?ls d - int w)"
  proof -
    have "accumulate (upd ?ls d (at ?ls d - int w)) d = accumulate ?ls d"
      using ls(3) by (intro accumulate_cong) (simp add: at_upd)
    then show ?thesis using ls(3) by (simp add: at_upd)
  qed
  have pos: "0 \<le> accumulate ?ls d" using part d by (intro accumulate_nonneg) (auto simp: part_ok_def intro: less_imp_le)
  have start: "int (layer_start d ?ls w False) = accumulate ?ls d * (at ?ls d - int w)"
    using pos w by (simp add: layer_start_def mult.commute)
  have zero: "layer_start d ?ls w True = 0" by (simp add: layer_start_def)
  define g' where "g' = (if fw then ?g\<lparr>gm_halo_self_fw := (gm_halo_self_fw g)[d := ?p]\<rparr>
      else ?g\<lparr>gm_halo_self_bw := (gm_halo_self_bw g)[d := ?p]\<rparr>)"
  have g1: "length (gm_halo_self_fw g) = Suc d" "length (gm_halo_self_bw g) = Suc d"
    using l(1) d by (simp_all add: lists_ok_def all_bool_eq)
  have run: "CopyoutHalo d w fw False g h = Inr (g', h)"
    using d g1 mw data(1)
    by (cases fw) (simp_all add: CopyoutHalo_def array_get_def g'_def zero acc start del: accumulate_Suc)
  have get: "array_get (slot_list True fw g') (int d) = Inr ?p" "core g' = core g"
    "meta g' = (False, gm_halo_fw_width g, gm_halo_bw_width g, gm_halo_fw_size g, gm_halo_bw_size g)"
    using g1 by (cases fw; simp add: g'_def array_get_def core_def grid.truncate_def meta_def)+
  have "load ?p ?n h = Inr (layer (Suc d) ?e ?ls d w fw D)"
    unfolding layer_last(1)[OF part[unfolded d] w len[unfolded d], of fw] d
    by (rule load_block[OF data(2) layer_last(2)[OF part[unfolded d] w len[unfolded d]]])
  moreover have "keeps {Slot True fw d} (g, h) (g', h)"
  proof (rule keeps_meta[OF ok get(2)])
    show "length (slot_list own fw' g') = length (slot_list own fw' g)" for own fw'
      by (cases own; cases fw'; cases fw) (simp_all add: g'_def)
    show "halo_slot g' k = halo_slot g k \<and> halo_cap g' k = halo_cap g k" if "slot_valid (grid_num_dims g) k" for k
    proof -
      obtain own fw' d' where k: "k = Slot own fw' d'" by (cases k)
      show ?thesis using that d by (cases own; cases fw'; cases fw) (auto simp: k g'_def)
    qed
  qed
  ultimately show ?thesis using run get d by (intro exI[of _ g']) (simp add: sends_layer_def Let_def)
qed

lemma CopyoutHalo_inner:
  assumes ok: "halo_ok g h" and d: "Suc d < grid_num_dims g" and part: "part_ok (grid_num_dims g) (grid_elm_size g) (gm_local_size g)"
    and w: "int w \<le> at (gm_local_size g) d" "0 < w" and data: "data0 g = Ptr b 0" "blocks h b = Some D"
    and len: "nat (accumulate (gm_local_size g) (grid_num_dims g)) * grid_elm_size g \<le> length D"
    and room: "layer_bytes (grid_num_dims g) (grid_elm_size g) (gm_local_size g) d w \<le> avail h"
  shows "\<exists>g' h'. CopyoutHalo d w fw False g h = Inr (g', h') \<and> sends_layer g h d w fw D g' h'"
proof -
  let ?nd = "grid_num_dims g" and ?ls = "gm_local_size g" and ?e = "grid_elm_size g" and ?k = "Slot True fw d"
  let ?g = "g\<lparr>gm_halo_has_diagonal := False\<rparr>" and ?n = "layer_bytes (grid_num_dims g) (grid_elm_size g) (gm_local_size g) d w"
  have d': "d < ?nd" "d < 3" "slot_valid ?nd ?k" using d part by (auto simp: part_ok_def)
  have ls: "at ?ls d < 2 ^ 31" using part d' by (auto simp: part_ok_def)
  have w31: "int_of_unsigned w = int w" using w ls by (simp add: int_of_unsigned_def)
  have n: "0 < ?n" by (rule layer_bytes_pos[OF part d'(1) w])
  have s0: "keeps {?k} (g, h) (?g, h)" by (rule keeps_fields[OF ok]) simp_all
  note ok0 = keepsD(1)[OF s0]
  have room0: "?n \<le> avail h" by (rule room)
  have bytes: "size_mult (CalcHaloSize ?g d w False) (grid_elm_size ?g) = ?n"
    using halo_bytes_layer[of ?g d w] part d' w by simp
  have v: "slot_valid (grid_num_dims ?g) ?k" using d'(3) by simp
  obtain p g1 h1 where e: "(if halo_cap ?g ?k < ?n
      then bindE (if False then free (halo_slot ?g ?k) h else Inr h) (\<lambda>h. case malloc ?n h of (p, h) \<Rightarrow> Inr (p, set_slot ?k p ?n ?g, h))
      else Inr (halo_slot ?g ?k, ?g, h)) = Inr (p, g1, h1)" and s1: "keeps {?k} (?g, h) (g1, h1)"
      "halo_slot g1 ?k = p" "roomy g1 h1 ?k ?n" "meta g1 = meta ?g" "avail h \<le> avail h1 + ?n"
    using ensure_slot[OF ok0 v room0 n, where freeing = False] by blast
  have l: "lists_ok ?g" by (rule halo_okD(1)[OF ok0])
  have buf: "GetHaloBuf d w fw False ?g h = Inr (p, g1, h1)"
  proof (cases fw)
    case True
    have get: "array_get (gm_halo_self_fw ?g) (int d) = Inr (gm_halo_self_fw ?g ! d)"
      using array_get_slot[OF l, of d True True] d' by simp
    have fw: "fw = True" using True by simp
    show ?thesis
      using e unfolding fw GetHaloBuf_def bytes Let_def halo_cap.simps halo_slot.simps slot_list.simps slot_caps.simps
        set_slot.simps if_True if_False bindE_Inr get .
  next
    case False
    have get: "array_get (gm_halo_self_bw ?g) (int d) = Inr (gm_halo_self_bw ?g ! d)"
      using array_get_slot[OF l, of d True False] d' by simp
    have fw: "fw = False" using False by simp
    show ?thesis
      using e unfolding fw GetHaloBuf_def bytes Let_def halo_cap.simps halo_slot.simps slot_list.simps slot_caps.simps
        set_slot.simps if_True if_False bindE_Inr get .
  qed
  have s01: "keeps {?k} (g, h) (g1, h1)" by (rule keeps_trans[OF s0 s1(1)])
  obtain c cs where c: "p = Ptr c 0" "blocks h1 c = Some cs" "?n \<le> length cs" using s1(2,3) by (auto simp: roomy_def)
  have v1: "slot_valid (grid_num_dims g1) ?k" using d'(3) keepsD(3)[OF s01] by simp
  note data1 = keeps_data[OF s01 ok data]
  have "b \<noteq> c" using slot_block(2)[OF keepsD(1)[OF s01] v1] s1(2) c(1) data1(1) by auto
  have core1: "grid_elm_size g1 = ?e" "gm_local_size g1 = ?ls" "grid_num_dims g1 = ?nd"
    using core_fields[OF keepsD(4)[OF s01]] by auto
  have mw: "int_of_unsigned (minus_width g1 d w) = at ?ls d - int w"
    using minus_width_eq[of w g1 d] w ls core1(2) by simp
  let ?L = "layer ?nd ?e ?ls d w fw D"
  have len_L: "length ?L = ?n" by (rule length_layer[OF part d'(1) w(1) len])
  let ?cs = "list_write cs 0 ?L" and ?h2 = "h1\<lparr>blocks := (blocks h1)(c \<mapsto> list_write cs 0 ?L)\<rparr>"
  have "CopyoutSubgrid ?e ?nd (Ptr b 0) ?ls (Ptr c (int 0)) (layer_offset ?ls d w fw) (layer_size ?ls d w) h1 = Inr ?h2"
    using CopyoutSubgrid_ok[OF layer_fits[OF part d'(1) w(1), of fw] \<open>b \<noteq> c\<close>[symmetric] data1(2) c(2) len, of 0] c(3)
    by (simp add: layer_def layer_bytes_def)
  then have run: "CopyoutHalo d w fw False g h = Inr (g1, ?h2)"
    using d buf mw data(1) data1(1) c(1) w31 core1(2)
    by (cases fw) (simp_all add: CopyoutHalo_def Let_def layer_size_def layer_offset_def)
  have "length ?cs = length cs" using c(3) len_L by simp
  from keeps_write[OF keepsD(1)[OF s01] v1 _ c(2) this] s1(2) c(1)
  have "keeps {?k} (g1, h1) (g1, ?h2)" by simp
  from keeps_trans[OF s01 this] have k: "keeps {?k} (g, h) (g1, ?h2)" .
  have "array_get (slot_list True fw g1) (int d) = Inr p"
    using array_get_slot[OF halo_okD(1)[OF keepsD(1)[OF s01]], of d True fw] d' s1(2) core1(3) by simp
  moreover have "load p ?n ?h2 = Inr ?L"
    using load_block[of ?h2 c ?cs 0 ?n] c(1,3) len_L by (simp add: list_write_def)
  moreover have "meta g1 = (False, gm_halo_fw_width g, gm_halo_bw_width g, gm_halo_fw_size g, gm_halo_bw_size g)"
    using s1(4) by (simp add: meta_def)
  ultimately show ?thesis using run k s1(5) by (intro exI[of _ g1] exI[of _ ?h2]) (simp add: sends_layer_def Let_def)
qed

lemma CopyoutHalo_ok:
  assumes "halo_ok g h" "d < grid_num_dims g" "part_ok (grid_num_dims g) (grid_elm_size g) (gm_local_size g)"
    "int w \<le> at (gm_local_size g) d" "0 < w" "data0 g = Ptr b 0" "blocks h b = Some D"
    "nat (accumulate (gm_local_size g) (grid_num_dims g)) * grid_elm_size g \<le> length D"
    "layer_bytes (grid_num_dims g) (grid_elm_size g) (gm_local_size g) d w \<le> avail h"
  shows "\<exists>g' h'. CopyoutHalo d w fw False g h = Inr (g', h') \<and> sends_layer g h d w fw D g' h'"
proof (cases "grid_num_dims g = Suc d")
  case True
  then show ?thesis using CopyoutHalo_last[OF assms(1) True assms(3,4,6-8)] by blast
next
  case False
  then have "Suc d < grid_num_dims g" using assms(2) by simp
  from CopyoutHalo_inner[OF assms(1) this assms(3-9)] show ?thesis .
qed

subsection \<open>One dimension\<close>

text \<open>What an exchange in one dimension needs of a process that is not empty.\<close>

definition ready :: "'g gridmpi_scheme \<Rightarrow> heap \<Rightarrow> cell list \<Rightarrow> bool" where
  "ready g h D \<longleftrightarrow> halo_ok g h \<and> part_ok (grid_num_dims g) (grid_elm_size g) (gm_local_size g) \<and>
     \<not> gm_halo_has_diagonal g \<and> (\<exists>b. data0 g = Ptr b 0 \<and> blocks h b = Some D) \<and>
     length D = nat (accumulate (gm_local_size g) (grid_num_dims g)) * grid_elm_size g"

lemma readyD:
  assumes "ready g h D"
  shows "halo_ok g h" "part_ok (grid_num_dims g) (grid_elm_size g) (gm_local_size g)" "\<not> gm_halo_has_diagonal g"
    "\<exists>b. data0 g = Ptr b 0 \<and> blocks h b = Some D"
    "length D = nat (accumulate (gm_local_size g) (grid_num_dims g)) * grid_elm_size g"
  using assms by (auto simp: ready_def)

lemma keeps_ready:
  assumes "keeps K (g, h) (g', h')" "ready g h D" "\<not> gm_halo_has_diagonal g'"
  shows "ready g' h' D"
proof -
  note r = readyD[OF assms(2)] and c = core_fields[OF keepsD(4)[OF assms(1)]]
  obtain b where "data0 g = Ptr b 0" "blocks h b = Some D" using r(4) by blast
  from keeps_data[OF assms(1) r(1) this] show ?thesis
    using keepsD(1)[OF assms(1)] r(2,5) c assms(3) by (auto simp: ready_def)
qed

lemma core_has:
  assumes "core g' = core g"
  shows "has_fw g' d per = has_fw g d per" "has_bw g' d per = has_bw g d per"
    "shape_of g' d w = shape_of g d w"
  using core_fields[OF assms] by (simp_all add: has_fw_def has_bw_def shape_of_def)

text \<open>The number of bytes and the contents of the layers of a grid.\<close>

definition bytes_of :: "'g gridmpi_scheme \<Rightarrow> nat \<Rightarrow> nat \<Rightarrow> nat" where
  "bytes_of g d w = layer_bytes (grid_num_dims g) (grid_elm_size g) (gm_local_size g) d w"

definition layer_of :: "'g gridmpi_scheme \<Rightarrow> nat \<Rightarrow> nat \<Rightarrow> bool \<Rightarrow> cell list \<Rightarrow> cell list" where
  "layer_of g d w first D = layer (grid_num_dims g) (grid_elm_size g) (gm_local_size g) d w first D"

lemma core_layers:
  assumes "core g' = core g"
  shows "bytes_of g' d w = bytes_of g d w" "layer_of g' d w first D = layer_of g d w first D"
  using core_fields[OF assms] by (simp_all add: bytes_of_def layer_of_def)

definition width_ok :: "'g gridmpi_scheme \<Rightarrow> nat \<Rightarrow> nat \<Rightarrow> bool" where
  "width_ok g d w \<longleftrightarrow> d < grid_num_dims g \<and> int w \<le> at (gm_local_size g) d"

lemma ready_bytes:
  assumes "ready g h D" "width_ok g d w"
  shows "bytes_of g d w \<le> length D" "0 < w \<Longrightarrow> 0 < bytes_of g d w" "w < 2 ^ 31"
    "length (layer_of g d w first D) = bytes_of g d w"
proof -
  have w: "d < grid_num_dims g" "int w \<le> at (gm_local_size g) d" using assms(2) by (auto simp: width_ok_def)
  note r = readyD[OF assms(1)]
  show "bytes_of g d w \<le> length D" "0 < w \<Longrightarrow> 0 < bytes_of g d w"
    using layer_bytes_le(1)[OF r(2) w] layer_bytes_pos[OF r(2) w] r(5) by (simp_all add: bytes_of_def)
  show "length (layer_of g d w first D) = bytes_of g d w"
    using length_layer[OF r(2) w, of D first] r(5) by (simp add: layer_of_def bytes_of_def)
  have "at (gm_local_size g) d < 2 ^ 31" using r(2) w(1) by (simp add: part_ok_def)
  then have "int w < 2 ^ 31" using w(2) by linarith
  then show "w < 2 ^ 31" by simp
qed

text \<open>Both receive steps, whether there is a neighbour or not.\<close>

lemma post_recv_fw_any:
  assumes r: "ready g h D" and w: "width_ok g d w" and room: "length D \<le> avail h"
    and c: "c \<longleftrightarrow> w > 0 \<and> has_fw g d per"
  shows "\<exists>g' h'. post_recv_fw d w False per peer (bytes_of g d w) (g, h) =
      Inr (g', h', if c then [(peer, halo_slot g' (Slot False True d), bytes_of g d w)] else []) \<and>
    keeps {Slot False True d} (g, h) (g', h') \<and> (c \<longrightarrow> roomy g' h' (Slot False True d) (bytes_of g d w)) \<and>
    avail h \<le> avail h' + length D \<and>
    meta g' = (False, upd (gm_halo_fw_width g) d (if c then w else 0), gm_halo_bw_width g,
      upd (gm_halo_fw_size g) d (if c then shape_of g d w else arr_Set 0), gm_halo_bw_size g)"
proof (cases c)
  case True
  have d: "d < grid_num_dims g" using w by (simp add: width_ok_def)
  note b = ready_bytes[OF r w]
  have "bytes_of g d w \<le> avail h" using b(1) room by simp
  from post_recv_fw_ok[OF readyD(1)[OF r] d this b(2) _ b(3), where per = per and peer = peer]
  obtain g' h' where "post_recv_fw d w False per peer (bytes_of g d w) (g, h) =
      Inr (g', h', [(peer, halo_slot g' (Slot False True d), bytes_of g d w)])"
    "keeps {Slot False True d} (g, h) (g', h')" "roomy g' h' (Slot False True d) (bytes_of g d w)"
    "avail h \<le> avail h' + bytes_of g d w"
    "meta g' = (gm_halo_has_diagonal g, upd (gm_halo_fw_width g) d w, gm_halo_bw_width g,
      upd (gm_halo_fw_size g) d (shape_of g d w), gm_halo_bw_size g)"
    using True c by blast
  then show ?thesis using True b(1) readyD(3)[OF r] by (intro exI[of _ g'] exI[of _ h']) simp
next
  case False
  let ?g = "g\<lparr>gm_halo_fw_width := upd (gm_halo_fw_width g) d 0, gm_halo_fw_size := upd (gm_halo_fw_size g) d (arr_Set 0)\<rparr>"
  have "post_recv_fw d w False per peer (bytes_of g d w) (g, h) = Inr (?g, h, [])"
    using False c by (auto simp: post_recv_fw_def)
  moreover have "keeps {Slot False True d} (g, h) (?g, h)" by (rule keeps_fields[OF readyD(1)[OF r]]) simp_all
  ultimately show ?thesis using False readyD(3)[OF r] by (intro exI[of _ ?g] exI[of _ h]) (simp add: meta_def)
qed

lemma post_recv_bw_any:
  assumes r: "ready g h D" and w: "width_ok g d w" and room: "length D \<le> avail h"
    and c: "c \<longleftrightarrow> w > 0 \<and> has_bw g d per"
  shows "\<exists>g' h'. post_recv_bw d w False per peer (bytes_of g d w) (g, h) =
      Inr (g', h', if c then [(peer, halo_slot g' (Slot False False d), bytes_of g d w)] else []) \<and>
    keeps {Slot False False d} (g, h) (g', h') \<and> (c \<longrightarrow> roomy g' h' (Slot False False d) (bytes_of g d w)) \<and>
    avail h \<le> avail h' + length D \<and>
    meta g' = (False, gm_halo_fw_width g, upd (gm_halo_bw_width g) d (if c then w else 0),
      gm_halo_fw_size g, upd (gm_halo_bw_size g) d (if c then shape_of g d w else arr_Set 0))"
proof (cases c)
  case True
  have d: "d < grid_num_dims g" using w by (simp add: width_ok_def)
  note b = ready_bytes[OF r w]
  have "bytes_of g d w \<le> avail h" using b(1) room by simp
  from post_recv_bw_ok[OF readyD(1)[OF r] d this b(2) _ b(3), where per = per and peer = peer]
  obtain g' h' where "post_recv_bw d w False per peer (bytes_of g d w) (g, h) =
      Inr (g', h', [(peer, halo_slot g' (Slot False False d), bytes_of g d w)])"
    "keeps {Slot False False d} (g, h) (g', h')" "roomy g' h' (Slot False False d) (bytes_of g d w)"
    "avail h \<le> avail h' + bytes_of g d w"
    "meta g' = (gm_halo_has_diagonal g, gm_halo_fw_width g, upd (gm_halo_bw_width g) d w,
      gm_halo_fw_size g, upd (gm_halo_bw_size g) d (shape_of g d w))"
    using True c by blast
  then show ?thesis using True b(1) readyD(3)[OF r] by (intro exI[of _ g'] exI[of _ h']) simp
next
  case False
  let ?g = "g\<lparr>gm_halo_bw_width := upd (gm_halo_bw_width g) d 0, gm_halo_bw_size := upd (gm_halo_bw_size g) d (arr_Set 0)\<rparr>"
  have "post_recv_bw d w False per peer (bytes_of g d w) (g, h) = Inr (?g, h, [])"
    using False c by (auto simp: post_recv_bw_def)
  moreover have "keeps {Slot False False d} (g, h) (?g, h)" by (rule keeps_fields[OF readyD(1)[OF r]]) simp_all
  ultimately show ?thesis using False readyD(3)[OF r] by (intro exI[of _ ?g] exI[of _ h]) (simp add: meta_def)
qed

lemma send_any:
  assumes r: "ready g h D" and w: "width_ok g d w" and room: "length D \<le> avail h" and c: "c \<Longrightarrow> w > 0"
  shows "\<exists>g' h'. (if c then bindP (lift (CopyoutHalo d w fw False g h)) (\<lambda>(g1, h1).
          bindP (lift (array_get (slot_list True fw g1) (int d))) (\<lambda>p.
            bindP (send_bytes p (bytes_of g d w) dest h1) (\<lambda>_. Ret (g1, h1))))
        else Ret (g, h)) =
      send_all (if c then [(dest, MBytes (layer_of g d w fw D))] else []) (Ret (g', h')) \<and>
    keeps {Slot True fw d} (g, h) (g', h') \<and> avail h \<le> avail h' + length D \<and> meta g' = meta g"
proof (cases c)
  case True
  note rd = readyD[OF r] and b = ready_bytes[OF r w]
  obtain bl where bl: "data0 g = Ptr bl 0" "blocks h bl = Some D" using rd(4) by blast
  have wd: "d < grid_num_dims g" "int w \<le> at (gm_local_size g) d" using w by (auto simp: width_ok_def)
  have "layer_bytes (grid_num_dims g) (grid_elm_size g) (gm_local_size g) d w \<le> avail h"
    using b(1) room by (simp add: bytes_of_def)
  from CopyoutHalo_ok[OF rd(1) wd(1) rd(2) wd(2) c[OF True] bl _ this, of fw] rd(5)
  obtain g' h' where o: "CopyoutHalo d w fw False g h = Inr (g', h')" "sends_layer g h d w fw D g' h'" by auto
  from o(2) obtain p where p: "array_get (slot_list True fw g') (int d) = Inr p"
    "load p (bytes_of g d w) h' = Inr (layer_of g d w fw D)" "keeps {Slot True fw d} (g, h) (g', h')"
    "avail h \<le> avail h' + bytes_of g d w"
    "meta g' = (False, gm_halo_fw_width g, gm_halo_bw_width g, gm_halo_fw_size g, gm_halo_bw_size g)"
    by (auto simp: sends_layer_def bytes_of_def layer_of_def Let_def)
  have "0 < bytes_of g d w" using b(2) c[OF True] by simp
  then have "send_bytes p (bytes_of g d w) dest h' = Send dest (MBytes (layer_of g d w fw D)) (Ret ())"
    using p(2) by (simp add: send_bytes_def PS_MPI_Send_def)
  then show ?thesis using True o(1) p b(1) rd(3)
    by (intro exI[of _ g'] exI[of _ h']) (simp add: meta_def)
next
  case False
  then show ?thesis using keeps_refl[OF readyD(1)[OF r]] by (intro exI[of _ g] exI[of _ h]) simp
qed

text \<open>
  All of the first half of an exchange: after the sends only the receives are left. The slots
  the exchange may change, and its messages.
\<close>

definition slots_at :: "nat \<Rightarrow> slot set" where
  "slots_at d = {Slot own fw d | own fw. True}"

definition halo_sends ::
    "('s, 'x) gridspace_mpi_scheme \<Rightarrow> 'g gridmpi_scheme \<Rightarrow> nat \<Rightarrow> nat \<Rightarrow> nat \<Rightarrow> bool \<Rightarrow> cell list \<Rightarrow> (nat \<times> msg) list" where
  "halo_sends gs g d u v per D =
     (if u > 0 \<and> has_bw g d per then [(nat (at (gs_bw_neighbors gs) d), MBytes (layer_of g d u True D))] else []) @
     (if v > 0 \<and> has_fw g d per then [(nat (at (gs_fw_neighbors gs) d), MBytes (layer_of g d v False D))] else [])"

definition halo_recvs ::
    "('s, 'x) gridspace_mpi_scheme \<Rightarrow> 'g gridmpi_scheme \<Rightarrow> nat \<Rightarrow> nat \<Rightarrow> nat \<Rightarrow> bool \<Rightarrow> recv_request list" where
  "halo_recvs gs g d u v per =
     (if u > 0 \<and> has_fw g d per
      then [(nat (at (gs_fw_neighbors gs) d), halo_slot g (Slot False True d), bytes_of g d u)] else []) @
     (if v > 0 \<and> has_bw g d per
      then [(nat (at (gs_bw_neighbors gs) d), halo_slot g (Slot False False d), bytes_of g d v)] else [])"

definition halo_meta :: "'g gridmpi_scheme \<Rightarrow> nat \<Rightarrow> nat \<Rightarrow> nat \<Rightarrow> bool \<Rightarrow> bool \<times> nat arr3 \<times> nat arr3 \<times> idx arr3 \<times> idx arr3" where
  "halo_meta g d u v per = (let f = (u > 0 \<and> has_fw g d per); b = (v > 0 \<and> has_bw g d per) in
     (False, upd (gm_halo_fw_width g) d (if f then u else 0), upd (gm_halo_bw_width g) d (if b then v else 0),
      upd (gm_halo_fw_size g) d (if f then shape_of g d u else arr_Set 0),
      upd (gm_halo_bw_size g) d (if b then shape_of g d v else arr_Set 0)))"

lemma slots_at_mem: "Slot own fw d' \<in> slots_at d \<longleftrightarrow> d' = d"
  by (auto simp: slots_at_def)

lemma keeps_slots_at: "keeps {Slot own fw d} s s' \<Longrightarrow> keeps (slots_at d) s s'"
  by (rule keeps_mono) (auto simp: slots_at_def)

lemma width_ok_core: "core g' = core g \<Longrightarrow> width_ok g' d w = width_ok g d w"
  using core_fields[of g' g] by (simp add: width_ok_def)

lemma exchange_async:
  assumes r: "ready g h D" and ne: "\<not> gm_empty g" and w: "width_ok g d u" "width_ok g d v"
    and room: "4 * length D \<le> avail h"
  shows "\<exists>g' h'. ExchangeBoundariesAsync gs d u v False per (g, h) =
      send_all (halo_sends gs g d u v per D) (Ret (g', h', halo_recvs gs g' d u v per)) \<and>
    keeps (slots_at d) (g, h) (g', h') \<and> avail h \<le> avail h' + 4 * length D \<and> meta g' = halo_meta g d u v per \<and>
    (u > 0 \<and> has_fw g d per \<longrightarrow> roomy g' h' (Slot False True d) (bytes_of g d u)) \<and>
    (v > 0 \<and> has_bw g d per \<longrightarrow> roomy g' h' (Slot False False d) (bytes_of g d v))"
proof -
  let ?f = "nat (at (gs_fw_neighbors gs) d)" and ?b = "nat (at (gs_bw_neighbors gs) d)"
  let ?c1 = "u > 0 \<and> has_fw g d per" and ?c2 = "v > 0 \<and> has_bw g d per"
  let ?s1 = "u > 0 \<and> has_bw g d per" and ?s2 = "v > 0 \<and> has_fw g d per"
  note rd = readyD[OF r]
  have d: "d < grid_num_dims g" "int u \<le> at (gm_local_size g) d" "int v \<le> at (gm_local_size g) d"
    using w by (auto simp: width_ok_def)
  have bytes: "size_mult (CalcHaloSize g d u False) (grid_elm_size g) = bytes_of g d u"
    "size_mult (CalcHaloSize g d v False) (grid_elm_size g) = bytes_of g d v"
    using halo_bytes_layer[OF rd(2) d(1)] d(2,3) by (simp_all add: bytes_of_def)
  have room0: "length D \<le> avail h" using room by simp
  obtain g1 h1 where 1: "post_recv_fw d u False per ?f (bytes_of g d u) (g, h) =
      Inr (g1, h1, if ?c1 then [(?f, halo_slot g1 (Slot False True d), bytes_of g d u)] else [])"
    "keeps {Slot False True d} (g, h) (g1, h1)" "?c1 \<longrightarrow> roomy g1 h1 (Slot False True d) (bytes_of g d u)"
    "avail h \<le> avail h1 + length D"
    "meta g1 = (False, upd (gm_halo_fw_width g) d (if ?c1 then u else 0), gm_halo_bw_width g,
      upd (gm_halo_fw_size g) d (if ?c1 then shape_of g d u else arr_Set 0), gm_halo_bw_size g)"
    using post_recv_fw_any[OF r w(1) room0 refl, where per = per and peer = ?f] by blast
  have c1: "core g1 = core g" by (rule keepsD(4)[OF 1(2)])
  have r1: "ready g1 h1 D" by (rule keeps_ready[OF 1(2) r]) (use 1(5) in \<open>simp add: meta_def\<close>)
  have w1: "width_ok g1 d u" "width_ok g1 d v" using w width_ok_core[OF c1] by simp_all
  have room1: "length D \<le> avail h1" using room 1(4) by simp
  obtain g2 h2 where 2: "post_recv_bw d v False per ?b (bytes_of g d v) (g1, h1) =
      Inr (g2, h2, if ?c2 then [(?b, halo_slot g2 (Slot False False d), bytes_of g d v)] else [])"
    "keeps {Slot False False d} (g1, h1) (g2, h2)" "?c2 \<longrightarrow> roomy g2 h2 (Slot False False d) (bytes_of g d v)"
    "avail h1 \<le> avail h2 + length D"
    "meta g2 = (False, gm_halo_fw_width g1, upd (gm_halo_bw_width g1) d (if ?c2 then v else 0),
      gm_halo_fw_size g1, upd (gm_halo_bw_size g1) d (if ?c2 then shape_of g d v else arr_Set 0))"
    using post_recv_bw_any[OF r1 w1(2) room1 refl, where per = per and peer = ?b]
    unfolding core_has[OF c1] core_layers[OF c1] by blast
  have c2: "core g2 = core g" using keepsD(4)[OF 2(2)] c1 by simp
  have r2: "ready g2 h2 D" by (rule keeps_ready[OF 2(2) r1]) (use 2(5) in \<open>simp add: meta_def\<close>)
  have w2: "width_ok g2 d u" "width_ok g2 d v" using w width_ok_core[OF c2] by simp_all
  have room2: "length D \<le> avail h2" using room 1(4) 2(4) by simp
  obtain g3 h3 where 3: "(if ?s1 then bindP (lift (CopyoutHalo d u True False g2 h2)) (\<lambda>(g, h).
          bindP (lift (array_get (gm_halo_self_fw g) (int d))) (\<lambda>p.
            bindP (send_bytes p (bytes_of g2 d u) ?b h) (\<lambda>_. Ret (g, h))))
        else Ret (g2, h2)) = send_all (if ?s1 then [(?b, MBytes (layer_of g2 d u True D))] else []) (Ret (g3, h3))"
    "keeps {Slot True True d} (g2, h2) (g3, h3)" "avail h2 \<le> avail h3 + length D" "meta g3 = meta g2"
    using send_any[OF r2 w2(1) room2, of ?s1 True ?b] unfolding slot_list.simps by blast
  have c3: "core g3 = core g" using keepsD(4)[OF 3(2)] c2 by simp
  have r3: "ready g3 h3 D" by (rule keeps_ready[OF 3(2) r2]) (use 3(4) 2(5) in \<open>simp add: meta_def\<close>)
  have w3: "width_ok g3 d v" using w width_ok_core[OF c3] by simp
  have room3: "length D \<le> avail h3" using room 1(4) 2(4) 3(3) by simp
  obtain g4 h4 where 4: "(if ?s2 then bindP (lift (CopyoutHalo d v False False g3 h3)) (\<lambda>(g, h).
          bindP (lift (array_get (gm_halo_self_bw g) (int d))) (\<lambda>p.
            bindP (send_bytes p (bytes_of g3 d v) ?f h) (\<lambda>_. Ret (g, h))))
        else Ret (g3, h3)) = send_all (if ?s2 then [(?f, MBytes (layer_of g3 d v False D))] else []) (Ret (g4, h4))"
    "keeps {Slot True False d} (g3, h3) (g4, h4)" "avail h3 \<le> avail h4 + length D" "meta g4 = meta g3"
    using send_any[OF r3 w3 room3, of ?s2 False ?f] unfolding slot_list.simps by blast
  have c4: "core g4 = core g" using keepsD(4)[OF 4(2)] c3 by simp
  note k2 = keeps_trans[OF keeps_slots_at[OF 1(2)] keeps_slots_at[OF 2(2)]]
  note k4 = keeps_trans[OF keeps_trans[OF k2 keeps_slots_at[OF 3(2)]] keeps_slots_at[OF 4(2)]]
  have sv: "slot_valid (grid_num_dims g) (Slot False fw d)" for fw using d(1) by simp
  have nd: "grid_num_dims g1 = grid_num_dims g" "grid_num_dims g2 = grid_num_dims g" "grid_num_dims g3 = grid_num_dims g"
    using core_fields(1)[OF c1] core_fields(1)[OF c2] core_fields(1)[OF c3] by simp_all
  have slot_f: "halo_slot g4 (Slot False True d) = halo_slot g1 (Slot False True d)"
    using keepsD(5)[OF 2(2), of "Slot False True d"] keepsD(5)[OF 3(2), of "Slot False True d"]
      keepsD(5)[OF 4(2), of "Slot False True d"] sv nd by simp
  have slot_b: "halo_slot g4 (Slot False False d) = halo_slot g2 (Slot False False d)"
    using keepsD(5)[OF 3(2), of "Slot False False d"] keepsD(5)[OF 4(2), of "Slot False False d"] sv nd by simp
  have rf: "roomy g4 h4 (Slot False True d) (bytes_of g d u)" if ?c1
    using keeps_roomy[OF 4(2) _ _ keeps_roomy[OF 3(2) _ _ keeps_roomy[OF 2(2) _ _ 1(3)[rule_format, OF that]]]] sv nd by simp
  have rb: "roomy g4 h4 (Slot False False d) (bytes_of g d v)" if ?c2
    using keeps_roomy[OF 4(2) _ _ keeps_roomy[OF 3(2) _ _ 2(3)[rule_format, OF that]]] sv nd by simp
  have reqs: "(if ?c1 then [(?f, halo_slot g1 (Slot False True d), bytes_of g d u)] else []) @
      (if ?c2 then [(?b, halo_slot g2 (Slot False False d), bytes_of g d v)] else []) = halo_recvs gs g4 d u v per"
    unfolding halo_recvs_def core_has[OF c4] core_layers[OF c4] slot_f slot_b ..
  have run: "ExchangeBoundariesAsync gs d u v False per (g, h) =
      send_all (halo_sends gs g d u v per D) (Ret (g4, h4, halo_recvs gs g4 d u v per))"
    unfolding ExchangeBoundariesAsync_def Let_def prod.case bytes 1(1) lift.simps bindP.simps 2(1) core_has[OF c2]
      3(1)[unfolded core_layers[OF c2]] core_has[OF c3] 4(1)[unfolded core_layers[OF c3]] halo_sends_def
      send_all_append reqs[symmetric]
    using ne core_has[OF c2] core_has[OF c3] 3(1)[unfolded core_layers[OF c2]] 4(1)[unfolded core_layers[OF c3]]
    by simp
  have m: "meta g4 = halo_meta g d u v per"
    using 1(5) 2(5) 3(4) 4(4) by (simp add: meta_def halo_meta_def Let_def)
  show ?thesis using run k4 m rf rb 1(4) 2(4) 3(3) 4(3) by (intro exI[of _ g4] exI[of _ h4]) simp
qed

subsection \<open>The receives\<close>

lemma recv_slot:
  assumes ok: "halo_ok g h" and k: "slot_valid (grid_num_dims g) k" and room: "roomy g h k n"
    and m: "inbox src = MBytes ys # ms" and len: "length ys = n" "0 < n"
  shows "\<exists>h'. drain (recv_bytes (halo_slot g k) n src h) inbox = Some (h', inbox(src := ms)) \<and>
    keeps {k} (g, h) (g, h') \<and> slot_holds g h' k ys \<and> avail h' = avail h"
proof -
  obtain b cs where b: "halo_slot g k = Ptr b 0" "blocks h b = Some cs" "n \<le> length cs"
    using room by (auto simp: roomy_def)
  let ?h = "h\<lparr>blocks := (blocks h)(b \<mapsto> list_write cs 0 ys)\<rparr>"
  have st: "store (Ptr b 0) ys h = Inr ?h"
    using store_block[OF b(2), of 0 ys] b(3) len by simp
  have l: "length (list_write cs 0 ys) = length cs" using b(3) len by simp
  have "drain (recv_bytes (halo_slot g k) n src h) inbox = Some (?h, inbox(src := ms))"
    using m len st b(1) by (auto simp: recv_bytes_def PS_MPI_Recv_def)
  moreover have "keeps {k} (g, h) (g, ?h)" by (rule keeps_write[OF ok k b(1,2) l])
  moreover have "slot_holds g ?h k ys" using b l len by (simp add: slot_holds_def list_write_def)
  ultimately show ?thesis by (intro exI[of _ ?h]) simp
qed

definition recv_all :: "recv_request list \<Rightarrow> heap \<Rightarrow> heap prog" where
  "recv_all = foldP (\<lambda>(src, p, bytes) h. recv_bytes p bytes src h)"

lemma recv_all_simps [simp]:
  "recv_all [] h = Ret h" "recv_all [(src, p, n)] h = recv_bytes p n src h"
proof -
  have "foldP f [] = Ret" for f :: "recv_request \<Rightarrow> heap \<Rightarrow> heap prog" by (rule ext) simp
  then show "recv_all [] h = Ret h" "recv_all [(src, p, n)] h = recv_bytes p n src h"
    by (simp_all add: recv_all_def)
qed

lemma recv_all_append: "recv_all (xs @ ys) h = bindP (recv_all xs h) (recv_all ys)"
  by (simp add: recv_all_def foldP_append)

text \<open>
  The messages of the two neighbours are \<open>a\<close> and \<open>b\<close>; both may come from one process, the
  forward one first.
\<close>

definition halo_inbox :: "nat \<Rightarrow> nat \<Rightarrow> msg list \<Rightarrow> msg list \<Rightarrow> nat \<Rightarrow> msg list" where
  "halo_inbox f b a a' s = (if s = f then a else []) @ (if s = b then a' else [])"

lemma recv_halos:
  assumes ok: "halo_ok g h" and d: "d < grid_num_dims g"
    and f: "u > 0 \<and> has_fw g d per \<Longrightarrow> roomy g h (Slot False True d) (bytes_of g d u) \<and>
      length ys = bytes_of g d u \<and> 0 < bytes_of g d u"
    and b: "v > 0 \<and> has_bw g d per \<Longrightarrow> roomy g h (Slot False False d) (bytes_of g d v) \<and>
      length zs = bytes_of g d v \<and> 0 < bytes_of g d v"
  shows "\<exists>h'. drain (recv_all (halo_recvs gs g d u v per) h)
      (halo_inbox (nat (at (gs_fw_neighbors gs) d)) (nat (at (gs_bw_neighbors gs) d))
         (if u > 0 \<and> has_fw g d per then [MBytes ys] else []) (if v > 0 \<and> has_bw g d per then [MBytes zs] else []))
      = Some (h', (\<lambda>_. [])) \<and>
    keeps (slots_at d) (g, h) (g, h') \<and> avail h' = avail h \<and>
    (u > 0 \<and> has_fw g d per \<longrightarrow> slot_holds g h' (Slot False True d) ys) \<and>
    (v > 0 \<and> has_bw g d per \<longrightarrow> slot_holds g h' (Slot False False d) zs)"
proof -
  let ?f = "nat (at (gs_fw_neighbors gs) d)" and ?b = "nat (at (gs_bw_neighbors gs) d)"
  let ?c1 = "u > 0 \<and> has_fw g d per" and ?c2 = "v > 0 \<and> has_bw g d per"
  let ?F = "Slot False True d" and ?B = "Slot False False d"
  let ?m2 = "if ?c2 then [MBytes zs] else []"
  have sv: "slot_valid (grid_num_dims g) (Slot False fw d)" for fw using d by simp
  have "\<exists>h1. drain (recv_all (if ?c1 then [(?f, halo_slot g ?F, bytes_of g d u)] else []) h)
      (halo_inbox ?f ?b (if ?c1 then [MBytes ys] else []) ?m2) = Some (h1, halo_inbox ?f ?b [] ?m2) \<and>
    keeps {?F} (g, h) (g, h1) \<and> avail h1 = avail h \<and> (?c1 \<longrightarrow> slot_holds g h1 ?F ys)"
  proof (cases ?c1)
    case True
    note t = f[OF True]
    have i: "halo_inbox ?f ?b [MBytes ys] ?m2 ?f = MBytes ys # (if ?f = ?b then ?m2 else [])"
      by (simp add: halo_inbox_def)
    have u: "(halo_inbox ?f ?b [MBytes ys] ?m2)(?f := if ?f = ?b then ?m2 else []) = halo_inbox ?f ?b [] ?m2"
      by (auto simp: halo_inbox_def fun_eq_iff)
    show ?thesis
      using recv_slot[OF ok sv, of True "bytes_of g d u" "halo_inbox ?f ?b [MBytes ys] ?m2" ?f ys] t i True
      by (auto simp: u simp del: halo_slot.simps)
  next
    case False
    then show ?thesis unfolding if_not_P[OF False] using False keeps_refl[OF ok] by (intro exI[of _ h]) auto
  qed
  then obtain h1 where 1: "drain (recv_all (if ?c1 then [(?f, halo_slot g ?F, bytes_of g d u)] else []) h)
      (halo_inbox ?f ?b (if ?c1 then [MBytes ys] else []) ?m2) = Some (h1, halo_inbox ?f ?b [] ?m2)"
    "keeps {?F} (g, h) (g, h1)" "avail h1 = avail h" "?c1 \<longrightarrow> slot_holds g h1 ?F ys" by blast
  note ok1 = keepsD(1)[OF 1(2)]
  have "\<exists>h2. drain (recv_all (if ?c2 then [(?b, halo_slot g ?B, bytes_of g d v)] else []) h1)
      (halo_inbox ?f ?b [] ?m2) = Some (h2, \<lambda>_. []) \<and>
    keeps {?B} (g, h1) (g, h2) \<and> avail h2 = avail h1 \<and> (?c2 \<longrightarrow> slot_holds g h2 ?B zs)"
  proof (cases ?c2)
    case True
    have t: "roomy g h1 ?B (bytes_of g d v)" "length zs = bytes_of g d v" "0 < bytes_of g d v"
      using b[OF True] keeps_roomy[OF 1(2) sv, of False] by auto
    have i: "halo_inbox ?f ?b [] [MBytes zs] ?b = MBytes zs # []" by (simp add: halo_inbox_def)
    have u: "(halo_inbox ?f ?b [] [MBytes zs])(?b := []) = (\<lambda>_. [])" by (auto simp: halo_inbox_def fun_eq_iff)
    show ?thesis
      using recv_slot[OF ok1 sv t(1), of "halo_inbox ?f ?b [] [MBytes zs]" ?b zs "[]", OF i t(2,3)] True by (auto simp: u simp del: halo_slot.simps)
  next
    case False
    moreover have "halo_inbox ?f ?b [] [] = (\<lambda>_. [])" by (auto simp: halo_inbox_def fun_eq_iff)
    ultimately show ?thesis unfolding if_not_P[OF False] using False keeps_refl[OF ok1] by (intro exI[of _ h1]) auto
  qed
  then obtain h2 where 2: "drain (recv_all (if ?c2 then [(?b, halo_slot g ?B, bytes_of g d v)] else []) h1)
      (halo_inbox ?f ?b [] ?m2) = Some (h2, \<lambda>_. [])"
    "keeps {?B} (g, h1) (g, h2)" "avail h2 = avail h1" "?c2 \<longrightarrow> slot_holds g h2 ?B zs" by blast
  have "drain (recv_all (halo_recvs gs g d u v per) h)
      (halo_inbox ?f ?b (if ?c1 then [MBytes ys] else []) ?m2) = Some (h2, \<lambda>_. [])"
    unfolding halo_recvs_def recv_all_append drain_bindP 1(1) using 2(1) by simp
  moreover have "?c1 \<longrightarrow> slot_holds g h2 ?F ys" using keeps_holds[OF 2(2) sv, of True] 1(4) by auto
  ultimately show ?thesis
    using keeps_trans[OF keeps_slots_at[OF 1(2)] keeps_slots_at[OF 2(2)]] 1(3) 2(3,4)
    by (intro exI[of _ h2]) simp
qed

end
