(* ===== verification/Halo_Exchange.thy ===== *)
theory Halo_Exchange imports Halo_Local begin

text \<open>
  The exchange of halos between all processes (\<open>GridSpaceMPI::ExchangeBoundaries\<close>), one
  round of messages for each dimension: every process that is not empty ends with the layers
  of its neighbours in its buffers.
\<close>

subsection \<open>One process, one dimension\<close>

text \<open>
  The process has a neighbour to exchange with, in the state \<open>(g', h')\<close> after the exchange
  it holds \<open>ys\<close> of its forward and \<open>zs\<close> of its backward neighbour. An empty process does
  nothing.
\<close>

definition fwn :: "'g gridmpi_scheme \<Rightarrow> nat \<Rightarrow> bool \<Rightarrow> bool" where
  "fwn g d per \<longleftrightarrow> \<not> gm_empty g \<and> has_fw g d per"

definition bwn :: "'g gridmpi_scheme \<Rightarrow> nat \<Rightarrow> bool \<Rightarrow> bool" where
  "bwn g d per \<longleftrightarrow> \<not> gm_empty g \<and> has_bw g d per"

definition exchanged ::
    "nat \<Rightarrow> nat \<Rightarrow> nat \<Rightarrow> bool \<Rightarrow> cell list \<Rightarrow> cell list \<Rightarrow> nat \<Rightarrow>
      'g gridmpi_scheme \<times> heap \<Rightarrow> 'g gridmpi_scheme \<times> heap \<Rightarrow> bool" where
  "exchanged d u v per ys zs n = (\<lambda>(g, h) (g', h').
     if gm_empty g then (g', h') = (g, h)
     else keeps (slots_at d) (g, h) (g', h') \<and> avail h \<le> avail h' + n \<and> meta g' = halo_meta g d u v per \<and>
       (u > 0 \<and> has_fw g d per \<longrightarrow> slot_holds g' h' (Slot False True d) ys) \<and>
       (v > 0 \<and> has_bw g d per \<longrightarrow> slot_holds g' h' (Slot False False d) zs))"

definition sends_of ::
    "('s, 'x) gridspace_mpi_scheme \<Rightarrow> 'g gridmpi_scheme \<Rightarrow> nat \<Rightarrow> nat \<Rightarrow> nat \<Rightarrow> bool \<Rightarrow> cell list \<Rightarrow> (nat \<times> msg) list" where
  "sends_of gs g d u v per D =
     (if u > 0 \<and> bwn g d per then [(nat (at (gs_bw_neighbors gs) d), MBytes (layer_of g d u True D))] else []) @
     (if v > 0 \<and> fwn g d per then [(nat (at (gs_fw_neighbors gs) d), MBytes (layer_of g d v False D))] else [])"

definition inbox_of ::
    "('s, 'x) gridspace_mpi_scheme \<Rightarrow> 'g gridmpi_scheme \<Rightarrow> nat \<Rightarrow> nat \<Rightarrow> nat \<Rightarrow> bool \<Rightarrow> cell list \<Rightarrow> cell list \<Rightarrow>
      nat \<Rightarrow> msg list" where
  "inbox_of gs g d u v per ys zs = halo_inbox (nat (at (gs_fw_neighbors gs) d)) (nat (at (gs_bw_neighbors gs) d))
     (if u > 0 \<and> fwn g d per then [MBytes ys] else []) (if v > 0 \<and> bwn g d per then [MBytes zs] else [])"

lemma exchange_local:
  assumes r: "\<not> gm_empty g \<Longrightarrow> ready g h D \<and> width_ok g d u \<and> width_ok g d v \<and> 4 * length D \<le> avail h"
  shows "\<exists>p g'. (\<forall>C. bindP (ExchangeBoundaries gs d u v False per (g, h)) C =
      send_all (sends_of gs g d u v per D) (bindP p (\<lambda>h'. C (g', h')))) \<and>
    (\<forall>ys zs. (fwn g d per \<longrightarrow> length ys = bytes_of g d u) \<longrightarrow> (bwn g d per \<longrightarrow> length zs = bytes_of g d v) \<longrightarrow>
      (\<exists>h'. drain p (inbox_of gs g d u v per ys zs) = Some (h', \<lambda>_. []) \<and>
        exchanged d u v per ys zs (4 * length D) (g, h) (g', h')))"
proof (cases "gm_empty g")
  case True
  have "halo_inbox x y [] [] = (\<lambda>_. [])" for x y by (auto simp: halo_inbox_def)
  then show ?thesis using True
    by (intro exI[of _ "Ret h"] exI[of _ g])
      (simp add: ExchangeBoundaries_def ExchangeBoundariesAsync_def sends_of_def inbox_of_def fwn_def bwn_def exchanged_def)
next
  case False
  note r = r[OF False]
  then have w: "width_ok g d u" "width_ok g d v" and room: "4 * length D \<le> avail h" and rd: "ready g h D" by auto
  obtain g' h1 where a: "ExchangeBoundariesAsync gs d u v False per (g, h) =
      send_all (halo_sends gs g d u v per D) (Ret (g', h1, halo_recvs gs g' d u v per))"
    "keeps (slots_at d) (g, h) (g', h1)" "avail h \<le> avail h1 + 4 * length D" "meta g' = halo_meta g d u v per"
    "u > 0 \<and> has_fw g d per \<longrightarrow> roomy g' h1 (Slot False True d) (bytes_of g d u)"
    "v > 0 \<and> has_bw g d per \<longrightarrow> roomy g' h1 (Slot False False d) (bytes_of g d v)"
    using exchange_async[OF rd False w room, of gs per] by blast
  let ?p = "recv_all (halo_recvs gs g' d u v per) h1"
  have c: "core g' = core g" by (rule keepsD(4)[OF a(2)])
  have d: "d < grid_num_dims g'" using w(1) core_fields(1)[OF c] by (simp add: width_ok_def)
  have s: "halo_sends gs g d u v per D = sends_of gs g d u v per D"
    using False by (simp add: halo_sends_def sends_of_def fwn_def bwn_def)
  have "bindP (ExchangeBoundaries gs d u v False per (g, h)) C =
      send_all (sends_of gs g d u v per D) (bindP ?p (\<lambda>h'. C (g', h')))" for C :: "mgrid \<times> heap \<Rightarrow> 'z prog"
    unfolding ExchangeBoundaries_def a(1) s by (simp add: bindP_assoc recv_all_def)
  moreover have "\<exists>h'. drain ?p (inbox_of gs g d u v per ys zs) = Some (h', \<lambda>_. []) \<and>
        exchanged d u v per ys zs (4 * length D) (g, h) (g', h')"
    if l: "fwn g d per \<longrightarrow> length ys = bytes_of g d u" "bwn g d per \<longrightarrow> length zs = bytes_of g d v" for ys zs
  proof -
    have "\<exists>h'. drain ?p (halo_inbox (nat (at (gs_fw_neighbors gs) d)) (nat (at (gs_bw_neighbors gs) d))
         (if u > 0 \<and> has_fw g' d per then [MBytes ys] else []) (if v > 0 \<and> has_bw g' d per then [MBytes zs] else []))
        = Some (h', (\<lambda>_. [])) \<and>
      keeps (slots_at d) (g', h1) (g', h') \<and> avail h' = avail h1 \<and>
      (u > 0 \<and> has_fw g' d per \<longrightarrow> slot_holds g' h' (Slot False True d) ys) \<and>
      (v > 0 \<and> has_bw g' d per \<longrightarrow> slot_holds g' h' (Slot False False d) zs)"
      by (rule recv_halos[OF keepsD(1)[OF a(2)] d])
        (use a(5,6) l False ready_bytes(2)[OF rd w(1)] ready_bytes(2)[OF rd w(2)] in
          \<open>simp_all add: core_has[OF c] core_layers[OF c] fwn_def bwn_def\<close>)
    then obtain h' where h': "drain ?p (inbox_of gs g d u v per ys zs) = Some (h', \<lambda>_. [])"
      "keeps (slots_at d) (g', h1) (g', h')" "avail h' = avail h1"
      "u > 0 \<and> has_fw g d per \<longrightarrow> slot_holds g' h' (Slot False True d) ys"
      "v > 0 \<and> has_bw g d per \<longrightarrow> slot_holds g' h' (Slot False False d) zs"
      using False unfolding inbox_of_def fwn_def bwn_def core_has[OF c] by auto
    then show ?thesis using keeps_trans[OF a(2) h'(2)] a(3,4) False by (intro exI[of _ h']) (simp add: exchanged_def)
  qed
  ultimately show ?thesis by blast
qed

subsection \<open>All processes, one dimension\<close>

text \<open>
  Who exchanges with whom: process \<open>i\<close> has a forward neighbour \<open>fp i\<close> when \<open>f i\<close>, and a
  backward neighbour \<open>bp i\<close> when \<open>b i\<close>, and the two relations are inverse to each other.
\<close>

definition neighbours_ok :: "nat \<Rightarrow> (nat \<Rightarrow> bool) \<Rightarrow> (nat \<Rightarrow> bool) \<Rightarrow> (nat \<Rightarrow> nat) \<Rightarrow> (nat \<Rightarrow> nat) \<Rightarrow> bool" where
  "neighbours_ok N f b fp bp \<longleftrightarrow>
     (\<forall>i < N. f i \<longrightarrow> fp i < N \<and> b (fp i) \<and> bp (fp i) = i) \<and>
     (\<forall>i < N. b i \<longrightarrow> bp i < N \<and> f (bp i) \<and> fp (bp i) = i)"

lemma neighbours_inbox:
  assumes "neighbours_ok N f b fp bp" "i < N"
  shows "(if s < N then msgs_to ((if U \<and> b s then [(bp s, x s)] else []) @ (if V \<and> f s then [(fp s, y s)] else [])) i else [])
    = halo_inbox (fp i) (bp i) (if U \<and> f i then [x (fp i)] else []) (if V \<and> b i then [y (bp i)] else []) s"
proof -
  note n = assms(1)[unfolded neighbours_ok_def]
  have a: "s < N \<and> b s \<and> bp s = i \<longleftrightarrow> f i \<and> s = fp i" using n assms(2) by metis
  have c: "s < N \<and> f s \<and> fp s = i \<longleftrightarrow> b i \<and> s = bp i" using n assms(2) by metis
  have "(if s < N then if U \<and> b s \<and> bp s = i then [x s] else [] else []) =
      (if s = fp i then if U \<and> f i then [x (fp i)] else [] else [])"
    using a by (cases "f i \<and> s = fp i") auto
  moreover have "(if s < N then if V \<and> f s \<and> fp s = i then [y s] else [] else []) =
      (if s = bp i then if V \<and> b i then [y (bp i)] else [] else [])"
    using c by (cases "b i \<and> s = bp i") auto
  moreover have m: "msgs_to (if P then [(t, z)] else []) i = (if P \<and> t = i then [z] else [])" for P t z by simp
  ultimately show ?thesis
    unfolding halo_inbox_def msgs_to_append m conj_assoc by (cases "s < N") simp_all
qed

text \<open>
  The processes' grids in one dimension: who is a neighbour follows from the grids and the
  grid spaces, and neighbours have layers of the same number of bytes.
\<close>

definition ring_ok ::
    "nat \<Rightarrow> (nat \<Rightarrow> ('s, 'x) gridspace_mpi_scheme) \<Rightarrow> (nat \<Rightarrow> 'g gridmpi_scheme) \<Rightarrow> nat \<Rightarrow> bool \<Rightarrow> bool" where
  "ring_ok N gs g d per \<longleftrightarrow>
     neighbours_ok N (\<lambda>i. fwn (g i) d per) (\<lambda>i. bwn (g i) d per)
       (\<lambda>i. nat (at (gs_fw_neighbors (gs i)) d)) (\<lambda>i. nat (at (gs_bw_neighbors (gs i)) d)) \<and>
     (\<forall>i < N. \<forall>w. fwn (g i) d per \<longrightarrow>
        bytes_of (g (nat (at (gs_fw_neighbors (gs i)) d))) d w = bytes_of (g i) d w)"

definition from_fw ::
    "(nat \<Rightarrow> ('s, 'x) gridspace_mpi_scheme) \<Rightarrow> (nat \<Rightarrow> 'g gridmpi_scheme) \<Rightarrow> (nat \<Rightarrow> cell list) \<Rightarrow> nat \<Rightarrow> nat \<Rightarrow> nat \<Rightarrow> cell list" where
  "from_fw gs g D d u i = (let j = nat (at (gs_fw_neighbors (gs i)) d) in layer_of (g j) d u True (D j))"

definition from_bw ::
    "(nat \<Rightarrow> ('s, 'x) gridspace_mpi_scheme) \<Rightarrow> (nat \<Rightarrow> 'g gridmpi_scheme) \<Rightarrow> (nat \<Rightarrow> cell list) \<Rightarrow> nat \<Rightarrow> nat \<Rightarrow> nat \<Rightarrow> cell list" where
  "from_bw gs g D d v i = (let j = nat (at (gs_bw_neighbors (gs i)) d) in layer_of (g j) d v False (D j))"

definition able :: "'g gridmpi_scheme \<Rightarrow> heap \<Rightarrow> cell list \<Rightarrow> nat \<Rightarrow> nat \<Rightarrow> nat \<Rightarrow> nat \<Rightarrow> bool" where
  "able g h D d u v n \<longleftrightarrow> (\<not> gm_empty g \<longrightarrow> ready g h D \<and> width_ok g d u \<and> width_ok g d v \<and> n * length D \<le> avail h)"

lemma ring_lengths:
  assumes ring: "ring_ok N gs g d per" and i: "i < N"
    and len: "\<And>i w first. i < N \<Longrightarrow> \<not> gm_empty (g i) \<Longrightarrow> w = u \<or> w = v \<Longrightarrow>
      length (layer_of (g i) d w first (D i)) = bytes_of (g i) d w"
  shows "fwn (g i) d per \<longrightarrow> length (from_fw gs g D d u i) = bytes_of (g i) d u"
    and "bwn (g i) d per \<longrightarrow> length (from_bw gs g D d v i) = bytes_of (g i) d v"
proof -
  let ?f = "nat (at (gs_fw_neighbors (gs i)) d)" and ?b = "nat (at (gs_bw_neighbors (gs i)) d)"
  note n = ring[unfolded ring_ok_def neighbours_ok_def]
  show "fwn (g i) d per \<longrightarrow> length (from_fw gs g D d u i) = bytes_of (g i) d u"
  proof
    assume f: "fwn (g i) d per"
    then have j: "?f < N" "\<not> gm_empty (g ?f)" "bytes_of (g ?f) d u = bytes_of (g i) d u"
      using n i by (auto simp: bwn_def)
    from len[OF j(1,2), of u True] j(3) show "length (from_fw gs g D d u i) = bytes_of (g i) d u"
      by (simp add: from_fw_def Let_def)
  qed
  show "bwn (g i) d per \<longrightarrow> length (from_bw gs g D d v i) = bytes_of (g i) d v"
  proof
    assume b: "bwn (g i) d per"
    then have j: "?b < N" "fwn (g ?b) d per" "nat (at (gs_fw_neighbors (gs ?b)) d) = i" using n i by auto
    then have e: "bytes_of (g ?b) d v = bytes_of (g i) d v" "\<not> gm_empty (g ?b)" using n by (auto simp: fwn_def)
    from len[OF j(1) e(2), of v False] e(1) show "length (from_bw gs g D d v i) = bytes_of (g i) d v"
      by (simp add: from_bw_def Let_def)
  qed
qed

lemma able_layer:
  assumes "able g h D d u v n" "\<not> gm_empty g" "w = u \<or> w = v"
  shows "length (layer_of g d w first D) = bytes_of g d w"
  using assms ready_bytes(4)[of g h D d w] by (auto simp: able_def)

lemma exchange_round:
  fixes C :: "nat \<Rightarrow> mgrid \<times> heap \<Rightarrow> 'a prog"
  assumes ring: "ring_ok N gs g d per" and able: "\<And>i. i < N \<Longrightarrow> able (g i) (h i) (D i) d u v 4"
  shows "\<exists>g' h'. (\<forall>i < N. exchanged d u v per (from_fw gs g D d u i) (from_bw gs g D d v i) (4 * length (D i))
      (g i, h i) (g' i, h' i)) \<and>
    det_step\<^sup>*\<^sup>* \<lparr>procs = map (\<lambda>i. bindP (ExchangeBoundaries (gs i) d u v False per (g i, h i)) (C i)) [0..<N],
        chans = (\<lambda>_ _. []), bqueue = bq\<rparr>
      \<lparr>procs = map (\<lambda>i. C i (g' i, h' i)) [0..<N], chans = (\<lambda>_ _. []), bqueue = bq\<rparr>"
proof -
  let ?S = "\<lambda>i. sends_of (gs i) (g i) d u v per (D i)"
  let ?I = "\<lambda>i. inbox_of (gs i) (g i) d u v per (from_fw gs g D d u i) (from_bw gs g D d v i)"
  let ?Q = "\<lambda>i. exchanged d u v per (from_fw gs g D d u i) (from_bw gs g D d v i) (4 * length (D i)) (g i, h i)"
  have nb: "neighbours_ok N (\<lambda>i. fwn (g i) d per) (\<lambda>i. bwn (g i) d per)
       (\<lambda>i. nat (at (gs_fw_neighbors (gs i)) d)) (\<lambda>i. nat (at (gs_bw_neighbors (gs i)) d))"
    using ring by (simp add: ring_ok_def)
  have "\<exists>x. (\<forall>i < N. ?Q i (x i)) \<and>
    det_step\<^sup>*\<^sup>* \<lparr>procs = map (\<lambda>i. bindP (ExchangeBoundaries (gs i) d u v False per (g i, h i)) (C i)) [0..<N],
        chans = (\<lambda>_ _. []), bqueue = bq\<rparr>
      \<lparr>procs = map (\<lambda>i. C i (x i)) [0..<N], chans = (\<lambda>_ _. []), bqueue = bq\<rparr>"
  proof (rule round_exists[where S = ?S and inbox = ?I])
    fix i
    assume i: "i < N"
    have "\<not> gm_empty (g i) \<Longrightarrow> ready (g i) (h i) (D i) \<and> width_ok (g i) d u \<and> width_ok (g i) d v \<and> 4 * length (D i) \<le> avail (h i)"
      using able[OF i] by (simp add: able_def)
    note l = exchange_local[OF this, of "gs i" per]
    have lens: "fwn (g i) d per \<longrightarrow> length (from_fw gs g D d u i) = bytes_of (g i) d u"
      "bwn (g i) d per \<longrightarrow> length (from_bw gs g D d v i) = bytes_of (g i) d v"
      using ring_lengths[OF ring i able_layer[OF able]] by blast+
    obtain p g' h' where p: "\<forall>C :: mgrid \<times> heap \<Rightarrow> 'a prog. bindP (ExchangeBoundaries (gs i) d u v False per (g i, h i)) C =
        send_all (?S i) (bindP p (\<lambda>h'. C (g', h')))" "drain p (?I i) = Some (h', \<lambda>_. [])" "?Q i (g', h')"
      using l lens by blast
    show "\<exists>p x. (\<forall>C :: mgrid \<times> heap \<Rightarrow> 'a prog. bindP (ExchangeBoundaries (gs i) d u v False per (g i, h i)) C =
        send_all (?S i) (bindP p C)) \<and> drain p (?I i) = Some (x, \<lambda>_. []) \<and> ?Q i x"
      using p by (intro exI[of _ "bindP p (\<lambda>h'. Ret (g', h'))"] exI[of _ "(g', h')"]) (simp add: bindP_assoc drain_bindP)
    show "(\<lambda>s. if s < N then msgs_to (?S s) i else []) = ?I i"
      unfolding sends_of_def inbox_of_def from_fw_def from_bw_def Let_def
      by (rule ext, rule neighbours_inbox[OF nb i])
    show "t < N" if "(t, m) \<in> set (?S i)" for t m
      using nb i that by (auto simp: sends_of_def neighbours_ok_def split: if_splits)
  qed
  then obtain x where "\<forall>i < N. ?Q i (x i)" and
    "det_step\<^sup>*\<^sup>* \<lparr>procs = map (\<lambda>i. bindP (ExchangeBoundaries (gs i) d u v False per (g i, h i)) (C i)) [0..<N],
        chans = (\<lambda>_ _. []), bqueue = bq\<rparr>
      \<lparr>procs = map (\<lambda>i. C i (x i)) [0..<N], chans = (\<lambda>_ _. []), bqueue = bq\<rparr>" by blast
  then show ?thesis by (intro exI[of _ "\<lambda>i. fst (x i)"] exI[of _ "\<lambda>i. snd (x i)"]) simp
qed

subsection \<open>All dimensions\<close>

text \<open>
  The halos of dimension \<open>d\<close> as an exchange leaves them: widths, shapes and contents.
\<close>

definition filled :: "nat \<Rightarrow> nat \<Rightarrow> nat \<Rightarrow> bool \<Rightarrow> cell list \<Rightarrow> cell list \<Rightarrow> 'g gridmpi_scheme \<Rightarrow> heap \<Rightarrow> bool" where
  "filled d u v per ys zs g h \<longleftrightarrow>
     at (gm_halo_fw_width g) d = (if u > 0 \<and> has_fw g d per then u else 0) \<and>
     at (gm_halo_bw_width g) d = (if v > 0 \<and> has_bw g d per then v else 0) \<and>
     at (gm_halo_fw_size g) d = (if u > 0 \<and> has_fw g d per then shape_of g d u else arr_Set 0) \<and>
     at (gm_halo_bw_size g) d = (if v > 0 \<and> has_bw g d per then shape_of g d v else arr_Set 0) \<and>
     (u > 0 \<and> has_fw g d per \<longrightarrow> slot_holds g h (Slot False True d) ys) \<and>
     (v > 0 \<and> has_bw g d per \<longrightarrow> slot_holds g h (Slot False False d) zs)"

definition meta_at :: "'g gridmpi_scheme \<Rightarrow> nat \<Rightarrow> nat \<times> nat \<times> idx \<times> idx" where
  "meta_at g d = (at (gm_halo_fw_width g) d, at (gm_halo_bw_width g) d, at (gm_halo_fw_size g) d, at (gm_halo_bw_size g) d)"

definition outcome ::
    "nat list \<Rightarrow> nat arr3 \<Rightarrow> nat arr3 \<Rightarrow> bool \<Rightarrow> (nat \<Rightarrow> cell list) \<Rightarrow> (nat \<Rightarrow> cell list) \<Rightarrow> cell list \<Rightarrow>
      'g gridmpi_scheme \<times> heap \<Rightarrow> 'g gridmpi_scheme \<times> heap \<Rightarrow> bool" where
  "outcome ds fw bw per ys zs D = (\<lambda>(g, h) (g', h').
     if gm_empty g then (g', h') = (g, h)
     else keeps (\<Union>d \<in> set ds. slots_at d) (g, h) (g', h') \<and> avail h \<le> avail h' + 4 * length ds * length D \<and>
       ready g' h' D \<and> (\<forall>d < 3. d \<notin> set ds \<longrightarrow> meta_at g' d = meta_at g d) \<and>
       (\<forall>d \<in> set ds. filled d (at fw d) (at bw d) per (ys d) (zs d) g' h'))"

lemma halo_meta_at:
  assumes "meta g' = halo_meta g d u v per" "d < 3" "e < 3"
  shows "meta_at g' e = (if e = d
    then (if u > 0 \<and> has_fw g d per then u else 0, if v > 0 \<and> has_bw g d per then v else 0,
          if u > 0 \<and> has_fw g d per then shape_of g d u else arr_Set 0,
          if v > 0 \<and> has_bw g d per then shape_of g d v else arr_Set 0)
    else meta_at g e)"
  using assms by (auto simp: meta_def halo_meta_def meta_at_def Let_def at_upd)

lemma exchanged_ready:
  assumes "exchanged d u v per ys zs n (g, h) (g', h')" "\<not> gm_empty g" "ready g h D"
  shows "ready g' h' D"
  using keeps_ready[of "slots_at d" g h g' h' D] assms by (simp add: exchanged_def meta_def halo_meta_def Let_def)

lemma exchanged_filled:
  assumes x: "exchanged d u v per ys zs n (g, h) (g', h')" and "\<not> gm_empty g" "d < 3"
  shows "filled d u v per ys zs g' h'"
proof -
  have k: "keeps (slots_at d) (g, h) (g', h')" "meta g' = halo_meta g d u v per"
    "u > 0 \<and> has_fw g d per \<longrightarrow> slot_holds g' h' (Slot False True d) ys"
    "v > 0 \<and> has_bw g d per \<longrightarrow> slot_holds g' h' (Slot False False d) zs"
    using x assms(2) by (simp_all add: exchanged_def)
  note c = core_has[OF keepsD(4)[OF k(1)]]
  show ?thesis using halo_meta_at[OF k(2) assms(3,3)] k(3,4) by (simp add: filled_def meta_at_def c)
qed

text \<open>Later dimensions do not touch the halos of earlier ones.\<close>

lemma filled_keep:
  assumes "filled d u v per ys zs g h" "keeps K (g, h) (g', h')" "meta_at g' d = meta_at g d" "d < grid_num_dims g"
    "\<And>own fw. Slot own fw d \<notin> K"
  shows "filled d u v per ys zs g' h'"
proof -
  note c = core_has[OF keepsD(4)[OF assms(2)]]
  have sv: "slot_valid (grid_num_dims g) (Slot False fw d)" for fw using assms(4) by simp
  show ?thesis
    using assms(1,3) keeps_holds[OF assms(2) sv assms(5)] unfolding filled_def meta_at_def c by auto
qed

lemma ring_ok_core:
  assumes "ring_ok N gs g d per" "\<And>i. i < N \<Longrightarrow> core (g' i) = core (g i)"
  shows "ring_ok N gs g' d per"
proof -
  have e: "fwn (g' i) d per = fwn (g i) d per" "bwn (g' i) d per = bwn (g i) d per" "bytes_of (g' i) d w = bytes_of (g i) d w"
    if "i < N" for i w
    using core_has[OF assms(2)[OF that]] core_fields(5)[OF assms(2)[OF that]] core_layers(1)[OF assms(2)[OF that]]
    by (simp_all add: fwn_def bwn_def)
  show ?thesis using assms(1) unfolding ring_ok_def neighbours_ok_def by (simp add: e)
qed

lemma exchanged_neighbours:
  assumes x: "exchanged d u v per (from_fw gs g D d u i) (from_bw gs g D d v i) n (g i, h i) t"
    and ring: "ring_ok N gs g0 d per" and c: "\<And>i. i < N \<Longrightarrow> core (g i) = core (g0 i)" and i: "i < N"
  shows "exchanged d u v per (from_fw gs g0 D d u i) (from_bw gs g0 D d v i) n (g i, h i) t"
proof -
  have "fwn (g0 i) d per \<Longrightarrow> from_fw gs g D d u i = from_fw gs g0 D d u i"
    "bwn (g0 i) d per \<Longrightarrow> from_bw gs g D d v i = from_bw gs g0 D d v i"
    using ring i core_layers(2)[OF c] by (auto simp: ring_ok_def neighbours_ok_def from_fw_def from_bw_def Let_def)
  then show ?thesis
    using x core_has[OF c[OF i]] core_fields(5)[OF c[OF i]]
    by (cases t) (auto simp: exchanged_def fwn_def bwn_def)
qed

lemma outcome_Cons:
  assumes x: "exchanged d (at fw d) (at bw d) per (ys d) (zs d) (4 * length D) (g, h) (g1, h1)"
    and o: "outcome ds fw bw per ys zs D (g1, h1) (g', h')"
    and d: "d < grid_num_dims g" "d \<notin> set ds" "grid_num_dims g \<le> 3"
  shows "outcome (d # ds) fw bw per ys zs D (g, h) (g', h')"
proof (cases "gm_empty g")
  case True
  then show ?thesis using x o by (simp add: exchanged_def outcome_def)
next
  case False
  have k: "keeps (slots_at d) (g, h) (g1, h1)" "meta g1 = halo_meta g d (at fw d) (at bw d) per"
    "avail h \<le> avail h1 + 4 * length D"
    using x False by (simp_all add: exchanged_def)
  have e: "\<not> gm_empty g1" "grid_num_dims g1 = grid_num_dims g" using False core_fields(1,5)[OF keepsD(4)[OF k(1)]] by auto
  have k': "keeps (\<Union>d \<in> set ds. slots_at d) (g1, h1) (g', h')" "avail h1 \<le> avail h' + 4 * length ds * length D"
    "ready g' h' D" "\<forall>d < 3. d \<notin> set ds \<longrightarrow> meta_at g' d = meta_at g1 d"
    "\<forall>d \<in> set ds. filled d (at fw d) (at bw d) per (ys d) (zs d) g' h'"
    using o e(1) by (simp_all add: outcome_def)
  have U: "keeps (\<Union>d \<in> set (d # ds). slots_at d) (g, h) (g', h')"
    by (rule keeps_trans[OF keeps_mono[OF k(1)] keeps_mono[OF k'(1)]]) auto
  have d3: "d < 3" using d(1,3) by simp
  have "filled d (at fw d) (at bw d) per (ys d) (zs d) g' h'"
  proof (rule filled_keep[OF exchanged_filled[OF x False d3] k'(1)])
    show "meta_at g' d = meta_at g1 d" using k'(4) d3 d(2) by blast
    show "d < grid_num_dims g1" using d(1) e(2) by simp
    show "Slot own fw d \<notin> (\<Union>d \<in> set ds. slots_at d)" for own fw using d(2) by (auto simp: slots_at_mem)
  qed
  moreover have "meta_at g' c = meta_at g c" if "c < 3" "c \<notin> set (d # ds)" for c
    using k'(4) that halo_meta_at[OF k(2) d3 that(1)] by simp
  moreover have "avail h \<le> avail h' + 4 * length (d # ds) * length D" using k(3) k'(2) by (simp add: algebra_simps)
  ultimately show ?thesis using U k'(3,5) False by (simp add: outcome_def)
qed

lemma outcome_Nil: "(\<not> gm_empty g \<Longrightarrow> ready g h D) \<Longrightarrow> outcome [] fw bw per ys zs D (g, h) (g, h)"
  using keeps_refl[of g h] by (auto simp: outcome_def ready_def)

text \<open>The processes that exchange the halos of the dimensions \<open>ds\<close> in this order.\<close>

definition exchange_dims :: "space \<Rightarrow> nat arr3 \<Rightarrow> nat arr3 \<Rightarrow> bool \<Rightarrow> nat list \<Rightarrow> mgrid \<times> heap \<Rightarrow> (mgrid \<times> heap) prog" where
  "exchange_dims gs fw bw per = foldP (\<lambda>d (g, h). ExchangeBoundaries gs d (at fw d) (at bw d) False per (g, h))"

lemma exchange_dims_simps:
  "exchange_dims gs fw bw per [] s = Ret s"
  "exchange_dims gs fw bw per (d # ds) (g, h) =
     bindP (ExchangeBoundaries gs d (at fw d) (at bw d) False per (g, h)) (exchange_dims gs fw bw per ds)"
  by (simp_all add: exchange_dims_def)

lemma exchange_dims_run:
  fixes C :: "nat \<Rightarrow> mgrid \<times> heap \<Rightarrow> 'a prog"
  assumes "distinct ds" and ring: "\<And>d. d \<in> set ds \<Longrightarrow> ring_ok N gs g0 d per"
    and c: "\<And>i. i < N \<Longrightarrow> core (g i) = core (g0 i)"
    and rd: "\<And>i. i < N \<Longrightarrow> \<not> gm_empty (g i) \<Longrightarrow> ready (g i) (h i) (D i) \<and> 4 * length ds * length (D i) \<le> avail (h i)"
    and w: "\<And>i d. i < N \<Longrightarrow> d \<in> set ds \<Longrightarrow> d < grid_num_dims (g i) \<and> grid_num_dims (g i) \<le> 3 \<and>
      (\<not> gm_empty (g i) \<longrightarrow> width_ok (g i) d (at fw d) \<and> width_ok (g i) d (at bw d))"
  shows "\<exists>g' h'. (\<forall>i < N. outcome ds fw bw per (\<lambda>d. from_fw gs g0 D d (at fw d) i) (\<lambda>d. from_bw gs g0 D d (at bw d) i) (D i)
      (g i, h i) (g' i, h' i)) \<and>
    det_step\<^sup>*\<^sup>* \<lparr>procs = map (\<lambda>i. bindP (exchange_dims (gs i) fw bw per ds (g i, h i)) (C i)) [0..<N],
        chans = (\<lambda>_ _. []), bqueue = bq\<rparr>
      \<lparr>procs = map (\<lambda>i. C i (g' i, h' i)) [0..<N], chans = (\<lambda>_ _. []), bqueue = bq\<rparr>"
  using assms
proof (induction ds arbitrary: g h)
  case Nil
  have "outcome [] fw bw per ys zs (D i) (g i, h i) (g i, h i)" if "i < N" for i ys zs
    by (rule outcome_Nil) (use Nil.prems(4)[OF that] in simp)
  then show ?case by (intro exI[of _ g] exI[of _ h]) (simp add: exchange_dims_simps)
next
  case (Cons d ds)
  have ring: "ring_ok N gs g d per" by (rule ring_ok_core[OF Cons.prems(2)]) (use Cons.prems(3) in simp_all)
  have able: "able (g i) (h i) (D i) d (at fw d) (at bw d) 4" if "i < N" for i
    using Cons.prems(4)[OF that] Cons.prems(5)[OF that, of d] by (auto simp: able_def add_mult_distrib)
  obtain g1 h1 where 1: "\<forall>i < N. exchanged d (at fw d) (at bw d) per (from_fw gs g D d (at fw d) i)
      (from_bw gs g D d (at bw d) i) (4 * length (D i)) (g i, h i) (g1 i, h1 i)"
    "det_step\<^sup>*\<^sup>* \<lparr>procs = map (\<lambda>i. bindP (ExchangeBoundaries (gs i) d (at fw d) (at bw d) False per (g i, h i))
          (\<lambda>s. bindP (exchange_dims (gs i) fw bw per ds s) (C i))) [0..<N], chans = (\<lambda>_ _. []), bqueue = bq\<rparr>
      \<lparr>procs = map (\<lambda>i. bindP (exchange_dims (gs i) fw bw per ds (g1 i, h1 i)) (C i)) [0..<N],
        chans = (\<lambda>_ _. []), bqueue = bq\<rparr>"
    using exchange_round[OF ring able, where C = "\<lambda>i s. bindP (exchange_dims (gs i) fw bw per ds s) (C i)" and bq = bq]
    by blast
  have x: "exchanged d (at fw d) (at bw d) per (from_fw gs g0 D d (at fw d) i) (from_bw gs g0 D d (at bw d) i)
      (4 * length (D i)) (g i, h i) (g1 i, h1 i)" if "i < N" for i
    using exchanged_neighbours[where g = g and h = h and D = D and gs = gs and i = i,
        OF 1(1)[rule_format, OF that] Cons.prems(2)[of d] Cons.prems(3) that] by simp
  have c1: "core (g1 i) = core (g i)" if "i < N" for i
    using x[OF that] keepsD(4)[of "slots_at d" "g i" "h i" "g1 i" "h1 i"] by (auto simp: exchanged_def split: if_splits)
  note cf = core_fields(1,5)[OF c1]
  have a1: "4 * length ds * length (D i) \<le> avail (h1 i)" if "i < N" "\<not> gm_empty (g i)" for i
    using x[OF that(1)] Cons.prems(4)[OF that] that(2) by (simp add: exchanged_def algebra_simps)
  have "\<exists>g' h'. (\<forall>i < N. outcome ds fw bw per (\<lambda>d. from_fw gs g0 D d (at fw d) i) (\<lambda>d. from_bw gs g0 D d (at bw d) i) (D i)
      (g1 i, h1 i) (g' i, h' i)) \<and>
    det_step\<^sup>*\<^sup>* \<lparr>procs = map (\<lambda>i. bindP (exchange_dims (gs i) fw bw per ds (g1 i, h1 i)) (C i)) [0..<N],
        chans = (\<lambda>_ _. []), bqueue = bq\<rparr>
      \<lparr>procs = map (\<lambda>i. C i (g' i, h' i)) [0..<N], chans = (\<lambda>_ _. []), bqueue = bq\<rparr>"
  proof (rule Cons.IH)
    show "distinct ds" using Cons.prems(1) by simp
    show "ring_ok N gs g0 e per" if "e \<in> set ds" for e using Cons.prems(2) that by simp
    show "core (g1 i) = core (g0 i)" if "i < N" for i using c1 Cons.prems(3) that by simp
    show "ready (g1 i) (h1 i) (D i) \<and> 4 * length ds * length (D i) \<le> avail (h1 i)" if "i < N" "\<not> gm_empty (g1 i)" for i
      using exchanged_ready[OF x[OF that(1)]] Cons.prems(4)[OF that(1)] a1[OF that(1)] that cf[OF that(1)] by simp
    show "e < grid_num_dims (g1 i) \<and> grid_num_dims (g1 i) \<le> 3 \<and>
      (\<not> gm_empty (g1 i) \<longrightarrow> width_ok (g1 i) e (at fw e) \<and> width_ok (g1 i) e (at bw e))" if "i < N" "e \<in> set ds" for i e
      using Cons.prems(5)[OF that(1), of e] that(2) cf[OF that(1)] width_ok_core[OF c1[OF that(1)]] by simp
  qed
  then obtain g' h' where 2: "\<forall>i < N. outcome ds fw bw per (\<lambda>d. from_fw gs g0 D d (at fw d) i)
      (\<lambda>d. from_bw gs g0 D d (at bw d) i) (D i) (g1 i, h1 i) (g' i, h' i)"
    "det_step\<^sup>*\<^sup>* \<lparr>procs = map (\<lambda>i. bindP (exchange_dims (gs i) fw bw per ds (g1 i, h1 i)) (C i)) [0..<N],
        chans = (\<lambda>_ _. []), bqueue = bq\<rparr>
      \<lparr>procs = map (\<lambda>i. C i (g' i, h' i)) [0..<N], chans = (\<lambda>_ _. []), bqueue = bq\<rparr>" by blast
  have "outcome (d # ds) fw bw per (\<lambda>d. from_fw gs g0 D d (at fw d) i) (\<lambda>d. from_bw gs g0 D d (at bw d) i) (D i)
      (g i, h i) (g' i, h' i)" if "i < N" for i
    by (rule outcome_Cons[OF _ 2(1)[rule_format, OF that]]) (use x[OF that] Cons.prems(1) Cons.prems(5)[OF that, of d] in simp_all)
  then show ?case using rtranclp_trans[OF 1(2) 2(2)]
    by (intro exI[of _ g'] exI[of _ h']) (simp add: exchange_dims_simps bindP_assoc)
qed

end
