(* ===== verification/Halo_Neighbours.thy ===== *)
theory Halo_Neighbours imports Halo_Exchange Rpc_Runs begin

text \<open>
  The neighbours of the partition as the ring in which halos are exchanged: a process whose
  box is not empty has a neighbour in a direction exactly when its box does not reach the end
  of the grid there, and that neighbour's box is not empty and lies next to it.
\<close>

subsection \<open>One line\<close>

text \<open>The remainder goes to the last parts, so the parts grow along the line.\<close>

lemma part_size_grows: "part_size n sz j \<le> part_size n sz (Suc j)"
  by (simp add: part_size_def)

lemma part_before_pos:
  assumes "0 < n" "0 \<le> sz" "Suc j < n" "0 < part_off n sz (Suc j)"
  shows "0 < part_size n sz j"
proof (rule ccontr)
  assume "\<not> 0 < part_size n sz j"
  then have z: "part_size n sz i \<le> 0" if "i \<le> j" for i
    using that lift_Suc_mono_le[of "part_size n sz" i j] part_size_grows by fastforce
  have bp: "block_partition n sz (part_off n sz) (part_size n sz)" using assms(1,2) by (rule block_partition_parts)
  have "part_off n sz (Suc j) = (\<Sum>i<Suc j. part_size n sz i)"
    using block_partition.sum_parts[OF bp, of "Suc j"] assms(3) by simp
  also have "\<dots> \<le> 0" using z by (intro sum_nonpos) auto
  finally show False using assms(4) by simp
qed

text \<open>The box of the \<open>j\<close>-th process of a line, for a grid of size \<open>s\<close> at \<open>go\<close>.\<close>

definition line_lo :: "nat \<Rightarrow> int \<Rightarrow> int \<Rightarrow> nat \<Rightarrow> int" where
  "line_lo n sz go j = max (part_off n sz j - go) 0"

definition line_ls :: "nat \<Rightarrow> int \<Rightarrow> int \<Rightarrow> int \<Rightarrow> nat \<Rightarrow> int" where
  "line_ls n sz go s j = max (min (go + s) (part_off n sz j + part_size n sz j) - max (part_off n sz j) go) 0"

lemma line_next:
  assumes n: "0 < n" "0 \<le> sz" and go: "0 \<le> go" "go + s \<le> sz" and j: "j < n" "0 < line_ls n sz go s j"
    and e: "line_lo n sz go j + line_ls n sz go s j < s"
  shows "Suc j < n" "0 < line_ls n sz go s (Suc j)" "line_lo n sz go (Suc j) = line_lo n sz go j + line_ls n sz go s j"
proof -
  have bp: "block_partition n sz (part_off n sz) (part_size n sz)" using n by (rule block_partition_parts)
  note off = block_partition.off_Suc[OF bp, of j] block_partition.off_n[OF bp] block_partition.off_nonneg[OF bp]
  have end_: "part_off n sz j + part_size n sz j < go + s" "part_off n sz j + part_size n sz j > go" "0 < part_size n sz j"
    using j(2) e by (auto simp: line_ls_def line_lo_def max_def min_def split: if_splits)
  show 1: "Suc j < n"
  proof (rule ccontr)
    assume "\<not> Suc j < n"
    then have "Suc j = n" using j(1) by simp
    then show False using off(1,2) end_(1) go j(1) by auto
  qed
  have "0 < part_size n sz (Suc j)" using end_(3) part_size_grows[of n sz j] by simp
  then show "0 < line_ls n sz go s (Suc j)" "line_lo n sz go (Suc j) = line_lo n sz go j + line_ls n sz go s j"
    using end_ off(1) j by (auto simp: line_ls_def line_lo_def max_def min_def split: if_splits)
qed

lemma line_prev:
  assumes n: "0 < n" "0 \<le> sz" and go: "0 \<le> go" "go + s \<le> sz" and j: "j < n" "0 < line_ls n sz go s j"
    and e: "0 < line_lo n sz go j"
  shows "0 < j" "0 < line_ls n sz go s (j - 1)" "line_lo n sz go (j - 1) + line_ls n sz go s (j - 1) = line_lo n sz go j"
proof -
  have bp: "block_partition n sz (part_off n sz) (part_size n sz)" using n by (rule block_partition_parts)
  show 1: "0 < j" using e block_partition.off_0[OF bp] go(1) by (cases j) (auto simp: line_lo_def)
  then obtain i where i: "j = Suc i" by (cases j) auto
  have off: "part_off n sz (Suc i) = part_off n sz i + part_size n sz i"
    using block_partition.off_Suc[OF bp, of i] j(1) i by simp
  have pos: "0 < part_size n sz i"
    by (rule part_before_pos[OF n]) (use j(1) i e go(1) in \<open>auto simp: line_lo_def\<close>)
  show "0 < line_ls n sz go s (j - 1)" "line_lo n sz go (j - 1) + line_ls n sz go s (j - 1) = line_lo n sz go j"
    using j(2) e pos off by (auto simp: i line_ls_def line_lo_def max_def min_def split: if_splits)
qed

lemma line_next_pos:
  assumes "0 < line_ls n sz go s j" shows "0 \<le> line_lo n sz go j" "line_lo n sz go j + line_ls n sz go s j \<le> s"
  using assms by (auto simp: line_ls_def line_lo_def max_def min_def split: if_splits)

subsection \<open>The boxes of the processes\<close>

lemma local_box_at:
  assumes args: "space_args_ok nd gsz ps" and r: "0 \<le> r" "r < accumulate ps nd" and i: "i < nd"
  shows "at (fst (local_box nd gsz ps sz go r)) i =
      line_lo (nat (at ps i)) (at gsz i) (at go i) (nat (at (rank_idx nd ps r) i))"
    "at (snd (local_box nd gsz ps sz go r)) i =
      line_ls (nat (at ps i)) (at gsz i) (at go i) (at sz i) (nat (at (rank_idx nd ps r) i))"
proof -
  obtain gs :: "unit gridspace_mpi" where gs: "GridSpaceMPI_new nd gsz nd ps r = Inr gs" "space_ok gs"
      "gs_num_dims gs = nd" "gs_global_size gs = gsz" "gs_proc_size gs = ps" "gs_my_rank gs = r"
    using GridSpaceMPI_new_ok[OF args r] by blast
  have my: "at (gs_my_offset gs) i = proc_off gsz ps (rank_idx nd ps r) i"
    "at (gs_my_size gs) i = proc_part gsz ps (rank_idx nd ps r) i"
    using gs(2-6) i by (auto simp: space_ok_def Let_def)
  have nd: "nd \<le> 3" using args by (simp add: space_args_ok_def)
  have box: "local_box nd gsz ps sz go r = PartitionGrid gs nd sz go (IntegerArray0, IntegerArray0)"
    by (simp add: PartitionGrid_local_box[OF gs(2-6)])
  note p = PartitionGrid_at(1,2)[OF nd arg_cong[OF box, of fst] arg_cong[OF box, of snd] i]
  show "at (fst (local_box nd gsz ps sz go r)) i =
      line_lo (nat (at ps i)) (at gsz i) (at go i) (nat (at (rank_idx nd ps r) i))"
    "at (snd (local_box nd gsz ps sz go r)) i =
      line_ls (nat (at ps i)) (at gsz i) (at go i) (at sz i) (nat (at (rank_idx nd ps r) i))"
    using p my by (simp_all add: line_lo_def line_ls_def proc_off_def proc_part_def max_def min_def)
qed

lemma local_box_beyond:
  assumes args: "space_args_ok nd gsz ps" and r: "0 \<le> r" "r < accumulate ps nd" and i: "nd \<le> i" "i < 3"
  shows "at (fst (local_box nd gsz ps sz go r)) i = 0"
proof -
  obtain gs :: "unit gridspace_mpi" where gs: "GridSpaceMPI_new nd gsz nd ps r = Inr gs" "space_ok gs"
      "gs_num_dims gs = nd" "gs_global_size gs = gsz" "gs_proc_size gs = ps" "gs_my_rank gs = r"
    using GridSpaceMPI_new_ok[OF args r] by blast
  have nd: "nd \<le> 3" using args by (simp add: space_args_ok_def)
  have box: "local_box nd gsz ps sz go r = PartitionGrid gs nd sz go (IntegerArray0, IntegerArray0)"
    by (simp add: PartitionGrid_local_box[OF gs(2-6)])
  show ?thesis
    using PartitionGrid_at(3)[OF nd arg_cong[OF box, of fst] arg_cong[OF box, of snd] i] i by simp
qed

text \<open>A partition and a grid in it.\<close>

record place =
  pl_nd :: nat
  pl_gsz :: idx
  pl_ps :: idx
  pl_e :: nat
  pl_sz :: idx
  pl_go :: idx

definition place_ok :: "place \<Rightarrow> bool" where
  "place_ok P \<longleftrightarrow> space_args_ok (pl_nd P) (pl_gsz P) (pl_ps P) \<and>
     grid_args_ok (pl_nd P) (pl_e P) (pl_gsz P) (pl_sz P) (pl_go P)"

definition nprocs :: "place \<Rightarrow> nat" where
  "nprocs P = nat (accumulate (pl_ps P) (pl_nd P))"

definition box_of :: "place \<Rightarrow> nat \<Rightarrow> idx \<times> idx" where
  "box_of P r = local_box (pl_nd P) (pl_gsz P) (pl_ps P) (pl_sz P) (pl_go P) (int r)"

definition lo_of :: "place \<Rightarrow> nat \<Rightarrow> nat \<Rightarrow> int" where
  "lo_of P r i = at (fst (box_of P r)) i"

definition ls_of :: "place \<Rightarrow> nat \<Rightarrow> nat \<Rightarrow> int" where
  "ls_of P r i = at (snd (box_of P r)) i"

definition full :: "place \<Rightarrow> nat \<Rightarrow> bool" where
  "full P r \<longleftrightarrow> (\<forall>i < pl_nd P. 0 < ls_of P r i)"

definition move :: "place \<Rightarrow> nat \<Rightarrow> int \<Rightarrow> nat \<Rightarrow> nat" where
  "move P d k r = nat (lin (pl_nd P) (neighbor_idx (pl_ps P) (rank_idx (pl_nd P) (pl_ps P) (int r)) d k) (pl_ps P))"

lemma place_okD:
  assumes "place_ok P"
  shows "space_args_ok (pl_nd P) (pl_gsz P) (pl_ps P)" "grid_args_ok (pl_nd P) (pl_e P) (pl_gsz P) (pl_sz P) (pl_go P)"
    "1 \<le> pl_nd P" "pl_nd P \<le> 3" "r < nprocs P \<Longrightarrow> int r < accumulate (pl_ps P) (pl_nd P)"
    "i < pl_nd P \<Longrightarrow> 0 < at (pl_ps P) i \<and> 0 \<le> at (pl_gsz P) i \<and> 0 \<le> at (pl_go P) i \<and>
      at (pl_go P) i + at (pl_sz P) i \<le> at (pl_gsz P) i"
  using assms by (auto simp: place_ok_def space_args_ok_def grid_args_ok_def nprocs_def)

lemma box_line:
  assumes "place_ok P" "r < nprocs P" "i < pl_nd P"
  shows "lo_of P r i = line_lo (nat (at (pl_ps P) i)) (at (pl_gsz P) i) (at (pl_go P) i)
      (nat (at (rank_idx (pl_nd P) (pl_ps P) (int r)) i))"
    "ls_of P r i = line_ls (nat (at (pl_ps P) i)) (at (pl_gsz P) i) (at (pl_go P) i) (at (pl_sz P) i)
      (nat (at (rank_idx (pl_nd P) (pl_ps P) (int r)) i))"
  using local_box_at[OF place_okD(1)[OF assms(1)] _ place_okD(5)[OF assms(1,2)] assms(3)]
  by (simp_all add: lo_of_def ls_of_def box_of_def)

lemma ls_nonneg: "place_ok P \<Longrightarrow> r < nprocs P \<Longrightarrow> i < pl_nd P \<Longrightarrow> 0 \<le> ls_of P r i"
  by (simp add: box_line line_ls_def)

lemma full_iff:
  assumes "place_ok P" "r < nprocs P"
  shows "full P r \<longleftrightarrow> accumulate (snd (box_of P r)) (pl_nd P) \<noteq> 0"
  using ls_nonneg[OF assms] unfolding full_def accumulate_eq_0_iff ls_of_def by (metis less_le)

lemma full_inside:
  assumes "place_ok P" "r < nprocs P" "full P r" "i < pl_nd P"
  shows "0 \<le> lo_of P r i" "lo_of P r i + ls_of P r i \<le> at (pl_sz P) i"
  using line_next_pos assms by (auto simp: full_def box_line)

text \<open>A step to a neighbour that does not leave the process grid.\<close>

lemma move_step:
  assumes P: "place_ok P" and r: "r < nprocs P" and d: "d < pl_nd P"
    and k: "0 \<le> at (rank_idx (pl_nd P) (pl_ps P) (int r)) d + k" "at (rank_idx (pl_nd P) (pl_ps P) (int r)) d + k < at (pl_ps P) d"
  shows "move P d k r < nprocs P" "move P d (- k) (move P d k r) = r"
    "at (rank_idx (pl_nd P) (pl_ps P) (int (move P d k r))) d = at (rank_idx (pl_nd P) (pl_ps P) (int r)) d + k"
    "i < pl_nd P \<Longrightarrow> i \<noteq> d \<Longrightarrow>
      at (rank_idx (pl_nd P) (pl_ps P) (int (move P d k r))) i = at (rank_idx (pl_nd P) (pl_ps P) (int r)) i"
proof -
  let ?nd = "pl_nd P" and ?ps = "pl_ps P"
  let ?p = "rank_idx ?nd ?ps (int r)" and ?q = "neighbor_idx ?ps (rank_idx ?nd ?ps (int r)) d k"
  note a = place_okD(1)[OF P]
  note p = rank_idx_ok(2,3)[OF a _ place_okD(5)[OF P r]]
  have gp: "grid_point ?nd ?p ?ps" "lin ?nd ?p ?ps = int r" using p by simp_all
  note q = neighbor_idx_point[OF a gp(1) d, of k]
  have b: "0 \<le> lin ?nd ?q ?ps" "lin ?nd ?q ?ps < accumulate ?ps ?nd"
    using q lin_bounds[of ?nd ?q ?ps] by (auto simp: grid_point_def)
  have m: "int (move P d k r) = lin ?nd ?q ?ps" using b(1) by (simp add: move_def)
  show "move P d k r < nprocs P" using m b(2) by (simp add: nprocs_def)
  have rq: "rank_idx ?nd ?ps (int (move P d k r)) = ?q" unfolding m by (rule rank_idx_lin[OF a q])
  have nd: "?nd \<le> 3" by (rule place_okD(4)[OF P])
  show "move P d (- k) (move P d k r) = r"
    using neighbor_idx_inverse[OF nd gp(1) d, of k] gp(2) rq by (simp add: move_def)
  show "at (rank_idx ?nd ?ps (int (move P d k r))) d = at ?p d + k"
    unfolding rq using nd d k by (simp add: neighbor_idx_def at_upd)
  show "at (rank_idx ?nd ?ps (int (move P d k r))) i = at ?p i" if "i < ?nd" "i \<noteq> d"
    unfolding rq using nd d that by (simp add: neighbor_idx_def at_upd)
qed

lemma fw_neighbour:
  assumes P: "place_ok P" and r: "r < nprocs P" "full P r" and d: "d < pl_nd P"
    and e: "lo_of P r d + ls_of P r d < at (pl_sz P) d"
  shows "move P d 1 r < nprocs P" "full P (move P d 1 r)" "move P d (- 1) (move P d 1 r) = r"
    "lo_of P (move P d 1 r) d = lo_of P r d + ls_of P r d"
    "i < pl_nd P \<Longrightarrow> i \<noteq> d \<Longrightarrow> lo_of P (move P d 1 r) i = lo_of P r i \<and> ls_of P (move P d 1 r) i = ls_of P r i"
proof -
  let ?p = "rank_idx (pl_nd P) (pl_ps P) (int r)"
  note D = place_okD(6)[OF P d]
  have "grid_point (pl_nd P) ?p (pl_ps P)"
    using rank_idx_ok(2)[OF place_okD(1)[OF P] _ place_okD(5)[OF P r(1)]] by simp
  then have pd: "0 \<le> at ?p d" "at ?p d < at (pl_ps P) d" using d by (auto simp: grid_point_def in_box_def)
  note L = line_next[of "nat (at (pl_ps P) d)" "at (pl_gsz P) d" "at (pl_go P) d" "at (pl_sz P) d" "nat (at ?p d)"]
  have l: "Suc (nat (at ?p d)) < nat (at (pl_ps P) d)"
    "0 < line_ls (nat (at (pl_ps P) d)) (at (pl_gsz P) d) (at (pl_go P) d) (at (pl_sz P) d) (Suc (nat (at ?p d)))"
    "line_lo (nat (at (pl_ps P) d)) (at (pl_gsz P) d) (at (pl_go P) d) (Suc (nat (at ?p d))) = lo_of P r d + ls_of P r d"
    using L D pd e r(2) d unfolding box_line[OF P r(1) d] full_def by (auto simp: box_line[OF P r(1) d])
  have k: "0 \<le> at ?p d + 1" "at ?p d + 1 < at (pl_ps P) d" using l(1) pd by auto
  note m = move_step[OF P r(1) d k]
  show "move P d 1 r < nprocs P" "move P d (- 1) (move P d 1 r) = r" by (fact m(1), use m(2) in simp)
  have s: "nat (at ?p d + 1) = Suc (nat (at ?p d))" using pd by simp
  show lo: "lo_of P (move P d 1 r) d = lo_of P r d + ls_of P r d" using l(3) by (simp add: box_line[OF P m(1) d] m(3) s)
  show oth: "lo_of P (move P d 1 r) i = lo_of P r i \<and> ls_of P (move P d 1 r) i = ls_of P r i" if "i < pl_nd P" "i \<noteq> d" for i
    using that m(4)[OF that] by (simp add: box_line[OF P m(1)] box_line[OF P r(1)])
  have "0 < ls_of P (move P d 1 r) d" using l(2) by (simp add: box_line[OF P m(1) d] m(3) s)
  then show "full P (move P d 1 r)" using oth r(2) unfolding full_def by metis
qed

lemma bw_neighbour:
  assumes P: "place_ok P" and r: "r < nprocs P" "full P r" and d: "d < pl_nd P" and e: "0 < lo_of P r d"
  shows "move P d (- 1) r < nprocs P" "full P (move P d (- 1) r)" "move P d 1 (move P d (- 1) r) = r"
    "lo_of P (move P d (- 1) r) d + ls_of P (move P d (- 1) r) d = lo_of P r d"
    "i < pl_nd P \<Longrightarrow> i \<noteq> d \<Longrightarrow>
      lo_of P (move P d (- 1) r) i = lo_of P r i \<and> ls_of P (move P d (- 1) r) i = ls_of P r i"
proof -
  let ?p = "rank_idx (pl_nd P) (pl_ps P) (int r)"
  note D = place_okD(6)[OF P d]
  have "grid_point (pl_nd P) ?p (pl_ps P)"
    using rank_idx_ok(2)[OF place_okD(1)[OF P] _ place_okD(5)[OF P r(1)]] by simp
  then have pd: "0 \<le> at ?p d" "at ?p d < at (pl_ps P) d" using d by (auto simp: grid_point_def in_box_def)
  note L = line_prev[of "nat (at (pl_ps P) d)" "at (pl_gsz P) d" "at (pl_go P) d" "at (pl_sz P) d" "nat (at ?p d)"]
  have l: "0 < nat (at ?p d)"
    "0 < line_ls (nat (at (pl_ps P) d)) (at (pl_gsz P) d) (at (pl_go P) d) (at (pl_sz P) d) (nat (at ?p d) - 1)"
    "line_lo (nat (at (pl_ps P) d)) (at (pl_gsz P) d) (at (pl_go P) d) (nat (at ?p d) - 1) +
     line_ls (nat (at (pl_ps P) d)) (at (pl_gsz P) d) (at (pl_go P) d) (at (pl_sz P) d) (nat (at ?p d) - 1) = lo_of P r d"
    using L D pd e r(2) d unfolding box_line[OF P r(1) d] full_def by (auto simp: box_line[OF P r(1) d])
  have k: "0 \<le> at ?p d + (- 1)" "at ?p d + (- 1) < at (pl_ps P) d" using l(1) pd by auto
  note m = move_step[OF P r(1) d k]
  show "move P d (- 1) r < nprocs P" "move P d 1 (move P d (- 1) r) = r" by (fact m(1), use m(2) in simp)
  have s: "nat (at ?p d + (- 1)) = nat (at ?p d) - 1" by simp
  show lo: "lo_of P (move P d (- 1) r) d + ls_of P (move P d (- 1) r) d = lo_of P r d"
    using l(3) by (simp only: box_line[OF P m(1) d] m(3) s)
  show oth: "lo_of P (move P d (- 1) r) i = lo_of P r i \<and> ls_of P (move P d (- 1) r) i = ls_of P r i" if "i < pl_nd P" "i \<noteq> d" for i
    using that m(4)[OF that] by (simp add: box_line[OF P m(1)] box_line[OF P r(1)])
  have "0 < ls_of P (move P d (- 1) r) d" using l(2) by (simp only: box_line[OF P m(1) d] m(3) s)
  then show "full P (move P d (- 1) r)" using oth r(2) unfolding full_def by metis
qed

subsection \<open>The processes and their grids\<close>

text \<open>
  Process \<open>r\<close> with its object \<open>a\<close> for grid \<open>i\<close>, which holds the process's box of the data
  \<open>A\<close>. Its halo buffers satisfy their invariant; they need not hold anything.
\<close>

definition part_at :: "place \<Rightarrow> cell list \<Rightarrow> nat \<Rightarrow> cell list" where
  "part_at P A r = part_of (pl_e P) (pl_nd P) (pl_sz P) (box_of P r) A"

definition located :: "place \<Rightarrow> nat \<Rightarrow> 'g gridmpi_scheme \<Rightarrow> bool" where
  "located P r g \<longleftrightarrow> grid_num_dims g = pl_nd P \<and> grid_elm_size g = pl_e P \<and> grid_size g = pl_sz P \<and>
     gm_local_offset g = fst (box_of P r) \<and> gm_local_size g = snd (box_of P r) \<and> gm_empty g = (\<not> full P r)"

definition grid_at :: "place \<Rightarrow> int \<Rightarrow> cell list \<Rightarrow> nat \<Rightarrow> mgrid \<Rightarrow> heap \<Rightarrow> bool" where
  "grid_at P i A r g h \<longleftrightarrow> grid_id g = Some i \<and> located P r g \<and> \<not> gm_remote_grid_active g \<and>
     (full P r \<longrightarrow> ready g h (part_at P A r))"

definition space_at :: "place \<Rightarrow> nat \<Rightarrow> ('s, 'x) gridspace_mpi_scheme \<Rightarrow> bool" where
  "space_at P r gs \<longleftrightarrow> space_ok gs \<and> gs_num_dims gs = pl_nd P \<and> gs_global_size gs = pl_gsz P \<and>
     gs_proc_size gs = pl_ps P \<and> gs_my_rank gs = int r"

lemma locatedD:
  assumes "located P r g"
  shows "grid_num_dims g = pl_nd P" "grid_elm_size g = pl_e P" "at (gm_local_offset g) k = lo_of P r k"
    "at (gm_local_size g) k = ls_of P r k" "gm_empty g \<longleftrightarrow> \<not> full P r"
    "gm_local_size g = snd (box_of P r)" "gm_local_offset g = fst (box_of P r)"
    "fwn g d False \<longleftrightarrow> full P r \<and> lo_of P r d + ls_of P r d < at (pl_sz P) d"
    "bwn g d False \<longleftrightarrow> full P r \<and> 0 < lo_of P r d" "grid_size g = pl_sz P"
  using assms by (auto simp: located_def lo_of_def ls_of_def fwn_def bwn_def has_fw_def has_bw_def)

lemma grid_atD:
  assumes "grid_at P i A r g h"
  shows "grid_num_dims g = pl_nd P" "grid_elm_size g = pl_e P" "at (gm_local_offset g) k = lo_of P r k"
    "at (gm_local_size g) k = ls_of P r k" "gm_empty g \<longleftrightarrow> \<not> full P r" "full P r \<Longrightarrow> ready g h (part_at P A r)"
    "gm_local_size g = snd (box_of P r)" "\<not> gm_remote_grid_active g" "gm_local_offset g = fst (box_of P r)"
    "located P r g"
  using assms by (auto simp: grid_at_def locatedD)

lemma space_at_neighbours:
  assumes "space_at P r gs" "d < pl_nd P"
  shows "nat (at (gs_fw_neighbors gs) d) = move P d 1 r" "nat (at (gs_bw_neighbors gs) d) = move P d (- 1) r"
  using assms by (auto simp: space_at_def space_ok_def Let_def move_def)

lemma same_bytes:
  assumes "located P r g" "located P r' g'" "d < pl_nd P" "pl_nd P \<le> 3"
    "\<And>k. k < pl_nd P \<Longrightarrow> k \<noteq> d \<Longrightarrow> ls_of P r' k = ls_of P r k"
  shows "bytes_of g' d w = bytes_of g d w"
proof -
  have "accumulate (layer_size (snd (box_of P r')) d w) (pl_nd P) = accumulate (layer_size (snd (box_of P r)) d w) (pl_nd P)"
  proof (rule accumulate_cong)
    fix k assume k: "k < pl_nd P"
    show "at (layer_size (snd (box_of P r')) d w) k = at (layer_size (snd (box_of P r)) d w) k"
      using assms(3,4,5) k by (cases "k = d") (simp_all add: at_layer ls_of_def)
  qed
  then show ?thesis
    using locatedD(1,2,6)[OF assms(1)] locatedD(1,2,6)[OF assms(2)] by (simp add: bytes_of_def layer_bytes_def)
qed

lemma ring_at:
  assumes P: "place_ok P" and d: "d < pl_nd P" and gs: "\<And>r. r < nprocs P \<Longrightarrow> space_at P r (gs r)"
    and g: "\<And>r. r < nprocs P \<Longrightarrow> located P r (g r)"
  shows "ring_ok (nprocs P) gs g d False"
proof -
  note n = space_at_neighbours[OF gs d]
  have f: "move P d 1 r < nprocs P \<and> bwn (g (move P d 1 r)) d False \<and> move P d (- 1) (move P d 1 r) = r \<and>
      (\<forall>w. bytes_of (g (move P d 1 r)) d w = bytes_of (g r) d w)"
    if r: "r < nprocs P" "fwn (g r) d False" for r
  proof -
    have b: "full P r" "lo_of P r d + ls_of P r d < at (pl_sz P) d" using r locatedD(8)[OF g[OF r(1)]] by auto
    note m = fw_neighbour[OF P r(1) b(1) d b(2)]
    have "0 < lo_of P (move P d 1 r) d" using m(4) full_inside(1)[OF P r(1) b(1) d] b(1) d by (auto simp: full_def)
    then show ?thesis
      using m locatedD(9)[OF g[OF m(1)]] same_bytes[OF g[OF r(1)] g[OF m(1)] d place_okD(4)[OF P]] by auto
  qed
  have b: "move P d (- 1) r < nprocs P \<and> fwn (g (move P d (- 1) r)) d False \<and> move P d 1 (move P d (- 1) r) = r"
    if r: "r < nprocs P" "bwn (g r) d False" for r
  proof -
    have b: "full P r" "0 < lo_of P r d" using r locatedD(9)[OF g[OF r(1)]] by auto
    note m = bw_neighbour[OF P r(1) b(1) d b(2)]
    have "lo_of P r d < at (pl_sz P) d" using full_inside(2)[OF P r(1) b(1) d] b(1) d by (auto simp: full_def)
    then show ?thesis using m locatedD(8)[OF g[OF m(1)]] by auto
  qed
  show ?thesis unfolding ring_ok_def neighbours_ok_def using f b n by simp
qed

subsection \<open>What a process can read\<close>

definition read_point :: "mgrid \<Rightarrow> heap \<Rightarrow> idx \<Rightarrow> fault + cell list" where
  "read_point g h x = bindE (GridMPI_GetAddress g x) (\<lambda>p. load p (grid_elm_size g) h)"

lemma slot_read:
  assumes "slot_holds g h k ys" "j < n" "n * e \<le> length ys"
  shows "load (ptr_add (halo_slot g k) (int j * int e)) e h = Inr (elem e ys j)"
proof -
  obtain b cs where b: "halo_slot g k = Ptr b 0" "blocks h b = Some cs" "length ys \<le> length cs" "take (length ys) cs = ys"
    using assms(1) by (auto simp: slot_holds_def)
  have l: "j * e + e \<le> length ys" by (rule elem_bound[OF assms(2,3)])
  have "take e (drop (j * e) cs) = take e (drop (j * e) (take (length ys) cs))"
    using l by (simp add: drop_take min_def)
  then have "take e (drop (j * e) cs) = elem e ys j" using b(4) by (simp add: elem_def)
  then show ?thesis using load_block[OF b(2), of "j * e" e] b(1,3) l by simp
qed

lemma elem_part:
  assumes P: "place_ok P" and r: "r < nprocs P" "full P r" and A: "length A = nat (accumulate (pl_sz P) (pl_nd P)) * pl_e P"
    and q: "in_box (pl_nd P) q (snd (box_of P r))"
  shows "elem (pl_e P) (part_at P A r) (nat (lin (pl_nd P) q (snd (box_of P r)))) =
    elem (pl_e P) A (nat (lin (pl_nd P) (arr_plus (fst (box_of P r)) q) (pl_sz P)))"
proof -
  have acc: "accumulate (snd (box_of P r)) (pl_nd P) \<noteq> 0" using full_iff[OF P r(1)] r(2) by simp
  have "copy_fits (pl_e P) (pl_nd P) (pl_sz P) (fst (box_of P r)) (snd (box_of P r))"
    using local_box_ok(1)[OF place_okD(1,2)[OF P] _ place_okD(5)[OF P r(1)]] acc by (simp add: box_of_def box_ok_def)
  from elem_subgrid[OF this _ q, of A] A acc show ?thesis by (simp add: part_at_def part_of_def)
qed

lemma find_unique: "d < n \<Longrightarrow> Q d \<Longrightarrow> (\<And>i. i < n \<Longrightarrow> i \<noteq> d \<Longrightarrow> \<not> Q i) \<Longrightarrow> find Q [0..<n] = Some d"
  unfolding find_Some_iff by (intro exI[of _ d]) auto

text \<open>The element in the layers that a neighbour has sent.\<close>

lemma elem_layer_at:
  assumes P: "place_ok P" and r: "r < nprocs P" "full P r" and A: "length A = nat (accumulate (pl_sz P) (pl_nd P)) * pl_e P"
    and g: "located P r g" and p: "part_ok (pl_nd P) (pl_e P) (snd (box_of P r))"
      "length (part_at P A r) = nat (accumulate (snd (box_of P r)) (pl_nd P)) * pl_e P" and d: "d < pl_nd P" and w: "int w \<le> ls_of P r d"
    and q: "in_box (pl_nd P) q (layer_size (snd (box_of P r)) d w)"
  shows "elem (pl_e P) (layer_of g d w first (part_at P A r)) (nat (lin (pl_nd P) q (layer_size (snd (box_of P r)) d w))) =
      elem (pl_e P) A (nat (lin (pl_nd P) (arr_plus (fst (box_of P r)) (arr_plus (layer_offset (snd (box_of P r)) d w first) q)) (pl_sz P)))"
    "length (layer_of g d w first (part_at P A r)) = nat (accumulate (layer_size (snd (box_of P r)) d w) (pl_nd P)) * pl_e P"
proof -
  let ?ls = "snd (box_of P r)" and ?nd = "pl_nd P" and ?e = "pl_e P" and ?D = "part_at P A r"
  note G = locatedD[OF g]
  have len: "nat (accumulate ?ls ?nd) * ?e \<le> length ?D" using p(2) by simp
  have w': "int w \<le> at ?ls d" using w by (simp add: ls_of_def)
  have nd: "?nd \<le> 3" "d < 3" using place_okD(4)[OF P] d by auto
  have l: "layer_of g d w first ?D = layer ?nd ?e ?ls d w first ?D" using G(1,2,6) by (simp add: layer_of_def)
  have box: "in_box ?nd (arr_plus (layer_offset ?ls d w first) q) ?ls"
    unfolding in_box_def
  proof (intro allI impI)
    fix k assume k: "k < ?nd"
    then have "0 \<le> at q k" "at q k < at (layer_size ?ls d w) k" using q by (auto simp: in_box_def)
    then show "0 \<le> at (arr_plus (layer_offset ?ls d w first) q) k \<and> at (arr_plus (layer_offset ?ls d w first) q) k < at ?ls k"
      using k nd w' by (auto simp: at_arr_plus at_layer at_layer_offset split: if_splits)
  qed
  show "length (layer_of g d w first ?D) = nat (accumulate (layer_size ?ls d w) ?nd) * ?e"
    unfolding l using length_layer[OF p(1) d w' len] by (simp add: layer_bytes_def)
  show "elem ?e (layer_of g d w first ?D) (nat (lin ?nd q (layer_size ?ls d w))) =
      elem ?e A (nat (lin ?nd (arr_plus (fst (box_of P r)) (arr_plus (layer_offset ?ls d w first) q)) (pl_sz P)))"
    unfolding l elem_layer[OF p(1) d w' len q] by (rule elem_part[OF P r A box])
qed

text \<open>The index that \<open>GetAddress\<close> works with.\<close>

lemma local_index:
  assumes P: "place_ok P" and r: "r < nprocs P" and g: "grid_at P i A r g h" and x: "grid_point (pl_nd P) x (pl_sz P)"
  shows "k < 3 \<Longrightarrow> at (arr_minus x (gm_local_offset g)) k = at x k - lo_of P r k"
    "k < 3 \<Longrightarrow> pl_nd P \<le> k \<Longrightarrow> at (arr_minus x (gm_local_offset g)) k = 0"
    "k < pl_nd P \<Longrightarrow> outside g (arr_minus x (gm_local_offset g)) k \<longleftrightarrow>
       \<not> (lo_of P r k \<le> at x k \<and> at x k < lo_of P r k + ls_of P r k)"
proof -
  show 1: "at (arr_minus x (gm_local_offset g)) k = at x k - lo_of P r k" if "k < 3" for k
    using that grid_atD(3)[OF g] by (simp add: at_arr_minus)
  show "at (arr_minus x (gm_local_offset g)) k = 0" if "k < 3" "pl_nd P \<le> k"
    using 1[OF that(1)] x that local_box_beyond[OF place_okD(1)[OF P] _ place_okD(5)[OF P r] that(2,1)]
    by (simp add: grid_point_def lo_of_def box_of_def)
  show "outside g (arr_minus x (gm_local_offset g)) k \<longleftrightarrow>
       \<not> (lo_of P r k \<le> at x k \<and> at x k < lo_of P r k + ls_of P r k)" if "k < pl_nd P"
    using 1[of k] that place_okD(4)[OF P] grid_atD(4)[OF g] by (auto simp: outside_def)
qed

lemma read_inside:
  assumes P: "place_ok P" and r: "r < nprocs P" "full P r" and A: "length A = nat (accumulate (pl_sz P) (pl_nd P)) * pl_e P"
    and g: "grid_at P i A r g h" and x: "grid_point (pl_nd P) x (pl_sz P)"
    and inside: "\<And>k. k < pl_nd P \<Longrightarrow> lo_of P r k \<le> at x k \<and> at x k < lo_of P r k + ls_of P r k"
  shows "read_point g h x = Inr (elem (pl_e P) A (nat (lin (pl_nd P) x (pl_sz P))))"
proof -
  let ?q = "arr_minus x (gm_local_offset g)" and ?ls = "snd (box_of P r)" and ?nd = "pl_nd P" and ?e = "pl_e P"
  note L = local_index[OF P r(1) g x] and G = grid_atD[OF g] and rd = readyD[OF grid_atD(6)[OF g r(2)]]
  have nd: "?nd \<le> 3" by (rule place_okD(4)[OF P])
  have "find (outside g ?q) [0..<?nd] = None" using L(3) inside by (simp add: find_None_iff)
  then have addr: "GridMPI_GetAddress g x = Inr (ptr_add (data0 g) (GridCalcOffset3D ?q ?ls * int ?e))"
    using G(1,2,7,8) by (simp add: GridMPI_GetAddress_def Let_def)
  have "0 \<le> at ?q k \<and> at ?q k < at ?ls k" if "k < ?nd" for k
    using L(1)[of k] inside[OF that] that nd by (simp add: ls_of_def)
  then have gp: "grid_point ?nd ?q ?ls" using L(2) by (simp add: grid_point_def in_box_def)
  note off = GridCalcOffset3D_point[OF nd gp]
  obtain b where b: "data0 g = Ptr b 0" "blocks h b = Some (part_at P A r)" using rd(4) by blast
  have len: "length (part_at P A r) = nat (accumulate ?ls ?nd) * ?e" using rd(5) G(1,2,7) by simp
  have lt: "nat (lin ?nd ?q ?ls) < nat (accumulate ?ls ?nd)" using off by simp
  have "nat (lin ?nd ?q ?ls) * ?e + ?e \<le> length (part_at P A r)" by (rule elem_bound[OF lt]) (use len in simp)
  from load_block[OF b(2) this]
  have "load (Ptr b (int (nat (lin ?nd ?q ?ls) * ?e))) ?e h = Inr (elem ?e (part_at P A r) (nat (lin ?nd ?q ?ls)))"
    by (simp add: elem_def)
  moreover have "elem ?e (part_at P A r) (nat (lin ?nd ?q ?ls)) = elem ?e A (nat (lin ?nd (arr_plus (fst (box_of P r)) ?q) (pl_sz P)))"
    by (rule elem_part[OF P r A]) (use gp in \<open>simp add: grid_point_def\<close>)
  moreover have "lin ?nd (arr_plus (fst (box_of P r)) ?q) (pl_sz P) = lin ?nd x (pl_sz P)"
    by (rule lin_cong) (use nd G(9) in \<open>simp add: at_arr_plus at_arr_minus\<close>)
  ultimately show ?thesis using addr off(1,2) b(1) G(2) by (simp add: read_point_def)
qed

lemma read_layer:
  assumes P: "place_ok P" and r: "r < nprocs P" and r': "r' < nprocs P" "full P r'"
    and A: "length A = nat (accumulate (pl_sz P) (pl_nd P)) * pl_e P"
    and g: "grid_at P i A r g h" and g': "grid_at P i A r' g' h'" and d: "d < pl_nd P" and w: "int w \<le> ls_of P r' d"
    and oth: "\<And>k. k < pl_nd P \<Longrightarrow> k \<noteq> d \<Longrightarrow> lo_of P r' k = lo_of P r k \<and> ls_of P r' k = ls_of P r k"
    and holds: "slot_holds g h (Slot False fw d) (layer_of g' d w first (part_at P A r'))"
    and q: "\<And>k. k < 3 \<Longrightarrow> at q k = (if k = d then y else if k < pl_nd P then at x k - lo_of P r k else 0)"
    and inside: "\<And>k. k < pl_nd P \<Longrightarrow> k \<noteq> d \<Longrightarrow> lo_of P r k \<le> at x k \<and> at x k < lo_of P r k + ls_of P r k"
    and y: "0 \<le> y" "y < int w" "at x d = lo_of P r' d + (if first then 0 else ls_of P r' d - int w) + y"
  shows "load (ptr_add (halo_slot g (Slot False fw d)) (GridCalcOffset3D q (shape_of g d w) * int (pl_e P))) (pl_e P) h =
    Inr (elem (pl_e P) A (nat (lin (pl_nd P) x (pl_sz P))))"
proof -
  let ?ls = "snd (box_of P r')" and ?nd = "pl_nd P" and ?e = "pl_e P" and ?s = "shape_of g d w"
  let ?t = "layer_size (snd (box_of P r')) d w"
  note G = grid_atD[OF g]
  have nd: "?nd \<le> 3" "d < 3" using place_okD(4)[OF P] d by auto
  have s: "at ?s k = (if k < ?nd then if k = d then int w else ls_of P r k else 0)" if "k < 3" for k
    using at_halo_shape[OF nd(1) that] G(1,4) by (simp add: shape_of_def)
  have st: "at ?s k = at ?t k" if "k < ?nd" for k
    using s[of k] that nd oth[OF that] by (simp add: at_layer ls_of_def)
  have "0 \<le> at q k \<and> at q k < at ?s k" if "k < ?nd" for k
    using q[of k] s[of k] inside[of k] y(1,2) that nd by (cases "k = d") auto
  moreover have "at q k = 0" if "k < 3" "?nd \<le> k" for k using q[of k] that d by auto
  ultimately have gp: "grid_point ?nd q ?s" by (simp add: grid_point_def in_box_def)
  note off = GridCalcOffset3D_point[OF nd(1) gp]
  have box: "in_box ?nd q ?t" using gp st by (auto simp: grid_point_def in_box_def)
  have lin: "lin ?nd q ?s = lin ?nd q ?t" "accumulate ?s ?nd = accumulate ?t ?nd"
    using st by (auto intro: lin_cong2 accumulate_cong)
  note G' = grid_atD[OF g'] and rd' = readyD[OF grid_atD(6)[OF g' r'(2)]]
  have p': "part_ok ?nd ?e ?ls" "length (part_at P A r') = nat (accumulate ?ls ?nd) * ?e" using rd'(2,5) G'(1,2,7) by simp_all
  note el = elem_layer_at[OF P r' A grid_atD(10)[OF g'] p' d w box, of first]
  have "load (ptr_add (halo_slot g (Slot False fw d)) (int (nat (lin ?nd q ?t)) * int ?e)) ?e h =
      Inr (elem ?e (layer_of g' d w first (part_at P A r')) (nat (lin ?nd q ?t)))"
    by (rule slot_read[OF holds, of _ "nat (accumulate ?t ?nd)"]) (use off(2,3) lin el(2) in simp_all)
  moreover have "lin ?nd (arr_plus (fst (box_of P r')) (arr_plus (layer_offset ?ls d w first) q)) (pl_sz P) = lin ?nd x (pl_sz P)"
  proof (rule lin_cong)
    fix k assume k: "k < ?nd"
    then have "at (arr_plus (fst (box_of P r')) (arr_plus (layer_offset ?ls d w first) q)) k =
        lo_of P r' k + (if \<not> first \<and> k = d then ls_of P r' d - int w else 0) + at q k"
      using nd by (simp add: at_arr_plus at_layer_offset lo_of_def ls_of_def)
    then show "at (arr_plus (fst (box_of P r')) (arr_plus (layer_offset ?ls d w first) q)) k = at x k"
      using k nd q[of k] oth[OF k] y(3) by (auto split: if_splits)
  qed
  ultimately show ?thesis using off(1,2) lin(1) el(1) by simp
qed

lemma read_halo:
  assumes P: "place_ok P" and r: "r < nprocs P" "full P r" and A: "length A = nat (accumulate (pl_sz P) (pl_nd P)) * pl_e P"
    and g: "grid_at P i A r g h" and x: "grid_point (pl_nd P) x (pl_sz P)" and d: "d < pl_nd P"
    and gs: "space_at P r gs" and G0: "\<And>r. r < nprocs P \<Longrightarrow> grid_at P i A r (g0 r) (h0 r)"
    and wd: "\<And>r. r < nprocs P \<Longrightarrow> full P r \<Longrightarrow> int u \<le> ls_of P r d \<and> int v \<le> ls_of P r d"
    and f: "filled d u v False (layer_of (g0 (move P d 1 r)) d u True (part_at P A (move P d 1 r)))
      (layer_of (g0 (move P d (- 1) r)) d v False (part_at P A (move P d (- 1) r))) g h"
    and inside: "\<And>k. k < pl_nd P \<Longrightarrow> k \<noteq> d \<Longrightarrow> lo_of P r k \<le> at x k \<and> at x k < lo_of P r k + ls_of P r k"
    and out: "lo_of P r d - int v \<le> at x d" "at x d < lo_of P r d + ls_of P r d + int u"
      "\<not> (lo_of P r d \<le> at x d \<and> at x d < lo_of P r d + ls_of P r d)"
  shows "read_point g h x = Inr (elem (pl_e P) A (nat (lin (pl_nd P) x (pl_sz P))))"
proof -
  let ?q = "arr_minus x (gm_local_offset g)" and ?nd = "pl_nd P" and ?e = "pl_e P"
  note L = local_index[OF P r(1) g x] and G = grid_atD[OF g] and rd = readyD[OF grid_atD(6)[OF g r(2)]]
  have nd: "?nd \<le> 3" "d < 3" using place_okD(4)[OF P] d by auto
  have lists: "lists_ok g" by (rule halo_okD(1)[OF rd(1)])
  have get: "array_get (slot_list False fw g) (int d) = Inr (halo_slot g (Slot False fw d))" for fw
    using array_get_slot[OF lists] d G(1) by simp
  have xd: "0 \<le> at x d" "at x d < at (pl_sz P) d" using x d by (auto simp: grid_point_def in_box_def)
  have qd: "at ?q d = at x d - lo_of P r d" using L(1)[OF nd(2)] .
  have "find (outside g ?q) [0..<?nd] = Some d"
    by (rule find_unique[OF d]) (use L(3) inside out(3) d in auto)
  then have addr: "GridMPI_GetAddress g x = bindE (halo_address g d ?q) (\<lambda>(buf, offset). Inr (ptr_add buf (offset * int ?e)))"
    using G(1,2,8) rd(3) by (simp add: GridMPI_GetAddress_def Let_def)
  have ls: "0 < ls_of P r d" using r(2) d by (simp add: full_def)
  show ?thesis
  proof (cases "at x d < lo_of P r d")
    case True
    have v: "v > 0" "has_bw g d False" "0 < lo_of P r d" using True out(1) xd(1) grid_atD(3)[OF g] by (auto simp: has_bw_def)
    note m = bw_neighbour[OF P r d v(3)]
    let ?y = "upd ?q d (at ?q d + int v)"
    have fl: "at (gm_halo_bw_width g) d = v" "at (gm_halo_bw_size g) d = shape_of g d v"
      "slot_holds g h (Slot False False d) (layer_of (g0 (move P d (- 1) r)) d v False (part_at P A (move P d (- 1) r)))"
      using f v by (simp_all add: filled_def)
    have a: "GridMPI_GetAddress g x = Inr (ptr_add (halo_slot g (Slot False False d)) (GridCalcOffset3D ?y (shape_of g d v) * int ?e))"
      using addr get[of False] True qd fl(1,2) by (simp add: halo_address_def)
    have "load (ptr_add (halo_slot g (Slot False False d)) (GridCalcOffset3D ?y (shape_of g d v) * int ?e)) ?e h =
        Inr (elem ?e A (nat (lin ?nd x (pl_sz P))))"
    proof (rule read_layer[OF P r(1) m(1,2) A g G0[OF m(1)] d _ _ fl(3) _ inside, where y = "at x d - lo_of P r d + int v"])
      show "int v \<le> ls_of P (move P d (- 1) r) d" using wd[OF m(1,2)] by simp
      show "at ?y k = (if k = d then at x d - lo_of P r d + int v else if k < ?nd then at x k - lo_of P r k else 0)"
        if "k < 3" for k using L(1,2)[OF that] nd qd that by (simp add: at_upd)
    qed (use m(4,5) out(1) True in auto)
    then show ?thesis using a G(2) by (simp add: read_point_def)
  next
    case False
    then have ge: "lo_of P r d + ls_of P r d \<le> at x d" using out(3) by simp
    have u: "u > 0" "has_fw g d False" "lo_of P r d + ls_of P r d < at (pl_sz P) d"
      using ge out(2) xd(2) grid_atD(3,4)[OF g] locatedD(10)[OF grid_atD(10)[OF g]] by (auto simp: has_fw_def)
    note m = fw_neighbour[OF P r d u(3)]
    let ?y = "upd ?q d (at ?q d - ls_of P r d)"
    have fl: "at (gm_halo_fw_size g) d = shape_of g d u"
      "slot_holds g h (Slot False True d) (layer_of (g0 (move P d 1 r)) d u True (part_at P A (move P d 1 r)))"
      using f u by (simp_all add: filled_def)
    have a: "GridMPI_GetAddress g x = Inr (ptr_add (halo_slot g (Slot False True d)) (GridCalcOffset3D ?y (shape_of g d u) * int ?e))"
      using addr get[of True] False qd fl(1) G(4) by (simp add: halo_address_def)
    have "load (ptr_add (halo_slot g (Slot False True d)) (GridCalcOffset3D ?y (shape_of g d u) * int ?e)) ?e h =
        Inr (elem ?e A (nat (lin ?nd x (pl_sz P))))"
    proof (rule read_layer[OF P r(1) m(1,2) A g G0[OF m(1)] d _ _ fl(2) _ inside, where y = "at x d - lo_of P r d - ls_of P r d"])
      show "int u \<le> ls_of P (move P d 1 r) d" using wd[OF m(1,2)] by simp
      show "at ?y k = (if k = d then at x d - lo_of P r d - ls_of P r d else if k < ?nd then at x k - lo_of P r k else 0)"
        if "k < 3" for k using L(1,2)[OF that] nd qd that by (simp add: at_upd)
    qed (use m(4,5) out(2) ge in auto)
    then show ?thesis using a G(2) by (simp add: read_point_def)
  qed
qed

end
