(* ===== verification/Halo_Runs.thy ===== *)
theory Halo_Runs imports Halo_Neighbours begin

text \<open>
  The call \<open>GridSpaceMPI::LoadNeighbor\<close> by all processes at once, without diagonal points and
  without periodic boundaries: it ends under every schedule, and afterwards every process
  reads the right elements in the neighbourhood of its box through \<open>GridMPI::GetAddress\<close>.
\<close>

subsection \<open>States\<close>

text \<open>Object \<open>a\<close> of process \<open>r\<close> is grid \<open>i\<close> with the process's box of \<open>A\<close>.\<close>

definition at_rest :: "place \<Rightarrow> nat \<Rightarrow> int \<Rightarrow> cell list \<Rightarrow> nat \<Rightarrow> pstate \<Rightarrow> bool" where
  "at_rest P a i A r = (\<lambda>(gs, st). space_at P r gs \<and> FindGrid i gs = Inr a \<and>
     (\<exists>g. objs gs a = Some g \<and> grid_at P i A r g (hp st)))"

lemma at_restD:
  assumes "at_rest P a i A r s"
  shows "space_at P r (fst s)" "FindGrid i (fst s) = Inr a"
    "\<exists>g. objs (fst s) a = Some g \<and> grid_at P i A r g (hp (snd s))"
  using assms by (cases s; simp add: at_rest_def)+

text \<open>
  The offsets of a stencil that \<open>LoadNeighbor\<close> is called with: from \<open>lo\<close> to \<open>hi\<close> in each
  dimension, and no wider than the box of any process that has one.
\<close>

definition offsets_ok :: "place \<Rightarrow> idx \<Rightarrow> idx \<Rightarrow> bool" where
  "offsets_ok P lo hi \<longleftrightarrow> (\<forall>d < pl_nd P. at lo d \<le> 0 \<and> 0 \<le> at hi d \<and>
     (\<forall>r < nprocs P. full P r \<longrightarrow> - at lo d \<le> ls_of P r d \<and> at hi d \<le> ls_of P r d))"

text \<open>A point that is in the box of process \<open>r\<close>, or leaves it in one dimension only by such an offset.\<close>

definition in_reach :: "place \<Rightarrow> idx \<Rightarrow> idx \<Rightarrow> nat \<Rightarrow> idx \<Rightarrow> bool" where
  "in_reach P lo hi r x \<longleftrightarrow> (\<exists>d < pl_nd P.
     lo_of P r d + at lo d \<le> at x d \<and> at x d < lo_of P r d + ls_of P r d + at hi d \<and>
     (\<forall>k < pl_nd P. k \<noteq> d \<longrightarrow> lo_of P r k \<le> at x k \<and> at x k < lo_of P r k + ls_of P r k))"

definition process_read :: "nat \<Rightarrow> pstate \<Rightarrow> idx \<Rightarrow> fault + cell list" where
  "process_read a = (\<lambda>(gs, st) x. bindE (get_obj a gs) (\<lambda>g. read_point g (hp st) x))"

definition bw_width_of :: "idx \<Rightarrow> idx \<Rightarrow> nat arr3" where
  "bw_width_of lo hi = arr_map2 (\<lambda>m _. if m \<le> 0 then nat \<bar>m\<bar> else 0) lo hi"

definition fw_width_of :: "idx \<Rightarrow> idx \<Rightarrow> nat arr3" where
  "fw_width_of lo hi = arr_map2 (\<lambda>_ m. if m \<ge> 0 then nat m else 0) lo hi"

lemma widths_at:
  assumes "offsets_ok P lo hi" "d < pl_nd P" "pl_nd P \<le> 3"
  shows "int (at (bw_width_of lo hi) d) = - at lo d" "int (at (fw_width_of lo hi) d) = at hi d"
  using assms by (auto simp: offsets_ok_def bw_width_of_def fw_width_of_def at_map2)

subsection \<open>The program of one process\<close>

lemma min_partition_nonneg:
  assumes "space_ok gs" "i < gs_num_dims gs"
  shows "0 \<le> at (gs_min_partition gs) i"
proof -
  let ?n = "nat (at (gs_proc_size gs) i)" and ?z = "at (gs_global_size gs) i"
  have a: "0 < at (gs_proc_size gs) i" "0 \<le> ?z" using space_dims[OF assms(1)] assms(2) by (auto simp: space_args_ok_def)
  have "0 < ?n" using a(1) by simp
  then have "0 \<in> {..<?n}" by simp
  then have "part_size ?n ?z ` {..<?n} \<noteq> {}" by blast
  then have "0 \<le> Min (part_size ?n ?z ` {..<?n})"
    using a(2) part_size_nonneg[OF \<open>0 < ?n\<close>, of ?z] by (subst Min_ge_iff) auto
  moreover have "at (gs_min_partition gs) i = min PSINDEX_MAX (Min (part_size ?n ?z ` {..<?n}))"
    using assms by (auto simp: space_ok_def Let_def)
  ultimately show ?thesis by (simp add: PSINDEX_MAX_def)
qed

lemma overlap_at:
  assumes "space_at P r gs" "offsets_ok P lo hi"
  shows "neighbor_overlap gs (pl_nd P) lo hi"
  using min_partition_nonneg[of gs] assms
  by (simp add: neighbor_overlap_def list_all_iff space_at_def offsets_ok_def)

lemma LoadNeighbor_prog:
  assumes "at_rest P a i A r (gs, st)" "objs gs a = Some g" "offsets_ok P lo hi"
  shows "LoadNeighbor a lo hi False reuse False (gs, st) =
    bindP (exchange_dims gs (fw_width_of lo hi) (bw_width_of lo hi) False (rev [0..<pl_nd P]) (g, hp st))
      (\<lambda>(g, h). Ret (put_obj a g gs, st\<lparr>hp := h\<rparr>))"
proof -
  have s: "space_at P r gs" "FindGrid i gs = Inr a" "grid_at P i A r g (hp st)"
    using assms(1,2) by (auto simp: at_rest_def)
  have n: "neighbor_overlap gs (grid_num_dims g) lo hi" using overlap_at[OF s(1) assms(3)] grid_atD(1)[OF s(3)] by simp
  have o: "get_obj a gs = Inr g" using assms(2) by (simp add: get_obj_def)
  have d: "get_id g = Inr i" "grid_num_dims g = pl_nd P" using s(3) by (simp_all add: grid_at_def located_def get_id_def)
  show ?thesis
    unfolding LoadNeighbor_def prod.case o lift.simps bindP.simps Let_def d(1) ExchangeBoundaries_id_def s(2)
      bw_width_of_def[symmetric] fw_width_of_def[symmetric] exchange_dims_def
    using n by (simp add: assertE_def d(2))
qed

text \<open>Afterwards the process is at rest again.\<close>

lemma outcome_core:
  assumes "outcome ds fw bw per ys zs D (g, h) (g', h')"
  shows "core g' = core g"
  using assms keepsD(4)[of "\<Union>d \<in> set ds. slots_at d" g h g' h'] by (auto simp: outcome_def split: if_splits)

lemma outcome_cong:
  assumes "outcome ds fw bw per ys zs D s t" "\<And>d. d \<in> set ds \<Longrightarrow> ys d = ys' d" "\<And>d. d \<in> set ds \<Longrightarrow> zs d = zs' d"
  shows "outcome ds fw bw per ys' zs' D s t"
  using assms by (cases s; cases t) (simp add: outcome_def split: if_splits)

lemma core_grid_at:
  assumes "core g' = core g" "grid_at P i A r g h" "full P r \<Longrightarrow> ready g' h' (part_at P A r)"
  shows "grid_at P i A r g' h'"
proof -
  have "gm_remote_grid_active g' = gm_remote_grid_active g"
    using core_fields(11)[OF assms(1)] by (cases g; cases g') simp
  then show ?thesis using core_fields[OF assms(1)] assms(2,3) by (simp add: grid_at_def located_def)
qed

lemma space_at_put: "space_at P r (put_obj a g gs) = space_at P r gs"
  by (simp add: space_at_def put_obj_def space_ok_def)

lemma FindGrid_put [simp]: "FindGrid i (put_obj a g gs) = FindGrid i gs"
  by (simp add: FindGrid_def put_obj_def)

subsection \<open>All processes\<close>

lemma in_reach_cases:
  assumes "in_reach P lo hi r x"
  obtains "\<And>k. k < pl_nd P \<Longrightarrow> lo_of P r k \<le> at x k \<and> at x k < lo_of P r k + ls_of P r k"
  | d where "d < pl_nd P" "lo_of P r d + at lo d \<le> at x d" "at x d < lo_of P r d + ls_of P r d + at hi d"
    "\<not> (lo_of P r d \<le> at x d \<and> at x d < lo_of P r d + ls_of P r d)"
    "\<And>k. k < pl_nd P \<Longrightarrow> k \<noteq> d \<Longrightarrow> lo_of P r k \<le> at x k \<and> at x k < lo_of P r k + ls_of P r k"
  using assms unfolding in_reach_def by metis

lemma outcome_reads:
  assumes P: "place_ok P" and A: "length A = nat (accumulate (pl_sz P) (pl_nd P)) * pl_e P" and off: "offsets_ok P lo hi"
    and gs: "space_at P r gs" and r: "r < nprocs P" "full P r"
    and G0: "\<And>r. r < nprocs P \<Longrightarrow> grid_at P i A r (g0 r) (h0 r)"
    and o: "outcome (rev [0..<pl_nd P]) (fw_width_of lo hi) (bw_width_of lo hi) False
      (\<lambda>d. layer_of (g0 (move P d 1 r)) d (at (fw_width_of lo hi) d) True (part_at P A (move P d 1 r)))
      (\<lambda>d. layer_of (g0 (move P d (- 1) r)) d (at (bw_width_of lo hi) d) False (part_at P A (move P d (- 1) r)))
      (part_at P A r) (g0 r, h0 r) (g, h)"
    and g: "grid_at P i A r g h" and x: "grid_point (pl_nd P) x (pl_sz P)" "in_reach P lo hi r x"
  shows "read_point g h x = Inr (elem (pl_e P) A (nat (lin (pl_nd P) x (pl_sz P))))"
  using x(2)
proof (cases rule: in_reach_cases)
  case 1
  then show ?thesis by (rule read_inside[OF P r A g x(1)])
next
  case (2 d)
  note W = widths_at[OF off 2(1) place_okD(4)[OF P]]
  have wd: "int (at (fw_width_of lo hi) d) \<le> ls_of P r d \<and> int (at (bw_width_of lo hi) d) \<le> ls_of P r d"
    if "r < nprocs P" "full P r" for r
    using off that 2(1) W by (auto simp: offsets_ok_def)
  have e: "\<not> gm_empty (g0 r)" using grid_atD(5)[OF G0[OF r(1)]] r(2) by simp
  have f: "filled d (at (fw_width_of lo hi) d) (at (bw_width_of lo hi) d) False
      (layer_of (g0 (move P d 1 r)) d (at (fw_width_of lo hi) d) True (part_at P A (move P d 1 r)))
      (layer_of (g0 (move P d (- 1) r)) d (at (bw_width_of lo hi) d) False (part_at P A (move P d (- 1) r))) g h"
    using o e 2(1) by (simp add: outcome_def)
  show ?thesis
    by (rule read_halo[OF P r A g x(1) 2(1) gs G0 wd f 2(5)]) (use 2(2-4) W in auto)
qed

text \<open>The whole call, as one run.\<close>

lemma load_neighbor_run:
  assumes P: "place_ok P" and A: "length A = nat (accumulate (pl_sz P) (pl_nd P)) * pl_e P" and off: "offsets_ok P lo hi"
    and s: "\<And>r. r < nprocs P \<Longrightarrow> at_rest P (a r) i A r (s r)"
    and room: "\<And>r. r < nprocs P \<Longrightarrow> 4 * pl_nd P * length (part_at P A r) \<le> avail (hp (snd (s r)))"
  shows "\<exists>s'. det_step\<^sup>*\<^sup>* (init_network (map (\<lambda>r. LoadNeighbor (a r) lo hi False reuse False (s r)) [0..<nprocs P]))
      (init_network (map Ret (map s' [0..<nprocs P]))) \<and>
    (\<forall>r < nprocs P. at_rest P (a r) i A r (s' r) \<and>
      (\<forall>x. full P r \<and> grid_point (pl_nd P) x (pl_sz P) \<and> in_reach P lo hi r x \<longrightarrow>
        process_read (a r) (s' r) x = Inr (elem (pl_e P) A (nat (lin (pl_nd P) x (pl_sz P))))))"
proof -
  let ?N = "nprocs P" and ?ds = "rev [0..<pl_nd P]" and ?fw = "fw_width_of lo hi" and ?bw = "bw_width_of lo hi"
  let ?gs = "\<lambda>r. fst (s r)" and ?h = "\<lambda>r. hp (snd (s r))"
  have "\<forall>r \<in> {..<?N}. \<exists>g. objs (?gs r) (a r) = Some g \<and> grid_at P i A r g (?h r)"
    using at_restD(3)[OF s] by simp
  then obtain g where g: "\<And>r. r < ?N \<Longrightarrow> objs (?gs r) (a r) = Some (g r)" "\<And>r. r < ?N \<Longrightarrow> grid_at P i A r (g r) (?h r)"
    unfolding bchoice_iff by auto
  have gs: "space_at P r (?gs r)" "FindGrid i (?gs r) = Inr (a r)" if "r < ?N" for r
    using at_restD(1,2)[OF s[OF that]] by simp_all
  have nd: "pl_nd P \<le> 3" by (rule place_okD(4)[OF P])
  let ?C = "\<lambda>r (g, h). Ret (put_obj (a r) g (?gs r), (snd (s r))\<lparr>hp := h\<rparr>)"
  have prog: "LoadNeighbor (a r) lo hi False reuse False (s r) =
      bindP (exchange_dims (?gs r) ?fw ?bw False ?ds (g r, ?h r)) (?C r)" if "r < ?N" for r
    using LoadNeighbor_prog[of P "a r" i A r "?gs r" "snd (s r)" "g r" lo hi reuse] s[OF that] g(1)[OF that] off by simp
  have ring: "ring_ok ?N ?gs g d False" if "d \<in> set ?ds" for d
    by (rule ring_at[OF P _ gs(1) grid_atD(10)[OF g(2)]]) (use that in auto)
  have rd: "ready (g r) (?h r) (part_at P A r) \<and> 4 * length ?ds * length (part_at P A r) \<le> avail (?h r)"
    if "r < ?N" "\<not> gm_empty (g r)" for r
    using grid_atD(5,6)[OF g(2)[OF that(1)]] that(2) room[OF that(1)] by simp
  have w: "d < grid_num_dims (g r) \<and> grid_num_dims (g r) \<le> 3 \<and>
      (\<not> gm_empty (g r) \<longrightarrow> width_ok (g r) d (at ?fw d) \<and> width_ok (g r) d (at ?bw d))" if "r < ?N" "d \<in> set ?ds" for r d
    using widths_at[OF off _ nd, of d] off that grid_atD(1,4,5)[OF g(2)[OF that(1)]] nd
    by (auto simp: width_ok_def offsets_ok_def)
  obtain g' h' where 1: "\<And>r. r < ?N \<Longrightarrow> outcome ?ds ?fw ?bw False (\<lambda>d. from_fw ?gs g (part_at P A) d (at ?fw d) r)
      (\<lambda>d. from_bw ?gs g (part_at P A) d (at ?bw d) r) (part_at P A r) (g r, ?h r) (g' r, h' r)"
    "det_step\<^sup>*\<^sup>* (init_network (map (\<lambda>r. bindP (exchange_dims (?gs r) ?fw ?bw False ?ds (g r, ?h r)) (?C r)) [0..<?N]))
      (init_network (map (\<lambda>r. ?C r (g' r, h' r)) [0..<?N]))"
    using exchange_dims_run[where ds = ?ds and gs = ?gs and C = ?C and g = g and h = ?h and D = "part_at P A"
        and bq = "\<lambda>_. []" and fw = ?fw and bw = ?bw, OF _ ring refl rd w]
    unfolding init_network_def by auto
  define s' where "s' = (\<lambda>r. (put_obj (a r) (g' r) (?gs r), (snd (s r))\<lparr>hp := h' r\<rparr>))"
  have final: "grid_at P i A r (g' r) (h' r)" if "r < ?N" for r
    by (rule core_grid_at[OF outcome_core[OF 1(1)[OF that]] g(2)[OF that]])
      (use 1(1)[OF that] grid_atD(5)[OF g(2)[OF that]] in \<open>simp add: outcome_def\<close>)
  have rest: "at_rest P (a r) i A r (s' r)" if "r < ?N" for r
    using gs[OF that] final[OF that] by (simp add: s'_def at_rest_def space_at_put) (simp add: put_obj_def)
  have reads: "process_read (a r) (s' r) x = Inr (elem (pl_e P) A (nat (lin (pl_nd P) x (pl_sz P))))"
    if r: "r < ?N" "full P r" and x: "grid_point (pl_nd P) x (pl_sz P)" "in_reach P lo hi r x" for r x
  proof -
    have o: "outcome ?ds ?fw ?bw False
      (\<lambda>d. layer_of (g (move P d 1 r)) d (at ?fw d) True (part_at P A (move P d 1 r)))
      (\<lambda>d. layer_of (g (move P d (- 1) r)) d (at ?bw d) False (part_at P A (move P d (- 1) r)))
      (part_at P A r) (g r, ?h r) (g' r, h' r)"
      by (rule outcome_cong[OF 1(1)[OF r(1)]])
        (use space_at_neighbours[OF gs(1)[OF r(1)]] in \<open>simp_all add: from_fw_def from_bw_def Let_def\<close>)
    have "read_point (g' r) (h' r) x = Inr (elem (pl_e P) A (nat (lin (pl_nd P) x (pl_sz P))))"
      by (rule outcome_reads[OF P A off gs(1)[OF r(1)] r g(2) o final[OF r(1)] x])
    then show ?thesis by (simp add: s'_def process_read_def get_obj_def put_obj_def)
  qed
  have m: "map (\<lambda>r. LoadNeighbor (a r) lo hi False reuse False (s r)) [0..<?N] =
      map (\<lambda>r. bindP (exchange_dims (?gs r) ?fw ?bw False ?ds (g r, ?h r)) (?C r)) [0..<?N]"
    "map Ret (map s' [0..<?N]) = map (\<lambda>r. ?C r (g' r, h' r)) [0..<?N]"
    using prog by (simp_all add: s'_def)
  have "det_step\<^sup>*\<^sup>* (init_network (map (\<lambda>r. LoadNeighbor (a r) lo hi False reuse False (s r)) [0..<?N]))
      (init_network (map Ret (map s' [0..<?N])))"
    unfolding m by (rule 1(2))
  then show ?thesis using rest reads by blast
qed

subsection \<open>A grid before its first exchange\<close>

text \<open>A grid as the constructor makes it, with its data in place, is at rest.\<close>

definition fresh_grid :: "place \<Rightarrow> nat \<Rightarrow> mgrid" where
  "fresh_grid P r = (to_mgrid (GridMPI_new 0 (pl_e P) (pl_nd P) (pl_sz P) False (pl_go P) (fst (box_of P r)) (snd (box_of P r)) 0))
     \<lparr>grid_id := Some 0, data0 := Ptr 0 0\<rparr>"

definition fresh_heap :: "place \<Rightarrow> cell list \<Rightarrow> nat \<Rightarrow> nat \<Rightarrow> heap" where
  "fresh_heap P A m r = \<lparr>blocks = [0 \<mapsto> part_at P A r], fresh = 1, avail = m\<rparr>"

lemma fresh_grid_at:
  assumes P: "place_ok P" and small: "\<And>d. d < pl_nd P \<Longrightarrow> at (pl_sz P) d < 2 ^ 31"
    and A: "length A = nat (accumulate (pl_sz P) (pl_nd P)) * pl_e P" and r: "r < nprocs P"
  shows "grid_at P 0 A r (fresh_grid P r) (fresh_heap P A m r)"
proof -
  let ?g = "fresh_grid P r" and ?h = "fresh_heap P A m r" and ?nd = "pl_nd P" and ?ls = "snd (box_of P r)"
  have f: "grid_id ?g = Some 0" "grid_num_dims ?g = ?nd" "grid_elm_size ?g = pl_e P" "grid_size ?g = pl_sz P"
    "gm_local_offset ?g = fst (box_of P r)" "gm_local_size ?g = ?ls" "gm_empty ?g = (\<not> full P r)"
    "\<not> gm_remote_grid_active ?g" "\<not> gm_halo_has_diagonal ?g" "data0 ?g = Ptr 0 0"
    using full_iff[OF P r]
    by (simp_all add: fresh_grid_def to_mgrid_def GridMPI_new_def Grid_new_def Let_def gridmpi.defs grid.defs)
  have "ready ?g ?h (part_at P A r)" if full: "full P r"
  proof -
    have acc: "accumulate ?ls ?nd \<noteq> 0" using full_iff[OF P r] full by simp
    have lists: "slot_list own fw ?g = replicate ?nd Null" "slot_caps own fw ?g = IntegerArray0" for own fw
      using acc by (cases own; cases fw; simp add: fresh_grid_def to_mgrid_def GridMPI_new_def Grid_new_def Let_def gridmpi.defs grid.defs)+
    have nd: "?nd \<le> 3" "1 \<le> ?nd" using place_okD(3,4)[OF P] by simp_all
    have null: "slot_valid ?nd k \<Longrightarrow> halo_slot ?g k = Null \<and> halo_cap ?g k = 0" for k
      using nd by (cases k) (simp add: lists)
    have "lists_ok ?g" using nd f(2) by (simp add: lists_ok_def lists)
    then have ok: "halo_ok ?g ?h"
      using null f(2,10) by (auto simp: halo_ok_def slot_ok_def fresh_heap_def heap_ok_def)
    note lb = local_box_ok[OF place_okD(1,2)[OF P] _ place_okD(5)[OF P r]]
    have box: "box_ok ?nd (pl_e P) (pl_sz P) (fst (box_of P r)) ?ls" "size_fits ?nd (pl_e P) ?ls"
      using lb(1,2) by (simp_all add: box_of_def)
    have "at ?ls i < 2 ^ 31 \<and> 0 < at ?ls i" if "i < ?nd" for i
      using full_inside[OF P r full that] small[OF that] full that by (auto simp: full_def ls_of_def)
    moreover have "0 < pl_e P" using box(1) by (simp add: box_ok_def)
    ultimately have part: "part_ok ?nd (pl_e P) ?ls" using nd box(2) by (simp add: part_ok_def size_fits_def)
    have "length (part_at P A r) = nat (accumulate ?ls ?nd) * pl_e P"
      using length_part[OF box(1), of A] A by (simp add: part_at_def)
    then show ?thesis using ok part f by (simp add: ready_def fresh_heap_def)
  qed
  then show ?thesis using f by (simp add: grid_at_def located_def)
qed

lemma fresh_at_rest:
  assumes P: "place_ok P" and small: "\<And>d. d < pl_nd P \<Longrightarrow> at (pl_sz P) d < 2 ^ 31"
    and A: "length A = nat (accumulate (pl_sz P) (pl_nd P)) * pl_e P" and r: "r < nprocs P"
  shows "\<exists>s. at_rest P 0 0 A r s \<and> avail (hp (snd s)) = m"
proof -
  obtain gs :: space where gs: "space_ok gs" "gs_num_dims gs = pl_nd P" "gs_global_size gs = pl_gsz P"
      "gs_proc_size gs = pl_ps P" "gs_my_rank gs = int r"
    using GridSpaceMPI_new_ok[OF place_okD(1)[OF P] _ place_okD(5)[OF P r]] by auto
  let ?gs = "gs\<lparr>grids_map := [(0, 0)], objs := [0 \<mapsto> fresh_grid P r]\<rparr>"
  let ?st = "\<lparr>hp = fresh_heap P A m r, bufs = \<lambda>_. None, next_buf = 1, files = \<lambda>_. None\<rparr>"
  have "space_at P r ?gs" using gs by (simp add: space_at_def space_ok_def)
  moreover have "FindGrid 0 ?gs = Inr 0" by (simp add: FindGrid_map)
  ultimately have "at_rest P 0 0 A r (?gs, ?st)"
    using fresh_grid_at[OF P small A r] by (simp add: at_rest_def)
  then show ?thesis by (intro exI[of _ "(?gs, ?st)"]) (simp add: fresh_heap_def)
qed

subsection \<open>Properties\<close>


text \<open>Two processes with two cells each.\<close>

definition demo_place :: place where
  "demo_place = \<lparr>pl_nd = 1, pl_gsz = one_dim 4, pl_ps = one_dim 2, pl_e = 1, pl_sz = one_dim 4, pl_go = one_dim 0\<rparr>"

abbreviation "demo_cells \<equiv> [Some 6, Some 7, Some 8, Some 9] :: cell list"

lemma demo_place_ok:
  "place_ok demo_place" "nprocs demo_place = 2" "length demo_cells = nat (accumulate (pl_sz demo_place) (pl_nd demo_place)) * pl_e demo_place"
  by (simp_all add: demo_place_def place_ok_def nprocs_def space_args_ok_def grid_args_ok_def)

lemma demo_fields: "pl_nd demo_place = 1" "pl_sz demo_place = one_dim 4" "pl_e demo_place = 1"
  "pl_gsz demo_place = one_dim 4" "pl_ps demo_place = one_dim 2" "pl_go demo_place = one_dim 0"
  by (simp_all add: demo_place_def)

lemma lin_one: "lin 1 (one_dim k) (one_dim n) = k"
  by simp

lemma one_dim_point: "grid_point 1 (one_dim k) (one_dim n) \<longleftrightarrow> 0 \<le> k \<and> k < n"
  by (simp add: grid_point_def in_box_def all_less_num del: One_nat_def) (simp add: at.simps)

lemma one_dim_reach:
  "in_reach demo_place (one_dim l) (one_dim u) r (one_dim k) \<longleftrightarrow>
     lo_of demo_place r 0 + l \<le> k \<and> k < lo_of demo_place r 0 + ls_of demo_place r 0 + u"
  by (auto simp: in_reach_def demo_place_def)

lemma line_demo:
  "line_lo 2 4 0 0 = 0" "line_ls 2 4 0 4 0 = 2" "line_lo 2 4 0 (Suc 0) = 2" "line_ls 2 4 0 4 (Suc 0) = 2"
  by (simp_all add: line_lo_def line_ls_def part_off_def part_size_def)

lemma demo_boxes:
  "lo_of demo_place 0 0 = 0" "ls_of demo_place 0 0 = 2" "lo_of demo_place 1 0 = 2" "ls_of demo_place 1 0 = 2"
proof -
  have "rank_idx 1 (one_dim 2) (lin 1 (one_dim k) (one_dim 2)) = one_dim k" if "0 \<le> k" "k < 2" for k
    by (rule rank_idx_lin[of 1 "one_dim 4"])
      (use that one_dim_point[of k 2] in \<open>simp_all add: space_args_ok_def\<close>)
  from this[of 0] this[of 1] have r: "rank_idx 1 (one_dim 2) 0 = one_dim 0" "rank_idx 1 (one_dim 2) 1 = one_dim 1"
    by (simp_all del: One_nat_def add: lin_one)
  have b: "r < 2 \<Longrightarrow> lo_of demo_place r 0 = line_lo 2 4 0 (nat (at (rank_idx 1 (one_dim 2) (int r)) 0))"
    "r < 2 \<Longrightarrow> ls_of demo_place r 0 = line_ls 2 4 0 4 (nat (at (rank_idx 1 (one_dim 2) (int r)) 0))" for r
    using box_line[OF demo_place_ok(1), of r 0] unfolding demo_place_ok(2) demo_fields by (simp_all del: One_nat_def)
  show "lo_of demo_place 0 0 = 0" "ls_of demo_place 0 0 = 2" "lo_of demo_place 1 0 = 2" "ls_of demo_place 1 0 = 2"
    using b[of 0] b[of 1] r by (simp_all add: line_demo)
qed

lemma demo_full: "r < 2 \<Longrightarrow> full demo_place r \<and> offsets_ok demo_place (one_dim (- 1)) (one_dim 1)"
  using demo_boxes demo_place_ok(2) by (auto simp: full_def offsets_ok_def demo_place_def less_2_cases_iff)

lemma demo_start:
  "\<exists>s. \<forall>r < nprocs demo_place. at_rest demo_place 0 0 demo_cells r (s r) \<and>
    4 * pl_nd demo_place * length (part_at demo_place demo_cells r) \<le> avail (hp (snd (s r)))"
proof -
  have "\<forall>r \<in> {..<nprocs demo_place}. \<exists>s. at_rest demo_place 0 0 demo_cells r s \<and>
      4 * pl_nd demo_place * length (part_at demo_place demo_cells r) \<le> avail (hp (snd s))"
  proof
    fix r assume "r \<in> {..<nprocs demo_place}"
    then have r: "r < nprocs demo_place" by simp
    have small: "at (pl_sz demo_place) d < 2 ^ 31" if "d < pl_nd demo_place" for d
      using that by (simp add: demo_place_def)
    let ?m = "4 * pl_nd demo_place * length (part_at demo_place demo_cells r)"
    obtain s where "at_rest demo_place 0 0 demo_cells r s" "avail (hp (snd s)) = ?m"
      using fresh_at_rest[OF demo_place_ok(1) small demo_place_ok(3) r, of ?m] by blast
    then show "\<exists>s. at_rest demo_place 0 0 demo_cells r s \<and> ?m \<le> avail (hp (snd s))"
      by (intro exI[of _ s]) simp
  qed
  from bchoice[OF this] show ?thesis by auto
qed




end
