(* ===== verification/Cuda_Memory.thy ===== *)
theory Cuda_Memory imports Grid_Util begin

text \<open>
  The CUDA library as the run-time uses it. It is not part of the program: its functions are
  the fields of a record that every operation of the CUDA run-time takes as an argument, over
  an abstract state \<open>'d\<close> of the device. A field stands for a call inside \<open>CUDA_SAFE_CALL\<close>,
  which ends the process when the call reports an error: a failing call is a fault. What the
  code relies on is the locale \<open>cuda_memory\<close>, whose \<open>dblk\<close> says what the blocks of device
  memory hold. A pitched block holds its rows at a distance that the library chooses.
\<close>

subsection \<open>The functions of the library\<close>

record pitched =
  pp_ptr :: ptr
  pp_pitch :: nat
  pp_xsize :: nat
  pp_ysize :: nat

record 'd cuda_lib =
  cuMalloc :: "nat \<Rightarrow> 'd \<Rightarrow> fault + (ptr \<times> 'd)"
  cuFree :: "ptr \<Rightarrow> 'd \<Rightarrow> fault + 'd"
  cuMemset :: "ptr \<Rightarrow> 8 word \<Rightarrow> nat \<Rightarrow> 'd \<Rightarrow> fault + 'd"
  cuWrite :: "ptr \<Rightarrow> cell list \<Rightarrow> 'd \<Rightarrow> fault + 'd"    \<comment> \<open>the device side of a copy to the device\<close>
  cuRead :: "ptr \<Rightarrow> nat \<Rightarrow> 'd \<Rightarrow> fault + cell list"   \<comment> \<open>the device side of a copy to the host\<close>
  cuMalloc3D :: "nat \<Rightarrow> nat \<Rightarrow> nat \<Rightarrow> 'd \<Rightarrow> fault + (pitched \<times> 'd)"
  cuMallocHost :: "nat \<Rightarrow> heap \<Rightarrow> fault + (ptr \<times> heap)"
  cuFreeHost :: "ptr \<Rightarrow> heap \<Rightarrow> fault + heap"
  cuRead3D :: "pitched \<Rightarrow> nat \<times> nat \<times> nat \<Rightarrow> nat \<times> nat \<times> nat \<Rightarrow> 'd \<Rightarrow> fault + cell list"
  cuWrite3D :: "pitched \<Rightarrow> nat \<times> nat \<times> nat \<Rightarrow> nat \<times> nat \<times> nat \<Rightarrow> cell list \<Rightarrow> 'd \<Rightarrow> fault + 'd"
  cuHostDevPtr :: "ptr \<Rightarrow> ptr"                        \<comment> \<open>\<open>cudaHostGetDevicePointer\<close> of mapped memory\<close>
  cuMappedStore :: "ptr \<Rightarrow> cell list \<Rightarrow> heap \<Rightarrow> fault + heap"   \<comment> \<open>a store of a kernel to mapped memory\<close>

text \<open>\<open>cudaMemcpy\<close> in the two directions the code uses.\<close>

definition cudaMemcpy_HostToDevice :: "'d cuda_lib \<Rightarrow> ptr \<Rightarrow> ptr \<Rightarrow> nat \<Rightarrow> heap \<Rightarrow> 'd \<Rightarrow> fault + 'd" where
  "cudaMemcpy_HostToDevice cu dst src n h d = bindE (load src n h) (\<lambda>cs. cuWrite cu dst cs d)"

definition cudaMemcpy_DeviceToHost :: "'d cuda_lib \<Rightarrow> ptr \<Rightarrow> ptr \<Rightarrow> nat \<Rightarrow> heap \<Rightarrow> 'd \<Rightarrow> fault + heap" where
  "cudaMemcpy_DeviceToHost cu dst src n h d = bindE (cuRead cu src n d) (\<lambda>cs. store dst cs h)"

text \<open>
  \<open>cudaMemcpy3D\<close> between a pitched block and packed host memory. The position and the extent
  have their first component in bytes. A copy of no bytes touches nothing.
\<close>

definition ext_bytes :: "nat \<times> nat \<times> nat \<Rightarrow> nat" where
  "ext_bytes ext = (case ext of (w, ht, dp) \<Rightarrow> w * ht * dp)"

definition cudaMemcpy3D_HostToDevice ::
    "'d cuda_lib \<Rightarrow> pitched \<Rightarrow> nat \<times> nat \<times> nat \<Rightarrow> ptr \<Rightarrow> nat \<times> nat \<times> nat \<Rightarrow> heap \<Rightarrow> 'd \<Rightarrow> fault + 'd" where
  "cudaMemcpy3D_HostToDevice cu pp pos src ext h d =
     (if ext_bytes ext = 0 then Inr d
      else bindE (load src (ext_bytes ext) h) (\<lambda>cs. cuWrite3D cu pp pos ext cs d))"

definition cudaMemcpy3D_DeviceToHost ::
    "'d cuda_lib \<Rightarrow> ptr \<Rightarrow> pitched \<Rightarrow> nat \<times> nat \<times> nat \<Rightarrow> nat \<times> nat \<times> nat \<Rightarrow> heap \<Rightarrow> 'd \<Rightarrow> fault + heap" where
  "cudaMemcpy3D_DeviceToHost cu dst pp pos ext h d =
     (if ext_bytes ext = 0 then Inr h
      else bindE (cuRead3D cu pp pos ext d) (\<lambda>cs. store dst cs h))"

text \<open>Where the rows of a box lie in a block with \<open>ysize\<close> rows of \<open>pitch\<close> bytes per plane.\<close>

definition rows3 :: "nat \<Rightarrow> nat \<Rightarrow> nat \<times> nat \<times> nat \<Rightarrow> nat \<Rightarrow> nat \<Rightarrow> nat list" where
  "rows3 pitch ysize pos ht dp =
     (case pos of (x, y, z) \<Rightarrow>
        concat (map (\<lambda>k. map (\<lambda>j. ((z + k) * ysize + (y + j)) * pitch + x) [0..<ht]) [0..<dp]))"

definition box3_inside :: "pitched \<Rightarrow> nat \<Rightarrow> nat \<times> nat \<times> nat \<Rightarrow> nat \<times> nat \<times> nat \<Rightarrow> bool" where
  "box3_inside pp len pos ext =
     (case pos of (x, y, z) \<Rightarrow> case ext of (w, ht, dp) \<Rightarrow>
        x + w \<le> pp_pitch pp \<and> y + ht \<le> pp_ysize pp \<and> (z + dp) * (pp_ysize pp * pp_pitch pp) \<le> len)"

subsection \<open>What the code relies on\<close>

text \<open>
  An allocation of at least one byte that succeeds gives a fresh block of the asked size; a
  pitched one has room for all rows at its pitch, which is at least the width of a row.
  Pinned host memory behaves like \<open>malloc\<close> and \<open>free\<close>, or the call fails. A copy of a box
  inside a pitched block reads or writes its rows, and a kernel that stores through the device
  pointer of mapped memory stores to that memory.
\<close>

locale cuda_memory =
  fixes cu :: "'d cuda_lib" and dblk :: "'d \<Rightarrow> nat \<Rightarrow> cell list option"
  assumes malloc_ok: "0 < n \<Longrightarrow> cuMalloc cu n d = Inr (p, d') \<Longrightarrow>
      \<exists>b cs. p = Ptr b 0 \<and> dblk d b = None \<and> length cs = n \<and> dblk d' = (dblk d)(b \<mapsto> cs)"
    and malloc3D_ok: "0 < w * ht * dp \<Longrightarrow> cuMalloc3D cu w ht dp d = Inr (pp, d') \<Longrightarrow>
      \<exists>b cs. pp_ptr pp = Ptr b 0 \<and> w \<le> pp_pitch pp \<and> pp_ysize pp = ht \<and> dblk d b = None \<and>
        length cs = pp_pitch pp * ht * dp \<and> dblk d' = (dblk d)(b \<mapsto> cs)"
    and free_ok: "dblk d b = Some cs \<Longrightarrow> \<exists>d'. cuFree cu (Ptr b 0) d = Inr d' \<and> dblk d' = (dblk d)(b := None)"
    and memset_ok: "dblk d b = Some cs \<Longrightarrow> n = length cs \<Longrightarrow>
      \<exists>d'. cuMemset cu (Ptr b 0) v n d = Inr d' \<and> dblk d' = (dblk d)(b \<mapsto> replicate n (Some v))"
    and write_ok: "dblk d b = Some cs \<Longrightarrow> k + length ys \<le> length cs \<Longrightarrow>
      \<exists>d'. cuWrite cu (Ptr b (int k)) ys d = Inr d' \<and> dblk d' = (dblk d)(b \<mapsto> list_write cs k ys)"
    and read_ok: "dblk d b = Some cs \<Longrightarrow> k + n \<le> length cs \<Longrightarrow>
      cuRead cu (Ptr b (int k)) n d = Inr (take n (drop k cs))"
    and mallocHost_ok: "0 < n \<Longrightarrow> cuMallocHost cu n h = Inr (p, h') \<Longrightarrow> p \<noteq> Null \<and> malloc n h = (p, h')"
    and freeHost_ok: "blocks h b = Some cs \<Longrightarrow> cuFreeHost cu (Ptr b 0) h = free (Ptr b 0) h"
    and read3D_ok: "pp_ptr pp = Ptr b 0 \<Longrightarrow> dblk d b = Some D \<Longrightarrow> box3_inside pp (length D) (x, y, z) (w, ht, dp) \<Longrightarrow>
      cuRead3D cu pp (x, y, z) (w, ht, dp) d = Inr (gather D (rows3 (pp_pitch pp) (pp_ysize pp) (x, y, z) ht dp) w)"
    and write3D_ok: "pp_ptr pp = Ptr b 0 \<Longrightarrow> dblk d b = Some D \<Longrightarrow> box3_inside pp (length D) (x, y, z) (w, ht, dp) \<Longrightarrow>
      length cs = w * ht * dp \<Longrightarrow> \<exists>d'. cuWrite3D cu pp (x, y, z) (w, ht, dp) cs d = Inr d' \<and>
        dblk d' = (dblk d)(b \<mapsto> scatter D (rows3 (pp_pitch pp) (pp_ysize pp) (x, y, z) ht dp) w cs)"
    and mapped_ok: "cuMappedStore cu (ptr_add (cuHostDevPtr cu (Ptr b 0)) (int k)) cs h = store (Ptr b (int k)) cs h"
begin

lemma copy_to_device:
  assumes "blocks h s = Some S" "i + n \<le> length S" "dblk d b = Some D" "j + n \<le> length D"
  shows "\<exists>d'. cudaMemcpy_HostToDevice cu (Ptr b (int j)) (Ptr s (int i)) n h d = Inr d' \<and>
    dblk d' = (dblk d)(b \<mapsto> list_write D j (take n (drop i S)))"
  using write_ok[of d b D j "take n (drop i S)"] assms
  by (auto simp: cudaMemcpy_HostToDevice_def mem_simps simp del: load.simps)

lemma copy_to_host:
  assumes "dblk d b = Some D" "j + n \<le> length D" "blocks h s = Some S" "i + n \<le> length S"
  shows "cudaMemcpy_DeviceToHost cu (Ptr s (int i)) (Ptr b (int j)) n h d =
    Inr (h\<lparr>blocks := (blocks h)(s \<mapsto> list_write S i (take n (drop j D)))\<rparr>)"
  using assms by (simp add: cudaMemcpy_DeviceToHost_def read_ok mem_simps del: store.simps)

end

subsection \<open>A device with memory like the host's\<close>

text \<open>
  The laws can be met: a device whose memory is a heap of its own, with rows padded to a
  multiple of \<open>align\<close> bytes.
\<close>

definition or_fail :: "ptr \<times> 'h \<Rightarrow> fault + (ptr \<times> 'h)" where
  "or_fail r = (if fst r = Null then Inl (Exited 1) else Inr r)"

definition padded :: "nat \<Rightarrow> nat \<Rightarrow> nat" where
  "padded align w = w + (align - w mod align) mod align"

definition heap_read3D :: "pitched \<Rightarrow> nat \<times> nat \<times> nat \<Rightarrow> nat \<times> nat \<times> nat \<Rightarrow> heap \<Rightarrow> fault + cell list" where
  "heap_read3D pp pos ext d =
     (case pp_ptr pp of Null \<Rightarrow> Inl NullPointer | Ptr b k \<Rightarrow>
        case blocks d b of None \<Rightarrow> Inl DanglingPointer | Some D \<Rightarrow>
          if box3_inside pp (length D) pos ext
          then Inr (gather D (rows3 (pp_pitch pp) (pp_ysize pp) pos (fst (snd ext)) (snd (snd ext))) (fst ext))
          else Inl OutOfBounds)"

definition heap_write3D :: "pitched \<Rightarrow> nat \<times> nat \<times> nat \<Rightarrow> nat \<times> nat \<times> nat \<Rightarrow> cell list \<Rightarrow> heap \<Rightarrow> fault + heap" where
  "heap_write3D pp pos ext cs d =
     (case pp_ptr pp of Null \<Rightarrow> Inl NullPointer | Ptr b k \<Rightarrow>
        case blocks d b of None \<Rightarrow> Inl DanglingPointer | Some D \<Rightarrow>
          if box3_inside pp (length D) pos ext
          then Inr (d\<lparr>blocks := (blocks d)(b \<mapsto>
            scatter D (rows3 (pp_pitch pp) (pp_ysize pp) pos (fst (snd ext)) (snd (snd ext))) (fst ext) cs)\<rparr>)
          else Inl OutOfBounds)"

definition heap_device :: "nat \<Rightarrow> heap cuda_lib" where
  "heap_device align = \<lparr>
     cuMalloc = (\<lambda>n d. if n = 0 then Inr (Null, d) else or_fail (malloc n d)),
     cuFree = free,
     cuMemset = (\<lambda>p v n d. store p (replicate n (Some v)) d),
     cuWrite = store,
     cuRead = load,
     cuMalloc3D = (\<lambda>w ht dp d. let pitch = padded align w in
        if w * ht * dp = 0 then Inr (\<lparr>pp_ptr = Null, pp_pitch = 0, pp_xsize = 0, pp_ysize = 0\<rparr>, d)
        else bindE (or_fail (malloc (pitch * ht * dp) d)) (\<lambda>(p, d).
               Inr (\<lparr>pp_ptr = p, pp_pitch = pitch, pp_xsize = w, pp_ysize = ht\<rparr>, d))),
     cuMallocHost = (\<lambda>n h. if n = 0 then Inr (Null, h) else or_fail (malloc n h)),
     cuFreeHost = free, cuRead3D = heap_read3D, cuWrite3D = heap_write3D,
     cuHostDevPtr = (\<lambda>p. p), cuMappedStore = store\<rparr>"

text \<open>Blocks from the next fresh number on count as not allocated.\<close>

definition live :: "heap \<Rightarrow> nat \<Rightarrow> cell list option" where
  "live d b = (if b < fresh d then blocks d b else None)"

lemma or_fail_Inr: "or_fail r = Inr x \<longleftrightarrow> r = x \<and> fst r \<noteq> Null"
  by (auto simp: or_fail_def)

lemma live_alloc:
  "alloc c n d = (p, d') \<Longrightarrow> p \<noteq> Null \<Longrightarrow> p = Ptr (fresh d) 0 \<and> live d (fresh d) = None \<and>
    live d' = (live d)(fresh d \<mapsto> replicate n c)"
  by (auto simp: alloc_def live_def fun_eq_iff split: if_splits)

lemma live_Some: "live d b = Some cs \<longleftrightarrow> b < fresh d \<and> blocks d b = Some cs"
  by (simp add: live_def)

lemma live_store:
  "live d b = Some cs \<Longrightarrow> k + length ys \<le> length cs \<Longrightarrow>
    \<exists>d'. store (Ptr b (int k)) ys d = Inr d' \<and> live d' = (live d)(b \<mapsto> list_write cs k ys)"
  by (auto simp: live_def fun_eq_iff split: if_splits)

lemmas heap_device_calls = heap_device_def malloc_def or_fail_Inr bindE_eq_Inr Let_def

interpretation heap_dev: cuda_memory "heap_device align" live for align
proof
  fix n d p d'
  assume "0 < n" "cuMalloc (heap_device align) n d = Inr (p, d')"
  then have a: "alloc None n d = (p, d')" "p \<noteq> Null" by (auto simp: heap_device_calls)
  show "\<exists>b cs. p = Ptr b 0 \<and> live d b = None \<and> length cs = n \<and> live d' = (live d)(b \<mapsto> cs)"
    using live_alloc[OF a] by (intro exI[of _ "fresh d"] exI[of _ "replicate n None"]) simp
next
  fix w ht dp d pp d'
  assume "0 < w * ht * dp" "cuMalloc3D (heap_device align) w ht dp d = Inr (pp, d')"
  then obtain p where a: "alloc None (padded align w * ht * dp) d = (p, d')" "p \<noteq> Null"
      and pp: "pp = \<lparr>pp_ptr = p, pp_pitch = padded align w, pp_xsize = w, pp_ysize = ht\<rparr>"
    by (auto simp: heap_device_calls split: prod.splits)
  show "\<exists>b cs. pp_ptr pp = Ptr b 0 \<and> w \<le> pp_pitch pp \<and> pp_ysize pp = ht \<and> live d b = None \<and>
      length cs = pp_pitch pp * ht * dp \<and> live d' = (live d)(b \<mapsto> cs)"
    using live_alloc[OF a] pp
    by (intro exI[of _ "fresh d"] exI[of _ "replicate (padded align w * ht * dp) None"]) (simp add: padded_def)
next
  fix d b cs
  assume "live d b = Some cs"
  then show "\<exists>d'. cuFree (heap_device align) (Ptr b 0) d = Inr d' \<and> live d' = (live d)(b := None)"
    by (auto simp: heap_device_def live_def fun_eq_iff split: if_splits)
next
  fix d b cs n v
  assume l: "live d b = Some cs" "n = length cs"
  then have "\<exists>d'. store (Ptr b (int 0)) (replicate n (Some v)) d = Inr d' \<and>
      live d' = (live d)(b \<mapsto> list_write cs 0 (replicate n (Some v)))"
    by (intro live_store) auto
  then show "\<exists>d'. cuMemset (heap_device align) (Ptr b 0) v n d = Inr d' \<and> live d' = (live d)(b \<mapsto> replicate n (Some v))"
    using l by (simp add: heap_device_def list_write_def)
next
  fix d b cs k and ys :: "cell list"
  assume "live d b = Some cs" "k + length ys \<le> length cs"
  then show "\<exists>d'. cuWrite (heap_device align) (Ptr b (int k)) ys d = Inr d' \<and> live d' = (live d)(b \<mapsto> list_write cs k ys)"
    unfolding heap_device_def cuda_lib.simps by (rule live_store)
next
  fix d b cs k n
  assume "live d b = Some cs" "k + n \<le> length cs"
  then show "cuRead (heap_device align) (Ptr b (int k)) n d = Inr (take n (drop k cs))"
    unfolding heap_device_def cuda_lib.simps by (intro load_block) (auto simp: live_Some)
next
  fix n h p h'
  assume "0 < n" "cuMallocHost (heap_device align) n h = Inr (p, h')"
  then show "p \<noteq> Null \<and> malloc n h = (p, h')" by (auto simp: heap_device_calls)
next
  fix h :: heap and b cs
  assume "blocks h b = Some cs"
  then show "cuFreeHost (heap_device align) (Ptr b 0) h = free (Ptr b 0) h" by (simp add: heap_device_def)
next
  fix pp :: pitched and b d D x y z w ht dp
  assume "pp_ptr pp = Ptr b 0" "live d b = Some D" "box3_inside pp (length D) (x, y, z) (w, ht, dp)"
  then show "cuRead3D (heap_device align) pp (x, y, z) (w, ht, dp) d =
      Inr (gather D (rows3 (pp_pitch pp) (pp_ysize pp) (x, y, z) ht dp) w)"
    by (simp add: heap_device_def heap_read3D_def live_Some)
next
  fix pp :: pitched and b d D x y z w ht dp and cs :: "cell list"
  assume "pp_ptr pp = Ptr b 0" "live d b = Some D" "box3_inside pp (length D) (x, y, z) (w, ht, dp)"
  then show "\<exists>d'. cuWrite3D (heap_device align) pp (x, y, z) (w, ht, dp) cs d = Inr d' \<and>
      live d' = (live d)(b \<mapsto> scatter D (rows3 (pp_pitch pp) (pp_ysize pp) (x, y, z) ht dp) w cs)"
    by (auto simp: heap_device_def heap_write3D_def live_def fun_eq_iff split: if_splits)
next
  fix b k cs h
  show "cuMappedStore (heap_device align) (ptr_add (cuHostDevPtr (heap_device align) (Ptr b 0)) (int k)) cs h =
      store (Ptr b (int k)) cs h" by (simp add: heap_device_def)
qed

end
