(* ===== verification/Cuda_Buffer.thy ===== *)
theory Cuda_Buffer imports Rpc_MPI Cuda_Memory begin

text \<open>
  The buffers of the CUDA run-times (\<open>runtime/buffer_cuda.h\<close>, \<open>runtime/buffer_cuda.cu\<close>), all
  derived from \<open>Buffer\<close>: pinned host memory, pinned host memory mapped into the device, plain
  device memory and pitched device memory. The methods that \<open>Buffer\<close> implements over virtual
  ones take these as arguments and work on any state. A copy on a stream is followed by a wait
  for that stream, so both branches on \<open>strm_\<close> have the same effect and the stream is left out.
\<close>

subsection \<open>Methods inherited from \<open>Buffer\<close>\<close>

definition VBuffer_GetLinearSize :: "'x buffer_scheme \<Rightarrow> idx \<Rightarrow> nat" where
  "VBuffer_GetLinearSize b s = size_mult (to_size (accumulate s (buf_num_dims b))) (buf_elm_size b)"

definition VBuffer_Delete ::
    "(ptr \<Rightarrow> 's \<Rightarrow> fault + 's) \<Rightarrow> 'x buffer_scheme \<Rightarrow> 's \<Rightarrow> fault + ('x buffer_scheme \<times> 's)" where
  "VBuffer_Delete del b s =
     bindE (if buf_ptr b \<noteq> Null then bindE (assertE (buf_deleter b)) (\<lambda>_. del (buf_ptr b) s) else Inr s) (\<lambda>s.
       Inr (b\<lparr>buf_ptr := Null, buf_size := arr_Set 0\<rparr>, s))"

definition VBuffer_Allocate ::
    "(ptr \<Rightarrow> 's \<Rightarrow> fault + 's) \<Rightarrow> ('x buffer_scheme \<Rightarrow> idx \<Rightarrow> 's \<Rightarrow> fault + (ptr \<times> 's)) \<Rightarrow>
      nat \<Rightarrow> nat \<Rightarrow> idx \<Rightarrow> 'x buffer_scheme \<Rightarrow> 's \<Rightarrow> fault + ('x buffer_scheme \<times> 's)" where
  "VBuffer_Allocate del chunk num_dims e sz b s =
     bindE (VBuffer_Delete del b s) (\<lambda>(b, s).
       if accumulate sz num_dims \<noteq> 0
       then let b = b\<lparr>buf_num_dims := num_dims, buf_elm_size := e\<rparr>
            in bindE (chunk b sz s) (\<lambda>(p, s).
                 if p = Null then Inl (Aborted 1) else Inr (b\<lparr>buf_ptr := p, buf_size := sz\<rparr>, s))
       else Inr (b\<lparr>buf_size := sz\<rparr>, s))"

definition VBuffer_EnsureCapacity ::
    "(nat \<Rightarrow> nat \<Rightarrow> idx \<Rightarrow> 'x buffer_scheme \<Rightarrow> 's \<Rightarrow> fault + ('x buffer_scheme \<times> 's)) \<Rightarrow>
      nat \<Rightarrow> nat \<Rightarrow> idx \<Rightarrow> 'x buffer_scheme \<Rightarrow> 's \<Rightarrow> fault + ('x buffer_scheme \<times> 's)" where
  "VBuffer_EnsureCapacity allocate num_dims e sz b s =
     (let cur_size = VBuffer_GetLinearSize b (buf_size b); target_size = LinearSize_static num_dims e sz
      in if \<not> cur_size \<ge> target_size then allocate num_dims e sz b s else Inr (b, s))"

definition VBuffer_EnsureCapacity1 ::
    "(nat \<Rightarrow> nat \<Rightarrow> idx \<Rightarrow> 'x buffer_scheme \<Rightarrow> 's \<Rightarrow> fault + ('x buffer_scheme \<times> 's)) \<Rightarrow>
      idx \<Rightarrow> 'x buffer_scheme \<Rightarrow> 's \<Rightarrow> fault + ('x buffer_scheme \<times> 's)" where
  "VBuffer_EnsureCapacity1 allocate sz b s =
     VBuffer_EnsureCapacity allocate (buf_num_dims b) (buf_elm_size b) sz b s"

definition VBuffer_EnsureCapacity_scalar ::
    "(nat \<Rightarrow> nat \<Rightarrow> idx \<Rightarrow> 'x buffer_scheme \<Rightarrow> 's \<Rightarrow> fault + ('x buffer_scheme \<times> 's)) \<Rightarrow>
      int \<Rightarrow> 'x buffer_scheme \<Rightarrow> 's \<Rightarrow> fault + ('x buffer_scheme \<times> 's)" where
  "VBuffer_EnsureCapacity_scalar allocate sz b s =
     VBuffer_EnsureCapacity allocate 1 (buf_elm_size b) (IntegerArray1 sz) b s"

subsection \<open>\<open>BufferCUDAHost\<close>: pinned host memory\<close>

record cuda_host = buffer +
  ch_mpi_buf :: buffer

definition CUDAHost_new1 :: "nat \<Rightarrow> cuda_host" where
  "CUDAHost_new1 e = \<lparr>buf_num_dims = 1, buf_elm_size = e, buf_size = IntegerArray0, buf_ptr = Null,
     buf_deleter = True, ch_mpi_buf = BufferHost_new1 e\<rparr>"

definition CUDAHost_new :: "nat \<Rightarrow> nat \<Rightarrow> cuda_host" where
  "CUDAHost_new num_dims e = \<lparr>buf_num_dims = num_dims, buf_elm_size = e, buf_size = IntegerArray0,
     buf_ptr = Null, buf_deleter = True, ch_mpi_buf = BufferHost_new num_dims e\<rparr>"

definition CUDAHost_DeleteChunk :: "'d cuda_lib \<Rightarrow> ptr \<Rightarrow> heap \<Rightarrow> fault + heap" where
  "CUDAHost_DeleteChunk cu p h = cuFreeHost cu p h"

definition CUDAHost_GetChunk :: "'d cuda_lib \<Rightarrow> cuda_host \<Rightarrow> idx \<Rightarrow> heap \<Rightarrow> fault + (ptr \<times> heap)" where
  "CUDAHost_GetChunk cu b sz h =
     (if accumulate sz (buf_num_dims b) > 0 then cuMallocHost cu (VBuffer_GetLinearSize b sz) h else Inr (Null, h))"

definition CUDAHost_Allocate ::
    "'d cuda_lib \<Rightarrow> nat \<Rightarrow> nat \<Rightarrow> idx \<Rightarrow> cuda_host \<Rightarrow> heap \<Rightarrow> fault + (cuda_host \<times> heap)" where
  "CUDAHost_Allocate cu = VBuffer_Allocate (CUDAHost_DeleteChunk cu) (CUDAHost_GetChunk cu)"

text \<open>The destructor deletes the transfer buffer, then the chunk.\<close>

definition CUDAHost_delete :: "'d cuda_lib \<Rightarrow> cuda_host \<Rightarrow> heap \<Rightarrow> fault + heap" where
  "CUDAHost_delete cu b h =
     bindE (Buffer_Delete (ch_mpi_buf b) h) (\<lambda>(_, h).
     bindE (VBuffer_Delete (CUDAHost_DeleteChunk cu) b h) (\<lambda>(_, h). Inr h))"

definition CUDAHost_Copyin ::
    "'d cuda_lib \<Rightarrow> ptr \<Rightarrow> idx \<Rightarrow> idx \<Rightarrow> cuda_host \<Rightarrow> heap \<Rightarrow> fault + (cuda_host \<times> heap)" where
  "CUDAHost_Copyin cu src offset sz b h =
     bindE (VBuffer_EnsureCapacity1 (CUDAHost_Allocate cu) (arr_plus offset sz) b h) (\<lambda>(b, h).
     bindE (assertE (arr_eq offset 0)) (\<lambda>_.
     bindE (memcpy (buf_ptr b) src (VBuffer_GetLinearSize b sz) h) (\<lambda>h. Inr (b, h))))"

definition CUDAHost_Copyin_buf ::
    "'d cuda_lib \<Rightarrow> buffer \<Rightarrow> idx \<Rightarrow> idx \<Rightarrow> cuda_host \<Rightarrow> heap \<Rightarrow> fault + (cuda_host \<times> heap)" where
  "CUDAHost_Copyin_buf cu src offset sz b h = CUDAHost_Copyin cu (buf_ptr src) offset sz b h"

definition CUDAHost_Copyout ::
    "(idx \<Rightarrow> idx \<Rightarrow> bool) \<Rightarrow> ptr \<Rightarrow> idx \<Rightarrow> idx \<Rightarrow> cuda_host \<Rightarrow> heap \<Rightarrow> fault + heap" where
  "CUDAHost_Copyout le dst offset s b h =
     bindE (assertE (le (arr_plus offset s) (buf_size b))) (\<lambda>_.
     bindE (assertE (arr_eq offset 0)) (\<lambda>_.
       memcpy dst (buf_ptr b) (VBuffer_GetLinearSize b s) h))"

definition CUDAHost_Copyout_buf ::
    "(idx \<Rightarrow> idx \<Rightarrow> bool) \<Rightarrow> buffer \<Rightarrow> idx \<Rightarrow> idx \<Rightarrow> cuda_host \<Rightarrow> heap \<Rightarrow> fault + (buffer \<times> heap)" where
  "CUDAHost_Copyout_buf le dst offset sz b h =
     bindE (Buffer_EnsureCapacity BufferHost_GetChunk (buf_num_dims b) (buf_elm_size b) sz dst h) (\<lambda>(dst, h).
     bindE (CUDAHost_Copyout le (buf_ptr dst) offset sz b h) (\<lambda>h. Inr (dst, h)))"

definition CUDAHost_MPIRecv ::
    "'d cuda_lib \<Rightarrow> nat \<Rightarrow> idx \<Rightarrow> idx \<Rightarrow> cuda_host \<Rightarrow> heap \<Rightarrow> (cuda_host \<times> heap) prog" where
  "CUDAHost_MPIRecv cu src offset sz b h =
     bindP (BufferHost_MPIRecv src IntegerArray0 sz (ch_mpi_buf b) h) (\<lambda>(mb, h).
       lift (CUDAHost_Copyin_buf cu mb offset sz (b\<lparr>ch_mpi_buf := mb\<rparr>) h))"

definition CUDAHost_MPISend ::
    "(idx \<Rightarrow> idx \<Rightarrow> bool) \<Rightarrow> nat \<Rightarrow> idx \<Rightarrow> idx \<Rightarrow> cuda_host \<Rightarrow> heap \<Rightarrow> (cuda_host \<times> heap) prog" where
  "CUDAHost_MPISend le dst offset sz b h =
     bindP (lift (CUDAHost_Copyout_buf le (ch_mpi_buf b) offset sz b h)) (\<lambda>(mb, h).
     bindP (BufferHost_MPISend le dst IntegerArray0 sz mb h) (\<lambda>_. Ret (b\<lparr>ch_mpi_buf := mb\<rparr>, h)))"

subsection \<open>\<open>BufferCUDAHostMapped\<close>: pinned host memory that kernels reach\<close>

record cuda_mapped = buffer +
  cm_mpi_buf :: buffer
  cm_dev_ptr :: ptr

definition CUDAHostMapped_new1 :: "nat \<Rightarrow> cuda_mapped" where
  "CUDAHostMapped_new1 e = \<lparr>buf_num_dims = 1, buf_elm_size = e, buf_size = IntegerArray0, buf_ptr = Null,
     buf_deleter = True, cm_mpi_buf = BufferHost_new1 e, cm_dev_ptr = Null\<rparr>"

definition CUDAHostMapped_new :: "nat \<Rightarrow> nat \<Rightarrow> cuda_mapped" where
  "CUDAHostMapped_new num_dims e = \<lparr>buf_num_dims = num_dims, buf_elm_size = e, buf_size = IntegerArray0,
     buf_ptr = Null, buf_deleter = True, cm_mpi_buf = BufferHost_new num_dims e, cm_dev_ptr = Null\<rparr>"

definition CUDAHostMapped_DeleteChunk :: "'d cuda_lib \<Rightarrow> ptr \<Rightarrow> heap \<Rightarrow> fault + heap" where
  "CUDAHostMapped_DeleteChunk cu p h = cuFreeHost cu p h"

definition CUDAHostMapped_GetChunk :: "'d cuda_lib \<Rightarrow> cuda_mapped \<Rightarrow> idx \<Rightarrow> heap \<Rightarrow> fault + (ptr \<times> heap)" where
  "CUDAHostMapped_GetChunk cu b sz h =
     (if accumulate sz (buf_num_dims b) > 0 then cuMallocHost cu (VBuffer_GetLinearSize b sz) h else Inr (Null, h))"

definition CUDAHostMapped_Allocate ::
    "'d cuda_lib \<Rightarrow> nat \<Rightarrow> nat \<Rightarrow> idx \<Rightarrow> cuda_mapped \<Rightarrow> heap \<Rightarrow> fault + (cuda_mapped \<times> heap)" where
  "CUDAHostMapped_Allocate cu num_dims e sz b h =
     bindE (VBuffer_Delete (CUDAHostMapped_DeleteChunk cu) b h) (\<lambda>(b, h).
       if accumulate sz num_dims \<noteq> 0
       then let b = b\<lparr>buf_num_dims := num_dims, buf_elm_size := e\<rparr>
            in bindE (CUDAHostMapped_GetChunk cu b sz h) (\<lambda>(p, h).
                 Inr (b\<lparr>buf_ptr := p, cm_dev_ptr := cuHostDevPtr cu p, buf_size := sz\<rparr>, h))
       else Inr (b\<lparr>buf_size := sz\<rparr>, h))"

definition CUDAHostMapped_delete :: "'d cuda_lib \<Rightarrow> cuda_mapped \<Rightarrow> heap \<Rightarrow> fault + heap" where
  "CUDAHostMapped_delete cu b h =
     bindE (Buffer_Delete (cm_mpi_buf b) h) (\<lambda>(_, h).
     bindE (VBuffer_Delete (CUDAHostMapped_DeleteChunk cu) b h) (\<lambda>(_, h). Inr h))"

definition CUDAHostMapped_Copyin ::
    "'d cuda_lib \<Rightarrow> ptr \<Rightarrow> idx \<Rightarrow> idx \<Rightarrow> cuda_mapped \<Rightarrow> heap \<Rightarrow> fault + (cuda_mapped \<times> heap)" where
  "CUDAHostMapped_Copyin cu src offset sz b h =
     bindE (VBuffer_EnsureCapacity1 (CUDAHostMapped_Allocate cu) (arr_plus offset sz) b h) (\<lambda>(b, h).
     bindE (assertE (arr_eq offset 0)) (\<lambda>_.
     bindE (memcpy (buf_ptr b) src (VBuffer_GetLinearSize b sz) h) (\<lambda>h. Inr (b, h))))"

definition CUDAHostMapped_Copyin_buf ::
    "'d cuda_lib \<Rightarrow> buffer \<Rightarrow> idx \<Rightarrow> idx \<Rightarrow> cuda_mapped \<Rightarrow> heap \<Rightarrow> fault + (cuda_mapped \<times> heap)" where
  "CUDAHostMapped_Copyin_buf cu src offset sz b h = CUDAHostMapped_Copyin cu (buf_ptr src) offset sz b h"

definition CUDAHostMapped_Copyout ::
    "(idx \<Rightarrow> idx \<Rightarrow> bool) \<Rightarrow> ptr \<Rightarrow> idx \<Rightarrow> idx \<Rightarrow> cuda_mapped \<Rightarrow> heap \<Rightarrow> fault + heap" where
  "CUDAHostMapped_Copyout le dst offset s b h =
     bindE (assertE (le (arr_plus offset s) (buf_size b))) (\<lambda>_.
     bindE (assertE (arr_eq offset 0)) (\<lambda>_.
       memcpy dst (buf_ptr b) (VBuffer_GetLinearSize b s) h))"

definition CUDAHostMapped_Copyout_buf ::
    "(idx \<Rightarrow> idx \<Rightarrow> bool) \<Rightarrow> buffer \<Rightarrow> idx \<Rightarrow> idx \<Rightarrow> cuda_mapped \<Rightarrow> heap \<Rightarrow> fault + (buffer \<times> heap)" where
  "CUDAHostMapped_Copyout_buf le dst offset sz b h =
     bindE (Buffer_EnsureCapacity BufferHost_GetChunk (buf_num_dims b) (buf_elm_size b) sz dst h) (\<lambda>(dst, h).
     bindE (CUDAHostMapped_Copyout le (buf_ptr dst) offset sz b h) (\<lambda>h. Inr (dst, h)))"

definition CUDAHostMapped_MPIRecv ::
    "'d cuda_lib \<Rightarrow> nat \<Rightarrow> idx \<Rightarrow> idx \<Rightarrow> cuda_mapped \<Rightarrow> heap \<Rightarrow> (cuda_mapped \<times> heap) prog" where
  "CUDAHostMapped_MPIRecv cu src offset sz b h =
     bindP (BufferHost_MPIRecv src IntegerArray0 sz (cm_mpi_buf b) h) (\<lambda>(mb, h).
       lift (CUDAHostMapped_Copyin_buf cu mb offset sz (b\<lparr>cm_mpi_buf := mb\<rparr>) h))"

definition CUDAHostMapped_MPISend ::
    "(idx \<Rightarrow> idx \<Rightarrow> bool) \<Rightarrow> nat \<Rightarrow> idx \<Rightarrow> idx \<Rightarrow> cuda_mapped \<Rightarrow> heap \<Rightarrow> (cuda_mapped \<times> heap) prog" where
  "CUDAHostMapped_MPISend le dst offset sz b h =
     bindP (lift (CUDAHostMapped_Copyout_buf le (cm_mpi_buf b) offset sz b h)) (\<lambda>(mb, h).
     bindP (BufferHost_MPISend le dst IntegerArray0 sz mb h) (\<lambda>_. Ret (b\<lparr>cm_mpi_buf := mb\<rparr>, h)))"

subsection \<open>\<open>BufferCUDADev\<close>: device memory\<close>

record cuda_dev = buffer +
  cd_pinned_buf :: cuda_host

definition CUDADev_new1 :: "nat \<Rightarrow> cuda_dev" where
  "CUDADev_new1 e = \<lparr>buf_num_dims = 1, buf_elm_size = e, buf_size = IntegerArray0, buf_ptr = Null,
     buf_deleter = True, cd_pinned_buf = CUDAHost_new1 e\<rparr>"

definition CUDADev_new :: "nat \<Rightarrow> nat \<Rightarrow> cuda_dev" where
  "CUDADev_new num_dims e = \<lparr>buf_num_dims = num_dims, buf_elm_size = e, buf_size = IntegerArray0,
     buf_ptr = Null, buf_deleter = True, cd_pinned_buf = CUDAHost_new num_dims e\<rparr>"

definition CUDADev_DeleteChunk :: "'d cuda_lib \<Rightarrow> ptr \<Rightarrow> 'd \<Rightarrow> fault + 'd" where
  "CUDADev_DeleteChunk cu p d = (if p \<noteq> Null then cuFree cu p d else Inr d)"

definition CUDADev_GetChunk :: "'d cuda_lib \<Rightarrow> cuda_dev \<Rightarrow> idx \<Rightarrow> 'd \<Rightarrow> fault + (ptr \<times> 'd)" where
  "CUDADev_GetChunk cu b sz d =
     (if accumulate sz (buf_num_dims b) > 0 then cuMalloc cu (VBuffer_GetLinearSize b sz) d else Inr (Null, d))"

definition CUDADev_Allocate ::
    "'d cuda_lib \<Rightarrow> nat \<Rightarrow> nat \<Rightarrow> idx \<Rightarrow> cuda_dev \<Rightarrow> 'd \<Rightarrow> fault + (cuda_dev \<times> 'd)" where
  "CUDADev_Allocate cu = VBuffer_Allocate (CUDADev_DeleteChunk cu) (CUDADev_GetChunk cu)"

definition CUDADev_delete :: "'d cuda_lib \<Rightarrow> cuda_dev \<Rightarrow> heap \<Rightarrow> 'd \<Rightarrow> fault + (heap \<times> 'd)" where
  "CUDADev_delete cu b h d =
     bindE (CUDAHost_delete cu (cd_pinned_buf b) h) (\<lambda>h.
     bindE (VBuffer_Delete (CUDADev_DeleteChunk cu) b d) (\<lambda>(_, d). Inr (h, d)))"

definition CUDADev_Copyin_pinned ::
    "'d cuda_lib \<Rightarrow> cuda_host \<Rightarrow> idx \<Rightarrow> idx \<Rightarrow> cuda_dev \<Rightarrow> heap \<Rightarrow> 'd \<Rightarrow> fault + (cuda_dev \<times> 'd)" where
  "CUDADev_Copyin_pinned cu src offset sz b h d =
     bindE (assertE (arr_eq offset 0)) (\<lambda>_.
     bindE (VBuffer_EnsureCapacity1 (CUDADev_Allocate cu) (arr_plus offset sz) b d) (\<lambda>(b, d).
     bindE (cudaMemcpy_HostToDevice cu (buf_ptr b) (buf_ptr src) (VBuffer_GetLinearSize b sz) h d) (\<lambda>d. Inr (b, d))))"

definition CUDADev_Copyin ::
    "'d cuda_lib \<Rightarrow> ptr \<Rightarrow> idx \<Rightarrow> idx \<Rightarrow> cuda_dev \<Rightarrow> heap \<Rightarrow> 'd \<Rightarrow> fault + (cuda_dev \<times> heap \<times> 'd)" where
  "CUDADev_Copyin cu src offset sz b h d =
     bindE (CUDAHost_Copyin cu src IntegerArray0 sz (cd_pinned_buf b) h) (\<lambda>(pb, h).
     bindE (CUDADev_Copyin_pinned cu pb offset sz (b\<lparr>cd_pinned_buf := pb\<rparr>) h d) (\<lambda>(b, d). Inr (b, h, d)))"

definition CUDADev_Copyin_buf ::
    "'d cuda_lib \<Rightarrow> buffer \<Rightarrow> idx \<Rightarrow> idx \<Rightarrow> cuda_dev \<Rightarrow> heap \<Rightarrow> 'd \<Rightarrow> fault + (cuda_dev \<times> heap \<times> 'd)" where
  "CUDADev_Copyin_buf cu src offset sz b h d = CUDADev_Copyin cu (buf_ptr src) offset sz b h d"

definition CUDADev_Copyout_pinned ::
    "'d cuda_lib \<Rightarrow> (idx \<Rightarrow> idx \<Rightarrow> bool) \<Rightarrow> cuda_host \<Rightarrow> idx \<Rightarrow> idx \<Rightarrow> cuda_dev \<Rightarrow> heap \<Rightarrow> 'd \<Rightarrow> fault + (cuda_host \<times> heap)" where
  "CUDADev_Copyout_pinned cu le dst offset sz b h d =
     bindE (assertE (arr_eq offset 0)) (\<lambda>_.
     bindE (assertE (le (arr_plus offset sz) (buf_size b))) (\<lambda>_.
     bindE (VBuffer_EnsureCapacity (CUDAHost_Allocate cu) (buf_num_dims b) (buf_elm_size b) sz dst h) (\<lambda>(dst, h).
     bindE (cudaMemcpy_DeviceToHost cu (buf_ptr dst) (buf_ptr b) (VBuffer_GetLinearSize b sz) h d) (\<lambda>h. Inr (dst, h)))))"

definition CUDADev_Copyout ::
    "'d cuda_lib \<Rightarrow> (idx \<Rightarrow> idx \<Rightarrow> bool) \<Rightarrow> ptr \<Rightarrow> idx \<Rightarrow> idx \<Rightarrow> cuda_dev \<Rightarrow> heap \<Rightarrow> 'd \<Rightarrow> fault + (cuda_dev \<times> heap)" where
  "CUDADev_Copyout cu le dst offset sz b h d =
     bindE (CUDADev_Copyout_pinned cu le (cd_pinned_buf b) offset sz b h d) (\<lambda>(pb, h).
     bindE (CUDAHost_Copyout le dst IntegerArray0 sz pb h) (\<lambda>h. Inr (b\<lparr>cd_pinned_buf := pb\<rparr>, h)))"

text \<open>The version for a host buffer calls \<open>Copyin\<close>.\<close>

definition CUDADev_Copyout_buf ::
    "'d cuda_lib \<Rightarrow> buffer \<Rightarrow> idx \<Rightarrow> idx \<Rightarrow> cuda_dev \<Rightarrow> heap \<Rightarrow> 'd \<Rightarrow> fault + (cuda_dev \<times> heap \<times> 'd)" where
  "CUDADev_Copyout_buf cu dst offset sz b h d = CUDADev_Copyin cu (buf_ptr dst) offset sz b h d"

definition CUDADev_MPIRecv ::
    "'d cuda_lib \<Rightarrow> nat \<Rightarrow> idx \<Rightarrow> idx \<Rightarrow> cuda_dev \<Rightarrow> heap \<Rightarrow> 'd \<Rightarrow> (cuda_dev \<times> heap \<times> 'd) prog" where
  "CUDADev_MPIRecv cu src offset sz b h d =
     bindP (CUDAHost_MPIRecv cu src IntegerArray0 sz (cd_pinned_buf b) h) (\<lambda>(pb, h).
     bindP (lift (CUDADev_Copyin_pinned cu pb offset sz (b\<lparr>cd_pinned_buf := pb\<rparr>) h d)) (\<lambda>(b, d). Ret (b, h, d)))"

definition CUDADev_MPISend ::
    "'d cuda_lib \<Rightarrow> (idx \<Rightarrow> idx \<Rightarrow> bool) \<Rightarrow> nat \<Rightarrow> idx \<Rightarrow> idx \<Rightarrow> cuda_dev \<Rightarrow> heap \<Rightarrow> 'd \<Rightarrow> (cuda_dev \<times> heap) prog" where
  "CUDADev_MPISend cu le dst offset sz b h d =
     bindP (lift (CUDADev_Copyout_pinned cu le (cd_pinned_buf b) offset sz b h d)) (\<lambda>(pb, h).
     bindP (CUDAHost_MPISend le dst IntegerArray0 sz pb h) (\<lambda>(pb, h). Ret (b\<lparr>cd_pinned_buf := pb\<rparr>, h)))"

subsection \<open>\<open>BufferCUDADev3D\<close>: pitched device memory\<close>

record cuda_dev3d = buffer +
  c3_pinned_buf :: cuda_host
  c3_mapped_buf :: cuda_mapped
  c3_pp :: pitched

definition null_pitched :: pitched where
  "null_pitched = \<lparr>pp_ptr = Null, pp_pitch = 0, pp_xsize = 0, pp_ysize = 0\<rparr>"

definition CUDADev3D_new :: "nat \<Rightarrow> nat \<Rightarrow> cuda_dev3d" where
  "CUDADev3D_new num_dims e = \<lparr>buf_num_dims = num_dims, buf_elm_size = e, buf_size = IntegerArray0,
     buf_ptr = Null, buf_deleter = True, c3_pinned_buf = CUDAHost_new num_dims e,
     c3_mapped_buf = CUDAHostMapped_new num_dims e, c3_pp = null_pitched\<rparr>"

text \<open>\<open>make_cudaExtent\<close> and \<open>make_cudaPos\<close> of a box: the first component is in bytes.\<close>

definition box_bytes :: "nat \<Rightarrow> idx \<Rightarrow> nat \<times> nat \<times> nat" where
  "box_bytes e sz = (size_mult (to_size (at sz 0)) e, to_size (at sz 1), to_size (at sz 2))"

definition CUDADev3D_GetChunk3D :: "'d cuda_lib \<Rightarrow> cuda_dev3d \<Rightarrow> idx \<Rightarrow> 'd \<Rightarrow> fault + (pitched \<times> 'd)" where
  "CUDADev3D_GetChunk3D cu b sz d =
     (if accumulate sz (buf_num_dims b) \<noteq> 0
      then (case box_bytes (buf_elm_size b) sz of (w, ht, dp) \<Rightarrow> cuMalloc3D cu w ht dp d)
      else Inr (null_pitched, d))"

definition CUDADev3D_DeleteChunk :: "'d cuda_lib \<Rightarrow> ptr \<Rightarrow> 'd \<Rightarrow> fault + 'd" where
  "CUDADev3D_DeleteChunk cu p d = (if p \<noteq> Null then cuFree cu p d else Inr d)"

definition CUDADev3D_Allocate ::
    "'d cuda_lib \<Rightarrow> nat \<Rightarrow> nat \<Rightarrow> idx \<Rightarrow> cuda_dev3d \<Rightarrow> 'd \<Rightarrow> fault + (cuda_dev3d \<times> 'd)" where
  "CUDADev3D_Allocate cu num_dims e sz b d =
     bindE (VBuffer_Delete (CUDADev3D_DeleteChunk cu) b d) (\<lambda>(b, d).
       if accumulate sz num_dims \<noteq> 0
       then let b = b\<lparr>buf_num_dims := num_dims, buf_elm_size := e\<rparr>
            in bindE (CUDADev3D_GetChunk3D cu b sz d) (\<lambda>(pp, d).
                 Inr (b\<lparr>c3_pp := pp, buf_ptr := pp_ptr pp, buf_size := sz\<rparr>, d))
       else Inr (b\<lparr>buf_size := sz\<rparr>, d))"

definition CUDADev3D_GetPitch :: "cuda_dev3d \<Rightarrow> nat" where
  "CUDADev3D_GetPitch b = pp_pitch (c3_pp b)"

definition CUDADev3D_delete :: "'d cuda_lib \<Rightarrow> cuda_dev3d \<Rightarrow> heap \<Rightarrow> 'd \<Rightarrow> fault + (heap \<times> 'd)" where
  "CUDADev3D_delete cu b h d =
     bindE (CUDAHost_delete cu (c3_pinned_buf b) h) (\<lambda>h.
     bindE (CUDAHostMapped_delete cu (c3_mapped_buf b) h) (\<lambda>h.
     bindE (VBuffer_Delete (CUDADev3D_DeleteChunk cu) b d) (\<lambda>(_, d). Inr (h, d))))"

definition CUDADev3D_Copyin_pinned ::
    "'d cuda_lib \<Rightarrow> cuda_host \<Rightarrow> idx \<Rightarrow> idx \<Rightarrow> cuda_dev3d \<Rightarrow> heap \<Rightarrow> 'd \<Rightarrow> fault + (cuda_dev3d \<times> 'd)" where
  "CUDADev3D_Copyin_pinned cu src offset sz b h d =
     bindE (VBuffer_EnsureCapacity1 (CUDADev3D_Allocate cu) (arr_plus offset sz) b d) (\<lambda>(b, d).
     bindE (cudaMemcpy3D_HostToDevice cu (c3_pp b) (box_bytes (buf_elm_size b) offset) (buf_ptr src)
       (box_bytes (buf_elm_size b) sz) h d) (\<lambda>d. Inr (b, d)))"

definition CUDADev3D_Copyin ::
    "'d cuda_lib \<Rightarrow> ptr \<Rightarrow> idx \<Rightarrow> idx \<Rightarrow> cuda_dev3d \<Rightarrow> heap \<Rightarrow> 'd \<Rightarrow> fault + (cuda_dev3d \<times> heap \<times> 'd)" where
  "CUDADev3D_Copyin cu src offset sz b h d =
     bindE (CUDAHost_Copyin cu src IntegerArray0 sz (c3_pinned_buf b) h) (\<lambda>(pb, h).
     bindE (CUDADev3D_Copyin_pinned cu pb offset sz (b\<lparr>c3_pinned_buf := pb\<rparr>) h d) (\<lambda>(b, d). Inr (b, h, d)))"

definition CUDADev3D_Copyin_buf ::
    "'d cuda_lib \<Rightarrow> buffer \<Rightarrow> idx \<Rightarrow> idx \<Rightarrow> cuda_dev3d \<Rightarrow> heap \<Rightarrow> 'd \<Rightarrow> fault + (cuda_dev3d \<times> heap \<times> 'd)" where
  "CUDADev3D_Copyin_buf cu src offset sz b h d = CUDADev3D_Copyin cu (buf_ptr src) offset sz b h d"

definition CUDADev3D_Copyout_pinned ::
    "'d cuda_lib \<Rightarrow> (idx \<Rightarrow> idx \<Rightarrow> bool) \<Rightarrow> cuda_host \<Rightarrow> idx \<Rightarrow> idx \<Rightarrow> cuda_dev3d \<Rightarrow> heap \<Rightarrow> 'd \<Rightarrow> fault + (cuda_host \<times> heap)" where
  "CUDADev3D_Copyout_pinned cu le dst offset sz b h d =
     bindE (VBuffer_EnsureCapacity (CUDAHost_Allocate cu) (buf_num_dims b) (buf_elm_size b) sz dst h) (\<lambda>(dst, h).
     bindE (assertE (le (arr_plus offset sz) (buf_size b))) (\<lambda>_.
     bindE (cudaMemcpy3D_DeviceToHost cu (buf_ptr dst) (c3_pp b) (box_bytes (buf_elm_size b) offset)
       (box_bytes (buf_elm_size b) sz) h d) (\<lambda>h. Inr (dst, h))))"

definition CUDADev3D_Copyout ::
    "'d cuda_lib \<Rightarrow> (idx \<Rightarrow> idx \<Rightarrow> bool) \<Rightarrow> ptr \<Rightarrow> idx \<Rightarrow> idx \<Rightarrow> cuda_dev3d \<Rightarrow> heap \<Rightarrow> 'd \<Rightarrow> fault + (cuda_dev3d \<times> heap)" where
  "CUDADev3D_Copyout cu le dst offset sz b h d =
     bindE (CUDADev3D_Copyout_pinned cu le (c3_pinned_buf b) offset sz b h d) (\<lambda>(pb, h).
     bindE (CUDAHost_Copyout le dst IntegerArray0 sz pb h) (\<lambda>h. Inr (b\<lparr>c3_pinned_buf := pb\<rparr>, h)))"

definition CUDADev3D_Copyout_buf ::
    "'d cuda_lib \<Rightarrow> (idx \<Rightarrow> idx \<Rightarrow> bool) \<Rightarrow> buffer \<Rightarrow> idx \<Rightarrow> idx \<Rightarrow> cuda_dev3d \<Rightarrow> heap \<Rightarrow> 'd \<Rightarrow>
      fault + (buffer \<times> cuda_dev3d \<times> heap)" where
  "CUDADev3D_Copyout_buf cu le dst offset sz b h d =
     bindE (Buffer_EnsureCapacity BufferHost_GetChunk (buf_num_dims b) (buf_elm_size b) sz dst h) (\<lambda>(dst, h).
     bindE (CUDADev3D_Copyout cu le (buf_ptr dst) offset sz b h d) (\<lambda>(b, h). Inr (dst, b, h)))"

subsection \<open>The copy kernel\<close>

text \<open>
  The values of \<open>for (i = a; i < n; i += step)\<close>. A step of zero never ends the loop; a launch
  with an empty block or grid runs no thread, so it does not occur.
\<close>

function strided :: "nat \<Rightarrow> nat \<Rightarrow> nat \<Rightarrow> nat list" where
  "strided a n step = (if a < n \<and> 0 < step then a # strided (a + step) n step else [])"
  by auto

termination by (relation "measure (\<lambda>(a, n, step). n - a)") auto

declare strided.simps [simp del]

text \<open>
  The assignments of one thread, as pairs of the indices written in \<open>dst\<close> and read in \<open>src\<close>.
  Sizes and offsets are \<open>size_t\<close>; they stay below the number of bytes of a block.
\<close>

definition thread_copies ::
    "nat \<times> nat \<times> nat \<Rightarrow> nat \<times> nat \<times> nat \<Rightarrow> nat \<Rightarrow> nat \<Rightarrow> nat \<Rightarrow> nat \<times> nat \<Rightarrow> nat \<times> nat \<times> nat \<Rightarrow> (nat \<times> nat) list" where
  "thread_copies pos extent xdim ydim gdim bdim thread =
     (case (pos, extent, bdim, thread) of
        ((xpos, ypos, zpos), (xextent, yextent, zextent), (bx, by'), (block, tx, ty)) \<Rightarrow>
        concat (map (\<lambda>k. concat (map (\<lambda>j. map (\<lambda>i.
            (xextent * yextent * k + xextent * j + i,
             xdim * ydim * (k + zpos) + xdim * (j + ypos) + (i + xpos)))
          (strided tx xextent bx)) (strided ty yextent by'))) (strided block zextent gdim)))"

definition kernel_copies ::
    "nat \<times> nat \<times> nat \<Rightarrow> nat \<times> nat \<times> nat \<Rightarrow> nat \<Rightarrow> nat \<Rightarrow> nat \<Rightarrow> nat \<times> nat \<Rightarrow> (nat \<times> nat) list" where
  "kernel_copies pos extent xdim ydim gdim bdim =
     concat (map (\<lambda>block. concat (map (\<lambda>ty. concat (map (\<lambda>tx.
       thread_copies pos extent xdim ydim gdim bdim (block, tx, ty))
       [0..<fst bdim])) [0..<snd bdim])) [0..<gdim])"

text \<open>One assignment \<open>dst[i] = src[o]\<close>; \<open>dst\<close> points to mapped host memory.\<close>

definition copy_element :: "'d cuda_lib \<Rightarrow> nat \<Rightarrow> ptr \<Rightarrow> ptr \<Rightarrow> 'd \<Rightarrow> nat \<times> nat \<Rightarrow> heap \<Rightarrow> fault + heap" where
  "copy_element cu e src dst d a h =
     bindE (cuRead cu (ptr_add src (int (snd a * e))) e d) (\<lambda>cs.
       cuMappedStore cu (ptr_add dst (int (fst a * e))) cs h)"

text \<open>
  The threads run in parallel: \<open>sched\<close> is the order in which the assignments of all of them
  take place, an argument.
\<close>

definition copyout_kernel ::
    "'d cuda_lib \<Rightarrow> ((nat \<times> nat) list \<Rightarrow> (nat \<times> nat) list) \<Rightarrow> nat \<Rightarrow> ptr \<Rightarrow> nat \<times> nat \<times> nat \<Rightarrow> nat \<times> nat \<times> nat \<Rightarrow>
      nat \<Rightarrow> nat \<Rightarrow> ptr \<Rightarrow> nat \<Rightarrow> nat \<times> nat \<Rightarrow> heap \<Rightarrow> 'd \<Rightarrow> fault + heap" where
  "copyout_kernel cu sched e src pos extent xdim ydim dst gdim bdim h d =
     foldE (copy_element cu e src dst d) (sched (kernel_copies pos extent xdim ydim gdim bdim)) h"

text \<open>The dimensions of the launch are \<open>unsigned int\<close>.\<close>

definition opt_bdim :: "idx \<Rightarrow> nat \<times> nat" where
  "opt_bdim sz = (if at sz 0 < 4 then (to_unsigned (at sz 0), 64) else (64, to_unsigned (at sz 1)))"

definition index_sizes :: "idx \<Rightarrow> nat \<times> nat \<times> nat" where
  "index_sizes a = (to_size (at a 0), to_size (at a 1), to_size (at a 2))"

definition CUDADev3D_Copyout_Opt ::
    "'d cuda_lib \<Rightarrow> ((nat \<times> nat) list \<Rightarrow> (nat \<times> nat) list) \<Rightarrow> cuda_mapped \<Rightarrow> idx \<Rightarrow> idx \<Rightarrow> cuda_dev3d \<Rightarrow> heap \<Rightarrow> 'd \<Rightarrow> fault + heap" where
  "CUDADev3D_Copyout_Opt cu sched dst offset sz b h d =
     (let e = buf_elm_size b
      in bindE (assertE (e = 4 \<or> e = 8)) (\<lambda>_.
           copyout_kernel cu sched e (buf_ptr b) (index_sizes offset) (index_sizes sz)
             (pp_pitch (c3_pp b) div e) (pp_ysize (c3_pp b)) (cm_dev_ptr dst)
             (to_unsigned (at sz 2)) (opt_bdim sz) h d))"

definition CUDADev3D_Copyout_mapped ::
    "'d cuda_lib \<Rightarrow> (idx \<Rightarrow> idx \<Rightarrow> bool) \<Rightarrow> ((nat \<times> nat) list \<Rightarrow> (nat \<times> nat) list) \<Rightarrow> cuda_mapped \<Rightarrow> idx \<Rightarrow> idx \<Rightarrow>
      cuda_dev3d \<Rightarrow> heap \<Rightarrow> 'd \<Rightarrow> fault + (cuda_mapped \<times> heap)" where
  "CUDADev3D_Copyout_mapped cu le sched dst offset sz b h d =
     bindE (VBuffer_EnsureCapacity (CUDAHostMapped_Allocate cu) (buf_num_dims b) (buf_elm_size b) sz dst h) (\<lambda>(dst, h).
     bindE (assertE (le (arr_plus offset sz) (buf_size b))) (\<lambda>_.
       if at sz 0 < 4 \<or> at sz 1 < 4
       then bindE (CUDADev3D_Copyout_Opt cu sched dst offset sz b h d) (\<lambda>h. Inr (dst, h))
       else bindE (cudaMemcpy3D_DeviceToHost cu (buf_ptr dst) (c3_pp b) (box_bytes (buf_elm_size b) offset)
              (box_bytes (buf_elm_size b) sz) h d) (\<lambda>h. Inr (dst, h))))"

definition CUDADev3D_MPIRecv ::
    "'d cuda_lib \<Rightarrow> nat \<Rightarrow> idx \<Rightarrow> idx \<Rightarrow> cuda_dev3d \<Rightarrow> heap \<Rightarrow> 'd \<Rightarrow> (cuda_dev3d \<times> heap \<times> 'd) prog" where
  "CUDADev3D_MPIRecv cu src offset sz b h d =
     bindP (CUDAHost_MPIRecv cu src IntegerArray0 sz (c3_pinned_buf b) h) (\<lambda>(pb, h).
     bindP (lift (CUDADev3D_Copyin_pinned cu pb offset sz (b\<lparr>c3_pinned_buf := pb\<rparr>) h d)) (\<lambda>(b, d). Ret (b, h, d)))"

definition CUDADev3D_MPISend ::
    "'d cuda_lib \<Rightarrow> (idx \<Rightarrow> idx \<Rightarrow> bool) \<Rightarrow> nat \<Rightarrow> idx \<Rightarrow> idx \<Rightarrow> cuda_dev3d \<Rightarrow> heap \<Rightarrow> 'd \<Rightarrow> (cuda_dev3d \<times> heap) prog" where
  "CUDADev3D_MPISend cu le dst offset sz b h d =
     bindP (lift (CUDADev3D_Copyout_pinned cu le (c3_pinned_buf b) offset sz b h d)) (\<lambda>(pb, h).
     bindP (CUDAHost_MPISend le dst IntegerArray0 sz pb h) (\<lambda>(pb, h). Ret (b\<lparr>c3_pinned_buf := pb\<rparr>, h)))"

end
