(* ===== verification/Cuda_Pitched.thy ===== *)
theory Cuda_Pitched imports Cuda_Buffer begin

text \<open>
  What pitched device memory holds, without its padding, and that the copies of
  \<open>BufferCUDADev3D\<close> act on it as the copies of sub-grids act on an array: the box copies of
  the CUDA library and the copy kernel read and write the lines that \<open>CopyoutSubgrid\<close> and
  \<open>CopyinSubgrid\<close> read and write.
\<close>

subsection \<open>Rows\<close>

definition row_numbers :: "nat \<Rightarrow> nat \<Rightarrow> nat \<Rightarrow> nat \<Rightarrow> nat \<Rightarrow> nat list" where
  "row_numbers ysize y z ht dp =
     concat (map (\<lambda>k. map (\<lambda>j. (z + k) * ysize + (y + j)) [0..<ht]) [0..<dp])"

lemma rows3_row_numbers:
  "rows3 pitch ysize (x, y, z) ht dp = map (\<lambda>r. r * pitch + x) (row_numbers ysize y z ht dp)"
  by (simp add: rows3_def row_numbers_def map_concat comp_def)

lemma length_row_numbers [simp]: "length (row_numbers ysize y z ht dp) = ht * dp"
  unfolding row_numbers_def by (subst length_concat_uniform[of _ ht]) (auto simp: mult.commute)

lemma row_numbers_less:
  assumes "r \<in> set (row_numbers ysize y z ht dp)" "y + ht \<le> ysize" "(z + dp) * ysize \<le> n"
  shows "r < n"
proof -
  obtain k j where r: "k < dp" "j < ht" "r = (z + k) * ysize + (y + j)"
    using assms(1) by (auto simp: row_numbers_def)
  have "r < (z + k + 1) * ysize" using r(2,3) assms(2) by (simp add: algebra_simps)
  also have "\<dots> \<le> (z + dp) * ysize" using r(1) by (intro mult_right_mono) auto
  finally show ?thesis using assms(3) by simp
qed

text \<open>The rows of \<open>W\<close> bytes of a block with rows at distance \<open>pitch\<close>.\<close>

definition unpadded :: "nat \<Rightarrow> nat \<Rightarrow> nat \<Rightarrow> 'a list \<Rightarrow> 'a list" where
  "unpadded W pitch n D = concat (map (\<lambda>r. take W (drop (r * pitch) D)) [0..<n])"

lemma unpadded_lines:
  assumes "W \<le> pitch" "n * pitch \<le> length D" "ys \<in> set (map (\<lambda>r. take W (drop (r * pitch) D)) [0..<n])"
  shows "length ys = W"
proof -
  obtain r where r: "r < n" "ys = take W (drop (r * pitch) D)" using assms(3) by auto
  have "(r + 1) * pitch \<le> n * pitch" using r(1) by (intro mult_right_mono) auto
  then show ?thesis using assms(1,2) r(2) by simp
qed

lemma length_unpadded:
  assumes "W \<le> pitch" "n * pitch \<le> length D"
  shows "length (unpadded W pitch n D) = n * W"
proof -
  let ?rows = "map (\<lambda>r. take W (drop (r * pitch) D)) [0..<n]"
  have "length (concat ?rows) = length ?rows * W"
    by (rule length_concat_uniform) (rule unpadded_lines[OF assms])
  then show ?thesis by (simp add: unpadded_def)
qed

lemma unpadded_take_drop:
  assumes "W \<le> pitch" "n * pitch \<le> length D" "r < n" "x + w \<le> W"
  shows "take w (drop (r * W + x) (unpadded W pitch n D)) = take w (drop (r * pitch + x) D)"
proof -
  let ?rows = "map (\<lambda>r. take W (drop (r * pitch) D)) [0..<n]"
  have "r < length ?rows" using assms(3) by simp
  from take_drop_concat_uniform[of ?rows, OF unpadded_lines[OF assms(1,2)] this assms(4)]
  have "take w (drop (r * W + x) (unpadded W pitch n D)) = take w (drop x (take W (drop (r * pitch) D)))"
    using assms(3) by (simp add: unpadded_def)
  also have "\<dots> = take w (drop (r * pitch + x) D)"
    using assms(4) by (simp add: drop_take take_take add.commute)
  finally show ?thesis .
qed

lemma row_end: "r < n \<Longrightarrow> r * m + m \<le> n * (m :: nat)"
  using mult_le_mono1[of "Suc r" n m] by simp

lemma unpadded_nth:
  assumes "W \<le> pitch" "n * pitch \<le> length D" "r < n" "c < W"
  shows "unpadded W pitch n D ! (r * W + c) = D ! (r * pitch + c)"
proof -
  have "take 1 (drop (r * W + c) (unpadded W pitch n D)) = take 1 (drop (r * pitch + c) D)"
    using unpadded_take_drop[OF assms(1-3), of c 1] assms(4) by simp
  moreover have "r * W + c < length (unpadded W pitch n D)" "r * pitch + c < length D"
    using row_end[OF assms(3), of W] row_end[OF assms(3), of pitch] assms length_unpadded[OF assms(1,2)] by auto
  ultimately show ?thesis by (metis hd_drop_conv_nth hd_take zero_less_one)
qed

lemma unpadded_gather:
  assumes "W \<le> pitch" "n * pitch \<le> length D" "x + w \<le> W" "\<And>r. r \<in> set rs \<Longrightarrow> r < n"
  shows "gather (unpadded W pitch n D) (map (\<lambda>r. r * W + x) rs) w = gather D (map (\<lambda>r. r * pitch + x) rs) w"
  unfolding gather_def map_map comp_def using assms
  by (intro arg_cong[of _ _ concat] map_cong refl unpadded_take_drop) auto

lemma unpadded_list_write:
  assumes "W \<le> pitch" "n * pitch \<le> length D" "r < n" "x + length ys \<le> W"
  shows "unpadded W pitch n (list_write D (r * pitch + x) ys) = list_write (unpadded W pitch n D) (r * W + x) ys"
proof (cases "W = 0")
  case True
  then show ?thesis using assms by simp
next
  case False
  let ?D = "list_write D (r * pitch + x) ys"
  have fit: "r * pitch + x + length ys \<le> length D" "r * W + x + length ys \<le> n * W"
    using row_end[OF assms(3), of pitch] row_end[OF assms(3), of W] assms by auto
  have len: "n * pitch \<le> length ?D" "length (unpadded W pitch n D) = n * W"
    using fit assms length_unpadded by auto
  show ?thesis
  proof (rule nth_equalityI)
    show "length (unpadded W pitch n ?D) = length (list_write (unpadded W pitch n D) (r * W + x) ys)"
      using length_unpadded[OF assms(1) len(1)] len fit by simp
    fix i assume "i < length (unpadded W pitch n ?D)"
    then have i: "i < n * W" using length_unpadded[OF assms(1) len(1)] by simp
    obtain q c where q: "i = q * W + c" "q < n" "c < W"
      using radix_split[of i W n] i by (auto simp: mult.commute add.commute intro: that[of "i div W" "i mod W"])
    have b: "q * pitch + c < length D" using row_end[OF q(2), of pitch] q(3) assms by simp
    have same: "(r * pitch + x \<le> q * pitch + c \<and> q * pitch + c < r * pitch + x + length ys) \<longleftrightarrow>
        q = r \<and> x \<le> c \<and> c < x + length ys"
      "(r * W + x \<le> q * W + c \<and> q * W + c < r * W + x + length ys) \<longleftrightarrow> q = r \<and> x \<le> c \<and> c < x + length ys"
    proof -
      have far: "\<not> (r * m + x \<le> q * m + c \<and> q * m + c < r * m + x + length ys)" if "q \<noteq> r" "W \<le> m" for m
        using row_end[of q r m] row_end[of r q m] that q(3) assms(4) by (cases "q < r") auto
      then show "(r * pitch + x \<le> q * pitch + c \<and> q * pitch + c < r * pitch + x + length ys) \<longleftrightarrow>
          q = r \<and> x \<le> c \<and> c < x + length ys" using assms(1) by (cases "q = r") auto
      show "(r * W + x \<le> q * W + c \<and> q * W + c < r * W + x + length ys) \<longleftrightarrow> q = r \<and> x \<le> c \<and> c < x + length ys"
        using far by (cases "q = r") auto
    qed
    have "unpadded W pitch n ?D ! i = ?D ! (q * pitch + c)"
      using unpadded_nth[OF assms(1) len(1) q(2,3)] q(1) by simp
    also have "\<dots> = list_write (unpadded W pitch n D) (r * W + x) ys ! i"
      using unpadded_nth[OF assms(1,2) q(2,3)] same b fit len i q by (auto simp: nth_list_write)
    finally show "unpadded W pitch n ?D ! i = list_write (unpadded W pitch n D) (r * W + x) ys ! i" .
  qed
qed

lemma unpadded_scatter:
  assumes "W \<le> pitch" "n * pitch \<le> length D" "x + w \<le> W" "\<And>r. r \<in> set rs \<Longrightarrow> r < n" "length cs = w * length rs"
  shows "unpadded W pitch n (scatter D (map (\<lambda>r. r * pitch + x) rs) w cs) =
    scatter (unpadded W pitch n D) (map (\<lambda>r. r * W + x) rs) w cs"
  using assms
proof (induction rs arbitrary: D cs)
  case (Cons r rs)
  let ?D = "list_write D (r * pitch + x) (take w cs)"
  have r: "r < n" "length (take w cs) = w" using Cons.prems(4,5) by auto
  have fit: "r * pitch + x + w \<le> length D"
    using row_end[OF r(1), of pitch] Cons.prems(1-3) by linarith
  then have "n * pitch \<le> length ?D" using Cons.prems(2) r(2) by simp
  moreover have "unpadded W pitch n ?D = list_write (unpadded W pitch n D) (r * W + x) (take w cs)"
    using unpadded_list_write[OF Cons.prems(1,2) r(1)] r(2) Cons.prems(3) by simp
  ultimately show ?case using Cons.IH[of ?D "drop w cs"] Cons.prems by simp
qed simp

subsection \<open>The lines of a box\<close>

lemma collect_offsets_3:
  "collect_offsets 3 b [p] = concat (map (\<lambda>k. map (\<lambda>j. upd (upd p 2 (at p 2 + int k)) 1 (at p 1 + int j))
     [0..<nat (at b 1)]) [0..<nat (at b 2)])"
proof -
  have two: "collect_offsets 2 b [q] = map (\<lambda>j. upd q 1 (at q 1 + int j)) [0..<nat (at b 1)]" for q
    using collect_offsets_Suc[of 1 b q] by (simp add: numeral_2_eq_2 comp_def del: upt_Suc)
  have "collect_offsets 3 b [p] =
      concat (map (\<lambda>k. collect_offsets 2 b [upd p 2 (at p 2 + int k)]) [0..<nat (at b 2)])"
    using collect_offsets_Suc[of 2 b p] by (simp add: numeral_3_eq_3 numeral_2_eq_2)
  then show ?thesis by (simp add: two at_upd)
qed

lemma line_pos_3:
  assumes fits: "copy_fits e 3 s off b" and pos: "\<And>i. i < 3 \<Longrightarrow> 0 < at b i" and "j < nat (at b 1)" "k < nat (at b 2)"
  shows "line_pos e 3 s (upd (upd off 2 (at off 2 + int k)) 1 (at off 1 + int j)) =
    ((nat (at off 2) + k) * nat (at s 1) + (nat (at off 1) + j)) * (nat (at s 0) * e) + nat (at off 0) * e"
proof -
  let ?q = "upd (upd off 2 (at off 2 + int k)) 1 (at off 1 + int j)"
  have f: "0 < e" "accumulate s 3 * int e < 2 ^ 64" using fits by (auto simp: copy_fits_def)
  have bi: "0 \<le> at off i \<and> 0 \<le> at b i \<and> at off i + at b i \<le> at s i" if "i < 3" for i
    using fits that by (auto simp: copy_fits_def box_in_def)
  have o: "0 \<le> at off 0" "0 \<le> at off 1" "0 \<le> at off 2" "at off 0 + at b 0 \<le> at s 0"
    "at off 1 + at b 1 \<le> at s 1" "at off 2 + at b 2 \<le> at s 2" "0 < at b 0"
    using bi[of 0] bi[of 1] bi[of 2] pos[of 0] by auto
  have q: "at ?q 0 = at off 0" "at ?q 1 = at off 1 + int j" "at ?q 2 = at off 2 + int k"
    by (simp_all add: at_upd)
  have jk: "int j < at b 1" "int k < at b 2" using assms(3,4) by simp_all
  have "0 \<le> at ?q i \<and> at ?q i < at s i" if "i < 3" for i
  proof -
    have "i = 0 \<or> i = 1 \<or> i = 2" using that by linarith
    then show ?thesis
    proof (elim disjE)
      assume "i = 0" then show ?thesis using o q(1) by simp
    next
      assume "i = 1" then show ?thesis using o(2,5) q(2) jk(1) by (simp del: One_nat_def)
    next
      assume "i = 2" then show ?thesis using o(3,6) q(3) jk(2) by simp
    qed
  qed
  then have box: "in_box 3 ?q s" by (simp add: in_box_def)
  have sp: "0 \<le> at s 0" "0 \<le> at s 1" using o(1,2,4,5,7) pos[of 1] by auto
  have lin3: "lin 3 p s = at p 0 + at p 1 * at s 0 + at p 2 * (at s 0 * at s 1)" for p
    by (simp add: numeral_3_eq_3 numeral_2_eq_2)
  have "int (nat (lin 3 ?q s)) = int (((nat (at off 2) + k) * nat (at s 1) + (nat (at off 1) + j)) * nat (at s 0) + nat (at off 0))"
    using lin_bounds(1)[OF box] o q sp by (simp add: lin3 algebra_simps)
  then have "nat (lin 3 ?q s) = ((nat (at off 2) + k) * nat (at s 1) + (nat (at off 1) + j)) * nat (at s 0) + nat (at off 0)"
    by (simp only: of_nat_eq_iff)
  then show ?thesis using line_pos_lin[OF box f(2,1)] by (simp add: algebra_simps)
qed

lemma box_lines_rows3:
  assumes fits: "copy_fits e 3 s off b" and pos: "\<And>i. i < 3 \<Longrightarrow> 0 < at b i"
  shows "box_lines e 3 s off b = rows3 (nat (at s 0) * e) (nat (at s 1))
    (nat (at off 0) * e, nat (at off 1), nat (at off 2)) (nat (at b 1)) (nat (at b 2))"
  unfolding box_lines_def collect_offsets_3 rows3_def map_concat map_map comp_def prod.case
  using line_pos_3[OF fits pos]
  by (intro arg_cong[of _ _ concat] map_cong refl) auto

subsection \<open>The copy kernel\<close>

lemma set_strided: "0 < s \<Longrightarrow> set (strided a n s) = {i. a \<le> i \<and> i < n \<and> (i - a) mod s = 0}"
proof (induction a n s rule: strided.induct)
  case (1 a n s)
  show ?case
  proof (cases "a < n")
    case True
    then have "set (strided a n s) = insert a {i. a + s \<le> i \<and> i < n \<and> (i - (a + s)) mod s = 0}"
      using 1 by (subst strided.simps) simp
    also have "\<dots> = {i. a \<le> i \<and> i < n \<and> (i - a) mod s = 0}"
    proof (rule set_eqI)
      fix i
      show "i \<in> insert a {i. a + s \<le> i \<and> i < n \<and> (i - (a + s)) mod s = 0} \<longleftrightarrow>
          i \<in> {i. a \<le> i \<and> i < n \<and> (i - a) mod s = 0}"
      proof (cases "a + s \<le> i")
        case True
        then have "i - a = (i - (a + s)) + s" by simp
        then have "(i - a) mod s = (i - (a + s)) mod s" by simp
        then show ?thesis using True 1(2) by auto
      next
        case i: False
        then show ?thesis using True dvd_imp_le[of s "i - a"] by fastforce
      qed
    qed
    finally show ?thesis .
  next
    case False
    then show ?thesis by (subst strided.simps) auto
  qed
qed

text \<open>Together the threads of one dimension take every index, and none outside.\<close>

lemma strided_cover:
  assumes "0 < s"
  shows "(\<exists>t < s. i \<in> set (strided t n s)) \<longleftrightarrow> i < n"
proof
  assume "i < n"
  then have "i \<in> set (strided (i mod s) n s)"
    using set_strided[OF assms, of "i mod s" n] by (simp add: minus_mod_eq_div_mult)
  then show "\<exists>t < s. i \<in> set (strided t n s)" using assms by (intro exI[of _ "i mod s"]) simp
qed (auto simp: set_strided[OF assms])

lemma kernel_copies_member:
  "x \<in> set (kernel_copies (xp, yp, zp) (xe, ye, ze) xd yd g (bx, by')) \<longleftrightarrow>
    (\<exists>block \<in> {0..<g}. \<exists>ty \<in> {0..<by'}. \<exists>tx \<in> {0..<bx}. \<exists>k \<in> set (strided block ze g). \<exists>j \<in> set (strided ty ye by').
      \<exists>i \<in> set (strided tx xe bx). x = (xe * ye * k + xe * j + i, xd * yd * (k + zp) + xd * (j + yp) + (i + xp)))"
  by (simp add: kernel_copies_def thread_copies_def image_iff)

lemma set_kernel_copies:
  assumes "0 < g" "0 < bx" "0 < by'"
  shows "set (kernel_copies (xp, yp, zp) (xe, ye, ze) xd yd g (bx, by')) =
    {(xe * ye * k + xe * j + i, xd * yd * (k + zp) + xd * (j + yp) + (i + xp)) |k j i. k < ze \<and> j < ye \<and> i < xe}"
    (is "?L = ?R")
proof -
  have "?L = {(xe * ye * k + xe * j + i, xd * yd * (k + zp) + xd * (j + yp) + (i + xp)) |k j i.
      (\<exists>t < g. k \<in> set (strided t ze g)) \<and> (\<exists>t < by'. j \<in> set (strided t ye by')) \<and> (\<exists>t < bx. i \<in> set (strided t xe bx))}"
    unfolding set_eq_iff kernel_copies_member mem_Collect_eq Bex_def atLeastLessThan_iff by blast
  then show ?thesis by (simp only: strided_cover[OF assms(1)] strided_cover[OF assms(2)] strided_cover[OF assms(3)])
qed

lemma drop_list_write:
  "k + length v \<le> m \<Longrightarrow> m \<le> length B \<Longrightarrow> drop m (list_write B k v) = drop m B"
  by (simp add: list_write_def)

lemma elems_eqI:
  assumes "length A = length B" "M * e \<le> length A" "\<And>i. i < M \<Longrightarrow> elem e A i = elem e B i"
    and "drop (M * e) A = drop (M * e) B"
  shows "A = B"
proof -
  have "take (m * e) A = take (m * e) B" if "m \<le> M" for m
    using that
  proof (induction m)
    case (Suc m)
    have "take (Suc m * e) X = take (m * e) X @ elem e X m" for X :: "'a list"
      using take_add[of "m * e" e X] by (simp add: elem_def add.commute)
    with Suc assms(3)[of m] show ?case by simp
  qed simp
  with assms(4) show ?thesis by (metis append_take_drop_id order_refl)
qed

context cuda_memory begin

lemma copy_element_ok:
  assumes "dblk d c = Some D" "o' * e + e \<le> length D" "blocks h blk = Some B" "i * e + e \<le> length B"
  shows "copy_element cu e (Ptr c 0) (cuHostDevPtr cu (Ptr blk 0)) d (i, o') h =
    Inr (h\<lparr>blocks := (blocks h)(blk \<mapsto> list_write B (i * e) (elem e D o'))\<rparr>)"
proof -
  have "cuRead cu (ptr_add (Ptr c 0) (int (o' * e))) e d = Inr (elem e D o')"
    using read_ok[OF assms(1), of "o' * e" e] assms(2) by (simp add: elem_def)
  moreover have "length (elem e D o') = e" using assms(2) by (simp add: elem_def)
  ultimately show ?thesis using assms(3,4)
    by (simp add: copy_element_def mapped_ok store_block del: store.simps ptr_add.simps of_nat_mult)
qed

text \<open>
  Every order of the assignments gives the same block when each index of the target has one
  source: elements below \<open>M\<close> that are assigned get it, everything else stays.
\<close>

lemma copies_any_order:
  assumes "dblk d c = Some D" "blocks h blk = Some B" "M * e \<le> length B"
    and "\<And>i o'. (i, o') \<in> set prs \<Longrightarrow> i < M \<and> o' * e + e \<le> length D \<and> o' = f i"
  shows "\<exists>B'. foldE (copy_element cu e (Ptr c 0) (cuHostDevPtr cu (Ptr blk 0)) d) prs h =
      Inr (h\<lparr>blocks := (blocks h)(blk \<mapsto> B')\<rparr>) \<and> length B' = length B \<and> drop (M * e) B' = drop (M * e) B \<and>
    (\<forall>i < M. elem e B' i = (if i \<in> fst ` set prs then elem e D (f i) else elem e B i))"
  using assms(2-)
proof (induction prs arbitrary: h B)
  case Nil
  then have "(blocks h)(blk \<mapsto> B) = blocks h" by (simp add: fun_upd_idem)
  then show ?case by (intro exI[of _ B]) simp
next
  case (Cons w prs)
  obtain i o' where w: "w = (i, o')" by (cases w)
  have io: "i < M" "o' * e + e \<le> length D" "o' = f i" using Cons.prems(3)[of i o'] w by auto
  note ib = elem_bound[OF io(1) Cons.prems(2)]
  let ?B = "list_write B (i * e) (elem e D o')" and ?h = "h\<lparr>blocks := (blocks h)(blk \<mapsto> list_write B (i * e) (elem e D o'))\<rparr>"
  have v: "length (elem e D o') = e" using io(2) by (simp add: elem_def)
  have len: "length ?B = length B" using ib v by simp
  have hB: "blocks ?h blk = Some ?B" "M * e \<le> length ?B" using len Cons.prems(2) by simp_all
  have pr: "i < M \<and> o' * e + e \<le> length D \<and> o' = f i" if "(i, o') \<in> set prs" for i o'
    by (rule Cons.prems(3)) (simp add: that)
  obtain B' where B':
    "foldE (copy_element cu e (Ptr c 0) (cuHostDevPtr cu (Ptr blk 0)) d) prs ?h = Inr (?h\<lparr>blocks := (blocks ?h)(blk \<mapsto> B')\<rparr>)"
    "length B' = length ?B" "drop (M * e) B' = drop (M * e) ?B"
    "\<forall>i < M. elem e B' i = (if i \<in> fst ` set prs then elem e D (f i) else elem e ?B i)"
    using Cons.IH[OF hB pr] by blast
  have "i * e + e \<le> M * e" using row_end[OF io(1)] .
  then have dr: "drop (M * e) ?B = drop (M * e) B"
    using drop_list_write[of "i * e" "elem e D o'" "M * e" B] v Cons.prems(2) by simp
  have "elem e ?B i' = (if i' = i then elem e D (f i) else elem e B i')" if "i' < M" for i'
    using elem_list_write[OF io(1) that Cons.prems(2) v] io(3) by simp
  then have el: "\<forall>i' < M. elem e B' i' = (if i' \<in> fst ` set (w # prs) then elem e D (f i') else elem e B i')"
    using B'(4) w by auto
  have "foldE (copy_element cu e (Ptr c 0) (cuHostDevPtr cu (Ptr blk 0)) d) (w # prs) h =
      Inr (h\<lparr>blocks := (blocks h)(blk \<mapsto> B')\<rparr>)"
    using B'(1) w copy_element_ok[OF assms(1) io(2) Cons.prems(1) ib] by simp
  with el show ?case using B'(2,3) dr len by metis
qed

end

subsection \<open>A pitched buffer as an array\<close>

text \<open>
  A buffer of three dimensions with its memory: every row has room for a line of the grid.
  \<open>array_of\<close> is the array it stands for, the lines without the padding.
\<close>

definition pitched_at :: "cuda_dev3d \<Rightarrow> nat \<Rightarrow> idx \<Rightarrow> nat \<Rightarrow> cell list \<Rightarrow> bool" where
  "pitched_at b e s blk D \<longleftrightarrow> buf_num_dims b = 3 \<and> buf_elm_size b = e \<and> buf_size b = s \<and> buf_deleter b \<and>
     0 < e \<and> (\<forall>i < 3. 0 < at s i) \<and> accumulate s 3 * int e < 2 ^ 64 \<and>
     buf_ptr b = Ptr blk 0 \<and> pp_ptr (c3_pp b) = Ptr blk 0 \<and> nat (at s 0) * e \<le> pp_pitch (c3_pp b) \<and>
     pp_ysize (c3_pp b) = nat (at s 1) \<and> length D = pp_pitch (c3_pp b) * nat (at s 1) * nat (at s 2)"

definition array_of :: "cuda_dev3d \<Rightarrow> cell list \<Rightarrow> cell list" where
  "array_of b D = unpadded (nat (at (buf_size b) 0) * buf_elm_size b) (pp_pitch (c3_pp b))
     (nat (at (buf_size b) 1) * nat (at (buf_size b) 2)) D"

lemma pitched_at_room:
  assumes "pitched_at b e s blk D"
  shows "nat (at s 0) * e \<le> pp_pitch (c3_pp b)" "nat (at s 1) * nat (at s 2) * pp_pitch (c3_pp b) \<le> length D"
  using assms by (auto simp: pitched_at_def ac_simps)

lemma length_array_of:
  assumes "pitched_at b e s blk D"
  shows "length (array_of b D) = nat (accumulate s 3) * e"
proof -
  have p: "0 \<le> at s 0" "0 \<le> at s 1" "0 \<le> at s 2" using assms by (auto simp: pitched_at_def less_imp_le)
  have "length (array_of b D) = nat (at s 1) * nat (at s 2) * (nat (at s 0) * e)"
    using length_unpadded[OF pitched_at_room[OF assms]] assms by (simp add: array_of_def pitched_at_def)
  then show ?thesis using p by (simp add: accumulate_num nat_mult_distrib ac_simps del: One_nat_def)
qed

text \<open>A box inside the grid, in the units of the CUDA library.\<close>

lemma box_sizes:
  assumes fits: "copy_fits e 3 s off b" and s: "\<forall>i < 3. 0 < at s i"
  shows "box_bytes e off = (nat (at off 0) * e, nat (at off 1), nat (at off 2))"
    "box_bytes e b = (nat (at b 0) * e, nat (at b 1), nat (at b 2))"
    "index_sizes off = (nat (at off 0), nat (at off 1), nat (at off 2))"
    "index_sizes b = (nat (at b 0), nat (at b 1), nat (at b 2))"
    "nat (at off 0) * e + nat (at b 0) * e \<le> nat (at s 0) * e"
    "nat (at off 1) + nat (at b 1) \<le> nat (at s 1)" "nat (at off 2) + nat (at b 2) \<le> nat (at s 2)"
proof -
  have bx: "\<And>i. i < 3 \<Longrightarrow> 0 \<le> at off i \<and> 0 \<le> at b i \<and> at off i + at b i \<le> at s i" and e: "0 < e"
    and small: "accumulate s 3 * int e < 2 ^ 64" using fits by (auto simp: copy_fits_def box_in_def)
  have le: "at s i \<le> accumulate s 3" if "i < 3" for i
  proof -
    have "\<And>i. i < 3 \<Longrightarrow> 1 \<le> at s i" using s by force
    then have "1 \<le> at s 0" "1 \<le> at s 1" "1 \<le> at s 2" by simp_all
    moreover have "1 \<le> x * y" if "1 \<le> x" "1 \<le> y" for x y :: int using mult_mono[of 1 x 1 y] that by simp
    ultimately have "at s 0 * 1 \<le> at s 0 * (at s 1 * at s 2)" "at s 1 * 1 \<le> at s 1 * (at s 0 * at s 2)"
      "at s 2 * 1 \<le> at s 2 * (at s 0 * at s 1)"
      by (intro mult_left_mono; simp)+
    moreover have "i = 0 \<or> i = 1 \<or> i = 2" using that by linarith
    ultimately show ?thesis by (auto simp: accumulate_num ac_simps)
  qed
  have acc: "0 \<le> accumulate s 3" using s by (auto intro: accumulate_nonneg less_imp_le)
  have "accumulate s 3 * 1 \<le> accumulate s 3 * int e" using acc e by (intro mult_left_mono) auto
  then have s64: "at s i < 2 ^ 64" if "i < 3" for i using le[OF that] small by linarith
  have "at s 0 * int e \<le> accumulate s 3 * int e" using le[of 0] by (intro mult_right_mono) auto
  then have "int (nat (at s 0) * e) < int (2 ^ 64)" using small s by (simp add: less_imp_le)
  then have se: "nat (at s 0) * e < 2 ^ 64" by (simp only: of_nat_less_iff)
  have ts: "to_size (at off i) = nat (at off i)" "to_size (at b i) = nat (at b i)" if "i < 3" for i
    using bx[OF that] s64[OF that] by auto
  have "(nat (at off 0) + nat (at b 0)) * e \<le> nat (at s 0) * e" using bx[of 0] by (intro mult_right_mono) auto
  then show sum: "nat (at off 0) * e + nat (at b 0) * e \<le> nat (at s 0) * e" by (simp add: add_mult_distrib)
  then show "box_bytes e off = (nat (at off 0) * e, nat (at off 1), nat (at off 2))"
    "box_bytes e b = (nat (at b 0) * e, nat (at b 1), nat (at b 2))"
    using ts se by (simp_all add: box_bytes_def)
  show "index_sizes off = (nat (at off 0), nat (at off 1), nat (at off 2))"
    "index_sizes b = (nat (at b 0), nat (at b 1), nat (at b 2))" using ts by (simp_all add: index_sizes_def)
  show "nat (at off 1) + nat (at b 1) \<le> nat (at s 1)" "nat (at off 2) + nat (at b 2) \<le> nat (at s 2)"
    using bx[of 1] bx[of 2] by auto
qed

lemma box_inside:
  assumes at: "pitched_at b e s blk D" and fits: "copy_fits e 3 s off z"
  shows "box3_inside (c3_pp b) (length D) (nat (at off 0) * e, nat (at off 1), nat (at off 2))
    (nat (at z 0) * e, nat (at z 1), nat (at z 2))"
proof -
  have s: "\<forall>i < 3. 0 < at s i" using at by (simp add: pitched_at_def)
  note bs = box_sizes[OF fits s]
  have "(nat (at off 2) + nat (at z 2)) * (nat (at s 1) * pp_pitch (c3_pp b)) \<le>
      nat (at s 2) * (nat (at s 1) * pp_pitch (c3_pp b))" using bs(7) by (rule mult_le_mono1)
  then show ?thesis using bs(5,6) at by (auto simp: box3_inside_def pitched_at_def ac_simps)
qed

text \<open>What the box copies read and write is what the copies of sub-grids read and write.\<close>

lemma gather_box:
  assumes at: "pitched_at b e s blk D" and fits: "copy_fits e 3 s off z" and pos: "\<And>i. i < 3 \<Longrightarrow> 0 < at z i"
  shows "gather D (rows3 (pp_pitch (c3_pp b)) (nat (at s 1)) (nat (at off 0) * e, nat (at off 1), nat (at off 2))
      (nat (at z 1)) (nat (at z 2))) (nat (at z 0) * e) = subgrid e 3 s off z (array_of b D)"
proof -
  have s: "\<forall>i < 3. 0 < at s i" and bs': "buf_size b = s" "buf_elm_size b = e" using at by (auto simp: pitched_at_def)
  note bs = box_sizes[OF fits s] and room = pitched_at_room[OF at]
  let ?rs = "row_numbers (nat (at s 1)) (nat (at off 1)) (nat (at off 2)) (nat (at z 1)) (nat (at z 2))"
  have less: "r < nat (at s 1) * nat (at s 2)" if "r \<in> set ?rs" for r
    using row_numbers_less[OF that bs(6), of "nat (at s 1) * nat (at s 2)"] bs(7) by (simp add: mult.commute)
  show ?thesis
    using unpadded_gather[OF room bs(5) less, where rs = ?rs]
    by (simp add: subgrid_def box_lines_rows3[OF fits pos] rows3_row_numbers array_of_def bs' line_bytes_def)
qed

lemma scatter_box:
  assumes at: "pitched_at b e s blk D" and fits: "copy_fits e 3 s off z" and pos: "\<And>i. i < 3 \<Longrightarrow> 0 < at z i"
    and cs: "length cs = nat (accumulate z 3) * e"
  shows "array_of b (scatter D (rows3 (pp_pitch (c3_pp b)) (nat (at s 1)) (nat (at off 0) * e, nat (at off 1), nat (at off 2))
      (nat (at z 1)) (nat (at z 2))) (nat (at z 0) * e) cs) =
    scatter (array_of b D) (box_lines e 3 s off z) (line_bytes e z) cs"
proof -
  have s: "\<forall>i < 3. 0 < at s i" and bs': "buf_size b = s" "buf_elm_size b = e" using at by (auto simp: pitched_at_def)
  note bs = box_sizes[OF fits s] and room = pitched_at_room[OF at]
  let ?rs = "row_numbers (nat (at s 1)) (nat (at off 1)) (nat (at off 2)) (nat (at z 1)) (nat (at z 2))"
  have less: "r < nat (at s 1) * nat (at s 2)" if "r \<in> set ?rs" for r
    using row_numbers_less[OF that bs(6), of "nat (at s 1) * nat (at s 2)"] bs(7) by (simp add: mult.commute)
  have zp: "0 \<le> at z 0" "0 \<le> at z 1" "0 \<le> at z 2" using pos[of 0] pos[of 1] pos[of 2] by auto
  have "length cs = nat (at z 0) * e * length ?rs"
    using cs zp by (simp add: accumulate_num nat_mult_distrib ac_simps del: One_nat_def)
  from unpadded_scatter[OF room bs(5) less this] show ?thesis
    by (simp add: box_lines_rows3[OF fits pos] rows3_row_numbers array_of_def bs' line_bytes_def)
qed

subsection \<open>The copies of a pitched buffer\<close>

lemma arr_plus_sizes:
  assumes at: "pitched_at b e s blk D" and fits: "copy_fits e 3 s off z"
  shows "LinearSize_static 3 e (arr_plus off z) \<le> VBuffer_GetLinearSize b (buf_size b)"
proof -
  have s: "0 < e" "\<forall>i < 3. 0 < at s i" "accumulate s 3 * int e < 2 ^ 64" using at by (auto simp: pitched_at_def)
  have bx: "\<And>i. i < 3 \<Longrightarrow> 0 \<le> at off i + at z i \<and> at off i + at z i \<le> at s i"
    using fits by (auto simp: copy_fits_def box_in_def)
  have acc: "accumulate (arr_plus off z) 3 \<le> accumulate s 3" "0 \<le> accumulate (arr_plus off z) 3"
    using bx by (auto intro!: accumulate_mono accumulate_nonneg simp: at_arr_plus)
  then have "accumulate (arr_plus off z) 3 * int e \<le> accumulate s 3 * int e" by (intro mult_right_mono) auto
  then have "accumulate (arr_plus off z) 3 * int e < 2 ^ 64" using s(3) by (rule le_less_trans)
  then have f: "size_fits 3 e (arr_plus off z)" "size_fits 3 e s"
    using s bx by (auto simp: size_fits_def at_arr_plus less_imp_le)
  have "VBuffer_GetLinearSize b (buf_size b) = LinearSize_static 3 e s"
    using at by (simp add: VBuffer_GetLinearSize_def LinearSize_static_def pitched_at_def)
  then show ?thesis using acc by (simp add: LinearSize_static_eq[OF f(1)] LinearSize_static_eq[OF f(2)] mult_le_mono1 nat_mono)
qed

lemma box_total:
  assumes "copy_fits e 3 s off z"
  shows "ext_bytes (nat (at z 0) * e, nat (at z 1), nat (at z 2)) = nat (accumulate z 3) * e"
    "0 \<le> accumulate z 3"
proof -
  have "0 \<le> at z 0" "0 \<le> at z 1" "0 \<le> at z 2" using assms by (auto simp: copy_fits_def box_in_def)
  then show "ext_bytes (nat (at z 0) * e, nat (at z 1), nat (at z 2)) = nat (accumulate z 3) * e"
    "0 \<le> accumulate z 3"
    by (simp_all add: ext_bytes_def accumulate_num nat_mult_distrib ac_simps del: One_nat_def)
qed

text \<open>The room a transfer buffer needs so that it is not reallocated.\<close>

definition holds_box :: "'x buffer_scheme \<Rightarrow> nat \<Rightarrow> nat \<Rightarrow> idx \<Rightarrow> bool" where
  "holds_box p v e z \<longleftrightarrow> buf_ptr p = Ptr v 0 \<and> LinearSize_static 3 e z \<le> VBuffer_GetLinearSize p (buf_size p)"

lemma holds_box_ensure:
  assumes "holds_box p v e z"
  shows "VBuffer_EnsureCapacity allocate 3 e z p h = Inr (p, h)"
  using assms by (simp add: holds_box_def VBuffer_EnsureCapacity_def)

context cuda_memory begin

lemma Copyin_pinned_ok:
  assumes at: "pitched_at b e s blk D" and D: "dblk d blk = Some D" and fits: "copy_fits e 3 s off z"
    and src: "buf_ptr src = Ptr u 0" "blocks h u = Some S" "nat (accumulate z 3) * e \<le> length S"
  shows "\<exists>d' D'. CUDADev3D_Copyin_pinned cu src off z b h d = Inr (b, d') \<and>
    dblk d' = (dblk d)(blk \<mapsto> D') \<and> pitched_at b e s blk D' \<and>
    array_of b D' = scatter (array_of b D) (box_lines e 3 s off z) (line_bytes e z) (take (nat (accumulate z 3) * e) S)"
proof -
  let ?n = "nat (accumulate z 3) * e"
  have s: "\<forall>i < 3. 0 < at s i" and b: "buf_num_dims b = 3" "buf_elm_size b = e" "pp_ptr (c3_pp b) = Ptr blk 0"
    "pp_ysize (c3_pp b) = nat (at s 1)" using at by (auto simp: pitched_at_def)
  note bs = box_sizes[OF fits s] and tot = box_total[OF fits]
  have ens: "VBuffer_EnsureCapacity1 allocate (arr_plus off z) b d = Inr (b, d)" for allocate
    using arr_plus_sizes[OF at fits] b by (simp add: VBuffer_EnsureCapacity1_def VBuffer_EnsureCapacity_def)
  show ?thesis
  proof (cases "accumulate z 3 = 0")
    case True
    then have "CUDADev3D_Copyin_pinned cu src off z b h d = Inr (b, d)"
      using tot(1) by (simp add: CUDADev3D_Copyin_pinned_def ens b bs cudaMemcpy3D_HostToDevice_def)
    moreover have "dblk d = (dblk d)(blk \<mapsto> D)" using D by (simp add: fun_upd_idem)
    ultimately show ?thesis using at copy_empty(4)[OF fits True] by metis
  next
    case False
    then have pos: "\<And>i. i < 3 \<Longrightarrow> 0 < at z i" using copy_fits_cases[OF fits] by blast
    have e: "0 < e" using fits by (simp add: copy_fits_def)
    have n: "0 < ?n" using False tot(2) e by simp
    have ld: "load (Ptr u 0) ?n h = Inr (take ?n S)" using load_block[OF src(2), of 0 ?n] src(3) by simp
    have len: "length (take ?n S) = nat (at z 0) * e * nat (at z 1) * nat (at z 2)"
      using src(3) tot(1)[unfolded ext_bytes_def prod.case] by (simp only: length_take min_absorb2)
    let ?D' = "scatter D (rows3 (pp_pitch (c3_pp b)) (nat (at s 1)) (nat (at off 0) * e, nat (at off 1), nat (at off 2))
      (nat (at z 1)) (nat (at z 2))) (nat (at z 0) * e) (take ?n S)"
    obtain d' where d': "cuWrite3D cu (c3_pp b) (nat (at off 0) * e, nat (at off 1), nat (at off 2))
        (nat (at z 0) * e, nat (at z 1), nat (at z 2)) (take ?n S) d = Inr d'" "dblk d' = (dblk d)(blk \<mapsto> ?D')"
      using write3D_ok[OF b(3) D box_inside[OF at fits] len] b(4) by auto
    have "CUDADev3D_Copyin_pinned cu src off z b h d = Inr (b, d')"
      using tot(1) n d'(1) ld src(1) by (simp add: CUDADev3D_Copyin_pinned_def ens b bs cudaMemcpy3D_HostToDevice_def)
    moreover have "length ?D' = length D"
    proof (rule length_scatter)
      fix p assume "p \<in> set (rows3 (pp_pitch (c3_pp b)) (nat (at s 1)) (nat (at off 0) * e, nat (at off 1), nat (at off 2))
        (nat (at z 1)) (nat (at z 2)))"
      then obtain r where r: "p = r * pp_pitch (c3_pp b) + nat (at off 0) * e"
          "r \<in> set (row_numbers (nat (at s 1)) (nat (at off 1)) (nat (at off 2)) (nat (at z 1)) (nat (at z 2)))"
        by (auto simp: rows3_row_numbers)
      have "r < nat (at s 2) * nat (at s 1)" using row_numbers_less[OF r(2) bs(6)] bs(7) by simp
      from row_end[OF this, of "pp_pitch (c3_pp b)"] show "p + nat (at z 0) * e \<le> length D"
        using r(1) bs(5) at by (simp add: pitched_at_def ac_simps)
    next
      show "length (rows3 (pp_pitch (c3_pp b)) (nat (at s 1)) (nat (at off 0) * e, nat (at off 1), nat (at off 2))
          (nat (at z 1)) (nat (at z 2))) * (nat (at z 0) * e) \<le> length (take ?n S)"
        using len by (simp add: rows3_row_numbers)
    qed
    moreover have "length (take ?n S) = ?n" using src(3) by simp
    ultimately show ?thesis using d'(2) scatter_box[OF at fits pos] at
      by (intro exI[of _ d'] exI[of _ ?D']) (auto simp: pitched_at_def)
  qed
qed

lemma Copyout_pinned_ok:
  assumes at: "pitched_at b e s blk D" and D: "dblk d blk = Some D" and fits: "copy_fits e 3 s off z"
    and dst: "holds_box dst v e z" "blocks h v = Some V" "nat (accumulate z 3) * e \<le> length V"
    and le: "le (arr_plus off z) s"
  shows "CUDADev3D_Copyout_pinned cu le dst off z b h d =
    Inr (dst, h\<lparr>blocks := (blocks h)(v \<mapsto> list_write V 0 (subgrid e 3 s off z (array_of b D)))\<rparr>)"
proof -
  have s: "\<forall>i < 3. 0 < at s i" and b: "buf_num_dims b = 3" "buf_elm_size b = e" "buf_size b = s" "pp_ptr (c3_pp b) = Ptr blk 0"
    "pp_ysize (c3_pp b) = nat (at s 1)" using at by (auto simp: pitched_at_def)
  note bs = box_sizes[OF fits s] and tot = box_total[OF fits]
  show ?thesis
  proof (cases "accumulate z 3 = 0")
    case True
    then show ?thesis using tot(1) le dst(2)
      by (simp add: copy_empty(3)[OF fits True] CUDADev3D_Copyout_pinned_def holds_box_ensure[OF dst(1)] b bs cudaMemcpy3D_DeviceToHost_def fun_upd_idem)
  next
    case False
    then have pos: "\<And>i. i < 3 \<Longrightarrow> 0 < at z i" using copy_fits_cases[OF fits] by blast
    have "0 < e" using fits by (simp add: copy_fits_def)
    then have n: "0 < nat (accumulate z 3) * e" using False tot(2) by simp
    have "nat (accumulate s 3) * e \<le> length (array_of b D)" using length_array_of[OF at] by simp
    then have len: "length (subgrid e 3 s off z (array_of b D)) = nat (accumulate z 3) * e" by (rule length_subgrid[OF fits])
    then show ?thesis
      using tot(1) n le dst read3D_ok[OF b(4) D box_inside[OF at fits]] gather_box[OF at fits pos]
        store_block[OF dst(2), of 0 "subgrid e 3 s off z (array_of b D)"]
      by (simp add: CUDADev3D_Copyout_pinned_def holds_box_ensure[OF dst(1)] b bs cudaMemcpy3D_DeviceToHost_def holds_box_def)
  qed
qed

end

subsection \<open>The kernel copies the box\<close>

lemma gather_take_drop:
  assumes "\<And>p. p \<in> set ps \<Longrightarrow> p + L \<le> length G" "r < length ps" "c + m \<le> L"
  shows "take m (drop (r * L + c) (gather G ps L)) = take m (drop (ps ! r + c) G)"
proof -
  have "length ys = L" if ys: "ys \<in> set (map (\<lambda>p. take L (drop p G)) ps)" for ys
  proof -
    obtain p where "p \<in> set ps" "ys = take L (drop p G)" using ys by auto
    with assms(1)[of p] show ?thesis by simp
  qed
  from take_drop_concat_uniform[of "map (\<lambda>p. take L (drop p G)) ps", OF this] assms(2,3)
  have "take m (drop (r * L + c) (gather G ps L)) = take m (drop c (map (\<lambda>p. take L (drop p G)) ps ! r))"
    by (simp add: gather_def)
  also have "\<dots> = take m (drop (ps ! r + c) G)" using assms(2,3) by (simp add: drop_take take_take add.commute)
  finally show ?thesis .
qed

lemma take_drop_write: "k + m \<le> length G \<Longrightarrow> take m (drop k (list_write V 0 G)) = take m (drop k G)"
  by (simp add: list_write_def)

lemma nth_rows3:
  assumes "j < ht" "k < dp"
  shows "rows3 pitch ysize (x, y, z) ht dp ! (k * ht + j) = ((z + k) * ysize + (y + j)) * pitch + x"
proof -
  have "concat (map (\<lambda>k. map (\<lambda>j. ((z + k) * ysize + (y + j)) * pitch + x) [0..<ht]) [0..<dp]) ! (k * ht + j) =
      map (\<lambda>k. map (\<lambda>j. ((z + k) * ysize + (y + j)) * pitch + x) [0..<ht]) [0..<dp] ! k ! j"
    using assms by (intro nth_concat_uniform) auto
  then show ?thesis using assms by (simp add: rows3_def)
qed

lemma length_rows3: "length (rows3 pitch ysize (x, y, z) ht dp) = ht * dp"
  by (simp add: rows3_row_numbers)

text \<open>The element that the kernel puts at index \<open>i\<close>, from the index of its row and its column.\<close>

definition kernel_source :: "nat \<times> nat \<times> nat \<Rightarrow> nat \<Rightarrow> nat \<Rightarrow> nat \<Rightarrow> nat \<Rightarrow> nat \<Rightarrow> nat" where
  "kernel_source pos xe ye xd yd i =
     (case pos of (xp, yp, zp) \<Rightarrow>
        xd * yd * (i div (xe * ye) + zp) + xd * (i div xe mod ye + yp) + (i mod xe + xp))"

lemma kernel_index:
  fixes xe ye k j i0 :: nat
  assumes "i0 < xe" "j < ye"
  shows "(xe * ye * k + xe * j + i0) div (xe * ye) = k" "(xe * ye * k + xe * j + i0) div xe mod ye = j"
    "(xe * ye * k + xe * j + i0) mod xe = i0"
proof -
  have eq: "xe * ye * k + xe * j + i0 = i0 + (ye * k + j) * xe" by (simp add: algebra_simps)
  show "(xe * ye * k + xe * j + i0) mod xe = i0" using assms(1) by (simp add: eq)
  have d: "(xe * ye * k + xe * j + i0) div xe = ye * k + j" using assms(1) by (simp add: eq)
  then show "(xe * ye * k + xe * j + i0) div xe mod ye = j" using assms(2) by simp
  show "(xe * ye * k + xe * j + i0) div (xe * ye) = k" using d assms(2) by (simp add: div_mult2_eq)
qed

definition any_order :: "('a list \<Rightarrow> 'a list) \<Rightarrow> bool" where
  "any_order sched \<longleftrightarrow> (\<forall>xs. mset (sched xs) = mset xs)"

lemma any_order_set: "any_order sched \<Longrightarrow> set (sched xs) = set xs"
  by (metis any_order_def set_mset_mset)

context cuda_memory begin

lemma copyout_kernel_ok:
  assumes D: "dblk d c = Some D" and V: "blocks h v = Some V" "xe * ye * ze * e \<le> length V"
    and pitch: "xd * e = pitch" and sched: "any_order sched"
    and launch: "0 < g" "0 < bx" "0 < by'"
    and inside: "xp + xe \<le> xd" "yp + ye \<le> yd" "(zp + ze) * (yd * pitch) \<le> length D"
  shows "copyout_kernel cu sched e (Ptr c 0) (xp, yp, zp) (xe, ye, ze) xd yd (cuHostDevPtr cu (Ptr v 0)) g (bx, by') h d =
    Inr (h\<lparr>blocks := (blocks h)(v \<mapsto> list_write V 0 (gather D (rows3 pitch yd (xp * e, yp, zp) ye ze) (xe * e)))\<rparr>)"
proof -
  let ?prs = "kernel_copies (xp, yp, zp) (xe, ye, ze) xd yd g (bx, by')" and ?f = "kernel_source (xp, yp, zp) xe ye xd yd"
  let ?M = "xe * ye * ze" and ?ps = "rows3 pitch yd (xp * e, yp, zp) ye ze"
  let ?G = "gather D ?ps (xe * e)"
  note prs = set_kernel_copies[OF launch, of xp yp zp xe ye ze xd yd]
  have src: "(xd * yd * (k + zp) + xd * (j + yp) + (i + xp)) * e = ((zp + k) * yd + (yp + j)) * pitch + (xp + i) * e" for k j i
    by (simp add: algebra_simps flip: pitch)
  have row: "((zp + k) * yd + (yp + j)) * pitch + xd * e \<le> length D" if "k < ze" "j < ye" for k j
  proof -
    have "(zp + k) * yd + (yp + j) < (zp + ze) * yd"
      using row_end[of "zp + k" "zp + ze" yd] that inside(2) by simp
    from row_end[OF this, of pitch] show ?thesis using inside(3) pitch by (simp add: ac_simps)
  qed
  have cell: "((zp + k) * yd + (yp + j)) * pitch + (xp + i) * e + e \<le> length D" if "k < ze" "j < ye" "i < xe" for k j i
  proof -
    have "(xp + i) * e + e \<le> xd * e" using row_end[of "xp + i" xd e] that(3) inside(1) by simp
    then show ?thesis using row[OF that(1,2)] by simp
  qed
  have ok: "i < ?M \<and> o' * e + e \<le> length D \<and> o' = ?f i" if "(i, o') \<in> set (sched ?prs)" for i o'
  proof -
    have "(i, o') \<in> set ?prs" using that by (simp add: any_order_set[OF sched])
    then have "\<exists>k j i0. k < ze \<and> j < ye \<and> i0 < xe \<and> i = xe * ye * k + xe * j + i0 \<and>
        o' = xd * yd * (k + zp) + xd * (j + yp) + (i0 + xp)" unfolding prs by blast
    then obtain k j i0 where k: "k < ze" "j < ye" "i0 < xe" "i = xe * ye * k + xe * j + i0"
        "o' = xd * yd * (k + zp) + xd * (j + yp) + (i0 + xp)" by blast
    have "xe * j + i0 < xe * ye" using radix_bound[OF k(3,2)] by (simp add: add.commute)
    from radix_bound[OF this k(1)] have "i < ?M" using k(4) by (simp add: ac_simps)
    then show ?thesis using k cell[OF k(1-3)] src[of k j i0] kernel_index[OF k(3,2), of k]
      by (simp add: kernel_source_def)
  qed
  have all: "i \<in> fst ` set (sched ?prs)" if "i < ?M" for i
  proof -
    have "xe \<noteq> 0 \<and> ye \<noteq> 0" using that by (intro conjI notI) auto
    then have pos: "0 < xe" "0 < ye" by auto
    have "i mod xe < xe" "i div xe mod ye < ye" using pos by auto
    moreover have "i div xe div ye < ze" using that by (simp add: less_mult_imp_div_less ac_simps flip: div_mult2_eq)
    moreover have "i = xe * ye * (i div xe div ye) + xe * (i div xe mod ye) + i mod xe"
      by (metis add_mult_distrib2 mult.assoc mult_div_mod_eq)
    ultimately have "(i, xd * yd * (i div xe div ye + zp) + xd * (i div xe mod ye + yp) + (i mod xe + xp)) \<in> set ?prs"
      unfolding prs by blast
    then show ?thesis using any_order_set[OF sched] by force
  qed
  obtain B where B: "foldE (copy_element cu e (Ptr c 0) (cuHostDevPtr cu (Ptr v 0)) d) (sched ?prs) h =
      Inr (h\<lparr>blocks := (blocks h)(v \<mapsto> B)\<rparr>)" "length B = length V" "drop (?M * e) B = drop (?M * e) V"
      "\<forall>i < ?M. elem e B i = elem e D (?f i)"
    using copies_any_order[where prs = "sched ?prs", OF D V ok] all by auto
  have rows: "p + xe * e \<le> length D" if p: "p \<in> set ?ps" for p
  proof -
    obtain k j where k: "k < ze" "j < ye" "p = ((zp + k) * yd + (yp + j)) * pitch + xp * e"
      using p by (auto simp: rows3_def)
    have "(xp + xe) * e \<le> xd * e" using inside(1) by (rule mult_le_mono1)
    then show ?thesis using row[OF k(1,2)] k(3) by (simp add: add_mult_distrib)
  qed
  have lenG: "length ?G = ?M * e" using length_gather[OF rows] by (simp add: length_rows3 ac_simps)
  have "B = list_write V 0 ?G"
  proof (rule elems_eqI)
    show "length B = length (list_write V 0 ?G)" "?M * e \<le> length B" using B(2) V(2) lenG by auto
    show "drop (?M * e) B = drop (?M * e) (list_write V 0 ?G)"
      using B(3) V(2) lenG by (simp add: list_write_def)
    fix i assume i: "i < ?M"
    let ?k = "i div (xe * ye)" and ?j = "i div xe mod ye" and ?c = "i mod xe"
    have "xe \<noteq> 0 \<and> ye \<noteq> 0" using i by (intro conjI notI) auto
    then have pos: "0 < xe" "0 < ye" by auto
    have k: "?c < xe" "?j < ye" "?k < ze" using pos i by (auto simp: less_mult_imp_div_less ac_simps)
    have r: "?k * ye + ?j < length ?ps" using radix_bound[OF k(2,3)] by (simp add: length_rows3 ac_simps)
    have "i = (?k * ye + ?j) * xe + ?c"
      by (metis add.commute div_mult2_eq mult.commute mult_div_mod_eq)
    then have ie: "i * e = (?k * ye + ?j) * (xe * e) + ?c * e" by (metis add_mult_distrib mult.assoc)
    have ce: "?c * e + e \<le> xe * e" using row_end[OF k(1)] .
    have "elem e (list_write V 0 ?G) i = take e (drop (i * e) ?G)"
      using take_drop_write[of "i * e" e ?G V] elem_bound[OF i order_refl, of e] lenG by (simp add: elem_def)
    also have "\<dots> = take e (drop (?ps ! (?k * ye + ?j) + ?c * e) D)"
      using gather_take_drop[OF rows r ce] by (simp add: ie)
    also have "\<dots> = elem e D (?f i)"
    proof -
      have "?f i * e = ?ps ! (?k * ye + ?j) + ?c * e"
        unfolding nth_rows3[OF k(2,3)] kernel_source_def prod.case src by (simp add: add_mult_distrib)
      then show ?thesis by (simp add: elem_def)
    qed
    finally show "elem e B i = elem e (list_write V 0 ?G) i" using B(4) i by simp
  qed
  with B(1) show ?thesis by (simp add: copyout_kernel_def)
qed

end

text \<open>What the kernel needs: elements it has a type for, aligned rows, sizes that fit the launch.\<close>

definition kernel_fits :: "nat \<Rightarrow> nat \<Rightarrow> idx \<Rightarrow> bool" where
  "kernel_fits e pitch z \<longleftrightarrow> (e = 4 \<or> e = 8) \<and> e dvd pitch \<and> (\<forall>i < 3. at z i < 2 ^ 32)"

context cuda_memory begin

lemma Copyout_Opt_ok:
  assumes at: "pitched_at b e s blk D" and D: "dblk d blk = Some D" and fits: "copy_fits e 3 s off z"
    and pos: "\<And>i. i < 3 \<Longrightarrow> 0 < at z i"
    and dst: "cm_dev_ptr dst = cuHostDevPtr cu (Ptr v 0)" "blocks h v = Some V" "nat (accumulate z 3) * e \<le> length V"
    and k: "kernel_fits e (pp_pitch (c3_pp b)) z" and sched: "any_order sched"
  shows "CUDADev3D_Copyout_Opt cu sched dst off z b h d =
    Inr (h\<lparr>blocks := (blocks h)(v \<mapsto> list_write V 0 (subgrid e 3 s off z (array_of b D)))\<rparr>)"
proof -
  have s: "\<forall>i < 3. 0 < at s i" and b: "buf_elm_size b = e" "buf_ptr b = Ptr blk 0" "pp_ysize (c3_pp b) = nat (at s 1)"
    using at by (auto simp: pitched_at_def)
  note bs = box_sizes[OF fits s] and tot = box_total[OF fits]
  let ?pitch = "pp_pitch (c3_pp b)"
  have e: "0 < e" using fits by (simp add: copy_fits_def)
  have xd: "?pitch div e * e = ?pitch" using k by (simp add: kernel_fits_def)
  have u: "to_unsigned (at z i) = nat (at z i)" "0 < nat (at z i)" if "i < 3" for i
    using pos[OF that] k that by (auto simp: kernel_fits_def)
  obtain bx by' where bd: "opt_bdim z = (bx, by')" "0 < bx" "0 < by'"
    using u[of 0] u[of 1] by (cases "at z 0 < 4") (auto simp: opt_bdim_def)
  have "(nat (at off 0) + nat (at z 0)) * e \<le> ?pitch div e * e"
    using bs(5) at xd by (simp add: pitched_at_def add_mult_distrib)
  then have x: "nat (at off 0) + nat (at z 0) \<le> ?pitch div e" using e by simp
  have zin: "(nat (at off 2) + nat (at z 2)) * (nat (at s 1) * ?pitch) \<le> length D"
    using box_inside[OF at fits] b(3) by (simp add: box3_inside_def)
  have room: "nat (at z 0) * nat (at z 1) * nat (at z 2) * e \<le> length V"
    using dst(3) unfolding tot(1)[symmetric] ext_bytes_def prod.case by (simp add: ac_simps)
  have g: "0 < to_unsigned (at z 2)" using u[of 2] by simp
  show ?thesis
    using copyout_kernel_ok[OF D dst(2) room xd sched g bd(2,3) x bs(6) zin] k gather_box[OF at fits pos]
    by (simp add: CUDADev3D_Copyout_Opt_def b bs bd dst(1) kernel_fits_def)
qed

lemma read_box_ok:
  assumes at: "pitched_at b e s blk D" and D: "dblk d blk = Some D" and fits: "copy_fits e 3 s off z"
    and pos: "\<And>i. i < 3 \<Longrightarrow> 0 < at z i"
    and dst: "p = Ptr v 0" "blocks h v = Some V" "nat (accumulate z 3) * e \<le> length V"
  shows "cudaMemcpy3D_DeviceToHost cu p (c3_pp b) (box_bytes e off) (box_bytes e z) h d =
      Inr (h\<lparr>blocks := (blocks h)(v \<mapsto> list_write V 0 (subgrid e 3 s off z (array_of b D)))\<rparr>)"
proof -
  have s: "\<forall>i < 3. 0 < at s i" and b: "pp_ptr (c3_pp b) = Ptr blk 0" "pp_ysize (c3_pp b) = nat (at s 1)"
    using at by (auto simp: pitched_at_def)
  note bs = box_sizes[OF fits s] and tot = box_total[OF fits]
  have "0 < e" using fits by (simp add: copy_fits_def)
  moreover have "accumulate z 3 \<noteq> 0" using pos by (force simp: accumulate_eq_0_iff)
  ultimately have n: "0 < nat (accumulate z 3) * e" using tot(2) by simp
  have "nat (accumulate s 3) * e \<le> length (array_of b D)" using length_array_of[OF at] by simp
  then have len: "length (subgrid e 3 s off z (array_of b D)) = nat (accumulate z 3) * e" by (rule length_subgrid[OF fits])
  then show ?thesis
    using tot(1) n dst read3D_ok[OF b(1) D box_inside[OF at fits]] gather_box[OF at fits pos]
      store_block[OF dst(2), of 0 "subgrid e 3 s off z (array_of b D)"]
    by (simp add: b bs cudaMemcpy3D_DeviceToHost_def)
qed

lemma Copyout_mapped_ok:
  assumes at: "pitched_at b e s blk D" and D: "dblk d blk = Some D" and fits: "copy_fits e 3 s off z"
    and dst: "holds_box dst v e z" "cm_dev_ptr dst = cuHostDevPtr cu (Ptr v 0)" "blocks h v = Some V"
      "nat (accumulate z 3) * e \<le> length V"
    and k: "kernel_fits e (pp_pitch (c3_pp b)) z" and sched: "any_order sched" and le: "le (arr_plus off z) s"
    and pos: "\<And>i. i < 3 \<Longrightarrow> 0 < at z i"
  shows "CUDADev3D_Copyout_mapped cu le sched dst off z b h d =
    Inr (dst, h\<lparr>blocks := (blocks h)(v \<mapsto> list_write V 0 (subgrid e 3 s off z (array_of b D)))\<rparr>)"
proof -
  have b: "buf_num_dims b = 3" "buf_elm_size b = e" "buf_size b = s" using at by (auto simp: pitched_at_def)
  have p: "buf_ptr dst = Ptr v 0" using dst(1) by (simp add: holds_box_def)
  show ?thesis
    using Copyout_Opt_ok[OF at D fits pos dst(2-4) k sched] read_box_ok[OF at D fits pos p dst(3,4)] le
    by (simp add: CUDADev3D_Copyout_mapped_def holds_box_ensure[OF dst(1)] b)
qed

end

subsection \<open>Properties\<close>

text \<open>C37: The copy kernel for thin boxes writes to the mapped host buffer exactly what the
  library's box copy would write there, whatever the order in which its threads run, without
  an access outside the two blocks, and it is launched with at most 192 threads per block.\<close>

theorem copy_kernel_matches_library:
  assumes "cuda_memory cu dblk" and "pitched_at b e s blk D" "dblk d blk = Some D"
    and "copy_fits e 3 s off z" "\<forall>i < 3. 0 < at z i" "at z 0 < 4 \<or> at z 1 < 4"
    and "kernel_fits e (pp_pitch (c3_pp b)) z" and "any_order sched"
    and "buf_ptr dst = Ptr v 0" "cm_dev_ptr dst = cuHostDevPtr cu (buf_ptr dst)" "blocks h v = Some V"
      "nat (accumulate z 3) * e \<le> length V"
  shows "\<exists>h'. CUDADev3D_Copyout_Opt cu sched dst off z b h d = Inr h' \<and>
    cudaMemcpy3D_DeviceToHost cu (buf_ptr dst) (c3_pp b) (box_bytes e off) (box_bytes e z) h d = Inr h' \<and>
    fst (opt_bdim z) * snd (opt_bdim z) \<le> 192"
proof -
  have pos: "\<And>i. i < 3 \<Longrightarrow> 0 < at z i" using assms(5) by blast
  have "to_unsigned (at z i) \<le> 3" if "i < 3" "at z i < 4" for i using pos[OF that(1)] that(2) by simp
  then have "fst (opt_bdim z) * snd (opt_bdim z) \<le> 192"
    using assms(6) mult_le_mono1[of "to_unsigned (at z 0)" 3 64] by (auto simp: opt_bdim_def)
  moreover have "CUDADev3D_Copyout_Opt cu sched dst off z b h d =
      Inr (h\<lparr>blocks := (blocks h)(v \<mapsto> list_write V 0 (subgrid e 3 s off z (array_of b D)))\<rparr>)"
    using cuda_memory.Copyout_Opt_ok[OF assms(1-4) pos _ assms(11,12,7,8)] assms(9,10) by simp
  moreover have "cudaMemcpy3D_DeviceToHost cu (buf_ptr dst) (c3_pp b) (box_bytes e off) (box_bytes e z) h d =
      Inr (h\<lparr>blocks := (blocks h)(v \<mapsto> list_write V 0 (subgrid e 3 s off z (array_of b D)))\<rparr>)"
    using cuda_memory.read_box_ok[OF assms(1-4) pos assms(9,11,12)] .
  ultimately show ?thesis by blast
qed

definition demo_buffer3 :: cuda_dev3d where
  "demo_buffer3 = (CUDADev3D_new 3 4)\<lparr>buf_size := Arr3 2 2 1, buf_ptr := Ptr 0 0,
     c3_pp := \<lparr>pp_ptr = Ptr 0 0, pp_pitch = 16, pp_xsize = 8, pp_ysize = 2\<rparr>\<rparr>"

definition demo_bytes :: "cell list" where
  "demo_bytes = map (\<lambda>i. Some (word_of_nat i)) [0..<32]"

definition demo_mapped :: cuda_mapped where
  "demo_mapped = (CUDAHostMapped_new 3 4)\<lparr>buf_ptr := Ptr 0 0, cm_dev_ptr := Ptr 0 0\<rparr>"

lemma demo_pitched: "pitched_at demo_buffer3 4 (Arr3 2 2 1) 0 demo_bytes"
  by (simp add: pitched_at_def demo_buffer3_def demo_bytes_def CUDADev3D_new_def all_less_num accumulate_num)

text \<open>The last column of a grid of two by two elements whose rows are padded to 16 bytes.\<close>

theorem copy_kernel_matches_library_witness:
  "\<exists>h'. CUDADev3D_Copyout_Opt (heap_device 16) rev demo_mapped (Arr3 1 0 0) (Arr3 1 2 1) demo_buffer3
      \<lparr>blocks = [0 \<mapsto> replicate 8 None], fresh = 1, avail = 100\<rparr>
      \<lparr>blocks = [0 \<mapsto> demo_bytes], fresh = 1, avail = 100\<rparr> = Inr h' \<and>
    cudaMemcpy3D_DeviceToHost (heap_device 16) (Ptr 0 0) (c3_pp demo_buffer3)
      (box_bytes 4 (Arr3 1 0 0)) (box_bytes 4 (Arr3 1 2 1))
      \<lparr>blocks = [0 \<mapsto> replicate 8 None], fresh = 1, avail = 100\<rparr>
      \<lparr>blocks = [0 \<mapsto> demo_bytes], fresh = 1, avail = 100\<rparr> = Inr h'"
proof -
  let ?h = "\<lparr>blocks = [0 \<mapsto> replicate 8 None], fresh = 1, avail = 100\<rparr> :: heap"
  let ?d = "\<lparr>blocks = [0 \<mapsto> demo_bytes], fresh = 1, avail = 100\<rparr> :: heap"
  have d: "live ?d 0 = Some demo_bytes" by (simp add: live_def)
  have fits: "copy_fits 4 3 (Arr3 2 2 1) (Arr3 1 0 0) (Arr3 1 2 1)"
    by (simp add: copy_fits_def box_in_def all_less_num accumulate_num)
  have z: "\<forall>i < 3. 0 < at (Arr3 1 2 1 :: idx) i" "at (Arr3 1 2 1 :: idx) 0 < 4 \<or> at (Arr3 1 2 1 :: idx) 1 < 4" by (simp_all add: all_less_num)
  have k: "kernel_fits 4 (pp_pitch (c3_pp demo_buffer3)) (Arr3 1 2 1)" by (simp add: kernel_fits_def demo_buffer3_def all_less_num)
  have sched: "any_order rev" by (simp add: any_order_def)
  have p: "buf_ptr demo_mapped = Ptr 0 0" "cm_dev_ptr demo_mapped = cuHostDevPtr (heap_device 16) (buf_ptr demo_mapped)"
    by (simp_all add: demo_mapped_def heap_device_def)
  have h: "blocks ?h 0 = Some (replicate 8 None)" "nat (accumulate (Arr3 1 2 1) 3) * 4 \<le> length (replicate 8 None)"
    by (simp_all add: accumulate_num)
  show ?thesis
    using copy_kernel_matches_library[OF heap_dev.cuda_memory_axioms demo_pitched d fits z k sched p h] p(1) by auto
qed

end
