(* ===== verification/Ref_Runtime.thy ===== *)
theory Ref_Runtime imports Space_Partition begin

text \<open>
  The reference run-time library: one process, grids as C arrays
  (\<open>include/physis/physis_ref.h\<close>, \<open>runtime/reference_runtime.cc\<close>). The memory of a
  \<open>__PSGrid\<close> is allocated and counted; its fields are a record.
\<close>

subsection \<open>Grids\<close>

record psgrid =
  pg_elm_size :: nat
  pg_num_dims :: nat
  pg_num_elms :: int
  pg_dim :: idx
  pg_p0 :: ptr
  pg_p1 :: ptr

definition sizeof_PSGrid :: nat where
  "sizeof_PSGrid = 48"

definition PSGrid_num_elms :: "nat \<Rightarrow> idx \<Rightarrow> int" where
  "PSGrid_num_elms num_dims dim = fold (\<lambda>i n. n * at dim i) [0..<num_dims] 1"

text \<open>\<open>None\<close> is \<open>INVALID_GRID\<close>; the result of the first \<open>malloc\<close> is used without a check.\<close>

definition Ref_PSGridNew :: "nat \<Rightarrow> nat \<Rightarrow> idx \<Rightarrow> bool \<Rightarrow> heap \<Rightarrow> fault + (psgrid option \<times> heap)" where
  "Ref_PSGridNew elm_size num_dims dim double_buffering h =
     (let (g, h) = malloc sizeof_PSGrid h
      in if g = Null then Inl NullPointer
         else let n = PSGrid_num_elms num_dims dim;
                  (p0, h) = calloc (to_size n) elm_size h
              in if p0 = Null then Inr (None, h)
                 else let (p1, h) = (if double_buffering then calloc (to_size n) elm_size h else (p0, h))
                      in if p1 = Null then Inr (None, h)
                         else Inr (Some \<lparr>pg_elm_size = elm_size, pg_num_dims = num_dims, pg_num_elms = n,
                                pg_dim = dim, pg_p0 = p0, pg_p1 = p1\<rparr>, h))"

definition Ref_PSGridFree :: "psgrid \<Rightarrow> heap \<Rightarrow> fault + (psgrid \<times> heap)" where
  "Ref_PSGridFree g h =
     bindE (if pg_p0 g \<noteq> Null then free (pg_p0 g) h else Inr h) (\<lambda>h.
     bindE (if pg_p0 g \<noteq> pg_p1 g \<and> pg_p1 g \<noteq> Null then free (pg_p1 g) h else Inr h) (\<lambda>h.
       Inr (g\<lparr>pg_p0 := Null, pg_p1 := Null\<rparr>, h)))"

definition PSGrid_bytes :: "psgrid \<Rightarrow> nat" where
  "PSGrid_bytes g = to_size (int (pg_elm_size g) * pg_num_elms g)"

definition Ref_PSGridCopyin :: "psgrid \<Rightarrow> ptr \<Rightarrow> heap \<Rightarrow> fault + heap" where
  "Ref_PSGridCopyin g src_array h = memcpy (pg_p0 g) src_array (PSGrid_bytes g) h"

definition Ref_PSGridCopyout :: "psgrid \<Rightarrow> ptr \<Rightarrow> heap \<Rightarrow> fault + heap" where
  "Ref_PSGridCopyout g dst_array h = memcpy dst_array (pg_p0 g) (PSGrid_bytes g) h"

definition Ref_PSGridSwap :: "psgrid \<Rightarrow> psgrid" where
  "Ref_PSGridSwap g = g\<lparr>pg_p1 := pg_p0 g, pg_p0 := pg_p1 g\<rparr>"

definition Ref_PSGridMirror :: "psgrid \<Rightarrow> heap \<Rightarrow> fault + heap" where
  "Ref_PSGridMirror g h =
     (if pg_p0 g \<noteq> pg_p1 g then memcpy (pg_p1 g) (pg_p0 g) (PSGrid_bytes g) h else Inr h)"

definition Ref_PSGridGetID :: "psgrid \<Rightarrow> int" where
  "Ref_PSGridGetID g = 0"

subsection \<open>Elements\<close>

text \<open>The indices are variable arguments: a list, and reading past its end is a fault.\<close>

definition set_offset :: "nat \<Rightarrow> idx \<Rightarrow> int list \<Rightarrow> fault + (int \<times> int)" where
  "set_offset nd dim idxs =
     foldE (\<lambda>i (offset, base_offset).
       bindE (array_get idxs (int i)) (\<lambda>x.
         Inr (offset + x * base_offset, base_offset * at dim i))) [0..<nd] (0, 1)"

definition Ref_PSGridSet :: "psgrid \<Rightarrow> ptr \<Rightarrow> int list \<Rightarrow> heap \<Rightarrow> fault + heap" where
  "Ref_PSGridSet g buf idxs h =
     bindE (set_offset (pg_num_dims g) (pg_dim g) idxs) (\<lambda>(offset, _).
       memcpy (ptr_add (pg_p0 g) (offset * int (pg_elm_size g))) buf (pg_elm_size g) h)"

definition PSGridGetOffset1D :: "psgrid \<Rightarrow> int \<Rightarrow> int" where
  "PSGridGetOffset1D g i1 = i1"

definition PSGridGetOffset2D :: "psgrid \<Rightarrow> int \<Rightarrow> int \<Rightarrow> int" where
  "PSGridGetOffset2D g i1 i2 = i1 + i2 * at (pg_dim g) 0"

definition PSGridGetOffset3D :: "psgrid \<Rightarrow> int \<Rightarrow> int \<Rightarrow> int \<Rightarrow> int" where
  "PSGridGetOffset3D g i1 i2 i3 =
     i1 + i2 * at (pg_dim g) 0 + i3 * at (pg_dim g) 0 * at (pg_dim g) 1"

text \<open>The remainder is that of C: it has the sign of the dividend.\<close>

definition PSGridGetOffsetPeriodic1D :: "psgrid \<Rightarrow> int \<Rightarrow> fault + int" where
  "PSGridGetOffsetPeriodic1D g i1 = c_mod (i1 + at (pg_dim g) 0) (at (pg_dim g) 0)"

definition PSGridGetOffsetPeriodic2D :: "psgrid \<Rightarrow> int \<Rightarrow> int \<Rightarrow> fault + int" where
  "PSGridGetOffsetPeriodic2D g i1 i2 =
     bindE (PSGridGetOffsetPeriodic1D g i1) (\<lambda>o1.
     bindE (c_mod (i2 + at (pg_dim g) 1) (at (pg_dim g) 1)) (\<lambda>r.
       Inr (o1 + r * at (pg_dim g) 0)))"

definition PSGridGetOffsetPeriodic3D :: "psgrid \<Rightarrow> int \<Rightarrow> int \<Rightarrow> int \<Rightarrow> fault + int" where
  "PSGridGetOffsetPeriodic3D g i1 i2 i3 =
     bindE (PSGridGetOffsetPeriodic2D g i1 i2) (\<lambda>o2.
     bindE (c_mod (i3 + at (pg_dim g) 2) (at (pg_dim g) 2)) (\<lambda>r.
       Inr (o2 + r * at (pg_dim g) 0 * at (pg_dim g) 1)))"

subsection \<open>Reductions\<close>

text \<open>The first element is read whatever the size of the grid is.\<close>

definition PSReduceGridTemplate ::
    "nat \<Rightarrow> (cell list \<Rightarrow> 'a::{ord,plus,times}) \<Rightarrow> ('a \<Rightarrow> cell list) \<Rightarrow>
      ptr \<Rightarrow> PSReduceOp \<Rightarrow> psgrid \<Rightarrow> heap \<Rightarrow> fault + heap" where
  "PSReduceGridTemplate tsize dec enc buf op g h =
     bindE (GetReducer op) (\<lambda>func.
       let n = nat (max 1 (pg_num_elms g))
       in bindE (load (pg_p0 g) (n * tsize) h) (\<lambda>cs.
          bindE (reduce_loop func (elements dec tsize cs n)) (\<lambda>v. store buf (enc v) h)))"

definition Ref_PSReduceGridFloat ::
    "(cell list \<Rightarrow> 'f::{ord,plus,times}) \<Rightarrow> ('f \<Rightarrow> cell list) \<Rightarrow> ptr \<Rightarrow> PSReduceOp \<Rightarrow> psgrid \<Rightarrow> heap \<Rightarrow> fault + heap" where
  "Ref_PSReduceGridFloat dec enc = PSReduceGridTemplate 4 dec enc"

definition Ref_PSReduceGridDouble ::
    "(cell list \<Rightarrow> 'd::{ord,plus,times}) \<Rightarrow> ('d \<Rightarrow> cell list) \<Rightarrow> ptr \<Rightarrow> PSReduceOp \<Rightarrow> psgrid \<Rightarrow> heap \<Rightarrow> fault + heap" where
  "Ref_PSReduceGridDouble dec enc = PSReduceGridTemplate 8 dec enc"

subsection \<open>Offsets\<close>

fun idx_of :: "int list \<Rightarrow> idx" where
  "idx_of [x] = Arr3 x 0 0"
| "idx_of [x, y] = Arr3 x y 0"
| "idx_of [x, y, z] = Arr3 x y z"
| "idx_of _ = Arr3 0 0 0"

lemma length_1_3_cases:
  assumes "length xs = n" "1 \<le> n" "n \<le> 3"
  obtains x where "xs = [x]" | x y where "xs = [x, y]" | x y z where "xs = [x, y, z]"
proof -
  consider "n = 1" | "n = 2" | "n = 3" using assms(2,3) by linarith
  then show ?thesis using assms(1) that
    by cases (auto simp: length_Suc_conv numeral_2_eq_2 numeral_3_eq_3)
qed

lemma at_idx_of:
  assumes "1 \<le> length idxs" "length idxs \<le> 3" "i < length idxs"
  shows "at (idx_of idxs) i = idxs ! i"
  using length_1_3_cases[OF refl assms(1,2)] assms(3)
  by cases (auto simp: at.simps less_Suc_eq numeral_2_eq_2 numeral_3_eq_3)

lemma set_offset_prefix:
  assumes "1 \<le> length idxs" "length idxs \<le> 3" "n \<le> length idxs"
  shows "set_offset n dim idxs = Inr (lin n (idx_of idxs) dim, accumulate dim n)"
  using assms(3)
proof (induction n)
  case 0
  then show ?case by (simp add: set_offset_def)
next
  case (Suc n)
  then have n: "n < length idxs" by simp
  have "set_offset (Suc n) dim idxs = bindE (set_offset n dim idxs) (\<lambda>(offset, base_offset).
      bindE (array_get idxs (int n)) (\<lambda>x. Inr (offset + x * base_offset, base_offset * at dim n)))"
    by (simp add: set_offset_def foldE_append) (simp add: bindE_def split_def split: sum.splits)
  with Suc n show ?case by (simp add: array_get_def at_idx_of[OF assms(1,2)])
qed

text \<open>A grid of \<open>pg_dim\<close> points whose current data are a whole live block.\<close>

definition psgrid_ok :: "psgrid \<Rightarrow> nat \<Rightarrow> heap \<Rightarrow> bool" where
  "psgrid_ok g blk h \<longleftrightarrow> 1 \<le> pg_num_dims g \<and> pg_num_dims g \<le> 3 \<and> pg_p0 g = Ptr blk 0 \<and>
     (\<exists>D. blocks h blk = Some D \<and>
        nat (accumulate (pg_dim g) (pg_num_dims g)) * pg_elm_size g \<le> length D)"

definition indices_ok :: "psgrid \<Rightarrow> int list \<Rightarrow> bool" where
  "indices_ok g idxs \<longleftrightarrow> length idxs = pg_num_dims g \<and>
     (\<forall>i < length idxs. 0 \<le> idxs ! i \<and> idxs ! i < at (pg_dim g) i)"

definition psgrid_offset :: "psgrid \<Rightarrow> int list \<Rightarrow> int" where
  "psgrid_offset g idxs =
     (case idxs of
        [i1] \<Rightarrow> PSGridGetOffset1D g i1
      | [i1, i2] \<Rightarrow> PSGridGetOffset2D g i1 i2
      | [i1, i2, i3] \<Rightarrow> PSGridGetOffset3D g i1 i2 i3
      | _ \<Rightarrow> 0)"

definition psgrid_elem :: "psgrid \<Rightarrow> heap \<Rightarrow> int list \<Rightarrow> cell list" where
  "psgrid_elem g h idxs = elem (pg_elm_size g) (the (contents h (pg_p0 g))) (nat (psgrid_offset g idxs))"

lemma psgrid_offset_lin:
  assumes "length idxs = pg_num_dims g" "1 \<le> pg_num_dims g" "pg_num_dims g \<le> 3"
  shows "psgrid_offset g idxs = lin (pg_num_dims g) (idx_of idxs) (pg_dim g)"
proof -
  have num: "lin (Suc 0) p s = at p 0" "lin (Suc (Suc 0)) p s = at p 0 + at p 1 * at s 0"
    "lin (Suc (Suc (Suc 0))) p s = at p 0 + at p 1 * at s 0 + at p 2 * (at s 0 * at s 1)" for p s
    by (simp_all add: numeral_2_eq_2)
  from assms(2,3) show ?thesis
    by (elim length_1_3_cases[OF assms(1)]) (simp_all add: at.simps psgrid_offset_def PSGridGetOffset1D_def PSGridGetOffset2D_def
        PSGridGetOffset3D_def num flip: assms(1))
qed

lemma indices_in_box:
  assumes "indices_ok g idxs" "psgrid_ok g blk h"
  shows "in_box (pg_num_dims g) (idx_of idxs) (pg_dim g)"
  using assms by (auto simp: indices_ok_def in_box_def psgrid_ok_def at_idx_of)

lemma psgrid_offset_bounds:
  assumes "indices_ok g idxs" "psgrid_ok g blk h"
  shows "0 \<le> psgrid_offset g idxs"
    "psgrid_offset g idxs < accumulate (pg_dim g) (pg_num_dims g)"
  using lin_bounds[OF indices_in_box[OF assms]] psgrid_offset_lin[of idxs g] assms
  by (auto simp: indices_ok_def psgrid_ok_def)

lemma psgrid_offset_inj:
  assumes "indices_ok g xs" "indices_ok g ys" "psgrid_ok g blk h" "psgrid_offset g xs = psgrid_offset g ys"
  shows "xs = ys"
proof (rule nth_equalityI)
  show len: "length xs = length ys" using assms by (simp add: indices_ok_def)
  fix i assume i: "i < length xs"
  have "lin (pg_num_dims g) (idx_of xs) (pg_dim g) = lin (pg_num_dims g) (idx_of ys) (pg_dim g)"
    using assms psgrid_offset_lin[of xs g] psgrid_offset_lin[of ys g]
    by (simp add: indices_ok_def psgrid_ok_def)
  from lin_inj[OF indices_in_box[OF assms(1,3)] indices_in_box[OF assms(2,3)] this, of i]
  have "at (idx_of xs) i = at (idx_of ys) i" using i assms by (simp add: indices_ok_def)
  then show "xs ! i = ys ! i"
    using i len assms by (simp add: at_idx_of indices_ok_def psgrid_ok_def)
qed

subsection \<open>Setting elements\<close>

definition ref_client_Set :: "psgrid \<Rightarrow> nat \<Rightarrow> int list \<Rightarrow> cell list \<Rightarrow> heap \<Rightarrow> fault + heap" where
  "ref_client_Set g c idxs v h = bindE (store (Ptr c 0) v h) (Ref_PSGridSet g (Ptr c 0) idxs)"

definition ref_usable :: "psgrid \<Rightarrow> nat \<Rightarrow> nat \<Rightarrow> heap \<Rightarrow> bool" where
  "ref_usable g blk c h \<longleftrightarrow> psgrid_ok g blk h \<and> c \<noteq> blk \<and>
     (\<exists>v. blocks h c = Some v \<and> length v = pg_elm_size g)"

lemma ref_client_Set_ok:
  assumes u: "ref_usable g blk c h" and i: "indices_ok g idxs" and v: "length v = pg_elm_size g"
  shows "\<exists>h'. ref_client_Set g c idxs v h = Inr h' \<and> ref_usable g blk c h' \<and> psgrid_elem g h' idxs = v \<and>
    (\<forall>js. indices_ok g js \<longrightarrow> js \<noteq> idxs \<longrightarrow> psgrid_elem g h' js = psgrid_elem g h js)"
proof -
  let ?e = "pg_elm_size g" and ?N = "nat (accumulate (pg_dim g) (pg_num_dims g))"
  let ?k = "\<lambda>js. nat (psgrid_offset g js)"
  obtain D w where ok: "psgrid_ok g blk h" and D: "blocks h blk = Some D" "?N * ?e \<le> length D"
    and p0: "pg_p0 g = Ptr blk 0" and cb: "c \<noteq> blk" and w: "blocks h c = Some w" "length w = ?e"
    using u by (auto simp: ref_usable_def psgrid_ok_def)
  have less: "?k js < ?N" if "indices_ok g js" for js
    using psgrid_offset_bounds[OF that ok] by simp
  note bnd = elem_bound[OF less[OF i] D(2)]
  let ?h1 = "h\<lparr>blocks := (blocks h)(c \<mapsto> v)\<rparr>"
  let ?D = "list_write D (?k idxs * ?e) v"
  let ?h2 = "?h1\<lparr>blocks := (blocks ?h1)(blk \<mapsto> ?D)\<rparr>"
  have st: "store (Ptr c 0) v h = Inr ?h1" using w v by (simp add: list_write_def)
  have off: "set_offset (pg_num_dims g) (pg_dim g) idxs =
      Inr (psgrid_offset g idxs, accumulate (pg_dim g) (pg_num_dims g))"
    using set_offset_prefix[of idxs "pg_num_dims g"] psgrid_offset_lin[of idxs g] i ok
    by (simp add: indices_ok_def psgrid_ok_def)
  have "memcpy (Ptr blk (int (?k idxs * ?e))) (Ptr c (int 0)) ?e ?h1 = Inr ?h2"
    using memcpy_blocks[of blk c ?h1 v D 0 ?e "?k idxs * ?e"] D(1) v bnd cb by simp
  then have set: "ref_client_Set g c idxs v h = Inr ?h2"
    unfolding ref_client_Set_def Ref_PSGridSet_def st off
    using psgrid_offset_bounds(1)[OF i ok] by (simp add: p0)
  have el: "psgrid_elem g ?h2 js = (if ?k js = ?k idxs then v else psgrid_elem g h js)"
    if "indices_ok g js" for js
    using elem_list_write[OF less[OF i] less[OF that] D(2) v] D(1) by (simp add: psgrid_elem_def contents_def p0)
  have "?k js \<noteq> ?k idxs" if "indices_ok g js" "js \<noteq> idxs" for js
    using psgrid_offset_inj[OF that(1) i ok] psgrid_offset_bounds(1)[OF that(1) ok]
      psgrid_offset_bounds(1)[OF i ok] that(2) by (metis eq_nat_nat_iff)
  moreover have "ref_usable g blk c ?h2"
    using u D v bnd cb by (auto simp: ref_usable_def psgrid_ok_def)
  ultimately show ?thesis using set el i by auto
qed

interpretation ref_cells: cell_store "ref_usable g blk c" "indices_ok g"
    "\<lambda>v. length v = pg_elm_size g" "psgrid_elem g" "ref_client_Set g c" for g blk c
  by unfold_locales (rule ref_client_Set_ok)

subsection \<open>Creating, copying and freeing\<close>

lemma PSGrid_num_elms_accumulate: "PSGrid_num_elms n dim = accumulate dim n"
  by (simp add: PSGrid_num_elms_def accumulate_def)

text \<open>The current and the next data of a grid are whole blocks, possibly the same one.\<close>

definition psgrid_data :: "psgrid \<Rightarrow> nat \<Rightarrow> nat \<Rightarrow> cell list \<Rightarrow> cell list \<Rightarrow> heap \<Rightarrow> bool" where
  "psgrid_data g b0 b1 D0 D1 h \<longleftrightarrow> pg_p0 g = Ptr b0 0 \<and> pg_p1 g = Ptr b1 0 \<and>
     blocks h b0 = Some D0 \<and> blocks h b1 = Some D1 \<and>
     length D0 = PSGrid_bytes g \<and> length D1 = PSGrid_bytes g"

lemma Ref_PSGridNew_ok:
  assumes h: "heap_ok h" and dim: "\<forall>i < n. 0 \<le> at dim i" and e: "0 < e"
    and sz: "accumulate dim n * int e < 2 ^ 64" and N: "N = nat (accumulate dim n) * e"
    and room: "sizeof_PSGrid + (if db then 2 else 1) * N \<le> avail h"
  shows "\<exists>g h1. Ref_PSGridNew e n dim db h = Inr (Some g, h1) \<and> PSGrid_bytes g = N \<and>
    psgrid_data g (Suc (fresh h)) (if db then fresh h + 2 else Suc (fresh h)) (replicate N (Some 0)) (replicate N (Some 0)) h1 \<and>
    (\<forall>b. b < fresh h \<longrightarrow> blocks h1 b = blocks h b) \<and> (\<forall>b. fresh h + 2 < b \<longrightarrow> blocks h1 b = None) \<and>
    (\<not> db \<longrightarrow> blocks h1 (fresh h + 2) = None) \<and> blocks h1 (fresh h) \<noteq> None \<and>
    avail h1 + sizeof_PSGrid + (if db then 2 else 1) * N = avail h"
proof -
  have pos: "0 \<le> accumulate dim n" using dim by (simp add: accumulate_nonneg)
  have "accumulate dim n \<le> accumulate dim n * int e" using pos e by (simp add: mult_le_cancel_left1)
  then have "accumulate dim n < 2 ^ 64" using sz by simp
  then have ts: "to_size (accumulate dim n) = nat (accumulate dim n)" using pos by simp
  have bytes: "to_size (int e * accumulate dim n) = N"
    using pos sz N by (simp add: mult.commute nat_mult_distrib)
  from h have none: "blocks h b = None" if "fresh h < b" for b using that by (simp add: heap_ok_def)
  show ?thesis
  proof (cases db)
    case False
    with room N show ?thesis
      by (auto simp: Ref_PSGridNew_def malloc_def calloc_def alloc_def PSGrid_num_elms_accumulate ts Let_def
          psgrid_data_def PSGrid_bytes_def bytes none)
  next
    case True
    with room N show ?thesis
      by (auto simp: Ref_PSGridNew_def malloc_def calloc_def alloc_def PSGrid_num_elms_accumulate ts Let_def
          psgrid_data_def PSGrid_bytes_def bytes none numeral_2_eq_2)
  qed
qed

lemma psgrid_bytes_Swap [simp]: "PSGrid_bytes (Ref_PSGridSwap g) = PSGrid_bytes g"
  by (simp add: PSGrid_bytes_def Ref_PSGridSwap_def)

lemma Ref_PSGridFree_ok:
  assumes "psgrid_data g b0 b1 D0 D1 h"
  shows "\<exists>g' h'. Ref_PSGridFree g h = Inr (g', h') \<and> pg_p0 g' = Null \<and> pg_p1 g' = Null \<and>
    blocks h' = (blocks h)(b0 := None, b1 := None) \<and>
    avail h' = avail h + (if b0 = b1 then 1 else 2) * PSGrid_bytes g"
  using assms by (auto simp: Ref_PSGridFree_def psgrid_data_def)

lemma copyin_mirror_swap_copyout:
  assumes d: "psgrid_data g b0 b1 D0 D1 h"
    and A: "blocks h u = Some A" "length A = PSGrid_bytes g"
    and V: "blocks h v = Some V" "length V = PSGrid_bytes g"
    and ne: "u \<notin> {b0, b1}" "v \<notin> {b0, b1}"
  shows "\<exists>h1 h2 h3. Ref_PSGridCopyin g (Ptr u 0) h = Inr h1 \<and> Ref_PSGridMirror g h1 = Inr h2 \<and>
    Ref_PSGridCopyout (Ref_PSGridSwap g) (Ptr v 0) h2 = Inr h3 \<and>
    blocks h3 = (blocks h)(b0 \<mapsto> A, b1 \<mapsto> A, v \<mapsto> A) \<and> avail h3 = avail h"
proof -
  let ?n = "PSGrid_bytes g"
  note copy = memcpy_blocks[where i = 0 and j = 0 and n = ?n, simplified]
  let ?h1 = "h\<lparr>blocks := (blocks h)(b0 \<mapsto> A)\<rparr>"
  have all: "list_write D 0 B = B" if "length B = ?n" "length D = ?n" for B D :: "cell list"
    using that by (simp add: list_write_def)
  have h1: "Ref_PSGridCopyin g (Ptr u 0) h = Inr ?h1"
    using copy[of b0 u h A D0] d A ne by (simp add: Ref_PSGridCopyin_def psgrid_data_def all)
  let ?h2 = "h\<lparr>blocks := (blocks h)(b0 \<mapsto> A, b1 \<mapsto> A)\<rparr>"
  have h2: "Ref_PSGridMirror g ?h1 = Inr ?h2"
  proof (cases "b0 = b1")
    case True
    then show ?thesis using d by (simp add: Ref_PSGridMirror_def psgrid_data_def)
  next
    case False
    then show ?thesis using copy[of b1 b0 ?h1 A D1] d A
      by (simp add: Ref_PSGridMirror_def psgrid_data_def all)
  qed
  have "Ref_PSGridCopyout (Ref_PSGridSwap g) (Ptr v 0) ?h2 =
      Inr (?h2\<lparr>blocks := (blocks ?h2)(v \<mapsto> A)\<rparr>)"
    using copy[of v b1 ?h2 A V] d A V ne
    by (simp add: Ref_PSGridCopyout_def psgrid_data_def all) (simp add: Ref_PSGridSwap_def psgrid_data_def)
  with h1 h2 show ?thesis by simp
qed

subsection \<open>Periodic offsets\<close>

text \<open>One period is added before the C remainder, which is enough down to one period below zero.\<close>

lemma c_mod_wrap: "0 < d \<Longrightarrow> - d \<le> i \<Longrightarrow> c_mod (i + d) d = Inr (i mod d)"
  by (auto simp: c_mod_def signed_modulo_int_def sgn_if abs_if add_eq_0_iff2)

lemma c_mod_below: "0 < d \<Longrightarrow> i = - d - 1 \<Longrightarrow> 1 < d \<Longrightarrow> c_mod (i + d) d = Inr (- 1)"
  by (simp add: c_mod_def signed_modulo_int_def sgn_if abs_if)

subsection \<open>Properties\<close>


definition demo_ref_heap :: heap where
  "demo_ref_heap = \<lparr>blocks = [0 \<mapsto> replicate 6 (Some 1), 1 \<mapsto> replicate 6 None, 2 \<mapsto> [None]],
     fresh = 3, avail = 100\<rparr>"

lemma demo_ref_heap_ok: "heap_ok demo_ref_heap"
  by (auto simp: heap_ok_def demo_ref_heap_def)


text \<open>C21: After any sequence of \<open>__PSGridSet\<close> calls at indices inside a grid of the reference
  run-time, the element at the offset that the accessor \<open>__PSGridGetOffset1D\<close>, \<open>2D\<close> or
  \<open>3D\<close> of its dimension computes is the last value set at these indices, or what it was.\<close>

theorem ref_Set_sequence:
  assumes "ref_usable g blk c h"
    and "\<forall>(is, v) \<in> set isvs. indices_ok g is \<and> length v = pg_elm_size g" and "indices_ok g js"
  shows "\<exists>h'. foldE (\<lambda>(is, v). ref_client_Set g c is v) isvs h = Inr h' \<and>
    load (ptr_add (pg_p0 g) (psgrid_offset g js * int (pg_elm_size g))) (pg_elm_size g) h' =
      Inr (case map_of (rev isvs) js of None \<Rightarrow> psgrid_elem g h js | Some v \<Rightarrow> v)"
proof -
  obtain h' where h': "foldE (\<lambda>(is, v). ref_client_Set g c is v) isvs h = Inr h'" "ref_usable g blk c h'"
      "psgrid_elem g h' js = (case map_of (rev isvs) js of None \<Rightarrow> psgrid_elem g h js | Some v \<Rightarrow> v)"
    using ref_cells.writes_ok[OF assms(1,2)] assms(3) by blast
  let ?e = "pg_elm_size g" and ?k = "nat (psgrid_offset g js)"
  obtain D where ok: "psgrid_ok g blk h'" and D: "pg_p0 g = Ptr blk 0" "blocks h' blk = Some D"
      "nat (accumulate (pg_dim g) (pg_num_dims g)) * ?e \<le> length D"
    using h'(2) by (auto simp: ref_usable_def psgrid_ok_def)
  have "?k * ?e + ?e \<le> length D"
    using elem_bound[OF _ D(3), of ?k] psgrid_offset_bounds[OF assms(3) ok] by simp
  then have "load (Ptr blk (int (?k * ?e))) ?e h' = Inr (psgrid_elem g h' js)"
    using load_block[OF D(2), of "?k * ?e" ?e] D by (simp add: psgrid_elem_def contents_def elem_def)
  then show ?thesis
    using h' D(1) psgrid_offset_bounds(1)[OF assms(3) ok] by simp
qed

definition demo_psgrid :: psgrid where
  "demo_psgrid = \<lparr>pg_elm_size = 1, pg_num_dims = 2, pg_num_elms = 6, pg_dim = Arr3 2 3 0,
     pg_p0 = Ptr 0 0, pg_p1 = Ptr 0 0\<rparr>"

theorem ref_Set_sequence_witness:
  "\<exists>h'. foldE (\<lambda>(is, v). ref_client_Set demo_psgrid 2 is v) [([1, 2], [Some 5]), ([0, 1], [Some 6])] demo_ref_heap = Inr h' \<and>
     load (Ptr 0 5) 1 h' = Inr [Some 5]"
proof -
  have ok: "indices_ok demo_psgrid [x, y]" if "x \<in> {0, 1}" "y \<in> {0, 1, 2}" for x y
    using that by (auto simp: indices_ok_def demo_psgrid_def less_Suc_eq numeral_2_eq_2)
  have u: "ref_usable demo_psgrid 0 2 demo_ref_heap"
    by (simp add: ref_usable_def psgrid_ok_def demo_psgrid_def demo_ref_heap_def accumulate_num)
  have v: "\<forall>(is, v) \<in> set [([1, 2], [Some 5]), ([0, 1], [Some 6])].
      indices_ok demo_psgrid is \<and> length v = pg_elm_size demo_psgrid"
    using ok by (simp add: demo_psgrid_def)
  from ref_Set_sequence[OF u v ok[of 1 2]] show ?thesis
    by (simp add: demo_psgrid_def psgrid_offset_def PSGridGetOffset2D_def)
qed

text \<open>The periodic accessors of the reference run-time address the element whose indices
  are the given ones modulo the extents, for all indices from one period below the grid on:
  they return the offset of the plain accessor at these indices.\<close>

theorem periodic_offset_wraps:
  assumes "\<forall>i < 3. 0 < at (pg_dim g) i" and "- at (pg_dim g) 0 \<le> i1" "- at (pg_dim g) 1 \<le> i2" "- at (pg_dim g) 2 \<le> i3"
  shows "PSGridGetOffsetPeriodic3D g i1 i2 i3 =
      Inr (PSGridGetOffset3D g (i1 mod at (pg_dim g) 0) (i2 mod at (pg_dim g) 1) (i3 mod at (pg_dim g) 2)) \<and>
    PSGridGetOffsetPeriodic2D g i1 i2 =
      Inr (PSGridGetOffset2D g (i1 mod at (pg_dim g) 0) (i2 mod at (pg_dim g) 1)) \<and>
    PSGridGetOffsetPeriodic1D g i1 = Inr (PSGridGetOffset1D g (i1 mod at (pg_dim g) 0))"
  using assms c_mod_wrap[of "at (pg_dim g) 0" i1] c_mod_wrap[of "at (pg_dim g) 1" i2] c_mod_wrap[of "at (pg_dim g) 2" i3]
  by (simp add: PSGridGetOffsetPeriodic3D_def PSGridGetOffsetPeriodic2D_def all_less_num
      PSGridGetOffsetPeriodic1D_def PSGridGetOffset1D_def PSGridGetOffset2D_def PSGridGetOffset3D_def)

theorem periodic_offset_wraps_witness:
  "PSGridGetOffsetPeriodic3D (demo_psgrid\<lparr>pg_dim := Arr3 4 5 6\<rparr>) (- 1) 5 (- 6) = Inr 3"
  using periodic_offset_wraps[of "demo_psgrid\<lparr>pg_dim := Arr3 4 5 6\<rparr>" "- 1" 5 "- 6"]
  by (simp add: all_less_num PSGridGetOffset3D_def)

end
