(* ===== verification/Cuda_Runtime.thy ===== *)
theory Cuda_Runtime imports Ref_Runtime Domain Runtime_Common Cuda_Memory begin

text \<open>
  The run-time library for one GPU: \<open>runtime/cuda_runtime.cc\<close>, \<open>reduce_cuda.h\<close>,
  \<open>reduce_cuda.cu\<close>, \<open>runtime_common_cuda.h\<close> and \<open>include/physis/physis_cuda.h\<close>. The data of
  a grid are in device memory; its structure and the descriptor that kernels get are on the
  host. \<open>adb\<close> says whether \<open>AUTO_DOUBLE_BUFFERING\<close> is defined; the build leaves it undefined,
  and then the field \<open>p1\<close> of the two structures does not exist (here it stays \<open>Null\<close>).
\<close>

subsection \<open>Grids\<close>

record psgrid_dev =
  dv_p0 :: ptr
  dv_p1 :: ptr
  dv_dim :: "int list"

record cgrid =
  cg_p0 :: ptr
  cg_p1 :: ptr
  cg_dim :: idx
  cg_elm_size :: nat
  cg_num_dims :: nat
  cg_num_elms :: int
  cg_dev :: psgrid_dev

definition sizeof_cgrid :: "bool \<Rightarrow> nat" where
  "sizeof_cgrid adb = (if adb then 56 else 48)"

definition sizeof_psgrid_dev :: "bool \<Rightarrow> nat \<Rightarrow> nat" where
  "sizeof_psgrid_dev adb n = (if adb then 16 else 8) + (if n = 3 then 16 else 8)"

text \<open>
  The \<open>switch\<close> that builds the descriptor. It stores \<open>p1\<close> through a pointer to the
  one-dimensional structure, in which the field has the same place.
\<close>

definition cuda_dev_new :: "bool \<Rightarrow> nat \<Rightarrow> idx \<Rightarrow> ptr \<Rightarrow> ptr \<Rightarrow> heap \<Rightarrow> fault + (psgrid_dev \<times> heap)" where
  "cuda_dev_new adb n dim p0 p1 h =
     (if n = 1 \<or> n = 2 \<or> n = 3
      then let (q, h) = malloc (sizeof_psgrid_dev adb n) h
           in if q = Null then Inl NullPointer
              else Inr (\<lparr>dv_p0 = p0, dv_p1 = (if adb then p1 else Null), dv_dim = map (at dim) [0..<n]\<rparr>, h)
      else Inl (Aborted 1))"

text \<open>The second buffer; \<open>None\<close> is the return of \<open>INVALID_GRID\<close>.\<close>

definition cuda_second_buffer :: "'d cuda_lib \<Rightarrow> bool \<Rightarrow> bool \<Rightarrow> ptr \<Rightarrow> nat \<Rightarrow> 'd \<Rightarrow> fault + (ptr option \<times> 'd)" where
  "cuda_second_buffer cu adb double_buffering p0 bytes d =
     (if \<not> adb then bindE (assertE (\<not> double_buffering)) (\<lambda>_. Inr (Some Null, d))
      else if double_buffering
      then bindE (cuMalloc cu bytes d) (\<lambda>(p1, d).
             if p1 = Null then Inr (None, d)
             else bindE (cuMemset cu p1 0 bytes d) (\<lambda>d. Inr (Some p1, d)))
      else Inr (Some p0, d))"

definition Cuda_PSGridNew ::
    "'d cuda_lib \<Rightarrow> bool \<Rightarrow> nat \<Rightarrow> nat \<Rightarrow> idx \<Rightarrow> bool \<Rightarrow> heap \<Rightarrow> 'd \<Rightarrow> fault + (cgrid option \<times> heap \<times> 'd)" where
  "Cuda_PSGridNew cu adb elm_size num_dims dim double_buffering h d =
     (let (g, h) = malloc (sizeof_cgrid adb) h
      in if g = Null then Inl NullPointer
         else let num_elms = PSGrid_num_elms num_dims dim;
                  bytes = to_size (num_elms * int elm_size)
         in bindE (cuMalloc cu bytes d) (\<lambda>(p0, d).
            if p0 = Null then Inr (None, h, d)
            else bindE (cuMemset cu p0 0 bytes d) (\<lambda>d.
                 bindE (cuda_second_buffer cu adb double_buffering p0 bytes d) (\<lambda>(r, d).
                 case r of None \<Rightarrow> Inr (None, h, d)
                 | Some p1 \<Rightarrow>
                     bindE (cuda_dev_new adb num_dims dim p0 p1 h) (\<lambda>(dev, h).
                     Inr (Some \<lparr>cg_p0 = p0, cg_p1 = p1, cg_dim = dim, cg_elm_size = elm_size,
                       cg_num_dims = num_dims, cg_num_elms = num_elms, cg_dev = dev\<rparr>, h, d))))))"

text \<open>Neither the structure nor its descriptor is freed.\<close>

definition Cuda_PSGridFree :: "'d cuda_lib \<Rightarrow> bool \<Rightarrow> cgrid \<Rightarrow> 'd \<Rightarrow> fault + (cgrid \<times> 'd)" where
  "Cuda_PSGridFree cu adb g d =
     bindE (if cg_p0 g \<noteq> Null then cuFree cu (cg_p0 g) d else Inr d) (\<lambda>d.
     bindE (if adb \<and> cg_p1 g \<noteq> Null \<and> cg_p0 g \<noteq> cg_p1 g then cuFree cu (cg_p1 g) d else Inr d) (\<lambda>d.
       Inr (if adb then g\<lparr>cg_p0 := Null, cg_p1 := Null\<rparr> else g\<lparr>cg_p0 := Null\<rparr>, d)))"

definition cgrid_bytes :: "cgrid \<Rightarrow> nat" where
  "cgrid_bytes g = to_size (cg_num_elms g * int (cg_elm_size g))"

definition Cuda_PSGridCopyin :: "'d cuda_lib \<Rightarrow> cgrid \<Rightarrow> ptr \<Rightarrow> heap \<Rightarrow> 'd \<Rightarrow> fault + 'd" where
  "Cuda_PSGridCopyin cu g src_array h d =
     cudaMemcpy_HostToDevice cu (cg_p0 g) src_array (cgrid_bytes g) h d"

definition Cuda_PSGridCopyout :: "'d cuda_lib \<Rightarrow> cgrid \<Rightarrow> ptr \<Rightarrow> heap \<Rightarrow> 'd \<Rightarrow> fault + heap" where
  "Cuda_PSGridCopyout cu g dst_array h d =
     cudaMemcpy_DeviceToHost cu dst_array (cg_p0 g) (cgrid_bytes g) h d"

definition Cuda_PSGridSwap :: "bool \<Rightarrow> cgrid \<Rightarrow> cgrid" where
  "Cuda_PSGridSwap adb g =
     (if adb
      then g\<lparr>cg_p0 := cg_p1 g, cg_p1 := cg_p0 g,
             cg_dev := (cg_dev g)\<lparr>dv_p0 := dv_p1 (cg_dev g), dv_p1 := dv_p0 (cg_dev g)\<rparr>\<rparr>
      else g)"

definition Cuda_PSGridGetID :: "cgrid \<Rightarrow> int" where
  "Cuda_PSGridGetID g = 0"

definition cuda_set_offset :: "nat \<Rightarrow> idx \<Rightarrow> int list \<Rightarrow> fault + (int \<times> int)" where
  "cuda_set_offset nd dim idxs =
     foldE (\<lambda>i (offset, base_offset).
       bindE (array_get idxs (int i)) (\<lambda>x.
         Inr (offset + x * base_offset, base_offset * at dim i))) [0..<nd] (0, 1)"

definition Cuda_PSGridSet :: "'d cuda_lib \<Rightarrow> cgrid \<Rightarrow> ptr \<Rightarrow> int list \<Rightarrow> heap \<Rightarrow> 'd \<Rightarrow> fault + 'd" where
  "Cuda_PSGridSet cu g buf idxs h d =
     bindE (cuda_set_offset (cg_num_dims g) (cg_dim g) idxs) (\<lambda>(offset, _).
       cudaMemcpy_HostToDevice cu (ptr_add (cg_p0 g) (offset * int (cg_elm_size g))) buf (cg_elm_size g) h d)"

subsection \<open>Offsets\<close>

definition CudaGetOffset1D :: "cgrid \<Rightarrow> int \<Rightarrow> int" where
  "CudaGetOffset1D g i1 = i1"

definition CudaGetOffset2D :: "cgrid \<Rightarrow> int \<Rightarrow> int \<Rightarrow> int" where
  "CudaGetOffset2D g i1 i2 = i1 + i2 * at (cg_dim g) 0"

definition CudaGetOffset3D :: "cgrid \<Rightarrow> int \<Rightarrow> int \<Rightarrow> int \<Rightarrow> int" where
  "CudaGetOffset3D g i1 i2 i3 = i1 + i2 * at (cg_dim g) 0 + i3 * at (cg_dim g) 0 * at (cg_dim g) 1"

definition CudaGetOffsetPeriodic1D :: "cgrid \<Rightarrow> int \<Rightarrow> fault + int" where
  "CudaGetOffsetPeriodic1D g i1 = c_mod (i1 + at (cg_dim g) 0) (at (cg_dim g) 0)"

definition CudaGetOffsetPeriodic2D :: "cgrid \<Rightarrow> int \<Rightarrow> int \<Rightarrow> fault + int" where
  "CudaGetOffsetPeriodic2D g i1 i2 =
     bindE (CudaGetOffsetPeriodic1D g i1) (\<lambda>o1.
     bindE (c_mod (i2 + at (cg_dim g) 1) (at (cg_dim g) 1)) (\<lambda>r.
       Inr (o1 + r * at (cg_dim g) 0)))"

definition CudaGetOffsetPeriodic3D :: "cgrid \<Rightarrow> int \<Rightarrow> int \<Rightarrow> int \<Rightarrow> fault + int" where
  "CudaGetOffsetPeriodic3D g i1 i2 i3 =
     bindE (CudaGetOffsetPeriodic2D g i1 i2) (\<lambda>o2.
     bindE (c_mod (i3 + at (cg_dim g) 2) (at (cg_dim g) 2)) (\<lambda>r.
       Inr (o2 + r * at (cg_dim g) 0 * at (cg_dim g) 1)))"

text \<open>In kernels the extents are those of the descriptor; one that it lacks is read past its end.\<close>

definition PSGridDimDev :: "psgrid_dev \<Rightarrow> nat \<Rightarrow> fault + int" where
  "PSGridDimDev g i = array_get (dv_dim g) (int i)"

definition PSGridGetOffset1DDev :: "psgrid_dev \<Rightarrow> int \<Rightarrow> fault + int" where
  "PSGridGetOffset1DDev g i1 = Inr i1"

definition PSGridGetOffset2DDev :: "psgrid_dev \<Rightarrow> int \<Rightarrow> int \<Rightarrow> fault + int" where
  "PSGridGetOffset2DDev g i1 i2 = bindE (PSGridDimDev g 0) (\<lambda>d0. Inr (i1 + i2 * d0))"

definition PSGridGetOffset3DDev :: "psgrid_dev \<Rightarrow> int \<Rightarrow> int \<Rightarrow> int \<Rightarrow> fault + int" where
  "PSGridGetOffset3DDev g i1 i2 i3 =
     bindE (PSGridDimDev g 0) (\<lambda>d0. bindE (PSGridDimDev g 1) (\<lambda>d1.
       Inr (i1 + i2 * d0 + i3 * d0 * d1)))"

definition PSGridGetOffsetPeriodic1DDev :: "psgrid_dev \<Rightarrow> int \<Rightarrow> fault + int" where
  "PSGridGetOffsetPeriodic1DDev g i1 = bindE (PSGridDimDev g 0) (\<lambda>d0. c_mod (i1 + d0) d0)"

definition PSGridGetOffsetPeriodic2DDev :: "psgrid_dev \<Rightarrow> int \<Rightarrow> int \<Rightarrow> fault + int" where
  "PSGridGetOffsetPeriodic2DDev g i1 i2 =
     bindE (PSGridGetOffsetPeriodic1DDev g i1) (\<lambda>o1.
     bindE (PSGridDimDev g 0) (\<lambda>d0. bindE (PSGridDimDev g 1) (\<lambda>d1.
     bindE (c_mod (i2 + d1) d1) (\<lambda>r. Inr (o1 + r * d0)))))"

definition PSGridGetOffsetPeriodic3DDev :: "psgrid_dev \<Rightarrow> int \<Rightarrow> int \<Rightarrow> int \<Rightarrow> fault + int" where
  "PSGridGetOffsetPeriodic3DDev g i1 i2 i3 =
     bindE (PSGridGetOffsetPeriodic2DDev g i1 i2) (\<lambda>o2.
     bindE (PSGridDimDev g 0) (\<lambda>d0. bindE (PSGridDimDev g 1) (\<lambda>d1. bindE (PSGridDimDev g 2) (\<lambda>d2.
     bindE (c_mod (i3 + d2) d2) (\<lambda>r. Inr (o2 + r * d0 * d1))))))"

subsection \<open>Start\<close>

text \<open>The compute capability of the current device is an argument.\<close>

definition CheckCudaCapabilities :: "nat \<times> nat \<Rightarrow> nat \<Rightarrow> nat \<Rightarrow> bool" where
  "CheckCudaCapabilities device major minor =
     (fst device > major \<or> (fst device = major \<and> snd device \<ge> minor))"

definition Cuda_PSInit :: "nat \<times> nat \<Rightarrow> int \<Rightarrow> string option list \<Rightarrow> fault + (bool \<times> int \<times> string option list)" where
  "Cuda_PSInit device argc argv =
     bindE (PSInitCommon argc argv) (\<lambda>r.
       if \<not> CheckCudaCapabilities device 2 0 then Inl (Aborted 1) else Inr r)"

subsection \<open>Domains\<close>

definition Cuda_PSDomain1DNew :: "int \<Rightarrow> int \<Rightarrow> domain" where
  "Cuda_PSDomain1DNew minx maxx =
     \<lparr>dom_min = Arr3 minx 0 0, dom_max = Arr3 maxx 0 0,
      dom_local_min = Arr3 minx 0 0, dom_local_max = Arr3 maxx 0 0\<rparr>"

definition Cuda_PSDomain2DNew :: "int \<Rightarrow> int \<Rightarrow> int \<Rightarrow> int \<Rightarrow> domain" where
  "Cuda_PSDomain2DNew minx maxx miny maxy =
     \<lparr>dom_min = Arr3 minx miny 0, dom_max = Arr3 maxx maxy 0,
      dom_local_min = Arr3 minx miny 0, dom_local_max = Arr3 maxx maxy 0\<rparr>"

definition Cuda_PSDomain3DNew :: "int \<Rightarrow> int \<Rightarrow> int \<Rightarrow> int \<Rightarrow> int \<Rightarrow> int \<Rightarrow> domain" where
  "Cuda_PSDomain3DNew minx maxx miny maxy minz maxz =
     \<lparr>dom_min = Arr3 minx miny minz, dom_max = Arr3 maxx maxy maxz,
      dom_local_min = Arr3 minx miny minz, dom_local_max = Arr3 maxx maxy maxz\<rparr>"

lemma cuda_domains_are_reference:
  "Cuda_PSDomain1DNew = Ref_PSDomain1DNew" "Cuda_PSDomain2DNew = Ref_PSDomain2DNew"
  "Cuda_PSDomain3DNew = Ref_PSDomain3DNew"
  by (simp_all add: fun_eq_iff Cuda_PSDomain1DNew_def Ref_PSDomain1DNew_def Cuda_PSDomain2DNew_def
      Ref_PSDomain2DNew_def Cuda_PSDomain3DNew_def Ref_PSDomain3DNew_def)

subsection \<open>Reductions\<close>

text \<open>
  The Thrust library on a range of elements: the positions of a greatest and a least element,
  and a reduction in an order of its own. The default value of an operator is an argument,
  since it depends on the element type.
\<close>

record 'a thrust_lib =
  max_element :: "'a list \<Rightarrow> nat"
  min_element :: "'a list \<Rightarrow> nat"
  thrust_reduce :: "'a list \<Rightarrow> 'a \<Rightarrow> ('a \<Rightarrow> 'a \<Rightarrow> 'a) \<Rightarrow> 'a"

fun thrust_result ::
    "'a thrust_lib \<Rightarrow> (PSReduceOp \<Rightarrow> fault + 'a) \<Rightarrow> PSReduceOp \<Rightarrow> 'a list \<Rightarrow> fault + 'a::{plus,times}" where
  "thrust_result th dflt PS_MAX xs = array_get xs (int (max_element th xs))"
| "thrust_result th dflt PS_MIN xs = array_get xs (int (min_element th xs))"
| "thrust_result th dflt PS_SUM xs = bindE (dflt PS_SUM) (\<lambda>v. Inr (thrust_reduce th xs v (+)))"
| "thrust_result th dflt PS_PROD xs = bindE (dflt PS_PROD) (\<lambda>v. Inr (thrust_reduce th xs v (*)))"
| "thrust_result th dflt (PS_OTHER_OP _) xs = Inl (Aborted 1)"

definition ReduceGridCUDA ::
    "'d cuda_lib \<Rightarrow> 'a thrust_lib \<Rightarrow> nat \<Rightarrow> (cell list \<Rightarrow> 'a::{plus,times}) \<Rightarrow> ('a \<Rightarrow> cell list) \<Rightarrow> (PSReduceOp \<Rightarrow> fault + 'a) \<Rightarrow>
      ptr \<Rightarrow> PSReduceOp \<Rightarrow> ptr \<Rightarrow> nat \<Rightarrow> heap \<Rightarrow> 'd \<Rightarrow> fault + heap" where
  "ReduceGridCUDA cu th tsize dec enc dflt buf op dev_grid len h d =
     bindE (cuRead cu dev_grid (len * tsize) d) (\<lambda>cs.
     bindE (thrust_result th dflt op (elements dec tsize cs len)) (\<lambda>v. store buf (enc v) h))"

definition Cuda_PSReduceGridFloat ::
    "'d cuda_lib \<Rightarrow> 'f thrust_lib \<Rightarrow> (cell list \<Rightarrow> 'f::{plus,times}) \<Rightarrow> ('f \<Rightarrow> cell list) \<Rightarrow> (PSReduceOp \<Rightarrow> fault + 'f) \<Rightarrow>
      ptr \<Rightarrow> PSReduceOp \<Rightarrow> cgrid \<Rightarrow> heap \<Rightarrow> 'd \<Rightarrow> fault + heap" where
  "Cuda_PSReduceGridFloat cu th dec enc dflt buf op g =
     ReduceGridCUDA cu th 4 dec enc dflt buf op (cg_p0 g) (to_size (cg_num_elms g))"

definition Cuda_PSReduceGridDouble ::
    "'d cuda_lib \<Rightarrow> 'f thrust_lib \<Rightarrow> (cell list \<Rightarrow> 'f::{plus,times}) \<Rightarrow> ('f \<Rightarrow> cell list) \<Rightarrow> (PSReduceOp \<Rightarrow> fault + 'f) \<Rightarrow>
      ptr \<Rightarrow> PSReduceOp \<Rightarrow> cgrid \<Rightarrow> heap \<Rightarrow> 'd \<Rightarrow> fault + heap" where
  "Cuda_PSReduceGridDouble cu th dec enc dflt buf op g =
     ReduceGridCUDA cu th 8 dec enc dflt buf op (cg_p0 g) (to_size (cg_num_elms g))"

text \<open>What the code relies on: extreme elements, and a fold when its order does not matter.\<close>

locale thrust_laws =
  fixes th :: "'a::linorder thrust_lib"
  assumes max_law: "xs \<noteq> [] \<Longrightarrow> max_element th xs < length xs \<and> (\<forall>x \<in> set xs. x \<le> xs ! max_element th xs)"
    and min_law: "xs \<noteq> [] \<Longrightarrow> min_element th xs < length xs \<and> (\<forall>x \<in> set xs. xs ! min_element th xs \<le> x)"
    and reduce_law: "reduction_operator f \<Longrightarrow> thrust_reduce th xs v f = foldl f v xs"

text \<open>A Thrust that scans the list from its start meets the laws.\<close>

definition list_thrust :: "'a::linorder thrust_lib" where
  "list_thrust = \<lparr>max_element = (\<lambda>xs. length (takeWhile (\<lambda>x. x \<noteq> Max (set xs)) xs)),
     min_element = (\<lambda>xs. length (takeWhile (\<lambda>x. x \<noteq> Min (set xs)) xs)),
     thrust_reduce = (\<lambda>xs v f. foldl f v xs)\<rparr>"

lemma first_position:
  assumes "m \<in> set xs"
  shows "length (takeWhile (\<lambda>x. x \<noteq> m) xs) < length xs \<and> xs ! length (takeWhile (\<lambda>x. x \<noteq> m) xs) = m"
  using assms by (induction xs) auto

interpretation list_th: thrust_laws list_thrust
  by unfold_locales
    (use first_position[OF Max_in] first_position[OF Min_in] in \<open>auto simp: list_thrust_def intro: Max_ge Min_le\<close>)

end
