(* ===== verification/Cuda_Reference.thy ===== *)
theory Cuda_Reference imports Cuda_Runtime begin

text \<open>
  The run-time for one GPU behaves as the reference run-time: a program over the shared
  interface that creates a grid, copies arrays in and out, sets elements and swaps has the
  same effect on the user's arrays with either, and kernels find on the device the elements
  the reference run-time holds.
\<close>

subsection \<open>Programs over the shared interface\<close>

text \<open>The arrays are blocks of the host heap, named by their numbers.\<close>

datatype grid_call =
  CopyIn nat | SetElm nat "int list" | SwapBufs | CopyOut nat | ReduceTo nat PSReduceOp

text \<open>
  What reductions need of the element type: how bytes are read and written, the limits of
  \<open>float.h\<close>, and Thrust. Grids of four-byte elements are reduced as \<open>float\<close>, others as \<open>double\<close>.
\<close>

record 'f arith =
  ar_dec :: "cell list \<Rightarrow> 'f"
  ar_enc :: "'f \<Rightarrow> cell list"
  ar_min :: 'f
  ar_max :: 'f
  ar_thrust :: "'f thrust_lib"

fun ref_call :: "'f::linordered_idom arith \<Rightarrow> grid_call \<Rightarrow> psgrid \<times> heap \<Rightarrow> fault + (psgrid \<times> heap)" where
  "ref_call ar (CopyIn u) (g, h) = bindE (Ref_PSGridCopyin g (Ptr u 0) h) (\<lambda>h. Inr (g, h))"
| "ref_call ar (SetElm u idxs) (g, h) = bindE (Ref_PSGridSet g (Ptr u 0) idxs h) (\<lambda>h. Inr (g, h))"
| "ref_call ar SwapBufs (g, h) = Inr (Ref_PSGridSwap g, h)"
| "ref_call ar (CopyOut u) (g, h) = bindE (Ref_PSGridCopyout g (Ptr u 0) h) (\<lambda>h. Inr (g, h))"
| "ref_call ar (ReduceTo u op) (g, h) =
     bindE (if pg_elm_size g = 4 then Ref_PSReduceGridFloat (ar_dec ar) (ar_enc ar) (Ptr u 0) op g h
            else Ref_PSReduceGridDouble (ar_dec ar) (ar_enc ar) (Ptr u 0) op g h) (\<lambda>h. Inr (g, h))"

fun cuda_call ::
    "'d cuda_lib \<Rightarrow> 'f::linordered_idom arith \<Rightarrow> bool \<Rightarrow> grid_call \<Rightarrow> cgrid \<times> heap \<times> 'd \<Rightarrow> fault + (cgrid \<times> heap \<times> 'd)" where
  "cuda_call cu ar adb (CopyIn u) (g, h, d) = bindE (Cuda_PSGridCopyin cu g (Ptr u 0) h d) (\<lambda>d. Inr (g, h, d))"
| "cuda_call cu ar adb (SetElm u idxs) (g, h, d) = bindE (Cuda_PSGridSet cu g (Ptr u 0) idxs h d) (\<lambda>d. Inr (g, h, d))"
| "cuda_call cu ar adb SwapBufs (g, h, d) = Inr (Cuda_PSGridSwap adb g, h, d)"
| "cuda_call cu ar adb (CopyOut u) (g, h, d) = bindE (Cuda_PSGridCopyout cu g (Ptr u 0) h d) (\<lambda>h. Inr (g, h, d))"
| "cuda_call cu ar adb (ReduceTo u op) (g, h, d) =
     bindE (if cg_elm_size g = 4
            then Cuda_PSReduceGridFloat cu (ar_thrust ar) (ar_dec ar) (ar_enc ar)
              (GetReductionDefaultValue_float (ar_min ar) (ar_max ar)) (Ptr u 0) op g h d
            else Cuda_PSReduceGridDouble cu (ar_thrust ar) (ar_dec ar) (ar_enc ar)
              (GetReductionDefaultValue_double (ar_min ar) (ar_max ar)) (Ptr u 0) op g h d) (\<lambda>h. Inr (g, h, d))"

text \<open>The calls a program may make: whole arrays of the grid's size, one element at indices inside.\<close>

definition inside :: "nat \<Rightarrow> idx \<Rightarrow> int list \<Rightarrow> bool" where
  "inside n dim idxs \<longleftrightarrow> length idxs = n \<and> (\<forall>i < n. 0 \<le> idxs ! i \<and> idxs ! i < at dim i)"

fun call_ok :: "(nat \<Rightarrow> nat option) \<Rightarrow> nat \<Rightarrow> nat \<Rightarrow> nat \<Rightarrow> idx \<Rightarrow> grid_call \<Rightarrow> bool" where
  "call_ok U N e n dim (CopyIn u) \<longleftrightarrow> U u = Some N"
| "call_ok U N e n dim (CopyOut u) \<longleftrightarrow> U u = Some N"
| "call_ok U N e n dim (SetElm u idxs) \<longleftrightarrow> (\<exists>m. U u = Some m \<and> e \<le> m) \<and> inside n dim idxs"
| "call_ok U N e n dim SwapBufs \<longleftrightarrow> True"
| "call_ok U N e n dim (ReduceTo u op) \<longleftrightarrow> (\<exists>m. U u = Some m \<and> e \<le> m) \<and> (e = 4 \<or> e = 8) \<and>
     op \<in> {PS_MAX, PS_MIN, PS_SUM, PS_PROD}"

subsection \<open>The two states\<close>

definition same_shape :: "bool \<Rightarrow> nat \<Rightarrow> nat \<Rightarrow> nat \<Rightarrow> idx \<Rightarrow> psgrid \<Rightarrow> cgrid \<Rightarrow> bool" where
  "same_shape adb N e n dim g cg \<longleftrightarrow>
     pg_elm_size g = e \<and> pg_num_dims g = n \<and> pg_dim g = dim \<and> PSGrid_bytes g = N \<and>
     pg_num_elms g = accumulate dim n \<and> cg_num_elms cg = accumulate dim n \<and>
     cg_elm_size cg = e \<and> cg_num_dims cg = n \<and> cg_dim cg = dim \<and> cgrid_bytes cg = N \<and>
     dv_dim (cg_dev cg) = map (at dim) [0..<n] \<and> dv_p0 (cg_dev cg) = cg_p0 cg \<and>
     (adb \<longrightarrow> dv_p1 (cg_dev cg) = cg_p1 cg)"

definition same_arrays :: "(nat \<Rightarrow> nat option) \<Rightarrow> heap \<Rightarrow> heap \<Rightarrow> bool" where
  "same_arrays U h hc \<longleftrightarrow>
     (\<forall>u m. U u = Some m \<longrightarrow> (\<exists>A. length A = m \<and> blocks h u = Some A \<and> blocks hc u = Some A))"

text \<open>
  \<open>base\<close> is the device memory without the grid: it holds nothing where the grid's blocks are.
\<close>

definition same_data :: "bool \<Rightarrow> (nat \<Rightarrow> cell list option) \<Rightarrow> (nat \<Rightarrow> cell list option) \<Rightarrow> (nat \<Rightarrow> nat option) \<Rightarrow>
    nat \<Rightarrow> nat \<Rightarrow> nat \<Rightarrow> nat \<Rightarrow> cell list \<Rightarrow> cell list \<Rightarrow> psgrid \<Rightarrow> heap \<Rightarrow> cgrid \<Rightarrow> bool" where
  "same_data adb base dm U b0 b1 c0 c1 D0 D1 g h cg \<longleftrightarrow>
     psgrid_data g b0 b1 D0 D1 h \<and> U b0 = None \<and> U b1 = None \<and>
     cg_p0 cg = Ptr c0 0 \<and> base c0 = None \<and> (b0 = b1 \<longrightarrow> D0 = D1) \<and>
     (if adb then cg_p1 cg = Ptr c1 0 \<and> base c1 = None \<and> dm = base(c0 \<mapsto> D0, c1 \<mapsto> D1) \<and> (b0 = b1 \<longleftrightarrow> c0 = c1)
      else b0 = b1 \<and> dm = base(c0 \<mapsto> D0))"

lemma same_data_lengths:
  assumes "same_data adb base dm U b0 b1 c0 c1 D0 D1 g h cg" "same_shape adb N e n dim g cg"
  shows "length D0 = N" "length D1 = N" "blocks h b0 = Some D0" "pg_p0 g = Ptr b0 0" "dm c0 = Some D0" "cg_p0 cg = Ptr c0 0"
  using assms by (auto simp: same_data_def same_shape_def psgrid_data_def split: if_splits)

text \<open>Writing the same new contents to the current buffers of both keeps them the same.\<close>

lemma same_data_write:
  assumes "same_data adb base dm U b0 b1 c0 c1 D0 D1 g h cg" "length D = length D0"
  shows "same_data adb base (dm(c0 \<mapsto> D)) U b0 b1 c0 c1 D (if b0 = b1 then D else D1) g
    (h\<lparr>blocks := (blocks h)(b0 \<mapsto> D)\<rparr>) cg"
  using assms by (cases adb; cases "c0 = c1") (auto simp: same_data_def psgrid_data_def fun_upd_twist)

lemma same_arrays_grid_write:
  assumes "same_arrays U h hc" "U b = None"
  shows "same_arrays U (h\<lparr>blocks := (blocks h)(b \<mapsto> D)\<rparr>) hc"
  using assms by (fastforce simp: same_arrays_def)

lemma same_arrays_write:
  assumes "same_arrays U h hc" "U v = Some m" "length D = m"
  shows "same_arrays U (h\<lparr>blocks := (blocks h)(v \<mapsto> D)\<rparr>) (hc\<lparr>blocks := (blocks hc)(v \<mapsto> D)\<rparr>)"
  using assms by (auto simp: same_arrays_def)

lemma same_data_array_write:
  assumes "same_data adb base dm U b0 b1 c0 c1 D0 D1 g h cg" "U v \<noteq> None"
  shows "same_data adb base dm U b0 b1 c0 c1 D0 D1 g (h\<lparr>blocks := (blocks h)(v \<mapsto> D)\<rparr>) cg"
proof -
  have "v \<noteq> b0" "v \<noteq> b1" using assms by (auto simp: same_data_def)
  with assms(1) show ?thesis by (simp add: same_data_def psgrid_data_def)
qed

lemma same_data_swap:
  assumes "same_data adb base dm U b0 b1 c0 c1 D0 D1 g h cg"
  shows "same_data adb base dm U b1 b0 (if adb then c1 else c0) c0 D1 D0 (Ref_PSGridSwap g) h (Cuda_PSGridSwap adb cg)"
  using assms by (cases adb; cases "c0 = c1")
    (auto simp: fun_upd_twist same_data_def psgrid_data_def Cuda_PSGridSwap_def Ref_PSGridSwap_def PSGrid_bytes_def)

lemma same_shape_swap:
  "same_shape adb N e n dim g cg \<Longrightarrow> same_shape adb N e n dim (Ref_PSGridSwap g) (Cuda_PSGridSwap adb cg)"
  by (auto simp: Cuda_PSGridSwap_def Ref_PSGridSwap_def PSGrid_bytes_def same_shape_def cgrid_bytes_def)

subsection \<open>One call\<close>

definition both_ok ::
    "bool \<Rightarrow> (nat \<Rightarrow> cell list option) \<Rightarrow> ('d \<Rightarrow> nat \<Rightarrow> cell list option) \<Rightarrow> (nat \<Rightarrow> nat option) \<Rightarrow> nat \<Rightarrow> nat \<Rightarrow> nat \<Rightarrow> idx \<Rightarrow>
      psgrid \<times> heap \<Rightarrow> cgrid \<times> heap \<times> 'd \<Rightarrow> bool" where
  "both_ok adb base dblk U N e n dim s t \<longleftrightarrow>
     (case s of (g, h) \<Rightarrow> case t of (cg, hc, d) \<Rightarrow>
        same_shape adb N e n dim g cg \<and> same_arrays U h hc \<and>
        (\<exists>b0 b1 c0 c1 D0 D1. same_data adb base (dblk d) U b0 b1 c0 c1 D0 D1 g h cg))"

lemma both_okI:
  "same_shape adb N e n dim g cg \<Longrightarrow> same_arrays U h hc \<Longrightarrow>
   same_data adb base (dblk d) U b0 b1 c0 c1 D0 D1 g h cg \<Longrightarrow> both_ok adb base dblk U N e n dim (g, h) (cg, hc, d)"
  unfolding both_ok_def prod.case by (intro conjI exI)

lemma cuda_set_offset_ref: "cuda_set_offset nd dim idxs = set_offset nd dim idxs"
  by (simp add: cuda_set_offset_def set_offset_def)

text \<open>Where an element lies, and that it lies inside the grid's bytes.\<close>

definition grid_fits :: "nat \<Rightarrow> nat \<Rightarrow> nat \<Rightarrow> idx \<Rightarrow> bool" where
  "grid_fits N e n dim \<longleftrightarrow> 1 \<le> n \<and> n \<le> 3 \<and> (\<forall>i < n. 0 < at dim i) \<and> 0 < e \<and>
     N = nat (accumulate dim n) * e \<and> N < 2 ^ 64"

lemma grid_fitsD:
  assumes "grid_fits N e n dim"
  shows "0 < accumulate dim n" "0 < e" "0 < N" "to_size (accumulate dim n) = nat (accumulate dim n)"
    "accumulate dim n * int e < 2 ^ 64" "\<forall>i < n. 0 \<le> at dim i"
proof -
  have acc: "0 \<le> accumulate dim n" "accumulate dim n \<noteq> 0"
    using assms by (auto simp: grid_fits_def accumulate_eq_0_iff intro!: accumulate_nonneg)
  have e: "0 < e" "nat (accumulate dim n) * e < 2 ^ 64" using assms by (auto simp: grid_fits_def)
  have "nat (accumulate dim n) * 1 \<le> nat (accumulate dim n) * e" using e(1) by (intro mult_le_mono) auto
  then have "nat (accumulate dim n) < 2 ^ 64" using e(2) by linarith
  then show "to_size (accumulate dim n) = nat (accumulate dim n)" using acc by (simp add: nat_less_iff)
  show "0 < accumulate dim n" "0 < e" "\<forall>i < n. 0 \<le> at dim i" using acc e assms by (auto simp: grid_fits_def less_imp_le)
  then show "0 < N" using assms by (simp add: grid_fits_def)
  have "int (nat (accumulate dim n) * e) < 2 ^ 64" using e(2) by (metis of_nat_less_iff of_nat_numeral of_nat_power)
  then show "accumulate dim n * int e < 2 ^ 64" using acc by simp
qed

lemma inside_offset:
  assumes "grid_fits N e n dim" "inside n dim idxs"
  shows "\<exists>k. set_offset n dim idxs = Inr (int k, accumulate dim n) \<and> k * e + e \<le> N"
proof -
  have len: "length idxs = n" "1 \<le> length idxs" "length idxs \<le> 3" using assms by (auto simp: grid_fits_def inside_def)
  have box: "in_box n (idx_of idxs) dim"
    using assms len by (auto simp: inside_def in_box_def at_idx_of)
  note b = lin_bounds[OF box]
  have "set_offset n dim idxs = Inr (lin n (idx_of idxs) dim, accumulate dim n)"
    using set_offset_prefix[of idxs n] len by simp
  moreover have "nat (lin n (idx_of idxs) dim) * e + e \<le> N"
    using elem_bound[of "nat (lin n (idx_of idxs) dim)" "nat (accumulate dim n)" e N] b assms(1)
    by (simp add: grid_fits_def)
  ultimately show ?thesis using b by (intro exI[of _ "nat (lin n (idx_of idxs) dim)"]) simp
qed

text \<open>Both run-times read the \<open>n\<close> bytes at a place of a user's array and write them to their grid.\<close>

lemma ref_write_from_user:
  assumes "blocks h u = Some A" "blocks h b0 = Some D0" "u \<noteq> b0" "m \<le> length A" "j + m \<le> length D0"
  shows "memcpy (Ptr b0 (int j)) (Ptr u 0) m h =
    Inr (h\<lparr>blocks := (blocks h)(b0 \<mapsto> list_write D0 j (take m A))\<rparr>)"
  using memcpy_blocks[of b0 u h A D0 0 m j] assms by simp

lemma ref_read_to_user:
  assumes "blocks h v = Some V" "blocks h b0 = Some D0" "v \<noteq> b0" "length V = length D0"
  shows "memcpy (Ptr v 0) (Ptr b0 0) (length D0) h = Inr (h\<lparr>blocks := (blocks h)(v \<mapsto> D0)\<rparr>)"
  using memcpy_blocks[of v b0 h D0 V 0 "length D0" 0] assms by (simp add: list_write_def)

text \<open>Thrust and the reference loop reduce the elements of a grid to the same value.\<close>

lemma foldl_MinOp: "foldl MinOp (d::'a::linorder) ds = Min (set (d # ds))"
proof -
  have "foldl MinOp d ds = fold min ds d" for d :: 'a
    by (induction ds arbitrary: d) (auto simp: MinOp_def min_def)
  then show ?thesis by (simp add: Min.set_eq_fold del: list.set)
qed

definition neutral_defaults :: "(PSReduceOp \<Rightarrow> fault + 'a::{zero,one}) \<Rightarrow> bool" where
  "neutral_defaults dflt \<longleftrightarrow> dflt PS_SUM = Inr 0 \<and> dflt PS_PROD = Inr 1"

lemma neutral_defaults_both:
  "neutral_defaults (GetReductionDefaultValue_float a b)" "neutral_defaults (GetReductionDefaultValue_double a b)"
  by (simp_all add: neutral_defaults_def)

lemma thrust_result_loop:
  fixes xs :: "'a::linordered_idom list"
  assumes "thrust_laws th" "neutral_defaults dflt" "xs \<noteq> []" "op \<in> {PS_MAX, PS_MIN, PS_SUM, PS_PROD}"
  shows "\<exists>v. thrust_result th dflt op xs = Inr v \<and> bindE (GetReducer op) (\<lambda>f. reduce_loop f xs) = Inr v"
proof -
  obtain y ys where xs: "xs = y # ys" using assms(3) by (cases xs) auto
  note mx = thrust_laws.max_law[OF assms(1,3)] and mn = thrust_laws.min_law[OF assms(1,3)]
  have "xs ! max_element th xs = Max (set xs)" "xs ! min_element th xs = Min (set xs)"
    using mx mn by (auto intro!: Max_eqI[symmetric] Min_eqI[symmetric])
  moreover have "thrust_reduce th xs 0 (+) = foldl (+) 0 xs" "thrust_reduce th xs 1 (*) = foldl (*) 1 xs"
    using thrust_laws.reduce_law[OF assms(1)] sum_op.reduction_operator_axioms prod_op.reduction_operator_axioms by auto
  ultimately show ?thesis
    using assms(2,4) mx mn xs
    by (auto simp: neutral_defaults_def array_get_def foldl_MaxOp foldl_MinOp simp del: list.set)
qed

context cuda_memory begin

lemma cuda_write_from_user:
  assumes "blocks h u = Some A" "dblk d c0 = Some D0" "m \<le> length A" "j + m \<le> length D0"
  shows "\<exists>d'. cudaMemcpy_HostToDevice cu (Ptr c0 (int j)) (Ptr u 0) m h d = Inr d' \<and>
    dblk d' = (dblk d)(c0 \<mapsto> list_write D0 j (take m A))"
  using copy_to_device[of h u A 0 m d c0 D0 j] assms by simp

lemma same_reduction:
  fixes th :: "'f::linordered_idom thrust_lib"
  assumes th: "thrust_laws th" and dflt: "neutral_defaults dflt" and op: "op \<in> {PS_MAX, PS_MIN, PS_SUM, PS_PROD}"
    and fits: "grid_fits N e n dim" and shape: "same_shape adb N e n dim g cg"
    and data: "same_data adb base (dblk d) U b0 b1 c0 c1 D0 D1 g h cg"
  shows "\<exists>v. PSReduceGridTemplate e dec enc buf op g h = store buf (enc (v :: 'f)) h \<and>
    ReduceGridCUDA cu th e dec enc dflt buf op (cg_p0 cg) (to_size (cg_num_elms cg)) hc d = store buf (enc v) hc"
proof -
  note l = same_data_lengths[OF data shape] and f = grid_fitsD[OF fits]
  define k where "k = nat (accumulate dim n)"
  have k: "0 < k" "to_size (cg_num_elms cg) = k" "nat (max 1 (pg_num_elms g)) = k" "N = k * e"
    using f shape fits by (auto simp: k_def same_shape_def grid_fits_def max_def)
  have ne: "elements dec e D0 k \<noteq> []" using k(1) by (simp add: elements_def)
  have "load (Ptr b0 0) N h = Inr D0" using load_block[OF l(3), of 0 N] l(1) by simp
  moreover have "cuRead cu (Ptr c0 0) N d = Inr D0" using read_ok[OF l(5), of 0 N] l(1) by simp
  moreover obtain v where "thrust_result th dflt op (elements dec e D0 k) = Inr v"
      "bindE (GetReducer op) (\<lambda>f. reduce_loop f (elements dec e D0 k)) = Inr v"
    using thrust_result_loop[OF th dflt ne op] by blast
  moreover obtain r :: "'f \<Rightarrow> 'f \<Rightarrow> 'f" where "GetReducer op = Inr r" using op by (cases op) auto
  ultimately show ?thesis using l k
    by (auto simp: PSReduceGridTemplate_def ReduceGridCUDA_def)
qed

lemma cuda_read_to_user:
  assumes "blocks h v = Some V" "dblk d c0 = Some D0" "length V = length D0"
  shows "cudaMemcpy_DeviceToHost cu (Ptr v 0) (Ptr c0 0) (length D0) h d = Inr (h\<lparr>blocks := (blocks h)(v \<mapsto> D0)\<rparr>)"
  using copy_to_host[of d c0 D0 0 "length D0" h v V 0] assms by (simp add: list_write_def)

lemma call_simulated:
  fixes ar :: "'f::linordered_idom arith"
  assumes ok: "both_ok adb base dblk U N e n dim s t" and fits: "grid_fits N e n dim" and c: "call_ok U N e n dim c"
    and th: "thrust_laws (ar_thrust ar)" and enc: "\<forall>v. length (ar_enc ar v) = e"
  shows "\<exists>s' t'. ref_call ar c s = Inr s' \<and> cuda_call cu ar adb c t = Inr t' \<and> both_ok adb base dblk U N e n dim s' t'"
proof -
  obtain g h cg hc d where st: "s = (g, h)" "t = (cg, hc, d)" by (cases s; cases t) auto
  obtain b0 b1 c0 c1 D0 D1 where data: "same_data adb base (dblk d) U b0 b1 c0 c1 D0 D1 g h cg"
    and shape: "same_shape adb N e n dim g cg" and arr: "same_arrays U h hc"
    using ok st by (auto simp: both_ok_def)
  note l = same_data_lengths[OF data shape]
  have Ub: "U b0 = None" using data by (simp add: same_data_def)
  have upload: "\<exists>h' d'. memcpy (Ptr b0 (int j)) (Ptr u 0) m h = Inr h' \<and>
      cudaMemcpy_HostToDevice cu (Ptr c0 (int j)) (Ptr u 0) m hc d = Inr d' \<and>
      both_ok adb base dblk U N e n dim (g, h') (cg, hc, d')"
    if u: "U u = Some k" "m \<le> k" and j: "j + m \<le> N" for u k j m
  proof -
    obtain A where A: "length A = k" "blocks h u = Some A" "blocks hc u = Some A"
      using arr u by (auto simp: same_arrays_def)
    have ne: "u \<noteq> b0" using Ub u by auto
    let ?D = "list_write D0 j (take m A)"
    obtain d' where d': "cudaMemcpy_HostToDevice cu (Ptr c0 (int j)) (Ptr u 0) m hc d = Inr d'" "dblk d' = (dblk d)(c0 \<mapsto> ?D)"
      using cuda_write_from_user[of hc u A d c0 D0 m j] A l u j by auto
    have len: "length ?D = length D0" using A l u j by simp
    have "both_ok adb base dblk U N e n dim (g, h\<lparr>blocks := (blocks h)(b0 \<mapsto> ?D)\<rparr>) (cg, hc, d')"
      using both_okI[where dblk = dblk, OF shape same_arrays_grid_write[OF arr Ub]] same_data_write[OF data len] d'(2) by metis
    with d'(1) ref_write_from_user[OF A(2) l(3) ne] A l u j show ?thesis by auto
  qed
  show ?thesis
  proof (cases c)
    case (CopyIn u)
    then show ?thesis using upload[of u N N 0] c shape l st
      by (auto simp: Ref_PSGridCopyin_def Cuda_PSGridCopyin_def same_shape_def)
  next
    case (SetElm u idxs)
    then obtain k where k: "set_offset n dim idxs = Inr (int k, accumulate dim n)" "k * e + e \<le> N"
      using inside_offset[OF fits, of idxs] c by auto
    obtain m where m: "U u = Some m" "e \<le> m" using c SetElm by auto
    show ?thesis using upload[OF m, of "k * e"] k shape l st SetElm
      by (auto simp: Ref_PSGridSet_def Cuda_PSGridSet_def same_shape_def cuda_set_offset_ref)
  next
    case SwapBufs
    then show ?thesis using both_okI[where dblk = dblk, OF same_shape_swap[OF shape] arr same_data_swap[OF data]] st by simp
  next
    case (ReduceTo u op)
    then obtain m where u: "U u = Some m" "e \<le> m" and e: "e = 4 \<or> e = 8" and op: "op \<in> {PS_MAX, PS_MIN, PS_SUM, PS_PROD}"
      using c by auto
    obtain A where A: "length A = m" "blocks h u = Some A" "blocks hc u = Some A"
      using arr u by (auto simp: same_arrays_def)
    define dflt where "dflt = (if e = 4 then GetReductionDefaultValue_float (ar_min ar) (ar_max ar)
      else GetReductionDefaultValue_double (ar_min ar) (ar_max ar))"
    have "neutral_defaults dflt" by (simp add: dflt_def neutral_defaults_both)
    from same_reduction[OF th this op fits shape data] obtain v where
      v: "PSReduceGridTemplate e (ar_dec ar) (ar_enc ar) (Ptr u 0) op g h = store (Ptr u 0) (ar_enc ar v) h"
        "ReduceGridCUDA cu (ar_thrust ar) e (ar_dec ar) (ar_enc ar) dflt (Ptr u 0) op (cg_p0 cg) (to_size (cg_num_elms cg)) hc d =
          store (Ptr u 0) (ar_enc ar v) hc" by blast
    let ?A = "list_write A 0 (ar_enc ar v)"
    have sts: "store (Ptr u 0) (ar_enc ar v) h = Inr (h\<lparr>blocks := (blocks h)(u \<mapsto> ?A)\<rparr>)"
      "store (Ptr u 0) (ar_enc ar v) hc = Inr (hc\<lparr>blocks := (blocks hc)(u \<mapsto> ?A)\<rparr>)"
      using A u enc by simp_all
    have "both_ok adb base dblk U N e n dim (g, h\<lparr>blocks := (blocks h)(u \<mapsto> ?A)\<rparr>) (cg, hc\<lparr>blocks := (blocks hc)(u \<mapsto> ?A)\<rparr>, d)"
      using both_okI[where dblk = dblk, OF shape same_arrays_write[OF arr u(1), of ?A] same_data_array_write[OF data, of u ?A]]
        u A enc by simp
    then show ?thesis using ReduceTo st(1,2) e v sts shape
      by (auto simp: Ref_PSReduceGridFloat_def Ref_PSReduceGridDouble_def Cuda_PSReduceGridFloat_def
          Cuda_PSReduceGridDouble_def same_shape_def dflt_def)
  next
    case (CopyOut v)
    then have v: "U v = Some N" using c by simp
    obtain V where V: "length V = N" "blocks h v = Some V" "blocks hc v = Some V"
      using arr v by (auto simp: same_arrays_def)
    have ne: "v \<noteq> b0" using Ub v by auto
    have "both_ok adb base dblk U N e n dim (g, h\<lparr>blocks := (blocks h)(v \<mapsto> D0)\<rparr>) (cg, hc\<lparr>blocks := (blocks hc)(v \<mapsto> D0)\<rparr>, d)"
      using both_okI[where dblk = dblk, OF shape same_arrays_write[OF arr v l(1)] same_data_array_write[OF data, of v D0]] v by simp
    then show ?thesis using CopyOut st shape l ref_read_to_user[OF V(2) l(3) ne] cuda_read_to_user[OF V(3) l(5)] V
      by (auto simp: Ref_PSGridCopyout_def Cuda_PSGridCopyout_def same_shape_def)
  qed
qed

lemma calls_simulated:
  fixes ar :: "'f::linordered_idom arith"
  assumes "both_ok adb base dblk U N e n dim s t" "grid_fits N e n dim" "\<forall>c \<in> set cs. call_ok U N e n dim c"
    and "thrust_laws (ar_thrust ar)" "\<forall>v. length (ar_enc ar v) = e"
  shows "\<exists>s' t'. foldE (ref_call ar) cs s = Inr s' \<and> foldE (cuda_call cu ar adb) cs t = Inr t' \<and>
    both_ok adb base dblk U N e n dim s' t'"
  using assms
proof (induction cs arbitrary: s t)
  case (Cons c cs)
  obtain s' t' where 1: "ref_call ar c s = Inr s'" "cuda_call cu ar adb c t = Inr t'" "both_ok adb base dblk U N e n dim s' t'"
    using call_simulated[OF Cons.prems(1,2) _ Cons.prems(4,5), of c] Cons.prems(3) by auto
  with Cons.IH[OF 1(3)] Cons.prems show ?case by simp
qed simp

end

subsection \<open>Creation and release\<close>

text \<open>What creation leaves on the device: one zeroed block or two.\<close>

definition fresh_cgrid ::
    "bool \<Rightarrow> bool \<Rightarrow> nat \<Rightarrow> nat \<Rightarrow> nat \<Rightarrow> idx \<Rightarrow> (nat \<Rightarrow> cell list option) \<Rightarrow> cgrid \<Rightarrow> (nat \<Rightarrow> cell list option) \<Rightarrow> bool" where
  "fresh_cgrid adb db N e n dim base cg dm \<longleftrightarrow>
     cg_elm_size cg = e \<and> cg_num_dims cg = n \<and> cg_dim cg = dim \<and> cgrid_bytes cg = N \<and> cg_num_elms cg = accumulate dim n \<and>
     cg_dev cg = \<lparr>dv_p0 = cg_p0 cg, dv_p1 = cg_p1 cg, dv_dim = map (at dim) [0..<n]\<rparr> \<and>
     (\<exists>c0 c1. cg_p0 cg = Ptr c0 0 \<and> base c0 = None \<and> base c1 = None \<and>
        dm = base(c0 \<mapsto> replicate N (Some 0), c1 \<mapsto> replicate N (Some 0)) \<and> (c0 = c1 \<longleftrightarrow> \<not> db) \<and>
        cg_p1 cg = (if adb then Ptr c1 0 else Null))"

text \<open>The structure and the descriptor are two new blocks of the host heap.\<close>

lemma cuda_dev_new_ok:
  assumes "1 \<le> n" "n \<le> 3" "sizeof_psgrid_dev adb n \<le> avail h"
  shows "\<exists>h'. (\<forall>p0 p1. cuda_dev_new adb n dim p0 p1 h =
      Inr (\<lparr>dv_p0 = p0, dv_p1 = (if adb then p1 else Null), dv_dim = map (at dim) [0..<n]\<rparr>, h')) \<and>
    (\<forall>b. b < fresh h \<longrightarrow> blocks h' b = blocks h b)"
proof -
  have "n = 1 \<or> n = 2 \<or> n = 3" using assms(1,2) by linarith
  then show ?thesis using assms(3) by (simp add: cuda_dev_new_def malloc_def alloc_def)
qed

context cuda_memory begin

lemma zeroed_block:
  assumes "0 < N" "cuMalloc cu N d = Inr (p, d1)"
  shows "\<exists>b d2. p = Ptr b 0 \<and> dblk d b = None \<and> cuMemset cu p 0 N d1 = Inr d2 \<and>
    dblk d2 = (dblk d)(b \<mapsto> replicate N (Some 0))"
proof -
  obtain b cs where b: "p = Ptr b 0" "dblk d b = None" "length cs = N" "dblk d1 = (dblk d)(b \<mapsto> cs)"
    using malloc_ok[OF assms] by blast
  then have "dblk d1 b = Some cs" "N = length cs" by simp_all
  from memset_ok[OF this, of 0] b show ?thesis by auto
qed

lemma second_buffer_ok:
  assumes N: "0 < N" and adb: "db \<longrightarrow> adb"
    and c: "dblk d = base(c0 \<mapsto> replicate N (Some 0))" "base c0 = None"
  shows "(\<exists>f. cuMalloc cu N d = Inl f \<and> cuda_second_buffer cu adb db (Ptr c0 0) N d = Inl f) \<or>
    (\<exists>c1 d'. cuda_second_buffer cu adb db (Ptr c0 0) N d = Inr (Some (if adb then Ptr c1 0 else Null), d') \<and>
      base c1 = None \<and> (c0 = c1 \<longleftrightarrow> \<not> db) \<and> dblk d' = base(c0 \<mapsto> replicate N (Some 0), c1 \<mapsto> replicate N (Some 0)))"
proof (cases db)
  case False
  then show ?thesis using c by (intro disjI2 exI[of _ c0] exI[of _ d]) (simp add: cuda_second_buffer_def)
next
  case True
  show ?thesis
  proof (cases "cuMalloc cu N d")
    case (Inl f)
    then show ?thesis using True adb by (simp add: cuda_second_buffer_def)
  next
    case (Inr pd)
    obtain p d1 where pd: "pd = (p, d1)" by (cases pd)
    obtain c1 d2 where z: "p = Ptr c1 0" "dblk d c1 = None" "cuMemset cu p 0 N d1 = Inr d2"
        "dblk d2 = (dblk d)(c1 \<mapsto> replicate N (Some 0))"
      using zeroed_block[OF N, of d p d1] Inr pd by auto
    have "c0 \<noteq> c1" "base c1 = None" using z(2) c(1) by (auto split: if_splits)
    then show ?thesis using True adb Inr pd z c by (auto simp: cuda_second_buffer_def)
  qed
qed

lemma cuda_new_ok:
  assumes adb: "db \<longrightarrow> adb" and fits: "grid_fits N e n dim"
    and room: "sizeof_cgrid adb + sizeof_psgrid_dev adb n \<le> avail h"
  shows "(\<exists>f d'. cuMalloc cu N d' = Inl f \<and> Cuda_PSGridNew cu adb e n dim db h d = Inl f) \<or>
    (\<exists>cg hc d'. Cuda_PSGridNew cu adb e n dim db h d = Inr (Some cg, hc, d') \<and>
      fresh_cgrid adb db N e n dim (dblk d) cg (dblk d') \<and> (\<forall>b. b < fresh h \<longrightarrow> blocks hc b = blocks h b))"
proof -
  note N = grid_fitsD(3)[OF fits] and sz = grid_fitsD(5)[OF fits]
  have pos: "0 < accumulate dim n" "0 < e" and n: "1 \<le> n" "n \<le> 3" using grid_fitsD[OF fits] fits by (auto simp: grid_fits_def)
  have bytes: "to_size (PSGrid_num_elms n dim * int e) = N"
    using pos sz fits by (simp add: PSGrid_num_elms_accumulate grid_fits_def nat_mult_distrib)
  let ?h1 = "h\<lparr>blocks := (blocks h)(fresh h \<mapsto> replicate (sizeof_cgrid adb) None),
    fresh := Suc (fresh h), avail := avail h - sizeof_cgrid adb\<rparr>"
  have g: "malloc (sizeof_cgrid adb) h = (Ptr (fresh h) 0, ?h1)" using room by (simp add: malloc_def alloc_def)
  have "sizeof_psgrid_dev adb n \<le> avail ?h1" using room by simp
  from cuda_dev_new_ok[OF n this, of dim] obtain h2 where h2: "\<And>p0 p1. cuda_dev_new adb n dim p0 p1 ?h1 =
      Inr (\<lparr>dv_p0 = p0, dv_p1 = (if adb then p1 else Null), dv_dim = map (at dim) [0..<n]\<rparr>, h2)"
      "\<forall>b. b < fresh h \<longrightarrow> blocks h2 b = blocks h b"
    by auto
  show ?thesis
  proof (cases "cuMalloc cu N d")
    case (Inl f)
    then show ?thesis using g bytes by (auto simp: Cuda_PSGridNew_def)
  next
    case (Inr pd)
    obtain p d1 where pd: "pd = (p, d1)" by (cases pd)
    obtain c0 d2 where z: "p = Ptr c0 0" "dblk d c0 = None" "cuMemset cu p 0 N d1 = Inr d2"
        "dblk d2 = (dblk d)(c0 \<mapsto> replicate N (Some 0))"
      using zeroed_block[OF N, of d p d1] Inr pd by auto
    from second_buffer_ok[OF N adb z(4,2)] show ?thesis
    proof (elim disjE exE conjE)
      fix f assume "cuMalloc cu N d2 = Inl f" "cuda_second_buffer cu adb db (Ptr c0 0) N d2 = Inl f"
      then show ?thesis using Inr pd z g bytes by (auto simp: Cuda_PSGridNew_def)
    next
      fix c1 d' assume s: "cuda_second_buffer cu adb db (Ptr c0 0) N d2 = Inr (Some (if adb then Ptr c1 0 else Null), d')"
        "dblk d c1 = None" "(c0 = c1) = (\<not> db)"
        "dblk d' = (dblk d)(c0 \<mapsto> replicate N (Some 0), c1 \<mapsto> replicate N (Some 0))"
      let ?cg = "\<lparr>cg_p0 = Ptr c0 0, cg_p1 = (if adb then Ptr c1 0 else Null), cg_dim = dim, cg_elm_size = e,
        cg_num_dims = n, cg_num_elms = PSGrid_num_elms n dim,
        cg_dev = \<lparr>dv_p0 = Ptr c0 0, dv_p1 = (if adb then Ptr c1 0 else Null), dv_dim = map (at dim) [0..<n]\<rparr>\<rparr>"
      have "Cuda_PSGridNew cu adb e n dim db h d = Inr (Some ?cg, h2, d')"
        using Inr pd z(1,3) g bytes h2(1) s(1) by (simp add: Cuda_PSGridNew_def)
      moreover have "fresh_cgrid adb db N e n dim (dblk d) ?cg (dblk d')"
        using s(2-4) z(2) bytes by (auto simp: fresh_cgrid_def cgrid_bytes_def PSGrid_num_elms_accumulate)
      ultimately show ?thesis using h2(2) by blast
    qed
  qed
qed

lemma cuda_free_ok:
  assumes "same_data adb base (dblk d) U b0 b1 c0 c1 D0 D1 g h cg"
  shows "\<exists>cg' d'. Cuda_PSGridFree cu adb cg d = Inr (cg', d') \<and> cg_p0 cg' = Null \<and> dblk d' = base"
proof -
  have d0: "dblk d c0 = Some D0" using assms by (auto simp: same_data_def split: if_splits)
  obtain d1 where d1: "cuFree cu (Ptr c0 0) d = Inr d1" "dblk d1 = (dblk d)(c0 := None)" using free_ok[OF d0] by blast
  show ?thesis
  proof (cases "adb \<and> c0 \<noteq> c1")
    case True
    then have "dblk d1 c1 = Some D1" using assms d1 by (auto simp: same_data_def)
    then obtain d2 where d2: "cuFree cu (Ptr c1 0) d1 = Inr d2" "dblk d2 = (dblk d1)(c1 := None)" using free_ok by blast
    then have "dblk d2 = base" using assms True d1 by (auto simp: same_data_def fun_eq_iff)
    then show ?thesis using assms True d1 d2 by (auto simp: same_data_def Cuda_PSGridFree_def)
  next
    case False
    have "dblk d1 = base" using assms False d1 by (auto simp: same_data_def fun_eq_iff split: if_splits)
    then show ?thesis using assms False d1 by (auto simp: same_data_def Cuda_PSGridFree_def)
  qed
qed

end

subsection \<open>Elements in kernels\<close>

text \<open>What a kernel reads at the offset that the accessor of the grid's dimension computes.\<close>

definition cuda_dev_offset :: "psgrid_dev \<Rightarrow> int list \<Rightarrow> fault + int" where
  "cuda_dev_offset g idxs =
     (case idxs of
        [i1] \<Rightarrow> PSGridGetOffset1DDev g i1
      | [i1, i2] \<Rightarrow> PSGridGetOffset2DDev g i1 i2
      | [i1, i2, i3] \<Rightarrow> PSGridGetOffset3DDev g i1 i2 i3
      | _ \<Rightarrow> Inl OutOfBounds)"

definition cuda_elem :: "'d cuda_lib \<Rightarrow> cgrid \<Rightarrow> 'd \<Rightarrow> int list \<Rightarrow> fault + cell list" where
  "cuda_elem cu g d idxs =
     bindE (cuda_dev_offset (cg_dev g) idxs) (\<lambda>k.
       cuRead cu (ptr_add (dv_p0 (cg_dev g)) (k * int (cg_elm_size g))) (cg_elm_size g) d)"

lemma cuda_dev_offset_eq:
  assumes "same_shape adb N e n dim g cg" "1 \<le> n" "n \<le> 3" "length idxs = n"
  shows "cuda_dev_offset (cg_dev cg) idxs = Inr (psgrid_offset g idxs)"
proof -
  have dims: "dv_dim (cg_dev cg) = map (at dim) [0..<n]" "pg_dim g = dim" using assms(1) by (auto simp: same_shape_def)
  show ?thesis
    by (rule length_1_3_cases[OF assms(4,2,3)])
      (auto simp: assms(4)[symmetric] cuda_dev_offset_def psgrid_offset_def PSGridGetOffset1DDev_def PSGridGetOffset2DDev_def
        PSGridGetOffset3DDev_def PSGridGetOffset1D_def PSGridGetOffset2D_def PSGridGetOffset3D_def PSGridDimDev_def
        array_get_def dims nth_append upt_rec)
qed

context cuda_memory begin

lemma same_element:
  assumes fits: "grid_fits N e n dim" and shape: "same_shape adb N e n dim g cg"
    and data: "same_data adb base (dblk d) U b0 b1 c0 c1 D0 D1 g h cg" and js: "inside n dim js"
  shows "cuda_elem cu cg d js = Inr (psgrid_elem g h js)"
proof -
  obtain k where k: "set_offset n dim js = Inr (int k, accumulate dim n)" "k * e + e \<le> N"
    using inside_offset[OF fits js] by blast
  have n: "1 \<le> n" "n \<le> 3" "length js = n" using fits js by (auto simp: grid_fits_def inside_def)
  have "set_offset n dim js = Inr (lin n (idx_of js) dim, accumulate dim n)"
    using set_offset_prefix[of js n dim] n by simp
  moreover have "psgrid_offset g js = lin n (idx_of js) dim"
    using psgrid_offset_lin[of js g] n shape by (simp add: same_shape_def)
  ultimately have o: "psgrid_offset g js = int k" using k(1) by simp
  note l = same_data_lengths[OF data shape]
  have "cuRead cu (Ptr c0 (int (k * e))) e d = Inr (take e (drop (k * e) D0))"
    using read_ok[of d c0 D0 "k * e" e] l k(2) by simp
  moreover have "psgrid_elem g h js = take e (drop (k * e) D0)"
    using l o shape by (simp add: psgrid_elem_def contents_def elem_def same_shape_def)
  ultimately show ?thesis
    using cuda_dev_offset_eq[OF shape n] shape l o by (simp add: cuda_elem_def same_shape_def)
qed

end

subsection \<open>Properties\<close>

definition sizes_of :: "heap \<Rightarrow> nat \<Rightarrow> nat option" where
  "sizes_of h u = map_option length (blocks h u)"

lemma created_alike:
  assumes fits: "grid_fits N e n dim" and adb: "db \<longrightarrow> adb" and h: "heap_ok h"
    and room: "sizeof_PSGrid + (if db then 2 else 1) * N \<le> avail h"
    and cg: "fresh_cgrid adb db N e n dim base cg (dblk d)" "\<forall>b. b < fresh h \<longrightarrow> blocks hc b = blocks h b"
  shows "\<exists>g h1. Ref_PSGridNew e n dim db h = Inr (Some g, h1) \<and>
    both_ok adb base dblk (sizes_of h) N e n dim (g, h1) (cg, hc, d)"
proof -
  let ?b0 = "Suc (fresh h)" and ?b1 = "if db then fresh h + 2 else Suc (fresh h)"
  note N = grid_fitsD(3)[OF fits] and sz = grid_fitsD(5)[OF fits] and dims = grid_fitsD(6)[OF fits]
  have e: "0 < e" and Nn: "N = nat (accumulate dim n) * e" using fits by (auto simp: grid_fits_def)
  obtain g h1 where new: "Ref_PSGridNew e n dim db h = Inr (Some g, h1)" "PSGrid_bytes g = N"
      "psgrid_data g ?b0 ?b1 (replicate N (Some 0)) (replicate N (Some 0)) h1"
      "\<forall>b. b < fresh h \<longrightarrow> blocks h1 b = blocks h b"
    using Ref_PSGridNew_ok[OF h dims e sz Nn room] by blast
  have gf: "pg_elm_size g = e" "pg_num_dims g = n" "pg_dim g = dim" "pg_num_elms g = accumulate dim n"
    using new(1) by (auto simp: PSGrid_num_elms_accumulate Ref_PSGridNew_def Let_def split: prod.splits if_splits)
  obtain c0 c1 where c: "cg_p0 cg = Ptr c0 0" "base c0 = None" "base c1 = None" "c0 = c1 \<longleftrightarrow> \<not> db"
      "dblk d = base(c0 \<mapsto> replicate N (Some 0), c1 \<mapsto> replicate N (Some 0))" "cg_p1 cg = (if adb then Ptr c1 0 else Null)"
    using cg(1) by (auto simp: fresh_cgrid_def)
  have none: "sizes_of h b = None" if "fresh h < b" for b using h that by (simp add: sizes_of_def heap_ok_def)
  have "same_shape adb N e n dim g cg" using gf new(2) cg(1) by (simp add: same_shape_def fresh_cgrid_def)
  moreover have "same_arrays (sizes_of h) h1 hc"
    using new(4) cg(2) heap_ok_fresh[OF h] by (auto simp: same_arrays_def sizes_of_def)
  moreover have "same_data adb base (dblk d) (sizes_of h) ?b0 ?b1 c0 c1 (replicate N (Some 0)) (replicate N (Some 0)) g h1 cg"
    using new(3) c none adb by (auto simp: same_data_def)
  ultimately show ?thesis using both_okI[where dblk = dblk] new(1) by blast
qed


definition demo_device :: heap where
  "demo_device = \<lparr>blocks = (\<lambda>_. None), fresh = 0, avail = 100\<rparr>"

definition demo_arrays :: heap where
  "demo_arrays = \<lparr>blocks = [0 \<mapsto> map Some [3, 0, 0, 0, 5, 0, 0, 0], 1 \<mapsto> map Some [7, 0, 0, 0], 2 \<mapsto> replicate 4 None],
     fresh = 3, avail = 200\<rparr>"

definition demo_arith :: "int arith" where
  "demo_arith = \<lparr>ar_dec = (\<lambda>cs. case cs of Some w # _ \<Rightarrow> uint w | _ \<Rightarrow> 0), ar_enc = (\<lambda>v. [Some (word_of_int v), Some 0, Some 0, Some 0]),
     ar_min = 0, ar_max = 255, ar_thrust = list_thrust\<rparr>"


end
