(* ===== verification/Cuda_Boxes.thy ===== *)
theory Cuda_Boxes imports Cuda_Pitched Cuda_Reference begin

text \<open>
  A pitched buffer refines an array: a program that copies boxes into and out of a
  \<open>BufferCUDADev3D\<close>, through pinned and mapped transfer buffers, leaves in them what the same
  copies of sub-grids of an array in host memory leave there.
\<close>

subsection \<open>Programs of box copies\<close>

datatype box_call =
  BoxIn cuda_host idx idx | BoxOut cuda_host idx idx | BoxOutMapped cuda_mapped idx idx

fun array_call :: "nat \<Rightarrow> nat \<Rightarrow> idx \<Rightarrow> box_call \<Rightarrow> heap \<Rightarrow> fault + heap" where
  "array_call e g s (BoxIn src off z) h = CopyinSubgrid e 3 (Ptr g 0) s (buf_ptr src) off z h"
| "array_call e g s (BoxOut dst off z) h = CopyoutSubgrid e 3 (Ptr g 0) s (buf_ptr dst) off z h"
| "array_call e g s (BoxOutMapped dst off z) h = CopyoutSubgrid e 3 (Ptr g 0) s (buf_ptr dst) off z h"

fun pitched_call ::
    "'d cuda_lib \<Rightarrow> (idx \<Rightarrow> idx \<Rightarrow> bool) \<Rightarrow> ((nat \<times> nat) list \<Rightarrow> (nat \<times> nat) list) \<Rightarrow> box_call \<Rightarrow>
      cuda_dev3d \<times> heap \<times> 'd \<Rightarrow> fault + (cuda_dev3d \<times> heap \<times> 'd)" where
  "pitched_call cu le sched (BoxIn src off z) (b, h, d) =
     bindE (CUDADev3D_Copyin_pinned cu src off z b h d) (\<lambda>(b, d). Inr (b, h, d))"
| "pitched_call cu le sched (BoxOut dst off z) (b, h, d) =
     bindE (CUDADev3D_Copyout_pinned cu le dst off z b h d) (\<lambda>(_, h). Inr (b, h, d))"
| "pitched_call cu le sched (BoxOutMapped dst off z) (b, h, d) =
     bindE (CUDADev3D_Copyout_mapped cu le sched dst off z b h d) (\<lambda>(_, h). Inr (b, h, d))"

text \<open>
  The calls a program may make: a box inside the grid, and a transfer buffer with the room for
  it. A mapped buffer has the device pointer of its memory, and its boxes are ones the kernel
  can copy.
\<close>

fun box_ok :: "'d cuda_lib \<Rightarrow> (nat \<Rightarrow> nat option) \<Rightarrow> nat \<Rightarrow> idx \<Rightarrow> nat \<Rightarrow> nat \<Rightarrow> box_call \<Rightarrow> bool" where
  "box_ok cu U e s pitch g (BoxIn src off z) \<longleftrightarrow> copy_fits e 3 s off z \<and>
     (\<exists>u m. buf_ptr src = Ptr u 0 \<and> u \<noteq> g \<and> U u = Some m \<and> nat (accumulate z 3) * e \<le> m)"
| "box_ok cu U e s pitch g (BoxOut dst off z) \<longleftrightarrow> copy_fits e 3 s off z \<and>
     (\<exists>v m. holds_box dst v e z \<and> v \<noteq> g \<and> U v = Some m \<and> nat (accumulate z 3) * e \<le> m)"
| "box_ok cu U e s pitch g (BoxOutMapped dst off z) \<longleftrightarrow> copy_fits e 3 s off z \<and>
     (\<exists>v m. holds_box dst v e z \<and> v \<noteq> g \<and> U v = Some m \<and> nat (accumulate z 3) * e \<le> m \<and>
       cm_dev_ptr dst = cuHostDevPtr cu (Ptr v 0)) \<and>
     kernel_fits e pitch z \<and> (\<forall>i < 3. 0 < at z i)"

text \<open>An order of sizes that says yes when every component is in order.\<close>

definition componentwise :: "(idx \<Rightarrow> idx \<Rightarrow> bool) \<Rightarrow> bool" where
  "componentwise le \<longleftrightarrow> (\<forall>x y. (\<forall>i < 3. at x i \<le> at y i) \<longrightarrow> le x y)"

lemma inside_componentwise:
  assumes "componentwise le" "copy_fits e 3 s off z"
  shows "le (arr_plus off z) s"
  using assms by (auto simp: componentwise_def copy_fits_def box_in_def at_arr_plus)

subsection \<open>One call\<close>

text \<open>
  The two states: the device holds the array of the host's block \<open>g\<close> with padding, and every
  other block of host memory is the same.
\<close>

definition refines :: "('d \<Rightarrow> nat \<Rightarrow> cell list option) \<Rightarrow> (nat \<Rightarrow> cell list option) \<Rightarrow> (nat \<Rightarrow> nat option) \<Rightarrow>
    nat \<Rightarrow> idx \<Rightarrow> nat \<Rightarrow> nat \<Rightarrow> cuda_dev3d \<Rightarrow> heap \<Rightarrow> heap \<Rightarrow> 'd \<Rightarrow> bool" where
  "refines dblk base U e s g blk b h hc d \<longleftrightarrow>
     (\<exists>D. pitched_at b e s blk D \<and> dblk d = base(blk \<mapsto> D) \<and> blocks h g = Some (array_of b D) \<and>
       (\<forall>u. u \<noteq> g \<longrightarrow> blocks hc u = blocks h u) \<and> (\<forall>u. sizes_of h u = U u))"

lemma scatter_box_take:
  assumes fits: "copy_fits e 3 s off z"
  shows "scatter G (box_lines e 3 s off z) (line_bytes e z) (take (nat (accumulate z 3) * e) S) =
    scatter G (box_lines e 3 s off z) (line_bytes e z) S"
proof (cases "accumulate z 3 = 0")
  case True
  then show ?thesis using copy_empty(4)[OF fits] by metis
next
  case False
  then have pos: "\<And>i. i < 3 \<Longrightarrow> 0 < at z i" using copy_fits_cases[OF fits] by blast
  have "nat (accumulate z 3) * e = length (box_lines e 3 s off z) * line_bytes e z"
    using copy_fits_sizes(3)[OF fits pos] by (simp add: box_lines_def length_collect_offsets line_bytes_def mult.assoc)
  then show ?thesis using scatter_take by metis
qed

text \<open>Both sides write the same box to the same transfer buffer.\<close>

lemma copyout_refines:
  assumes r: "refines dblk base U e s g blk b h hc d"
    and D: "pitched_at b e s blk D" "dblk d = base(blk \<mapsto> D)" "blocks h g = Some (array_of b D)"
    and v: "copy_fits e 3 s off z" "v \<noteq> g" "blocks h v = Some V" "nat (accumulate z 3) * e \<le> length V"
  shows "\<exists>h'. CopyoutSubgrid e 3 (Ptr g 0) s (Ptr v 0) off z h = Inr h' \<and> refines dblk base U e s g blk b h'
    (hc\<lparr>blocks := (blocks hc)(v \<mapsto> list_write V 0 (subgrid e 3 s off z (array_of b D)))\<rparr>) d"
proof -
  let ?V = "list_write V 0 (subgrid e 3 s off z (array_of b D))"
  have len: "nat (accumulate s 3) * e \<le> length (array_of b D)" using length_array_of[OF D(1)] by simp
  have same: "\<And>u. u \<noteq> g \<Longrightarrow> blocks hc u = blocks h u" "\<And>u. sizes_of h u = U u" using r by (auto simp: refines_def)
  have "CopyoutSubgrid e 3 (Ptr g 0) s (Ptr v 0) off z h = Inr (h\<lparr>blocks := (blocks h)(v \<mapsto> ?V)\<rparr>)"
    using CopyoutSubgrid_ok[OF v(1,2) D(3) v(3) len, of 0] v(4) by simp
  moreover have "length ?V = length V" using length_subgrid[OF v(1) len] v(4) by simp
  then have "refines dblk base U e s g blk b (h\<lparr>blocks := (blocks h)(v \<mapsto> ?V)\<rparr>) (hc\<lparr>blocks := (blocks hc)(v \<mapsto> ?V)\<rparr>) d"
    unfolding refines_def using D v(2,3) same same(2)[of v] by (intro exI[of _ D]) (auto simp: sizes_of_def)
  ultimately show ?thesis by blast
qed

context cuda_memory begin

lemma call_refines:
  assumes r: "refines dblk base U e s g blk b h hc d" and c: "box_ok cu U e s (pp_pitch (c3_pp b)) g c"
    and le: "componentwise le" and sched: "any_order sched"
  shows "\<exists>h' hc' d'. array_call e g s c h = Inr h' \<and> pitched_call cu le sched c (b, hc, d) = Inr (b, hc', d') \<and>
    refines dblk base U e s g blk b h' hc' d'"
proof -
  obtain D where D: "pitched_at b e s blk D" "dblk d = base(blk \<mapsto> D)" "blocks h g = Some (array_of b D)"
      "\<And>u. u \<noteq> g \<Longrightarrow> blocks hc u = blocks h u" "\<And>u. sizes_of h u = U u"
    using r unfolding refines_def by blast
  have d: "dblk d blk = Some D" using D(2) by simp
  have len: "nat (accumulate s 3) * e \<le> length (array_of b D)" using length_array_of[OF D(1)] by simp
  have blk: "\<exists>S. blocks h u = Some S \<and> blocks hc u = Some S \<and> length S = m" if "u \<noteq> g" "U u = Some m" for u m
    using that D(4)[of u] D(5)[of u] by (auto simp: sizes_of_def)
  show ?thesis
  proof (cases c)
    case (BoxIn src off z)
    obtain u m where u: "copy_fits e 3 s off z" "buf_ptr src = Ptr u 0" "u \<noteq> g" "U u = Some m" "nat (accumulate z 3) * e \<le> m"
      using c BoxIn by auto
    obtain S where S: "blocks h u = Some S" "blocks hc u = Some S" "length S = m" using blk[OF u(3,4)] by blast
    let ?G = "scatter (array_of b D) (box_lines e 3 s off z) (line_bytes e z) S"
    have h': "array_call e g s c h = Inr (h\<lparr>blocks := (blocks h)(g \<mapsto> ?G)\<rparr>)"
      using CopyinSubgrid_ok[OF u(1,3) D(3) S(1) len, of 0] u(2,5) S(3) BoxIn by simp
    obtain d' D' where d': "CUDADev3D_Copyin_pinned cu src off z b hc d = Inr (b, d')" "dblk d' = (dblk d)(blk \<mapsto> D')"
        "pitched_at b e s blk D'" "array_of b D' = ?G"
      using Copyin_pinned_ok[OF D(1) d u(1,2) S(2)] u(5) S(3) unfolding scatter_box_take[OF u(1)] by blast
    have "length ?G = length (array_of b D)" using length_array_of[OF d'(3)] length_array_of[OF D(1)] d'(4) by simp
    then have "refines dblk base U e s g blk b (h\<lparr>blocks := (blocks h)(g \<mapsto> ?G)\<rparr>) hc d'"
      unfolding refines_def using d'(2-4) D D(5)[of g] by (intro exI[of _ D']) (auto simp: sizes_of_def split: if_splits)
    then show ?thesis using h' d'(1) BoxIn by auto
  next
    case (BoxOut dst off z)
    obtain v m where v: "copy_fits e 3 s off z" "holds_box dst v e z" "v \<noteq> g" "U v = Some m" "nat (accumulate z 3) * e \<le> m"
      using c BoxOut by auto
    obtain V where V: "blocks h v = Some V" "blocks hc v = Some V" "length V = m" using blk[OF v(3,4)] by blast
    have "buf_ptr dst = Ptr v 0" using v(2) by (simp add: holds_box_def)
    moreover have "pitched_call cu le sched c (b, hc, d) =
        Inr (b, hc\<lparr>blocks := (blocks hc)(v \<mapsto> list_write V 0 (subgrid e 3 s off z (array_of b D)))\<rparr>, d)"
      using Copyout_pinned_ok[where le = le, OF D(1) d v(1,2) V(2)] v(5) V(3) inside_componentwise[OF le v(1)] BoxOut by simp
    ultimately show ?thesis using copyout_refines[OF r D(1-3) v(1,3) V(1)] v(5) V(3) BoxOut by simp
  next
    case (BoxOutMapped dst off z)
    obtain v m where v: "copy_fits e 3 s off z" "holds_box dst v e z" "v \<noteq> g" "U v = Some m" "nat (accumulate z 3) * e \<le> m"
        "cm_dev_ptr dst = cuHostDevPtr cu (Ptr v 0)" "kernel_fits e (pp_pitch (c3_pp b)) z" "\<And>i. i < 3 \<Longrightarrow> 0 < at z i"
      using c BoxOutMapped by auto
    obtain V where V: "blocks h v = Some V" "blocks hc v = Some V" "length V = m" using blk[OF v(3,4)] by blast
    have "buf_ptr dst = Ptr v 0" using v(2) by (simp add: holds_box_def)
    moreover have "pitched_call cu le sched c (b, hc, d) =
        Inr (b, hc\<lparr>blocks := (blocks hc)(v \<mapsto> list_write V 0 (subgrid e 3 s off z (array_of b D)))\<rparr>, d)"
      using Copyout_mapped_ok[where le = le, OF D(1) d v(1,2,6) V(2) _ v(7) sched inside_componentwise[OF le v(1)] v(8)] v(5) V(3) BoxOutMapped by simp
    ultimately show ?thesis using copyout_refines[OF r D(1-3) v(1,3) V(1)] v(5) V(3) BoxOutMapped by simp
  qed
qed

end

context cuda_memory begin

lemma calls_refine:
  assumes "refines dblk base U e s g blk b h hc d" "\<forall>c \<in> set cs. box_ok cu U e s (pp_pitch (c3_pp b)) g c"
    and le: "componentwise le" and sched: "any_order sched"
  shows "\<exists>h' hc' d'. foldE (array_call e g s) cs h = Inr h' \<and>
    foldE (pitched_call cu le sched) cs (b, hc, d) = Inr (b, hc', d') \<and> refines dblk base U e s g blk b h' hc' d'"
  using assms(1,2)
proof (induction cs arbitrary: h hc d)
  case (Cons c cs)
  then obtain h1 hc1 d1 where "array_call e g s c h = Inr h1" "pitched_call cu le sched c (b, hc, d) = Inr (b, hc1, d1)"
      "refines dblk base U e s g blk b h1 hc1 d1"
    using call_refines[OF Cons.prems(1) _ le sched, of c] by auto
  then show ?case using Cons.IH[of h1 hc1 d1] Cons.prems(2) by auto
qed auto

text \<open>A new buffer of three dimensions gets a pitched block with a row for every line of the grid.\<close>

lemma allocated_pitched:
  assumes s: "0 < e" "\<forall>i < 3. 0 < at s i" "accumulate s 3 * int e < 2 ^ 64"
    and a: "CUDADev3D_Allocate cu 3 e s (CUDADev3D_new 3 e) d0 = Inr (b, d)"
  shows "\<exists>blk D. pitched_at b e s blk D \<and> dblk d0 blk = None \<and> dblk d = (dblk d0)(blk \<mapsto> D)"
proof -
  have pos: "\<And>i. i < 3 \<Longrightarrow> 0 < at s i" using s(2) by blast
  have acc: "accumulate s 3 \<noteq> 0" using pos by (force simp: accumulate_eq_0_iff)
  have fits: "copy_fits e 3 s (Arr3 0 0 0) s" using s by (auto simp: copy_fits_def box_in_def all_less_num less_imp_le)
  note bs = box_sizes[OF fits s(2)]
  obtain pp where pp: "cuMalloc3D cu (nat (at s 0) * e) (nat (at s 1)) (nat (at s 2)) d0 = Inr (pp, d)"
      "b = (CUDADev3D_new 3 e)\<lparr>buf_size := s, c3_pp := pp, buf_ptr := pp_ptr pp\<rparr>"
    using a acc bs by (auto simp: CUDADev3D_Allocate_def CUDADev3D_new_def VBuffer_Delete_def CUDADev3D_GetChunk3D_def
        bindE_eq_Inr split: prod.splits)
  have "0 < nat (at s 0) * e * nat (at s 1) * nat (at s 2)" using s(1) pos[of 0] pos[of 1] pos[of 2] by simp
  from malloc3D_ok[OF this pp(1)] obtain blk D where D: "pp_ptr pp = Ptr blk 0" "nat (at s 0) * e \<le> pp_pitch pp"
      "pp_ysize pp = nat (at s 1)" "dblk d0 blk = None" "length D = pp_pitch pp * nat (at s 1) * nat (at s 2)"
      "dblk d = (dblk d0)(blk \<mapsto> D)" by blast
  have "pitched_at b e s blk D" using D s pp(2) by (simp add: pitched_at_def CUDADev3D_new_def)
  then show ?thesis using D(4,6) by blast
qed

lemma deleted_pitched:
  assumes "pitched_at b e s blk D" "dblk d = base(blk \<mapsto> D)" "base blk = None"
  shows "\<exists>b2 d2. VBuffer_Delete (CUDADev3D_DeleteChunk cu) b d = Inr (b2, d2) \<and> buf_ptr b2 = Null \<and> dblk d2 = base"
proof -
  have "dblk d blk = Some D" using assms(2) by simp
  then obtain d2 where d2: "cuFree cu (Ptr blk 0) d = Inr d2" "dblk d2 = (dblk d)(blk := None)" using free_ok by blast
  then have "dblk d2 = base" using assms(2,3) by auto
  then show ?thesis using assms(1) d2(1) by (auto simp: VBuffer_Delete_def CUDADev3D_DeleteChunk_def pitched_at_def)
qed

end

subsection \<open>Properties\<close>

text \<open>C35: A new pitched buffer behaves as an array in host memory. A program that copies boxes
  into it and out of it, through pinned buffers or, with the library's copy or the kernel,
  through mapped ones, in any order and number, never fails, leaves in every transfer buffer
  the bytes that the same copies of sub-grids of an array leave there, and leaves the buffer
  holding that array; deleting the buffer then leaves the device memory as it was.\<close>

theorem pitched_buffer_refines_array:
  assumes "cuda_memory cu dblk" and "0 < e" "\<forall>i < 3. 0 < at s i" "accumulate s 3 * int e < 2 ^ 64"
    and "CUDADev3D_Allocate cu 3 e s (CUDADev3D_new 3 e) d0 = Inr (b, d)"
    and "\<forall>c \<in> set cs. box_ok cu (sizes_of h) e s (CUDADev3D_GetPitch b) g c"
    and "componentwise le" and "any_order sched"
  shows "\<exists>blk D. dblk d blk = Some D \<and> length (array_of b D) = nat (accumulate s 3) * e \<and>
    (blocks h g = Some (array_of b D) \<longrightarrow>
      (\<exists>h' hc' d' D' b2 d2. foldE (array_call e g s) cs h = Inr h' \<and>
        foldE (pitched_call cu le sched) cs (b, h, d) = Inr (b, hc', d') \<and>
        (\<forall>u. u \<noteq> g \<longrightarrow> blocks hc' u = blocks h' u) \<and>
        dblk d' = (dblk d0)(blk \<mapsto> D') \<and> blocks h' g = Some (array_of b D') \<and>
        VBuffer_Delete (CUDADev3D_DeleteChunk cu) b d' = Inr (b2, d2) \<and> dblk d2 = dblk d0))"
proof -
  obtain blk D where D: "pitched_at b e s blk D" "dblk d0 blk = None" "dblk d = (dblk d0)(blk \<mapsto> D)"
    using cuda_memory.allocated_pitched[OF assms(1-5)] by blast
  have "\<exists>h' hc' d' D' b2 d2. foldE (array_call e g s) cs h = Inr h' \<and>
        foldE (pitched_call cu le sched) cs (b, h, d) = Inr (b, hc', d') \<and>
        (\<forall>u. u \<noteq> g \<longrightarrow> blocks hc' u = blocks h' u) \<and>
        dblk d' = (dblk d0)(blk \<mapsto> D') \<and> blocks h' g = Some (array_of b D') \<and>
        VBuffer_Delete (CUDADev3D_DeleteChunk cu) b d' = Inr (b2, d2) \<and> dblk d2 = dblk d0"
    if g: "blocks h g = Some (array_of b D)"
  proof -
    have "refines dblk (dblk d0) (sizes_of h) e s g blk b h h d" using D g by (auto simp: refines_def)
    moreover have "\<forall>c \<in> set cs. box_ok cu (sizes_of h) e s (pp_pitch (c3_pp b)) g c"
      using assms(6) by (simp add: CUDADev3D_GetPitch_def)
    ultimately obtain h' hc' d' where r: "foldE (array_call e g s) cs h = Inr h'" "foldE (pitched_call cu le sched) cs (b, h, d) = Inr (b, hc', d')"
        "refines dblk (dblk d0) (sizes_of h) e s g blk b h' hc' d'"
      using cuda_memory.calls_refine[OF assms(1) _ _ assms(7,8)] by blast
    then obtain D' where D': "pitched_at b e s blk D'" "dblk d' = (dblk d0)(blk \<mapsto> D')" "blocks h' g = Some (array_of b D')"
        "\<forall>u. u \<noteq> g \<longrightarrow> blocks hc' u = blocks h' u" by (auto simp: refines_def)
    then show ?thesis using r(1,2) cuda_memory.deleted_pitched[OF assms(1) D'(1,2) D(2)] by blast
  qed
  then show ?thesis using D(3) length_array_of[OF D(1)] by auto
qed

definition demo_dev0 :: heap where
  "demo_dev0 = \<lparr>blocks = (\<lambda>_. None), fresh = 0, avail = 100\<rparr>"

definition demo_dev1 :: heap where
  "demo_dev1 = \<lparr>blocks = [0 \<mapsto> replicate 32 None], fresh = 1, avail = 68\<rparr>"

definition demo_host :: heap where
  "demo_host = \<lparr>blocks = [0 \<mapsto> map Some [1, 0, 0, 0, 2, 0, 0, 0], 1 \<mapsto> replicate 16 None, 2 \<mapsto> replicate 8 None],
     fresh = 3, avail = 100\<rparr>"

definition demo_pinned :: "nat \<Rightarrow> cuda_host" where
  "demo_pinned u = (CUDAHost_new 3 4)\<lparr>buf_ptr := Ptr u 0, buf_size := Arr3 1 2 1\<rparr>"

definition demo_boxes :: "box_call list" where
  "demo_boxes = [BoxIn (demo_pinned 0) (Arr3 1 0 0) (Arr3 1 2 1),
     BoxOutMapped (demo_mapped\<lparr>buf_ptr := Ptr 2 0, cm_dev_ptr := Ptr 2 0, buf_size := Arr3 2 1 1\<rparr>) (Arr3 0 1 0) (Arr3 2 1 1),
     BoxOut (demo_pinned 0) (Arr3 0 1 0) (Arr3 1 1 1)]"

text \<open>
  Two elements go to the last column of a grid of two by two, then its last line goes out with
  the kernel, then its last row's first element with the library's copy.
\<close>

theorem pitched_buffer_refines_array_witness:
  "\<exists>h' hc' d'. foldE (array_call 4 1 (Arr3 2 2 1)) demo_boxes demo_host = Inr h' \<and>
    foldE (pitched_call (heap_device 16) (\<lambda>x y. \<forall>i < 3. at x i \<le> at y i) rev) demo_boxes (demo_buffer3, demo_host, demo_dev1) =
      Inr (demo_buffer3, hc', d') \<and> blocks hc' 0 = blocks h' 0 \<and> blocks hc' 2 = blocks h' 2"
proof -
  let ?s = "Arr3 2 2 1 :: idx" and ?le = "\<lambda>x y :: idx. \<forall>i < 3. at x i \<le> at y i"
  have s: "0 < (4::nat)" "\<forall>i < 3. 0 < at ?s i" "accumulate ?s 3 * int 4 < 2 ^ 64" by (simp_all add: all_less_num accumulate_num)
  have a: "CUDADev3D_Allocate (heap_device 16) 3 4 ?s (CUDADev3D_new 3 4) demo_dev0 = Inr (demo_buffer3, demo_dev1)"
    by (simp add: CUDADev3D_Allocate_def VBuffer_Delete_def CUDADev3D_GetChunk3D_def CUDADev3D_new_def demo_buffer3_def
        heap_device_def padded_def box_bytes_def accumulate_num demo_dev0_def demo_dev1_def malloc_def alloc_def or_fail_def
        Let_def size_mult_def)
  have c: "\<forall>c \<in> set demo_boxes. box_ok (heap_device 16) (sizes_of demo_host) 4 ?s (CUDADev3D_GetPitch demo_buffer3) 1 c"
    by (simp add: demo_boxes_def demo_pinned_def demo_mapped_def demo_buffer3_def CUDADev3D_GetPitch_def copy_fits_def box_in_def
        all_less_num accumulate_num holds_box_def kernel_fits_def sizes_of_def demo_host_def heap_device_def CUDAHost_new_def
        CUDAHostMapped_new_def VBuffer_GetLinearSize_def LinearSize_static_def size_mult_def)
  have le: "componentwise ?le" by (simp add: componentwise_def)
  have sched: "any_order rev" by (simp add: any_order_def)
  have g: "blocks demo_host 1 = Some (array_of demo_buffer3 (replicate 32 None))"
    by (simp add: demo_host_def array_of_def demo_buffer3_def CUDADev3D_new_def unpadded_def upt_rec flip: replicate_add)
  obtain blk D where D: "live demo_dev1 blk = Some D"
    "blocks demo_host 1 = Some (array_of demo_buffer3 D) \<longrightarrow>
      (\<exists>h' hc' d'. foldE (array_call 4 1 ?s) demo_boxes demo_host = Inr h' \<and>
        foldE (pitched_call (heap_device 16) ?le rev) demo_boxes (demo_buffer3, demo_host, demo_dev1) = Inr (demo_buffer3, hc', d') \<and>
        (\<forall>u. u \<noteq> 1 \<longrightarrow> blocks hc' u = blocks h' u))"
    using pitched_buffer_refines_array[OF heap_dev.cuda_memory_axioms s a c le sched] by blast
  have "D = replicate 32 None" using D(1) by (auto simp: live_def demo_dev1_def split: if_splits)
  then show ?thesis using D(2) g by fastforce
qed

end
