(* ===== verification/Cuda_Grid.thy ===== *)
theory Cuda_Grid imports Device_Access Cuda_Buffer Cuda_Runtime begin

text \<open>
  The class \<open>GridMPICUDA3D\<close> (\<open>runtime/grid_mpi_cuda.h\<close>, \<open>runtime/grid_mpi_cuda.cc\<close>,
  \<open>runtime/reduce_mpi_cuda.cu\<close>): the local part of a distributed grid in pitched memory of a
  device. Its data buffers are objects that a number names, as in \<open>Grid_Base\<close>, since the two
  may be one; the halo buffers belong to the grid and are kept in it. A pair of buffers has the
  backward side first.
\<close>

subsection \<open>Data\<close>

record 'd cuda_world = world +
  dev_mem :: 'd
  bufs3 :: "nat \<Rightarrow> cuda_dev3d option"

record cuda_grid = gridmpi +
  gc_dev :: grid_dev3d
  gc_self_cuda :: "(cuda_mapped \<times> cuda_mapped) list"
  gc_self_mpi :: "(buffer \<times> buffer) list"
  gc_peer_cuda :: "(cuda_host \<times> cuda_host) list"
  gc_peer_dev :: "(cuda_dev \<times> cuda_dev) list"

text \<open>A remote grid has no remote grid of its own, as in \<open>Grid_MPI\<close>.\<close>

record cuda_mgrid = cuda_grid +
  gc_remote_grid :: "cuda_grid option"
  gc_remote_grid_active :: bool

definition to_cuda_mgrid :: "cuda_grid \<Rightarrow> cuda_mgrid" where
  "to_cuda_mgrid g = cuda_grid.extend g \<lparr>gc_remote_grid = None, gc_remote_grid_active = False\<rparr>"

definition side :: "bool \<Rightarrow> 'b \<times> 'b \<Rightarrow> 'b" where
  "side fw p = (if fw then snd p else fst p)"

definition set_side :: "bool \<Rightarrow> 'b \<Rightarrow> 'b \<times> 'b \<Rightarrow> 'b \<times> 'b" where
  "set_side fw x p = (if fw then (fst p, x) else (x, snd p))"

text \<open>The buffer object of dimension \<open>i\<close> and a side; a null array is the empty list.\<close>

definition halo_buf :: "nat \<Rightarrow> bool \<Rightarrow> ('b \<times> 'b) list \<Rightarrow> fault + 'b" where
  "halo_buf i fw ps = bindE (array_get ps (int i)) (\<lambda>p. Inr (side fw p))"

definition put_halo :: "nat \<Rightarrow> bool \<Rightarrow> 'b \<Rightarrow> ('b \<times> 'b) list \<Rightarrow> ('b \<times> 'b) list" where
  "put_halo i fw x ps = ps[i := set_side fw x (ps ! i)]"

definition buf3_at :: "nat option \<Rightarrow> 'd cuda_world \<Rightarrow> fault + cuda_dev3d" where
  "buf3_at k st =
     (case k of
        None \<Rightarrow> Inl NullPointer
      | Some k \<Rightarrow> (case bufs3 st k of None \<Rightarrow> Inl DanglingPointer | Some b \<Rightarrow> Inr b))"

subsection \<open>Construction and buffers\<close>

definition null_dev3d :: grid_dev3d where
  "null_dev3d = \<lparr>d3_p0 = Null, d3_dim = IntegerArray0, d3_local_size = IntegerArray0,
     d3_local_offset = IntegerArray0, d3_pitch = 0, d3_halo = Arr3 (Null, Null) (Null, Null) (Null, Null),
     d3_halo_width = Arr3 (0, 0) (0, 0) (0, 0), d3_diag = False\<rparr>"

text \<open>\<open>FixupBufferPointers\<close>: the loop that fills the structure for kernels is \<open>FixupDev\<close>.\<close>

definition Cuda_FixupBufferPointers :: "'g cuda_grid_scheme \<Rightarrow> 'd cuda_world \<Rightarrow> fault + 'g cuda_grid_scheme" where
  "Cuda_FixupBufferPointers g st =
     (case data_buffer0 g of
        None \<Rightarrow> Inr (g\<lparr>data0 := Null, data1 := Null,
          gc_dev := (gc_dev g)\<lparr>d3_p0 := Null, d3_diag := gm_halo_has_diagonal g\<rparr>\<rparr>)
      | Some k \<Rightarrow>
          bindE (buf3_at (Some k) st) (\<lambda>b0.
          bindE (buf3_at (data_buffer1 g) st) (\<lambda>b1.
          let g = g\<lparr>data0 := buf_ptr b0, data1 := buf_ptr b1\<rparr>
          in if length (gc_peer_dev g) < grid_num_dims g then Inl OutOfBounds
             else bindE (FixupDev (CUDADev3D_GetPitch b0) (\<lambda>i fw. buf_ptr (side fw (gc_peer_dev g ! i))) g (gc_dev g))
                    (\<lambda>(g, dev). Inr (g\<lparr>gc_dev := dev\<rparr>)))))"

definition GridMPICUDA3D_new ::
    "int \<Rightarrow> nat \<Rightarrow> nat \<Rightarrow> idx \<Rightarrow> bool \<Rightarrow> idx \<Rightarrow> idx \<Rightarrow> idx \<Rightarrow> nat \<Rightarrow> 'd cuda_world \<Rightarrow> fault + cuda_grid" where
  "GridMPICUDA3D_new type e n sz double_buffering global_offset local_offset local_size attr st =
     (let g = gridmpi.extend (GridMPI_new type e n sz double_buffering global_offset local_offset local_size attr)
            \<lparr>gc_dev = null_dev3d, gc_self_cuda = [], gc_self_mpi = [], gc_peer_cuda = [], gc_peer_dev = []\<rparr>
      in if gm_empty g then Inr g
         else Cuda_FixupBufferPointers (g\<lparr>gm_halo_self_fw := [], gm_halo_self_bw := []\<rparr>) st)"

text \<open>\<open>new BufferCUDADev3D(num_dims(), elm_size())\<close> and \<open>Allocate(local_size())\<close>.\<close>

definition new_pitched_buffer ::
    "'d cuda_lib \<Rightarrow> 'g cuda_grid_scheme \<Rightarrow> 'd cuda_world \<Rightarrow> fault + (nat \<times> 'd cuda_world)" where
  "new_pitched_buffer cu g st =
     bindE (CUDADev3D_Allocate cu (grid_num_dims g) (grid_elm_size g) (gm_local_size g)
              (CUDADev3D_new (grid_num_dims g) (grid_elm_size g)) (dev_mem st)) (\<lambda>(b, d).
       let k = next_buf st
       in Inr (k, st\<lparr>dev_mem := d, bufs3 := (bufs3 st)(k \<mapsto> b), next_buf := Suc k\<rparr>))"

definition Cuda_InitBuffer ::
    "'d cuda_lib \<Rightarrow> 'g cuda_grid_scheme \<Rightarrow> 'd cuda_world \<Rightarrow> fault + ('g cuda_grid_scheme \<times> 'd cuda_world)" where
  "Cuda_InitBuffer cu g st =
     (if gm_empty g then Inr (g, st)
      else bindE (new_pitched_buffer cu g st) (\<lambda>(k0, st).
        bindE (if grid_double g then new_pitched_buffer cu g st else Inr (k0, st)) (\<lambda>(k1, st).
          let n = grid_num_dims g; e = grid_elm_size g;
              g = g\<lparr>data_buffer0 := Some k0, data_buffer1 := Some k1,
                    gc_self_cuda := replicate n (CUDAHostMapped_new1 e, CUDAHostMapped_new1 e),
                    gc_self_mpi := replicate n (BufferHost_new1 e, BufferHost_new1 e),
                    gc_peer_cuda := replicate n (CUDAHost_new1 e, CUDAHost_new1 e),
                    gc_peer_dev := replicate n (CUDADev_new1 e, CUDADev_new1 e)\<rparr>
          in bindE (Cuda_FixupBufferPointers g st) (\<lambda>g. Inr (g, st)))))"

definition GridMPICUDA3D_Create ::
    "'d cuda_lib \<Rightarrow> int \<Rightarrow> nat \<Rightarrow> nat \<Rightarrow> idx \<Rightarrow> bool \<Rightarrow> idx \<Rightarrow> idx \<Rightarrow> idx \<Rightarrow> nat \<Rightarrow> 'd cuda_world \<Rightarrow>
      fault + (cuda_grid \<times> 'd cuda_world)" where
  "GridMPICUDA3D_Create cu type e n sz double_buffering global_offset local_offset local_size attr st =
     bindE (GridMPICUDA3D_new type e n sz double_buffering global_offset local_offset local_size attr st) (\<lambda>g.
       Cuda_InitBuffer cu g st)"

text \<open>\<open>Resize\<close>, inherited; the virtual \<open>EnsureCapacity\<close> and \<open>FixupBufferPointers\<close> are the device's.\<close>

definition Cuda_Resize ::
    "'d cuda_lib \<Rightarrow> idx \<Rightarrow> idx \<Rightarrow> 'g cuda_grid_scheme \<Rightarrow> 'd cuda_world \<Rightarrow> fault + ('g cuda_grid_scheme \<times> 'd cuda_world)" where
  "Cuda_Resize cu local_offset local_size g st =
     bindE (assertE (\<not> grid_double g)) (\<lambda>_.
     bindE (buf3_at (data_buffer0 g) st) (\<lambda>b.
     bindE (VBuffer_EnsureCapacity1 (CUDADev3D_Allocate cu) local_size b (dev_mem st)) (\<lambda>(b, d).
     let st = st\<lparr>dev_mem := d, bufs3 := (bufs3 st)(the (data_buffer0 g) \<mapsto> b)\<rparr>
     in bindE (Cuda_FixupBufferPointers (g\<lparr>gm_local_size := local_size, gm_local_offset := local_offset\<rparr>) st)
          (\<lambda>g. Inr (g, st)))))"

definition Cuda_EnsureRemoteGrid ::
    "'d cuda_lib \<Rightarrow> idx \<Rightarrow> idx \<Rightarrow> cuda_mgrid \<Rightarrow> 'd cuda_world \<Rightarrow> fault + (cuda_mgrid \<times> 'd cuda_world)" where
  "Cuda_EnsureRemoteGrid cu local_offset local_size g st =
     (case gc_remote_grid g of
        None \<Rightarrow>
          bindE (GridMPICUDA3D_Create cu (grid_type g) (grid_elm_size g) (grid_num_dims g) (grid_size g) False
                   (gm_global_offset g) local_offset local_size 0 st)
            (\<lambda>(r, st). Inr (g\<lparr>gc_remote_grid := Some r\<rparr>, st))
      | Some r \<Rightarrow>
          bindE (Cuda_Resize cu local_offset local_size r st)
            (\<lambda>(r, st). Inr (g\<lparr>gc_remote_grid := Some r\<rparr>, st)))"

subsection \<open>Deletion\<close>

text \<open>\<open>Grid::DeleteBuffers\<close> on buffers of this class.\<close>

definition delete_buf3 :: "'d cuda_lib \<Rightarrow> nat option \<Rightarrow> 'd cuda_world \<Rightarrow> fault + 'd cuda_world" where
  "delete_buf3 cu k st =
     (case k of
        None \<Rightarrow> Inr st
      | Some k \<Rightarrow>
          (case bufs3 st k of
             None \<Rightarrow> Inl BadFree
           | Some b \<Rightarrow>
               bindE (CUDADev3D_delete cu b (hp st) (dev_mem st)) (\<lambda>(h, d).
                 Inr (st\<lparr>hp := h, dev_mem := d, bufs3 := (bufs3 st)(k := None)\<rparr>))))"

definition Cuda_Grid_DeleteBuffers ::
    "'d cuda_lib \<Rightarrow> 'g cuda_grid_scheme \<Rightarrow> 'd cuda_world \<Rightarrow> fault + ('g cuda_grid_scheme \<times> 'd cuda_world)" where
  "Cuda_Grid_DeleteBuffers cu g st =
     bindE (if data0 g \<noteq> Null
            then bindE (delete_buf3 cu (data_buffer0 g) st) (\<lambda>st. Inr (g\<lparr>data0 := Null\<rparr>, st))
            else Inr (g, st)) (\<lambda>(g, st).
       if grid_double g \<and> data1 g \<noteq> Null
       then bindE (delete_buf3 cu (data_buffer1 g) st) (\<lambda>st. Inr (g\<lparr>data1 := Null\<rparr>, st))
       else Inr (g, st))"

text \<open>\<open>GridMPI::DeleteBuffers\<close>, called by the class's own, with \<open>del_remote\<close> as in \<open>Grid_MPI\<close>.\<close>

definition Cuda_GridMPI_DeleteBuffers ::
    "'d cuda_lib \<Rightarrow> ('d cuda_world \<Rightarrow> fault + 'd cuda_world) \<Rightarrow> 'g cuda_grid_scheme \<Rightarrow> 'd cuda_world \<Rightarrow>
      fault + ('g cuda_grid_scheme \<times> 'd cuda_world)" where
  "Cuda_GridMPI_DeleteBuffers cu del_remote g st =
     (if gm_empty g then Inr (g, st)
      else bindE (free_halos g (hp st)) (\<lambda>(g, h).
        bindE (del_remote (st\<lparr>hp := h\<rparr>)) (\<lambda>st.
          Cuda_Grid_DeleteBuffers cu (g\<lparr>gm_halo_self_fw := [], gm_halo_self_bw := [],
            gm_halo_peer_fw := [], gm_halo_peer_bw := []\<rparr>) st)))"

definition delete_both :: "('b \<Rightarrow> heap \<times> 'd \<Rightarrow> fault + (heap \<times> 'd)) \<Rightarrow> nat \<Rightarrow> ('b \<times> 'b) list \<Rightarrow> heap \<times> 'd \<Rightarrow> fault + (heap \<times> 'd)" where
  "delete_both del i ps s =
     (if ps = [] then Inr s
      else bindE (array_get ps (int i)) (\<lambda>p. bindE (del (fst p) s) (del (snd p))))"

text \<open>
  Within one turn of the outer loop the code deletes side 0 of the four arrays and then side 1;
  the objects are distinct, so the order of their deletions does not show.
\<close>

definition delete_halo_bufs ::
    "'d cuda_lib \<Rightarrow> 'g cuda_grid_scheme \<Rightarrow> heap \<times> 'd \<Rightarrow> fault + ('g cuda_grid_scheme \<times> heap \<times> 'd)" where
  "delete_halo_bufs cu g s =
     foldE (\<lambda>i (g, s).
       bindE (delete_both (\<lambda>b (h, d). bindE (CUDAHostMapped_delete cu b h) (\<lambda>h. Inr (h, d))) i (gc_self_cuda g) s) (\<lambda>s.
       bindE (delete_both (\<lambda>b (h, d). bindE (Buffer_Delete b h) (\<lambda>(_, h). Inr (h, d))) i (gc_self_mpi g) s) (\<lambda>s.
       bindE (delete_both (\<lambda>b (h, d). bindE (CUDAHost_delete cu b h) (\<lambda>h. Inr (h, d))) i (gc_peer_cuda g) s) (\<lambda>s.
       bindE (delete_both (\<lambda>b (h, d). CUDADev_delete cu b h d) i (gc_peer_dev g) s) (\<lambda>s.
       bindE (array_get (gm_halo_peer_fw g) (int i)) (\<lambda>_.
       bindE (array_get (gm_halo_peer_bw g) (int i)) (\<lambda>_.
         Inr (g\<lparr>gm_halo_peer_fw := (gm_halo_peer_fw g)[i := Null],
                gm_halo_peer_bw := (gm_halo_peer_bw g)[i := Null]\<rparr>, s))))))))
     [0..<grid_num_dims g] (g, s)"

definition Cuda_DeleteBuffers ::
    "'d cuda_lib \<Rightarrow> ('d cuda_world \<Rightarrow> fault + 'd cuda_world) \<Rightarrow> 'g cuda_grid_scheme \<Rightarrow> 'd cuda_world \<Rightarrow>
      fault + ('g cuda_grid_scheme \<times> 'd cuda_world)" where
  "Cuda_DeleteBuffers cu del_remote g st =
     (if gm_empty g then Inr (g, st)
      else bindE (delete_halo_bufs cu g (hp st, dev_mem st)) (\<lambda>(g, h, d).
        Cuda_GridMPI_DeleteBuffers cu del_remote
          (g\<lparr>gc_self_cuda := [], gc_self_mpi := [], gc_peer_cuda := [], gc_peer_dev := []\<rparr>)
          (st\<lparr>hp := h, dev_mem := d\<rparr>)))"

text \<open>
  The destructor runs \<open>DeleteBuffers\<close> of the class and of its two base classes. The first call
  deletes the remote grid and sets its pointer to \<open>NULL\<close>.
\<close>

definition GridMPICUDA3D_delete ::
    "'d cuda_lib \<Rightarrow> ('d cuda_world \<Rightarrow> fault + 'd cuda_world) \<Rightarrow> 'g cuda_grid_scheme \<Rightarrow> 'd cuda_world \<Rightarrow> fault + 'd cuda_world" where
  "GridMPICUDA3D_delete cu del_remote g st =
     bindE (Cuda_DeleteBuffers cu del_remote g st) (\<lambda>(g, st).
     bindE (Cuda_GridMPI_DeleteBuffers cu Inr g st) (\<lambda>(g, st).
     bindE (Cuda_Grid_DeleteBuffers cu g st) (\<lambda>(_, st). Inr st)))"

definition cuda_remote_delete :: "'d cuda_lib \<Rightarrow> cuda_grid option \<Rightarrow> 'd cuda_world \<Rightarrow> fault + 'd cuda_world" where
  "cuda_remote_delete cu r st = (case r of None \<Rightarrow> Inr st | Some g \<Rightarrow> GridMPICUDA3D_delete cu Inr g st)"

subsection \<open>Copies\<close>

text \<open>\<open>Copyin\<close> and \<open>Copyout\<close>, which \<open>Grid::Set\<close> and \<open>Grid::Get\<close> call.\<close>

definition Cuda_Copyin :: "'d cuda_lib \<Rightarrow> ptr \<Rightarrow> ptr \<Rightarrow> nat \<Rightarrow> 'd cuda_world \<Rightarrow> fault + 'd cuda_world" where
  "Cuda_Copyin cu dst src n st =
     bindE (cudaMemcpy_HostToDevice cu dst src n (hp st) (dev_mem st)) (\<lambda>d. Inr (st\<lparr>dev_mem := d\<rparr>))"

definition Cuda_Copyout :: "'d cuda_lib \<Rightarrow> ptr \<Rightarrow> ptr \<Rightarrow> nat \<Rightarrow> 'd cuda_world \<Rightarrow> fault + 'd cuda_world" where
  "Cuda_Copyout cu dst src n st =
     bindE (cudaMemcpy_DeviceToHost cu dst src n (hp st) (dev_mem st)) (\<lambda>h. Inr (st\<lparr>hp := h\<rparr>))"

text \<open>
  \<open>CopyoutHalo3D1\<close>: the layer with the points of the halos of dimension 2 below and above it.
  The halos come from the pinned buffers they were received in.
\<close>

definition Cuda_CopyoutHalo3D1 ::
    "(idx \<Rightarrow> idx \<Rightarrow> bool) \<Rightarrow> nat \<Rightarrow> bool \<Rightarrow> 'g cuda_grid_scheme \<Rightarrow> heap \<Rightarrow> fault + heap" where
  "Cuda_CopyoutHalo3D1 le width fw g h =
     (let e = grid_elm_size g; nd = grid_num_dims g; ls = gm_local_size g;
          bwd = int_of_unsigned (at (gm_halo_bw_width g) 2);
          fwd = int_of_unsigned (at (gm_halo_fw_width g) 2);
          sg_offset = (if fw then IntegerArray0
            else upd IntegerArray0 1 (int_of_unsigned (minus_width g 1 width)));
          sg_size = IntegerArray3 (at ls 0) (int_of_unsigned width) bwd;
          halo_size = IntegerArray3 (at ls 0) (at ls 1) bwd
      in bindE (halo_buf 1 fw (gc_self_mpi g)) (\<lambda>mpi.
         bindE (halo_buf 2 False (gc_peer_cuda g)) (\<lambda>peer_bw.
         bindE (CopyoutSubgrid e nd (buf_ptr peer_bw) halo_size (buf_ptr mpi) sg_offset sg_size h) (\<lambda>h.
         let buf = ptr_add (buf_ptr mpi) (accumulate sg_size 3 * int e);
             sg_size = upd sg_size 2 (at ls 2)
         in bindE (halo_buf 1 fw (gc_self_cuda g)) (\<lambda>self.
         bindE (CUDAHostMapped_Copyout le buf IntegerArray0 (IntegerArray1 (accumulate sg_size 3)) self h) (\<lambda>h.
         let buf = ptr_add buf (accumulate sg_size 3 * int e);
             sg_size = upd sg_size 2 fwd; halo_size = upd halo_size 2 fwd
         in bindE (halo_buf 2 True (gc_peer_cuda g)) (\<lambda>peer_fw.
            CopyoutSubgrid e nd (buf_ptr peer_fw) halo_size buf sg_offset sg_size h)))))))"

text \<open>
  One plane of \<open>CopyoutHalo3D0\<close>. The lines of the layer itself lie \<open>width\<close> elements apart in
  the pinned buffer, those of the halos a whole row of the local part.
\<close>

definition cuda_copy_plane ::
    "'g cuda_grid_scheme \<Rightarrow> nat \<Rightarrow> nat \<Rightarrow> nat \<Rightarrow> ptr \<times> ptr \<times> ptr \<times> ptr \<times> ptr \<times> ptr \<times> heap \<Rightarrow>
      fault + (ptr \<times> ptr \<times> ptr \<times> ptr \<times> ptr \<times> ptr \<times> heap)" where
  "cuda_copy_plane g width L k = (\<lambda>(buf, bw1, fw1, bw2, src0, fw2, h).
     let e = grid_elm_size g; ls = gm_local_size g; row = at ls 0 * int e;
         bwd = gm_halo_bw_width g; fwd = gm_halo_fw_width g
     in bindE (copy_lines (at bwd 1) L row (buf, bw1, h)) (\<lambda>(buf, _, h).
        let bw1 = ptr_add bw1 (at ls 0 * int (at bwd 1) * int e);
            (src, halo_x_size) =
              (if int k < int (at bwd 2) then (bw2, row)
               else if int k < int (at bwd 2) + at ls 2 then (src0, int (e * width)) else (fw2, row))
        in bindE (copy_lines (nat (at ls 1)) L halo_x_size (buf, src, h)) (\<lambda>(buf, _, h).
        let (bw2, src0, fw2) =
              (if int k < int (at bwd 2) then (ptr_add bw2 (halo_x_size * at ls 1), src0, fw2)
               else if int k < int (at bwd 2) + at ls 2 then (bw2, ptr_add src0 (halo_x_size * at ls 1), fw2)
               else (bw2, src0, ptr_add fw2 (halo_x_size * at ls 1)))
        in bindE (copy_lines (at fwd 1) L row (buf, fw1, h)) (\<lambda>(buf, _, h).
        let fw1 = ptr_add fw1 (at ls 0 * int (at fwd 1) * int e)
        in Inr (buf, bw1, fw1, bw2, src0, fw2, h)))))"

definition Cuda_CopyoutHalo3D0 :: "nat \<Rightarrow> bool \<Rightarrow> 'g cuda_grid_scheme \<Rightarrow> heap \<Rightarrow> fault + heap" where
  "Cuda_CopyoutHalo3D0 width fw g h =
     (let e = grid_elm_size g; ls = gm_local_size g;
          L = size_mult e width;
          xoffset = (if fw then 0 else minus_width g 0 width) * e
      in bindE (halo_buf 0 fw (gc_self_mpi g)) (\<lambda>mpi.
         bindE (halo_buf 1 False (gc_peer_cuda g)) (\<lambda>bw1.
         bindE (halo_buf 1 True (gc_peer_cuda g)) (\<lambda>fw1.
         bindE (halo_buf 2 False (gc_peer_cuda g)) (\<lambda>bw2.
         bindE (halo_buf 2 True (gc_peer_cuda g)) (\<lambda>fw2.
         bindE (halo_buf 0 fw (gc_self_cuda g)) (\<lambda>self.
         bindE (foldE (cuda_copy_plane g width L)
                  [0..<nat (int (at (gm_halo_bw_width g) 2) + at ls 2 + int (at (gm_halo_fw_width g) 2))]
                  (buf_ptr mpi, ptr_add (buf_ptr bw1) (int xoffset), ptr_add (buf_ptr fw1) (int xoffset),
                   ptr_add (buf_ptr bw2) (int xoffset), buf_ptr self, ptr_add (buf_ptr fw2) (int xoffset), h))
           (\<lambda>(_, _, _, _, _, _, h). Inr h))))))))"

text \<open>
  \<open>CopyoutHalo\<close>: the layer goes from the device to the mapped buffer and from there, with the
  halos of later dimensions when diagonal points are asked for, to the buffer that is sent.
  \<open>le\<close> is the library's comparison of index arrays, \<open>sched\<close> the order of the kernel's threads.
\<close>

definition Cuda_CopyoutHalo ::
    "'d cuda_lib \<Rightarrow> (idx \<Rightarrow> idx \<Rightarrow> bool) \<Rightarrow> ((nat \<times> nat) list \<Rightarrow> (nat \<times> nat) list) \<Rightarrow> nat \<Rightarrow> nat \<Rightarrow> bool \<Rightarrow> bool \<Rightarrow>
      'g cuda_grid_scheme \<Rightarrow> 'd cuda_world \<Rightarrow> fault + ('g cuda_grid_scheme \<times> 'd cuda_world)" where
  "Cuda_CopyoutHalo cu le sched dim width fw diagonal g st =
     bindE (assertE (grid_num_dims g \<le> 3)) (\<lambda>_.
     let g = g\<lparr>gm_halo_has_diagonal := diagonal\<rparr>; nd = grid_num_dims g; ls = gm_local_size g;
         halo_offset = (if fw then IntegerArray0
           else upd IntegerArray0 dim (int_of_unsigned (minus_width g dim width)));
         halo_size = upd ls dim (int_of_unsigned width)
     in bindE (halo_buf dim fw (gc_self_cuda g)) (\<lambda>hc.
        bindE (halo_buf dim fw (gc_self_mpi g)) (\<lambda>hm.
        bindE (VBuffer_EnsureCapacity_scalar (CUDAHostMapped_Allocate cu) (accumulate halo_size nd) hc (hp st)) (\<lambda>(hc, h).
        bindE (buf3_at (data_buffer0 g) st) (\<lambda>b.
        bindE (CUDADev3D_Copyout_mapped cu le sched hc halo_offset halo_size b h (dev_mem st)) (\<lambda>(hc, h).
        bindE (Buffer_EnsureCapacity_scalar BufferHost_GetChunk (buf_elm_size hm) (int (CalcHaloSize g dim width diagonal)) hm h) (\<lambda>(hm, h).
        let put = \<lambda>hm h. (g\<lparr>gc_self_cuda := put_halo dim fw hc (gc_self_cuda g),
                gc_self_mpi := put_halo dim fw hm (gc_self_mpi g)\<rparr>, st\<lparr>hp := h\<rparr>);
            g' = fst (put hm h)
        in if int dim = int nd - 1 \<or> \<not> diagonal
           then bindE (CUDAHostMapped_Copyout_buf le hm IntegerArray0 (IntegerArray1 (accumulate halo_size nd)) hc h)
                  (\<lambda>(hm, h). Inr (put hm h))
           else if nd = 3
           then if dim = 0 then bindE (Cuda_CopyoutHalo3D0 width fw g' h) (\<lambda>h. Inr (put hm h))
                else if dim = 1 then bindE (Cuda_CopyoutHalo3D1 le width fw g' h) (\<lambda>h. Inr (put hm h))
                else Inl (Aborted 1)
           else Inl (Aborted 1))))))))"

text \<open>Checkpoints: the contents go through a block of host memory.\<close>

definition Cuda_Copyout_all ::
    "'d cuda_lib \<Rightarrow> (idx \<Rightarrow> idx \<Rightarrow> bool) \<Rightarrow> cuda_dev3d \<Rightarrow> heap \<Rightarrow> 'd \<Rightarrow> fault + (ptr \<times> cuda_dev3d \<times> heap)" where
  "Cuda_Copyout_all cu le b h d =
     (let (p, h) = malloc (VBuffer_GetLinearSize b (buf_size b)) h
      in bindE (assertE (p \<noteq> Null)) (\<lambda>_.
         bindE (CUDADev3D_Copyout cu le p IntegerArray0 (buf_size b) b h d) (\<lambda>(b, h). Inr (p, b, h))))"

definition Cuda_Save ::
    "'d cuda_lib \<Rightarrow> (idx \<Rightarrow> idx \<Rightarrow> bool) \<Rightarrow> string option \<Rightarrow> nat \<Rightarrow> ('d cuda_world \<Rightarrow> fault + 'd cuda_world) \<Rightarrow>
      'g cuda_grid_scheme \<Rightarrow> 'd cuda_world \<Rightarrow> fault + ('g cuda_grid_scheme \<times> 'd cuda_world)" where
  "Cuda_Save cu le ckpt_dir this del_remote g st =
     bindE (buf3_at (data_buffer0 g) st) (\<lambda>b.
     bindE (Cuda_Copyout_all cu le b (hp st) (dev_mem st)) (\<lambda>(p, b, h).
     bindE (SaveToFile ckpt_dir this p (VBuffer_GetLinearSize b (buf_size b)) (world.truncate (st\<lparr>hp := h\<rparr>))) (\<lambda>w.
     bindE (free p (hp w)) (\<lambda>h.
       Cuda_DeleteBuffers cu del_remote g
         (st\<lparr>hp := h, files := files w, bufs3 := (bufs3 st)(the (data_buffer0 g) \<mapsto> b)\<rparr>)))))"

definition Cuda_Restore ::
    "'d cuda_lib \<Rightarrow> string option \<Rightarrow> nat \<Rightarrow> 'g cuda_grid_scheme \<Rightarrow> 'd cuda_world \<Rightarrow>
      fault + ('g cuda_grid_scheme \<times> 'd cuda_world)" where
  "Cuda_Restore cu ckpt_dir this g st =
     bindE (Cuda_InitBuffer cu g st) (\<lambda>(g, st).
     bindE (buf3_at (data_buffer0 g) st) (\<lambda>b.
     let len = VBuffer_GetLinearSize b (buf_size b); (data, h) = malloc len (hp st)
     in bindE (RestoreFromFile ckpt_dir this data len (world.truncate (st\<lparr>hp := h\<rparr>))) (\<lambda>w.
        bindE (CUDADev3D_Copyin cu data (IntegerArray1 0) (buf_size b) b (hp w) (dev_mem st)) (\<lambda>(b, h, d).
          Inr (g, st\<lparr>hp := h, dev_mem := d, bufs3 := (bufs3 st)(the (data_buffer0 g) \<mapsto> b)\<rparr>)))))"

subsection \<open>Addresses\<close>

text \<open>
  The offset in rows of \<open>pitch\<close> elements. \<open>GetAddress\<close> looks for the first dimension in which
  the index leaves the local part; a remote grid is not supported.
\<close>

definition GridCalcOffset3D_pitch :: "idx \<Rightarrow> idx \<Rightarrow> nat \<Rightarrow> int" where
  "GridCalcOffset3D_pitch index sz pitch =
     at index 0 + at index 1 * int pitch + at index 2 * int pitch * at sz 1"

definition Cuda_GetAddress :: "cuda_mgrid \<Rightarrow> idx \<Rightarrow> 'd cuda_world \<Rightarrow> fault + ptr" where
  "Cuda_GetAddress g indices_param st =
     (if gc_remote_grid_active g then Inl (Aborted 1)
      else let indices = arr_minus indices_param (gm_local_offset g)
           in (case find (outside g indices) [0..<grid_num_dims g] of
                 Some i \<Rightarrow>
                   let indices = (if gm_halo_has_diagonal g
                         then fold (\<lambda>j x. upd x i (at x i + int (at (gm_halo_bw_width g) i)))
                                [Suc i..<PS_MAX_DIM] indices
                         else indices)
                   in bindE (halo_address g i indices) (\<lambda>(buf, offset).
                        Inr (ptr_add buf (offset * int (grid_elm_size g))))
               | None \<Rightarrow>
                   bindE (buf3_at (data_buffer0 g) st) (\<lambda>b.
                     Inr (ptr_add (data0 g)
                       (GridCalcOffset3D_pitch indices (gm_local_size g) (CUDADev3D_GetPitch b div grid_elm_size g)
                        * int (grid_elm_size g))))))"

definition Cuda_GridSet :: "'d cuda_lib \<Rightarrow> cuda_mgrid \<Rightarrow> idx \<Rightarrow> ptr \<Rightarrow> 'd cuda_world \<Rightarrow> fault + 'd cuda_world" where
  "Cuda_GridSet cu g indices buf st =
     bindE (Cuda_GetAddress g indices st) (\<lambda>a. Cuda_Copyin cu a buf (grid_elm_size g) st)"

definition Cuda_GridGet :: "'d cuda_lib \<Rightarrow> cuda_mgrid \<Rightarrow> idx \<Rightarrow> ptr \<Rightarrow> 'd cuda_world \<Rightarrow> fault + 'd cuda_world" where
  "Cuda_GridGet cu g indices buf st =
     bindE (Cuda_GetAddress g indices st) (\<lambda>a. Cuda_Copyout cu buf a (grid_elm_size g) st)"

subsection \<open>Reductions\<close>

text \<open>
  \<open>transform_tuple\<close> marks the elements that are not padding; \<open>reduce_tuple\<close> combines marked
  elements with the operator and drops the others.
\<close>

definition transform_tuple :: "nat \<Rightarrow> nat \<Rightarrow> nat \<times> 'a \<Rightarrow> bool \<times> 'a" where
  "transform_tuple n N t = (fst t mod N < n, snd t)"

definition reduce_tuple :: "('a \<Rightarrow> 'a \<Rightarrow> 'a) \<Rightarrow> bool \<times> 'a \<Rightarrow> bool \<times> 'a \<Rightarrow> bool \<times> 'a" where
  "reduce_tuple f t0 t1 =
     (if fst t0 \<and> fst t1 then (True, f (snd t0) (snd t1))
      else if fst t0 then t0 else if fst t1 then t1 else t1)"

text \<open>
  \<open>transform_reduce\<close> of Thrust is an argument: the range, the transformation, the start and the
  operator.
\<close>

type_synonym 'a transform_reduce =
  "(nat \<times> 'a) list \<Rightarrow> (nat \<times> 'a \<Rightarrow> bool \<times> 'a) \<Rightarrow> bool \<times> 'a \<Rightarrow> (bool \<times> 'a \<Rightarrow> bool \<times> 'a \<Rightarrow> bool \<times> 'a) \<Rightarrow> bool \<times> 'a"

fun thrust_operator :: "PSReduceOp \<Rightarrow> fault + ('a::{ord,plus,times} \<Rightarrow> 'a \<Rightarrow> 'a)" where
  "thrust_operator PS_MAX = Inr (\<lambda>x y. if x < y then y else x)"
| "thrust_operator PS_MIN = Inr (\<lambda>x y. if x < y then x else y)"
| "thrust_operator PS_SUM = Inr (+)"
| "thrust_operator PS_PROD = Inr (*)"
| "thrust_operator (PS_OTHER_OP _) = Inl AssertFailed"

definition ReduceGridCUDAPitch ::
    "'d cuda_lib \<Rightarrow> 'a transform_reduce \<Rightarrow> nat \<Rightarrow> (cell list \<Rightarrow> 'a::{ord,plus,times}) \<Rightarrow> ('a \<Rightarrow> cell list) \<Rightarrow>
      (PSReduceOp \<Rightarrow> fault + 'a) \<Rightarrow> ptr \<Rightarrow> PSReduceOp \<Rightarrow> ptr \<Rightarrow> nat \<Rightarrow> nat \<Rightarrow> nat \<Rightarrow> heap \<Rightarrow> 'd \<Rightarrow> fault + heap" where
  "ReduceGridCUDAPitch cu tr tsize dec enc dflt buf op dev_grid len width pitch h d =
     bindE (dflt op) (\<lambda>init_val.
     bindE (thrust_operator op) (\<lambda>f.
     bindE (cuRead cu dev_grid (len * tsize) d) (\<lambda>cs.
       store buf (enc (snd (tr (zip [0..<len] (elements dec tsize cs len)) (transform_tuple width pitch)
         (True, init_val) (reduce_tuple f)))) h)))"

definition ReduceGridMPICUDA ::
    "'d cuda_lib \<Rightarrow> 'a thrust_lib \<Rightarrow> 'a transform_reduce \<Rightarrow> nat \<Rightarrow> (cell list \<Rightarrow> 'a::{ord,plus,times}) \<Rightarrow> ('a \<Rightarrow> cell list) \<Rightarrow>
      (PSReduceOp \<Rightarrow> fault + 'a) \<Rightarrow> 'g cuda_grid_scheme \<Rightarrow> PSReduceOp \<Rightarrow> ptr \<Rightarrow> heap \<Rightarrow> 'd \<Rightarrow> fault + (nat \<times> heap)" where
  "ReduceGridMPICUDA cu th tr tsize dec enc dflt g op out h d =
     (let ls = gm_local_size g; nelms = to_size (accumulate ls (grid_num_dims g)); pitch = d3_pitch (gc_dev g)
      in if nelms = 0 then Inr (0, h)
         else if pitch = at ls 0
         then bindE (ReduceGridCUDA cu th tsize dec enc dflt out op (data0 g) nelms h d) (\<lambda>h. Inr (nelms, h))
         else bindE (ReduceGridCUDAPitch cu tr tsize dec enc dflt out op (data0 g)
                (to_size (accumulate (upd ls 0 pitch) (grid_num_dims g))) (to_size (at ls 0)) (to_size pitch) h d)
                (\<lambda>h. Inr (nelms, h)))"

text \<open>\<open>Reduce\<close> writes \<open>0.0f\<close> first when the elements are of type \<open>float\<close>.\<close>

definition GridMPICUDA3D_Reduce ::
    "'d cuda_lib \<Rightarrow> 'f thrust_lib \<Rightarrow> 'f transform_reduce \<Rightarrow> 'e thrust_lib \<Rightarrow> 'e transform_reduce \<Rightarrow>
      (cell list \<Rightarrow> 'f::{ord,plus,times,zero}) \<Rightarrow> (cell list \<Rightarrow> 'e::{ord,plus,times}) \<Rightarrow> ('f \<Rightarrow> cell list) \<Rightarrow> ('e \<Rightarrow> cell list) \<Rightarrow>
      (PSReduceOp \<Rightarrow> fault + 'f) \<Rightarrow> (PSReduceOp \<Rightarrow> fault + 'e) \<Rightarrow>
      'g cuda_grid_scheme \<Rightarrow> PSReduceOp \<Rightarrow> ptr \<Rightarrow> heap \<Rightarrow> 'd \<Rightarrow> fault + (nat \<times> heap)" where
  "GridMPICUDA3D_Reduce cu th_f tr_f th_d tr_d dec_f dec_d enc_f enc_d dflt_f dflt_d g op out h d =
     (if grid_type g = PS_FLOAT
      then bindE (store out (enc_f 0) h) (\<lambda>h.
             ReduceGridMPICUDA cu th_f tr_f 4 dec_f enc_f dflt_f g op out h d)
      else if grid_type g = PS_DOUBLE
      then ReduceGridMPICUDA cu th_d tr_d 8 dec_d enc_d dflt_d g op out h d
      else Inl (Aborted 1))"

end
