(* ===== verification/Cuda_Space.thy ===== *)
theory Cuda_Space imports Cuda_Grid Rpc_MPI begin

text \<open>
  The class \<open>GridSpaceMPICUDA\<close> (\<open>runtime/grid_mpi_cuda.h\<close>, \<open>runtime/grid_mpi_cuda.cc\<close>): the
  operations of \<open>Grid_Space_MPI\<close> for grids on devices, as programs of one process, and the
  copies of the master's own part (\<open>runtime/rpc_mpi_cuda.cc\<close>). The times it records are left out.
\<close>

subsection \<open>State of a process\<close>

record cuda_space = "cuda_mgrid gridspace_mpi" +
  gs_fetch_buf :: buffer   \<comment> \<open>\<open>buf\<close>, which answers to requests go through\<close>

type_synonym 'd cuda_pstate = "cuda_space \<times> 'd cuda_world"

definition cuda_get_obj :: "nat \<Rightarrow> cuda_space \<Rightarrow> fault + cuda_mgrid" where
  "cuda_get_obj a gs = (case objs gs a of None \<Rightarrow> Inl DanglingPointer | Some g \<Rightarrow> Inr g)"

definition cuda_put_obj :: "nat \<Rightarrow> cuda_mgrid \<Rightarrow> cuda_space \<Rightarrow> cuda_space" where
  "cuda_put_obj a g gs = gs\<lparr>objs := (objs gs)(a \<mapsto> g)\<rparr>"

definition cuda_set_id :: "int \<Rightarrow> cuda_mgrid \<Rightarrow> cuda_mgrid" where
  "cuda_set_id i = grid_id_update (\<lambda>_. Some i)"

interpretation cuda_ids: identified "\<lambda>g :: cuda_mgrid. grid_id g" cuda_set_id
  by unfold_locales (simp add: cuda_set_id_def)

definition GridSpaceMPICUDA_new :: "nat \<Rightarrow> idx \<Rightarrow> nat \<Rightarrow> idx \<Rightarrow> int \<Rightarrow> fault + cuda_space" where
  "GridSpaceMPICUDA_new num_dims global_size proc_num_dims proc_size my_rank =
     bindE (GridSpaceMPI_new num_dims global_size proc_num_dims proc_size my_rank) (\<lambda>gs.
       Inr (gridspace_mpi.extend gs \<lparr>gs_fetch_buf = BufferHost_new1 1\<rparr>))"

definition GridSpaceMPICUDA_delete :: "cuda_space \<Rightarrow> heap \<Rightarrow> fault + heap" where
  "GridSpaceMPICUDA_delete gs h = bindE (Buffer_Delete (gs_fetch_buf gs) h) (\<lambda>(_, h). Inr h)"

definition Cuda_CreateGrid ::
    "'d cuda_lib \<Rightarrow> int \<Rightarrow> nat \<Rightarrow> nat \<Rightarrow> idx \<Rightarrow> bool \<Rightarrow> idx \<Rightarrow> nat \<Rightarrow> 'd cuda_pstate \<Rightarrow> fault + (nat \<times> 'd cuda_pstate)" where
  "Cuda_CreateGrid cu type e num_dims sz double_buffering global_offset attr = (\<lambda>(gs, st).
     if gs_num_dims gs < num_dims then Inl (Aborted 1)
     else let missing = [num_dims..<gs_num_dims gs];
              grid_size = fold (\<lambda>i s. upd s i 1) missing sz;
              grid_global_offset = fold (\<lambda>i s. upd s i 0) missing global_offset;
              nd = gs_num_dims gs;
              (local_offset, local_size) =
                PartitionGrid gs nd grid_size grid_global_offset (IntegerArray0, IntegerArray0);
              a = next_buf st
          in bindE (GridMPICUDA3D_Create cu type e nd grid_size double_buffering grid_global_offset
                      local_offset local_size attr (st\<lparr>next_buf := Suc a\<rparr>)) (\<lambda>(g, st).
             bindE (RegisterGrid cuda_set_id a (cuda_put_obj a (to_cuda_mgrid g) gs)) (\<lambda>gs.
               Inr (a, gs, st))))"

subsection \<open>Exchange of boundaries\<close>

definition first_process :: "'g gridmpi_scheme \<Rightarrow> nat \<Rightarrow> bool" where
  "first_process g dim \<longleftrightarrow> at (gm_local_offset g) dim = 0"

definition last_process :: "'g gridmpi_scheme \<Rightarrow> nat \<Rightarrow> bool" where
  "last_process g dim \<longleftrightarrow> at (gm_local_offset g) dim + at (gm_local_size g) dim = at (grid_size g) dim"

definition SendBoundaries ::
    "'d cuda_lib \<Rightarrow> (idx \<Rightarrow> idx \<Rightarrow> bool) \<Rightarrow> ((nat \<times> nat) list \<Rightarrow> (nat \<times> nat) list) \<Rightarrow> cuda_space \<Rightarrow>
      nat \<Rightarrow> nat \<Rightarrow> bool \<Rightarrow> bool \<Rightarrow> bool \<Rightarrow> nat \<Rightarrow> cuda_mgrid \<times> 'd cuda_world \<Rightarrow> (cuda_mgrid \<times> 'd cuda_world) prog" where
  "SendBoundaries cu le sched gs dim width forward diagonal periodic halo_size = (\<lambda>(g, st).
     if width = 0 then Ret (g, st)
     else if \<not> periodic \<and> (\<not> forward \<and> last_process g dim \<or> forward \<and> first_process g dim) then Ret (g, st)
     else let peer = nat (at (if forward then gs_bw_neighbors gs else gs_fw_neighbors gs) dim)
          in bindP (lift (Cuda_CopyoutHalo cu le sched dim width forward diagonal g st)) (\<lambda>(g, st).
             bindP (lift (halo_buf dim forward (gc_self_mpi g))) (\<lambda>b.
             bindP (BufferHost_MPIIsend le peer IntegerArray0 (IntegerArray1 (int halo_size)) b (hp st)) (\<lambda>_.
               Ret (g, st)))))"

definition RecvBoundaries ::
    "'d cuda_lib \<Rightarrow> cuda_space \<Rightarrow> nat \<Rightarrow> nat \<Rightarrow> bool \<Rightarrow> bool \<Rightarrow> bool \<Rightarrow> nat \<Rightarrow> cuda_mgrid \<times> 'd cuda_world \<Rightarrow>
      (cuda_mgrid \<times> 'd cuda_world) prog" where
  "RecvBoundaries cu gs dim width forward diagonal periodic halo_size = (\<lambda>(g, st).
     let peer = nat (at (if forward then gs_fw_neighbors gs else gs_bw_neighbors gs) dim)
     in if width = 0 \<or> (\<not> periodic \<and> (forward \<and> last_process g dim \<or> \<not> forward \<and> first_process g dim))
        then Ret (if forward
                  then g\<lparr>gm_halo_fw_width := upd (gm_halo_fw_width g) dim 0,
                         gm_halo_fw_size := upd (gm_halo_fw_size g) dim (arr_Set 0)\<rparr>
                  else g\<lparr>gm_halo_bw_width := upd (gm_halo_bw_width g) dim 0,
                         gm_halo_bw_size := upd (gm_halo_bw_size g) dim (arr_Set 0)\<rparr>, st)
        else bindP (lift (halo_buf dim forward (gc_peer_cuda g))) (\<lambda>pc.
             bindP (lift (VBuffer_EnsureCapacity_scalar (CUDAHost_Allocate cu) (int halo_size) pc (hp st))) (\<lambda>(pc, h).
             let g = (if forward then g\<lparr>gm_halo_fw_width := upd (gm_halo_fw_width g) dim width\<rparr>
                      else g\<lparr>gm_halo_bw_width := upd (gm_halo_bw_width g) dim width\<rparr>);
                 g = SetHaloSize dim forward width diagonal g
             in bindP (CUDAHost_MPIRecv cu peer IntegerArray0 (IntegerArray1 (int halo_size)) pc h) (\<lambda>(pc, h).
                bindP (lift (halo_buf dim forward (gc_peer_dev g))) (\<lambda>pd.
                bindP (lift (CUDADev_Copyin_pinned cu pc IntegerArray0 (IntegerArray1 (int halo_size)) pd h (dev_mem st))) (\<lambda>(pd, d).
                  Ret (g\<lparr>gc_peer_cuda := put_halo dim forward pc (gc_peer_cuda g),
                         gc_peer_dev := put_halo dim forward pd (gc_peer_dev g)\<rparr>,
                       st\<lparr>hp := h, dev_mem := d\<rparr>)))))))"

definition Cuda_ExchangeBoundaries ::
    "'d cuda_lib \<Rightarrow> (idx \<Rightarrow> idx \<Rightarrow> bool) \<Rightarrow> ((nat \<times> nat) list \<Rightarrow> (nat \<times> nat) list) \<Rightarrow> cuda_space \<Rightarrow>
      nat \<Rightarrow> nat \<Rightarrow> nat \<Rightarrow> bool \<Rightarrow> bool \<Rightarrow> cuda_mgrid \<times> 'd cuda_world \<Rightarrow> (cuda_mgrid \<times> 'd cuda_world) prog" where
  "Cuda_ExchangeBoundaries cu le sched gs dim fw_width bw_width diagonal periodic = (\<lambda>(g, st).
     if gm_empty g then Ret (g, st)
     else let fw_size = CalcHaloSize g dim fw_width diagonal; bw_size = CalcHaloSize g dim bw_width diagonal
          in bindP (SendBoundaries cu le sched gs dim bw_width False diagonal periodic bw_size (g, st)) (\<lambda>s.
             bindP (SendBoundaries cu le sched gs dim fw_width True diagonal periodic fw_size s) (\<lambda>s.
             bindP (RecvBoundaries cu gs dim bw_width False diagonal periodic bw_size s) (\<lambda>s.
             bindP (RecvBoundaries cu gs dim fw_width True diagonal periodic fw_size s) (\<lambda>(g, st).
             bindP (lift (Cuda_FixupBufferPointers g st)) (\<lambda>g. Ret (g, st)))))))"

text \<open>The two stages: copies from the device first, the exchange later.\<close>

definition ExchangeBoundariesStage1 ::
    "'d cuda_lib \<Rightarrow> (idx \<Rightarrow> idx \<Rightarrow> bool) \<Rightarrow> ((nat \<times> nat) list \<Rightarrow> (nat \<times> nat) list) \<Rightarrow>
      nat \<Rightarrow> nat \<Rightarrow> nat \<Rightarrow> bool \<Rightarrow> bool \<Rightarrow> cuda_mgrid \<times> 'd cuda_world \<Rightarrow> fault + (cuda_mgrid \<times> 'd cuda_world)" where
  "ExchangeBoundariesStage1 cu le sched dim fw_width bw_width diagonal periodic = (\<lambda>(g, st).
     if gm_empty g then Inr (g, st)
     else bindE (if bw_width > 0 \<and> has_fw g dim periodic
                 then Cuda_CopyoutHalo cu le sched dim bw_width False diagonal g st else Inr (g, st)) (\<lambda>(g, st).
          if fw_width > 0 \<and> has_bw g dim periodic
          then Cuda_CopyoutHalo cu le sched dim fw_width True diagonal g st else Inr (g, st)))"

definition ExchangeBoundariesStage2 ::
    "'d cuda_lib \<Rightarrow> (idx \<Rightarrow> idx \<Rightarrow> bool) \<Rightarrow> cuda_space \<Rightarrow>
      nat \<Rightarrow> nat \<Rightarrow> nat \<Rightarrow> bool \<Rightarrow> bool \<Rightarrow> cuda_mgrid \<times> 'd cuda_world \<Rightarrow> (cuda_mgrid \<times> 'd cuda_world) prog" where
  "ExchangeBoundariesStage2 cu le gs dim fw_width bw_width diagonal periodic = (\<lambda>(g, st).
     if gm_empty g then Ret (g, st)
     else let fw_peer = nat (at (gs_fw_neighbors gs) dim); bw_peer = nat (at (gs_bw_neighbors gs) dim);
              fw_size = CalcHaloSize g dim fw_width diagonal; bw_size = CalcHaloSize g dim bw_width diagonal
          in bindP (if bw_width > 0 \<and> has_fw g dim periodic
                    then bindP (lift (halo_buf dim False (gc_self_mpi g))) (\<lambda>b.
                      BufferHost_MPIIsend le fw_peer IntegerArray0 (IntegerArray1 (int bw_size)) b (hp st))
                    else Ret ()) (\<lambda>_.
             bindP (if fw_width > 0 \<and> has_bw g dim periodic
                    then bindP (lift (halo_buf dim True (gc_self_mpi g))) (\<lambda>b.
                      BufferHost_MPIIsend le bw_peer IntegerArray0 (IntegerArray1 (int fw_size)) b (hp st))
                    else Ret ()) (\<lambda>_.
             bindP (RecvBoundaries cu gs dim bw_width False diagonal periodic bw_size (g, st)) (\<lambda>s.
             bindP (RecvBoundaries cu gs dim fw_width True diagonal periodic fw_size s) (\<lambda>(g, st).
             bindP (lift (Cuda_FixupBufferPointers g st)) (\<lambda>g. Ret (g, st)))))))"

text \<open>The exchange of all dimensions, inherited from \<open>GridSpaceMPI\<close>, with the device's exchange.\<close>

definition Cuda_ExchangeBoundaries_id ::
    "'d cuda_lib \<Rightarrow> (idx \<Rightarrow> idx \<Rightarrow> bool) \<Rightarrow> ((nat \<times> nat) list \<Rightarrow> (nat \<times> nat) list) \<Rightarrow>
      int \<Rightarrow> nat arr3 \<Rightarrow> nat arr3 \<Rightarrow> bool \<Rightarrow> bool \<Rightarrow> 'd cuda_pstate \<Rightarrow> 'd cuda_pstate prog" where
  "Cuda_ExchangeBoundaries_id cu le sched gid fw_width bw_width diagonal periodic = (\<lambda>(gs, st).
     bindP (lift (FindGrid gid gs)) (\<lambda>a.
     bindP (lift (cuda_get_obj a gs)) (\<lambda>g.
     bindP (foldP (\<lambda>i. Cuda_ExchangeBoundaries cu le sched gs i (at fw_width i) (at bw_width i) diagonal periodic)
              (rev [0..<grid_num_dims g]) (g, st)) (\<lambda>(g, st).
       Ret (cuda_put_obj a g gs, st)))))"

text \<open>
  \<open>SetCUDAStream\<close> goes through the data buffer and every halo buffer on the device. The stream
  itself is left out; that it reads these pointers is not.
\<close>

definition SetCUDAStream :: "'g cuda_grid_scheme \<Rightarrow> 'd cuda_world \<Rightarrow> fault + unit" where
  "SetCUDAStream g st =
     bindE (buf3_at (data_buffer0 g) st) (\<lambda>_.
       foldE (\<lambda>i _. bindE (array_get (gc_peer_dev g) (int i)) (\<lambda>_. Inr ())) [0..<grid_num_dims g] ())"

definition Cuda_LoadNeighbor ::
    "'d cuda_lib \<Rightarrow> (idx \<Rightarrow> idx \<Rightarrow> bool) \<Rightarrow> ((nat \<times> nat) list \<Rightarrow> (nat \<times> nat) list) \<Rightarrow>
      nat \<Rightarrow> idx \<Rightarrow> idx \<Rightarrow> bool \<Rightarrow> bool \<Rightarrow> bool \<Rightarrow> 'd cuda_pstate \<Rightarrow> 'd cuda_pstate prog" where
  "Cuda_LoadNeighbor cu le sched a offset_min offset_max diagonal reuse periodic = (\<lambda>(gs, st).
     bindP (lift (cuda_get_obj a gs)) (\<lambda>g.
     bindP (lift (SetCUDAStream g st)) (\<lambda>_.
     bindP (lift (assertE (neighbor_overlap gs (grid_num_dims g) offset_min offset_max))) (\<lambda>_.
     let bw = arr_map2 (\<lambda>m _. if m \<le> 0 then nat \<bar>m\<bar> else 0) offset_min offset_max;
         fw = arr_map2 (\<lambda>_ m. if m \<ge> 0 then nat m else 0) offset_min offset_max
     in bindP (lift (case grid_id g of None \<Rightarrow> Inl AssertFailed | Some i \<Rightarrow> Inr i)) (\<lambda>i.
        bindP (Cuda_ExchangeBoundaries_id cu le sched i fw bw diagonal periodic (gs, st)) (\<lambda>(gs, st).
        bindP (lift (cuda_get_obj a gs)) (\<lambda>g.
        bindP (lift (SetCUDAStream g st)) (\<lambda>_. Ret (gs, st)))))))))"

text \<open>
  The widths the two stages compute, and their loops. \<open>halo_bw_width *= -1\<close> multiplies by an
  index array, which the constructor of one argument makes of \<open>-1\<close>. The last dimension is
  exchanged in stage 2 only.
\<close>

definition stage_fw_width :: "idx \<Rightarrow> idx" where
  "stage_fw_width offset_max = SetNoLessThan_scalar offset_max 0"

definition stage_bw_width :: "idx \<Rightarrow> idx" where
  "stage_bw_width offset_min = SetNoLessThan_scalar (arr_times offset_min (IntegerArray1 (-1))) 0"

definition LoadNeighborStage1 ::
    "'d cuda_lib \<Rightarrow> (idx \<Rightarrow> idx \<Rightarrow> bool) \<Rightarrow> ((nat \<times> nat) list \<Rightarrow> (nat \<times> nat) list) \<Rightarrow>
      nat \<Rightarrow> idx \<Rightarrow> idx \<Rightarrow> bool \<Rightarrow> bool \<Rightarrow> bool \<Rightarrow> 'd cuda_pstate \<Rightarrow> fault + 'd cuda_pstate" where
  "LoadNeighborStage1 cu le sched a offset_min offset_max diagonal reuse periodic = (\<lambda>(gs, st).
     bindE (cuda_get_obj a gs) (\<lambda>g.
     bindE (SetCUDAStream g st) (\<lambda>_.
     bindE (foldE (\<lambda>i. ExchangeBoundariesStage1 cu le sched i (to_unsigned (at (stage_fw_width offset_max) i))
              (to_unsigned (at (stage_bw_width offset_min) i)) diagonal periodic)
            (rev [0..<grid_num_dims g - 1]) (g, st)) (\<lambda>(g, st).
     bindE (SetCUDAStream g st) (\<lambda>_. Inr (cuda_put_obj a g gs, st))))))"

definition LoadNeighborStage2 ::
    "'d cuda_lib \<Rightarrow> (idx \<Rightarrow> idx \<Rightarrow> bool) \<Rightarrow> ((nat \<times> nat) list \<Rightarrow> (nat \<times> nat) list) \<Rightarrow>
      nat \<Rightarrow> idx \<Rightarrow> idx \<Rightarrow> bool \<Rightarrow> bool \<Rightarrow> bool \<Rightarrow> 'd cuda_pstate \<Rightarrow> 'd cuda_pstate prog" where
  "LoadNeighborStage2 cu le sched a offset_min offset_max diagonal reuse periodic = (\<lambda>(gs, st).
     bindP (lift (cuda_get_obj a gs)) (\<lambda>g.
     bindP (lift (SetCUDAStream g st)) (\<lambda>_.
     let last = grid_num_dims g - 1;
         fw = (\<lambda>i. to_unsigned (at (stage_fw_width offset_max) i));
         bw = (\<lambda>i. to_unsigned (at (stage_bw_width offset_min) i))
     in bindP (Cuda_ExchangeBoundaries cu le sched gs last (fw last) (bw last) diagonal periodic (g, st)) (\<lambda>s.
        bindP (foldP (\<lambda>i. ExchangeBoundariesStage2 cu le gs i (fw i) (bw i) diagonal periodic) (rev [0..<last]) s) (\<lambda>(g, st).
        bindP (lift (SetCUDAStream g st)) (\<lambda>_. Ret (cuda_put_obj a g gs, st)))))))"

subsection \<open>Loading subgrids\<close>

definition Cuda_HandleFetchRequest ::
    "'d cuda_lib \<Rightarrow> (idx \<Rightarrow> idx \<Rightarrow> bool) \<Rightarrow> int \<Rightarrow> cuda_mgrid \<Rightarrow> 'd cuda_pstate \<Rightarrow> 'd cuda_pstate prog" where
  "Cuda_HandleFetchRequest cu le rank g = (\<lambda>(gs, st).
     bindP (bindP (PS_MPI_Recv (nat rank)) (\<lambda>m. lift (expect_fetch_info m))) (\<lambda>finfo.
     let bytes = size_mult (to_size (accumulate (fi_peer_size finfo) (gs_num_dims gs))) (grid_elm_size g)
     in bindP (lift (Buffer_EnsureCapacity_scalar BufferHost_GetChunk (buf_elm_size (gs_fetch_buf gs)) (int bytes)
                (gs_fetch_buf gs) (hp st))) (\<lambda>(fb, h).
        bindP (lift (buf3_at (data_buffer0 g) st)) (\<lambda>b.
        bindP (lift (CUDADev3D_Copyout_buf cu le fb (arr_minus (fi_peer_offset finfo) (gm_local_offset g))
                 (fi_peer_size finfo) b h (dev_mem st))) (\<lambda>(fb, b, h).
        bindP (SendGridRequest (gs_my_rank gs) (nat rank) FETCH_REPLY) (\<lambda>_.
        bindP (BufferHost_MPIIsend le (nat rank) IntegerArray0 (IntegerArray1 (int bytes)) fb h) (\<lambda>_.
          Ret (gs\<lparr>gs_fetch_buf := fb\<rparr>, st\<lparr>hp := h, bufs3 := (bufs3 st)(the (data_buffer0 g) \<mapsto> b)\<rparr>)))))))) "

text \<open>The answer goes into the remote grid of the grid at address \<open>a\<close>, if it was made or resized for
  this load.\<close>

definition Cuda_HandleFetchReply ::
    "'d cuda_lib \<Rightarrow> bool \<Rightarrow> int \<Rightarrow> nat \<Rightarrow> (int \<times> fetch_info) list \<Rightarrow> 'd cuda_pstate \<Rightarrow> 'd cuda_pstate prog" where
  "Cuda_HandleFetchReply cu loaded rank a fetch_map = (\<lambda>(gs, st).
     bindP (lift (cuda_get_obj a gs)) (\<lambda>g.
     let finfo = (case map_of fetch_map rank of Some f \<Rightarrow> f
           | None \<Rightarrow> \<lparr>fi_peer_index = IntegerArray0, fi_peer_offset = IntegerArray0, fi_peer_size = IntegerArray0\<rparr>);
         bytes = size_mult (to_size (accumulate (fi_peer_size finfo) (gs_num_dims gs))) (grid_elm_size g)
     in bindP (lift (assertE (GetProcessRank gs (fi_peer_index finfo) = rank))) (\<lambda>_.
        bindP (lift (Buffer_EnsureCapacity_scalar BufferHost_GetChunk (buf_elm_size (gs_fetch_buf gs)) (int bytes)
                (gs_fetch_buf gs) (hp st))) (\<lambda>(fb, h).
        bindP (BufferHost_MPIRecv (nat rank) IntegerArray0 (IntegerArray1 (int bytes)) fb h) (\<lambda>(fb, h).
        case (if loaded then gc_remote_grid g else None) of
          None \<Rightarrow> Fail NullPointer
        | Some sg \<Rightarrow>
            bindP (lift (buf3_at (data_buffer0 sg) st)) (\<lambda>b.
            bindP (lift (CUDADev3D_Copyin_buf cu fb (arr_minus (fi_peer_offset finfo) (gm_local_offset sg))
                     (fi_peer_size finfo) b h (dev_mem st))) (\<lambda>(b, h, d).
            let st = st\<lparr>hp := h, dev_mem := d, bufs3 := (bufs3 st)(the (data_buffer0 sg) \<mapsto> b)\<rparr>
            in bindP (lift (Cuda_FixupBufferPointers sg st)) (\<lambda>sg.
                 Ret (cuda_put_obj a (g\<lparr>gc_remote_grid := Some sg\<rparr>) (gs\<lparr>gs_fetch_buf := fb\<rparr>), st)))))))))"

text \<open>The loop and the plan of \<open>LoadSubgrid\<close>, inherited, with the device's handlers.\<close>

fun cuda_load_loop ::
    "'d cuda_lib \<Rightarrow> (idx \<Rightarrow> idx \<Rightarrow> bool) \<Rightarrow> bool \<Rightarrow> nat \<Rightarrow> nat \<Rightarrow> (int \<times> fetch_info) list \<Rightarrow> int \<Rightarrow> int \<Rightarrow> bool \<Rightarrow>
      'd cuda_pstate \<Rightarrow> 'd cuda_pstate prog" where
  "cuda_load_loop cu le loaded 0 a fetch_map remaining done_count done_sent s = Fail Blocked"
| "cuda_load_loop cu le loaded (Suc fuel) a fetch_map remaining done_count done_sent (gs, st) =
     (if done_count = gs_num_procs gs then Ret (gs, st)
      else if remaining = 0 \<and> \<not> done_sent
      then bindP (foldP (\<lambda>i _. if int i = gs_my_rank gs then Ret ()
                     else SendGridRequest (gs_my_rank gs) i DONE) [0..<nat (gs_num_procs gs)] ()) (\<lambda>_.
             cuda_load_loop cu le loaded fuel a fetch_map remaining
               (if 0 \<le> gs_my_rank gs \<and> gs_my_rank gs < gs_num_procs gs then done_count + 1 else done_count)
               True (gs, st))
      else bindP RecvGridRequest (\<lambda>(rank, kind).
        if kind = DONE then cuda_load_loop cu le loaded fuel a fetch_map remaining (done_count + 1) done_sent (gs, st)
        else if kind = FETCH_REQUEST
        then bindP (lift (cuda_get_obj a gs)) (\<lambda>g.
             bindP (Cuda_HandleFetchRequest cu le rank g (gs, st)) (\<lambda>s.
               cuda_load_loop cu le loaded fuel a fetch_map remaining done_count done_sent s))
        else if kind = FETCH_REPLY
        then bindP (Cuda_HandleFetchReply cu loaded rank a fetch_map (gs, st)) (\<lambda>s.
               cuda_load_loop cu le loaded fuel a fetch_map (remaining - 1) done_count done_sent s)
        else Fail (Aborted 1)))"

definition cuda_load_plan ::
    "'d cuda_lib \<Rightarrow> cuda_space \<Rightarrow> cuda_mgrid \<Rightarrow> idx \<Rightarrow> idx \<Rightarrow> bool \<Rightarrow> 'd cuda_world \<Rightarrow>
      fault + (fetch_info list \<times> cuda_mgrid \<times> bool \<times> 'd cuda_world)" where
  "cuda_load_plan cu gs g grid_offset box_size reuse st =
     bindE (assertE (arr_ge grid_offset 0)) (\<lambda>_.
     bindE (assertE (arr_ge box_size 0)) (\<lambda>_.
     bindE (CollectPerProcSubgridInfo gs g grid_offset box_size) (\<lambda>requests.
       if requests = [] then Inr ([], g, False, st)
       else if length requests = 1 \<and> GetProcessRank gs (fi_peer_index (requests ! 0)) = gs_my_rank gs
       then Inr ([], g, False, st)
       else if reuse \<and> (case gc_remote_grid g of None \<Rightarrow> False
                | Some r \<Rightarrow> gm_local_offset r = grid_offset \<and> gm_local_size r = box_size)
       then Inr ([], g\<lparr>gc_remote_grid_active := True\<rparr>, False, st)
       else bindE (Cuda_EnsureRemoteGrid cu grid_offset box_size g st) (\<lambda>(g, st).
         Inr (requests, g\<lparr>gc_remote_grid_active := True\<rparr>, True, st)))))"

definition Cuda_LoadSubgrid ::
    "'d cuda_lib \<Rightarrow> (idx \<Rightarrow> idx \<Rightarrow> bool) \<Rightarrow> nat \<Rightarrow> nat \<Rightarrow> idx \<Rightarrow> idx \<Rightarrow> bool \<Rightarrow> 'd cuda_pstate \<Rightarrow> (bool \<times> 'd cuda_pstate) prog" where
  "Cuda_LoadSubgrid cu le fuel a grid_offset box_size reuse = (\<lambda>(gs, st).
     bindP (lift (cuda_get_obj a gs)) (\<lambda>g.
     bindP (lift (cuda_load_plan cu gs g grid_offset box_size reuse st)) (\<lambda>(requests, g, loaded, st).
     bindP (foldP (\<lambda>finfo (remaining, fetch_map).
          bindP (SendFetchRequest gs finfo) (\<lambda>sent.
            Ret (if sent
                 then (remaining + 1,
                       map_insert (GetProcessRank gs (fi_peer_index finfo), finfo) fetch_map)
                 else (remaining, fetch_map))))
        requests (0, [])) (\<lambda>(remaining, fetch_map).
     bindP (cuda_load_loop cu le loaded fuel a fetch_map remaining 0 False (cuda_put_obj a g gs, st)) (\<lambda>s.
       Ret (loaded, s))))))"

subsection \<open>Reductions\<close>

text \<open>The default of \<open>float\<close> stands for both types, as in \<open>Grid_Space_MPI\<close>.\<close>

definition Cuda_ReduceGrid ::
    "'d cuda_lib \<Rightarrow> 'f thrust_lib \<Rightarrow> 'f transform_reduce \<Rightarrow> 'e thrust_lib \<Rightarrow> 'e transform_reduce \<Rightarrow>
     (cell list \<Rightarrow> 'f::{ord,plus,times,zero,one}) \<Rightarrow> (cell list \<Rightarrow> 'e::{ord,plus,times,zero,one}) \<Rightarrow>
     ('f \<Rightarrow> cell list) \<Rightarrow> ('e \<Rightarrow> cell list) \<Rightarrow> ('f \<Rightarrow> 'e) \<Rightarrow> 'f \<Rightarrow> 'f \<Rightarrow> 'e \<Rightarrow> 'e \<Rightarrow>
     (MPI_Datatype \<Rightarrow> MPI_Op \<Rightarrow> msg list \<Rightarrow> cell list) \<Rightarrow>
     ptr \<Rightarrow> PSReduceOp \<Rightarrow> nat \<Rightarrow> 'd cuda_pstate \<Rightarrow> (nat \<times> 'd cuda_pstate) prog" where
  "Cuda_ReduceGrid cu th_f tr_f th_d tr_d dec_f dec_d enc_f enc_d f2d flt_min flt_max dbl_min dbl_max mpi_reduce out op a =
     (\<lambda>(gs, st).
     bindP (lift (cuda_get_obj a gs)) (\<lambda>g.
     let (p, h) = malloc (grid_elm_size g) (hp st)
     in bindP (lift (GridMPICUDA3D_Reduce cu th_f tr_f th_d tr_d dec_f dec_d enc_f enc_d
                (GetReductionDefaultValue_float flt_min flt_max) (GetReductionDefaultValue_double dbl_min dbl_max)
                g op p h (dev_mem st))) (\<lambda>(n, h).
        bindP (if n = 0
               then lift (if grid_type g = PS_FLOAT
                          then bindE (GetReductionDefaultValue_float flt_min flt_max op) (\<lambda>v. store p (enc_f v) h)
                          else if grid_type g = PS_DOUBLE
                          then bindE (GetReductionDefaultValue_float flt_min flt_max op) (\<lambda>v. store p (enc_d (f2d v)) h)
                          else Inl (Aborted 1))
               else Ret h) (\<lambda>h.
        bindP (lift (GetMPIDataType (grid_type g))) (\<lambda>type.
        bindP (lift (GetMPIOp op)) (\<lambda>mpi_op.
        bindP (lift (load p (grid_elm_size g) h)) (\<lambda>cs.
        Collect (MBytes cs) (\<lambda>ms.
          bindP (lift (if gs_my_rank gs = 0 then store out (mpi_reduce type mpi_op ms) h else Inr h)) (\<lambda>h.
          bindP (lift (free p h)) (\<lambda>h.
            Ret (grid_num_elms g, gs, st\<lparr>hp := h\<rparr>)))))))))))"

subsection \<open>The master's own part\<close>

text \<open>
  \<open>MasterMPICUDA\<close> keeps a pinned buffer of no dimensions and one byte per element. The data
  buffer is cast to \<open>BufferCUDADev\<close>; its methods are virtual, so those of \<open>BufferCUDADev3D\<close> run.
\<close>

definition master_pinned_new :: cuda_host where
  "master_pinned_new = CUDAHost_new 0 1"

definition Cuda_GridCopyinLocal ::
    "'d cuda_lib \<Rightarrow> cuda_mgrid \<Rightarrow> ptr \<Rightarrow> cuda_host \<times> 'd cuda_world \<Rightarrow> fault + (cuda_host \<times> 'd cuda_world)" where
  "Cuda_GridCopyinLocal cu g buf = (\<lambda>(pinned, st).
     let size = size_mult (to_size (accumulate (gm_local_size g) (grid_num_dims g))) (grid_elm_size g)
     in bindE (VBuffer_EnsureCapacity_scalar (CUDAHost_Allocate cu) (int size) pinned (hp st)) (\<lambda>(pinned, h).
        bindE (assertE (buf_ptr pinned \<noteq> Null)) (\<lambda>_.
        bindE (CopyoutSubgrid (grid_elm_size g) (grid_num_dims g) buf (grid_size g) (buf_ptr pinned)
                 (gm_local_offset g) (gm_local_size g) h) (\<lambda>h.
        bindE (buf3_at (data_buffer0 g) st) (\<lambda>b.
        bindE (CUDADev3D_Copyin_pinned cu pinned IntegerArray0 (gm_local_size g) b h (dev_mem st)) (\<lambda>(b, d).
          Inr (pinned, st\<lparr>hp := h, dev_mem := d, bufs3 := (bufs3 st)(the (data_buffer0 g) \<mapsto> b)\<rparr>)))))))"

definition Cuda_GridCopyoutLocal ::
    "'d cuda_lib \<Rightarrow> (idx \<Rightarrow> idx \<Rightarrow> bool) \<Rightarrow> cuda_mgrid \<Rightarrow> ptr \<Rightarrow> cuda_host \<times> 'd cuda_world \<Rightarrow>
      fault + (cuda_host \<times> 'd cuda_world)" where
  "Cuda_GridCopyoutLocal cu le g buf = (\<lambda>(pinned, st).
     let size = size_mult (to_size (accumulate (gm_local_size g) (grid_num_dims g))) (grid_elm_size g)
     in bindE (buf3_at (data_buffer0 g) st) (\<lambda>b.
        bindE (assertE (VBuffer_GetLinearSize b (buf_size b) = size)) (\<lambda>_.
        bindE (CUDADev3D_Copyout_pinned cu le pinned IntegerArray0 (gm_local_size g) b (hp st) (dev_mem st)) (\<lambda>(pinned, h).
        bindE (CopyinSubgrid (grid_elm_size g) (grid_num_dims g) buf (grid_size g) (buf_ptr pinned)
                 (gm_local_offset g) (gm_local_size g) h) (\<lambda>h.
          Inr (pinned, st\<lparr>hp := h\<rparr>))))))"

subsection \<open>The widths of the staged exchange\<close>

lemma stage_bw_width_eq: "stage_bw_width lo = Arr3 (max (- at lo 0) 0) 0 0"
  by (cases lo) (simp add: stage_bw_width_def SetNoLessThan_scalar_def arr_times_def arr_Set_def IntegerArray1_def arr_map2_def)

text \<open>C40: Loading in two stages asks for backward halos in the first dimension only, whatever the
  stencil reaches: the sign of the offsets is changed with an index array whose later components
  are zero, so stencils with different backward offsets there are loaded alike.\<close>

theorem staged_loading_drops_backward_halos:
  "LoadNeighborStage1 cu le sched a lo hi = LoadNeighborStage1 cu le sched a (Arr3 (at lo 0) 0 0) hi \<and>
   LoadNeighborStage2 cu le sched a lo hi = LoadNeighborStage2 cu le sched a (Arr3 (at lo 0) 0 0) hi \<and>
   to_unsigned (at (stage_bw_width lo) 1) = 0 \<and> to_unsigned (at (stage_bw_width lo) 2) = 0"
  by (simp add: fun_eq_iff LoadNeighborStage1_def LoadNeighborStage2_def stage_bw_width_eq[of lo]
      stage_bw_width_eq[of "Arr3 (at lo 0) 0 0"])

end
