(* ===== verification/Cuda_Grid_Laws.thy ===== *)
theory Cuda_Grid_Laws imports Cuda_Grid Cuda_Pitched begin

text \<open>
  Two operations of grids on devices as a whole: the reduction of a pitched grid takes every
  element once and no padding, and a grid that was saved cannot be restored.
\<close>

subsection \<open>Combinations\<close>

text \<open>
  A value is a combination of a collection of operands when an operator, applied to them in
  some order and grouping, gives it. Thrust promises no more of \<open>transform_reduce\<close>.
\<close>

inductive combined :: "('a \<Rightarrow> 'a \<Rightarrow> 'a) \<Rightarrow> 'a multiset \<Rightarrow> 'a \<Rightarrow> bool" for f where
  one: "combined f {#x#} x"
| both: "combined f A x \<Longrightarrow> combined f B y \<Longrightarrow> combined f (A + B) (f x y)"

locale transform_reduce_law =
  fixes tr :: "'a transform_reduce"
  assumes combines: "combined op (image_mset t (mset xs) + {#init#}) (tr xs t init op)"

text \<open>The sequential loop meets it.\<close>

definition list_transform_reduce :: "'a transform_reduce" where
  "list_transform_reduce xs t init op = foldl op init (map t xs)"

lemma combined_foldl: "combined f A x \<Longrightarrow> combined f (A + mset ys) (foldl f x ys)"
proof (induction ys arbitrary: A x)
  case (Cons y ys)
  have "combined f (A + {#y#} + mset ys) (foldl f (f x y) ys)"
    by (rule Cons.IH) (intro both one Cons.prems)
  then show ?case by simp
qed simp

interpretation list_tr: transform_reduce_law "list_transform_reduce :: 'a transform_reduce"
proof
  fix op :: "bool \<times> 'a \<Rightarrow> bool \<times> 'a \<Rightarrow> bool \<times> 'a" and t :: "nat \<times> 'a \<Rightarrow> bool \<times> 'a" and xs and init
  show "combined op (image_mset t (mset xs) + {#init#}) (list_transform_reduce xs t init op)"
    using combined_foldl[OF one[of op init], of "map t xs"] by (simp add: list_transform_reduce_def)
qed

text \<open>With a commutative and associative operator, the combination is the reduction.\<close>

context reduction_operator begin

lemma foldl_split: "foldl f (foldl f x xs) (y # ys) = f (foldl f x xs) (foldl f y ys)"
  by (simp add: foldl_shift)

lemma combined_loop: "combined f A v \<Longrightarrow> mset xs = A \<Longrightarrow> reduce_loop f xs = Inr v"
proof (induction A v arbitrary: xs rule: combined.induct)
  case (one x)
  then show ?case by simp
next
  case (both A x B y)
  obtain us vs where s: "mset us = A" "mset vs = B" by (metis ex_mset)
  have "reduce_loop f (us @ vs) = Inr (f x y)" by (rule reduce_append[OF both.IH(1)[OF s(1)] both.IH(2)[OF s(2)]])
  moreover have "mset xs = mset (us @ vs)" using both.prems s by simp
  from reduce_perm[OF this] have "reduce_loop f xs = reduce_loop f (us @ vs)" .
  ultimately show ?case by simp
qed

end

subsection \<open>Marked elements\<close>

lemma combined_marked:
  assumes "combined (reduce_tuple f) M r"
  shows "if \<exists>t \<in># M. fst t then fst r \<and> combined f (image_mset snd (filter_mset fst M)) (snd r) else \<not> fst r"
  using assms
proof (induction M r rule: combined.induct)
  case (one x)
  then show ?case by (simp add: combined.one)
next
  case (both A x B y)
  have e: "filter_mset fst C = {#}" if "\<not> (\<exists>t \<in># C. fst t)" for C :: "(bool \<times> 'a) multiset"
    using that by (auto simp: filter_mset_eq_conv intro: multiset_eqI)
  consider "\<exists>t \<in># A. fst t" "\<exists>t \<in># B. fst t" | "\<exists>t \<in># A. fst t" "\<not> (\<exists>t \<in># B. fst t)" |
    "\<not> (\<exists>t \<in># A. fst t)" by blast
  then show ?case
  proof cases
    case 1
    then show ?thesis using both.IH by (auto simp: reduce_tuple_def intro: combined.both)
  next
    case 2
    have "image_mset snd (filter_mset fst (A + B)) = image_mset snd (filter_mset fst A)" using e[OF 2(2)] by simp
    moreover have "reduce_tuple f x y = x" using 2 both.IH by (simp add: reduce_tuple_def)
    moreover have "\<exists>t \<in># A + B. fst t" using 2(1) by auto
    ultimately show ?thesis using both.IH(1) 2(1) by (simp only: if_True simp_thms)
  next
    case 3
    have "image_mset snd (filter_mset fst (A + B)) = image_mset snd (filter_mset fst B)" using e[OF 3] by simp
    moreover have "reduce_tuple f x y = y" using 3 both.IH by (simp add: reduce_tuple_def)
    moreover have "(\<exists>t \<in># A + B. fst t) = (\<exists>t \<in># B. fst t)" using 3 by auto
    ultimately show ?thesis using both.IH(2) by (simp only:)
  qed
qed

lemma marked_elements:
  assumes "0 < n" "n \<le> N" "length xs = N * m"
  shows "image_mset snd (filter_mset fst (image_mset (transform_tuple n N) (mset (zip [0..<N * m] xs)) + {#(True, v)#})) =
    add_mset v (mset (concat (map (\<lambda>r. take n (drop (r * N) xs)) [0..<m])))"
proof -
  have "image_mset snd (filter_mset fst (image_mset (transform_tuple n N) (mset (zip [k * N..<k * N + N * j] ys)))) =
      mset (concat (map (\<lambda>r. take n (drop (r * N) ys)) [0..<j]))" if "length ys = N * j" for j k ys
    using that
  proof (induction j arbitrary: k ys)
    case 0
    then show ?case by simp
  next
    case (Suc j)
    let ?y = "take N ys" and ?z = "drop N ys"
    have l: "length ?y = N" "length ?z = N * j" "ys = ?y @ ?z" using Suc.prems by auto
    have z: "zip [k * N..<k * N + N * Suc j] ys =
        zip [k * N..<k * N + N] ?y @ zip [Suc k * N..<Suc k * N + N * j] ?z"
    proof -
      have u: "[k * N..<k * N + N * Suc j] = [k * N..<k * N + N] @ [Suc k * N..<Suc k * N + N * j]"
        using upt_add_eq_append[of "k * N" "k * N + N" "N * j"] by (simp add: algebra_simps)
      have "zip ([k * N..<k * N + N] @ [Suc k * N..<Suc k * N + N * j]) (?y @ ?z) =
          zip [k * N..<k * N + N] ?y @ zip [Suc k * N..<Suc k * N + N * j] ?z"
        by (rule zip_append) (use l(1) in simp)
      then show ?thesis unfolding u by simp
    qed
    have row: "image_mset snd (filter_mset fst (image_mset (transform_tuple n N) (mset (zip [k * N..<k * N + N] ?y)))) =
        mset (take n ys)"
    proof -
      have "filter fst (map (transform_tuple n N) (zip [k * N..<k * N + N] ?y)) =
          map (\<lambda>i. (True, ys ! i)) (filter (\<lambda>i. i < n) [0..<N])"
      proof -
        have "map (transform_tuple n N) (zip [k * N..<k * N + N] ?y) = map (\<lambda>i. (i < n, ys ! i)) [0..<N]"
          using l(1) by (intro nth_equalityI) (auto simp: transform_tuple_def)
        then show ?thesis by (simp add: filter_map comp_def cong: map_cong)
      qed
      moreover have "filter (\<lambda>i. i < n) [0..<N] = [0..<n]"
      proof -
        have "[0..<N] = [0..<n] @ [n..<N]" using assms(2) upt_add_eq_append[of 0 n "N - n"] by simp
        then show ?thesis by (simp add: filter_empty_conv)
      qed
      moreover have "map (\<lambda>i. ys ! i) [0..<n] = take n ys"
        using assms(2) Suc.prems by (intro nth_equalityI) auto
      ultimately have "map snd (filter fst (map (transform_tuple n N) (zip [k * N..<k * N + N] ?y))) = take n ys"
        by (simp add: comp_def)
      then show ?thesis by (metis mset_filter mset_map)
    qed
    have "image_mset snd (filter_mset fst (image_mset (transform_tuple n N)
        (mset (zip [Suc k * N..<Suc k * N + N * j] ?z)))) = mset (concat (map (\<lambda>r. take n (drop (r * N) ?z)) [0..<j]))"
      by (rule Suc.IH[OF l(2)])
    moreover have "concat (map (\<lambda>r. take n (drop (r * N) ys)) [0..<Suc j]) =
        take n ys @ concat (map (\<lambda>r. take n (drop (r * N) ?z)) [0..<j])"
      by (simp add: upt_conv_Cons map_Suc_upt[symmetric] comp_def add.commute del: upt_Suc)
    ultimately show ?case using row unfolding z by (simp only: mset_append image_mset_union filter_union_mset)
  qed
  from this[of xs m 0] assms(3) show ?thesis by simp
qed

subsection \<open>The reduction of a pitched grid\<close>

text \<open>The elements of a block in rows of \<open>pitch\<close> elements, row by row without the padding.\<close>

lemma elements_unpadded:
  assumes "n \<le> N" "e * N * m \<le> length D"
  shows "concat (map (\<lambda>r. take n (drop (r * N) (elements dec e D (N * m)))) [0..<m]) =
    elements dec e (unpadded (n * e) (N * e) m D) (n * m)"
proof -
  have D: "n * e \<le> N * e" "m * (N * e) \<le> length D" using assms by (auto simp: ac_simps)
  have row: "take n (drop (r * N) (elements dec e D (N * m))) =
      map (\<lambda>i. dec (elem e (unpadded (n * e) (N * e) m D) (r * n + i))) [0..<n]" if r: "r < m" for r
  proof -
    have b: "r * N + N \<le> N * m" using row_end[OF r, of N] by (simp add: mult.commute)
    have "elem e (unpadded (n * e) (N * e) m D) (r * n + i) = elem e D (r * N + i)" if "i < n" for i
    proof -
      have "i * e + e \<le> n * e" using row_end[OF that, of e] by simp
      then show ?thesis using unpadded_take_drop[OF D r, of "i * e" e] by (simp add: elem_def algebra_simps)
    qed
    moreover have "r * N \<le> N * m" using b by linarith
    ultimately show ?thesis using b assms(1)
      by (intro nth_equalityI) (auto simp: elements_def)
  qed
  have "concat (map (\<lambda>r. map (\<lambda>i. f (r * n + i)) [0..<n]) [0..<m]) = map f [0..<n * m]" for f :: "nat \<Rightarrow> 'b"
  proof (induction m)
    case (Suc m)
    have "[0..<n * Suc m] = [0..<n * m] @ [n * m..<n * m + n]" using upt_add_eq_append[of 0 "n * m" n] by (simp add: add.commute)
    moreover have "map f [n * m..<n * m + n] = map (\<lambda>i. f (m * n + i)) [0..<n]"
      by (intro nth_equalityI) (auto simp: mult.commute)
    ultimately show ?case using Suc.IH by simp
  qed simp
  note rows = this[of "\<lambda>i. dec (elem e (unpadded (n * e) (N * e) m D) i)"]
  have "map (\<lambda>r. take n (drop (r * N) (elements dec e D (N * m)))) [0..<m] =
      map (\<lambda>r. map (\<lambda>i. dec (elem e (unpadded (n * e) (N * e) m D) (r * n + i))) [0..<n]) [0..<m]"
    using row by simp
  then show ?thesis using rows by (simp only: elements_def)
qed

text \<open>C38: The reduction of a grid in pitched memory combines the start value and every element
  of the grid, each once, in an order and grouping Thrust is free to choose, and nothing of the
  padding between the rows.\<close>

theorem pitched_reduction_exact:
  assumes "transform_reduce_law (tr :: 'a::{ord,plus,times} transform_reduce)" and "cuda_memory cu dblk"
    and "pitched_at b e s blk D" "dblk d blk = Some D" "pp_pitch (c3_pp b) = pitch * e"
    and "dflt op = Inr init" "thrust_operator op = Inr f"
    and "ReduceGridCUDAPitch cu tr e dec enc dflt buf op (Ptr blk 0) (pitch * nat (at s 1) * nat (at s 2)) (nat (at s 0)) pitch h d = Inr h'"
  shows "\<exists>v. store buf (enc v) h = Inr h' \<and>
    combined f (add_mset init (mset (elements dec e (array_of b D) (nat (accumulate s 3))))) v"
proof -
  let ?n = "nat (at s 0)" and ?m = "nat (at s 1) * nat (at s 2)" and ?N = "pitch * nat (at s 1) * nat (at s 2)"
  have p: "0 < ?n" "0 < e" "?n * e \<le> pitch * e" "length D = pitch * e * nat (at s 1) * nat (at s 2)"
    "buf_size b = s" "buf_elm_size b = e" "\<And>i. i < 3 \<Longrightarrow> 0 < at s i"
    using assms(3,5) by (auto simp: pitched_at_def)
  have n: "?n \<le> pitch" using p(2,3) by simp
  have len: "?N * e \<le> length D" "e * pitch * ?m \<le> length D" using p(4) by (simp_all add: ac_simps)
  have "cuRead cu (Ptr blk (int 0)) (?N * e) d = Inr (take (?N * e) (drop 0 D))"
    by (rule cuda_memory.read_ok[OF assms(2,4)]) (use len in simp)
  then have rd: "cuRead cu (Ptr blk 0) (?N * e) d = Inr D" using p(4) by (simp add: ac_simps)
  let ?xs = "elements dec e D ?N"
  define r where "r = tr (zip [0..<?N] ?xs) (transform_tuple ?n pitch) (True, init) (reduce_tuple f)"
  have st: "store buf (enc (snd r)) h = Inr h'"
    using assms(6-8) rd by (simp add: ReduceGridCUDAPitch_def r_def)
  let ?M = "image_mset (transform_tuple ?n pitch) (mset (zip [0..<?N] ?xs)) + {#(True, init)#}"
  have "combined (reduce_tuple f) ?M r" unfolding r_def by (rule transform_reduce_law.combines[OF assms(1)])
  from combined_marked[OF this] have "combined f (image_mset snd (filter_mset fst ?M)) (snd r)" by auto
  moreover have "image_mset snd (filter_mset fst ?M) =
      add_mset init (mset (concat (map (\<lambda>r. take ?n (drop (r * pitch) ?xs)) [0..<?m])))"
    using marked_elements[OF p(1) n, of ?xs ?m init] by (simp add: elements_def mult.assoc)
  moreover have "concat (map (\<lambda>r. take ?n (drop (r * pitch) ?xs)) [0..<?m]) = elements dec e (array_of b D) (?n * ?m)"
    using elements_unpadded[OF n len(2), of dec] by (simp add: array_of_def p(5,6) assms(5) mult.assoc)
  moreover have "?n * ?m = nat (accumulate s 3)"
    using p(7)[of 0] p(7)[of 1] p(7)[of 2] by (simp add: numeral_3_eq_3 numeral_2_eq_2 nat_mult_distrib mult.assoc)
  ultimately have "combined f (add_mset init (mset (elements dec e (array_of b D) (nat (accumulate s 3))))) (snd r)" by simp
  with st show ?thesis by blast
qed

subsection \<open>Saved grids\<close>

lemma delete_halo_bufs_fields:
  assumes "delete_halo_bufs cu g s = Inr (g', s')"
  shows "gm_empty g' = gm_empty g \<and> grid_num_dims g' = grid_num_dims g"
proof -
  have "(\<lambda>(g', s'). gm_empty g' = gm_empty g \<and> grid_num_dims g' = grid_num_dims g) (g', s')"
    by (rule foldE_invariant[OF assms[unfolded delete_halo_bufs_def]]) (auto simp: bindE_eq_Inr)
  then show ?thesis by simp
qed

text \<open>After \<open>DeleteBuffers\<close> the arrays of halo pointers are null.\<close>

lemma Cuda_Grid_DeleteBuffers_fields:
  assumes "Cuda_Grid_DeleteBuffers cu g st = Inr (g', st')"
  shows "gm_halo_peer_fw g' = gm_halo_peer_fw g \<and> gm_empty g' = gm_empty g \<and> grid_num_dims g' = grid_num_dims g"
proof -
  obtain g1 st1 where g1: "g1 = g \<or> g1 = g\<lparr>data0 := Null\<rparr>" "(if grid_double g1 \<and> data1 g1 \<noteq> Null
       then bindE (delete_buf3 cu (data_buffer1 g1) st1) (\<lambda>st. Inr (g1\<lparr>data1 := Null\<rparr>, st))
       else Inr (g1, st1)) = Inr (g', st')"
  proof (cases "data0 g = Null")
    case True
    then show thesis using assms that[of g st] by (simp add: Cuda_Grid_DeleteBuffers_def)
  next
    case False
    then obtain b where "(if grid_double g \<and> data1 g \<noteq> Null
        then bindE (delete_buf3 cu (data_buffer1 g) b) (\<lambda>st. Inr (g\<lparr>data0 := Null, data1 := Null\<rparr>, st))
        else Inr (g\<lparr>data0 := Null\<rparr>, b)) = Inr (g', st')"
      using assms by (auto simp: Cuda_Grid_DeleteBuffers_def bindE_eq_Inr cong: if_cong)
    then show thesis using that[of "g\<lparr>data0 := Null\<rparr>" b] by (simp cong: if_cong)
  qed
  have "g' = g1 \<or> g' = g1\<lparr>data1 := Null\<rparr>"
    using g1(2) by (cases "grid_double g1 \<and> data1 g1 \<noteq> Null") (auto simp: bindE_eq_Inr)
  with g1(1) show ?thesis by (elim disjE) simp_all
qed

lemma free_halos_fields:
  assumes "free_halos g h = Inr (g', h')"
  shows "gm_empty g' = gm_empty g \<and> grid_num_dims g' = grid_num_dims g"
proof -
  have "(\<lambda>(g', s'). gm_empty g' = gm_empty g \<and> grid_num_dims g' = grid_num_dims g) (g', h')"
    by (rule foldE_invariant[OF assms[unfolded free_halos_def]]) (auto simp: bindE_eq_Inr)
  then show ?thesis by simp
qed

lemma Cuda_DeleteBuffers_halos:
  assumes "Cuda_DeleteBuffers cu del g st = Inr (g', st')" "\<not> gm_empty g"
  shows "gm_halo_peer_fw g' = [] \<and> \<not> gm_empty g' \<and> grid_num_dims g' = grid_num_dims g"
proof -
  obtain g1 h1 d1 where 1: "delete_halo_bufs cu g (hp st, dev_mem st) = Inr (g1, h1, d1)"
    "Cuda_GridMPI_DeleteBuffers cu del (g1\<lparr>gc_self_cuda := [], gc_self_mpi := [], gc_peer_cuda := [], gc_peer_dev := []\<rparr>)
       (st\<lparr>hp := h1, dev_mem := d1\<rparr>) = Inr (g', st')"
    using assms(1) by (simp add: Cuda_DeleteBuffers_def assms(2) bindE_eq_Inr) blast
  note e = delete_halo_bufs_fields[OF 1(1)]
  obtain g2 h2 st2 where 2: "free_halos (g1\<lparr>gc_self_cuda := [], gc_self_mpi := [], gc_peer_cuda := [], gc_peer_dev := []\<rparr>) h1 = Inr (g2, h2)"
    "Cuda_Grid_DeleteBuffers cu (g2\<lparr>gm_halo_self_fw := [], gm_halo_self_bw := [],
       gm_halo_peer_fw := [], gm_halo_peer_bw := []\<rparr>) st2 = Inr (g', st')"
    using 1(2) e assms(2) by (simp add: Cuda_GridMPI_DeleteBuffers_def bindE_eq_Inr) blast
  show ?thesis using free_halos_fields[OF 2(1)] Cuda_Grid_DeleteBuffers_fields[OF 2(2)] e assms(2) by simp
qed

lemma FixupDev_null:
  assumes "gm_halo_peer_fw g = []" "0 < grid_num_dims g"
  shows "FixupDev pitch f g dev = Inl OutOfBounds"
proof -
  have "[0..<grid_num_dims g] = 0 # [Suc 0..<grid_num_dims g]" using assms(2) by (simp add: upt_conv_Cons)
  then show ?thesis using assms(1) by (simp add: FixupDev_def array_get_def del: upt_Suc)
qed

text \<open>C39: A grid on a device that was written to a checkpoint cannot be restored: \<open>Save\<close> deletes
  the arrays of halo pointers and sets them to \<open>NULL\<close>, and \<open>Restore\<close> writes into them before
  it makes new ones.\<close>

theorem restore_after_save_fails:
  assumes "Cuda_Save cu le dir this del g st = Inr (g', st')" and "\<not> gm_empty g" "0 < grid_num_dims g"
  shows "\<exists>err. Cuda_Restore cu dir this g' st'' = Inl err"
proof -
  obtain st1 where d: "Cuda_DeleteBuffers cu del g st1 = Inr (g', st')"
    using assms(1) by (auto simp: Cuda_Save_def bindE_eq_Inr)
  note g' = Cuda_DeleteBuffers_halos[OF d assms(2)]
  have "Cuda_Restore cu dir this g' st'' \<noteq> Inr x" for x
  proof
    assume "Cuda_Restore cu dir this g' st'' = Inr x"
    then obtain s2 where "Cuda_InitBuffer cu g' st'' = Inr s2" by (auto simp: Cuda_Restore_def bindE_eq_Inr)
    then show False using g' assms(3)
      by (simp add: Cuda_InitBuffer_def Cuda_FixupBufferPointers_def FixupDev_null bindE_eq_Inr Let_def split: if_splits)
  qed
  then show ?thesis by (cases "Cuda_Restore cu dir this g' st''") auto
qed

text \<open>A grid of one element, as \<open>Create\<close> leaves it.\<close>

definition demo_gpu_grid :: cuda_grid where
  "demo_gpu_grid = \<lparr>grid_type = PS_FLOAT, grid_elm_size = 4, grid_num_dims = 1, grid_num_elms = 1,
     grid_size = Arr3 1 1 1, grid_double = False, grid_attr = 0, grid_id = None, data_buffer0 = Some 0,
     data_buffer1 = Some 0, data0 = Ptr 0 0, data1 = Ptr 0 0, gm_empty = False, gm_global_offset = IntegerArray0,
     gm_local_offset = IntegerArray0, gm_local_size = Arr3 1 1 1, gm_halo_has_diagonal = False,
     gm_halo_fw_width = IntegerArray0, gm_halo_bw_width = IntegerArray0, gm_halo_self_fw = [], gm_halo_self_bw = [],
     gm_halo_peer_fw = [Null], gm_halo_peer_bw = [Null], gm_halo_self_fw_buf_size = IntegerArray0,
     gm_halo_self_bw_buf_size = IntegerArray0, gm_halo_peer_fw_buf_size = IntegerArray0,
     gm_halo_peer_bw_buf_size = IntegerArray0, gm_halo_fw_size = arr_Set IntegerArray0,
     gm_halo_bw_size = arr_Set IntegerArray0, gc_dev = null_dev3d,
     gc_self_cuda = [(CUDAHostMapped_new1 4, CUDAHostMapped_new1 4)], gc_self_mpi = [(BufferHost_new1 4, BufferHost_new1 4)],
     gc_peer_cuda = [(CUDAHost_new1 4, CUDAHost_new1 4)], gc_peer_dev = [(CUDADev_new1 4, CUDADev_new1 4)]\<rparr>"

definition demo_gpu_buffer :: cuda_dev3d where
  "demo_gpu_buffer = (CUDADev3D_new 1 4)\<lparr>buf_ptr := Ptr 0 0, buf_size := Arr3 1 1 1,
     c3_pp := \<lparr>pp_ptr = Ptr 0 0, pp_pitch = 16, pp_xsize = 4, pp_ysize = 1\<rparr>\<rparr>"

definition demo_gpu_world :: "heap cuda_world" where
  "demo_gpu_world = \<lparr>hp = \<lparr>blocks = (\<lambda>_. None), fresh = 0, avail = 100\<rparr>, bufs = (\<lambda>_. None), next_buf = 1,
     files = (\<lambda>_. None), dev_mem = \<lparr>blocks = [0 \<mapsto> replicate 16 (Some 7)], fresh = 1, avail = 84\<rparr>,
     bufs3 = [0 \<mapsto> demo_gpu_buffer]\<rparr>"

definition demo_gpu_pinned :: cuda_host where
  "demo_gpu_pinned = (CUDAHost_new 1 4)\<lparr>buf_ptr := Ptr 1 0, buf_size := Arr3 1 1 1\<rparr>"

definition demo_saved_heap :: heap where
  "demo_saved_heap = \<lparr>blocks = [0 \<mapsto> replicate 4 (Some 7), 1 \<mapsto> replicate 4 (Some 7)], fresh = Suc (Suc 0), avail = 92\<rparr>"

lemma demo_copyout:
  "Cuda_Copyout_all (heap_device 16) (\<lambda>_ _. True) demo_gpu_buffer (hp demo_gpu_world) (dev_mem demo_gpu_world) =
    Inr (Ptr 0 0, demo_gpu_buffer\<lparr>c3_pinned_buf := demo_gpu_pinned\<rparr>, demo_saved_heap)"
  by (simp add: Cuda_Copyout_all_def demo_gpu_world_def demo_gpu_buffer_def demo_gpu_pinned_def demo_saved_heap_def
      VBuffer_GetLinearSize_def size_mult_def CUDADev3D_new_def malloc_def alloc_def CUDADev3D_Copyout_def
      CUDADev3D_Copyout_pinned_def VBuffer_EnsureCapacity_def LinearSize_static_def CUDAHost_new_def CUDAHost_Allocate_def
      VBuffer_Allocate_def VBuffer_Delete_def CUDAHost_GetChunk_def heap_device_def or_fail_def cudaMemcpy3D_DeviceToHost_def
      box_bytes_def ext_bytes_def heap_read3D_def box3_inside_def CUDAHost_Copyout_def memcpy_def gather_def rows3_def list_write_def
      fun_upd_twist accumulate_num arr_cmp_defs)

lemma world_truncate: "hp (world.truncate w) = hp w" "files (world.truncate w) = files w"
  by (simp_all add: world.defs)

lemma demo_save_ok: "\<exists>s. Cuda_Save (heap_device 16) (\<lambda>_ _. True) None 0 Inr demo_gpu_grid demo_gpu_world = Inr s"
proof -
  have k: "data_buffer0 demo_gpu_grid = Some 0" by (simp add: demo_gpu_grid_def)
  have b: "buf3_at (Some 0) demo_gpu_world = Inr demo_gpu_buffer" by (simp add: buf3_at_def demo_gpu_world_def)
  have len: "VBuffer_GetLinearSize (demo_gpu_buffer\<lparr>c3_pinned_buf := demo_gpu_pinned\<rparr>)
      (buf_size (demo_gpu_buffer\<lparr>c3_pinned_buf := demo_gpu_pinned\<rparr>)) = 4"
    by (simp add: VBuffer_GetLinearSize_def demo_gpu_buffer_def CUDADev3D_new_def size_mult_def)
  define h where "h = demo_saved_heap\<lparr>blocks := (blocks demo_saved_heap)(0 := None), avail := 96\<rparr>"
  have fr: "free (Ptr 0 0) demo_saved_heap = Inr h" by (simp add: demo_saved_heap_def h_def)
  have ld: "load (Ptr 0 0) 4 demo_saved_heap = Inr (replicate 4 (Some 7))" by (simp add: demo_saved_heap_def)
  let ?st = "demo_gpu_world\<lparr>files := [GetPath None 0 \<mapsto> replicate 4 (Some 7)],
      bufs3 := [0 \<mapsto> demo_gpu_buffer\<lparr>c3_pinned_buf := demo_gpu_pinned\<rparr>], hp := h\<rparr>"
  let ?g1 = "demo_gpu_grid\<lparr>gc_self_cuda := [], gc_self_mpi := [], gc_peer_cuda := [], gc_peer_dev := []\<rparr>"
  have 1: "delete_halo_bufs (heap_device 16) demo_gpu_grid (h, d) = Inr (demo_gpu_grid, h, d)" for d
    by (simp add: delete_halo_bufs_def demo_gpu_grid_def delete_both_def array_get_def CUDAHostMapped_delete_def
        CUDAHostMapped_new1_def VBuffer_Delete_def Buffer_Delete_def BufferHost_new1_def Buffer_new1_def CUDAHost_delete_def
        CUDAHost_new1_def CUDADev_delete_def CUDADev_new1_def)
  have 2: "free_halos ?g1 h = Inr (?g1, h)" by (simp add: free_halos_def demo_gpu_grid_def)
  have 3: "\<exists>s. Cuda_Grid_DeleteBuffers (heap_device 16)
      (?g1\<lparr>gm_halo_self_fw := [], gm_halo_self_bw := [], gm_halo_peer_fw := [], gm_halo_peer_bw := []\<rparr>) ?st = Inr s"
    by (simp add: Cuda_Grid_DeleteBuffers_def demo_gpu_grid_def delete_buf3_def CUDADev3D_delete_def CUDAHost_delete_def
        demo_gpu_pinned_def CUDAHost_new_def Buffer_Delete_def BufferHost_new_def Buffer_new_def VBuffer_Delete_def
        CUDAHost_DeleteChunk_def CUDAHostMapped_delete_def demo_gpu_buffer_def CUDADev3D_new_def CUDAHostMapped_new_def
        CUDADev3D_DeleteChunk_def heap_device_def h_def demo_saved_heap_def demo_gpu_world_def)
  have e: "\<not> gm_empty demo_gpu_grid" "bufs3 demo_gpu_world = [0 \<mapsto> demo_gpu_buffer]" "files demo_gpu_world = (\<lambda>_. None)"
    "\<And>x. hp (demo_gpu_world\<lparr>hp := x\<rparr>) = x"
    by (simp_all add: demo_gpu_grid_def demo_gpu_world_def)
  show ?thesis using 3
    unfolding Cuda_Save_def k b bindE_Inr demo_copyout prod.case len
    by (simp add: SaveToFile_def ld fr Cuda_DeleteBuffers_def 1 Cuda_GridMPI_DeleteBuffers_def 2 world_truncate e
        del: load.simps free.simps)
qed

theorem restore_after_save_fails_witness:
  "\<exists>g st err. Cuda_Save (heap_device 16) (\<lambda>_ _. True) None 0 Inr demo_gpu_grid demo_gpu_world = Inr (g, st) \<and>
    Cuda_Restore (heap_device 16) None 0 g st = Inl err"
proof -
  obtain g st where s: "Cuda_Save (heap_device 16) (\<lambda>_ _. True) None 0 Inr demo_gpu_grid demo_gpu_world = Inr (g, st)"
    using demo_save_ok by auto
  have "\<not> gm_empty demo_gpu_grid" "0 < grid_num_dims demo_gpu_grid" by (simp_all add: demo_gpu_grid_def)
  from restore_after_save_fails[OF s this] s show ?thesis by blast
qed

definition byte_value :: "cell list \<Rightarrow> int" where
  "byte_value cs = (case cs of Some w # _ \<Rightarrow> uint w | _ \<Rightarrow> 0)"

text \<open>The four elements at bytes 0, 4, 16 and 20 of the block are added; the padding is not.\<close>

theorem pitched_reduction_exact_witness:
  "\<exists>h'. ReduceGridCUDAPitch (heap_device 16) list_transform_reduce 4 byte_value (\<lambda>v. [Some (word_of_int v)]) (\<lambda>_. Inr 0)
      (Ptr 0 0) PS_SUM (Ptr 0 0) 8 2 4 \<lparr>blocks = [0 \<mapsto> [None]], fresh = 1, avail = 0\<rparr>
      \<lparr>blocks = [0 \<mapsto> demo_bytes], fresh = 1, avail = 0\<rparr> = Inr h' \<and> blocks h' 0 = Some [Some 40]"
proof -
  let ?h = "\<lparr>blocks = [0 \<mapsto> [None]], fresh = 1, avail = 0\<rparr> :: heap"
  let ?d = "\<lparr>blocks = [0 \<mapsto> demo_bytes], fresh = 1, avail = 0\<rparr> :: heap"
  let ?enc = "\<lambda>v :: int. [Some (word_of_int v)]"
  have d: "live ?d 0 = Some demo_bytes" by (simp add: live_def)
  have len: "length demo_bytes = 32" by (simp add: demo_bytes_def)
  obtain h' where h': "ReduceGridCUDAPitch (heap_device 16) list_transform_reduce 4 byte_value ?enc (\<lambda>_. Inr 0)
      (Ptr 0 0) PS_SUM (Ptr 0 0) 8 2 4 ?h ?d = Inr h'"
    using len by (simp add: ReduceGridCUDAPitch_def heap_device_def)
  have e: "elements byte_value 4 (array_of demo_buffer3 demo_bytes) (nat (accumulate (Arr3 2 2 1) 3)) = [0, 4, 16, 20]"
    by (simp add: elements_def array_of_def demo_buffer3_def CUDADev3D_new_def unpadded_def demo_bytes_def accumulate_num
        elem_def byte_value_def upt_rec)
  obtain v where v: "store (Ptr 0 0) (?enc v) ?h = Inr h'" "combined (+) (add_mset 0 (mset [0, 4, 16, 20])) v"
    using pitched_reduction_exact[where dflt = "\<lambda>_. Inr 0" and op = PS_SUM and init = 0 and f = "(+)" and dec = byte_value
        and enc = ?enc and buf = "Ptr 0 0" and h = ?h and h' = h' and pitch = 4,
        OF list_tr.transform_reduce_law_axioms heap_dev.cuda_memory_axioms demo_pitched d] h' e
    by (auto simp: demo_buffer3_def)
  have "reduce_loop (+) [0, 0, 4, 16, 20] = (Inr v :: fault + int)"
    by (rule sum_op.combined_loop[OF v(2)]) simp
  then have "v = 40" by simp
  with v(1) h' show ?thesis by (auto simp: list_write_def)
qed

end
