(* ===== verification/Cuda_Lines.thy ===== *)
theory Cuda_Lines imports Cuda_Space Cuda_Boxes Halo_Exchange begin

text \<open>
  One-dimensional buffers, as the halos of distributed grids on devices use them, in host
  memory of every kind and on the device: what a memory holds besides the chunk of a buffer,
  and that \<open>EnsureCapacity\<close> and the copies change nothing else.
\<close>

subsection \<open>A chunk and the rest of the memory\<close>

type_synonym mem = "nat \<Rightarrow> cell list option"

definition without :: "ptr \<Rightarrow> mem \<Rightarrow> mem" where
  "without p M = (\<lambda>k. if p = Ptr k 0 then None else M k)"

lemma at_IntegerArray1 [simp]: "at (IntegerArray1 x) 0 = x"
  by (simp add: IntegerArray1_def)

lemma without_live:
  assumes "without p' M' = without p M" "M k = Some cs" "p \<noteq> Ptr k 0"
  shows "M' k = Some cs" "p' \<noteq> Ptr k 0"
  using fun_cong[OF assms(1), of k] assms(2,3) by (auto simp: without_def split: if_splits)

lemma without_upd [simp]: "without (Ptr k 0) (M(k := x)) = without (Ptr k 0) M"
  by (auto simp: without_def fun_eq_iff)

lemma without_absent: "M k = None \<Longrightarrow> without (Ptr k 0) M = M"
  by (auto simp: without_def fun_eq_iff)

lemma without_new: "M k = None \<Longrightarrow> without (Ptr k 0) (M(k \<mapsto> cs)) = M"
  by (auto simp: without_def fun_eq_iff)

lemma without_Null [simp]: "without Null M = M"
  by (simp add: without_def)

lemma without_delete: "M(k := None) = without (Ptr k 0) M"
  by (auto simp: without_def fun_eq_iff)

text \<open>A buffer of one dimension that owns its chunk.\<close>

definition line_buf :: "nat \<Rightarrow> 'x buffer_scheme \<Rightarrow> mem \<Rightarrow> bool" where
  "line_buf e b M \<longleftrightarrow> buf_num_dims b = 1 \<and> buf_elm_size b = e \<and> buf_deleter b \<and> 0 < e \<and>
     (\<forall>i < 3. 0 \<le> at (buf_size b) i) \<and> at (buf_size b) 0 * int e < 2 ^ 64 \<and>
     (if at (buf_size b) 0 = 0 then buf_ptr b = Null
      else \<exists>k cs. buf_ptr b = Ptr k 0 \<and> M k = Some cs \<and> length cs = nat (at (buf_size b) 0) * e)"

definition line_cap :: "'x buffer_scheme \<Rightarrow> nat" where
  "line_cap b = nat (at (buf_size b) 0)"

lemma line_bufD:
  assumes "line_buf e b M"
  shows "buf_num_dims b = 1" "buf_elm_size b = e" "buf_deleter b" "0 < e" "line_cap b * e < 2 ^ 64"
    "0 \<le> at (buf_size b) 0" "0 \<le> at (buf_size b) 1" "0 \<le> at (buf_size b) 2"
proof -
  have "int (line_cap b * e) = at (buf_size b) 0 * int e" using assms by (simp add: line_buf_def line_cap_def)
  moreover have "at (buf_size b) 0 * int e < 2 ^ 64" using assms by (simp add: line_buf_def)
  ultimately have "int (line_cap b * e) < int (2 ^ 64)" by (simp only: of_nat_power of_nat_numeral)
  then show "line_cap b * e < 2 ^ 64" by (simp only: of_nat_less_iff)
qed (use assms in \<open>auto simp: line_buf_def\<close>)

lemma line_chunk:
  assumes "line_buf e b M" "0 < line_cap b"
  obtains k cs where "buf_ptr b = Ptr k 0" "M k = Some cs" "length cs = line_cap b * e"
  using assms by (auto simp: line_buf_def line_cap_def split: if_splits)

lemma line_ptr_cases:
  assumes "line_buf e b M"
  obtains "buf_ptr b = Null" "line_cap b = 0"
  | k cs where "buf_ptr b = Ptr k 0" "M k = Some cs" "length cs = line_cap b * e" "0 < line_cap b"
proof (cases "at (buf_size b) 0 = 0")
  case True
  then show ?thesis using assms that(1) by (simp add: line_buf_def line_cap_def)
next
  case False
  then have "0 < line_cap b" using line_bufD(6)[OF assms] by (simp add: line_cap_def)
  then show ?thesis using line_chunk[OF assms] that(2) by blast
qed

lemma line_truncate [simp]:
  "line_buf e (buffer.truncate b) M = line_buf e b M" "line_cap (buffer.truncate b) = line_cap b"
  "buf_ptr (buffer.truncate b) = buf_ptr b"
  by (simp_all add: line_buf_def line_cap_def buffer.defs)

lemma transfer_line [simp]:
  "line_buf e (b\<lparr>ch_mpi_buf := mb\<rparr>) M = line_buf e b M" "line_cap (b\<lparr>ch_mpi_buf := mb\<rparr>) = line_cap b"
  "buf_ptr (b\<lparr>ch_mpi_buf := mb\<rparr>) = buf_ptr b" "buffer.truncate (b\<lparr>ch_mpi_buf := mb\<rparr>) = buffer.truncate b"
  by (cases b; simp add: line_buf_def line_cap_def buffer.defs)+

lemma line_small: "n * e < 2 ^ 64 \<Longrightarrow> 0 < e \<Longrightarrow> n < 2 ^ 64" for n e :: nat
  using mult_le_mono2[of 1 e n] by linarith

lemma size_of_line: "n * e < 2 ^ 64 \<Longrightarrow> 0 < e \<Longrightarrow> size_mult (to_size (int n)) e = n * e"
  using line_small[of n e] by simp

lemma linear_line:
  assumes "line_buf e b M"
  shows "VBuffer_GetLinearSize b (buf_size b) = line_cap b * e"
proof -
  have "at (buf_size b) 0 = int (line_cap b)" using line_bufD(6)[OF assms] by (simp add: line_cap_def)
  then show ?thesis using size_of_line[OF line_bufD(5,4)[OF assms]] line_bufD(1,2)[OF assms]
    by (simp add: VBuffer_GetLinearSize_def)
qed

lemma linear_request:
  assumes "n * e < 2 ^ 64" "0 < e"
  shows "LinearSize_static 1 e (IntegerArray1 (int n)) = n * e"
  using size_of_line[OF assms] by (simp add: LinearSize_static_def IntegerArray1_def)

lemma line_buf_mem:
  assumes "line_buf e b M" "\<And>k cs. buf_ptr b = Ptr k 0 \<Longrightarrow> M k = Some cs \<Longrightarrow> \<exists>cs'. M' k = Some cs' \<and> length cs' = length cs"
  shows "line_buf e b M'"
  using assms(1)
proof (cases rule: line_ptr_cases)
  case 1
  then show ?thesis using assms(1) by (auto simp: line_buf_def split: if_splits)
next
  case (2 k cs)
  then obtain cs' where "M' k = Some cs'" "length cs' = length cs" using assms(2) by blast
  then show ?thesis using 2 assms(1) by (auto simp: line_buf_def line_cap_def)
qed

text \<open>A chunk of \<open>n\<close> elements for the buffer.\<close>

lemma line_buf_new:
  assumes "0 < n" "n * e < 2 ^ 64" "0 < e" "length cs = n * e" "M k = Some cs"
    "buf_num_dims b = 1" "buf_elm_size b = e" "buf_deleter b" "buf_ptr b = Ptr k 0" "buf_size b = IntegerArray1 (int n)"
  shows "line_buf e b M" "line_cap b = n"
proof -
  have "int n * int e = int (n * e)" by simp
  also have "\<dots> < int (2 ^ 64)" using assms(2) by (subst of_nat_less_iff)
  finally show "line_buf e b M"
    using assms by (auto simp: line_buf_def IntegerArray1_def all_less_num)
  show "line_cap b = n" using assms(10) by (simp add: line_cap_def IntegerArray1_def)
qed

subsection \<open>Memories that give chunks\<close>

text \<open>
  What \<open>Allocate\<close> makes of a buffer and a state: the memory besides the chunk is kept, and the
  chunk has room for \<open>n\<close> elements of \<open>e\<close> bytes.
\<close>

definition relines :: "('s \<Rightarrow> mem) \<Rightarrow> ('s \<Rightarrow> nat) \<Rightarrow> ('s \<Rightarrow> bool) \<Rightarrow> nat \<Rightarrow> nat \<Rightarrow> 'x buffer_scheme \<Rightarrow> 's \<Rightarrow>
    'x buffer_scheme \<Rightarrow> 's \<Rightarrow> bool" where
  "relines mem room good e n b s b' s' \<longleftrightarrow> good s' \<and> line_buf e b' (mem s') \<and> n \<le> line_cap b' \<and>
     without (buf_ptr b') (mem s') = without (buf_ptr b) (mem s) \<and> room s \<le> room s' + n * e"

lemma ensure_line:
  assumes b: "line_buf e b (mem s)" and g: "good s" and n: "0 < n" "n * e < 2 ^ 64"
    and al: "line_cap b < n \<Longrightarrow> \<exists>b' s'. allocate 1 e (IntegerArray1 (int n)) b s = Inr (b', s') \<and>
      relines mem room good e n b s b' s' \<and> P b'" and P: "P b"
  shows "\<exists>b' s'. VBuffer_EnsureCapacity_scalar allocate (int n) b s = Inr (b', s') \<and>
    relines mem room good e n b s b' s' \<and> P b' \<and> (n \<le> line_cap b \<longrightarrow> b' = b \<and> s' = s)"
proof (cases "n \<le> line_cap b")
  case True
  then have "n * e \<le> line_cap b * e" by (intro mult_right_mono) auto
  then have "VBuffer_EnsureCapacity_scalar allocate (int n) b s = Inr (b, s)"
    using line_bufD[OF b] linear_line[OF b] linear_request[OF n(2)]
    by (simp add: VBuffer_EnsureCapacity_scalar_def VBuffer_EnsureCapacity_def)
  then show ?thesis using True b g P by (simp add: relines_def)
next
  case False
  then have "line_cap b * e < n * e" using line_bufD(4)[OF b] by simp
  then have "VBuffer_EnsureCapacity_scalar allocate (int n) b s = allocate 1 e (IntegerArray1 (int n)) b s"
    using line_bufD[OF b] linear_line[OF b] linear_request[OF n(2)]
    by (simp add: VBuffer_EnsureCapacity_scalar_def VBuffer_EnsureCapacity_def)
  then show ?thesis using False al by auto
qed

locale chunk_store =
  fixes mem :: "'s \<Rightarrow> mem" and room :: "'s \<Rightarrow> nat" and good :: "'s \<Rightarrow> bool"
    and del :: "ptr \<Rightarrow> 's \<Rightarrow> fault + 's" and chunk :: "'x buffer_scheme \<Rightarrow> idx \<Rightarrow> 's \<Rightarrow> fault + (ptr \<times> 's)"
  assumes del_ok: "good s \<Longrightarrow> mem s k = Some cs \<Longrightarrow>
      \<exists>s'. del (Ptr k 0) s = Inr s' \<and> good s' \<and> mem s' = (mem s)(k := None) \<and> room s \<le> room s'"
    and chunk_ok: "good s \<Longrightarrow> buf_num_dims b = 1 \<Longrightarrow> 0 < n \<Longrightarrow> 0 < buf_elm_size b \<Longrightarrow> n * buf_elm_size b < 2 ^ 64 \<Longrightarrow>
      n * buf_elm_size b \<le> room s \<Longrightarrow>
      \<exists>k cs s'. chunk b (IntegerArray1 (int n)) s = Inr (Ptr k 0, s') \<and> good s' \<and> mem s k = None \<and>
        length cs = n * buf_elm_size b \<and> mem s' = (mem s)(k \<mapsto> cs) \<and> room s \<le> room s' + n * buf_elm_size b"
begin

lemma delete_line:
  assumes b: "line_buf e b (mem s)" and g: "good s"
  shows "\<exists>s'. VBuffer_Delete del b s = Inr (b\<lparr>buf_ptr := Null, buf_size := arr_Set 0\<rparr>, s') \<and> good s' \<and>
    mem s' = without (buf_ptr b) (mem s) \<and> room s \<le> room s'"
  using b
proof (cases rule: line_ptr_cases)
  case 1
  then show ?thesis using g by (simp add: VBuffer_Delete_def)
next
  case (2 k cs)
  then show ?thesis using del_ok[OF g 2(2)] line_bufD(3)[OF b]
    by (auto simp: VBuffer_Delete_def without_delete)
qed

lemma allocate_line:
  assumes b: "line_buf e b (mem s)" and g: "good s" and n: "0 < n" "n * e < 2 ^ 64" "n * e \<le> room s"
  shows "\<exists>p s'. VBuffer_Allocate del chunk 1 e (IntegerArray1 (int n)) b s =
      Inr (b\<lparr>buf_ptr := p, buf_size := IntegerArray1 (int n)\<rparr>, s') \<and>
    relines mem room good e n b s (b\<lparr>buf_ptr := p, buf_size := IntegerArray1 (int n)\<rparr>) s'"
proof -
  obtain s1 where s1: "VBuffer_Delete del b s = Inr (b\<lparr>buf_ptr := Null, buf_size := arr_Set 0\<rparr>, s1)" "good s1"
    "mem s1 = without (buf_ptr b) (mem s)" "room s \<le> room s1" using delete_line[OF b g] by blast
  note d = line_bufD[OF b]
  let ?b1 = "b\<lparr>buf_ptr := Null, buf_size := arr_Set 0, buf_num_dims := 1, buf_elm_size := e\<rparr>"
  obtain k cs s2 where s2: "chunk ?b1 (IntegerArray1 (int n)) s1 = Inr (Ptr k 0, s2)" "good s2" "mem s1 k = None"
    "length cs = n * e" "mem s2 = (mem s1)(k \<mapsto> cs)" "room s1 \<le> room s2 + n * e"
    using chunk_ok[OF s1(2), of ?b1 n] n d(4) s1(4) by auto
  let ?b2 = "b\<lparr>buf_ptr := Ptr k 0, buf_size := IntegerArray1 (int n)\<rparr>"
  have "?b1\<lparr>buf_ptr := Ptr k 0, buf_size := IntegerArray1 (int n)\<rparr> = ?b2" using d(1,2) by (cases b) simp
  then have "VBuffer_Allocate del chunk 1 e (IntegerArray1 (int n)) b s = Inr (?b2, s2)"
    using s1(1) s2(1) n(1) by (simp add: VBuffer_Allocate_def IntegerArray1_def)
  moreover have "line_buf e ?b2 (mem s2)" "line_cap ?b2 = n"
    using line_buf_new[OF n(1,2) d(4) s2(4), of "mem s2" k ?b2] s2(5) d(1-3) by simp_all
  moreover have "without (buf_ptr ?b2) (mem s2) = without (buf_ptr b) (mem s)"
    using s2(3,5) s1(3) by (simp add: without_absent)
  ultimately show ?thesis using s2(2,6) s1(4) by (intro exI[of _ "Ptr k 0"] exI[of _ s2]) (simp add: relines_def)
qed

lemma ensure_chunk:
  assumes "line_buf e b (mem s)" "good s" "0 < n" "n * e < 2 ^ 64" "n * e \<le> room s"
  shows "\<exists>b' s'. VBuffer_EnsureCapacity_scalar (VBuffer_Allocate del chunk) (int n) b s = Inr (b', s') \<and>
    relines mem room good e n b s b' s' \<and> buffer.more b' = buffer.more b \<and> (n \<le> line_cap b \<longrightarrow> b' = b \<and> s' = s)"
proof -
  have "\<exists>b' s'. VBuffer_Allocate del chunk 1 e (IntegerArray1 (int n)) b s = Inr (b', s') \<and>
      relines mem room good e n b s b' s' \<and> buffer.more b' = buffer.more b"
    using allocate_line[OF assms] by force
  then show ?thesis by (intro ensure_line[where mem = mem and s = s and e = e and good = good and P = "\<lambda>b'. buffer.more b' = buffer.more b"])
      (use assms in simp_all)
qed

end

subsection \<open>Devices and hosts with room\<close>

text \<open>
  When the memory has room, an allocation succeeds; freeing and writing take no memory.
\<close>

locale cuda_room = cuda_memory +
  fixes droom :: "'a \<Rightarrow> nat"
  assumes malloc_room: "0 < n \<Longrightarrow> n \<le> droom d \<Longrightarrow> \<exists>p d'. cuMalloc cu n d = Inr (p, d') \<and> droom d \<le> droom d' + n"
    and free_room: "dblk d b = Some cs \<Longrightarrow> cuFree cu (Ptr b 0) d = Inr d' \<Longrightarrow> droom d \<le> droom d'"
    and write_room: "cuWrite cu p ys d = Inr d' \<Longrightarrow> droom d' = droom d"
    and pinned_room: "0 < n \<Longrightarrow> n \<le> avail h \<Longrightarrow> \<exists>p h'. cuMallocHost cu n h = Inr (p, h')"

interpretation heap_room: cuda_room "heap_device align" live avail for align
proof unfold_locales
  fix n and d :: heap
  assume "0 < n" "n \<le> avail d"
  then show "\<exists>p d'. cuMalloc (heap_device align) n d = Inr (p, d') \<and> avail d \<le> avail d' + n"
    by (simp add: heap_device_def or_fail_def malloc_def alloc_def)
next
  fix d :: heap and b cs d'
  assume "live d b = Some cs" "cuFree (heap_device align) (Ptr b 0) d = Inr d'"
  then show "avail d \<le> avail d'" by (auto simp: heap_device_def live_Some)
next
  fix p ys and d d' :: heap
  assume "cuWrite (heap_device align) p ys d = Inr d'"
  then show "avail d' = avail d" by (cases p) (auto simp: heap_device_def split: option.splits if_splits)
next
  fix n and h :: heap
  assume "0 < n" "n \<le> avail h"
  then show "\<exists>p h'. cuMallocHost (heap_device align) n h = Inr (p, h')"
    by (simp add: heap_device_def or_fail_def malloc_def alloc_def)
qed

lemma heap_free:
  assumes "heap_ok h" "blocks h k = Some cs"
  shows "\<exists>h'. free (Ptr k 0) h = Inr h' \<and> heap_ok h' \<and> blocks h' = (blocks h)(k := None) \<and> avail h \<le> avail h'"
  using assms by (auto simp: heap_ok_def)

lemma malloc_new:
  assumes "heap_ok h" "malloc n h = (p, h')" "p \<noteq> Null"
  shows "\<exists>k. p = Ptr k 0 \<and> heap_ok h' \<and> blocks h k = None \<and> blocks h' = (blocks h)(k \<mapsto> replicate n None) \<and>
    avail h \<le> avail h' + n"
  using assms malloc_heap_ok[OF assms(1,2)] by (auto simp: malloc_def alloc_def heap_ok_def split: if_splits)

context cuda_room begin

lemma pinned_chunk:
  assumes "heap_ok h" "0 < n" "n \<le> avail h"
  shows "\<exists>k h'. cuMallocHost cu n h = Inr (Ptr k 0, h') \<and> heap_ok h' \<and> blocks h k = None \<and>
    blocks h' = (blocks h)(k \<mapsto> replicate n None) \<and> avail h \<le> avail h' + n"
proof -
  obtain p h' where p: "cuMallocHost cu n h = Inr (p, h')" using pinned_room[OF assms(2,3)] by blast
  note m = mallocHost_ok[OF assms(2) p]
  then show ?thesis using p malloc_new[OF assms(1)] by blast
qed

lemma pinned_free:
  assumes "heap_ok h" "blocks h k = Some cs"
  shows "\<exists>h'. cuFreeHost cu (Ptr k 0) h = Inr h' \<and> heap_ok h' \<and> blocks h' = (blocks h)(k := None) \<and> avail h \<le> avail h'"
  using heap_free[OF assms] freeHost_ok[OF assms(2)] by metis

lemma pinned_get:
  fixes b :: "'x buffer_scheme"
  assumes "heap_ok h" "buf_num_dims b = Suc 0" "0 < n" "0 < buf_elm_size b" "n * buf_elm_size b < 2 ^ 64" "n * buf_elm_size b \<le> avail h"
  shows "\<exists>k cs h'. cuMallocHost cu (VBuffer_GetLinearSize b (IntegerArray1 (int n))) h = Inr (Ptr k 0, h') \<and>
    heap_ok h' \<and> blocks h k = None \<and> length cs = n * buf_elm_size b \<and> blocks h' = (blocks h)(k \<mapsto> cs) \<and>
    avail h \<le> avail h' + n * buf_elm_size b"
proof -
  have lin: "VBuffer_GetLinearSize b (IntegerArray1 (int n)) = n * buf_elm_size b" "0 < n * buf_elm_size b"
    using assms size_of_line by (simp_all add: VBuffer_GetLinearSize_def IntegerArray1_def)
  obtain k h' where "cuMallocHost cu (n * buf_elm_size b) h = Inr (Ptr k 0, h')" "heap_ok h'" "blocks h k = None"
    "blocks h' = (blocks h)(k \<mapsto> replicate (n * buf_elm_size b) None)" "avail h \<le> avail h' + n * buf_elm_size b"
    using pinned_chunk[OF assms(1) lin(2) assms(6)] by blast
  then show ?thesis using lin(1) assms(2,3)
    by (intro exI[of _ k] exI[of _ "replicate (n * buf_elm_size b) None"] exI[of _ h']) simp
qed

end

text \<open>Pinned memory and device memory give chunks.\<close>

sublocale cuda_room \<subseteq> pinned: chunk_store blocks avail heap_ok "CUDAHost_DeleteChunk cu" "CUDAHost_GetChunk cu"
  by unfold_locales (simp_all add: CUDAHost_DeleteChunk_def CUDAHost_GetChunk_def pinned_free pinned_get)

sublocale cuda_room \<subseteq> mapped: chunk_store blocks avail heap_ok "CUDAHostMapped_DeleteChunk cu" "CUDAHostMapped_GetChunk cu"
  by unfold_locales (simp_all add: CUDAHostMapped_DeleteChunk_def CUDAHostMapped_GetChunk_def pinned_free pinned_get)

sublocale cuda_room \<subseteq> dev: chunk_store dblk droom "\<lambda>_. True" "CUDADev_DeleteChunk cu" "CUDADev_GetChunk cu"
proof
  fix s k cs
  assume "dblk s k = Some cs"
  then show "\<exists>s'. CUDADev_DeleteChunk cu (Ptr k 0) s = Inr s' \<and> True \<and> dblk s' = (dblk s)(k := None) \<and> droom s \<le> droom s'"
    using free_ok free_room by (simp add: CUDADev_DeleteChunk_def) blast
next
  fix s and b :: cuda_dev and n
  let ?n = "n * buf_elm_size b"
  assume a: "buf_num_dims b = 1" "0 < n" "0 < buf_elm_size b" "?n < 2 ^ 64" "?n \<le> droom s"
  then have lin: "VBuffer_GetLinearSize b (IntegerArray1 (int n)) = ?n"
    using size_of_line by (simp add: VBuffer_GetLinearSize_def IntegerArray1_def)
  obtain p s' where p: "cuMalloc cu ?n s = Inr (p, s')" "droom s \<le> droom s' + ?n" using malloc_room[OF _ a(5)] a(2,3) by auto
  obtain k cs where "p = Ptr k 0" "dblk s k = None" "length cs = ?n" "dblk s' = (dblk s)(k \<mapsto> cs)"
    using malloc_ok[OF _ p(1)] a(2,3) by auto
  then show "\<exists>k cs s'. CUDADev_GetChunk cu b (IntegerArray1 (int n)) s = Inr (Ptr k 0, s') \<and> True \<and> dblk s k = None \<and>
      length cs = ?n \<and> dblk s' = (dblk s)(k \<mapsto> cs) \<and> droom s \<le> droom s' + ?n"
    using p lin a by (auto simp: CUDADev_GetChunk_def IntegerArray1_def)
qed

subsection \<open>\<open>EnsureCapacity\<close> of each kind of buffer\<close>

text \<open>Mapped buffers also keep the pointer that kernels use.\<close>

definition mapped_ok :: "'d cuda_lib \<Rightarrow> cuda_mapped \<Rightarrow> bool" where
  "mapped_ok cu b \<longleftrightarrow> (buf_ptr b \<noteq> Null \<longrightarrow> cm_dev_ptr b = cuHostDevPtr cu (buf_ptr b))"

context cuda_room begin

lemma ensure_mapped:
  assumes b: "line_buf e b (blocks h)" and g: "heap_ok h" and n: "0 < n" "n * e < 2 ^ 64" "n * e \<le> avail h" and m: "mapped_ok cu b"
  shows "\<exists>b' h'. VBuffer_EnsureCapacity_scalar (CUDAHostMapped_Allocate cu) (int n) b h = Inr (b', h') \<and>
    relines blocks avail heap_ok e n b h b' h' \<and> mapped_ok cu b'"
proof -
  have "\<exists>b' h'. CUDAHostMapped_Allocate cu 1 e (IntegerArray1 (int n)) b h = Inr (b', h') \<and>
      relines blocks avail heap_ok e n b h b' h' \<and> mapped_ok cu b'"
  proof -
    obtain h1 where h1: "VBuffer_Delete (CUDAHostMapped_DeleteChunk cu) b h = Inr (b\<lparr>buf_ptr := Null, buf_size := arr_Set 0\<rparr>, h1)"
      "heap_ok h1" "blocks h1 = without (buf_ptr b) (blocks h)" "avail h \<le> avail h1" using mapped.delete_line[OF b g] by blast
    note d = line_bufD[OF b]
    let ?b1 = "b\<lparr>buf_ptr := Null, buf_size := arr_Set 0, buf_num_dims := 1, buf_elm_size := e\<rparr>"
    obtain k cs h2 where h2: "CUDAHostMapped_GetChunk cu ?b1 (IntegerArray1 (int n)) h1 = Inr (Ptr k 0, h2)" "heap_ok h2"
      "blocks h1 k = None" "length cs = n * e" "blocks h2 = (blocks h1)(k \<mapsto> cs)" "avail h1 \<le> avail h2 + n * e"
      using mapped.chunk_ok[OF h1(2), of ?b1 n] n d(4) h1(4) by auto
    let ?b2 = "?b1\<lparr>buf_ptr := Ptr k 0, cm_dev_ptr := cuHostDevPtr cu (Ptr k 0), buf_size := IntegerArray1 (int n)\<rparr>"
    have "CUDAHostMapped_Allocate cu 1 e (IntegerArray1 (int n)) b h = Inr (?b2, h2)"
      using h1(1) h2(1) n(1) by (simp add: CUDAHostMapped_Allocate_def IntegerArray1_def)
    moreover have "line_buf e ?b2 (blocks h2)" "line_cap ?b2 = n"
      using line_buf_new[OF n(1,2) d(4) h2(4), of "blocks h2" k ?b2] h2(5) d(3) by simp_all
    moreover have "without (buf_ptr ?b2) (blocks h2) = without (buf_ptr b) (blocks h)"
      using h2(3,5) h1(3) by (simp add: without_absent)
    ultimately show ?thesis using h2(2,6) h1(4)
      by (intro exI[of _ ?b2] exI[of _ h2]) (simp add: relines_def mapped_ok_def)
  qed
  then show ?thesis
    using ensure_line[where mem = blocks and s = h and e = e and good = heap_ok and room = avail and P = "mapped_ok cu"
        and allocate = "CUDAHostMapped_Allocate cu", OF b g n(1,2) _ m] by blast
qed

end

lemma line_buffer_ok:
  assumes "line_buf e b (blocks h)"
  shows "buffer_ok b h" "GetLinearSize b = line_cap b * e"
proof -
  show l: "GetLinearSize b = line_cap b * e"
    using linear_line[OF assms] by (simp add: VBuffer_GetLinearSize_def GetLinearSize_def GetLinearSize_of_def)
  show "buffer_ok b h"
    using assms l by (auto simp: buffer_ok_def line_buf_def line_cap_def split: if_splits)
qed

lemma ensure_host:
  assumes b: "line_buf e b (blocks h)" and g: "heap_ok h" and n: "0 < n" "n * e < 2 ^ 64" "n * e \<le> avail h"
  shows "\<exists>b' h'. Buffer_EnsureCapacity BufferHost_GetChunk 1 e (IntegerArray1 (int n)) b h = Inr (b', h') \<and>
    relines blocks avail heap_ok e n b h b' h' \<and> (n \<le> line_cap b \<longrightarrow> b' = b \<and> h' = h)"
proof (cases "n \<le> line_cap b")
  case True
  then have "n * e \<le> line_cap b * e" by (intro mult_right_mono) auto
  then show ?thesis using True b g line_buffer_ok(2)[OF b] linear_request[OF n(2) line_bufD(4)[OF b]]
    by (simp add: Buffer_EnsureCapacity_def relines_def)
next
  case False
  note d = line_bufD[OF b]
  have lt: "line_cap b * e < n * e" using False d(4) by simp
  have "int n * int e = int (n * e)" by simp
  also have "\<dots> < int (2 ^ 64)" using n(2) by (subst of_nat_less_iff)
  finally have fits: "size_fits 1 e (IntegerArray1 (int n))" using d(4) by (simp add: size_fits_def IntegerArray1_def)
  obtain b' h' where a: "Buffer_Allocate BufferHost_GetChunk 1 e (IntegerArray1 (int n)) b h = Inr (b', h')" "buffer_ok b' h'"
    "buf_num_dims b' = 1" "buf_elm_size b' = e" "buf_size b' = IntegerArray1 (int n)" "heap_ok h'" "others b' h' = others b h"
    "avail h' + GetLinearSize b' = avail h + GetLinearSize b"
    using Buffer_Allocate_ok[OF line_buffer_ok(1)[OF b] g fits] d(1,2) n line_buffer_ok(2)[OF b]
    by (auto simp: IntegerArray1_def)
  have len: "GetLinearSize b' = n * e"
    using linear_request[OF n(2) d(4)] a(3-5) by (simp add: GetLinearSize_def GetLinearSize_of_static)
  then obtain k cs where k: "buf_ptr b' = Ptr k 0" "blocks h' k = Some cs" "length cs = n * e"
    using a(2,3,5) n(1) by (auto simp: buffer_ok_def IntegerArray1_def)
  have "line_buf e b' (blocks h')" "line_cap b' = n"
    using line_buf_new[where b = b' and M = "blocks h'" and n = n and e = e and k = k, OF n(1,2) d(4) k(3,2) a(3,4) _ k(1) a(5)] a(2) by (simp_all add: buffer_ok_def)
  moreover have "without (buf_ptr b') (blocks h') = without (buf_ptr b) (blocks h)" using a(7) by (simp add: others_def without_def)
  ultimately have "relines blocks avail heap_ok e n b h b' h'" using a(6,8) len by (simp add: relines_def)
  moreover have "Buffer_EnsureCapacity BufferHost_GetChunk 1 e (IntegerArray1 (int n)) b h = Inr (b', h')"
    using a(1) lt line_buffer_ok(2)[OF b] linear_request[OF n(2) d(4)] by (simp add: Buffer_EnsureCapacity_def)
  ultimately show ?thesis using False by blast
qed

subsection \<open>Copies between buffers\<close>

lemma line_le:
  assumes "componentwise le" "line_buf e b M" "n \<le> line_cap b"
  shows "le (arr_plus IntegerArray0 (IntegerArray1 (int n))) (buf_size b)"
proof -
  have "\<forall>i < 3. at (IntegerArray1 (int n)) i \<le> at (buf_size b) i"
    using line_bufD(6-8)[OF assms(2)] assms(3) by (auto simp: all_less_num IntegerArray1_def line_cap_def)
  then show ?thesis using assms(1) unfolding componentwise_def by simp
qed

lemma linear_part:
  assumes "line_buf e b M" "n \<le> line_cap b"
  shows "VBuffer_GetLinearSize b (IntegerArray1 (int n)) = n * e" "n * e \<le> line_cap b * e"
proof -
  show le: "n * e \<le> line_cap b * e" using assms(2) by (intro mult_right_mono) auto
  have "n * e < 2 ^ 64" using le line_bufD(5)[OF assms(1)] by linarith
  then show "VBuffer_GetLinearSize b (IntegerArray1 (int n)) = n * e"
    using size_of_line line_bufD(1,2,4)[OF assms(1)] by (simp add: VBuffer_GetLinearSize_def)
qed

text \<open>A chunk that begins with \<open>ys\<close>.\<close>

definition begins :: "'x buffer_scheme \<Rightarrow> mem \<Rightarrow> cell list \<Rightarrow> bool" where
  "begins b M ys \<longleftrightarrow> (\<exists>k cs. buf_ptr b = Ptr k 0 \<and> M k = Some cs \<and> length ys \<le> length cs \<and> take (length ys) cs = ys)"

lemma begins_write:
  assumes "line_buf e b M" "0 < n" "n \<le> line_cap b" "length ys = n * e"
  obtains k cs where "buf_ptr b = Ptr k 0" "M k = Some cs" "length ys \<le> length cs"
    "line_buf e b (M(k \<mapsto> list_write cs 0 ys))" "begins b (M(k \<mapsto> list_write cs 0 ys)) ys"
    "without (buf_ptr b) (M(k \<mapsto> list_write cs 0 ys)) = without (buf_ptr b) M"
proof -
  obtain k cs where k: "buf_ptr b = Ptr k 0" "M k = Some cs" "length cs = line_cap b * e"
    using line_chunk[OF assms(1)] assms(2,3) by (metis gr0I le_zero_eq not_gr_zero)
  have len: "length ys \<le> length cs" using k(3) assms(3,4) by simp
  have "line_buf e b (M(k \<mapsto> list_write cs 0 ys))" using k len by (intro line_buf_mem[OF assms(1)]) auto
  moreover have "begins b (M(k \<mapsto> list_write cs 0 ys)) ys" using k(1) len by (simp add: begins_def list_write_def)
  ultimately show ?thesis using k len by (intro that[of k cs]) simp_all
qed

lemma begins_truncate [simp]: "begins (buffer.truncate b) M ys = begins b M ys"
  by (simp add: begins_def)

lemma begins_other:
  assumes "begins b M ys" "\<And>k cs. buf_ptr b = Ptr k 0 \<Longrightarrow> M k = Some cs \<Longrightarrow> M' k = Some cs"
  shows "begins b M' ys"
  using assms by (auto simp: begins_def)

lemma begins_load:
  assumes "begins b (blocks h) ys"
  shows "load (buf_ptr b) (length ys) h = Inr ys"
  using assms by (auto simp: begins_def)

lemma copy_lines_host:
  assumes d: "line_buf e d (blocks h)" "0 < n" "n \<le> line_cap d" and s: "begins s (blocks h) ys" "length ys = n * e"
    and ne: "buf_ptr d \<noteq> buf_ptr s" and g: "heap_ok h"
  shows "\<exists>h'. memcpy (buf_ptr d) (buf_ptr s) (n * e) h = Inr h' \<and> heap_ok h' \<and> avail h' = avail h \<and>
    line_buf e d (blocks h') \<and> begins d (blocks h') ys \<and> without (buf_ptr d) (blocks h') = without (buf_ptr d) (blocks h)"
proof -
  obtain k cs where k: "buf_ptr d = Ptr k 0" "blocks h k = Some cs" "length ys \<le> length cs"
    "line_buf e d ((blocks h)(k \<mapsto> list_write cs 0 ys))" "begins d ((blocks h)(k \<mapsto> list_write cs 0 ys)) ys"
    "without (buf_ptr d) ((blocks h)(k \<mapsto> list_write cs 0 ys)) = without (buf_ptr d) (blocks h)"
    using begins_write[OF d s(2)] by blast
  obtain j S where j: "buf_ptr s = Ptr j 0" "blocks h j = Some S" "length ys \<le> length S" "take (length ys) S = ys"
    using s(1) by (auto simp: begins_def)
  have "memcpy (Ptr k (int 0)) (Ptr j (int 0)) (n * e) h =
      Inr (h\<lparr>blocks := (blocks h)(k \<mapsto> list_write cs 0 (take (n * e) (drop 0 S)))\<rparr>)"
    by (rule memcpy_blocks) (use k j ne s(2) in auto)
  then have m: "memcpy (buf_ptr d) (buf_ptr s) (n * e) h = Inr (h\<lparr>blocks := (blocks h)(k \<mapsto> list_write cs 0 ys)\<rparr>)"
    using k(1) j s(2) by simp
  moreover have "heap_ok (h\<lparr>blocks := (blocks h)(k \<mapsto> list_write cs 0 ys)\<rparr>)" using memcpy_heap_ok[OF g m] .
  ultimately show ?thesis using k by simp
qed

text \<open>From the mapped buffer of a layer to the buffer that is sent.\<close>

lemma mapped_to_sent:
  assumes le: "componentwise le" and s: "line_buf e s (blocks h)" "begins s (blocks h) ys" "length ys = n * e" "0 < n" "n \<le> line_cap s"
    and d: "line_buf e d (blocks h)" "n \<le> line_cap d" "buf_ptr d \<noteq> buf_ptr s" and g: "heap_ok h"
  shows "\<exists>h'. CUDAHostMapped_Copyout_buf le d IntegerArray0 (IntegerArray1 (int n)) s h = Inr (d, h') \<and>
    heap_ok h' \<and> avail h' = avail h \<and> line_buf e d (blocks h') \<and> begins d (blocks h') ys \<and>
    without (buf_ptr d) (blocks h') = without (buf_ptr d) (blocks h)"
proof -
  have n64: "n * e < 2 ^ 64" using linear_part(2)[OF s(1,5)] line_bufD(5)[OF s(1)] by linarith
  have e: "Buffer_EnsureCapacity BufferHost_GetChunk 1 e (IntegerArray1 (int n)) d h = Inr (d, h)"
    using linear_part(2)[OF d(1,2)] line_buffer_ok(2)[OF d(1)] linear_request[OF n64 line_bufD(4)[OF d(1)]]
    by (simp add: Buffer_EnsureCapacity_def)
  obtain h' where h': "memcpy (buf_ptr d) (buf_ptr s) (n * e) h = Inr h'" "heap_ok h'" "avail h' = avail h"
    "line_buf e d (blocks h')" "begins d (blocks h') ys" "without (buf_ptr d) (blocks h') = without (buf_ptr d) (blocks h)"
    using copy_lines_host[OF d(1) s(4) d(2) s(2,3) d(3) g] by blast
  have "CUDAHostMapped_Copyout le (buf_ptr d) IntegerArray0 (IntegerArray1 (int n)) s h = Inr h'"
    using line_le[OF le s(1,5)] linear_part(1)[OF s(1,5)] h'(1) by (simp add: CUDAHostMapped_Copyout_def)
  then show ?thesis using e h' line_bufD(1,2)[OF s(1)] by (simp add: CUDAHostMapped_Copyout_buf_def)
qed

lemma send_line:
  assumes "componentwise le" "line_buf e b (blocks h)" "n \<le> line_cap b" "0 < n" "begins b (blocks h) ys" "length ys = n * e"
  shows "bindP (BufferHost_MPIIsend le peer IntegerArray0 (IntegerArray1 (int n)) b h) C = Send peer (MBytes ys) (C ())"
proof -
  have "GetLinearSize_of b (IntegerArray1 (int n)) = length ys"
    using linear_part(1)[OF assms(2,3)] assms(6) by (simp add: VBuffer_GetLinearSize_def GetLinearSize_of_def)
  moreover have "length ys \<noteq> 0" using assms(4,6) line_bufD(4)[OF assms(2)] by simp
  ultimately show ?thesis using line_le[OF assms(1-3)] begins_load[OF assms(5)]
    by (simp add: BufferHost_MPIIsend_def send_bytes_def PS_MPI_Send_def del: load.simps)
qed

subsection \<open>Receiving\<close>

lemma ensure1_line:
  "line_buf e b M \<Longrightarrow> VBuffer_EnsureCapacity1 allocate (IntegerArray1 n) b s = VBuffer_EnsureCapacity_scalar allocate n b s"
  by (simp add: VBuffer_EnsureCapacity1_def VBuffer_EnsureCapacity_scalar_def line_bufD(1))

lemma relines_trans:
  assumes "relines mem room good e n b s b' s'" "good s''" "line_buf e b' (mem s'')"
    "without (buf_ptr b') (mem s'') = without (buf_ptr b') (mem s')" "room s'' = room s'"
  shows "relines mem room good e n b s b' s''"
  using assms by (simp add: relines_def)

lemma relinesD:
  assumes "relines mem room good e n b s b' s'"
  shows "good s'" "line_buf e b' (mem s')" "n \<le> line_cap b'"
    "without (buf_ptr b') (mem s') = without (buf_ptr b) (mem s)" "room s \<le> room s' + n * e"
  using assms by (simp_all add: relines_def)

lemma recv_line:
  assumes b: "line_buf e b (blocks h)" and g: "heap_ok h" and n: "0 < n" "n * e < 2 ^ 64" "n * e \<le> avail h" and ys: "length ys = n * e"
  shows "\<exists>b' h'. relines blocks avail heap_ok e n b h b' h' \<and> begins b' (blocks h') ys \<and>
    (\<forall>inbox ms f. inbox src = MBytes ys # ms \<longrightarrow>
      drain (bindP (BufferHost_MPIRecv src IntegerArray0 (IntegerArray1 (int n)) b h) f) inbox = drain (f (b', h')) (inbox(src := ms)))"
proof -
  obtain b' h1 where 1: "Buffer_EnsureCapacity BufferHost_GetChunk 1 e (IntegerArray1 (int n)) b h = Inr (b', h1)"
    "relines blocks avail heap_ok e n b h b' h1" using ensure_host[OF b g n] by blast
  note r = relinesD[OF 1(2)]
  obtain k cs where k: "buf_ptr b' = Ptr k 0" "blocks h1 k = Some cs" "length ys \<le> length cs"
    "line_buf e b' ((blocks h1)(k \<mapsto> list_write cs 0 ys))" "begins b' ((blocks h1)(k \<mapsto> list_write cs 0 ys)) ys"
    "without (buf_ptr b') ((blocks h1)(k \<mapsto> list_write cs 0 ys)) = without (buf_ptr b') (blocks h1)"
    using begins_write[OF r(2) n(1) r(3) ys] by blast
  let ?h = "h1\<lparr>blocks := (blocks h1)(k \<mapsto> list_write cs 0 ys)\<rparr>"
  have st: "store (buf_ptr b') ys h1 = Inr ?h" using k(1-3) by simp
  have ok: "heap_ok ?h" by (rule store_heap_ok[OF r(1) st])
  have ne: "ys \<noteq> []" using ys n(1) line_bufD(4)[OF b] by auto
  have len: "GetLinearSize_of b' (IntegerArray1 (int n)) = length ys"
    using linear_part(1)[OF r(2,3)] ys by (simp add: VBuffer_GetLinearSize_def GetLinearSize_of_def)
  have "drain (bindP (BufferHost_MPIRecv src IntegerArray0 (IntegerArray1 (int n)) b h) f) inbox = drain (f (b', ?h)) (inbox(src := ms))"
    if "inbox src = MBytes ys # ms" for inbox ms f
    using that 1(1) st ne len line_bufD(1,2)[OF b]
    by (simp add: BufferHost_MPIRecv_def Buffer_EnsureCapacity1_def recv_bytes_def PS_MPI_Recv_def del: store.simps)
  moreover have "relines blocks avail heap_ok e n b h b' ?h"
    by (rule relines_trans[OF 1(2) ok]) (use k in simp_all)
  moreover have "begins b' (blocks ?h) ys" using k(5) by simp
  ultimately show ?thesis by blast
qed

lemma pinned_recv:
  fixes b :: cuda_host
  assumes b: "line_buf e b (blocks h)" "n \<le> line_cap b" and t: "line_buf e (ch_mpi_buf b) (blocks h)" "buf_ptr (ch_mpi_buf b) \<noteq> buf_ptr b"
    and g: "heap_ok h" and n: "0 < n" "n * e < 2 ^ 64" "n * e \<le> avail h" and ys: "length ys = n * e"
  shows "\<exists>mb h1 h'. relines blocks avail heap_ok e n (ch_mpi_buf b) h mb h1 \<and> heap_ok h' \<and> avail h' = avail h1 \<and>
    line_buf e b (blocks h') \<and> begins b (blocks h') ys \<and> without (buf_ptr b) (blocks h') = without (buf_ptr b) (blocks h1) \<and>
    (\<forall>inbox ms (f :: cuda_host \<times> heap \<Rightarrow> 'q prog). inbox src = MBytes ys # ms \<longrightarrow>
      drain (bindP (CUDAHost_MPIRecv cu src IntegerArray0 (IntegerArray1 (int n)) b h) f) inbox =
        drain (f (b\<lparr>ch_mpi_buf := mb\<rparr>, h')) (inbox(src := ms)))"
proof -
  obtain mb h1 where 1: "relines blocks avail heap_ok e n (ch_mpi_buf b) h mb h1" "begins mb (blocks h1) ys"
    "\<And>inbox ms (f :: buffer \<times> heap \<Rightarrow> 'q prog). inbox src = MBytes ys # ms \<Longrightarrow>
      drain (bindP (BufferHost_MPIRecv src IntegerArray0 (IntegerArray1 (int n)) (ch_mpi_buf b) h) f) inbox = drain (f (mb, h1)) (inbox(src := ms))"
    using recv_line[OF t(1) g n ys, of src] by blast
  note r = relinesD[OF 1(1)]
  obtain k cs where k: "buf_ptr b = Ptr k 0" "blocks h k = Some cs" "length cs = line_cap b * e"
    using line_chunk[OF b(1)] b(2) n(1) by (metis le_zero_eq not_gr_zero)
  have k1: "blocks h1 k = Some cs" "buf_ptr mb \<noteq> Ptr k 0" using without_live[OF r(4) k(2)] t(2) k(1) by auto
  have b1: "line_buf e b (blocks h1)" by (rule line_buf_mem[OF b(1)]) (use k k1 in auto)
  obtain h' where h': "memcpy (buf_ptr b) (buf_ptr mb) (n * e) h1 = Inr h'" "heap_ok h'" "avail h' = avail h1"
    "line_buf e b (blocks h')" "begins b (blocks h') ys" "without (buf_ptr b) (blocks h') = without (buf_ptr b) (blocks h1)"
    using copy_lines_host[OF b1 n(1) b(2) 1(2) ys _ r(1)] k(1) k1(2) by auto
  let ?b = "b\<lparr>ch_mpi_buf := mb\<rparr>"
  have b2: "line_buf e ?b (blocks h1)" "line_cap ?b = line_cap b" using b1 by simp_all
  have "VBuffer_EnsureCapacity_scalar (CUDAHost_Allocate cu) (int n) ?b h1 = Inr (?b, h1)"
    using linear_line[OF b2(1)] linear_part(2)[OF b2(1), of n] b(2) b2(2) linear_request[OF n(2) line_bufD(4)[OF b(1)]] line_bufD(2)[OF b2(1)]
    by (simp add: VBuffer_EnsureCapacity_scalar_def VBuffer_EnsureCapacity_def)
  then have "CUDAHost_Copyin_buf cu mb IntegerArray0 (IntegerArray1 (int n)) ?b h1 = Inr (?b, h')"
    using h'(1) linear_part(1)[OF b2(1), of n] b(2) b2(2)
    by (simp add: CUDAHost_Copyin_buf_def CUDAHost_Copyin_def ensure1_line[OF b2(1)])
  then have "drain (bindP (CUDAHost_MPIRecv cu src IntegerArray0 (IntegerArray1 (int n)) b h) f) inbox = drain (f (?b, h')) (inbox(src := ms))"
    if "inbox src = MBytes ys # ms" for inbox ms and f :: "cuda_host \<times> heap \<Rightarrow> 'q prog"
    using that by (simp add: CUDAHost_MPIRecv_def bindP_assoc 1(3)[of inbox ms])
  then show ?thesis using 1(1) h'(2-) by blast
qed

context cuda_room begin

lemma dev_copyin:
  assumes b: "line_buf e b (dblk d)" and s: "begins s (blocks h) ys" "length ys = n * e"
    and n: "0 < n" "n * e < 2 ^ 64" "n * e \<le> droom d"
  shows "\<exists>b' d'. CUDADev_Copyin_pinned cu s IntegerArray0 (IntegerArray1 (int n)) b h d = Inr (b', d') \<and>
    relines dblk droom (\<lambda>_. True) e n b d b' d' \<and> begins b' (dblk d') ys"
proof -
  obtain b' d1 where 1: "VBuffer_EnsureCapacity_scalar (CUDADev_Allocate cu) (int n) b d = Inr (b', d1)"
    "relines dblk droom (\<lambda>_. True) e n b d b' d1"
    using dev.ensure_chunk[OF b _ n] by (auto simp: CUDADev_Allocate_def)
  note r = relinesD[OF 1(2)]
  obtain k cs where k: "buf_ptr b' = Ptr k 0" "dblk d1 k = Some cs" "length ys \<le> length cs"
    "line_buf e b' ((dblk d1)(k \<mapsto> list_write cs 0 ys))" "begins b' ((dblk d1)(k \<mapsto> list_write cs 0 ys)) ys"
    "without (buf_ptr b') ((dblk d1)(k \<mapsto> list_write cs 0 ys)) = without (buf_ptr b') (dblk d1)"
    using begins_write[OF r(2) n(1) r(3) s(2)] by blast
  obtain d' where d': "cuWrite cu (Ptr k (int 0)) ys d1 = Inr d'" "dblk d' = (dblk d1)(k \<mapsto> list_write cs 0 ys)"
    using write_ok[OF k(2), of 0 ys] k(3) by auto
  have "cudaMemcpy_HostToDevice cu (buf_ptr b') (buf_ptr s) (n * e) h d1 = Inr d'"
    using begins_load[OF s(1)] s(2) d'(1) k(1) by (simp add: cudaMemcpy_HostToDevice_def del: load.simps)
  then have "CUDADev_Copyin_pinned cu s IntegerArray0 (IntegerArray1 (int n)) b h d = Inr (b', d')"
    using 1(1) linear_part(1)[OF r(2,3)] by (simp add: CUDADev_Copyin_pinned_def ensure1_line[OF b])
  moreover have "relines dblk droom (\<lambda>_. True) e n b d b' d'"
    by (rule relines_trans[OF 1(2)]) (use k d' write_room[OF d'(1)] in simp_all)
  ultimately show ?thesis using k(5) d'(2) by (intro exI[of _ b'] exI[of _ d']) simp
qed

lemma ensure_pinned:
  assumes "line_buf e (b :: cuda_host) (blocks h)" "heap_ok h" "0 < n" "n * e < 2 ^ 64" "n * e \<le> avail h"
  shows "\<exists>b' h'. VBuffer_EnsureCapacity_scalar (CUDAHost_Allocate cu) (int n) b h = Inr (b', h') \<and>
    relines blocks avail heap_ok e n b h b' h' \<and> ch_mpi_buf b' = ch_mpi_buf b"
proof -
  obtain b' h' where b': "VBuffer_EnsureCapacity_scalar (CUDAHost_Allocate cu) (int n) b h = Inr (b', h')"
    "relines blocks avail heap_ok e n b h b' h'" "buffer.more b' = buffer.more b"
    using pinned.ensure_chunk[OF assms] by (auto simp: CUDAHost_Allocate_def)
  have "ch_mpi_buf b' = ch_mpi_buf b" using b'(3) by (cases b; cases b') simp
  then show ?thesis using b' by blast
qed

text \<open>A layer goes from the pitched block to the mapped buffer.\<close>

lemma layer_to_mapped:
  assumes at: "pitched_at b e s blk D" "dblk d blk = Some D" and fits: "copy_fits e 3 s off z" and pos: "\<And>i. i < 3 \<Longrightarrow> 0 < at z i"
    and m: "line_buf e m (blocks h)" "mapped_ok cu m" "nat (accumulate z 3) \<le> line_cap m" and g: "heap_ok h"
    and k: "kernel_fits e (pp_pitch (c3_pp b)) z" and sched: "any_order sched" and le: "le (arr_plus off z) s"
    and n: "n = nat (accumulate z 3)" "0 < n"
  shows "\<exists>h'. CUDADev3D_Copyout_mapped cu le sched m off z b h d = Inr (m, h') \<and> heap_ok h' \<and> avail h' = avail h \<and>
    line_buf e m (blocks h') \<and> begins m (blocks h') (subgrid e 3 s off z (array_of b D)) \<and>
    without (buf_ptr m) (blocks h') = without (buf_ptr m) (blocks h)"
proof -
  obtain v V where v: "buf_ptr m = Ptr v 0" "blocks h v = Some V" "length V = line_cap m * e"
    using line_chunk[OF m(1)] m(3) n by (metis le_zero_eq not_gr_zero)
  let ?L = "subgrid e 3 s off z (array_of b D)" and ?n = "nat (accumulate z 3)"
  have "length (array_of b D) = nat (accumulate s 3) * e" using length_array_of[OF at(1)] by simp
  then have L: "length ?L = n * e" using length_subgrid[OF fits, of "array_of b D"] n(1) by simp
  have room: "n * e \<le> line_cap m * e" using m(3) n(1) by (intro mult_right_mono) auto
  then have n64: "n * e < 2 ^ 64" using line_bufD(5)[OF m(1)] by linarith
  have z0: "0 \<le> accumulate z 3" using pos by (intro accumulate_nonneg) (auto intro: less_imp_le)
  have "size_fits 3 e z"
  proof -
    have "accumulate z 3 * int e = int (n * e)" using z0 n(1) by simp
    also have "\<dots> < int (2 ^ 64)" using n64 by (subst of_nat_less_iff)
    finally show ?thesis using pos line_bufD(4)[OF m(1)] by (simp add: size_fits_def less_imp_le)
  qed
  then have hb: "holds_box m v e z"
    using v(1) linear_line[OF m(1)] room n(1) by (simp add: holds_box_def LinearSize_static_eq)
  have "cm_dev_ptr m = cuHostDevPtr cu (Ptr v 0)" "?n * e \<le> length V" using m(2) v room n(1) by (auto simp: mapped_ok_def)
  then have "CUDADev3D_Copyout_mapped cu le sched m off z b h d = Inr (m, h\<lparr>blocks := (blocks h)(v \<mapsto> list_write V 0 ?L)\<rparr>)"
    by (rule Copyout_mapped_ok[where v = v and V = V and le = le, OF at fits hb _ v(2) _ k sched le pos])
  moreover obtain j cs where "buf_ptr m = Ptr j 0" "blocks h j = Some cs" "length ?L \<le> length cs"
    "line_buf e m ((blocks h)(j \<mapsto> list_write cs 0 ?L))" "begins m ((blocks h)(j \<mapsto> list_write cs 0 ?L)) ?L"
    "without (buf_ptr m) ((blocks h)(j \<mapsto> list_write cs 0 ?L)) = without (buf_ptr m) (blocks h)"
    using begins_write[OF m(1) n(2) _ L] m(3) n(1) by blast
  ultimately show ?thesis using v g by (auto simp: heap_ok_def)
qed

end

end
