(* ===== verification/Cuda_Slots.thy ===== *)
theory Cuda_Slots imports Cuda_Lines begin

text \<open>
  The halo buffers of a grid on a device as a family of one-dimensional buffers in two
  memories: no two own the same chunk, none owns the chunk of the data, and an operation on
  some of them leaves the others and the data as they are.
\<close>

subsection \<open>Families of buffers\<close>

definition chunks_ok :: "nat \<Rightarrow> 'i set \<Rightarrow> ('i \<Rightarrow> buffer) \<Rightarrow> mem \<Rightarrow> bool" where
  "chunks_ok e I F M \<longleftrightarrow> (\<forall>i \<in> I. line_buf e (F i) M) \<and>
     (\<forall>i \<in> I. \<forall>j \<in> I. i \<noteq> j \<longrightarrow> buf_ptr (F i) = Null \<or> buf_ptr (F i) \<noteq> buf_ptr (F j))"

text \<open>Only the buffers of \<open>S\<close> change, and they may give up their chunks for new ones.\<close>

definition only :: "nat \<Rightarrow> 'i set \<Rightarrow> 'i set \<Rightarrow> ('i \<Rightarrow> buffer) \<Rightarrow> mem \<Rightarrow> ('i \<Rightarrow> buffer) \<Rightarrow> mem \<Rightarrow> bool" where
  "only e I S F M F' M' \<longleftrightarrow> chunks_ok e I F' M' \<and> (\<forall>i. i \<notin> S \<longrightarrow> F' i = F i) \<and>
     (\<forall>k cs. M k = Some cs \<longrightarrow> (\<forall>i \<in> S. buf_ptr (F i) \<noteq> Ptr k 0) \<longrightarrow>
        M' k = Some cs \<and> (\<forall>i \<in> S. buf_ptr (F' i) \<noteq> Ptr k 0))"

lemma only_refl: "chunks_ok e I F M \<Longrightarrow> only e I S F M F M"
  by (simp add: only_def)

lemma only_mono: "only e I S F M F' M' \<Longrightarrow> S \<subseteq> S' \<Longrightarrow> only e I S' F M F' M'"
  unfolding only_def by (metis subset_iff)

lemma only_trans: "only e I S F M F' M' \<Longrightarrow> only e I S F' M' F'' M'' \<Longrightarrow> only e I S F M F'' M''"
  unfolding only_def by auto

lemma only_ok: "only e I S F M F' M' \<Longrightarrow> chunks_ok e I F' M'"
  by (simp add: only_def)

lemma chunks_line: "chunks_ok e I F M \<Longrightarrow> i \<in> I \<Longrightarrow> line_buf e (F i) M"
  by (simp add: chunks_ok_def)

lemma line_ptr: "line_buf e b M \<Longrightarrow> buf_ptr b = Null \<or> (\<exists>k cs. buf_ptr b = Ptr k 0 \<and> M k = Some cs)"
  by (erule line_ptr_cases) auto

lemma chunks_apart:
  "chunks_ok e I F M \<Longrightarrow> i \<in> I \<Longrightarrow> j \<in> I \<Longrightarrow> i \<noteq> j \<Longrightarrow> buf_ptr (F j) = Ptr k 0 \<Longrightarrow> buf_ptr (F i) \<noteq> Ptr k 0"
  by (metis chunks_ok_def ptr.distinct(1))

lemma only_step:
  assumes ok: "chunks_ok e I F M" and i: "i \<in> I" and b: "line_buf e b M'" "without (buf_ptr b) M' = without (buf_ptr (F i)) M"
  shows "only e I {i} F M (F(i := b)) M'"
proof -
  have far: "M' k = Some cs \<and> buf_ptr b \<noteq> Ptr k 0" if "M k = Some cs" "buf_ptr (F i) \<noteq> Ptr k 0" for k cs
    using without_live[OF b(2) that] by simp
  have line: "line_buf e (F j) M' \<and> (buf_ptr (F j) = Null \<or> buf_ptr (F j) \<noteq> buf_ptr b)" if j: "j \<in> I" "j \<noteq> i" for j
  proof -
    have k: "M' k = Some cs \<and> buf_ptr b \<noteq> Ptr k 0" if "buf_ptr (F j) = Ptr k 0" "M k = Some cs" for k cs
      using far[OF that(2)] chunks_apart[OF ok i j(1) _ that(1)] j(2) by blast
    have "line_buf e (F j) M'" by (rule line_buf_mem[OF chunks_line[OF ok j(1)]]) (use k in blast)
    then show ?thesis using k line_ptr[OF chunks_line[OF ok j(1)]] by metis
  qed
  have "chunks_ok e I (F(i := b)) M'"
  proof -
    have "line_buf e ((F(i := b)) j) M'" if "j \<in> I" for j using line[OF that] b(1) by (cases "j = i") simp_all
    moreover have "buf_ptr ((F(i := b)) j) = Null \<or> buf_ptr ((F(i := b)) j) \<noteq> buf_ptr ((F(i := b)) l)"
      if "j \<in> I" "l \<in> I" "j \<noteq> l" for j l
    proof -
      have "buf_ptr (F j) = Null \<or> buf_ptr (F j) \<noteq> buf_ptr (F l)" using ok that by (simp add: chunks_ok_def)
      then show ?thesis using line[OF that(1)] line[OF that(2)] that(3) by (cases "j = i"; cases "l = i") auto
    qed
    ultimately show ?thesis by (simp add: chunks_ok_def)
  qed
  then show ?thesis using far unfolding only_def by simp
qed

lemma only_begins:
  assumes "only e I S F M F' M'" "chunks_ok e I F M" "S \<subseteq> I" "j \<in> I" "j \<notin> S" "begins (F j) M ys"
  shows "begins (F' j) M' ys"
proof -
  have e: "F' j = F j" using assms(1,5) by (simp add: only_def)
  show ?thesis unfolding e
  proof (rule begins_other[OF assms(6)])
    fix k cs
    assume k: "buf_ptr (F j) = Ptr k 0" "M k = Some cs"
    have "\<forall>i \<in> S. buf_ptr (F i) \<noteq> Ptr k 0" using chunks_apart[OF assms(2) _ assms(4) _ k(1)] assms(3,5) by blast
    then show "M' k = Some cs" using assms(1) k(2) by (simp add: only_def)
  qed
qed

text \<open>A chunk that belongs to none of the buffers.\<close>

lemma only_foreign:
  assumes "only e I S F M F' M'" "S \<subseteq> I" "M k = Some cs" "\<forall>i \<in> I. buf_ptr (F i) \<noteq> Ptr k 0"
  shows "M' k = Some cs" "\<forall>i \<in> I. buf_ptr (F' i) \<noteq> Ptr k 0"
proof -
  have "M' k = Some cs \<and> (\<forall>i \<in> S. buf_ptr (F' i) \<noteq> Ptr k 0)" using assms unfolding only_def by (meson subsetD)
  then show "M' k = Some cs" "\<forall>i \<in> I. buf_ptr (F' i) \<noteq> Ptr k 0" using assms(1,4) unfolding only_def by metis+
qed

subsection \<open>The halo buffers of a grid\<close>

datatype slot_kind = Mapped | Sent | Pinned | Transfer

type_synonym host_slot = "slot_kind \<times> bool \<times> nat"

fun hbuf :: "'g cuda_grid_scheme \<Rightarrow> host_slot \<Rightarrow> buffer" where
  "hbuf g (Mapped, fw, d) = buffer.truncate (side fw (gc_self_cuda g ! d))"
| "hbuf g (Sent, fw, d) = side fw (gc_self_mpi g ! d)"
| "hbuf g (Pinned, fw, d) = buffer.truncate (side fw (gc_peer_cuda g ! d))"
| "hbuf g (Transfer, fw, d) = ch_mpi_buf (side fw (gc_peer_cuda g ! d))"

fun dbuf :: "'g cuda_grid_scheme \<Rightarrow> bool \<times> nat \<Rightarrow> buffer" where
  "dbuf g (fw, d) = buffer.truncate (side fw (gc_peer_dev g ! d))"

definition hslots :: "host_slot set" where
  "hslots = UNIV \<times> UNIV \<times> {..<3}"

definition dslots :: "(bool \<times> nat) set" where
  "dslots = UNIV \<times> {..<3}"

definition hslots_at :: "nat \<Rightarrow> host_slot set" where
  "hslots_at d = UNIV \<times> UNIV \<times> {d}"

definition dslots_at :: "nat \<Rightarrow> (bool \<times> nat) set" where
  "dslots_at d = UNIV \<times> {d}"

lemma hslots_mem [simp]: "(k, fw, d) \<in> hslots \<longleftrightarrow> d < 3" "(k, fw, d') \<in> hslots_at d \<longleftrightarrow> d' = d"
  by (auto simp: hslots_def hslots_at_def)

lemma dslots_mem [simp]: "(fw, d) \<in> dslots \<longleftrightarrow> d < 3" "(fw, d') \<in> dslots_at d \<longleftrightarrow> d' = d"
  by (auto simp: dslots_def dslots_at_def)

lemma slots_at_sub: "d < 3 \<Longrightarrow> hslots_at d \<subseteq> hslots" "d < 3 \<Longrightarrow> dslots_at d \<subseteq> dslots"
  by auto

lemma side_set [simp]: "side fw (set_side fw' x p) = (if fw = fw' then x else side fw p)"
  by (auto simp: side_def set_side_def)

lemma put_halo_nth: "d < length ps \<Longrightarrow> side fw' (put_halo d fw x ps ! j) = (if j = d \<and> fw' = fw then x else side fw' (ps ! j))"
  by (cases "j = d") (auto simp: put_halo_def)

lemma put_halo_length [simp]: "length (put_halo d fw x ps) = length ps"
  by (simp add: put_halo_def)

lemma halo_buf_nth [simp]: "d < length ps \<Longrightarrow> halo_buf d fw ps = Inr (side fw (ps ! d))"
  by (simp add: halo_buf_def array_get_def)

definition lens_ok :: "'g cuda_grid_scheme \<Rightarrow> bool" where
  "lens_ok g \<longleftrightarrow> length (gc_self_cuda g) = 3 \<and> length (gc_self_mpi g) = 3 \<and> length (gc_peer_cuda g) = 3 \<and>
     length (gc_peer_dev g) = 3 \<and> length (gm_halo_peer_fw g) = 3 \<and> length (gm_halo_peer_bw g) = 3"

lemma slot_ext: "(\<And>k f j. F (k, f, j) = G (k, f, j)) \<Longrightarrow> F = G"
  by (simp add: fun_eq_iff split_paired_all)

lemma hbuf_put:
  assumes "lens_ok g" "d < 3"
  shows "hbuf (g\<lparr>gc_self_cuda := put_halo d fw x (gc_self_cuda g)\<rparr>) = (hbuf g)((Mapped, fw, d) := buffer.truncate x)"
    "hbuf (g\<lparr>gc_self_mpi := put_halo d fw y (gc_self_mpi g)\<rparr>) = (hbuf g)((Sent, fw, d) := y)"
    "hbuf (g\<lparr>gc_peer_cuda := put_halo d fw z (gc_peer_cuda g)\<rparr>) =
      (hbuf g)((Pinned, fw, d) := buffer.truncate z, (Transfer, fw, d) := ch_mpi_buf z)"
proof -
  note l = assms[unfolded lens_ok_def]
  have "hbuf (g\<lparr>gc_self_cuda := put_halo d fw x (gc_self_cuda g)\<rparr>) (k, f, j) = ((hbuf g)((Mapped, fw, d) := buffer.truncate x)) (k, f, j)"
    "hbuf (g\<lparr>gc_self_mpi := put_halo d fw y (gc_self_mpi g)\<rparr>) (k, f, j) = ((hbuf g)((Sent, fw, d) := y)) (k, f, j)"
    "hbuf (g\<lparr>gc_peer_cuda := put_halo d fw z (gc_peer_cuda g)\<rparr>) (k, f, j) =
      ((hbuf g)((Pinned, fw, d) := buffer.truncate z, (Transfer, fw, d) := ch_mpi_buf z)) (k, f, j)" for k f j
    using l by (cases k; simp add: put_halo_nth)+
  then show "hbuf (g\<lparr>gc_self_cuda := put_halo d fw x (gc_self_cuda g)\<rparr>) = (hbuf g)((Mapped, fw, d) := buffer.truncate x)"
    "hbuf (g\<lparr>gc_self_mpi := put_halo d fw y (gc_self_mpi g)\<rparr>) = (hbuf g)((Sent, fw, d) := y)"
    "hbuf (g\<lparr>gc_peer_cuda := put_halo d fw z (gc_peer_cuda g)\<rparr>) =
      (hbuf g)((Pinned, fw, d) := buffer.truncate z, (Transfer, fw, d) := ch_mpi_buf z)"
    by - (rule slot_ext, simp only:)+
qed

lemma dbuf_put:
  assumes "lens_ok g" "d < 3"
  shows "dbuf (g\<lparr>gc_peer_dev := put_halo d fw w (gc_peer_dev g)\<rparr>) = (dbuf g)((fw, d) := buffer.truncate w)"
  using assms unfolding lens_ok_def fun_eq_iff by (auto simp: put_halo_nth)

end
