(* ===== verification/Cuda_Exchange.thy ===== *)
theory Cuda_Exchange imports Cuda_Slots begin

text \<open>
  The exchange of halos between grids on devices (\<open>GridSpaceMPICUDA::ExchangeBoundaries\<close>
  without diagonal points): the layer of a process goes from its device through mapped and
  ordinary memory into a message, and from there through ordinary and pinned memory to the
  device of its neighbour.
\<close>

subsection \<open>States between the steps\<close>

definition ccore :: "cuda_mgrid \<Rightarrow> _" where
  "ccore g = (grid_num_dims g, grid_elm_size g, grid_size g, gm_empty g, gm_local_offset g, gm_local_size g,
     data_buffer0 g, data_buffer1 g, grid_id g, gm_halo_has_diagonal g, gc_remote_grid g, gc_remote_grid_active g)"

lemma ccore_fields:
  assumes "ccore g' = ccore g"
  shows "grid_num_dims g' = grid_num_dims g" "grid_elm_size g' = grid_elm_size g" "grid_size g' = grid_size g"
    "gm_empty g' = gm_empty g" "gm_local_offset g' = gm_local_offset g" "gm_local_size g' = gm_local_size g"
    "data_buffer0 g' = data_buffer0 g" "data_buffer1 g' = data_buffer1 g" "grid_id g' = grid_id g"
    "gm_halo_has_diagonal g' = gm_halo_has_diagonal g"
    "gc_remote_grid g' = gc_remote_grid g" "gc_remote_grid_active g' = gc_remote_grid_active g"
  using assms by (simp_all add: ccore_def)

text \<open>What an exchange records about the halos.\<close>

definition cmeta :: "cuda_mgrid \<Rightarrow> nat arr3 \<times> nat arr3 \<times> idx arr3 \<times> idx arr3" where
  "cmeta g = (gm_halo_fw_width g, gm_halo_bw_width g, gm_halo_fw_size g, gm_halo_bw_size g)"

text \<open>The data of a grid: the array \<open>D\<close>, in pitched memory, apart from the halo buffers.\<close>

definition data_at :: "('d \<Rightarrow> mem) \<Rightarrow> cuda_mgrid \<Rightarrow> 'd cuda_world \<Rightarrow> cuda_dev3d \<Rightarrow> nat \<Rightarrow> cell list \<Rightarrow> bool" where
  "data_at dblk g st b blk P \<longleftrightarrow>
     (\<exists>k0 k1 b1. data_buffer0 g = Some k0 \<and> data_buffer1 g = Some k1 \<and> bufs3 st k0 = Some b \<and> bufs3 st k1 = Some b1) \<and>
     pitched_at b (grid_elm_size g) (gm_local_size g) blk P \<and> dblk (dev_mem st) blk = Some P \<and>
     grid_elm_size g dvd pp_pitch (c3_pp b) \<and> (\<forall>i \<in> dslots. buf_ptr (dbuf g i) \<noteq> Ptr blk 0)"

definition sound :: "'d cuda_lib \<Rightarrow> ('d \<Rightarrow> mem) \<Rightarrow> cuda_mgrid \<Rightarrow> 'd cuda_world \<Rightarrow> bool" where
  "sound cu dblk g st \<longleftrightarrow> lens_ok g \<and> heap_ok (hp st) \<and> (\<forall>fw. \<forall>d < 3. mapped_ok cu (side fw (gc_self_cuda g ! d))) \<and>
     chunks_ok (grid_elm_size g) hslots (hbuf g) (blocks (hp st)) \<and>
     chunks_ok (grid_elm_size g) dslots (dbuf g) (dblk (dev_mem st))"

definition cuda_ready :: "'d cuda_lib \<Rightarrow> ('d \<Rightarrow> mem) \<Rightarrow> cuda_mgrid \<Rightarrow> 'd cuda_world \<Rightarrow> cell list \<Rightarrow> bool" where
  "cuda_ready cu dblk g st D \<longleftrightarrow> sound cu dblk g st \<and> grid_num_dims g = 3 \<and> \<not> gm_halo_has_diagonal g \<and>
     (grid_elm_size g = 4 \<or> grid_elm_size g = 8) \<and> part_ok 3 (grid_elm_size g) (gm_local_size g) \<and>
     (\<forall>i < 3. 0 \<le> at (gm_local_offset g) i \<and> at (gm_local_offset g) i + at (gm_local_size g) i \<le> at (grid_size g) i) \<and>
     (\<exists>b blk P. data_at dblk g st b blk P \<and> D = array_of b P)"

text \<open>A step that touches the buffers \<open>S\<close> in host memory and \<open>T\<close> on the device.\<close>

definition moves ::
    "'d cuda_lib \<Rightarrow> ('d \<Rightarrow> mem) \<Rightarrow> ('d \<Rightarrow> nat) \<Rightarrow> host_slot set \<Rightarrow> (bool \<times> nat) set \<Rightarrow> nat \<Rightarrow> nat \<Rightarrow>
      cuda_mgrid \<times> 'd cuda_world \<Rightarrow> cuda_mgrid \<times> 'd cuda_world \<Rightarrow> bool" where
  "moves cu dblk droom S T n m = (\<lambda>(g, st) (g', st').
     ccore g' = ccore g \<and> sound cu dblk g' st' \<and> bufs3 st' = bufs3 st \<and>
     only (grid_elm_size g) hslots S (hbuf g) (blocks (hp st)) (hbuf g') (blocks (hp st')) \<and>
     only (grid_elm_size g) dslots T (dbuf g) (dblk (dev_mem st)) (dbuf g') (dblk (dev_mem st')) \<and>
     avail (hp st) \<le> avail (hp st') + n \<and> droom (dev_mem st) \<le> droom (dev_mem st') + m)"

lemma movesD:
  assumes "moves cu dblk droom S T n m (g, st) (g', st')"
  shows "ccore g' = ccore g" "sound cu dblk g' st'" "bufs3 st' = bufs3 st"
    "only (grid_elm_size g) hslots S (hbuf g) (blocks (hp st)) (hbuf g') (blocks (hp st'))"
    "only (grid_elm_size g) dslots T (dbuf g) (dblk (dev_mem st)) (dbuf g') (dblk (dev_mem st'))"
    "avail (hp st) \<le> avail (hp st') + n" "droom (dev_mem st) \<le> droom (dev_mem st') + m"
  using assms by (simp_all add: moves_def)

lemma moves_refl: "sound cu dblk g st \<Longrightarrow> moves cu dblk droom S T n m (g, st) (g, st)"
  by (simp add: moves_def sound_def only_refl)

lemma moves_mono:
  assumes "moves cu dblk droom S T n m s s'" "S \<subseteq> S'" "T \<subseteq> T'" "n \<le> n'" "m \<le> m'"
  shows "moves cu dblk droom S' T' n' m' s s'"
  using assms by (auto simp: moves_def only_mono intro: le_trans)

lemma moves_trans:
  assumes 1: "moves cu dblk droom S T n m (g, st) (g1, st1)" and 2: "moves cu dblk droom S T n' m' (g1, st1) (g2, st2)"
  shows "moves cu dblk droom S T (n + n') (m + m') (g, st) (g2, st2)"
proof -
  note a = movesD[OF 1] and b = movesD[OF 2]
  have e: "grid_elm_size g1 = grid_elm_size g" by (rule ccore_fields(2)[OF a(1)])
  show ?thesis
    using a b only_trans[OF a(4) b(4)[unfolded e]] only_trans[OF a(5) b(5)[unfolded e]] by (simp add: moves_def)
qed

text \<open>Changes to other fields of the grid.\<close>

lemma moves_fields:
  assumes "sound cu dblk g st" "ccore g' = ccore g" "hbuf g' = hbuf g" "dbuf g' = dbuf g" "lens_ok g'" "gc_self_cuda g' = gc_self_cuda g"
  shows "moves cu dblk droom S T n m (g, st) (g', st)"
  using assms ccore_fields(2)[OF assms(2)] by (simp add: moves_def sound_def only_refl)

lemma data_at_moves:
  assumes "data_at dblk g st b blk P" "moves cu dblk droom S T n m (g, st) (g', st')" "T \<subseteq> dslots"
  shows "data_at dblk g' st' b blk P"
proof -
  note c = movesD[OF assms(2)]
  note f = ccore_fields[OF c(1)]
  have "dblk (dev_mem st') blk = Some P" "\<forall>i \<in> dslots. buf_ptr (dbuf g' i) \<noteq> Ptr blk 0"
    using only_foreign[OF c(5) assms(3)] assms(1) by (auto simp: data_at_def)
  then show ?thesis using assms(1) c(3) f by (simp add: data_at_def)
qed

lemma ready_moves:
  assumes "cuda_ready cu dblk g st D" "moves cu dblk droom S T n m (g, st) (g', st')" "T \<subseteq> dslots"
  shows "cuda_ready cu dblk g' st' D"
proof -
  obtain b blk P where P: "data_at dblk g st b blk P" "D = array_of b P" using assms(1) by (auto simp: cuda_ready_def)
  note d = data_at_moves[OF P(1) assms(2,3)] and f = ccore_fields[OF movesD(1)[OF assms(2)]]
  show ?thesis
    using assms(1) movesD(2)[OF assms(2)] d P(2) f(1-3,5,6,10) unfolding cuda_ready_def
    by (metis (no_types, lifting))
qed

text \<open>What a buffer on the device begins with survives steps on other buffers.\<close>

lemma moves_begins:
  assumes "moves cu dblk droom S T n m (g, st) (g', st')" "sound cu dblk g st" "T \<subseteq> dslots" "j \<in> dslots" "j \<notin> T"
    "begins (dbuf g j) (dblk (dev_mem st)) ys"
  shows "begins (dbuf g' j) (dblk (dev_mem st')) ys"
  using only_begins[OF movesD(5)[OF assms(1)] _ assms(3-6)] assms(2) by (simp add: sound_def)

lemma soundD:
  assumes "sound cu dblk g st"
  shows "lens_ok g" "heap_ok (hp st)" "d < 3 \<Longrightarrow> mapped_ok cu (side fw (gc_self_cuda g ! d))"
    "chunks_ok (grid_elm_size g) hslots (hbuf g) (blocks (hp st))"
    "chunks_ok (grid_elm_size g) dslots (dbuf g) (dblk (dev_mem st))"
  using assms by (simp_all add: sound_def)

lemma cuda_readyD:
  assumes "cuda_ready cu dblk g st D"
  shows "sound cu dblk g st" "grid_num_dims g = 3" "grid_elm_size g = 4 \<or> grid_elm_size g = 8"
    "part_ok 3 (grid_elm_size g) (gm_local_size g)" "0 < grid_elm_size g"
    "\<exists>b blk P. data_at dblk g st b blk P \<and> D = array_of b P"
    "length D = nat (accumulate (gm_local_size g) 3) * grid_elm_size g" "\<not> gm_halo_has_diagonal g"
proof -
  obtain b blk P where P: "data_at dblk g st b blk P" "D = array_of b P" using assms by (auto simp: cuda_ready_def)
  then have "pitched_at b (grid_elm_size g) (gm_local_size g) blk P" by (simp add: data_at_def)
  from length_array_of[OF this] show "length D = nat (accumulate (gm_local_size g) 3) * grid_elm_size g" using P(2) by simp
qed (use assms in \<open>auto simp: cuda_ready_def\<close>)

lemma cuda_layer:
  assumes "cuda_ready cu dblk g st D" "width_ok g d w"
  shows "d < 3" "int w \<le> at (gm_local_size g) d" "w < 2 ^ 31"
    "bytes_of g d w = nat (accumulate (layer_size (gm_local_size g) d w) 3) * grid_elm_size g"
    "bytes_of g d w < 2 ^ 64" "0 < w \<Longrightarrow> 0 < nat (accumulate (layer_size (gm_local_size g) d w) 3)"
    "length (layer_of g d w fw D) = bytes_of g d w" "bytes_of g d w \<le> length D"
    "0 < w \<Longrightarrow> i < 3 \<Longrightarrow> 0 < at (layer_size (gm_local_size g) d w) i \<and> at (layer_size (gm_local_size g) d w) i < 2 ^ 31"
    "CalcHaloSize g d w False = nat (accumulate (layer_size (gm_local_size g) d w) 3)"
proof -
  note r = cuda_readyD[OF assms(1)]
  show d: "d < 3" "int w \<le> at (gm_local_size g) d" using assms(2) r(2) by (simp_all add: width_ok_def)
  have "at (gm_local_size g) d < 2 ^ 31" using r(4) d(1) by (simp add: part_ok_def)
  then have "int w < 2 ^ 31" using d(2) by linarith
  then show w: "w < 2 ^ 31" by simp
  show b: "bytes_of g d w = nat (accumulate (layer_size (gm_local_size g) d w) 3) * grid_elm_size g"
    using r(2) by (simp add: bytes_of_def layer_bytes_def)
  note l = layer_bytes_le[OF r(4) d] and f = layer_fits[OF r(4) d]
  show "bytes_of g d w < 2 ^ 64" "bytes_of g d w \<le> length D" using l r(2,7) by (simp_all add: bytes_of_def)
  show "0 < w \<Longrightarrow> 0 < nat (accumulate (layer_size (gm_local_size g) d w) 3)"
    using layer_bytes_pos[OF r(4) d] by (simp add: layer_bytes_def)
  show "length (layer_of g d w fw D) = bytes_of g d w"
    using length_layer[OF r(4) d, of D fw] r(2,7) by (simp add: layer_of_def bytes_of_def)
  show "0 < w \<Longrightarrow> i < 3 \<Longrightarrow> 0 < at (layer_size (gm_local_size g) d w) i \<and> at (layer_size (gm_local_size g) d w) i < 2 ^ 31"
    using r(4) d w by (auto simp: at_layer part_ok_def)
  show "CalcHaloSize g d w False = nat (accumulate (layer_size (gm_local_size g) d w) 3)"
    using CalcHaloSize_layer[where g = g and e = "grid_elm_size g" and d = d and w = w] r(2,4) d by simp
qed

lemma hbuf_cong:
  "gc_self_cuda g' = gc_self_cuda g \<Longrightarrow> gc_self_mpi g' = gc_self_mpi g \<Longrightarrow> gc_peer_cuda g' = gc_peer_cuda g \<Longrightarrow> hbuf g' = hbuf g"
  by (rule slot_ext, rename_tac k f j, case_tac k) simp_all

lemma dbuf_cong: "gc_peer_dev g' = gc_peer_dev g \<Longrightarrow> dbuf g' = dbuf g"
  by auto

lemma hbuf_fields [simp]:
  "hbuf (g\<lparr>gm_halo_has_diagonal := v\<rparr>) = hbuf g" "hbuf (g\<lparr>gm_halo_fw_width := x\<rparr>) = hbuf g"
  "hbuf (g\<lparr>gm_halo_bw_width := x\<rparr>) = hbuf g" "hbuf (g\<lparr>gm_halo_fw_size := y\<rparr>) = hbuf g"
  "hbuf (g\<lparr>gm_halo_bw_size := y\<rparr>) = hbuf g" "hbuf (g\<lparr>gc_peer_dev := z\<rparr>) = hbuf g"
  "dbuf (g\<lparr>gm_halo_has_diagonal := v\<rparr>) = dbuf g" "dbuf (g\<lparr>gm_halo_fw_width := x\<rparr>) = dbuf g"
  "dbuf (g\<lparr>gm_halo_bw_width := x\<rparr>) = dbuf g" "dbuf (g\<lparr>gm_halo_fw_size := y\<rparr>) = dbuf g"
  "dbuf (g\<lparr>gm_halo_bw_size := y\<rparr>) = dbuf g" "dbuf (g\<lparr>gc_self_cuda := a\<rparr>) = dbuf g"
  "dbuf (g\<lparr>gc_self_mpi := b\<rparr>) = dbuf g" "dbuf (g\<lparr>gc_peer_cuda := c\<rparr>) = dbuf g"
  by (rule hbuf_cong dbuf_cong; simp)+

subsection \<open>Sending a layer\<close>

context cuda_room begin

lemma copyout_halo_cuda:
  assumes r: "cuda_ready cu dblk g st D" and w: "width_ok g d w" "0 < w" and room: "2 * bytes_of g d w \<le> avail (hp st)"
    and le: "componentwise le" and sched: "any_order sched"
  shows "\<exists>g' st'. Cuda_CopyoutHalo cu le sched d w fw False g st = Inr (g', st') \<and>
    moves cu dblk droom (hslots_at d) {} (2 * bytes_of g d w) 0 (g, st) (g', st') \<and> cmeta g' = cmeta g \<and>
    CalcHaloSize g d w False \<le> line_cap (side fw (gc_self_mpi g' ! d)) \<and>
    begins (side fw (gc_self_mpi g' ! d)) (blocks (hp st')) (layer_of g d w fw D)"
proof -
  define n where "n = nat (accumulate (layer_size (gm_local_size g) d w) 3)"
  note L = cuda_layer[OF r w(1), folded n_def] and R = cuda_readyD[OF r] and S = soundD[OF cuda_readyD(1)[OF r]]
  let ?e = "grid_elm_size g" and ?ls = "gm_local_size g" and ?z = "layer_size (gm_local_size g) d w"
    and ?off = "layer_offset (gm_local_size g) d w fw" and ?M = "(Mapped, fw, d)" and ?S = "(Sent, fw, d)"
  let ?ys = "layer_of g d w fw D"
  let ?g1 = "g\<lparr>gm_halo_has_diagonal := False\<rparr>"
  define hc where "hc = side fw (gc_self_cuda g ! d)"
  define hm where "hm = side fw (gc_self_mpi g ! d)"
  obtain b blk P where P: "data_at dblk g st b blk P" "D = array_of b P" using R(6) by blast
  then have at: "pitched_at b ?e ?ls blk P" "dblk (dev_mem st) blk = Some P" "?e dvd pp_pitch (c3_pp b)"
    "buf3_at (data_buffer0 g) st = Inr b" by (auto simp: data_at_def buf3_at_def)
  have n: "0 < n" "n * ?e < 2 ^ 64" "n * ?e = bytes_of g d w" using L(4-6) w(2) by simp_all
  have lists: "d < length (gc_self_cuda g)" "d < length (gc_self_mpi g)" using S(1) L(1) by (simp_all add: lens_ok_def)
  have slot: "?M \<in> hslots" "?S \<in> hslots" using L(1) by simp_all
  have hc: "line_buf ?e hc (blocks (hp st))" "mapped_ok cu hc"
    using chunks_line[OF S(4) slot(1)] S(3)[OF L(1)] by (simp_all add: hc_def)
  obtain hc' h1 where 1: "VBuffer_EnsureCapacity_scalar (CUDAHostMapped_Allocate cu) (int n) hc (hp st) = Inr (hc', h1)"
    "relines blocks avail heap_ok ?e n hc (hp st) hc' h1" "mapped_ok cu hc'"
    using ensure_mapped[OF hc(1) S(2) n(1,2) _ hc(2)] n(3) room by auto
  note r1 = relinesD[OF 1(2)]
  let ?F1 = "(hbuf g)(?M := buffer.truncate hc')"
  have o1: "only ?e hslots {?M} (hbuf g) (blocks (hp st)) ?F1 (blocks h1)"
    by (rule only_step[OF S(4) slot(1)]) (use r1(2,4) in \<open>simp_all add: hc_def\<close>)
  obtain h2 where 2: "CUDADev3D_Copyout_mapped cu le sched hc' ?off ?z b h1 (dev_mem st) = Inr (hc', h2)" "heap_ok h2"
    "avail h2 = avail h1" "line_buf ?e hc' (blocks h2)" "begins hc' (blocks h2) ?ys"
    "without (buf_ptr hc') (blocks h2) = without (buf_ptr hc') (blocks h1)"
  proof -
    have f: "copy_fits ?e 3 ?ls ?off ?z" by (rule layer_fits[OF R(4) L(1,2)])
    have "at ?z i < 2 ^ 32" if "i < 3" for i using L(9)[OF w(2) that] by simp
    then have k: "kernel_fits ?e (pp_pitch (c3_pp b)) ?z" using R(3) at(3) by (simp add: kernel_fits_def)
    have pos: "\<And>i. i < 3 \<Longrightarrow> 0 < at ?z i" using L(9)[OF w(2)] by blast
    have ys: "?ys = subgrid ?e 3 ?ls ?off ?z (array_of b P)" using R(2) P(2) by (simp add: layer_of_def layer_def)
    show ?thesis
      using layer_to_mapped[where le = le, OF at(1,2) f pos r1(2) 1(3) r1(3)[unfolded n_def] r1(1) k sched inside_componentwise[OF le f] n_def n(1)] that
      unfolding ys by blast
  qed
  have o2: "only ?e hslots {?M} ?F1 (blocks h1) ?F1 (blocks h2)"
    using only_step[OF only_ok[OF o1] slot(1), of "buffer.truncate hc'" "blocks h2"] 2(4,6) by simp
  have hm: "line_buf ?e hm (blocks h2)" using chunks_line[OF only_ok[OF o2] slot(2)] by (simp add: hm_def)
  obtain hm' h3 where 3: "Buffer_EnsureCapacity BufferHost_GetChunk 1 ?e (IntegerArray1 (int n)) hm h2 = Inr (hm', h3)"
    "relines blocks avail heap_ok ?e n hm h2 hm' h3"
    using ensure_host[OF hm 2(2) n(1,2)] n(3) room r1(5) 2(3) by auto
  note r3 = relinesD[OF 3(2)]
  let ?F3 = "?F1(?S := hm')"
  have o3: "only ?e hslots {?S} ?F1 (blocks h2) ?F3 (blocks h3)"
    by (rule only_step[OF only_ok[OF o2] slot(2)]) (use r3(2,4) in \<open>simp_all add: hm_def\<close>)
  have m3: "line_buf ?e hc' (blocks h3)" "begins hc' (blocks h3) ?ys" "buf_ptr hm' \<noteq> buf_ptr hc'"
  proof -
    show l: "line_buf ?e hc' (blocks h3)" using chunks_line[OF only_ok[OF o3] slot(1)] by simp
    show "begins hc' (blocks h3) ?ys" using only_begins[OF o3 only_ok[OF o2] _ slot(1)] slot(2) 2(5) by simp
    obtain k cs where "buf_ptr hc' = Ptr k 0" using line_chunk[OF l] r1(3) n(1) by (metis le_zero_eq not_gr_zero)
    then show "buf_ptr hm' \<noteq> buf_ptr hc'" using chunks_apart[OF only_ok[OF o3] slot(2,1)] by simp
  qed
  obtain h4 where 4: "CUDAHostMapped_Copyout_buf le hm' IntegerArray0 (IntegerArray1 (int n)) hc' h3 = Inr (hm', h4)"
    "heap_ok h4" "avail h4 = avail h3" "line_buf ?e hm' (blocks h4)" "begins hm' (blocks h4) ?ys"
    "without (buf_ptr hm') (blocks h4) = without (buf_ptr hm') (blocks h3)"
    using mapped_to_sent[OF le m3(1,2) _ n(1) r1(3) r3(2,3) m3(3) r3(1)] L(4,7) by auto
  have o4: "only ?e hslots {?S} ?F3 (blocks h3) ?F3 (blocks h4)"
    using only_step[OF only_ok[OF o3] slot(2), of hm' "blocks h4"] 4(4,6) by simp
  let ?g' = "?g1\<lparr>gc_self_cuda := put_halo d fw hc' (gc_self_cuda g), gc_self_mpi := put_halo d fw hm' (gc_self_mpi g)\<rparr>"
  have F: "hbuf ?g' = ?F3"
    using hbuf_put(2)[of "?g1\<lparr>gc_self_cuda := put_halo d fw hc' (gc_self_cuda g)\<rparr>" d fw hm'] hbuf_put(1)[of ?g1 d fw hc'] S(1) L(1)
    by (simp add: lens_ok_def)
  have run: "Cuda_CopyoutHalo cu le sched d w fw False g st = Inr (?g', st\<lparr>hp := h4\<rparr>)"
  proof -
    have iw: "int_of_unsigned w = int w" using L(3) by (simp add: int_of_unsigned_def)
    have mw: "int_of_unsigned (minus_width ?g1 d w) = at ?ls d - int w"
      using minus_width_eq[of w ?g1 d] R(4) L(1,2) by (simp add: part_ok_def)
    have off: "(if fw then IntegerArray0 else upd IntegerArray0 d (int_of_unsigned (minus_width ?g1 d w))) = ?off"
      by (simp add: layer_offset_def mw)
    have sz: "upd ?ls d (int_of_unsigned w) = ?z" by (simp add: layer_size_def iw)
    have acc: "accumulate ?z 3 = int n" using layer_le(1)[OF R(4) L(1,2), of 3] by (simp add: n_def)
    have C: "CalcHaloSize ?g1 d w False = n" 
      using CalcHaloSize_layer[where g = ?g1 and e = ?e and d = d and w = w] R(2,4) L(1,2) by (simp add: n_def)
    have hme: "buf_elm_size hm = ?e" by (rule line_bufD(2)[OF hm])
    show ?thesis
      using 1(1) 2(1) 3(1) 4(1) R(2) lists at(4)
      unfolding Cuda_CopyoutHalo_def Let_def hc_def[symmetric] hm_def[symmetric]
      by (simp add: off[simplified] sz acc C hc_def[symmetric] hm_def[symmetric] Buffer_EnsureCapacity_scalar_def hme)
  qed
  have o: "only ?e hslots (hslots_at d) (hbuf g) (blocks (hp st)) (hbuf ?g') (blocks h4)"
    unfolding F by (rule only_trans[OF only_trans[OF only_trans]]; (rule only_mono[OF o1] only_mono[OF o2] only_mono[OF o3] only_mono[OF o4])?; simp)
  have lens: "lens_ok ?g'" "ccore ?g' = ccore g" "cmeta ?g' = cmeta g" using S(1) R(8) by (simp_all add: lens_ok_def ccore_def cmeta_def)
  have D: "dbuf ?g' = dbuf g" by (rule dbuf_cong) simp
  have snt: "side fw (gc_self_mpi ?g' ! d) = hm'" using lists(2) by (simp add: put_halo_nth)
  have map: "mapped_ok cu (side f (gc_self_cuda ?g' ! j))" if "j < 3" for f j
    using 1(3) S(3)[OF that] lists(1) by (simp add: put_halo_nth)
  have "sound cu dblk ?g' (st\<lparr>hp := h4\<rparr>)"
    using only_ok[OF o] 4(2) lens(1) S(5) D map by (simp add: sound_def)
  moreover have "avail (hp st) \<le> avail h4 + 2 * bytes_of g d w" using r1(5) 2(3) r3(5) 4(3) n(3) by linarith
  ultimately have "moves cu dblk droom (hslots_at d) {} (2 * bytes_of g d w) 0 (g, st) (?g', st\<lparr>hp := h4\<rparr>)"
    using o lens(2) D only_refl[OF S(5)] by (simp add: moves_def)
  then show ?thesis using run lens(3) snt 4(5) r3(3) L(10)
    by (intro exI[of _ ?g'] exI[of _ "st\<lparr>hp := h4\<rparr>"]) simp
qed

lemma send_cuda:
  assumes r: "cuda_ready cu dblk g st D" and w: "width_ok g d w" "0 < w" and room: "2 * bytes_of g d w \<le> avail (hp st)"
    and le: "componentwise le" and sched: "any_order sched"
    and c: "per \<or> \<not> (\<not> fw \<and> last_process g d \<or> fw \<and> first_process g d)"
  shows "\<exists>g' st'. (\<forall>C :: cuda_mgrid \<times> 'a cuda_world \<Rightarrow> 'q prog.
      bindP (SendBoundaries cu le sched gs d w fw False per (CalcHaloSize g d w False) (g, st)) C =
        Send (nat (at (if fw then gs_bw_neighbors gs else gs_fw_neighbors gs) d)) (MBytes (layer_of g d w fw D)) (C (g', st'))) \<and>
    moves cu dblk droom (hslots_at d) {} (2 * bytes_of g d w) 0 (g, st) (g', st') \<and> cmeta g' = cmeta g"
proof -
  note L = cuda_layer[OF r w(1)]
  let ?n = "CalcHaloSize g d w False"
  obtain g' st' where 1: "Cuda_CopyoutHalo cu le sched d w fw False g st = Inr (g', st')"
    "moves cu dblk droom (hslots_at d) {} (2 * bytes_of g d w) 0 (g, st) (g', st')" "cmeta g' = cmeta g"
    "?n \<le> line_cap (side fw (gc_self_mpi g' ! d))"
    "begins (side fw (gc_self_mpi g' ! d)) (blocks (hp st')) (layer_of g d w fw D)"
    using copyout_halo_cuda[OF r w room le sched] by blast
  define b ys where "b = side fw (gc_self_mpi g' ! d)" and "ys = layer_of g d w fw D"
  note S = soundD[OF movesD(2)[OF 1(2)]]
  have line: "line_buf (grid_elm_size g') b (blocks (hp st'))"
    using chunks_line[OF S(4), of "(Sent, fw, d)"] L(1) by (simp add: b_def)
  have e: "grid_elm_size g' = grid_elm_size g" by (rule ccore_fields(2)[OF movesD(1)[OF 1(2)]])
  have len: "length ys = ?n * grid_elm_size g'" "0 < ?n" using L(4,6,7,10) w(2) e by (simp_all add: ys_def)
  note snd = send_line[OF le line 1(4)[folded b_def] len(2) 1(5)[folded b_def ys_def] len(1)]
  have buf: "halo_buf d fw (gc_self_mpi g') = Inr b" using S(1) L(1) by (simp add: b_def lens_ok_def)
  have "bindP (SendBoundaries cu le sched gs d w fw False per ?n (g, st)) C =
      Send (nat (at (if fw then gs_bw_neighbors gs else gs_fw_neighbors gs) d)) (MBytes ys) (C (g', st'))"
    for C :: "cuda_mgrid \<times> 'a cuda_world \<Rightarrow> 'q prog"
    using w(2) c 1(1) buf by (cases fw; auto simp: SendBoundaries_def bindP_assoc snd simp del: halo_buf_nth)
  then show ?thesis using 1(2,3) by (auto simp: ys_def)
qed

lemma recv_cuda:
  assumes r: "cuda_ready cu dblk g st D" and w: "width_ok g d w" "0 < w"
    and room: "2 * bytes_of g d w \<le> avail (hp st)" "bytes_of g d w \<le> droom (dev_mem st)"
    and c: "per \<or> \<not> (fw \<and> last_process g d \<or> \<not> fw \<and> first_process g d)" and ys: "length ys = bytes_of g d w"
  shows "\<exists>g' st'. (\<forall>inbox ms (f :: cuda_mgrid \<times> 'a cuda_world \<Rightarrow> 'q prog).
      inbox (nat (at (if fw then gs_fw_neighbors gs else gs_bw_neighbors gs) d)) = MBytes ys # ms \<longrightarrow>
      drain (bindP (RecvBoundaries cu gs d w fw False per (CalcHaloSize g d w False) (g, st)) f) inbox =
        drain (f (g', st')) (inbox(nat (at (if fw then gs_fw_neighbors gs else gs_bw_neighbors gs) d) := ms))) \<and>
    moves cu dblk droom (hslots_at d) {(fw, d)} (2 * bytes_of g d w) (bytes_of g d w) (g, st) (g', st') \<and>
    begins (dbuf g' (fw, d)) (dblk (dev_mem st')) ys \<and>
    cmeta g' = (if fw then (upd (gm_halo_fw_width g) d w, gm_halo_bw_width g, upd (gm_halo_fw_size g) d (shape_of g d w), gm_halo_bw_size g)
      else (gm_halo_fw_width g, upd (gm_halo_bw_width g) d w, gm_halo_fw_size g, upd (gm_halo_bw_size g) d (shape_of g d w)))"
proof -
  define n src where "n = nat (accumulate (layer_size (gm_local_size g) d w) 3)"
    and "src = nat (at (if fw then gs_fw_neighbors gs else gs_bw_neighbors gs) d)"
  note L = cuda_layer[OF r w(1), folded n_def] and R = cuda_readyD[OF r] and S = soundD[OF cuda_readyD(1)[OF r]]
  let ?e = "grid_elm_size g" and ?P = "(Pinned, fw, d)" and ?T = "(Transfer, fw, d)"
  define pc where "pc = side fw (gc_peer_cuda g ! d)"
  define pd where "pd = side fw (gc_peer_dev g ! d)"
  have n: "0 < n" "n * ?e < 2 ^ 64" "n * ?e = bytes_of g d w" "length ys = n * ?e" using L(4-6) w(2) ys by simp_all
  have lists: "d < length (gc_peer_cuda g)" "d < length (gc_peer_dev g)" using S(1) L(1) by (simp_all add: lens_ok_def)
  have slot: "?P \<in> hslots" "?T \<in> hslots" "(fw, d) \<in> dslots" using L(1) by simp_all
  have line: "line_buf ?e pc (blocks (hp st))" "line_buf ?e pd (dblk (dev_mem st))"
    using chunks_line[OF S(4) slot(1)] chunks_line[OF S(5) slot(3)] by (simp_all add: pc_def pd_def)
  obtain pc' h1 where 1: "VBuffer_EnsureCapacity_scalar (CUDAHost_Allocate cu) (int n) pc (hp st) = Inr (pc', h1)"
    "relines blocks avail heap_ok ?e n pc (hp st) pc' h1" "ch_mpi_buf pc' = ch_mpi_buf pc"
    using ensure_pinned[OF line(1) S(2) n(1,2)] n(3) room(1) by auto
  note r1 = relinesD[OF 1(2)]
  let ?F1 = "(hbuf g)(?P := buffer.truncate pc')"
  have o1: "only ?e hslots {?P} (hbuf g) (blocks (hp st)) ?F1 (blocks h1)"
    by (rule only_step[OF S(4) slot(1)]) (use r1(2,4) in \<open>simp_all add: pc_def\<close>)
  have t: "line_buf ?e (ch_mpi_buf pc') (blocks h1)" "buf_ptr (ch_mpi_buf pc') \<noteq> buf_ptr pc'"
  proof -
    show "line_buf ?e (ch_mpi_buf pc') (blocks h1)"
      using chunks_line[OF only_ok[OF o1] slot(2)] 1(3) by (simp add: pc_def)
    obtain k cs where "buf_ptr pc' = Ptr k 0" using line_chunk[OF r1(2)] r1(3) n(1) by (metis le_zero_eq not_gr_zero)
    then show "buf_ptr (ch_mpi_buf pc') \<noteq> buf_ptr pc'"
      using chunks_apart[OF only_ok[OF o1] slot(2,1)] 1(3) by (simp add: pc_def)
  qed
  have room1: "n * ?e \<le> avail h1" using r1(5) room(1) n(3) by simp
  obtain mb h2 h3 where 2: "relines blocks avail heap_ok ?e n (ch_mpi_buf pc') h1 mb h2" "heap_ok h3" "avail h3 = avail h2"
    "line_buf ?e pc' (blocks h3)" "begins pc' (blocks h3) ys" "without (buf_ptr pc') (blocks h3) = without (buf_ptr pc') (blocks h2)"
    and get: "\<And>inbox ms (f :: cuda_host \<times> heap \<Rightarrow> 'q prog). inbox src = MBytes ys # ms \<Longrightarrow>
      drain (bindP (CUDAHost_MPIRecv cu src IntegerArray0 (IntegerArray1 (int n)) pc' h1) f) inbox =
        drain (f (pc'\<lparr>ch_mpi_buf := mb\<rparr>, h3)) (inbox(src := ms))"
    using pinned_recv[OF r1(2,3) t r1(1) n(1,2) room1 n(4), where cu = cu and src = src and 'q = 'q] by blast
  note r2 = relinesD[OF 2(1)]
  let ?F2 = "?F1(?T := mb)"
  have o2: "only ?e hslots {?T} ?F1 (blocks h1) ?F2 (blocks h2)"
    by (rule only_step[OF only_ok[OF o1] slot(2)]) (use r2(2,4) 1(3) in \<open>simp_all add: pc_def\<close>)
  have o3: "only ?e hslots {?P} ?F2 (blocks h2) ?F2 (blocks h3)"
    using only_step[OF only_ok[OF o2] slot(1), of "buffer.truncate pc'" "blocks h3"] 2(4,6) by (simp add: fun_upd_twist)
  let ?pc = "pc'\<lparr>ch_mpi_buf := mb\<rparr>"
  have b3: "begins ?pc (blocks h3) ys" using 2(5) by (simp add: begins_def)
  obtain pd' dm where 4: "CUDADev_Copyin_pinned cu ?pc IntegerArray0 (IntegerArray1 (int n)) pd h3 (dev_mem st) = Inr (pd', dm)"
    "relines dblk droom (\<lambda>_. True) ?e n pd (dev_mem st) pd' dm" "begins pd' (dblk dm) ys"
    using dev_copyin[OF line(2) b3 n(4,1,2)] n(3) room(2) by auto
  note r4 = relinesD[OF 4(2)]
  define ga where "ga = (if fw then g\<lparr>gm_halo_fw_width := upd (gm_halo_fw_width g) d w, gm_halo_fw_size := upd (gm_halo_fw_size g) d (shape_of g d w)\<rparr>
    else g\<lparr>gm_halo_bw_width := upd (gm_halo_bw_width g) d w, gm_halo_bw_size := upd (gm_halo_bw_size g) d (shape_of g d w)\<rparr>)"
  have ga: "hbuf ga = hbuf g" "dbuf ga = dbuf g" "ccore ga = ccore g" "lens_ok ga" "gc_self_cuda ga = gc_self_cuda g"
    "gc_peer_cuda ga = gc_peer_cuda g" "gc_peer_dev ga = gc_peer_dev g"
    "SetHaloSize d fw w False (if fw then g\<lparr>gm_halo_fw_width := upd (gm_halo_fw_width g) d w\<rparr>
      else g\<lparr>gm_halo_bw_width := upd (gm_halo_bw_width g) d w\<rparr>) = ga"
    "cmeta ga = (if fw then (upd (gm_halo_fw_width g) d w, gm_halo_bw_width g, upd (gm_halo_fw_size g) d (shape_of g d w), gm_halo_bw_size g)
      else (gm_halo_fw_width g, upd (gm_halo_bw_width g) d w, gm_halo_fw_size g, upd (gm_halo_bw_size g) d (shape_of g d w)))"
    using S(1) by (simp_all add: ga_def lens_ok_def ccore_def cmeta_def SetHaloSize_shape[OF L(3)] shape_of_def)
  let ?g' = "ga\<lparr>gc_peer_cuda := put_halo d fw ?pc (gc_peer_cuda ga), gc_peer_dev := put_halo d fw pd' (gc_peer_dev ga)\<rparr>"
  let ?st' = "st\<lparr>hp := h3, dev_mem := dm\<rparr>"
  have F: "hbuf ?g' = ?F2" using hbuf_put(3)[OF ga(4) L(1), of fw ?pc] ga(1) by simp
  have D: "dbuf ?g' = (dbuf g)((fw, d) := buffer.truncate pd')"
    using dbuf_put[of "ga\<lparr>gc_peer_cuda := put_halo d fw ?pc (gc_peer_cuda ga)\<rparr>" d fw pd'] ga(2,4) L(1) by (simp add: lens_ok_def)
  have o: "only ?e hslots (hslots_at d) (hbuf g) (blocks (hp st)) (hbuf ?g') (blocks h3)"
    unfolding F by (rule only_trans[OF only_trans]; (rule only_mono[OF o1] only_mono[OF o2] only_mono[OF o3])?; simp)
  have od: "only ?e dslots {(fw, d)} (dbuf g) (dblk (dev_mem st)) (dbuf ?g') (dblk dm)"
    unfolding D by (rule only_step[OF S(5) slot(3)]) (use r4(2,4) in \<open>simp_all add: pd_def\<close>)
  have cc: "ccore ?g' = ccore g" "cmeta ?g' = cmeta ga" "lens_ok ?g'" using ga(3,4) by (simp_all add: ccore_def cmeta_def lens_ok_def)
  have "sound cu dblk ?g' ?st'"
    using only_ok[OF o] only_ok[OF od] 2(2) cc(3) ccore_fields(2)[OF cc(1)] S(3) ga(5) by (simp add: sound_def)
  moreover have "avail (hp st) \<le> avail h3 + 2 * bytes_of g d w" using r1(5) r2(5) 2(3) n(3) by linarith
  ultimately have m: "moves cu dblk droom (hslots_at d) {(fw, d)} (2 * bytes_of g d w) (bytes_of g d w) (g, st) (?g', ?st')"
    using o od cc(1) r4(5) n(3) by (simp add: moves_def)
  have bufs: "halo_buf d fw (gc_peer_cuda g) = Inr pc" "halo_buf d fw (gc_peer_dev ga) = Inr pd"
    using lists ga(7) by (simp_all add: pc_def pd_def)
  have run: "drain (bindP (RecvBoundaries cu gs d w fw False per (CalcHaloSize g d w False) (g, st)) f) inbox =
      drain (f (?g', ?st')) (inbox(src := ms))" if i: "inbox src = MBytes ys # ms"
    for inbox ms and f :: "cuda_mgrid \<times> 'a cuda_world \<Rightarrow> 'q prog"
  proof -
    have "RecvBoundaries cu gs d w fw False per (CalcHaloSize g d w False) (g, st) =
        bindP (CUDAHost_MPIRecv cu src IntegerArray0 (IntegerArray1 (int n)) pc' h1) (\<lambda>(pc, h).
        bindP (lift (halo_buf d fw (gc_peer_dev ga))) (\<lambda>pd.
        bindP (lift (CUDADev_Copyin_pinned cu pc IntegerArray0 (IntegerArray1 (int n)) pd h (dev_mem st))) (\<lambda>(pd, dm).
          Ret (ga\<lparr>gc_peer_cuda := put_halo d fw pc (gc_peer_cuda ga), gc_peer_dev := put_halo d fw pd (gc_peer_dev ga)\<rparr>,
            st\<lparr>hp := h, dev_mem := dm\<rparr>))))"
      using w(2) c bufs(1) 1(1) ga(8) src_def unfolding L(10)
      by (cases fw; auto simp: RecvBoundaries_def simp del: halo_buf_nth)
    then show ?thesis by (simp add: bindP_assoc get[of inbox ms, OF i] bufs(2) 4(1) del: halo_buf_nth)
  qed
  have b: "begins (dbuf ?g' (fw, d)) (dblk (dev_mem ?st')) ys" unfolding D using 4(3) by simp
  show ?thesis unfolding src_def[symmetric]
    by (rule exI[of _ ?g'], rule exI[of _ ?st'], intro conjI allI impI run m b) (simp_all only: cc(2) ga(9))
qed

end

subsection \<open>The structure for kernels\<close>

text \<open>The structure shows the grid and the device's halo buffers as they are.\<close>

definition dev_synced :: "cuda_mgrid \<Rightarrow> 'd cuda_world \<Rightarrow> bool" where
  "dev_synced g st \<longleftrightarrow> (let dev = gc_dev g in
     d3_p0 dev = data0 g \<and> d3_diag dev = gm_halo_has_diagonal g \<and>
     (\<forall>b. buf3_at (data_buffer0 g) st = Inr b \<longrightarrow>
        data0 g = buf_ptr b \<and> d3_pitch dev = int_of_size (pp_pitch (c3_pp b) div grid_elm_size g)) \<and>
     (\<forall>i < 3. at (d3_dim dev) i = at (grid_size g) i \<and> at (d3_local_size dev) i = at (gm_local_size g) i \<and>
        at (d3_local_offset dev) i = at (gm_local_offset g) i \<and>
        at (d3_halo dev) i = (buf_ptr (dbuf g (False, i)), buf_ptr (dbuf g (True, i))) \<and>
        at (d3_halo_width dev) i = (int_of_unsigned (at (gm_halo_bw_width g) i), int_of_unsigned (at (gm_halo_fw_width g) i))))"

lemma fixup_cuda:
  assumes r: "cuda_ready cu dblk g st D"
  shows "\<exists>g'. Cuda_FixupBufferPointers g st = Inr g' \<and> moves cu dblk droom S T 0 0 (g, st) (g', st) \<and> cmeta g' = cmeta g \<and>
    dbuf g' = dbuf g \<and> dev_synced g' st \<and> gm_halo_has_diagonal g' = gm_halo_has_diagonal g"
proof -
  note R = cuda_readyD[OF r] and S = soundD[OF cuda_readyD(1)[OF r]]
  obtain b blk P where "data_at dblk g st b blk P" using R(6) by blast
  then obtain k0 k1 b1 where k: "data_buffer0 g = Some k0" "data_buffer1 g = Some k1" "bufs3 st k0 = Some b" "bufs3 st k1 = Some b1"
    by (auto simp: data_at_def)
  let ?ps = "\<lambda>fw. [buf_ptr (dbuf g (fw, 0)), buf_ptr (dbuf g (fw, 1)), buf_ptr (dbuf g (fw, 2))]"
  let ?dev = "(gc_dev g)\<lparr>d3_p0 := buf_ptr b, d3_diag := gm_halo_has_diagonal g,
      d3_pitch := int_of_size (pp_pitch (c3_pp b) div grid_elm_size g)\<rparr>"
  let ?up = "\<lambda>f F. upd (upd (upd (f ?dev) 0 (F 0)) 1 (F 1)) 2 (F 2)"
  let ?g' = "g\<lparr>data0 := buf_ptr b, data1 := buf_ptr b1, gm_halo_peer_fw := ?ps True, gm_halo_peer_bw := ?ps False,
      gc_dev := ?dev\<lparr>d3_dim := ?up d3_dim (at (grid_size g)), d3_local_size := ?up d3_local_size (at (gm_local_size g)),
        d3_local_offset := ?up d3_local_offset (at (gm_local_offset g)),
        d3_halo := ?up d3_halo (\<lambda>i. (buf_ptr (dbuf g (False, i)), buf_ptr (dbuf g (True, i)))),
        d3_halo_width := ?up d3_halo_width (\<lambda>i. (int_of_unsigned (at (gm_halo_bw_width g) i), int_of_unsigned (at (gm_halo_fw_width g) i)))\<rparr>\<rparr>"
  obtain x0 x1 x2 where x: "gm_halo_peer_fw g = [x0, x1, x2]"
    using S(1) by (auto simp: lens_ok_def length_Suc_conv eval_nat_numeral)
  obtain y0 y1 y2 where y: "gm_halo_peer_bw g = [y0, y1, y2]"
    using S(1) by (auto simp: lens_ok_def length_Suc_conv eval_nat_numeral)
  have len: "length (gc_peer_dev g) = 3" using S(1) by (simp add: lens_ok_def)
  have u3: "[0..<3] = [0, 1, 2 :: nat]" by (simp add: upt_rec)
  have "Cuda_FixupBufferPointers g st = Inr ?g'"
    using k R(2) len unfolding Cuda_FixupBufferPointers_def FixupDev_def
    by (simp add: buf3_at_def u3 x y array_get_def CUDADev3D_GetPitch_def)
  moreover have h: "hbuf ?g' = hbuf g" "dbuf ?g' = dbuf g" by (rule hbuf_cong dbuf_cong; simp)+
  moreover have "lens_ok ?g'" "ccore ?g' = ccore g" "cmeta ?g' = cmeta g"
    using S(1) by (simp_all add: lens_ok_def ccore_def cmeta_def)
  moreover have "dev_synced ?g' st"
    unfolding dev_synced_def Let_def h using k by (simp add: buf3_at_def all_less_num at_upd)
  ultimately show ?thesis using moves_fields[OF R(1), of ?g'] by (intro exI[of _ ?g']) simp
qed

end
