(* ===== verification/Cuda_Rounds.thy ===== *)
theory Cuda_Rounds imports Cuda_Exchange begin

text \<open>
  The exchange of halos by all processes, one dimension after the other: each device ends with
  the layers of its neighbours in its halo buffers, and the structure its kernels get shows them.
\<close>

subsection \<open>One process, one dimension\<close>

lemma ccore_layers:
  assumes "ccore g' = ccore g"
  shows "bytes_of g' d w = bytes_of g d w" "layer_of g' d w fw D = layer_of g d w fw D" "width_ok g' d w = width_ok g d w"
    "has_fw g' d per = has_fw g d per" "has_bw g' d per = has_bw g d per" "shape_of g' d w = shape_of g d w"
    "fwn g' d per = fwn g d per" "bwn g' d per = bwn g d per"
  using ccore_fields[OF assms]
  by (simp_all add: bytes_of_def layer_of_def width_ok_def has_fw_def has_bw_def shape_of_def fwn_def bwn_def)

lemma ends_has:
  assumes "cuda_ready cu dblk g st D" "d < 3"
  shows "has_fw g d per \<longleftrightarrow> per \<or> \<not> last_process g d" "has_bw g d per \<longleftrightarrow> per \<or> \<not> first_process g d"
proof -
  have "0 \<le> at (gm_local_offset g) d \<and> at (gm_local_offset g) d + at (gm_local_size g) d \<le> at (grid_size g) d"
    using assms by (simp add: cuda_ready_def)
  then show "has_fw g d per \<longleftrightarrow> per \<or> \<not> last_process g d" "has_bw g d per \<longleftrightarrow> per \<or> \<not> first_process g d"
    by (auto simp: has_fw_def has_bw_def last_process_def first_process_def)
qed

lemma CalcHaloSize_ready:
  assumes "cuda_ready cu dblk g st D" "cuda_ready cu dblk g' st' D" "ccore g' = ccore g" "width_ok g d w"
  shows "CalcHaloSize g d w False = CalcHaloSize g' d w False"
  using cuda_layer(10)[OF assms(1,4)] cuda_layer(10)[OF assms(2), of d w] assms(4) ccore_layers(3)[OF assms(3)] ccore_fields(6)[OF assms(3)]
  by simp

context cuda_room begin

lemma send_side:
  assumes r: "cuda_ready cu dblk g st D" and w: "width_ok g d w" and room: "2 * length D \<le> avail (hp st)"
    and le: "componentwise le" and sched: "any_order sched"
  shows "\<exists>g' st'. (\<forall>C :: cuda_mgrid \<times> 'a cuda_world \<Rightarrow> 'q prog.
      bindP (SendBoundaries cu le sched gs d w fw False per (CalcHaloSize g d w False) (g, st)) C =
        send_all (if 0 < w \<and> (if fw then has_bw g d per else has_fw g d per)
          then [(nat (at (if fw then gs_bw_neighbors gs else gs_fw_neighbors gs) d), MBytes (layer_of g d w fw D))] else [])
          (C (g', st'))) \<and>
    moves cu dblk droom (hslots_at d) {} (2 * length D) 0 (g, st) (g', st') \<and> cmeta g' = cmeta g"
proof (cases "0 < w \<and> (if fw then has_bw g d per else has_fw g d per)")
  case True
  note L = cuda_layer[OF r w] and H = ends_has[OF r cuda_layer(1)[OF r w]]
  have c: "per \<or> \<not> (\<not> fw \<and> last_process g d \<or> fw \<and> first_process g d)" using True H by (auto split: if_splits)
  have rm: "2 * bytes_of g d w \<le> avail (hp st)" using L(8) room by linarith
  obtain g' st' where 1: "\<forall>C :: cuda_mgrid \<times> 'a cuda_world \<Rightarrow> 'q prog.
      bindP (SendBoundaries cu le sched gs d w fw False per (CalcHaloSize g d w False) (g, st)) C =
        Send (nat (at (if fw then gs_bw_neighbors gs else gs_fw_neighbors gs) d)) (MBytes (layer_of g d w fw D)) (C (g', st'))"
    "moves cu dblk droom (hslots_at d) {} (2 * bytes_of g d w) 0 (g, st) (g', st')" "cmeta g' = cmeta g"
    using send_cuda[OF r w _ rm le sched c, where gs = gs and 'q = 'q] True by blast
  have "moves cu dblk droom (hslots_at d) {} (2 * length D) 0 (g, st) (g', st')"
    by (rule moves_mono[OF 1(2)]) (use L(8) in simp_all)
  then show ?thesis using 1(1,3) True by (intro exI[of _ g'] exI[of _ st']) simp
next
  case False
  then have "SendBoundaries cu le sched gs d w fw False per n (g, st) = Ret (g, st)" for n
    using ends_has[OF r cuda_layer(1)[OF r w]] by (auto simp: SendBoundaries_def split: if_splits)
  then show ?thesis unfolding if_not_P[OF False] using moves_refl[OF cuda_readyD(1)[OF r]]
    by (intro exI[of _ g] exI[of _ st]) simp
qed

lemma recv_side:
  assumes r: "cuda_ready cu dblk g st D" and w: "width_ok g d w" and room: "2 * length D \<le> avail (hp st)" "length D \<le> droom (dev_mem st)"
    and act: "act \<longleftrightarrow> 0 < w \<and> (if fw then has_fw g d per else has_bw g d per)" and ys: "act \<longrightarrow> length ys = bytes_of g d w"
    and src: "src = nat (at (if fw then gs_fw_neighbors gs else gs_bw_neighbors gs) d)"
  shows "\<exists>g' st'. (\<forall>inbox ms (f :: cuda_mgrid \<times> 'a cuda_world \<Rightarrow> 'q prog).
      inbox src = (if act then [MBytes ys] else []) @ ms \<longrightarrow>
      drain (bindP (RecvBoundaries cu gs d w fw False per (CalcHaloSize g d w False) (g, st)) f) inbox =
        drain (f (g', st')) (inbox(src := ms))) \<and>
    moves cu dblk droom (hslots_at d) {(fw, d)} (2 * length D) (length D) (g, st) (g', st') \<and>
    (act \<longrightarrow> begins (dbuf g' (fw, d)) (dblk (dev_mem st')) ys) \<and>
    cmeta g' = (let x = (if act then w else 0); y = (if act then shape_of g d w else arr_Set 0) in
      if fw then (upd (gm_halo_fw_width g) d x, gm_halo_bw_width g, upd (gm_halo_fw_size g) d y, gm_halo_bw_size g)
      else (gm_halo_fw_width g, upd (gm_halo_bw_width g) d x, gm_halo_fw_size g, upd (gm_halo_bw_size g) d y))"
proof (cases act)
  case True
  note L = cuda_layer[OF r w] and H = ends_has[OF r cuda_layer(1)[OF r w]]
  have c: "per \<or> \<not> (fw \<and> last_process g d \<or> \<not> fw \<and> first_process g d)" "0 < w" using True act H by (auto split: if_splits)
  have rm: "2 * bytes_of g d w \<le> avail (hp st)" "bytes_of g d w \<le> droom (dev_mem st)" using L(8) room by linarith+
  obtain g' st' where 1: "\<forall>inbox ms (f :: cuda_mgrid \<times> 'a cuda_world \<Rightarrow> 'q prog). inbox src = MBytes ys # ms \<longrightarrow>
      drain (bindP (RecvBoundaries cu gs d w fw False per (CalcHaloSize g d w False) (g, st)) f) inbox =
        drain (f (g', st')) (inbox(src := ms))"
    "moves cu dblk droom (hslots_at d) {(fw, d)} (2 * bytes_of g d w) (bytes_of g d w) (g, st) (g', st')"
    "begins (dbuf g' (fw, d)) (dblk (dev_mem st')) ys"
    "cmeta g' = (if fw then (upd (gm_halo_fw_width g) d w, gm_halo_bw_width g, upd (gm_halo_fw_size g) d (shape_of g d w), gm_halo_bw_size g)
      else (gm_halo_fw_width g, upd (gm_halo_bw_width g) d w, gm_halo_fw_size g, upd (gm_halo_bw_size g) d (shape_of g d w)))"
    using recv_cuda[OF r w c(2) rm c(1), of ys gs, where 'q = 'q] ys True unfolding src by blast
  have "moves cu dblk droom (hslots_at d) {(fw, d)} (2 * length D) (length D) (g, st) (g', st')"
    by (rule moves_mono[OF 1(2)]) (use L(8) in simp_all)
  then show ?thesis using 1(1,3,4) True by (intro exI[of _ g'] exI[of _ st']) simp
next
  case False
  let ?g = "if fw then g\<lparr>gm_halo_fw_width := upd (gm_halo_fw_width g) d 0, gm_halo_fw_size := upd (gm_halo_fw_size g) d (arr_Set 0)\<rparr>
      else g\<lparr>gm_halo_bw_width := upd (gm_halo_bw_width g) d 0, gm_halo_bw_size := upd (gm_halo_bw_size g) d (arr_Set 0)\<rparr>"
  have run: "RecvBoundaries cu gs d w fw False per n (g, st) = Ret (?g, st)" for n
    using False act ends_has[OF r cuda_layer(1)[OF r w]] by (auto simp: RecvBoundaries_def split: if_splits)
  have "moves cu dblk droom S T n m (g, st) (?g, st)" for S T n m
    using cuda_readyD(1)[OF r] soundD(1)[OF cuda_readyD(1)[OF r]]
    by (intro moves_fields) (auto simp: ccore_def lens_ok_def)
  then show ?thesis using run False
    by (intro exI[of _ ?g] exI[of _ st]) (simp add: cmeta_def fun_upd_idem_iff)
qed

end

text \<open>
  What a process sends, the layers for its neighbour ahead first, and what it finds in its
  channels; in the state after the exchange the device holds \<open>ys\<close> of the neighbour ahead and
  \<open>zs\<close> of the one behind. The exchange takes at most \<open>8 * n\<close> bytes on the host and \<open>2 * n\<close> on
  the device.
\<close>

definition cuda_sends ::
    "('s, 'x) gridspace_mpi_scheme \<Rightarrow> 'g gridmpi_scheme \<Rightarrow> nat \<Rightarrow> nat \<Rightarrow> nat \<Rightarrow> bool \<Rightarrow> cell list \<Rightarrow> (nat \<times> msg) list" where
  "cuda_sends gs g d u v per D =
     (if v > 0 \<and> fwn g d per then [(nat (at (gs_fw_neighbors gs) d), MBytes (layer_of g d v False D))] else []) @
     (if u > 0 \<and> bwn g d per then [(nat (at (gs_bw_neighbors gs) d), MBytes (layer_of g d u True D))] else [])"

definition cuda_inbox ::
    "('s, 'x) gridspace_mpi_scheme \<Rightarrow> 'g gridmpi_scheme \<Rightarrow> nat \<Rightarrow> nat \<Rightarrow> nat \<Rightarrow> bool \<Rightarrow> cell list \<Rightarrow> cell list \<Rightarrow>
      nat \<Rightarrow> msg list" where
  "cuda_inbox gs g d u v per ys zs = halo_inbox (nat (at (gs_bw_neighbors gs) d)) (nat (at (gs_fw_neighbors gs) d))
     (if v > 0 \<and> bwn g d per then [MBytes zs] else []) (if u > 0 \<and> fwn g d per then [MBytes ys] else [])"

definition cuda_exchanged ::
    "'d cuda_lib \<Rightarrow> ('d \<Rightarrow> mem) \<Rightarrow> ('d \<Rightarrow> nat) \<Rightarrow> nat \<Rightarrow> nat \<Rightarrow> nat \<Rightarrow> bool \<Rightarrow> cell list \<Rightarrow> cell list \<Rightarrow> nat \<Rightarrow>
      cuda_mgrid \<times> 'd cuda_world \<Rightarrow> cuda_mgrid \<times> 'd cuda_world \<Rightarrow> bool" where
  "cuda_exchanged cu dblk droom d u v per ys zs n = (\<lambda>(g, st) (g', st').
     if gm_empty g then (g', st') = (g, st)
     else moves cu dblk droom (hslots_at d) (dslots_at d) (8 * n) (2 * n) (g, st) (g', st') \<and>
       cmeta g' = snd (halo_meta g d u v per) \<and> dev_synced g' st' \<and>
       (u > 0 \<and> has_fw g d per \<longrightarrow> begins (dbuf g' (True, d)) (dblk (dev_mem st')) ys) \<and>
       (v > 0 \<and> has_bw g d per \<longrightarrow> begins (dbuf g' (False, d)) (dblk (dev_mem st')) zs))"

lemma halo_inbox_rest: "(halo_inbox a b ms ms')(a := if a = b then ms' else []) = halo_inbox a b [] ms'"
  by (auto simp: halo_inbox_def)

lemma halo_inbox_end: "(halo_inbox a b [] ms)(b := []) = (\<lambda>_. [])"
  by (auto simp: halo_inbox_def)

context cuda_room begin

lemma cuda_exchange_local:
  assumes r: "\<not> gm_empty g \<Longrightarrow> cuda_ready cu dblk g st D \<and> width_ok g d u \<and> width_ok g d v \<and>
      8 * length D \<le> avail (hp st) \<and> 2 * length D \<le> droom (dev_mem st)"
    and le: "componentwise le" and sched: "any_order sched"
    and lens: "fwn g d per \<longrightarrow> length ys = bytes_of g d u" "bwn g d per \<longrightarrow> length zs = bytes_of g d v"
  shows "\<exists>p s'. (\<forall>C. bindP (Cuda_ExchangeBoundaries cu le sched gs d u v False per (g, st)) C =
      send_all (cuda_sends gs g d u v per D) (bindP p (C :: cuda_mgrid \<times> 'a cuda_world \<Rightarrow> 'q prog))) \<and>
    drain p (cuda_inbox gs g d u v per ys zs) = Some (s', \<lambda>_. []) \<and>
    cuda_exchanged cu dblk droom d u v per ys zs (length D) (g, st) s'"
proof (cases "gm_empty g")
  case True
  have "halo_inbox x y [] [] = (\<lambda>_. [])" for x y by (auto simp: halo_inbox_def)
  then show ?thesis using True
    by (intro exI[of _ "Ret (g, st)"] exI[of _ "(g, st)"])
      (simp add: Cuda_ExchangeBoundaries_def cuda_sends_def cuda_inbox_def fwn_def bwn_def cuda_exchanged_def)
next
  case False
  then have r0: "cuda_ready cu dblk g st D" and w: "width_ok g d u" "width_ok g d v"
    and room: "8 * length D \<le> avail (hp st)" "2 * length D \<le> droom (dev_mem st)" using r by blast+
  have d: "d < 3" by (rule cuda_layer(1)[OF r0 w(1)])
  let ?fp = "nat (at (gs_fw_neighbors gs) d)" and ?bp = "nat (at (gs_bw_neighbors gs) d)"
  let ?nu = "CalcHaloSize g d u False" and ?nv = "CalcHaloSize g d v False"
  let ?fa = "0 < u \<and> has_fw g d per" and ?ba = "0 < v \<and> has_bw g d per"
  have rm: "2 * length D \<le> avail (hp st)" using room(1) by simp
  obtain g1 st1 where 1: "\<And>C :: cuda_mgrid \<times> 'a cuda_world \<Rightarrow> 'q prog.
      bindP (SendBoundaries cu le sched gs d v False False per ?nv (g, st)) C =
        send_all (if 0 < v \<and> has_fw g d per then [(?fp, MBytes (layer_of g d v False D))] else []) (C (g1, st1))"
    "moves cu dblk droom (hslots_at d) {} (2 * length D) 0 (g, st) (g1, st1)" "cmeta g1 = cmeta g"
    using send_side[OF r0 w(2) rm le sched, where fw = False and per = per and gs = gs and 'q = 'q, unfolded if_False] by blast
  note c1 = movesD(1)[OF 1(2)] and r1 = ready_moves[OF r0 1(2) empty_subsetI]
  have w1: "width_ok g1 d u" "width_ok g1 d v" using w ccore_layers(3)[OF c1] by simp_all
  have room1: "6 * length D \<le> avail (hp st1)" "2 * length D \<le> droom (dev_mem st1)" using movesD(6,7)[OF 1(2)] room by simp_all
  have rm1: "2 * length D \<le> avail (hp st1)" using room1(1) by simp
  obtain g2 st2 where 2: "\<And>C :: cuda_mgrid \<times> 'a cuda_world \<Rightarrow> 'q prog.
      bindP (SendBoundaries cu le sched gs d u True False per ?nu (g1, st1)) C =
        send_all (if 0 < u \<and> has_bw g d per then [(?bp, MBytes (layer_of g d u True D))] else []) (C (g2, st2))"
    "moves cu dblk droom (hslots_at d) {} (2 * length D) 0 (g1, st1) (g2, st2)" "cmeta g2 = cmeta g1"
    using send_side[OF r1 w1(1) rm1 le sched, where fw = True and per = per and gs = gs and 'q = 'q, unfolded if_True]
    unfolding CalcHaloSize_ready[OF r0 r1 c1 w(1)] ccore_layers[OF c1] by blast
  note c2 = movesD(1)[OF 2(2)] and r2 = ready_moves[OF r1 2(2) empty_subsetI]
  have c20: "ccore g2 = ccore g" using c1 c2 by simp
  have w2: "width_ok g2 d u" "width_ok g2 d v" using w ccore_layers(3)[OF c20] by simp_all
  have room2: "4 * length D \<le> avail (hp st2)" "2 * length D \<le> droom (dev_mem st2)" using movesD(6,7)[OF 2(2)] room1 by simp_all
  have rm2: "2 * length D \<le> avail (hp st2)" "length D \<le> droom (dev_mem st2)" using room2 by simp_all
  have zs: "?ba \<longrightarrow> length zs = bytes_of g2 d v" and ys: "?fa \<longrightarrow> length ys = bytes_of g2 d u"
    using lens False ccore_layers(1)[OF c20] by (simp_all add: fwn_def bwn_def)
  have ba: "?ba \<longleftrightarrow> 0 < v \<and> (if False then has_fw g2 d per else has_bw g2 d per)"
    and fa: "?fa \<longleftrightarrow> 0 < u \<and> (if True then has_fw g2 d per else has_bw g2 d per)" using ccore_layers(4,5)[OF c20] by simp_all
  obtain g3 st3 where 3: "\<And>inbox ms (f :: cuda_mgrid \<times> 'a cuda_world \<Rightarrow> (cuda_mgrid \<times> 'a cuda_world) prog).
      inbox ?bp = (if ?ba then [MBytes zs] else []) @ ms \<Longrightarrow>
      drain (bindP (RecvBoundaries cu gs d v False False per ?nv (g2, st2)) f) inbox = drain (f (g3, st3)) (inbox(?bp := ms))"
    "moves cu dblk droom (hslots_at d) {(False, d)} (2 * length D) (length D) (g2, st2) (g3, st3)"
    "?ba \<longrightarrow> begins (dbuf g3 (False, d)) (dblk (dev_mem st3)) zs"
    "cmeta g3 = (let x = (if ?ba then v else 0); y = (if ?ba then shape_of g2 d v else arr_Set 0)
      in (gm_halo_fw_width g2, upd (gm_halo_bw_width g2) d x, gm_halo_fw_size g2, upd (gm_halo_bw_size g2) d y))"
    using recv_side[OF r2 w2(2) rm2 ba zs refl, where 'q = "cuda_mgrid \<times> 'a cuda_world" and gs = gs, unfolded if_False]
    unfolding CalcHaloSize_ready[OF r0 r2 c20 w(2)] by blast
  have T: "{(f, d)} \<subseteq> dslots" for f using d by simp
  note c3 = movesD(1)[OF 3(2)] and r3 = ready_moves[OF r2 3(2) T]
  have c30: "ccore g3 = ccore g" using c20 c3 by simp
  have w3: "width_ok g3 d u" using w ccore_layers(3)[OF c30] by simp
  have rm3: "2 * length D \<le> avail (hp st3)" "length D \<le> droom (dev_mem st3)" using movesD(6,7)[OF 3(2)] room2 by simp_all
  have ys3: "?fa \<longrightarrow> length ys = bytes_of g3 d u" using ys ccore_layers(1)[OF c3] by simp
  have fa3: "?fa \<longleftrightarrow> 0 < u \<and> (if True then has_fw g3 d per else has_bw g3 d per)" using fa ccore_layers(4)[OF c3] by simp
  obtain g4 st4 where 4: "\<And>inbox ms (f :: cuda_mgrid \<times> 'a cuda_world \<Rightarrow> (cuda_mgrid \<times> 'a cuda_world) prog).
      inbox ?fp = (if ?fa then [MBytes ys] else []) @ ms \<Longrightarrow>
      drain (bindP (RecvBoundaries cu gs d u True False per ?nu (g3, st3)) f) inbox = drain (f (g4, st4)) (inbox(?fp := ms))"
    "moves cu dblk droom (hslots_at d) {(True, d)} (2 * length D) (length D) (g3, st3) (g4, st4)"
    "?fa \<longrightarrow> begins (dbuf g4 (True, d)) (dblk (dev_mem st4)) ys"
    "cmeta g4 = (let x = (if ?fa then u else 0); y = (if ?fa then shape_of g3 d u else arr_Set 0)
      in (upd (gm_halo_fw_width g3) d x, gm_halo_bw_width g3, upd (gm_halo_fw_size g3) d y, gm_halo_bw_size g3))"
    using recv_side[OF r3 w3 rm3 fa3 ys3 refl, where 'q = "cuda_mgrid \<times> 'a cuda_world" and gs = gs, unfolded if_True]
    unfolding CalcHaloSize_ready[OF r0 r3 c30 w(1)] by blast
  note c4 = movesD(1)[OF 4(2)] and r4 = ready_moves[OF r3 4(2) T]
  have b4: "?ba \<longrightarrow> begins (dbuf g4 (False, d)) (dblk (dev_mem st4)) zs"
    using 3(3) moves_begins[OF 4(2) movesD(2)[OF 3(2)] T, of "(False, d)"] d by simp
  obtain g5 where 5: "Cuda_FixupBufferPointers g4 st4 = Inr g5" "moves cu dblk droom (hslots_at d) (dslots_at d) 0 0 (g4, st4) (g5, st4)"
    "cmeta g5 = cmeta g4" "dbuf g5 = dbuf g4" "dev_synced g5 st4"
    using fixup_cuda[OF r4] by blast
  have all: "moves cu dblk droom (hslots_at d) (dslots_at d) (8 * length D) (2 * length D) (g, st) (g5, st4)"
  proof -
    have m: "moves cu dblk droom (hslots_at d) (dslots_at d) n k s s'" if "moves cu dblk droom (hslots_at d) T n k s s'" "T \<subseteq> dslots_at d" for T n k s s'
      by (rule moves_mono[OF that(1) order_refl that(2)]) simp_all
    note m1 = m[OF 1(2)] and m2 = m[OF 2(2)] and m3 = m[OF 3(2)] and m4 = m[OF 4(2)]
    show ?thesis
      by (rule moves_mono[OF moves_trans[OF m1 moves_trans[OF m2 moves_trans[OF m3 moves_trans[OF m4 5(2)]]]]]) simp_all
  qed
  have meta: "cmeta g5 = snd (halo_meta g d u v per)"
    using 1(3) 2(3) 3(4) 4(4) 5(3) ccore_layers(6)[OF c20] ccore_layers(6)[OF c30]
    by (auto simp: cmeta_def halo_meta_def Let_def)
  let ?p = "bindP (RecvBoundaries cu gs d v False False per ?nv (g2, st2)) (\<lambda>s.
      bindP (RecvBoundaries cu gs d u True False per ?nu s) (\<lambda>(g, st).
      bindP (lift (Cuda_FixupBufferPointers g st)) (\<lambda>g. Ret (g, st))))"
  have run: "bindP (Cuda_ExchangeBoundaries cu le sched gs d u v False per (g, st)) C =
      send_all (cuda_sends gs g d u v per D) (bindP ?p C)" for C :: "cuda_mgrid \<times> 'a cuda_world \<Rightarrow> 'q prog"
    using False by (simp add: Cuda_ExchangeBoundaries_def Let_def bindP_assoc 1(1) 2(1) cuda_sends_def fwn_def bwn_def send_all_append)
  have get: "drain ?p (cuda_inbox gs g d u v per ys zs) = Some ((g5, st4), \<lambda>_. [])"
  proof -
    let ?ms = "if ?fa then [MBytes ys] else []" and ?I = "cuda_inbox gs g d u v per ys zs"
    have i: "?I = halo_inbox ?bp ?fp (if ?ba then [MBytes zs] else []) ?ms" using False by (simp add: cuda_inbox_def fwn_def bwn_def)
    have h1: "?I ?bp = (if ?ba then [MBytes zs] else []) @ (if ?bp = ?fp then ?ms else [])" unfolding i halo_inbox_def by simp
    have h2: "halo_inbox ?bp ?fp [] ?ms ?fp = ?ms @ []" unfolding halo_inbox_def by simp
    have e: "?I(?bp := if ?bp = ?fp then ?ms else []) = halo_inbox ?bp ?fp [] ?ms" unfolding i by (rule halo_inbox_rest)
    show ?thesis unfolding 3(1)[of ?I, OF h1] e 4(1)[of "halo_inbox ?bp ?fp [] ?ms", OF h2] halo_inbox_end by (simp add: 5(1))
  qed
  have "cuda_exchanged cu dblk droom d u v per ys zs (length D) (g, st) (g5, st4)"
    using False all meta 5(4,5) 4(3) b4 by (simp add: cuda_exchanged_def del: dbuf.simps)
  then show ?thesis using run get by (intro exI[of _ ?p] exI[of _ "(g5, st4)"]) blast
qed

end

subsection \<open>All processes, one dimension\<close>

definition cuda_able ::
    "'d cuda_lib \<Rightarrow> ('d \<Rightarrow> mem) \<Rightarrow> ('d \<Rightarrow> nat) \<Rightarrow> cuda_mgrid \<times> 'd cuda_world \<Rightarrow> cell list \<Rightarrow> nat \<Rightarrow> nat \<Rightarrow> nat \<Rightarrow> nat \<Rightarrow> bool" where
  "cuda_able cu dblk droom s D d u v n = (case s of (g, st) \<Rightarrow> \<not> gm_empty g \<longrightarrow>
     cuda_ready cu dblk g st D \<and> width_ok g d u \<and> width_ok g d v \<and>
     8 * n * length D \<le> avail (hp st) \<and> 2 * n * length D \<le> droom (dev_mem st))"

context cuda_room begin

lemma cuda_exchange_round:
  fixes C :: "nat \<Rightarrow> cuda_mgrid \<times> 'a cuda_world \<Rightarrow> 'q prog"
  assumes ring: "ring_ok N gs g d per" and able: "\<And>i. i < N \<Longrightarrow> cuda_able cu dblk droom (g i, st i) (D i) d u v 1"
    and le: "componentwise le" and sched: "any_order sched"
  shows "\<exists>s. (\<forall>i < N. cuda_exchanged cu dblk droom d u v per (from_fw gs g D d u i) (from_bw gs g D d v i) (length (D i))
      (g i, st i) (s i)) \<and>
    det_step\<^sup>*\<^sup>* \<lparr>procs = map (\<lambda>i. bindP (Cuda_ExchangeBoundaries cu le sched (gs i) d u v False per (g i, st i)) (C i)) [0..<N],
        chans = (\<lambda>_ _. []), bqueue = bq\<rparr>
      \<lparr>procs = map (\<lambda>i. C i (s i)) [0..<N], chans = (\<lambda>_ _. []), bqueue = bq\<rparr>"
proof -
  let ?S = "\<lambda>i. cuda_sends (gs i) (g i) d u v per (D i)"
  let ?I = "\<lambda>i. cuda_inbox (gs i) (g i) d u v per (from_fw gs g D d u i) (from_bw gs g D d v i)"
  have nb: "neighbours_ok N (\<lambda>i. bwn (g i) d per) (\<lambda>i. fwn (g i) d per)
       (\<lambda>i. nat (at (gs_bw_neighbors (gs i)) d)) (\<lambda>i. nat (at (gs_fw_neighbors (gs i)) d))"
    using ring by (auto simp: ring_ok_def neighbours_ok_def)
  have len: "length (layer_of (g i) d w first (D i)) = bytes_of (g i) d w" if "i < N" "\<not> gm_empty (g i)" "w = u \<or> w = v" for i w first
    using able[OF that(1)] that(2,3) cuda_layer(7)[of cu dblk "g i" "st i" "D i" d w] by (auto simp: cuda_able_def)
  show ?thesis
  proof (rule round_exists[where S = ?S and inbox = ?I])
    fix i
    assume i: "i < N"
    have r: "\<not> gm_empty (g i) \<Longrightarrow> cuda_ready cu dblk (g i) (st i) (D i) \<and> width_ok (g i) d u \<and> width_ok (g i) d v \<and>
        8 * length (D i) \<le> avail (hp (st i)) \<and> 2 * length (D i) \<le> droom (dev_mem (st i))"
      using able[OF i] by (simp add: cuda_able_def)
    show "\<exists>p x. (\<forall>C :: cuda_mgrid \<times> 'a cuda_world \<Rightarrow> 'q prog.
        bindP (Cuda_ExchangeBoundaries cu le sched (gs i) d u v False per (g i, st i)) C = send_all (?S i) (bindP p C)) \<and>
      drain p (?I i) = Some (x, \<lambda>_. []) \<and>
      cuda_exchanged cu dblk droom d u v per (from_fw gs g D d u i) (from_bw gs g D d v i) (length (D i)) (g i, st i) x"
      using cuda_exchange_local[OF r le sched ring_lengths[OF ring i len], where 'q = 'q and gs = "gs i"] by blast
    show "(\<lambda>s. if s < N then msgs_to (?S s) i else []) = ?I i"
      unfolding cuda_sends_def cuda_inbox_def from_fw_def from_bw_def Let_def
      by (rule ext, rule neighbours_inbox[OF nb i])
    show "t < N" if "(t, m) \<in> set (?S i)" for t m
      using nb i that by (auto simp: cuda_sends_def neighbours_ok_def split: if_splits)
  qed
qed

end

subsection \<open>All dimensions\<close>

definition cuda_filled ::
    "('d \<Rightarrow> mem) \<Rightarrow> nat \<Rightarrow> nat \<Rightarrow> nat \<Rightarrow> bool \<Rightarrow> cell list \<Rightarrow> cell list \<Rightarrow> cuda_mgrid \<Rightarrow> 'd cuda_world \<Rightarrow> bool" where
  "cuda_filled dblk d u v per ys zs g st \<longleftrightarrow>
     meta_at g d = (if u > 0 \<and> has_fw g d per then u else 0, if v > 0 \<and> has_bw g d per then v else 0,
       if u > 0 \<and> has_fw g d per then shape_of g d u else arr_Set 0, if v > 0 \<and> has_bw g d per then shape_of g d v else arr_Set 0) \<and>
     (u > 0 \<and> has_fw g d per \<longrightarrow> begins (dbuf g (True, d)) (dblk (dev_mem st)) ys) \<and>
     (v > 0 \<and> has_bw g d per \<longrightarrow> begins (dbuf g (False, d)) (dblk (dev_mem st)) zs)"

definition cuda_outcome ::
    "'d cuda_lib \<Rightarrow> ('d \<Rightarrow> mem) \<Rightarrow> ('d \<Rightarrow> nat) \<Rightarrow> nat list \<Rightarrow> nat arr3 \<Rightarrow> nat arr3 \<Rightarrow> bool \<Rightarrow>
      (nat \<Rightarrow> cell list) \<Rightarrow> (nat \<Rightarrow> cell list) \<Rightarrow> cell list \<Rightarrow> cuda_mgrid \<times> 'd cuda_world \<Rightarrow> cuda_mgrid \<times> 'd cuda_world \<Rightarrow> bool" where
  "cuda_outcome cu dblk droom ds fw bw per ys zs D = (\<lambda>(g, st) (g', st').
     if gm_empty g then (g', st') = (g, st)
     else moves cu dblk droom (\<Union>d \<in> set ds. hslots_at d) (\<Union>d \<in> set ds. dslots_at d)
         (8 * length ds * length D) (2 * length ds * length D) (g, st) (g', st') \<and>
       cuda_ready cu dblk g' st' D \<and> (if ds = [] then (g', st') = (g, st) else dev_synced g' st') \<and>
       (\<forall>d < 3. d \<notin> set ds \<longrightarrow> meta_at g' d = meta_at g d) \<and>
       (\<forall>d \<in> set ds. cuda_filled dblk d (at fw d) (at bw d) per (ys d) (zs d) g' st'))"

lemma cmeta_meta_at: "cmeta g' = cmeta g \<Longrightarrow> meta_at g' d = meta_at g d"
  by (simp add: cmeta_def meta_at_def)

lemma cmeta_at:
  assumes "cmeta g' = snd (halo_meta g d u v per)" "d < 3" "c < 3"
  shows "meta_at g' c = (if c = d
    then (if u > 0 \<and> has_fw g d per then u else 0, if v > 0 \<and> has_bw g d per then v else 0,
          if u > 0 \<and> has_fw g d per then shape_of g d u else arr_Set 0,
          if v > 0 \<and> has_bw g d per then shape_of g d v else arr_Set 0)
    else meta_at g c)"
  using assms by (auto simp: cmeta_def halo_meta_def meta_at_def Let_def at_upd)

lemma cuda_exchanged_filled:
  assumes "cuda_exchanged cu dblk droom d u v per ys zs n (g, st) (g', st')" "\<not> gm_empty g" "d < 3"
  shows "cuda_filled dblk d u v per ys zs g' st'"
proof -
  have x: "moves cu dblk droom (hslots_at d) (dslots_at d) (8 * n) (2 * n) (g, st) (g', st')"
    "cmeta g' = snd (halo_meta g d u v per)"
    "u > 0 \<and> has_fw g d per \<longrightarrow> begins (dbuf g' (True, d)) (dblk (dev_mem st')) ys"
    "v > 0 \<and> has_bw g d per \<longrightarrow> begins (dbuf g' (False, d)) (dblk (dev_mem st')) zs"
    using assms(1,2) by (simp_all add: cuda_exchanged_def del: dbuf.simps)
  show ?thesis
    using cmeta_at[OF x(2) assms(3,3)] x(3,4) ccore_layers(4-6)[OF movesD(1)[OF x(1)]]
    by (simp add: cuda_filled_def del: dbuf.simps)
qed

lemma cuda_filled_keep:
  assumes "cuda_filled dblk d u v per ys zs g st" "moves cu dblk droom S T n m (g, st) (g', st')" "sound cu dblk g st"
    "T \<subseteq> dslots" "\<And>fw. (fw, d) \<notin> T" "d < 3" "meta_at g' d = meta_at g d"
  shows "cuda_filled dblk d u v per ys zs g' st'"
proof -
  have b: "begins (dbuf g (fw, d)) (dblk (dev_mem st)) xs \<Longrightarrow> begins (dbuf g' (fw, d)) (dblk (dev_mem st')) xs" for fw xs
    using moves_begins[OF assms(2,3,4), of "(fw, d)"] assms(5,6) by simp
  then show ?thesis
    using assms(1) b unfolding cuda_filled_def ccore_layers(4-6)[OF movesD(1)[OF assms(2)]] assms(7) by (simp del: dbuf.simps)
qed

lemma cuda_outcome_Cons:
  assumes x: "cuda_exchanged cu dblk droom d (at fw d) (at bw d) per (ys d) (zs d) (length D) (g, st) (g1, st1)"
    and o: "cuda_outcome cu dblk droom ds fw bw per ys zs D (g1, st1) (g', st')"
    and d: "d \<notin> set ds" "\<not> gm_empty g \<Longrightarrow> d < 3 \<and> (\<forall>c \<in> set ds. c < 3)"
  shows "cuda_outcome cu dblk droom (d # ds) fw bw per ys zs D (g, st) (g', st')"
proof (cases "gm_empty g")
  case True
  then show ?thesis using x o by (simp add: cuda_exchanged_def cuda_outcome_def)
next
  case False
  let ?S = "\<lambda>ds. \<Union>d \<in> set ds. hslots_at d" and ?T = "\<lambda>ds. \<Union>d \<in> set ds. dslots_at d"
  have k: "moves cu dblk droom (hslots_at d) (dslots_at d) (8 * length D) (2 * length D) (g, st) (g1, st1)"
    "cmeta g1 = snd (halo_meta g d (at fw d) (at bw d) per)" "dev_synced g1 st1"
    using x False by (simp_all add: cuda_exchanged_def del: dbuf.simps)
  have d3: "d < 3" "\<forall>c \<in> set ds. c < 3" using d(2)[OF False] by auto
  have e: "\<not> gm_empty g1" using False ccore_fields(4)[OF movesD(1)[OF k(1)]] by simp
  have k': "moves cu dblk droom (?S ds) (?T ds) (8 * length ds * length D) (2 * length ds * length D) (g1, st1) (g', st')"
    "cuda_ready cu dblk g' st' D" "if ds = [] then (g', st') = (g1, st1) else dev_synced g' st'" "\<forall>d < 3. d \<notin> set ds \<longrightarrow> meta_at g' d = meta_at g1 d"
    "\<forall>d \<in> set ds. cuda_filled dblk d (at fw d) (at bw d) per (ys d) (zs d) g' st'"
    using o e by (simp_all add: cuda_outcome_def)
  have sub: "?T ds \<subseteq> dslots" "dslots_at d \<subseteq> dslots" using d3 by (auto simp: dslots_at_def dslots_def)
  have all: "moves cu dblk droom (?S (d # ds)) (?T (d # ds)) (8 * length (d # ds) * length D) (2 * length (d # ds) * length D)
      (g, st) (g', st')"
  proof -
    have a: "moves cu dblk droom (?S (d # ds)) (?T (d # ds)) (8 * length D) (2 * length D) (g, st) (g1, st1)"
      by (rule moves_mono[OF k(1)]) auto
    have b: "moves cu dblk droom (?S (d # ds)) (?T (d # ds)) (8 * length ds * length D) (2 * length ds * length D) (g1, st1) (g', st')"
      by (rule moves_mono[OF k'(1)]) auto
    show ?thesis by (rule moves_mono[OF moves_trans[OF a b]]) (simp_all add: algebra_simps)
  qed
  have "cuda_filled dblk d (at fw d) (at bw d) per (ys d) (zs d) g' st'"
  proof (rule cuda_filled_keep[OF cuda_exchanged_filled[OF x False d3(1)] k'(1) movesD(2)[OF k(1)] sub(1) _ d3(1)])
    show "meta_at g' d = meta_at g1 d" using k'(4) d3(1) d(1) by blast
    show "(f, d) \<notin> ?T ds" for f using d(1) by (auto simp: dslots_at_def)
  qed
  moreover have "meta_at g' c = meta_at g c" if "c < 3" "c \<notin> set (d # ds)" for c
    using k'(4) that cmeta_at[OF k(2) d3(1) that(1)] by simp
  moreover have "dev_synced g' st'" using k(3) k'(3) by (auto split: if_splits)
  ultimately show ?thesis using all k'(2,5) False by (simp add: cuda_outcome_def)
qed

lemma ring_ok_ccore:
  assumes "ring_ok N gs g d per" "\<And>i. i < N \<Longrightarrow> ccore (g' i) = ccore (g i)"
  shows "ring_ok N gs g' d per"
  using assms(1) unfolding ring_ok_def neighbours_ok_def by (simp add: ccore_layers[OF assms(2)])

lemma cuda_exchanged_neighbours:
  assumes x: "cuda_exchanged cu dblk droom d u v per (from_fw gs g D d u i) (from_bw gs g D d v i) n (g i, st i) t"
    and ring: "ring_ok N gs g0 d per" and c: "\<And>i. i < N \<Longrightarrow> ccore (g i) = ccore (g0 i)" and i: "i < N"
  shows "cuda_exchanged cu dblk droom d u v per (from_fw gs g0 D d u i) (from_bw gs g0 D d v i) n (g i, st i) t"
proof -
  have "fwn (g0 i) d per \<Longrightarrow> from_fw gs g D d u i = from_fw gs g0 D d u i"
    "bwn (g0 i) d per \<Longrightarrow> from_bw gs g D d v i = from_bw gs g0 D d v i"
    using ring i ccore_layers(2)[OF c] by (auto simp: ring_ok_def neighbours_ok_def from_fw_def from_bw_def Let_def)
  then show ?thesis
    using x ccore_layers(4,5)[OF c[OF i]] ccore_fields(4)[OF c[OF i]]
    by (cases t) (auto simp: cuda_exchanged_def fwn_def bwn_def simp del: dbuf.simps)
qed

lemma cuda_outcome_Nil:
  "(\<not> gm_empty g \<Longrightarrow> cuda_ready cu dblk g st D) \<Longrightarrow> cuda_outcome cu dblk droom [] fw bw per ys zs D (g, st) (g, st)"
  by (auto simp: cuda_outcome_def intro: moves_refl cuda_readyD(1))

lemma cuda_outcome_cong:
  assumes "cuda_outcome cu dblk droom ds fw bw per ys zs D s t"
    "\<And>d. d \<in> set ds \<Longrightarrow> ys d = ys' d" "\<And>d. d \<in> set ds \<Longrightarrow> zs d = zs' d"
  shows "cuda_outcome cu dblk droom ds fw bw per ys' zs' D s t"
  using assms by (cases s; cases t) (simp add: cuda_outcome_def split: if_splits)

text \<open>The processes that exchange the halos of the dimensions \<open>ds\<close> in this order.\<close>

definition cuda_dims ::
    "'d cuda_lib \<Rightarrow> (idx \<Rightarrow> idx \<Rightarrow> bool) \<Rightarrow> ((nat \<times> nat) list \<Rightarrow> (nat \<times> nat) list) \<Rightarrow> cuda_space \<Rightarrow> nat arr3 \<Rightarrow> nat arr3 \<Rightarrow>
      bool \<Rightarrow> nat list \<Rightarrow> cuda_mgrid \<times> 'd cuda_world \<Rightarrow> (cuda_mgrid \<times> 'd cuda_world) prog" where
  "cuda_dims cu le sched gs fw bw per = foldP (\<lambda>d. Cuda_ExchangeBoundaries cu le sched gs d (at fw d) (at bw d) False per)"

lemma cuda_dims_simps:
  "cuda_dims cu le sched gs fw bw per [] s = Ret s"
  "cuda_dims cu le sched gs fw bw per (d # ds) s =
     bindP (Cuda_ExchangeBoundaries cu le sched gs d (at fw d) (at bw d) False per s) (cuda_dims cu le sched gs fw bw per ds)"
  by (simp_all add: cuda_dims_def)

context cuda_room begin

lemma cuda_dims_run:
  fixes C :: "nat \<Rightarrow> cuda_mgrid \<times> 'a cuda_world \<Rightarrow> 'q prog"
  assumes "distinct ds" and ring: "\<And>d. d \<in> set ds \<Longrightarrow> ring_ok N gs g0 d per"
    and c: "\<And>i. i < N \<Longrightarrow> ccore (g i) = ccore (g0 i)"
    and rd: "\<And>i. i < N \<Longrightarrow> \<not> gm_empty (g i) \<Longrightarrow> cuda_ready cu dblk (g i) (st i) (D i) \<and>
      8 * length ds * length (D i) \<le> avail (hp (st i)) \<and> 2 * length ds * length (D i) \<le> droom (dev_mem (st i))"
    and w: "\<And>i d. i < N \<Longrightarrow> d \<in> set ds \<Longrightarrow> \<not> gm_empty (g i) \<Longrightarrow> width_ok (g i) d (at fw d) \<and> width_ok (g i) d (at bw d)"
    and le: "componentwise le" and sched: "any_order sched"
  shows "\<exists>s. (\<forall>i < N. cuda_outcome cu dblk droom ds fw bw per (\<lambda>d. from_fw gs g0 D d (at fw d) i) (\<lambda>d. from_bw gs g0 D d (at bw d) i) (D i)
      (g i, st i) (s i)) \<and>
    det_step\<^sup>*\<^sup>* \<lparr>procs = map (\<lambda>i. bindP (cuda_dims cu le sched (gs i) fw bw per ds (g i, st i)) (C i)) [0..<N],
        chans = (\<lambda>_ _. []), bqueue = bq\<rparr>
      \<lparr>procs = map (\<lambda>i. C i (s i)) [0..<N], chans = (\<lambda>_ _. []), bqueue = bq\<rparr>"
  using assms(1-5)
proof (induction ds arbitrary: g st)
  case Nil
  have "cuda_outcome cu dblk droom [] fw bw per ys zs (D i) (g i, st i) (g i, st i)" if "i < N" for i ys zs
    by (rule cuda_outcome_Nil) (use Nil.prems(4)[OF that] in simp)
  then show ?case by (intro exI[of _ "\<lambda>i. (g i, st i)"]) (simp add: cuda_dims_simps)
next
  case (Cons d ds)
  have ring: "ring_ok N gs g d per" by (rule ring_ok_ccore[OF Cons.prems(2)]) (use Cons.prems(3) in simp_all)
  have able: "cuda_able cu dblk droom (g i, st i) (D i) d (at fw d) (at bw d) 1" if "i < N" for i
    using Cons.prems(4)[OF that] Cons.prems(5)[OF that, of d] by (auto simp: cuda_able_def add_mult_distrib)
  obtain s1 where 1: "\<forall>i < N. cuda_exchanged cu dblk droom d (at fw d) (at bw d) per (from_fw gs g D d (at fw d) i)
      (from_bw gs g D d (at bw d) i) (length (D i)) (g i, st i) (s1 i)"
    "det_step\<^sup>*\<^sup>* \<lparr>procs = map (\<lambda>i. bindP (Cuda_ExchangeBoundaries cu le sched (gs i) d (at fw d) (at bw d) False per (g i, st i))
          (\<lambda>s. bindP (cuda_dims cu le sched (gs i) fw bw per ds s) (C i))) [0..<N], chans = (\<lambda>_ _. []), bqueue = bq\<rparr>
      \<lparr>procs = map (\<lambda>i. bindP (cuda_dims cu le sched (gs i) fw bw per ds (s1 i)) (C i)) [0..<N],
        chans = (\<lambda>_ _. []), bqueue = bq\<rparr>"
    using cuda_exchange_round[OF ring able le sched, where C = "\<lambda>i s. bindP (cuda_dims cu le sched (gs i) fw bw per ds s) (C i)" and bq = bq]
    by blast
  define g1 st1 where "g1 = (\<lambda>i. fst (s1 i))" and "st1 = (\<lambda>i. snd (s1 i))"
  have s1: "s1 i = (g1 i, st1 i)" for i by (simp add: g1_def st1_def)
  have x: "cuda_exchanged cu dblk droom d (at fw d) (at bw d) per (from_fw gs g0 D d (at fw d) i) (from_bw gs g0 D d (at bw d) i)
      (length (D i)) (g i, st i) (g1 i, st1 i)" if "i < N" for i
    using cuda_exchanged_neighbours[where g = g and st = st and D = D and gs = gs and i = i,
        OF 1(1)[rule_format, OF that] Cons.prems(2)[of d] Cons.prems(3) that] by (simp add: s1)
  have c1: "ccore (g1 i) = ccore (g i)" if "i < N" for i
    using x[OF that] movesD(1)[of cu dblk droom "hslots_at d" "dslots_at d"] by (auto simp: cuda_exchanged_def split: if_splits)
  note cf = ccore_fields(4)[OF c1]
  have d3: "d < 3 \<and> (\<forall>c \<in> set ds. c < 3)" if "i < N" "\<not> gm_empty (g i)" for i
  proof -
    have "c < 3" if c: "c \<in> set (d # ds)" for c
      using Cons.prems(4)[OF \<open>i < N\<close> \<open>\<not> gm_empty (g i)\<close>] Cons.prems(5)[OF \<open>i < N\<close> c \<open>\<not> gm_empty (g i)\<close>] cuda_layer(1) by blast
    then show ?thesis by simp
  qed
  have "\<exists>s. (\<forall>i < N. cuda_outcome cu dblk droom ds fw bw per (\<lambda>d. from_fw gs g0 D d (at fw d) i) (\<lambda>d. from_bw gs g0 D d (at bw d) i) (D i)
      (g1 i, st1 i) (s i)) \<and>
    det_step\<^sup>*\<^sup>* \<lparr>procs = map (\<lambda>i. bindP (cuda_dims cu le sched (gs i) fw bw per ds (g1 i, st1 i)) (C i)) [0..<N],
        chans = (\<lambda>_ _. []), bqueue = bq\<rparr>
      \<lparr>procs = map (\<lambda>i. C i (s i)) [0..<N], chans = (\<lambda>_ _. []), bqueue = bq\<rparr>"
  proof (rule Cons.IH)
    show "distinct ds" using Cons.prems(1) by simp
    show "ring_ok N gs g0 e per" if "e \<in> set ds" for e using Cons.prems(2) that by simp
    show "ccore (g1 i) = ccore (g0 i)" if "i < N" for i using c1 Cons.prems(3) that by simp
    show "cuda_ready cu dblk (g1 i) (st1 i) (D i) \<and>
      8 * length ds * length (D i) \<le> avail (hp (st1 i)) \<and> 2 * length ds * length (D i) \<le> droom (dev_mem (st1 i))"
      if i: "i < N" "\<not> gm_empty (g1 i)" for i
    proof -
      have ne: "\<not> gm_empty (g i)" using i cf by simp
      have m: "moves cu dblk droom (hslots_at d) (dslots_at d) (8 * length (D i)) (2 * length (D i)) (g i, st i) (g1 i, st1 i)"
        using x[OF i(1)] ne by (simp add: cuda_exchanged_def)
      have r: "cuda_ready cu dblk (g i) (st i) (D i)" using Cons.prems(4)[OF i(1) ne] by simp
      have "cuda_ready cu dblk (g1 i) (st1 i) (D i)" by (rule ready_moves[OF r m]) (use d3[OF i(1) ne] in \<open>auto simp: dslots_at_def dslots_def\<close>)
      then show ?thesis using movesD(6,7)[OF m] Cons.prems(4)[OF i(1) ne] by (simp add: algebra_simps)
    qed
    show "width_ok (g1 i) e (at fw e) \<and> width_ok (g1 i) e (at bw e)" if "i < N" "e \<in> set ds" "\<not> gm_empty (g1 i)" for i e
      using Cons.prems(5)[OF that(1), of e] that(2,3) cf[OF that(1)] ccore_layers(3)[OF c1[OF that(1)]] by simp
  qed
  then obtain s where 2: "\<forall>i < N. cuda_outcome cu dblk droom ds fw bw per (\<lambda>d. from_fw gs g0 D d (at fw d) i)
      (\<lambda>d. from_bw gs g0 D d (at bw d) i) (D i) (g1 i, st1 i) (s i)"
    "det_step\<^sup>*\<^sup>* \<lparr>procs = map (\<lambda>i. bindP (cuda_dims cu le sched (gs i) fw bw per ds (g1 i, st1 i)) (C i)) [0..<N],
        chans = (\<lambda>_ _. []), bqueue = bq\<rparr>
      \<lparr>procs = map (\<lambda>i. C i (s i)) [0..<N], chans = (\<lambda>_ _. []), bqueue = bq\<rparr>" by blast
  have "cuda_outcome cu dblk droom (d # ds) fw bw per (\<lambda>d. from_fw gs g0 D d (at fw d) i) (\<lambda>d. from_bw gs g0 D d (at bw d) i) (D i)
      (g i, st i) (s i)" if "i < N" for i
  proof -
    obtain g' st' where s: "s i = (g', st')" by (cases "s i")
    note o = 2(1)[rule_format, OF that, unfolded s]
    show ?thesis unfolding s
      by (rule cuda_outcome_Cons[OF _ o]) (use x[OF that] Cons.prems(1) d3[OF that] in simp_all)
  qed
  then show ?case using rtranclp_trans[OF 1(2)[unfolded s1] 2(2)]
    by (intro exI[of _ s]) (simp add: cuda_dims_simps bindP_assoc)
qed

end

end
