(* ===== verification/Cuda_Load.thy ===== *)
theory Cuda_Load imports Cuda_Rounds Halo_Runs begin

text \<open>
  The call \<open>GridSpaceMPICUDA::LoadNeighbor\<close> by all processes at once, without diagonal points
  and without periodic boundaries, and what a kernel then reads through the accessor of
  \<open>include/physis/physis_mpi_cuda.h\<close>.
\<close>

subsection \<open>What a kernel reads\<close>

definition kernel_read :: "'d cuda_lib \<Rightarrow> cuda_mgrid \<Rightarrow> 'd cuda_world \<Rightarrow> idx \<Rightarrow> fault + cell list" where
  "kernel_read cu g st x = cuRead cu (dev_GetAddrFloat3D (gc_dev g) (at x 0) (at x 1) (at x 2)) 4 (dev_mem st)"

text \<open>An element of the array in the pitched block.\<close>

lemma array_element:
  assumes at: "pitched_at b e s blk D" and q: "in_box 3 q s"
  shows "take e (drop (nat (at q 2 * at s 1 + at q 1) * pp_pitch (c3_pp b) + nat (at q 0) * e) D) =
      elem e (array_of b D) (nat (lin 3 q s))"
    "nat (at q 2 * at s 1 + at q 1) * pp_pitch (c3_pp b) + nat (at q 0) * e + e \<le> length D"
proof -
  let ?p = "pp_pitch (c3_pp b)" and ?W = "nat (at s 0) * e" and ?r = "nat (at q 2 * at s 1 + at q 1)"
  have b: "buf_size b = s" "buf_elm_size b = e" using at by (auto simp: pitched_at_def)
  note rm = pitched_at_room[OF at]
  have q0: "0 \<le> at q 0" "at q 0 < at s 0" "0 \<le> at q 1" "at q 1 < at s 1" "0 \<le> at q 2" "at q 2 < at s 2"
    using q by (auto simp: in_box_def)
  have r: "?r < nat (at s 1) * nat (at s 2)"
  proof -
    have "at q 2 * at s 1 + at q 1 < (at q 2 + 1) * at s 1" using q0 by (simp add: algebra_simps)
    also have "\<dots> \<le> at s 2 * at s 1" using q0 by (intro mult_right_mono) auto
    finally have "?r < nat (at s 2 * at s 1)" using q0 by (simp add: nat_less_iff)
    moreover have "nat (at s 2 * at s 1) = nat (at s 2) * nat (at s 1)" using q0 by (intro nat_mult_distrib) auto
    ultimately show ?thesis by (simp only: mult.commute)
  qed
  have x: "nat (at q 0) * e + e \<le> ?W"
    using q0 mult_right_mono[of "nat (at q 0) + 1" "nat (at s 0)" e] by (simp add: algebra_simps)
  have "lin 3 q s = at q 0 + at s 0 * (at q 2 * at s 1 + at q 1)"
    by (simp add: numeral_3_eq_3 numeral_2_eq_2 algebra_simps)
  then have l: "nat (lin 3 q s) = nat (at q 0) + nat (at s 0) * ?r"
    using q0 by (simp add: nat_add_distrib nat_mult_distrib)
  have "take e (drop (?r * ?W + nat (at q 0) * e) (array_of b D)) = take e (drop (?r * ?p + nat (at q 0) * e) D)"
    unfolding array_of_def b by (rule unpadded_take_drop[OF rm r x])
  then show "take e (drop (?r * ?p + nat (at q 0) * e) D) = elem e (array_of b D) (nat (lin 3 q s))"
    unfolding elem_def l by (simp add: algebra_simps)
  have "(?r + 1) * ?p \<le> nat (at s 1) * nat (at s 2) * ?p" using r by (intro mult_right_mono) auto
  then show "?r * ?p + nat (at q 0) * e + e \<le> length D" using rm x by (simp add: algebra_simps)
qed

lemma dev_local_at:
  assumes "dev_synced g st" "k < 3"
  shows "at (dev_local (gc_dev g) (at x 0) (at x 1) (at x 2)) k = at x k - at (gm_local_offset g) k"
  using assms less3_cases[OF assms(2)] by (auto simp: dev_synced_def Let_def dev_local_def)

text \<open>An index inside the local part.\<close>

lemma kernel_addr_inside:
  assumes sy: "dev_synced g st" and b: "buf3_at (data_buffer0 g) st = Inr b" "buf_ptr b = Ptr blk 0"
    and q: "\<And>k. k < 3 \<Longrightarrow> at q k = at x k - at (gm_local_offset g) k" "in_box 3 q (gm_local_size g)"
    and pitch: "pp_pitch (c3_pp b) = grid_elm_size g * p" "0 < grid_elm_size g" "p < 2 ^ 31"
    and small: "(nat (at q 2 * at (gm_local_size g) 1 + at q 1) * p + nat (at q 0)) < 2 ^ 64"
  shows "dev_GetAddrFloat3D (gc_dev g) (at x 0) (at x 1) (at x 2) =
    Ptr blk (int (4 * (nat (at q 2 * at (gm_local_size g) 1 + at q 1) * p + nat (at q 0))))"
proof -
  let ?d = "gc_dev g" and ?ls = "gm_local_size g"
  let ?i = "dev_local ?d (at x 0) (at x 1) (at x 2)"
  have ls: "k < 3 \<Longrightarrow> at (d3_local_size ?d) k = at ?ls k" "k < 3 \<Longrightarrow> at (d3_local_offset ?d) k = at (gm_local_offset g) k" for k
    using sy by (auto simp: dev_synced_def Let_def)
  have p0: "d3_p0 ?d = Ptr blk 0" "d3_pitch ?d = int p"
    using sy b pitch by (auto simp: dev_synced_def Let_def int_of_size_def int_of_unsigned_def)
  have qi: "at ?i k = at q k" if "k < 3" for k using dev_local_at[OF sy that] q(1)[OF that] by simp
  have box: "0 \<le> at q k \<and> at q k < at ?ls k" if "k < 3" for k using q(2) that by (auto simp: in_box_def)
  have "find (\<lambda>i. at ?i i < 0 \<or> at ?i i \<ge> at (d3_local_size ?d) i) [0..<3] = None"
  proof -
    have "\<not> (at ?i k < 0 \<or> at ?i k \<ge> at (d3_local_size ?d) k)" if "k < 3" for k
      unfolding qi[OF that] ls(1)[OF that] using box[OF that] by linarith
    then show ?thesis by (simp add: find_None_iff)
  qed
  then have "dev_GetAddrFloat3D ?d (at x 0) (at x 1) (at x 2) = dev_GetAddrNoHaloFloat3D ?d (at x 0) (at x 1) (at x 2)"
    by (simp add: dev_GetAddrFloat3D_def Let_def)
  moreover have "to_size (at q 0 + at q 1 * int p + at q 2 * int p * at ?ls 1) =
      nat (at q 2 * at ?ls 1 + at q 1) * p + nat (at q 0)"
  proof -
    have pos: "0 \<le> at q 2 * at ?ls 1 + at q 1" using box[of 1] box[of 2] by simp
    have e: "at q 0 + at q 1 * int p + at q 2 * int p * at ?ls 1 = int (nat (at q 2 * at ?ls 1 + at q 1) * p + nat (at q 0))"
      using pos box[of 0] by (simp add: algebra_simps)
    show ?thesis unfolding e by (rule to_size_of_nat[OF small])
  qed
  moreover have "at x 0 - at (gm_local_offset g) 0 = at q 0" "at x 1 - at (gm_local_offset g) 1 = at q 1"
    "at x 2 - at (gm_local_offset g) 2 = at q 2" using q(1) by simp_all
  ultimately show ?thesis using p0 ls
    by (simp add: dev_GetAddrNoHaloFloat3D_def Let_def dev_CalcOffset3D_def float_at_def)
qed

text \<open>An index that leaves the local part in dimension \<open>d\<close> only.\<close>

lemma kernel_addr_halo:
  assumes sy: "dev_synced g st" and diag: "\<not> gm_halo_has_diagonal g"
    and q: "\<And>k. k < 3 \<Longrightarrow> at q k = at x k - at (gm_local_offset g) k"
    and ls: "\<And>k. k < 3 \<Longrightarrow> 0 \<le> at (gm_local_size g) k \<and> at (gm_local_size g) k < 2 ^ 31"
    and d: "d < 3" "if fw then at (gm_local_size g) d \<le> at q d else at q d < 0"
      "\<And>k. k < 3 \<Longrightarrow> k \<noteq> d \<Longrightarrow> 0 \<le> at q k \<and> at q k < at (gm_local_size g) k"
    and w: "at (if fw then gm_halo_fw_width g else gm_halo_bw_width g) d = w" "w < 2 ^ 31"
  shows "dev_GetAddrFloat3D (gc_dev g) (at x 0) (at x 1) (at x 2) = float_at (buf_ptr (dbuf g (fw, d)))
    (to_size (lin 3 (upd q d (if fw then at q d - at (gm_local_size g) d else at q d + int w)) (layer_size (gm_local_size g) d w)))"
proof -
  let ?d = "gc_dev g" and ?ls = "gm_local_size g"
  let ?i = "dev_local ?d (at x 0) (at x 1) (at x 2)"
  let ?y = "if fw then at q d - at ?ls d else at q d + int w"
  have dl: "at (d3_local_size ?d) k = at ?ls k" "at (d3_halo ?d) k = (buf_ptr (dbuf g (False, k)), buf_ptr (dbuf g (True, k)))"
    "at (d3_halo_width ?d) k = (int_of_unsigned (at (gm_halo_bw_width g) k), int_of_unsigned (at (gm_halo_fw_width g) k))"
    if "k < 3" for k using sy that by (auto simp: dev_synced_def Let_def)
  have dg: "\<not> d3_diag ?d" using sy diag by (simp add: dev_synced_def Let_def)
  have qi: "at ?i k = at q k" if "k < 3" for k using dev_local_at[OF sy that] q[OF that] by simp
  have i: "?i = q" by (rule arr3_eqI) (rule qi)
  have find: "find (\<lambda>i. at q i < 0 \<or> at q i \<ge> at (d3_local_size ?d) i) [0..<3] = Some d"
  proof (rule find_unique[OF d(1)])
    show "at q d < 0 \<or> at (d3_local_size ?d) d \<le> at q d" using d(1,2) dl(1) by (auto split: if_splits)
    show "\<not> (at q k < 0 \<or> at (d3_local_size ?d) k \<le> at q k)" if "k < 3" "k \<noteq> d" for k
      unfolding dl(1)[OF that(1)] using d(3)[OF that] by linarith
  qed
  have iw: "int_of_unsigned w = int w" using w(2) by (simp add: int_of_unsigned_def)
  have sgn: "at q d < 0 \<longleftrightarrow> \<not> fw" using d(1,2) ls[OF d(1)] by (auto split: if_splits)
  let ?hs = "upd (arr_map2 (\<lambda>n _. to_size n) (d3_local_size ?d) (d3_local_size ?d)) d (to_size (int w))"
  have hs: "int_of_size (at ?hs k) = at (layer_size ?ls d w) k" if "k < 3" for k
    using d(1) that ls[OF that] w(2) by (auto simp: at_upd at_map2 at_layer dl(1) int_of_size_def int_of_unsigned_def)
  have in_halo: "dev_in_halo ?d d q = float_at (buf_ptr (dbuf g (fw, d)))
      (dev_CalcOffset3D (at (upd q d ?y) 0) (at (upd q d ?y) 1) (at (upd q d ?y) 2)
        (int_of_size (at ?hs 0)) (int_of_size (at ?hs 1)))"
    using dg sgn dl[OF d(1)] w(1) iw by (cases fw) (simp_all add: dev_in_halo_def Let_def)
  have "dev_CalcOffset3D (at (upd q d ?y) 0) (at (upd q d ?y) 1) (at (upd q d ?y) 2)
        (int_of_size (at ?hs 0)) (int_of_size (at ?hs 1)) = to_size (lin 3 (upd q d ?y) (layer_size ?ls d w))"
    by (simp only: hs[of 0] hs[of 1] dev_CalcOffset3D_def) (simp add: numeral_3_eq_3 numeral_2_eq_2 algebra_simps)
  then show ?thesis unfolding dev_GetAddrFloat3D_def Let_def i find by (simp only: option.case in_halo)
qed

subsection \<open>Places\<close>

text \<open>
  Process \<open>r\<close> holds its box of the data \<open>A\<close> on its device, in a block of fewer than \<open>2 ^ 31\<close>
  elements, the range of the accessor's indices.
\<close>

definition cuda_at :: "'d cuda_lib \<Rightarrow> ('d \<Rightarrow> mem) \<Rightarrow> place \<Rightarrow> int \<Rightarrow> cell list \<Rightarrow> nat \<Rightarrow> cuda_mgrid \<Rightarrow> 'd cuda_world \<Rightarrow> bool" where
  "cuda_at cu dblk P i A r g st \<longleftrightarrow> grid_id g = Some i \<and> located P r g \<and> cuda_ready cu dblk g st (part_at P A r) \<and>
     (\<exists>b blk Q. data_at dblk g st b blk Q \<and> part_at P A r = array_of b Q \<and> length Q < 2 ^ 33)"

lemma cuda_atD:
  assumes "cuda_at cu dblk P i A r g st"
  shows "grid_id g = Some i" "located P r g" "cuda_ready cu dblk g st (part_at P A r)" "pl_nd P = 3"
    "part_ok (pl_nd P) (pl_e P) (snd (box_of P r))"
    "length (part_at P A r) = nat (accumulate (snd (box_of P r)) (pl_nd P)) * pl_e P"
proof -
  show a: "grid_id g = Some i" "located P r g" "cuda_ready cu dblk g st (part_at P A r)" using assms by (simp_all add: cuda_at_def)
  note L = locatedD[OF a(2)] and R = cuda_readyD[OF a(3)]
  show nd: "pl_nd P = 3" using L(1) R(2) by simp
  show "part_ok (pl_nd P) (pl_e P) (snd (box_of P r))" "length (part_at P A r) = nat (accumulate (snd (box_of P r)) (pl_nd P)) * pl_e P"
    using R(4,7) L(2,6) nd by simp_all
qed

text \<open>The index on the process's own device.\<close>

lemma own_index:
  assumes "located P r g" "k < 3"
  shows "at (arr_minus x (gm_local_offset g)) k = at x k - at (gm_local_offset g) k"
    "at (arr_minus x (gm_local_offset g)) k = at x k - lo_of P r k"
  using assms locatedD(3)[OF assms(1)] by (simp_all add: at_arr_minus)

context cuda_room begin

lemma kernel_inside:
  assumes P: "place_ok P" "pl_e P = 4" and r: "r < nprocs P" "full P r" and A: "length A = nat (accumulate (pl_sz P) (pl_nd P)) * pl_e P"
    and g: "cuda_at cu dblk P i A r g st" and sy: "dev_synced g st"
    and inside: "\<And>k. k < 3 \<Longrightarrow> lo_of P r k \<le> at x k \<and> at x k < lo_of P r k + ls_of P r k"
  shows "kernel_read cu g st x = Inr (elem 4 A (nat (lin 3 x (pl_sz P))))"
proof -
  let ?q = "arr_minus x (gm_local_offset g)" and ?ls = "snd (box_of P r)"
  note G = cuda_atD[OF g] and L = locatedD[OF cuda_atD(2)[OF g]]
  obtain b blk Q where b: "data_at dblk g st b blk Q" "part_at P A r = array_of b Q" "length Q < 2 ^ 33"
    using g by (auto simp: cuda_at_def)
  have e: "grid_elm_size g = 4" "gm_local_size g = ?ls" using L(2,6) P(2) by simp_all
  have at: "pitched_at b 4 ?ls blk Q" "dblk (dev_mem st) blk = Some Q" "4 dvd pp_pitch (c3_pp b)" "buf3_at (data_buffer0 g) st = Inr b"
    "buf_ptr b = Ptr blk 0" using b(1) e by (auto simp: data_at_def buf3_at_def pitched_at_def)
  define p where "p = pp_pitch (c3_pp b) div 4"
  have p: "pp_pitch (c3_pp b) = 4 * p" using at(3) by (simp add: p_def)
  have q: "in_box 3 ?q ?ls" unfolding in_box_def
  proof (intro allI impI)
    fix k :: nat assume k: "k < 3"
    show "0 \<le> at ?q k \<and> at ?q k < at ?ls k" using own_index(2)[OF G(2) k] inside[OF k] by (simp add: ls_of_def)
  qed
  let ?r = "nat (at ?q 2 * at ?ls 1 + at ?q 1)"
  note el = array_element[OF at(1) q, unfolded p]
  have p31: "p < 2 ^ 31"
  proof -
    have "1 \<le> nat (at ?ls 1) * nat (at ?ls 2)" using at(1) by (auto simp: pitched_at_def Suc_le_eq)
    from mult_right_mono[OF this, of "4 * p"] have "4 * p \<le> nat (at ?ls 1) * nat (at ?ls 2) * (4 * p)" by simp
    also have "\<dots> \<le> length Q" using pitched_at_room(2)[OF at(1)] p by simp
    finally show ?thesis using b(3) by simp
  qed
  have "?r * p + nat (at ?q 0) < 2 ^ 64" using el(2) b(3) by simp
  from kernel_addr_inside[OF sy at(4,5) own_index(1)[OF G(2)] _ _ _ p31 this[folded e(2)]]
  have a: "dev_GetAddrFloat3D (gc_dev g) (at x 0) (at x 1) (at x 2) = Ptr blk (int (?r * (4 * p) + nat (at ?q 0) * 4))"
    using q e p by (simp add: algebra_simps)
  have "kernel_read cu g st x = Inr (elem 4 (part_at P A r) (nat (lin 3 ?q ?ls)))"
    unfolding kernel_read_def a read_ok[OF at(2) el(2)] el(1) b(2) ..
  moreover have "elem 4 (part_at P A r) (nat (lin 3 ?q ?ls)) = elem 4 A (nat (lin 3 (arr_plus (fst (box_of P r)) ?q) (pl_sz P)))"
    using elem_part[OF P(1) r A, of ?q] q G(4) P(2) by simp
  moreover have "lin 3 (arr_plus (fst (box_of P r)) ?q) (pl_sz P) = lin 3 x (pl_sz P)"
    by (rule lin_cong) (use L(7) in \<open>simp add: at_arr_plus at_arr_minus\<close>)
  ultimately show ?thesis by simp
qed

lemma kernel_layer:
  assumes P: "place_ok P" "pl_e P = 4" and r': "r' < nprocs P" "full P r'" and A: "length A = nat (accumulate (pl_sz P) (pl_nd P)) * pl_e P"
    and g: "cuda_at cu dblk P i A r g st" and g': "cuda_at cu dblk P i A r' g' st'" and sy: "dev_synced g st"
    and d: "d < 3" and w: "int w \<le> ls_of P r' d" "at (if fw then gm_halo_fw_width g else gm_halo_bw_width g) d = w"
    and oth: "\<And>k. k < 3 \<Longrightarrow> k \<noteq> d \<Longrightarrow> lo_of P r' k = lo_of P r k \<and> ls_of P r' k = ls_of P r k"
    and holds: "begins (dbuf g (fw, d)) (dblk (dev_mem st)) (layer_of g' d w first (part_at P A r'))"
    and inside: "\<And>k. k < 3 \<Longrightarrow> k \<noteq> d \<Longrightarrow> lo_of P r k \<le> at x k \<and> at x k < lo_of P r k + ls_of P r k"
    and out: "if fw then lo_of P r d + ls_of P r d \<le> at x d else at x d < lo_of P r d"
    and y: "y = (if fw then at x d - lo_of P r d - ls_of P r d else at x d - lo_of P r d + int w)" "0 \<le> y" "y < int w"
      "at x d = lo_of P r' d + (if first then 0 else ls_of P r' d - int w) + y"
  shows "kernel_read cu g st x = Inr (elem 4 A (nat (lin 3 x (pl_sz P))))"
proof -
  let ?q = "arr_minus x (gm_local_offset g)" and ?ls = "snd (box_of P r)" and ?ls' = "snd (box_of P r')"
  note G = cuda_atD[OF g] and L = locatedD[OF cuda_atD(2)[OF g]] and G' = cuda_atD[OF g'] and R = cuda_readyD[OF cuda_atD(3)[OF g]]
  have e: "grid_elm_size g = 4" "gm_local_size g = ?ls" using L(2,6) P(2) by simp_all
  have ls: "0 \<le> at ?ls k \<and> at ?ls k < 2 ^ 31" "0 < at ?ls' k \<and> at ?ls' k < 2 ^ 31" if "k < 3" for k
    using G(4,5) G'(4,5) that by (auto simp: part_ok_def order_less_imp_le)
  have w31: "w < 2 ^ 31"
  proof -
    have "int w < 2 ^ 31" using w(1) ls(2)[OF d] by (simp add: ls_of_def)
    then show ?thesis by simp
  qed
  have lay: "layer_size ?ls' d w = layer_size ?ls d w"
    by (rule arr3_eqI) (use oth d in \<open>auto simp: at_layer ls_of_def\<close>)
  let ?y = "upd ?q d (if fw then at ?q d - at ?ls d else at ?q d + int w)"
  have yat: "at ?y k = (if k = d then y else at x k - lo_of P r k)" if "k < 3" for k
    using own_index(2)[OF G(2) that] own_index(2)[OF G(2) d] y(1) d that by (auto simp: at_upd ls_of_def)
  have box: "in_box 3 ?y (layer_size ?ls' d w)" unfolding in_box_def lay
  proof (intro allI impI)
    fix k :: nat assume k: "k < 3"
    show "0 \<le> at ?y k \<and> at ?y k < at (layer_size ?ls d w) k"
      unfolding yat[OF k] at_layer[OF d k] using y(2,3) inside[OF k] by (auto simp: ls_of_def)
  qed
  have qd: "if fw then at (gm_local_size g) d \<le> at ?q d else at ?q d < 0"
    using out own_index(2)[OF G(2) d] by (auto simp: e(2) ls_of_def split: if_splits)
  have addr: "dev_GetAddrFloat3D (gc_dev g) (at x 0) (at x 1) (at x 2) =
      float_at (buf_ptr (dbuf g (fw, d))) (to_size (lin 3 ?y (layer_size ?ls d w)))"
  proof (rule kernel_addr_halo[OF sy R(8) own_index(1)[OF G(2)] _ d qd _ w(2) w31, unfolded e(2)])
    show "0 \<le> at ?q k \<and> at ?q k < at ?ls k" if "k < 3" "k \<noteq> d" for k
      using own_index(2)[OF G(2) that(1)] inside[OF that] by (simp add: ls_of_def)
  qed (use ls(1) in simp_all)
  let ?l = "lin 3 ?y (layer_size ?ls' d w)"
  have el: "elem 4 (layer_of g' d w first (part_at P A r')) (nat ?l) =
      elem 4 A (nat (lin 3 (arr_plus (fst (box_of P r')) (arr_plus (layer_offset ?ls' d w first) ?y)) (pl_sz P)))"
    and len: "length (layer_of g' d w first (part_at P A r')) = nat (accumulate (layer_size ?ls' d w) 3) * 4"
    using elem_layer_at[OF P(1) r' A G'(2,5,6) _ w(1), of ?y first] box d unfolding G'(4) P(2) by simp_all
  have b: "0 \<le> ?l" "?l < accumulate (layer_size ?ls' d w) 3" using lin_bounds[OF box] by simp_all
  have l64: "?l < 2 ^ 64"
    using b(2) layer_le(2)[OF G'(5)[unfolded G'(4)] d, of w 3] part_small(1)[OF G'(5)[unfolded G'(4)]] w(1) by (simp add: ls_of_def)
  obtain k cs where k: "buf_ptr (dbuf g (fw, d)) = Ptr k 0" "dblk (dev_mem st) k = Some cs"
    "length (layer_of g' d w first (part_at P A r')) \<le> length cs"
    "take (length (layer_of g' d w first (part_at P A r'))) cs = layer_of g' d w first (part_at P A r')"
    using holds by (auto simp: begins_def simp del: dbuf.simps)
  have fit: "nat ?l * 4 + 4 \<le> length (layer_of g' d w first (part_at P A r'))"
    unfolding len by (rule elem_bound[of _ "nat (accumulate (layer_size ?ls' d w) 3)"]) (use b in simp_all)
  have "take 4 (drop (nat ?l * 4) cs) = elem 4 (layer_of g' d w first (part_at P A r')) (nat ?l)"
  proof -
    have "take 4 (drop (nat ?l * 4) cs) = take 4 (drop (nat ?l * 4) (take (length (layer_of g' d w first (part_at P A r'))) cs))"
      using fit by (simp add: drop_take min_def)
    then show ?thesis using k(4) by (simp add: elem_def)
  qed
  moreover have "cuRead cu (Ptr k (int (nat ?l * 4))) 4 (dev_mem st) = Inr (take 4 (drop (nat ?l * 4) cs))"
    by (rule read_ok[OF k(2)]) (use fit k(3) in linarith)
  moreover have "float_at (buf_ptr (dbuf g (fw, d))) (to_size (lin 3 ?y (layer_size ?ls d w))) = Ptr k (int (nat ?l * 4))"
    using k(1) to_size_id[OF b(1) l64] unfolding lay by (simp add: float_at_def)
  moreover have "lin 3 (arr_plus (fst (box_of P r')) (arr_plus (layer_offset ?ls' d w first) ?y)) (pl_sz P) = lin 3 x (pl_sz P)"
  proof (rule lin_cong)
    fix k :: nat assume k: "k < 3"
    have "at (arr_plus (fst (box_of P r')) (arr_plus (layer_offset ?ls' d w first) ?y)) k =
        lo_of P r' k + (if \<not> first \<and> k = d then ls_of P r' d - int w else 0) + at ?y k"
      using k d by (simp add: at_arr_plus at_layer_offset lo_of_def ls_of_def)
    then show "at (arr_plus (fst (box_of P r')) (arr_plus (layer_offset ?ls' d w first) ?y)) k = at x k"
      unfolding yat[OF k] using k oth[OF k] y(4) by (auto split: if_splits)
  qed
  ultimately show ?thesis unfolding kernel_read_def addr using el by simp
qed

lemma kernel_reads:
  assumes P: "place_ok P" "pl_e P = 4" and A: "length A = nat (accumulate (pl_sz P) (pl_nd P)) * pl_e P" and off: "offsets_ok P lo hi"
    and r: "r < nprocs P" "full P r"
    and G0: "\<And>r. r < nprocs P \<Longrightarrow> full P r \<Longrightarrow> cuda_at cu dblk P i A r (g0 r) (st0 r)"
    and o: "cuda_outcome cu dblk droom (rev [0..<3]) (fw_width_of lo hi) (bw_width_of lo hi) False
      (\<lambda>d. layer_of (g0 (move P d 1 r)) d (at (fw_width_of lo hi) d) True (part_at P A (move P d 1 r)))
      (\<lambda>d. layer_of (g0 (move P d (- 1) r)) d (at (bw_width_of lo hi) d) False (part_at P A (move P d (- 1) r)))
      (part_at P A r) (g0 r, st0 r) (g, st)"
    and g: "cuda_at cu dblk P i A r g st" and x: "grid_point (pl_nd P) x (pl_sz P)" "in_reach P lo hi r x"
  shows "kernel_read cu g st x = Inr (elem 4 A (nat (lin 3 x (pl_sz P))))"
proof -
  have nd: "pl_nd P = 3" by (rule cuda_atD(4)[OF g])
  have e: "\<not> gm_empty (g0 r)" using locatedD(5)[OF cuda_atD(2)[OF G0[OF r]]] r(2) by simp
  have o': "dev_synced g st" "\<forall>d < 3. cuda_filled dblk d (at (fw_width_of lo hi) d) (at (bw_width_of lo hi) d) False
      (layer_of (g0 (move P d 1 r)) d (at (fw_width_of lo hi) d) True (part_at P A (move P d 1 r)))
      (layer_of (g0 (move P d (- 1) r)) d (at (bw_width_of lo hi) d) False (part_at P A (move P d (- 1) r))) g st"
    using o e by (auto simp: cuda_outcome_def)
  note L = locatedD[OF cuda_atD(2)[OF g]]
  show ?thesis using x(2)
  proof (cases rule: in_reach_cases)
    case 1
    show ?thesis by (rule kernel_inside[OF P r A g o'(1)]) (use 1 nd in simp)
  next
    case (2 d)
    then have d: "d < 3" using nd by simp
    let ?u = "at (fw_width_of lo hi) d" and ?v = "at (bw_width_of lo hi) d"
    note W = widths_at[OF off 2(1) place_okD(4)[OF P(1)]]
    have wd: "int ?u \<le> ls_of P r d \<and> int ?v \<le> ls_of P r d" if "r < nprocs P" "full P r" for r
      using off that 2(1) W by (auto simp: offsets_ok_def)
    have ins: "k < 3 \<Longrightarrow> k \<noteq> d \<Longrightarrow> lo_of P r k \<le> at x k \<and> at x k < lo_of P r k + ls_of P r k" for k using 2(5) nd by simp
    note f = o'(2)[rule_format, OF d, unfolded cuda_filled_def]
    have xd: "0 \<le> at x d" "at x d < at (pl_sz P) d" using x(1) 2(1) by (auto simp: grid_point_def in_box_def)
    show ?thesis
    proof (cases "at x d < lo_of P r d")
      case True
      have v: "?v > 0" "has_bw g d False" "0 < lo_of P r d" using True 2(2) W xd(1) L(3) by (auto simp: has_bw_def)
      note m = bw_neighbour[OF P(1) r 2(1) v(3)]
      show ?thesis
      proof (rule kernel_layer[OF P m(1,2) A g G0[OF m(1,2)] o'(1) d, where fw = False and w = ?v and first = False
            and y = "at x d - lo_of P r d + int ?v"])
        show "0 \<le> at x d - lo_of P r d + int ?v" "at x d - lo_of P r d + int ?v < int ?v" using W(1) 2(2) True by linarith+
        show "at x d = lo_of P (move P d (- 1) r) d + (if False then 0 else ls_of P (move P d (- 1) r) d - int ?v) +
            (at x d - lo_of P r d + int ?v)" using m(4) by simp
        show "begins (dbuf g (False, d)) (dblk (dev_mem st)) (layer_of (g0 (move P d (- 1) r)) d ?v False (part_at P A (move P d (- 1) r)))"
          using f v by blast
      qed (use f v True wd[OF m(1,2)] m(5) nd ins in \<open>simp_all add: meta_at_def\<close>)
    next
      case False
      then have ge: "lo_of P r d + ls_of P r d \<le> at x d" using 2(4) by simp
      have u: "?u > 0" "has_fw g d False" "lo_of P r d + ls_of P r d < at (pl_sz P) d"
        using ge 2(3) W xd(2) L(3,4,10) by (auto simp: has_fw_def)
      note m = fw_neighbour[OF P(1) r 2(1) u(3)]
      show ?thesis
      proof (rule kernel_layer[OF P m(1,2) A g G0[OF m(1,2)] o'(1) d, where fw = True and w = ?u and first = True
            and y = "at x d - lo_of P r d - ls_of P r d"])
        show "0 \<le> at x d - lo_of P r d - ls_of P r d" "at x d - lo_of P r d - ls_of P r d < int ?u" using W(2) 2(3) ge by linarith+
        show "at x d = lo_of P (move P d 1 r) d + (if True then 0 else ls_of P (move P d 1 r) d - int ?u) +
            (at x d - lo_of P r d - ls_of P r d)" using m(4) by simp
        show "begins (dbuf g (True, d)) (dblk (dev_mem st)) (layer_of (g0 (move P d 1 r)) d ?u True (part_at P A (move P d 1 r)))"
          using f u by blast
      qed (use f u ge wd[OF m(1,2)] m(5) nd ins in \<open>simp_all add: meta_at_def\<close>)
    qed
  qed
qed

end

subsection \<open>The program of one process\<close>

definition cuda_at_rest ::
    "'d cuda_lib \<Rightarrow> ('d \<Rightarrow> mem) \<Rightarrow> place \<Rightarrow> nat \<Rightarrow> int \<Rightarrow> cell list \<Rightarrow> nat \<Rightarrow> 'd cuda_pstate \<Rightarrow> bool" where
  "cuda_at_rest cu dblk P a i A r = (\<lambda>(gs, st). space_at P r gs \<and> FindGrid i gs = Inr a \<and>
     (\<exists>g. objs gs a = Some g \<and> cuda_at cu dblk P i A r g st))"

definition device_read :: "'d cuda_lib \<Rightarrow> nat \<Rightarrow> 'd cuda_pstate \<Rightarrow> idx \<Rightarrow> fault + cell list" where
  "device_read cu a = (\<lambda>(gs, st) x. bindE (cuda_get_obj a gs) (\<lambda>g. kernel_read cu g st x))"

lemma cuda_at_restD:
  assumes "cuda_at_rest cu dblk P a i A r s"
  shows "space_at P r (fst s)" "FindGrid i (fst s) = Inr a" "\<exists>g. objs (fst s) a = Some g \<and> cuda_at cu dblk P i A r g (snd s)"
  using assms by (cases s; simp add: cuda_at_rest_def)+

lemma stream_ready:
  assumes "cuda_ready cu dblk g st D"
  shows "SetCUDAStream g st = Inr ()"
proof -
  obtain b where b: "buf3_at (data_buffer0 g) st = Inr b"
    using cuda_readyD(6)[OF assms] by (auto simp: data_at_def buf3_at_def)
  have len: "length (gc_peer_dev g) = 3" "[0..<grid_num_dims g] = [0, 1, 2]"
    using cuda_readyD(2)[OF assms] soundD(1)[OF cuda_readyD(1)[OF assms]] by (simp_all add: lens_ok_def upt_rec)
  show ?thesis using len(1) unfolding SetCUDAStream_def b len(2) by (simp add: array_get_def)
qed

lemma Cuda_LoadNeighbor_prog:
  assumes "cuda_at_rest cu dblk P a i A r (gs, st)" "objs gs a = Some g" "offsets_ok P lo hi"
  shows "Cuda_LoadNeighbor cu le sched a lo hi False reuse False (gs, st) =
    bindP (cuda_dims cu le sched gs (fw_width_of lo hi) (bw_width_of lo hi) False (rev [0..<3]) (g, st))
      (\<lambda>(g, st). bindP (lift (SetCUDAStream g st)) (\<lambda>_. Ret (cuda_put_obj a g gs, st)))"
proof -
  have s: "space_at P r gs" "FindGrid i gs = Inr a" "cuda_at cu dblk P i A r g st"
    using assms(1,2) by (auto simp: cuda_at_rest_def)
  note G = cuda_atD[OF s(3)]
  have nd: "grid_num_dims g = 3" using locatedD(1)[OF G(2)] G(4) by simp
  have n: "neighbor_overlap gs 3 lo hi" using overlap_at[OF s(1) assms(3)] G(4) by simp
  have o: "cuda_get_obj a gs = Inr g" using assms(2) by (simp add: cuda_get_obj_def)
  have p: "cuda_get_obj a (cuda_put_obj a g' gs) = Inr g'" for g' by (simp add: cuda_get_obj_def cuda_put_obj_def)
  show ?thesis
    unfolding Cuda_LoadNeighbor_def prod.case o lift.simps bindP.simps Let_def stream_ready[OF G(3)] Cuda_ExchangeBoundaries_id_def
      bw_width_of_def[symmetric] fw_width_of_def[symmetric] cuda_dims_def
    using n s(2) G(1) by (simp add: assertE_def nd o p bindP_assoc split_def)
qed

lemma space_at_cuda_put: "space_at P r (cuda_put_obj a g gs) = space_at P r gs"
  by (simp add: space_at_def cuda_put_obj_def space_ok_def)

lemma FindGrid_cuda_put [simp]: "FindGrid i (cuda_put_obj a g gs) = FindGrid i gs"
  by (simp add: FindGrid_def cuda_put_obj_def)

lemma cuda_at_moves:
  assumes "cuda_at cu dblk P i A r g st" "moves cu dblk droom S T n m (g, st) (g', st')" "T \<subseteq> dslots"
  shows "cuda_at cu dblk P i A r g' st'"
proof -
  note f = ccore_fields[OF movesD(1)[OF assms(2)]]
  have "located P r g'" using cuda_atD(2)[OF assms(1)] f by (simp add: located_def)
  then show ?thesis using assms(1) f(9) ready_moves[OF _ assms(2,3)] data_at_moves[OF _ assms(2,3)]
    unfolding cuda_at_def by metis
qed

subsection \<open>All processes\<close>

context cuda_room begin

lemma cuda_load_run:
  assumes P: "place_ok P" "pl_e P = 4" and A: "length A = nat (accumulate (pl_sz P) (pl_nd P)) * pl_e P" and off: "offsets_ok P lo hi"
    and full: "\<And>r. r < nprocs P \<Longrightarrow> full P r"
    and s: "\<And>r. r < nprocs P \<Longrightarrow> cuda_at_rest cu dblk P (a r) i A r (s r)"
    and room: "\<And>r. r < nprocs P \<Longrightarrow> 24 * length (part_at P A r) \<le> avail (hp (snd (s r))) \<and>
      6 * length (part_at P A r) \<le> droom (dev_mem (snd (s r)))"
    and le: "componentwise le" and sched: "any_order sched"
  shows "\<exists>s'. det_step\<^sup>*\<^sup>* (init_network (map (\<lambda>r. Cuda_LoadNeighbor cu le sched (a r) lo hi False reuse False (s r)) [0..<nprocs P]))
      (init_network (map Ret (map s' [0..<nprocs P]))) \<and>
    (\<forall>r < nprocs P. cuda_at_rest cu dblk P (a r) i A r (s' r) \<and>
      (\<forall>x. grid_point (pl_nd P) x (pl_sz P) \<and> in_reach P lo hi r x \<longrightarrow>
        device_read cu (a r) (s' r) x = Inr (elem 4 A (nat (lin 3 x (pl_sz P))))))"
proof -
  let ?N = "nprocs P" and ?fw = "fw_width_of lo hi" and ?bw = "bw_width_of lo hi" and ?ds = "rev [0..<3::nat]"
  let ?gs = "\<lambda>r. fst (s r)" and ?st = "\<lambda>r. snd (s r)"
  have "\<forall>r \<in> {..<?N}. \<exists>g. objs (?gs r) (a r) = Some g \<and> cuda_at cu dblk P i A r g (?st r)"
    using cuda_at_restD(3)[OF s] by simp
  then obtain g where g: "\<And>r. r < ?N \<Longrightarrow> objs (?gs r) (a r) = Some (g r)" "\<And>r. r < ?N \<Longrightarrow> cuda_at cu dblk P i A r (g r) (?st r)"
    unfolding bchoice_iff by auto
  note G = cuda_atD[OF g(2)]
  have gs: "space_at P r (?gs r)" "FindGrid i (?gs r) = Inr (a r)" if "r < ?N" for r
    using cuda_at_restD(1,2)[OF s[OF that]] by simp_all
  let ?C = "\<lambda>r (g, st). bindP (lift (SetCUDAStream g st)) (\<lambda>_. Ret (cuda_put_obj (a r) g (?gs r), st))"
  have prog: "Cuda_LoadNeighbor cu le sched (a r) lo hi False reuse False (s r) =
      bindP (cuda_dims cu le sched (?gs r) ?fw ?bw False ?ds (g r, ?st r)) (?C r)" if "r < ?N" for r
    using Cuda_LoadNeighbor_prog[of cu dblk P "a r" i A r "?gs r" "?st r" "g r" lo hi le sched reuse] s[OF that] g(1)[OF that] off by simp
  have ring: "ring_ok ?N ?gs g d False" if "d \<in> set ?ds" for d
  proof (cases "0 < ?N")
    case True
    show ?thesis by (rule ring_at[OF P(1) _ gs(1) G(2)]) (use that G(4)[OF True] in auto)
  next
    case False
    then show ?thesis by (simp add: ring_ok_def neighbours_ok_def)
  qed
  have rd: "cuda_ready cu dblk (g r) (?st r) (part_at P A r) \<and> 8 * length ?ds * length (part_at P A r) \<le> avail (hp (?st r)) \<and>
      2 * length ?ds * length (part_at P A r) \<le> droom (dev_mem (?st r))" if "r < ?N" for r
    using G(3)[OF that] room[OF that] by simp
  have w: "width_ok (g r) d (at ?fw d) \<and> width_ok (g r) d (at ?bw d)" if "r < ?N" "d \<in> set ?ds" for r d
    using widths_at[OF off, of d] off that locatedD(1,4)[OF G(2)[OF that(1)]] G(4)[OF that(1)] full[OF that(1)]
    by (auto simp: width_ok_def offsets_ok_def)
  obtain t where 1: "\<And>r. r < ?N \<Longrightarrow> cuda_outcome cu dblk droom ?ds ?fw ?bw False (\<lambda>d. from_fw ?gs g (part_at P A) d (at ?fw d) r)
      (\<lambda>d. from_bw ?gs g (part_at P A) d (at ?bw d) r) (part_at P A r) (g r, ?st r) (t r)"
    "det_step\<^sup>*\<^sup>* (init_network (map (\<lambda>r. bindP (cuda_dims cu le sched (?gs r) ?fw ?bw False ?ds (g r, ?st r)) (?C r)) [0..<?N]))
      (init_network (map (\<lambda>r. ?C r (t r)) [0..<?N]))"
    using cuda_dims_run[where ds = ?ds and gs = ?gs and C = ?C and g = g and st = ?st and D = "part_at P A"
        and bq = "\<lambda>_. []" and fw = ?fw and bw = ?bw, OF _ ring refl rd w le sched]
    unfolding init_network_def by auto
  define g' st' where "g' = (\<lambda>r. fst (t r))" and "st' = (\<lambda>r. snd (t r))"
  have t: "t r = (g' r, st' r)" for r by (simp add: g'_def st'_def)
  define s' where "s' = (\<lambda>r. (cuda_put_obj (a r) (g' r) (?gs r), st' r))"
  have final: "cuda_at cu dblk P i A r (g' r) (st' r)" if "r < ?N" for r
  proof -
    have "\<not> gm_empty (g r)" using locatedD(5)[OF G(2)[OF that]] full[OF that] by simp
    then have "moves cu dblk droom (\<Union>d \<in> set ?ds. hslots_at d) (\<Union>d \<in> set ?ds. dslots_at d)
        (8 * length ?ds * length (part_at P A r)) (2 * length ?ds * length (part_at P A r)) (g r, ?st r) (g' r, st' r)"
      using 1(1)[OF that] unfolding t cuda_outcome_def by simp
    then show ?thesis by (rule cuda_at_moves[OF g(2)[OF that]]) auto
  qed
  have rest: "cuda_at_rest cu dblk P (a r) i A r (s' r)" if "r < ?N" for r
    using gs[OF that] final[OF that] by (simp add: s'_def cuda_at_rest_def space_at_cuda_put) (simp add: cuda_put_obj_def)
  have reads: "device_read cu (a r) (s' r) x = Inr (elem 4 A (nat (lin 3 x (pl_sz P))))"
    if r: "r < ?N" and x: "grid_point (pl_nd P) x (pl_sz P)" "in_reach P lo hi r x" for r x
  proof -
    have o: "cuda_outcome cu dblk droom ?ds ?fw ?bw False
      (\<lambda>d. layer_of (g (move P d 1 r)) d (at ?fw d) True (part_at P A (move P d 1 r)))
      (\<lambda>d. layer_of (g (move P d (- 1) r)) d (at ?bw d) False (part_at P A (move P d (- 1) r)))
      (part_at P A r) (g r, ?st r) (g' r, st' r)"
      by (rule cuda_outcome_cong[OF 1(1)[OF r, unfolded t]])
        (use space_at_neighbours[OF gs(1)[OF r]] G(4)[OF r] in \<open>auto simp: from_fw_def from_bw_def Let_def\<close>)
    have "kernel_read cu (g' r) (st' r) x = Inr (elem 4 A (nat (lin 3 x (pl_sz P))))"
      by (rule kernel_reads[where ?g0.0 = g and ?st0.0 = ?st, OF P A off r full[OF r] _ o final[OF r] x]) (use g(2) in blast)
    then show ?thesis by (simp add: s'_def device_read_def cuda_get_obj_def cuda_put_obj_def)
  qed
  have m: "map (\<lambda>r. Cuda_LoadNeighbor cu le sched (a r) lo hi False reuse False (s r)) [0..<?N] =
      map (\<lambda>r. bindP (cuda_dims cu le sched (?gs r) ?fw ?bw False ?ds (g r, ?st r)) (?C r)) [0..<?N]"
    "map Ret (map s' [0..<?N]) = map (\<lambda>r. ?C r (t r)) [0..<?N]"
    using prog stream_ready[OF cuda_atD(3)[OF final]] by (simp_all add: s'_def t)
  have "det_step\<^sup>*\<^sup>* (init_network (map (\<lambda>r. Cuda_LoadNeighbor cu le sched (a r) lo hi False reuse False (s r)) [0..<?N]))
      (init_network (map Ret (map s' [0..<?N])))"
    unfolding m by (rule 1(2))
  then show ?thesis using rest reads by blast
qed

end


subsection \<open>A grid before its first exchange\<close>

lemma unpadded_all:
  assumes "length D = n * W"
  shows "unpadded W W n D = D"
proof (rule nth_equalityI)
  show len: "length (unpadded W W n D) = length D" using length_unpadded[of W W n D] assms by simp
  fix i assume "i < length (unpadded W W n D)"
  then have i: "i < n * W" using len assms by simp
  then have W: "0 < W" by (cases W) simp_all
  have "i div W < n" "i mod W < W" using i W by (simp_all add: less_mult_imp_div_less)
  from unpadded_nth[OF _ _ this, of W D] show "unpadded W W n D ! i = D ! i" using assms by simp
qed

definition fresh_cuda_grid :: "place \<Rightarrow> nat \<Rightarrow> cuda_mgrid" where
  "fresh_cuda_grid P r = (to_cuda_mgrid (gridmpi.extend
      (GridMPI_new 0 (pl_e P) (pl_nd P) (pl_sz P) False (pl_go P) (fst (box_of P r)) (snd (box_of P r)) 0)
      \<lparr>gc_dev = null_dev3d, gc_self_cuda = replicate 3 (CUDAHostMapped_new1 (pl_e P), CUDAHostMapped_new1 (pl_e P)),
       gc_self_mpi = replicate 3 (BufferHost_new1 (pl_e P), BufferHost_new1 (pl_e P)),
       gc_peer_cuda = replicate 3 (CUDAHost_new1 (pl_e P), CUDAHost_new1 (pl_e P)),
       gc_peer_dev = replicate 3 (CUDADev_new1 (pl_e P), CUDADev_new1 (pl_e P))\<rparr>))
     \<lparr>grid_id := Some 0, data_buffer0 := Some 0, data_buffer1 := Some 0\<rparr>"

definition fresh_pitched :: "place \<Rightarrow> nat \<Rightarrow> cuda_dev3d" where
  "fresh_pitched P r = (let ls = snd (box_of P r); w = nat (at ls 0) * pl_e P in
     (CUDADev3D_new 3 (pl_e P))\<lparr>buf_ptr := Ptr 0 0, buf_size := ls,
       c3_pp := \<lparr>pp_ptr = Ptr 0 0, pp_pitch = w, pp_xsize = w, pp_ysize = nat (at ls 1)\<rparr>\<rparr>)"

definition fresh_world :: "place \<Rightarrow> cell list \<Rightarrow> nat \<Rightarrow> nat \<Rightarrow> nat \<Rightarrow> heap cuda_world" where
  "fresh_world P A n m r = \<lparr>hp = \<lparr>blocks = \<lambda>_. None, fresh = 0, avail = n\<rparr>, bufs = \<lambda>_. None, next_buf = 1,
     files = \<lambda>_. None, dev_mem = \<lparr>blocks = [0 \<mapsto> part_at P A r], fresh = 1, avail = m\<rparr>, bufs3 = [0 \<mapsto> fresh_pitched P r]\<rparr>"

lemma fresh_cuda_fields:
  assumes "place_ok P" "r < nprocs P" "full P r" "pl_nd P = 3"
  shows "grid_id (fresh_cuda_grid P r) = Some 0" "located P r (fresh_cuda_grid P r)" "lens_ok (fresh_cuda_grid P r)"
    "data_buffer0 (fresh_cuda_grid P r) = Some 0" "data_buffer1 (fresh_cuda_grid P r) = Some 0"
    "\<not> gm_halo_has_diagonal (fresh_cuda_grid P r)"
  using assms(3,4) full_iff[OF assms(1,2)]
  by (simp_all add: fresh_cuda_grid_def to_cuda_mgrid_def GridMPI_new_def Grid_new_def Let_def gridmpi.defs grid.defs
      cuda_grid.defs located_def lens_ok_def)

text \<open>None of its halo buffers has memory yet.\<close>

lemma fresh_cuda_halos:
  assumes "d < 3" "0 < pl_e P"
  shows "line_buf (pl_e P) (hbuf (fresh_cuda_grid P r) (k, fw, d)) M" "buf_ptr (hbuf (fresh_cuda_grid P r) (k, fw, d)) = Null"
    "line_buf (pl_e P) (dbuf (fresh_cuda_grid P r) (fw, d)) M'" "buf_ptr (dbuf (fresh_cuda_grid P r) (fw, d)) = Null"
    "mapped_ok cu (side fw (gc_self_cuda (fresh_cuda_grid P r) ! d))"
  using assms
  by (cases k; simp add: fresh_cuda_grid_def to_cuda_mgrid_def gridmpi.defs cuda_grid.defs side_def buffer.truncate_def line_buf_def
      CUDAHostMapped_new1_def BufferHost_new1_def Buffer_new1_def CUDAHost_new1_def CUDADev_new1_def mapped_ok_def)+

lemma fresh_cuda_at:
  assumes P: "place_ok P" "pl_nd P = 3" "pl_e P = 4" and small: "\<And>d. d < 3 \<Longrightarrow> at (pl_sz P) d < 2 ^ 31"
    and A: "length A = nat (accumulate (pl_sz P) (pl_nd P)) * pl_e P" and r: "r < nprocs P" "full P r"
    and len: "length (part_at P A r) < 2 ^ 33"
  shows "cuda_at (heap_device align) live P 0 A r (fresh_cuda_grid P r) (fresh_world P A n m r)"
proof -
  let ?g = "fresh_cuda_grid P r" and ?st = "fresh_world P A n m r" and ?ls = "snd (box_of P r)" and ?b = "fresh_pitched P r"
  let ?D = "part_at P A r"
  note f = fresh_cuda_fields[OF P(1) r P(2)] and L = locatedD[OF fresh_cuda_fields(2)[OF P(1) r P(2)]]
  have e: "grid_elm_size ?g = 4" "gm_local_size ?g = ?ls" "grid_num_dims ?g = 3" using L(1,2,6) P by simp_all
  have st: "blocks (hp ?st) = (\<lambda>_. None)" "bufs3 ?st = [0 \<mapsto> ?b]" "live (dev_mem ?st) 0 = Some ?D" "heap_ok (hp ?st)"
    by (simp_all add: fresh_world_def live_Some heap_ok_def)
  note lb = local_box_ok[OF place_okD(1,2)[OF P(1)] _ place_okD(5)[OF P(1) r(1)]]
  have box: "box_ok 3 4 (pl_sz P) (fst (box_of P r)) ?ls" "size_fits 3 4 ?ls"
    using lb(1,2) P(2,3) by (simp_all add: box_of_def)
  have ls: "0 < at ?ls i" "at ?ls i < 2 ^ 31" "0 \<le> at (gm_local_offset ?g) i \<and> at (gm_local_offset ?g) i + at ?ls i \<le> at (grid_size ?g) i"
    if "i < 3" for i
  proof -
    have i: "i < pl_nd P" using that P(2) by simp
    show p: "0 < at ?ls i" using r(2) i by (simp add: full_def ls_of_def)
    show "0 \<le> at (gm_local_offset ?g) i \<and> at (gm_local_offset ?g) i + at ?ls i \<le> at (grid_size ?g) i"
      using full_inside[OF P(1) r i] L(3,10) by (simp add: ls_of_def)
    show "at ?ls i < 2 ^ 31" using full_inside[OF P(1) r i] small[OF that] unfolding ls_of_def by linarith
  qed
  have part: "part_ok 3 4 ?ls" using box(2) ls by (simp add: part_ok_def size_fits_def)
  have "length ?D = nat (accumulate ?ls 3) * 4"
    using length_part[OF box(1), of A] A P(2,3) by (simp add: part_at_def)
  moreover have "nat (accumulate ?ls 3) = nat (at ?ls 0) * nat (at ?ls 1) * nat (at ?ls 2)"
    using ls(1) by (simp add: numeral_3_eq_3 numeral_2_eq_2 nat_mult_distrib less_imp_le)
  ultimately have D: "length ?D = nat (at ?ls 0) * 4 * nat (at ?ls 1) * nat (at ?ls 2)" by simp
  have b: "buf_num_dims ?b = 3" "buf_elm_size ?b = 4" "buf_size ?b = ?ls" "buf_deleter ?b" "buf_ptr ?b = Ptr 0 0"
    "c3_pp ?b = \<lparr>pp_ptr = Ptr 0 0, pp_pitch = nat (at ?ls 0) * 4, pp_xsize = nat (at ?ls 0) * 4, pp_ysize = nat (at ?ls 1)\<rparr>"
    using P(3) by (simp_all add: fresh_pitched_def Let_def CUDADev3D_new_def)
  have at: "pitched_at ?b 4 ?ls 0 ?D" using b D part ls(1) by (simp add: pitched_at_def part_ok_def)
  have arr: "array_of ?b ?D = ?D" unfolding array_of_def b by (simp add: unpadded_all D)
  have null: "buf_ptr (dbuf ?g i) = Null" if "i \<in> dslots" for i using that fresh_cuda_halos(4)[of _ P] P(3) by (cases i) simp
  have data: "data_at live ?g ?st ?b 0 ?D" using f st at e b null by (simp add: data_at_def)
  have h: "chunks_ok 4 hslots (hbuf ?g) M" for M
    using fresh_cuda_halos(1,2)[of _ P] P(3) unfolding chunks_ok_def hslots_def by (simp add: ball_Un split_paired_all)
  have d: "chunks_ok 4 dslots (dbuf ?g) M" for M
    using fresh_cuda_halos(3,4)[of _ P] P(3) unfolding chunks_ok_def dslots_def by (simp add: split_paired_all del: dbuf.simps)
  have "sound (heap_device align) live ?g ?st"
    using f(3) st(4) h d P(3) e by (simp add: sound_def fresh_cuda_halos(5))
  then have "cuda_ready (heap_device align) live ?g ?st ?D"
    using e f(6) part ls(3) data arr[symmetric] unfolding cuda_ready_def by auto
  then show ?thesis using f(1,2) data arr[symmetric] len unfolding cuda_at_def by blast
qed

lemma fresh_cuda_at_rest:
  assumes P: "place_ok P" "pl_nd P = 3" "pl_e P = 4" and small: "\<And>d. d < 3 \<Longrightarrow> at (pl_sz P) d < 2 ^ 31"
    and A: "length A = nat (accumulate (pl_sz P) (pl_nd P)) * pl_e P" and r: "r < nprocs P" "full P r"
    and len: "length (part_at P A r) < 2 ^ 33"
  shows "\<exists>s. cuda_at_rest (heap_device align) live P 0 0 A r s \<and> avail (hp (snd s)) = n \<and> avail (dev_mem (snd s)) = m"
proof -
  obtain gs :: cuda_space where gs: "space_ok gs" "gs_num_dims gs = pl_nd P" "gs_global_size gs = pl_gsz P"
      "gs_proc_size gs = pl_ps P" "gs_my_rank gs = int r"
  proof -
    obtain g0 :: "cuda_mgrid gridspace_mpi" where "space_ok g0" "gs_num_dims g0 = pl_nd P" "gs_global_size g0 = pl_gsz P"
      "gs_proc_size g0 = pl_ps P" "gs_my_rank g0 = int r"
      using GridSpaceMPI_new_ok[OF place_okD(1)[OF P(1)] _ place_okD(5)[OF P(1) r(1)]] by auto
    then show thesis
      by (intro that[of "gridspace_mpi.extend g0 \<lparr>gs_fetch_buf = BufferHost_new1 1\<rparr>"])
        (simp_all add: gridspace_mpi.defs space_ok_def)
  qed
  let ?gs = "gs\<lparr>grids_map := [(0, 0)], objs := [0 \<mapsto> fresh_cuda_grid P r]\<rparr>" and ?st = "fresh_world P A n m r"
  have "space_at P r ?gs" using gs by (simp add: space_at_def space_ok_def)
  moreover have "FindGrid 0 ?gs = Inr 0" by (simp add: FindGrid_map)
  ultimately have "cuda_at_rest (heap_device align) live P 0 0 A r (?gs, ?st)"
    using fresh_cuda_at[OF P small A r len] by (simp add: cuda_at_rest_def)
  then show ?thesis by (intro exI[of _ "(?gs, ?st)"]) (simp add: fresh_world_def)
qed

text \<open>Two processes with one cell each.\<close>

definition demo_pair :: place where
  "demo_pair = \<lparr>pl_nd = 3, pl_gsz = Arr3 2 1 1, pl_ps = Arr3 2 1 1, pl_e = 4, pl_sz = Arr3 2 1 1, pl_go = Arr3 0 0 0\<rparr>"

abbreviation "demo_floats \<equiv> map Some [1, 2, 3, 4, 5, 6, 7, 8] :: cell list"

lemma demo_pair_ok:
  "place_ok demo_pair" "nprocs demo_pair = 2" "length demo_floats = nat (accumulate (pl_sz demo_pair) (pl_nd demo_pair)) * 4"
  by (simp_all add: demo_pair_def place_ok_def nprocs_def space_args_ok_def grid_args_ok_def accumulate_num all_less_num)

lemma demo_pair_fields: "pl_nd demo_pair = 3" "pl_sz demo_pair = Arr3 2 1 1" "pl_e demo_pair = 4"
  "pl_gsz demo_pair = Arr3 2 1 1" "pl_ps demo_pair = Arr3 2 1 1" "pl_go demo_pair = Arr3 0 0 0"
  by (simp_all add: demo_pair_def)

lemma demo_pair_boxes:
  assumes "r < 2"
  shows "lo_of demo_pair r 0 = int r" "ls_of demo_pair r 0 = 1" "lo_of demo_pair r 1 = 0" "ls_of demo_pair r 1 = 1"
    "lo_of demo_pair r 2 = 0" "ls_of demo_pair r 2 = 1"
proof -
  have "rank_idx 3 (Arr3 2 1 1) (lin 3 (Arr3 (int r) 0 0) (Arr3 2 1 1)) = Arr3 (int r) 0 0"
    by (rule rank_idx_lin[of 3 "Arr3 2 1 1"])
      (use assms in \<open>simp_all add: space_args_ok_def grid_point_def in_box_def all_less_num\<close>)
  moreover have "lin 3 (Arr3 (int r) 0 0) (Arr3 2 1 1) = int r" by (simp add: numeral_3_eq_3 at.simps)
  ultimately have r: "rank_idx 3 (Arr3 2 1 1) (int r) = Arr3 (int r) 0 0" by simp
  note b = box_line[OF demo_pair_ok(1), unfolded demo_pair_ok(2), OF assms, unfolded demo_pair_fields r]
  show "lo_of demo_pair r 0 = int r" "ls_of demo_pair r 0 = 1" "lo_of demo_pair r 1 = 0" "ls_of demo_pair r 1 = 1"
    "lo_of demo_pair r 2 = 0" "ls_of demo_pair r 2 = 1"
    using b[of 0] b[of 1] b[of 2] assms by (auto simp: line_lo_def line_ls_def part_off_def part_size_def less_2_cases_iff)
qed

lemma length_part_at:
  assumes P: "place_ok P" and A: "length A = nat (accumulate (pl_sz P) (pl_nd P)) * pl_e P" and r: "r < nprocs P"
  shows "length (part_at P A r) \<le> length A"
proof -
  note lb = local_box_ok[OF place_okD(1,2)[OF P] _ place_okD(5)[OF P r]]
  have box: "box_ok (pl_nd P) (pl_e P) (pl_sz P) (fst (box_of P r)) (snd (box_of P r))" using lb(1) by (simp add: box_of_def)
  show ?thesis using length_part[OF box, of A] lb(3) A by (simp add: part_at_def box_of_def)
qed

lemma demo_pair_start:
  "\<exists>s. \<forall>r < nprocs demo_pair. full demo_pair r \<and> cuda_at_rest (heap_device 16) live demo_pair 0 0 demo_floats r (s r) \<and>
    24 * length (part_at demo_pair demo_floats r) \<le> avail (hp (snd (s r))) \<and>
    6 * length (part_at demo_pair demo_floats r) \<le> avail (dev_mem (snd (s r)))"
proof -
  have "\<forall>r \<in> {..<nprocs demo_pair}. \<exists>s. full demo_pair r \<and> cuda_at_rest (heap_device 16) live demo_pair 0 0 demo_floats r s \<and>
      24 * length (part_at demo_pair demo_floats r) \<le> avail (hp (snd s)) \<and>
      6 * length (part_at demo_pair demo_floats r) \<le> avail (dev_mem (snd s))"
  proof
    fix r assume "r \<in> {..<nprocs demo_pair}"
    then have r: "r < nprocs demo_pair" by simp
    have full: "full demo_pair r" using demo_pair_boxes[of r] r unfolding demo_pair_ok(2)
      by (simp add: full_def demo_pair_fields all_less_num)
    have A: "length demo_floats = nat (accumulate (pl_sz demo_pair) (pl_nd demo_pair)) * pl_e demo_pair"
      using demo_pair_ok(3) by (simp add: demo_pair_fields)
    have small: "at (pl_sz demo_pair) d < 2 ^ 31" for d by (simp add: demo_pair_fields at.simps)
    have "length (part_at demo_pair demo_floats r) < 2 ^ 33" using length_part_at[OF demo_pair_ok(1) A r] by simp
    from fresh_cuda_at_rest[OF demo_pair_ok(1) demo_pair_fields(1,3) small A r full this]
    show "\<exists>s. full demo_pair r \<and> cuda_at_rest (heap_device 16) live demo_pair 0 0 demo_floats r s \<and>
      24 * length (part_at demo_pair demo_floats r) \<le> avail (hp (snd s)) \<and>
      6 * length (part_at demo_pair demo_floats r) \<le> avail (dev_mem (snd s))" using full by (metis order_refl)
  qed
  from bchoice[OF this] show ?thesis by auto
qed


end
