(* ===== verification/Syntax_Tree.thy ===== *)
theory Syntax_Tree imports Physis_Util begin

text \<open>
  What the translator reads of a ROSE syntax tree, and the accessors of
  \<open>translator/rose_util.cc\<close>, \<open>rose_util.h\<close> that its analyses use. A node is a value that
  carries its identity, so equality of values is equality of the pointers of the code. The
  classes of nodes are the ones the code asks for with \<open>isSg...\<close>; everything else is one
  class. The lists that \<open>NodeQuery::querySubTree\<close> returns are part of the data, and so is
  the chain of parents of a node.
\<close>

subsection \<open>Types, expressions, declarations\<close>

type_synonym node = nat
type_synonym var = nat
type_synonym func = nat

datatype sg_type =
    ClassType string
  | TypedefType string sg_type
  | PointerType sg_type
  | ModifierType sg_type
  | FunctionType "sg_type list"
  | IntegerType string
  | FloatType
  | DoubleType
  | OtherType string

datatype sg_expr = SgExp (node_of: node) (type_of: sg_type) (kind_of: sg_kind)
and sg_kind =
    IntVal int
  | LongIntVal int
  | LongLongIntVal int
  | UnsignedIntVal int
  | OtherVal int                       \<comment> \<open>any other \<open>SgValueExp\<close>\<close>
  | VarRefExp var
  | FunctionRefExp func
  | FunctionCallExp sg_expr "sg_expr list"
  | AddOp sg_expr sg_expr
  | SubtractOp sg_expr sg_expr
  | MinusOp sg_expr
  | CastExp sg_expr
  | PointerDerefExp sg_expr
  | ArrowExp sg_expr sg_expr
  | DotExp sg_expr sg_expr
  | OtherExp

datatype sg_initializer =
    AssignInitializer sg_expr
  | AggregateInitializer sg_expr
  | OtherInitializer

record sg_name =
  sn_name :: string
  sn_type :: sg_type
  sn_init :: "sg_initializer option"
  sn_is_param :: bool

record sg_assign =
  sa_type :: sg_type
  sa_lhs :: sg_expr
  sa_rhs :: sg_expr

text \<open>What \<open>querySubTree\<close> finds below a node.\<close>

record sg_tree =
  st_vars :: "var list"
  st_assigns :: "sg_assign list"
  st_calls :: "sg_expr list"
  st_exprs :: "sg_expr list"

record sg_function =
  sf_name :: string
  sf_args :: "var list"
  sf_tree :: sg_tree

text \<open>
  \<open>sp_parents\<close> lists the ancestors of a node from the inside out, the node itself first, each
  with the function it declares, if it is a function declaration.
\<close>

record sg_project =
  sp_tree :: sg_tree
  sp_name :: "var \<Rightarrow> sg_name"
  sp_func :: "func \<Rightarrow> sg_function"
  sp_parents :: "node \<Rightarrow> func option list"

subsection \<open>The compiler library\<close>

text \<open>
  The functions of \<open>SageInterface\<close> the code calls are arguments, collected in a record.
  \<open>sage_laws\<close> states what their documentation promises of the cases the code relies on.
\<close>

record sage =
  si_isPointerType :: "sg_type \<Rightarrow> bool"
  si_getElementType :: "sg_type \<Rightarrow> sg_type"
  si_isStrictIntegerType :: "sg_type \<Rightarrow> bool"
  si_getIntegerConstantValue :: "sg_expr \<Rightarrow> int"

definition sage_laws :: "sage \<Rightarrow> bool" where
  "sage_laws si \<longleftrightarrow>
     (\<forall>t. si_isPointerType si (PointerType t) \<and> si_getElementType si (PointerType t) = t) \<and>
     (\<forall>s. \<not> si_isPointerType si (ClassType s)) \<and>
     (\<forall>s. si_isStrictIntegerType si (IntegerType s)) \<and>
     (\<forall>n t v. si_getIntegerConstantValue si (SgExp n t (IntVal v)) = v) \<and>
     (\<forall>n t v. si_getIntegerConstantValue si (SgExp n t (LongIntVal v)) = v)"

definition demo_sage :: sage where
  "demo_sage = \<lparr>
     si_isPointerType = (\<lambda>t. case t of PointerType _ \<Rightarrow> True | _ \<Rightarrow> False),
     si_getElementType = (\<lambda>t. case t of PointerType u \<Rightarrow> u | _ \<Rightarrow> t),
     si_isStrictIntegerType = (\<lambda>t. case t of IntegerType _ \<Rightarrow> True | _ \<Rightarrow> False),
     si_getIntegerConstantValue = (\<lambda>e. case kind_of e of IntVal v \<Rightarrow> v | LongIntVal v \<Rightarrow> v | _ \<Rightarrow> 0)\<rparr>"

lemma demo_sage_laws: "sage_laws demo_sage"
  by (simp add: sage_laws_def demo_sage_def)

subsection \<open>Accessors\<close>

text \<open>\<open>isSgVarRefExp\<close> followed by \<open>getInitializedName\<close>.\<close>

definition getInitializedName :: "sg_expr \<Rightarrow> var option" where
  "getInitializedName e = (case kind_of e of VarRefExp v \<Rightarrow> Some v | _ \<Rightarrow> None)"

definition isFuncParam :: "sg_project \<Rightarrow> var \<Rightarrow> bool" where
  "isFuncParam P v = sn_is_param (sp_name P v)"

fun removeCasts :: "sg_expr \<Rightarrow> sg_expr" where
  "removeCasts (SgExp n t (CastExp e)) = removeCasts e"
| "removeCasts e = e"

definition getFuncDeclFromFuncRef :: "sg_expr \<Rightarrow> fault + func" where
  "getFuncDeclFromFuncRef e =
     (case kind_of (removeCasts e) of FunctionRefExp f \<Rightarrow> Inr f | _ \<Rightarrow> Inl AssertFailed)"

fun getContainingFunction_loop :: "func option list \<Rightarrow> func option" where
  "getContainingFunction_loop [] = None"
| "getContainingFunction_loop (Some f # ns) = Some f"
| "getContainingFunction_loop (None # ns) = getContainingFunction_loop ns"

definition getContainingFunction :: "sg_project \<Rightarrow> node \<Rightarrow> func option" where
  "getContainingFunction P n = getContainingFunction_loop (sp_parents P n)"

definition getFuncName_ref :: "sg_project \<Rightarrow> func \<Rightarrow> string" where
  "getFuncName_ref P f = sf_name (sp_func P f)"



definition callee_of :: "sg_expr \<Rightarrow> sg_expr option" where
  "callee_of e = (case kind_of e of FunctionCallExp f _ \<Rightarrow> Some f | _ \<Rightarrow> None)"

definition args_of :: "sg_expr \<Rightarrow> sg_expr list" where
  "args_of e = (case kind_of e of FunctionCallExp _ as \<Rightarrow> as | _ \<Rightarrow> [])"

definition function_ref :: "sg_expr \<Rightarrow> func option" where
  "function_ref e = (case kind_of e of FunctionRefExp f \<Rightarrow> Some f | _ \<Rightarrow> None)"

definition called_function :: "sg_expr \<Rightarrow> func option" where
  "called_function call = Option.bind (callee_of call) function_ref"

definition getFuncName :: "sg_project \<Rightarrow> sg_expr \<Rightarrow> fault + string" where
  "getFuncName P call =
     (case called_function call of None \<Rightarrow> Inl UncaughtException | Some f \<Rightarrow> Inr (getFuncName_ref P f))"

definition IsIntLikeType_base :: "sg_type \<Rightarrow> bool" where
  "IsIntLikeType_base t = (case t of IntegerType _ \<Rightarrow> True | _ \<Rightarrow> False)"

fun IsIntLikeType :: "sg_type \<Rightarrow> bool" where
  "IsIntLikeType (ModifierType t) = IsIntLikeType t"
| "IsIntLikeType t = IsIntLikeType_base t"

subsection \<open>Constant arguments\<close>

definition is_value :: "sg_expr \<Rightarrow> bool" where
  "is_value e =
     (case kind_of e of
        IntVal _ \<Rightarrow> True | LongIntVal _ \<Rightarrow> True | LongLongIntVal _ \<Rightarrow> True | UnsignedIntVal _ \<Rightarrow> True
      | OtherVal _ \<Rightarrow> True | _ \<Rightarrow> False)"

definition is_constant_arg :: "sage \<Rightarrow> sg_expr \<Rightarrow> bool" where
  "is_constant_arg si e \<longleftrightarrow> is_value e \<and> si_isStrictIntegerType si (type_of e)"

text \<open>
  The arguments are those the call has after constant folding. Both overloads append the constants they find to the vector; the first stops with false at
  the first argument that is no constant, the second returns how many it has found.
\<close>

fun copyConstantFuncArgs :: "sage \<Rightarrow> sg_expr list \<Rightarrow> nat list \<Rightarrow> bool \<times> nat list" where
  "copyConstantFuncArgs si [] holder = (True, holder)"
| "copyConstantFuncArgs si (e # es) holder =
     (if \<not> is_constant_arg si e then (False, holder)
      else copyConstantFuncArgs si es (holder @ [to_size (si_getIntegerConstantValue si e)]))"

fun copyConstantFuncArgs_count :: "sage \<Rightarrow> sg_expr list \<Rightarrow> nat list \<Rightarrow> nat \<times> nat list" where
  "copyConstantFuncArgs_count si [] holder = (0, holder)"
| "copyConstantFuncArgs_count si (e # es) holder =
     (if \<not> is_constant_arg si e then (0, holder)
      else let (n, h) = copyConstantFuncArgs_count si es
                 (holder @ [to_size (si_getIntegerConstantValue si e)])
           in (Suc n, h))"

lemma copyConstantFuncArgs_count_all:
  "fst (copyConstantFuncArgs_count si es h) = length es \<longleftrightarrow> (\<forall>e\<in>set es. is_constant_arg si e)"
proof (induction es arbitrary: h)
  case (Cons e es)
  then show ?case by (auto split: prod.splits simp: Let_def) (metis fst_conv)+
qed simp

lemma copyConstantFuncArgs_count_le: "fst (copyConstantFuncArgs_count si es h) \<le> length es"
proof (induction es arbitrary: h)
  case (Cons e es)
  then show ?case by (auto split: prod.splits simp: Let_def) (metis fst_conv)
qed simp

lemma copyConstantFuncArgs_values:
  assumes "\<forall>e\<in>set es. is_constant_arg si e"
  shows "copyConstantFuncArgs si es h = (True, h @ map (\<lambda>e. to_size (si_getIntegerConstantValue si e)) es)"
    and "copyConstantFuncArgs_count si es h =
      (length es, h @ map (\<lambda>e. to_size (si_getIntegerConstantValue si e)) es)"
  using assms by (induction es arbitrary: h) simp_all

lemma copyConstantFuncArgs_True:
  "fst (copyConstantFuncArgs si es h) \<longleftrightarrow> (\<forall>e\<in>set es. is_constant_arg si e)"
  by (induction es arbitrary: h) auto

end
