(* ===== verification/Grid_Type.thy ===== *)
theory Grid_Type imports Syntax_Tree begin

text \<open>
  Grid types and calls on grids as the translator recognises them (\<open>translator/grid.h\<close>,
  \<open>grid.cc\<close>, and the queries for calls of \<open>translator/translation_context.cc\<close>), with the grid
  and domain objects made of calls (\<open>domain.h\<close>, \<open>domain.cc\<close>). A call on a grid has the form
  \<open>(*(g->method))(...)\<close>.
\<close>

subsection \<open>Types\<close>

definition grid1dTypeKey :: string where "grid1dTypeKey = ''__PSGrid1D''"
definition grid2dTypeKey :: string where "grid2dTypeKey = ''__PSGrid2D''"
definition grid3dTypeKey :: string where "grid3dTypeKey = ''__PSGrid3D''"

definition getNumDimFromTypeName :: "string \<Rightarrow> nat" where
  "getNumDimFromTypeName tname =
     (if str_find tname grid1dTypeKey 0 \<noteq> None then 1
      else if str_find tname grid2dTypeKey 0 \<noteq> None then 2
      else if str_find tname grid3dTypeKey 0 \<noteq> None then 3
      else 0)"

definition isGridTypeName :: "string \<Rightarrow> bool" where
  "isGridTypeName t \<longleftrightarrow> getNumDimFromTypeName t > 0"

text \<open>\<open>SgNamedType\<close> has the subclasses of structures and of typedefs.\<close>

definition type_name :: "sg_type \<Rightarrow> string option" where
  "type_name t = (case t of ClassType s \<Rightarrow> Some s | TypedefType s _ \<Rightarrow> Some s | _ \<Rightarrow> None)"

definition isGridType :: "sage \<Rightarrow> sg_type \<Rightarrow> bool" where
  "isGridType si ty =
     (let ty = (case ty of TypedefType _ b \<Rightarrow> b | _ \<Rightarrow> ty);
          ty = (if si_isPointerType si ty then si_getElementType si ty else ty)
      in case type_name ty of None \<Rightarrow> False | Some tn \<Rightarrow> isGridTypeName tn)"

subsection \<open>Calls\<close>

definition getGridVarUsedInFuncCall :: "sage \<Rightarrow> sg_project \<Rightarrow> sg_expr \<Rightarrow> var option" where
  "getGridVarUsedInFuncCall si P call =
     (case map_option kind_of (callee_of call) of
        Some (PointerDerefExp pdref) \<Rightarrow>
          (case kind_of pdref of
             ArrowExp lhs rhs \<Rightarrow>
               (case getInitializedName lhs of
                  None \<Rightarrow> None
                | Some v \<Rightarrow> if \<not> isGridType si (sn_type (sp_name P v)) then None else Some v)
           | _ \<Rightarrow> None)
      | _ \<Rightarrow> None)"

definition isGridTypeSpecificCall :: "sage \<Rightarrow> sg_project \<Rightarrow> sg_expr \<Rightarrow> bool" where
  "isGridTypeSpecificCall si P call \<longleftrightarrow> getGridVarUsedInFuncCall si P call \<noteq> None"

definition grid_call_names :: "string list" where
  "grid_call_names = [''PSGridDim'']"

definition isGridCall :: "sage \<Rightarrow> sg_project \<Rightarrow> sg_expr \<Rightarrow> bool" where
  "isGridCall si P call =
     (if isGridTypeSpecificCall si P call then True
      else case called_function call of
             None \<Rightarrow> False
           | Some f \<Rightarrow> list_ex (\<lambda>s. getFuncName_ref P f = s) grid_call_names)"

text \<open>The method of a call on a grid; on any other call an exception is thrown.\<close>

definition getGridFuncName :: "sage \<Rightarrow> sg_project \<Rightarrow> sg_expr \<Rightarrow> fault + string" where
  "getGridFuncName si P call =
     (if \<not> isGridTypeSpecificCall si P call then Inl UncaughtException
      else case map_option kind_of (callee_of call) of
             Some (PointerDerefExp pdref) \<Rightarrow>
               (case kind_of pdref of
                  ArrowExp lhs rhs \<Rightarrow>
                    (case getInitializedName rhs of
                       None \<Rightarrow> Inl AssertFailed
                     | Some m \<Rightarrow> Inr (sn_name (sp_name P m)))
                | _ \<Rightarrow> Inl NullPointer)
           | _ \<Rightarrow> Inl NullPointer)"

definition getGridCalls_step ::
    "sage \<Rightarrow> sg_project \<Rightarrow> string \<Rightarrow> sg_expr \<Rightarrow> sg_expr list \<Rightarrow> fault + sg_expr list" where
  "getGridCalls_step si P methodName call targets =
     (if \<not> isGridTypeSpecificCall si P call then Inr targets
      else bindE (getGridFuncName si P call) (\<lambda>name.
             if methodName \<noteq> name then Inr targets else Inr (targets @ [call])))"

definition getGridCalls :: "sage \<Rightarrow> sg_project \<Rightarrow> sg_tree \<Rightarrow> string \<Rightarrow> fault + sg_expr list" where
  "getGridCalls si P scope methodName = foldE (getGridCalls_step si P methodName) (st_calls scope) []"

definition getGridEmitCalls :: "sage \<Rightarrow> sg_project \<Rightarrow> sg_tree \<Rightarrow> fault + sg_expr list" where
  "getGridEmitCalls si P scope = getGridCalls si P scope ''emit''"

definition getGridGetCalls :: "sage \<Rightarrow> sg_project \<Rightarrow> sg_tree \<Rightarrow> fault + sg_expr list" where
  "getGridGetCalls si P scope = getGridCalls si P scope ''get''"

definition getGridGetPeriodicCalls :: "sage \<Rightarrow> sg_project \<Rightarrow> sg_tree \<Rightarrow> fault + sg_expr list" where
  "getGridGetPeriodicCalls si P scope = getGridCalls si P scope ''get_periodic''"

subsection \<open>Lemmas\<close>

lemma getGridCalls_filter:
  assumes "\<And>c. c \<in> set cs \<Longrightarrow> isGridTypeSpecificCall si P c \<Longrightarrow> \<exists>n. getGridFuncName si P c = Inr n"
  shows "foldE (getGridCalls_step si P method) cs ts =
    Inr (ts @ filter (\<lambda>c. getGridFuncName si P c = Inr method) cs)"
  using assms
proof (induction cs arbitrary: ts)
  case (Cons c cs)
  show ?case
  proof (cases "isGridTypeSpecificCall si P c")
    case True
    then obtain n where n: "getGridFuncName si P c = Inr n" using Cons.prems[of c] by auto
    show ?thesis using True n Cons by (auto simp: getGridCalls_step_def)
  next
    case False
    then show ?thesis using Cons by (auto simp: getGridCalls_step_def getGridFuncName_def)
  qed
qed simp

subsection \<open>Calls by name\<close>

definition calls_name :: "sg_project \<Rightarrow> string \<Rightarrow> sg_expr \<Rightarrow> bool" where
  "calls_name P s call =
     (case called_function call of None \<Rightarrow> False | Some f \<Rightarrow> getFuncName_ref P f = s)"

definition isMap :: "sg_project \<Rightarrow> sg_expr \<Rightarrow> bool" where
  "isMap P call = calls_name P ''PSStencilMap'' call"

definition isRun :: "sg_project \<Rightarrow> sg_expr \<Rightarrow> bool" where
  "isRun P call = calls_name P ''PSStencilRun'' call"

definition IsReduce :: "sg_project \<Rightarrow> sg_expr \<Rightarrow> bool" where
  "IsReduce P call = calls_name P ''PSReduce'' call"

datatype reduce_kind = ReduceGrid_kind | ReduceKernel_kind

definition get_reduction_kind :: "sg_expr \<Rightarrow> fault + reduce_kind" where
  "get_reduction_kind call =
     (if 2 < length (args_of call)
      then Inr (if function_ref (args_of call ! 2) \<noteq> None then ReduceKernel_kind else ReduceGrid_kind)
      else Inl OutOfBounds)"

definition findCountArg :: "sg_expr \<Rightarrow> fault + sg_expr option" where
  "findCountArg call =
     (if args_of call = [] then Inl OutOfBounds
      else Inr (if IsIntLikeType_base (type_of (last (args_of call))) then Some (last (args_of call)) else None))"

subsection \<open>Grid and domain objects\<close>

record grid_object =
  go_num_dim :: nat
  go_new_call :: sg_expr
  go_static_size :: "nat list"
  go_has_static_size :: bool
  go_read_write :: bool
  go_attribute :: "sg_expr option"

definition identifySize :: "sage \<Rightarrow> nat \<Rightarrow> sg_expr list \<Rightarrow> bool \<times> nat list" where
  "identifySize si num_dim args =
     (let (n, sizes) = copyConstantFuncArgs_count si args [] in (n = num_dim, sizes))"

definition GridObject :: "sage \<Rightarrow> nat \<Rightarrow> sg_expr \<Rightarrow> fault + grid_object" where
  "GridObject si num_dims newCall =
     (let args = args_of newCall
      in bindE (assertE (length args = num_dims \<or> length args = num_dims + 1)) (\<lambda>_.
         let (static, sizes) = identifySize si num_dims (take num_dims args)
         in Inr \<lparr>go_num_dim = num_dims, go_new_call = newCall, go_static_size = sizes,
                 go_has_static_size = static, go_read_write = False,
                 go_attribute = (if num_dims + 1 = length args then Some (args ! num_dims) else None)\<rparr>))"

record domain_object =
  do_num_dims :: int
  do_static :: bool
  do_min_point :: "nat list"
  do_max_point :: "nat list"

definition getNumDimOfDomain_name :: "string \<Rightarrow> int" where
  "getNumDimOfDomain_name t =
     (if t = ''PSDomain1D'' then 1 else if t = ''PSDomain2D'' then 2 else if t = ''PSDomain3D'' then 3 else - 1)"

definition getNumDimOfDomain :: "sg_type \<Rightarrow> int" where
  "getNumDimOfDomain ty = (case type_name ty of None \<Rightarrow> - 1 | Some t \<Rightarrow> getNumDimOfDomain_name t)"

definition isDomainType :: "sg_type \<Rightarrow> bool" where
  "isDomainType ty \<longleftrightarrow> type_name ty = Some ''__PSDomain'' \<or> getNumDimOfDomain ty > 0"

definition domain_points :: "nat list \<Rightarrow> nat \<Rightarrow> nat list \<times> nat list \<Rightarrow> fault + (nat list \<times> nat list)" where
  "domain_points v i = (\<lambda>(mn, mx).
     if i * 2 + 1 < length v then Inr (mn @ [v ! (i * 2)], mx @ [v ! (i * 2 + 1)]) else Inl OutOfBounds)"

definition GetDomain :: "sage \<Rightarrow> sg_expr \<Rightarrow> fault + domain_object" where
  "GetDomain si call =
     (let numDim = getNumDimOfDomain (type_of call)
      in bindE (assertE (numDim > 0)) (\<lambda>_.
         let (constant, v) = copyConstantFuncArgs si (args_of call) []
         in if constant then
              bindE (foldE (domain_points v) [0..<nat numDim] ([], [])) (\<lambda>(mn, mx).
                Inr \<lparr>do_num_dims = numDim, do_static = True, do_min_point = mn, do_max_point = mx\<rparr>)
            else Inr \<lparr>do_num_dims = numDim, do_static = False, do_min_point = [], do_max_point = []\<rparr>))"

definition size_value :: "sage \<Rightarrow> sg_expr \<Rightarrow> nat" where
  "size_value si e = to_size (si_getIntegerConstantValue si e)"

text \<open>
  A grid has a static size exactly when all its sizes are constants; the size is then the list
  of their values, and an argument after the sizes is the attribute of the grid.
\<close>

theorem grid_object_static_size:
  assumes "length (args_of call) = n \<or> length (args_of call) = n + 1"
  shows "\<exists>g. GridObject si n call = Inr g \<and> go_num_dim g = n \<and>
    go_has_static_size g = (\<forall>e\<in>set (take n (args_of call)). is_constant_arg si e) \<and>
    (go_has_static_size g \<longrightarrow> go_static_size g = map (size_value si) (take n (args_of call))) \<and>
    (go_attribute g = None) = (length (args_of call) = n)"
proof -
  let ?as = "take n (args_of call)"
  obtain k sizes where k: "copyConstantFuncArgs_count si ?as [] = (k, sizes)" by fastforce
  have len: "length ?as = n" using assms by auto
  have all: "(k = n) = (\<forall>e\<in>set ?as. is_constant_arg si e)"
    using copyConstantFuncArgs_count_all[of si ?as "[]"] k len by simp
  have "sizes = map (size_value si) ?as" if "k = n"
    using copyConstantFuncArgs_values(2)[of ?as si "[]"] all that k by (simp add: size_value_def)
  then show ?thesis using assms all k by (auto simp: GridObject_def identifySize_def Let_def)
qed

text \<open>A domain made by a call with constant bounds has the bounds of the call.\<close>

lemma domain_points_loop:
  "2 * n \<le> length v \<Longrightarrow> foldE (domain_points v) [0..<n] ([], []) =
     Inr (map (\<lambda>i. v ! (i * 2)) [0..<n], map (\<lambda>i. v ! (i * 2 + 1)) [0..<n])"
  by (induction n) (simp_all add: foldE_snoc domain_points_def)

theorem domain_object_bounds:
  assumes "getNumDimOfDomain (type_of call) = int n" "0 < n" "length (args_of call) = 2 * n"
    "\<forall>e\<in>set (args_of call). is_constant_arg si e"
  shows "\<exists>d. GetDomain si call = Inr d \<and> do_num_dims d = int n \<and> do_static d \<and>
    do_min_point d = map (\<lambda>i. size_value si (args_of call ! (2 * i))) [0..<n] \<and>
    do_max_point d = map (\<lambda>i. size_value si (args_of call ! (2 * i + 1))) [0..<n]"
proof -
  let ?v = "map (size_value si) (args_of call)"
  have v: "copyConstantFuncArgs si (args_of call) [] = (True, ?v)"
    using copyConstantFuncArgs_values(1)[OF assms(4), of "[]"] by (simp add: size_value_def[abs_def])
  have "foldE (domain_points ?v) [0..<n] ([], []) =
      Inr (map (\<lambda>i. ?v ! (i * 2)) [0..<n], map (\<lambda>i. ?v ! (i * 2 + 1)) [0..<n])"
    by (rule domain_points_loop) (use assms(3) in simp)
  moreover have "map (\<lambda>i. ?v ! (i * 2)) [0..<n] = map (\<lambda>i. size_value si (args_of call ! (2 * i))) [0..<n]"
      "map (\<lambda>i. ?v ! (i * 2 + 1)) [0..<n] = map (\<lambda>i. size_value si (args_of call ! (2 * i + 1))) [0..<n]"
    using assms(3) by (auto simp: mult.commute)
  ultimately show ?thesis using assms(1,2) v by (simp add: GetDomain_def Let_def)
qed

end
