(* ===== verification/Stencil_Analysis.thy ===== *)
theory Stencil_Analysis imports Stencil_Range Grid_Type begin

text \<open>
  The analysis of the accesses of a kernel (\<open>translator/stencil_analysis.cc\<close>): the index
  expressions of \<open>get\<close> and \<open>get_periodic\<close> calls become indices of \<open>Stencil_Range\<close>, and the
  indices of all calls on a grid become its range.
\<close>

subsection \<open>Index expressions\<close>

definition getIntValue :: "sg_expr \<Rightarrow> int option" where
  "getIntValue e =
     (case kind_of e of
        IntVal v \<Rightarrow> Some v
      | LongIntVal v \<Rightarrow> Some v
      | LongLongIntVal v \<Rightarrow> Some v
      | UnsignedIntVal v \<Rightarrow> Some v
      | _ \<Rightarrow> None)"

text \<open>The position of the variable among the parameters of the kernel, counted from 1.\<close>

fun find_arg :: "nat \<Rightarrow> var list \<Rightarrow> var \<Rightarrow> int option" where
  "find_arg i [] vn = None"
| "find_arg i (a # args) vn = (if a = vn then Some (int i + 1) else find_arg (Suc i) args vn)"

definition AnalyzeVarRef :: "var \<Rightarrow> var list \<Rightarrow> int option" where
  "AnalyzeVarRef vn ps = find_arg 0 ps vn"

definition binary_index ::
    "bool \<Rightarrow> stencil_index \<Rightarrow> stencil_index \<Rightarrow> stencil_index \<Rightarrow> fault + (bool \<times> stencil_index)" where
  "binary_index subtract rhs lhs idx =
     (if si_dim rhs \<noteq> 0 \<and> si_dim lhs \<noteq> 0 then Inr (False, idx)
      else if si_dim lhs \<noteq> 0 then
        bindE (assertE (si_dim rhs = 0)) (\<lambda>_.
          let offset = si_offset rhs;
              offset = (if subtract then offset * -1 else offset);
              offset = (if si_offset lhs \<noteq> 0 then offset + si_offset lhs else offset)
          in Inr (True, \<lparr>si_dim = si_dim lhs, si_offset = offset\<rparr>))
      else if si_dim rhs \<noteq> 0 then
        bindE (assertE (si_dim lhs = 0)) (\<lambda>_.
          let dim = (if subtract then si_dim rhs * -1 else si_dim rhs);
              offset = si_offset lhs;
              offset = (if si_offset rhs \<noteq> 0 then offset + si_offset rhs * (if subtract then -1 else 1)
                        else offset)
          in Inr (True, \<lparr>si_dim = dim, si_offset = offset\<rparr>))
      else Inl (Aborted 1))"

text \<open>
  \<open>idx\<close> is the index the caller passes by reference. The results of the recursive calls on the
  operands of a sum are not looked at: an operand that cannot be analysed leaves its index at
  the default (0, 0).
\<close>

fun AnalyzeStencilIndex :: "var list \<Rightarrow> sg_expr \<Rightarrow> stencil_index \<Rightarrow> fault + (bool \<times> stencil_index)" where
  "AnalyzeStencilIndex ps (SgExp n ty k) idx =
     (case getIntValue (SgExp n ty k) of
        Some v \<Rightarrow> Inr (True, \<lparr>si_dim = 0, si_offset = v\<rparr>)
      | None \<Rightarrow>
          (case k of
             VarRefExp v \<Rightarrow>
               (case AnalyzeVarRef v ps of
                  Some dim \<Rightarrow> Inr (True, \<lparr>si_dim = dim, si_offset = 0\<rparr>)
                | None \<Rightarrow> Inr (False, idx))
           | AddOp lhs rhs \<Rightarrow>
               bindE (AnalyzeStencilIndex ps rhs StencilIndex0) (\<lambda>(_, rhs_index).
               bindE (AnalyzeStencilIndex ps lhs StencilIndex0) (\<lambda>(_, lhs_index).
                 binary_index False rhs_index lhs_index idx))
           | SubtractOp lhs rhs \<Rightarrow>
               bindE (AnalyzeStencilIndex ps rhs StencilIndex0) (\<lambda>(_, rhs_index).
               bindE (AnalyzeStencilIndex ps lhs StencilIndex0) (\<lambda>(_, lhs_index).
                 binary_index True rhs_index lhs_index idx))
           | CastExp e \<Rightarrow> AnalyzeStencilIndex ps e idx
           | MinusOp e \<Rightarrow>
               bindE (AnalyzeStencilIndex ps e idx) (\<lambda>(b, i).
                 if b then Inr (True, \<lparr>si_dim = si_dim i * -1, si_offset = si_offset i * -1\<rparr>)
                 else Inr (False, i))
           | _ \<Rightarrow> Inr (False, idx)))"

subsection \<open>What an index stands for\<close>

text \<open>
  \<open>index_value\<close> evaluates an expression in an environment of variables; what a cast does to a
  value, and the value of every other expression, are arguments.
\<close>

fun index_value :: "(sg_type \<Rightarrow> int \<Rightarrow> int) \<Rightarrow> (sg_expr \<Rightarrow> int) \<Rightarrow> (var \<Rightarrow> int) \<Rightarrow> sg_expr \<Rightarrow> int" where
  "index_value cast other env (SgExp n ty k) =
     (case k of
        IntVal v \<Rightarrow> v
      | LongIntVal v \<Rightarrow> v
      | LongLongIntVal v \<Rightarrow> v
      | UnsignedIntVal v \<Rightarrow> v
      | VarRefExp v \<Rightarrow> env v
      | AddOp l r \<Rightarrow> index_value cast other env l + index_value cast other env r
      | SubtractOp l r \<Rightarrow> index_value cast other env l - index_value cast other env r
      | MinusOp e \<Rightarrow> - index_value cast other env e
      | CastExp e \<Rightarrow> cast ty (index_value cast other env e)
      | _ \<Rightarrow> other (SgExp n ty k))"

text \<open>The expressions the analysis is meant for: constants and parameters of the kernel under
  sums, differences, signs and casts that keep the value.\<close>

fun affine :: "(sg_type \<Rightarrow> int \<Rightarrow> int) \<Rightarrow> (sg_expr \<Rightarrow> int) \<Rightarrow> (var \<Rightarrow> int) \<Rightarrow> var list \<Rightarrow> sg_expr \<Rightarrow> bool" where
  "affine cast other env ps (SgExp n ty k) =
     (case k of
        IntVal v \<Rightarrow> True
      | LongIntVal v \<Rightarrow> True
      | LongLongIntVal v \<Rightarrow> True
      | UnsignedIntVal v \<Rightarrow> True
      | VarRefExp v \<Rightarrow> v \<in> set ps
      | AddOp l r \<Rightarrow> affine cast other env ps l \<and> affine cast other env ps r
      | SubtractOp l r \<Rightarrow> affine cast other env ps l \<and> affine cast other env ps r
      | MinusOp e \<Rightarrow> affine cast other env ps e
      | CastExp e \<Rightarrow> affine cast other env ps e \<and>
          cast ty (index_value cast other env e) = index_value cast other env e
      | _ \<Rightarrow> False)"

fun var_count :: "sg_expr \<Rightarrow> nat" where
  "var_count (SgExp n ty k) =
     (case k of
        VarRefExp v \<Rightarrow> 1
      | AddOp l r \<Rightarrow> var_count l + var_count r
      | SubtractOp l r \<Rightarrow> var_count l + var_count r
      | MinusOp e \<Rightarrow> var_count e
      | CastExp e \<Rightarrow> var_count e
      | _ \<Rightarrow> 0)"

text \<open>What constant folding leaves: no sum or difference of constants.\<close>

fun folded :: "sg_expr \<Rightarrow> bool" where
  "folded (SgExp n ty k) =
     (case k of
        AddOp l r \<Rightarrow> folded l \<and> folded r \<and> 0 < var_count l + var_count r
      | SubtractOp l r \<Rightarrow> folded l \<and> folded r \<and> 0 < var_count l + var_count r
      | MinusOp e \<Rightarrow> folded e
      | CastExp e \<Rightarrow> folded e
      | _ \<Rightarrow> True)"

definition stands_for :: "var list \<Rightarrow> (var \<Rightarrow> int) \<Rightarrow> stencil_index \<Rightarrow> int" where
  "stands_for ps env si =
     (if si_dim si = 0 then si_offset si
      else sgn (si_dim si) * env (ps ! (nat \<bar>si_dim si\<bar> - 1)) + si_offset si)"

subsection \<open>The analysis of one index\<close>

lemma find_arg_Some:
  "find_arg i args vn = Some d \<longleftrightarrow>
     (\<exists>j<length args. d = int (i + j) + 1 \<and> args ! j = vn \<and> (\<forall>k<j. args ! k \<noteq> vn))"
proof (induction args arbitrary: i)
  case (Cons a args)
  show ?case
  proof (cases "a = vn")
    case True
    then show ?thesis by (auto simp: nth_Cons' intro!: exI[of _ 0])
  next
    case False
    have "(\<exists>j<length (a # args). d = int (i + j) + 1 \<and> (a # args) ! j = vn \<and> (\<forall>k<j. (a # args) ! k \<noteq> vn)) \<longleftrightarrow>
        (\<exists>j<length args. d = int (Suc i + j) + 1 \<and> args ! j = vn \<and> (\<forall>k<j. args ! k \<noteq> vn))" (is "?L \<longleftrightarrow> ?R")
    proof
      assume ?L
      then obtain j where j: "j < length (a # args)" "d = int (i + j) + 1" "(a # args) ! j = vn"
          "\<forall>k<j. (a # args) ! k \<noteq> vn" by blast
      then obtain m where m: "j = Suc m" using False by (cases j) auto
      show ?R by (rule exI[of _ m]) (use j m in \<open>auto dest: spec[of _ "Suc _"]\<close>)
    next
      assume ?R
      then obtain j where j: "j < length args" "d = int (Suc i + j) + 1" "args ! j = vn" "\<forall>k<j. args ! k \<noteq> vn"
        by blast
      show ?L by (rule exI[of _ "Suc j"]) (use j False in \<open>auto simp: nth_Cons split: nat.splits\<close>)
    qed
    then show ?thesis using False Cons.IH[of "Suc i"] by simp
  qed
qed simp

lemma find_arg_None: "find_arg i args vn = None \<longleftrightarrow> vn \<notin> set args"
  by (induction args arbitrary: i) auto

lemma AnalyzeVarRef_in:
  assumes "v \<in> set ps"
  shows "\<exists>d. AnalyzeVarRef v ps = Some d \<and> 1 \<le> d \<and> d \<le> int (length ps) \<and> ps ! (nat d - 1) = v"
proof -
  obtain d where d: "find_arg 0 ps v = Some d" using assms find_arg_None[of 0 ps v] by auto
  then obtain j where "j < length ps" "d = int j + 1" "ps ! j = v" by (auto simp: find_arg_Some)
  then show ?thesis using d by (auto simp: AnalyzeVarRef_def nat_add_distrib)
qed

lemma stands_for_0 [simp]: "stands_for ps env \<lparr>si_dim = 0, si_offset = v\<rparr> = v"
  by (simp add: stands_for_def)

definition good_index ::
    "(sg_type \<Rightarrow> int \<Rightarrow> int) \<Rightarrow> (sg_expr \<Rightarrow> int) \<Rightarrow> (var \<Rightarrow> int) \<Rightarrow> var list \<Rightarrow> sg_expr \<Rightarrow> stencil_index \<Rightarrow> bool" where
  "good_index cast other env ps e si \<longleftrightarrow>
     index_value cast other env e = stands_for ps env si \<and>
     \<bar>si_dim si\<bar> \<le> int (length ps) \<and> (si_dim si = 0 \<longleftrightarrow> var_count e = 0)"

lemma binary_index_good:
  assumes l: "good_index cast other env ps l li" and r: "good_index cast other env ps r ri"
    and c: "var_count l + var_count r = 1"
  shows "\<exists>si. binary_index b ri li idx = Inr (True, si) \<and> \<bar>si_dim si\<bar> \<le> int (length ps) \<and> si_dim si \<noteq> 0 \<and>
    stands_for ps env si = (if b then index_value cast other env l - index_value cast other env r
      else index_value cast other env l + index_value cast other env r)"
proof (cases "var_count l = 0")
  case True
  then have "si_dim li = 0" "si_dim ri \<noteq> 0" using l r c by (auto simp: good_index_def)
  then show ?thesis using l r True
    by (auto simp: binary_index_def Let_def good_index_def stands_for_def sgn_if)
next
  case False
  then have "si_dim li \<noteq> 0" "si_dim ri = 0" using l r c by (auto simp: good_index_def)
  then show ?thesis using l r
    by (auto simp: binary_index_def Let_def good_index_def stands_for_def sgn_if)
qed

lemma AnalyzeStencilIndex_good:
  assumes "affine cast other env ps e" "var_count e \<le> 1" "folded e"
  shows "\<exists>si. AnalyzeStencilIndex ps e idx = Inr (True, si) \<and> good_index cast other env ps e si"
  using assms
proof (induction ps e idx rule: AnalyzeStencilIndex.induct)
  case (1 ps n ty k idx)
  show ?case
  proof (cases k)
    case (VarRefExp v)
    then have "v \<in> set ps" using "1.prems"(1) by simp
    then obtain d where "AnalyzeVarRef v ps = Some d" "1 \<le> d" "d \<le> int (length ps)" "ps ! (nat d - 1) = v"
      using AnalyzeVarRef_in by blast
    then show ?thesis using VarRefExp
      by (auto simp: getIntValue_def good_index_def stands_for_def)
  next
    case (AddOp l r)
    note pr = "1.prems"[unfolded AddOp, simplified]
    obtain ri where ri: "AnalyzeStencilIndex ps r StencilIndex0 = Inr (True, ri)" "good_index cast other env ps r ri"
      using "1.IH"(1)[of l r] AddOp pr by (auto simp: getIntValue_def)
    obtain li where li: "AnalyzeStencilIndex ps l StencilIndex0 = Inr (True, li)" "good_index cast other env ps l li"
      using "1.IH"(2)[of l r "(True, ri)"] ri(1) AddOp pr by (auto simp: getIntValue_def)
    have "var_count l + var_count r = 1" using pr by linarith
    from binary_index_good[OF li(2) ri(2) this, of False idx] this
    show ?thesis using AddOp ri(1) li(1) by (auto simp: getIntValue_def good_index_def)
  next
    case (SubtractOp l r)
    note pr = "1.prems"[unfolded SubtractOp, simplified]
    obtain ri where ri: "AnalyzeStencilIndex ps r StencilIndex0 = Inr (True, ri)" "good_index cast other env ps r ri"
      using "1.IH"(3)[of l r] SubtractOp pr by (auto simp: getIntValue_def)
    obtain li where li: "AnalyzeStencilIndex ps l StencilIndex0 = Inr (True, li)" "good_index cast other env ps l li"
      using "1.IH"(4)[of l r "(True, ri)"] ri(1) SubtractOp pr by (auto simp: getIntValue_def)
    have "var_count l + var_count r = 1" using pr by linarith
    from binary_index_good[OF li(2) ri(2) this, of True idx] this
    show ?thesis using SubtractOp ri(1) li(1) by (auto simp: getIntValue_def good_index_def)
  next
    case (MinusOp e)
    note pr = "1.prems"[unfolded MinusOp, simplified]
    obtain i where i: "AnalyzeStencilIndex ps e idx = Inr (True, i)" "good_index cast other env ps e i"
      using "1.IH"(5)[of e] MinusOp pr by (auto simp: getIntValue_def)
    then show ?thesis using MinusOp by (auto simp: getIntValue_def good_index_def stands_for_def sgn_minus)
  next
    case (CastExp e)
    note pr = "1.prems"[unfolded CastExp, simplified]
    obtain i where i: "AnalyzeStencilIndex ps e idx = Inr (True, i)" "good_index cast other env ps e i"
      using "1.IH"(6)[of e] CastExp pr by (auto simp: getIntValue_def)
    then show ?thesis using CastExp pr by (auto simp: getIntValue_def good_index_def)
  qed (use "1.prems"(1) in \<open>auto simp: getIntValue_def good_index_def\<close>)
qed

subsection \<open>The accesses of a kernel\<close>

text \<open>
  What the analysis records: for each grid its range and whether it is read periodically (the
  map of stencils), the indices of each call (the translation context) and the attribute of
  each call.
\<close>

record get_attr =
  ga_gv :: var
  ga_num_dim :: int
  ga_in_kernel :: bool
  ga_sil :: stencil_index_list

record access_state =
  as_ranges :: "var \<Rightarrow> stencil_range option"
  as_periodic :: "var list"
  as_indices :: "node \<Rightarrow> stencil_index_list option"
  as_attrs :: "node \<Rightarrow> get_attr option"

definition SetGridPeriodic :: "var \<Rightarrow> access_state \<Rightarrow> access_state" where
  "SetGridPeriodic gv s =
     s\<lparr>as_periodic := (if gv \<in> set (as_periodic s) then as_periodic s else as_periodic s @ [gv])\<rparr>"

definition IsGridPeriodic :: "var \<Rightarrow> access_state \<Rightarrow> bool" where
  "IsGridPeriodic gv s \<longleftrightarrow> isContained_list (as_periodic s) gv"

definition GetStencilRange :: "var \<Rightarrow> access_state \<Rightarrow> fault + stencil_range" where
  "GetStencilRange gv s = (case as_ranges s gv of None \<Rightarrow> Inl AssertFailed | Some sr \<Rightarrow> Inr sr)"

text \<open>\<open>std::map::insert\<close> keeps an entry that is there.\<close>

definition registerStencilIndex :: "node \<Rightarrow> stencil_index_list \<Rightarrow> access_state \<Rightarrow> access_state" where
  "registerStencilIndex call sil s =
     s\<lparr>as_indices := (case as_indices s call of None \<Rightarrow> (as_indices s)(call \<mapsto> sil) | Some _ \<Rightarrow> as_indices s)\<rparr>"

definition findStencilIndex :: "node \<Rightarrow> access_state \<Rightarrow> stencil_index_list option" where
  "findStencilIndex call s = as_indices s call"

text \<open>
  \<open>constantFolding args i\<close> is what the \<open>i\<close>-th argument of a call is after the library has
  folded the constants of its argument list.
\<close>

definition call_index ::
    "(sg_expr list \<Rightarrow> nat \<Rightarrow> sg_expr) \<Rightarrow> var list \<Rightarrow> sg_expr list \<Rightarrow> nat \<Rightarrow> stencil_index_list \<Rightarrow>
      fault + stencil_index_list" where
  "call_index constantFolding ps args dim stencil_indices =
     bindE (AnalyzeStencilIndex ps (constantFolding args dim) StencilIndex0) (\<lambda>(b, si).
       if \<not> b then Inl (Aborted 1) else Inr (stencil_indices @ [si]))"

definition call_indices ::
    "(sg_expr list \<Rightarrow> nat \<Rightarrow> sg_expr) \<Rightarrow> var list \<Rightarrow> sg_expr list \<Rightarrow> fault + stencil_index_list" where
  "call_indices constantFolding ps args = foldE (call_index constantFolding ps args) [0..<length args] []"

definition register_access ::
    "var \<Rightarrow> node \<Rightarrow> int \<Rightarrow> bool \<Rightarrow> stencil_index_list \<Rightarrow> access_state \<Rightarrow> access_state" where
  "register_access gv call nd is_kernel stencil_indices s =
     (let s = registerStencilIndex call stencil_indices s
      in if as_attrs s call = None
         then s\<lparr>as_attrs := (as_attrs s)(call \<mapsto> \<lparr>ga_gv = gv, ga_num_dim = nd,
                ga_in_kernel = is_kernel, ga_sil = stencil_indices\<rparr>)\<rparr>
         else s)"

definition record_access ::
    "(sg_expr list \<Rightarrow> nat \<Rightarrow> sg_expr) \<Rightarrow> sage \<Rightarrow> sg_project \<Rightarrow> bool \<Rightarrow> var list \<Rightarrow> sg_expr \<Rightarrow>
      access_state \<Rightarrow> fault + access_state" where
  "record_access constantFolding si P is_kernel ps get_call s =
     (case getGridVarUsedInFuncCall si P get_call of
        None \<Rightarrow> Inl NullPointer
      | Some gv \<Rightarrow>
          (let args = args_of get_call; nd = int (length args)
           in bindE (call_indices constantFolding ps args) (\<lambda>stencil_indices.
              bindE (case as_ranges s gv of
                       Some sr \<Rightarrow> Inr sr
                     | None \<Rightarrow> bindE (StencilRange nd) (\<lambda>sr. Inr (StencilRange_copy sr))) (\<lambda>sr.
              bindE (range_insert stencil_indices sr) (\<lambda>sr.
              let s = s\<lparr>as_ranges := (as_ranges s)(gv \<mapsto> sr)\<rparr>;
                  s = register_access gv (node_of get_call) nd is_kernel stencil_indices s
              in bindE (getGridFuncName si P get_call) (\<lambda>name.
                   Inr (if name = ''get_periodic'' then SetGridPeriodic gv s else s)))))))"

definition AnalyzeStencilRange ::
    "(sg_expr list \<Rightarrow> nat \<Rightarrow> sg_expr) \<Rightarrow> sage \<Rightarrow> sg_project \<Rightarrow> bool \<Rightarrow> sg_function \<Rightarrow>
      access_state \<Rightarrow> fault + access_state" where
  "AnalyzeStencilRange constantFolding si P is_kernel kernel_decl s =
     bindE (getGridGetCalls si P (sf_tree kernel_decl)) (\<lambda>get_calls.
     bindE (getGridGetPeriodicCalls si P (sf_tree kernel_decl)) (\<lambda>get_periodic_calls.
       foldE (record_access constantFolding si P is_kernel (sf_args kernel_decl))
         (get_calls @ get_periodic_calls) s))"

subsection \<open>What the analysis of a kernel records\<close>

definition index_list_of :: "(sg_expr list \<Rightarrow> nat \<Rightarrow> sg_expr) \<Rightarrow> var list \<Rightarrow> sg_expr \<Rightarrow> stencil_index_list" where
  "index_list_of constantFolding ps c =
     (case call_indices constantFolding ps (args_of c) of Inr sil \<Rightarrow> sil | Inl _ \<Rightarrow> [])"

definition accesses_of ::
    "(sg_expr list \<Rightarrow> nat \<Rightarrow> sg_expr) \<Rightarrow> sage \<Rightarrow> sg_project \<Rightarrow> var list \<Rightarrow> sg_expr list \<Rightarrow> var \<Rightarrow>
      stencil_index_list list" where
  "accesses_of constantFolding si P ps cs gv =
     map (index_list_of constantFolding ps) (filter (\<lambda>c. getGridVarUsedInFuncCall si P c = Some gv) cs)"

lemma accesses_of_snoc: "accesses_of cf si P ps (cs @ [c]) gv = accesses_of cf si P ps cs gv @
    (if getGridVarUsedInFuncCall si P c = Some gv then [index_list_of cf ps c] else [])"
  by (simp add: accesses_of_def)

text \<open>A call the analysis accepts.\<close>

definition analysable ::
    "(sg_expr list \<Rightarrow> nat \<Rightarrow> sg_expr) \<Rightarrow> sage \<Rightarrow> sg_project \<Rightarrow> var list \<Rightarrow> (var \<Rightarrow> nat) \<Rightarrow> sg_expr \<Rightarrow> bool" where
  "analysable constantFolding si P ps nd c \<longleftrightarrow>
     (\<exists>gv sil name. getGridVarUsedInFuncCall si P c = Some gv \<and>
        call_indices constantFolding ps (args_of c) = Inr sil \<and> length sil = nd gv \<and>
        length (args_of c) = nd gv \<and> 1 \<le> nd gv \<and> nd gv \<le> 3 \<and> getGridFuncName si P c = Inr name)"

definition ranges_ok ::
    "(sg_expr list \<Rightarrow> nat \<Rightarrow> sg_expr) \<Rightarrow> sage \<Rightarrow> sg_project \<Rightarrow> var list \<Rightarrow> (var \<Rightarrow> nat) \<Rightarrow> sg_expr list \<Rightarrow>
      access_state \<Rightarrow> bool" where
  "ranges_ok cf si P ps nd cs s \<longleftrightarrow>
     (\<forall>gv. case as_ranges s gv of
        None \<Rightarrow> accesses_of cf si P ps cs gv = []
      | Some sr \<Rightarrow> accesses_of cf si P ps cs gv \<noteq> [] \<and>
          collect_range (nd gv) (accesses_of cf si P ps cs gv) = Inr sr)"

definition periodic_ok :: "sage \<Rightarrow> sg_project \<Rightarrow> sg_expr list \<Rightarrow> access_state \<Rightarrow> bool" where
  "periodic_ok si P cs s \<longleftrightarrow>
     (\<forall>gv. IsGridPeriodic gv s \<longleftrightarrow>
        (\<exists>c\<in>set cs. getGridVarUsedInFuncCall si P c = Some gv \<and> getGridFuncName si P c = Inr ''get_periodic''))"

lemma collect_range_snoc: "collect_range nd (L @ [sil]) = bindE (collect_range nd L) (range_insert sil)"
  by (cases "StencilRange (int nd)") (simp_all add: collect_range_def foldE_snoc)

lemma StencilRange_copy_new: "StencilRange n = Inr sr \<Longrightarrow> StencilRange_copy sr = sr"
  by (auto simp: StencilRange_def StencilRange_copy_def bindE_eq_Inr)

lemma accesses_length:
  assumes "\<And>c. c \<in> set cs \<Longrightarrow> analysable cf si P ps nd c" "sil \<in> set (accesses_of cf si P ps cs gv)"
  shows "length sil = nd gv \<and> 1 \<le> nd gv \<and> nd gv \<le> 3"
  using assms by (fastforce simp: accesses_of_def analysable_def index_list_of_def)

lemma record_access_ok:
  assumes "\<And>d. d \<in> set (cs @ [c]) \<Longrightarrow> analysable cf si P ps nd d" "ranges_ok cf si P ps nd cs s"
    "periodic_ok si P cs s"
  shows "\<exists>s'. record_access cf si P b ps c s = Inr s' \<and> ranges_ok cf si P ps nd (cs @ [c]) s' \<and>
    periodic_ok si P (cs @ [c]) s'"
proof -
  obtain gv sil name where c: "getGridVarUsedInFuncCall si P c = Some gv"
      "call_indices cf ps (args_of c) = Inr sil" "length sil = nd gv" "length (args_of c) = nd gv"
      "1 \<le> nd gv" "nd gv \<le> 3" "getGridFuncName si P c = Inr name"
    using assms(1)[of c] by (auto simp: analysable_def)
  let ?L = "accesses_of cf si P ps cs gv"
  have len: "\<And>l. l \<in> set ?L \<Longrightarrow> length l = nd gv"
    using accesses_length[of cs cf si P ps nd] assms(1) by auto
  have sil: "index_list_of cf ps c = sil" by (simp add: index_list_of_def c(2))
  obtain sr0 where sr0: "collect_range (nd gv) ?L = Inr sr0"
    using collect_summarises[OF c(5,6) len] by blast
  have start: "(case as_ranges s gv of Some sr \<Rightarrow> Inr sr
      | None \<Rightarrow> bindE (StencilRange (int (nd gv))) (\<lambda>sr. Inr (StencilRange_copy sr))) = Inr sr0"
  proof (cases "as_ranges s gv")
    case None
    then have "?L = []" using assms(2) by (auto simp: ranges_ok_def dest: spec[of _ gv])
    then have "StencilRange (int (nd gv)) = Inr sr0"
      using sr0 by (cases "StencilRange (int (nd gv))") (simp_all add: collect_range_def)
    then show ?thesis using None StencilRange_copy_new by simp
  next
    case (Some sr)
    then have "collect_range (nd gv) ?L = Inr sr"
      using assms(2) by (auto simp: ranges_ok_def dest: spec[of _ gv])
    then show ?thesis using Some sr0 by simp
  qed
  have "\<And>l. l \<in> set (?L @ [sil]) \<Longrightarrow> length l = nd gv" using len c(3) by auto
  then obtain sr1 where sr1: "collect_range (nd gv) (?L @ [sil]) = Inr sr1"
    using collect_summarises[OF c(5,6)] by blast
  then have ins: "range_insert sil sr0 = Inr sr1" using sr0 by (simp add: collect_range_snoc)
  define s1 where "s1 = register_access gv (node_of c) (int (nd gv)) b sil (s\<lparr>as_ranges := (as_ranges s)(gv \<mapsto> sr1)\<rparr>)"
  define s' where "s' = (if name = ''get_periodic'' then SetGridPeriodic gv s1 else s1)"
  have rec: "record_access cf si P b ps c s = Inr s'"
    unfolding record_access_def c(1) option.case Let_def c(2) bindE_Inr c(4) start ins c(7)
    by (simp only: s1_def s'_def)
  have ranges: "as_ranges s' = (as_ranges s)(gv \<mapsto> sr1)"
    by (simp add: s'_def s1_def SetGridPeriodic_def register_access_def registerStencilIndex_def Let_def)
  have "ranges_ok cf si P ps nd (cs @ [c]) s'"
    unfolding ranges_ok_def
  proof
    fix v
    show "case as_ranges s' v of None \<Rightarrow> accesses_of cf si P ps (cs @ [c]) v = []
      | Some sr \<Rightarrow> accesses_of cf si P ps (cs @ [c]) v \<noteq> [] \<and>
          collect_range (nd v) (accesses_of cf si P ps (cs @ [c]) v) = Inr sr"
    proof (cases "v = gv")
      case True
      then show ?thesis using ranges sr1 by (simp add: accesses_of_snoc c(1) sil)
    next
      case False
      then have "accesses_of cf si P ps (cs @ [c]) v = accesses_of cf si P ps cs v"
        by (simp add: accesses_of_snoc c(1))
      moreover note spec[OF assms(2)[unfolded ranges_ok_def], of v]
      ultimately show ?thesis using False ranges by (cases "as_ranges s v") simp_all
    qed
  qed
  moreover have "periodic_ok si P (cs @ [c]) s'"
    using assms(3) c(1,7)
    by (auto simp: periodic_ok_def IsGridPeriodic_def isContained_list_def s'_def s1_def SetGridPeriodic_def
        register_access_def registerStencilIndex_def Let_def)
  ultimately show ?thesis using rec by blast
qed

lemma record_accesses_ok:
  assumes "\<And>c. c \<in> set cs \<Longrightarrow> analysable cf si P ps nd c" "as_ranges s = Map.empty" "as_periodic s = []"
  shows "\<exists>s'. foldE (record_access cf si P b ps) cs s = Inr s' \<and> ranges_ok cf si P ps nd cs s' \<and>
    periodic_ok si P cs s'"
  using assms(1)
proof (induction cs rule: rev_induct)
  case Nil
  then show ?case using assms(2,3)
    by (simp add: ranges_ok_def accesses_of_def periodic_ok_def IsGridPeriodic_def isContained_list_def)
next
  case (snoc c cs)
  then obtain s' where "foldE (record_access cf si P b ps) cs s = Inr s'" "ranges_ok cf si P ps nd cs s'"
      "periodic_ok si P cs s'" by auto
  then show ?case using record_access_ok[of cs c cf si P ps nd s' b] snoc.prems by (simp add: foldE_snoc)
qed

lemma getGridCalls_sound:
  assumes "getGridCalls si P t method = Inr cs" "c \<in> set cs"
  shows "getGridFuncName si P c = Inr method \<and> c \<in> set (st_calls t)"
proof -
  have "\<forall>c\<in>set cs. c \<in> set ts \<or> getGridFuncName si P c = Inr method \<and> c \<in> set ds"
    if "foldE (getGridCalls_step si P method) ds ts = Inr cs" for ds ts
    using that
  proof (induction ds arbitrary: ts)
    case (Cons d ds)
    obtain us where us: "getGridCalls_step si P method d ts = Inr us"
        "foldE (getGridCalls_step si P method) ds us = Inr cs"
      using Cons.prems by (auto simp: bindE_eq_Inr)
    have "us = ts \<or> us = ts @ [d] \<and> getGridFuncName si P d = Inr method"
      using us(1) by (auto simp: getGridCalls_step_def bindE_eq_Inr split: if_splits)
    then show ?case using Cons.IH[OF us(2)] by auto
  qed simp
  from this[of "st_calls t" "[]"] show ?thesis using assms by (simp add: getGridCalls_def)
qed

text \<open>A call whose arguments are constants and parameters of the kernel in the form the analysis is
  meant for, with a folding of constants that keeps their values.\<close>

definition affine_call ::
    "(sg_expr list \<Rightarrow> nat \<Rightarrow> sg_expr) \<Rightarrow> (sg_type \<Rightarrow> int \<Rightarrow> int) \<Rightarrow> (sg_expr \<Rightarrow> int) \<Rightarrow> (var \<Rightarrow> int) \<Rightarrow>
      sage \<Rightarrow> sg_project \<Rightarrow> var list \<Rightarrow> (var \<Rightarrow> nat) \<Rightarrow> sg_expr \<Rightarrow> bool" where
  "affine_call constantFolding cast other env si P ps nd c \<longleftrightarrow>
     (\<exists>gv. getGridVarUsedInFuncCall si P c = Some gv \<and> length (args_of c) = nd gv \<and> 1 \<le> nd gv \<and> nd gv \<le> 3) \<and>
     (\<forall>i<length (args_of c).
        affine cast other env ps (constantFolding (args_of c) i) \<and>
        var_count (constantFolding (args_of c) i) \<le> 1 \<and> folded (constantFolding (args_of c) i) \<and>
        index_value cast other env (constantFolding (args_of c) i) = index_value cast other env (args_of c ! i))"

lemma call_indices_good:
  assumes "\<And>i. i < n \<Longrightarrow> affine cast other env ps (cf as i) \<and> var_count (cf as i) \<le> 1 \<and> folded (cf as i)"
  shows "\<exists>sil. foldE (call_index cf ps as) [0..<n] [] = Inr sil \<and> length sil = n \<and>
    (\<forall>i<n. good_index cast other env ps (cf as i) (sil ! i))"
  using assms
proof (induction n)
  case (Suc n)
  then obtain sil where sil: "foldE (call_index cf ps as) [0..<n] [] = Inr sil" "length sil = n"
      "\<forall>i<n. good_index cast other env ps (cf as i) (sil ! i)" by auto
  obtain x where x: "AnalyzeStencilIndex ps (cf as n) StencilIndex0 = Inr (True, x)"
      "good_index cast other env ps (cf as n) x"
    using AnalyzeStencilIndex_good[of cast other env ps "cf as n" StencilIndex0] Suc.prems[of n] by auto
  have "call_index cf ps as n sil = Inr (sil @ [x])" using x(1) by (simp add: call_index_def)
  then show ?case
    by (intro exI[of _ "sil @ [x]"]) (use sil x(2) in \<open>auto simp: foldE_snoc nth_append less_Suc_eq\<close>)
qed simp

lemma affine_call_indices:
  assumes "affine_call cf cast other env si P ps nd c"
  shows "\<exists>sil. call_indices cf ps (args_of c) = Inr sil \<and> index_list_of cf ps c = sil \<and>
    length sil = length (args_of c) \<and>
    (\<forall>i<length (args_of c). index_value cast other env (args_of c ! i) = stands_for ps env (sil ! i))"
proof -
  obtain sil where sil: "call_indices cf ps (args_of c) = Inr sil" "length sil = length (args_of c)"
      "\<forall>i<length (args_of c). good_index cast other env ps (cf (args_of c) i) (sil ! i)"
    using call_indices_good[of "length (args_of c)" cast other env ps cf "args_of c"] assms
    unfolding call_indices_def affine_call_def by blast
  then show ?thesis using assms
    by (intro exI[of _ sil]) (simp add: index_list_of_def affine_call_def good_index_def)
qed

lemma affine_call_analysable:
  assumes "affine_call cf cast other env si P ps nd c" "getGridFuncName si P c = Inr name"
  shows "analysable cf si P ps nd c"
  using assms affine_call_indices[OF assms(1)] by (auto simp: analysable_def affine_call_def)

definition no_accesses :: access_state where
  "no_accesses = \<lparr>as_ranges = Map.empty, as_periodic = [], as_indices = Map.empty, as_attrs = Map.empty\<rparr>"

text \<open>A regular list of accesses between the ends that \<open>GetNeighborAccess\<close> reports.\<close>

lemma neighbor_ends:
  assumes "collect_range nd L = Inr sr" "1 \<le> nd" "nd \<le> 3" "\<And>sil. sil \<in> set L \<Longrightarrow> length sil = nd"
    "IsNeighborAccess sr"
  shows "\<exists>lo hi. GetNeighborAccess [] [] sr = Inr (True, lo, hi) \<and> length lo = nd \<and> length hi = nd \<and>
    (\<forall>sil\<in>set L. \<forall>i<nd. si_dim (sil ! i) = int i + 1 \<and>
       lo ! i \<le> si_offset (sil ! i) \<and> si_offset (sil ! i) \<le> hi ! i)"
proof -
  have sum: "summarises nd L sr" using collect_summarises[OF assms(2,3), of L] assms(1,4) by auto
  have L: "L \<noteq> []" "\<And>sil. sil \<in> set L \<Longrightarrow> StencilIndexRegularOrder sil nd"
    using summarises_neighbor[OF sum assms(4)] assms(5) by blast+
  have ends: "(\<exists>a. at (sr_min sr) i = [a] \<and> si_offset a = Min (offsets_at i L)) \<and>
      (\<exists>b. at (sr_max sr) i = [b] \<and> si_offset b = Max (offsets_at i L))" if "i < nd" for i
    using summarises_regular[OF sum L that] by blast
  have fin: "finite (offsets_at i L)" for i by (simp add: offsets_at_def)
  have mem: "si_offset (sil ! i) \<in> offsets_at i L" if "sil \<in> set L" for sil i
    using that by (simp add: offsets_at_def)
  show ?thesis
  proof (intro exI conjI ballI allI impI)
    show "GetNeighborAccess [] [] sr = Inr (True, map (\<lambda>i. Min (offsets_at i L)) [0..<nd],
        map (\<lambda>i. Max (offsets_at i L)) [0..<nd])"
      using GetNeighborAccess_loop[of nd sr, OF ends] assms(5) summarises_dims[OF sum]
      by (simp add: GetNeighborAccess_def)
  qed (use L(2) fin mem in \<open>auto simp: regular_iff\<close>)
qed

subsection \<open>Properties\<close>

text \<open>C25: the analysis of an index expression. A folded expression made of constants and of at
  most one parameter of the kernel, under sums, differences, signs and casts that keep the
  value, is analysed, and the index it yields stands for the value of the expression in every
  environment; the dimension is 0 exactly for a constant.
\<close>

theorem analyze_index_exact:
  assumes "affine cast other env ps e" "var_count e \<le> 1" "folded e"
  shows "\<exists>si. AnalyzeStencilIndex ps e idx = Inr (True, si) \<and>
    index_value cast other env e = stands_for ps env si \<and>
    \<bar>si_dim si\<bar> \<le> int (length ps) \<and> (si_dim si = 0) = (var_count e = 0)"
  using AnalyzeStencilIndex_good[OF assms, of idx] by (auto simp: good_index_def)

definition int_ty :: sg_type where
  "int_ty = IntegerType ''int''"

theorem analyze_index_exact_witness:
  "\<exists>si. AnalyzeStencilIndex [7, 8] (SgExp 3 int_ty (SubtractOp (SgExp 1 int_ty (IntVal 2)) (SgExp 2 int_ty (VarRefExp 8))))
      StencilIndex0 = Inr (True, si) \<and> stands_for [7, 8] (\<lambda>v. 10) si = - 8"
proof -
  let ?e = "SgExp 3 int_ty (SubtractOp (SgExp 1 int_ty (IntVal 2)) (SgExp 2 int_ty (VarRefExp 8)))"
  obtain si where "AnalyzeStencilIndex [7, 8] ?e StencilIndex0 = Inr (True, si)"
      "index_value (\<lambda>t v. v) (\<lambda>e. 0) (\<lambda>v. 10) ?e = stands_for [7, 8] (\<lambda>v. 10) si"
    using analyze_index_exact[of "\<lambda>t v. v" "\<lambda>e. 0" "\<lambda>v. 10" "[7, 8]" ?e StencilIndex0] by auto
  then show ?thesis by simp
qed

text \<open>C26: an operand that cannot be analysed. Added to a parameter of the kernel it is taken to be
  0, because the result of its analysis is not looked at: the index reported stands for the
  value of the sum only if the operand happens to be 0.
\<close>

theorem unanalysed_operand_ignored:
  assumes "AnalyzeStencilIndex ps e StencilIndex0 = Inr (False, StencilIndex0)" "v \<in> set ps"
  shows "\<exists>d. AnalyzeVarRef v ps = Some d \<and>
    AnalyzeStencilIndex ps (SgExp n ty (AddOp (SgExp m ty (VarRefExp v)) e)) idx = Inr (True, StencilIndex d 0) \<and>
    (index_value cast other env (SgExp n ty (AddOp (SgExp m ty (VarRefExp v)) e)) =
       stands_for ps env (StencilIndex d 0)) = (index_value cast other env e = 0)"
proof -
  obtain d where d: "AnalyzeVarRef v ps = Some d" "1 \<le> d" "d \<le> int (length ps)" "ps ! (nat d - 1) = v"
    using AnalyzeVarRef_in[OF assms(2)] by blast
  then show ?thesis using assms(1)
    by (intro exI[of _ d])
      (simp add: getIntValue_def binary_index_def Let_def StencilIndex0_def StencilIndex_def stands_for_def)
qed

theorem unanalysed_operand_ignored_witness:
  "AnalyzeStencilIndex [0] (SgExp 2 int_ty (AddOp (SgExp 1 int_ty (VarRefExp 0)) (SgExp 3 int_ty (VarRefExp 5))))
     StencilIndex0 = Inr (True, StencilIndex 1 0) \<and>
   index_value (\<lambda>t v. v) (\<lambda>e. 0) (\<lambda>v. 4)
     (SgExp 2 int_ty (AddOp (SgExp 1 int_ty (VarRefExp 0)) (SgExp 3 int_ty (VarRefExp 5)))) \<noteq>
   stands_for [0] (\<lambda>v. 4) (StencilIndex 1 0)"
proof -
  have "AnalyzeStencilIndex [0] (SgExp 3 int_ty (VarRefExp 5)) StencilIndex0 = Inr (False, StencilIndex0)"
    by (simp add: getIntValue_def AnalyzeVarRef_def)
  from unanalysed_operand_ignored[OF this, of 0 2 int_ty 1 StencilIndex0 "\<lambda>t v. v" "\<lambda>e. 0" "\<lambda>v. 4"]
  show ?thesis by (auto simp: AnalyzeVarRef_def)
qed

text \<open>C24: the analysis of a whole kernel. When the arguments of all its \<open>get\<close> and \<open>get_periodic\<close>
  calls have the form above, the analysis succeeds; a grid has a range exactly when a call
  reads it and is periodic exactly when a \<open>get_periodic\<close> call does; and when the range passes
  the test for neighbour accesses, every argument of every call on the grid is the running
  index of its dimension plus an offset between the two ends reported for that dimension, the
  ends from which the widths of the halos are taken.
\<close>

theorem kernel_accesses_within_range:
  assumes "getGridGetCalls si P (sf_tree k) = Inr gets" "getGridGetPeriodicCalls si P (sf_tree k) = Inr pers"
    "\<And>c. c \<in> set (gets @ pers) \<Longrightarrow> affine_call cf cast other env si P (sf_args k) nd c"
  shows "\<exists>s. AnalyzeStencilRange cf si P b k no_accesses = Inr s \<and>
    (\<forall>gv. (as_ranges s gv = None) = (\<forall>c\<in>set (gets @ pers). getGridVarUsedInFuncCall si P c \<noteq> Some gv)) \<and>
    (\<forall>gv. IsGridPeriodic gv s = (\<exists>c\<in>set pers. getGridVarUsedInFuncCall si P c = Some gv)) \<and>
    (\<forall>gv sr. as_ranges s gv = Some sr \<longrightarrow> IsNeighborAccess sr \<longrightarrow>
      (\<exists>lo hi. GetNeighborAccess [] [] sr = Inr (True, lo, hi) \<and>
        (\<forall>c\<in>set (gets @ pers). getGridVarUsedInFuncCall si P c = Some gv \<longrightarrow>
          (\<forall>i<nd gv. \<exists>off. lo ! i \<le> off \<and> off \<le> hi ! i \<and>
             index_value cast other env (args_of c ! i) = env (sf_args k ! i) + off))))"
proof -
  let ?cs = "gets @ pers" and ?ps = "sf_args k"
  have name: "getGridFuncName si P c = Inr ''get''" if "c \<in> set gets" for c
    using getGridCalls_sound[of si P "sf_tree k" "''get''" gets c] assms(1) that by (simp add: getGridGetCalls_def)
  have pname: "getGridFuncName si P c = Inr ''get_periodic''" if "c \<in> set pers" for c
    using getGridCalls_sound[of si P "sf_tree k" "''get_periodic''" pers c] assms(2) that
    by (simp add: getGridGetPeriodicCalls_def)
  have an: "analysable cf si P ?ps nd c" if "c \<in> set ?cs" for c
    using affine_call_analysable[OF assms(3)[OF that]] name pname that by auto
  obtain s where s: "foldE (record_access cf si P b ?ps) ?cs no_accesses = Inr s" "ranges_ok cf si P ?ps nd ?cs s"
      "periodic_ok si P ?cs s"
    using record_accesses_ok[of ?cs cf si P ?ps nd no_accesses b] an by (auto simp: no_accesses_def)
  have "AnalyzeStencilRange cf si P b k no_accesses = Inr s"
    using s(1) assms(1,2) by (simp add: AnalyzeStencilRange_def)
  moreover have "(as_ranges s gv = None) = (\<forall>c\<in>set ?cs. getGridVarUsedInFuncCall si P c \<noteq> Some gv)" for gv
  proof -
    have "(as_ranges s gv = None) = (accesses_of cf si P ?ps ?cs gv = [])"
      using spec[OF s(2)[unfolded ranges_ok_def], of gv] by (cases "as_ranges s gv") simp_all
    then show ?thesis by (simp add: accesses_of_def filter_empty_conv ball_Un)
  qed
  moreover have "IsGridPeriodic gv s = (\<exists>c\<in>set pers. getGridVarUsedInFuncCall si P c = Some gv)" for gv
    using s(3) name pname by (auto simp: periodic_ok_def)
  moreover have "\<exists>lo hi. GetNeighborAccess [] [] sr = Inr (True, lo, hi) \<and>
        (\<forall>c\<in>set ?cs. getGridVarUsedInFuncCall si P c = Some gv \<longrightarrow>
          (\<forall>i<nd gv. \<exists>off. lo ! i \<le> off \<and> off \<le> hi ! i \<and>
             index_value cast other env (args_of c ! i) = env (?ps ! i) + off))"
    if sr: "as_ranges s gv = Some sr" and nb: "IsNeighborAccess sr" for gv sr
  proof -
    let ?L = "accesses_of cf si P ?ps ?cs gv"
    have L: "?L \<noteq> []" "collect_range (nd gv) ?L = Inr sr"
      using spec[OF s(2)[unfolded ranges_ok_def], of gv] sr by simp_all
    have len: "length sil = nd gv \<and> 1 \<le> nd gv \<and> nd gv \<le> 3" if "sil \<in> set ?L" for sil
      using accesses_length[OF an that] by blast
    have n: "1 \<le> nd gv" "nd gv \<le> 3" using len[OF hd_in_set[OF L(1)]] by simp_all
    obtain lo hi where e: "GetNeighborAccess [] [] sr = Inr (True, lo, hi)"
        "\<And>sil i. sil \<in> set ?L \<Longrightarrow> i < nd gv \<Longrightarrow> si_dim (sil ! i) = int i + 1 \<and>
           lo ! i \<le> si_offset (sil ! i) \<and> si_offset (sil ! i) \<le> hi ! i"
      using neighbor_ends[OF L(2) n _ nb] len by blast
    have "\<exists>off. lo ! i \<le> off \<and> off \<le> hi ! i \<and> index_value cast other env (args_of c ! i) = env (?ps ! i) + off"
      if c: "c \<in> set ?cs" "getGridVarUsedInFuncCall si P c = Some gv" and i: "i < nd gv" for c i
    proof -
      let ?sil = "index_list_of cf ?ps c"
      have mem: "?sil \<in> set ?L" using c by (auto simp: accesses_of_def)
      have "length (args_of c) = nd gv" using an[OF c(1)] c(2) by (auto simp: analysable_def)
      then have "index_value cast other env (args_of c ! i) = stands_for ?ps env (?sil ! i)"
        using affine_call_indices[OF assms(3)[OF c(1)]] i by auto
      then show ?thesis using e(2)[OF mem i]
        by (intro exI[of _ "si_offset (?sil ! i)"]) (simp add: stands_for_def nat_add_distrib)
    qed
    then show ?thesis using e(1) by blast
  qed
  ultimately show ?thesis by blast
qed

text \<open>A kernel of one index parameter 0 and a grid 1 that reads the points before and after.\<close>

definition demo_get :: "node \<Rightarrow> sg_expr \<Rightarrow> sg_expr" where
  "demo_get n arg = SgExp n FloatType (FunctionCallExp
     (SgExp 100 (OtherType ''f'') (PointerDerefExp (SgExp 101 (OtherType ''p'') (ArrowExp
        (SgExp 102 (PointerType (ClassType ''__PSGrid1DFloat'')) (VarRefExp 1))
        (SgExp 103 (OtherType ''f'') (VarRefExp 10)))))) [arg])"

definition demo_stencil :: sg_function where
  "demo_stencil = \<lparr>sf_name = ''kernel'', sf_args = [0, 1],
     sf_tree = \<lparr>st_vars = [0, 1], st_assigns = [],
       st_calls = [demo_get 20 (SgExp 23 int_ty (SubtractOp (SgExp 21 int_ty (VarRefExp 0)) (SgExp 22 int_ty (IntVal 1)))),
                   demo_get 30 (SgExp 33 int_ty (AddOp (SgExp 31 int_ty (VarRefExp 0)) (SgExp 32 int_ty (IntVal 1))))],
       st_exprs = []\<rparr>\<rparr>"

definition demo_project :: sg_project where
  "demo_project = \<lparr>sp_tree = sf_tree demo_stencil,
     sp_name = (\<lambda>v. \<lparr>sn_name = (if v = 10 then ''get'' else ''v''),
        sn_type = (if v = 1 then PointerType (ClassType ''__PSGrid1DFloat'') else int_ty),
        sn_init = None, sn_is_param = True\<rparr>),
     sp_func = (\<lambda>f. demo_stencil), sp_parents = (\<lambda>n. [])\<rparr>"

lemma demo_grid_type: "isGridTypeName ''__PSGrid1DFloat''"
  by code_simp

lemma demo_get_simps [simp]:
  "getGridVarUsedInFuncCall demo_sage demo_project (demo_get n e) = Some 1"
  "getGridFuncName demo_sage demo_project (demo_get n e) = Inr ''get''"
  "args_of (demo_get n e) = [e]"
  using demo_grid_type
  by (simp_all add: getGridVarUsedInFuncCall_def getGridFuncName_def isGridTypeSpecificCall_def demo_get_def
      callee_of_def args_of_def getInitializedName_def isGridType_def demo_sage_def demo_project_def type_name_def Let_def)

theorem kernel_accesses_within_range_witness:
  "\<exists>s. AnalyzeStencilRange (\<lambda>as i. as ! i) demo_sage demo_project True demo_stencil no_accesses = Inr s \<and>
     as_ranges s 1 \<noteq> None \<and> as_ranges s 0 = None"
proof -
  let ?cs = "st_calls (sf_tree demo_stencil)"
  have calls: "getGridGetCalls demo_sage demo_project (sf_tree demo_stencil) = Inr ?cs"
      "getGridGetPeriodicCalls demo_sage demo_project (sf_tree demo_stencil) = Inr []"
    by (simp_all add: getGridGetCalls_def getGridGetPeriodicCalls_def getGridCalls_def getGridCalls_step_def
        isGridTypeSpecificCall_def demo_stencil_def)
  have "affine_call (\<lambda>as i. as ! i) (\<lambda>t v. v) (\<lambda>e. 0) (\<lambda>v. 5) demo_sage demo_project (sf_args demo_stencil) (\<lambda>v. 1) c"
    if "c \<in> set (?cs @ [])" for c
    using that by (auto simp: affine_call_def demo_stencil_def)
  from kernel_accesses_within_range[OF calls this, where b = True]
  obtain s where s: "AnalyzeStencilRange (\<lambda>as i. as ! i) demo_sage demo_project True demo_stencil no_accesses = Inr s"
      "\<And>gv. (as_ranges s gv = None) = (\<forall>c\<in>set (?cs @ []). getGridVarUsedInFuncCall demo_sage demo_project c \<noteq> Some gv)"
    by blast
  then show ?thesis by (intro exI[of _ s]) (simp add: s demo_stencil_def)
qed

end
