(* ===== verification/Range_Builder.thy ===== *)
theory Range_Builder imports Stencil_Range begin

text \<open>
  The statements the translator generates for the range of an irregular access
  (\<open>BuildPSGridRange\<close> and \<open>BuildPSOffsets\<close> of \<open>translator/translation_util.cc\<close>): assignments
  to the fields of a \<open>__PSGridRange\<close>, and an initialiser of a \<open>__PSOffsets\<close>. A generated
  statement is a value here, and \<open>run_assign\<close> is what it does when the generated program
  runs.
\<close>

subsection \<open>The statements\<close>

datatype range_end = MinOffsets | MaxOffsets

datatype range_assign =
    AssignNumDims nat
  | AssignNum range_end nat nat
  | AssignOffset range_end nat nat "int option"

text \<open>A slot of \<open>offsets\<close> that was never written is indeterminate (\<open>None\<close>).\<close>

definition offset_slot :: "ps_offsets \<Rightarrow> nat \<Rightarrow> fault + int option" where
  "offset_slot os i = (if i < length (po_offsets os) then Inr (po_offsets os ! i) else Inl OutOfBounds)"

text \<open>
  Both statements for an entry read the slot \<open>j * 2\<close>; the second one assigns to the slot
  \<open>j * 2 + 1\<close>.
\<close>

definition entry_assigns :: "range_end \<Rightarrow> nat \<Rightarrow> ps_offsets \<Rightarrow> nat \<Rightarrow> fault + range_assign list" where
  "entry_assigns end i os j =
     bindE (offset_slot os (j * 2)) (\<lambda>a.
     bindE (offset_slot os (j * 2)) (\<lambda>b.
       Inr [AssignOffset end i (j * 2) a, AssignOffset end i (j * 2 + 1) b]))"

definition end_assigns :: "range_end \<Rightarrow> nat \<Rightarrow> ps_offsets \<Rightarrow> fault + range_assign list" where
  "end_assigns end i os =
     foldE (\<lambda>j stmts. bindE (entry_assigns end i os j) (\<lambda>new. Inr (stmts @ new)))
       [0..<po_num os] [AssignNum end i (po_num os)]"

definition dim_offsets :: "ps_offsets option arr3 \<Rightarrow> nat \<Rightarrow> fault + ps_offsets" where
  "dim_offsets a i = (case at a i of None \<Rightarrow> Inl OutOfBounds | Some os \<Rightarrow> Inr os)"

definition BuildPSGridRange :: "ps_grid_range \<Rightarrow> fault + range_assign list" where
  "BuildPSGridRange v =
     foldE (\<lambda>i stmts.
         bindE (dim_offsets (pgr_min v) i) (\<lambda>min_offsets.
         bindE (end_assigns MinOffsets i min_offsets) (\<lambda>mins.
         bindE (dim_offsets (pgr_max v) i) (\<lambda>max_offsets.
         bindE (end_assigns MaxOffsets i max_offsets) (\<lambda>maxs.
           Inr (stmts @ mins @ maxs))))))
       [0..<pgr_num_dims v] [AssignNumDims (pgr_num_dims v)]"

definition BuildPSOffsets :: "ps_offsets \<Rightarrow> fault + int option list" where
  "BuildPSOffsets v =
     foldE (\<lambda>i elist.
         bindE (offset_slot v (i * 2)) (\<lambda>a.
         bindE (offset_slot v (i * 2 + 1)) (\<lambda>b. Inr (elist @ [a, b]))))
       [0..<po_num v] []"

subsection \<open>Running the statements\<close>

text \<open>The structure the statements fill: what each slot holds, if it was assigned.\<close>

record filled_range =
  fr_num_dims :: "nat option"
  fr_num :: "range_end \<Rightarrow> nat \<Rightarrow> nat option"
  fr_slot :: "range_end \<Rightarrow> nat \<Rightarrow> nat \<Rightarrow> int option"

definition run_assign :: "range_assign \<Rightarrow> filled_range \<Rightarrow> filled_range" where
  "run_assign a r =
     (case a of
        AssignNumDims n \<Rightarrow> r\<lparr>fr_num_dims := Some n\<rparr>
      | AssignNum end i n \<Rightarrow>
          r\<lparr>fr_num := (\<lambda>e k. if e = end \<and> k = i then Some n else fr_num r e k)\<rparr>
      | AssignOffset end i s v \<Rightarrow>
          r\<lparr>fr_slot := (\<lambda>e k t. if e = end \<and> k = i \<and> t = s then v else fr_slot r e k t)\<rparr>)"

definition unfilled :: filled_range where
  "unfilled = \<lparr>fr_num_dims = None, fr_num = (\<lambda>e i. None), fr_slot = (\<lambda>e i s. None)\<rparr>"

definition run_assigns :: "range_assign list \<Rightarrow> filled_range" where
  "run_assigns stmts = fold run_assign stmts unfilled"

text \<open>What a list of statements leaves in one slot: the last assignment to it.\<close>

definition slot_after :: "range_assign list \<Rightarrow> range_end \<Rightarrow> nat \<Rightarrow> nat \<Rightarrow> int option \<Rightarrow> int option" where
  "slot_after stmts e i s v0 = fold (\<lambda>a v. case a of
     AssignOffset e' i' s' w \<Rightarrow> if e' = e \<and> i' = i \<and> s' = s then w else v | _ \<Rightarrow> v) stmts v0"

lemma slot_after_append: "slot_after (xs @ ys) e i s v = slot_after ys e i s (slot_after xs e i s v)"
  by (simp add: slot_after_def)

lemma slot_after_Cons [simp]: "slot_after (a # xs) e i s v = slot_after xs e i s (case a of
     AssignOffset e' i' s' w \<Rightarrow> if e' = e \<and> i' = i \<and> s' = s then w else v | _ \<Rightarrow> v)"
  by (simp add: slot_after_def)

lemma slot_after_Nil [simp]: "slot_after [] e i s v = v"
  by (simp add: slot_after_def)

lemma fr_slot_run: "fr_slot (fold run_assign stmts r) e i s = slot_after stmts e i s (fr_slot r e i s)"
proof (induction stmts arbitrary: r)
  case (Cons a stmts)
  then show ?case by (cases a) (auto simp: run_assign_def)
qed simp

subsection \<open>The structure of a range\<close>

lemma fill_offsets_ok:
  assumes "2 * length ss \<le> 42"
  shows "\<exists>os. fill_offsets ss = Inr os \<and> po_num os = length ss \<and> length (po_offsets os) = 42 \<and>
    (\<forall>j<length ss. po_offsets os ! (j * 2) = Some (si_dim (ss ! j)) \<and>
       po_offsets os ! (j * 2 + 1) = Some (si_offset (ss ! j)))"
proof -
  let ?f = "\<lambda>(j, si) os. if j * 2 + 1 < length os
      then Inr (os[j * 2 := Some (si_dim si), j * 2 + 1 := Some (si_offset si)]) else Inl OutOfBounds"
  have "\<exists>os. foldE ?f (enumerate 0 ss) (replicate 42 None) = Inr os \<and> length os = 42 \<and>
    (\<forall>j<length ss. os ! (j * 2) = Some (si_dim (ss ! j)) \<and> os ! (j * 2 + 1) = Some (si_offset (ss ! j)))"
    using assms
  proof (induction ss rule: rev_induct)
    case (snoc x ss)
    then obtain os where os: "foldE ?f (enumerate 0 ss) (replicate 42 None) = Inr os" "length os = 42"
        "\<forall>j<length ss. os ! (j * 2) = Some (si_dim (ss ! j)) \<and> os ! (j * 2 + 1) = Some (si_offset (ss ! j))"
      by auto
    let ?n = "length ss"
    let ?os = "os[?n * 2 := Some (si_dim x), ?n * 2 + 1 := Some (si_offset x)]"
    have "foldE ?f (enumerate 0 (ss @ [x])) (replicate 42 None) = Inr ?os"
      using snoc.prems os(1,2) by (simp add: enumerate_append_eq foldE_snoc)
    moreover have "?os ! (j * 2) = Some (si_dim ((ss @ [x]) ! j)) \<and>
        ?os ! (j * 2 + 1) = Some (si_offset ((ss @ [x]) ! j))" if j: "j < length (ss @ [x])" for j
    proof (cases "j = ?n")
      case True
      then show ?thesis using snoc.prems os(2) by (simp add: nth_list_update)
    next
      case False
      then have jn: "j < ?n" using j by simp
      have "j * 2 \<noteq> Suc (?n * 2)" "?n * 2 \<noteq> Suc (j * 2)" by presburger+
      then show ?thesis using jn os(3) by (simp add: nth_append nth_list_update)
    qed
    ultimately show ?case using os(2) by (intro exI[of _ ?os]) simp
  qed simp
  then show ?thesis by (auto simp: fill_offsets_def PS_MAX_DIM_def)
qed

lemma end_assigns_slots:
  assumes "2 * po_num os \<le> length (po_offsets os)"
  shows "\<exists>st. end_assigns e i os = Inr st \<and>
    (\<forall>e' i' s v. (e', i') \<noteq> (e, i) \<longrightarrow> slot_after st e' i' s v = v) \<and>
    (\<forall>j<po_num os. \<forall>v. slot_after st e i (j * 2) v = po_offsets os ! (j * 2) \<and>
       slot_after st e i (j * 2 + 1) v = po_offsets os ! (j * 2))"
proof -
  let ?f = "\<lambda>j stmts. bindE (entry_assigns e i os j) (\<lambda>new. Inr (stmts @ new))"
  have "\<exists>st. foldE ?f [0..<n] [AssignNum e i (po_num os)] = Inr st \<and>
    (\<forall>e' i' s v. (e', i') \<noteq> (e, i) \<longrightarrow> slot_after st e' i' s v = v) \<and>
    (\<forall>j<n. \<forall>v. slot_after st e i (j * 2) v = po_offsets os ! (j * 2) \<and>
       slot_after st e i (j * 2 + 1) v = po_offsets os ! (j * 2))"
    if "2 * n \<le> length (po_offsets os)" for n
    using that
  proof (induction n)
    case (Suc n)
    then obtain st where st: "foldE ?f [0..<n] [AssignNum e i (po_num os)] = Inr st"
        "\<forall>e' i' s v. (e', i') \<noteq> (e, i) \<longrightarrow> slot_after st e' i' s v = v"
        "\<forall>j<n. \<forall>v. slot_after st e i (j * 2) v = po_offsets os ! (j * 2) \<and>
           slot_after st e i (j * 2 + 1) v = po_offsets os ! (j * 2)" by auto
    let ?a = "po_offsets os ! (n * 2)"
    let ?new = "[AssignOffset e i (n * 2) ?a, AssignOffset e i (n * 2 + 1) ?a]"
    have "foldE ?f [0..<Suc n] [AssignNum e i (po_num os)] = Inr (st @ ?new)"
      using Suc.prems st(1) by (simp add: foldE_snoc entry_assigns_def offset_slot_def)
    moreover have "slot_after (st @ ?new) e' i' s v = v" if "(e', i') \<noteq> (e, i)" for e' i' s v
      using that st(2) by (auto simp: slot_after_append)
    moreover have "slot_after (st @ ?new) e i (j * 2) v = po_offsets os ! (j * 2) \<and>
        slot_after (st @ ?new) e i (j * 2 + 1) v = po_offsets os ! (j * 2)" if "j < Suc n" for j v
    proof -
      have "n * 2 \<noteq> Suc (j * 2)" "j * 2 \<noteq> Suc (n * 2)" by presburger+
      then show ?thesis using that st(3) by (cases "j = n") (auto simp: slot_after_append)
    qed
    ultimately show ?case by blast
  qed simp
  from this[of "po_num os"] show ?thesis using assms by (simp add: end_assigns_def)
qed

lemma range_structure_loop:
  assumes "k \<le> 3" "\<And>i. i < k \<Longrightarrow> length (at (sr_min sr) i) \<le> 21 \<and> length (at (sr_max sr) i) \<le> 21"
  shows "\<exists>gr. foldE (\<lambda>i gr.
         bindE (fill_offsets (at (sr_min sr) i)) (\<lambda>mn.
         bindE (fill_offsets (at (sr_max sr) i)) (\<lambda>mx.
           Inr (gr\<lparr>pgr_min := upd (pgr_min gr) i (Some mn), pgr_max := upd (pgr_max gr) i (Some mx)\<rparr>))))
       [0..<k] gr0 = Inr gr \<and> pgr_num_dims gr = pgr_num_dims gr0 \<and>
     (\<forall>i<k. \<exists>mn mx. fill_offsets (at (sr_min sr) i) = Inr mn \<and> at (pgr_min gr) i = Some mn \<and>
        fill_offsets (at (sr_max sr) i) = Inr mx \<and> at (pgr_max gr) i = Some mx)"
  using assms
proof (induction k)
  case (Suc k)
  obtain gr where gr: "foldE (\<lambda>i gr.
         bindE (fill_offsets (at (sr_min sr) i)) (\<lambda>mn.
         bindE (fill_offsets (at (sr_max sr) i)) (\<lambda>mx.
           Inr (gr\<lparr>pgr_min := upd (pgr_min gr) i (Some mn), pgr_max := upd (pgr_max gr) i (Some mx)\<rparr>))))
       [0..<k] gr0 = Inr gr" "pgr_num_dims gr = pgr_num_dims gr0"
      "\<forall>i<k. \<exists>mn mx. fill_offsets (at (sr_min sr) i) = Inr mn \<and> at (pgr_min gr) i = Some mn \<and>
        fill_offsets (at (sr_max sr) i) = Inr mx \<and> at (pgr_max gr) i = Some mx"
    using Suc.IH Suc.prems by auto
  obtain mn mx where m: "fill_offsets (at (sr_min sr) k) = Inr mn" "fill_offsets (at (sr_max sr) k) = Inr mx"
    using fill_offsets_ok[of "at (sr_min sr) k"] fill_offsets_ok[of "at (sr_max sr) k"] Suc.prems(2)[of k] by auto
  have k: "k < 3" using Suc.prems(1) by simp
  show ?case
    by (intro exI[of _ "gr\<lparr>pgr_min := upd (pgr_min gr) k (Some mn), pgr_max := upd (pgr_max gr) k (Some mx)\<rparr>"])
      (use gr m k in \<open>simp add: foldE_snoc at_upd less_Suc_eq\<close>)
qed simp

definition end_of :: "range_end \<Rightarrow> ps_grid_range \<Rightarrow> ps_offsets option arr3" where
  "end_of e v = (case e of MinOffsets \<Rightarrow> pgr_min v | MaxOffsets \<Rightarrow> pgr_max v)"

lemma BuildPSGridRange_slots:
  assumes "\<And>i e. i < pgr_num_dims v \<Longrightarrow> \<exists>os. at (end_of e v) i = Some os \<and> 2 * po_num os \<le> length (po_offsets os)"
  shows "\<exists>st. BuildPSGridRange v = Inr st \<and>
    (\<forall>i<pgr_num_dims v. \<forall>e os. at (end_of e v) i = Some os \<longrightarrow> (\<forall>j<po_num os.
       slot_after st e i (j * 2) None = po_offsets os ! (j * 2) \<and>
       slot_after st e i (j * 2 + 1) None = po_offsets os ! (j * 2)))"
proof -
  let ?f = "\<lambda>i stmts.
         bindE (dim_offsets (pgr_min v) i) (\<lambda>min_offsets.
         bindE (end_assigns MinOffsets i min_offsets) (\<lambda>mins.
         bindE (dim_offsets (pgr_max v) i) (\<lambda>max_offsets.
         bindE (end_assigns MaxOffsets i max_offsets) (\<lambda>maxs.
           Inr (stmts @ mins @ maxs)))))"
  have "\<exists>st. foldE ?f [0..<k] [AssignNumDims (pgr_num_dims v)] = Inr st \<and>
    (\<forall>i<k. \<forall>e os. at (end_of e v) i = Some os \<longrightarrow> (\<forall>j<po_num os.
       slot_after st e i (j * 2) None = po_offsets os ! (j * 2) \<and>
       slot_after st e i (j * 2 + 1) None = po_offsets os ! (j * 2)))" if "k \<le> pgr_num_dims v" for k
    using that
  proof (induction k)
    case (Suc k)
    then obtain st where st: "foldE ?f [0..<k] [AssignNumDims (pgr_num_dims v)] = Inr st"
        "\<forall>i<k. \<forall>e os. at (end_of e v) i = Some os \<longrightarrow> (\<forall>j<po_num os.
           slot_after st e i (j * 2) None = po_offsets os ! (j * 2) \<and>
           slot_after st e i (j * 2 + 1) None = po_offsets os ! (j * 2))" by auto
    obtain mn mx where m: "at (pgr_min v) k = Some mn" "2 * po_num mn \<le> length (po_offsets mn)"
        "at (pgr_max v) k = Some mx" "2 * po_num mx \<le> length (po_offsets mx)"
      using assms[of k MinOffsets] assms[of k MaxOffsets] Suc.prems by (auto simp: end_of_def)
    obtain a where a: "end_assigns MinOffsets k mn = Inr a"
        "\<And>e' i' s w. (e', i') \<noteq> (MinOffsets, k) \<Longrightarrow> slot_after a e' i' s w = w"
        "\<And>j w. j < po_num mn \<Longrightarrow> slot_after a MinOffsets k (j * 2) w = po_offsets mn ! (j * 2) \<and>
           slot_after a MinOffsets k (j * 2 + 1) w = po_offsets mn ! (j * 2)"
      using end_assigns_slots[OF m(2), of MinOffsets k] by blast
    obtain b where b: "end_assigns MaxOffsets k mx = Inr b"
        "\<And>e' i' s w. (e', i') \<noteq> (MaxOffsets, k) \<Longrightarrow> slot_after b e' i' s w = w"
        "\<And>j w. j < po_num mx \<Longrightarrow> slot_after b MaxOffsets k (j * 2) w = po_offsets mx ! (j * 2) \<and>
           slot_after b MaxOffsets k (j * 2 + 1) w = po_offsets mx ! (j * 2)"
      using end_assigns_slots[OF m(4), of MaxOffsets k] by blast
    have d: "dim_offsets (pgr_min v) k = Inr mn" "dim_offsets (pgr_max v) k = Inr mx"
      by (simp_all add: dim_offsets_def m(1,3))
    have run: "foldE ?f [0..<Suc k] [AssignNumDims (pgr_num_dims v)] = Inr (st @ a @ b)"
      by (simp add: foldE_snoc st(1) d a(1) b(1))
    have "slot_after (st @ a @ b) e i (j * 2) None = po_offsets os ! (j * 2) \<and>
        slot_after (st @ a @ b) e i (j * 2 + 1) None = po_offsets os ! (j * 2)"
      if "i < Suc k" "at (end_of e v) i = Some os" "j < po_num os" for i e os j
    proof (cases "i = k")
      case True
      then show ?thesis using that m a(2,3) b(2,3)
        by (cases e) (auto simp: end_of_def slot_after_append)
    next
      case False
      then show ?thesis using that st(2) a(2) b(2) by (auto simp: slot_after_append)
    qed
    then show ?case using run by blast
  qed simp
  from this[of "pgr_num_dims v"] show ?thesis by (simp add: BuildPSGridRange_def)
qed

text \<open>C27: the structure generated for an irregular access. In the structure the generated program
  fills, the slot of each offset holds the dimension of the index once more, for the least
  and the greatest indices alike, so the offsets of the range are lost.
\<close>

theorem generated_range_loses_offsets:
  assumes "1 \<le> sr_num_dims sr" "sr_num_dims sr \<le> 3"
    "\<And>i. i < sr_num_dims sr \<Longrightarrow> length (at (sr_min sr) i) \<le> 21 \<and> length (at (sr_max sr) i) \<le> 21"
  shows "\<exists>gr stmts. range_structure sr = Inr gr \<and> BuildPSGridRange gr = Inr stmts \<and>
    (\<forall>i<sr_num_dims sr.
       (\<forall>j<length (at (sr_min sr) i).
          fr_slot (run_assigns stmts) MinOffsets i (j * 2) = Some (si_dim (at (sr_min sr) i ! j)) \<and>
          fr_slot (run_assigns stmts) MinOffsets i (j * 2 + 1) = Some (si_dim (at (sr_min sr) i ! j))) \<and>
       (\<forall>j<length (at (sr_max sr) i).
          fr_slot (run_assigns stmts) MaxOffsets i (j * 2) = Some (si_dim (at (sr_max sr) i ! j)) \<and>
          fr_slot (run_assigns stmts) MaxOffsets i (j * 2 + 1) = Some (si_dim (at (sr_max sr) i ! j))))"
proof -
  let ?n = "sr_num_dims sr"
  obtain gr where gr: "range_structure sr = Inr gr" "pgr_num_dims gr = ?n"
      "\<forall>i<?n. \<exists>mn mx. fill_offsets (at (sr_min sr) i) = Inr mn \<and> at (pgr_min gr) i = Some mn \<and>
        fill_offsets (at (sr_max sr) i) = Inr mx \<and> at (pgr_max gr) i = Some mx"
    using range_structure_loop[OF assms(2,3)] unfolding range_structure_def by fastforce
  have filled: "(\<exists>os. at (pgr_min gr) i = Some os \<and> po_num os = length (at (sr_min sr) i) \<and> length (po_offsets os) = 42 \<and>
        (\<forall>j<length (at (sr_min sr) i). po_offsets os ! (j * 2) = Some (si_dim (at (sr_min sr) i ! j)))) \<and>
      (\<exists>os. at (pgr_max gr) i = Some os \<and> po_num os = length (at (sr_max sr) i) \<and> length (po_offsets os) = 42 \<and>
        (\<forall>j<length (at (sr_max sr) i). po_offsets os ! (j * 2) = Some (si_dim (at (sr_max sr) i ! j))))"
    if i: "i < ?n" for i
    using gr(3) i fill_offsets_ok[of "at (sr_min sr) i"] fill_offsets_ok[of "at (sr_max sr) i"] assms(3)[OF i]
    by fastforce
  have "\<exists>os. at (end_of e gr) i = Some os \<and> 2 * po_num os \<le> length (po_offsets os)"
    if i: "i < pgr_num_dims gr" for i e
    using filled[of i] i assms(3)[of i] gr(2) by (cases e) (auto simp: end_of_def)
  then obtain st where st: "BuildPSGridRange gr = Inr st"
      "\<And>i e os j. i < pgr_num_dims gr \<Longrightarrow> at (end_of e gr) i = Some os \<Longrightarrow> j < po_num os \<Longrightarrow>
       slot_after st e i (j * 2) None = po_offsets os ! (j * 2) \<and>
       slot_after st e i (j * 2 + 1) None = po_offsets os ! (j * 2)"
    using BuildPSGridRange_slots[of gr] by blast
  have slot: "fr_slot (run_assigns st) e i s = slot_after st e i s None" for e i s
    by (simp add: run_assigns_def fr_slot_run unfilled_def)
  show ?thesis
  proof (rule exI[of _ gr], rule exI[of _ st], intro conjI gr(1) st(1) allI impI)
    fix i j assume i: "i < ?n" and j: "j < length (at (sr_min sr) i)"
    obtain os where os: "at (pgr_min gr) i = Some os" "po_num os = length (at (sr_min sr) i)"
        "po_offsets os ! (j * 2) = Some (si_dim (at (sr_min sr) i ! j))" using filled[OF i] j by blast
    show "fr_slot (run_assigns st) MinOffsets i (j * 2) = Some (si_dim (at (sr_min sr) i ! j))"
      "fr_slot (run_assigns st) MinOffsets i (j * 2 + 1) = Some (si_dim (at (sr_min sr) i ! j))"
      using st(2)[of i MinOffsets os j] i j os gr(2) by (simp_all add: slot end_of_def)
  next
    fix i j assume i: "i < ?n" and j: "j < length (at (sr_max sr) i)"
    obtain os where os: "at (pgr_max gr) i = Some os" "po_num os = length (at (sr_max sr) i)"
        "po_offsets os ! (j * 2) = Some (si_dim (at (sr_max sr) i ! j))" using filled[OF i] j by blast
    show "fr_slot (run_assigns st) MaxOffsets i (j * 2) = Some (si_dim (at (sr_max sr) i ! j))"
      "fr_slot (run_assigns st) MaxOffsets i (j * 2 + 1) = Some (si_dim (at (sr_max sr) i ! j))"
      using st(2)[of i MaxOffsets os j] i j os gr(2) by (simp_all add: slot end_of_def)
  qed
qed

text \<open>A range with one index of dimension 1 and offset 5.\<close>

theorem generated_range_loses_offsets_witness:
  "\<exists>gr stmts. range_structure \<lparr>sr_min = upd (arr_Set []) 0 [StencilIndex 1 5], sr_max = upd (arr_Set []) 0 [StencilIndex 1 5],
       sr_all = [], sr_num_dims = 1, sr_diagonal = False\<rparr> = Inr gr \<and> BuildPSGridRange gr = Inr stmts \<and>
     fr_slot (run_assigns stmts) MinOffsets 0 1 = Some 1"
proof -
  let ?sr = "\<lparr>sr_min = upd (arr_Set []) 0 [StencilIndex 1 5], sr_max = upd (arr_Set []) 0 [StencilIndex 1 5],
       sr_all = [], sr_num_dims = 1, sr_diagonal = False\<rparr>"
  have "length (at (sr_min ?sr) i) \<le> 21 \<and> length (at (sr_max ?sr) i) \<le> 21" if "i < sr_num_dims ?sr" for i
    using that by (simp add: at_upd)
  from generated_range_loses_offsets[of ?sr, OF _ _ this]
  show ?thesis by (auto simp: at_upd StencilIndex_def dest: spec[of _ 0])
qed

text \<open>the initialiser built by \<open>BuildPSOffsets\<close>, which reads both slots of an entry: it lists
  the dimension and the offset of every index.
\<close>

theorem built_offsets_complete:
  assumes "2 * length ss \<le> 42"
  shows "\<exists>os. fill_offsets ss = Inr os \<and>
    BuildPSOffsets os = Inr (concat (map (\<lambda>si. [Some (si_dim si), Some (si_offset si)]) ss))"
proof -
  obtain os where os: "fill_offsets ss = Inr os" "po_num os = length ss" "length (po_offsets os) = 42"
      "\<forall>j<length ss. po_offsets os ! (j * 2) = Some (si_dim (ss ! j)) \<and>
         po_offsets os ! (j * 2 + 1) = Some (si_offset (ss ! j))"
    using fill_offsets_ok[OF assms] by blast
  let ?f = "\<lambda>i elist. bindE (offset_slot os (i * 2)) (\<lambda>a.
      bindE (offset_slot os (i * 2 + 1)) (\<lambda>b. Inr (elist @ [a, b])))"
  have "foldE ?f [0..<k] [] = Inr (concat (map (\<lambda>si. [Some (si_dim si), Some (si_offset si)]) (take k ss)))"
    if "k \<le> length ss" for k
    using that
  proof (induction k)
    case (Suc k)
    have "offset_slot os (k * 2) = Inr (Some (si_dim (ss ! k)))" "offset_slot os (k * 2 + 1) = Inr (Some (si_offset (ss ! k)))"
      using os(3,4) Suc.prems assms by (simp_all add: offset_slot_def)
    then show ?case using Suc by (simp add: foldE_snoc take_Suc_conv_app_nth)
  qed simp
  from this[of "length ss"] show ?thesis using os(1,2) by (simp add: BuildPSOffsets_def)
qed

end
