(* ===== verification/Fixpoint.thy ===== *)
theory Fixpoint imports Prelude begin

text \<open>
  The loop of the translator's analyses: sweep over a list of syntax nodes, note whether any
  of them changed the result, and repeat until none does
  (\<open>while (changed) { changed = false; ... changed |= f(node, result); }\<close>). Such a loop need
  not stop, so its value is an option. The locale \<open>growing\<close> is the contract that the
  handlers of the nodes keep: a handler only adds facts, what it adds is monotone in the
  facts known, and it reports a change exactly when it added something. Under the contract
  the loop stops and has computed the least set of facts closed under all handlers.
\<close>

definition sweep_step ::
    "('x \<Rightarrow> 's \<Rightarrow> fault + (bool \<times> 's)) \<Rightarrow> 'x \<Rightarrow> bool \<times> 's \<Rightarrow> fault + (bool \<times> 's)" where
  "sweep_step f x = (\<lambda>(changed, s). bindE (f x s) (\<lambda>(c, s). Inr (changed \<or> c, s)))"

definition sweep :: "('x \<Rightarrow> 's \<Rightarrow> fault + (bool \<times> 's)) \<Rightarrow> 'x list \<Rightarrow> 's \<Rightarrow> fault + (bool \<times> 's)" where
  "sweep f xs s = foldE (sweep_step f) xs (False, s)"

partial_function (option) until_stable :: "('s \<Rightarrow> fault + (bool \<times> 's)) \<Rightarrow> 's \<Rightarrow> (fault + 's) option" where
  "until_stable body s =
     (case body s of
        Inl e \<Rightarrow> Some (Inl e)
      | Inr r \<Rightarrow> if fst r then until_stable body (snd r) else Some (Inr (snd r)))"

lemma sweep_step_eq [simp]:
  "sweep_step f x (c, s) = bindE (f x s) (\<lambda>(d, s). Inr (c \<or> d, s))"
  by (simp add: sweep_step_def)

lemma until_stable_Inl: "body s = Inl e \<Longrightarrow> until_stable body s = Some (Inl e)"
  by (simp add: until_stable.simps)

lemma until_stable_stop: "body s = Inr (False, s') \<Longrightarrow> until_stable body s = Some (Inr s')"
  by (simp add: until_stable.simps)

lemma until_stable_again: "body s = Inr (True, s') \<Longrightarrow> until_stable body s = until_stable body s'"
  by (simp add: until_stable.simps[of body s])

text \<open>A node whose handler always faults stops the first sweep.\<close>

lemma sweep_fault:
  assumes "x \<in> set xs" "\<And>s. f x s = Inl e" "\<And>y s. (\<exists>r. f y s = Inr r) \<or> f y s = Inl e"
  shows "sweep f xs s = Inl e"
proof -
  have "foldE (sweep_step f) xs (c, s) = Inl e" for c s
    using assms(1)
  proof (induction xs arbitrary: c s)
    case (Cons y ys)
    show ?case
    proof (cases "f y s")
      case (Inl e')
      then show ?thesis using assms(3)[of y s] by simp
    next
      case (Inr r)
      then have "x \<in> set ys" using Cons.prems assms(2)[of s] by auto
      then show ?thesis using Inr Cons.IH by (cases r) simp
    qed
  qed simp
  then show ?thesis by (simp add: sweep_def)
qed

locale growing =
  fixes facts :: "'s \<Rightarrow> 'p set"
    and ok :: "'s \<Rightarrow> bool"
    and item :: "'x \<Rightarrow> bool"
    and step :: "'x \<Rightarrow> 's \<Rightarrow> fault + (bool \<times> 's)"
    and adds :: "'x \<Rightarrow> 'p set \<Rightarrow> 'p set"
  assumes step_ok: "ok s \<Longrightarrow> item x \<Longrightarrow>
      \<exists>c s'. step x s = Inr (c, s') \<and> ok s' \<and> facts s' = facts s \<union> adds x (facts s) \<and>
        (c \<longleftrightarrow> facts s' \<noteq> facts s)"
    and adds_mono: "item x \<Longrightarrow> A \<subseteq> B \<Longrightarrow> adds x A \<subseteq> adds x B"
begin

definition closed_under :: "'x list \<Rightarrow> 'p set \<Rightarrow> bool" where
  "closed_under xs A \<longleftrightarrow> (\<forall>x\<in>set xs. adds x A \<subseteq> A)"

lemma fold_step:
  assumes "ok s" "\<forall>x\<in>set xs. item x"
  shows "\<exists>c s'. foldE (sweep_step step) xs (c0, s) = Inr (c0 \<or> c, s') \<and> ok s' \<and>
    facts s \<subseteq> facts s' \<and> (c \<longleftrightarrow> facts s' \<noteq> facts s) \<and>
    (\<not> c \<longrightarrow> closed_under xs (facts s)) \<and>
    (\<forall>A. facts s \<subseteq> A \<longrightarrow> closed_under xs A \<longrightarrow> facts s' \<subseteq> A)"
  using assms
proof (induction xs arbitrary: s c0)
  case Nil
  show ?case
    by (intro exI[of _ False] exI[of _ s]) (use Nil in \<open>simp add: closed_under_def\<close>)
next
  case (Cons x xs)
  obtain c1 s1 where s1: "step x s = Inr (c1, s1)" "ok s1" "facts s1 = facts s \<union> adds x (facts s)"
      "c1 \<longleftrightarrow> facts s1 \<noteq> facts s"
    using step_ok[of s x] Cons.prems by auto
  obtain c2 s2 where s2: "foldE (sweep_step step) xs (c0 \<or> c1, s1) = Inr ((c0 \<or> c1) \<or> c2, s2)" "ok s2"
      "facts s1 \<subseteq> facts s2" "c2 \<longleftrightarrow> facts s2 \<noteq> facts s1" "\<not> c2 \<longrightarrow> closed_under xs (facts s1)"
      "\<forall>A. facts s1 \<subseteq> A \<longrightarrow> closed_under xs A \<longrightarrow> facts s2 \<subseteq> A"
    using Cons.IH[of s1 "c0 \<or> c1"] s1(2) Cons.prems(2) by auto
  show ?case
  proof (intro exI[of _ "c1 \<or> c2"] exI[of _ s2] conjI)
    show "foldE (sweep_step step) (x # xs) (c0, s) = Inr (c0 \<or> c1 \<or> c2, s2)"
      using s1(1) s2(1) by (simp add: disj_assoc)
    show "ok s2" by (rule s2(2))
    show "facts s \<subseteq> facts s2" using s1(3) s2(3) by blast
    show "(c1 \<or> c2) = (facts s2 \<noteq> facts s)" using s1(3,4) s2(3,4) by blast
    show "\<not> (c1 \<or> c2) \<longrightarrow> closed_under (x # xs) (facts s)"
    proof
      assume no: "\<not> (c1 \<or> c2)"
      then have same: "facts s1 = facts s" using s1(4) by simp
      then have "adds x (facts s) \<subseteq> facts s" using s1(3) by blast
      then show "closed_under (x # xs) (facts s)" using no same s2(5) by (simp add: closed_under_def)
    qed
    show "\<forall>A. facts s \<subseteq> A \<longrightarrow> closed_under (x # xs) A \<longrightarrow> facts s2 \<subseteq> A"
    proof (intro allI impI)
      fix A assume A: "facts s \<subseteq> A" "closed_under (x # xs) A"
      have "adds x (facts s) \<subseteq> A"
        using adds_mono[OF _ A(1), of x] Cons.prems(2) A(2) by (auto simp: closed_under_def)
      then show "facts s2 \<subseteq> A" using A s1(3) s2(6) by (auto simp: closed_under_def)
    qed
  qed
qed

lemma sweep_ok:
  assumes "ok s" "\<forall>x\<in>set xs. item x"
  shows "\<exists>c s'. sweep step xs s = Inr (c, s') \<and> ok s' \<and>
    facts s \<subseteq> facts s' \<and> (c \<longleftrightarrow> facts s' \<noteq> facts s) \<and>
    (\<not> c \<longrightarrow> closed_under xs (facts s)) \<and>
    (\<forall>A. facts s \<subseteq> A \<longrightarrow> closed_under xs A \<longrightarrow> facts s' \<subseteq> A)"
  using fold_step[OF assms, of False] by (simp add: sweep_def)

text \<open>\<open>U\<close> bounds what can ever be added.\<close>

lemma loop_least:
  assumes "ok s" "\<forall>x\<in>set xs. item x" "finite U" "facts s \<subseteq> U" "closed_under xs U"
  shows "\<exists>s'. until_stable (sweep step xs) s = Some (Inr s') \<and> ok s' \<and>
    facts s \<subseteq> facts s' \<and> closed_under xs (facts s') \<and>
    (\<forall>A. facts s \<subseteq> A \<longrightarrow> closed_under xs A \<longrightarrow> facts s' \<subseteq> A)"
  using assms(1,4)
proof (induction "card (U - facts s)" arbitrary: s rule: less_induct)
  case less
  obtain c s1 where s1: "sweep step xs s = Inr (c, s1)" "ok s1" "facts s \<subseteq> facts s1"
      "c \<longleftrightarrow> facts s1 \<noteq> facts s" "\<not> c \<longrightarrow> closed_under xs (facts s)"
      "\<forall>A. facts s \<subseteq> A \<longrightarrow> closed_under xs A \<longrightarrow> facts s1 \<subseteq> A"
    using sweep_ok[OF less.prems(1) assms(2)] by blast
  show ?case
  proof (cases c)
    case False
    then have "facts s1 = facts s" "closed_under xs (facts s)" using s1(4,5) by auto
    then show ?thesis
      using False s1(1,2) until_stable_stop[of "sweep step xs" s s1] by auto
  next
    case True
    have "facts s1 \<subseteq> U" using s1(6) less.prems(2) assms(5) by blast
    moreover have "card (U - facts s1) < card (U - facts s)"
      by (rule psubset_card_mono) (use assms(3) s1(3,4) True \<open>facts s1 \<subseteq> U\<close> in auto)
    ultimately obtain s2 where s2: "until_stable (sweep step xs) s1 = Some (Inr s2)" "ok s2"
        "facts s1 \<subseteq> facts s2" "closed_under xs (facts s2)"
        "\<forall>A. facts s1 \<subseteq> A \<longrightarrow> closed_under xs A \<longrightarrow> facts s2 \<subseteq> A"
      using less.hyps s1(2) by blast
    have "until_stable (sweep step xs) s = Some (Inr s2)"
      using until_stable_again[of "sweep step xs" s s1] s1(1) True s2(1) by simp
    moreover have "facts s \<subseteq> facts s2" using s1(3) s2(3) by blast
    moreover have "\<forall>A. facts s \<subseteq> A \<longrightarrow> closed_under xs A \<longrightarrow> facts s2 \<subseteq> A"
      using s1(6) s2(5) by blast
    ultimately show ?thesis using s2(2,4) by blast
  qed
qed

text \<open>The order of the nodes does not matter: the least closed set is one.\<close>

lemma loop_unique:
  assumes "ok s" "ok t" "facts s = facts t" "set xs = set ys" "\<forall>x\<in>set xs. item x"
    "finite U" "facts s \<subseteq> U" "closed_under xs U"
  shows "\<exists>s' t'. until_stable (sweep step xs) s = Some (Inr s') \<and>
    until_stable (sweep step ys) t = Some (Inr t') \<and> facts s' = facts t'"
proof -
  have ys: "closed_under ys A = closed_under xs A" for A using assms(4) by (simp add: closed_under_def)
  obtain s' where s': "until_stable (sweep step xs) s = Some (Inr s')" "facts s \<subseteq> facts s'"
      "closed_under xs (facts s')" "\<forall>A. facts s \<subseteq> A \<longrightarrow> closed_under xs A \<longrightarrow> facts s' \<subseteq> A"
    using loop_least[OF assms(1,5,6,7,8)] by blast
  obtain t' where t': "until_stable (sweep step ys) t = Some (Inr t')" "facts t \<subseteq> facts t'"
      "closed_under xs (facts t')" "\<forall>A. facts t \<subseteq> A \<longrightarrow> closed_under xs A \<longrightarrow> facts t' \<subseteq> A"
    using loop_least[OF assms(2), of ys U] assms(3-8) ys by auto
  have "facts s' = facts t'" using s'(2-4) t'(2-4) assms(3) by (metis subset_antisym)
  then show ?thesis using s'(1) t'(1) by blast
qed

end

end
