(* ===== verification/Def_Analysis.thy ===== *)
theory Def_Analysis imports Syntax_Tree Fixpoint begin

text \<open>
  The definitions that may reach a variable (\<open>translator/def_analysis.cc\<close>). The translator
  uses it to find the calls that make the domain a variable stands for. The result maps a
  variable to the list of its definitions; \<open>NULL\<close> stands for a declaration without value.
\<close>

subsection \<open>The code\<close>

type_synonym def_map = "var \<Rightarrow> sg_expr option list option"

definition register_def :: "var \<Rightarrow> sg_expr option \<Rightarrow> def_map \<Rightarrow> bool \<times> def_map" where
  "register_def v d defMap =
     (case defMap v of
        None \<Rightarrow> (True, defMap(v \<mapsto> [d]))
      | Some el \<Rightarrow>
          if \<not> isContained_list el d then (True, defMap(v \<mapsto> el @ [d])) else (False, defMap))"

definition merge_defs :: "var \<Rightarrow> var \<Rightarrow> def_map \<Rightarrow> bool \<times> def_map" where
  "merge_defs dst_var src_var defMap =
     (case defMap src_var of
        None \<Rightarrow> (False, defMap)
      | Some srcDefs \<Rightarrow>
          fold (\<lambda>d (changed, m). let (c, m') = register_def dst_var d m in (changed \<or> c, m'))
            srcDefs (False, defMap))"

text \<open>The expression a variable is initialised with; an unknown initialiser leaves it \<open>NULL\<close>.\<close>

definition def_rhs :: "sg_initializer \<Rightarrow> sg_expr option" where
  "def_rhs i =
     (case i of
        AssignInitializer e \<Rightarrow> Some e
      | AggregateInitializer e \<Rightarrow> Some e
      | OtherInitializer \<Rightarrow> None)"

definition handleVarDecl_def :: "sg_project \<Rightarrow> var \<Rightarrow> def_map \<Rightarrow> bool \<times> def_map" where
  "handleVarDecl_def P v defMap =
     (case sn_init (sp_name P v) of
        None \<Rightarrow> register_def v None defMap
      | Some i \<Rightarrow>
          (case Option.bind (def_rhs i) getInitializedName of
             Some rhsName \<Rightarrow> merge_defs v rhsName defMap
           | None \<Rightarrow> register_def v (def_rhs i) defMap))"

datatype tree_item = DeclItem var | AssignItem sg_assign

definition item_type :: "sg_project \<Rightarrow> tree_item \<Rightarrow> sg_type" where
  "item_type P x = (case x of DeclItem v \<Rightarrow> sn_type (sp_name P v) | AssignItem a \<Rightarrow> sa_type a)"

definition items_of :: "sg_tree \<Rightarrow> tree_item list" where
  "items_of t = map DeclItem (st_vars t) @ map AssignItem (st_assigns t)"

definition var_operand :: "sg_expr \<Rightarrow> fault + var" where
  "var_operand e = (case getInitializedName e of None \<Rightarrow> Inl AssertFailed | Some v \<Rightarrow> Inr v)"

definition def_step ::
    "sg_project \<Rightarrow> sg_type list \<Rightarrow> tree_item \<Rightarrow> def_map \<Rightarrow> fault + (bool \<times> def_map)" where
  "def_step P relevant x defMap =
     (if item_type P x \<notin> set relevant then Inr (False, defMap)
      else case x of
             DeclItem v \<Rightarrow> Inr (handleVarDecl_def P v defMap)
           | AssignItem a \<Rightarrow>
               bindE (var_operand (sa_lhs a)) (\<lambda>lhsIn.
               bindE (var_operand (sa_rhs a)) (\<lambda>rhsIn.
                 Inr (merge_defs lhsIn rhsIn defMap))))"

definition findDefinitions :: "sg_project \<Rightarrow> sg_tree \<Rightarrow> sg_type list \<Rightarrow> (fault + def_map) option" where
  "findDefinitions P t relevant = until_stable (sweep (def_step P relevant) (items_of t)) Map.empty"

subsection \<open>The specification\<close>

text \<open>\<open>reaches P t relevant v d\<close>: along declarations and assignments, \<open>d\<close> may define \<open>v\<close>.\<close>

inductive reaches :: "sg_project \<Rightarrow> sg_tree \<Rightarrow> sg_type list \<Rightarrow> var \<Rightarrow> sg_expr option \<Rightarrow> bool"
  for P t relevant where
  no_value: "v \<in> set (st_vars t) \<Longrightarrow> sn_type (sp_name P v) \<in> set relevant \<Longrightarrow>
    sn_init (sp_name P v) = None \<Longrightarrow> reaches P t relevant v None"
| plain: "v \<in> set (st_vars t) \<Longrightarrow> sn_type (sp_name P v) \<in> set relevant \<Longrightarrow>
    sn_init (sp_name P v) = Some i \<Longrightarrow> Option.bind (def_rhs i) getInitializedName = None \<Longrightarrow>
    reaches P t relevant v (def_rhs i)"
| copied: "v \<in> set (st_vars t) \<Longrightarrow> sn_type (sp_name P v) \<in> set relevant \<Longrightarrow>
    sn_init (sp_name P v) = Some i \<Longrightarrow> Option.bind (def_rhs i) getInitializedName = Some w \<Longrightarrow>
    reaches P t relevant w d \<Longrightarrow> reaches P t relevant v d"
| assigned: "a \<in> set (st_assigns t) \<Longrightarrow> sa_type a \<in> set relevant \<Longrightarrow>
    getInitializedName (sa_lhs a) = Some v \<Longrightarrow> getInitializedName (sa_rhs a) = Some w \<Longrightarrow>
    reaches P t relevant w d \<Longrightarrow> reaches P t relevant v d"

subsection \<open>The handlers keep the contract of the loop\<close>

definition def_facts :: "def_map \<Rightarrow> (var \<times> sg_expr option) set" where
  "def_facts m = {(v, d). \<exists>el. m v = Some el \<and> d \<in> set el}"

definition def_map_ok :: "def_map \<Rightarrow> bool" where
  "def_map_ok m \<longleftrightarrow> (\<forall>v. m v \<noteq> Some []) \<and> (\<forall>v el. m v = Some el \<longrightarrow> distinct el)"

definition defs_at :: "(var \<times> sg_expr option) set \<Rightarrow> var \<Rightarrow> sg_expr option set" where
  "defs_at A w = {d. (w, d) \<in> A}"

definition def_adds :: "sg_project \<Rightarrow> sg_type list \<Rightarrow> tree_item \<Rightarrow>
    (var \<times> sg_expr option) set \<Rightarrow> (var \<times> sg_expr option) set" where
  "def_adds P relevant x A =
     (if item_type P x \<notin> set relevant then {}
      else case x of
        DeclItem v \<Rightarrow>
          (case sn_init (sp_name P v) of
             None \<Rightarrow> {(v, None)}
           | Some i \<Rightarrow>
               (case Option.bind (def_rhs i) getInitializedName of
                  Some w \<Rightarrow> {v} \<times> defs_at A w
                | None \<Rightarrow> {(v, def_rhs i)}))
      | AssignItem a \<Rightarrow>
          (case (getInitializedName (sa_lhs a), getInitializedName (sa_rhs a)) of
             (Some v, Some w) \<Rightarrow> {v} \<times> defs_at A w
           | _ \<Rightarrow> {}))"

definition simple_item :: "sg_project \<Rightarrow> sg_type list \<Rightarrow> tree_item \<Rightarrow> bool" where
  "simple_item P relevant x \<longleftrightarrow>
     (case x of DeclItem v \<Rightarrow> True
      | AssignItem a \<Rightarrow> sa_type a \<in> set relevant \<longrightarrow>
          getInitializedName (sa_lhs a) \<noteq> None \<and> getInitializedName (sa_rhs a) \<noteq> None)"

lemma member_iff [simp]: "isContained_list xs x \<longleftrightarrow> x \<in> set xs"
  by (simp add: isContained_list_def)

lemma register_def_ok:
  assumes "def_map_ok m" "register_def v d m = (c, m')"
  shows "def_map_ok m' \<and> def_facts m' = insert (v, d) (def_facts m) \<and> (c \<longleftrightarrow> (v, d) \<notin> def_facts m)"
  using assms
  by (auto simp: register_def_def def_map_ok_def def_facts_def split: option.splits if_splits)

lemma register_all:
  assumes "def_map_ok m" "fold (\<lambda>d (changed, m). let (c, m') = register_def v d m in (changed \<or> c, m')) ds (b, m) = (c, m')"
  shows "def_map_ok m' \<and> def_facts m' = def_facts m \<union> {v} \<times> set ds \<and>
    (c \<longleftrightarrow> b \<or> \<not> {v} \<times> set ds \<subseteq> def_facts m)"
  using assms
proof (induction ds arbitrary: b m)
  case Nil
  then show ?case by simp
next
  case (Cons d ds)
  obtain c1 m1 where r: "register_def v d m = (c1, m1)" by fastforce
  note m1 = register_def_ok[OF Cons.prems(1) r]
  have "fold (\<lambda>d (changed, m). let (c, m') = register_def v d m in (changed \<or> c, m')) ds (b \<or> c1, m1) = (c, m')"
    using Cons.prems(2) r by simp
  note IH = Cons.IH[OF conjunct1[OF m1] this]
  show ?case using IH m1 by auto
qed

lemma merge_defs_ok:
  assumes "def_map_ok m" "merge_defs v w m = (c, m')"
  shows "def_map_ok m' \<and> def_facts m' = def_facts m \<union> {v} \<times> defs_at (def_facts m) w \<and>
    (c \<longleftrightarrow> def_facts m' \<noteq> def_facts m)"
proof (cases "m w")
  case None
  then show ?thesis using assms by (auto simp: merge_defs_def defs_at_def def_facts_def)
next
  case (Some el)
  then have el: "defs_at (def_facts m) w = set el" by (auto simp: defs_at_def def_facts_def)
  have "def_map_ok m' \<and> def_facts m' = def_facts m \<union> {v} \<times> set el \<and>
      (c \<longleftrightarrow> False \<or> \<not> {v} \<times> set el \<subseteq> def_facts m)"
    by (rule register_all[OF assms(1)]) (use assms(2) Some in \<open>simp add: merge_defs_def\<close>)
  then show ?thesis unfolding el by blast
qed

lemma register_def_grows:
  assumes "def_map_ok m" "register_def v d m = (c, m')"
  shows "def_map_ok m' \<and> def_facts m' = def_facts m \<union> {(v, d)} \<and> (c \<longleftrightarrow> def_facts m' \<noteq> def_facts m)"
  using register_def_ok[OF assms] by (metis insert_absorb insert_is_Un insertI1 sup_commute)

interpretation defs: growing def_facts def_map_ok "simple_item P relevant" "def_step P relevant"
    "def_adds P relevant" for P relevant
proof
  fix m x
  assume m: "def_map_ok m" and x: "simple_item P relevant x"
  have reg: "\<exists>c s'. Inr (register_def v d m) = Inr (c, s') \<and> def_map_ok s' \<and>
      def_facts s' = def_facts m \<union> {(v, d)} \<and> c = (def_facts s' \<noteq> def_facts m)" for v d
    using register_def_grows[OF m, of v d] by (cases "register_def v d m") auto
  have mrg: "\<exists>c s'. Inr (merge_defs v w m) = Inr (c, s') \<and> def_map_ok s' \<and>
      def_facts s' = def_facts m \<union> {v} \<times> defs_at (def_facts m) w \<and> c = (def_facts s' \<noteq> def_facts m)" for v w
    using merge_defs_ok[OF m, of v w] by (cases "merge_defs v w m") auto
  show "\<exists>c s'. def_step P relevant x m = Inr (c, s') \<and> def_map_ok s' \<and>
      def_facts s' = def_facts m \<union> def_adds P relevant x (def_facts m) \<and> c = (def_facts s' \<noteq> def_facts m)"
  proof (cases "item_type P x \<in> set relevant")
    case False
    then show ?thesis using m by (intro exI[of _ False] exI[of _ m]) (simp add: def_step_def def_adds_def)
  next
    case True
    show ?thesis
    proof (cases x)
      case (DeclItem v)
      then show ?thesis using True reg mrg
        by (cases "sn_init (sp_name P v)")
          (auto simp: def_step_def def_adds_def handleVarDecl_def_def split: option.splits)
    next
      case (AssignItem a)
      then obtain v w where "getInitializedName (sa_lhs a) = Some v" "getInitializedName (sa_rhs a) = Some w"
        using x True by (auto simp: simple_item_def item_type_def)
      then show ?thesis using True AssignItem mrg[of v w]
        by (simp add: def_step_def def_adds_def var_operand_def)
    qed
  qed
next
  fix x and A B :: "(var \<times> sg_expr option) set"
  assume "A \<subseteq> B"
  then show "def_adds P relevant x A \<subseteq> def_adds P relevant x B"
    by (auto simp: def_adds_def defs_at_def split: tree_item.splits option.splits)
qed

subsection \<open>What the analysis computes\<close>

definition possible :: "sg_project \<Rightarrow> sg_tree \<Rightarrow> (var \<times> sg_expr option) set" where
  "possible P t =
     (set (st_vars t) \<union> {v. \<exists>a\<in>set (st_assigns t). getInitializedName (sa_lhs a) = Some v}) \<times>
     ({None} \<union> {d. \<exists>v\<in>set (st_vars t). \<exists>i. sn_init (sp_name P v) = Some i \<and> d = def_rhs i})"

lemma finite_possible: "finite (possible P t)"
proof -
  have "{v. \<exists>a\<in>set (st_assigns t). getInitializedName (sa_lhs a) = Some v} \<subseteq>
      (\<lambda>a. the (getInitializedName (sa_lhs a))) ` set (st_assigns t)"
    by force
  then have "finite {v. \<exists>a\<in>set (st_assigns t). getInitializedName (sa_lhs a) = Some v}"
    by (rule finite_subset) simp
  moreover have "{d. \<exists>v\<in>set (st_vars t). \<exists>i. sn_init (sp_name P v) = Some i \<and> d = def_rhs i} \<subseteq>
      (\<lambda>v. def_rhs (the (sn_init (sp_name P v)))) ` set (st_vars t)"
    by force
  then have "finite {d. \<exists>v\<in>set (st_vars t). \<exists>i. sn_init (sp_name P v) = Some i \<and> d = def_rhs i}"
    by (rule finite_subset) simp
  ultimately show ?thesis by (simp add: possible_def)
qed

lemma possible_closed: "defs.closed_under P relevant (items_of t) (possible P t)"
  unfolding defs.closed_under_def items_of_def
  by (auto simp: def_adds_def defs_at_def possible_def
      split: option.splits if_splits tree_item.splits)

lemma reaches_closed: "defs.closed_under P relevant (items_of t) {(v, d). reaches P t relevant v d}"
  unfolding defs.closed_under_def items_of_def
  by (auto simp: def_adds_def defs_at_def item_type_def split: option.splits if_splits
      intro: reaches.intros)

lemma reaches_least:
  assumes "reaches P t relevant v d" "defs.closed_under P relevant (items_of t) A"
  shows "(v, d) \<in> A"
  using assms(1)
proof induction
  case (no_value v)
  then have "(v, None) \<in> def_adds P relevant (DeclItem v) A"
    by (simp add: def_adds_def item_type_def)
  then show ?case using assms(2) no_value(1) by (auto simp: defs.closed_under_def items_of_def)
next
  case (plain v i)
  then have "(v, def_rhs i) \<in> def_adds P relevant (DeclItem v) A"
    by (simp add: def_adds_def item_type_def)
  then show ?case using assms(2) plain(1) by (auto simp: defs.closed_under_def items_of_def)
next
  case (copied v i w d)
  then have "(v, d) \<in> def_adds P relevant (DeclItem v) A"
    by (simp add: def_adds_def item_type_def defs_at_def)
  then show ?case using assms(2) copied(1) by (auto simp: defs.closed_under_def items_of_def)
next
  case (assigned a v w d)
  then have "(v, d) \<in> def_adds P relevant (AssignItem a) A"
    by (simp add: def_adds_def item_type_def defs_at_def)
  then show ?case using assms(2) assigned(1) by (auto simp: defs.closed_under_def items_of_def)
qed

definition copies_only :: "sg_tree \<Rightarrow> sg_type list \<Rightarrow> bool" where
  "copies_only t relevant \<longleftrightarrow>
     (\<forall>a\<in>set (st_assigns t). sa_type a \<in> set relevant \<longrightarrow>
        getInitializedName (sa_lhs a) \<noteq> None \<and> getInitializedName (sa_rhs a) \<noteq> None)"

lemma copies_only_items: "copies_only t relevant \<longleftrightarrow> (\<forall>x\<in>set (items_of t). simple_item P relevant x)"
  by (auto simp: copies_only_def items_of_def simple_item_def ball_Un)

text \<open>Three domain variables: one made by a call, a copy of it, and one assigned from the copy.\<close>

definition demo_new :: sg_expr where
  "demo_new = SgExp 10 (TypedefType ''PSDomain1D'' (OtherType ''d''))
     (FunctionCallExp (SgExp 9 (OtherType ''f'') (FunctionRefExp 0)) [])"

definition demo_domains :: sg_project where
  "demo_domains =
     (let ty = TypedefType ''PSDomain1D'' (OtherType ''d'') in
      \<lparr>sp_tree = \<lparr>st_vars = [2, 1, 0],
          st_assigns = [\<lparr>sa_type = ty, sa_lhs = SgExp 12 ty (VarRefExp 2), sa_rhs = SgExp 13 ty (VarRefExp 1)\<rparr>],
          st_calls = [demo_new], st_exprs = []\<rparr>,
       sp_name = (\<lambda>v. \<lparr>sn_name = ''d'', sn_type = ty,
          sn_init = (if v = 0 then Some (AssignInitializer demo_new)
                     else if v = 1 then Some (AssignInitializer (SgExp 11 ty (VarRefExp 0)))
                     else None), sn_is_param = False\<rparr>),
       sp_func = (\<lambda>f. \<lparr>sf_name = ''PSDomain1DNew'', sf_args = [],
          sf_tree = \<lparr>st_vars = [], st_assigns = [], st_calls = [], st_exprs = []\<rparr>\<rparr>),
       sp_parents = (\<lambda>n. [])\<rparr>)"

text \<open>C29: the loop that collects the definitions of variables. Where every assignment of the
  relevant types copies a variable to a variable, the loop ends and the result lists for each
  variable exactly the definitions that reach it along declarations and assignments, each of
  them once, whatever the order in which the nodes are visited.
\<close>

theorem findDefinitions_exact:
  assumes "copies_only t relevant"
  shows "\<exists>m. findDefinitions P t relevant = Some (Inr m) \<and>
    (\<forall>v d. (\<exists>el. m v = Some el \<and> d \<in> set el) \<longleftrightarrow> reaches P t relevant v d) \<and>
    (\<forall>v el. m v = Some el \<longrightarrow> distinct el)"
proof -
  have items: "\<forall>x\<in>set (items_of t). simple_item P relevant x"
    using assms copies_only_items[of t relevant P] by blast
  have e: "def_map_ok Map.empty" "def_facts Map.empty = {}" by (simp_all add: def_map_ok_def def_facts_def)
  obtain m where m: "findDefinitions P t relevant = Some (Inr m)" "def_map_ok m"
      "defs.closed_under P relevant (items_of t) (def_facts m)"
      "\<forall>A. defs.closed_under P relevant (items_of t) A \<longrightarrow> def_facts m \<subseteq> A"
    using defs.loop_least[OF e(1) items finite_possible[of P t] _ possible_closed] e(2)
    by (auto simp: findDefinitions_def)
  have "def_facts m = {(v, d). reaches P t relevant v d}"
    using m(3,4) reaches_closed reaches_least by blast
  then have "(\<exists>el. m v = Some el \<and> d \<in> set el) \<longleftrightarrow> reaches P t relevant v d" for v d
    unfolding def_facts_def by blast
  then show ?thesis using m(1,2) by (auto simp: def_map_ok_def)
qed

theorem findDefinitions_exact_witness:
  "\<exists>m. findDefinitions demo_domains (sp_tree demo_domains) [TypedefType ''PSDomain1D'' (OtherType ''d'')] = Some (Inr m) \<and>
     (\<exists>el. m 2 = Some el \<and> Some demo_new \<in> set el)"
proof -
  let ?ty = "TypedefType ''PSDomain1D'' (OtherType ''d'')"
  have "copies_only (sp_tree demo_domains) [?ty]"
    by (simp add: copies_only_def demo_domains_def getInitializedName_def Let_def)
  then obtain m where m: "findDefinitions demo_domains (sp_tree demo_domains) [?ty] = Some (Inr m)"
      "\<And>v d. (\<exists>el. m v = Some el \<and> d \<in> set el) \<longleftrightarrow> reaches demo_domains (sp_tree demo_domains) [?ty] v d"
    using findDefinitions_exact[of "sp_tree demo_domains" "[?ty]" demo_domains] by auto
  have "reaches demo_domains (sp_tree demo_domains) [?ty] 0 (Some demo_new)"
    using reaches.plain[of 0 "sp_tree demo_domains" demo_domains "[?ty]" "AssignInitializer demo_new"]
    by (simp add: demo_domains_def demo_new_def Let_def def_rhs_def getInitializedName_def)
  then have "reaches demo_domains (sp_tree demo_domains) [?ty] 1 (Some demo_new)"
    using reaches.copied[of 1 "sp_tree demo_domains" demo_domains "[?ty]"
        "AssignInitializer (SgExp 11 ?ty (VarRefExp 0))" 0 "Some demo_new"]
    by (simp add: demo_domains_def Let_def def_rhs_def getInitializedName_def)
  then have "reaches demo_domains (sp_tree demo_domains) [?ty] 2 (Some demo_new)"
    using reaches.assigned[of "\<lparr>sa_type = ?ty, sa_lhs = SgExp 12 ?ty (VarRefExp 2), sa_rhs = SgExp 13 ?ty (VarRefExp 1)\<rparr>"
        "sp_tree demo_domains" "[?ty]" 2 1 demo_domains "Some demo_new"]
    by (simp add: demo_domains_def Let_def getInitializedName_def)
  then show ?thesis using m by blast
qed

text \<open>C30: the same loop ends on every tree. It stops with a failed assertion exactly when some
  assignment of a relevant type is not a copy of a variable to a variable.
\<close>

theorem findDefinitions_ends:
  "findDefinitions P t relevant \<noteq> None \<and>
   (findDefinitions P t relevant = Some (Inl AssertFailed)) = (\<not> copies_only t relevant)"
proof (cases "copies_only t relevant")
  case True
  then have items: "\<forall>x\<in>set (items_of t). simple_item P relevant x"
    using copies_only_items[of t relevant P] by blast
  have e: "def_map_ok Map.empty" "def_facts Map.empty = {}" by (simp_all add: def_map_ok_def def_facts_def)
  show ?thesis
    using defs.loop_least[OF e(1) items finite_possible[of P t] _ possible_closed] e(2) True
    by (auto simp: findDefinitions_def)
next
  case False
  then obtain x where x: "x \<in> set (items_of t)" "\<not> simple_item P relevant x"
    using copies_only_items[of t relevant P] by blast
  have "sweep (def_step P relevant) (items_of t) Map.empty = Inl AssertFailed"
  proof (rule sweep_fault[OF x(1)])
    show "def_step P relevant x m = Inl AssertFailed" for m
      using x(2) by (auto simp: simple_item_def def_step_def item_type_def var_operand_def
          split: tree_item.splits option.splits)
    show "(\<exists>r. def_step P relevant y m = Inr r) \<or> def_step P relevant y m = Inl AssertFailed" for y m
      by (auto simp: def_step_def var_operand_def split: tree_item.splits option.splits)
  qed
  then have "findDefinitions P t relevant = Some (Inl AssertFailed)"
    unfolding findDefinitions_def by (rule until_stable_Inl)
  then show ?thesis using False by simp
qed

end
