(* ===== verification/Alias_Analysis.thy ===== *)
theory Alias_Analysis imports Def_Analysis begin

text \<open>
  The graph of the aliases of grid variables in one function
  (\<open>translator/alias_analysis.h\<close>, \<open>alias_analysis.cc\<close>), from which the translator finds the
  parameter that a grid variable of a kernel stands for. A node of the graph is a variable or
  one of the three origins without a variable. The map from variables to nodes is an
  association list; the sets of nodes are lists without repetition. The number each node
  carries for printing is left out.
\<close>

subsection \<open>The code\<close>

datatype alias_node = VarNode var | FuncParamNode | NullInitNode | UnknownOriginNode

record alias_var =
  av_origins :: "alias_node list"
  av_aliases :: "var list"

type_synonym alias_graph = "(var \<times> alias_var) list"

definition set_insert :: "'a \<Rightarrow> 'a list \<Rightarrow> bool \<times> 'a list" where
  "set_insert x xs = (if x \<in> set xs then (False, xs) else (True, xs @ [x]))"

fun update_node :: "var \<Rightarrow> (alias_var \<Rightarrow> bool \<times> alias_var) \<Rightarrow> alias_graph \<Rightarrow> bool \<times> alias_graph" where
  "update_node v f [] = (False, [])"
| "update_node v f ((w, n) # G) =
     (if w = v then let (c, n') = f n in (c, (w, n') # G)
      else let (c, G') = update_node v f G in (c, (w, n) # G'))"

definition addOrigin :: "var \<Rightarrow> alias_node \<Rightarrow> alias_graph \<Rightarrow> bool \<times> alias_graph" where
  "addOrigin v origin G = update_node v (\<lambda>n.
     let (c, os) = set_insert origin (av_origins n) in (c, n\<lparr>av_origins := os\<rparr>)) G"

definition node_addAlias :: "var \<Rightarrow> var \<Rightarrow> alias_graph \<Rightarrow> bool \<times> alias_graph" where
  "node_addAlias v alias G = update_node v (\<lambda>n.
     let (c, as) = set_insert alias (av_aliases n) in (c, n\<lparr>av_aliases := as\<rparr>)) G"

definition addAlias :: "var \<Rightarrow> alias_node \<Rightarrow> alias_graph \<Rightarrow> bool \<times> alias_graph" where
  "addAlias alias origin G =
     (let (c1, G1) = addOrigin alias origin G
      in case origin of
           VarNode v \<Rightarrow> (let (c2, G2) = node_addAlias v alias G1 in (c1 \<or> c2, G2))
         | _ \<Rightarrow> (c1, G1))"

definition findAliasVar :: "var \<Rightarrow> alias_graph \<Rightarrow> alias_var option" where
  "findAliasVar v G = map_of G v"

definition createOrFindAliasVar :: "var \<Rightarrow> alias_graph \<Rightarrow> alias_graph" where
  "createOrFindAliasVar v G =
     (case map_of G v of
        None \<Rightarrow> G @ [(v, \<lparr>av_origins = [], av_aliases = []\<rparr>)]
      | Some _ \<Rightarrow> G)"

text \<open>Only an assignment initialiser has an operand; of any other the right-hand side stays \<open>NULL\<close>.\<close>

definition assign_operand :: "sg_initializer \<Rightarrow> sg_expr option" where
  "assign_operand i = (case i of AssignInitializer e \<Rightarrow> Some e | _ \<Rightarrow> None)"

definition handleVarDecl_alias :: "sg_project \<Rightarrow> var \<Rightarrow> alias_graph \<Rightarrow> bool \<times> alias_graph" where
  "handleVarDecl_alias P v G =
     (let G = createOrFindAliasVar v G
      in case sn_init (sp_name P v) of
           None \<Rightarrow> addOrigin v (if isFuncParam P v then FuncParamNode else NullInitNode) G
         | Some i \<Rightarrow>
             (case Option.bind (assign_operand i) getInitializedName of
                Some rhsV \<Rightarrow> addOrigin v (VarNode rhsV) (createOrFindAliasVar rhsV G)
              | None \<Rightarrow> addOrigin v UnknownOriginNode G))"

definition handleVarAssignment :: "sg_expr \<Rightarrow> sg_expr \<Rightarrow> alias_graph \<Rightarrow> fault + (bool \<times> alias_graph)" where
  "handleVarAssignment lhs rhs G =
     bindE (var_operand lhs) (\<lambda>lhsIn.
     bindE (var_operand rhs) (\<lambda>rhsIn.
       Inr (addAlias lhsIn (VarNode rhsIn) (createOrFindAliasVar rhsIn (createOrFindAliasVar lhsIn G)))))"

definition alias_step ::
    "sg_project \<Rightarrow> sg_type list \<Rightarrow> tree_item \<Rightarrow> alias_graph \<Rightarrow> fault + (bool \<times> alias_graph)" where
  "alias_step P relevantTypes x G =
     (if item_type P x \<notin> set relevantTypes then Inr (False, G)
      else case x of
             DeclItem v \<Rightarrow> Inr (handleVarDecl_alias P v G)
           | AssignItem a \<Rightarrow> handleVarAssignment (sa_lhs a) (sa_rhs a) G)"

definition AliasGraph :: "sg_project \<Rightarrow> sg_tree \<Rightarrow> sg_type list \<Rightarrow> (fault + alias_graph) option" where
  "AliasGraph P t relevantTypes = until_stable (sweep (alias_step P relevantTypes) (items_of t)) []"

definition hasMultipleOriginVar :: "alias_graph \<Rightarrow> bool" where
  "hasMultipleOriginVar G \<longleftrightarrow> list_ex (\<lambda>(v, n). length (av_origins n) > 1) G"

definition hasNullInitVar :: "alias_graph \<Rightarrow> bool" where
  "hasNullInitVar G \<longleftrightarrow> list_ex (\<lambda>(v, n). list_ex (\<lambda>node. node = NullInitNode) (av_origins n)) G"

text \<open>
  \<open>findOriginalVar\<close> and \<open>findRoot\<close> follow the only origin as long as it is a variable. Both
  assert that there is exactly one; on a cycle they do not return.
\<close>

partial_function (option) follow_origins :: "alias_graph \<Rightarrow> var \<Rightarrow> (fault + (var \<times> alias_node)) option" where
  "follow_origins G v =
     (case map_of G v of
        None \<Rightarrow> Some (Inl AssertFailed)
      | Some n \<Rightarrow>
          (case av_origins n of
             [] \<Rightarrow> Some (Inl AssertFailed)
           | origin # others \<Rightarrow>
               if others \<noteq> [] then Some (Inl AssertFailed)
               else (case origin of
                       VarNode w \<Rightarrow> follow_origins G w
                     | FuncParamNode \<Rightarrow> Some (Inr (v, origin))
                     | NullInitNode \<Rightarrow> Some (Inr (v, origin))
                     | UnknownOriginNode \<Rightarrow> Some (Inr (v, origin)))))"

definition findOriginalVar :: "alias_graph \<Rightarrow> var \<Rightarrow> (fault + var) option" where
  "findOriginalVar G v = map_option (\<lambda>r. bindE r (\<lambda>(u, origin). Inr u)) (follow_origins G v)"

definition findRoot :: "alias_graph \<Rightarrow> var \<Rightarrow> (fault + alias_node) option" where
  "findRoot G v = map_option (\<lambda>r. bindE r (\<lambda>(u, origin). Inr origin)) (follow_origins G v)"

subsection \<open>The specification\<close>

definition decl_origin :: "sg_project \<Rightarrow> var \<Rightarrow> alias_node" where
  "decl_origin P v =
     (case sn_init (sp_name P v) of
        None \<Rightarrow> if isFuncParam P v then FuncParamNode else NullInitNode
      | Some i \<Rightarrow>
          (case Option.bind (assign_operand i) getInitializedName of
             Some w \<Rightarrow> VarNode w
           | None \<Rightarrow> UnknownOriginNode))"

definition declares :: "sg_project \<Rightarrow> sg_tree \<Rightarrow> sg_type list \<Rightarrow> var \<Rightarrow> bool" where
  "declares P t relevant v \<longleftrightarrow> v \<in> set (st_vars t) \<and> sn_type (sp_name P v) \<in> set relevant"

definition assigns :: "sg_tree \<Rightarrow> sg_type list \<Rightarrow> var \<Rightarrow> var \<Rightarrow> bool" where
  "assigns t relevant v w \<longleftrightarrow>
     (\<exists>a\<in>set (st_assigns t). sa_type a \<in> set relevant \<and>
        getInitializedName (sa_lhs a) = Some v \<and> getInitializedName (sa_rhs a) = Some w)"

definition origin_of :: "sg_project \<Rightarrow> sg_tree \<Rightarrow> sg_type list \<Rightarrow> var \<Rightarrow> alias_node \<Rightarrow> bool" where
  "origin_of P t relevant v origin \<longleftrightarrow>
     declares P t relevant v \<and> origin = decl_origin P v \<or>
     (\<exists>w. assigns t relevant v w \<and> origin = VarNode w)"

subsection \<open>Nodes and facts\<close>

datatype alias_fact = Origin var alias_node | Alias var var

definition alias_facts :: "alias_graph \<Rightarrow> alias_fact set" where
  "alias_facts G = {f. case f of
       Origin v x \<Rightarrow> (\<exists>n. map_of G v = Some n \<and> x \<in> set (av_origins n))
     | Alias v w \<Rightarrow> (\<exists>n. map_of G v = Some n \<and> w \<in> set (av_aliases n))}"

lemma alias_facts_simps [simp]:
  "Origin v x \<in> alias_facts G \<longleftrightarrow> (\<exists>n. map_of G v = Some n \<and> x \<in> set (av_origins n))"
  "Alias v w \<in> alias_facts G \<longleftrightarrow> (\<exists>n. map_of G v = Some n \<and> w \<in> set (av_aliases n))"
  by (simp_all add: alias_facts_def)

lemma alias_facts_eqI:
  assumes "\<And>v x. Origin v x \<in> A \<longleftrightarrow> Origin v x \<in> B" "\<And>v w. Alias v w \<in> A \<longleftrightarrow> Alias v w \<in> B"
  shows "A = B"
proof (rule set_eqI)
  show "f \<in> A \<longleftrightarrow> f \<in> B" for f using assms by (cases f) auto
qed

definition alias_ok :: "alias_graph \<Rightarrow> bool" where
  "alias_ok G \<longleftrightarrow> distinct (map fst G) \<and> (\<forall>v n. map_of G v = Some n \<longrightarrow> distinct (av_origins n)) \<and>
     (\<forall>v w n. map_of G v = Some n \<longrightarrow> VarNode w \<in> set (av_origins n) \<longrightarrow> map_of G w \<noteq> None)"

definition item_facts :: "sg_project \<Rightarrow> sg_type list \<Rightarrow> tree_item \<Rightarrow> alias_fact set" where
  "item_facts P relevant x =
     (if item_type P x \<notin> set relevant then {}
      else case x of
        DeclItem v \<Rightarrow> {Origin v (decl_origin P v)}
      | AssignItem a \<Rightarrow>
          (case (getInitializedName (sa_lhs a), getInitializedName (sa_rhs a)) of
             (Some v, Some w) \<Rightarrow> {Origin v (VarNode w), Alias w v}
           | _ \<Rightarrow> {}))"

lemma map_of_update_node:
  "map_of (snd (update_node v f G)) u =
     (if u = v then map_option (\<lambda>n. snd (f n)) (map_of G v) else map_of G u)"
  by (induction G) (auto split: prod.splits)

lemma fst_update_node:
  "fst (update_node v f G) = (case map_of G v of None \<Rightarrow> False | Some n \<Rightarrow> fst (f n))"
  by (induction G) (auto split: prod.splits)

lemma keys_update_node [simp]: "map fst (snd (update_node v f G)) = map fst G"
  by (induction G) (auto split: prod.splits)

lemma map_of_createOrFind:
  "map_of (createOrFindAliasVar v G) u =
     (if u = v \<and> map_of G v = None then Some \<lparr>av_origins = [], av_aliases = []\<rparr> else map_of G u)"
  by (auto simp: createOrFindAliasVar_def map_add_def split: option.splits)

lemma createOrFind_ok:
  assumes "alias_ok G"
  shows "alias_ok (createOrFindAliasVar v G)" "alias_facts (createOrFindAliasVar v G) = alias_facts G"
    "map_of (createOrFindAliasVar v G) v \<noteq> None"
proof -
  have "distinct (map fst (createOrFindAliasVar v G))"
    using assms by (auto simp: alias_ok_def createOrFindAliasVar_def map_of_eq_None_iff split: option.splits)
  then show "alias_ok (createOrFindAliasVar v G)"
    using assms by (auto simp: alias_ok_def map_of_createOrFind split: if_splits)
  show "alias_facts (createOrFindAliasVar v G) = alias_facts G"
    by (rule alias_facts_eqI) (auto simp: map_of_createOrFind)
  show "map_of (createOrFindAliasVar v G) v \<noteq> None" by (simp add: map_of_createOrFind)
qed

lemma addOrigin_ok:
  assumes "alias_ok G" "map_of G v \<noteq> None" "\<And>w. x = VarNode w \<Longrightarrow> map_of G w \<noteq> None"
    "addOrigin v x G = (c, G')"
  shows "alias_ok G' \<and> alias_facts G' = insert (Origin v x) (alias_facts G) \<and>
    (c \<longleftrightarrow> Origin v x \<notin> alias_facts G) \<and> (\<forall>u. map_of G' u = None \<longleftrightarrow> map_of G u = None)"
proof -
  obtain n where n: "map_of G v = Some n" using assms(2) by auto
  let ?f = "\<lambda>n. let (c, os) = set_insert x (av_origins n) in (c, n\<lparr>av_origins := os\<rparr>)"
  have G': "G' = snd (update_node v ?f G)" "c = fst (update_node v ?f G)"
    using assms(4) by (simp_all add: addOrigin_def)
  have mo: "map_of G' u = (if u = v then Some (snd (?f n)) else map_of G u)" for u
    unfolding G' map_of_update_node using n by simp
  have f: "set (av_origins (snd (?f n))) = insert x (set (av_origins n))" "av_aliases (snd (?f n)) = av_aliases n"
    "distinct (av_origins n) \<Longrightarrow> distinct (av_origins (snd (?f n)))" "fst (?f n) \<longleftrightarrow> x \<notin> set (av_origins n)"
    by (auto simp: set_insert_def)
  have "distinct (map fst G')" unfolding G' using assms(1) by (simp add: alias_ok_def)
  moreover have "distinct (av_origins m)" if "map_of G' u = Some m" for u m
    using that assms(1) f(3) n unfolding mo alias_ok_def by (metis option.inject)
  moreover have "map_of G' w \<noteq> None" if "map_of G' u = Some m" "VarNode w \<in> set (av_origins m)" for u w m
  proof -
    have "map_of G w \<noteq> None"
    proof (cases "u = v")
      case True
      then have "VarNode w \<in> insert x (set (av_origins n))" using that f(1) unfolding mo by auto
      then show ?thesis using assms(1,3) n by (auto simp: alias_ok_def)
    next
      case False
      then show ?thesis using that assms(1) by (auto simp: mo alias_ok_def)
    qed
    then show ?thesis using mo by auto
  qed
  ultimately have "alias_ok G'" by (auto simp: alias_ok_def)
  moreover have "alias_facts G' = insert (Origin v x) (alias_facts G)"
    by (rule alias_facts_eqI) (use n f(1,2) in \<open>auto simp: mo\<close>)
  moreover have "c \<longleftrightarrow> Origin v x \<notin> alias_facts G"
    using n f(4) by (simp add: G'(2) fst_update_node)
  moreover have "map_of G' u = None \<longleftrightarrow> map_of G u = None" for u using n by (simp add: mo)
  ultimately show ?thesis by blast
qed

lemma node_addAlias_ok:
  assumes "alias_ok G" "map_of G v \<noteq> None" "node_addAlias v w G = (c, G')"
  shows "alias_ok G' \<and> alias_facts G' = insert (Alias v w) (alias_facts G) \<and>
    (c \<longleftrightarrow> Alias v w \<notin> alias_facts G)"
proof -
  obtain n where n: "map_of G v = Some n" using assms(2) by auto
  let ?f = "\<lambda>n. let (c, as) = set_insert w (av_aliases n) in (c, n\<lparr>av_aliases := as\<rparr>)"
  have G': "G' = snd (update_node v ?f G)" "c = fst (update_node v ?f G)"
    using assms(3) by (simp_all add: node_addAlias_def)
  have mo: "map_of G' u = (if u = v then Some (snd (?f n)) else map_of G u)" for u
    unfolding G' map_of_update_node using n by simp
  have f: "set (av_aliases (snd (?f n))) = insert w (set (av_aliases n))" "av_origins (snd (?f n)) = av_origins n"
    "fst (?f n) \<longleftrightarrow> w \<notin> set (av_aliases n)"
    by (auto simp: set_insert_def)
  have "distinct (map fst G')" unfolding G' using assms(1) by (simp add: alias_ok_def)
  moreover have old: "\<exists>m'. map_of G u = Some m' \<and> av_origins m = av_origins m'" if "map_of G' u = Some m" for u m
    using that n f(2) by (auto simp: mo split: if_splits)
  moreover have "map_of G' u = None \<longleftrightarrow> map_of G u = None" for u using n by (simp add: mo)
  ultimately have "alias_ok G'" using assms(1) unfolding alias_ok_def by metis
  moreover have "alias_facts G' = insert (Alias v w) (alias_facts G)"
    by (rule alias_facts_eqI) (use n f(1,2) in \<open>auto simp: mo\<close>)
  moreover have "c \<longleftrightarrow> Alias v w \<notin> alias_facts G"
    using n f(3) by (simp add: G'(2) fst_update_node)
  ultimately show ?thesis by blast
qed

lemma grows_insert:
  assumes "F' = insert x F" "c \<longleftrightarrow> x \<notin> F"
  shows "F' = F \<union> {x} \<and> (c \<longleftrightarrow> F' \<noteq> F)"
  using assms by (metis insert_absorb insert_is_Un insertI1 sup_commute)

lemma handleVarDecl_alias_ok:
  assumes "alias_ok G" "handleVarDecl_alias P v G = (c, G')"
  shows "alias_ok G' \<and> alias_facts G' = alias_facts G \<union> {Origin v (decl_origin P v)} \<and>
    (c \<longleftrightarrow> alias_facts G' \<noteq> alias_facts G)"
proof -
  define x where "x = decl_origin P v"
  obtain H where H: "alias_ok H" "alias_facts H = alias_facts G" "map_of H v \<noteq> None"
      "\<And>w. x = VarNode w \<Longrightarrow> map_of H w \<noteq> None" "addOrigin v x H = (c, G')"
  proof (cases "\<exists>w. x = VarNode w")
    case False
    then have "addOrigin v x (createOrFindAliasVar v G) = (c, G')"
      using assms(2) by (auto simp: x_def decl_origin_def handleVarDecl_alias_def Let_def split: option.splits if_splits)
    then show thesis using that createOrFind_ok[OF assms(1), of v] False by blast
  next
    case True
    then obtain w where w: "x = VarNode w" by blast
    then have "addOrigin v x (createOrFindAliasVar w (createOrFindAliasVar v G)) = (c, G')"
      using assms(2) by (auto simp: x_def decl_origin_def handleVarDecl_alias_def Let_def split: option.splits if_splits)
    moreover note c1 = createOrFind_ok[OF assms(1), of v]
    moreover note createOrFind_ok[OF c1(1), of w]
    moreover have "map_of (createOrFindAliasVar w (createOrFindAliasVar v G)) v \<noteq> None"
      using c1(3) by (simp add: map_of_createOrFind)
    ultimately show thesis using that w by simp
  qed
  note a = addOrigin_ok[OF H(1,3,4,5)]
  have "alias_facts G' = alias_facts H \<union> {Origin v x} \<and> (c \<longleftrightarrow> alias_facts G' \<noteq> alias_facts H)"
    by (rule grows_insert) (use a in blast)+
  then show ?thesis using a H(2) x_def by simp
qed

lemma addAlias_ok:
  assumes "alias_ok G" "map_of G v \<noteq> None" "map_of G w \<noteq> None" "addAlias v (VarNode w) G = (c, G')"
  shows "alias_ok G' \<and> alias_facts G' = alias_facts G \<union> {Origin v (VarNode w), Alias w v} \<and>
    (c \<longleftrightarrow> alias_facts G' \<noteq> alias_facts G)"
proof -
  obtain c1 G1 where 1: "addOrigin v (VarNode w) G = (c1, G1)" by fastforce
  obtain c2 G2 where 2: "node_addAlias w v G1 = (c2, G2)" by fastforce
  have res: "c = (c1 \<or> c2)" "G' = G2" using assms(4) 1 2 by (simp_all add: addAlias_def)
  have a1: "alias_ok G1 \<and> alias_facts G1 = insert (Origin v (VarNode w)) (alias_facts G) \<and>
      (c1 \<longleftrightarrow> Origin v (VarNode w) \<notin> alias_facts G) \<and> (\<forall>u. map_of G1 u = None \<longleftrightarrow> map_of G u = None)"
    by (rule addOrigin_ok[OF assms(1,2) _ 1]) (use assms(3) in simp)
  have a2: "alias_ok G2 \<and> alias_facts G2 = insert (Alias w v) (alias_facts G1) \<and>
      (c2 \<longleftrightarrow> Alias w v \<notin> alias_facts G1)"
  proof (rule node_addAlias_ok[OF _ _ 2])
    show "alias_ok G1" using a1 by blast
    show "map_of G1 w \<noteq> None" using a1 assms(3) by simp
  qed
  have g1: "alias_facts G1 = alias_facts G \<union> {Origin v (VarNode w)}" "c1 \<longleftrightarrow> alias_facts G1 \<noteq> alias_facts G"
    using grows_insert[of "alias_facts G1" _ "alias_facts G" c1] a1 by blast+
  have g2: "alias_facts G2 = alias_facts G1 \<union> {Alias w v}" "c2 \<longleftrightarrow> alias_facts G2 \<noteq> alias_facts G1"
    using grows_insert[of "alias_facts G2" _ "alias_facts G1" c2] a2 by blast+
  have "alias_facts G2 \<noteq> alias_facts G \<longleftrightarrow> c1 \<or> c2"
    using g1 g2 by blast
  then show ?thesis using a2 g1(1) g2(1) res by auto
qed

interpretation aliases: growing alias_facts alias_ok "simple_item P relevant" "alias_step P relevant"
    "\<lambda>x A. item_facts P relevant x" for P relevant
proof
  fix G x
  assume G: "alias_ok G" and x: "simple_item P relevant x"
  show "\<exists>c s'. alias_step P relevant x G = Inr (c, s') \<and> alias_ok s' \<and>
      alias_facts s' = alias_facts G \<union> item_facts P relevant x \<and> c = (alias_facts s' \<noteq> alias_facts G)"
  proof (cases "item_type P x \<in> set relevant")
    case False
    then show ?thesis using G by (intro exI[of _ False] exI[of _ G]) (simp add: alias_step_def item_facts_def)
  next
    case True
    show ?thesis
    proof (cases x)
      case (DeclItem v)
      obtain c G' where r: "handleVarDecl_alias P v G = (c, G')" by fastforce
      then show ?thesis using True DeclItem handleVarDecl_alias_ok[OF G r]
        by (intro exI[of _ c] exI[of _ G']) (simp add: alias_step_def item_facts_def)
    next
      case (AssignItem a)
      then obtain v w where vw: "getInitializedName (sa_lhs a) = Some v" "getInitializedName (sa_rhs a) = Some w"
        using x True by (auto simp: simple_item_def item_type_def)
      let ?H = "createOrFindAliasVar w (createOrFindAliasVar v G)"
      note c1 = createOrFind_ok[OF G, of v]
      note c2 = createOrFind_ok[OF c1(1), of w]
      have v: "map_of ?H v \<noteq> None" using c1(3) by (simp add: map_of_createOrFind)
      obtain c G' where r: "addAlias v (VarNode w) ?H = (c, G')" by fastforce
      have "alias_step P relevant x G = Inr (c, G')"
        using True AssignItem vw r by (simp add: alias_step_def handleVarAssignment_def var_operand_def)
      then show ?thesis using True AssignItem vw addAlias_ok[OF c2(1) v c2(3) r] c1(2) c2(2)
        by (intro exI[of _ c] exI[of _ G']) (simp add: item_facts_def)
    qed
  qed
qed simp

subsection \<open>What the graph holds\<close>

definition all_facts :: "sg_project \<Rightarrow> sg_tree \<Rightarrow> sg_type list \<Rightarrow> alias_fact set" where
  "all_facts P t relevant = (\<Union>x\<in>set (items_of t). item_facts P relevant x)"

lemma all_facts_iff:
  "f \<in> all_facts P t relevant \<longleftrightarrow> (\<exists>v\<in>set (st_vars t). f \<in> item_facts P relevant (DeclItem v)) \<or>
     (\<exists>a\<in>set (st_assigns t). f \<in> item_facts P relevant (AssignItem a))"
  by (auto simp: all_facts_def items_of_def)

lemma item_facts_iff:
  "f \<in> item_facts P relevant (DeclItem v) \<longleftrightarrow>
     sn_type (sp_name P v) \<in> set relevant \<and> f = Origin v (decl_origin P v)"
  "f \<in> item_facts P relevant (AssignItem a) \<longleftrightarrow> sa_type a \<in> set relevant \<and>
     (\<exists>v w. getInitializedName (sa_lhs a) = Some v \<and> getInitializedName (sa_rhs a) = Some w \<and>
       (f = Origin v (VarNode w) \<or> f = Alias w v))"
  by (auto simp: item_facts_def item_type_def split: option.splits)

lemma all_facts_mem:
  "Origin v x \<in> all_facts P t relevant \<longleftrightarrow> origin_of P t relevant v x"
  "Alias w v \<in> all_facts P t relevant \<longleftrightarrow> assigns t relevant v w"
  unfolding all_facts_iff item_facts_iff origin_of_def declares_def assigns_def by blast+

lemma AliasGraph_facts:
  assumes "copies_only t relevant"
  shows "\<exists>G. AliasGraph P t relevant = Some (Inr G) \<and> alias_ok G \<and> alias_facts G = all_facts P t relevant"
proof -
  have items: "\<forall>x\<in>set (items_of t). simple_item P relevant x"
    using assms copies_only_items[of t relevant P] by blast
  have fin: "finite (all_facts P t relevant)"
    unfolding all_facts_def
    by (auto simp: item_facts_def split: tree_item.splits option.splits)
  have e: "alias_ok []" "alias_facts [] = {}"
    by (simp add: alias_ok_def) (rule alias_facts_eqI, simp_all)
  have cl: "aliases.closed_under P relevant (items_of t) A \<longleftrightarrow> all_facts P t relevant \<subseteq> A" for A
    by (auto simp: aliases.closed_under_def all_facts_def)
  show ?thesis
    using aliases.loop_least[OF e(1) items fin] e(2) cl by (fastforce simp: AliasGraph_def)
qed

lemma graph_origins:
  assumes "alias_ok G" "alias_facts G = all_facts P t relevant"
  shows "origin_of P t relevant v x \<longleftrightarrow> (\<exists>n. map_of G v = Some n \<and> x \<in> set (av_origins n))"
  using assms(2) all_facts_mem(1)[of v x P t relevant] by (metis alias_facts_simps(1))

lemma length_gt_1: "distinct xs \<Longrightarrow> length xs > 1 \<longleftrightarrow> (\<exists>x\<in>set xs. \<exists>y\<in>set xs. x \<noteq> y)"
  by (cases xs; cases "tl xs") auto

lemma map_of_mem: "distinct (map fst G) \<Longrightarrow> (v, n) \<in> set G \<longleftrightarrow> map_of G v = Some n"
  by (metis map_of_is_SomeI map_of_SomeD)

lemma graph_tests:
  assumes "alias_ok G" "alias_facts G = all_facts P t relevant"
  shows "hasMultipleOriginVar G \<longleftrightarrow>
      (\<exists>v x y. x \<noteq> y \<and> origin_of P t relevant v x \<and> origin_of P t relevant v y)"
    and "hasNullInitVar G \<longleftrightarrow> (\<exists>v. origin_of P t relevant v NullInitNode)"
proof -
  have d: "distinct (map fst G)" "\<And>v n. map_of G v = Some n \<Longrightarrow> distinct (av_origins n)"
    using assms(1) by (auto simp: alias_ok_def)
  have "hasMultipleOriginVar G \<longleftrightarrow> (\<exists>v n. map_of G v = Some n \<and> length (av_origins n) > 1)"
    unfolding hasMultipleOriginVar_def list_ex_iff using map_of_mem[OF d(1)] by auto
  also have "\<dots> \<longleftrightarrow> (\<exists>v n. map_of G v = Some n \<and> (\<exists>x\<in>set (av_origins n). \<exists>y\<in>set (av_origins n). x \<noteq> y))"
    using length_gt_1 d(2) by metis
  also have "\<dots> \<longleftrightarrow> (\<exists>v x y. x \<noteq> y \<and> origin_of P t relevant v x \<and> origin_of P t relevant v y)"
    unfolding graph_origins[OF assms] by fastforce
  finally show "hasMultipleOriginVar G \<longleftrightarrow>
      (\<exists>v x y. x \<noteq> y \<and> origin_of P t relevant v x \<and> origin_of P t relevant v y)" .
  have "hasNullInitVar G \<longleftrightarrow> (\<exists>v n. map_of G v = Some n \<and> NullInitNode \<in> set (av_origins n))"
    unfolding hasNullInitVar_def list_ex_iff using map_of_mem[OF d(1)] by auto
  then show "hasNullInitVar G \<longleftrightarrow> (\<exists>v. origin_of P t relevant v NullInitNode)"
    unfolding graph_origins[OF assms] .
qed

lemma single_origin:
  assumes "alias_ok G" "alias_facts G = all_facts P t relevant" "\<not> hasMultipleOriginVar G"
    "origin_of P t relevant v x"
  shows "\<exists>n. map_of G v = Some n \<and> av_origins n = [x]"
proof -
  obtain n where n: "map_of G v = Some n" "x \<in> set (av_origins n)"
    using graph_origins[OF assms(1,2)] assms(4) by blast
  have "\<not> length (av_origins n) > 1"
    using assms(3) map_of_SomeD[OF n(1)] by (auto simp: hasMultipleOriginVar_def list_ex_iff)
  then have "av_origins n = [x]" using n(2) by (cases "av_origins n"; cases "tl (av_origins n)") auto
  then show ?thesis using n(1) by blast
qed

lemma follow_step:
  assumes "map_of G v = Some n" "av_origins n = [VarNode w]"
  shows "follow_origins G v = follow_origins G w"
  using assms by (simp add: follow_origins.simps[of G v])

lemma follow_stop:
  assumes "map_of G v = Some n" "av_origins n = [x]" "\<nexists>w. x = VarNode w"
  shows "follow_origins G v = Some (Inr (v, x))"
  using assms by (cases x) (simp_all add: follow_origins.simps[of G v])

text \<open>Following origins never leaves a set of variables whose only origins lie in it.\<close>

lemma follow_trapped:
  assumes "\<forall>u\<in>S. \<exists>n w. map_of G u = Some n \<and> av_origins n = [VarNode w] \<and> w \<in> S" "v \<in> S"
  shows "follow_origins G v = None"
proof (rule ccontr)
  assume "follow_origins G v \<noteq> None"
  then obtain r where ret: "follow_origins G v = Some r" by blast
  have "G = G \<longrightarrow> v \<in> S \<longrightarrow> False"
  proof (rule follow_origins.raw_induct[where P = "\<lambda>H u r. H = G \<longrightarrow> u \<in> S \<longrightarrow> False", OF _ ret], intro impI)
    fix follow H u r
    assume IH: "\<And>H u r. follow H u = Some r \<Longrightarrow> H = G \<longrightarrow> u \<in> S \<longrightarrow> False"
      and eq: "(case map_of H u of None \<Rightarrow> Some (Inl AssertFailed)
        | Some n \<Rightarrow> (case av_origins n of [] \<Rightarrow> Some (Inl AssertFailed)
            | origin # others \<Rightarrow>
                if others \<noteq> [] then Some (Inl AssertFailed)
                else (case origin of VarNode w \<Rightarrow> follow H w
                  | FuncParamNode \<Rightarrow> Some (Inr (u, origin)) | NullInitNode \<Rightarrow> Some (Inr (u, origin))
                  | UnknownOriginNode \<Rightarrow> Some (Inr (u, origin))))) = Some r"
      and "H = G" "u \<in> S"
    then obtain n w where "map_of H u = Some n" "av_origins n = [VarNode w]" "w \<in> S" using assms(1) by blast
    then show False using eq IH[of H w r] \<open>H = G\<close> by simp
  qed
  then show False using assms(2) by simp
qed

definition copy_edge :: "sg_project \<Rightarrow> sg_tree \<Rightarrow> sg_type list \<Rightarrow> var \<Rightarrow> var \<Rightarrow> bool" where
  "copy_edge P t relevant v w \<longleftrightarrow> origin_of P t relevant v (VarNode w)"

lemma follow_found:
  assumes G: "alias_ok G" "alias_facts G = all_facts P t relevant" "\<not> hasMultipleOriginVar G"
    and edges: "\<And>u w. copy_edge P t relevant u w \<Longrightarrow> declares P t relevant w \<and> rank w < (rank u :: nat)"
    and v: "declares P t relevant v"
  shows "\<exists>u. follow_origins G v = Some (Inr (u, decl_origin P u)) \<and> (copy_edge P t relevant)\<^sup>*\<^sup>* v u \<and>
    (\<forall>w. decl_origin P u \<noteq> VarNode w)"
  using v
proof (induction "rank v" arbitrary: v rule: less_induct)
  case less
  have o: "origin_of P t relevant v (decl_origin P v)" using less.prems by (simp add: origin_of_def)
  obtain n where n: "map_of G v = Some n" "av_origins n = [decl_origin P v]"
    using single_origin[OF G o] by blast
  show ?case
  proof (cases "\<exists>w. decl_origin P v = VarNode w")
    case True
    then obtain w where w: "decl_origin P v = VarNode w" by blast
    have e: "copy_edge P t relevant v w" using o w by (simp add: copy_edge_def)
    then obtain u where "follow_origins G w = Some (Inr (u, decl_origin P u))"
        "(copy_edge P t relevant)\<^sup>*\<^sup>* w u" "\<forall>w. decl_origin P u \<noteq> VarNode w"
      using less.hyps[of w] edges[OF e] by blast
    then show ?thesis using follow_step[OF n(1)] n(2) w converse_rtranclp_into_rtranclp[of "copy_edge P t relevant", OF e]
      by (intro exI[of _ u]) simp
  next
    case False
    then show ?thesis using follow_stop[OF n] by (intro exI[of _ v]) simp
  qed
qed

subsection \<open>Properties\<close>

text \<open>A kernel with a grid parameter 0, and two grid variables: 1 is a copy of 0, 2 a copy of 1.\<close>

definition grid_ty :: sg_type where
  "grid_ty = TypedefType ''PSGrid3DFloat'' (PointerType (ClassType ''__PSGrid3DFloat''))"

definition demo_kernel :: sg_tree where
  "demo_kernel = \<lparr>st_vars = [2, 1, 0], st_assigns = [], st_calls = [], st_exprs = []\<rparr>"

definition demo_copies :: sg_project where
  "demo_copies = \<lparr>sp_tree = demo_kernel,
     sp_name = (\<lambda>v. \<lparr>sn_name = ''g'', sn_type = grid_ty,
        sn_init = (if v = 0 then None else Some (AssignInitializer (SgExp (20 + v) grid_ty (VarRefExp (v - 1))))),
        sn_is_param = (v = 0)\<rparr>),
     sp_func = (\<lambda>f. \<lparr>sf_name = ''kernel'', sf_args = [0], sf_tree = demo_kernel\<rparr>),
     sp_parents = (\<lambda>n. [])\<rparr>"

lemma demo_origins: "origin_of demo_copies demo_kernel [grid_ty] v x \<longleftrightarrow>
    v = 0 \<and> x = FuncParamNode \<or> v = 1 \<and> x = VarNode 0 \<or> v = 2 \<and> x = VarNode 1"
  by (auto simp: origin_of_def declares_def assigns_def decl_origin_def demo_copies_def demo_kernel_def
      assign_operand_def getInitializedName_def isFuncParam_def)

lemma demo_copies_only: "copies_only demo_kernel [grid_ty]"
  by (simp add: copies_only_def demo_kernel_def)

text \<open>C31: the graph of aliases. Building it ends, its nodes have exactly the origins that the
  declarations and assignments of the function give, and the two tests the kernel analysis
  makes find a variable with two origins or with no value exactly when there is one.
\<close>

theorem alias_graph_exact:
  assumes "copies_only t relevant"
  shows "\<exists>G. AliasGraph P t relevant = Some (Inr G) \<and>
    (\<forall>v x. (\<exists>n. findAliasVar v G = Some n \<and> x \<in> set (av_origins n)) \<longleftrightarrow> origin_of P t relevant v x) \<and>
    hasMultipleOriginVar G =
      (\<exists>v x y. x \<noteq> y \<and> origin_of P t relevant v x \<and> origin_of P t relevant v y) \<and>
    hasNullInitVar G = (\<exists>v. origin_of P t relevant v NullInitNode)"
proof -
  obtain G where G: "AliasGraph P t relevant = Some (Inr G)" "alias_ok G"
      "alias_facts G = all_facts P t relevant"
    using AliasGraph_facts[OF assms] by blast
  show ?thesis
  proof (intro exI[of _ G] conjI allI)
    show "(\<exists>n. findAliasVar v G = Some n \<and> x \<in> set (av_origins n)) \<longleftrightarrow> origin_of P t relevant v x" for v x
      unfolding findAliasVar_def by (rule graph_origins[OF G(2,3), symmetric])
  qed (rule G(1) graph_tests[OF G(2,3)])+
qed

theorem alias_graph_exact_witness:
  "\<exists>G. AliasGraph demo_copies demo_kernel [grid_ty] = Some (Inr G) \<and>
     \<not> hasMultipleOriginVar G \<and> \<not> hasNullInitVar G"
proof -
  obtain G where G: "AliasGraph demo_copies demo_kernel [grid_ty] = Some (Inr G)"
      "hasMultipleOriginVar G = (\<exists>v x y. x \<noteq> y \<and> origin_of demo_copies demo_kernel [grid_ty] v x \<and>
         origin_of demo_copies demo_kernel [grid_ty] v y)"
      "hasNullInitVar G = (\<exists>v. origin_of demo_copies demo_kernel [grid_ty] v NullInitNode)"
    using alias_graph_exact[OF demo_copies_only, of demo_copies] by (elim exE conjE) (rule that)
  have "\<not> hasMultipleOriginVar G" unfolding G(2) demo_origins by auto
  moreover have "\<not> hasNullInitVar G" unfolding G(3) demo_origins by auto
  ultimately show ?thesis using G(1) by blast
qed

text \<open>C32: finding the parameter behind a grid variable. In a function where every grid variable
  has one origin and is a copy only of variables declared before it, the search ends at the
  one variable that is no copy of another, reached along the chain of copies, and its root
  says whether that variable is a parameter.
\<close>

theorem original_variable_found:
  assumes "copies_only t relevant" "AliasGraph P t relevant = Some (Inr G)" "\<not> hasMultipleOriginVar G"
    "\<And>u w. copy_edge P t relevant u w \<Longrightarrow> declares P t relevant w \<and> rank w < (rank u :: nat)"
    "declares P t relevant v"
  shows "\<exists>u. findOriginalVar G v = Some (Inr u) \<and> findRoot G v = Some (Inr (decl_origin P u)) \<and>
    (copy_edge P t relevant)\<^sup>*\<^sup>* v u \<and> (\<forall>w. \<not> copy_edge P t relevant u w)"
proof -
  have G: "alias_ok G" "alias_facts G = all_facts P t relevant"
    using AliasGraph_facts[OF assms(1), of P] assms(2) by auto
  obtain u where u: "follow_origins G v = Some (Inr (u, decl_origin P u))"
      "(copy_edge P t relevant)\<^sup>*\<^sup>* v u" "\<forall>w. decl_origin P u \<noteq> VarNode w"
    using follow_found[OF G assms(3), of rank v] assms(4,5) by blast
  have "declares P t relevant u"
    using u(2) assms(4,5) by (induction rule: rtranclp_induct) auto
  then have "origin_of P t relevant u (decl_origin P u)" by (simp add: origin_of_def)
  then obtain n where n: "map_of G u = Some n" "av_origins n = [decl_origin P u]"
    using single_origin[OF G assms(3)] by blast
  have "\<not> copy_edge P t relevant u w" for w
  proof
    assume "copy_edge P t relevant u w"
    then have "\<exists>n. map_of G u = Some n \<and> av_origins n = [VarNode w]"
      unfolding copy_edge_def by (rule single_origin[OF G assms(3)])
    then show False using n u(3) by simp
  qed
  then show ?thesis using u(1,2) by (intro exI[of _ u]) (simp add: findOriginalVar_def findRoot_def)
qed

theorem original_variable_found_witness:
  "\<exists>G u. AliasGraph demo_copies demo_kernel [grid_ty] = Some (Inr G) \<and>
     findOriginalVar G 2 = Some (Inr u) \<and> findRoot G 2 = Some (Inr (decl_origin demo_copies u))"
proof -
  obtain G where G: "AliasGraph demo_copies demo_kernel [grid_ty] = Some (Inr G)" "alias_ok G"
      "alias_facts G = all_facts demo_copies demo_kernel [grid_ty]"
    using AliasGraph_facts[OF demo_copies_only] by blast
  have "\<not> hasMultipleOriginVar G" unfolding graph_tests(1)[OF G(2,3)] demo_origins by auto
  moreover have "declares demo_copies demo_kernel [grid_ty] w \<and> w < u"
    if "copy_edge demo_copies demo_kernel [grid_ty] u w" for u w
    using that by (auto simp: copy_edge_def demo_origins) (simp_all add: declares_def demo_copies_def demo_kernel_def)
  moreover have "declares demo_copies demo_kernel [grid_ty] 2"
    by (simp add: declares_def demo_copies_def demo_kernel_def)
  ultimately show ?thesis
    using original_variable_found[OF demo_copies_only G(1), of "\<lambda>u. u" 2] G(1) by blast
qed

text \<open>the search on a cycle. Where variables are initialised with each other in a circle, the
  smallest case being a variable initialised with itself, and have no other origin, the
  search for the original variable does not return.
\<close>

theorem circular_copies_diverge:
  assumes "copies_only t relevant" "AliasGraph P t relevant = Some (Inr G)" "\<not> hasMultipleOriginVar G"
    "\<And>u. u \<in> S \<Longrightarrow> \<exists>w\<in>S. copy_edge P t relevant u w" "v \<in> S"
  shows "findOriginalVar G v = None \<and> findRoot G v = None"
proof -
  have G: "alias_ok G" "alias_facts G = all_facts P t relevant"
    using AliasGraph_facts[OF assms(1), of P] assms(2) by auto
  have "\<exists>n w. map_of G u = Some n \<and> av_origins n = [VarNode w] \<and> w \<in> S" if "u \<in> S" for u
    using assms(4)[OF that] single_origin[OF G assms(3)] unfolding copy_edge_def by blast
  then have "follow_origins G v = None" using follow_trapped[of S G v] assms(5) by blast
  then show ?thesis by (simp add: findOriginalVar_def findRoot_def)
qed

end
