(* ===== verification/Kernel_Access.thy ===== *)
theory Kernel_Access imports Alias_Analysis Grid_Type begin

text \<open>
  Which grids and which grid parameters a kernel reads and writes (\<open>translator/kernel.h\<close>,
  \<open>kernel.cc\<close>). A grid object is a number, and \<open>NULL\<close> where a grid variable has no value; the
  map from variables to the grids they may stand for is an argument (\<open>findGrid\<close>). The
  search for the original variable may not return, so the results are options.
\<close>

subsection \<open>The code\<close>

type_synonym grid_id = "nat option"

definition bindO :: "('e + 'a) option \<Rightarrow> ('a \<Rightarrow> ('e + 'b) option) \<Rightarrow> ('e + 'b) option" where
  "bindO m f = (case m of None \<Rightarrow> None | Some (Inl e) \<Rightarrow> Some (Inl e) | Some (Inr x) \<Rightarrow> f x)"

fun foldO :: "('a \<Rightarrow> 's \<Rightarrow> ('e + 's) option) \<Rightarrow> 'a list \<Rightarrow> 's \<Rightarrow> ('e + 's) option" where
  "foldO f [] s = Some (Inr s)"
| "foldO f (x # xs) s = bindO (f x s) (foldO f xs)"

text \<open>The first loop over the calls: the types of the grid variables and the grids.\<close>

definition access_step ::
    "sage \<Rightarrow> sg_project \<Rightarrow> (var \<Rightarrow> grid_id list option) \<Rightarrow> sg_expr \<Rightarrow> sg_type list \<times> grid_id list \<Rightarrow>
      fault + (sg_type list \<times> grid_id list)" where
  "access_step si P findGrid call = (\<lambda>(relevantTypes, grid_set).
     case getGridVarUsedInFuncCall si P call of
       None \<Rightarrow> Inl NullPointer
     | Some gv \<Rightarrow>
         (case findGrid gv of
            None \<Rightarrow> Inl AssertFailed
          | Some gs \<Rightarrow> Inr (relevantTypes @ [sn_type (sp_name P gv)],
                         fold (\<lambda>g s. snd (set_insert g s)) gs grid_set)))"

definition original_step ::
    "sage \<Rightarrow> sg_project \<Rightarrow> alias_graph \<Rightarrow> sg_expr \<Rightarrow> var list \<Rightarrow> (fault + var list) option" where
  "original_step si P ag call grid_var_set =
     (case getGridVarUsedInFuncCall si P call of
        None \<Rightarrow> Some (Inl NullPointer)
      | Some gv \<Rightarrow>
          bindO (findOriginalVar ag gv) (\<lambda>originalVar.
            Some (Inr (snd (set_insert originalVar grid_var_set)))))"

text \<open>\<open>abort()\<close> ends the translator with the signal 6, status 134.\<close>

definition analyzeGridAccess ::
    "sage \<Rightarrow> sg_project \<Rightarrow> (var \<Rightarrow> grid_id list option) \<Rightarrow> sg_tree \<Rightarrow> sg_expr list \<Rightarrow>
      grid_id list \<times> var list \<Rightarrow> (fault + (grid_id list \<times> var list)) option" where
  "analyzeGridAccess si P findGrid decl calls = (\<lambda>(grid_set, grid_var_set).
     bindO (Some (foldE (access_step si P findGrid) calls ([], grid_set))) (\<lambda>(relevantTypes, grid_set).
     bindO (AliasGraph P decl relevantTypes) (\<lambda>ag.
       if hasMultipleOriginVar ag then Some (Inl (Aborted 134))
       else if hasNullInitVar ag then Some (Inl (Aborted 134))
       else bindO (foldO (original_step si P ag) calls grid_var_set) (\<lambda>grid_var_set.
              Some (Inr (grid_set, grid_var_set))))))"

datatype kernel_object = KernelObject
  (kn_decl: func)
  (kn_rGrids: "grid_id list") (kn_rGridVars: "var list")
  (kn_wGrids: "grid_id list") (kn_wGridVars: "var list")
  (kn_calls: "(node \<times> kernel_object) list")

definition analyzeGridWrites ::
    "sage \<Rightarrow> sg_project \<Rightarrow> (var \<Rightarrow> grid_id list option) \<Rightarrow> func \<Rightarrow> (fault + (grid_id list \<times> var list)) option" where
  "analyzeGridWrites si P findGrid decl =
     bindO (Some (getGridEmitCalls si P (sf_tree (sp_func P decl)))) (\<lambda>calls.
       analyzeGridAccess si P findGrid (sf_tree (sp_func P decl)) calls ([], []))"

definition analyzeGridReads ::
    "sage \<Rightarrow> sg_project \<Rightarrow> (var \<Rightarrow> grid_id list option) \<Rightarrow> func \<Rightarrow> (fault + (grid_id list \<times> var list)) option" where
  "analyzeGridReads si P findGrid decl =
     bindO (Some (getGridGetCalls si P (sf_tree (sp_func P decl)))) (\<lambda>calls.
     bindO (analyzeGridAccess si P findGrid (sf_tree (sp_func P decl)) calls ([], [])) (\<lambda>r.
     bindO (Some (getGridGetPeriodicCalls si P (sf_tree (sp_func P decl)))) (\<lambda>calls.
       analyzeGridAccess si P findGrid (sf_tree (sp_func P decl)) calls r)))"

definition Kernel ::
    "sage \<Rightarrow> sg_project \<Rightarrow> (var \<Rightarrow> grid_id list option) \<Rightarrow> func \<Rightarrow> (fault + kernel_object) option" where
  "Kernel si P findGrid decl =
     bindO (analyzeGridWrites si P findGrid decl) (\<lambda>(wGrids, wGridVars).
     bindO (analyzeGridReads si P findGrid decl) (\<lambda>(rGrids, rGridVars).
       Some (Inr (KernelObject decl rGrids rGridVars wGrids wGridVars []))))"

definition appendChild :: "node \<Rightarrow> kernel_object \<Rightarrow> kernel_object \<Rightarrow> fault + kernel_object" where
  "appendChild call child k =
     (if call \<in> set (map fst (kn_calls k)) then Inl AssertFailed
      else Inr (KernelObject (kn_decl k) (kn_rGrids k) (kn_rGridVars k) (kn_wGrids k) (kn_wGridVars k)
                  (kn_calls k @ [(call, child)])))"

fun isModified :: "grid_id \<Rightarrow> kernel_object \<Rightarrow> bool" where
  "isModified g (KernelObject d rG rV wG wV calls) \<longleftrightarrow>
     g \<in> set wG \<or> list_ex (\<lambda>(c, child). isModified g child) calls"

fun isRead :: "grid_id \<Rightarrow> kernel_object \<Rightarrow> bool" where
  "isRead g (KernelObject d rG rV wG wV calls) \<longleftrightarrow>
     g \<in> set rG \<or> list_ex (\<lambda>(c, child). isRead g child) calls"

definition isModifiedAny :: "grid_id list \<Rightarrow> kernel_object \<Rightarrow> bool" where
  "isModifiedAny gs k \<longleftrightarrow> list_ex (\<lambda>g. isModified g k) gs"

definition isReadAny :: "grid_id list \<Rightarrow> kernel_object \<Rightarrow> bool" where
  "isReadAny gs k \<longleftrightarrow> list_ex (\<lambda>g. isRead g k) gs"

definition isGridParamModified :: "var \<Rightarrow> kernel_object \<Rightarrow> bool" where
  "isGridParamModified v k \<longleftrightarrow> v \<in> set (kn_wGridVars k)"

definition isGridParamRead :: "var \<Rightarrow> kernel_object \<Rightarrow> bool" where
  "isGridParamRead v k \<longleftrightarrow> v \<in> set (kn_rGridVars k)"

subsection \<open>The loops\<close>

lemma bindO_simps [simp]:
  "bindO None f = None" "bindO (Some (Inl e)) f = Some (Inl e)" "bindO (Some (Inr x)) f = f x"
  by (simp_all add: bindO_def)

lemma set_insert_set [simp]: "set (snd (set_insert x xs)) = insert x (set xs)"
  by (auto simp: set_insert_def)

lemma set_insert_all: "set (fold (\<lambda>g s. snd (set_insert g s)) gs xs) = set gs \<union> set xs"
  by (induction gs arbitrary: xs) auto

text \<open>The grid variable of a call, and the calls the analysis is given.\<close>

definition call_var :: "sage \<Rightarrow> sg_project \<Rightarrow> sg_expr \<Rightarrow> var" where
  "call_var si P c = the (getGridVarUsedInFuncCall si P c)"

definition grid_calls :: "sage \<Rightarrow> sg_project \<Rightarrow> (var \<Rightarrow> grid_id list option) \<Rightarrow> sg_expr list \<Rightarrow> bool" where
  "grid_calls si P findGrid cs \<longleftrightarrow>
     (\<forall>c\<in>set cs. \<exists>gv. getGridVarUsedInFuncCall si P c = Some gv \<and> findGrid gv \<noteq> None)"

definition call_types :: "sage \<Rightarrow> sg_project \<Rightarrow> sg_expr list \<Rightarrow> sg_type list" where
  "call_types si P cs = map (\<lambda>c. sn_type (sp_name P (call_var si P c))) cs"

lemma access_loop:
  assumes "grid_calls si P findGrid cs"
  shows "\<exists>gs'. foldE (access_step si P findGrid) cs (ts, gs) = Inr (ts @ call_types si P cs, gs') \<and>
    set gs' = set gs \<union> (\<Union>c\<in>set cs. set (the (findGrid (call_var si P c))))"
  using assms
proof (induction cs arbitrary: ts gs)
  case Nil
  then show ?case by (simp add: call_types_def)
next
  case (Cons c cs)
  obtain gv xs where c: "getGridVarUsedInFuncCall si P c = Some gv" "findGrid gv = Some xs"
    using Cons.prems by (auto simp: grid_calls_def)
  let ?gs = "fold (\<lambda>g s. snd (set_insert g s)) xs gs"
  obtain gs' where gs': "foldE (access_step si P findGrid) cs (ts @ [sn_type (sp_name P gv)], ?gs) =
        Inr ((ts @ [sn_type (sp_name P gv)]) @ call_types si P cs, gs')"
      "set gs' = set ?gs \<union> (\<Union>c\<in>set cs. set (the (findGrid (call_var si P c))))"
    using Cons.IH[of "ts @ [sn_type (sp_name P gv)]" ?gs] Cons.prems by (auto simp: grid_calls_def)
  have "access_step si P findGrid c (ts, gs) = Inr (ts @ [sn_type (sp_name P gv)], ?gs)"
    using c by (simp add: access_step_def)
  moreover have "call_types si P (c # cs) = sn_type (sp_name P gv) # call_types si P cs" "call_var si P c = gv"
    using c(1) by (simp_all add: call_types_def call_var_def)
  ultimately show ?case
    by (intro exI[of _ gs']) (use gs' c(2) in \<open>auto simp: set_insert_all\<close>)
qed

text \<open>\<open>stands_for_var P t relevant v u\<close>: along copies \<open>v\<close> comes from \<open>u\<close>, which is itself no copy.\<close>

definition comes_from :: "sg_project \<Rightarrow> sg_tree \<Rightarrow> sg_type list \<Rightarrow> var \<Rightarrow> var \<Rightarrow> bool" where
  "comes_from P t relevant v u \<longleftrightarrow>
     (copy_edge P t relevant)\<^sup>*\<^sup>* v u \<and> (\<forall>w. \<not> copy_edge P t relevant u w)"

text \<open>Functions in which grid variables are used as the translator wants them: every grid variable
  has one origin, is initialised, and copies only variables declared before it.\<close>

definition plain_copies :: "sg_project \<Rightarrow> sg_tree \<Rightarrow> sg_type list \<Rightarrow> (var \<Rightarrow> nat) \<Rightarrow> bool" where
  "plain_copies P t relevant rank \<longleftrightarrow> copies_only t relevant \<and>
     (\<forall>v x y. origin_of P t relevant v x \<longrightarrow> origin_of P t relevant v y \<longrightarrow> x = y) \<and>
     (\<forall>v. \<not> origin_of P t relevant v NullInitNode) \<and>
     (\<forall>v w. copy_edge P t relevant v w \<longrightarrow> declares P t relevant w \<and> rank w < rank v)"

lemma follow_along:
  assumes "alias_ok G" "alias_facts G = all_facts P t relevant" "\<not> hasMultipleOriginVar G"
    "(copy_edge P t relevant)\<^sup>*\<^sup>* v w"
  shows "follow_origins G v = follow_origins G w"
  using assms(4)
proof (induction rule: rtranclp_induct)
  case (step y z)
  have "\<exists>n. map_of G y = Some n \<and> av_origins n = [VarNode z]"
    using single_origin[OF assms(1-3)] step(2) by (simp add: copy_edge_def)
  then show ?case using step(3) follow_step by metis
qed simp

lemma original_exact:
  assumes "AliasGraph P t relevant = Some (Inr G)" "plain_copies P t relevant rank" "declares P t relevant v"
  shows "\<exists>u. findOriginalVar G v = Some (Inr u) \<and> (\<forall>w. comes_from P t relevant v w \<longleftrightarrow> w = u)"
proof -
  have p: "copies_only t relevant" "\<And>v x y. origin_of P t relevant v x \<Longrightarrow> origin_of P t relevant v y \<Longrightarrow> x = y"
    "\<And>v w. copy_edge P t relevant v w \<Longrightarrow> declares P t relevant w \<and> rank w < rank v"
    using assms(2) by (auto simp: plain_copies_def)
  have G: "alias_ok G" "alias_facts G = all_facts P t relevant"
    using AliasGraph_facts[OF p(1), of P] assms(1) by auto
  have single: "\<not> hasMultipleOriginVar G" using graph_tests(1)[OF G] p(2) by blast
  have root: "follow_origins G w = Some (Inr (w, decl_origin P w)) \<and> (\<forall>x. decl_origin P w \<noteq> VarNode x)"
    if "declares P t relevant w" "\<forall>x. \<not> copy_edge P t relevant w x" for w
  proof -
    have o: "origin_of P t relevant w (decl_origin P w)" using that(1) by (simp add: origin_of_def)
    then have "\<forall>x. decl_origin P w \<noteq> VarNode x" using that(2) by (metis copy_edge_def)
    then show ?thesis using single_origin[OF G single o] follow_stop by blast
  qed
  obtain u where u: "follow_origins G v = Some (Inr (u, decl_origin P u))" "(copy_edge P t relevant)\<^sup>*\<^sup>* v u"
      "\<forall>w. decl_origin P u \<noteq> VarNode w"
    using follow_found[OF G single p(3) assms(3)] by blast
  have decl: "declares P t relevant w" if "(copy_edge P t relevant)\<^sup>*\<^sup>* v w" for w
    using that by (induction rule: rtranclp_induct) (use assms(3) p(3) in auto)
  have "comes_from P t relevant v w \<longleftrightarrow> w = u" for w
  proof
    assume w: "comes_from P t relevant v w"
    then have "follow_origins G v = Some (Inr (w, decl_origin P w))"
      using follow_along[OF G single] root[OF decl] by (auto simp: comes_from_def)
    then show "w = u" using u(1) by simp
  next
    assume "w = u"
    have "\<not> copy_edge P t relevant u x" for x
    proof
      assume "copy_edge P t relevant u x"
      then have "decl_origin P u = VarNode x"
        using p(2)[of u "decl_origin P u" "VarNode x"] decl[OF u(2)] by (simp add: copy_edge_def origin_of_def)
      then show False using u(3) by simp
    qed
    then show "comes_from P t relevant v w" using u(2) \<open>w = u\<close> by (simp add: comes_from_def)
  qed
  then show ?thesis using u(1) by (auto simp: findOriginalVar_def)
qed

lemma original_loop:
  assumes "AliasGraph P t relevant = Some (Inr G)" "plain_copies P t relevant rank"
    "\<And>c. c \<in> set cs \<Longrightarrow> \<exists>gv. getGridVarUsedInFuncCall si P c = Some gv \<and> declares P t relevant gv"
  shows "\<exists>vs'. foldO (original_step si P G) cs vs = Some (Inr vs') \<and>
    (\<forall>u. u \<in> set vs' \<longleftrightarrow> u \<in> set vs \<or> (\<exists>c\<in>set cs. comes_from P t relevant (call_var si P c) u))"
  using assms(3)
proof (induction cs arbitrary: vs)
  case (Cons c cs)
  obtain gv where gv: "getGridVarUsedInFuncCall si P c = Some gv" "declares P t relevant gv"
    using Cons.prems by auto
  obtain u where u: "findOriginalVar G gv = Some (Inr u)" "\<forall>w. comes_from P t relevant gv w \<longleftrightarrow> w = u"
    using original_exact[OF assms(1,2) gv(2)] by blast
  obtain vs' where vs': "foldO (original_step si P G) cs (snd (set_insert u vs)) = Some (Inr vs')"
      "\<forall>x. x \<in> set vs' \<longleftrightarrow> x \<in> set (snd (set_insert u vs)) \<or> (\<exists>c\<in>set cs. comes_from P t relevant (call_var si P c) x)"
    using Cons.IH[of "snd (set_insert u vs)"] Cons.prems by auto
  have "original_step si P G c vs = Some (Inr (snd (set_insert u vs)))"
    using gv(1) u(1) by (simp add: original_step_def)
  moreover have "call_var si P c = gv" using gv(1) by (simp add: call_var_def)
  ultimately show ?case
    by (intro exI[of _ vs']) (use vs' u(2) in \<open>auto\<close>)
qed simp

lemma analyzeGridAccess_ok:
  assumes "grid_calls si P findGrid cs" "plain_copies P t (call_types si P cs) rank"
    "\<And>c. c \<in> set cs \<Longrightarrow> call_var si P c \<in> set (st_vars t)"
  shows "\<exists>gs' vs'. analyzeGridAccess si P findGrid t cs (gs, vs) = Some (Inr (gs', vs')) \<and>
    set gs' = set gs \<union> (\<Union>c\<in>set cs. set (the (findGrid (call_var si P c)))) \<and>
    (\<forall>u. u \<in> set vs' \<longleftrightarrow> u \<in> set vs \<or> (\<exists>c\<in>set cs. comes_from P t (call_types si P cs) (call_var si P c) u))"
proof -
  let ?R = "call_types si P cs"
  obtain gs' where gs': "foldE (access_step si P findGrid) cs ([], gs) = Inr (?R, gs')"
      "set gs' = set gs \<union> (\<Union>c\<in>set cs. set (the (findGrid (call_var si P c))))"
    using access_loop[OF assms(1), of "[]" gs] by auto
  have p: "copies_only t ?R" "\<And>v x y. origin_of P t ?R v x \<Longrightarrow> origin_of P t ?R v y \<Longrightarrow> x = y"
    "\<And>v. \<not> origin_of P t ?R v NullInitNode"
    using assms(2) by (auto simp: plain_copies_def)
  obtain G where G: "AliasGraph P t ?R = Some (Inr G)" "alias_ok G" "alias_facts G = all_facts P t ?R"
    using AliasGraph_facts[OF p(1)] by blast
  have tests: "\<not> hasMultipleOriginVar G" "\<not> hasNullInitVar G"
    using graph_tests[OF G(2,3)] p(2,3) by blast+
  have "\<exists>gv. getGridVarUsedInFuncCall si P c = Some gv \<and> declares P t ?R gv" if c: "c \<in> set cs" for c
  proof -
    obtain gv where gv: "getGridVarUsedInFuncCall si P c = Some gv" using assms(1) c by (auto simp: grid_calls_def)
    then have v: "call_var si P c = gv" by (simp add: call_var_def)
    have "sn_type (sp_name P gv) \<in> set ?R" using c v by (auto simp: call_types_def)
    then show ?thesis using gv assms(3)[OF c] v by (simp add: declares_def)
  qed
  then obtain vs' where vs': "foldO (original_step si P G) cs vs = Some (Inr vs')"
      "\<forall>u. u \<in> set vs' \<longleftrightarrow> u \<in> set vs \<or> (\<exists>c\<in>set cs. comes_from P t ?R (call_var si P c) u)"
    using original_loop[OF G(1) assms(2)] by blast
  show ?thesis
    by (intro exI[of _ gs'] exI[of _ vs'])
      (use gs' G(1) tests vs' in \<open>simp add: analyzeGridAccess_def\<close>)
qed

subsection \<open>Properties\<close>

definition touches :: "sage \<Rightarrow> sg_project \<Rightarrow> sg_tree \<Rightarrow> sg_expr list \<Rightarrow> var \<Rightarrow> bool" where
  "touches si P t cs u \<longleftrightarrow> (\<exists>c\<in>set cs. comes_from P t (call_types si P cs) (call_var si P c) u)"

definition touches_grid ::
    "sage \<Rightarrow> sg_project \<Rightarrow> (var \<Rightarrow> grid_id list option) \<Rightarrow> sg_expr list \<Rightarrow> grid_id \<Rightarrow> bool" where
  "touches_grid si P findGrid cs g \<longleftrightarrow> (\<exists>c\<in>set cs. g \<in> set (the (findGrid (call_var si P c))))"

definition plain_calls ::
    "sage \<Rightarrow> sg_project \<Rightarrow> (var \<Rightarrow> grid_id list option) \<Rightarrow> (var \<Rightarrow> nat) \<Rightarrow> sg_tree \<Rightarrow> sg_expr list \<Rightarrow> bool" where
  "plain_calls si P findGrid rank t cs \<longleftrightarrow> grid_calls si P findGrid cs \<and>
     plain_copies P t (call_types si P cs) rank \<and> (\<forall>c\<in>set cs. call_var si P c \<in> set (st_vars t))"

lemma plain_calls_access:
  assumes "plain_calls si P findGrid rank t cs"
  shows "\<exists>gs' vs'. analyzeGridAccess si P findGrid t cs (gs, vs) = Some (Inr (gs', vs')) \<and>
    (\<forall>g. g \<in> set gs' \<longleftrightarrow> g \<in> set gs \<or> touches_grid si P findGrid cs g) \<and>
    (\<forall>u. u \<in> set vs' \<longleftrightarrow> u \<in> set vs \<or> touches si P t cs u)"
proof -
  obtain gs' vs' where r: "analyzeGridAccess si P findGrid t cs (gs, vs) = Some (Inr (gs', vs'))"
      "set gs' = set gs \<union> (\<Union>c\<in>set cs. set (the (findGrid (call_var si P c))))"
      "\<forall>u. u \<in> set vs' \<longleftrightarrow> u \<in> set vs \<or> (\<exists>c\<in>set cs. comes_from P t (call_types si P cs) (call_var si P c) u)"
    using analyzeGridAccess_ok[of si P findGrid cs t rank gs vs] assms unfolding plain_calls_def by blast
  show ?thesis
  proof (intro exI conjI allI)
    show "analyzeGridAccess si P findGrid t cs (gs, vs) = Some (Inr (gs', vs'))" by (rule r(1))
    show "g \<in> set gs' \<longleftrightarrow> g \<in> set gs \<or> touches_grid si P findGrid cs g" for g
      unfolding r(2) touches_grid_def by blast
    show "u \<in> set vs' \<longleftrightarrow> u \<in> set vs \<or> touches si P t cs u" for u
      using r(3) unfolding touches_def by blast
  qed
qed

text \<open>C28: the analysis of the grids a kernel reads and writes. In a kernel that uses its grid
  variables plainly, the analysis ends; a parameter counts as modified (or read) exactly when
  some \<open>emit\<close> (or \<open>get\<close>, \<open>get_periodic\<close>) call goes through a variable that comes from it along
  copies, and a grid exactly when the variable of such a call may stand for it.
\<close>

theorem kernel_parameters_exact:
  assumes "getGridEmitCalls si P (sf_tree (sp_func P f)) = Inr emits"
    "getGridGetCalls si P (sf_tree (sp_func P f)) = Inr gets"
    "getGridGetPeriodicCalls si P (sf_tree (sp_func P f)) = Inr pers"
    "plain_calls si P findGrid rank (sf_tree (sp_func P f)) emits"
    "plain_calls si P findGrid rank (sf_tree (sp_func P f)) gets"
    "plain_calls si P findGrid rank (sf_tree (sp_func P f)) pers"
  shows "\<exists>k. Kernel si P findGrid f = Some (Inr k) \<and>
    (\<forall>u. isGridParamModified u k = touches si P (sf_tree (sp_func P f)) emits u) \<and>
    (\<forall>u. isGridParamRead u k = (touches si P (sf_tree (sp_func P f)) gets u \<or> touches si P (sf_tree (sp_func P f)) pers u)) \<and>
    (\<forall>g. isModified g k = touches_grid si P findGrid emits g) \<and>
    (\<forall>g. isRead g k = (touches_grid si P findGrid gets g \<or> touches_grid si P findGrid pers g))"
proof -
  let ?t = "sf_tree (sp_func P f)"
  obtain wg wv where w: "analyzeGridAccess si P findGrid ?t emits ([], []) = Some (Inr (wg, wv))"
      "\<forall>g. g \<in> set wg \<longleftrightarrow> touches_grid si P findGrid emits g" "\<forall>u. u \<in> set wv \<longleftrightarrow> touches si P ?t emits u"
    using plain_calls_access[OF assms(4), of "[]" "[]"] by auto
  obtain ag av where a: "analyzeGridAccess si P findGrid ?t gets ([], []) = Some (Inr (ag, av))"
      "\<forall>g. g \<in> set ag \<longleftrightarrow> touches_grid si P findGrid gets g" "\<forall>u. u \<in> set av \<longleftrightarrow> touches si P ?t gets u"
    using plain_calls_access[OF assms(5), of "[]" "[]"] by auto
  obtain rg rv where r: "analyzeGridAccess si P findGrid ?t pers (ag, av) = Some (Inr (rg, rv))"
      "\<forall>g. g \<in> set rg \<longleftrightarrow> g \<in> set ag \<or> touches_grid si P findGrid pers g"
      "\<forall>u. u \<in> set rv \<longleftrightarrow> u \<in> set av \<or> touches si P ?t pers u"
    using plain_calls_access[OF assms(6), of ag av] by blast
  have k: "Kernel si P findGrid f = Some (Inr (KernelObject f rg rv wg wv []))"
    by (simp add: Kernel_def analyzeGridWrites_def analyzeGridReads_def assms(1-3) w(1) a(1) r(1))
  show ?thesis
    by (rule exI[of _ "KernelObject f rg rv wg wv []"])
      (simp add: k isGridParamModified_def isGridParamRead_def w(2,3) a(2,3) r(2,3))
qed

text \<open>A kernel with a grid parameter 0 that writes through a copy 1 of it.\<close>

definition emit_ty :: sg_type where
  "emit_ty = PointerType (ClassType ''__PSGrid1DFloat'')"

definition demo_emit :: sg_expr where
  "demo_emit = SgExp 40 (OtherType ''void'') (FunctionCallExp
     (SgExp 41 (OtherType ''f'') (PointerDerefExp (SgExp 42 (OtherType ''p'') (ArrowExp
        (SgExp 43 emit_ty (VarRefExp 1)) (SgExp 44 (OtherType ''f'') (VarRefExp 10)))))) [])"

definition demo_writer :: sg_project where
  "demo_writer = (let t = \<lparr>st_vars = [0, 1], st_assigns = [], st_calls = [demo_emit], st_exprs = []\<rparr> in
     \<lparr>sp_tree = t,
      sp_name = (\<lambda>v. \<lparr>sn_name = (if v = 10 then ''emit'' else ''g''), sn_type = emit_ty,
        sn_init = (if v = 1 then Some (AssignInitializer (SgExp 45 emit_ty (VarRefExp 0))) else None),
        sn_is_param = (v = 0)\<rparr>),
      sp_func = (\<lambda>f. \<lparr>sf_name = ''kernel'', sf_args = [0], sf_tree = t\<rparr>), sp_parents = (\<lambda>n. [])\<rparr>)"

lemma emit_grid_type: "isGridTypeName ''__PSGrid1DFloat''"
  by code_simp

lemma demo_emit_simps:
  "getGridVarUsedInFuncCall demo_sage demo_writer demo_emit = Some 1"
  "getGridFuncName demo_sage demo_writer demo_emit = Inr ''emit''"
  using emit_grid_type
  by (simp_all add: getGridVarUsedInFuncCall_def getGridFuncName_def isGridTypeSpecificCall_def demo_emit_def
      callee_of_def getInitializedName_def isGridType_def demo_sage_def demo_writer_def type_name_def emit_ty_def Let_def)

lemma demo_writer_tree: "sf_tree (sp_func demo_writer f) = \<lparr>st_vars = [0, 1], st_assigns = [], st_calls = [demo_emit], st_exprs = []\<rparr>"
  by (simp add: demo_writer_def Let_def)

lemma demo_writer_origins: "origin_of demo_writer (sf_tree (sp_func demo_writer f)) [emit_ty] v x \<longleftrightarrow>
    v = 0 \<and> x = FuncParamNode \<or> v = 1 \<and> x = VarNode 0"
  unfolding demo_writer_tree
  by (auto simp: origin_of_def declares_def assigns_def decl_origin_def demo_writer_def Let_def
      assign_operand_def getInitializedName_def isFuncParam_def)

lemma demo_writer_plain:
  "plain_calls demo_sage demo_writer (\<lambda>v. Some [Some 7]) (\<lambda>v. v) (sf_tree (sp_func demo_writer f)) [demo_emit]"
proof -
  have v: "call_var demo_sage demo_writer demo_emit = 1" by (simp add: call_var_def demo_emit_simps)
  have t: "call_types demo_sage demo_writer [demo_emit] = [emit_ty]"
    by (simp add: call_types_def v) (simp add: demo_writer_def Let_def)
  have "plain_copies demo_writer (sf_tree (sp_func demo_writer f)) [emit_ty] (\<lambda>v. v)"
    unfolding plain_copies_def copy_edge_def demo_writer_origins
    by (auto simp: copies_only_def demo_writer_tree declares_def) (simp add: demo_writer_def Let_def)
  then show ?thesis
    by (simp add: plain_calls_def t v grid_calls_def demo_emit_simps demo_writer_tree)
qed

lemma no_calls_plain: "plain_calls si P findGrid rank t []"
  by (simp add: plain_calls_def grid_calls_def call_types_def plain_copies_def copies_only_def origin_of_def
      copy_edge_def declares_def assigns_def)

theorem kernel_parameters_exact_witness:
  "\<exists>k. Kernel demo_sage demo_writer (\<lambda>v. Some [Some 7]) 0 = Some (Inr k) \<and>
     isGridParamModified 0 k \<and> \<not> isGridParamRead 0 k \<and> isModified (Some 7) k"
proof -
  let ?t = "sf_tree (sp_func demo_writer 0)"
  have calls: "getGridEmitCalls demo_sage demo_writer ?t = Inr [demo_emit]"
      "getGridGetCalls demo_sage demo_writer ?t = Inr []" "getGridGetPeriodicCalls demo_sage demo_writer ?t = Inr []"
    by (simp_all add: getGridEmitCalls_def getGridGetCalls_def getGridGetPeriodicCalls_def getGridCalls_def
        getGridCalls_step_def isGridTypeSpecificCall_def demo_writer_tree demo_emit_simps)
  obtain k where k: "Kernel demo_sage demo_writer (\<lambda>v. Some [Some 7]) 0 = Some (Inr k)"
      "\<forall>u. isGridParamModified u k = touches demo_sage demo_writer ?t [demo_emit] u"
      "\<forall>u. isGridParamRead u k = (touches demo_sage demo_writer ?t [] u \<or> touches demo_sage demo_writer ?t [] u)"
      "\<forall>g. isModified g k = touches_grid demo_sage demo_writer (\<lambda>v. Some [Some 7]) [demo_emit] g"
    using kernel_parameters_exact[OF calls demo_writer_plain no_calls_plain no_calls_plain] by blast
  have v: "call_var demo_sage demo_writer demo_emit = 1" by (simp add: call_var_def demo_emit_simps)
  have ty: "call_types demo_sage demo_writer [demo_emit] = [emit_ty]"
    by (simp add: call_types_def v) (simp add: demo_writer_def Let_def)
  have "comes_from demo_writer ?t [emit_ty] 1 0"
    unfolding comes_from_def copy_edge_def demo_writer_origins by (auto intro: r_into_rtranclp)
  then have "touches demo_sage demo_writer ?t [demo_emit] 0" by (simp add: touches_def v ty)
  moreover have "\<not> touches demo_sage demo_writer ?t [] 0" by (simp add: touches_def)
  moreover have "touches_grid demo_sage demo_writer (\<lambda>v. Some [Some 7]) [demo_emit] (Some 7)"
    by (simp add: touches_grid_def)
  ultimately show ?thesis using k by blast
qed

text \<open>A kernel modifies what the kernels it calls modify.\<close>

lemma appendChild_modifies:
  assumes "appendChild call child k = Inr k'"
  shows "isModified g k' \<longleftrightarrow> isModified g k \<or> isModified g child"
    and "isRead g k' \<longleftrightarrow> isRead g k \<or> isRead g child"
  using assms by (cases k; auto simp: appendChild_def split: if_splits)+

end
