(* ===== verification/Spec2Isabelle.thy ===== *)
theory Spec2Isabelle imports Mpi_Runtime Stencil_Range Device_Access Halo_Runs Cuda_Boxes Cuda_Space Cuda_Grid_Laws Cuda_Load Stencil_Analysis Range_Builder Kernel_Access begin

text \<open>
  A model of the run-time library of Physis, a framework for stencil programs on regular
  grids. A program is written against one interface and linked with the reference run-time
  (one process), with the CUDA run-time (one process, grids in the memory of a device) or with
  the MPI run-time, in which the master calls every operation, tells the clients to do the
  same, and each process keeps one box of each grid.

  \<^bold>\<open>Parts of the program and where they are modelled.\<close>

  \<^item> \<open>Prelude\<close>, \<open>C_Memory\<close>: the error monad (\<open>fault + 'a\<close>; assertions, aborts, exits and
    memory errors are values), the unsigned types, and the heap of blocks with \<open>malloc\<close>,
    \<open>calloc\<close>, \<open>free\<close> and \<open>memcpy\<close>. A heap has a finite number of bytes left, so allocation
    can fail; an access outside a live block is a fault.
  \<^item> \<open>Index_Array\<close>: \<open>IntegerArray\<close> of \<open>include/physis/internal_common.h\<close>.
  \<^item> \<open>Grid_Util\<close>: offsets and \<open>CopyoutSubgrid\<close>/\<open>CopyinSubgrid\<close> of \<open>runtime/grid_util.h\<close> and
    \<open>grid_util.cc\<close>. \<open>lin\<close> is the row-major number of a point, \<open>subgrid\<close> the packed box.
  \<^item> \<open>Host_Buffer\<close>: \<open>Buffer\<close> and \<open>BufferHost\<close> of \<open>runtime/buffer.h\<close>, \<open>buffer.cc\<close>.
  \<^item> \<open>Reduction\<close>: \<open>runtime/reduce.h\<close>, \<open>include/physis/reduce.h\<close>, \<open>runtime/mpi_util.h\<close>.
  \<^item> \<open>Physis_Util\<close>: \<open>include/physis/physis_util.h\<close>.
  \<^item> \<open>Grid_Base\<close>: \<open>Grid\<close> and \<open>GridSpace\<close> of \<open>runtime/grid.h\<close>, \<open>grid.cc\<close>, with checkpoints.
    The state \<open>world\<close> is the heap with the buffer objects; a buffer object or a grid object
    is named by a number.
  \<^item> \<open>Space_Partition\<close>: the constructor of \<open>GridSpaceMPI\<close> and \<open>PartitionGrid\<close> of
    \<open>runtime/grid_mpi.cc\<close>: process indices, offsets, partitions and neighbours.
  \<^item> \<open>Grid_MPI\<close>: \<open>GridMPI\<close> of \<open>runtime/grid_mpi.h\<close>, \<open>grid_mpi.cc\<close>: local part, halo buffers,
    remote grid, addresses, local reduction.
  \<^item> \<open>Message_Passing\<close>, \<open>Schedules\<close>, \<open>Rounds\<close>: programs of a process over sends, receives,
    broadcasts and collectives (\<open>runtime/mpi_wrapper.cc\<close>), networks of them, the step
    relation of a network, and why one run stands for every schedule.
  \<^item> \<open>Grid_Space_MPI\<close>: the operations of \<open>GridSpaceMPI\<close>: creation, exchange of boundaries,
    loading of subgrids and of neighbours, reductions.
  \<^item> \<open>Rpc_MPI\<close>: \<open>Master\<close> and \<open>Client\<close> of \<open>runtime/rpc_mpi.h\<close>, \<open>rpc_mpi.cc\<close>.
  \<^item> \<open>Runtime_Common\<close>: command-line options of \<open>runtime/runtime_common.cc\<close>.
  \<^item> \<open>Domain\<close>: stencil domains of \<open>include/physis/physis_common.h\<close>, \<open>runtime/mpi_runtime.cc\<close>
    and \<open>runtime/reference_runtime.cc\<close>.
  \<^item> \<open>Mpi_Runtime\<close>, \<open>Element_Access\<close>: the interface of \<open>runtime/mpi_runtime.cc\<close>.
  \<^item> \<open>Halo_Layers\<close>, \<open>Halo_Slots\<close>, \<open>Halo_Local\<close>, \<open>Halo_Exchange\<close>, \<open>Halo_Neighbours\<close>, \<open>Halo_Runs\<close>:
    no code of their own, the correctness of \<open>ExchangeBoundaries\<close> and \<open>LoadNeighbor\<close>.
    \<open>Cuda_Lines\<close>, \<open>Cuda_Slots\<close>, \<open>Cuda_Exchange\<close>, \<open>Cuda_Rounds\<close>, \<open>Cuda_Load\<close>: the same for grids on
    devices, over the rounds of \<open>Halo_Exchange\<close> and the places of \<open>Halo_Neighbours\<close>.
  \<^item> \<open>Ref_Runtime\<close>: \<open>runtime/reference_runtime.cc\<close> and \<open>include/physis/physis_ref.h\<close>.
  \<^item> \<open>Cuda_Memory\<close>: the CUDA library as the code uses it, an argument with stated laws.
    \<open>Cuda_Runtime\<close>: \<open>runtime/cuda_runtime.cc\<close>, \<open>include/physis/physis_cuda.h\<close>,
    \<open>runtime/reduce_cuda.h\<close>, \<open>reduce_cuda.cu\<close>. \<open>Cuda_Buffer\<close>: \<open>runtime/buffer_cuda.h\<close> and
    \<open>buffer_cuda.cu\<close>, with the copy kernel. A heap is the host's memory; the state of the
    device is abstract and a function tells what its blocks hold.
  \<^item> \<open>Device_Access\<close>: the accessors of kernels in \<open>include/physis/physis_mpi_cuda.h\<close> and the
    structure \<open>runtime/grid_mpi_cuda.cc\<close> fills for them.
  \<^item> \<open>Cuda_Grid\<close>, \<open>Cuda_Space\<close>: \<open>GridMPICUDA3D\<close> and \<open>GridSpaceMPICUDA\<close> of
    \<open>runtime/grid_mpi_cuda.h\<close> and \<open>grid_mpi_cuda.cc\<close>, \<open>reduce_mpi_cuda.cu\<close> and the copies of
    \<open>rpc_mpi_cuda.cc\<close>: distributed grids whose parts are in pitched memory of devices and whose
    halos go through mapped, plain and pinned host memory.
  \<^item> \<open>Stencil_Range\<close>: \<open>translator/stencil_range.h\<close>, \<open>stencil_range.cc\<close>, the part of the
    translator that collects the offsets a kernel reads and so decides the halo widths.
  \<^item> \<open>Fixpoint\<close>: the \<open>while (changed)\<close> loop of the translator's analyses. \<open>Syntax_Tree\<close>: the
    parts of a syntax tree they read and the accessors of \<open>translator/rose_util.cc\<close> they use.
    \<open>Def_Analysis\<close>, \<open>Alias_Analysis\<close>: \<open>translator/def_analysis.cc\<close>, the definitions that
    reach a domain variable, and \<open>translator/alias_analysis.cc\<close>, the variables a grid variable
    of a kernel may stand for. \<open>Grid_Type\<close>: how \<open>translator/grid.cc\<close>, \<open>domain.cc\<close> and
    \<open>translation_context.cc\<close> recognise grids, domains and calls on grids.
  \<^item> \<open>Stencil_Analysis\<close>: \<open>translator/stencil_analysis.cc\<close>, from the accesses of a kernel to its
    ranges. \<open>Range_Builder\<close>: the statements \<open>translator/translation_util.cc\<close> generates for an
    irregular range. \<open>Kernel_Access\<close>: \<open>translator/kernel.cc\<close>, the grids and parameters a kernel
    reads and writes.

  \<^bold>\<open>How the parts meet.\<close> \<open>Mpi_Runtime\<close> calls \<open>Rpc_MPI\<close>; a call of the master is a request to the
  clients followed by the operation of \<open>Grid_Space_MPI\<close> on the own space; these use
  \<open>Grid_MPI\<close>, \<open>Host_Buffer\<close> and \<open>Grid_Util\<close>. The locales are \<open>cell_store\<close> (a store that keeps
  what is written at distinct places; interpreted on the grids of both run-times),
  \<open>chunk_store\<close> (a memory from which one-dimensional buffers take their chunks; host, pinned,
  mapped and device memory are its instances), \<open>identified\<close> (objects that carry the identifier they are registered under),
  \<open>block_partition\<close> (parts that cover a range without overlap), \<open>reduction_operator\<close>
  (an operator a part-wise reduction may use), \<open>growing\<close> (handlers of a loop that only add
  facts, monotonically; interpreted on both analyses of the translator), and the laws of what is not in the repository:
  \<open>cuda_memory\<close> and \<open>cuda_room\<close>, met by a device whose memory is a heap, and \<open>thrust_laws\<close> and
  \<open>transform_reduce_law\<close>, met by lists.

  \<^bold>\<open>What the lemmas show.\<close>

  \<^item> Copies: the packed box has the elements of the box, and copying out and in again
    restores it (\<open>Grid_Util\<close>); buffers stay well-formed (\<open>buffer_ok\<close>, \<open>Host_Buffer\<close>).
  \<^item> Grids: life cycle, refinement of \<open>Set\<close> and \<open>Get\<close> to a map, registry, checkpoints
    (\<open>Grid_Base\<close>, \<open>Ref_Runtime\<close>).
  \<^item> Partition: the boxes tile the space, ranks and indices correspond, neighbours agree
    (\<open>Space_Partition\<close>), and stencil domains are tiled like the space (\<open>Domain\<close>).
  \<^item> Distribution: creation, copy-in and copy-out by messages, under every schedule
    (\<open>Rpc_Copy\<close>, \<open>Rpc_Transfer\<close>, \<open>Rpc_Life\<close>, \<open>Rpc_Runs\<close>), up to a whole program started by
    \<open>PSInit\<close> (\<open>Mpi_Runtime\<close>).
  \<^item> Halos: after any interleaving of the processes each reads the right value at every point
    of its stencil neighbourhood, and no process blocks (\<open>Halo_Runs\<close>); the ranges collected by
    the translator are the neighbourhood (\<open>Stencil_Range\<close>), and the device accessors read what
    the host's read (\<open>Device_Access\<close>).
  \<^item> CUDA: a program does the same to the arrays of the user with the CUDA run-time and with
    the reference run-time (\<open>Cuda_Reference\<close>); a pitched buffer refines an array, the box
    copies of the library and of the kernel read and write its lines (\<open>Cuda_Pitched\<close>,
    \<open>Cuda_Boxes\<close>); the reduction of a pitched grid takes each element once (\<open>Cuda_Grid_Laws\<close>);
    after an exchange between devices every kernel reads the right value at every point of its
    stencil neighbourhood from its own device (\<open>Cuda_Load\<close>).
  \<^item> Translator: a loop of handlers that only add facts ends with the least closed set
    (\<open>Fixpoint\<close>), so the two analyses compute reaching definitions and origins exactly; the
    search for an original variable ends unless variables are copied in a circle, and a kernel
    reads and writes exactly the parameters its calls come from. The accesses of a kernel lie
    within the ends of its ranges (\<open>Stencil_Analysis\<close>), the neighbourhood the run-time loads.
  \<^item> Errors: the inputs on which the code fails, stated as such in the component's theory.

  \<^bold>\<open>Bounds and fuel.\<close> \<open>PSIndex\<close> and \<open>int\<close> are mathematical integers, since their overflow is
  undefined; theorems that need it assume that a grid has fewer than \<open>2 ^ 64\<close> bytes.
  \<open>Client_Listen n\<close> serves at most \<open>n\<close> requests and \<open>load_loop\<close> takes fuel; the theorems give
  the number that is enough for the calls they speak about, and running out is the fault
  \<open>Blocked\<close>, which no theorem assumes away.

  \<^bold>\<open>Not modelled.\<close> \<open>runtime/mpi_cuda_runtime.cc\<close> and the remote
  calls over grids on devices; \<open>runtime/buffer_cuda.cc\<close>, an old file no build
  uses; the rest of the translator, whose steps are calls of the ROSE compiler library; the
  wrappers of Lua and of log streams; timing and printing. \<open>MPI_Isend\<close> is a send that is
  complete at once, so a buffer reused while a send is pending is not seen, and streams of the
  device are left out because each asynchronous copy is followed by a wait. Arithmetic on
  floating-point elements, the reduction of the MPI library, the comparison operators that
  \<open>boost::array\<close> gives to \<open>IndexArray\<close>, the order in which the threads of a kernel run, and
  generated stencil functions are arguments. Halos with diagonal points are modelled but
  nothing is proved of their contents.
\<close>

end
